(* ===== verification/Prelude.thy ===== *)
theory Prelude
  imports Main "HOL-Library.Word"
begin

text \<open>
  What every component shares: the machine integers of the Rust sources as words, their checked
  and saturating operations, slices with Rust's bounds checks, big-endian octet strings, strings
  as octets, and the two result monads (a plain \<open>Result\<close>, and a \<open>Result\<close> over a mutable state)
  with the congruence and inversion rules the component theories rely on.

  A \<open>usize\<close> is a \<open>nat\<close>: every one of them here counts octets or elements of something held in
  memory, so it is far below the bound of the type, and the \<open>saturating_add\<close> calls on positions
  never saturate. A Rust \<open>String\<close> or \<open>&str\<close> is its UTF-8 octets, a \<open>string\<close> of eight-bit
  characters, and \<open>len\<close> counts octets as Rust does.
\<close>

unbundle bit_operations_syntax

named_theorems codec_simps \<open>octet-level facts of encoders and decoders\<close>
named_theorems emits_intro \<open>what a writer appends to its buffer\<close>

section \<open>Machine integers\<close>

type_synonym u8 = "8 word"
type_synonym u16 = "16 word"
type_synonym u32 = "32 word"
type_synonym u64 = "64 word"
type_synonym i64 = "64 word" \<comment> \<open>two's complement, read with \<open>sint\<close>\<close>
type_synonym i32 = "32 word" \<comment> \<open>two's complement, read with \<open>sint\<close>\<close>
type_synonym usize = nat
type_synonym bytes = "u8 list"

definition sat_add :: "'a::len word \<Rightarrow> 'a word \<Rightarrow> 'a word" where
  "sat_add a b = (if unat a + unat b < 2 ^ LENGTH('a) then a + b else - 1)"

definition sat_sub :: "'a::len word \<Rightarrow> 'a word \<Rightarrow> 'a word" where
  "sat_sub a b = (if b \<le> a then a - b else 0)"

definition sat_mul :: "'a::len word \<Rightarrow> 'a word \<Rightarrow> 'a word" where
  "sat_mul a b = (if unat a * unat b < 2 ^ LENGTH('a) then a * b else - 1)"

definition checked_add :: "'a::len word \<Rightarrow> 'a word \<Rightarrow> 'a word option" where
  "checked_add a b = (if unat a + unat b < 2 ^ LENGTH('a) then Some (a + b) else None)"

definition checked_sub :: "'a::len word \<Rightarrow> 'a word \<Rightarrow> 'a word option" where
  "checked_sub a b = (if b \<le> a then Some (a - b) else None)"

definition checked_mul :: "'a::len word \<Rightarrow> 'a word \<Rightarrow> 'a word option" where
  "checked_mul a b = (if unat a * unat b < 2 ^ LENGTH('a) then Some (a * b) else None)"

text \<open>\<open>u8::try_from\<close> and its kin: a wider value narrowed, or \<open>None\<close> when it does not fit.\<close>

definition narrow :: "'a::len word \<Rightarrow> 'b::len word option" where
  "narrow w = (if unat w < 2 ^ LENGTH('b) then Some (ucast w) else None)"

lemma unat_max_word: "unat (- 1 :: 'a::len word) = 2 ^ LENGTH('a) - 1"
  by (simp add: unsigned_minus_1_eq_mask mask_eq_exp_minus_1)

lemma unat_lt_exp: "unat (w :: 'a::len word) < 2 ^ LENGTH('a)"
  by (rule unsigned_less)

lemma unat_le_max: "unat (w :: 'a::len word) \<le> 2 ^ LENGTH('a) - 1"
  using unat_lt_exp [of w] by arith

lemma unat_sat_add:
  "unat (sat_add a b) = min (unat (a :: 'a::len word) + unat b) (2 ^ LENGTH('a) - 1)"
  by (auto simp: sat_add_def unat_word_ariths unat_max_word min_def)

lemma unat_sat_sub: "unat (sat_sub a b) = unat a - unat b"
  by (auto simp: sat_sub_def unat_sub word_le_nat_alt)

lemma unat_sat_mul:
  "unat (sat_mul a b) = min (unat (a :: 'a::len word) * unat b) (2 ^ LENGTH('a) - 1)"
proof (cases "unat a * unat b < 2 ^ LENGTH('a)")
  case True
  then have "unat a * unat b \<le> 2 ^ LENGTH('a) - 1" by arith
  with True show ?thesis by (simp add: sat_mul_def unat_word_ariths)
next
  case False
  then have "2 ^ LENGTH('a) - 1 \<le> unat a * unat b" by arith
  with False show ?thesis by (simp add: sat_mul_def unat_max_word)
qed

lemma le_sat_add [simp]: "a \<le> sat_add (a :: 'a::len word) b"
  using unat_le_max [of a] by (simp add: word_le_nat_alt unat_sat_add)

lemma sat_add_less:
  "unat a + unat b < 2 ^ LENGTH('a) \<Longrightarrow> b \<noteq> 0 \<Longrightarrow> (a :: 'a::len word) < sat_add a b"
  by (auto simp: word_less_nat_alt unat_sat_add unat_gt_0)

lemma unat_mult_le: "unat a * unat b < 2 ^ LENGTH('a) \<Longrightarrow> unat ((a :: 'a::len word) * b) = unat a * unat b"
  by (simp add: unat_word_ariths)

lemma unat_plus_le: "unat a + unat b < 2 ^ LENGTH('a) \<Longrightarrow> unat ((a :: 'a::len word) + b) = unat a + unat b"
  by (simp add: unat_word_ariths)

lemma unat_ucast_up:
  assumes "LENGTH('a) \<le> LENGTH('b)"
  shows "unat (ucast (w :: 'a::len word) :: 'b::len word) = unat w"
proof -
  have "(2::nat) ^ LENGTH('a) \<le> 2 ^ LENGTH('b)" using assms by simp
  then have "unat w < 2 ^ LENGTH('b)" using unat_lt_exp [of w] by linarith
  then show ?thesis by (simp add: unsigned_ucast_eq take_bit_eq_mod)
qed

lemma unat_ucast_down: "unat (ucast (w :: 'a::len word) :: 'b::len word) = unat w mod 2 ^ LENGTH('b)"
  by (simp add: unsigned_ucast_eq take_bit_eq_mod)

lemma unat_take_bit: "unat (take_bit n (w :: 'a::len word)) = unat w mod 2 ^ n"
  by (subst unsigned_take_bit_eq) (simp add: take_bit_eq_mod)

lemma unat_drop_bit: "unat (drop_bit n (w :: 'a::len word)) = unat w div 2 ^ n"
  by (subst unsigned_drop_bit_eq) (simp add: drop_bit_eq_div take_bit_eq_mod unat_lt_exp)

lemma unat_narrow: "narrow (w :: 'a::len word) = Some (v :: 'b::len word) \<Longrightarrow> unat v = unat w"
  by (auto simp: narrow_def unsigned_ucast_eq take_bit_eq_mod split: if_splits)

lemma narrow_ucast:
  assumes "LENGTH('b) \<le> LENGTH('a)"
  shows "narrow (ucast (v :: 'b::len word) :: 'a::len word) = Some v"
proof -
  have "(2::nat) ^ LENGTH('b) \<le> 2 ^ LENGTH('a)" using assms by simp
  then have "unat v < 2 ^ LENGTH('a)" using unat_lt_exp [of v] by linarith
  then have "unat (ucast v :: 'a word) = unat v"
    by (simp add: unsigned_ucast_eq take_bit_eq_mod)
  moreover have "ucast (ucast v :: 'a word) = v"
    using assms by (intro bit_word_eqI) (auto simp: bit_simps dest: bit_imp_le_length)
  ultimately show ?thesis using unat_lt_exp [of v] by (simp add: narrow_def)
qed

section \<open>Slices\<close>

text \<open>\<open>.get(i)\<close>, \<open>.get(a..b)\<close> and \<open>.get(a..)\<close>: \<open>None\<close> where the range is not inside the slice.\<close>

definition get_at :: "'a list \<Rightarrow> nat \<Rightarrow> 'a option" where
  "get_at xs i = (if i < length xs then Some (xs ! i) else None)"

definition slice :: "'a list \<Rightarrow> nat \<Rightarrow> nat \<Rightarrow> 'a list option" where
  "slice xs a b = (if a \<le> b \<and> b \<le> length xs then Some (take (b - a) (drop a xs)) else None)"

definition slice_from :: "'a list \<Rightarrow> nat \<Rightarrow> 'a list option" where
  "slice_from xs a = (if a \<le> length xs then Some (drop a xs) else None)"

text \<open>\<open>out[a..a+n].copy_from_slice(src)\<close>, for a range the caller has checked.\<close>

definition put_slice :: "'a list \<Rightarrow> nat \<Rightarrow> 'a list \<Rightarrow> 'a list" where
  "put_slice out a src = take a out @ src @ drop (a + length src) out"

lemma get_at_drop: "drop p xs = y # ys \<Longrightarrow> get_at xs p = Some y \<and> drop (Suc p) xs = ys"
  by (cases "p < length xs") (auto simp: get_at_def Cons_nth_drop_Suc [symmetric])

lemma get_at_Some_iff: "get_at xs p = Some y \<longleftrightarrow> p < length xs \<and> xs ! p = y"
  by (auto simp: get_at_def)

lemma get_at_None_iff: "get_at xs p = None \<longleftrightarrow> length xs \<le> p"
  by (auto simp: get_at_def)

lemma slice_drop:
  "drop p xs = ys @ zs \<Longrightarrow> p \<le> length xs \<Longrightarrow> slice xs p (p + length ys) = Some ys"
proof -
  assume d: "drop p xs = ys @ zs" and p: "p \<le> length xs"
  from d have "length xs - p = length ys + length zs" by (metis length_append length_drop)
  with p have "p + length ys \<le> length xs" by arith
  then show ?thesis by (simp add: slice_def d)
qed

lemma drop_after: "drop p xs = ys @ zs \<Longrightarrow> drop (p + length ys) xs = zs"
  by (metis add.commute append_eq_conv_conj drop_drop)

lemma slice_Some_iff:
  "slice xs a b = Some ys \<longleftrightarrow> a \<le> b \<and> b \<le> length xs \<and> ys = take (b - a) (drop a xs)"
  by (auto simp: slice_def)

lemma length_slice: "slice xs a b = Some ys \<Longrightarrow> length ys = b - a"
  by (auto simp: slice_Some_iff)

lemma length_put_slice [simp]: "a + length src \<le> length out \<Longrightarrow> length (put_slice out a src) = length out"
  by (simp add: put_slice_def)

lemma slice_put_same: "a + length src \<le> length out \<Longrightarrow> slice (put_slice out a src) a (a + length src) = Some src"
  by (simp add: slice_def put_slice_def)

lemma slice_put_other:
  assumes "a + length src \<le> length out" "d \<le> a \<or> a + length src \<le> c"
  shows "slice (put_slice out a src) c d = slice out c d"
proof (cases "c \<le> d \<and> d \<le> length out")
  case True
  have "take (d - c) (drop c (put_slice out a src)) = take (d - c) (drop c out)"
    using assms(2)
  proof
    assume "d \<le> a"
    then show ?thesis using True assms(1) by (simp add: put_slice_def drop_take)
  next
    assume "a + length src \<le> c"
    then show ?thesis using assms(1) by (simp add: put_slice_def)
  qed
  then show ?thesis using True assms(1) by (simp add: slice_def)
qed (use assms(1) in \<open>auto simp: slice_def\<close>)

section \<open>Big-endian octets\<close>

text \<open>
  \<open>to_be n w\<close> are the low \<open>n\<close> octets of \<open>w\<close>, most significant first (\<open>to_be_bytes\<close> when \<open>n\<close> is the
  width of the type); \<open>be_acc\<close> is the accumulation loop \<open>acc = (acc << 8) | b\<close> every reader runs,
  and \<open>from_be\<close> starts it at zero (\<open>from_be_bytes\<close>).
\<close>

primrec to_be :: "nat \<Rightarrow> 'a::len word \<Rightarrow> bytes" where
  "to_be 0 w = []"
| "to_be (Suc n) w = to_be n (drop_bit 8 w) @ [ucast w]"

definition be_acc :: "'a::len word \<Rightarrow> bytes \<Rightarrow> 'a word" where
  "be_acc a bs = foldl (\<lambda>acc b. push_bit 8 acc OR ucast b) a bs"

abbreviation from_be :: "bytes \<Rightarrow> 'a::len word" where
  "from_be bs \<equiv> be_acc 0 bs"

lemma length_to_be [simp]: "length (to_be n w) = n"
  by (induction n arbitrary: w) simp_all

lemma to_be_1: "to_be 1 w = [ucast w]"
  by simp

lemma to_be_2: "to_be 2 w = [ucast (drop_bit 8 w), ucast w]"
  by (simp add: numeral_eq_Suc)

lemma to_be_4: "to_be 4 w = [ucast (drop_bit 24 w), ucast (drop_bit 16 w), ucast (drop_bit 8 w), ucast w]"
  by (simp add: numeral_eq_Suc drop_bit_drop_bit)

lemma be_acc_Nil [simp]: "be_acc a [] = a"
  by (simp add: be_acc_def)

lemma be_acc_Cons: "be_acc a (b # bs) = be_acc (push_bit 8 a OR ucast b) bs"
  by (simp add: be_acc_def)

lemma be_acc_append [simp]: "be_acc a (bs @ cs) = be_acc (be_acc a bs) cs"
  by (simp add: be_acc_def)

lemma be_acc_snoc: "be_acc a (bs @ [b]) = push_bit 8 (be_acc a bs) OR ucast b"
  by (simp add: be_acc_Cons)

lemma push_or_octet: "push_bit 8 a OR ucast (b :: u8) = a * 256 + (ucast b :: 'a::len word)"
proof -
  have "push_bit 8 a AND (ucast b :: 'a word) = 0"
    by (rule bit_word_eqI) (auto simp: bit_simps dest: bit_imp_le_length)
  then have "push_bit 8 a OR ucast b = push_bit 8 a + (ucast b :: 'a word)"
    by (simp add: disjunctive_add_eq_or)
  then show ?thesis by (simp add: push_bit_eq_mult mult.commute)
qed

lemma from_be_to_be: "from_be (to_be n w) = take_bit (8 * n) w"
proof (induction n arbitrary: w)
  case (Suc n)
  show ?case
    by (simp add: Suc.IH be_acc_Cons) (rule bit_word_eqI, auto simp: bit_simps)
qed simp

lemma from_be_to_be_full: "LENGTH('a) \<le> 8 * n \<Longrightarrow> from_be (to_be n w) = (w :: 'a::len word)"
  by (simp add: from_be_to_be) (rule bit_word_eqI, auto simp: bit_simps)

lemma from_be_high_bits: "bit (from_be bs :: 'a::len word) n \<Longrightarrow> n < 8 * length bs"
  by (induction bs arbitrary: n rule: rev_induct)
    (force simp: be_acc_Cons bit_simps dest: bit_imp_le_length)+

lemma to_be_from_be: "8 * length bs \<le> LENGTH('a) \<Longrightarrow> to_be (length bs) (from_be bs :: 'a::len word) = bs"
proof (induction bs rule: rev_induct)
  case (snoc b bs)
  have "drop_bit 8 (push_bit 8 (from_be bs) OR ucast b :: 'a word) = from_be bs"
  proof (rule bit_word_eqI)
    fix n
    assume "n < LENGTH('a)"
    then show "bit (drop_bit 8 (push_bit 8 (from_be bs) OR ucast b :: 'a word)) n = bit (from_be bs :: 'a word) n"
      using snoc.prems by (auto simp: bit_simps dest: bit_imp_le_length from_be_high_bits)
  qed
  moreover have "ucast (push_bit 8 (from_be bs) OR ucast b :: 'a word) = b"
    using snoc.prems by (intro bit_word_eqI) (auto simp: bit_simps)
  ultimately show ?case using snoc by (simp add: be_acc_Cons)
qed simp

lemma to_be_from_be_len [simp]:
  "length bs = n \<Longrightarrow> 8 * n \<le> LENGTH('a) \<Longrightarrow> to_be n (from_be bs :: 'a::len word) = bs"
  using to_be_from_be by blast

lemma be_acc_ring: "be_acc (a :: 'a::len word) bs = a * 256 ^ length bs + be_acc 0 bs"
proof (induction bs rule: rev_induct)
  case (snoc b bs)
  show ?case by (simp add: be_acc_Cons push_or_octet snoc.IH algebra_simps)
qed simp

lemma to_be_nth: "i < n \<Longrightarrow> to_be n w ! i = ucast (drop_bit (8 * (n - 1 - i)) w)"
proof (induction n arbitrary: w)
  case (Suc n)
  show ?case
  proof (cases "i = n")
    case False
    then have "8 + 8 * (n - 1 - i) = 8 * (Suc n - 1 - i)" using Suc.prems by simp
    then show ?thesis using Suc False by (simp only: to_be.simps nth_append length_to_be drop_bit_drop_bit ac_simps) simp
  qed (simp add: nth_append)
qed simp

lemma drop_to_be: "w \<le> n \<Longrightarrow> drop (n - w) (to_be n v) = to_be w v"
proof (induction n arbitrary: v w)
  case (Suc n)
  then show ?case by (cases w) (auto simp: Suc_diff_le)
qed simp

text \<open>Leading octets that only repeat the sign do not change the value the reader accumulates.\<close>

lemma be_acc_zero_octet [simp]: "be_acc 0 (0 # bs) = be_acc 0 bs"
  by (simp add: be_acc_Cons)

lemma be_acc_ones_octet [simp]: "be_acc (- 1 :: 'a::len word) (255 # bs) = be_acc (- 1) bs"
  by (simp only: be_acc_Cons push_or_octet) simp

definition be_nat :: "nat \<Rightarrow> bytes \<Rightarrow> nat" where
  "be_nat a bs = foldl (\<lambda>acc b. push_bit 8 acc OR unat b) a bs"

lemma push_or_octet_nat: "push_bit 8 a OR unat (b :: u8) = a * 256 + unat b"
proof -
  have "unat b < 2 ^ 8" using unat_lt_exp [of b] by simp
  then have "push_bit 8 a AND unat b = 0"
    by (intro bit_eqI) (auto simp: bit_simps dest: bit_imp_le_length)
  then show ?thesis
    by (simp add: disjunctive_add_eq_or [symmetric] push_bit_eq_mult mult.commute)
qed

lemma be_nat_Nil [simp]: "be_nat a [] = a"
  by (simp add: be_nat_def)

lemma be_nat_Cons [simp]: "be_nat a (b # bs) = be_nat (a * 256 + unat b) bs"
  by (simp add: be_nat_def push_or_octet_nat)

lemma be_nat_append [simp]: "be_nat a (bs @ cs) = be_nat (be_nat a bs) cs"
  by (simp add: be_nat_def)

lemma be_nat_to_be: "be_nat 0 (to_be n w) = unat w mod 256 ^ n"
proof (induction n arbitrary: w)
  case (Suc n)
  have "unat w div 256 mod 256 ^ n * 256 + unat w mod 256 = unat w mod 256 ^ Suc n"
    by (metis mod_mult2_eq power_Suc mult.commute)
  moreover have "unat (drop_bit 8 w) = unat w div 256"
    by (subst unat_drop_bit_eq) (simp add: drop_bit_eq_div)
  moreover have "unat (ucast w :: u8) = unat w mod 256"
    by (simp add: unsigned_ucast_eq take_bit_eq_mod)
  ultimately show ?case by (simp add: Suc.IH)
qed simp

lemma be_nat_leading_zero: "be_nat 0 (0 # bs) = be_nat 0 bs"
  by simp

text \<open>The two octets of a sixteen-bit field, as the parsers pick them out.\<close>

lemma to_be_2_octets:
  obtains a b where "to_be 2 (w :: u16) = [a, b]" "from_be [a, b] = w"
proof -
  have "from_be (to_be 2 w) = take_bit 16 w" by (simp add: from_be_to_be)
  also have "\<dots> = w" by (rule bit_word_eqI) (simp add: bit_simps)
  finally show thesis using that by (simp add: to_be_2)
qed

lemma take_bit_full [simp]: "LENGTH('a) \<le> n \<Longrightarrow> take_bit n (w :: 'a::len word) = w"
  by (rule bit_word_eqI) (auto simp: bit_simps)

text \<open>Octets bit by bit.\<close>

lemma octet_mask:
  "((b::8 word) AND 0x80 = 0) = (\<not> bit b 7)"
  "((b::8 word) AND 0x40 = 0) = (\<not> bit b 6)"
  "((b::8 word) AND 0x20 = 0) = (\<not> bit b 5)"
  "((b::8 word) AND 0x10 = 0) = (\<not> bit b 4)"
  "((b::8 word) AND 0x8 = 0) = (\<not> bit b 3)"
  "((b::8 word) AND 0x4 = 0) = (\<not> bit b 2)"
  "((b::8 word) AND 0x2 = 0) = (\<not> bit b 1)"
  "((b::8 word) AND 0x1 = 0) = (\<not> bit b 0)"
  using and_exp_eq_0_iff_not_bit [of b 7] and_exp_eq_0_iff_not_bit [of b 6]
    and_exp_eq_0_iff_not_bit [of b 5] and_exp_eq_0_iff_not_bit [of b 4]
    and_exp_eq_0_iff_not_bit [of b 3] and_exp_eq_0_iff_not_bit [of b 2]
    and_exp_eq_0_iff_not_bit [of b 1] and_exp_eq_0_iff_not_bit [of b 0]
  by simp_all

lemma octet_eqI:
  assumes "bit a 0 = bit b 0" "bit a 1 = bit b 1" "bit a 2 = bit b 2" "bit a 3 = bit b 3"
    "bit a 4 = bit b 4" "bit a 5 = bit b 5" "bit a 6 = bit b 6" "bit a 7 = bit b 7"
  shows "a = (b :: 8 word)"
proof (rule bit_word_eqI)
  fix n :: nat
  assume "n < LENGTH(8)"
  then have "n \<in> {0,1,2,3,4,5,6,7}" by auto
  with assms show "bit a n = bit b n" by auto
qed

section \<open>Strings\<close>

definition octet :: "char \<Rightarrow> u8" where
  "octet c = of_nat (of_char c)"

definition char_of_octet :: "u8 \<Rightarrow> char" where
  "char_of_octet b = char_of (unat b)"

definition as_bytes :: "string \<Rightarrow> bytes" where
  "as_bytes s = map octet s"

definition str_of_bytes :: "bytes \<Rightarrow> string" where
  "str_of_bytes bs = map char_of_octet bs"

definition is_ascii :: "bytes \<Rightarrow> bool" where
  "is_ascii bs \<longleftrightarrow> list_all (\<lambda>b. b < 0x80) bs"

abbreviation ascii_str :: "string \<Rightarrow> bool" where
  "ascii_str s \<equiv> is_ascii (as_bytes s)"

lemma octet_char_of_octet [simp]: "octet (char_of_octet b) = b"
proof -
  have "unat b < 256" using unat_lt_exp [of b] by simp
  then show ?thesis by (simp add: octet_def char_of_octet_def)
qed

lemma char_of_octet_octet [simp]: "char_of_octet (octet c) = c"
proof -
  have "(of_char c :: nat) < 256" by simp
  then show ?thesis by (simp add: octet_def char_of_octet_def unat_of_nat)
qed

lemma length_as_bytes [simp]: "length (as_bytes s) = length s"
  by (simp add: as_bytes_def)

lemma str_of_as_bytes [simp]: "str_of_bytes (as_bytes s) = s"
  by (simp add: str_of_bytes_def as_bytes_def o_def)

lemma as_bytes_str_of [simp]: "as_bytes (str_of_bytes bs) = bs"
  by (simp add: str_of_bytes_def as_bytes_def o_def)

text \<open>\<open>core::str::from_utf8\<close>: the well-formed sequences of RFC 3629, shortest form only, no surrogates.\<close>

definition utf8_cont :: "u8 \<Rightarrow> bool" where
  "utf8_cont b \<longleftrightarrow> 0x80 \<le> b \<and> b \<le> 0xBF"

fun utf8_valid :: "bytes \<Rightarrow> bool" where
  "utf8_valid [] = True"
| "utf8_valid (b # rest) =
     (if b < 0x80 then utf8_valid rest
      else if 0xC2 \<le> b \<and> b \<le> 0xDF then
        (case rest of c # r \<Rightarrow> utf8_cont c \<and> utf8_valid r | _ \<Rightarrow> False)
      else if 0xE0 \<le> b \<and> b \<le> 0xEF then
        (case rest of c # d # r \<Rightarrow>
            (if b = 0xE0 then 0xA0 \<le> c \<and> c \<le> 0xBF
             else if b = 0xED then 0x80 \<le> c \<and> c \<le> 0x9F else utf8_cont c)
            \<and> utf8_cont d \<and> utf8_valid r
         | _ \<Rightarrow> False)
      else if 0xF0 \<le> b \<and> b \<le> 0xF4 then
        (case rest of c # d # e # r \<Rightarrow>
            (if b = 0xF0 then 0x90 \<le> c \<and> c \<le> 0xBF
             else if b = 0xF4 then 0x80 \<le> c \<and> c \<le> 0x8F else utf8_cont c)
            \<and> utf8_cont d \<and> utf8_cont e \<and> utf8_valid r
         | _ \<Rightarrow> False)
      else False)"

definition from_utf8 :: "bytes \<Rightarrow> string option" where
  "from_utf8 bs = (if utf8_valid bs then Some (str_of_bytes bs) else None)"

lemma ascii_utf8_valid: "is_ascii bs \<Longrightarrow> utf8_valid bs"
  by (induction bs) (simp_all add: is_ascii_def)

section \<open>Results\<close>

text \<open>
  \<open>rbind\<close> is the \<open>?\<close> operator on a plain \<open>Result\<close>. \<open>sbind\<close> is the same operator for a method
  that takes \<open>&mut self\<close>: an error keeps the state the method had reached, because the source
  keeps it too.
\<close>

fun rbind :: "'e + 'a \<Rightarrow> ('a \<Rightarrow> 'e + 'b) \<Rightarrow> 'e + 'b" where
  "rbind (Inl e) f = Inl e"
| "rbind (Inr x) f = f x"

type_synonym ('e, 's, 'a) st = "'s \<Rightarrow> ('e + 'a) \<times> 's"

definition sreturn :: "'a \<Rightarrow> ('e, 's, 'a) st" where
  "sreturn x s = (Inr x, s)"

definition sfail :: "'e \<Rightarrow> ('e, 's, 'a) st" where
  "sfail e s = (Inl e, s)"

definition slift :: "'e + 'a \<Rightarrow> ('e, 's, 'a) st" where
  "slift r s = (r, s)"

definition sbind :: "('e, 's, 'a) st \<Rightarrow> ('a \<Rightarrow> ('e, 's, 'b) st) \<Rightarrow> ('e, 's, 'b) st" where
  "sbind m f s = (case m s of (Inl e, t) \<Rightarrow> (Inl e, t) | (Inr x, t) \<Rightarrow> f x t)"

primrec sfor :: "('a \<Rightarrow> ('e, 's, unit) st) \<Rightarrow> 'a list \<Rightarrow> ('e, 's, unit) st" where
  "sfor f [] = sreturn ()"
| "sfor f (x # xs) = sbind (f x) (\<lambda>_. sfor f xs)"

definition ok_or :: "'e \<Rightarrow> 'a option \<Rightarrow> 'e + 'a" where
  "ok_or e x = (case x of None \<Rightarrow> Inl e | Some y \<Rightarrow> Inr y)"

definition is_ok :: "'e + 'a \<Rightarrow> bool" where
  "is_ok r = (case r of Inl _ \<Rightarrow> False | Inr _ \<Rightarrow> True)"

lemma is_ok_simps [simp]: "is_ok (Inr x)" "\<not> is_ok (Inl e)"
  by (simp_all add: is_ok_def)

lemma rbind_cong [fundef_cong]:
  "m = m' \<Longrightarrow> (\<And>x. m' = Inr x \<Longrightarrow> f x = g x) \<Longrightarrow> rbind m f = rbind m' g"
  by (cases m') auto

lemma rbind_Inr_iff: "rbind m f = Inr y \<longleftrightarrow> (\<exists>x. m = Inr x \<and> f x = Inr y)"
  by (cases m) auto

lemma rbind_Inl_iff: "rbind m f = Inl e \<longleftrightarrow> m = Inl e \<or> (\<exists>x. m = Inr x \<and> f x = Inl e)"
  by (cases m) auto

lemma ok_or_simps [simp]: "ok_or e None = Inl e" "ok_or e (Some y) = Inr y"
  by (simp_all add: ok_or_def)

lemma ok_or_Inr_iff: "ok_or e x = Inr y \<longleftrightarrow> x = Some y"
  by (cases x) auto

text \<open>What every successful outcome satisfies, branch by branch.\<close>

definition ok_all :: "('a \<Rightarrow> bool) \<Rightarrow> 'e + 'a \<Rightarrow> bool" where
  "ok_all P r = (case r of Inl _ \<Rightarrow> True | Inr x \<Rightarrow> P x)"

lemma ok_all_simps [simp]: "ok_all P (Inl e)" "ok_all P (Inr x) = P x"
  by (simp_all add: ok_all_def)

lemma ok_all_if: "(b \<Longrightarrow> ok_all P x) \<Longrightarrow> (\<not> b \<Longrightarrow> ok_all P y) \<Longrightarrow> ok_all P (if b then x else y)"
  by simp

lemma ok_all_bind: "(\<And>x. m = Inr x \<Longrightarrow> ok_all P (f x)) \<Longrightarrow> ok_all P (rbind m f)"
  by (cases m) simp_all

lemmas ok_all_intros = ok_all_if ok_all_bind

lemma ok_allD: "ok_all P r \<Longrightarrow> r = Inr x \<Longrightarrow> P x"
  by simp

lemma sbind_cong [fundef_cong]:
  "m s = m' s' \<Longrightarrow> (\<And>x t. m' s' = (Inr x, t) \<Longrightarrow> f x t = g x t) \<Longrightarrow> s = s' \<Longrightarrow>
    sbind m f s = sbind m' g s'"
  by (auto simp: sbind_def split: prod.splits sum.splits)

lemma sbind_Inr: "m s = (Inr x, t) \<Longrightarrow> sbind m f s = f x t"
  by (simp add: sbind_def)

lemma sbind_Inl: "m s = (Inl e, t) \<Longrightarrow> sbind m f s = (Inl e, t)"
  by (simp add: sbind_def)

lemma sbind_Inr_iff:
  "sbind m f s = (Inr y, u) \<longleftrightarrow> (\<exists>x t. m s = (Inr x, t) \<and> f x t = (Inr y, u))"
  by (auto simp: sbind_def split: prod.splits sum.splits)

lemma smonad_simps [simp]:
  "sreturn x s = (Inr x, s)" "sfail e s = (Inl e, s)" "slift r s = (r, s)"
  "sbind (sreturn x) f = f x" "sbind (sfail e) f = sfail e"
  by (auto simp: sreturn_def sfail_def slift_def sbind_def fun_eq_iff)

section \<open>Writers\<close>

text \<open>
  A writer appends to a buffer and can only fail; \<open>emits m bs\<close> says it succeeds from every buffer and
  appends exactly \<open>bs\<close>. Sequences and loops of writers emit the concatenation.
\<close>

definition emits :: "('e, 'b list, unit) st \<Rightarrow> 'b list \<Rightarrow> bool" where
  "emits m bs \<longleftrightarrow> (\<forall>s. m s = (Inr (), s @ bs))"

lemma emitsD: "emits m bs \<Longrightarrow> m s = (Inr (), s @ bs)"
  by (simp add: emits_def)

lemma emitsI: "(\<And>s. m s = (Inr (), s @ bs)) \<Longrightarrow> emits m bs"
  by (simp add: emits_def)

lemma emits_return [emits_intro]: "emits (sreturn ()) []"
  by (simp add: emits_def)

lemma emits_bind [emits_intro]: "emits m bs \<Longrightarrow> emits (f ()) cs \<Longrightarrow> emits (sbind m f) (bs @ cs)"
  by (auto simp: emits_def sbind_def)

lemma emits_for:
  "(\<And>x. x \<in> set xs \<Longrightarrow> emits (f x) (g x)) \<Longrightarrow> emits (sfor f xs) (concat (map g xs))"
  by (induction xs) (auto intro: emits_intro)

end
