(* ===== verification/Errors.thy ===== *)
theory Errors
  imports Prelude
begin

text \<open>
  The crate's one error type and its decode limits (\<open>src/common/error.rs\<close>,
  \<open>src/common/limits.rs\<close>): one constructor per variant. Every fallible function of the model
  returns \<open>error + 'a\<close>, so each \<open>Err\<close> of the sources is a value here.
\<close>

datatype decode_reason =
    Truncated
  | BadLength
  | IndefiniteLength
  | UnexpectedTag
  | MissingField
  | BadValue
  | TooDeep
  | TrailingBytes
  | NotAscii
  | NotProcessBusFrame

datatype error =
    Decode decode_reason usize
  | LimitExceeded string usize
  | Encode string
  | InvalidReference string
  | NotFound string
  | InvalidValue string
  | Scl string
  | Io string
  | Service u32 i64
  | DataAccess i64
  | Rejected "i64 option" u32 i64
  | ControlRejected i64

type_synonym 'a result = "error + 'a"

definition data_access_reason :: "i64 \<Rightarrow> string option" where
  "data_access_reason code =
     (if code = 0 then Some ''object-invalidated''
      else if code = 1 then Some ''hardware-fault''
      else if code = 2 then Some ''temporarily-unavailable''
      else if code = 3 then Some ''object-access-denied''
      else if code = 4 then Some ''object-undefined''
      else if code = 5 then Some ''invalid-address''
      else if code = 6 then Some ''type-unsupported''
      else if code = 7 then Some ''type-inconsistent''
      else if code = 8 then Some ''object-attribute-inconsistent''
      else if code = 9 then Some ''object-access-unsupported''
      else if code = 10 then Some ''object-non-existent''
      else if code = 11 then Some ''object-value-invalid''
      else None)"

text \<open>\<open>Option<Result>::transpose\<close> followed by \<open>?\<close>: an absent element is not an error.\<close>

definition transpose_opt :: "'a result option \<Rightarrow> 'a option result" where
  "transpose_opt x = (case x of None \<Rightarrow> Inr None | Some (Inl e) \<Rightarrow> Inl e | Some (Inr y) \<Rightarrow> Inr (Some y))"

lemma transpose_opt_simps [simp]:
  "transpose_opt None = Inr None"
  "transpose_opt (Some (Inl e)) = Inl e"
  "transpose_opt (Some (Inr y)) = Inr (Some y)"
  by (simp_all add: transpose_opt_def)

record limits =
  max_depth :: usize
  max_dataset_members :: usize
  max_primitive_len :: usize
  max_asdus :: usize
  max_list_items :: usize

definition default_limits :: limits where
  "default_limits =
     \<lparr> max_depth = 32, max_dataset_members = 512, max_primitive_len = 4096, max_asdus = 16,
       max_list_items = 65536 \<rparr>"

end
