(* ===== verification/Machine.thy ===== *)
theory Machine
  imports Errors
begin

text \<open>
  Monotonic time and the bounded event queue (\<open>src/common/machine.rs\<close>), and two interfaces: what a
  client may rely on of a bounded queue (\<open>bounded_queue\<close>), and the contract every sans-IO core keeps
  between its \<open>on_timeout\<close> and its \<open>next_timeout\<close> (\<open>timed_core\<close>). The cores that queue events or
  keep deadlines interpret them in their own theories.
\<close>

section \<open>Instants\<close>

type_synonym instant = u64 \<comment> \<open>nanoseconds\<close>

definition plus_nanos :: "instant \<Rightarrow> u64 \<Rightarrow> instant" where
  "plus_nanos t ns = sat_add t ns"

definition plus_millis :: "instant \<Rightarrow> u64 \<Rightarrow> instant" where
  "plus_millis t ms = sat_add t (sat_mul ms 1000000)"

definition nanos_since :: "instant \<Rightarrow> instant \<Rightarrow> u64" where
  "nanos_since t earlier = sat_sub t earlier"

lemma le_plus_millis [simp]: "t \<le> plus_millis t ms"
  by (simp add: plus_millis_def)

lemma unat_plus_millis:
  "unat (plus_millis t ms) = min (unat t + min (unat ms * 1000000) (2 ^ 64 - 1)) (2 ^ 64 - 1)"
  by (simp add: plus_millis_def unat_sat_add unat_sat_mul)

lemma plus_millis_later:
  assumes "unat t + unat ms * 1000000 < 2 ^ 64" and "ms \<noteq> 0"
  shows "t < plus_millis t ms"
  using assms by (auto simp: word_less_nat_alt unat_plus_millis unat_gt_0)

section \<open>The event queue\<close>

record 'a event_queue =
  q_items :: "'a list"
  q_capacity :: usize
  q_dropped :: u64

definition queue_new :: "usize \<Rightarrow> 'a event_queue" where
  "queue_new cap = \<lparr> q_items = [], q_capacity = max cap 1, q_dropped = 0 \<rparr>"

definition queue_push :: "'a \<Rightarrow> 'a event_queue \<Rightarrow> 'a event_queue" where
  "queue_push item q =
     (let q' = (if length (q_items q) \<ge> q_capacity q
                then q\<lparr> q_items := tl (q_items q), q_dropped := sat_add (q_dropped q) 1 \<rparr> else q)
      in q'\<lparr> q_items := q_items q' @ [item] \<rparr>)"

definition queue_pop :: "'a event_queue \<Rightarrow> 'a option \<times> 'a event_queue" where
  "queue_pop q = (case q_items q of [] \<Rightarrow> (None, q) | x # xs \<Rightarrow> (Some x, q\<lparr> q_items := xs \<rparr>))"

text \<open>What a client of a bounded queue relies on: the oldest event makes room, and is counted.\<close>

locale bounded_queue =
  fixes push :: "'a \<Rightarrow> 'q \<Rightarrow> 'q"
    and pop :: "'q \<Rightarrow> 'a option \<times> 'q"
    and waiting :: "'q \<Rightarrow> 'a list"
    and bound :: "'q \<Rightarrow> nat"
    and lost :: "'q \<Rightarrow> nat"
    and lost_max :: nat
    and ok :: "'q \<Rightarrow> bool"
  assumes ok_bound: "ok q \<Longrightarrow> length (waiting q) \<le> bound q \<and> 0 < bound q \<and> lost q \<le> lost_max"
    and ok_push: "ok q \<Longrightarrow> ok (push x q)"
    and ok_pop: "ok q \<Longrightarrow> ok (snd (pop q))"
    and bound_push: "bound (push x q) = bound q"
    and waiting_push: "ok q \<Longrightarrow> waiting (push x q) =
      (if length (waiting q) = bound q then tl (waiting q) else waiting q) @ [x]"
    and lost_push: "ok q \<Longrightarrow> lost (push x q) =
      (if length (waiting q) = bound q then min (lost q + 1) lost_max else lost q)"
    and pop_waiting: "pop q = (case waiting q of [] \<Rightarrow> (None, q) | x # xs \<Rightarrow> (Some x, snd (pop q)))"
    and waiting_pop: "waiting (snd (pop q)) = tl (waiting q)"
begin

definition push_all :: "'a list \<Rightarrow> 'q \<Rightarrow> 'q" where
  "push_all xs q = fold push xs q"

lemma push_all_simps [simp]:
  "push_all [] q = q" "push_all (x # xs) q = push_all xs (push x q)"
  by (simp_all add: push_all_def)

lemma ok_push_all: "ok q \<Longrightarrow> ok (push_all xs q)"
  by (induction xs arbitrary: q) (simp_all add: ok_push)

lemma bound_push_all: "bound (push_all xs q) = bound q"
  by (induction xs arbitrary: q) (simp_all add: bound_push)

lemma waiting_push_drop:
  "ok q \<Longrightarrow> waiting (push x q) = drop (length (waiting q) + 1 - bound q) (waiting q @ [x])"
  using ok_bound [of q] by (cases "waiting q") (auto simp: waiting_push)

text \<open>Of everything pushed, exactly the newest \<open>bound\<close> events are waiting, oldest first.\<close>

lemma waiting_push_all:
  "ok q \<Longrightarrow> waiting (push_all xs q) = drop (length (waiting q) + length xs - bound q) (waiting q @ xs)"
proof (induction xs arbitrary: q)
  case Nil
  then show ?case using ok_bound [of q] by simp
next
  case (Cons x xs)
  let ?w = "waiting q" and ?b = "bound q"
  have len: "length (waiting (push x q)) = min (length ?w + 1) ?b"
    using ok_bound [OF Cons.prems] by (auto simp: waiting_push Cons.prems)
  have "waiting (push_all (x # xs) q)
      = drop (length (waiting (push x q)) + length xs - ?b) (waiting (push x q) @ xs)"
    using Cons.IH [OF ok_push [OF Cons.prems]] by (simp add: bound_push)
  also have "\<dots> = drop (length ?w + length (x # xs) - ?b) (?w @ x # xs)"
  proof (cases "length ?w = ?b")
    case True
    then show ?thesis
      using ok_bound [OF Cons.prems] by (cases ?w) (simp_all add: len waiting_push [OF Cons.prems])
  next
    case False
    with ok_bound [OF Cons.prems] have "length ?w + 1 \<le> ?b" by simp
    with False show ?thesis by (simp add: len waiting_push [OF Cons.prems])
  qed
  finally show ?case .
qed

text \<open>Every event pushed beyond the bound is counted, up to the counter's own limit.\<close>

lemma lost_push_all:
  "ok q \<Longrightarrow> lost (push_all xs q) = min lost_max (lost q + (length (waiting q) + length xs - bound q))"
proof (induction xs arbitrary: q)
  case Nil
  then show ?case using ok_bound [of q] by simp
next
  case (Cons x xs)
  have "length (waiting (push x q)) = min (length (waiting q) + 1) (bound q)"
    using ok_bound [OF Cons.prems] by (auto simp: waiting_push Cons.prems)
  then show ?case
    using ok_bound [OF Cons.prems] Cons.IH [OF ok_push [OF Cons.prems]]
    by (auto simp: bound_push lost_push Cons.prems min_def)
qed

lemma newest_survives: "ok q \<Longrightarrow> x \<in> set (waiting (push x q))"
  by (simp add: waiting_push)

end

definition queue_ok :: "'a event_queue \<Rightarrow> bool" where
  "queue_ok q \<longleftrightarrow> 0 < q_capacity q \<and> length (q_items q) \<le> q_capacity q"

lemma queue_ok_new [simp]: "queue_ok (queue_new cap)"
  by (simp add: queue_ok_def queue_new_def)

lemma queue_push_capacity [simp]: "q_capacity (queue_push x q) = q_capacity q"
  by (simp add: queue_push_def Let_def)

interpretation event_q: bounded_queue queue_push queue_pop q_items q_capacity
  "\<lambda>q. unat (q_dropped q)" "2 ^ 64 - 1" queue_ok
proof (unfold_locales, goal_cases)
  case (1 q)
  then show ?case using unat_le_max [of "q_dropped q"] by (auto simp: queue_ok_def)
qed (auto simp: queue_ok_def queue_push_def queue_pop_def Let_def unat_sat_add split: list.splits)

text \<open>
  The event queue is bounded and keeps the newest events. Pushing any list of events
  onto a fresh queue leaves exactly the last \<open>max cap 1\<close> of them waiting, in order, and the drop
  counter holds the number that were lost (saturating at the top of \<open>u64\<close>).
\<close>

theorem queue_keeps_newest:
  "q_items (fold queue_push xs (queue_new cap)) = drop (length xs - max cap 1) xs \<and>
   unat (q_dropped (fold queue_push xs (queue_new cap))) = min (2 ^ 64 - 1) (length xs - max cap 1)"
  using event_q.waiting_push_all [OF queue_ok_new, of xs cap]
    event_q.lost_push_all [OF queue_ok_new, of xs cap]
  by (simp add: event_q.push_all_def queue_new_def)

section \<open>The timer contract of a sans-IO core\<close>

text \<open>
  \<open>next_timeout\<close> is a promise: calling \<open>on_timeout\<close> before it does nothing, and calling it when due
  leaves nothing due. Everything the drivers of the cores do with a timer wheel follows from these.
\<close>

locale timed_core =
  fixes tick :: "instant \<Rightarrow> 's \<Rightarrow> 's"
    and deadline :: "'s \<Rightarrow> instant option"
    and ok :: "instant \<Rightarrow> 's \<Rightarrow> bool"
  assumes tick_early: "(\<And>d. deadline s = Some d \<Longrightarrow> now < d) \<Longrightarrow> tick now s = s"
    and tick_settles: "ok now s \<Longrightarrow> deadline (tick now s) = Some d \<Longrightarrow> now < d"
begin

lemma tick_idle: "deadline s = None \<Longrightarrow> tick now s = s"
  by (rule tick_early) simp

lemma tick_idem: "ok now s \<Longrightarrow> tick now (tick now s) = tick now s"
  by (rule tick_early) (rule tick_settles)

lemma early_ticks_idle:
  "deadline s = Some d \<Longrightarrow> \<forall>t \<in> set ts. t < d \<Longrightarrow> fold tick ts s = s"
proof (induction ts)
  case (Cons t ts)
  then have "tick t s = s" by (intro tick_early) auto
  with Cons show ?case by simp
qed simp

end

end
