(* ===== verification/Codec.thy ===== *)
theory Codec
  imports Errors
begin

text \<open>
  The interface of a fixed-width octet form: a value that has a \<open>to_octets\<close> and a \<open>from_octets\<close>.
  The time stamps, the quality strings and the small wire enumerations interpret it, and the field
  codecs built on them use only its laws.
\<close>

locale octet_codec =
  fixes enc :: "'a \<Rightarrow> bytes"
    and dec :: "bytes \<Rightarrow> 'a"
    and wf :: "'a \<Rightarrow> bool"
    and width :: nat
  assumes length_enc: "length (enc x) = width"
    and dec_enc: "wf x \<Longrightarrow> dec (enc x) = x"
    and wf_dec: "length bs = width \<Longrightarrow> wf (dec bs)"
    and enc_dec: "length bs = width \<Longrightarrow> enc (dec bs) = bs"
begin

lemma enc_inject: "wf x \<Longrightarrow> wf y \<Longrightarrow> enc x = enc y \<longleftrightarrow> x = y"
  by (metis dec_enc)

lemma dec_inject: "length bs = width \<Longrightarrow> length cs = width \<Longrightarrow> dec bs = dec cs \<longleftrightarrow> bs = cs"
  by (metis enc_dec)

text \<open>What the wire keeps of an arbitrary value: its normal form, which encodes the same.\<close>

definition norm :: "'a \<Rightarrow> 'a" where
  "norm x = dec (enc x)"

lemma wf_norm: "wf (norm x)"
  by (simp add: norm_def wf_dec length_enc)

lemma enc_norm: "enc (norm x) = enc x"
  by (simp add: norm_def enc_dec length_enc)

lemma norm_wf: "wf x \<Longrightarrow> norm x = x"
  by (simp add: norm_def dec_enc)

lemma norm_idem: "norm (norm x) = norm x"
  by (simp add: norm_wf wf_norm)

lemma bij_betw_codec: "bij_betw enc {x. wf x} {bs. length bs = width}"
  by (rule bij_betw_byWitness [where f' = dec]) (auto simp: dec_enc enc_dec length_enc wf_dec)

end

text \<open>An octet read as flags: masks, and the six-octet and eight-octet lists the readers index.\<close>

lemma length_6E: "length xs = 6 \<Longrightarrow> (\<And>a b c d e f. xs = [a, b, c, d, e, f] \<Longrightarrow> P) \<Longrightarrow> P"
  by (auto simp: length_Suc_conv numeral_eq_Suc)

lemma length_8E:
  "length xs = 8 \<Longrightarrow> (\<And>a b c d e f g h. xs = [a, b, c, d, e, f, g, h] \<Longrightarrow> P) \<Longrightarrow> P"
  by (auto simp: length_Suc_conv numeral_eq_Suc)

end
