(* ===== verification/Time.thy ===== *)
theory Time
  imports Codec
begin

text \<open>
  The two time stamps of the wire (\<open>src/common/time.rs\<close>): the eight-octet \<open>UtcTime\<close> with its quality
  octet, and the six-octet \<open>EntryTime\<close> of MMS, whose epoch is 1984. The numeric expressions are kept
  at the widths of the sources, so that the absence of overflow is something the lemmas show.
\<close>

section \<open>The quality octet of a time stamp\<close>

record time_quality =
  leap_seconds_known :: bool
  clock_failure :: bool
  clock_not_synchronized :: bool
  accuracy :: u8

definition TQ_SYNCHRONIZED :: time_quality where
  "TQ_SYNCHRONIZED = \<lparr> leap_seconds_known = True, clock_failure = False,
     clock_not_synchronized = False, accuracy = 31 \<rparr>"

definition TQ_UNSYNCHRONIZED :: time_quality where
  "TQ_UNSYNCHRONIZED = \<lparr> leap_seconds_known = False, clock_failure = False,
     clock_not_synchronized = True, accuracy = 31 \<rparr>"

definition tq_to_octet :: "time_quality \<Rightarrow> u8" where
  "tq_to_octet q = (if leap_seconds_known q then 0x80 else 0) OR
     (if clock_failure q then 0x40 else 0) OR
     (if clock_not_synchronized q then 0x20 else 0) OR (accuracy q AND 0x1F)"

definition tq_from_octet :: "u8 \<Rightarrow> time_quality" where
  "tq_from_octet b = \<lparr> leap_seconds_known = (b AND 0x80 \<noteq> 0), clock_failure = (b AND 0x40 \<noteq> 0),
     clock_not_synchronized = (b AND 0x20 \<noteq> 0), accuracy = b AND 0x1F \<rparr>"

definition tq_wf :: "time_quality \<Rightarrow> bool" where
  "tq_wf q \<longleftrightarrow> accuracy q AND 0x1F = accuracy q"

lemma tq_octet_round: "tq_to_octet (tq_from_octet b) = b"
  by (rule octet_eqI) (simp_all add: tq_to_octet_def tq_from_octet_def octet_mask bit_simps)

lemma low5_bits:
  assumes "(a :: u8) AND 0x1F = a"
  shows "\<not> bit a 5" "\<not> bit a 6" "\<not> bit a 7"
proof -
  have *: "bit a n = (bit a n \<and> bit (0x1F :: u8) n)" for n
    by (subst (1) assms [symmetric]) (simp add: bit_and_iff)
  show "\<not> bit a 5" "\<not> bit a 6" "\<not> bit a 7"
    using * [of 5] * [of 6] * [of 7] by simp_all
qed

lemma tq_round: "tq_wf q \<Longrightarrow> tq_from_octet (tq_to_octet q) = q"
proof (cases q)
  case (fields l f s a)
  assume "tq_wf q"
  then have a: "a AND 0x1F = a" by (simp add: tq_wf_def fields)
  have "tq_to_octet q AND 0x1F = a"
    using low5_bits [OF a] by (intro octet_eqI) (simp_all add: tq_to_octet_def fields bit_simps)
  then show ?thesis
    using low5_bits [OF a] by (simp add: tq_from_octet_def fields octet_mask tq_to_octet_def bit_simps)
qed

interpretation tq: octet_codec "\<lambda>q. [tq_to_octet q]" "\<lambda>bs. tq_from_octet (hd bs)" tq_wf 1
proof (unfold_locales, goal_cases)
  case (3 bs)
  have "\<And>b :: u8. b AND 0x1F AND 0x1F = b AND 0x1F" by (rule octet_eqI) (simp_all add: bit_simps)
  then show ?case by (simp add: tq_wf_def tq_from_octet_def)
next
  case (4 bs)
  then show ?case by (cases bs) (simp_all add: tq_octet_round)
qed (simp_all add: tq_round)

section \<open>\<open>UtcTime\<close>\<close>

record utc_time =
  ut_seconds :: u32
  ut_fraction :: u32
  ut_quality :: time_quality

definition utc_default :: utc_time where
  "utc_default = \<lparr> ut_seconds = 0, ut_fraction = 0, ut_quality = TQ_UNSYNCHRONIZED \<rparr>"

definition utc_from_unix :: "u32 \<Rightarrow> u32 \<Rightarrow> time_quality \<Rightarrow> utc_time" where
  "utc_from_unix seconds nanos quality =
     (let seconds = sat_add seconds (nanos div 1000000000);
          fraction = push_bit 24 (ucast (nanos mod 1000000000) :: u64) div 1000000000
      in \<lparr> ut_seconds = seconds, ut_fraction = ucast fraction AND 0x00FFFFFF, ut_quality = quality \<rparr>)"

definition utc_from_unix_nanos :: "u64 \<Rightarrow> time_quality \<Rightarrow> utc_time" where
  "utc_from_unix_nanos nanos quality =
     (let s = nanos div 1000000000;
          seconds = (if s > 0xFFFFFFFF then 0xFFFFFFFF else ucast s)
      in utc_from_unix seconds (ucast (nanos mod 1000000000)) quality)"

definition utc_nanos :: "utc_time \<Rightarrow> u32" where
  "utc_nanos t = ucast (drop_bit 24 ((ucast (ut_fraction t AND 0x00FFFFFF) :: u64) * 1000000000))"

definition utc_to_unix_nanos :: "utc_time \<Rightarrow> u64" where
  "utc_to_unix_nanos t = ucast (ut_seconds t) * 1000000000 + ucast (utc_nanos t)"

definition utc_to_octets :: "utc_time \<Rightarrow> bytes" where
  "utc_to_octets t = (let s = to_be 4 (ut_seconds t); f = ut_fraction t AND 0x00FFFFFF
     in [s ! 0, s ! 1, s ! 2, s ! 3, ucast (drop_bit 16 f), ucast (drop_bit 8 f), ucast f,
         tq_to_octet (ut_quality t)])"

definition utc_from_octets :: "bytes \<Rightarrow> utc_time" where
  "utc_from_octets bs =
     \<lparr> ut_seconds = from_be [bs ! 0, bs ! 1, bs ! 2, bs ! 3],
       ut_fraction = push_bit 16 (ucast (bs ! 4)) OR push_bit 8 (ucast (bs ! 5)) OR ucast (bs ! 6),
       ut_quality = tq_from_octet (bs ! 7) \<rparr>"

definition utc_wf :: "utc_time \<Rightarrow> bool" where
  "utc_wf t \<longleftrightarrow> ut_fraction t AND 0x00FFFFFF = ut_fraction t \<and> tq_wf (ut_quality t)"

lemma mask24: "(f :: u32) AND 0x00FFFFFF = take_bit 24 f"
  by (simp add: take_bit_eq_mask mask_eq_exp_minus_1)

lemma utc_to_octets_eq:
  "utc_to_octets t = to_be 4 (ut_seconds t) @ to_be 3 (take_bit 24 (ut_fraction t)) @ [tq_to_octet (ut_quality t)]"
  by (simp add: utc_to_octets_def Let_def mask24 numeral_eq_Suc drop_bit_drop_bit)

lemma utc_from_octets_eq:
  assumes "length s = 4" "length f = 3"
  shows "utc_from_octets (s @ f @ [q]) =
    \<lparr> ut_seconds = from_be s, ut_fraction = from_be f, ut_quality = tq_from_octet q \<rparr>"
proof -
  obtain a b c d where s: "s = [a, b, c, d]" using assms(1) by (auto simp: length_Suc_conv numeral_eq_Suc)
  obtain x y z where f: "f = [x, y, z]" using assms(2) by (auto simp: length_Suc_conv numeral_eq_Suc)
  show ?thesis by (simp add: utc_from_octets_def s f be_acc_Cons push_bit_or push_bit_push_bit or.assoc)
qed

lemma utc_round: "utc_wf t \<Longrightarrow> utc_from_octets (utc_to_octets t) = t"
  unfolding utc_to_octets_eq by (subst utc_from_octets_eq)
    (simp_all add: from_be_to_be from_be_to_be_full utc_wf_def tq_round mask24)

lemma utc_split:
  assumes "length bs = 8"
  obtains s f q where "bs = s @ f @ [q]" "length s = 4" "length f = 3"
proof (rule that)
  show "bs = take 4 bs @ take 3 (drop 4 bs) @ [bs ! 7]"
    using assms by (rule length_8E) simp
qed (use assms in auto)

lemma take24_from_be: "length f = 3 \<Longrightarrow> take_bit 24 (from_be f :: u32) = from_be f"
  by (rule bit_word_eqI) (auto simp: bit_simps dest: from_be_high_bits)

interpretation utc: octet_codec utc_to_octets utc_from_octets utc_wf 8
proof (unfold_locales, goal_cases)
  case (3 bs)
  then obtain s f q where bs: "bs = s @ f @ [q]" and len: "length s = 4" "length f = 3"
    by (rule utc_split)
  have "tq_wf (tq_from_octet q)" using tq.wf_dec [of "[q]"] by simp
  then show ?case
    unfolding bs by (subst utc_from_octets_eq) (simp_all add: len utc_wf_def mask24 take24_from_be)
next
  case (4 bs)
  then obtain s f q where bs: "bs = s @ f @ [q]" and len: "length s = 4" "length f = 3"
    by (rule utc_split)
  show ?case
    unfolding bs
    by (subst utc_from_octets_eq)
      (simp_all add: len utc_to_octets_eq take24_from_be tq_octet_round)
qed (simp_all add: utc_to_octets_eq utc_round [unfolded utc_to_octets_eq])

lemma length_utc_to_octets [simp]: "length (utc_to_octets t) = 8"
  by (rule utc.length_enc)


text \<open>The two words hold what the mathematical expressions say: nothing overflows.\<close>

lemma unat_utc_fraction:
  "unat (ut_fraction (utc_from_unix s n q)) = unat n mod 1000000000 * 2 ^ 24 div 1000000000"
proof -
  let ?m = "unat n mod 1000000000"
  let ?w = "ucast (n mod 1000000000) :: u64"
  have m: "?m < 1000000000" by simp
  have w: "unat ?w = ?m" by (simp add: unat_ucast_up unat_mod_distrib)
  have "unat (?w * 2 ^ 24) = ?m * 2 ^ 24" using m by (subst unat_mult_le) (simp_all add: w)
  then have "unat (push_bit 24 ?w div 1000000000) = ?m * 2 ^ 24 div 1000000000"
    by (simp only: push_bit_eq_mult unat_div_distrib) simp
  moreover have "?m * 2 ^ 24 div 1000000000 < 2 ^ 24" using m by simp
  ultimately show ?thesis
    by (simp add: utc_from_unix_def mask24 unat_take_bit unat_ucast_down)
qed

lemma unat_utc_nanos:
  "unat (utc_nanos t) = unat (ut_fraction t) mod 2 ^ 24 * 1000000000 div 2 ^ 24"
proof -
  let ?f = "unat (ut_fraction t) mod 2 ^ 24"
  let ?w = "ucast (ut_fraction t AND 0x00FFFFFF) :: u64"
  have f: "?f < 2 ^ 24" by simp
  have w: "unat ?w = ?f" by (simp only: mask24 unat_ucast_up unat_take_bit) (simp add: unat_ucast_up unat_take_bit)
  have "unat (?w * 1000000000) = ?f * 1000000000" using f by (subst unat_mult_le) (simp_all add: w)
  then have "unat (utc_nanos t) = ?f * 1000000000 div 2 ^ 24 mod 2 ^ 32"
    by (simp only: utc_nanos_def unat_ucast_down unat_drop_bit) simp
  moreover have "?f * 1000000000 div 2 ^ 24 < 2 ^ 32" using f by simp
  ultimately show ?thesis by simp
qed

lemma utc_from_unix_wf: "tq_wf q \<Longrightarrow> utc_wf (utc_from_unix s n q)"
  by (simp add: utc_wf_def utc_from_unix_def mask24)

text \<open>A nanosecond count survives the 24-bit fraction to within one unit of it, and always rounds down.\<close>

lemma utc_fraction_within_lsb:
  fixes m :: nat
  assumes "m < 1000000000"
  defines "k \<equiv> m * 2 ^ 24 div 1000000000 * 1000000000 div 2 ^ 24"
  shows "k \<le> m \<and> m - k \<le> 60"
proof -
  define d where "d = m * 2 ^ 24 div 1000000000"
  have d: "d * 1000000000 \<le> m * 2 ^ 24" "m * 2 ^ 24 < d * 1000000000 + 1000000000"
    unfolding d_def using div_times_less_eq_dividend dividend_less_div_times by simp_all
  have k: "k * 2 ^ 24 \<le> d * 1000000000" "d * 1000000000 < k * 2 ^ 24 + 2 ^ 24"
    unfolding k_def d_def [symmetric] using div_times_less_eq_dividend dividend_less_div_times by simp_all
  show ?thesis using d k by simp
qed

text \<open>
  Building a time stamp from seconds and nanoseconds loses less than one unit of the
  24-bit fraction and one nanosecond (60 ns in all), always rounding down, and a nanosecond count of a second or more carries
  into the seconds, which saturate at the top of \<open>u32\<close>.
\<close>

theorem utc_from_unix_accurate:
  "unat (ut_seconds (utc_from_unix s n q)) = min (unat s + unat n div 1000000000) (2 ^ 32 - 1) \<and>
   unat (utc_nanos (utc_from_unix s n q)) \<le> unat n mod 1000000000 \<and>
   unat n mod 1000000000 - unat (utc_nanos (utc_from_unix s n q)) \<le> 60"
proof -
  have "unat n mod 1000000000 * 2 ^ 24 div 1000000000 < 2 ^ 24" by (simp add: less_mult_imp_div_less)
  then have "unat (utc_nanos (utc_from_unix s n q))
      = unat n mod 1000000000 * 2 ^ 24 div 1000000000 * 1000000000 div 2 ^ 24"
    by (simp only: unat_utc_nanos unat_utc_fraction mod_less)
  moreover have "unat (ut_seconds (utc_from_unix s n q)) = min (unat s + unat n div 1000000000) (2 ^ 32 - 1)"
    by (simp add: utc_from_unix_def unat_sat_add unat_div_distrib)
  ultimately show ?thesis using utc_fraction_within_lsb [of "unat n mod 1000000000"] by simp
qed

section \<open>\<open>EntryTime\<close>\<close>

record entry_time =
  millis_of_day :: u32
  days_since_1984 :: u16

definition MMS_EPOCH_DAYS :: u64 where
  "MMS_EPOCH_DAYS = 5113"

definition ENTRY_TIME_MAX :: entry_time where
  "ENTRY_TIME_MAX = \<lparr> millis_of_day = 86399999, days_since_1984 = 0xFFFF \<rparr>"

definition et_to_octets :: "entry_time \<Rightarrow> bytes" where
  "et_to_octets t = (let ms = to_be 4 (millis_of_day t); d = to_be 2 (days_since_1984 t)
     in [ms ! 0, ms ! 1, ms ! 2, ms ! 3, d ! 0, d ! 1])"

definition et_from_octets :: "bytes \<Rightarrow> entry_time" where
  "et_from_octets bs = \<lparr> millis_of_day = from_be [bs ! 0, bs ! 1, bs ! 2, bs ! 3],
     days_since_1984 = from_be [bs ! 4, bs ! 5] \<rparr>"

definition et_from_unix_millis :: "u64 \<Rightarrow> entry_time" where
  "et_from_unix_millis millis =
     (let day = millis div 86400000; ms = ucast (millis mod 86400000) :: u32
      in if day < MMS_EPOCH_DAYS then \<lparr> millis_of_day = 0, days_since_1984 = 0 \<rparr>
         else let days = day - MMS_EPOCH_DAYS
              in if days > 0xFFFF then \<lparr> millis_of_day = 86399999, days_since_1984 = 0xFFFF \<rparr>
                 else \<lparr> millis_of_day = ms, days_since_1984 = ucast days \<rparr>)"

definition et_to_unix_millis :: "entry_time \<Rightarrow> u64" where
  "et_to_unix_millis t = (ucast (days_since_1984 t) + MMS_EPOCH_DAYS) * 86400000 + ucast (millis_of_day t)"

lemma et_to_octets_eq: "et_to_octets t = to_be 4 (millis_of_day t) @ to_be 2 (days_since_1984 t)"
  by (simp add: et_to_octets_def Let_def numeral_eq_Suc)

interpretation et: octet_codec et_to_octets et_from_octets "\<lambda>_. True" 6
proof (unfold_locales, goal_cases)
  case (2 t)
  have "et_from_octets (et_to_octets t) =
      \<lparr> millis_of_day = from_be (to_be 4 (millis_of_day t)), days_since_1984 = from_be (to_be 2 (days_since_1984 t)) \<rparr>"
    by (simp add: et_to_octets_eq et_from_octets_def numeral_eq_Suc)
  then show ?case by (simp add: from_be_to_be)
next
  case (4 bs)
  then obtain a b c d e f where bs: "bs = [a, b, c, d, e, f]" by (rule length_6E)
  show ?case by (simp add: et_to_octets_eq et_from_octets_def bs)
qed (simp_all add: et_to_octets_eq)

lemma length_et_to_octets [simp]: "length (et_to_octets t) = 6"
  by (rule et.length_enc)

lemma unat_et_to_unix_millis:
  "unat (et_to_unix_millis t) = (unat (days_since_1984 t) + 5113) * 86400000 + unat (millis_of_day t)"
proof -
  have d: "unat (days_since_1984 t) < 2 ^ 16" and m: "unat (millis_of_day t) < 2 ^ 32"
    using unat_lt_exp [of "days_since_1984 t"] unat_lt_exp [of "millis_of_day t"] by simp_all
  have "unat (ucast (days_since_1984 t) + MMS_EPOCH_DAYS) = unat (days_since_1984 t) + 5113"
    using d by (subst unat_plus_le) (simp_all add: MMS_EPOCH_DAYS_def unat_ucast_up)
  then have "unat ((ucast (days_since_1984 t) + MMS_EPOCH_DAYS) * 86400000)
      = (unat (days_since_1984 t) + 5113) * 86400000"
    using d by (subst unat_mult_le) simp_all
  then show ?thesis
    using d m unfolding et_to_unix_millis_def by (subst unat_plus_le) (simp_all add: unat_ucast_up)
qed

text \<open>What \<open>from_unix_millis\<close> computes, in the naturals.\<close>

lemma et_from_unix_millis_nat:
  "unat (millis_of_day (et_from_unix_millis m)) =
     (if unat m div 86400000 < 5113 then 0
      else if 65535 < unat m div 86400000 - 5113 then 86399999 else unat m mod 86400000) \<and>
   unat (days_since_1984 (et_from_unix_millis m)) = min (unat m div 86400000 - 5113) 65535"
proof -
  let ?d = "m div 86400000 :: u64"
  have d: "unat ?d = unat m div 86400000" by (simp add: unat_div_distrib)
  have lt: "?d < MMS_EPOCH_DAYS \<longleftrightarrow> unat m div 86400000 < 5113"
    by (simp add: word_less_nat_alt d MMS_EPOCH_DAYS_def)
  have s: "unat (?d - MMS_EPOCH_DAYS) = unat m div 86400000 - 5113" if "\<not> ?d < MMS_EPOCH_DAYS"
    using that by (subst unat_sub) (simp_all add: d MMS_EPOCH_DAYS_def not_less)
  have big: "?d - MMS_EPOCH_DAYS > 0xFFFF \<longleftrightarrow> 65535 < unat m div 86400000 - 5113" if "\<not> ?d < MMS_EPOCH_DAYS"
    by (simp add: word_less_nat_alt s [OF that])
  have r: "unat m mod 86400000 < 2 ^ 32" by (rule less_trans [OF mod_less_divisor]) simp_all
  show ?thesis
    using s big r lt by (auto simp: et_from_unix_millis_def Let_def unat_ucast_down unat_mod_distrib not_less min_def)
qed

lemma day_split:
  "q < 86400000 \<Longrightarrow> (d * 86400000 + q) div 86400000 = (d :: nat)"
  "q < 86400000 \<Longrightarrow> (d * 86400000 + q) mod 86400000 = (q :: nat)"
  by simp_all

text \<open>
  The conversion from Unix milliseconds to an \<open>EntryTime\<close> and back is the clamp to
  what the sixteen-bit day count can express, never a wrap into another century; and the other way
  round exactly the \<open>EntryTime\<close>s whose milliseconds lie within a day survive.
\<close>

theorem entry_time_roundtrip:
  "unat (et_to_unix_millis (et_from_unix_millis m))
     = max (5113 * 86400000) (min (unat m) ((65536 + 5113) * 86400000 - 1)) \<and>
   (et_from_unix_millis (et_to_unix_millis t) = t \<longleftrightarrow> unat (millis_of_day t) < 86400000)"
proof
  let ?d = "unat m div 86400000" and ?r = "unat m mod 86400000"
  have m: "unat m = ?d * 86400000 + ?r" and r: "?r < 86400000" by simp_all
  note eq = unat_et_to_unix_millis et_from_unix_millis_nat [THEN conjunct1] et_from_unix_millis_nat [THEN conjunct2]
  consider "?d < 5113" | "5113 \<le> ?d" "?d - 5113 \<le> 65535" | "5113 \<le> ?d" "65535 < ?d - 5113" by linarith
  then show "unat (et_to_unix_millis (et_from_unix_millis m))
     = max (5113 * 86400000) (min (unat m) ((65536 + 5113) * 86400000 - 1))"
  proof cases
    case 1
    then have "unat m < 5113 * 86400000" using m r by linarith
    with 1 show ?thesis by (simp add: eq)
  next
    case 2
    then have "unat (et_to_unix_millis (et_from_unix_millis m)) = unat m"
      by (simp add: eq)
    moreover have "5113 * 86400000 \<le> unat m" using 2 m r by linarith
    moreover have "?d \<le> 65535 + 5113" using 2 by arith
    then have "unat m < (65536 + 5113) * 86400000"
      using div_less_iff_less_mult [of 86400000 "unat m" "65536 + 5113"] by simp
    ultimately show ?thesis by simp
  next
    case 3
    then have "(65536 + 5113) * 86400000 \<le> unat m"
      using less_eq_div_iff_mult_less_eq [of 86400000 "65536 + 5113" "unat m"] by simp
    with 3 show ?thesis by (simp add: eq)
  qed
next
  let ?ms = "unat (millis_of_day t)" and ?ds = "unat (days_since_1984 t)"
  have ds: "?ds \<le> 65535" using unat_lt_exp [of "days_since_1984 t"] by simp
  show "et_from_unix_millis (et_to_unix_millis t) = t \<longleftrightarrow> ?ms < 86400000"
  proof
    assume "et_from_unix_millis (et_to_unix_millis t) = t"
    then have "?ms = unat (millis_of_day (et_from_unix_millis (et_to_unix_millis t)))" by simp
    also have "\<dots> < 86400000" by (simp only: et_from_unix_millis_nat) (simp split: if_splits)
    finally show "?ms < 86400000" .
  next
    assume "?ms < 86400000"
    then have "unat (et_to_unix_millis t) div 86400000 = ?ds + 5113"
      "unat (et_to_unix_millis t) mod 86400000 = ?ms"
      unfolding unat_et_to_unix_millis by (fact day_split)+
    then have "millis_of_day (et_from_unix_millis (et_to_unix_millis t)) = millis_of_day t"
      "days_since_1984 (et_from_unix_millis (et_to_unix_millis t)) = days_since_1984 t"
      using ds by (simp_all add: et_from_unix_millis_nat word_unat_eq_iff)
    then show "et_from_unix_millis (et_to_unix_millis t) = t" by simp
  qed
qed

end
