(* ===== verification/Quality.thy ===== *)
theory Quality
  imports Codec
begin

text \<open>
  The quality of a process value (\<open>src/common/quality.rs\<close>): thirteen bits in two octets, fourteen in
  the 32-bit word of a sampled value. The standard numbers the bits from the most significant one,
  so quality bit \<open>n\<close> is bit \<open>31 - n\<close> of the word.
\<close>

datatype validity = Good | Invalid | Reserved | Questionable

datatype quality_source = Process | Substituted

record quality =
  q_validity :: validity
  q_overflow :: bool
  q_out_of_range :: bool
  q_bad_reference :: bool
  q_oscillatory :: bool
  q_failure :: bool
  q_old_data :: bool
  q_inconsistent :: bool
  q_inaccurate :: bool
  q_source :: quality_source
  q_test :: bool
  q_operator_blocked :: bool
  q_derived :: bool

definition Q_GOOD :: quality where
  "Q_GOOD = \<lparr> q_validity = Good, q_overflow = False, q_out_of_range = False, q_bad_reference = False,
     q_oscillatory = False, q_failure = False, q_old_data = False, q_inconsistent = False,
     q_inaccurate = False, q_source = Process, q_test = False, q_operator_blocked = False,
     q_derived = False \<rparr>"

definition validity_code :: "validity \<Rightarrow> u32" where
  "validity_code v = (case v of Good \<Rightarrow> 0 | Invalid \<Rightarrow> 1 | Reserved \<Rightarrow> 2 | Questionable \<Rightarrow> 3)"

definition q_bit :: "bool \<Rightarrow> nat \<Rightarrow> u32" where
  "q_bit field n = (if field then push_bit (31 - n) 1 else 0)"

definition q_to_bits_msb :: "quality \<Rightarrow> u32" where
  "q_to_bits_msb q = push_bit 30 (validity_code (q_validity q)) OR
     q_bit (q_overflow q) 2 OR q_bit (q_out_of_range q) 3 OR q_bit (q_bad_reference q) 4 OR
     q_bit (q_oscillatory q) 5 OR q_bit (q_failure q) 6 OR q_bit (q_old_data q) 7 OR
     q_bit (q_inconsistent q) 8 OR q_bit (q_inaccurate q) 9 OR q_bit (q_source q = Substituted) 10 OR
     q_bit (q_test q) 11 OR q_bit (q_operator_blocked q) 12 OR q_bit (q_derived q) 13"

definition q_get_bit :: "u32 \<Rightarrow> nat \<Rightarrow> bool" where
  "q_get_bit v n \<longleftrightarrow> drop_bit (31 - n) v AND 1 = 1"

definition q_from_bits_msb :: "u32 \<Rightarrow> quality" where
  "q_from_bits_msb v =
     \<lparr> q_validity = (let k = drop_bit 30 v in
         if k = 0 then Good else if k = 1 then Invalid else if k = 2 then Reserved else Questionable),
       q_overflow = q_get_bit v 2, q_out_of_range = q_get_bit v 3, q_bad_reference = q_get_bit v 4,
       q_oscillatory = q_get_bit v 5, q_failure = q_get_bit v 6, q_old_data = q_get_bit v 7,
       q_inconsistent = q_get_bit v 8, q_inaccurate = q_get_bit v 9,
       q_source = (if q_get_bit v 10 then Substituted else Process), q_test = q_get_bit v 11,
       q_operator_blocked = q_get_bit v 12, q_derived = q_get_bit v 13 \<rparr>"

definition q_to_octets :: "quality \<Rightarrow> bytes" where
  "q_to_octets q = (let v = q_to_bits_msb q AND NOT (push_bit (31 - 13) 1)
     in [ucast (drop_bit 24 v), ucast (drop_bit 16 v)])"

definition q_from_octets :: "bytes \<Rightarrow> quality" where
  "q_from_octets octets = q_from_bits_msb
     (fold (\<lambda>(i, b) v. v OR push_bit (24 - 8 * i) (ucast b)) (enumerate 0 (take 4 octets)) 0)"

definition q_is_good :: "quality \<Rightarrow> bool" where
  "q_is_good q \<longleftrightarrow> q_validity q = Good \<and> q_to_bits_msb q AND NOT (push_bit (31 - 13) 1) = 0"

lemma q_get_bit_iff: "q_get_bit v n \<longleftrightarrow> bit v (31 - n)"
  by (simp add: q_get_bit_def and_one_eq bit_iff_odd_drop_bit odd_iff_mod_2_eq_one)

lemma bit_q_bit: "bit (q_bit f n) k \<longleftrightarrow> f \<and> k = 31 - n"
  by (auto simp: q_bit_def bit_simps)

lemma bit_validity_code:
  "bit (validity_code v) 0 \<longleftrightarrow> v = Invalid \<or> v = Questionable"
  "bit (validity_code v) (Suc 0) \<longleftrightarrow> v = Reserved \<or> v = Questionable"
  by (cases v; simp add: validity_code_def)+

lemma bit_to_bits_msb:
  "bit (q_to_bits_msb q) k \<longleftrightarrow>
    (k = 31 \<and> q_validity q \<in> {Reserved, Questionable}) \<or> (k = 30 \<and> q_validity q \<in> {Invalid, Questionable}) \<or>
    (k = 29 \<and> q_overflow q) \<or> (k = 28 \<and> q_out_of_range q) \<or> (k = 27 \<and> q_bad_reference q) \<or>
    (k = 26 \<and> q_oscillatory q) \<or> (k = 25 \<and> q_failure q) \<or> (k = 24 \<and> q_old_data q) \<or>
    (k = 23 \<and> q_inconsistent q) \<or> (k = 22 \<and> q_inaccurate q) \<or> (k = 21 \<and> q_source q = Substituted) \<or>
    (k = 20 \<and> q_test q) \<or> (k = 19 \<and> q_operator_blocked q) \<or> (k = 18 \<and> q_derived q)"
proof -
  have "bit (push_bit 30 (validity_code (q_validity q))) k \<longleftrightarrow>
      (k = 31 \<and> bit (validity_code (q_validity q)) 1) \<or> (k = 30 \<and> bit (validity_code (q_validity q)) 0)"
  proof (cases "k = 30 \<or> k = 31")
    case False
    then have "k < 30 \<or> 32 \<le> k" by auto
    then show ?thesis using False by (auto simp: bit_simps)
  qed (auto simp: bit_simps)
  then show ?thesis
    unfolding q_to_bits_msb_def bit_or_iff bit_q_bit by (simp add: bit_validity_code conj_commute disj_ac)
qed

lemma two_bits: "drop_bit 30 (v :: u32) = (if bit v 31 then 2 else 0) + (if bit v 30 then 1 else 0)"
proof -
  let ?x = "drop_bit 30 v"
  have "unat v < 2 ^ 32" using unat_lt_exp [of v] by simp
  then have "unat ?x < 4" by (simp add: unat_drop_bit)
  then have "unat ?x \<in> {0, 1, 2, 3}" by auto
  then have "?x \<in> {0, 1, 2, 3}" by (simp add: word_unat_eq_iff)
  moreover have "bit v 31 = bit ?x 1" "bit v 30 = bit ?x 0" by (simp_all add: bit_drop_bit_eq)
  ultimately show ?thesis by auto
qed

lemma q_from_to_bits: "q_from_bits_msb (q_to_bits_msb q) = q"
proof -
  have "(let k = drop_bit 30 (q_to_bits_msb q) in
      if k = 0 then Good else if k = 1 then Invalid else if k = 2 then Reserved else Questionable) = q_validity q"
    by (cases "q_validity q") (simp_all add: two_bits bit_to_bits_msb Let_def)
  moreover have "(if q_source q = Substituted then Substituted else Process) = q_source q"
    by (cases "q_source q") simp_all
  ultimately show ?thesis by (simp add: q_from_bits_msb_def q_get_bit_iff bit_to_bits_msb)
qed

definition derived_bit :: u32 where
  "derived_bit = push_bit (31 - 13) 1"

lemma bit_derived_bit: "bit derived_bit j \<longleftrightarrow> j = 18"
  using bit_q_bit [of True 13 j] by (simp only: derived_bit_def q_bit_def) simp

lemma bit_to_octets:
  "bit (hd (q_to_octets q)) k \<longleftrightarrow> k < 8 \<and> bit (q_to_bits_msb q) (24 + k)"
  "bit (hd (tl (q_to_octets q))) k \<longleftrightarrow> k < 8 \<and> k \<noteq> 2 \<and> bit (q_to_bits_msb q) (16 + k)"
  unfolding q_to_octets_def Let_def derived_bit_def [symmetric]
  by (auto simp: bit_simps bit_derived_bit)

lemma q_from_two_octets: "q_from_octets [a, b] = q_from_bits_msb (push_bit 24 (ucast a) OR push_bit 16 (ucast b))"
  by (simp add: q_from_octets_def)

text \<open>The two-octet form keeps everything but the fourteenth bit, which it has no room for.\<close>

lemma q_octets_round: "q_from_octets (q_to_octets q) = q\<lparr> q_derived := False \<rparr>"
proof -
  obtain a b where ab: "q_to_octets q = [a, b]" by (simp add: q_to_octets_def Let_def)
  have a: "bit a k \<longleftrightarrow> k < 8 \<and> bit (q_to_bits_msb q) (24 + k)"
    and b: "bit b k \<longleftrightarrow> k < 8 \<and> k \<noteq> 2 \<and> bit (q_to_bits_msb q) (16 + k)" for k
    using bit_to_octets [of q k] by (simp_all add: ab)
  have "push_bit 24 (ucast a) OR push_bit 16 (ucast b) = q_to_bits_msb (q\<lparr> q_derived := False \<rparr>)"
  proof (rule bit_word_eqI)
    fix k :: nat
    assume "k < LENGTH(32)"
    then have k: "k < 32" by simp
    consider "24 \<le> k" | "16 \<le> k" "k < 24" | "k < 16" by linarith
    then show "bit (push_bit 24 (ucast a) OR push_bit 16 (ucast b) :: u32) k = bit (q_to_bits_msb (q\<lparr> q_derived := False \<rparr>)) k"
    proof cases
      case 1
      then have "bit (push_bit 24 (ucast a) OR push_bit 16 (ucast b) :: u32) k = bit (q_to_bits_msb q) k"
        using k by (auto simp: bit_simps a b)
      with 1 show ?thesis by (auto simp: bit_to_bits_msb)
    next
      case 2
      then have "bit (push_bit 24 (ucast a) OR push_bit 16 (ucast b) :: u32) k = (k \<noteq> 18 \<and> bit (q_to_bits_msb q) k)"
        using k by (auto simp: bit_simps a b)
      with 2 show ?thesis by (auto simp: bit_to_bits_msb)
    qed (auto simp: bit_simps bit_to_bits_msb)
  qed
  then show ?thesis by (simp add: ab q_from_two_octets q_from_to_bits)
qed

lemma q_is_good_iff: "q_is_good q \<longleftrightarrow> q\<lparr> q_derived := False \<rparr> = Q_GOOD"
proof -
  have mask: "q_to_bits_msb q AND NOT derived_bit = q_to_bits_msb (q\<lparr> q_derived := False \<rparr>)"
    by (rule bit_word_eqI) (auto simp: bit_simps bit_derived_bit bit_to_bits_msb)
  have zero: "q_to_bits_msb Q_GOOD = 0"
    by (rule bit_word_eqI) (simp add: bit_to_bits_msb Q_GOOD_def)
  have "q_to_bits_msb (q\<lparr> q_derived := False \<rparr>) = 0 \<longleftrightarrow> q\<lparr> q_derived := False \<rparr> = Q_GOOD"
    using q_from_to_bits zero by metis
  moreover have "q\<lparr> q_derived := False \<rparr> = Q_GOOD \<Longrightarrow> q_validity q = Good"
    by (cases q) (simp add: Q_GOOD_def)
  ultimately show ?thesis unfolding q_is_good_def derived_bit_def [symmetric] mask by blast
qed

end
