(* ===== verification/Flags.thy ===== *)
theory Flags
  imports Prelude
begin

text \<open>
  The packed option types of the report and log services, the control models and the editions
  (\<open>src/common/flags.rs\<close>, \<open>src/common/edition.rs\<close>). \<open>OptFlds\<close>, \<open>TrgOps\<close> and \<open>ReasonCode\<close> are words
  whose bit \<open>n\<close> is option \<open>n\<close>; on the wire the bits are numbered from the most significant bit of
  the first octet, and the two conversions turn one numbering into the other.
\<close>

type_synonym opt_flds = u16
type_synonym trg_ops = u8
type_synonym reason_code = u8

section \<open>One option\<close>

definition opt_get :: "'a::len word \<Rightarrow> nat \<Rightarrow> bool" where
  "opt_get v n \<longleftrightarrow> v AND push_bit n 1 \<noteq> 0"

definition opt_set :: "'a::len word \<Rightarrow> nat \<Rightarrow> bool \<Rightarrow> 'a word" where
  "opt_set v n on = (if on then v OR push_bit n 1 else v AND NOT (push_bit n 1))"

lemma opt_get_iff: "opt_get v n \<longleftrightarrow> bit v n"
  using and_exp_eq_0_iff_not_bit [of v n] by (simp add: opt_get_def push_bit_eq_mult)

lemma bit_one_at: "bit (2 ^ n :: 'a::len word) k \<longleftrightarrow> n < LENGTH('a) \<and> k = n"
  by (auto simp: bit_simps)

lemma opt_set_get: "n < LENGTH('a) \<Longrightarrow> opt_get (opt_set (v :: 'a::len word) n on) k = (if k = n then on else opt_get v k)"
  by (auto simp: opt_get_iff opt_set_def bit_and_iff bit_or_iff bit_not_iff bit_one_at dest: bit_imp_le_length)

section \<open>The bit strings\<close>

definition opt_from_bit_string :: "nat \<Rightarrow> bytes \<Rightarrow> u16" where
  "opt_from_bit_string width bytes =
     fold (\<lambda>n v. case get_at bytes (n div 8) of
             Some b \<Rightarrow> if drop_bit (7 - n mod 8) b AND 1 = 1 then v OR push_bit n 1 else v
           | None \<Rightarrow> v) [0..<width] 0"

definition opt_to_bit_string :: "nat \<Rightarrow> u16 \<Rightarrow> u8 \<times> bytes" where
  "opt_to_bit_string width v =
     (let octets = (width + 7) div 8
      in (of_nat (octets * 8 - width),
          fold (\<lambda>n out. if v AND push_bit n 1 \<noteq> 0 then
                   (if n div 8 < length out then out[n div 8 := out ! (n div 8) OR push_bit (7 - n mod 8) 1] else out)
                 else out) [0..<width] (replicate octets 0)))"

lemma bit_from_bit_string:
  "width \<le> 16 \<Longrightarrow> bit (opt_from_bit_string width bytes) k \<longleftrightarrow>
     k < width \<and> k div 8 < length bytes \<and> bit (bytes ! (k div 8)) (7 - k mod 8)"
proof (induction width)
  case 0
  then show ?case by (simp add: opt_from_bit_string_def)
next
  case (Suc w)
  have b: "drop_bit n x AND 1 = 1 \<longleftrightarrow> bit x n" for x :: u8 and n
    by (simp add: and_one_eq bit_iff_odd_drop_bit odd_iff_mod_2_eq_one)
  have "opt_from_bit_string (Suc w) bytes =
      (if w div 8 < length bytes \<and> bit (bytes ! (w div 8)) (7 - w mod 8)
       then opt_from_bit_string w bytes OR push_bit w 1 else opt_from_bit_string w bytes)"
    by (simp add: opt_from_bit_string_def get_at_def b)
  then show ?case
    using Suc by (auto simp: bit_or_iff bit_one_at less_Suc_eq)
qed

lemma opt_to_bit_string_octets:
  fixes v :: u16
  assumes "w \<le> 8 * n"
  defines "r \<equiv> fold (\<lambda>n out. if v AND push_bit n 1 \<noteq> 0 then
                   (if n div 8 < length out then out[n div 8 := out ! (n div 8) OR push_bit (7 - n mod 8) 1] else out)
                 else out) [0..<w] (replicate n (0 :: u8))"
  shows "length r = n \<and> (\<forall>i < n. \<forall>j < 8. bit (r ! i) (7 - j) \<longleftrightarrow> 8 * i + j < w \<and> bit v (8 * i + j))"
  unfolding r_def using assms(1)
proof (induction w)
  case (Suc w)
  let ?f = "\<lambda>n out. if v AND push_bit n 1 \<noteq> 0 then
                   (if n div 8 < length out then out[n div 8 := out ! (n div 8) OR push_bit (7 - n mod 8) 1] else out)
                 else (out :: bytes)"
  let ?s = "fold ?f [0..<w] (replicate n 0)"
  have IH: "length ?s = n" "\<And>i j. i < n \<Longrightarrow> j < 8 \<Longrightarrow> bit (?s ! i) (7 - j) \<longleftrightarrow> 8 * i + j < w \<and> bit v (8 * i + j)"
    using Suc by auto
  have w: "w div 8 < n" using Suc.prems by (simp add: div_less_iff_less_mult)
  have g: "v AND 2 ^ w = 0 \<longleftrightarrow> \<not> bit v w" by (rule and_exp_eq_0_iff_not_bit)
  have split: "8 * i + j < Suc w \<longleftrightarrow> 8 * i + j < w \<or> (i = w div 8 \<and> j = w mod 8)" if "j < 8" for i j
  proof -
    have "8 * i + j = w \<longleftrightarrow> i = w div 8 \<and> j = w mod 8" using that by auto
    then show ?thesis by auto
  qed
  have "bit (?f w ?s ! i) (7 - j) \<longleftrightarrow> 8 * i + j < Suc w \<and> bit v (8 * i + j)" if "i < n" "j < 8" for i j
  proof (cases "i = w div 8")
    case True
    have "7 - j = 7 - w mod 8 \<longleftrightarrow> j = w mod 8" using that(2) by (auto simp: diff_diff_eq)
    then show ?thesis
      using True w that IH by (auto simp: g split bit_or_iff bit_one_at)
  next
    case False
    then show ?thesis using w that IH by (auto simp: g split)
  qed
  then show ?case using IH(1) by auto
qed simp

text \<open>The bit string of any of the three types is read back as the same options.\<close>

lemma opt_bit_string_round:
  assumes "width \<le> 16" "\<forall>k. bit v k \<longrightarrow> k < width"
  shows "opt_from_bit_string width (snd (opt_to_bit_string width v)) = v"
proof (rule bit_word_eqI)
  fix k :: nat
  let ?n = "(width + 7) div 8"
  have w: "width \<le> 8 * ?n" by simp
  note r = opt_to_bit_string_octets [OF w, of v]
  have "k < width \<Longrightarrow> k div 8 < ?n" using w by (simp add: div_less_iff_less_mult)
  moreover have "k < width \<Longrightarrow> bit (snd (opt_to_bit_string width v) ! (k div 8)) (7 - k mod 8) = bit v k"
    using r calculation by (simp add: opt_to_bit_string_def Let_def)
  ultimately show "bit (opt_from_bit_string width (snd (opt_to_bit_string width v))) k = bit v k"
    using r assms by (auto simp: bit_from_bit_string opt_to_bit_string_def Let_def)
qed

section \<open>The named options\<close>

definition opt_sequence_number where "opt_sequence_number (v :: opt_flds) = opt_get v 1"
definition opt_report_time_stamp where "opt_report_time_stamp (v :: opt_flds) = opt_get v 2"
definition opt_reason_for_inclusion where "opt_reason_for_inclusion (v :: opt_flds) = opt_get v 3"
definition opt_data_set_name where "opt_data_set_name (v :: opt_flds) = opt_get v 4"
definition opt_data_reference where "opt_data_reference (v :: opt_flds) = opt_get v 5"
definition opt_buffer_overflow where "opt_buffer_overflow (v :: opt_flds) = opt_get v 6"
definition opt_entry_id where "opt_entry_id (v :: opt_flds) = opt_get v 7"
definition opt_conf_revision where "opt_conf_revision (v :: opt_flds) = opt_get v 8"
definition opt_segmentation where "opt_segmentation (v :: opt_flds) = opt_get v 9"

definition with_segmentation where "with_segmentation (v :: opt_flds) on = opt_set v 9 on"
definition with_buffer_overflow where "with_buffer_overflow (v :: opt_flds) on = opt_set v 6 on"
definition with_entry_id where "with_entry_id (v :: opt_flds) on = opt_set v 7 on"

definition trg_data_change where "trg_data_change (v :: u8) = opt_get v 1"
definition trg_quality_change where "trg_quality_change (v :: u8) = opt_get v 2"
definition trg_data_update where "trg_data_update (v :: u8) = opt_get v 3"
definition trg_integrity where "trg_integrity (v :: u8) = opt_get v 4"
definition trg_general_interrogation where "trg_general_interrogation (v :: u8) = opt_get v 5"

definition with_data_change where "with_data_change (v :: u8) on = opt_set v 1 on"
definition with_quality_change where "with_quality_change (v :: u8) on = opt_set v 2 on"
definition with_data_update where "with_data_update (v :: u8) on = opt_set v 3 on"
definition with_integrity where "with_integrity (v :: u8) on = opt_set v 4 on"
definition with_general_interrogation where "with_general_interrogation (v :: u8) on = opt_set v 5 on"

definition OPT_FLDS_BITS :: nat where "OPT_FLDS_BITS = 10"
definition TRG_OPS_BITS :: nat where "TRG_OPS_BITS = 6"

definition opt_flds_to_bit_string :: "opt_flds \<Rightarrow> u8 \<times> bytes" where
  "opt_flds_to_bit_string v = opt_to_bit_string OPT_FLDS_BITS v"

definition opt_flds_from_bit_string :: "bytes \<Rightarrow> opt_flds" where
  "opt_flds_from_bit_string bs = opt_from_bit_string OPT_FLDS_BITS bs"

definition trg_ops_to_bit_string :: "u8 \<Rightarrow> u8 \<times> bytes" where
  "trg_ops_to_bit_string v = opt_to_bit_string TRG_OPS_BITS (ucast v)"

definition trg_ops_from_bit_string :: "bytes \<Rightarrow> u8" where
  "trg_ops_from_bit_string bs = ucast (opt_from_bit_string TRG_OPS_BITS bs)"

definition TRG_EVENTS :: trg_ops where
  "TRG_EVENTS = 0x26"

section \<open>Control models\<close>

datatype control_model = StatusOnly | DirectNormal | SboNormal | DirectEnhanced | SboEnhanced

definition control_model_from_code :: "i64 \<Rightarrow> control_model option" where
  "control_model_from_code code =
     (if code = 0 then Some StatusOnly else if code = 1 then Some DirectNormal
      else if code = 2 then Some SboNormal else if code = 3 then Some DirectEnhanced
      else if code = 4 then Some SboEnhanced else None)"

definition control_model_to_code :: "control_model \<Rightarrow> i64" where
  "control_model_to_code m = (case m of StatusOnly \<Rightarrow> 0 | DirectNormal \<Rightarrow> 1 | SboNormal \<Rightarrow> 2
     | DirectEnhanced \<Rightarrow> 3 | SboEnhanced \<Rightarrow> 4)"

definition needs_select :: "control_model \<Rightarrow> bool" where
  "needs_select m \<longleftrightarrow> m = SboNormal \<or> m = SboEnhanced"

definition select_carries_value :: "control_model \<Rightarrow> bool" where
  "select_carries_value m \<longleftrightarrow> m = SboEnhanced"

definition enhanced_security :: "control_model \<Rightarrow> bool" where
  "enhanced_security m \<longleftrightarrow> m = DirectEnhanced \<or> m = SboEnhanced"

lemma control_model_round: "control_model_from_code (control_model_to_code m) = Some m"
  by (cases m) (simp_all add: control_model_from_code_def control_model_to_code_def)

section \<open>Editions\<close>

datatype edition = Ed1 | Ed2 | Ed2_1

definition max_object_reference_len :: "edition \<Rightarrow> usize" where
  "max_object_reference_len e = (case e of Ed1 \<Rightarrow> 65 | _ \<Rightarrow> 129)"

definition has_rcb_reservation :: "edition \<Rightarrow> bool" where
  "has_rcb_reservation e \<longleftrightarrow> e \<noteq> Ed1"

end
