(* ===== verification/Ber_Writer.thy ===== *)
theory Ber_Writer
  imports Time
begin

text \<open>
  The BER encoder (\<open>src/ber/mod.rs\<close> for the tags, \<open>src/ber/writer.rs\<close>). The encoder is the octets it
  has written; every operation appends to them and returns a \<open>Result\<close>, and an operation that fails
  half way leaves what it had already written, as in the source. \<open>element\<close> and the \<open>*_octets\<close>
  functions name what is appended; the \<open>emits\<close> lemmas show that the operations append exactly that.
\<close>

section \<open>Tags\<close>

datatype ber_class = Universal | Application | Context | Private

record tag =
  tag_class :: ber_class
  tag_constructed :: bool
  tag_number :: u32

definition tag_context :: "u32 \<Rightarrow> tag" where
  "tag_context n = \<lparr> tag_class = Context, tag_constructed = False, tag_number = n \<rparr>"

definition tag_context_constructed :: "u32 \<Rightarrow> tag" where
  "tag_context_constructed n = \<lparr> tag_class = Context, tag_constructed = True, tag_number = n \<rparr>"

definition tag_application_constructed :: "u32 \<Rightarrow> tag" where
  "tag_application_constructed n = \<lparr> tag_class = Application, tag_constructed = True, tag_number = n \<rparr>"

definition tag_application :: "u32 \<Rightarrow> tag" where
  "tag_application n = \<lparr> tag_class = Application, tag_constructed = False, tag_number = n \<rparr>"

definition tag_universal :: "u32 \<Rightarrow> bool \<Rightarrow> tag" where
  "tag_universal n c = \<lparr> tag_class = Universal, tag_constructed = c, tag_number = n \<rparr>"

lemmas tag_defs = tag_context_def tag_context_constructed_def tag_application_constructed_def
  tag_application_def tag_universal_def

lemma tag_eq_simps [simp]:
  "tag_context a = tag_context b \<longleftrightarrow> a = b"
  "tag_context_constructed a = tag_context_constructed b \<longleftrightarrow> a = b"
  "tag_application_constructed a = tag_application_constructed b \<longleftrightarrow> a = b"
  "tag_universal a c = tag_universal b d \<longleftrightarrow> a = b \<and> c = d"
  "tag_context a \<noteq> tag_context_constructed b" "tag_context_constructed a \<noteq> tag_context b"
  "tag_context a \<noteq> tag_universal b c" "tag_universal b c \<noteq> tag_context a"
  "tag_context_constructed a \<noteq> tag_universal b c" "tag_universal b c \<noteq> tag_context_constructed a"
  by (auto simp: tag_defs)

definition class_bits :: "ber_class \<Rightarrow> u8" where
  "class_bits c = (case c of Universal \<Rightarrow> 0 | Application \<Rightarrow> 0x40 | Context \<Rightarrow> 0x80 | Private \<Rightarrow> 0xC0)"

definition first_octet :: "tag \<Rightarrow> u8" where
  "first_octet t = class_bits (tag_class t) OR (if tag_constructed t then 0x20 else 0) OR
     (if tag_number t < 31 then ucast (tag_number t) else 31)"

section \<open>Identifier and length octets\<close>

type_synonym encoder = bytes
type_synonym enc = "(error, encoder, unit) st"

text \<open>The groups of seven bits of a tag number, least significant first.\<close>

function tag_groups :: "u32 \<Rightarrow> u8 list" where
  "tag_groups v = ucast (v AND 0x7F) # (if drop_bit 7 v = 0 then [] else tag_groups (drop_bit 7 v))"
  by pat_completeness auto

lemma drop7_less: "drop_bit 7 (v :: u32) \<noteq> 0 \<Longrightarrow> unat (drop_bit 7 v) < unat v"
  by (metis One_nat_def div_less_dividend one_less_numeral_iff power_one_right semiring_norm(76)
      unat_drop_bit unat_gt_0 bot_nat_0.not_eq_extremum div_0 one_less_power zero_less_numeral)

termination tag_groups
  by (relation "measure unat") (simp_all add: drop7_less)

declare tag_groups.simps [simp del]

definition write_tag :: "tag \<Rightarrow> enc" where
  "write_tag t e =
     (let e = e @ [first_octet t]
      in if tag_number t \<ge> 31 then
           let groups = tag_groups (tag_number t); n = length groups
           in (Inr (), e @ map (\<lambda>i. groups ! i OR (if i > 0 then 0x80 else 0)) (rev [0..<n]))
         else (Inr (), e))"

definition encode_length :: "usize \<Rightarrow> bytes result" where
  "encode_length len =
     (if len < 0x80 then Inr [of_nat len]
      else if len < 2 ^ 32 then
        let bytes = dropWhile (\<lambda>b. b = 0) (to_be 4 (of_nat len :: u32))
        in Inr ((0x80 OR of_nat (length bytes)) # bytes)
      else Inl (Encode ''length exceeds u32''))"

definition write_length :: "usize \<Rightarrow> enc" where
  "write_length len e = (case encode_length len of Inl er \<Rightarrow> (Inl er, e) | Inr o' \<Rightarrow> (Inr (), e @ o'))"

definition enc_raw :: "bytes \<Rightarrow> enc" where
  "enc_raw bs e = (Inr (), e @ bs)"

definition primitive :: "tag \<Rightarrow> bytes \<Rightarrow> enc" where
  "primitive t contents =
     sbind (write_tag t) (\<lambda>_. sbind (write_length (length contents)) (\<lambda>_. enc_raw contents))"

text \<open>
  A placeholder octet for the length is written first and grown once the contents are known, the
  contents shifted right.
\<close>

definition constructed :: "tag \<Rightarrow> enc \<Rightarrow> enc" where
  "constructed t f = sbind (write_tag t) (\<lambda>_ e.
     let len_pos = length e
     in sbind f (\<lambda>_ e.
          let content_len = length e - len_pos - 1
          in case encode_length content_len of
               Inl er \<Rightarrow> (Inl er, e)
             | Inr len_octets \<Rightarrow>
                 (if length len_octets = 1 then (Inr (), e[len_pos := len_octets ! 0])
                  else (Inr (), take len_pos e @ len_octets @ drop (len_pos + 1) e)))
        (e @ [0]))"

section \<open>Integers\<close>

text \<open>The loop that skips the redundant leading octets of the eight of an integer.\<close>

function skip_signed :: "bytes \<Rightarrow> nat \<Rightarrow> nat" where
  "skip_signed bytes start =
     (if start < 7 \<and> ((bytes ! start = 0 \<and> bytes ! (start + 1) AND 0x80 = 0) \<or>
                      (bytes ! start = 0xFF \<and> bytes ! (start + 1) AND 0x80 \<noteq> 0))
      then skip_signed bytes (start + 1) else start)"
  by pat_completeness auto
termination skip_signed by (relation "measure (\<lambda>(_, s). 7 - s)") auto

function skip_unsigned :: "bytes \<Rightarrow> nat \<Rightarrow> nat" where
  "skip_unsigned bytes start =
     (if start < 7 \<and> bytes ! start = 0 \<and> bytes ! (start + 1) AND 0x80 = 0
      then skip_unsigned bytes (start + 1) else start)"
  by pat_completeness auto
termination skip_unsigned by (relation "measure (\<lambda>(_, s). 7 - s)") auto

declare skip_signed.simps [simp del] skip_unsigned.simps [simp del]

definition integer_octets :: "i64 \<Rightarrow> bytes" where
  "integer_octets value = (let bytes = to_be 8 value in drop (skip_signed bytes 0) bytes)"

definition enc_integer :: "tag \<Rightarrow> i64 \<Rightarrow> enc" where
  "enc_integer t value = primitive t (integer_octets value)"

definition unsigned_octets :: "u64 \<Rightarrow> bytes" where
  "unsigned_octets value =
     (let bytes = to_be 8 value; start = skip_unsigned bytes 0
      in if bytes ! start AND 0x80 \<noteq> 0 then drop start (0 # bytes) else drop start bytes)"

definition enc_unsigned :: "tag \<Rightarrow> u64 \<Rightarrow> enc" where
  "enc_unsigned t value = primitive t (unsigned_octets value)"

text \<open>The two loops and the adjustment of \<open>unsigned_width\<close>.\<close>

function width_loop :: "u64 \<Rightarrow> nat \<Rightarrow> nat" where
  "width_loop value w = (if w < 8 \<and> drop_bit (w * 8) value \<noteq> 0 then width_loop value (w + 1) else w)"
  by pat_completeness auto
termination width_loop by (relation "measure (\<lambda>(_, w). 8 - w)") auto

declare width_loop.simps [simp del]

definition unsigned_width :: "u64 \<Rightarrow> usize \<Rightarrow> usize" where
  "unsigned_width value min_width =
     (let w = width_loop value 1;
          w = (if w < 8 \<and> drop_bit (w * 8 - 1) value AND 1 = 1 then w + 1 else w)
      in if w < min_width then min_width else w)"

definition enc_unsigned_fixed :: "tag \<Rightarrow> u64 \<Rightarrow> usize \<Rightarrow> enc" where
  "enc_unsigned_fixed t value width =
     (if width = 0 \<or> width > 8 \<or> (width < 8 \<and> drop_bit (width * 8) value \<noteq> 0)
      then sfail (Encode ''value does not fit the fixed width'')
      else primitive t (drop (8 - width) (to_be 8 value)))"

definition enc_unsigned_fixed_min :: "tag \<Rightarrow> u64 \<Rightarrow> usize \<Rightarrow> enc" where
  "enc_unsigned_fixed_min t value min_width = enc_unsigned_fixed t value (unsigned_width value min_width)"

section \<open>The other primitive types\<close>

definition enc_boolean :: "tag \<Rightarrow> bool \<Rightarrow> enc" where
  "enc_boolean t value = primitive t [if value then 1 else 0]"

definition enc_bit_string :: "tag \<Rightarrow> u8 \<Rightarrow> bytes \<Rightarrow> enc" where
  "enc_bit_string t unused_bits contents =
     (if unused_bits > 7 \<or> (contents = [] \<and> unused_bits \<noteq> 0)
      then sfail (Encode ''bit string unused bits'')
      else sbind (write_tag t) (\<lambda>_. sbind (write_length (length contents + 1)) (\<lambda>_.
             sbind (enc_raw [unused_bits]) (\<lambda>_. enc_raw contents))))"

definition enc_visible_string :: "tag \<Rightarrow> string \<Rightarrow> enc" where
  "enc_visible_string t s =
     (if \<not> ascii_str s then sfail (Encode ''VisibleString must be ASCII'') else primitive t (as_bytes s))"

definition enc_float32 :: "tag \<Rightarrow> u32 \<Rightarrow> enc" where
  "enc_float32 t value = primitive t (8 # to_be 4 value)"

definition enc_float64 :: "tag \<Rightarrow> u64 \<Rightarrow> enc" where
  "enc_float64 t value = primitive t (11 # to_be 8 value)"

definition enc_utc_time :: "tag \<Rightarrow> utc_time \<Rightarrow> enc" where
  "enc_utc_time t v = primitive t (utc_to_octets v)"

section \<open>What the encoder appends\<close>

definition tag_octets :: "tag \<Rightarrow> bytes" where
  "tag_octets t = snd (write_tag t [])"

definition length_octets :: "usize \<Rightarrow> bytes" where
  "length_octets n = (case encode_length n of Inr o' \<Rightarrow> o' | Inl _ \<Rightarrow> [])"

definition element :: "tag \<Rightarrow> bytes \<Rightarrow> bytes" where
  "element t contents = tag_octets t @ length_octets (length contents) @ contents"

lemma emits_write_tag [emits_intro]: "emits (write_tag t) (tag_octets t)"
  by (simp add: emits_def write_tag_def tag_octets_def Let_def)

lemma emits_enc_raw [emits_intro]: "emits (enc_raw bs) bs"
  by (simp add: emits_def enc_raw_def)

lemma encode_length_ok: "n < 2 ^ 32 \<Longrightarrow> encode_length n = Inr (length_octets n)"
  by (simp add: length_octets_def encode_length_def Let_def)

lemma emits_write_length [emits_intro]: "n < 2 ^ 32 \<Longrightarrow> emits (write_length n) (length_octets n)"
  by (simp add: emits_def write_length_def encode_length_ok)

lemma emits_primitive [emits_intro]:
  "length contents < 2 ^ 32 \<Longrightarrow> emits (primitive t contents) (element t contents)"
  unfolding primitive_def element_def by (intro emits_intro)

lemma emits_constructed [emits_intro]:
  assumes f: "emits f body" and len: "length body < 2 ^ 32"
  shows "emits (constructed t f) (element t body)"
proof (rule emitsI)
  fix s
  let ?s = "s @ tag_octets t"
  have lo: "encode_length (length body) = Inr (length_octets (length body))"
    by (rule encode_length_ok [OF len])
  have "length (length_octets (length body)) = 1 \<Longrightarrow>
      length_octets (length body) = [length_octets (length body) ! 0]"
    by (cases "length_octets (length body)") auto
  then show "constructed t f s = (Inr (), s @ element t body)"
    using lo emitsD [OF emits_write_tag, of t s] emitsD [OF f, of "?s @ [0]"]
    by (auto simp: constructed_def sbind_def Let_def element_def list_update_append)
qed

lemma length_octets_small: "n < 128 \<Longrightarrow> length_octets n = [of_nat n]"
  by (simp add: length_octets_def encode_length_def)

text \<open>An encoder that cannot fail on the length appends an element or reports that it is too long.\<close>

lemma primitive_cases:
  "primitive t contents e =
    (if length contents < 2 ^ 32 then (Inr (), e @ element t contents)
     else (Inl (Encode ''length exceeds u32''), e @ tag_octets t))"
proof (cases "length contents < 2 ^ 32")
  case True
  then show ?thesis using emitsD [OF emits_primitive] by simp
next
  case False
  then show ?thesis
    using emitsD [OF emits_write_tag, of t e]
    by (simp add: primitive_def sbind_def write_length_def encode_length_def)
qed

end
