(* ===== verification/Ber_Reader.thy ===== *)
theory Ber_Reader
  imports Ber_Writer
begin

text \<open>
  The BER reader (\<open>src/ber/reader.rs\<close>): elements, the accessors of their contents, and the cursor.
  A cursor operation returns its result and the cursor it leaves; offsets of errors are kept, so the
  accessors report where a malformed field sits.
\<close>

record tlv =
  tlv_tag :: tag
  tlv_value :: bytes
  tlv_offset :: usize
  tlv_value_offset :: usize

record cursor =
  cur_buf :: bytes
  cur_pos :: usize
  cur_base :: usize

definition total_len :: "tlv \<Rightarrow> usize" where
  "total_len t = tlv_value_offset t - tlv_offset t + length (tlv_value t)"

definition children :: "tlv \<Rightarrow> cursor" where
  "children t = \<lparr> cur_buf = tlv_value t, cur_pos = 0, cur_base = tlv_value_offset t \<rparr>"

definition expect :: "tag \<Rightarrow> tlv \<Rightarrow> tlv result" where
  "expect expected t = (if tlv_tag t = expected then Inr t else Inl (Decode UnexpectedTag (tlv_offset t)))"

definition bad_value :: "tlv \<Rightarrow> error" where
  "bad_value t = Decode BadValue (tlv_value_offset t)"

section \<open>Reading the contents\<close>

definition integer_i64 :: "tlv \<Rightarrow> i64 result" where
  "integer_i64 t = (let v = tlv_value t in
     if v = [] \<or> length v > 8 then Inl (bad_value t)
     else Inr (be_acc (if hd v AND 0x80 \<noteq> 0 then - 1 else 0) v))"

definition integer_i32 :: "tlv \<Rightarrow> i32 result" where
  "integer_i32 t = rbind (integer_i64 t) (\<lambda>v.
     if - (2 ^ 31) \<le> sint v \<and> sint v < 2 ^ 31 then Inr (ucast v) else Inl (bad_value t))"

definition unsigned_u64 :: "tlv \<Rightarrow> u64 result" where
  "unsigned_u64 t = (case tlv_value t of [] \<Rightarrow> Inl (bad_value t)
   | first # _ \<Rightarrow> (let v = tlv_value t in
       if length v > 9 \<or> (length v = 9 \<and> first \<noteq> 0) \<or> first AND 0x80 \<noteq> 0
       then Inl (bad_value t) else Inr (from_be v)))"

definition unsigned_u32 :: "tlv \<Rightarrow> u32 result" where
  "unsigned_u32 t = rbind (unsigned_u64 t) (\<lambda>v. ok_or (bad_value t) (narrow v))"

definition unsigned_lenient_u64 :: "tlv \<Rightarrow> u64 result" where
  "unsigned_lenient_u64 t = (let v = tlv_value t in
     if length v = 9 \<and> hd v = 0 then Inr (from_be (tl v))
     else if v \<noteq> [] \<and> length v \<le> 8 then Inr (from_be v)
     else Inl (bad_value t))"

definition unsigned_lenient_u32 :: "tlv \<Rightarrow> u32 result" where
  "unsigned_lenient_u32 t = rbind (unsigned_lenient_u64 t) (\<lambda>v. ok_or (bad_value t) (narrow v))"

definition boolean :: "tlv \<Rightarrow> bool result" where
  "boolean t = (case tlv_value t of [b] \<Rightarrow> Inr (b \<noteq> 0) | _ \<Rightarrow> Inl (bad_value t))"

definition bit_string :: "tlv \<Rightarrow> (u8 \<times> bytes) result" where
  "bit_string t = (case tlv_value t of
     [] \<Rightarrow> Inl (bad_value t)
   | unused # rest \<Rightarrow> if unused \<le> 7 \<and> (rest \<noteq> [] \<or> unused = 0) then Inr (unused, rest) else Inl (bad_value t))"

definition visible_string :: "tlv \<Rightarrow> string result" where
  "visible_string t =
     (if is_ascii (tlv_value t)
      then ok_or (Decode NotAscii (tlv_value_offset t)) (from_utf8 (tlv_value t))
      else Inl (Decode NotAscii (tlv_value_offset t)))"

definition utf8_string :: "tlv \<Rightarrow> string result" where
  "utf8_string t = ok_or (bad_value t) (from_utf8 (tlv_value t))"

text \<open>An IEEE 754 value is its bit pattern, with the precision it was encoded at.\<close>

datatype float_val = Single u32 | Double u64

definition floating_point :: "tlv \<Rightarrow> float_val result" where
  "floating_point t = (case tlv_value t of
     [] \<Rightarrow> Inl (bad_value t)
   | w # rest \<Rightarrow>
       if w = 8 \<and> length rest = 4 then Inr (Single (from_be rest))
       else if w = 11 \<and> length rest = 8 then Inr (Double (from_be rest))
       else Inl (bad_value t))"

definition float32 :: "tlv \<Rightarrow> u32 result" where
  "float32 t = rbind (floating_point t) (\<lambda>f. case f of Single x \<Rightarrow> Inr x | Double _ \<Rightarrow> Inl (bad_value t))"

definition tlv_utc_time :: "tlv \<Rightarrow> utc_time result" where
  "tlv_utc_time t = (if length (tlv_value t) = 8 then Inr (utc_from_octets (tlv_value t)) else Inl (bad_value t))"

section \<open>The cursor\<close>

definition cursor_new :: "bytes \<Rightarrow> cursor" where
  "cursor_new buf = \<lparr> cur_buf = buf, cur_pos = 0, cur_base = 0 \<rparr>"

definition cur_is_empty :: "cursor \<Rightarrow> bool" where
  "cur_is_empty c \<longleftrightarrow> length (cur_buf c) \<le> cur_pos c"

definition cur_offset :: "cursor \<Rightarrow> usize" where
  "cur_offset c = cur_base c + cur_pos c"

definition cur_remaining :: "cursor \<Rightarrow> bytes" where
  "cur_remaining c = (case slice_from (cur_buf c) (cur_pos c) of Some bs \<Rightarrow> bs | None \<Rightarrow> [])"

definition cur_finish :: "cursor \<Rightarrow> unit result" where
  "cur_finish c = (if cur_is_empty c then Inr () else Inl (Decode TrailingBytes (cur_offset c)))"

text \<open>The loop over the groups of a high tag number, and the definite lengths.\<close>

function high_number :: "bytes \<Rightarrow> usize \<Rightarrow> usize \<Rightarrow> usize \<Rightarrow> u32 \<Rightarrow> nat \<Rightarrow> (u32 \<times> usize) result" where
  "high_number buf base start pos number groups =
     (case get_at buf pos of
        None \<Rightarrow> Inl (Decode Truncated (base + pos))
      | Some b \<Rightarrow>
          if groups = 0 \<and> b = 0x80 then Inl (Decode BadValue (base + start))
          else if number > drop_bit 7 0xFFFFFFFF then Inl (Decode BadValue (base + start))
          else let number = push_bit 7 number OR ucast (b AND 0x7F); groups = groups + 1
               in if b AND 0x80 = 0 then
                    (if number < 31 then Inl (Decode BadValue (base + start)) else Inr (number, pos + 1))
                  else if groups \<ge> 5 then Inl (Decode BadValue (base + start))
                  else high_number buf base start (pos + 1) number groups)"
  by pat_completeness auto
termination high_number by (relation "measure (\<lambda>(_, _, _, _, _, groups). 5 - groups)") auto

declare high_number.simps [simp del]

definition read_length :: "bytes \<Rightarrow> usize \<Rightarrow> usize \<Rightarrow> (usize \<times> usize) result" where
  "read_length buf base pos =
     rbind (ok_or (Decode Truncated (base + pos)) (get_at buf pos)) (\<lambda>len_first.
     if len_first < 0x80 then Inr (unat len_first, pos + 1)
     else let n = unat (len_first AND 0x7F) in
       if n = 0 then Inl (Decode IndefiniteLength (base + pos))
       else if n > 4 then Inl (Decode BadLength (base + pos))
       else rbind (ok_or (Decode Truncated (base + pos + 1)) (slice buf (pos + 1) (pos + 1 + n))) (\<lambda>bytes.
         Inr (be_nat 0 bytes, pos + 1 + n)))"

definition class_of_octet :: "u8 \<Rightarrow> ber_class" where
  "class_of_octet first = (let k = drop_bit 6 first in
     if k = 0 then Universal else if k = 1 then Application else if k = 2 then Context else Private)"

definition next_inner :: "cursor \<Rightarrow> (tlv \<times> usize) result" where
  "next_inner c = (let buf = cur_buf c; base = cur_base c; start = cur_pos c in
     rbind (ok_or (Decode Truncated (base + start)) (get_at buf start)) (\<lambda>first.
     let number = ucast (first AND 0x1F) :: u32 in
     rbind (if number = 31 then high_number buf base start (start + 1) 0 0 else Inr (number, start + 1)) (\<lambda>(number, pos).
     rbind (read_length buf base pos) (\<lambda>(len, pos).
     rbind (ok_or (Decode Truncated (base + pos)) (slice buf pos (pos + len))) (\<lambda>value.
     Inr (\<lparr> tlv_tag = \<lparr> tag_class = class_of_octet first, tag_constructed = (first AND 0x20 \<noteq> 0), tag_number = number \<rparr>,
            tlv_value = value, tlv_offset = base + start, tlv_value_offset = base + pos \<rparr>, pos + len))))))"

definition cur_next :: "cursor \<Rightarrow> tlv result option \<times> cursor" where
  "cur_next c = (if cur_is_empty c then (None, c)
     else case next_inner c of
            Inl e \<Rightarrow> (Some (Inl e), c\<lparr> cur_pos := length (cur_buf c) \<rparr>)
          | Inr (t, pos) \<Rightarrow> (Some (Inr t), c\<lparr> cur_pos := pos \<rparr>))"

type_synonym 'a rd = "(error, cursor, 'a) st"

definition next_required :: "tlv rd" where
  "next_required c = (case cur_next c of
     (Some r, c') \<Rightarrow> (r, c') | (None, c') \<Rightarrow> (Inl (Decode MissingField (cur_offset c')), c'))"

definition next_tag :: "tag \<Rightarrow> tlv rd" where
  "next_tag t = sbind next_required (\<lambda>tlv. slift (expect t tlv))"

definition peek_tag :: "cursor \<Rightarrow> tag option" where
  "peek_tag c = (case cur_next c of (Some (Inr t), _) \<Rightarrow> Some (tlv_tag t) | _ \<Rightarrow> None)"

definition next_if_tag :: "tag \<Rightarrow> tlv option rd" where
  "next_if_tag t c = (if peek_tag c = Some t then sbind next_required (\<lambda>tlv. sreturn (Some tlv)) c
                      else (Inr None, c))"

section \<open>Progress\<close>

text \<open>Every element takes at least two octets and stays inside the buffer: the loops over a cursor end.\<close>

lemma high_number_pos:
  "high_number buf base start pos number groups = Inr (n, p) \<Longrightarrow> pos < p \<and> p \<le> length buf"
proof (induction buf base start pos number groups rule: high_number.induct)
  case (1 buf base start pos number groups)
  show ?case
    using 1(2) 1(1)
    by (subst (asm) high_number.simps) (fastforce simp: get_at_def Let_def split: option.splits if_splits)
qed

lemma read_length_pos: "read_length buf base pos = Inr (l, p) \<Longrightarrow> pos < p \<and> p \<le> length buf"
  by (auto simp: read_length_def rbind_Inr_iff ok_or_Inr_iff Let_def get_at_Some_iff slice_Some_iff
      split: if_splits)

lemma next_inner_pos:
  "next_inner c = Inr (t, p) \<Longrightarrow> cur_pos c + 2 \<le> p \<and> p \<le> length (cur_buf c) \<and>
     length (tlv_value t) + cur_pos c + 2 \<le> p"
  by (auto simp: next_inner_def Let_def rbind_Inr_iff ok_or_Inr_iff slice_Some_iff get_at_Some_iff
      split: if_splits dest!: high_number_pos read_length_pos)

lemma cur_next_SomeD:
  "cur_next c = (Some r, c') \<Longrightarrow> cur_pos c < length (cur_buf c) \<and> cur_pos c < cur_pos c' \<and>
     cur_pos c' \<le> length (cur_buf c) \<and> cur_buf c' = cur_buf c \<and> cur_base c' = cur_base c"
  by (auto simp: cur_next_def cur_is_empty_def split: if_splits sum.splits dest: next_inner_pos)

lemma cur_next_InrD:
  "cur_next c = (Some (Inr t), c') \<Longrightarrow> length (tlv_value t) + cur_pos c + 2 \<le> cur_pos c'"
  by (auto simp: cur_next_def split: if_splits sum.splits dest: next_inner_pos)

lemma next_required_InrD:
  "next_required c = (Inr t, c') \<Longrightarrow> cur_buf c' = cur_buf c \<and> cur_base c' = cur_base c \<and>
    length (tlv_value t) + cur_pos c + 2 \<le> cur_pos c' \<and> cur_pos c' \<le> length (cur_buf c)"
  by (auto simp: next_required_def split: prod.splits option.splits dest: cur_next_SomeD cur_next_InrD)

definition cur_left :: "cursor \<Rightarrow> nat" where
  "cur_left c = length (cur_buf c) - cur_pos c"

lemma cur_next_left: "cur_next c = (Some r, c') \<Longrightarrow> cur_left c' < cur_left c"
  by (auto simp: cur_left_def dest: cur_next_SomeD)

text \<open>A malformed element yields one error and then the cursor is exhausted.\<close>

lemma cur_next_error_ends: "cur_next c = (Some (Inl e), c') \<Longrightarrow> cur_next c' = (None, c')"
  by (auto simp: cur_next_def cur_is_empty_def split: if_splits sum.splits)

end
