(* ===== verification/Ber.thy ===== *)
theory Ber
  imports Ber_Reader
begin

text \<open>
  The BER reader reads back what the writer wrote. \<open>cur_at\<close> is a cursor in the middle of a buffer;
  the \<open>next_*_element\<close> rules move it over one element, and the decoders of the protocol layers are
  proved by moving it over the elements their encoders emit. The locale \<open>ber_field\<close> is the contract
  of one primitive type, a writer and a reader of the same contents octets, interpreted for each.
\<close>

section \<open>Identifier octets\<close>

definition low_number :: "u32 \<Rightarrow> u8" where
  "low_number n = (if n < 31 then ucast n else 31)"

lemma unat_low_number: "unat (low_number n) = min (unat n) 31"
  by (auto simp: low_number_def unat_ucast_down word_less_nat_alt not_less)

lemma low_number_bits: "5 \<le> k \<Longrightarrow> \<not> bit (low_number n) k"
proof -
  have "unat (low_number n) < 2 ^ 5" by (simp add: unat_low_number)
  then have "take_bit 5 (low_number n) = low_number n" by (simp only: word_unat_eq_iff unat_take_bit mod_less)
  then show "5 \<le> k \<Longrightarrow> \<not> bit (low_number n) k" by (metis bit_take_bit_iff not_le)
qed

lemma first_octet_alt:
  "first_octet t = class_bits (tag_class t) OR (if tag_constructed t then 0x20 else 0) OR low_number (tag_number t)"
  by (simp add: first_octet_def low_number_def)

lemma first_octet_fields:
  "class_of_octet (first_octet t) = tag_class t"
  "first_octet t AND 0x20 \<noteq> 0 \<longleftrightarrow> tag_constructed t"
  "first_octet t AND 0x1F = low_number (tag_number t)"
proof -
  have "drop_bit 6 (first_octet t) = drop_bit 6 (class_bits (tag_class t))"
    by (rule octet_eqI) (simp_all add: first_octet_alt low_number_bits bit_simps)
  then show "class_of_octet (first_octet t) = tag_class t"
    by (simp add: class_of_octet_def class_bits_def split: ber_class.split)
  show "first_octet t AND 0x20 \<noteq> 0 \<longleftrightarrow> tag_constructed t"
    by (simp add: octet_mask first_octet_alt low_number_bits class_bits_def bit_simps split: ber_class.split)
  show "first_octet t AND 0x1F = low_number (tag_number t)"
    by (rule octet_eqI) (simp_all add: first_octet_alt low_number_bits class_bits_def bit_simps split: ber_class.split)
qed

lemma low_number_31: "ucast (low_number n) = (31 :: u32) \<longleftrightarrow> 31 \<le> n"
  by (auto simp: word_unat_eq_iff word_le_nat_alt unat_ucast_up unat_low_number min_def)

lemma low_number_small: "n < 31 \<Longrightarrow> ucast (low_number n) = n"
  by (simp add: word_unat_eq_iff unat_ucast_up unat_low_number word_less_nat_alt)

section \<open>High tag numbers\<close>

lemma tag_groups_nth:
  "i < length (tag_groups v) \<Longrightarrow> tag_groups v ! i = ucast (drop_bit (7 * i) v AND 0x7F)"
proof (induction v arbitrary: i rule: tag_groups.induct)
  case (1 v)
  show ?case
  proof (cases i)
    case 0
    then show ?thesis by (subst tag_groups.simps) simp
  next
    case (Suc j)
    with 1 show ?thesis
      by (subst tag_groups.simps, subst (asm) (2) tag_groups.simps)
        (auto simp: drop_bit_drop_bit ac_simps split: if_splits)
  qed
qed

lemma tag_groups_length:
  "drop_bit (7 * length (tag_groups v)) v = 0 \<and>
   (\<forall>i. 0 < i \<and> i < length (tag_groups v) \<longrightarrow> drop_bit (7 * i) v \<noteq> 0)"
proof (induction v rule: tag_groups.induct)
  case (1 v)
  show ?case
  proof (cases "drop_bit 7 v = 0")
    case True
    then show ?thesis by (simp add: tag_groups.simps [of v])
  next
    case False
    have eq: "length (tag_groups v) = Suc (length (tag_groups (drop_bit 7 v)))"
      using False by (simp add: tag_groups.simps [of v])
    have "drop_bit (7 * i) v \<noteq> 0" if "0 < i" "i < length (tag_groups v)" for i
    proof (cases "i = 1")
      case False
      with that obtain j where "i = Suc j" "0 < j" by (cases i) auto
      with that 1 [OF \<open>drop_bit 7 v \<noteq> 0\<close>] eq show ?thesis
        by (metis Suc_less_eq add.commute drop_bit_drop_bit mult_Suc_right)
    qed (use False in simp)
    moreover have "drop_bit (7 * length (tag_groups v)) v = 0"
      using 1 [OF False] by (simp add: eq drop_bit_drop_bit ac_simps)
    ultimately show ?thesis by blast
  qed
qed

lemma tag_groups_bounds: "0 < length (tag_groups v)" "length (tag_groups v) \<le> 5"
proof -
  show "0 < length (tag_groups v)" by (subst tag_groups.simps) simp
  have "drop_bit (7 * 5) v = 0" by (rule bit_word_eqI) (simp add: bit_simps)
  then show "length (tag_groups v) \<le> 5"
    using tag_groups_length [of v] by (metis not_le zero_less_numeral)
qed

definition group_octet :: "u32 \<Rightarrow> nat \<Rightarrow> u8" where
  "group_octet v i = ucast (drop_bit (7 * i) v AND 0x7F) OR (if i > 0 then 0x80 else 0)"

lemma tag_octets_alt:
  "tag_octets t = first_octet t # (if 31 \<le> tag_number t then
     map (group_octet (tag_number t)) (rev [0..<length (tag_groups (tag_number t))]) else [])"
  by (auto simp: tag_octets_def write_tag_def Let_def group_octet_def tag_groups_nth
      intro!: map_cong simp del: upt_Suc)

lemma group_octet_bits:
  "group_octet v i AND 0x80 = 0 \<longleftrightarrow> i = 0"
  "ucast (group_octet v i AND 0x7F) = drop_bit (7 * i) v AND (0x7F :: u32)"
proof -
  show "group_octet v i AND 0x80 = 0 \<longleftrightarrow> i = 0"
    by (simp add: octet_mask group_octet_def bit_simps)
  have m: "(0x7F :: u32) = mask 7" "(0x7F :: u8) = mask 7" by (simp_all add: mask_eq_exp_minus_1)
  have o: "group_octet v i AND 0x7F = ucast (drop_bit (7 * i) v AND 0x7F)"
    by (rule octet_eqI) (simp_all add: group_octet_def bit_simps)
  show "ucast (group_octet v i AND 0x7F) = drop_bit (7 * i) v AND (0x7F :: u32)"
    unfolding o unfolding m by (rule bit_word_eqI) (auto simp: bit_simps)
qed

lemma group_step: "push_bit 7 (drop_bit (7 * Suc k) v) OR (drop_bit (7 * k) v AND 0x7F) = drop_bit (7 * k) (v :: u32)"
proof -
  have m: "(0x7F :: u32) = mask 7" by (simp add: mask_eq_exp_minus_1)
  show ?thesis unfolding m by (rule bit_word_eqI) (auto simp: bit_simps algebra_simps)
qed

lemma group_fits: "\<not> drop_bit 7 0xFFFFFFFF < drop_bit (7 * Suc k) (v :: u32)"
proof -
  have "unat (drop_bit (7 * k) v) \<le> 2 ^ 32 - 1" using unat_lt_exp [of "drop_bit (7 * k) v"] by simp
  then have "unat (drop_bit (7 * k) v) div 128 \<le> (2 ^ 32 - 1) div 128" by (rule div_le_mono)
  then have "unat (drop_bit 7 (drop_bit (7 * k) v)) \<le> (2 ^ 32 - 1) div 128" by (simp only: unat_drop_bit) simp
  then show ?thesis by (simp add: word_less_nat_alt not_less drop_bit_drop_bit)
qed

lemma high_number_read:
  assumes "drop pos buf = map (group_octet v) (rev [0..<Suc k]) @ rest"
    and "groups + Suc k \<le> 5"
    and "groups = 0 \<Longrightarrow> drop_bit (7 * Suc k) v = 0 \<and> (k > 0 \<longrightarrow> drop_bit (7 * k) v \<noteq> 0)"
    and "31 \<le> v"
  shows "high_number buf base start pos (drop_bit (7 * Suc k) v) groups = Inr (v, pos + Suc k)"
  using assms
proof (induction k arbitrary: pos groups)
  case (0 pos groups)
  then have b: "get_at buf pos = Some (group_octet v 0)" by (auto dest: get_at_drop)
  have "group_octet v 0 \<noteq> 0x80" using group_octet_bits(1) [of v 0] by auto
  then show ?case
    using b group_fits [of 0 v] group_step [of 0 v] 0
    by (subst high_number.simps) (simp add: group_octet_bits Let_def not_less)
next
  case (Suc k pos groups)
  let ?b = "group_octet v (Suc k)"
  have b: "get_at buf pos = Some ?b" and d: "drop (Suc pos) buf = map (group_octet v) (rev [0..<Suc k]) @ rest"
    using Suc.prems(1) by (auto dest: get_at_drop)
  have "groups = 0 \<Longrightarrow> ?b \<noteq> 0x80"
    using Suc.prems(3) group_step [of "Suc k" v] group_octet_bits(2) [of v "Suc k"] by auto
  moreover have "high_number buf base start (Suc pos) (drop_bit (7 * Suc k) v) (Suc groups) = Inr (v, Suc pos + Suc k)"
    using Suc.prems d by (intro Suc.IH) simp_all
  ultimately show ?case
    using b group_fits [of "Suc k" v] group_step [of "Suc k" v] Suc.prems(2)
    by (cases "groups = 0"; subst high_number.simps) (simp_all add: group_octet_bits Let_def)
qed

section \<open>Lengths\<close>

lemma be_nat_dropWhile: "be_nat 0 (dropWhile (\<lambda>b. b = 0) bs) = be_nat 0 bs"
  by (induction bs) simp_all

lemma read_length_octets:
  assumes "drop pos buf = length_octets n @ rest" and "n < 2 ^ 32"
  shows "read_length buf base pos = Inr (n, pos + length (length_octets n))"
proof (cases "n < 0x80")
  case True
  then have "get_at buf pos = Some (of_nat n)" using assms by (auto simp: length_octets_small dest: get_at_drop)
  moreover have "unat (of_nat n :: u8) = n" using True by (simp add: unat_of_nat)
  ultimately show ?thesis
    using True by (simp add: read_length_def length_octets_small word_less_nat_alt)
next
  case False
  let ?full = "to_be 4 (of_nat n :: u32)"
  let ?bs = "dropWhile (\<lambda>b. b = 0) ?full"
  have lo: "length_octets n = (0x80 OR of_nat (length ?bs)) # ?bs"
    using False assms(2) by (simp add: length_octets_def encode_length_def Let_def)
  have val: "be_nat 0 ?bs = n"
    using assms(2) by (simp add: be_nat_dropWhile be_nat_to_be unat_of_nat)
  have "length ?bs \<le> 4" using length_dropWhile_le [of "\<lambda>b. b = 0" ?full] by simp
  moreover have "?bs \<noteq> []" using val False by (auto simp del: dropWhile_eq_Nil_conv)
  ultimately have "length ?bs \<in> {1, 2, 3, 4}" by (cases "length ?bs") auto
  then have hd: "\<not> (0x80 OR of_nat (length ?bs) :: u8) < 0x80"
    "unat ((0x80 OR of_nat (length ?bs) :: u8) AND 0x7F) = length ?bs"
    by auto
  have g: "get_at buf pos = Some (0x80 OR of_nat (length ?bs))" and d: "drop (Suc pos) buf = ?bs @ rest"
    using get_at_drop [of pos buf] assms(1) by (simp_all add: lo)
  have "Suc pos \<le> length buf" using g by (simp add: get_at_Some_iff)
  then have "slice buf (Suc pos) (Suc pos + length ?bs) = Some ?bs" using d by (intro slice_drop)
  then show ?thesis
    using g hd val \<open>length ?bs \<le> 4\<close> \<open>?bs \<noteq> []\<close>
    by (simp add: read_length_def Let_def lo del: dropWhile_eq_Nil_conv)
qed

section \<open>Elements\<close>

definition mk_tlv :: "tag \<Rightarrow> bytes \<Rightarrow> usize \<Rightarrow> tlv" where
  "mk_tlv t contents off = \<lparr> tlv_tag = t, tlv_value = contents, tlv_offset = off,
     tlv_value_offset = off + length (tag_octets t) + length (length_octets (length contents)) \<rparr>"

lemma mk_tlv_simps [simp]:
  "tlv_tag (mk_tlv t contents off) = t" "tlv_value (mk_tlv t contents off) = contents"
  "tlv_offset (mk_tlv t contents off) = off"
  by (simp_all add: mk_tlv_def)

lemma read_identifier:
  assumes "drop pos buf = tag_octets t @ rest"
  shows "get_at buf pos = Some (first_octet t)"
    "(if ucast (first_octet t AND 0x1F) = (31 :: u32) then high_number buf base pos (pos + 1) 0 0
      else Inr (ucast (first_octet t AND 0x1F), pos + 1)) = Inr (tag_number t, pos + length (tag_octets t))"
proof -
  let ?n = "length (tag_groups (tag_number t))"
  have g: "get_at buf pos = Some (first_octet t)"
    and d: "drop (Suc pos) buf = tl (tag_octets t) @ rest"
    using get_at_drop [of pos buf] assms by (auto simp: tag_octets_alt)
  have "high_number buf base pos (Suc pos) 0 0 = Inr (tag_number t, Suc pos + ?n)" if "31 \<le> tag_number t"
  proof -
    obtain k where k: "?n = Suc k" using tag_groups_bounds(1) [of "tag_number t"] by (cases ?n) auto
    have "high_number buf base pos (Suc pos) (drop_bit (7 * Suc k) (tag_number t)) 0 = Inr (tag_number t, Suc pos + Suc k)"
      using d that tag_groups_bounds(2) [of "tag_number t"] tag_groups_length [of "tag_number t"]
      by (intro high_number_read) (auto simp: tag_octets_alt k)
    then show ?thesis using tag_groups_length [of "tag_number t"] k by simp
  qed
  then show "(if ucast (first_octet t AND 0x1F) = (31 :: u32) then high_number buf base pos (pos + 1) 0 0
      else Inr (ucast (first_octet t AND 0x1F), pos + 1)) = Inr (tag_number t, pos + length (tag_octets t))"
    by (auto simp: first_octet_fields low_number_31 low_number_small tag_octets_alt not_le)
  show "get_at buf pos = Some (first_octet t)" by (fact g)
qed

lemma next_inner_element:
  assumes d: "drop (cur_pos c) (cur_buf c) = element t contents @ rest" and len: "length contents < 2 ^ 32"
  shows "next_inner c = Inr (mk_tlv t contents (cur_offset c), cur_pos c + length (element t contents))"
proof -
  let ?p = "cur_pos c + length (tag_octets t)" and ?l = "length_octets (length contents)"
  have d1: "drop (cur_pos c) (cur_buf c) = tag_octets t @ ?l @ contents @ rest"
    using d by (simp add: element_def)
  then have d2: "drop ?p (cur_buf c) = ?l @ contents @ rest" by (rule drop_after)
  then have d3: "drop (?p + length ?l) (cur_buf c) = contents @ rest" by (rule drop_after)
  have "?l \<noteq> []" using len by (auto simp: length_octets_def encode_length_def Let_def)
  then have "?p < length (cur_buf c)" using d2 by (cases "?p < length (cur_buf c)") auto
  moreover have "length (cur_buf c) - ?p = length ?l + length contents + length rest"
    using arg_cong [OF d2, of length] by simp
  ultimately have "?p + length ?l \<le> length (cur_buf c)" by linarith
  then have "slice (cur_buf c) (?p + length ?l) (?p + length ?l + length contents) = Some contents"
    using d3 by (rule slice_drop [rotated])
  moreover have "?p + length ?l + length contents = cur_pos c + length (element t contents)"
    by (simp add: element_def)
  ultimately show ?thesis
    unfolding next_inner_def Let_def
    by (simp only: read_identifier [OF d1] read_length_octets [OF d2 len] ok_or_simps rbind.simps prod.case)
      (simp add: mk_tlv_def cur_offset_def first_octet_fields ac_simps)
qed

definition cur_at :: "bytes \<Rightarrow> bytes \<Rightarrow> usize \<Rightarrow> cursor" where
  "cur_at pre rest base = \<lparr> cur_buf = pre @ rest, cur_pos = length pre, cur_base = base \<rparr>"

lemma cur_at_start: "cursor_new buf = cur_at [] buf 0" "children t = cur_at [] (tlv_value t) (tlv_value_offset t)"
  by (simp_all add: cursor_new_def children_def cur_at_def)

lemma cur_at_end [simp]: "cur_is_empty (cur_at pre [] base)" "cur_next (cur_at pre [] base) = (None, cur_at pre [] base)"
  by (simp_all add: cur_at_def cur_is_empty_def cur_next_def)

lemma cur_finish_end [simp]: "cur_finish (cur_at pre [] base) = Inr ()"
  by (simp add: cur_finish_def)

lemma element_not_Nil [simp]: "element t contents \<noteq> []"
  by (simp add: element_def tag_octets_alt)

lemma length_element_pos [simp]: "0 < length (element t contents)"
  by simp

abbreviation fits :: "bytes \<Rightarrow> bool" where
  "fits bs \<equiv> length bs < 4294967296"

lemma cur_next_element [simp]:
  "fits contents \<Longrightarrow> cur_next (cur_at pre (element t contents @ rest) base) =
     (Some (Inr (mk_tlv t contents (base + length pre))), cur_at (pre @ element t contents) rest base)"
  by (simp add: cur_next_def cur_is_empty_def next_inner_element cur_at_def cur_offset_def)

lemma next_required_element [simp]:
  "fits contents \<Longrightarrow> next_required (cur_at pre (element t contents @ rest) base) =
     (Inr (mk_tlv t contents (base + length pre)), cur_at (pre @ element t contents) rest base)"
  by (simp add: next_required_def)

lemma next_tag_element [simp]:
  "fits contents \<Longrightarrow> next_tag t (cur_at pre (element t contents @ rest) base) =
     (Inr (mk_tlv t contents (base + length pre)), cur_at (pre @ element t contents) rest base)"
  by (simp add: next_tag_def sbind_def expect_def)

lemma next_tag_other [simp]:
  "fits contents \<Longrightarrow> t \<noteq> u \<Longrightarrow> next_tag u (cur_at pre (element t contents @ rest) base) =
     (Inl (Decode UnexpectedTag (base + length pre)), cur_at (pre @ element t contents) rest base)"
  by (simp add: next_tag_def sbind_def expect_def)

lemma peek_tag_element [simp]:
  "fits contents \<Longrightarrow> peek_tag (cur_at pre (element t contents @ rest) base) = Some t"
  "peek_tag (cur_at pre [] base) = None"
  by (simp_all add: peek_tag_def)

lemma next_if_tag_element [simp]:
  "fits contents \<Longrightarrow> next_if_tag u (cur_at pre (element t contents @ rest) base) =
     (if t = u then (Inr (Some (mk_tlv t contents (base + length pre))), cur_at (pre @ element t contents) rest base)
      else (Inr None, cur_at pre (element t contents @ rest) base))"
  "next_if_tag u (cur_at pre [] base) = (Inr None, cur_at pre [] base)"
  by (simp_all add: next_if_tag_def sbind_def)

text \<open>The last element of a buffer, where nothing follows it.\<close>

lemmas last_element [simp] =
  cur_next_element [where rest = "[]", simplified] next_required_element [where rest = "[]", simplified]
  next_tag_element [where rest = "[]", simplified] next_tag_other [where rest = "[]", simplified]
  peek_tag_element(1) [where rest = "[]", simplified] next_if_tag_element(1) [where rest = "[]", simplified]

text \<open>An element is at most eleven octets longer than its contents.\<close>

lemma length_length_octets: "length (length_octets n) \<le> 5"
  using length_dropWhile_le [of "\<lambda>b. b = 0" "to_be 4 (of_nat n :: u32)"]
  by (simp add: length_octets_def encode_length_def Let_def)

lemma length_tag_octets: "length (tag_octets t) \<le> 6"
  using tag_groups_bounds [of "tag_number t"] by (simp add: tag_octets_alt)

lemma length_element_le: "length (element t contents) \<le> length contents + 11"
  using length_tag_octets [of t] length_length_octets [of "length contents"] by (simp add: element_def)

section \<open>The contract of a primitive type\<close>

locale ber_field =
  fixes put :: "tag \<Rightarrow> 'v \<Rightarrow> enc"
    and get :: "tlv \<Rightarrow> 'v result"
    and contents :: "'v \<Rightarrow> bytes"
    and ok :: "'v \<Rightarrow> bool"
  assumes fits_contents: "ok v \<Longrightarrow> fits (contents v)"
    and put_emits: "ok v \<Longrightarrow> emits (put t v) (element t (contents v))"
    and get_contents: "ok v \<Longrightarrow> tlv_value x = contents v \<Longrightarrow> get x = Inr v"
begin

lemma get_mk_tlv: "ok v \<Longrightarrow> get (mk_tlv t (contents v) off) = Inr v"
  by (simp add: get_contents)

lemma put_appends: "ok v \<Longrightarrow> put t v e = (Inr (), e @ element t (contents v))"
  by (rule emitsD [OF put_emits])

lemma contents_inject: "ok v \<Longrightarrow> ok w \<Longrightarrow> contents v = contents w \<longleftrightarrow> v = w"
  by (metis get_mk_tlv sum.inject(2))

text \<open>A field written anywhere in a buffer is read back with its tag, and the cursor is after it.\<close>

lemma read_written:
  "ok v \<Longrightarrow> sbind (next_tag t) (\<lambda>x. slift (get x)) (cur_at pre (element t (contents v) @ rest) base) =
    (Inr v, cur_at (pre @ element t (contents v)) rest base)"
  by (simp add: fits_contents sbind_def get_contents)

text \<open>A field under another tag is refused, at its own offset.\<close>

lemma read_wrong_tag:
  "ok v \<Longrightarrow> t \<noteq> u \<Longrightarrow> fst (sbind (next_tag u) (\<lambda>x. slift (get x)) (cur_at pre (element t (contents v) @ rest) base)) =
    Inl (Decode UnexpectedTag (base + length pre))"
  by (simp add: fits_contents sbind_def)

end

section \<open>Integers\<close>

text \<open>Eight octets hold the whole word, whatever the accumulator starts with.\<close>

lemma be_acc_to_be_8 [simp]: "be_acc a (to_be 8 (w :: u64)) = w"
proof -
  have "(2 :: u64) ^ 64 = 0" by (simp only: exp_eq_zero_iff) simp
  then have "(2 ^ 8 :: u64) ^ length (to_be 8 w) = 0" by (simp only: length_to_be power_mult [symmetric]) simp
  moreover have "(256 :: u64) = 2 ^ 8" by simp
  ultimately have "(256 :: u64) ^ length (to_be 8 w) = 0" by (simp only:)
  then have "be_acc a (to_be 8 w) = 0 + from_be (to_be 8 w)" by (simp only: be_acc_ring [of a] mult_zero_right)
  then show ?thesis by (simp add: from_be_to_be)
qed

definition sign_fill :: "bytes \<Rightarrow> i64" where
  "sign_fill bs = (if hd bs AND 0x80 \<noteq> 0 then - 1 else 0)"

lemma skip_signed_value:
  "length bs = 8 \<Longrightarrow> start \<le> 7 \<Longrightarrow>
    (let r = skip_signed bs start in r \<le> 7 \<and>
      be_acc (sign_fill (drop r bs)) (drop r bs) = be_acc (sign_fill (drop start bs)) (drop start bs))"
proof (induction bs start rule: skip_signed.induct)
  case (1 bs start)
  show ?case
  proof (cases "start < 7 \<and> ((bs ! start = 0 \<and> bs ! (start + 1) AND 0x80 = 0) \<or>
                      (bs ! start = 0xFF \<and> bs ! (start + 1) AND 0x80 \<noteq> 0))")
    case True
    then have d: "drop start bs = bs ! start # drop (Suc start) bs" "hd (drop (Suc start) bs) = bs ! Suc start"
      using 1(2) by (simp_all add: Cons_nth_drop_Suc hd_drop_conv_nth)
    have "be_acc (sign_fill (drop (Suc start) bs)) (drop (Suc start) bs) = be_acc (sign_fill (drop start bs)) (drop start bs)"
      using True unfolding sign_fill_def d by auto
    with 1 True show ?thesis by (simp add: Let_def skip_signed.simps [of bs start])
  next
    case False
    then have "skip_signed bs start = start" by (subst skip_signed.simps) (simp only: if_False)
    then show ?thesis using 1(3) by (simp add: Let_def)
  qed
qed

lemma integer_octets_length [simp]: "integer_octets v \<noteq> []" "length (integer_octets v) \<le> 8"
  using skip_signed_value [of "to_be 8 v" 0] by (simp_all add: integer_octets_def Let_def)

lemma integer_octets_value: "be_acc (sign_fill (integer_octets v)) (integer_octets v) = v"
  using skip_signed_value [of "to_be 8 v" 0] by (simp add: integer_octets_def Let_def)

lemma short_fits: "length bs \<le> n \<Longrightarrow> n < 4294967296 \<Longrightarrow> fits bs"
  by simp

interpretation integer_field: ber_field enc_integer integer_i64 integer_octets "\<lambda>_. True"
proof (unfold_locales, goal_cases)
  case (1 v)
  show ?case by (rule short_fits [OF integer_octets_length(2)]) simp
next
  case (2 v t)
  then show ?case
    unfolding enc_integer_def by (intro emits_primitive le_less_trans [OF integer_octets_length(2)]) simp
next
  case (3 v x)
  then show ?case
    using integer_octets_value [of v] leD [OF integer_octets_length(2) [of v]]
    by (simp add: integer_i64_def Let_def sign_fill_def)
qed

lemma skip_unsigned_value:
  "length bs = 8 \<Longrightarrow> start \<le> 7 \<Longrightarrow>
    (let r = skip_unsigned bs start in start \<le> r \<and> r \<le> 7 \<and> be_acc (0 :: u64) (drop r bs) = be_acc 0 (drop start bs) \<and>
      (bs ! r AND 0x80 \<noteq> 0 \<longrightarrow> r = start))"
proof (induction bs start rule: skip_unsigned.induct)
  case (1 bs start)
  show ?case
  proof (cases "start < 7 \<and> bs ! start = 0 \<and> bs ! (start + 1) AND 0x80 = 0")
    case True
    then have "drop start bs = bs ! start # drop (Suc start) bs"
      using 1(2) by (intro Cons_nth_drop_Suc [symmetric]) simp
    then have d: "be_acc (0 :: u64) (drop start bs) = be_acc 0 (drop (Suc start) bs)" using True by simp
    have r: "skip_unsigned bs start = skip_unsigned bs (Suc start)"
      using True by (subst skip_unsigned.simps) simp
    have "skip_unsigned bs (Suc start) = Suc start \<Longrightarrow> bs ! skip_unsigned bs (Suc start) AND 0x80 = 0"
      using True by simp
    then show ?thesis using 1 True by (auto simp: Let_def r d)
  next
    case False
    then have "skip_unsigned bs start = start" by (subst skip_unsigned.simps) (simp only: if_False)
    then show ?thesis using 1(3) by (simp add: Let_def)
  qed
qed

lemma unsigned_octets_cases:
  obtains (high) "unsigned_octets v = 0 # to_be 8 v" "hd (to_be 8 v) AND 0x80 \<noteq> 0"
  | (low) r where "r \<le> 7" "unsigned_octets v = drop r (to_be 8 v)" "to_be 8 v ! r AND 0x80 = 0"
      "from_be (drop r (to_be 8 v)) = v"
proof (cases "to_be 8 v ! skip_unsigned (to_be 8 v) 0 AND 0x80 = 0")
  case True
  then show thesis
    using skip_unsigned_value [of "to_be 8 v" 0] low [of "skip_unsigned (to_be 8 v) 0"]
    by (simp add: unsigned_octets_def Let_def)
next
  case False
  then show thesis
    using skip_unsigned_value [of "to_be 8 v" 0] high
    by (auto simp: unsigned_octets_def Let_def hd_conv_nth simp flip: length_greater_0_conv)
qed

lemma unsigned_octets_length [simp]: "unsigned_octets v \<noteq> []" "length (unsigned_octets v) \<le> 9"
  by (cases v rule: unsigned_octets_cases; simp)+

interpretation unsigned_field: ber_field enc_unsigned unsigned_u64 unsigned_octets "\<lambda>_. True"
proof (unfold_locales, goal_cases)
  case (1 v)
  show ?case by (rule short_fits [OF unsigned_octets_length(2)]) simp
next
  case (2 v t)
  then show ?case
    unfolding enc_unsigned_def by (intro emits_primitive le_less_trans [OF unsigned_octets_length(2)]) simp
next
  case (3 v x)
  then show ?case
  proof (cases v rule: unsigned_octets_cases)
    case high
    then show ?thesis by (simp add: unsigned_u64_def 3(2) Let_def)
  next
    case (low r)
    then have "hd (drop r (to_be 8 v)) AND 0x80 = 0" by (simp add: hd_drop_conv_nth)
    moreover obtain b bs where "drop r (to_be 8 v) = b # bs" using low(1) by (cases "drop r (to_be 8 v)") auto
    moreover have "length (drop r (to_be 8 v)) \<le> 8" by simp
    ultimately show ?thesis using low(2,4) by (simp add: unsigned_u64_def 3(2) Let_def)
  qed
qed

lemma fits_number_octets [simp]: "fits (integer_octets i)" "fits (unsigned_octets u)"
  by (rule integer_field.fits_contents unsigned_field.fits_contents, simp)+

interpretation lenient_field: ber_field enc_unsigned unsigned_lenient_u64 unsigned_octets "\<lambda>_. True"
proof (unfold_locales, goal_cases)
  case (3 v x)
  then show ?case
  proof (cases v rule: unsigned_octets_cases)
    case high
    then show ?thesis by (simp add: unsigned_lenient_u64_def 3(2) Let_def)
  next
    case (low r)
    have "length (drop r (to_be 8 v)) \<le> 8" "drop r (to_be 8 v) \<noteq> []" "8 - r \<noteq> 9" using low(1) by simp_all
    then show ?thesis using low(2,4) by (simp add: unsigned_lenient_u64_def 3(2) Let_def)
  qed
qed (rule unsigned_field.fits_contents unsigned_field.put_emits, simp)+

text \<open>The \<open>u32\<close> fields are \<open>u64\<close> fields narrowed.\<close>

interpretation u32_field: ber_field "\<lambda>t v. enc_unsigned t (ucast v)" unsigned_u32
  "\<lambda>v. unsigned_octets (ucast v)" "\<lambda>_ :: u32. True"
  by unfold_locales
    (auto intro: unsigned_field.fits_contents unsigned_field.put_emits
      simp: unsigned_u32_def unsigned_field.get_contents narrow_ucast)

interpretation lenient_u32_field: ber_field "\<lambda>t v. enc_unsigned t (ucast v)" unsigned_lenient_u32
  "\<lambda>v. unsigned_octets (ucast v)" "\<lambda>_ :: u32. True"
  by unfold_locales
    (auto intro: unsigned_field.fits_contents unsigned_field.put_emits
      simp: unsigned_lenient_u32_def lenient_field.get_contents narrow_ucast)

section \<open>Fixed-width integers\<close>

lemma width_loop_ok: "1 \<le> w \<Longrightarrow> w \<le> 8 \<Longrightarrow>
    w \<le> width_loop v w \<and> width_loop v w \<le> 8 \<and> (width_loop v w < 8 \<longrightarrow> drop_bit (width_loop v w * 8) v = 0)"
proof (induction v w rule: width_loop.induct)
  case (1 v w)
  show ?case
  proof (cases "w < 8 \<and> drop_bit (w * 8) v \<noteq> 0")
    case True
    then have "width_loop v w = width_loop v (w + 1)" by (subst width_loop.simps) simp
    with 1 True show ?thesis by simp
  next
    case False
    then have "width_loop v w = w" by (subst width_loop.simps) (simp only: if_False)
    with 1 False show ?thesis by auto
  qed
qed

lemma drop_bit_mono_zero: "drop_bit m (v :: 'a::len word) = 0 \<Longrightarrow> m \<le> n \<Longrightarrow> drop_bit n v = 0"
  by (metis add.commute drop_bit_drop_bit drop_bit_of_0 le_Suc_ex)

lemma unsigned_width_ok:
  assumes "1 \<le> m" "m \<le> 8" "v < 2 ^ 63"
  defines "w \<equiv> unsigned_width v m"
  shows "m \<le> w \<and> 1 \<le> w \<and> w \<le> 8 \<and> drop_bit (w * 8 - 1) v = 0"
proof -
  define l where "l = width_loop v 1"
  have l: "1 \<le> l" "l \<le> 8" "l < 8 \<longrightarrow> drop_bit (l * 8) v = 0"
    using width_loop_ok [of 1 v] by (simp_all add: l_def)
  have top: "drop_bit 63 v = 0"
    using assms(3) by (simp add: word_unat_eq_iff unat_drop_bit word_less_nat_alt)
  have one: "drop_bit (l * 8 - 1) v AND 1 = 1 \<or> drop_bit (l * 8 - 1) v = 0" if "l < 8"
  proof -
    have "drop_bit 1 (drop_bit (l * 8 - 1) v) = 0" using l that by (simp add: drop_bit_drop_bit)
    then have "drop_bit (l * 8 - 1) v = drop_bit (l * 8 - 1) v AND 1"
      by (metis and_one_eq bits_ident drop_bit_eq_div power_one_right add_0 mult_zero_left div_mult_mod_eq)
    then show ?thesis by (metis and_one_eq not_mod_2_eq_1_eq_0)
  qed
  define k where "k = (if l < 8 \<and> drop_bit (l * 8 - 1) v AND 1 = 1 then l + 1 else l)"
  have k: "1 \<le> k" "k \<le> 8" by (use l in \<open>auto simp: k_def\<close>)
  have kz: "drop_bit (k * 8 - 1) v = 0"
  proof (cases "l < 8")
    case True
    then show ?thesis
      using one l drop_bit_mono_zero [of "l * 8" v "(l + 1) * 8 - 1"] by (auto simp: k_def)
  next
    case False
    with l top show ?thesis by (simp add: k_def)
  qed
  have w: "w = (if k < m then m else k)" by (simp add: w_def unsigned_width_def k_def l_def Let_def)
  then show ?thesis using k kz assms(1,2) drop_bit_mono_zero [OF kz, of "m * 8 - 1"] by auto
qed

lemma fixed_contents: "0 < w \<Longrightarrow> w \<le> 8 \<Longrightarrow> drop_bit (w * 8) v = 0 \<Longrightarrow>
    emits (enc_unsigned_fixed t v w) (element t (to_be w v))"
  unfolding enc_unsigned_fixed_def
  by (auto simp: drop_to_be intro!: emits_primitive)

lemma fixed_value: "w \<le> 8 \<Longrightarrow> drop_bit (w * 8) (v :: u64) = 0 \<Longrightarrow> from_be (to_be w v) = v"
  by (simp add: from_be_to_be take_bit_eq_self_iff_drop_bit_eq_0 mult.commute)

lemma fixed_width_field: "0 < w \<Longrightarrow> w \<le> 8 \<Longrightarrow>
  ber_field (\<lambda>t v. enc_unsigned_fixed t v w) unsigned_lenient_u64 (to_be w) (\<lambda>v. drop_bit (w * 8) v = 0)"
proof (unfold_locales, goal_cases)
  case (2 v t)
  then show ?case by (intro fixed_contents)
next
  case (3 v x)
  then have "to_be w v \<noteq> []" by (metis length_to_be list.size(3) less_irrefl)
  with 3 show ?case by (simp add: unsigned_lenient_u64_def fixed_value Let_def)
qed simp

text \<open>A fixed-width field that fits is read back by the lenient reader.\<close>

interpretation fixed1_field: ber_field "\<lambda>t v. enc_unsigned_fixed t v 1" unsigned_lenient_u64 "to_be 1" "\<lambda>v. drop_bit (1 * 8) v = 0"
  by (rule fixed_width_field) simp_all
interpretation fixed2_field: ber_field "\<lambda>t v. enc_unsigned_fixed t v 2" unsigned_lenient_u64 "to_be 2" "\<lambda>v. drop_bit (2 * 8) v = 0"
  by (rule fixed_width_field) simp_all
interpretation fixed4_field: ber_field "\<lambda>t v. enc_unsigned_fixed t v 4" unsigned_lenient_u64 "to_be 4" "\<lambda>v. drop_bit (4 * 8) v = 0"
  by (rule fixed_width_field) simp_all

lemma to_be_top_bit:
  "0 < w \<Longrightarrow> drop_bit (w * 8 - 1) v = 0 \<Longrightarrow> hd (to_be w v) AND 0x80 = 0"
proof (induction w arbitrary: v)
  case (Suc w)
  show ?case
  proof (cases w)
    case 0
    have "bit v 7 = bit (drop_bit 7 v) 0" by (simp add: bit_drop_bit_eq)
    then have "\<not> bit v 7" using Suc.prems(2) 0 by simp
    then show ?thesis by (simp add: 0 octet_mask bit_simps)
  next
    case (Suc k)
    then show ?thesis
      using Suc.IH [of "drop_bit 8 v"] Suc.prems by (auto simp: drop_bit_drop_bit hd_append split: if_splits)
  qed
qed simp

text \<open>
  Widened by one octet when it must be, a fixed-width value below \<open>2^63\<close> is never a negative
  INTEGER: the strict reader accepts it too.
\<close>

lemma fixed_min_field: "1 \<le> m \<Longrightarrow> m \<le> 8 \<Longrightarrow>
  ber_field (\<lambda>t v. enc_unsigned_fixed_min t v m) unsigned_u64 (\<lambda>v. to_be (unsigned_width v m) v) (\<lambda>v. v < 2 ^ 63)"
proof (unfold_locales, goal_cases)
  case (1 v)
  then show ?case using unsigned_width_ok [of m v] by simp
next
  case (2 v t)
  note w = unsigned_width_ok [OF 2]
  then show ?case unfolding enc_unsigned_fixed_min_def by (intro fixed_contents) (auto intro: drop_bit_mono_zero)
next
  case (3 v x)
  let ?w = "unsigned_width v m"
  note w = unsigned_width_ok [OF 3(1-3)]
  then obtain b bs where bs: "to_be ?w v = b # bs" by (cases "to_be ?w v") (auto simp flip: length_0_conv)
  have "b AND 0x80 = 0" using to_be_top_bit [of ?w v] w bs by simp
  moreover have "drop_bit (?w * 8) v = 0" using w drop_bit_mono_zero [of "?w * 8 - 1" v "?w * 8"] by simp
  then have "from_be (b # bs) = v" using fixed_value [of ?w v] w bs by simp
  moreover have "length (b # bs) \<le> 8" using w bs length_to_be [of ?w v] by simp
  ultimately show ?case by (simp add: unsigned_u64_def 3(4) bs Let_def)
qed

section \<open>The other types\<close>

definition bool_octets :: "bool \<Rightarrow> bytes" where
  "bool_octets b = [if b then 1 else 0]"

lemma length_bool_octets [simp]: "length (bool_octets b) = 1"
  by (simp add: bool_octets_def)

interpretation boolean_field: ber_field enc_boolean boolean bool_octets "\<lambda>_. True"
  by unfold_locales (auto simp: enc_boolean_def boolean_def bool_octets_def intro!: emits_primitive)

interpretation octets_field: ber_field primitive "\<lambda>x. Inr (tlv_value x)" "\<lambda>bs. bs" fits
  by unfold_locales (auto intro!: emits_primitive)

interpretation visible_field: ber_field enc_visible_string visible_string as_bytes
  "\<lambda>s. ascii_str s \<and> length s < 4294967296"
  by unfold_locales
    (auto simp: enc_visible_string_def visible_string_def from_utf8_def ascii_utf8_valid intro!: emits_primitive)

interpretation utf8_field: ber_field "\<lambda>t s. primitive t (as_bytes s)" utf8_string as_bytes
  "\<lambda>s. utf8_valid (as_bytes s) \<and> length s < 4294967296"
  by unfold_locales (auto simp: utf8_string_def from_utf8_def intro!: emits_primitive)

interpretation bit_string_field: ber_field "\<lambda>t (u, bs). enc_bit_string t u bs" bit_string "\<lambda>(u, bs). u # bs"
  "\<lambda>(u, bs). u \<le> 7 \<and> (bs \<noteq> [] \<or> u = 0) \<and> Suc (length bs) < 4294967296"
proof (unfold_locales, goal_cases)
  case (2 v t)
  then obtain u bs where v: "v = (u, bs)" "u \<le> 7" "bs \<noteq> [] \<or> u = 0" "Suc (length bs) < 4294967296" by auto
  have "emits (sbind (write_tag t) (\<lambda>_. sbind (write_length (length bs + 1)) (\<lambda>_.
      sbind (enc_raw [u]) (\<lambda>_. enc_raw bs)))) (tag_octets t @ length_octets (length bs + 1) @ [u] @ bs)"
    using v by (intro emits_bind emits_write_tag emits_write_length emits_enc_raw) simp
  moreover have "\<not> (u > 7 \<or> (bs = [] \<and> u \<noteq> 0))" using v by (auto simp: not_less)
  ultimately show ?case by (simp only: enc_bit_string_def if_False v prod.case) (simp add: element_def)
qed (auto simp: bit_string_def)

interpretation float32_field: ber_field enc_float32 float32 "\<lambda>x. 8 # to_be 4 x" "\<lambda>_. True"
  by unfold_locales
    (auto simp: enc_float32_def float32_def floating_point_def from_be_to_be intro!: emits_primitive)

interpretation utc_field: ber_field enc_utc_time tlv_utc_time utc_to_octets utc_wf
  by unfold_locales (auto simp: enc_utc_time_def tlv_utc_time_def utc.dec_enc intro!: emits_primitive)

section \<open>Fields of a sequence\<close>

text \<open>A field that must come next, one that may, and a default for one that did not.\<close>

definition field :: "tag \<Rightarrow> (tlv \<Rightarrow> 'a result) \<Rightarrow> 'a rd" where
  "field t get = sbind (next_tag t) (\<lambda>x. slift (get x))"

definition opt_field :: "tag \<Rightarrow> (tlv \<Rightarrow> 'a result) \<Rightarrow> 'a option rd" where
  "opt_field t get = sbind (next_if_tag t) (\<lambda>x. slift (transpose_opt (map_option get x)))"

definition default_to :: "'a \<Rightarrow> 'a option \<Rightarrow> 'a" where
  "default_to d x = (case x of Some y \<Rightarrow> y | None \<Rightarrow> d)"

lemma fits_element: "fits (element t c) \<Longrightarrow> fits c"
  by (simp add: element_def)

lemma field_element [simp]:
  "fits c \<Longrightarrow> field t get (cur_at pre (element t c @ rest) base) =
    (get (mk_tlv t c (base + length pre)), cur_at (pre @ element t c) rest base)"
  by (simp add: field_def sbind_def split: sum.split)

lemma opt_field_element [simp]:
  "fits c \<Longrightarrow> opt_field u get (cur_at pre (element t c @ rest) base) =
    (if t = u then (transpose_opt (Some (get (mk_tlv t c (base + length pre)))), cur_at (pre @ element t c) rest base)
     else (Inr None, cur_at pre (element t c @ rest) base))"
  "opt_field u get (cur_at pre [] base) = (Inr None, cur_at pre [] base)"
  by (simp_all add: opt_field_def sbind_def)

lemma total_len_mk_tlv: "total_len (mk_tlv t c off) = length (element t c)"
  by (simp add: total_len_def mk_tlv_def element_def)

lemma element_bound: "length contents \<le> n \<Longrightarrow> length (element t contents) \<le> n + 11"
  using length_element_le [of t contents] by simp

lemma utc_default_wf: "utc_wf utc_default"
  by (simp add: utc_wf_def utc_default_def tq_wf_def TQ_UNSYNCHRONIZED_def)

section \<open>Minimal encodings\<close>

lemma skip_unsigned_zeros:
  "\<forall>i < k. bs ! i = 0 \<Longrightarrow> start < k \<Longrightarrow> k \<le> 7 \<Longrightarrow> k - 1 \<le> skip_unsigned bs start"
proof (induction bs start rule: skip_unsigned.induct)
  case (1 bs start)
  show ?case
  proof (cases "Suc start < k")
    case True
    then have "start < 7 \<and> bs ! start = 0 \<and> bs ! (start + 1) AND 0x80 = 0" using 1(2,4) by simp
    then show ?thesis using 1 True by (subst skip_unsigned.simps) simp
  next
    case False
    then have "k - 1 \<le> start" using 1(3) by simp
    moreover have "start \<le> skip_unsigned bs start" for bs start
      by (induction bs start rule: skip_unsigned.induct) (subst skip_unsigned.simps, simp add: Suc_leD)
    ultimately show ?thesis using le_trans by blast
  qed
qed

lemma unsigned_octets_u32: "length (unsigned_octets (ucast (v :: u32))) \<le> 5"
proof -
  let ?bs = "to_be 8 (ucast v :: u64)"
  have "\<not> bit v (8 * (8 - 1 - i) + n)" if "i < 4" for i n
    using that bit_imp_le_length [of v "8 * (8 - 1 - i) + n"] by auto
  then have "?bs ! i = 0" if "i < 4" for i
    using that by (subst to_be_nth) (auto intro!: bit_word_eqI simp: bit_simps)
  then have "3 \<le> skip_unsigned ?bs 0" using skip_unsigned_zeros [of 4 ?bs 0] by simp
  then show ?thesis using skip_unsigned_value [of ?bs 0] by (auto simp: unsigned_octets_def Let_def)
qed

text \<open>Neither encoder leaves an octet out that could have been left out (X.690 8.3.2).\<close>

lemma skip_signed_minimal:
  "skip_signed bs start < 7 \<Longrightarrow> \<not> ((bs ! skip_signed bs start = 0 \<and> bs ! (skip_signed bs start + 1) AND 0x80 = 0) \<or>
      (bs ! skip_signed bs start = 0xFF \<and> bs ! (skip_signed bs start + 1) AND 0x80 \<noteq> 0))"
proof (induction bs start rule: skip_signed.induct)
  case (1 bs start)
  show ?case
  proof (cases "start < 7 \<and> ((bs ! start = 0 \<and> bs ! (start + 1) AND 0x80 = 0) \<or>
      (bs ! start = 0xFF \<and> bs ! (start + 1) AND 0x80 \<noteq> 0))")
    case True
    then have eq: "skip_signed bs start = skip_signed bs (start + 1)" using skip_signed.simps [of bs start] by (simp only: if_P)
    show ?thesis using 1(1) [OF True] 1(2) unfolding eq by blast
  next
    case False
    then have eq: "skip_signed bs start = start" by (subst skip_signed.simps) (simp only: if_False)
    show ?thesis using 1(2) False unfolding eq by blast
  qed
qed

lemma skip_unsigned_minimal:
  "skip_unsigned bs start < 7 \<Longrightarrow> \<not> (bs ! skip_unsigned bs start = 0 \<and> bs ! (skip_unsigned bs start + 1) AND 0x80 = 0)"
proof (induction bs start rule: skip_unsigned.induct)
  case (1 bs start)
  show ?case
  proof (cases "start < 7 \<and> bs ! start = 0 \<and> bs ! (start + 1) AND 0x80 = 0")
    case True
    then have eq: "skip_unsigned bs start = skip_unsigned bs (start + 1)" using skip_unsigned.simps [of bs start] by (simp only: if_P)
    show ?thesis using 1(1) [OF True] 1(2) unfolding eq by blast
  next
    case False
    then have eq: "skip_unsigned bs start = start" by (subst skip_unsigned.simps) (simp only: if_False)
    show ?thesis using 1(2) False unfolding eq by blast
  qed
qed

definition minimal_integer :: "bytes \<Rightarrow> bool" where
  "minimal_integer bs \<longleftrightarrow> bs \<noteq> [] \<and> (1 < length bs \<longrightarrow>
     \<not> (bs ! 0 = 0 \<and> bs ! 1 AND 0x80 = 0) \<and> \<not> (bs ! 0 = 0xFF \<and> bs ! 1 AND 0x80 \<noteq> 0))"

lemma integer_octets_minimal: "minimal_integer (integer_octets v)"
  using skip_signed_minimal [of "to_be 8 v" 0] skip_signed_value [of "to_be 8 v" 0]
  by (auto simp: minimal_integer_def integer_octets_def Let_def)

text \<open>
  An INTEGER is written with the fewest contents octets X.690 allows (no leading octet
  repeats the sign), whatever has been written before it, and the reader recovers the value.
\<close>

theorem integer_minimal_roundtrip:
  "enc_integer t v e = (Inr (), e @ element t (integer_octets v)) \<and> minimal_integer (integer_octets v) \<and>
   integer_i64 (mk_tlv t (integer_octets v) off) = Inr v"
  using integer_field.put_appends integer_field.get_mk_tlv integer_octets_minimal by simp

end
