(* ===== verification/Data.thy ===== *)
theory Data
  imports Ber Quality Flags
begin

text \<open>
  The MMS \<open>Data\<close> type (\<open>src/proto/data.rs\<close>): borrowed views, owned values, the decoder with its depth,
  member and length limits, and the encoder. A borrowed view is the octets it borrows, so \<open>Array\<close> and
  \<open>Structure\<close> hold a cursor as in the source; floats are bit patterns.
\<close>

section \<open>Double-point positions\<close>

datatype dbpos = Intermediate | Off | On | BadState

definition dbpos_from_code :: "u8 \<Rightarrow> dbpos" where
  "dbpos_from_code code = (let k = code AND 3 in
     if k = 0 then Intermediate else if k = 1 then Off else if k = 2 then On else BadState)"

definition dbpos_to_code :: "dbpos \<Rightarrow> u8" where
  "dbpos_to_code p = (case p of Intermediate \<Rightarrow> 0 | Off \<Rightarrow> 1 | On \<Rightarrow> 2 | BadState \<Rightarrow> 3)"

definition dbpos_is_on :: "dbpos \<Rightarrow> bool" where
  "dbpos_is_on p \<longleftrightarrow> p = On"

definition quality_of :: "bytes \<Rightarrow> quality option" where
  "quality_of bytes = (if 2 \<le> length bytes then Some (q_from_octets bytes) else None)"

definition dbpos_code :: "u8 \<Rightarrow> bytes \<Rightarrow> dbpos option" where
  "dbpos_code unused bytes = (case bytes of
     [b] \<Rightarrow> if unused = 6 then Some (dbpos_from_code (drop_bit 6 b)) else None | _ \<Rightarrow> None)"

section \<open>Views and values\<close>

datatype data_view =
    DArray cursor
  | DStructure cursor
  | DBoolean bool
  | DBitString u8 bytes
  | DInteger i64
  | DUnsigned u64
  | DFloat32 u32
  | DFloat64 u64
  | DOctetString bytes
  | DVisibleString string
  | DMmsString string
  | DUtcTime utc_time
  | DBinaryTime bytes
  | DOther tlv

datatype data_value =
    Array "data_value list"
  | Structure "data_value list"
  | Boolean bool
  | BitString u8 bytes
  | Integer i64
  | Unsigned u64
  | Float32 u32
  | Float64 u64
  | OctetString bytes
  | VisibleString string
  | MmsString string
  | UtcTime utc_time
  | BinaryTime bytes
  | Other u32 bool bytes

definition ARRAY :: u32 where "ARRAY = 1"
definition STRUCTURE :: u32 where "STRUCTURE = 2"
definition BOOLEAN :: u32 where "BOOLEAN = 3"
definition BIT_STRING :: u32 where "BIT_STRING = 4"
definition INTEGER :: u32 where "INTEGER = 5"
definition UNSIGNED :: u32 where "UNSIGNED = 6"
definition FLOATING_POINT :: u32 where "FLOATING_POINT = 7"
definition OCTET_STRING :: u32 where "OCTET_STRING = 9"
definition VISIBLE_STRING :: u32 where "VISIBLE_STRING = 10"
definition BINARY_TIME :: u32 where "BINARY_TIME = 12"
definition MMS_STRING :: u32 where "MMS_STRING = 16"
definition UTC_TIME :: u32 where "UTC_TIME = 17"

lemmas data_tags = ARRAY_def STRUCTURE_def BOOLEAN_def BIT_STRING_def INTEGER_def UNSIGNED_def
  FLOATING_POINT_def OCTET_STRING_def VISIBLE_STRING_def BINARY_TIME_def MMS_STRING_def UTC_TIME_def

definition from_tlv :: "tlv \<Rightarrow> data_view result" where
  "from_tlv t =
     (let n = tag_number (tlv_tag t); c = tag_constructed (tlv_tag t) in
      if tag_class (tlv_tag t) \<noteq> Context then Inl (Decode UnexpectedTag (tlv_offset t))
      else if n = ARRAY \<and> c then Inr (DArray (children t))
      else if n = STRUCTURE \<and> c then Inr (DStructure (children t))
      else if n = BOOLEAN \<and> \<not> c then rbind (boolean t) (\<lambda>b. Inr (DBoolean b))
      else if n = BIT_STRING \<and> \<not> c then rbind (bit_string t) (\<lambda>(unused, bytes). Inr (DBitString unused bytes))
      else if n = INTEGER \<and> \<not> c then rbind (integer_i64 t) (\<lambda>i. Inr (DInteger i))
      else if n = UNSIGNED \<and> \<not> c then rbind (unsigned_lenient_u64 t) (\<lambda>u. Inr (DUnsigned u))
      else if n = FLOATING_POINT \<and> \<not> c then rbind (floating_point t) (\<lambda>f.
             Inr (case f of Single x \<Rightarrow> DFloat32 x | Double x \<Rightarrow> DFloat64 x))
      else if n = OCTET_STRING \<and> \<not> c then Inr (DOctetString (tlv_value t))
      else if n = VISIBLE_STRING \<and> \<not> c then rbind (visible_string t) (\<lambda>s. Inr (DVisibleString s))
      else if n = MMS_STRING \<and> \<not> c then rbind (utf8_string t) (\<lambda>s. Inr (DMmsString s))
      else if n = UTC_TIME \<and> \<not> c then rbind (tlv_utc_time t) (\<lambda>u. Inr (DUtcTime u))
      else if n = BINARY_TIME \<and> \<not> c then Inr (DBinaryTime (tlv_value t))
      else Inr (DOther t))"

definition check_len :: "usize \<Rightarrow> limits \<Rightarrow> unit result" where
  "check_len len l = (if len > max_primitive_len l then Inl (LimitExceeded ''max_primitive_len'' len) else Inr ())"

definition view_left :: "data_view \<Rightarrow> nat" where
  "view_left v = (case v of DArray c \<Rightarrow> cur_left c | DStructure c \<Rightarrow> cur_left c | _ \<Rightarrow> 0)"

lemma view_left_from_tlv: "from_tlv t = Inr v \<Longrightarrow> view_left v \<le> length (tlv_value t)"
proof (erule ok_allD [rotated])
  show "ok_all (\<lambda>v. view_left v \<le> length (tlv_value t)) (from_tlv t)"
    unfolding from_tlv_def Let_def
    by (intro ok_all_intros)
      (simp_all add: view_left_def children_def cur_left_def split: float_val.splits prod.splits)
qed

lemma view_left_simps [simp]: "view_left (DArray c) = cur_left c" "view_left (DStructure c) = cur_left c"
  by (simp_all add: view_left_def)

lemma cur_next_measure:
  assumes "(Some r, c') = cur_next c"
  shows "cur_left c' < cur_left c" "r = Inr t \<Longrightarrow> from_tlv t = Inr v \<Longrightarrow> view_left v < cur_left c"
proof -
  show "cur_left c' < cur_left c" using assms [symmetric] by (rule cur_next_left)
  show "view_left v < cur_left c" if "r = Inr t" "from_tlv t = Inr v"
    using view_left_from_tlv [OF that(2)] cur_next_InrD [of c t c'] cur_next_SomeD [of c r c'] that(1) assms
    by (auto simp: cur_left_def)
qed

function (sequential) to_owned_depth :: "limits \<Rightarrow> data_view \<Rightarrow> usize \<Rightarrow> data_value result"
  and collect_depth :: "limits \<Rightarrow> usize \<Rightarrow> cursor \<Rightarrow> data_value list \<Rightarrow> data_value list result"
where
  "to_owned_depth l v depth =
     (if depth > max_depth l then Inl (LimitExceeded ''max_depth'' depth)
      else case v of
        DArray c \<Rightarrow> rbind (collect_depth l (depth + 1) c []) (\<lambda>members. Inr (Array members))
      | DStructure c \<Rightarrow> rbind (collect_depth l (depth + 1) c []) (\<lambda>members. Inr (Structure members))
      | DBoolean b \<Rightarrow> Inr (Boolean b)
      | DBitString unused bytes \<Rightarrow> rbind (check_len (length bytes) l) (\<lambda>_. Inr (BitString unused bytes))
      | DInteger i \<Rightarrow> Inr (Integer i)
      | DUnsigned u \<Rightarrow> Inr (Unsigned u)
      | DFloat32 f \<Rightarrow> Inr (Float32 f)
      | DFloat64 f \<Rightarrow> Inr (Float64 f)
      | DOctetString b \<Rightarrow> rbind (check_len (length b) l) (\<lambda>_. Inr (OctetString b))
      | DVisibleString s \<Rightarrow> rbind (check_len (length s) l) (\<lambda>_. Inr (VisibleString s))
      | DMmsString s \<Rightarrow> rbind (check_len (length s) l) (\<lambda>_. Inr (MmsString s))
      | DUtcTime t \<Rightarrow> Inr (UtcTime t)
      | DBinaryTime b \<Rightarrow> rbind (check_len (length b) l) (\<lambda>_. Inr (BinaryTime b))
      | DOther t \<Rightarrow> rbind (check_len (length (tlv_value t)) l) (\<lambda>_.
          Inr (Other (tag_number (tlv_tag t)) (tag_constructed (tlv_tag t)) (tlv_value t))))"
| "collect_depth l depth c out =
     (case cur_next c of
        (None, _) \<Rightarrow> Inr out
      | (Some r, c') \<Rightarrow>
          if length out \<ge> max_dataset_members l
          then Inl (LimitExceeded ''max_dataset_members'' (length out + 1))
          else rbind r (\<lambda>t. rbind (from_tlv t) (\<lambda>v. rbind (to_owned_depth l v depth) (\<lambda>x.
                 collect_depth l depth c' (out @ [x])))))"
  by pat_completeness auto

termination
  by (relation "measure (\<lambda>x. case x of Inl (_, v, _) \<Rightarrow> 2 * view_left v + 2 | Inr (_, _, c, _) \<Rightarrow> 2 * cur_left c + 1)")
    (auto dest: cur_next_measure)

declare to_owned_depth.simps [simp del] collect_depth.simps [simp del]

definition to_owned :: "limits \<Rightarrow> data_view \<Rightarrow> data_value result" where
  "to_owned l v = to_owned_depth l v 0"

definition data_collect :: "cursor \<Rightarrow> limits \<Rightarrow> data_value list result" where
  "data_collect c l = collect_depth l 0 c []"

definition decode_all :: "bytes \<Rightarrow> limits \<Rightarrow> data_value list result" where
  "decode_all bytes l = data_collect (cursor_new bytes) l"

section \<open>Typed access\<close>

definition view_members :: "data_view \<Rightarrow> cursor option" where
  "view_members v = (case v of DArray c \<Rightarrow> Some c | DStructure c \<Rightarrow> Some c | _ \<Rightarrow> None)"

definition view_as_bool where "view_as_bool v = (case v of DBoolean b \<Rightarrow> Some b | _ \<Rightarrow> None)"
definition view_as_i64 where "view_as_i64 v = (case v of DInteger i \<Rightarrow> Some i | _ \<Rightarrow> None)"
definition view_as_u64 where "view_as_u64 v = (case v of DUnsigned u \<Rightarrow> Some u | _ \<Rightarrow> None)"
definition view_as_str where
  "view_as_str v = (case v of DVisibleString s \<Rightarrow> Some s | DMmsString s \<Rightarrow> Some s | _ \<Rightarrow> None)"
definition view_as_utc_time where "view_as_utc_time v = (case v of DUtcTime t \<Rightarrow> Some t | _ \<Rightarrow> None)"
definition view_as_quality where
  "view_as_quality v = (case v of DBitString _ bytes \<Rightarrow> quality_of bytes | _ \<Rightarrow> None)"
definition view_as_dbpos where
  "view_as_dbpos v = (case v of DBitString unused bytes \<Rightarrow> dbpos_code unused bytes | _ \<Rightarrow> None)"

definition as_bool where "as_bool v = (case v of Boolean b \<Rightarrow> Some b | _ \<Rightarrow> None)"
definition as_i64 where "as_i64 v = (case v of Integer i \<Rightarrow> Some i | _ \<Rightarrow> None)"
definition as_u64 where "as_u64 v = (case v of Unsigned u \<Rightarrow> Some u | _ \<Rightarrow> None)"
definition as_str where "as_str v = (case v of VisibleString s \<Rightarrow> Some s | MmsString s \<Rightarrow> Some s | _ \<Rightarrow> None)"
definition as_utc_time where "as_utc_time v = (case v of UtcTime t \<Rightarrow> Some t | _ \<Rightarrow> None)"
definition as_quality where "as_quality v = (case v of BitString _ bytes \<Rightarrow> quality_of bytes | _ \<Rightarrow> None)"
definition as_dbpos where "as_dbpos v = (case v of BitString unused bytes \<Rightarrow> dbpos_code unused bytes | _ \<Rightarrow> None)"

definition value_of_quality :: "quality \<Rightarrow> data_value" where
  "value_of_quality q = BitString 3 (q_to_octets q)"

definition value_of_dbpos :: "dbpos \<Rightarrow> data_value" where
  "value_of_dbpos p = BitString 6 [push_bit 6 (dbpos_to_code p)]"

definition value_members :: "data_value \<Rightarrow> data_value list option" where
  "value_members v = (case v of Array m \<Rightarrow> Some m | Structure m \<Rightarrow> Some m | _ \<Rightarrow> None)"

definition value_member :: "data_value \<Rightarrow> usize \<Rightarrow> data_value option" where
  "value_member v i = (case value_members v of None \<Rightarrow> None | Some m \<Rightarrow> get_at m i)"

definition opt_flds_to_value :: "opt_flds \<Rightarrow> data_value" where
  "opt_flds_to_value v = (case opt_flds_to_bit_string v of (unused, bytes) \<Rightarrow> BitString unused bytes)"

definition opt_flds_from_value :: "data_value \<Rightarrow> opt_flds option" where
  "opt_flds_from_value v = (case v of BitString _ bytes \<Rightarrow> Some (opt_flds_from_bit_string bytes) | _ \<Rightarrow> None)"

definition trg_ops_to_value :: "u8 \<Rightarrow> data_value" where
  "trg_ops_to_value v = (case trg_ops_to_bit_string v of (unused, bytes) \<Rightarrow> BitString unused bytes)"

definition trg_ops_from_value :: "data_value \<Rightarrow> u8 option" where
  "trg_ops_from_value v = (case v of BitString _ bytes \<Rightarrow> Some (trg_ops_from_bit_string bytes) | _ \<Rightarrow> None)"

section \<open>The encoder\<close>

fun value_encode :: "data_value \<Rightarrow> enc" and encode_each :: "data_value list \<Rightarrow> enc" where
  "value_encode (Array m) = constructed (tag_context_constructed ARRAY) (encode_each m)"
| "value_encode (Structure m) = constructed (tag_context_constructed STRUCTURE) (encode_each m)"
| "value_encode (Boolean b) = enc_boolean (tag_context BOOLEAN) b"
| "value_encode (BitString unused bytes) = enc_bit_string (tag_context BIT_STRING) unused bytes"
| "value_encode (Integer i) = enc_integer (tag_context INTEGER) i"
| "value_encode (Unsigned u) = enc_unsigned (tag_context UNSIGNED) u"
| "value_encode (Float32 f) = enc_float32 (tag_context FLOATING_POINT) f"
| "value_encode (Float64 f) = enc_float64 (tag_context FLOATING_POINT) f"
| "value_encode (OctetString b) = primitive (tag_context OCTET_STRING) b"
| "value_encode (VisibleString s) = enc_visible_string (tag_context VISIBLE_STRING) s"
| "value_encode (MmsString s) = primitive (tag_context MMS_STRING) (as_bytes s)"
| "value_encode (UtcTime t) = enc_utc_time (tag_context UTC_TIME) t"
| "value_encode (BinaryTime b) = primitive (tag_context BINARY_TIME) b"
| "value_encode (Other n c bytes) = primitive (if c then tag_context_constructed n else tag_context n) bytes"
| "encode_each [] = sreturn ()"
| "encode_each (v # vs) = sbind (value_encode v) (\<lambda>_. encode_each vs)"

definition encode_all :: "data_value list \<Rightarrow> bytes result" where
  "encode_all values = (case encode_each values [] of (Inl er, _) \<Rightarrow> Inl er | (Inr _, e) \<Rightarrow> Inr e)"

section \<open>What the encoder writes\<close>

fun value_tag :: "data_value \<Rightarrow> tag" where
  "value_tag (Array _) = tag_context_constructed ARRAY"
| "value_tag (Structure _) = tag_context_constructed STRUCTURE"
| "value_tag (Boolean _) = tag_context BOOLEAN"
| "value_tag (BitString _ _) = tag_context BIT_STRING"
| "value_tag (Integer _) = tag_context INTEGER"
| "value_tag (Unsigned _) = tag_context UNSIGNED"
| "value_tag (Float32 _) = tag_context FLOATING_POINT"
| "value_tag (Float64 _) = tag_context FLOATING_POINT"
| "value_tag (OctetString _) = tag_context OCTET_STRING"
| "value_tag (VisibleString _) = tag_context VISIBLE_STRING"
| "value_tag (MmsString _) = tag_context MMS_STRING"
| "value_tag (UtcTime _) = tag_context UTC_TIME"
| "value_tag (BinaryTime _) = tag_context BINARY_TIME"
| "value_tag (Other n c _) = (if c then tag_context_constructed n else tag_context n)"

fun value_contents :: "data_value \<Rightarrow> bytes" where
  "value_contents (Array m) = concat (map (\<lambda>v. element (value_tag v) (value_contents v)) m)"
| "value_contents (Structure m) = concat (map (\<lambda>v. element (value_tag v) (value_contents v)) m)"
| "value_contents (Boolean b) = bool_octets b"
| "value_contents (BitString unused bytes) = unused # bytes"
| "value_contents (Integer i) = integer_octets i"
| "value_contents (Unsigned u) = unsigned_octets u"
| "value_contents (Float32 f) = 8 # to_be 4 f"
| "value_contents (Float64 f) = 11 # to_be 8 f"
| "value_contents (OctetString b) = b"
| "value_contents (VisibleString s) = as_bytes s"
| "value_contents (MmsString s) = as_bytes s"
| "value_contents (UtcTime t) = utc_to_octets t"
| "value_contents (BinaryTime b) = b"
| "value_contents (Other _ _ bytes) = bytes"

abbreviation value_octets :: "data_value \<Rightarrow> bytes" where
  "value_octets v \<equiv> element (value_tag v) (value_contents v)"

abbreviation values_octets :: "data_value list \<Rightarrow> bytes" where
  "values_octets vs \<equiv> concat (map value_octets vs)"

text \<open>
  A value that the encoder can write and the decoder reads back as itself: it fits the limits, its
  strings are what its type says, and a raw choice is not one of the choices with a type of its own.
\<close>

definition known_choice :: "u32 \<Rightarrow> bool \<Rightarrow> bool" where
  "known_choice n c \<longleftrightarrow> (if c then n = ARRAY \<or> n = STRUCTURE
     else n \<in> {BOOLEAN, BIT_STRING, INTEGER, UNSIGNED, FLOATING_POINT, OCTET_STRING, VISIBLE_STRING,
       MMS_STRING, UTC_TIME, BINARY_TIME})"

fun value_shape :: "limits \<Rightarrow> data_value \<Rightarrow> bool" where
  "value_shape l (BitString unused bytes) \<longleftrightarrow>
     unused \<le> 7 \<and> (bytes \<noteq> [] \<or> unused = 0) \<and> length bytes \<le> max_primitive_len l"
| "value_shape l (OctetString b) \<longleftrightarrow> length b \<le> max_primitive_len l"
| "value_shape l (VisibleString s) \<longleftrightarrow> ascii_str s \<and> length s \<le> max_primitive_len l"
| "value_shape l (MmsString s) \<longleftrightarrow> utf8_valid (as_bytes s) \<and> length s \<le> max_primitive_len l"
| "value_shape l (UtcTime t) \<longleftrightarrow> utc_wf t"
| "value_shape l (BinaryTime b) \<longleftrightarrow> length b \<le> max_primitive_len l"
| "value_shape l (Other n c b) \<longleftrightarrow> \<not> known_choice n c \<and> length b \<le> max_primitive_len l"
| "value_shape l _ \<longleftrightarrow> True"

fun value_ok :: "limits \<Rightarrow> usize \<Rightarrow> data_value \<Rightarrow> bool" where
  "value_ok l d (Array m) \<longleftrightarrow> d \<le> max_depth l \<and> fits (values_octets m) \<and>
     length m \<le> max_dataset_members l \<and> (\<forall>v \<in> set m. value_ok l (Suc d) v)"
| "value_ok l d (Structure m) \<longleftrightarrow> d \<le> max_depth l \<and> fits (values_octets m) \<and>
     length m \<le> max_dataset_members l \<and> (\<forall>v \<in> set m. value_ok l (Suc d) v)"
| "value_ok l d v \<longleftrightarrow> d \<le> max_depth l \<and> fits (value_contents v) \<and> value_shape l v"

lemma value_ok_fits: "value_ok l d v \<Longrightarrow> fits (value_contents v)"
  by (cases v) auto

lemma emits_value:
  "value_ok l d v \<Longrightarrow> emits (value_encode v) (value_octets v)"
  "(\<And>v. v \<in> set vs \<Longrightarrow> value_ok l d v) \<Longrightarrow> emits (encode_each vs) (values_octets vs)"
proof (induction v and vs arbitrary: d and d rule: value_encode_encode_each.induct)
  case (4 unused bytes)
  then show ?case using bit_string_field.put_emits [where v = "(unused, bytes)"] by simp
qed (auto intro!: emits_constructed boolean_field.put_emits integer_field.put_emits unsigned_field.put_emits
      float32_field.put_emits emits_primitive visible_field.put_emits utc_field.put_emits emits_return emits_bind
      simp: enc_float64_def)

section \<open>The decoder reads it back\<close>

definition decodes :: "limits \<Rightarrow> usize \<Rightarrow> data_value \<Rightarrow> bool" where
  "decodes l d v \<longleftrightarrow> fits (value_contents v) \<and>
     (\<forall>t. tlv_tag t = value_tag v \<longrightarrow> tlv_value t = value_contents v \<longrightarrow>
       rbind (from_tlv t) (\<lambda>x. to_owned_depth l x d) = Inr v)"

lemma collect_decodes:
  "(\<forall>v \<in> set vs. decodes l d v) \<Longrightarrow> length out + length vs \<le> max_dataset_members l \<Longrightarrow>
    collect_depth l d (cur_at pre (values_octets vs) base) out = Inr (out @ vs)"
proof (induction vs arbitrary: pre out)
  case Nil
  then show ?case by (subst collect_depth.simps) simp
next
  case (Cons v vs)
  let ?t = "mk_tlv (value_tag v) (value_contents v) (base + length pre)"
  have v: "fits (value_contents v)" "rbind (from_tlv ?t) (\<lambda>x. to_owned_depth l x d) = Inr v"
    using Cons.prems(1) by (simp_all add: decodes_def)
  obtain x where x: "from_tlv ?t = Inr x" "to_owned_depth l x d = Inr v"
    using v(2) by (auto simp: rbind_Inr_iff)
  show ?case
    using Cons v(1) x by (subst collect_depth.simps) simp
qed

lemma array_decodes:
  assumes "d \<le> max_depth l" "fits (values_octets m)" "length m \<le> max_dataset_members l"
    and "\<forall>v \<in> set m. decodes l (Suc d) v"
  shows "decodes l d (Array m)" "decodes l d (Structure m)"
proof -
  have c: "collect_depth l (Suc d) (children t) [] = Inr m" if "tlv_value t = values_octets m" for t
    using that collect_decodes [OF assms(4), of "[]"] assms(3) by (simp add: cur_at_start)
  show "decodes l d (Array m)" "decodes l d (Structure m)"
    using assms(1,2) c
    by (auto simp: decodes_def from_tlv_def Let_def tag_defs data_tags to_owned_depth.simps not_less)
qed

lemma leaf_decodes:
  "d \<le> max_depth l \<Longrightarrow> fits (value_contents v) \<Longrightarrow> value_shape l v \<Longrightarrow> value_members v = None \<Longrightarrow> decodes l d v"
proof (cases v)
  case (BitString u bs)
  then show "d \<le> max_depth l \<Longrightarrow> fits (value_contents v) \<Longrightarrow> value_shape l v \<Longrightarrow> decodes l d v"
    using bit_string_field.get_contents [where v = "(u, bs)"]
    by (simp add: decodes_def from_tlv_def Let_def tag_defs data_tags to_owned_depth.simps not_less check_len_def)
next
  case (Boolean b)
  then show "d \<le> max_depth l \<Longrightarrow> fits (value_contents v) \<Longrightarrow> value_shape l v \<Longrightarrow> decodes l d v"
    using boolean_field.get_contents [where v = b]
    by (simp add: decodes_def from_tlv_def Let_def tag_defs data_tags to_owned_depth.simps not_less)
qed (auto simp: decodes_def from_tlv_def Let_def tag_defs data_tags to_owned_depth.simps not_less check_len_def
      integer_field.get_contents lenient_field.get_contents floating_point_def from_be_to_be
      visible_field.get_contents utf8_field.get_contents utc_field.get_contents value_members_def known_choice_def)

lemma value_decodes: "value_ok l d v \<Longrightarrow> decodes l d v"
  by (induction l d v rule: value_ok.induct)
    (auto intro: array_decodes leaf_decodes simp: value_members_def simp del: value_shape.simps value_contents.simps)

definition values_ok :: "limits \<Rightarrow> data_value list \<Rightarrow> bool" where
  "values_ok l vs \<longleftrightarrow> length vs \<le> max_dataset_members l \<and> (\<forall>v \<in> set vs. value_ok l 0 v)"

lemma encode_all_ok: "values_ok l vs \<Longrightarrow> encode_all vs = Inr (values_octets vs)"
  using emits_value(2) [of vs l 0] by (auto simp: encode_all_def values_ok_def emits_def)

lemma decode_all_octets: "values_ok l vs \<Longrightarrow> decode_all (values_octets vs) l = Inr vs"
  using collect_decodes [of vs l 0 "[]" "[]" 0] value_decodes
  by (simp add: decode_all_def data_collect_def cur_at_start values_ok_def)

section \<open>What the decoder guarantees\<close>

text \<open>
  Whatever the octets, a decoded value respects the limits and has the shape its type promises:
  a \<open>VisibleString\<close> is ASCII, a bit string's unused count is valid, a time stamp is in normal form,
  and a raw choice is never one of the typed ones.
\<close>

fun value_wf :: "limits \<Rightarrow> usize \<Rightarrow> data_value \<Rightarrow> bool" where
  "value_wf l d (Array m) \<longleftrightarrow> d \<le> max_depth l \<and> length m \<le> max_dataset_members l \<and> (\<forall>v \<in> set m. value_wf l (Suc d) v)"
| "value_wf l d (Structure m) \<longleftrightarrow> d \<le> max_depth l \<and> length m \<le> max_dataset_members l \<and> (\<forall>v \<in> set m. value_wf l (Suc d) v)"
| "value_wf l d v \<longleftrightarrow> d \<le> max_depth l \<and> value_shape l v"

fun view_shape :: "data_view \<Rightarrow> bool" where
  "view_shape (DBitString unused bytes) \<longleftrightarrow> unused \<le> 7 \<and> (bytes \<noteq> [] \<or> unused = 0)"
| "view_shape (DVisibleString s) \<longleftrightarrow> ascii_str s"
| "view_shape (DMmsString s) \<longleftrightarrow> utf8_valid (as_bytes s)"
| "view_shape (DUtcTime t) \<longleftrightarrow> utc_wf t"
| "view_shape (DOther t) \<longleftrightarrow> \<not> known_choice (tag_number (tlv_tag t)) (tag_constructed (tlv_tag t))"
| "view_shape _ \<longleftrightarrow> True"

lemma ok_all_ok_or: "ok_all P (ok_or e x) \<longleftrightarrow> (\<forall>y. x = Some y \<longrightarrow> P y)"
  by (cases x) auto

lemma bit_string_shape: "bit_string t = Inr (u, bs) \<Longrightarrow> u \<le> 7 \<and> (bs \<noteq> [] \<or> u = 0)"
  by (auto simp: bit_string_def split: list.splits if_splits)

lemma visible_string_shape: "visible_string t = Inr s \<Longrightarrow> ascii_str s"
  by (auto simp: visible_string_def from_utf8_def split: if_splits)

lemma utf8_string_shape: "utf8_string t = Inr s \<Longrightarrow> utf8_valid (as_bytes s)"
  by (auto simp: utf8_string_def from_utf8_def ok_or_Inr_iff split: if_splits)

lemma tlv_utc_time_shape: "tlv_utc_time t = Inr u \<Longrightarrow> utc_wf u"
  by (auto simp: tlv_utc_time_def utc.wf_dec split: if_splits)

lemma from_tlv_shape: "ok_all view_shape (from_tlv t)"
  unfolding from_tlv_def Let_def
  by (intro ok_all_intros)
    (auto simp: known_choice_def split: float_val.splits
      dest: bit_string_shape visible_string_shape utf8_string_shape tlv_utc_time_shape)

lemma check_len_Inr: "check_len n l = Inr u \<longleftrightarrow> n \<le> max_primitive_len l"
  by (auto simp: check_len_def)

lemma decoded_wf:
  "view_shape v \<Longrightarrow> ok_all (value_wf l d) (to_owned_depth l v d)"
  "length out \<le> max_dataset_members l \<Longrightarrow> \<forall>x \<in> set out. value_wf l d x \<Longrightarrow>
    ok_all (\<lambda>vs. length vs \<le> max_dataset_members l \<and> (\<forall>x \<in> set vs. value_wf l d x)) (collect_depth l d c out)"
proof (induction l v d and l d c out rule: to_owned_depth_collect_depth.induct)
  case (1 l v d)
  show ?case
  proof (cases "d > max_depth l")
    case False
    then show ?thesis
      using 1 by (subst to_owned_depth.simps)
        (auto simp: check_len_Inr split: data_view.split intro!: ok_all_bind dest: ok_allD)
  qed (subst to_owned_depth.simps, simp)
next
  case (2 l d c out)
  show ?case
  proof (cases "cur_next c")
    case (Pair r c')
    show ?thesis
    proof (cases r)
      case None
      then show ?thesis using 2 Pair by (subst collect_depth.simps) simp
    next
      case (Some r')
      have IH: "ok_all (\<lambda>vs. length vs \<le> max_dataset_members l \<and> (\<forall>x \<in> set vs. value_wf l d x))
          (collect_depth l d c' (out @ [x]))"
        if "\<not> length out \<ge> max_dataset_members l" "r' = Inr t" "from_tlv t = Inr v" "to_owned_depth l v d = Inr x" for t v x
      proof -
        have "view_shape v" using from_tlv_shape that(3) by (rule ok_allD)
        then have "value_wf l d x"
          using 2(1) [OF Pair [symmetric] Some that(1-3)] that(4) by (auto dest: ok_allD)
        then show ?thesis
          using 2(2) [OF Pair [symmetric] Some that(1-4)] 2(3,4) that(1) by simp
      qed
      then show ?thesis
        by (subst collect_depth.simps) (simp add: Pair Some ok_all_bind)
    qed
  qed
qed

text \<open>
  C23: encoding a list of values and decoding the octets gives the list back, for every
  list the limits admit whose raw elements are not one of the typed choices.
\<close>

theorem data_roundtrip:
  "values_ok l vs \<Longrightarrow> rbind (encode_all vs) (\<lambda>bs. decode_all bs l) = Inr vs"
  by (simp add: encode_all_ok decode_all_octets)

text \<open>
  C24: whatever octets arrive, what the decoder returns is within the configured depth,
  member and length limits, and every value has the shape of its type.
\<close>

theorem decoded_within_limits:
  "decode_all bytes l = Inr vs \<Longrightarrow> length vs \<le> max_dataset_members l \<and> (\<forall>v \<in> set vs. value_wf l 0 v)"
  using decoded_wf(2) [of "[]" l 0 "cursor_new bytes"]
  by (auto simp: decode_all_def data_collect_def dest: ok_allD)

text \<open>Witnesses: a structure of a boolean, a quality and a negative integer.\<close>

definition sample_values :: "data_value list" where
  "sample_values = [Structure [Boolean True, BitString 3 [0, 0], Integer (- 2)], VisibleString ''ok'']"

lemma sample_values_ok: "values_ok default_limits sample_values"
proof -
  have i: "length (integer_octets (- 2)) \<le> 8" by (rule integer_octets_length)
  then have "length (values_octets [Boolean True, BitString 3 [0, 0], Integer (- 2)]) \<le> 1 + 11 + (3 + 11) + (8 + 11)"
    using length_element_le [of "tag_context BOOLEAN" "bool_octets True"] length_element_le [of "tag_context BIT_STRING" "[3, 0, 0]"]
      length_element_le [of "tag_context INTEGER" "integer_octets (- 2)"]
    by (simp del: integer_octets_length)
  then have "fits (values_octets [Boolean True, BitString 3 [0, 0], Integer (- 2)])" by simp
  then show ?thesis
    using i by (simp add: values_ok_def sample_values_def default_limits_def octet_def as_bytes_def is_ascii_def)
qed

theorem data_roundtrip_witness:
  "rbind (encode_all sample_values) (\<lambda>bs. decode_all bs default_limits) = Inr sample_values"
  by (rule data_roundtrip [OF sample_values_ok])

theorem decoded_within_limits_witness:
  "length sample_values \<le> 512 \<and> list_all (value_wf default_limits 0) sample_values"
  using decoded_within_limits [OF decode_all_octets [OF sample_values_ok]]
  by (simp add: default_limits_def list_all_iff)

end
