(* ===== verification/Ethernet.thy ===== *)
theory Ethernet
  imports Errors
begin

text \<open>
  The link-layer header of GOOSE and sampled values (\<open>src/proto/ethernet.rs\<close>, \<open>src/common/mac.rs\<close>):
  parsing with its bounds checks, the part of a frame that stays readable when the rest is not, and
  the writer into a caller's buffer. A MAC address is its six octets.
\<close>

type_synonym mac_addr = bytes

definition is_goose_multicast :: "mac_addr \<Rightarrow> bool" where
  "is_goose_multicast b \<longleftrightarrow> b ! 0 = 0x01 \<and> b ! 1 = 0x0C \<and> b ! 2 = 0xCD \<and> b ! 3 = 0x01 \<and> b ! 4 \<le> 0x01"

definition is_sv_multicast :: "mac_addr \<Rightarrow> bool" where
  "is_sv_multicast b \<longleftrightarrow> b ! 0 = 0x01 \<and> b ! 1 = 0x0C \<and> b ! 2 = 0xCD \<and> b ! 3 = 0x04 \<and> b ! 4 \<le> 0x01"

definition ETHERTYPE_GOOSE :: u16 where "ETHERTYPE_GOOSE = 0x88B8"
definition ETHERTYPE_GSE_MGMT :: u16 where "ETHERTYPE_GSE_MGMT = 0x88B9"
definition ETHERTYPE_SV :: u16 where "ETHERTYPE_SV = 0x88BA"
definition ETHERTYPE_VLAN :: u16 where "ETHERTYPE_VLAN = 0x8100"
definition RESERVED1_SIMULATION :: u16 where "RESERVED1_SIMULATION = 0x8000"

lemmas ethertypes = ETHERTYPE_GOOSE_def ETHERTYPE_GSE_MGMT_def ETHERTYPE_SV_def ETHERTYPE_VLAN_def

definition process_bus :: "u16 \<Rightarrow> bool" where
  "process_bus et \<longleftrightarrow> \<not> (et \<noteq> ETHERTYPE_GOOSE \<and> et \<noteq> ETHERTYPE_SV \<and> et \<noteq> ETHERTYPE_GSE_MGMT)"

record vlan_tag =
  vlan_priority :: u8
  vlan_dei :: bool
  vlan_id :: u16

definition vlan_tci :: "vlan_tag \<Rightarrow> u16" where
  "vlan_tci v = push_bit 13 (ucast (vlan_priority v) AND 7) OR push_bit 12 (if vlan_dei v then 1 else 0) OR
     (vlan_id v AND 0x0FFF)"

definition vlan_from_tci :: "u16 \<Rightarrow> vlan_tag" where
  "vlan_from_tci tci = \<lparr> vlan_priority = ucast (drop_bit 13 tci), vlan_dei = (tci AND 0x1000 \<noteq> 0),
     vlan_id = tci AND 0x0FFF \<rparr>"

record frame =
  fr_dst :: mac_addr
  fr_src :: mac_addr
  fr_vlan :: "vlan_tag option"
  fr_ethertype :: u16
  fr_appid :: u16
  fr_length :: u16
  fr_reserved1 :: u16
  fr_reserved2 :: u16
  fr_apdu :: bytes
  fr_apdu_offset :: usize

definition frame_parse :: "bytes \<Rightarrow> frame result" where
  "frame_parse frame =
     (if length frame < 14 then Inl (Decode NotProcessBusFrame 0)
      else let dst = take 6 frame; src = take 6 (drop 6 frame);
               ethertype = from_be [frame ! 12, frame ! 13] in
      rbind (if ethertype = ETHERTYPE_VLAN then
               rbind (ok_or (Decode NotProcessBusFrame 14) (slice frame 14 16)) (\<lambda>tci.
               rbind (ok_or (Decode NotProcessBusFrame 16) (slice frame 16 18)) (\<lambda>et.
               Inr (Some (vlan_from_tci (from_be tci)), from_be et, 16)))
             else Inr (None, ethertype, 12)) (\<lambda>(vlan, ethertype, pos).
      if \<not> process_bus ethertype then Inl (Decode NotProcessBusFrame pos)
      else let pos = pos + 2 in
      rbind (ok_or (Decode NotProcessBusFrame pos) (slice frame pos (pos + 8))) (\<lambda>hdr.
      let appid = from_be [hdr ! 0, hdr ! 1]; length = from_be [hdr ! 2, hdr ! 3];
          reserved1 = from_be [hdr ! 4, hdr ! 5]; reserved2 = from_be [hdr ! 6, hdr ! 7] in
      if length < 8 then Inl (Decode BadLength (pos + 2))
      else let apdu_offset = pos + 8 in
      rbind (ok_or (Decode Truncated apdu_offset) (slice frame apdu_offset (pos + unat length))) (\<lambda>apdu.
      Inr \<lparr> fr_dst = dst, fr_src = src, fr_vlan = vlan, fr_ethertype = ethertype, fr_appid = appid,
            fr_length = length, fr_reserved1 = reserved1, fr_reserved2 = reserved2, fr_apdu = apdu,
            fr_apdu_offset = apdu_offset \<rparr>))))"

definition frame_simulation :: "frame \<Rightarrow> bool" where
  "frame_simulation f \<longleftrightarrow> fr_reserved1 f AND RESERVED1_SIMULATION \<noteq> 0"

lemma simulation_flag: "((if on then r OR RESERVED1_SIMULATION else r AND NOT RESERVED1_SIMULATION) AND RESERVED1_SIMULATION \<noteq> 0) = on"
proof -
  let ?r = "if on then r OR RESERVED1_SIMULATION else r AND NOT RESERVED1_SIMULATION"
  have r: "RESERVED1_SIMULATION = 2 ^ 15" by (simp add: RESERVED1_SIMULATION_def)
  have b: "bit RESERVED1_SIMULATION 15" by (simp add: RESERVED1_SIMULATION_def)
  have "bit ?r 15 = on" using b by (simp add: bit_or_iff bit_and_iff bit_not_iff)
  then show ?thesis using and_exp_eq_0_iff_not_bit [of ?r 15] by (simp only: r) simp
qed

record frame_address =
  fa_dst :: mac_addr
  fa_ethertype :: u16
  fa_appid :: u16

definition address_peek :: "bytes \<Rightarrow> frame_address option" where
  "address_peek frame =
     Option.bind (slice frame 0 6) (\<lambda>dst.
     Option.bind (get_at frame 12) (\<lambda>a. Option.bind (get_at frame 13) (\<lambda>b.
     let ethertype = from_be [a, b] in
     Option.bind (if ethertype = ETHERTYPE_VLAN then
               Option.bind (get_at frame 16) (\<lambda>a. Option.bind (get_at frame 17) (\<lambda>b. Some (from_be [a, b], 16)))
             else Some (ethertype, 12)) (\<lambda>(ethertype, pos).
     if \<not> process_bus ethertype then None
     else Option.bind (get_at frame (pos + 2)) (\<lambda>a. Option.bind (get_at frame (pos + 3)) (\<lambda>b.
          Some \<lparr> fa_dst = dst, fa_ethertype = ethertype, fa_appid = from_be [a, b] \<rparr>))))))"

record frame_header =
  fh_dst :: mac_addr
  fh_src :: mac_addr
  fh_vlan :: "vlan_tag option"
  fh_ethertype :: u16
  fh_appid :: u16
  fh_reserved1 :: u16
  fh_reserved2 :: u16

definition header_len :: "frame_header \<Rightarrow> usize" where
  "header_len h = (if fh_vlan h \<noteq> None then 18 else 14) + 8"

text \<open>The frame is written into a buffer the caller owns: a \<open>Result\<close>, and the buffer it leaves.\<close>

definition header_write :: "frame_header \<Rightarrow> bytes \<Rightarrow> bytes \<Rightarrow> usize result \<times> bytes" where
  "header_write h apdu out =
     (let total = header_len h + length apdu in
      if length out < total \<or> length apdu + 8 > 0xFFFF then
        (Inl (Encode ''frame buffer too small or APDU too large''), out)
      else
        let out = put_slice out 0 (fh_dst h);
            out = put_slice out 6 (fh_src h);
            (out, pos) = (case fh_vlan h of
                Some v \<Rightarrow> (put_slice (put_slice out 12 (to_be 2 ETHERTYPE_VLAN)) 14 (to_be 2 (vlan_tci v)), 16)
              | None \<Rightarrow> (out, 12));
            out = put_slice out pos (to_be 2 (fh_ethertype h));
            out = put_slice out (pos + 2) (to_be 2 (fh_appid h));
            out = put_slice out (pos + 4) (to_be 2 (of_nat (length apdu + 8) :: u16));
            out = put_slice out (pos + 6) (to_be 2 (fh_reserved1 h));
            out = put_slice out (pos + 8) (to_be 2 (fh_reserved2 h));
            out = put_slice out (pos + 10) apdu
        in (Inr total, out))"

definition to_frame :: "frame_header \<Rightarrow> bytes \<Rightarrow> bytes result" where
  "to_frame h apdu =
     (let v = replicate (header_len h + length apdu) 0
      in case header_write h apdu v of (Inl e, _) \<Rightarrow> Inl e | (Inr _, v) \<Rightarrow> Inr v)"

section \<open>What the writer writes\<close>

definition vlan_octets :: "vlan_tag option \<Rightarrow> bytes" where
  "vlan_octets v = (case v of Some v \<Rightarrow> to_be 2 ETHERTYPE_VLAN @ to_be 2 (vlan_tci v) | None \<Rightarrow> [])"

definition header_octets :: "frame_header \<Rightarrow> nat \<Rightarrow> bytes" where
  "header_octets h n = fh_dst h @ fh_src h @ vlan_octets (fh_vlan h) @ to_be 2 (fh_ethertype h) @
     to_be 2 (fh_appid h) @ to_be 2 (of_nat (n + 8) :: u16) @ to_be 2 (fh_reserved1 h) @ to_be 2 (fh_reserved2 h)"

definition header_wf :: "frame_header \<Rightarrow> bool" where
  "header_wf h \<longleftrightarrow> length (fh_dst h) = 6 \<and> length (fh_src h) = 6 \<and> process_bus (fh_ethertype h) \<and>
     (\<forall>v. fh_vlan h = Some v \<longrightarrow> vlan_priority v < 8 \<and> vlan_id v < 4096)"

lemma put_slice_next: "p = length pre \<Longrightarrow>
    put_slice (pre @ rest) p src = (pre @ src) @ drop (length src) rest"
  by (simp add: put_slice_def)

lemma header_write_octets:
  assumes "length (fh_dst h) = 6" "length (fh_src h) = 6"
    and len: "header_len h + length apdu \<le> length out" "length apdu + 8 \<le> 0xFFFF"
  shows "header_write h apdu out = (Inr (header_len h + length apdu),
    header_octets h (length apdu) @ apdu @ drop (header_len h + length apdu) out)"
proof -
  have a: "put_slice out 0 (fh_dst h) = fh_dst h @ drop 6 out"
    using put_slice_next [of 0 "[]" out "fh_dst h"] assms by simp
  have b: "put_slice (fh_dst h @ drop 6 out) 6 (fh_src h) = (fh_dst h @ fh_src h) @ drop 12 out"
    using assms by (subst put_slice_next) simp_all
  have ok: "\<not> (length out < header_len h + length apdu \<or> length apdu + 8 > 0xFFFF)" using len by simp
  show ?thesis
  proof (cases "fh_vlan h")
    case None
    then show ?thesis
      unfolding header_write_def Let_def if_not_P [OF ok] a b
      using assms by (simp add: put_slice_next header_octets_def vlan_octets_def header_len_def del: append_assoc)
        (simp add: add.commute)
  next
    case (Some v)
    then show ?thesis
      unfolding header_write_def Let_def if_not_P [OF ok] a b
      using assms by (simp add: put_slice_next header_octets_def vlan_octets_def header_len_def del: append_assoc)
        (simp add: add.commute)
  qed
qed

lemma vlan_round:
  assumes "vlan_priority v < 8" "vlan_id v < 4096"
  shows "vlan_from_tci (vlan_tci v) = v"
proof -
  have m: "(7 :: u16) = mask 3" "(0x0FFF :: u16) = mask 12" by (simp_all add: mask_eq_exp_minus_1)
  have "unat (vlan_priority v) < 2 ^ 3" "unat (vlan_id v) < 2 ^ 12"
    using assms by (simp_all add: word_less_nat_alt)
  then have t: "take_bit 3 (vlan_priority v) = vlan_priority v" "take_bit 12 (vlan_id v) = vlan_id v"
    by (simp_all only: word_unat_eq_iff unat_take_bit mod_less)
  have p: "bit (vlan_priority v) n \<Longrightarrow> n < 3" and i: "bit (vlan_id v) n \<Longrightarrow> n < 12" for n
    by (metis t(1) bit_take_bit_iff, metis t(2) bit_take_bit_iff)
  have "ucast (drop_bit 13 (vlan_tci v)) = vlan_priority v"
    unfolding vlan_tci_def m by (rule bit_word_eqI) (auto simp: bit_simps dest: p i)
  moreover have "vlan_tci v AND 0x0FFF = vlan_id v"
    unfolding vlan_tci_def m by (rule bit_word_eqI) (auto simp: bit_simps dest: p i)
  moreover have "bit (vlan_tci v) 12 = vlan_dei v"
    unfolding vlan_tci_def m by (auto simp: bit_simps)
  then have "(vlan_tci v AND 0x1000 \<noteq> 0) = vlan_dei v"
    using and_exp_eq_0_iff_not_bit [of "vlan_tci v" 12] by simp
  ultimately show ?thesis by (simp add: vlan_from_tci_def)
qed

section \<open>The parser reads it back\<close>

definition frame_of :: "frame_header \<Rightarrow> bytes \<Rightarrow> frame" where
  "frame_of h apdu = \<lparr> fr_dst = fh_dst h, fr_src = fh_src h, fr_vlan = fh_vlan h, fr_ethertype = fh_ethertype h,
     fr_appid = fh_appid h, fr_length = of_nat (length apdu + 8), fr_reserved1 = fh_reserved1 h,
     fr_reserved2 = fh_reserved2 h, fr_apdu = apdu, fr_apdu_offset = header_len h \<rparr>"

lemma from_be_two: "from_be [to_be 2 w ! 0, to_be 2 w ! 1] = (w :: u16)"
proof -
  have "[to_be 2 w ! 0, to_be 2 w ! 1] = to_be 2 w" by (simp add: numeral_eq_Suc)
  then show ?thesis by (simp add: from_be_to_be)
qed

lemma header_octets_nth:
  assumes "length d = 6" "length s = 6"
  shows "take 6 (d @ s @ r) = d" "take 6 (drop 6 (d @ s @ r)) = s" "drop 12 (d @ s @ r) = r"
    "(d @ s @ r) ! 12 = r ! 0" "(d @ s @ r) ! 13 = r ! 1"
  using assms by (simp_all add: nth_append)

lemma parse_header_octets:
  assumes wf: "header_wf h" and len: "length apdu + 8 \<le> 0xFFFF"
  shows "frame_parse (header_octets h (length apdu) @ apdu @ pad) = Inr (frame_of h apdu)"
proof -
  have l: "length (fh_dst h) = 6" "length (fh_src h) = 6" "process_bus (fh_ethertype h)"
    using wf by (simp_all add: header_wf_def)
  have nv: "fh_ethertype h \<noteq> ETHERTYPE_VLAN" using l(3) by (auto simp: process_bus_def ethertypes)
  have n: "unat (of_nat (length apdu + 8) :: u16) = length apdu + 8"
    using len by (subst unat_of_nat) simp
  then have n8: "\<not> (of_nat (length apdu + 8) :: u16) < 8" by (simp add: word_less_nat_alt)
  have two: "\<And>w :: u16. to_be 2 w = [to_be 2 w ! 0, to_be 2 w ! 1]" by (simp add: numeral_eq_Suc)
  have vr: "\<And>v. fh_vlan h = Some v \<Longrightarrow> vlan_from_tci (vlan_tci v) = v"
    using wf by (simp add: header_wf_def vlan_round)
  obtain a b where et: "to_be 2 (fh_ethertype h) = [a, b]" using two by blast
  have et': "from_be [a, b] = fh_ethertype h" using from_be_two [of "fh_ethertype h"] by (simp add: et)
  show ?thesis
  proof (cases "fh_vlan h")
    case None
    show ?thesis
      using l nv n n8 None et' from_be_two
      by (simp add: frame_parse_def header_octets_def vlan_octets_def Let_def slice_def nth_append frame_of_def
          header_len_def et from_be_two)
  next
    case (Some v)
    obtain c d where ev: "to_be 2 ETHERTYPE_VLAN = [c, d]" using two by blast
    have ev': "from_be [c, d] = ETHERTYPE_VLAN" using from_be_two [of ETHERTYPE_VLAN] by (simp add: ev)
    show ?thesis
      using l nv n n8 Some et' ev' from_be_two vr [OF Some]
      by (simp add: frame_parse_def header_octets_def vlan_octets_def Let_def slice_def nth_append frame_of_def
          header_len_def et ev from_be_two from_be_to_be)
  qed
qed

lemma to_frame_octets:
  "header_wf h \<Longrightarrow> length apdu + 8 \<le> 0xFFFF \<Longrightarrow> to_frame h apdu = Inr (header_octets h (length apdu) @ apdu)"
  using header_write_octets [of h apdu "replicate (header_len h + length apdu) 0"]
  by (simp add: to_frame_def header_wf_def)

lemma to_frame_too_long:
  "0xFFFF < length apdu + 8 \<Longrightarrow> to_frame h apdu = Inl (Encode ''frame buffer too small or APDU too large'')"
  by (simp add: to_frame_def header_write_def Let_def)

text \<open>The addressing fields are readable whenever the frame is, and agree with it.\<close>

lemma slice_two: "slice xs a b = Some ys \<Longrightarrow> i < b - a \<Longrightarrow> get_at xs (a + i) = Some (ys ! i)"
  by (auto simp: slice_Some_iff get_at_def)

lemma peek_of_parse:
  assumes "frame_parse f = Inr r"
  shows "address_peek f = Some \<lparr> fa_dst = fr_dst r, fa_ethertype = fr_ethertype r, fa_appid = fr_appid r \<rparr>"
proof -
  have len: "14 \<le> length f" using assms by (simp add: frame_parse_def split: if_splits)
  then have g: "slice f 0 6 = Some (take 6 f)" "get_at f 12 = Some (f ! 12)" "get_at f 13 = Some (f ! 13)"
    by (simp_all add: slice_def get_at_def)
  show ?thesis
  proof (cases "from_be [f ! 12, f ! 13] = ETHERTYPE_VLAN")
    case True
    then obtain et hdr where et: "slice f 16 18 = Some et" and hdr: "slice f 18 26 = Some hdr" and
        pb: "process_bus (from_be et)" and r: "fr_dst r = take 6 f" "fr_ethertype r = from_be et" "fr_appid r = from_be [hdr ! 0, hdr ! 1]"
      using assms len by (auto simp: frame_parse_def Let_def rbind_Inr_iff ok_or_Inr_iff split: if_splits)
    have "et = [et ! 0, et ! 1]" using length_slice [OF et] by (auto simp: length_Suc_conv numeral_eq_Suc)
    then show ?thesis
      using slice_two [OF et, of 0] slice_two [OF et, of 1] slice_two [OF hdr, of 0] slice_two [OF hdr, of 1] pb r True
      by (simp add: address_peek_def g Let_def)
  next
    case False
    then obtain hdr where hdr: "slice f 14 22 = Some hdr" and
        pb: "process_bus (from_be [f ! 12, f ! 13])" and
        r: "fr_dst r = take 6 f" "fr_ethertype r = from_be [f ! 12, f ! 13]" "fr_appid r = from_be [hdr ! 0, hdr ! 1]"
      using assms len by (auto simp: frame_parse_def Let_def rbind_Inr_iff ok_or_Inr_iff split: if_splits)
    then show ?thesis
      using slice_two [OF hdr, of 0] slice_two [OF hdr, of 1] pb r False
      by (simp add: address_peek_def g Let_def)
  qed
qed

lemma slice_exact: "slice xs a b = Some ys \<Longrightarrow> slice xs a (a + length ys) = Some ys"
  by (auto simp: slice_def min_def split: if_splits)

lemma parse_apdu:
  assumes "frame_parse f = Inr r"
  shows "process_bus (fr_ethertype r) \<and> 8 \<le> unat (fr_length r) \<and>
    length (fr_apdu r) = unat (fr_length r) - 8 \<and> fr_apdu_offset r \<in> {22, 26} \<and>
    slice f (fr_apdu_offset r) (fr_apdu_offset r + length (fr_apdu r)) = Some (fr_apdu r)"
proof -
  have "process_bus (fr_ethertype r) \<and> 8 \<le> unat (fr_length r) \<and> fr_apdu_offset r \<in> {22, 26} \<and>
      slice f (fr_apdu_offset r) (fr_apdu_offset r - 8 + unat (fr_length r)) = Some (fr_apdu r)"
    using assms
    by (auto simp: frame_parse_def Let_def rbind_Inr_iff ok_or_Inr_iff word_less_nat_alt not_less split: if_splits)
  then show ?thesis
    using slice_exact [of f "fr_apdu_offset r"] length_slice [of f "fr_apdu_offset r"] by fastforce
qed

text \<open>
  C28: a frame written by the header writer parses back to the header's fields and the
  same APDU, with or without a VLAN tag, and whatever padding follows it on the wire; an APDU whose
  length does not fit the sixteen-bit field is refused.
\<close>

theorem frame_roundtrip:
  "header_wf h \<Longrightarrow> if length apdu + 8 \<le> 0xFFFF
     then rbind (to_frame h apdu) (\<lambda>f. frame_parse (f @ pad)) = Inr (frame_of h apdu)
     else to_frame h apdu = Inl (Encode ''frame buffer too small or APDU too large'')"
  using to_frame_octets [of h apdu] parse_header_octets [of h apdu pad] to_frame_too_long [of apdu h] by simp

text \<open>A witness: a tagged GOOSE frame with a three-octet APDU and a padding octet.\<close>

definition sample_header :: frame_header where
  "sample_header = \<lparr> fh_dst = [1, 0x0C, 0xCD, 1, 0, 1], fh_src = [2, 0, 0, 0, 0, 1],
     fh_vlan = Some \<lparr> vlan_priority = 4, vlan_dei = False, vlan_id = 5 \<rparr>, fh_ethertype = ETHERTYPE_GOOSE,
     fh_appid = 0x3001, fh_reserved1 = 0, fh_reserved2 = 0 \<rparr>"

theorem frame_roundtrip_witness:
  "rbind (to_frame sample_header [0x61, 1, 0]) (\<lambda>f. frame_parse (f @ [0])) = Inr (frame_of sample_header [0x61, 1, 0])"
  using frame_roundtrip [of sample_header "[0x61, 1, 0]" "[0]"]
  by (simp add: header_wf_def sample_header_def process_bus_def)

end
