(* ===== verification/Tpkt.thy ===== *)
theory Tpkt
  imports Errors
begin

text \<open>
  TPKT over TCP (\<open>src/proto/osi/tpkt.rs\<close>): the packet length, the header, and the reader that turns a
  byte stream into whole TPDUs. The locale \<open>stream_framing\<close> is what such a reader may rely on of a
  length function over a growing buffer; how the stream is cut into segments then makes no difference.
\<close>

section \<open>Framing a byte stream\<close>

locale stream_framing =
  fixes frame_len :: "bytes \<Rightarrow> usize option result"
    and header_size :: usize
  assumes len_pos: "frame_len buf = Inr (Some n) \<Longrightarrow> 0 < n \<and> header_size \<le> n"
    and len_stable: "frame_len buf = Inr (Some n) \<Longrightarrow> frame_len (buf @ tail) = Inr (Some n)"
    and err_stable: "frame_len buf = Inl e \<Longrightarrow> frame_len (buf @ tail) = Inl e"
begin

text \<open>The frames of a buffer, the error that ends it if any, and what is left over.\<close>

function split_frames :: "bytes \<Rightarrow> bytes list \<times> error option \<times> bytes" where
  "split_frames buf =
     (case frame_len buf of
        Inl e \<Rightarrow> ([], Some e, buf)
      | Inr None \<Rightarrow> ([], None, buf)
      | Inr (Some n) \<Rightarrow> if length buf < n then ([], None, buf)
          else case split_frames (drop n buf) of (ps, e, rest) \<Rightarrow> (drop header_size (take n buf) # ps, e, rest))"
  by pat_completeness auto
termination by (relation "measure length") (auto dest: len_pos)

declare split_frames.simps [simp del]

lemma split_frames_append:
  "split_frames (a @ b) = (case split_frames a of
     (ps, Some e, rest) \<Rightarrow> (ps, Some e, rest @ b)
   | (ps, None, rest) \<Rightarrow> (case split_frames (rest @ b) of (qs, e, rest') \<Rightarrow> (ps @ qs, e, rest')))"
proof (induction a rule: split_frames.induct)
  case (1 a)
  show ?case
  proof (cases "frame_len a")
    case (Inl e)
    then show ?thesis by (simp add: split_frames.simps [of a] split_frames.simps [of "a @ b"] err_stable)
  next
    case (Inr r)
    show ?thesis
    proof (cases "\<exists>n. r = Some n \<and> n \<le> length a")
      case True
      then obtain n where n: "r = Some n" "n \<le> length a" by blast
      then have "\<not> length a < n" by simp
      moreover have "split_frames (a @ b) = (case split_frames (drop n a @ b) of (ps, e, rest) \<Rightarrow>
          (drop header_size (take n a) # ps, e, rest))"
        using n len_stable [of a n b] Inr by (simp add: split_frames.simps [of "a @ b"])
      moreover obtain ps e rest where s: "split_frames (drop n a) = (ps, e, rest)" by (metis prod_cases3)
      ultimately show ?thesis
        using 1 [OF Inr n(1)] n Inr
        by (cases e) (simp_all add: split_frames.simps [of a] s split: prod.splits)
    next
      case False
      then show ?thesis using Inr by (auto simp: split_frames.simps [of a] split: option.splits prod.splits)
    qed
  qed
qed

text \<open>Frames that are each announced by their own header come out one by one.\<close>

lemma split_frames_concat:
  assumes "\<And>p. p \<in> set ps \<Longrightarrow> length (hd_of p) = header_size \<and>
    (\<forall>tail. frame_len (hd_of p @ p @ tail) = Inr (Some (header_size + length p)))"
    and "frame_len [] = Inr None"
  shows "split_frames (concat (map (\<lambda>p. hd_of p @ p) ps)) = (ps, None, [])"
  using assms
proof (induction ps)
  case Nil
  then show ?case by (simp add: split_frames.simps [of "[]"])
next
  case (Cons p ps)
  then have "length (hd_of p) = header_size"
    "frame_len (hd_of p @ p @ concat (map (\<lambda>p. hd_of p @ p) ps)) = Inr (Some (header_size + length p))"
    by auto
  with Cons show ?case by (simp add: split_frames.simps [of "hd_of p @ p @ _"])
qed

end

section \<open>TPKT\<close>

definition TPKT_VERSION :: u8 where "TPKT_VERSION = 3"
definition TPKT_HEADER_LEN :: usize where "TPKT_HEADER_LEN = 4"
definition TPKT_MAX_PACKET :: usize where "TPKT_MAX_PACKET = 65535"

definition packet_len :: "bytes \<Rightarrow> usize option result" where
  "packet_len buf = (case (get_at buf 0, get_at buf 2, get_at buf 3) of
     (Some version, Some hi, Some lo) \<Rightarrow>
       if version \<noteq> TPKT_VERSION then Inl (Decode UnexpectedTag 0)
       else let len = unat (from_be [hi, lo] :: u16)
            in if len < TPKT_HEADER_LEN then Inl (Decode BadLength 2) else Inr (Some len)
   | _ \<Rightarrow> Inr None)"

definition tpkt_header :: "usize \<Rightarrow> bytes result" where
  "tpkt_header payload_len =
     (let total = payload_len + TPKT_HEADER_LEN
      in if total \<le> TPKT_MAX_PACKET then
           let n = of_nat total :: u16 in Inr [TPKT_VERSION, 0, ucast (drop_bit 8 n), ucast n]
         else Inl (Encode ''TPKT packet exceeds 65535 octets''))"

record tpkt_reader =
  rd_buf :: bytes
  rd_consumed :: usize

definition reader_new :: tpkt_reader where
  "reader_new = \<lparr> rd_buf = [], rd_consumed = 0 \<rparr>"

definition reader_push :: "bytes \<Rightarrow> tpkt_reader \<Rightarrow> tpkt_reader" where
  "reader_push bytes r = r\<lparr> rd_buf := rd_buf r @ bytes \<rparr>"

definition reader_buffered :: "tpkt_reader \<Rightarrow> usize" where
  "reader_buffered r = length (rd_buf r) - rd_consumed r"

definition next_tpdu :: "tpkt_reader \<Rightarrow> bytes option result \<times> tpkt_reader" where
  "next_tpdu r =
     (let r = (if rd_consumed r > 0
               then r\<lparr> rd_buf := drop (min (rd_consumed r) (length (rd_buf r))) (rd_buf r), rd_consumed := 0 \<rparr> else r)
      in case packet_len (rd_buf r) of
           Inl e \<Rightarrow> (Inl e, r)
         | Inr None \<Rightarrow> (Inr None, r)
         | Inr (Some len) \<Rightarrow>
             if length (rd_buf r) < len then (Inr None, r)
             else (Inr (slice (rd_buf r) TPKT_HEADER_LEN len), r\<lparr> rd_consumed := len \<rparr>))"

interpretation tpkt: stream_framing packet_len TPKT_HEADER_LEN
proof (unfold_locales, goal_cases)
  case (1 buf n)
  then show ?case
    by (auto simp: packet_len_def TPKT_HEADER_LEN_def Let_def not_less split: option.splits if_splits)
next
  case (2 buf n tail)
  then show ?case by (auto simp: packet_len_def get_at_def nth_append split: option.splits if_splits)
next
  case (3 buf e tail)
  then show ?case by (auto simp: packet_len_def get_at_def nth_append split: option.splits if_splits)
qed

section \<open>Draining the reader\<close>

text \<open>What the association does with a reader: take TPDUs until there is none, then wait for bytes.\<close>

definition unread :: "tpkt_reader \<Rightarrow> bytes" where
  "unread r = drop (rd_consumed r) (rd_buf r)"

lemma next_tpdu_cases:
  "next_tpdu r = (case packet_len (unread r) of
       Inl e \<Rightarrow> (Inl e, \<lparr> rd_buf = unread r, rd_consumed = 0 \<rparr>)
     | Inr None \<Rightarrow> (Inr None, \<lparr> rd_buf = unread r, rd_consumed = 0 \<rparr>)
     | Inr (Some n) \<Rightarrow> if length (unread r) < n then (Inr None, \<lparr> rd_buf = unread r, rd_consumed = 0 \<rparr>)
         else (Inr (Some (drop TPKT_HEADER_LEN (take n (unread r)))), \<lparr> rd_buf = unread r, rd_consumed = n \<rparr>))"
proof -
  have r: "(if rd_consumed r > 0 then r\<lparr> rd_buf := drop (min (rd_consumed r) (length (rd_buf r))) (rd_buf r), rd_consumed := 0 \<rparr> else r)
      = \<lparr> rd_buf = unread r, rd_consumed = 0 \<rparr>"
    by (cases r) (auto simp: unread_def min_def)
  have "slice (unread r) TPKT_HEADER_LEN n = Some (drop TPKT_HEADER_LEN (take n (unread r)))"
    if "packet_len (unread r) = Inr (Some n)" "\<not> length (unread r) < n" for n
    using that tpkt.len_pos [OF that(1)] by (simp add: slice_def drop_take)
  then show ?thesis
    unfolding next_tpdu_def r Let_def by (auto split: sum.splits option.splits)
qed

function tpkt_drain :: "tpkt_reader \<Rightarrow> bytes list \<times> error option \<times> tpkt_reader" where
  "tpkt_drain r = (case next_tpdu r of
      (Inl e, r') \<Rightarrow> ([], Some e, r')
    | (Inr None, r') \<Rightarrow> ([], None, r')
    | (Inr (Some p), r') \<Rightarrow> (case tpkt_drain r' of (ps, e, r'') \<Rightarrow> (p # ps, e, r'')))"
  by pat_completeness auto
termination
proof (relation "measure (length \<circ> unread)", simp, goal_cases)
  case (1 r q r' s p)
  then have "next_tpdu r = (Inr (Some p), r')" by simp
  then obtain n where "packet_len (unread r) = Inr (Some n)" "n \<le> length (unread r)" "r' = \<lparr> rd_buf = unread r, rd_consumed = n \<rparr>"
    unfolding next_tpdu_cases by (auto split: sum.splits option.splits if_splits)
  moreover then have "length (unread r) - n < length (unread r)"
    using tpkt.len_pos [of "unread r" n] by linarith
  ultimately show ?case by (simp add: unread_def [of "\<lparr>rd_buf = unread r, rd_consumed = n\<rparr>"])
qed

declare tpkt_drain.simps [simp del]

definition tpkt_receive :: "bytes \<Rightarrow> tpkt_reader \<Rightarrow> bytes list \<times> error option \<times> tpkt_reader" where
  "tpkt_receive bytes r = tpkt_drain (reader_push bytes r)"

text \<open>Segments as they arrive; after an error the connection is gone and nothing more is read.\<close>

primrec tpkt_feed :: "tpkt_reader \<Rightarrow> bytes list \<Rightarrow> bytes list \<times> error option" where
  "tpkt_feed r [] = ([], None)"
| "tpkt_feed r (c # cs) = (case tpkt_receive c r of
      (ps, Some e, _) \<Rightarrow> (ps, Some e)
    | (ps, None, r') \<Rightarrow> (case tpkt_feed r' cs of (qs, e) \<Rightarrow> (ps @ qs, e)))"

lemma tpkt_drain_split:
  "case tpkt.split_frames (unread r) of (ps, e, rest) \<Rightarrow>
     \<exists>r'. tpkt_drain r = (ps, e, r') \<and> unread r' = rest \<and> rd_consumed r' = 0"
proof (induction r rule: tpkt_drain.induct)
  case (1 r)
  show ?case
  proof (cases "packet_len (unread r)")
    case (Inl e)
    then show ?thesis
      by (simp add: tpkt.split_frames.simps [of "unread r"] tpkt_drain.simps [of r] next_tpdu_cases unread_def [of "\<lparr>rd_buf = _, rd_consumed = 0\<rparr>"])
  next
    case (Inr q)
    show ?thesis
    proof (cases "\<exists>n. q = Some n \<and> n \<le> length (unread r)")
      case True
      then obtain n where n: "q = Some n" "\<not> length (unread r) < n" by auto
      let ?r' = "\<lparr> rd_buf = unread r, rd_consumed = n \<rparr>"
      have u: "unread ?r' = drop n (unread r)" by (simp add: unread_def)
      have nx: "next_tpdu r = (Inr (Some (drop TPKT_HEADER_LEN (take n (unread r)))), ?r')"
        using n Inr by (simp add: next_tpdu_cases)
      have "case tpkt.split_frames (drop n (unread r)) of (ps, e, rest) \<Rightarrow>
          \<exists>r''. tpkt_drain ?r' = (ps, e, r'') \<and> unread r'' = rest \<and> rd_consumed r'' = 0"
        using 1 [OF nx [symmetric] refl refl] u by simp
      then show ?thesis
        using n Inr nx by (auto simp: tpkt.split_frames.simps [of "unread r"] tpkt_drain.simps [of r] split: prod.splits)
    next
      case False
      then show ?thesis
        using Inr
        by (auto simp: tpkt.split_frames.simps [of "unread r"] tpkt_drain.simps [of r] next_tpdu_cases
            unread_def [of "\<lparr>rd_buf = _, rd_consumed = 0\<rparr>"] split: option.splits prod.splits)
    qed
  qed
qed

lemma unread_push: "rd_consumed r \<le> length (rd_buf r) \<Longrightarrow> unread (reader_push c r) = unread r @ c"
  by (simp add: unread_def reader_push_def)

lemma tpkt_feed_split:
  "rd_consumed r = 0 \<Longrightarrow> (case tpkt.split_frames (unread r) of (ps, e, rest) \<Rightarrow> ps = [] \<and> e = None \<and> rest = unread r) \<Longrightarrow>
    tpkt_feed r cs = (case tpkt.split_frames (unread r @ concat cs) of (ps, e, rest) \<Rightarrow> (ps, e))"
proof (induction cs arbitrary: r)
  case Nil
  then show ?case by (auto split: prod.splits)
next
  case (Cons c cs)
  obtain ps e rest where s: "tpkt.split_frames (unread r @ c) = (ps, e, rest)" by (metis prod_cases3)
  then obtain r' where r': "tpkt_receive c r = (ps, e, r')" "unread r' = rest" "rd_consumed r' = 0"
    using tpkt_drain_split [of "reader_push c r"] Cons.prems(1) by (auto simp: tpkt_receive_def unread_push)
  have all: "tpkt.split_frames (unread r @ concat (c # cs)) = (case (ps, e, rest) of
     (ps, Some e, rest) \<Rightarrow> (ps, Some e, rest @ concat cs)
   | (ps, None, rest) \<Rightarrow> (case tpkt.split_frames (rest @ concat cs) of (qs, e, rest') \<Rightarrow> (ps @ qs, e, rest')))"
    using tpkt.split_frames_append [of "unread r @ c" "concat cs"] s by simp
  show ?case
  proof (cases e)
    case (Some err)
    then show ?thesis by (subst all) (simp add: r')
  next
    case None
    have "tpkt.split_frames rest = ([], None, rest)"
    proof -
      have "tpkt.split_frames (unread r @ c) = (case tpkt.split_frames (rest @ []) of (qs, e, rest') \<Rightarrow> (ps @ qs, e, rest'))"
        using tpkt.split_frames_append [of "unread r @ c" "[]"] s None by simp
      then show ?thesis using s None by (auto split: prod.splits)
    qed
    then have "tpkt_feed r' cs = (case tpkt.split_frames (rest @ concat cs) of (qs, e, rest') \<Rightarrow> (qs, e))"
      using Cons.IH [of r'] r' by simp
    then show ?thesis using None by (subst all) (auto simp: r' split: prod.splits)
  qed
qed

definition tpkt_octets :: "bytes \<Rightarrow> bytes" where
  "tpkt_octets p = (case tpkt_header (length p) of Inr h \<Rightarrow> h | Inl _ \<Rightarrow> [])"

lemma tpkt_octets_len:
  assumes "length p + 4 \<le> 65535"
  shows "tpkt_header (length p) = Inr (tpkt_octets p)" "length (tpkt_octets p) = TPKT_HEADER_LEN"
    "packet_len (tpkt_octets p @ p @ tail) = Inr (Some (TPKT_HEADER_LEN + length p))"
proof -
  let ?n = "of_nat (length p + 4) :: u16"
  have h: "tpkt_octets p = [3, 0, ucast (drop_bit 8 ?n), ucast ?n]"
    using assms by (simp add: tpkt_octets_def tpkt_header_def TPKT_HEADER_LEN_def TPKT_MAX_PACKET_def TPKT_VERSION_def Let_def)
  then show "tpkt_header (length p) = Inr (tpkt_octets p)" "length (tpkt_octets p) = TPKT_HEADER_LEN"
    using assms by (simp_all add: tpkt_header_def TPKT_HEADER_LEN_def TPKT_MAX_PACKET_def TPKT_VERSION_def Let_def)
  have "[ucast (drop_bit 8 ?n), ucast ?n] = to_be 2 ?n" by (simp add: numeral_eq_Suc)
  then have "from_be [ucast (drop_bit 8 ?n), ucast ?n] = ?n" by (simp only: from_be_to_be) simp
  moreover have "unat ?n = length p + 4" using assms by (subst unat_of_nat) simp
  ultimately show "packet_len (tpkt_octets p @ p @ tail) = Inr (Some (TPKT_HEADER_LEN + length p))"
    unfolding h by (simp add: packet_len_def get_at_def TPKT_HEADER_LEN_def TPKT_VERSION_def Let_def)
qed

lemma packet_len_Nil: "packet_len [] = Inr None"
  by (simp add: packet_len_def get_at_def)

lemma tpkt_feed_new:
  "tpkt_feed reader_new cs = (case tpkt.split_frames (concat cs) of (ps, e, rest) \<Rightarrow> (ps, e))"
  using tpkt_feed_split [of reader_new cs]
  by (simp add: reader_new_def unread_def tpkt.split_frames.simps [of "[]"] packet_len_Nil)

text \<open>
  C29: how TCP cuts the stream does not matter. Fed segment by segment, the reader
  returns the same TPDUs, and the same error if there is one, as when it is fed everything at once.
\<close>

theorem tpkt_segmentation_invariant:
  "tpkt_feed reader_new cs = tpkt_feed reader_new [concat cs]"
  by (simp only: tpkt_feed_new concat.simps append_Nil2)

text \<open>
  TPDUs written with their TPKT headers come out of the reader as they were,
  however the octets are segmented on the way.
\<close>

theorem tpkt_roundtrip:
  assumes "\<forall>p \<in> set ps. length p + 4 \<le> 65535"
    and "concat cs = concat (map (\<lambda>p. tpkt_octets p @ p) ps)"
  shows "tpkt_feed reader_new cs = (ps, None)"
proof -
  have "tpkt.split_frames (concat cs) = (ps, None, [])"
    unfolding assms(2)
    using assms(1) by (intro tpkt.split_frames_concat) (simp_all add: tpkt_octets_len packet_len_Nil)
  then show ?thesis by (simp add: tpkt_feed_new)
qed

text \<open>A witness: two packets cut inside the first header and inside the second payload.\<close>

theorem tpkt_roundtrip_witness:
  "tpkt_feed reader_new [[3, 0], [0, 6, 0xAA, 0xBB, 3, 0, 0, 5], [0xCC]] = ([[0xAA, 0xBB], [0xCC]], None)"
  by (rule tpkt_roundtrip)
    (simp_all add: tpkt_octets_def tpkt_header_def TPKT_HEADER_LEN_def TPKT_MAX_PACKET_def TPKT_VERSION_def)

end
