(* ===== verification/Cotp.thy ===== *)
theory Cotp
  imports Ber_Writer
begin

text \<open>
  The class-0 transport protocol (\<open>src/proto/osi/cotp.rs\<close>): TPDUs, the parameters of the connect
  handshake, and the reassembly of data TPDUs. The writers append to a buffer, as in the source.
\<close>

section \<open>TPDUs\<close>

definition CR :: u8 where "CR = 0xE0"
definition CC :: u8 where "CC = 0xD0"
definition DR :: u8 where "DR = 0x80"
definition DT :: u8 where "DT = 0xF0"
definition EOT :: u8 where "EOT = 0x80"
definition PARAM_TPDU_SIZE :: u8 where "PARAM_TPDU_SIZE = 0xC0"
definition PARAM_SRC_TSAP :: u8 where "PARAM_SRC_TSAP = 0xC1"
definition PARAM_DST_TSAP :: u8 where "PARAM_DST_TSAP = 0xC2"
definition TPDU_SIZE_MIN_EXP :: u8 where "TPDU_SIZE_MIN_EXP = 7"
definition TPDU_SIZE_MAX_EXP :: u8 where "TPDU_SIZE_MAX_EXP = 13"

lemmas cotp_codes = CR_def CC_def DR_def DT_def EOT_def
lemmas cotp_params_codes = PARAM_TPDU_SIZE_def PARAM_SRC_TSAP_def PARAM_DST_TSAP_def

definition tpdu_size :: "u8 \<Rightarrow> usize" where
  "tpdu_size exp = (let e = (if exp < TPDU_SIZE_MIN_EXP then TPDU_SIZE_MIN_EXP
      else if exp > TPDU_SIZE_MAX_EXP then TPDU_SIZE_MAX_EXP else exp)
    in push_bit (unat e) 1)"

type_synonym tsel = bytes

record cotp_connect =
  cc_dst_ref :: u16
  cc_src_ref :: u16
  cc_class_options :: u8
  cc_tpdu_size_exp :: "u8 option"
  cc_src_tsel :: "tsel option"
  cc_dst_tsel :: "tsel option"

datatype tpdu =
    ConnectionRequest cotp_connect
  | ConnectionConfirm cotp_connect
  | DisconnectRequest u16 u16 u8
  | TpduData bool bytes
  | TpduOther u8 bytes

definition cotp_request :: "u16 \<Rightarrow> tsel \<Rightarrow> tsel \<Rightarrow> u8 \<Rightarrow> cotp_connect" where
  "cotp_request src_ref src_tsel dst_tsel tpdu_size_exp =
     \<lparr> cc_dst_ref = 0, cc_src_ref = src_ref, cc_class_options = 0,
       cc_tpdu_size_exp = Some (max TPDU_SIZE_MIN_EXP (min tpdu_size_exp TPDU_SIZE_MAX_EXP)),
       cc_src_tsel = Some src_tsel, cc_dst_tsel = Some dst_tsel \<rparr>"

definition cotp_max_data :: "cotp_connect \<Rightarrow> usize" where
  "cotp_max_data c = tpdu_size (case cc_tpdu_size_exp c of Some e \<Rightarrow> e | None \<Rightarrow> TPDU_SIZE_MIN_EXP) - 3"

definition cotp_param :: "u8 \<Rightarrow> bytes \<Rightarrow> cotp_connect \<Rightarrow> cotp_connect" where
  "cotp_param code value out =
     (if code = PARAM_TPDU_SIZE then out\<lparr> cc_tpdu_size_exp := get_at value 0 \<rparr>
      else if code = PARAM_SRC_TSAP then out\<lparr> cc_src_tsel := Some value \<rparr>
      else if code = PARAM_DST_TSAP then out\<lparr> cc_dst_tsel := Some value \<rparr>
      else out)"

function (sequential) cotp_params :: "bytes \<Rightarrow> cotp_connect \<Rightarrow> cotp_connect result" where
  "cotp_params [] out = Inr out"
| "cotp_params [code] out = Inl (Decode Truncated 0)"
| "cotp_params (code # len # tail) out =
     rbind (ok_or (Decode Truncated 0) (slice tail 0 (unat len))) (\<lambda>value.
       cotp_params (case slice_from tail (unat len) of Some r \<Rightarrow> r | None \<Rightarrow> []) (cotp_param code value out))"
  by pat_completeness auto
termination by (relation "measure (length \<circ> fst)") (auto simp: slice_from_def)

declare cotp_params.simps(3) [simp del]

definition cotp_connect_parse :: "bytes \<Rightarrow> cotp_connect result" where
  "cotp_connect_parse body =
     (case body of
        a # b # c # d # class # rest \<Rightarrow>
          cotp_params rest \<lparr> cc_dst_ref = from_be [a, b], cc_src_ref = from_be [c, d], cc_class_options = class,
            cc_tpdu_size_exp = None, cc_src_tsel = None, cc_dst_tsel = None \<rparr>
      | _ \<Rightarrow> Inl (Decode Truncated 0))"

definition write_tsel :: "u8 \<times> tsel option \<Rightarrow> enc" where
  "write_tsel x = (case x of
     (_, None) \<Rightarrow> sreturn ()
   | (param, Some t) \<Rightarrow>
       if length t < 256 then enc_raw ([param, of_nat (length t)] @ t)
       else sfail (Encode ''transport selector too long''))"

definition cotp_connect_write :: "cotp_connect \<Rightarrow> u8 \<Rightarrow> enc" where
  "cotp_connect_write c code out =
     (let start = length out in
      sbind (enc_raw ([0, code] @ to_be 2 (cc_dst_ref c) @ to_be 2 (cc_src_ref c) @ [cc_class_options c])) (\<lambda>_.
      sbind (case cc_tpdu_size_exp c of Some exp \<Rightarrow> enc_raw [PARAM_TPDU_SIZE, 1, exp] | None \<Rightarrow> sreturn ()) (\<lambda>_.
      sbind (sfor write_tsel [(PARAM_SRC_TSAP, cc_src_tsel c), (PARAM_DST_TSAP, cc_dst_tsel c)]) (\<lambda>_ out.
        let li = length out - start - 1 in
        if \<not> li < 256 then (Inl (Encode ''COTP header too long''), out)
        else if start < length out then (Inr (), out[start := of_nat li])
        else (Inl (Encode ''COTP header''), out)))) out)"

definition tpdu_parse :: "bytes \<Rightarrow> tpdu result" where
  "tpdu_parse tpdu =
     (case tpdu of
        [] \<Rightarrow> Inl (Decode Truncated 0)
      | li # rest \<Rightarrow>
          rbind (ok_or (Decode Truncated 1) (slice rest 0 (unat li))) (\<lambda>header.
          let payload = (case slice_from rest (unat li) of Some r \<Rightarrow> r | None \<Rightarrow> []) in
          case header of
            [] \<Rightarrow> Inl (Decode Truncated 1)
          | code # body \<Rightarrow>
              if code = CR then rbind (cotp_connect_parse body) (\<lambda>c. Inr (ConnectionRequest c))
              else if code = CC then rbind (cotp_connect_parse body) (\<lambda>c. Inr (ConnectionConfirm c))
              else if code = DR then
                (case body of a # b # c # d # reason # _ \<Rightarrow>
                     Inr (DisconnectRequest (from_be [a, b]) (from_be [c, d]) reason)
                 | _ \<Rightarrow> Inl (Decode Truncated 1))
              else if code = DT then
                (case body of nr_eot # _ \<Rightarrow> Inr (TpduData (nr_eot AND EOT \<noteq> 0) payload)
                 | [] \<Rightarrow> Inl (Decode Truncated 1))
              else Inr (TpduOther code body)))"

definition tpdu_write :: "tpdu \<Rightarrow> enc" where
  "tpdu_write t = (case t of
     ConnectionRequest c \<Rightarrow> cotp_connect_write c CR
   | ConnectionConfirm c \<Rightarrow> cotp_connect_write c CC
   | DisconnectRequest dst_ref src_ref reason \<Rightarrow>
       enc_raw ([6, DR] @ to_be 2 dst_ref @ to_be 2 src_ref @ [reason])
   | TpduData eot payload \<Rightarrow> enc_raw ([2, DT, if eot then EOT else 0] @ payload)
   | TpduOther code body \<Rightarrow>
       if length body + 1 < 256 then enc_raw ([of_nat (length body + 1), code] @ body)
       else sfail (Encode ''COTP header too long''))"

section \<open>Reassembly\<close>

record reassembler =
  ra_parts :: bytes
  ra_limit :: usize

definition reassembler_new :: "usize \<Rightarrow> reassembler" where
  "reassembler_new limit = \<lparr> ra_parts = [], ra_limit = limit \<rparr>"

definition ra_buffered :: "reassembler \<Rightarrow> usize" where
  "ra_buffered r = length (ra_parts r)"

definition ra_reset :: "reassembler \<Rightarrow> reassembler" where
  "ra_reset r = r\<lparr> ra_parts := [] \<rparr>"

definition ra_push :: "bool \<Rightarrow> bytes \<Rightarrow> reassembler \<Rightarrow> bytes option result \<times> reassembler" where
  "ra_push eot payload r =
     (if ra_parts r = [] \<and> eot then (Inr (Some payload), r)
      else if length (ra_parts r) + length payload > ra_limit r then
        (Inl (LimitExceeded ''max_tsdu'' (length (ra_parts r) + length payload)), r)
      else let r = r\<lparr> ra_parts := ra_parts r @ payload \<rparr>
           in (Inr (if eot then Some (ra_parts r) else None), r))"

definition ra_take :: "reassembler \<Rightarrow> reassembler" where
  "ra_take r = r\<lparr> ra_parts := [] \<rparr>"

section \<open>What is written parses back\<close>

definition tsel_octets :: "u8 \<Rightarrow> tsel option \<Rightarrow> bytes" where
  "tsel_octets param t = (case t of None \<Rightarrow> [] | Some v \<Rightarrow> [param, of_nat (length v)] @ v)"

definition cotp_connect_octets :: "cotp_connect \<Rightarrow> bytes" where
  "cotp_connect_octets c = to_be 2 (cc_dst_ref c) @ to_be 2 (cc_src_ref c) @ [cc_class_options c] @
     (case cc_tpdu_size_exp c of Some exp \<Rightarrow> [PARAM_TPDU_SIZE, 1, exp] | None \<Rightarrow> []) @
     tsel_octets PARAM_SRC_TSAP (cc_src_tsel c) @ tsel_octets PARAM_DST_TSAP (cc_dst_tsel c)"

definition tsel_ok :: "tsel option \<Rightarrow> bool" where
  "tsel_ok t \<longleftrightarrow> (case t of None \<Rightarrow> True | Some v \<Rightarrow> length v < 256)"

lemma write_tsel_cases:
  "write_tsel (p, t) out = (if tsel_ok t then (Inr (), out @ tsel_octets p t) else (Inl (Encode ''transport selector too long''), out))"
  by (auto simp: write_tsel_def tsel_ok_def tsel_octets_def enc_raw_def split: option.splits)

lemma cotp_connect_write_ok:
  assumes "cotp_connect_write c code out = (Inr (), out')"
  shows "out' = out @ of_nat (length (code # cotp_connect_octets c)) # code # cotp_connect_octets c \<and>
    length (code # cotp_connect_octets c) < 256 \<and> tsel_ok (cc_src_tsel c) \<and> tsel_ok (cc_dst_tsel c)"
  using assms
  by (auto simp: cotp_connect_write_def Let_def sbind_def enc_raw_def write_tsel_cases cotp_connect_octets_def
      list_update_append split: if_splits option.splits)

lemma cotp_params_step:
  "length v < 256 \<Longrightarrow> cotp_params (code # of_nat (length v) # v @ rest) out = cotp_params rest (cotp_param code v out)"
  by (simp add: cotp_params.simps(3) slice_def slice_from_def unat_of_nat)

lemma cotp_params_tsel:
  "tsel_ok t \<Longrightarrow> cotp_params (tsel_octets p t @ rest) out =
     cotp_params rest (case t of None \<Rightarrow> out | Some v \<Rightarrow> cotp_param p v out)"
  by (auto simp: tsel_ok_def tsel_octets_def cotp_params_step split: option.splits)

lemma cotp_connect_round:
  assumes "tsel_ok (cc_src_tsel c)" "tsel_ok (cc_dst_tsel c)"
  shows "cotp_connect_parse (cotp_connect_octets c) = Inr c"
proof -
  obtain a b where ab: "to_be 2 (cc_dst_ref c) = [a, b]" "from_be [a, b] = cc_dst_ref c" by (rule to_be_2_octets)
  obtain d e where de: "to_be 2 (cc_src_ref c) = [d, e]" "from_be [d, e] = cc_src_ref c" by (rule to_be_2_octets)
  have size: "cotp_params ((case cc_tpdu_size_exp c of Some exp \<Rightarrow> [PARAM_TPDU_SIZE, 1, exp] | None \<Rightarrow> []) @ rest) out =
      cotp_params rest (case cc_tpdu_size_exp c of Some exp \<Rightarrow> cotp_param PARAM_TPDU_SIZE [exp] out | None \<Rightarrow> out)" for rest out
    using cotp_params_step [of "[_]"] by (simp split: option.split)
  show ?thesis
    using cotp_params_tsel [OF assms(2), of _ "[]"]
    by (simp add: cotp_connect_octets_def cotp_connect_parse_def ab de size cotp_params_tsel assms)
      (cases c; simp add: cotp_param_def cotp_params_codes get_at_def split: option.split)
qed

lemma tpdu_parse_header:
  "length (code # body) < 256 \<Longrightarrow> tpdu_parse (of_nat (length (code # body)) # code # body @ payload) =
    (if code = CR then rbind (cotp_connect_parse body) (\<lambda>c. Inr (ConnectionRequest c))
     else if code = CC then rbind (cotp_connect_parse body) (\<lambda>c. Inr (ConnectionConfirm c))
     else if code = DR then
       (case body of a # b # c # d # reason # _ \<Rightarrow>
            Inr (DisconnectRequest (from_be [a, b]) (from_be [c, d]) reason)
        | _ \<Rightarrow> Inl (Decode Truncated 1))
     else if code = DT then
       (case body of nr_eot # _ \<Rightarrow> Inr (TpduData (nr_eot AND EOT \<noteq> 0) payload)
        | [] \<Rightarrow> Inl (Decode Truncated 1))
     else Inr (TpduOther code body))"
proof -
  assume l: "length (code # body) < 256"
  have u: "unat (of_nat (Suc (length body)) :: u8) = Suc (length body)"
    using l by (subst unat_of_nat) simp
  show ?thesis
    by (simp add: tpdu_parse_def u Let_def slice_def slice_from_def del: of_nat_Suc split: list.split)
qed

definition tpdu_known :: "u8 \<Rightarrow> bool" where
  "tpdu_known code \<longleftrightarrow> code = CR \<or> code = CC \<or> code = DR \<or> code = DT"

text \<open>
  Every TPDU the writer accepts parses back to itself, except that an \<open>Other\<close> TPDU
  must not carry the code of a TPDU the parser knows.
\<close>

theorem tpdu_roundtrip:
  assumes "tpdu_write t [] = (Inr (), bs)"
    and "\<forall>code body. t = TpduOther code body \<longrightarrow> \<not> tpdu_known code"
  shows "tpdu_parse bs = Inr t"
proof (cases t)
  case (ConnectionRequest c)
  have w: "cotp_connect_write c CR [] = (Inr (), bs)" using assms(1) by (simp add: tpdu_write_def ConnectionRequest)
  show ?thesis
    using cotp_connect_write_ok [OF w] cotp_connect_round [of c] tpdu_parse_header [of CR _ "[]"] ConnectionRequest by simp
next
  case (ConnectionConfirm c)
  have w: "cotp_connect_write c CC [] = (Inr (), bs)" using assms(1) by (simp add: tpdu_write_def ConnectionConfirm)
  show ?thesis
    using cotp_connect_write_ok [OF w] cotp_connect_round [of c] tpdu_parse_header [of CC _ "[]"] ConnectionConfirm
    by (simp add: cotp_codes)
next
  case (DisconnectRequest dst src reason)
  obtain a b where ab: "to_be 2 dst = [a, b]" "from_be [a, b] = dst" by (rule to_be_2_octets)
  obtain c d where cd: "to_be 2 src = [c, d]" "from_be [c, d] = src" by (rule to_be_2_octets)
  show ?thesis
    using assms(1) tpdu_parse_header [of DR "[a, b, c, d, reason]" "[]"] ab cd DisconnectRequest
    by (auto simp: tpdu_write_def enc_raw_def cotp_codes)
next
  case (TpduData eot payload)
  then show ?thesis
    using assms(1) tpdu_parse_header [of DT "[if eot then EOT else 0]" payload]
    by (auto simp: tpdu_write_def enc_raw_def cotp_codes)
next
  case (TpduOther code body)
  then show ?thesis
    using assms tpdu_parse_header [of code body "[]"]
    by (auto simp: tpdu_write_def enc_raw_def tpdu_known_def split: if_splits)
qed

text \<open>A witness: a connection confirm with a size and both selectors.\<close>

theorem tpdu_roundtrip_witness:
  "tpdu_parse [17, 0xD0, 0, 1, 0, 2, 0, 0xC0, 1, 13, 0xC1, 2, 0, 1, 0xC2, 2, 0, 0] =
     Inr (ConnectionConfirm \<lparr> cc_dst_ref = 1, cc_src_ref = 2, cc_class_options = 0, cc_tpdu_size_exp = Some 13,
       cc_src_tsel = Some [0, 1], cc_dst_tsel = Some [0, 0] \<rparr>)"
  by (rule tpdu_roundtrip)
    (simp_all add: tpdu_write_def cotp_connect_write_def Let_def sbind_def enc_raw_def write_tsel_def cotp_codes
      cotp_params_codes to_be_2)

section \<open>Reassembly loses nothing and stays within its limit\<close>

text \<open>The data TPDUs of one TSDU: every one but the last without the end bit.\<close>

primrec ra_run :: "bytes list \<Rightarrow> bytes \<Rightarrow> reassembler \<Rightarrow> bytes option result \<times> reassembler" where
  "ra_run [] final r = ra_push True final r"
| "ra_run (p # ps) final r = (case ra_push False p r of
      (Inl e, r) \<Rightarrow> (Inl e, r)
    | (Inr _, r) \<Rightarrow> ra_run ps final r)"

definition ra_wf :: "reassembler \<Rightarrow> bool" where
  "ra_wf r \<longleftrightarrow> length (ra_parts r) \<le> ra_limit r"

lemma ra_wf_push: "ra_wf r \<Longrightarrow> ra_wf (snd (ra_push eot p r)) \<and> ra_limit (snd (ra_push eot p r)) = ra_limit r"
  by (auto simp: ra_wf_def ra_push_def Let_def)

lemma ra_run_ok:
  "length (ra_parts r) + length (concat ps) + length final \<le> ra_limit r \<Longrightarrow>
    fst (ra_run ps final r) = Inr (Some (ra_parts r @ concat ps @ final))"
  by (induction ps arbitrary: r) (auto simp: ra_push_def Let_def)

lemma ra_run_limit:
  "ra_wf r \<Longrightarrow> ra_limit r < length (ra_parts r) + length (concat ps) + length final \<Longrightarrow> ps \<noteq> [] \<Longrightarrow> concat ps \<noteq> [] \<or> ra_parts r \<noteq> [] \<Longrightarrow>
    \<exists>n. fst (ra_run ps final r) = Inl (LimitExceeded ''max_tsdu'' n)"
proof (induction ps arbitrary: r)
  case (Cons p ps)
  show ?case
  proof (cases "length (ra_parts r) + length p > ra_limit r")
    case False
    let ?r = "r\<lparr> ra_parts := ra_parts r @ p \<rparr>"
    have push: "ra_push False p r = (Inr None, ?r)" using False by (simp add: ra_push_def)
    show ?thesis
    proof (cases "ps = []")
      case True
      then show ?thesis using Cons.prems push by (auto simp: ra_push_def Let_def)
    next
      case ps: False
      have "ra_wf ?r" using False by (simp add: ra_wf_def)
      then show ?thesis
        using Cons.IH [of ?r] Cons.prems ps push by (auto simp: ra_push_def Let_def ra_wf_def)
    qed
  qed (simp add: ra_push_def)
qed simp

text \<open>
  C30: a TSDU within the limit comes out whole, however it was cut into data TPDUs; a
  segmented one beyond the limit is refused; and whatever arrives, the octets held for an unfinished
  TSDU never exceed the limit.
\<close>

theorem reassembly:
  "(length (concat ps) + length final \<le> limit \<longrightarrow>
     fst (ra_run ps final (reassembler_new limit)) = Inr (Some (concat ps @ final))) \<and>
   (limit < length (concat ps) + length final \<and> concat ps \<noteq> [] \<longrightarrow>
     (\<exists>n. fst (ra_run ps final (reassembler_new limit)) = Inl (LimitExceeded ''max_tsdu'' n))) \<and>
   ra_buffered (fold (\<lambda>(eot, p) r. snd (ra_push eot p r)) pushes (reassembler_new limit)) \<le> limit"
proof (intro conjI)
  show "limit < length (concat ps) + length final \<and> concat ps \<noteq> [] \<longrightarrow>
     (\<exists>n. fst (ra_run ps final (reassembler_new limit)) = Inl (LimitExceeded ''max_tsdu'' n))"
  proof
    assume long: "limit < length (concat ps) + length final \<and> concat ps \<noteq> []"
    then have "ps \<noteq> []" by (cases ps) auto
    then show "\<exists>n. fst (ra_run ps final (reassembler_new limit)) = Inl (LimitExceeded ''max_tsdu'' n)"
      using ra_run_limit [of "reassembler_new limit" ps final] long
      by (simp add: reassembler_new_def ra_wf_def del: concat_eq_Nil_conv)
  qed
  show "length (concat ps) + length final \<le> limit \<longrightarrow>
     fst (ra_run ps final (reassembler_new limit)) = Inr (Some (concat ps @ final))"
    using ra_run_ok [of "reassembler_new limit" ps final] by (simp add: reassembler_new_def)
  have "ra_wf r \<Longrightarrow> ra_limit r = limit \<Longrightarrow>
      (let r' = fold (\<lambda>(eot, p) r. snd (ra_push eot p r)) pushes r in ra_wf r' \<and> ra_limit r' = limit)" for r
    by (induction pushes arbitrary: r) (auto simp: ra_wf_push Let_def split: prod.splits)
  from this [of "reassembler_new limit"]
  show "ra_buffered (fold (\<lambda>(eot, p) r. snd (ra_push eot p r)) pushes (reassembler_new limit)) \<le> limit"
    by (simp add: ra_buffered_def ra_wf_def reassembler_new_def Let_def)
qed

theorem reassembly_witness:
  "fst (ra_run [[1, 2], [3]] [4] (reassembler_new 4)) = Inr (Some [1, 2, 3, 4])"
  using reassembly [of "[[1, 2], [3]]" "[4]" 4 "[]"] by simp

text \<open>
  The limit does not cover a TSDU that arrives in a single TPDU: it is handed back without being
  stored, and without being measured.
\<close>

lemma unsegmented_tsdu_not_limited:
  "fst (ra_push True payload (reassembler_new limit)) = Inr (Some payload)"
  by (simp add: ra_push_def reassembler_new_def)

end
