(* ===== verification/Oid.thy ===== *)
theory Oid
  imports Errors
begin

text \<open>
  Object identifiers (\<open>src/proto/osi/oid.rs\<close>): kept as their contents octets, with an iterator over
  the arcs and the encoder the SCL loader's application titles go through.
\<close>

type_synonym oid = bytes

definition ACSE_ABSTRACT_SYNTAX :: oid where "ACSE_ABSTRACT_SYNTAX = [0x52, 0x01, 0x00, 0x01]"
definition MMS_ABSTRACT_SYNTAX :: oid where "MMS_ABSTRACT_SYNTAX = [0x28, 0xCA, 0x22, 0x02, 0x01]"
definition MMS_APPLICATION_CONTEXT :: oid where "MMS_APPLICATION_CONTEXT = [0x28, 0xCA, 0x22, 0x02, 0x03]"
definition OID_BER :: oid where "OID_BER = [0x51, 0x01]"
definition PASSWORD_MECHANISM :: oid where "PASSWORD_MECHANISM = [0x52, 0x03, 0x01]"

record arcs =
  arcs_rest :: bytes
  arcs_pending :: "u32 option"
  arcs_first :: bool

definition oid_arcs :: "oid \<Rightarrow> arcs" where
  "oid_arcs o' = \<lparr> arcs_rest = o', arcs_pending = None, arcs_first = True \<rparr>"

text \<open>The loop over one subidentifier: the value, or \<open>None\<close>, and what is left of the octets.\<close>

fun arc_value :: "u32 \<Rightarrow> bytes \<Rightarrow> u32 option \<times> bytes" where
  "arc_value value [] = (None, [])"
| "arc_value value (byte # tail) =
     (case checked_mul value 128 of
        None \<Rightarrow> (None, tail)
      | Some v \<Rightarrow> (case checked_add v (ucast (byte AND 0x7F)) of
          None \<Rightarrow> (None, tail)
        | Some v \<Rightarrow> if byte AND 0x80 = 0 then (Some v, tail) else arc_value v tail))"

definition arcs_next :: "arcs \<Rightarrow> u32 option \<times> arcs" where
  "arcs_next s = (case arcs_pending s of
     Some second \<Rightarrow> (Some second, s\<lparr> arcs_pending := None \<rparr>)
   | None \<Rightarrow> (case arc_value 0 (arcs_rest s) of
       (None, rest) \<Rightarrow> (None, s\<lparr> arcs_rest := rest \<rparr>)
     | (Some value, rest) \<Rightarrow>
         if arcs_first s then
           let (a, b) = (if value \<ge> 80 then (2, value - 80) else (value div 40, value mod 40))
           in (Some a, s\<lparr> arcs_rest := rest, arcs_first := False, arcs_pending := Some b \<rparr>)
         else (Some value, s\<lparr> arcs_rest := rest \<rparr>)))"

lemma arc_value_rest: "arc_value v bs = (Some w, rest) \<Longrightarrow> length rest < length bs"
  by (induction v bs arbitrary: w rule: arc_value.induct) (fastforce split: option.splits if_splits)+

text \<open>The iterator run to its end, as \<open>for\<close> and \<open>collect\<close> do.\<close>

function arcs_collect :: "arcs \<Rightarrow> u32 list" where
  "arcs_collect s = (case arcs_next s of (None, _) \<Rightarrow> [] | (Some a, s') \<Rightarrow> a # arcs_collect s')"
  by pat_completeness auto
termination
  by (relation "measure (\<lambda>s. 2 * length (arcs_rest s) + (if arcs_pending s = None then 0 else 1))")
    (auto simp: arcs_next_def split: option.splits prod.splits if_splits dest: arc_value_rest)

declare arcs_collect.simps [simp del]

definition push_group :: "u32 \<Rightarrow> nat \<Rightarrow> bool \<times> bytes \<Rightarrow> bool \<times> bytes" where
  "push_group value shift x = (case x of (started, out) \<Rightarrow>
     let group = ucast (drop_bit shift value AND 0x7F) :: u8
     in if group \<noteq> 0 \<or> started then (True, out @ [group OR 0x80]) else (started, out))"

definition push_arc :: "u32 \<Rightarrow> bytes" where
  "push_arc value = snd (fold (push_group value) [28, 21, 14, 7] (False, [])) @ [ucast (value AND 0x7F)]"

definition oid_encode :: "u32 list \<Rightarrow> bytes option" where
  "oid_encode arcs =
     Option.bind (get_at arcs 0) (\<lambda>first. Option.bind (get_at arcs 1) (\<lambda>second.
     if first > 2 \<or> (first < 2 \<and> second \<ge> 40) then None
     else Option.bind (Option.bind (checked_mul first 40) (\<lambda>x. checked_add x second)) (\<lambda>combined.
       Some (push_arc combined @ concat (map push_arc (drop 2 arcs))))))"

section \<open>The iterator reads back what was encoded\<close>

lemma arc_step:
  fixes v :: u32
  shows "arc_value (drop_bit (s + 7) v) ((ucast (drop_bit s v AND 0x7F) OR 0x80) # tail) = arc_value (drop_bit s v) tail"
    and "arc_value (drop_bit (s + 7) v) (ucast (drop_bit s v AND 0x7F) # tail) = (Some (drop_bit s v), tail)"
proof -
  let ?n = "unat (drop_bit s v)" and ?g = "ucast (drop_bit s v AND 0x7F) :: u8"
  have hi: "unat (drop_bit (s + 7) v) = ?n div 128"
    by (simp add: unat_drop_bit div_mult2_eq power_add)
  have n: "?n < 2 ^ 32" using unat_lt_exp [of "drop_bit s v"] by simp
  have m: "(0x7F :: u32) = mask 7" "(0x7F :: u8) = mask 7" by (simp_all add: mask_eq_exp_minus_1)
  have g: "ucast (?g AND 0x7F) = take_bit 7 (drop_bit s v)" "ucast ((?g OR 0x80) AND 0x7F) = take_bit 7 (drop_bit s v)"
  proof -
    have "(?g OR 0x80) AND 0x7F = ?g AND 0x7F" by (rule octet_eqI) (simp_all add: bit_simps)
    moreover show "ucast (?g AND 0x7F) = take_bit 7 (drop_bit s v)"
      unfolding m by (rule bit_word_eqI) (auto simp: bit_simps)
    ultimately show "ucast ((?g OR 0x80) AND 0x7F) = take_bit 7 (drop_bit s v)" by simp
  qed
  have mul: "checked_mul (drop_bit (s + 7) v) 128 = Some (drop_bit (s + 7) v * 128)"
    using n by (simp add: checked_mul_def hi)
  have "unat (drop_bit (s + 7) v * 128) = ?n div 128 * 128"
    using n by (subst unat_mult_le) (simp_all add: hi)
  then have add: "checked_add (drop_bit (s + 7) v * 128) (take_bit 7 (drop_bit s v)) = Some (drop_bit s v)"
    using n by (simp add: checked_add_def unat_take_bit word_unat_eq_iff unat_plus_le)
  have hb: "(?g OR 0x80) AND 0x80 \<noteq> 0" "?g AND 0x80 = 0"
    by (simp_all add: octet_mask bit_simps)
  show "arc_value (drop_bit (s + 7) v) ((?g OR 0x80) # tail) = arc_value (drop_bit s v) tail"
    "arc_value (drop_bit (s + 7) v) (?g # tail) = (Some (drop_bit s v), tail)"
    using mul add g hb by simp_all
qed

lemma arc_value_push: "arc_value 0 (push_arc v @ tail) = (Some v, tail)"
proof -
  define inv where "inv = (\<lambda>s (started, out :: bytes). (\<forall>tail. arc_value 0 (out @ tail) = arc_value (drop_bit s v) tail) \<and>
    (\<not> started \<longrightarrow> drop_bit s v = 0))"
  have zero: "drop_bit s v = 0" if "ucast (drop_bit s v AND 0x7F) = (0 :: u8)" "drop_bit (s + 7) v = 0" for s
  proof -
    have m: "(0x7F :: u32) = mask 7" by (simp add: mask_eq_exp_minus_1)
    have "\<not> bit (drop_bit s v) k" for k
    proof (cases "k < 7")
      case True
      have "bit (ucast (drop_bit s v AND 0x7F) :: u8) k = bit (drop_bit s v) k"
        using True unfolding m by (auto simp: bit_simps)
      then show ?thesis by (simp add: that(1))
    next
      case False
      then have "bit (drop_bit s v) k = bit (drop_bit (s + 7) v) (k - 7)" by (simp add: bit_drop_bit_eq)
      then show ?thesis by (simp only: that(2) bit_0_eq) simp
    qed
    then show ?thesis by (intro bit_word_eqI) simp
  qed
  have step: "inv s (push_group v s x)" if "inv (s + 7) x" for s x
    using that arc_step(1) [of s v] zero [of s]
    by (cases x) (auto simp: inv_def push_group_def Let_def)
  have "drop_bit 35 v = 0" by (rule bit_word_eqI) (simp add: bit_simps)
  then have "inv 35 (False, [])" by (simp add: inv_def)
  then have "inv 7 (fold (push_group v) [28, 21, 14, 7] (False, []))"
    using step [of 28] step [of 21] step [of 14] step [of 7] by simp
  then show ?thesis
    using arc_step(2) [of 0 v tail] by (auto simp: inv_def push_arc_def split: prod.splits)
qed

lemma collect_arcs:
  "arcs_collect \<lparr> arcs_rest = concat (map push_arc vs), arcs_pending = None, arcs_first = False \<rparr> = vs"
proof (induction vs)
  case Nil
  then show ?case by (simp add: arcs_collect.simps arcs_next_def)
next
  case (Cons v vs)
  then show ?case by (subst arcs_collect.simps) (simp add: arcs_next_def arc_value_push)
qed

text \<open>The first subidentifier holds two arcs; the third root arc takes everything from 80 up.\<close>

lemma first_two_arcs:
  fixes a b c :: u32
  assumes "\<not> (a > 2 \<or> (a < 2 \<and> b \<ge> 40))" "Option.bind (checked_mul a 40) (\<lambda>x. checked_add x b) = Some c"
  shows "(if c \<ge> 80 then (2, c - 80) else (c div 40, c mod 40)) = (a, b)"
proof -
  have c: "unat c = unat a * 40 + unat b"
    using assms(2)
    by (auto simp: checked_mul_def checked_add_def unat_plus_le unat_mult_le split: if_splits)
  have a: "unat a \<le> 2" "unat a < 2 \<Longrightarrow> unat b < 40"
    using assms(1) by (auto simp: word_less_nat_alt word_le_nat_alt not_less not_le)
  show ?thesis
  proof (cases "unat a = 2")
    case True
    then have "c \<ge> 80" using c by (simp add: word_le_nat_alt)
    moreover have "unat (c - 80) = unat b" using \<open>c \<ge> 80\<close> c True by (simp add: unat_sub)
    ultimately show ?thesis using True by (simp add: word_unat_eq_iff)
  next
    case False
    then have "unat b < 40" "unat a < 2" using a by linarith+
    then have "unat c < 80" using c by linarith
    moreover have "unat (c div 40) = unat a" "unat (c mod 40) = unat b"
      using c \<open>unat b < 40\<close> by (simp_all add: unat_div_distrib unat_mod_distrib)
    ultimately show ?thesis by (simp add: word_unat_eq_iff word_le_nat_alt)
  qed
qed

text \<open>
  The arcs of an encoded identifier are the arcs it was encoded from. The encoder
  refuses what it cannot represent (fewer than two arcs, a second arc of 40 or more under the first
  two roots, a first subidentifier beyond 32 bits) instead of wrapping.
\<close>

theorem oid_roundtrip:
  "oid_encode arcs = Some o' \<Longrightarrow> arcs_collect (oid_arcs o') = arcs"
proof -
  assume "oid_encode arcs = Some o'"
  then obtain a b c where arcs: "get_at arcs 0 = Some a" "get_at arcs 1 = Some b"
      and ok: "\<not> (a > 2 \<or> (a < 2 \<and> b \<ge> 40))" and c: "Option.bind (checked_mul a 40) (\<lambda>x. checked_add x b) = Some c"
      and o': "o' = push_arc c @ concat (map push_arc (drop 2 arcs))"
    by (auto simp: oid_encode_def bind_eq_Some_conv split: if_splits)
  obtain rest where rest: "arcs = a # b # rest"
    using arcs by (cases arcs; cases "tl arcs") (auto simp: get_at_def)
  let ?s = "\<lparr> arcs_rest = concat (map push_arc rest), arcs_pending = Some b, arcs_first = False \<rparr>"
  have "arcs_next (oid_arcs o') = (Some a, ?s)"
    using first_two_arcs [OF ok c] by (simp add: arcs_next_def oid_arcs_def o' rest arc_value_push)
  moreover have "arcs_next ?s = (Some b, ?s\<lparr> arcs_pending := None \<rparr>)" by (simp add: arcs_next_def)
  ultimately show ?thesis
    using collect_arcs [of rest] by (simp add: arcs_collect.simps [of "oid_arcs o'"] arcs_collect.simps [of ?s] rest)
qed

theorem oid_roundtrip_witness:
  "arcs_collect (oid_arcs MMS_ABSTRACT_SYNTAX) = [1, 0, 9506, 2, 1]"
  by (rule oid_roundtrip)
    (simp add: oid_encode_def get_at_def checked_mul_def checked_add_def push_arc_def push_group_def Let_def
      MMS_ABSTRACT_SYNTAX_def)

end
