(* ===== verification/Session.thy ===== *)
theory Session
  imports Ber_Writer
begin

text \<open>
  The session protocol (\<open>src/proto/osi/session.rs\<close>): SPDUs with their parameters, the length
  indicators of one or three octets, and the Connect/Accept item the parser descends into once.
\<close>

definition SI_DATA_TRANSFER :: u8 where "SI_DATA_TRANSFER = 1"
definition SI_GIVE_TOKENS :: u8 where "SI_GIVE_TOKENS = 1"
definition SI_FINISH :: u8 where "SI_FINISH = 9"
definition SI_DISCONNECT :: u8 where "SI_DISCONNECT = 10"
definition SI_REFUSE :: u8 where "SI_REFUSE = 12"
definition SI_CONNECT :: u8 where "SI_CONNECT = 13"
definition SI_ACCEPT :: u8 where "SI_ACCEPT = 14"
definition SI_ABORT :: u8 where "SI_ABORT = 25"
definition SI_ABORT_ACCEPT :: u8 where "SI_ABORT_ACCEPT = 26"
definition PGI_CONNECT_ACCEPT :: u8 where "PGI_CONNECT_ACCEPT = 5"
definition PI_PROTOCOL_OPTIONS :: u8 where "PI_PROTOCOL_OPTIONS = 19"
definition PI_SESSION_REQUIREMENT :: u8 where "PI_SESSION_REQUIREMENT = 20"
definition PI_VERSION_NUMBER :: u8 where "PI_VERSION_NUMBER = 22"
definition PI_REASON_CODE :: u8 where "PI_REASON_CODE = 50"
definition PI_CALLING_SSEL :: u8 where "PI_CALLING_SSEL = 51"
definition PI_CALLED_SSEL :: u8 where "PI_CALLED_SSEL = 52"
definition PI_USER_DATA :: u8 where "PI_USER_DATA = 193"
definition PI_EXTENDED_USER_DATA :: u8 where "PI_EXTENDED_USER_DATA = 194"
definition SESSION_VERSION_2 :: u8 where "SESSION_VERSION_2 = 2"
definition REQUIREMENT_DUPLEX :: u16 where "REQUIREMENT_DUPLEX = 2"
definition MAX_USER_DATA :: usize where "MAX_USER_DATA = 512"
definition MAX_EXTENDED_USER_DATA :: usize where "MAX_EXTENDED_USER_DATA = 10240"
definition PARAMETER_GROUPS :: nat where "PARAMETER_GROUPS = 1"

lemmas session_codes = SI_DATA_TRANSFER_def SI_GIVE_TOKENS_def SI_FINISH_def SI_DISCONNECT_def SI_REFUSE_def
  SI_CONNECT_def SI_ACCEPT_def SI_ABORT_def SI_ABORT_ACCEPT_def PGI_CONNECT_ACCEPT_def PI_PROTOCOL_OPTIONS_def
  PI_SESSION_REQUIREMENT_def PI_VERSION_NUMBER_def PI_REASON_CODE_def PI_CALLING_SSEL_def PI_CALLED_SSEL_def
  PI_USER_DATA_def PI_EXTENDED_USER_DATA_def PARAMETER_GROUPS_def

record session_connect =
  sc_protocol_options :: u8
  sc_version :: u8
  sc_requirements :: u16
  sc_calling_ssel :: "bytes option"
  sc_called_ssel :: "bytes option"
  sc_user_data :: bytes

datatype spdu =
    SpduConnect session_connect
  | SpduAccept session_connect
  | SpduRefuse "u8 option" bytes
  | SpduFinish bytes
  | SpduDisconnect bytes
  | SpduAbort bytes
  | SpduAbortAccept
  | SpduDataTransfer bytes
  | SpduOther u8 bytes

definition session_connect_default :: session_connect where
  "session_connect_default = \<lparr> sc_protocol_options = 0, sc_version = 0, sc_requirements = 0,
     sc_calling_ssel = None, sc_called_ssel = None, sc_user_data = [] \<rparr>"

definition session_connect_new :: "bytes option \<Rightarrow> bytes option \<Rightarrow> bytes \<Rightarrow> session_connect" where
  "session_connect_new calling called user_data = \<lparr> sc_protocol_options = 0, sc_version = SESSION_VERSION_2,
     sc_requirements = REQUIREMENT_DUPLEX, sc_calling_ssel = calling, sc_called_ssel = called, sc_user_data = user_data \<rparr>"

section \<open>Parameters\<close>

definition read_li :: "bytes \<Rightarrow> usize \<Rightarrow> (usize \<times> usize) result" where
  "read_li buf at =
     rbind (ok_or (Decode Truncated at) (get_at buf at)) (\<lambda>first.
     if first \<noteq> 0xFF then Inr (unat first, at + 1)
     else (case (get_at buf (at + 1), get_at buf (at + 2)) of
         (Some hi, Some lo) \<Rightarrow> Inr (unat (from_be [hi, lo] :: u16), at + 3)
       | _ \<Rightarrow> Inl (Decode Truncated (at + 1))))"

definition write_li :: "usize \<Rightarrow> enc" where
  "write_li len =
     (if len < 0xFF then enc_raw [of_nat len]
      else if len < 2 ^ 16 then enc_raw (0xFF # to_be 2 (of_nat len :: u16))
      else sfail (Encode ''session parameter exceeds 65535 octets''))"

lemma read_li_pos: "read_li buf at = Inr (len, p) \<Longrightarrow> at < p"
  by (auto simp: read_li_def rbind_Inr_iff split: if_splits option.splits)

text \<open>The callback is a transformer of the state it captures.\<close>

function for_each_parameter ::
  "(u8 \<Rightarrow> bytes \<Rightarrow> 's \<Rightarrow> 's) \<Rightarrow> bytes \<Rightarrow> nat \<Rightarrow> usize \<Rightarrow> 's \<Rightarrow> 's result" where
  "for_each_parameter f body groups at s =
     (if at < length body then
        rbind (ok_or (Decode Truncated at) (get_at body at)) (\<lambda>code.
        rbind (read_li body (at + 1)) (\<lambda>(len, value_at).
        rbind (ok_or (Decode Truncated value_at) (slice body value_at (value_at + len))) (\<lambda>value.
        rbind (if code = PGI_CONNECT_ACCEPT \<and> groups > 0 then for_each_parameter f value (groups - 1) 0 s
               else Inr (f code value s)) (\<lambda>s.
        for_each_parameter f body groups (value_at + len) s))))
      else Inr s)"
  by pat_completeness auto
termination
  by (relation "measures [\<lambda>(_, _, groups, _, _). groups, \<lambda>(_, body, _, at, _). length body - at]")
    (auto dest!: read_li_pos)

declare for_each_parameter.simps [simp del]

definition be_u16 :: "bytes \<Rightarrow> u16" where
  "be_u16 v = (case v of a # b # _ \<Rightarrow> from_be [a, b] | [a] \<Rightarrow> ucast a | [] \<Rightarrow> 0)"

definition unwrap_or :: "'a \<Rightarrow> 'a option \<Rightarrow> 'a" where
  "unwrap_or d x = (case x of Some y \<Rightarrow> y | None \<Rightarrow> d)"

section \<open>Parsing\<close>

definition connect_param :: "u8 \<Rightarrow> bytes \<Rightarrow> session_connect \<times> bytes \<Rightarrow> session_connect \<times> bytes" where
  "connect_param code value x = (case x of (c, user_data) \<Rightarrow>
     if code = PI_PROTOCOL_OPTIONS then (c\<lparr> sc_protocol_options := unwrap_or 0 (get_at value 0) \<rparr>, user_data)
     else if code = PI_VERSION_NUMBER then (c\<lparr> sc_version := unwrap_or SESSION_VERSION_2 (get_at value 0) \<rparr>, user_data)
     else if code = PI_SESSION_REQUIREMENT then (c\<lparr> sc_requirements := be_u16 value \<rparr>, user_data)
     else if code = PI_CALLING_SSEL then (c\<lparr> sc_calling_ssel := Some value \<rparr>, user_data)
     else if code = PI_CALLED_SSEL then (c\<lparr> sc_called_ssel := Some value \<rparr>, user_data)
     else if code = PI_USER_DATA \<or> code = PI_EXTENDED_USER_DATA then (c, value)
     else (c, user_data))"

definition refuse_param :: "u8 \<Rightarrow> bytes \<Rightarrow> u8 option \<times> bytes \<Rightarrow> u8 option \<times> bytes" where
  "refuse_param code value x = (case x of (reason, user_data) \<Rightarrow>
     if code = PI_REASON_CODE then (get_at value 0, user_data)
     else if code = PI_USER_DATA \<or> code = PI_EXTENDED_USER_DATA then (reason, value)
     else (reason, user_data))"

definition user_data_param :: "u8 \<Rightarrow> bytes \<Rightarrow> bytes \<Rightarrow> bytes" where
  "user_data_param code value user_data =
     (if code = PI_USER_DATA \<or> code = PI_EXTENDED_USER_DATA then value else user_data)"

definition spdu_parse :: "bytes \<Rightarrow> spdu result" where
  "spdu_parse buf =
     rbind (ok_or (Decode Truncated 0) (get_at buf 0)) (\<lambda>si.
     rbind (read_li buf 1) (\<lambda>(li, body_at).
     rbind (ok_or (Decode Truncated body_at) (slice buf body_at (body_at + li))) (\<lambda>body.
     let after = (case slice_from buf (body_at + li) of Some r \<Rightarrow> r | None \<Rightarrow> []) in
     if si = SI_GIVE_TOKENS \<and> li = 0 then
       rbind (ok_or (Decode MissingField body_at) (get_at after 0)) (\<lambda>nxt.
       if nxt \<noteq> SI_DATA_TRANSFER then Inl (Decode UnexpectedTag (body_at + li))
       else rbind (read_li after 1) (\<lambda>(dt_li, dt_at).
         rbind (ok_or (Decode Truncated dt_at) (slice_from after (dt_at + dt_li))) (\<lambda>payload.
         Inr (SpduDataTransfer payload))))
     else if si = SI_CONNECT \<or> si = SI_ACCEPT then
       rbind (for_each_parameter connect_param body PARAMETER_GROUPS 0 (session_connect_default, [])) (\<lambda>(c, user_data).
       let c = c\<lparr> sc_user_data := user_data \<rparr>
       in Inr (if si = SI_CONNECT then SpduConnect c else SpduAccept c))
     else if si = SI_REFUSE then
       rbind (for_each_parameter refuse_param body PARAMETER_GROUPS 0 (None, [])) (\<lambda>(reason, user_data).
       Inr (SpduRefuse reason user_data))
     else if si = SI_FINISH \<or> si = SI_DISCONNECT \<or> si = SI_ABORT then
       rbind (for_each_parameter user_data_param body PARAMETER_GROUPS 0 []) (\<lambda>user_data.
       Inr (if si = SI_FINISH then SpduFinish user_data
            else if si = SI_DISCONNECT then SpduDisconnect user_data else SpduAbort user_data))
     else if si = SI_ABORT_ACCEPT then Inr SpduAbortAccept
     else Inr (SpduOther si body))))"

section \<open>Writing\<close>

definition write_ssel :: "u8 \<times> bytes option \<Rightarrow> enc" where
  "write_ssel x = (case x of
     (_, None) \<Rightarrow> sreturn ()
   | (code, Some s) \<Rightarrow> sbind (enc_raw [code]) (\<lambda>_. sbind (write_li (length s)) (\<lambda>_. enc_raw s)))"

definition write_user_data :: "bytes \<Rightarrow> enc" where
  "write_user_data user_data =
     (if user_data = [] then sreturn ()
      else if length user_data > MAX_USER_DATA then
        sfail (Encode ''session user data above 512 octets needs Extended User Data'')
      else sbind (enc_raw [PI_USER_DATA]) (\<lambda>_. sbind (write_li (length user_data)) (\<lambda>_. enc_raw user_data)))"

definition write_connect_body :: "u8 \<Rightarrow> session_connect \<Rightarrow> enc" where
  "write_connect_body si c =
     sbind (enc_raw ([PGI_CONNECT_ACCEPT, 6] @ [PI_PROTOCOL_OPTIONS, 1, sc_protocol_options c] @
              [PI_VERSION_NUMBER, 1, sc_version c] @ [PI_SESSION_REQUIREMENT, 2] @ to_be 2 (sc_requirements c))) (\<lambda>_.
     sbind (sfor write_ssel [(PI_CALLING_SSEL, sc_calling_ssel c), (PI_CALLED_SSEL, sc_called_ssel c)]) (\<lambda>_.
     if sc_user_data c = [] then sreturn ()
     else let extended = length (sc_user_data c) > MAX_USER_DATA in
       if extended \<and> si \<noteq> SI_CONNECT then
         sfail (Encode ''an ACCEPT SPDU carries at most 512 octets of user data'')
       else if length (sc_user_data c) > MAX_EXTENDED_USER_DATA then
         sfail (Encode ''session user data above 10240 octets needs a CONNECT DATA OVERFLOW SPDU'')
       else sbind (enc_raw [if extended then PI_EXTENDED_USER_DATA else PI_USER_DATA]) (\<lambda>_.
         sbind (write_li (length (sc_user_data c))) (\<lambda>_. enc_raw (sc_user_data c)))))"

text \<open>A body is built in a buffer of its own and then written after its SI and length.\<close>

definition write_body :: "u8 \<Rightarrow> enc \<Rightarrow> enc" where
  "write_body si build out = (case build [] of
     (Inl e, _) \<Rightarrow> (Inl e, out)
   | (Inr _, body) \<Rightarrow> sbind (enc_raw [si]) (\<lambda>_. sbind (write_li (length body)) (\<lambda>_. enc_raw body)) out)"

definition spdu_write :: "spdu \<Rightarrow> enc" where
  "spdu_write t = (case t of
     SpduDataTransfer payload \<Rightarrow> enc_raw ([SI_GIVE_TOKENS, 0, SI_DATA_TRANSFER, 0] @ payload)
   | SpduConnect c \<Rightarrow> write_body SI_CONNECT (write_connect_body SI_CONNECT c)
   | SpduAccept c \<Rightarrow> write_body SI_ACCEPT (write_connect_body SI_ACCEPT c)
   | SpduRefuse reason user_data \<Rightarrow> write_body SI_REFUSE
       (sbind (case reason of Some r \<Rightarrow> enc_raw [PI_REASON_CODE, 1, r] | None \<Rightarrow> sreturn ()) (\<lambda>_. write_user_data user_data))
   | SpduFinish user_data \<Rightarrow> write_body SI_FINISH (write_user_data user_data)
   | SpduDisconnect user_data \<Rightarrow> write_body SI_DISCONNECT (write_user_data user_data)
   | SpduAbort user_data \<Rightarrow> write_body SI_ABORT (write_user_data user_data)
   | SpduAbortAccept \<Rightarrow> enc_raw [SI_ABORT_ACCEPT, 0]
   | SpduOther si body \<Rightarrow> sbind (enc_raw [si]) (\<lambda>_. sbind (write_li (length body)) (\<lambda>_. enc_raw body)))"

section \<open>What is written parses back\<close>

definition li_octets :: "usize \<Rightarrow> bytes" where
  "li_octets len = (if len < 0xFF then [of_nat len] else 0xFF # to_be 2 (of_nat len :: u16))"

definition param_octets :: "u8 \<Rightarrow> bytes \<Rightarrow> bytes" where
  "param_octets code v = code # li_octets (length v) @ v"

lemma write_li_cases:
  "write_li n out = (if n < 2 ^ 16 then (Inr (), out @ li_octets n)
     else (Inl (Encode ''session parameter exceeds 65535 octets''), out))"
  by (simp add: write_li_def li_octets_def enc_raw_def)

lemma write_param:
  "sbind (enc_raw [code]) (\<lambda>_. sbind (write_li (length v)) (\<lambda>_. enc_raw v)) out =
    (if length v < 2 ^ 16 then (Inr (), out @ param_octets code v)
     else (Inl (Encode ''session parameter exceeds 65535 octets''), out @ [code]))"
  by (simp add: sbind_def enc_raw_def write_li_cases param_octets_def)

lemma read_li_octets:
  assumes "n < 2 ^ 16" "p = length pre"
  shows "read_li (pre @ li_octets n @ rest) p = Inr (n, p + length (li_octets n))"
proof (cases "n < 0xFF")
  case True
  have u: "unat (of_nat n :: u8) = n" using True by (subst unat_of_nat) simp
  then have "(of_nat n :: u8) \<noteq> 0xFF" using u True by (auto simp: word_unat_eq_iff)
  then show ?thesis using True u by (simp add: read_li_def li_octets_def get_at_def assms nth_append)
next
  case False
  obtain a b where ab: "to_be 2 (of_nat n :: u16) = [a, b]" "from_be [a, b] = (of_nat n :: u16)" by (rule to_be_2_octets)
  have "unat (of_nat n :: u16) = n" using assms by (subst unat_of_nat) simp
  then show ?thesis using False ab by (simp add: read_li_def li_octets_def get_at_def assms nth_append)
qed

lemma for_each_step:
  assumes "length v < 2 ^ 16" "at = length pre"
  shows "for_each_parameter f (pre @ param_octets code v @ rest) g at s =
    rbind (if code = PGI_CONNECT_ACCEPT \<and> g > 0 then for_each_parameter f v (g - 1) 0 s else Inr (f code v s))
      (\<lambda>s. for_each_parameter f (pre @ param_octets code v @ rest) g (at + length (param_octets code v)) s)"
proof -
  let ?b = "pre @ param_octets code v @ rest" and ?l = "length (li_octets (length v))"
  have b: "?b = (pre @ [code]) @ li_octets (length v) @ (v @ rest)" by (simp add: param_octets_def)
  have g: "get_at ?b at = Some code" "at < length ?b" by (simp_all add: param_octets_def get_at_def assms nth_append)
  have li: "read_li ?b (at + 1) = Inr (length v, at + 1 + ?l)"
    unfolding b using assms by (subst read_li_octets) simp_all
  have sl: "slice ?b (at + 1 + ?l) (at + 1 + ?l + length v) = Some v"
    by (simp add: slice_def param_octets_def assms)
  have p: "at + 1 + ?l + length v = at + length (param_octets code v)" by (simp add: param_octets_def)
  show ?thesis
    by (subst for_each_parameter.simps) (simp only: g li sl [unfolded p] if_True ok_or_simps rbind.simps prod.case p)
qed

abbreviation params_octets :: "(u8 \<times> bytes) list \<Rightarrow> bytes" where
  "params_octets ps \<equiv> concat (map (\<lambda>(code, v). param_octets code v) ps)"

lemma for_each_flat:
  assumes "\<forall>(code, v) \<in> set ps. length v < 2 ^ 16 \<and> (code \<noteq> PGI_CONNECT_ACCEPT \<or> g = 0)"
  shows "for_each_parameter f (pre @ params_octets ps) g (length pre) s = Inr (fold (\<lambda>(code, v). f code v) ps s)"
  using assms
proof (induction ps arbitrary: pre s)
  case Nil
  then show ?case by (simp add: for_each_parameter.simps)
next
  case (Cons cv ps)
  obtain code v where cv: "cv = (code, v)" by (cases cv)
  have v: "length v < 2 ^ 16" and c: "\<not> (code = PGI_CONNECT_ACCEPT \<and> g > 0)" using Cons.prems by (auto simp: cv)
  have "for_each_parameter f (pre @ params_octets (cv # ps)) g (length pre) s
      = for_each_parameter f ((pre @ param_octets code v) @ params_octets ps) g (length (pre @ param_octets code v)) (f code v s)"
    using for_each_step [OF v refl, of f pre code "params_octets ps" g s] by (simp add: cv if_not_P [OF c])
  then show ?case using Cons.IH [of "pre @ param_octets code v" "f code v s"] Cons.prems by (simp add: cv)
qed

text \<open>The Connect/Accept item, and the flat parameters after it.\<close>

lemma for_each_grouped:
  assumes "\<forall>(code, v) \<in> set inner. length v < 2 ^ 16"
    and "\<forall>(code, v) \<in> set ps. length v < 2 ^ 16 \<and> code \<noteq> PGI_CONNECT_ACCEPT"
    and "length (params_octets inner) < 2 ^ 16"
  shows "for_each_parameter f (param_octets PGI_CONNECT_ACCEPT (params_octets inner) @ params_octets ps) 1 0 s =
    Inr (fold (\<lambda>(code, v). f code v) (inner @ ps) s)"
proof -
  have "for_each_parameter f (params_octets inner) 0 0 s = Inr (fold (\<lambda>(code, v). f code v) inner s)"
    using for_each_flat [of inner 0 f "[]" s] assms(1) by auto
  then show ?thesis
    using for_each_step [OF assms(3), of 0 "[]" f PGI_CONNECT_ACCEPT "params_octets ps" 1 s]
      for_each_flat [of ps 1 f "param_octets PGI_CONNECT_ACCEPT (params_octets inner)"] assms(2) by auto
qed

definition spdu_known :: "u8 \<Rightarrow> bytes \<Rightarrow> bool" where
  "spdu_known si body \<longleftrightarrow> (si = SI_GIVE_TOKENS \<and> body = []) \<or>
     si \<in> {SI_CONNECT, SI_ACCEPT, SI_REFUSE, SI_FINISH, SI_DISCONNECT, SI_ABORT, SI_ABORT_ACCEPT}"

text \<open>What the parser does with an SI, a length and the body it announces.\<close>

lemma spdu_parse_body:
  assumes "length body < 2 ^ 16"
  shows "spdu_parse (param_octets si body) =
    (if si = SI_GIVE_TOKENS \<and> body = [] then Inl (Decode MissingField (1 + length (li_octets (length body))))
     else if si = SI_CONNECT \<or> si = SI_ACCEPT then
       rbind (for_each_parameter connect_param body 1 0 (session_connect_default, [])) (\<lambda>(c, user_data).
       let c = c\<lparr> sc_user_data := user_data \<rparr>
       in Inr (if si = SI_CONNECT then SpduConnect c else SpduAccept c))
     else if si = SI_REFUSE then
       rbind (for_each_parameter refuse_param body 1 0 (None, [])) (\<lambda>(reason, user_data).
       Inr (SpduRefuse reason user_data))
     else if si = SI_FINISH \<or> si = SI_DISCONNECT \<or> si = SI_ABORT then
       rbind (for_each_parameter user_data_param body 1 0 []) (\<lambda>user_data.
       Inr (if si = SI_FINISH then SpduFinish user_data
            else if si = SI_DISCONNECT then SpduDisconnect user_data else SpduAbort user_data))
     else if si = SI_ABORT_ACCEPT then Inr SpduAbortAccept
     else Inr (SpduOther si body))"
proof -
  let ?b = "param_octets si body" and ?l = "length (li_octets (length body))"
  have b: "?b = [si] @ li_octets (length body) @ body" by (simp add: param_octets_def)
  have g: "get_at ?b 0 = Some si" by (simp add: param_octets_def get_at_def)
  have li: "read_li ?b 1 = Inr (length body, 1 + ?l)"
    unfolding b using read_li_octets [OF assms, of 1 "[si]" body] by simp
  have sl: "slice ?b (1 + ?l) (1 + ?l + length body) = Some body"
    by (simp add: slice_def param_octets_def)
  have sf: "slice_from ?b (1 + ?l + length body) = Some []"
    by (simp add: slice_from_def param_octets_def)
  have len: "length body = 0 \<longleftrightarrow> body = []" by simp
  show ?thesis
  proof (cases "si = SI_GIVE_TOKENS \<and> body = []")
    case True
    then show ?thesis
      by (simp add: spdu_parse_def param_octets_def li_octets_def read_li_def get_at_def slice_def slice_from_def session_codes)
  next
    case False
    show ?thesis
      unfolding spdu_parse_def
      by (simp only: g li sl sf ok_or_simps rbind.simps prod.case option.case Let_def PARAMETER_GROUPS_def len False if_False)
  qed
qed

lemma write_body_ok:
  assumes "write_body si build [] = (Inr (), bs)"
  obtains body where "build [] = (Inr (), body)" "length body < 2 ^ 16" "bs = param_octets si body"
proof -
  obtain body where b: "build [] = (Inr (), body)"
    using assms by (cases "build []"; cases "fst (build [])") (auto simp: write_body_def)
  then show thesis
    using assms that by (auto simp: write_body_def write_param split: if_splits)
qed

lemma write_user_data_ok:
  "write_user_data u out = (Inr (), out') \<Longrightarrow>
    length u \<le> 512 \<and> out' = out @ params_octets (if u = [] then [] else [(PI_USER_DATA, u)])"
  by (auto simp: write_user_data_def MAX_USER_DATA_def write_param split: if_splits)

definition opt_param :: "u8 \<Rightarrow> bytes option \<Rightarrow> (u8 \<times> bytes) list" where
  "opt_param code v = (case v of None \<Rightarrow> [] | Some x \<Rightarrow> [(code, x)])"

lemma write_ssel_ok:
  "write_ssel (code, v) out = (Inr (), out') \<Longrightarrow>
    out' = out @ params_octets (opt_param code v) \<and> (\<forall>x. v = Some x \<longrightarrow> length x < 2 ^ 16)"
  by (auto simp: write_ssel_def opt_param_def write_param split: option.splits if_splits)

lemma write_connect_body_ok:
  assumes "write_connect_body si c [] = (Inr (), body)"
  shows "\<exists>ud. body = param_octets PGI_CONNECT_ACCEPT (params_octets [(PI_PROTOCOL_OPTIONS, [sc_protocol_options c]), (PI_VERSION_NUMBER, [sc_version c])]) @
      params_octets ((PI_SESSION_REQUIREMENT, to_be 2 (sc_requirements c)) # opt_param PI_CALLING_SSEL (sc_calling_ssel c) @
        opt_param PI_CALLED_SSEL (sc_called_ssel c) @ (if sc_user_data c = [] then [] else [(ud, sc_user_data c)])) \<and>
    ud \<in> {PI_USER_DATA, PI_EXTENDED_USER_DATA} \<and> length (sc_user_data c) < 2 ^ 16 \<and>
    (\<forall>x. sc_calling_ssel c = Some x \<longrightarrow> length x < 2 ^ 16) \<and> (\<forall>x. sc_called_ssel c = Some x \<longrightarrow> length x < 2 ^ 16)"
proof -
  define hd where "hd = param_octets PGI_CONNECT_ACCEPT (params_octets [(PI_PROTOCOL_OPTIONS, [sc_protocol_options c]), (PI_VERSION_NUMBER, [sc_version c])]) @
      params_octets [(PI_SESSION_REQUIREMENT, to_be 2 (sc_requirements c))]"
  have h: "[PGI_CONNECT_ACCEPT, 6] @ [PI_PROTOCOL_OPTIONS, 1, sc_protocol_options c] @
              [PI_VERSION_NUMBER, 1, sc_version c] @ [PI_SESSION_REQUIREMENT, 2] @ to_be 2 (sc_requirements c) = hd"
    by (simp add: hd_def param_octets_def li_octets_def)
  obtain o1 o2 where o1: "write_ssel (PI_CALLING_SSEL, sc_calling_ssel c) hd = (Inr (), o1)"
    and o2: "write_ssel (PI_CALLED_SSEL, sc_called_ssel c) o1 = (Inr (), o2)"
    and rest: "(if sc_user_data c = [] then sreturn ()
     else let extended = length (sc_user_data c) > MAX_USER_DATA in
       if extended \<and> si \<noteq> SI_CONNECT then
         sfail (Encode ''an ACCEPT SPDU carries at most 512 octets of user data'')
       else if length (sc_user_data c) > MAX_EXTENDED_USER_DATA then
         sfail (Encode ''session user data above 10240 octets needs a CONNECT DATA OVERFLOW SPDU'')
       else sbind (enc_raw [if extended then PI_EXTENDED_USER_DATA else PI_USER_DATA]) (\<lambda>_.
         sbind (write_li (length (sc_user_data c))) (\<lambda>_. enc_raw (sc_user_data c)))) o2 = (Inr (), body)"
    using assms unfolding write_connect_body_def h
    by (auto simp: sbind_Inr_iff enc_raw_def)
  have "\<exists>ud. body = o2 @ params_octets (if sc_user_data c = [] then [] else [(ud, sc_user_data c)]) \<and>
      ud \<in> {PI_USER_DATA, PI_EXTENDED_USER_DATA} \<and> length (sc_user_data c) < 2 ^ 16"
    using rest by (auto simp: write_param Let_def split: if_splits)
  then show ?thesis
    using write_ssel_ok [OF o1] write_ssel_ok [OF o2] by (auto simp: hd_def)
qed

lemma be_u16_to_be [simp]: "be_u16 (to_be 2 w) = w"
  by (rule to_be_2_octets [of w]) (simp add: be_u16_def)

lemma connect_params_fold:
  assumes "ud \<in> {PI_USER_DATA, PI_EXTENDED_USER_DATA}"
  shows "fold (\<lambda>(code, v). connect_param code v)
     ([(PI_PROTOCOL_OPTIONS, [sc_protocol_options c]), (PI_VERSION_NUMBER, [sc_version c])] @
      (PI_SESSION_REQUIREMENT, to_be 2 (sc_requirements c)) # opt_param PI_CALLING_SSEL (sc_calling_ssel c) @
        opt_param PI_CALLED_SSEL (sc_called_ssel c) @ (if sc_user_data c = [] then [] else [(ud, sc_user_data c)]))
     (session_connect_default, []) = (c\<lparr> sc_user_data := [] \<rparr>, sc_user_data c)"
  using assms
  by (cases c; cases "sc_calling_ssel c"; cases "sc_called_ssel c")
    (auto simp: connect_param_def session_codes opt_param_def get_at_def unwrap_or_def session_connect_default_def)

lemma user_data_round:
  assumes "write_user_data u [] = (Inr (), body)"
  shows "for_each_parameter user_data_param body 1 0 [] = Inr u"
  using write_user_data_ok [OF assms]
    for_each_flat [of "if u = [] then [] else [(PI_USER_DATA, u)]" 1 user_data_param "[]" "[]"]
  by (auto simp: user_data_param_def session_codes split: if_splits)

lemma connect_body_round:
  assumes "write_connect_body si c [] = (Inr (), body)"
  shows "for_each_parameter connect_param body 1 0 (session_connect_default, []) = Inr (c\<lparr> sc_user_data := [] \<rparr>, sc_user_data c)"
proof -
  obtain ud where ud: "body = param_octets PGI_CONNECT_ACCEPT (params_octets [(PI_PROTOCOL_OPTIONS, [sc_protocol_options c]), (PI_VERSION_NUMBER, [sc_version c])]) @
      params_octets ((PI_SESSION_REQUIREMENT, to_be 2 (sc_requirements c)) # opt_param PI_CALLING_SSEL (sc_calling_ssel c) @
        opt_param PI_CALLED_SSEL (sc_called_ssel c) @ (if sc_user_data c = [] then [] else [(ud, sc_user_data c)]))"
    "ud \<in> {PI_USER_DATA, PI_EXTENDED_USER_DATA}" "length (sc_user_data c) < 2 ^ 16"
    "\<forall>x. sc_calling_ssel c = Some x \<longrightarrow> length x < 2 ^ 16" "\<forall>x. sc_called_ssel c = Some x \<longrightarrow> length x < 2 ^ 16"
    using write_connect_body_ok [OF assms] by blast
  have "for_each_parameter connect_param body 1 0 (session_connect_default, []) = Inr (fold (\<lambda>(code, v). connect_param code v)
     ([(PI_PROTOCOL_OPTIONS, [sc_protocol_options c]), (PI_VERSION_NUMBER, [sc_version c])] @
      (PI_SESSION_REQUIREMENT, to_be 2 (sc_requirements c)) # opt_param PI_CALLING_SSEL (sc_calling_ssel c) @
        opt_param PI_CALLED_SSEL (sc_called_ssel c) @ (if sc_user_data c = [] then [] else [(ud, sc_user_data c)]))
     (session_connect_default, []))"
    unfolding ud(1) using ud(2-5)
    by (intro for_each_grouped) (auto simp: opt_param_def session_codes param_octets_def li_octets_def split: option.splits)
  then show ?thesis using connect_params_fold [OF ud(2), of c] by (simp only:)
qed

text \<open>
  Every SPDU the writer accepts parses back to itself, with the parameters of the
  Connect/Accept item, both forms of length indicator and both user data parameters; an \<open>Other\<close> SPDU
  must not carry an SI (or a token pair) the parser knows.
\<close>

theorem spdu_roundtrip:
  assumes "spdu_write t [] = (Inr (), bs)"
    and "\<forall>si body. t = SpduOther si body \<longrightarrow> \<not> spdu_known si body"
  shows "spdu_parse bs = Inr t"
proof (cases t)
  case (SpduConnect c)
  obtain body where "write_connect_body SI_CONNECT c [] = (Inr (), body)" "length body < 2 ^ 16" "bs = param_octets SI_CONNECT body"
    using assms(1) by (auto simp: SpduConnect spdu_write_def elim: write_body_ok)
  then show ?thesis using connect_body_round [of SI_CONNECT c body] by (simp add: spdu_parse_body SpduConnect session_codes)
next
  case (SpduAccept c)
  obtain body where "write_connect_body SI_ACCEPT c [] = (Inr (), body)" "length body < 2 ^ 16" "bs = param_octets SI_ACCEPT body"
    using assms(1) by (auto simp: SpduAccept spdu_write_def elim: write_body_ok)
  then show ?thesis using connect_body_round [of SI_ACCEPT c body] by (simp add: spdu_parse_body SpduAccept session_codes)
next
  case (SpduDataTransfer payload)
  then show ?thesis
    using assms(1)
    by (auto simp: spdu_write_def enc_raw_def spdu_parse_def read_li_def get_at_def slice_def slice_from_def session_codes)
next
  case SpduAbortAccept
  then have "bs = param_octets SI_ABORT_ACCEPT []"
    using assms(1) by (simp add: spdu_write_def enc_raw_def param_octets_def li_octets_def)
  then show ?thesis by (simp add: spdu_parse_body SpduAbortAccept session_codes)
next
  case (SpduOther si body)
  then have "bs = param_octets si body" "length body < 2 ^ 16"
    using assms(1) by (auto simp: spdu_write_def write_param split: if_splits)
  then show ?thesis using assms(2) by (simp add: spdu_parse_body SpduOther spdu_known_def)
next
  case (SpduRefuse reason u)
  obtain body where body: "sbind (case reason of Some r \<Rightarrow> enc_raw [PI_REASON_CODE, 1, r] | None \<Rightarrow> sreturn ()) (\<lambda>_. write_user_data u) [] = (Inr (), body)"
      "length body < 2 ^ 16" "bs = param_octets SI_REFUSE body"
    using assms(1) by (auto simp: SpduRefuse spdu_write_def elim: write_body_ok)
  have "length u \<le> 512 \<and> body = params_octets (opt_param PI_REASON_CODE (map_option (\<lambda>r. [r]) reason) @ (if u = [] then [] else [(PI_USER_DATA, u)]))"
    using body(1) by (cases reason) (auto simp: sbind_Inr_iff enc_raw_def opt_param_def param_octets_def li_octets_def
        dest!: write_user_data_ok)
  then show ?thesis
    using body(2,3) for_each_flat [of "opt_param PI_REASON_CODE (map_option (\<lambda>r. [r]) reason) @ (if u = [] then [] else [(PI_USER_DATA, u)])" 1 refuse_param "[]" "(None, [])"]
    by (cases reason) (auto simp: spdu_parse_body SpduRefuse session_codes opt_param_def refuse_param_def get_at_def)
next
  case (SpduFinish u)
  obtain body where body: "write_user_data u [] = (Inr (), body)" "length body < 2 ^ 16" "bs = param_octets SI_FINISH body"
    using assms(1) by (auto simp: SpduFinish spdu_write_def elim: write_body_ok)
  show ?thesis
    using body(2,3) user_data_round [OF body(1)] by (simp add: spdu_parse_body SpduFinish session_codes)
next
  case (SpduDisconnect u)
  obtain body where body: "write_user_data u [] = (Inr (), body)" "length body < 2 ^ 16" "bs = param_octets SI_DISCONNECT body"
    using assms(1) by (auto simp: SpduDisconnect spdu_write_def elim: write_body_ok)
  show ?thesis
    using body(2,3) user_data_round [OF body(1)] by (simp add: spdu_parse_body SpduDisconnect session_codes)
next
  case (SpduAbort u)
  obtain body where body: "write_user_data u [] = (Inr (), body)" "length body < 2 ^ 16" "bs = param_octets SI_ABORT body"
    using assms(1) by (auto simp: SpduAbort spdu_write_def elim: write_body_ok)
  show ?thesis
    using body(2,3) user_data_round [OF body(1)] by (simp add: spdu_parse_body SpduAbort session_codes)
qed

text \<open>A witness: a REFUSE with a reason code and user data.\<close>

theorem spdu_roundtrip_witness:
  "spdu_parse [12, 7, 50, 1, 2, 193, 2, 0xAA, 0xBB] = Inr (SpduRefuse (Some 2) [0xAA, 0xBB])"
  by (rule spdu_roundtrip)
    (simp_all add: spdu_write_def write_body_def sbind_def enc_raw_def write_user_data_def write_li_def
      MAX_USER_DATA_def session_codes)

end
