(* ===== verification/Goose_Apdu.thy ===== *)
theory Goose_Apdu
  imports Data
begin

text \<open>
  The \<open>goosePdu\<close> (\<open>src/proto/goose/apdu.rs\<close>): the zero-copy view with its optional and defaulted
  fields, the owned form, and the one encoder both the owned form and the publisher go through.
\<close>

definition TAG_GOOSE_PDU :: tag where
  "TAG_GOOSE_PDU = tag_application_constructed 1"

record goose_view =
  gv_gocb_ref :: string
  gv_time_allowed_to_live :: u32
  gv_dat_set :: string
  gv_go_id :: "string option"
  gv_t :: utc_time
  gv_st_num :: u32
  gv_sq_num :: u32
  gv_simulation :: bool
  gv_conf_rev :: u32
  gv_nds_com :: bool
  gv_num_dat_set_entries :: u32
  gv_all_data :: tlv
  gv_security :: "bytes option"
  gv_raw :: bytes

definition goose_security :: "bytes option rd" where
  "goose_security = sbind (next_if_tag (tag_context_constructed 12)) (\<lambda>x. case x of
     Some t \<Rightarrow> sreturn (Some (tlv_value t))
   | None \<Rightarrow> sbind (next_if_tag (tag_context 12)) (\<lambda>x. sreturn (map_option tlv_value x)))"

definition goose_fields :: "bytes \<Rightarrow> goose_view rd" where
  "goose_fields raw =
     sbind (field (tag_context 0) visible_string) (\<lambda>gocb_ref.
     sbind (field (tag_context 1) unsigned_lenient_u32) (\<lambda>time_allowed_to_live.
     sbind (field (tag_context 2) visible_string) (\<lambda>dat_set.
     sbind (opt_field (tag_context 3) visible_string) (\<lambda>go_id.
     sbind (field (tag_context 4) tlv_utc_time) (\<lambda>t.
     sbind (field (tag_context 5) unsigned_lenient_u32) (\<lambda>st_num.
     sbind (field (tag_context 6) unsigned_lenient_u32) (\<lambda>sq_num.
     sbind (opt_field (tag_context 7) boolean) (\<lambda>simulation.
     sbind (field (tag_context 8) unsigned_lenient_u32) (\<lambda>conf_rev.
     sbind (opt_field (tag_context 9) boolean) (\<lambda>nds_com.
     sbind (field (tag_context 10) unsigned_lenient_u32) (\<lambda>num_dat_set_entries.
     sbind (next_tag (tag_context_constructed 11)) (\<lambda>all_data.
     sbind goose_security (\<lambda>security.
     sbind (\<lambda>c. (cur_finish c, c)) (\<lambda>_.
     sreturn \<lparr> gv_gocb_ref = gocb_ref, gv_time_allowed_to_live = time_allowed_to_live, gv_dat_set = dat_set,
       gv_go_id = go_id, gv_t = t, gv_st_num = st_num, gv_sq_num = sq_num,
       gv_simulation = default_to False simulation, gv_conf_rev = conf_rev,
       gv_nds_com = default_to False nds_com, gv_num_dat_set_entries = num_dat_set_entries,
       gv_all_data = all_data, gv_security = security, gv_raw = raw \<rparr>))))))))))))))"

definition goose_parse :: "bytes \<Rightarrow> goose_view result" where
  "goose_parse apdu =
     rbind (fst (next_tag TAG_GOOSE_PDU (cursor_new apdu))) (\<lambda>pdu.
       fst (goose_fields (case slice apdu 0 (total_len pdu) of Some r \<Rightarrow> r | None \<Rightarrow> apdu) (children pdu)))"

definition all_data_bytes :: "goose_view \<Rightarrow> bytes" where
  "all_data_bytes v = tlv_value (gv_all_data v)"

definition all_data_owned :: "goose_view \<Rightarrow> limits \<Rightarrow> data_value list result" where
  "all_data_owned v l = data_collect (children (gv_all_data v)) l"

function count_members :: "cursor \<Rightarrow> usize \<Rightarrow> usize option" where
  "count_members c n = (case cur_next c of
     (None, _) \<Rightarrow> Some n
   | (Some (Inl _), _) \<Rightarrow> None
   | (Some (Inr _), c') \<Rightarrow> count_members c' (n + 1))"
  by pat_completeness auto
termination by (relation "measure (cur_left \<circ> fst)") (auto dest: cur_next_measure)

declare count_members.simps [simp del]

definition member_count :: "goose_view \<Rightarrow> usize option" where
  "member_count v = count_members (children (gv_all_data v)) 0"

definition member_count_matches :: "goose_view \<Rightarrow> bool" where
  "member_count_matches v \<longleftrightarrow> member_count v = Some (unat (gv_num_dat_set_entries v))"

record goose_pdu =
  gp_gocb_ref :: string
  gp_time_allowed_to_live :: u32
  gp_dat_set :: string
  gp_go_id :: "string option"
  gp_t :: utc_time
  gp_st_num :: u32
  gp_sq_num :: u32
  gp_simulation :: bool
  gp_conf_rev :: u32
  gp_nds_com :: bool
  gp_all_data :: "data_value list"

record goose_header =
  gh_gocb_ref :: string
  gh_time_allowed_to_live :: u32
  gh_dat_set :: string
  gh_go_id :: "string option"
  gh_t :: utc_time
  gh_st_num :: u32
  gh_sq_num :: u32
  gh_simulation :: bool
  gh_conf_rev :: u32
  gh_nds_com :: bool
  gh_num_dat_set_entries :: u32

definition goose_encode_into :: "goose_header \<Rightarrow> bytes \<Rightarrow> enc" where
  "goose_encode_into h all_data_body =
     constructed TAG_GOOSE_PDU (
       sbind (enc_visible_string (tag_context 0) (gh_gocb_ref h)) (\<lambda>_.
       sbind (enc_unsigned (tag_context 1) (ucast (gh_time_allowed_to_live h))) (\<lambda>_.
       sbind (enc_visible_string (tag_context 2) (gh_dat_set h)) (\<lambda>_.
       sbind (case gh_go_id h of Some goid \<Rightarrow> enc_visible_string (tag_context 3) goid | None \<Rightarrow> sreturn ()) (\<lambda>_.
       sbind (enc_utc_time (tag_context 4) (gh_t h)) (\<lambda>_.
       sbind (enc_unsigned (tag_context 5) (ucast (gh_st_num h))) (\<lambda>_.
       sbind (enc_unsigned (tag_context 6) (ucast (gh_sq_num h))) (\<lambda>_.
       sbind (enc_boolean (tag_context 7) (gh_simulation h)) (\<lambda>_.
       sbind (enc_unsigned (tag_context 8) (ucast (gh_conf_rev h))) (\<lambda>_.
       sbind (enc_boolean (tag_context 9) (gh_nds_com h)) (\<lambda>_.
       sbind (enc_unsigned (tag_context 10) (ucast (gh_num_dat_set_entries h))) (\<lambda>_.
       constructed (tag_context_constructed 11) (enc_raw all_data_body)))))))))))))"

definition goose_pdu_header :: "goose_pdu \<Rightarrow> goose_header" where
  "goose_pdu_header p = \<lparr> gh_gocb_ref = gp_gocb_ref p, gh_time_allowed_to_live = gp_time_allowed_to_live p,
     gh_dat_set = gp_dat_set p, gh_go_id = gp_go_id p, gh_t = gp_t p, gh_st_num = gp_st_num p,
     gh_sq_num = gp_sq_num p, gh_simulation = gp_simulation p, gh_conf_rev = gp_conf_rev p,
     gh_nds_com = gp_nds_com p, gh_num_dat_set_entries = of_nat (length (gp_all_data p)) \<rparr>"

definition goose_pdu_encode :: "goose_pdu \<Rightarrow> bytes result" where
  "goose_pdu_encode p = rbind (encode_all (gp_all_data p)) (\<lambda>body.
     case goose_encode_into (goose_pdu_header p) body [] of (Inl e, _) \<Rightarrow> Inl e | (Inr _, e) \<Rightarrow> Inr e)"

definition goose_pdu_from_view :: "goose_view \<Rightarrow> limits \<Rightarrow> goose_pdu result" where
  "goose_pdu_from_view v l = rbind (all_data_owned v l) (\<lambda>all_data.
     Inr \<lparr> gp_gocb_ref = gv_gocb_ref v, gp_time_allowed_to_live = gv_time_allowed_to_live v,
       gp_dat_set = gv_dat_set v, gp_go_id = gv_go_id v, gp_t = gv_t v, gp_st_num = gv_st_num v,
       gp_sq_num = gv_sq_num v, gp_simulation = gv_simulation v, gp_conf_rev = gv_conf_rev v,
       gp_nds_com = gv_nds_com v, gp_all_data = all_data \<rparr>)"

section \<open>The encoder and the parser agree\<close>

definition goose_contents :: "goose_header \<Rightarrow> bytes \<Rightarrow> bytes" where
  "goose_contents h body =
     element (tag_context 0) (as_bytes (gh_gocb_ref h)) @
     element (tag_context 1) (unsigned_octets (ucast (gh_time_allowed_to_live h))) @
     element (tag_context 2) (as_bytes (gh_dat_set h)) @
     (case gh_go_id h of Some goid \<Rightarrow> element (tag_context 3) (as_bytes goid) | None \<Rightarrow> []) @
     element (tag_context 4) (utc_to_octets (gh_t h)) @
     element (tag_context 5) (unsigned_octets (ucast (gh_st_num h))) @
     element (tag_context 6) (unsigned_octets (ucast (gh_sq_num h))) @
     element (tag_context 7) (bool_octets (gh_simulation h)) @
     element (tag_context 8) (unsigned_octets (ucast (gh_conf_rev h))) @
     element (tag_context 9) (bool_octets (gh_nds_com h)) @
     element (tag_context 10) (unsigned_octets (ucast (gh_num_dat_set_entries h))) @
     element (tag_context_constructed 11) body"

definition goose_octets :: "goose_header \<Rightarrow> bytes \<Rightarrow> bytes" where
  "goose_octets h body = element TAG_GOOSE_PDU (goose_contents h body)"

definition goose_header_ok :: "goose_header \<Rightarrow> bytes \<Rightarrow> bool" where
  "goose_header_ok h body \<longleftrightarrow> ascii_str (gh_gocb_ref h) \<and> ascii_str (gh_dat_set h) \<and>
     (\<forall>goid. gh_go_id h = Some goid \<longrightarrow> ascii_str goid) \<and> utc_wf (gh_t h) \<and> fits (goose_contents h body)"

lemma goose_fits:
  assumes "fits (goose_contents h body)"
  shows "length (gh_gocb_ref h) < 4294967296" "length (gh_dat_set h) < 4294967296"
    "gh_go_id h = Some goid \<Longrightarrow> length goid < 4294967296" "fits body"
  using assms by (auto simp: goose_contents_def element_def)

lemma emits_goose:
  assumes "ascii_str (gh_gocb_ref h)" "ascii_str (gh_dat_set h)" "\<forall>goid. gh_go_id h = Some goid \<longrightarrow> ascii_str goid"
    "fits (goose_contents h body)"
  shows "emits (goose_encode_into h body) (goose_octets h body)"
proof -
  have "emits (case gh_go_id h of Some goid \<Rightarrow> enc_visible_string (tag_context 3) goid | None \<Rightarrow> sreturn ())
      (case gh_go_id h of Some goid \<Rightarrow> element (tag_context 3) (as_bytes goid) | None \<Rightarrow> [])"
    using assms(3) goose_fits(3) [OF assms(4)]
    by (auto split: option.split intro: visible_field.put_emits emits_return)
  moreover have "emits (enc_utc_time (tag_context 4) (gh_t h)) (element (tag_context 4) (utc_to_octets (gh_t h)))"
    unfolding enc_utc_time_def by (rule emits_primitive) simp
  ultimately show ?thesis
    using assms goose_fits [OF assms(4)] unfolding goose_encode_into_def goose_octets_def
    by (intro emits_constructed)
      (auto simp: goose_contents_def intro!: emits_bind visible_field.put_emits unsigned_field.put_emits
        boolean_field.put_emits emits_constructed emits_enc_raw)
qed

definition goose_view_of :: "goose_header \<Rightarrow> bytes \<Rightarrow> tlv \<Rightarrow> bytes \<Rightarrow> goose_view" where
  "goose_view_of h body all_data raw = \<lparr> gv_gocb_ref = gh_gocb_ref h,
     gv_time_allowed_to_live = gh_time_allowed_to_live h, gv_dat_set = gh_dat_set h, gv_go_id = gh_go_id h,
     gv_t = gh_t h, gv_st_num = gh_st_num h, gv_sq_num = gh_sq_num h, gv_simulation = gh_simulation h,
     gv_conf_rev = gh_conf_rev h, gv_nds_com = gh_nds_com h, gv_num_dat_set_entries = gh_num_dat_set_entries h,
     gv_all_data = all_data, gv_security = None, gv_raw = raw \<rparr>"

lemma goose_security_end: "goose_security (cur_at pre [] base) = (Inr None, cur_at pre [] base)"
  by (simp add: goose_security_def sbind_def)

lemma goose_fields_contents:
  assumes "goose_header_ok h body"
  shows "\<exists>all_data. tlv_value all_data = body \<and>
    fst (goose_fields raw (cur_at [] (goose_contents h body) base)) = Inr (goose_view_of h body all_data raw)"
proof -
  note ok = assms [unfolded goose_header_ok_def]
  have fit: "length (gh_gocb_ref h) < 4294967296" "length (gh_dat_set h) < 4294967296" "fits body"
    using ok goose_fits by blast+
  note get = visible_field.get_mk_tlv lenient_u32_field.get_mk_tlv utc_field.get_mk_tlv boolean_field.get_mk_tlv
  note go = goose_fields_def goose_contents_def sbind_def goose_security_end goose_view_of_def default_to_def
  show ?thesis
  proof (cases "gh_go_id h")
    case None
    then show ?thesis using ok fit by (simp add: go get)
  next
    case (Some goid)
    then have "ascii_str goid" "length goid < 4294967296" using ok goose_fits(3) by blast+
    then show ?thesis using ok fit Some by (simp add: go get)
  qed
qed

lemma goose_parse_octets:
  assumes "goose_header_ok h body"
  shows "\<exists>all_data. tlv_value all_data = body \<and>
    goose_parse (goose_octets h body @ rest) = Inr (goose_view_of h body all_data (goose_octets h body))"
proof -
  let ?o = "goose_octets h body"
  have f: "fits (goose_contents h body)" using assms by (simp add: goose_header_ok_def)
  obtain all_data where "tlv_value all_data = body" and
    a: "fst (goose_fields ?o (children (mk_tlv TAG_GOOSE_PDU (goose_contents h body) 0))) = Inr (goose_view_of h body all_data ?o)"
    using goose_fields_contents [OF assms, of ?o "tlv_value_offset (mk_tlv TAG_GOOSE_PDU (goose_contents h body) 0)"]
    by (auto simp: cur_at_start)
  moreover have "slice (?o @ rest) 0 (total_len (mk_tlv TAG_GOOSE_PDU (goose_contents h body) 0)) = Some ?o"
    by (simp add: total_len_mk_tlv slice_def goose_octets_def)
  ultimately show ?thesis
    using f by (intro exI [of _ all_data]) (simp add: goose_parse_def cur_at_start(1) goose_octets_def)
qed

lemma count_members_values:
  "(\<forall>v \<in> set vs. fits (value_contents v)) \<Longrightarrow> count_members (cur_at pre (values_octets vs) base) n = Some (n + length vs)"
proof (induction vs arbitrary: pre n)
  case Nil
  then show ?case by (subst count_members.simps) simp
next
  case (Cons v vs)
  then show ?case by (subst count_members.simps) simp
qed

lemma values_ok_fits: "values_ok l vs \<Longrightarrow> \<forall>v \<in> set vs. fits (value_contents v)"
  by (auto simp: values_ok_def dest: value_ok_fits)

definition goose_pdu_ok :: "limits \<Rightarrow> goose_pdu \<Rightarrow> bool" where
  "goose_pdu_ok l p \<longleftrightarrow> values_ok l (gp_all_data p) \<and> goose_header_ok (goose_pdu_header p) (values_octets (gp_all_data p))"

lemma goose_pdu_encode_ok: "goose_pdu_ok l p \<Longrightarrow> goose_pdu_encode p = Inr (goose_octets (goose_pdu_header p) (values_octets (gp_all_data p)))"
  using emits_goose [of "goose_pdu_header p" "values_octets (gp_all_data p)"] encode_all_ok [of l "gp_all_data p"]
  by (simp add: goose_pdu_ok_def goose_pdu_encode_def goose_header_ok_def emits_def)

lemma all_data_owned_values:
  "values_ok l vs \<Longrightarrow> tlv_value (gv_all_data v) = values_octets vs \<Longrightarrow> all_data_owned v l = Inr vs"
  using decode_all_octets [of l vs] collect_decodes [of vs l 0 "[]" "[]"] value_decodes
  by (simp add: all_data_owned_def data_collect_def cur_at_start values_ok_def)

text \<open>
  C31: a GOOSE PDU written by the encoder is read back field for field, the data set
  decodes to the values it was encoded from, and the declared member count matches them.
\<close>

theorem goose_pdu_roundtrip:
  assumes "goose_pdu_ok l p" and "max_dataset_members l < 2 ^ 32"
  shows "\<exists>v. rbind (goose_pdu_encode p) goose_parse = Inr v \<and> goose_pdu_from_view v l = Inr p \<and> member_count_matches v"
proof -
  let ?h = "goose_pdu_header p" and ?body = "values_octets (gp_all_data p)"
  have ok: "values_ok l (gp_all_data p)" "goose_header_ok ?h ?body" using assms(1) by (simp_all add: goose_pdu_ok_def)
  obtain d where d: "tlv_value d = ?body" "goose_parse (goose_octets ?h ?body) = Inr (goose_view_of ?h ?body d (goose_octets ?h ?body))"
    using goose_parse_octets [OF ok(2), of "[]"] by auto
  have all: "all_data_owned (goose_view_of ?h ?body d raw) l = Inr (gp_all_data p)" for raw
    using ok(1) d(1) by (intro all_data_owned_values) (simp_all add: goose_view_of_def)
  have "length (gp_all_data p) < 2 ^ 32" using ok(1) assms(2) by (simp add: values_ok_def)
  then have "member_count_matches (goose_view_of ?h ?body d raw)" for raw
    using count_members_values [OF values_ok_fits [OF ok(1)], of "[]" _ 0] d(1)
    by (simp add: member_count_matches_def member_count_def goose_view_of_def cur_at_start goose_pdu_header_def unat_of_nat)
  then show ?thesis
    using d(2) all
    by (intro exI [of _ "goose_view_of ?h ?body d (goose_octets ?h ?body)"])
      (simp add: goose_pdu_encode_ok [OF assms(1)] goose_pdu_from_view_def goose_view_of_def goose_pdu_header_def)
qed

text \<open>A witness: the data set of \<open>sample_values\<close> under a short reference.\<close>

definition sample_pdu :: goose_pdu where
  "sample_pdu = \<lparr> gp_gocb_ref = ''IED1LD0/LLN0$GO$g1'', gp_time_allowed_to_live = 2000, gp_dat_set = ''ds1'',
     gp_go_id = Some ''g1'', gp_t = utc_default, gp_st_num = 1, gp_sq_num = 0, gp_simulation = False,
     gp_conf_rev = 1, gp_nds_com = False, gp_all_data = sample_values \<rparr>"

lemma sample_body_length: "length (values_octets sample_values) \<le> 69"
proof -
  have i: "length (integer_octets (- 2)) \<le> 8" by (rule integer_octets_length)
  have "length (values_octets [Boolean True, BitString 3 [0, 0], Integer (- 2)]) \<le> 12 + (14 + 19)"
    using element_bound [of "bool_octets True" 1 "tag_context BOOLEAN"] element_bound [of "[3, 0, 0]" 3 "tag_context BIT_STRING"]
      element_bound [OF i, of "tag_context INTEGER"] by simp
  then show ?thesis
    using element_bound [of "values_octets [Boolean True, BitString 3 [0, 0], Integer (- 2)]" 45 "tag_context_constructed STRUCTURE"]
      element_bound [of "as_bytes ''ok''" 2 "tag_context VISIBLE_STRING"] by (simp add: sample_values_def)
qed

lemma sample_pdu_ok: "goose_pdu_ok default_limits sample_pdu"
proof -
  let ?h = "goose_pdu_header sample_pdu" and ?b = "values_octets sample_values"
  have body: "length (element (tag_context_constructed 11) ?b) \<le> 80"
    using sample_body_length element_bound [of ?b 69] by simp
  have u: "length (element t (unsigned_octets v)) \<le> 20" for t v
    using element_bound [OF unsigned_octets_length(2), of t v] by simp
  have a: "length (element t (as_bytes s)) \<le> length s + 11" for t s
    using element_bound [of "as_bytes s" "length s" t] by simp
  have b: "length (element t (bool_octets x)) \<le> 12" for t x
    using element_bound [of "bool_octets x" 1 t] by simp
  have c: "length (element t (utc_to_octets z)) \<le> 19" for t z
    using element_bound [of "utc_to_octets z" 8 t] by simp
  have "fits (goose_contents ?h ?b)"
    using body u [of "tag_context 1" "2000"] u [of "tag_context 5" 1] u [of "tag_context 6" 0] u [of "tag_context 8" 1]
      u [of "tag_context 10" 2] a [of "tag_context 0" "''IED1LD0/LLN0$GO$g1''"] a [of "tag_context 2" "''ds1''"]
      a [of "tag_context 3" "''g1''"] b [of "tag_context 7" False] b [of "tag_context 9" False] c [of "tag_context 4" utc_default]
    by (simp add: goose_contents_def goose_pdu_header_def sample_pdu_def sample_values_def)
  then show ?thesis
    using sample_values_ok
    by (simp add: goose_pdu_ok_def goose_header_ok_def goose_pdu_header_def sample_pdu_def utc_default_wf
        is_ascii_def as_bytes_def octet_def)
qed

theorem goose_pdu_roundtrip_witness:
  "\<exists>v. rbind (goose_pdu_encode sample_pdu) goose_parse = Inr v \<and> goose_pdu_from_view v default_limits = Inr sample_pdu \<and>
    member_count_matches v"
  by (rule goose_pdu_roundtrip [OF sample_pdu_ok]) (simp add: default_limits_def)

end
