(* ===== verification/Goose_Publisher.thy ===== *)
theory Goose_Publisher
  imports Goose_Apdu Ethernet Machine
begin

text \<open>
  The GOOSE publisher (\<open>src/proto/goose/publisher.rs\<close>): the retransmission curve, state and sequence
  numbers, and the frame it builds. Buffer capacities have no observable effect and are not part of
  the state; an operation that fails leaves the state it had reached.
\<close>

section \<open>The retransmission curve\<close>

record retransmission =
  rt_min_time_ms :: u32
  rt_max_time_ms :: u32
  rt_tal_factor :: u32

definition RETRANSMISSION_DEFAULT :: retransmission where
  "RETRANSMISSION_DEFAULT = \<lparr> rt_min_time_ms = 4, rt_max_time_ms = 1000, rt_tal_factor = 2 \<rparr>"

definition interval_after :: "retransmission \<Rightarrow> u32 \<Rightarrow> u32" where
  "interval_after r n =
     (let base = (if rt_min_time_ms r = 0 then 1 else rt_min_time_ms r);
          mx = (if rt_max_time_ms r < base then base else rt_max_time_ms r)
      in if n \<le> 1 then base
         else let shift = n - 1 in
           if shift \<ge> 31 then mx
           else let v = push_bit (unat shift) (ucast base :: u64)
                in if v \<ge> ucast mx then mx else ucast v)"

definition tal_after :: "retransmission \<Rightarrow> u32 \<Rightarrow> u32" where
  "tal_after r n = (let factor = (if rt_tal_factor r = 0 then 1 else rt_tal_factor r)
     in sat_mul (interval_after r n) factor)"

section \<open>Configuration and state\<close>

record goose_pub_config =
  pc_header :: frame_header
  pc_gocb_ref :: string
  pc_dat_set :: string
  pc_go_id :: "string option"
  pc_conf_rev :: u32
  pc_retransmission :: retransmission
  pc_simulation :: bool
  pc_nds_com :: bool

definition pub_config_new :: "frame_header \<Rightarrow> string \<Rightarrow> string \<Rightarrow> goose_pub_config" where
  "pub_config_new header gocb_ref dat_set = \<lparr> pc_header = header, pc_gocb_ref = gocb_ref, pc_dat_set = dat_set,
     pc_go_id = None, pc_conf_rev = 1, pc_retransmission = RETRANSMISSION_DEFAULT, pc_simulation = False,
     pc_nds_com = False \<rparr>"

text \<open>The upper bound on the encoded APDU from which the publisher sizes its buffers.\<close>

definition apdu_bound :: "goose_pub_config \<Rightarrow> usize \<Rightarrow> usize" where
  "apdu_bound cfg body_len = 6 * 2 + 3 * 11 + 5 * 5 + (8 + 2) + length (pc_gocb_ref cfg) + length (pc_dat_set cfg) +
     (case pc_go_id cfg of Some s \<Rightarrow> length s | None \<Rightarrow> 0) + body_len"

record goose_publisher =
  pb_cfg :: goose_pub_config
  pb_st_num :: u32
  pb_sq_num :: u32
  pb_t :: utc_time
  pb_simulation :: bool
  pb_sent_in_state :: u32
  pb_body :: encoder
  pb_members :: u32
  pb_scratch :: encoder
  pb_apdu :: encoder
  pb_frame :: bytes
  pb_pending :: bool
  pb_next_send :: "instant option"
  pb_dropped :: u64

definition goose_pub_new :: "goose_pub_config \<Rightarrow> data_value list \<Rightarrow> utc_time \<Rightarrow> goose_publisher result" where
  "goose_pub_new cfg initial_values t =
     (if \<not> ascii_str (pc_gocb_ref cfg) \<or> \<not> ascii_str (pc_dat_set cfg) \<or>
         (case pc_go_id cfg of Some s \<Rightarrow> \<not> ascii_str s | None \<Rightarrow> False)
      then Inl (Encode ''gocbRef, datSet and goID must be ASCII (VisibleString)'')
      else case encode_each initial_values [] of
        (Inl e, _) \<Rightarrow> Inl e
      | (Inr _, body) \<Rightarrow> Inr \<lparr> pb_cfg = cfg, pb_st_num = 1, pb_sq_num = 0, pb_t = t,
          pb_simulation = pc_simulation cfg, pb_sent_in_state = 0, pb_body = body,
          pb_members = of_nat (length initial_values), pb_scratch = [], pb_apdu = [], pb_frame = [],
          pb_pending = False, pb_next_send = Some 0, pb_dropped = 0 \<rparr>)"

definition goose_pub_header :: "goose_publisher \<Rightarrow> goose_header" where
  "goose_pub_header p = \<lparr> gh_gocb_ref = pc_gocb_ref (pb_cfg p),
     gh_time_allowed_to_live = tal_after (pc_retransmission (pb_cfg p)) (pb_sent_in_state p),
     gh_dat_set = pc_dat_set (pb_cfg p), gh_go_id = pc_go_id (pb_cfg p), gh_t = pb_t p,
     gh_st_num = pb_st_num p, gh_sq_num = pb_sq_num p, gh_simulation = pb_simulation p,
     gh_conf_rev = pc_conf_rev (pb_cfg p), gh_nds_com = pc_nds_com (pb_cfg p),
     gh_num_dat_set_entries = pb_members p \<rparr>"

definition goose_pub_link :: "goose_publisher \<Rightarrow> frame_header" where
  "goose_pub_link p = (let link = pc_header (pb_cfg p) in
     link\<lparr> fh_reserved1 := (if pb_simulation p then fh_reserved1 link OR RESERVED1_SIMULATION
                             else fh_reserved1 link AND NOT RESERVED1_SIMULATION) \<rparr>)"

definition goose_pub_build :: "instant \<Rightarrow> goose_publisher \<Rightarrow> unit result \<times> goose_publisher" where
  "goose_pub_build now p =
     (let interval = interval_after (pc_retransmission (pb_cfg p)) (pb_sent_in_state p) in
      case goose_encode_into (goose_pub_header p) (pb_body p) [] of
        (Inl e, apdu) \<Rightarrow> (Inl e, p\<lparr> pb_apdu := apdu \<rparr>)
      | (Inr _, apdu) \<Rightarrow>
          let link = goose_pub_link p;
              frame = replicate (header_len link + length apdu) 0
          in case header_write link apdu frame of
               (Inl e, frame) \<Rightarrow> (Inl e, p\<lparr> pb_apdu := apdu, pb_frame := frame \<rparr>)
             | (Inr _, frame) \<Rightarrow>
                 (Inr (), p\<lparr> pb_apdu := apdu, pb_frame := frame,
                    pb_dropped := (if pb_pending p then sat_add (pb_dropped p) 1 else pb_dropped p),
                    pb_pending := True, pb_sent_in_state := sat_add (pb_sent_in_state p) 1,
                    pb_sq_num := (if pb_sq_num p = 0xFFFFFFFF then 1 else pb_sq_num p + 1),
                    pb_next_send := Some (plus_millis now (ucast interval)) \<rparr>))"

definition advance_state :: "instant \<Rightarrow> utc_time \<Rightarrow> goose_publisher \<Rightarrow> unit result \<times> goose_publisher" where
  "advance_state now t p = goose_pub_build now
     (p\<lparr> pb_t := t, pb_st_num := (if pb_st_num p = 0xFFFFFFFF then 1 else sat_add (pb_st_num p) 1),
        pb_sq_num := 0, pb_sent_in_state := 0 \<rparr>)"

definition goose_publish :: "instant \<Rightarrow> data_value list \<Rightarrow> utc_time \<Rightarrow> goose_publisher \<Rightarrow> unit result \<times> goose_publisher" where
  "goose_publish now values t p = (case encode_each values [] of
     (Inl e, body) \<Rightarrow> (Inl e, p\<lparr> pb_body := body \<rparr>)
   | (Inr _, body) \<Rightarrow> advance_state now t (p\<lparr> pb_body := body, pb_members := of_nat (length values) \<rparr>))"

definition publish_if_changed ::
  "instant \<Rightarrow> data_value list \<Rightarrow> utc_time \<Rightarrow> goose_publisher \<Rightarrow> bool result \<times> goose_publisher" where
  "publish_if_changed now values t p = (case encode_each values [] of
     (Inl e, scratch) \<Rightarrow> (Inl e, p\<lparr> pb_scratch := scratch \<rparr>)
   | (Inr _, scratch) \<Rightarrow>
       if unat (pb_members p) = length values \<and> scratch = pb_body p then (Inr False, p\<lparr> pb_scratch := scratch \<rparr>)
       else case advance_state now t (p\<lparr> pb_body := scratch, pb_scratch := pb_body p, pb_members := of_nat (length values) \<rparr>) of
              (Inl e, p) \<Rightarrow> (Inl e, p)
            | (Inr _, p) \<Rightarrow> (Inr True, p))"

definition goose_pub_on_timeout :: "instant \<Rightarrow> goose_publisher \<Rightarrow> unit result \<times> goose_publisher" where
  "goose_pub_on_timeout now p = (case pb_next_send p of
     Some due \<Rightarrow> if now \<ge> due then goose_pub_build now p else (Inr (), p)
   | None \<Rightarrow> (Inr (), p))"

definition goose_set_simulation :: "bool \<Rightarrow> goose_publisher \<Rightarrow> goose_publisher" where
  "goose_set_simulation on p = p\<lparr> pb_simulation := on \<rparr>"

definition goose_pub_poll_transmit :: "goose_publisher \<Rightarrow> bytes option \<times> goose_publisher" where
  "goose_pub_poll_transmit p = (if pb_pending p then (Some (pb_frame p), p\<lparr> pb_pending := False \<rparr>) else (None, p))"

section \<open>The curve, in the naturals\<close>

definition curve_base :: "retransmission \<Rightarrow> nat" where
  "curve_base r = max 1 (unat (rt_min_time_ms r))"

definition curve_limit :: "retransmission \<Rightarrow> nat" where
  "curve_limit r = max (curve_base r) (unat (rt_max_time_ms r))"

lemma curve_base_pos [simp]: "0 < curve_base r"
  by (simp add: curve_base_def)

lemma base_le_limit [simp]: "curve_base r \<le> curve_limit r"
  by (simp add: curve_limit_def)

lemma unat_curve_base: "unat (if rt_min_time_ms r = 0 then 1 else rt_min_time_ms r) = curve_base r"
proof (cases "rt_min_time_ms r = 0")
  case False
  then have "unat (rt_min_time_ms r) \<noteq> 0" by (simp add: unat_eq_zero)
  with False show ?thesis by (simp add: curve_base_def)
qed (simp add: curve_base_def)

lemma curve_limit_word: "curve_limit r < 2 ^ 32"
  unfolding curve_limit_def curve_base_def using unat_lt_exp [of "rt_min_time_ms r"] unat_lt_exp [of "rt_max_time_ms r"] by simp

lemma shift_fits:
  assumes "b < (2 :: nat) ^ 32" and "k \<le> 30"
  shows "b * 2 ^ k < 2 ^ 64"
proof -
  have "b * 2 ^ k \<le> b * 2 ^ 30" by (intro mult_left_mono power_increasing) (use assms in simp_all)
  also have "\<dots> < 2 ^ 64" using assms(1) by simp
  finally show ?thesis .
qed

lemma unat_shifted:
  assumes "k \<le> 30"
  shows "unat (push_bit k (ucast (b :: u32) :: u64)) = unat b * 2 ^ k"
proof -
  have "unat b * 2 ^ k < 2 ^ 64" by (rule shift_fits) (use assms unat_lt_exp [of b] in simp_all)
  moreover have "unat (push_bit k (ucast b :: u64)) = take_bit 64 (unat b * 2 ^ k)"
    by (subst unsigned_push_bit_eq) (simp only: unat_ucast_up push_bit_eq_mult len_bit0 len_num1, simp add: unat_ucast_up)
  ultimately show ?thesis by (simp add: take_bit_eq_mod)
qed

lemma unat_interval_after:
  "unat (interval_after r n) = (if unat n \<le> 1 then curve_base r
     else if 32 \<le> unat n then curve_limit r else min (curve_base r * 2 ^ (unat n - 1)) (curve_limit r))"
proof -
  define b where "b = (if rt_min_time_ms r = 0 then 1 else rt_min_time_ms r)"
  define mx where "mx = (if rt_max_time_ms r < b then b else rt_max_time_ms r)"
  have b: "unat b = curve_base r" unfolding b_def by (rule unat_curve_base)
  have mx: "unat mx = curve_limit r"
    by (auto simp: mx_def curve_limit_def b [symmetric] word_less_nat_alt)
  have eq: "interval_after r n = (if n \<le> 1 then b else if n - 1 \<ge> 31 then mx
      else if push_bit (unat (n - 1)) (ucast b :: u64) \<ge> ucast mx then mx
      else ucast (push_bit (unat (n - 1)) (ucast b :: u64)))"
    by (simp add: interval_after_def b_def mx_def Let_def)
  show ?thesis
  proof (cases "n \<le> 1")
    case True
    then show ?thesis by (simp add: eq b word_le_nat_alt)
  next
    case False
    then have n: "1 < unat n" by (simp add: word_le_nat_alt)
    then have s: "unat (n - 1) = unat n - 1" by (subst unat_sub) (simp_all add: word_le_nat_alt)
    show ?thesis
    proof (cases "32 \<le> unat n")
      case True
      then have "31 \<le> n - 1" using s by (simp add: word_le_nat_alt)
      with True False n show ?thesis by (simp add: eq mx)
    next
      case lt: False
      have short: "\<not> 31 \<le> n - 1" using lt s by (simp add: word_le_nat_alt)
      have v: "unat (push_bit (unat (n - 1)) (ucast b :: u64)) = curve_base r * 2 ^ (unat n - 1)"
        by (subst unat_shifted) (use lt s in \<open>simp_all add: b\<close>)
      have m: "unat (ucast mx :: u64) = curve_limit r" by (subst unat_ucast_up) (simp_all add: mx)
      show ?thesis
      proof (cases "curve_limit r \<le> curve_base r * 2 ^ (unat n - 1)")
        case True
        then have "ucast mx \<le> push_bit (unat (n - 1)) (ucast b :: u64)" by (simp add: word_le_nat_alt v m)
        with True False lt n short show ?thesis by (simp add: eq mx)
      next
        case small: False
        then have "curve_base r * 2 ^ (unat n - 1) < 2 ^ 32" using curve_limit_word [of r] by linarith
        then have d: "unat (ucast (push_bit (unat (n - 1)) (ucast b :: u64)) :: u32) = curve_base r * 2 ^ (unat n - 1)"
          by (subst unat_ucast_down) (simp add: v)
        have "\<not> (ucast mx :: u64) \<le> push_bit (unat (n - 1)) (ucast b)" using small by (simp add: word_le_nat_alt v m)
        with False lt n short small show ?thesis by (simp add: eq d)
      qed
    qed
  qed
qed

section \<open>The bound on the APDU\<close>


lemma to_be_small_zero: "k \<le> m \<Longrightarrow> unat w < 256 ^ k \<Longrightarrow> i < m - k \<Longrightarrow> to_be m w ! i = 0"
proof -
  assume a: "k \<le> m" "unat w < 256 ^ k" "i < m - k"
  have "8 * k \<le> 8 * (m - 1 - i)" using a by simp
  then have "(256 :: nat) ^ k \<le> 2 ^ (8 * (m - 1 - i))"
    using power_increasing [of "8 * k" "8 * (m - 1 - i)" "2 :: nat"] by (simp add: power_mult)
  then have "unat (drop_bit (8 * (m - 1 - i)) w) = 0" using a by (subst unat_drop_bit) simp
  then have "drop_bit (8 * (m - 1 - i)) w = 0" by (simp only: unat_eq_0)
  moreover have "i < m" using a by simp
  ultimately show ?thesis by (simp only: to_be_nth) simp
qed

lemma length_octets_bound:
  assumes "n < 256 ^ k" "1 \<le> k" "k \<le> 4"
  shows "length (length_octets n) \<le> Suc k"
proof (cases "n < 128")
  case True
  then show ?thesis by (simp add: length_octets_small)
next
  case False
  let ?bs = "to_be 4 (of_nat n :: u32)"
  have "(256 :: nat) ^ k \<le> 256 ^ 4" using assms by (intro power_increasing) simp_all
  then have n: "n < 2 ^ 32" using assms by simp
  then have u: "unat (of_nat n :: u32) = n" by (simp add: unat_of_nat)
  have "\<forall>x \<in> set (take (4 - k) ?bs). x = 0"
    using assms u to_be_small_zero [of k 4 "of_nat n :: u32"] by (auto simp: in_set_conv_nth)
  then have "dropWhile (\<lambda>b. b = 0) (take (4 - k) ?bs @ drop (4 - k) ?bs) = dropWhile (\<lambda>b. b = 0) (drop (4 - k) ?bs)"
    by (subst dropWhile_append2) auto
  then have "length (dropWhile (\<lambda>b. b = 0) ?bs) \<le> k"
    using length_dropWhile_le [of "\<lambda>b. b = 0" "drop (4 - k) ?bs"] assms by simp
  then show ?thesis using False n by (simp add: length_octets_def encode_length_def Let_def)
qed

lemma length_low_element:
  "tag_number t < 31 \<Longrightarrow> length (element t c) = 1 + length (length_octets (length c)) + length c"
  by (simp add: element_def tag_octets_def write_tag_def Let_def not_le)


lemma goose_contents_length:
  assumes "length (gh_gocb_ref h) < 2 ^ 24" "length (gh_dat_set h) < 2 ^ 24"
    "\<forall>goid. gh_go_id h = Some goid \<longrightarrow> length goid < 2 ^ 24"
  shows "length (goose_contents h body) \<le> 72 + length (gh_gocb_ref h) + length (gh_dat_set h) +
    (case gh_go_id h of Some s \<Rightarrow> length s | None \<Rightarrow> 0) + length body"
proof -
  have low: "tag_number (tag_context k) < 31" "tag_number (tag_context_constructed k) < 31" if "k \<le> 12" for k
    using that by (simp_all add: tag_defs word_le_nat_alt word_less_nat_alt)
  have s: "length (element (tag_context k) (as_bytes x)) \<le> 5 + length x" if "k \<le> 12" "length x < 2 ^ 24" for k x
    using length_octets_bound [of "length x" 3] that by (simp add: length_low_element low)
  have u: "length (element (tag_context k) (unsigned_octets (ucast (v :: u32)))) \<le> 7" if "k \<le> 12" for k v
    using length_octets_bound [of "length (unsigned_octets (ucast v))" 1] unsigned_octets_u32 [of v] that
    by (simp add: length_low_element low length_octets_small)
  have b: "length (element (tag_context k) (bool_octets x)) = 3" if "k \<le> 12" for k x
    using that by (simp add: length_low_element low length_octets_small)
  have t: "length (element (tag_context k) (utc_to_octets x)) = 10" if "k \<le> 12" for k x
    using that by (simp add: length_low_element low length_octets_small)
  have d: "length (element (tag_context_constructed 11) body) \<le> 6 + length body"
    using length_length_octets [of "length body"] by (simp add: length_low_element low)
  have g: "length (case gh_go_id h of Some goid \<Rightarrow> element (tag_context 3) (as_bytes goid) | None \<Rightarrow> [])
      \<le> 5 + (case gh_go_id h of Some s \<Rightarrow> length s | None \<Rightarrow> 0)"
    using assms(3) s [of 3] by (auto split: option.split)
  show ?thesis
    using s [of 0 "gh_gocb_ref h"] s [of 2 "gh_dat_set h"] assms(1,2) g d u [of 1 "gh_time_allowed_to_live h"]
      u [of 5 "gh_st_num h"] u [of 6 "gh_sq_num h"] u [of 8 "gh_conf_rev h"] u [of 10 "gh_num_dat_set_entries h"]
    by (simp add: goose_contents_def b t)
qed

section \<open>Building a frame\<close>

text \<open>
  What a publisher must be for its frames to be built: an addressable link header, ASCII references and
  an encoded data set whose frame fits the sixteen-bit length of the link layer.
\<close>

definition pub_ok :: "goose_publisher \<Rightarrow> bool" where
  "pub_ok p \<longleftrightarrow> header_wf (pc_header (pb_cfg p)) \<and> ascii_str (pc_gocb_ref (pb_cfg p)) \<and> ascii_str (pc_dat_set (pb_cfg p)) \<and>
     (\<forall>s. pc_go_id (pb_cfg p) = Some s \<longrightarrow> ascii_str s) \<and> utc_wf (pb_t p) \<and>
     apdu_bound (pb_cfg p) (length (pb_body p)) \<le> 0xFFFF - 8"

definition pub_apdu :: "goose_publisher \<Rightarrow> bytes" where
  "pub_apdu p = goose_octets (goose_pub_header p) (pb_body p)"

definition pub_frame :: "goose_publisher \<Rightarrow> bytes" where
  "pub_frame p = header_octets (goose_pub_link p) (length (pub_apdu p)) @ pub_apdu p"

definition pub_interval :: "goose_publisher \<Rightarrow> u32" where
  "pub_interval p = interval_after (pc_retransmission (pb_cfg p)) (pb_sent_in_state p)"

definition pub_built :: "instant \<Rightarrow> goose_publisher \<Rightarrow> goose_publisher" where
  "pub_built now p = p\<lparr> pb_apdu := pub_apdu p, pb_frame := pub_frame p,
     pb_dropped := (if pb_pending p then sat_add (pb_dropped p) 1 else pb_dropped p), pb_pending := True,
     pb_sent_in_state := sat_add (pb_sent_in_state p) 1,
     pb_sq_num := (if pb_sq_num p = 0xFFFFFFFF then 1 else pb_sq_num p + 1),
     pb_next_send := Some (plus_millis now (ucast (pub_interval p))) \<rparr>"

lemma pub_header_simps [simp]:
  "gh_gocb_ref (goose_pub_header p) = pc_gocb_ref (pb_cfg p)" "gh_dat_set (goose_pub_header p) = pc_dat_set (pb_cfg p)"
  "gh_go_id (goose_pub_header p) = pc_go_id (pb_cfg p)" "gh_t (goose_pub_header p) = pb_t p"
  "gh_st_num (goose_pub_header p) = pb_st_num p" "gh_sq_num (goose_pub_header p) = pb_sq_num p"
  "gh_simulation (goose_pub_header p) = pb_simulation p" "gh_num_dat_set_entries (goose_pub_header p) = pb_members p"
  "gh_time_allowed_to_live (goose_pub_header p) = tal_after (pc_retransmission (pb_cfg p)) (pb_sent_in_state p)"
  by (simp_all add: goose_pub_header_def)

lemma pub_apdu_bound:
  assumes "pub_ok p"
  shows "length (goose_contents (goose_pub_header p) (pb_body p)) \<le> apdu_bound (pb_cfg p) (length (pb_body p)) - 8"
    "length (pub_apdu p) \<le> apdu_bound (pb_cfg p) (length (pb_body p))"
proof -
  show c: "length (goose_contents (goose_pub_header p) (pb_body p)) \<le> apdu_bound (pb_cfg p) (length (pb_body p)) - 8"
    using assms goose_contents_length [of "goose_pub_header p" "pb_body p"]
    by (auto simp: pub_ok_def apdu_bound_def split: option.splits)
  have "tag_number TAG_GOOSE_PDU < 31" by (simp add: TAG_GOOSE_PDU_def tag_defs)
  then show "length (pub_apdu p) \<le> apdu_bound (pb_cfg p) (length (pb_body p))"
    using c length_length_octets [of "length (goose_contents (goose_pub_header p) (pb_body p))"]
    by (simp add: pub_apdu_def goose_octets_def length_low_element apdu_bound_def)
qed

lemma pub_fits: "pub_ok p \<Longrightarrow> fits (goose_contents (goose_pub_header p) (pb_body p))"
  using pub_apdu_bound(1) [of p] by (auto simp: pub_ok_def)

lemma pub_apdu_fits: "pub_ok p \<Longrightarrow> length (pub_apdu p) + 8 \<le> 0xFFFF"
  using pub_apdu_bound(2) [of p] by (auto simp: pub_ok_def)

lemma pub_link_wf: "header_wf (pc_header (pb_cfg p)) \<Longrightarrow> header_wf (goose_pub_link p)"
  by (simp add: header_wf_def goose_pub_link_def Let_def)

lemma pub_emits: "pub_ok p \<Longrightarrow> goose_encode_into (goose_pub_header p) (pb_body p) [] = (Inr (), pub_apdu p)"
proof -
  assume ok: "pub_ok p"
  have "emits (goose_encode_into (goose_pub_header p) (pb_body p)) (goose_octets (goose_pub_header p) (pb_body p))"
    by (rule emits_goose) (use ok [unfolded pub_ok_def] pub_fits [OF ok] in simp_all)
  then show ?thesis by (simp add: emits_def pub_apdu_def)
qed

lemma pub_written:
  "pub_ok p \<Longrightarrow> header_write (goose_pub_link p) (pub_apdu p) (replicate (header_len (goose_pub_link p) + length (pub_apdu p)) 0) =
      (Inr (header_len (goose_pub_link p) + length (pub_apdu p)), pub_frame p)"
proof -
  assume ok: "pub_ok p"
  then have "header_wf (goose_pub_link p)" by (intro pub_link_wf) (simp add: pub_ok_def)
  then have "length (fh_dst (goose_pub_link p)) = 6" "length (fh_src (goose_pub_link p)) = 6" by (simp_all add: header_wf_def)
  from header_write_octets [OF this _ pub_apdu_fits [OF ok]] show ?thesis by (simp add: pub_frame_def)
qed

lemma build_ok:
  assumes "pub_ok p"
  shows "goose_pub_build now p = (Inr (), pub_built now p)"
  unfolding goose_pub_build_def pub_built_def pub_interval_def Let_def
  by (simp only: pub_emits [OF assms] pub_written [OF assms] prod.case sum.case)

lemma simulation_bit: "(fh_reserved1 (goose_pub_link p) AND RESERVED1_SIMULATION \<noteq> 0) = pb_simulation p"
  using simulation_flag [of "pb_simulation p"] by (simp add: goose_pub_link_def Let_def)

lemma pub_built_ok: "pub_ok (pub_built now p) = pub_ok p"
  by (simp add: pub_ok_def pub_built_def)

text \<open>What a subscriber finds in a frame: the link header's addressing, and the PDU.\<close>

definition frame_carries :: "bytes \<Rightarrow> goose_header \<Rightarrow> bytes \<Rightarrow> bool" where
  "frame_carries f h body \<longleftrightarrow> (\<forall>pad. \<exists>fr v. frame_parse (f @ pad) = Inr fr \<and> goose_parse (fr_apdu fr) = Inr v \<and>
     (\<exists>d. v = goose_view_of h body d (fr_apdu fr) \<and> tlv_value d = body) \<and> frame_simulation fr = gh_simulation h)"

lemma pub_frame_parses:
  assumes "pub_ok p"
  shows "frame_parse (pub_frame p @ pad) = Inr (frame_of (goose_pub_link p) (pub_apdu p))"
    "\<exists>d. tlv_value d = pb_body p \<and> goose_parse (pub_apdu p) = Inr (goose_view_of (goose_pub_header p) (pb_body p) d (pub_apdu p))"
proof -
  show "frame_parse (pub_frame p @ pad) = Inr (frame_of (goose_pub_link p) (pub_apdu p))"
    using parse_header_octets [of "goose_pub_link p" "pub_apdu p" pad] pub_link_wf [of p] assms pub_apdu_fits [OF assms]
    by (simp add: pub_frame_def pub_ok_def)
  have "goose_header_ok (goose_pub_header p) (pb_body p)"
    using assms pub_fits [OF assms] by (simp add: goose_header_ok_def pub_ok_def)
  from goose_parse_octets [OF this, of "[]"]
  show "\<exists>d. tlv_value d = pb_body p \<and> goose_parse (pub_apdu p) = Inr (goose_view_of (goose_pub_header p) (pb_body p) d (pub_apdu p))"
    by (simp add: pub_apdu_def)
qed

lemma pub_frame_carries:
  assumes "pub_ok p"
  shows "frame_carries (pub_frame p) (goose_pub_header p) (pb_body p)"
  unfolding frame_carries_def
  using pub_frame_parses [OF assms] simulation_bit [of p] by (fastforce simp: frame_of_def frame_simulation_def)

section \<open>The curve grows to its limit\<close>

lemma interval_bounds: "curve_base r \<le> unat (interval_after r n)" "unat (interval_after r n) \<le> curve_limit r"
  by (auto simp: unat_interval_after)

lemma interval_mono: "m \<le> n \<Longrightarrow> interval_after r m \<le> interval_after r n"
proof -
  assume mn: "m \<le> n"
  define a where "a = curve_base r * 2 ^ (unat m - 1)"
  define b where "b = curve_base r * 2 ^ (unat n - 1)"
  have "a \<le> b" unfolding a_def b_def
    using mn by (intro mult_left_mono power_increasing) (simp_all add: word_le_nat_alt diff_le_mono)
  moreover have "curve_base r \<le> b" by (simp add: b_def)
  ultimately show ?thesis
    using mn base_le_limit [of r] unfolding word_le_nat_alt unat_interval_after a_def [symmetric] b_def [symmetric] by auto
qed

lemma unat_tal_after:
  "unat (tal_after r n) = min (unat (interval_after r n) * max 1 (unat (rt_tal_factor r))) (2 ^ 32 - 1)"
proof -
  have "unat (if rt_tal_factor r = 0 then 1 else rt_tal_factor r) = max 1 (unat (rt_tal_factor r))"
    using unat_eq_zero [of "rt_tal_factor r"] by (auto simp: max_def)
  then show ?thesis by (simp add: tal_after_def Let_def unat_sat_mul)
qed

text \<open>
  The retransmission curve. The intervals of a state never shrink, they stay between
  the minimum time (at least a millisecond) and the maximum time, the thirty-third transmission and all
  later ones are at the maximum, and the advertised \<open>timeAllowedtoLive\<close> is the factor times the interval
  to the next transmission, never less than that interval, whatever the configuration (saturating).
\<close>

theorem retransmission_curve:
  "mono (interval_after r) \<and> unat (interval_after r 0) = max 1 (unat (rt_min_time_ms r)) \<and>
   unat (interval_after r n) \<le> max (max 1 (unat (rt_min_time_ms r))) (unat (rt_max_time_ms r)) \<and>
   unat (interval_after r (max n 32)) = max (max 1 (unat (rt_min_time_ms r))) (unat (rt_max_time_ms r)) \<and>
   unat (tal_after r n) = min (unat (interval_after r n) * max 1 (unat (rt_tal_factor r))) (2 ^ 32 - 1) \<and>
   interval_after r n \<le> tal_after r n"
proof (intro conjI)
  show "mono (interval_after r)" by (intro monoI interval_mono)
  show "unat (interval_after r 0) = max 1 (unat (rt_min_time_ms r))" by (simp add: unat_interval_after curve_base_def)
  show "unat (interval_after r n) \<le> max (max 1 (unat (rt_min_time_ms r))) (unat (rt_max_time_ms r))"
    using interval_bounds(2) [of r n] by (simp add: curve_limit_def curve_base_def)
  have "32 \<le> unat (max n 32)" by (simp add: max_def word_le_nat_alt)
  then show "unat (interval_after r (max n 32)) = max (max 1 (unat (rt_min_time_ms r))) (unat (rt_max_time_ms r))"
    unfolding unat_interval_after by (simp add: curve_limit_def curve_base_def)
  show "unat (tal_after r n) = min (unat (interval_after r n) * max 1 (unat (rt_tal_factor r))) (2 ^ 32 - 1)"
    by (rule unat_tal_after)
  show "interval_after r n \<le> tal_after r n"
    using unat_le_max [of "interval_after r n"] by (simp add: word_le_nat_alt unat_tal_after)
qed

section \<open>The timer\<close>

text \<open>Within reach of the clock: a deadline computed now does not saturate.\<close>

definition clock_ok :: "instant \<Rightarrow> bool" where
  "clock_ok now \<longleftrightarrow> unat now + 2 ^ 32 * 1000000 < 2 ^ 64"

lemma after_interval:
  assumes "clock_ok now"
  shows "now < plus_millis now (ucast (interval_after r n))"
proof (rule plus_millis_later)
  have u: "unat (ucast (interval_after r n) :: u64) = unat (interval_after r n)" by (subst unat_ucast_up) simp_all
  show "unat now + unat (ucast (interval_after r n) :: u64) * 1000000 < 2 ^ 64"
    using assms unat_lt_exp [of "interval_after r n"] unfolding clock_ok_def u by simp
  have "0 < unat (interval_after r n)" using interval_bounds(1) [of r n] curve_base_pos [of r] by linarith
  then show "(ucast (interval_after r n) :: u64) \<noteq> 0" using u by (metis less_irrefl unat_0)
qed

interpretation pub_timer: timed_core "\<lambda>now p. snd (goose_pub_on_timeout now p)" pb_next_send "\<lambda>now p. pub_ok p \<and> clock_ok now"
proof (unfold_locales, goal_cases)
  case (1 s now)
  then show ?case by (force simp: goose_pub_on_timeout_def split: option.splits)
next
  case (2 now s d)
  then show ?case
    by (auto simp: goose_pub_on_timeout_def build_ok pub_built_def pub_interval_def after_interval split: option.splits if_splits)
qed

section \<open>A state on the wire\<close>

definition next_st_num :: "u32 \<Rightarrow> u32" where
  "next_st_num n = (if n = 0xFFFFFFFF then 1 else n + 1)"

lemma next_st_num_code: "(if n = 0xFFFFFFFF then 1 else sat_add n 1) = next_st_num n"
proof (cases "n = 0xFFFFFFFF")
  case False
  then have "unat n \<noteq> 2 ^ 32 - 1" by (auto simp: word_unat_eq_iff)
  then have "unat n + 1 < 2 ^ 32" using unat_lt_exp [of n] by simp
  then have "unat (sat_add n 1) = unat (n + 1)" by (subst unat_plus_le) (simp_all add: unat_sat_add)
  then show ?thesis using False by (simp add: next_st_num_def word_unat_eq_iff)
qed (simp add: next_st_num_def)

lemma advance_state_alt: "advance_state now t p =
    goose_pub_build now (p\<lparr> pb_t := t, pb_st_num := next_st_num (pb_st_num p), pb_sq_num := 0, pb_sent_in_state := 0 \<rparr>)"
  by (simp only: advance_state_def next_st_num_code)

text \<open>The state a publisher enters when it publishes, before the first frame of it is built.\<close>

definition entered :: "goose_publisher \<Rightarrow> data_value list \<Rightarrow> utc_time \<Rightarrow> goose_publisher" where
  "entered p vs t = p\<lparr> pb_body := values_octets vs, pb_members := of_nat (length vs), pb_t := t,
     pb_st_num := next_st_num (pb_st_num p), pb_sq_num := 0, pb_sent_in_state := 0 \<rparr>"

lemma publish_ok:
  assumes "values_ok l vs" "pub_ok (entered p vs t)"
  shows "goose_publish now vs t p = (Inr (), pub_built now (entered p vs t))"
proof -
  have "encode_each vs [] = (Inr (), values_octets vs)"
    using emits_value(2) [of vs l 0] assms(1) by (auto simp: values_ok_def emits_def)
  then show ?thesis
    using build_ok [OF assms(2), of now] by (simp add: goose_publish_def advance_state_alt entered_def)
qed

text \<open>A driver that collects the pending frame and calls \<open>on_timeout\<close> when it is due.\<close>

definition retransmit :: "goose_publisher \<Rightarrow> goose_publisher" where
  "retransmit p = (case pb_next_send p of
     Some due \<Rightarrow> snd (goose_pub_on_timeout due (snd (goose_pub_poll_transmit p))) | None \<Rightarrow> p)"

primrec transmit_at :: "retransmission \<Rightarrow> instant \<Rightarrow> nat \<Rightarrow> instant" where
  "transmit_at r now 0 = now"
| "transmit_at r now (Suc n) = plus_millis (transmit_at r now n) (ucast (interval_after r (of_nat n)))"

definition numbered :: "goose_publisher \<Rightarrow> nat \<Rightarrow> goose_publisher" where
  "numbered p n = p\<lparr> pb_sent_in_state := of_nat n, pb_sq_num := of_nat n \<rparr>"

definition in_state :: "goose_publisher \<Rightarrow> instant \<Rightarrow> nat \<Rightarrow> goose_publisher \<Rightarrow> bool" where
  "in_state p now n q \<longleftrightarrow> pb_cfg q = pb_cfg p \<and> pb_st_num q = pb_st_num p \<and> pb_t q = pb_t p \<and>
     pb_simulation q = pb_simulation p \<and> pb_body q = pb_body p \<and> pb_members q = pb_members p \<and>
     pb_sent_in_state q = of_nat (Suc n) \<and> pb_sq_num q = of_nat (Suc n) \<and> pb_pending q \<and>
     pb_frame q = pub_frame (numbered p n) \<and>
     pb_next_send q = Some (transmit_at (pc_retransmission (pb_cfg p)) now (Suc n))"

lemma count_up:
  assumes "Suc n < 2 ^ 32"
  shows "sat_add (of_nat n :: u32) 1 = of_nat (Suc n)" "(of_nat n :: u32) \<noteq> 0xFFFFFFFF"
proof -
  have n: "unat (of_nat n :: u32) = n" "unat (of_nat (Suc n) :: u32) = Suc n"
    using assms by (simp_all only: unat_of_nat len_bit0 len_num1) simp_all
  then show "sat_add (of_nat n :: u32) 1 = of_nat (Suc n)"
    using assms unfolding word_unat_eq_iff unat_sat_add n by simp
  show "(of_nat n :: u32) \<noteq> 0xFFFFFFFF" using n(1) assms by (auto simp: word_unat_eq_iff)
qed

lemma pub_frame_cong:
  "pb_cfg q = pb_cfg p \<Longrightarrow> pb_st_num q = pb_st_num p \<Longrightarrow> pb_t q = pb_t p \<Longrightarrow> pb_simulation q = pb_simulation p \<Longrightarrow>
   pb_body q = pb_body p \<Longrightarrow> pb_members q = pb_members p \<Longrightarrow> pb_sent_in_state q = pb_sent_in_state p \<Longrightarrow>
   pb_sq_num q = pb_sq_num p \<Longrightarrow> pub_frame q = pub_frame p"
  by (simp add: pub_frame_def pub_apdu_def goose_pub_link_def goose_pub_header_def)

lemma in_state_first:
  "pb_sq_num p = 0 \<Longrightarrow> pb_sent_in_state p = 0 \<Longrightarrow> in_state p now 0 (pub_built now p)"
proof -
  assume z: "pb_sq_num p = 0" "pb_sent_in_state p = 0"
  have f: "pub_frame p = pub_frame (numbered p 0)" by (rule pub_frame_cong) (simp_all add: numbered_def z)
  have "sat_add 0 1 = (1 :: u32)" using count_up(1) [of 0] by simp
  then show ?thesis unfolding in_state_def f [symmetric] by (simp add: pub_built_def pub_interval_def z)
qed

lemma in_state_next:
  assumes q: "in_state p now n q" and ok: "pub_ok p" and n: "Suc (Suc n) < 2 ^ 32"
  shows "in_state p now (Suc n) (retransmit q)"
proof -
  let ?q = "q\<lparr> pb_pending := False \<rparr>" and ?t = "transmit_at (pc_retransmission (pb_cfg p)) now (Suc n)"
  have "pub_ok ?q" using ok q by (simp add: pub_ok_def in_state_def)
  then have r: "retransmit q = pub_built ?t ?q"
    using q build_ok [of ?q ?t]
    by (simp add: retransmit_def in_state_def goose_pub_poll_transmit_def goose_pub_on_timeout_def)
  have f: "pub_frame ?q = pub_frame (numbered p (Suc n))"
    by (rule pub_frame_cong) (use q in \<open>simp_all add: in_state_def numbered_def\<close>)
  show ?thesis
    using q count_up [OF n] unfolding r in_state_def
    by (simp add: pub_built_def f pub_interval_def del: of_nat_Suc) simp
qed

lemma in_state_iterate:
  "pub_ok p \<Longrightarrow> pb_sq_num p = 0 \<Longrightarrow> pb_sent_in_state p = 0 \<Longrightarrow> Suc n < 2 ^ 32 \<Longrightarrow>
   in_state p now n ((retransmit ^^ n) (pub_built now p))"
proof (induction n)
  case 0
  then show ?case by (simp add: in_state_first)
next
  case (Suc n)
  then show ?case using in_state_next [of p now n] by simp
qed

text \<open>What a receiver of the frame makes of it, padding and all.\<close>

definition receive :: "limits \<Rightarrow> bytes \<Rightarrow> (bool \<times> goose_pdu) result" where
  "receive l f = rbind (frame_parse f) (\<lambda>fr. rbind (goose_parse (fr_apdu fr)) (\<lambda>v.
     rbind (goose_pdu_from_view v l) (\<lambda>pdu. Inr (frame_simulation fr, pdu))))"

definition published_pdu :: "goose_publisher \<Rightarrow> data_value list \<Rightarrow> utc_time \<Rightarrow> nat \<Rightarrow> goose_pdu" where
  "published_pdu p vs t n = \<lparr> gp_gocb_ref = pc_gocb_ref (pb_cfg p),
     gp_time_allowed_to_live = tal_after (pc_retransmission (pb_cfg p)) (of_nat n), gp_dat_set = pc_dat_set (pb_cfg p),
     gp_go_id = pc_go_id (pb_cfg p), gp_t = t, gp_st_num = next_st_num (pb_st_num p), gp_sq_num = of_nat n,
     gp_simulation = pb_simulation p, gp_conf_rev = pc_conf_rev (pb_cfg p), gp_nds_com = pc_nds_com (pb_cfg p),
     gp_all_data = vs \<rparr>"

lemma carried_received:
  assumes "frame_carries f h (values_octets vs)" "values_ok l vs"
  shows "receive l (f @ pad) = Inr (gh_simulation h, \<lparr> gp_gocb_ref = gh_gocb_ref h,
    gp_time_allowed_to_live = gh_time_allowed_to_live h, gp_dat_set = gh_dat_set h, gp_go_id = gh_go_id h, gp_t = gh_t h,
    gp_st_num = gh_st_num h, gp_sq_num = gh_sq_num h, gp_simulation = gh_simulation h, gp_conf_rev = gh_conf_rev h,
    gp_nds_com = gh_nds_com h, gp_all_data = vs \<rparr>)"
proof -
  obtain fr d where "frame_parse (f @ pad) = Inr fr" "tlv_value d = values_octets vs" "frame_simulation fr = gh_simulation h"
    "goose_parse (fr_apdu fr) = Inr (goose_view_of h (values_octets vs) d (fr_apdu fr))"
    using assms(1) unfolding frame_carries_def by blast
  moreover from this have "all_data_owned (goose_view_of h (values_octets vs) d (fr_apdu fr)) l = Inr vs"
    using assms(2) by (intro all_data_owned_values) (simp_all add: goose_view_of_def)
  ultimately show ?thesis by (simp add: receive_def goose_pdu_from_view_def goose_view_of_def)
qed

text \<open>
  C22: a state on the wire. Publishing values enters a new state: \<open>stNum\<close> advances (past 0
  on wrap-around), and the frame of the state change and each of its retransmissions, collected when
  due, is received as the published values with \<open>sqNum\<close> counting 0, 1, 2, \<dots>, the time of the change,
  the configured references and the \<open>timeAllowedtoLive\<close> of the curve; the next transmission is due
  when the curve says.
\<close>

theorem retransmission_schedule:
  assumes "values_ok l vs" and "pub_ok (entered p vs t)" and "n < 2 ^ 32 - 1"
  shows "fst (goose_publish now vs t p) = Inr () \<and>
    (let q = (retransmit ^^ n) (snd (goose_publish now vs t p)) in
      map_option (\<lambda>f. receive l (f @ pad)) (fst (goose_pub_poll_transmit q)) =
        Some (Inr (pb_simulation p, published_pdu p vs t n)) \<and>
      pb_next_send q = Some (transmit_at (pc_retransmission (pb_cfg p)) now (Suc n)))"
proof -
  let ?p = "entered p vs t"
  let ?q = "(retransmit ^^ n) (pub_built now ?p)"
  have z: "pb_sq_num ?p = 0" "pb_sent_in_state ?p = 0" by (simp_all add: entered_def)
  have q: "in_state ?p now n ?q" using in_state_iterate [OF assms(2) z, of n] assms(3) by simp
  have "pub_ok (numbered ?p n)" using assms(2) by (simp add: pub_ok_def numbered_def)
  from pub_frame_carries [OF this]
  have "frame_carries (pb_frame ?q) (goose_pub_header (numbered ?p n)) (values_octets vs)"
    using q by (simp add: in_state_def numbered_def entered_def)
  from carried_received [OF this assms(1), of pad]
  have "receive l (pb_frame ?q @ pad) = Inr (pb_simulation p, published_pdu p vs t n)"
    by (simp add: published_pdu_def goose_pub_header_def numbered_def entered_def)
  then show ?thesis
    using q publish_ok [OF assms(1,2), of now] unfolding in_state_def
    by (simp add: goose_pub_poll_transmit_def Let_def entered_def)
qed

text \<open>A witness: the second retransmission of \<open>sample_values\<close> by a publisher of the default curve.\<close>

definition sample_publisher :: goose_publisher where
  "sample_publisher = \<lparr> pb_cfg = pub_config_new sample_header ''IED1LD0/LLN0$GO$g1'' ''ds1'', pb_st_num = 1, pb_sq_num = 0,
     pb_t = utc_default, pb_simulation = False, pb_sent_in_state = 0, pb_body = value_octets (Boolean False),
     pb_members = 1, pb_scratch = [], pb_apdu = [], pb_frame = [], pb_pending = False, pb_next_send = Some 0,
     pb_dropped = 0 \<rparr>"

lemma sample_publisher_new:
  "goose_pub_new (pub_config_new sample_header ''IED1LD0/LLN0$GO$g1'' ''ds1'') [Boolean False] utc_default = Inr sample_publisher"
proof -
  have "encode_each [Boolean False] [] = (Inr (), value_octets (Boolean False))"
    using emits_value(2) [of "[Boolean False]" default_limits 0] by (simp add: emits_def default_limits_def)
  then show ?thesis
    by (simp add: goose_pub_new_def pub_config_new_def sample_publisher_def is_ascii_def as_bytes_def octet_def)
qed

lemma sample_header_wf: "header_wf sample_header"
  by (simp add: header_wf_def sample_header_def process_bus_def)

lemma sample_publisher_ok: "length b \<le> 69 \<Longrightarrow> pub_ok (sample_publisher\<lparr> pb_body := b \<rparr>)"
  by (simp add: pub_ok_def sample_publisher_def pub_config_new_def sample_header_wf utc_default_wf apdu_bound_def
      is_ascii_def as_bytes_def octet_def)

lemma sample_entered_ok: "pub_ok (entered sample_publisher sample_values utc_default)"
  using sample_publisher_ok [OF sample_body_length] by (simp add: pub_ok_def entered_def sample_publisher_def)

theorem retransmission_schedule_witness:
  "map_option (receive default_limits)
      (fst (goose_pub_poll_transmit ((retransmit ^^ 2) (snd (goose_publish 5 sample_values utc_default sample_publisher))))) =
     Some (Inr (False, published_pdu sample_publisher sample_values utc_default 2))"
  using retransmission_schedule [OF sample_values_ok sample_entered_ok, of 2 5 "[]"]
  by (simp add: Let_def) (simp add: sample_publisher_def)

section \<open>Only changes are published\<close>

lemma values_octets_inject: "values_ok l vs \<Longrightarrow> values_ok l ws \<Longrightarrow> values_octets vs = values_octets ws \<longleftrightarrow> vs = ws"
  by (metis decode_all_octets sum.inject(2))

lemma built_scratch: "pub_built now (p\<lparr> pb_scratch := b \<rparr>) = (pub_built now p)\<lparr> pb_scratch := b \<rparr>"
proof -
  have "pub_frame (p\<lparr> pb_scratch := b \<rparr>) = pub_frame p" by (rule pub_frame_cong) simp_all
  then show ?thesis by (cases p) (simp add: pub_built_def pub_apdu_def pub_interval_def goose_pub_header_def)
qed

definition sends :: "goose_publisher \<Rightarrow> data_value list \<Rightarrow> bool" where
  "sends p ws \<longleftrightarrow> pb_body p = values_octets ws \<and> pb_members p = of_nat (length ws)"

text \<open>
  \<open>publish_if_changed\<close> begins a new state exactly when the values differ from those
  being sent, and then does what \<open>publish\<close> does; otherwise nothing but its scratch buffer changes, so
  the state and sequence numbers, the deadline and the pending frame stand.
\<close>

theorem publishes_only_changes:
  assumes "values_ok l vs" and "values_ok l ws" and "max_dataset_members l < 2 ^ 32"
    and "sends p ws" and "pub_ok (entered p vs t)"
  shows "publish_if_changed now vs t p =
    (if vs = ws then (Inr False, p\<lparr> pb_scratch := pb_body p \<rparr>)
     else (Inr True, (snd (goose_publish now vs t p))\<lparr> pb_scratch := pb_body p \<rparr>))"
proof -
  have e: "encode_each vs [] = (Inr (), values_octets vs)"
    using emits_value(2) [of vs l 0] assms(1) by (auto simp: values_ok_def emits_def)
  have "length ws < 2 ^ 32" using assms(2,3) by (simp add: values_ok_def)
  then have u: "unat (of_nat (length ws) :: u32) = length ws" by (simp add: unat_of_nat)
  have same: "unat (pb_members p) = length vs \<and> values_octets vs = pb_body p \<longleftrightarrow> vs = ws"
    using assms(4) values_octets_inject [OF assms(1,2)] u unfolding sends_def by metis
  let ?p = "p\<lparr> pb_body := values_octets vs, pb_scratch := pb_body p, pb_members := of_nat (length vs) \<rparr>"
    and ?s = "\<lambda>q. q\<lparr> pb_scratch := pb_body p \<rparr>"
  have "?p\<lparr> pb_t := t, pb_st_num := next_st_num (pb_st_num ?p), pb_sq_num := 0, pb_sent_in_state := 0 \<rparr> = ?s (entered p vs t)"
    by (cases p) (simp add: entered_def)
  moreover have "pub_ok (?s (entered p vs t))" using assms(5) by (simp add: pub_ok_def)
  ultimately have "advance_state now t ?p = (Inr (), pub_built now (?s (entered p vs t)))"
    unfolding advance_state_alt by (simp only: build_ok)
  then have "advance_state now t ?p = (Inr (), ?s (pub_built now (entered p vs t)))"
    by (simp only: built_scratch)
  note changed = this
  show ?thesis
  proof (cases "vs = ws")
    case True
    then show ?thesis using same assms(4) unfolding publish_if_changed_def e prod.case sum.case by (simp add: sends_def)
  next
    case False
    then have "\<not> (unat (pb_members p) = length vs \<and> values_octets vs = pb_body p)" using same by simp
    then show ?thesis
      unfolding publish_if_changed_def e prod.case sum.case if_not_P [OF False] publish_ok [OF assms(1,5)]
      by (simp only: if_False changed prod.case sum.case snd_conv)
  qed
qed

lemma sample_publisher_sends: "sends sample_publisher [Boolean False]"
  by (simp add: sends_def sample_publisher_def)

theorem publishes_only_changes_witness:
  "fst (publish_if_changed 7 sample_values utc_default sample_publisher) = Inr True"
  using publishes_only_changes [OF sample_values_ok _ _ sample_publisher_sends sample_entered_ok, of 7]
  by (simp add: values_ok_def default_limits_def sample_values_def)

section \<open>Two failures that reach the wire\<close>

text \<open>
  C32: \<open>publish\<close> encodes the new values over the data set being sent, before it knows that they
  can be encoded. When they cannot, the state does not advance, but the retransmission that follows
  carries the octets encoded up to the failure as the data set of the old state, under the old state
  number and the old number of entries.
\<close>

theorem failed_publish_reaches_the_wire:
  assumes "encode_each vs [] = (Inl e, partial)" and "pub_ok (p\<lparr> pb_body := partial \<rparr>)"
    and "pb_next_send p = Some due"
  shows "fst (goose_publish now vs t p) = Inl e \<and>
    frame_carries (pb_frame (snd (goose_pub_on_timeout due (snd (goose_publish now vs t p))))) (goose_pub_header p) partial"
proof -
  let ?q = "p\<lparr> pb_body := partial \<rparr>"
  have "goose_publish now vs t p = (Inl e, ?q)" using assms(1) by (simp add: goose_publish_def)
  moreover have "goose_pub_on_timeout due ?q = (Inr (), pub_built due ?q)"
    using assms(3) build_ok [OF assms(2), of due] by (simp add: goose_pub_on_timeout_def)
  moreover have "pb_frame (pub_built due ?q) = pub_frame ?q" by (simp add: pub_built_def)
  moreover have "goose_pub_header ?q = goose_pub_header p" by (simp add: goose_pub_header_def)
  ultimately show ?thesis using pub_frame_carries [OF assms(2)] by simp
qed

definition unencodable :: "data_value list" where
  "unencodable = [Boolean True, VisibleString [char_of_octet 0xE9]]"

lemma unencodable_fails:
  "encode_each unencodable [] = (Inl (Encode ''VisibleString must be ASCII''), value_octets (Boolean True))"
proof -
  have "emits (value_encode (Boolean True)) (value_octets (Boolean True))"
    by (rule emits_value(1) [of default_limits 0]) (simp add: default_limits_def)
  then have "value_encode (Boolean True) [] = (Inr (), value_octets (Boolean True))" by (simp add: emits_def)
  then show ?thesis
    by (simp add: unencodable_def sbind_def enc_visible_string_def sfail_def is_ascii_def as_bytes_def)
qed

theorem failed_publish_reaches_the_wire_witness:
  "frame_carries (pb_frame (snd (goose_pub_on_timeout 0 (snd (goose_publish 3 unencodable utc_default sample_publisher)))))
     (goose_pub_header sample_publisher) (value_octets (Boolean True))"
proof -
  have "length (value_octets (Boolean True)) \<le> 69"
    using element_bound [of "bool_octets True" 1 "tag_context BOOLEAN"] by simp
  from sample_publisher_ok [OF this]
  show ?thesis
    using failed_publish_reaches_the_wire [OF unencodable_fails _, of sample_publisher 0 3 utc_default]
    by (simp add: sample_publisher_def)
qed

text \<open>
  A frame too long for the link layer is refused only after the frame buffer has been
  cleared to the new length. A frame that was waiting to be collected is not withdrawn: what the caller
  then collects in its place is all zeros.
\<close>

theorem oversized_frame_blanks_the_pending_one:
  assumes "goose_encode_into (goose_pub_header p) (pb_body p) [] = (Inr (), apdu)" and "0xFFFF < length apdu + 8"
    and "pb_pending p"
  shows "fst (goose_pub_build now p) = Inl (Encode ''frame buffer too small or APDU too large'') \<and>
    fst (goose_pub_poll_transmit (snd (goose_pub_build now p))) = Some (replicate (header_len (goose_pub_link p) + length apdu) 0)"
  using assms by (simp add: goose_pub_build_def header_write_def goose_pub_poll_transmit_def Let_def)

definition oversized :: bytes where
  "oversized = replicate 70000 0"

lemma length_oversized: "length oversized = 70000"
  by (simp only: oversized_def length_replicate)

definition blanked_publisher :: goose_publisher where
  "blanked_publisher = sample_publisher\<lparr> pb_body := oversized, pb_frame := [1, 2, 3], pb_pending := True \<rparr>"

lemma blanked_emits:
  "goose_encode_into (goose_pub_header blanked_publisher) (pb_body blanked_publisher) [] = (Inr (), pub_apdu blanked_publisher)"
proof -
  let ?h = "goose_pub_header blanked_publisher"
  have "length (goose_contents ?h oversized) \<le> 72 + 20 + 3 + 70000"
    using goose_contents_length [of ?h oversized]
    by (simp add: length_oversized blanked_publisher_def sample_publisher_def pub_config_new_def)
  then have "emits (goose_encode_into ?h oversized) (goose_octets ?h oversized)"
    by (intro emits_goose) (simp_all add: blanked_publisher_def sample_publisher_def pub_config_new_def
        is_ascii_def as_bytes_def octet_def)
  then show ?thesis by (simp add: emits_def pub_apdu_def blanked_publisher_def)
qed

theorem oversized_frame_blanks_the_pending_one_witness:
  "fst (goose_pub_poll_transmit (snd (goose_pub_build 0 blanked_publisher))) =
     Some (replicate (header_len (goose_pub_link blanked_publisher) + length (pub_apdu blanked_publisher)) 0)"
proof -
  have "70000 \<le> length (pub_apdu blanked_publisher)"
    by (simp add: pub_apdu_def goose_octets_def goose_contents_def element_def blanked_publisher_def length_oversized)
  then show ?thesis
    using oversized_frame_blanks_the_pending_one [OF blanked_emits, of 0] by (simp add: blanked_publisher_def)
qed

end
