(* ===== verification/Goose_Subscriber.thy ===== *)
theory Goose_Subscriber
  imports Goose_Publisher
begin

text \<open>
  The GOOSE subscriber (\<open>src/proto/goose/subscriber.rs\<close>): the replay protection of IEC 62351-6, the
  simulation and \<open>confRev\<close> policies, expiry of a silent stream, and the statistics. The event queue is
  the one of \<open>Machine\<close>.
\<close>

section \<open>Configuration, events and state\<close>

record subscription_key =
  sk_dst :: mac_addr
  sk_appid :: u16
  sk_gocb_ref :: string

datatype simulation_mode = Off | Preferred

record goose_sub_config =
  sc_key :: subscription_key
  sc_expected_conf_rev :: "u32 option"
  sc_simulation :: simulation_mode
  sc_limits :: limits
  sc_event_capacity :: usize

definition sub_config_new :: "subscription_key \<Rightarrow> goose_sub_config" where
  "sub_config_new key = \<lparr> sc_key = key, sc_expected_conf_rev = None, sc_simulation = Off,
     sc_limits = default_limits, sc_event_capacity = 64 \<rparr>"

datatype invalid = Malformed error | SimulationMismatch | Replay u32 u32 | MemberCountMismatch

datatype subscriber_event =
    NewState u32 utc_time "data_value list" bool
  | Retransmission u32 u32
  | Expired
  | NeedsCommissioning
  | ConfRevMismatch u32 u32
  | IgnoredSimulation
  | SimulationTakeover
  | Invalid invalid

record subscriber_stats =
  ss_accepted :: u64
  ss_state_changes :: u64
  ss_retransmissions :: u64
  ss_replays :: u64
  ss_state_gaps :: u64
  ss_states_missed :: u64
  ss_malformed :: u64
  ss_simulation_mismatches :: u64
  ss_member_count_mismatches :: u64
  ss_simulation_dropped :: u64
  ss_conf_rev_dropped :: u64
  ss_expiries :: u64
  ss_commissioning_changes :: u64
  ss_other_stream :: u64
  ss_events_dropped :: u64

definition stats_default :: subscriber_stats where
  "stats_default = \<lparr> ss_accepted = 0, ss_state_changes = 0, ss_retransmissions = 0, ss_replays = 0, ss_state_gaps = 0,
     ss_states_missed = 0, ss_malformed = 0, ss_simulation_mismatches = 0, ss_member_count_mismatches = 0,
     ss_simulation_dropped = 0, ss_conf_rev_dropped = 0, ss_expiries = 0, ss_commissioning_changes = 0,
     ss_other_stream = 0, ss_events_dropped = 0 \<rparr>"

record frame_deltas =
  fd_st_diff :: i64
  fd_sq_diff :: i64
  fd_arrival_delta :: u64
  fd_t_delta :: i64
  fd_since_state_change :: u64

record accepted =
  ac_st_num :: u32
  ac_sq_num :: u32
  ac_arrived_at :: instant
  ac_t :: utc_time
  ac_expires_at :: instant

record goose_subscriber =
  sb_cfg :: goose_sub_config
  sb_state :: "accepted option"
  sb_conf_rev :: "u32 option"
  sb_conf_rev_mismatch_reported :: bool
  sb_nds_com :: bool
  sb_simulation_reported :: bool
  sb_simulation_active :: bool
  sb_expired :: bool
  sb_events :: "subscriber_event event_queue"
  sb_stats :: subscriber_stats
  sb_deltas :: "frame_deltas option"
  sb_state_changed_at :: "instant option"

definition goose_sub_new :: "goose_sub_config \<Rightarrow> goose_subscriber" where
  "goose_sub_new cfg = \<lparr> sb_cfg = cfg, sb_state = None, sb_conf_rev = sc_expected_conf_rev cfg,
     sb_conf_rev_mismatch_reported = False, sb_nds_com = False, sb_simulation_reported = False,
     sb_simulation_active = False, sb_expired = False, sb_events = queue_new (sc_event_capacity cfg),
     sb_stats = stats_default, sb_deltas = None, sb_state_changed_at = None \<rparr>"

definition sub_is_live :: "goose_subscriber \<Rightarrow> bool" where
  "sub_is_live s \<longleftrightarrow> sb_state s \<noteq> None \<and> \<not> sb_expired s"

definition forget_source :: "goose_subscriber \<Rightarrow> goose_subscriber" where
  "forget_source s = s\<lparr> sb_state := None, sb_expired := False, sb_deltas := None, sb_state_changed_at := None,
     sb_nds_com := False \<rparr>"

definition reset_simulation :: "goose_subscriber \<Rightarrow> goose_subscriber" where
  "reset_simulation s = forget_source (s\<lparr> sb_simulation_active := False \<rparr>)"

definition sub_next_timeout :: "goose_subscriber \<Rightarrow> instant option" where
  "sub_next_timeout s = (if sb_expired s then None else map_option ac_expires_at (sb_state s))"

definition count :: "((u64 \<Rightarrow> u64) \<Rightarrow> subscriber_stats \<Rightarrow> subscriber_stats) \<Rightarrow> goose_subscriber \<Rightarrow> goose_subscriber" where
  "count upd s = s\<lparr> sb_stats := upd (\<lambda>n. sat_add n 1) (sb_stats s) \<rparr>"

definition sub_poll_event :: "goose_subscriber \<Rightarrow> subscriber_event option \<times> goose_subscriber" where
  "sub_poll_event s = (let (e, q) = queue_pop (sb_events s) in
     (e, s\<lparr> sb_events := q, sb_stats := (sb_stats s)\<lparr> ss_events_dropped := q_dropped q \<rparr> \<rparr>))"

definition sub_emit :: "subscriber_event \<Rightarrow> goose_subscriber \<Rightarrow> goose_subscriber" where
  "sub_emit event s = (let q = queue_push event (sb_events s) in
     s\<lparr> sb_events := q, sb_stats := (sb_stats s)\<lparr> ss_events_dropped := q_dropped q \<rparr> \<rparr>)"

definition other :: "goose_subscriber \<Rightarrow> goose_subscriber" where
  "other s = count ss_other_stream_update s"

definition reject :: "invalid \<Rightarrow> goose_subscriber \<Rightarrow> goose_subscriber" where
  "reject why s = sub_emit (Invalid why)
     (case why of
        Malformed _ \<Rightarrow> count ss_malformed_update s
      | SimulationMismatch \<Rightarrow> count ss_simulation_mismatches_update s
      | MemberCountMismatch \<Rightarrow> count ss_member_count_mismatches_update s
      | Replay _ _ \<Rightarrow> count ss_replays_update s)"

section \<open>Expiry\<close>

definition check_expiry :: "instant \<Rightarrow> goose_subscriber \<Rightarrow> goose_subscriber" where
  "check_expiry now s = (case sb_state s of
     Some prev \<Rightarrow>
       if \<not> sb_expired s \<and> now \<ge> ac_expires_at prev
       then sub_emit Expired (count ss_expiries_update (s\<lparr> sb_expired := True \<rparr>)) else s
   | None \<Rightarrow> s)"

definition sub_on_timeout :: "instant \<Rightarrow> goose_subscriber \<Rightarrow> goose_subscriber" where
  "sub_on_timeout now s = check_expiry now s"

section \<open>The verdict on a frame\<close>

definition SEQ_WRAP_WINDOW :: u32 where "SEQ_WRAP_WINDOW = 16"

definition wrapped :: "u32 \<Rightarrow> u32 \<Rightarrow> bool" where
  "wrapped prev new \<longleftrightarrow> prev > 0xFFFFFFFF - SEQ_WRAP_WINDOW \<and> new \<le> SEQ_WRAP_WINDOW"

datatype verdict = VNew | VRetransmission | VReplay

definition sub_verdict :: "goose_view \<Rightarrow> goose_subscriber \<Rightarrow> verdict" where
  "sub_verdict pdu s = (case (sb_state s, sb_expired s) of
     (Some prev, False) \<Rightarrow>
       if gv_st_num pdu = ac_st_num prev then
         if gv_sq_num pdu > ac_sq_num prev \<or> wrapped (ac_sq_num prev) (gv_sq_num pdu) then VRetransmission else VReplay
       else if gv_st_num pdu > ac_st_num prev \<or> wrapped (ac_st_num prev) (gv_st_num pdu) then VNew
       else VReplay
   | _ \<Rightarrow> VNew)"

definition missed_states :: "u32 \<Rightarrow> u32 \<Rightarrow> u64" where
  "missed_states prev st_num = (if wrapped prev st_num then ucast (sat_sub st_num 1)
     else ucast (sat_sub (sat_sub st_num prev) 1))"

definition count_missed_states :: "u32 \<Rightarrow> goose_subscriber \<Rightarrow> goose_subscriber" where
  "count_missed_states st_num s = (case (sb_state s, sb_expired s) of
     (Some prev, False) \<Rightarrow>
       let missed = missed_states (ac_st_num prev) st_num in
       if missed > 0 then
         s\<lparr> sb_stats := (sb_stats s)\<lparr> ss_state_gaps := sat_add (ss_state_gaps (sb_stats s)) 1,
              ss_states_missed := sat_add (ss_states_missed (sb_stats s)) missed \<rparr> \<rparr>
       else s
   | _ \<Rightarrow> s)"

definition simulation_policy_admits :: "bool \<Rightarrow> goose_subscriber \<Rightarrow> bool \<times> goose_subscriber" where
  "simulation_policy_admits simulated s = (case (sc_simulation (sb_cfg s), simulated) of
     (Off, False) \<Rightarrow> (True, s\<lparr> sb_simulation_reported := False \<rparr>)
   | (Off, True) \<Rightarrow>
       let s = count ss_simulation_dropped_update s in
       (False, if \<not> sb_simulation_reported s then sub_emit IgnoredSimulation (s\<lparr> sb_simulation_reported := True \<rparr>) else s)
   | (Preferred, True) \<Rightarrow>
       (True, if \<not> sb_simulation_active s
              then sub_emit SimulationTakeover (forget_source (s\<lparr> sb_simulation_active := True \<rparr>)) else s)
   | (Preferred, False) \<Rightarrow>
       if sb_simulation_active s then (False, count ss_simulation_dropped_update s) else (True, s))"

definition conf_rev_admits :: "u32 \<Rightarrow> goose_subscriber \<Rightarrow> bool \<times> goose_subscriber" where
  "conf_rev_admits conf_rev s = (case sb_conf_rev s of
     Some expected \<Rightarrow>
       if expected = conf_rev then (True, s\<lparr> sb_conf_rev_mismatch_reported := False \<rparr>)
       else
         let s = count ss_conf_rev_dropped_update s in
         (False, if \<not> sb_conf_rev_mismatch_reported s
                 then sub_emit (ConfRevMismatch conf_rev expected) (s\<lparr> sb_conf_rev_mismatch_reported := True \<rparr>) else s)
   | None \<Rightarrow> (True, s\<lparr> sb_conf_rev := Some conf_rev \<rparr>))"

definition addressed_to_us :: "bytes \<Rightarrow> goose_subscriber \<Rightarrow> bool" where
  "addressed_to_us frame s = (case address_peek frame of
     Some a \<Rightarrow> fa_ethertype a = ETHERTYPE_GOOSE \<and> fa_dst a = sk_dst (sc_key (sb_cfg s)) \<and>
               fa_appid a = sk_appid (sc_key (sb_cfg s))
   | None \<Rightarrow> False)"

section \<open>A received frame\<close>

text \<open>What an accepted frame leaves: the deltas against the last one, and the new last one.\<close>

definition record_accepted :: "instant \<Rightarrow> goose_view \<Rightarrow> bool \<Rightarrow> goose_subscriber \<Rightarrow> goose_subscriber" where
  "record_accepted now pdu state_change s =
     (let s = count ss_accepted_update s;
          s = s\<lparr> sb_deltas := map_option (\<lambda>prev. \<lparr>
                 fd_st_diff = ucast (gv_st_num pdu) - ucast (ac_st_num prev),
                 fd_sq_diff = ucast (gv_sq_num pdu) - ucast (ac_sq_num prev),
                 fd_arrival_delta = nanos_since now (ac_arrived_at prev),
                 fd_t_delta = utc_to_unix_nanos (gv_t pdu) - utc_to_unix_nanos (ac_t prev),
                 fd_since_state_change = (case sb_state_changed_at s of None \<Rightarrow> 0 | Some at' \<Rightarrow> nanos_since now at') \<rparr>) (sb_state s) \<rparr>;
          s = (if state_change then s\<lparr> sb_state_changed_at := Some now \<rparr> else s);
          s = s\<lparr> sb_state := Some \<lparr> ac_st_num = gv_st_num pdu, ac_sq_num = gv_sq_num pdu, ac_arrived_at = now,
                 ac_t = gv_t pdu, ac_expires_at = plus_millis now (ucast (gv_time_allowed_to_live pdu)) \<rparr>,
                 sb_expired := False \<rparr>
      in if gv_nds_com pdu \<noteq> sb_nds_com s then
           let s = count ss_commissioning_changes_update (s\<lparr> sb_nds_com := gv_nds_com pdu \<rparr>)
           in if gv_nds_com pdu then sub_emit NeedsCommissioning s else s
         else s)"

definition accept_pdu :: "instant \<Rightarrow> goose_view \<Rightarrow> goose_subscriber \<Rightarrow> goose_subscriber" where
  "accept_pdu now pdu s = (case sub_verdict pdu s of
     VReplay \<Rightarrow> reject (Replay (gv_st_num pdu) (gv_sq_num pdu)) s
   | VNew \<Rightarrow> (case all_data_owned pdu (sc_limits (sb_cfg s)) of
       Inl e \<Rightarrow> reject (Malformed e) s
     | Inr vs \<Rightarrow> record_accepted now pdu True
         (sub_emit (NewState (gv_st_num pdu) (gv_t pdu) vs (gv_simulation pdu))
           (count ss_state_changes_update (count_missed_states (gv_st_num pdu) s))))
   | VRetransmission \<Rightarrow> record_accepted now pdu False
       (sub_emit (Retransmission (gv_st_num pdu) (gv_sq_num pdu)) (count ss_retransmissions_update s)))"

definition sub_on_frame :: "instant \<Rightarrow> bytes \<Rightarrow> goose_subscriber \<Rightarrow> goose_subscriber" where
  "sub_on_frame now frame s =
     (let s = check_expiry now s in
      case frame_parse frame of
        Inl e \<Rightarrow> if addressed_to_us frame s then reject (Malformed e) s else other s
      | Inr fr \<Rightarrow>
          if fr_ethertype fr \<noteq> ETHERTYPE_GOOSE \<or> fr_dst fr \<noteq> sk_dst (sc_key (sb_cfg s)) \<or>
             fr_appid fr \<noteq> sk_appid (sc_key (sb_cfg s)) then other s
          else case goose_parse (fr_apdu fr) of
            Inl e \<Rightarrow> reject (Malformed e) s
          | Inr pdu \<Rightarrow>
              if gv_gocb_ref pdu \<noteq> sk_gocb_ref (sc_key (sb_cfg s)) then other s
              else if gv_simulation pdu \<noteq> frame_simulation fr then reject SimulationMismatch s
              else if \<not> member_count_matches pdu then reject MemberCountMismatch s
              else let (admitted, s) = simulation_policy_admits (gv_simulation pdu) s in
                if \<not> admitted then s
                else let (admitted, s) = conf_rev_admits (gv_conf_rev pdu) s in
                  if \<not> admitted then s else accept_pdu now pdu s)"

text \<open>Feed a frame and drain the events: the queue is popped until it is empty.\<close>

function drain_events :: "goose_subscriber \<Rightarrow> subscriber_event list \<times> goose_subscriber" where
  "drain_events s = (case sub_poll_event s of
     (None, s') \<Rightarrow> ([], s')
   | (Some e, s') \<Rightarrow> (let (es, s'') = drain_events s' in (e # es, s'')))"
  by pat_completeness auto
termination
  by (relation "measure (\<lambda>s. length (q_items (sb_events s)))")
    (auto simp: sub_poll_event_def queue_pop_def split: list.splits)

declare drain_events.simps [simp del]

definition sub_feed :: "instant \<Rightarrow> bytes \<Rightarrow> goose_subscriber \<Rightarrow> subscriber_event list \<times> goose_subscriber" where
  "sub_feed now frame s = drain_events (sub_on_frame now frame s)"

section \<open>What each step touches\<close>

lemma emit_simps [simp]:
  "sb_cfg (sub_emit e s) = sb_cfg s" "sb_state (sub_emit e s) = sb_state s" "sb_conf_rev (sub_emit e s) = sb_conf_rev s"
  "sb_conf_rev_mismatch_reported (sub_emit e s) = sb_conf_rev_mismatch_reported s" "sb_nds_com (sub_emit e s) = sb_nds_com s"
  "sb_simulation_reported (sub_emit e s) = sb_simulation_reported s"
  "sb_simulation_active (sub_emit e s) = sb_simulation_active s" "sb_expired (sub_emit e s) = sb_expired s"
  "sb_events (sub_emit e s) = queue_push e (sb_events s)"
  "sb_stats (sub_emit e s) = (sb_stats s)\<lparr> ss_events_dropped := q_dropped (queue_push e (sb_events s)) \<rparr>"
  "sb_deltas (sub_emit e s) = sb_deltas s" "sb_state_changed_at (sub_emit e s) = sb_state_changed_at s"
  by (simp_all add: sub_emit_def Let_def)

lemma count_simps [simp]:
  "sb_cfg (count u s) = sb_cfg s" "sb_state (count u s) = sb_state s" "sb_conf_rev (count u s) = sb_conf_rev s"
  "sb_conf_rev_mismatch_reported (count u s) = sb_conf_rev_mismatch_reported s" "sb_nds_com (count u s) = sb_nds_com s"
  "sb_simulation_reported (count u s) = sb_simulation_reported s"
  "sb_simulation_active (count u s) = sb_simulation_active s" "sb_expired (count u s) = sb_expired s"
  "sb_events (count u s) = sb_events s" "sb_stats (count u s) = u (\<lambda>n. sat_add n 1) (sb_stats s)"
  "sb_deltas (count u s) = sb_deltas s" "sb_state_changed_at (count u s) = sb_state_changed_at s"
  by (simp_all add: count_def)

lemma missed_simps [simp]:
  "sb_cfg (count_missed_states n s) = sb_cfg s" "sb_state (count_missed_states n s) = sb_state s"
  "sb_conf_rev (count_missed_states n s) = sb_conf_rev s" "sb_nds_com (count_missed_states n s) = sb_nds_com s"
  "sb_conf_rev_mismatch_reported (count_missed_states n s) = sb_conf_rev_mismatch_reported s"
  "sb_simulation_reported (count_missed_states n s) = sb_simulation_reported s"
  "sb_simulation_active (count_missed_states n s) = sb_simulation_active s"
  "sb_expired (count_missed_states n s) = sb_expired s" "sb_events (count_missed_states n s) = sb_events s"
  "sb_deltas (count_missed_states n s) = sb_deltas s" "sb_state_changed_at (count_missed_states n s) = sb_state_changed_at s"
  by (simp_all add: count_missed_states_def Let_def split: option.split bool.split)

text \<open>A frame ends in one of five ways.\<close>

definition drops :: "goose_view \<Rightarrow> goose_subscriber \<Rightarrow> goose_subscriber \<Rightarrow> bool" where
  "drops pdu s t \<longleftrightarrow> simulation_policy_admits (gv_simulation pdu) s = (False, t) \<or>
     (\<exists>u. simulation_policy_admits (gv_simulation pdu) s = (True, u) \<and> conf_rev_admits (gv_conf_rev pdu) u = (False, t))"

definition admits :: "goose_view \<Rightarrow> goose_subscriber \<Rightarrow> goose_subscriber \<Rightarrow> bool" where
  "admits pdu s t \<longleftrightarrow> (\<exists>u. simulation_policy_admits (gv_simulation pdu) s = (True, u) \<and>
     conf_rev_admits (gv_conf_rev pdu) u = (True, t))"

text \<open>The PDU of a frame of this stream that passes the checks on its form.\<close>

definition stream_pdu :: "bytes \<Rightarrow> goose_subscriber \<Rightarrow> goose_view option" where
  "stream_pdu frame s = (case frame_parse frame of
     Inl _ \<Rightarrow> None
   | Inr fr \<Rightarrow>
       if fr_ethertype fr \<noteq> ETHERTYPE_GOOSE \<or> fr_dst fr \<noteq> sk_dst (sc_key (sb_cfg s)) \<or>
          fr_appid fr \<noteq> sk_appid (sc_key (sb_cfg s)) then None
       else case goose_parse (fr_apdu fr) of
         Inl _ \<Rightarrow> None
       | Inr pdu \<Rightarrow>
           if gv_gocb_ref pdu = sk_gocb_ref (sc_key (sb_cfg s)) \<and> gv_simulation pdu = frame_simulation fr \<and>
              member_count_matches pdu then Some pdu else None)"

lemma check_expiry_cfg [simp]: "sb_cfg (check_expiry now s) = sb_cfg s"
  by (simp add: check_expiry_def split: option.split)

lemma on_frame_cases:
  obtains (other) "stream_pdu f s = None" "sub_on_frame now f s = other (check_expiry now s)"
  | (rejected) why where "stream_pdu f s = None" "sub_on_frame now f s = reject why (check_expiry now s)"
      "\<forall>st sq. why \<noteq> Replay st sq"
  | (dropped) pdu t where "stream_pdu f s = Some pdu" "drops pdu (check_expiry now s) t" "sub_on_frame now f s = t"
  | (admitted) pdu t where "stream_pdu f s = Some pdu" "admits pdu (check_expiry now s) t" "sub_on_frame now f s = accept_pdu now pdu t"
proof (cases "stream_pdu f s")
  case None
  then have "sub_on_frame now f s = other (check_expiry now s) \<or>
      (\<exists>why. sub_on_frame now f s = reject why (check_expiry now s) \<and> (\<forall>st sq. why \<noteq> Replay st sq))"
    by (force simp: stream_pdu_def sub_on_frame_def Let_def split: sum.splits if_splits)
  then show thesis using None other rejected by blast
next
  case (Some pdu)
  then have e: "sub_on_frame now f s = (let (admitted, s) = simulation_policy_admits (gv_simulation pdu) (check_expiry now s) in
                if \<not> admitted then s
                else let (admitted, s) = conf_rev_admits (gv_conf_rev pdu) s in
                  if \<not> admitted then s else accept_pdu now pdu s)"
    by (auto simp: stream_pdu_def sub_on_frame_def Let_def split: sum.splits if_splits)
  obtain b u where u: "simulation_policy_admits (gv_simulation pdu) (check_expiry now s) = (b, u)" by fastforce
  obtain c t where t: "conf_rev_admits (gv_conf_rev pdu) u = (c, t)" by fastforce
  show thesis
  proof (cases "b \<and> c")
    case True
    then show thesis using admitted [OF Some] u t by (simp add: e admits_def)
  next
    case False
    then show thesis using dropped [OF Some] u t by (cases b) (simp_all add: e drops_def)
  qed
qed

section \<open>Every frame is counted once\<close>

definition frames_counted :: "subscriber_stats \<Rightarrow> nat" where
  "frames_counted st = unat (ss_accepted st) + unat (ss_replays st) + unat (ss_malformed st) +
     unat (ss_simulation_mismatches st) + unat (ss_member_count_mismatches st) + unat (ss_simulation_dropped st) +
     unat (ss_conf_rev_dropped st) + unat (ss_other_stream st)"

definition verdicts_counted :: "subscriber_stats \<Rightarrow> nat" where
  "verdicts_counted st = unat (ss_state_changes st) + unat (ss_retransmissions st)"

lemma counted_dropped [simp]:
  "frames_counted (st\<lparr> ss_events_dropped := x \<rparr>) = frames_counted st"
  "verdicts_counted (st\<lparr> ss_events_dropped := x \<rparr>) = verdicts_counted st"
  by (simp_all add: frames_counted_def verdicts_counted_def)

definition stats_agree :: "subscriber_stats \<Rightarrow> subscriber_stats \<Rightarrow> bool" where
  "stats_agree a b \<longleftrightarrow> frames_counted b = frames_counted a \<and> verdicts_counted b = verdicts_counted a \<and>
     ss_accepted b = ss_accepted a"

lemma stats_agree_refl: "stats_agree a a"
  by (simp add: stats_agree_def)

lemma stats_agree_trans: "stats_agree a b \<Longrightarrow> stats_agree b c \<Longrightarrow> stats_agree a c"
  by (simp add: stats_agree_def)

lemma stats_agree_emit: "stats_agree (sb_stats s) (sb_stats (sub_emit e s))"
  by (simp add: stats_agree_def frames_counted_def verdicts_counted_def)

lemma check_expiry_stats: "stats_agree (sb_stats s) (sb_stats (check_expiry now s))"
  by (simp add: check_expiry_def stats_agree_def frames_counted_def verdicts_counted_def split: option.split)

lemma unat_count: "unat n < 2 ^ 64 - 1 \<Longrightarrow> unat (sat_add n (1 :: u64)) = unat n + 1"
  by (simp add: unat_sat_add)

lemma reject_counts:
  assumes "frames_counted (sb_stats s) < 2 ^ 64 - 1"
  shows "frames_counted (sb_stats (reject why s)) = frames_counted (sb_stats s) + 1"
    "verdicts_counted (sb_stats (reject why s)) = verdicts_counted (sb_stats s)"
    "ss_accepted (sb_stats (reject why s)) = ss_accepted (sb_stats s)"
  using assms by (auto simp: reject_def frames_counted_def verdicts_counted_def unat_count split: invalid.split)

lemma other_counts:
  assumes "frames_counted (sb_stats s) < 2 ^ 64 - 1"
  shows "frames_counted (sb_stats (other s)) = frames_counted (sb_stats s) + 1"
    "verdicts_counted (sb_stats (other s)) = verdicts_counted (sb_stats s)"
    "ss_accepted (sb_stats (other s)) = ss_accepted (sb_stats s)"
  using assms by (auto simp: other_def frames_counted_def verdicts_counted_def unat_count)

lemma policy_stats:
  "simulation_policy_admits b s = (True, t) \<Longrightarrow> stats_agree (sb_stats s) (sb_stats t)"
  "conf_rev_admits n s = (True, t) \<Longrightarrow> stats_agree (sb_stats s) (sb_stats t)"
  by (auto simp: simulation_policy_admits_def conf_rev_admits_def Let_def forget_source_def stats_agree_def
      frames_counted_def verdicts_counted_def split: simulation_mode.splits bool.splits option.splits if_splits)

lemma policy_drop_stats:
  assumes "frames_counted (sb_stats s) < 2 ^ 64 - 1"
  shows "simulation_policy_admits b s = (False, t) \<Longrightarrow> frames_counted (sb_stats t) = frames_counted (sb_stats s) + 1 \<and>
      verdicts_counted (sb_stats t) = verdicts_counted (sb_stats s) \<and> ss_accepted (sb_stats t) = ss_accepted (sb_stats s)"
    "conf_rev_admits n s = (False, t) \<Longrightarrow> frames_counted (sb_stats t) = frames_counted (sb_stats s) + 1 \<and>
      verdicts_counted (sb_stats t) = verdicts_counted (sb_stats s) \<and> ss_accepted (sb_stats t) = ss_accepted (sb_stats s)"
  using assms by (auto simp: simulation_policy_admits_def conf_rev_admits_def Let_def forget_source_def
      frames_counted_def verdicts_counted_def unat_count split: simulation_mode.splits bool.splits option.splits if_splits)

lemma missed_stats: "stats_agree (sb_stats s) (sb_stats (count_missed_states n s))"
  by (auto simp: count_missed_states_def Let_def stats_agree_def frames_counted_def verdicts_counted_def
      split: option.split bool.split)

lemma record_accepted_stats:
  assumes "frames_counted (sb_stats s) < 2 ^ 64 - 1"
  shows "frames_counted (sb_stats (record_accepted now pdu b s)) = frames_counted (sb_stats s) + 1 \<and>
    verdicts_counted (sb_stats (record_accepted now pdu b s)) = verdicts_counted (sb_stats s) \<and>
    unat (ss_accepted (sb_stats (record_accepted now pdu b s))) = unat (ss_accepted (sb_stats s)) + 1"
  using assms by (simp add: record_accepted_def Let_def frames_counted_def verdicts_counted_def unat_count)

lemma verdict_counts:
  assumes "verdicts_counted (sb_stats s) < 2 ^ 64 - 1"
  shows "frames_counted (sb_stats (count ss_retransmissions_update s)) = frames_counted (sb_stats s)"
    "verdicts_counted (sb_stats (count ss_retransmissions_update s)) = verdicts_counted (sb_stats s) + 1"
    "ss_accepted (sb_stats (count ss_retransmissions_update s)) = ss_accepted (sb_stats s)"
    "frames_counted (sb_stats (count ss_state_changes_update s)) = frames_counted (sb_stats s)"
    "verdicts_counted (sb_stats (count ss_state_changes_update s)) = verdicts_counted (sb_stats s) + 1"
    "ss_accepted (sb_stats (count ss_state_changes_update s)) = ss_accepted (sb_stats s)"
  using assms by (simp_all add: frames_counted_def verdicts_counted_def unat_count)

lemma accept_pdu_stats:
  assumes "frames_counted (sb_stats s) < 2 ^ 64 - 1" and "verdicts_counted (sb_stats s) = unat (ss_accepted (sb_stats s))"
  shows "frames_counted (sb_stats (accept_pdu now pdu s)) = frames_counted (sb_stats s) + 1 \<and>
    verdicts_counted (sb_stats (accept_pdu now pdu s)) = unat (ss_accepted (sb_stats (accept_pdu now pdu s)))"
proof -
  have v: "verdicts_counted (sb_stats s) < 2 ^ 64 - 1" using assms by (simp add: frames_counted_def)
  define t where "t = count ss_retransmissions_update s"
  define u where "u = count ss_state_changes_update (count_missed_states (gv_st_num pdu) s)"
  have t: "frames_counted (sb_stats t) = frames_counted (sb_stats s)" "verdicts_counted (sb_stats t) = verdicts_counted (sb_stats s) + 1"
    "ss_accepted (sb_stats t) = ss_accepted (sb_stats s)"
    using v verdict_counts [of s] by (simp_all add: t_def)
  have u: "frames_counted (sb_stats u) = frames_counted (sb_stats s)" "verdicts_counted (sb_stats u) = verdicts_counted (sb_stats s) + 1"
    "ss_accepted (sb_stats u) = ss_accepted (sb_stats s)"
    using v missed_stats [of s "gv_st_num pdu"] verdict_counts [of "count_missed_states (gv_st_num pdu) s"]
    by (simp_all add: u_def stats_agree_def)
  show ?thesis
    using assms reject_counts [of s] record_accepted_stats [of "sub_emit _ t"] record_accepted_stats [of "sub_emit _ u"]
    unfolding accept_pdu_def t_def [symmetric] u_def [symmetric] by (simp add: t u split: verdict.split sum.split)
qed

lemma on_frame_stats:
  assumes "frames_counted (sb_stats s) < 2 ^ 64 - 1" and "verdicts_counted (sb_stats s) = unat (ss_accepted (sb_stats s))"
  shows "frames_counted (sb_stats (sub_on_frame now f s)) = frames_counted (sb_stats s) + 1 \<and>
    verdicts_counted (sb_stats (sub_on_frame now f s)) = unat (ss_accepted (sb_stats (sub_on_frame now f s)))"
proof -
  let ?c = "check_expiry now s"
  have c: "frames_counted (sb_stats ?c) = frames_counted (sb_stats s)" "verdicts_counted (sb_stats ?c) = verdicts_counted (sb_stats s)"
    "ss_accepted (sb_stats ?c) = ss_accepted (sb_stats s)"
    using check_expiry_stats [of s now] by (simp_all add: stats_agree_def)
  show ?thesis
  proof (cases rule: on_frame_cases [of f s now])
    case other
    then show ?thesis using other_counts [of ?c] assms c by simp
  next
    case (rejected why)
    then show ?thesis using reject_counts [of ?c] assms c by simp
  next
    case (dropped pdu t)
    then show ?thesis
      using policy_drop_stats [of ?c] policy_stats(1) [of _ ?c] policy_drop_stats(2) assms c unfolding drops_def stats_agree_def
      by metis
  next
    case (admitted pdu t)
    then have "stats_agree (sb_stats ?c) (sb_stats t)"
      using policy_stats unfolding admits_def by (metis stats_agree_trans)
    then show ?thesis using accept_pdu_stats [of t] admitted assms c by (simp add: stats_agree_def)
  qed
qed

text \<open>What a driver does with a subscriber: feed it frames and ticks, and take its events.\<close>

datatype sub_input = Frame instant bytes | Tick instant | Poll | ResetSimulation

fun sub_step :: "sub_input \<Rightarrow> goose_subscriber \<Rightarrow> goose_subscriber" where
  "sub_step (Frame now f) s = sub_on_frame now f s"
| "sub_step (Tick now) s = sub_on_timeout now s"
| "sub_step Poll s = snd (sub_poll_event s)"
| "sub_step ResetSimulation s = reset_simulation s"

fun is_frame :: "sub_input \<Rightarrow> bool" where
  "is_frame (Frame now f) = True"
| "is_frame i = False"

lemma step_stats:
  "\<not> is_frame i \<Longrightarrow> stats_agree (sb_stats s) (sb_stats (sub_step i s))"
  using check_expiry_stats [of s]
  by (cases i) (auto simp: sub_on_timeout_def sub_poll_event_def reset_simulation_def forget_source_def stats_agree_def
      split: prod.split)

text \<open>
  C21: every frame fed to a subscriber is counted exactly once, as accepted or under the one
  reason it was not, and every accepted frame is counted as a state change or a retransmission,
  whatever ticks, polls and resets come in between (until a counter would pass the top of \<open>u64\<close>).
\<close>

theorem every_frame_counted_once:
  assumes "length (filter is_frame inputs) < 2 ^ 64"
  shows "frames_counted (sb_stats (fold sub_step inputs (goose_sub_new cfg))) = length (filter is_frame inputs) \<and>
    verdicts_counted (sb_stats (fold sub_step inputs (goose_sub_new cfg))) =
      unat (ss_accepted (sb_stats (fold sub_step inputs (goose_sub_new cfg))))"
  using assms
proof (induction inputs rule: rev_induct)
  case Nil
  then show ?case by (simp add: goose_sub_new_def stats_default_def frames_counted_def verdicts_counted_def)
next
  case (snoc i inputs)
  then show ?case
    using step_stats [of i] on_frame_stats [of "fold sub_step inputs (goose_sub_new cfg)"]
    by (cases i) (simp_all add: stats_agree_def)
qed

definition sample_key :: subscription_key where
  "sample_key = \<lparr> sk_dst = [1, 0x0C, 0xCD, 1, 0, 1], sk_appid = 0x3001, sk_gocb_ref = ''IED1LD0/LLN0$GO$g1'' \<rparr>"

theorem every_frame_counted_once_witness:
  "frames_counted (sb_stats (fold sub_step [Frame 1 [0x88], Tick 5, Poll, Frame 9 []] (goose_sub_new (sub_config_new sample_key)))) = 2"
  using every_frame_counted_once [of "[Frame 1 [0x88], Tick 5, Poll, Frame 9 []]" "sub_config_new sample_key"] by simp

section \<open>The timer\<close>

interpretation sub_timer: timed_core sub_on_timeout sub_next_timeout "\<lambda>_ _. True"
  by unfold_locales
    (auto simp: sub_on_timeout_def sub_next_timeout_def check_expiry_def not_le split: option.splits if_splits)

section \<open>The invariant of a subscriber\<close>

inductive sub_reachable :: "goose_sub_config \<Rightarrow> goose_subscriber \<Rightarrow> bool" for cfg where
  start: "sub_reachable cfg (goose_sub_new cfg)"
| step: "sub_reachable cfg s \<Longrightarrow> sub_reachable cfg (sub_step i s)"

definition queue_inv :: "goose_subscriber \<Rightarrow> bool" where
  "queue_inv s \<longleftrightarrow> queue_ok (sb_events s) \<and> q_capacity (sb_events s) = max (sc_event_capacity (sb_cfg s)) 1 \<and>
     ss_events_dropped (sb_stats s) = q_dropped (sb_events s)"

text \<open>What is known of the stream, and when: nothing before the first accepted frame.\<close>

definition source_inv :: "goose_subscriber \<Rightarrow> bool" where
  "source_inv s \<longleftrightarrow> (sb_state s = None \<longleftrightarrow> sb_state_changed_at s = None) \<and>
     (sb_state s = None \<longrightarrow> \<not> sb_expired s \<and> sb_deltas s = None \<and> \<not> sb_nds_com s)"

text \<open>What the application may be told under the policies.\<close>

definition policy_inv :: "goose_subscriber \<Rightarrow> bool" where
  "policy_inv s \<longleftrightarrow> (sc_simulation (sb_cfg s) = Off \<longrightarrow> \<not> sb_simulation_active s \<and>
       (\<forall>n t vs. NewState n t vs True \<notin> set (q_items (sb_events s)))) \<and>
     (\<forall>rev. sc_expected_conf_rev (sb_cfg s) = Some rev \<longrightarrow> sb_conf_rev s = Some rev)"

definition sub_inv :: "goose_subscriber \<Rightarrow> bool" where
  "sub_inv s \<longleftrightarrow> queue_inv s \<and> source_inv s \<and> policy_inv s"

lemmas sub_inv_defs = sub_inv_def source_inv_def policy_inv_def

lemma queue_push_items: "set (q_items (queue_push e q)) \<subseteq> insert e (set (q_items q))"
  using set_drop_subset [of 1 "q_items q"] by (auto simp: queue_push_def Let_def drop_Suc)

lemma emit_queue_inv: "queue_inv s \<Longrightarrow> queue_inv (sub_emit e s)"
  by (simp add: queue_inv_def event_q.ok_push)

lemma emit_inv:
  assumes "sub_inv s" and "sc_simulation (sb_cfg s) = Off \<Longrightarrow> \<forall>n t vs. e \<noteq> NewState n t vs True"
  shows "sub_inv (sub_emit e s)"
  using assms emit_queue_inv [of s e] queue_push_items [of e "sb_events s"]
  by (auto simp: sub_inv_defs)

lemma check_expiry_inv: "sub_inv s \<Longrightarrow> sub_inv (check_expiry now s)"
  by (auto simp: check_expiry_def split: option.split intro!: emit_inv) (auto simp: sub_inv_defs queue_inv_def)

lemma reject_inv: "sub_inv s \<Longrightarrow> sub_inv (reject why s)"
  unfolding reject_def by (rule emit_inv) (auto simp: sub_inv_defs queue_inv_def split: invalid.split)

lemma other_inv: "sub_inv s \<Longrightarrow> sub_inv (other s)"
  by (auto simp: other_def sub_inv_defs queue_inv_def)

lemma forget_inv: "sub_inv s \<Longrightarrow> sub_inv (forget_source s)"
  by (auto simp: forget_source_def sub_inv_defs queue_inv_def)

lemma simulation_policy_inv:
  assumes "sub_inv s" and "simulation_policy_admits b s = (a, t)"
  shows "sub_inv t" "a \<Longrightarrow> sc_simulation (sb_cfg t) = Off \<Longrightarrow> \<not> b" "sb_cfg t = sb_cfg s"
proof -
  have t: "t = snd (simulation_policy_admits b s)" and a: "a = fst (simulation_policy_admits b s)" using assms(2) by simp_all
  show "sb_cfg t = sb_cfg s"
    unfolding t by (simp add: simulation_policy_admits_def Let_def forget_source_def split: simulation_mode.split bool.split)
  have "sub_inv (forget_source (s\<lparr> sb_simulation_active := True \<rparr>))" if "sc_simulation (sb_cfg s) = Preferred"
    using assms(1) that by (auto simp: forget_source_def sub_inv_defs queue_inv_def)
  then show "sub_inv t"
    using assms(1) unfolding t
    by (auto simp: simulation_policy_admits_def Let_def split: simulation_mode.split bool.split intro!: emit_inv)
      (auto simp: sub_inv_defs queue_inv_def)
  show "a \<Longrightarrow> sc_simulation (sb_cfg t) = Off \<Longrightarrow> \<not> b"
    unfolding \<open>sb_cfg t = sb_cfg s\<close> a by (auto simp: simulation_policy_admits_def Let_def)
qed

lemma conf_rev_inv:
  assumes "sub_inv s" and "conf_rev_admits n s = (a, t)"
  shows "sub_inv t" "sb_cfg t = sb_cfg s"
proof -
  have t: "t = snd (conf_rev_admits n s)" using assms(2) by simp
  show "sb_cfg t = sb_cfg s" unfolding t by (simp add: conf_rev_admits_def Let_def split: option.split)
  show "sub_inv t"
    using assms(1) unfolding t
    by (auto simp: conf_rev_admits_def Let_def split: option.split intro!: emit_inv) (auto simp: sub_inv_defs queue_inv_def)
qed

lemma record_accepted_inv:
  assumes "sub_inv s" "b \<or> sb_state_changed_at s \<noteq> None"
  shows "sub_inv (record_accepted now pdu b s)"
  using assms unfolding record_accepted_def Let_def
  by (auto intro!: emit_inv) (auto simp: sub_inv_defs queue_inv_def)

lemma record_accepted_cfg [simp]: "sb_cfg (record_accepted now pdu b s) = sb_cfg s"
  by (simp add: record_accepted_def Let_def)

lemma accept_pdu_inv:
  assumes inv: "sub_inv s" and off: "sc_simulation (sb_cfg s) = Off \<Longrightarrow> \<not> gv_simulation pdu"
  shows "sub_inv (accept_pdu now pdu s)"
proof (cases "sub_verdict pdu s")
  case VReplay
  then show ?thesis using inv by (simp add: accept_pdu_def reject_inv)
next
  case VRetransmission
  then have "sb_state s \<noteq> None" by (auto simp: sub_verdict_def split: option.splits)
  then have at': "sb_state_changed_at s \<noteq> None" using inv by (auto simp: sub_inv_def source_inv_def)
  have i: "sub_inv (sub_emit (Retransmission (gv_st_num pdu) (gv_sq_num pdu)) (count ss_retransmissions_update s))"
    using inv by (intro emit_inv) (auto simp: sub_inv_defs queue_inv_def)
  from record_accepted_inv [OF i, of False]
  show ?thesis using VRetransmission at' by (simp add: accept_pdu_def)
next
  case VNew
  show ?thesis
  proof (cases "all_data_owned pdu (sc_limits (sb_cfg s))")
    case (Inl e)
    then show ?thesis using inv VNew by (simp add: accept_pdu_def reject_inv)
  next
    case (Inr vs)
    have "sub_inv (count ss_state_changes_update (count_missed_states (gv_st_num pdu) s))"
      using inv by (auto simp: sub_inv_defs queue_inv_def count_missed_states_def Let_def split: option.splits bool.splits)
    then have "sub_inv (sub_emit (NewState (gv_st_num pdu) (gv_t pdu) vs (gv_simulation pdu))
        (count ss_state_changes_update (count_missed_states (gv_st_num pdu) s)))"
      by (rule emit_inv) (use off in simp)
    from record_accepted_inv [OF this, of True]
    show ?thesis using VNew Inr by (simp add: accept_pdu_def)
  qed
qed

lemma on_frame_inv:
  assumes "sub_inv s"
  shows "sub_inv (sub_on_frame now f s)"
proof -
  note c = check_expiry_inv [OF assms, of now]
  show ?thesis
  proof (cases rule: on_frame_cases [of f s now])
    case other
    then show ?thesis using c by (simp add: other_inv)
  next
    case (rejected why)
    then show ?thesis using c by (simp add: reject_inv)
  next
    case (dropped pdu t)
    then show ?thesis using simulation_policy_inv(1) [OF c] conf_rev_inv(1) unfolding drops_def by blast
  next
    case (admitted pdu t)
    then obtain u where u: "simulation_policy_admits (gv_simulation pdu) (check_expiry now s) = (True, u)"
      "conf_rev_admits (gv_conf_rev pdu) u = (True, t)" unfolding admits_def by blast
    note iu = simulation_policy_inv [OF c u(1)]
    have "sub_inv (accept_pdu now pdu t)"
      using iu conf_rev_inv [OF iu(1) u(2)] by (intro accept_pdu_inv) simp_all
    then show ?thesis using admitted by simp
  qed
qed

lemma sub_step_inv: "sub_inv s \<Longrightarrow> sub_inv (sub_step i s)"
proof (cases i)
  case Poll
  assume inv: "sub_inv s"
  have "queue_ok (snd (queue_pop (sb_events s)))" using inv event_q.ok_pop by (auto simp: sub_inv_def queue_inv_def)
  moreover have "q_capacity (snd (queue_pop (sb_events s))) = q_capacity (sb_events s)"
    "set (q_items (snd (queue_pop (sb_events s)))) \<subseteq> set (q_items (sb_events s))"
    by (auto simp: queue_pop_def split: list.splits)
  ultimately show ?thesis
    using inv Poll by (auto simp: sub_poll_event_def sub_inv_defs queue_inv_def split: prod.splits)
next
  case ResetSimulation
  assume "sub_inv s"
  then have "sub_inv (s\<lparr> sb_simulation_active := False \<rparr>)" by (auto simp: sub_inv_defs queue_inv_def)
  then show ?thesis using ResetSimulation by (simp add: reset_simulation_def forget_inv)
qed (simp_all add: on_frame_inv sub_on_timeout_def check_expiry_inv)

lemma sub_new_inv: "sub_inv (goose_sub_new cfg)"
  by (simp add: sub_inv_defs queue_inv_def goose_sub_new_def stats_default_def queue_new_def queue_ok_def)

text \<open>
  C20: whatever frames, ticks, polls and resets a subscriber has seen, its event queue is
  within its capacity and its loss is what the statistics say; expiry, deltas, commissioning and the time
  of the last change are only known once a frame has been accepted; an expected \<open>confRev\<close> is never
  replaced; and a subscriber with simulation off never has a simulated state in its queue.
\<close>

theorem subscriber_invariant:
  "sub_reachable cfg s \<Longrightarrow> sub_inv s"
  by (induction rule: sub_reachable.induct) (simp_all add: sub_new_inv sub_step_inv)

theorem subscriber_invariant_witness:
  "sub_inv (sub_step (Tick 3) (sub_step (Frame 2 [1, 2, 3]) (goose_sub_new (sub_config_new sample_key))))"
  by (rule subscriber_invariant [OF sub_reachable.step [OF sub_reachable.step [OF sub_reachable.start]]])

section \<open>Replay protection\<close>

definition advances :: "u32 \<times> u32 \<Rightarrow> u32 \<times> u32 \<Rightarrow> bool" where
  "advances a b \<longleftrightarrow> (if fst b = fst a then snd a < snd b \<or> wrapped (snd a) (snd b)
     else fst a < fst b \<or> wrapped (fst a) (fst b))"

definition numbers :: "accepted \<Rightarrow> u32 \<times> u32" where
  "numbers a = (ac_st_num a, ac_sq_num a)"

definition follows :: "instant \<Rightarrow> goose_subscriber \<Rightarrow> accepted \<Rightarrow> bool" where
  "follows now s a \<longleftrightarrow> sb_state s = Some a \<and> \<not> sb_expired s \<and> now < ac_expires_at a \<and>
     (sc_simulation (sb_cfg s) = Off \<or> sb_simulation_active s)"

lemma not_wrapped_self: "\<not> wrapped n n"
  by (auto simp: wrapped_def SEQ_WRAP_WINDOW_def word_less_nat_alt word_le_nat_alt)

lemma advances_irrefl: "\<not> advances a a"
  by (simp add: advances_def not_wrapped_self)

lemma follows_check: "follows now s a \<Longrightarrow> check_expiry now s = s"
  by (auto simp: follows_def check_expiry_def)

lemma record_accepted_simps [simp]:
  "sb_state (record_accepted now pdu b s) = Some \<lparr> ac_st_num = gv_st_num pdu, ac_sq_num = gv_sq_num pdu,
     ac_arrived_at = now, ac_t = gv_t pdu, ac_expires_at = plus_millis now (ucast (gv_time_allowed_to_live pdu)) \<rparr>"
  "sb_expired (record_accepted now pdu b s) = False"
  "sb_conf_rev (record_accepted now pdu b s) = sb_conf_rev s"
  "sb_simulation_active (record_accepted now pdu b s) = sb_simulation_active s"
  by (simp_all add: record_accepted_def Let_def)

lemma reject_simps [simp]:
  "sb_state (reject why s) = sb_state s" "sb_expired (reject why s) = sb_expired s"
  "sb_cfg (reject why s) = sb_cfg s" "sb_simulation_active (reject why s) = sb_simulation_active s"
  by (simp_all add: reject_def split: invalid.split)

lemma other_simps [simp]:
  "sb_state (other s) = sb_state s" "sb_expired (other s) = sb_expired s"
  "sb_cfg (other s) = sb_cfg s" "sb_simulation_active (other s) = sb_simulation_active s"
  by (simp_all add: other_def)

lemma policy_follows:
  assumes "sc_simulation (sb_cfg s) = Off \<or> sb_simulation_active s"
  shows "simulation_policy_admits b s = (x, t) \<Longrightarrow> sb_state t = sb_state s \<and> sb_expired t = sb_expired s \<and>
      sb_simulation_active t = sb_simulation_active s \<and> sb_cfg t = sb_cfg s"
    "conf_rev_admits n s = (x, t) \<Longrightarrow> sb_state t = sb_state s \<and> sb_expired t = sb_expired s \<and>
      sb_simulation_active t = sb_simulation_active s \<and> sb_cfg t = sb_cfg s"
  using assms by (auto simp: simulation_policy_admits_def conf_rev_admits_def Let_def
      split: simulation_mode.splits bool.splits option.splits if_splits)

definition accepted_of :: "instant \<Rightarrow> goose_view \<Rightarrow> accepted" where
  "accepted_of now pdu = \<lparr> ac_st_num = gv_st_num pdu, ac_sq_num = gv_sq_num pdu, ac_arrived_at = now,
     ac_t = gv_t pdu, ac_expires_at = plus_millis now (ucast (gv_time_allowed_to_live pdu)) \<rparr>"

lemma numbers_accepted_of [simp]: "numbers (accepted_of now pdu) = (gv_st_num pdu, gv_sq_num pdu)"
  by (simp add: numbers_def accepted_of_def)

lemma accept_pdu_advances:
  assumes "sb_state s = Some a" "\<not> sb_expired s"
  shows "sb_state (accept_pdu now pdu s) = Some a \<or>
    sb_state (accept_pdu now pdu s) = Some (accepted_of now pdu) \<and> advances (numbers a) (gv_st_num pdu, gv_sq_num pdu)"
proof -
  have v: "sub_verdict pdu s \<noteq> VReplay \<Longrightarrow> advances (numbers a) (gv_st_num pdu, gv_sq_num pdu)"
    using assms by (auto simp: sub_verdict_def advances_def numbers_def split: if_splits)
  show ?thesis
  proof (cases "sub_verdict pdu s")
    case VNew
    then show ?thesis using v assms by (auto simp: accept_pdu_def accepted_of_def split: sum.split)
  next
    case VRetransmission
    then show ?thesis using v by (simp add: accept_pdu_def accepted_of_def)
  next
    case VReplay
    then show ?thesis using assms by (simp add: accept_pdu_def)
  qed
qed

text \<open>One frame: while the accepted state is live, another is only accepted if it advances.\<close>

lemma follow_step:
  assumes "follows now s a"
  shows "sb_state (sub_on_frame now f s) = Some a \<or>
    (\<exists>pdu. stream_pdu f s = Some pdu \<and> sb_state (sub_on_frame now f s) = Some (accepted_of now pdu) \<and>
       advances (numbers a) (gv_st_num pdu, gv_sq_num pdu))"
proof -
  note c = follows_check [OF assms]
  have s: "sb_state s = Some a" "\<not> sb_expired s" "sc_simulation (sb_cfg s) = Off \<or> sb_simulation_active s"
    using assms by (simp_all add: follows_def)
  show ?thesis
  proof (cases rule: on_frame_cases [of f s now])
    case (dropped pdu t)
    then obtain x u y where "simulation_policy_admits (gv_simulation pdu) s = (x, u)" "t = u \<or> conf_rev_admits (gv_conf_rev pdu) u = (y, t)"
      unfolding drops_def c by blast
    then have "sb_state t = sb_state s" using policy_follows s(3) by metis
    then show ?thesis using dropped s by simp
  next
    case (admitted pdu t)
    then obtain u where "simulation_policy_admits (gv_simulation pdu) s = (True, u)" "conf_rev_admits (gv_conf_rev pdu) u = (True, t)"
      unfolding admits_def c by blast
    then have "sb_state t = sb_state s" "sb_expired t = sb_expired s" using policy_follows s(3) by metis+
    then show ?thesis using accept_pdu_advances [of t a now pdu] s admitted by auto
  qed (use s c in simp_all)
qed

text \<open>The numbers accepted from any frames, as long as each arrives while the last accepted is live.\<close>

fun live_run :: "(instant \<times> bytes) list \<Rightarrow> goose_subscriber \<Rightarrow> bool" where
  "live_run [] s = True"
| "live_run ((now, f) # fs) s = ((case sb_state s of Some a \<Rightarrow> follows now s a | None \<Rightarrow> False) \<and>
     live_run fs (sub_on_frame now f s))"

fun accepted_numbers :: "(instant \<times> bytes) list \<Rightarrow> goose_subscriber \<Rightarrow> (u32 \<times> u32) list" where
  "accepted_numbers [] s = []"
| "accepted_numbers ((now, f) # fs) s = (let t = sub_on_frame now f s in
     (if sb_state t = sb_state s then [] else case sb_state t of Some b \<Rightarrow> [numbers b] | None \<Rightarrow> []) @ accepted_numbers fs t)"

text \<open>
  C7: replay protection. Whatever frames arrive, from the publisher or from anyone else, as long
  as each arrives within the time allowed to live of the last accepted one (and no simulated publisher
  takes the stream over), each frame that is accepted advances the state number, or the sequence number
  within the state, of the one accepted before it; so no frame is accepted twice in a row of such frames.
\<close>

theorem accepted_frames_advance:
  assumes "live_run fs s" and "sb_state s = Some a"
  shows "successively advances (numbers a # accepted_numbers fs s)"
  using assms
proof (induction fs s arbitrary: a rule: accepted_numbers.induct)
  case (2 now f fs s)
  then have f: "follows now s a" "live_run fs (sub_on_frame now f s)" by simp_all
  from follow_step [OF f(1), of f] show ?case
    using 2(1) [OF refl f(2)] 2(3) advances_irrefl by (auto simp: Let_def)
qed simp

section \<open>From the publisher to the application\<close>

lemma drain_events_queue:
  "fst (drain_events s) = q_items (sb_events s) \<and> q_items (sb_events (snd (drain_events s))) = [] \<and>
   q_capacity (sb_events (snd (drain_events s))) = q_capacity (sb_events s) \<and> sb_cfg (snd (drain_events s)) = sb_cfg s \<and>
   sb_state (snd (drain_events s)) = sb_state s \<and> sb_expired (snd (drain_events s)) = sb_expired s \<and>
   sb_conf_rev (snd (drain_events s)) = sb_conf_rev s \<and> sb_nds_com (snd (drain_events s)) = sb_nds_com s"
proof (induction s rule: drain_events.induct)
  case (1 s)
  show ?case
  proof (cases "q_items (sb_events s)")
    case Nil
    then show ?thesis by (subst (1 2 3 4 5 6 7 8) drain_events.simps) (simp add: sub_poll_event_def queue_pop_def)
  next
    case (Cons e es)
    let ?t = "s\<lparr> sb_events := (sb_events s)\<lparr> q_items := es \<rparr>,
      sb_stats := (sb_stats s)\<lparr> ss_events_dropped := q_dropped (sb_events s) \<rparr> \<rparr>"
    have p: "sub_poll_event s = (Some e, ?t)" using Cons by (simp add: sub_poll_event_def queue_pop_def)
    have d: "drain_events s = (let (es, u) = drain_events ?t in (e # es, u))" by (subst drain_events.simps) (simp add: p)
    show ?thesis using 1 [OF p [symmetric] refl] Cons unfolding d by (simp add: split_beta)
  qed
qed

text \<open>A subscriber configured for the publisher's stream, neither of them in simulation.\<close>

definition subscribes :: "goose_sub_config \<Rightarrow> goose_pub_config \<Rightarrow> bool" where
  "subscribes cfg pc \<longleftrightarrow> sk_dst (sc_key cfg) = fh_dst (pc_header pc) \<and> sk_appid (sc_key cfg) = fh_appid (pc_header pc) \<and>
     fh_ethertype (pc_header pc) = ETHERTYPE_GOOSE \<and> sk_gocb_ref (sc_key cfg) = pc_gocb_ref pc \<and> sc_simulation cfg = Off \<and>
     sc_expected_conf_rev cfg \<in> {None, Some (pc_conf_rev pc)} \<and> \<not> pc_nds_com pc"

definition ready :: "goose_sub_config \<Rightarrow> goose_pub_config \<Rightarrow> goose_subscriber \<Rightarrow> bool" where
  "ready cfg pc s \<longleftrightarrow> sb_cfg s = cfg \<and> queue_ok (sb_events s) \<and> q_items (sb_events s) = [] \<and> \<not> sb_nds_com s \<and>
     sb_conf_rev s \<in> {None, Some (pc_conf_rev pc)}"

lemma stream_pdu_published:
  assumes sub: "subscribes (sb_cfg s) (pb_cfg p)" "\<not> pb_simulation p" and ok: "pub_ok p"
    and vs: "values_ok l vs" "length vs < 2 ^ 32" "sends p vs"
  shows "\<exists>d. stream_pdu (pub_frame p @ pad) s = Some (goose_view_of (goose_pub_header p) (pb_body p) d (pub_apdu p)) \<and>
    tlv_value d = values_octets vs"
proof -
  obtain d where d: "tlv_value d = values_octets vs"
    "goose_parse (pub_apdu p) = Inr (goose_view_of (goose_pub_header p) (pb_body p) d (pub_apdu p))"
    using pub_frame_parses(2) [OF ok] vs(3) unfolding sends_def by auto
  let ?v = "goose_view_of (goose_pub_header p) (pb_body p) d (pub_apdu p)"
  have "member_count_matches ?v"
    using count_members_values [OF values_ok_fits [OF vs(1)], of "[]" _ 0] d(1) vs(2,3)
    by (simp add: member_count_matches_def member_count_def goose_view_of_def cur_at_start sends_def unat_of_nat)
  moreover have "fh_dst (goose_pub_link p) = fh_dst (pc_header (pb_cfg p))" "fh_appid (goose_pub_link p) = fh_appid (pc_header (pb_cfg p))"
    "fh_ethertype (goose_pub_link p) = fh_ethertype (pc_header (pb_cfg p))"
    by (simp_all add: goose_pub_link_def Let_def)
  moreover have "frame_simulation (frame_of (goose_pub_link p) (pub_apdu p)) = False"
    using simulation_bit [of p] sub(2) by (simp add: frame_of_def frame_simulation_def)
  moreover have "gv_simulation ?v = False" "gv_gocb_ref ?v = pc_gocb_ref (pb_cfg p)"
    using sub(2) by (simp_all add: goose_view_of_def)
  ultimately have "stream_pdu (pub_frame p @ pad) s = Some ?v"
    using sub(1) d(2) unfolding stream_pdu_def pub_frame_parses(1) [OF ok] sum.case
    by (simp add: subscribes_def frame_of_def)
  then show ?thesis using d by blast
qed

lemma ready_admits:
  assumes "ready cfg pc s" "sc_simulation cfg = Off"
  obtains t where "\<And>pdu. \<not> gv_simulation pdu \<Longrightarrow> gv_conf_rev pdu = pc_conf_rev pc \<Longrightarrow> admits pdu s t"
    "ready cfg pc t" "sb_conf_rev t = Some (pc_conf_rev pc)" "sb_state t = sb_state s" "sb_expired t = sb_expired s"
proof
  let ?t = "s\<lparr> sb_simulation_reported := False, sb_conf_rev := Some (pc_conf_rev pc),
    sb_conf_rev_mismatch_reported := (if sb_conf_rev s = None then sb_conf_rev_mismatch_reported s else False) \<rparr>"
  show "admits pdu s ?t" if "\<not> gv_simulation pdu" "gv_conf_rev pdu = pc_conf_rev pc" for pdu
    using assms that by (cases s) (auto simp: admits_def ready_def simulation_policy_admits_def conf_rev_admits_def)
  show "ready cfg pc ?t" using assms by (simp add: ready_def)
qed simp_all

lemma admitted_frame:
  assumes "stream_pdu f s = Some pdu" "admits pdu (check_expiry now s) t"
  shows "sub_on_frame now f s = accept_pdu now pdu t"
  using assms
proof (cases rule: on_frame_cases [of f s now])
  case (dropped pdu' t')
  then show ?thesis using assms by (auto simp: drops_def admits_def)
next
  case (admitted pdu' t')
  then show ?thesis using assms by (auto simp: admits_def)
qed simp_all

lemma push_empty: "queue_ok q \<Longrightarrow> q_items q = [] \<Longrightarrow> q_items (queue_push e q) = [e] \<and> q_capacity (queue_push e q) = q_capacity q"
  by (simp add: queue_push_def queue_ok_def Let_def)

lemma record_quiet:
  "\<not> gv_nds_com pdu \<Longrightarrow> \<not> sb_nds_com s \<Longrightarrow> sb_events (record_accepted now pdu b s) = sb_events s \<and>
    \<not> sb_nds_com (record_accepted now pdu b s)"
  by (simp add: record_accepted_def Let_def)

definition tracking :: "goose_sub_config \<Rightarrow> goose_publisher \<Rightarrow> nat \<Rightarrow> instant \<Rightarrow> goose_subscriber \<Rightarrow> bool" where
  "tracking cfg p n arr s \<longleftrightarrow> ready cfg (pb_cfg p) s \<and> \<not> sb_expired s \<and>
     sb_state s = Some \<lparr> ac_st_num = pb_st_num p, ac_sq_num = of_nat n, ac_arrived_at = arr, ac_t = pb_t p,
       ac_expires_at = plus_millis arr (ucast (tal_after (pc_retransmission (pb_cfg p)) (of_nat n))) \<rparr>"

definition publishes :: "limits \<Rightarrow> goose_publisher \<Rightarrow> data_value list \<Rightarrow> bool" where
  "publishes l p vs \<longleftrightarrow> pub_ok p \<and> values_ok l vs \<and> length vs < 2 ^ 32 \<and> sends p vs \<and> \<not> pb_simulation p"

lemma numbered_simps [simp]:
  "pb_cfg (numbered p n) = pb_cfg p" "pb_simulation (numbered p n) = pb_simulation p" "pb_st_num (numbered p n) = pb_st_num p"
  "pb_sq_num (numbered p n) = of_nat n" "pb_sent_in_state (numbered p n) = of_nat n" "pb_t (numbered p n) = pb_t p"
  "pb_body (numbered p n) = pb_body p" "pb_members (numbered p n) = pb_members p"
  by (simp_all add: numbered_def)

lemma tracks_accepted:
  assumes r: "ready cfg (pb_cfg p) s" and n: "\<not> gv_nds_com pdu"
    and pdu: "gv_st_num pdu = pb_st_num p" "gv_sq_num pdu = of_nat n" "gv_t pdu = pb_t p"
      "gv_time_allowed_to_live pdu = tal_after (pc_retransmission (pb_cfg p)) (of_nat n)"
    and t: "sb_cfg t = sb_cfg s" "sb_events t = sb_events s" "sb_nds_com t = sb_nds_com s" "sb_conf_rev t = sb_conf_rev s"
  shows "\<exists>u. drain_events (record_accepted now pdu b (sub_emit e t)) = ([e], u) \<and> tracking cfg p n now u"
proof -
  let ?x = "record_accepted now pdu b (sub_emit e t)"
  have q: "sb_events ?x = queue_push e (sb_events s)" "\<not> sb_nds_com ?x"
    using record_quiet [OF n, of "sub_emit e t"] r t by (simp_all add: ready_def)
  have i: "q_items (queue_push e (sb_events s)) = [e]" "0 < q_capacity (queue_push e (sb_events s))"
    using push_empty [of "sb_events s" e] r by (simp_all add: ready_def queue_ok_def)
  have "fst (drain_events ?x) = [e] \<and> tracking cfg p n now (snd (drain_events ?x))"
    using drain_events_queue [of ?x] q i r t pdu by (simp add: tracking_def ready_def queue_ok_def)
  then show ?thesis by (cases "drain_events ?x") simp
qed

lemma published_view:
  assumes "publishes (sc_limits (sb_cfg s)) p vs" "subscribes (sb_cfg s) (pb_cfg p)"
  shows "\<exists>pdu. stream_pdu (pub_frame (numbered p n) @ pad) s = Some pdu \<and> gv_st_num pdu = pb_st_num p \<and> gv_sq_num pdu = of_nat n \<and>
    gv_t pdu = pb_t p \<and> gv_time_allowed_to_live pdu = tal_after (pc_retransmission (pb_cfg p)) (of_nat n) \<and>
    \<not> gv_simulation pdu \<and> gv_conf_rev pdu = pc_conf_rev (pb_cfg p) \<and> \<not> gv_nds_com pdu \<and>
    all_data_owned pdu (sc_limits (sb_cfg s)) = Inr vs"
proof -
  have "pub_ok (numbered p n) = pub_ok p" "sends (numbered p n) vs = sends p vs" by (simp_all add: pub_ok_def sends_def)
  then obtain d where "stream_pdu (pub_frame (numbered p n) @ pad) s =
      Some (goose_view_of (goose_pub_header (numbered p n)) (pb_body p) d (pub_apdu (numbered p n)))" "tlv_value d = values_octets vs"
    using stream_pdu_published [of s "numbered p n" "sc_limits (sb_cfg s)" vs pad] assms by (auto simp: publishes_def)
  moreover have "gv_all_data v = d \<Longrightarrow> all_data_owned v (sc_limits (sb_cfg s)) = Inr vs" for v
    using assms(1) calculation(2) by (intro all_data_owned_values) (simp_all add: publishes_def)
  moreover have "\<not> pc_nds_com (pb_cfg p)" "\<not> pb_simulation p" using assms by (simp_all add: publishes_def subscribes_def)
  ultimately show ?thesis by (simp add: goose_view_of_def goose_pub_header_def)
qed

lemma first_frame:
  assumes p: "publishes (sc_limits cfg) p vs" and c: "subscribes cfg (pb_cfg p)" and r: "ready cfg (pb_cfg p) s" and n: "sb_state s = None"
  shows "\<exists>u. sub_feed now (pub_frame (numbered p 0) @ pad) s = ([NewState (pb_st_num p) (pb_t p) vs False], u) \<and> tracking cfg p 0 now u"
proof -
  have cfg: "sb_cfg s = cfg" using r by (simp add: ready_def)
  obtain pdu where pdu: "stream_pdu (pub_frame (numbered p 0) @ pad) s = Some pdu" "gv_st_num pdu = pb_st_num p" "gv_sq_num pdu = of_nat 0"
    "gv_t pdu = pb_t p" "gv_time_allowed_to_live pdu = tal_after (pc_retransmission (pb_cfg p)) (of_nat 0)"
    "\<not> gv_simulation pdu" "gv_conf_rev pdu = pc_conf_rev (pb_cfg p)" "\<not> gv_nds_com pdu" "all_data_owned pdu (sc_limits cfg) = Inr vs"
    using published_view [of s p vs 0 pad] p c by (auto simp: cfg)
  have off: "sc_simulation cfg = Off" using c by (simp add: subscribes_def)
  have e: "check_expiry now s = s" using n by (simp add: check_expiry_def)
  obtain t where t: "admits pdu s t" "ready cfg (pb_cfg p) t" "sb_state t = None"
    using ready_admits [OF r off] pdu n by metis
  have tc: "sb_cfg t = cfg" using t(2) by (simp add: ready_def)
  let ?m = "count ss_state_changes_update (count_missed_states (gv_st_num pdu) t)"
  have "sub_on_frame now (pub_frame (numbered p 0) @ pad) s = accept_pdu now pdu t"
    using admitted_frame [OF pdu(1), of now t] t(1) e by simp
  also have "\<dots> = record_accepted now pdu True (sub_emit (NewState (pb_st_num p) (pb_t p) vs False) ?m)"
    using t(3) pdu tc by (simp add: accept_pdu_def sub_verdict_def)
  finally show ?thesis
    using tracks_accepted [OF t(2) pdu(8) pdu(2-5), of ?m now True] by (simp add: sub_feed_def)
qed

lemma next_frame:
  assumes p: "publishes (sc_limits cfg) p vs" and c: "subscribes cfg (pb_cfg p)" and r: "tracking cfg p n arr s"
    and now: "now < plus_millis arr (ucast (tal_after (pc_retransmission (pb_cfg p)) (of_nat n)))" and n: "Suc n < 2 ^ 32"
  shows "\<exists>u. sub_feed now (pub_frame (numbered p (Suc n)) @ pad) s = ([Retransmission (pb_st_num p) (of_nat (Suc n))], u) \<and>
    tracking cfg p (Suc n) now u"
proof -
  have rd: "ready cfg (pb_cfg p) s" and cfg: "sb_cfg s = cfg" using r by (simp_all add: tracking_def ready_def)
  obtain pdu where pdu: "stream_pdu (pub_frame (numbered p (Suc n)) @ pad) s = Some pdu" "gv_st_num pdu = pb_st_num p"
    "gv_sq_num pdu = of_nat (Suc n)" "gv_t pdu = pb_t p"
    "gv_time_allowed_to_live pdu = tal_after (pc_retransmission (pb_cfg p)) (of_nat (Suc n))"
    "\<not> gv_simulation pdu" "gv_conf_rev pdu = pc_conf_rev (pb_cfg p)" "\<not> gv_nds_com pdu"
    using published_view [of s p vs "Suc n" pad] p c cfg by auto
  have off: "sc_simulation cfg = Off" using c by (simp add: subscribes_def)
  have e: "check_expiry now s = s" using r now by (simp add: check_expiry_def tracking_def)
  obtain t where t: "admits pdu s t" "ready cfg (pb_cfg p) t" "sb_state t = sb_state s" "sb_expired t = sb_expired s"
    using ready_admits [OF rd off] pdu by metis
  have u: "unat (of_nat n :: u32) = n" "unat (of_nat (Suc n) :: u32) = Suc n"
    using n by (simp_all only: unat_of_nat len_bit0 len_num1) simp_all
  have lt: "(of_nat n :: u32) < of_nat (Suc n)" unfolding word_less_nat_alt u by simp
  let ?m = "count ss_retransmissions_update t"
  have "sub_on_frame now (pub_frame (numbered p (Suc n)) @ pad) s = accept_pdu now pdu t"
    using admitted_frame [OF pdu(1), of now t] t(1) e by simp
  also have "\<dots> = record_accepted now pdu False (sub_emit (Retransmission (pb_st_num p) (of_nat (Suc n))) ?m)"
    using t(3,4) r pdu(2,3) lt by (simp add: accept_pdu_def sub_verdict_def tracking_def del: of_nat_Suc)
  finally show ?thesis
    using tracks_accepted [OF t(2) pdu(8) pdu(2-5), of ?m now False] by (simp add: sub_feed_def del: of_nat_Suc)
qed

primrec feed_all :: "(instant \<times> bytes) list \<Rightarrow> goose_subscriber \<Rightarrow> subscriber_event list \<times> goose_subscriber" where
  "feed_all [] s = ([], s)"
| "feed_all (x # xs) s = (let (es, t) = sub_feed (fst x) (snd x) s; (fs, u) = feed_all xs t in (es @ fs, u))"

lemma feed_all_append:
  "feed_all (xs @ ys) s = (let (es, t) = feed_all xs s; (fs, u) = feed_all ys t in (es @ fs, u))"
  by (induction xs arbitrary: s) (simp_all add: Let_def split_beta)

definition retransmission_events :: "u32 \<Rightarrow> nat \<Rightarrow> subscriber_event list" where
  "retransmission_events st n = map (\<lambda>k. Retransmission st (of_nat (Suc k))) [0..<n]"

lemma frames_tracked:
  assumes p: "publishes (sc_limits cfg) p vs" and c: "subscribes cfg (pb_cfg p)" and r: "ready cfg (pb_cfg p) s" and n: "sb_state s = None"
    and len: "n < 2 ^ 32"
    and arrive: "\<forall>k < n. arrive (Suc k) < plus_millis (arrive k) (ucast (tal_after (pc_retransmission (pb_cfg p)) (of_nat k)))"
  shows "\<exists>u. feed_all (map (\<lambda>k. (arrive k, pub_frame (numbered p k) @ pad k)) [0..<Suc n]) s =
      (NewState (pb_st_num p) (pb_t p) vs False # retransmission_events (pb_st_num p) n, u) \<and> tracking cfg p n (arrive n) u"
  using len arrive
proof (induction n)
  case 0
  then show ?case using first_frame [OF p c r n, of "arrive 0" "pad 0"] by (auto simp: retransmission_events_def)
next
  case (Suc n)
  then obtain u where u: "feed_all (map (\<lambda>k. (arrive k, pub_frame (numbered p k) @ pad k)) [0..<Suc n]) s =
      (NewState (pb_st_num p) (pb_t p) vs False # retransmission_events (pb_st_num p) n, u)" "tracking cfg p n (arrive n) u"
    by auto
  obtain w where w: "sub_feed (arrive (Suc n)) (pub_frame (numbered p (Suc n)) @ pad (Suc n)) u =
      ([Retransmission (pb_st_num p) (of_nat (Suc n))], w)" "tracking cfg p (Suc n) (arrive (Suc n)) w"
    using next_frame [OF p c u(2), of "arrive (Suc n)" "pad (Suc n)"] Suc.prems by auto
  have "[0..<Suc (Suc n)] = [0..<Suc n] @ [Suc n]" by simp
  moreover have "retransmission_events st (Suc n) = retransmission_events st n @ [Retransmission st (of_nat (Suc n))]" for st
    by (simp add: retransmission_events_def)
  ultimately show ?case
    using w(2) by (simp only: map_append feed_all_append u(1) Let_def prod.case list.map feed_all.simps fst_conv snd_conv w(1)) simp
qed

text \<open>
  C6: from the publisher to the application. When a publisher enters a new state and its
  frames are collected when due, a fresh subscriber to the stream that receives each of them, padded or
  not, before the advertised \<open>timeAllowedtoLive\<close> of the one before has run out, reports exactly one new
  state with the published values and then one retransmission per frame, in order, and is left live.
\<close>

theorem published_values_arrive:
  assumes "values_ok (sc_limits cfg) vs" and "length vs < 2 ^ 32" and "pub_ok (entered p vs t)" and "\<not> pb_simulation p"
    and "subscribes cfg (pb_cfg p)" and "n < 2 ^ 32 - 1"
    and "frames = map (\<lambda>k. the (fst (goose_pub_poll_transmit ((retransmit ^^ k) (snd (goose_publish now vs t p)))))) [0..<Suc n]"
    and "\<forall>k < n. arrive (Suc k) < plus_millis (arrive k) (ucast (tal_after (pc_retransmission (pb_cfg p)) (of_nat k)))"
  shows "\<exists>u. feed_all (map (\<lambda>k. (arrive k, frames ! k @ pad k)) [0..<Suc n]) (goose_sub_new cfg) =
      (NewState (next_st_num (pb_st_num p)) t vs False # retransmission_events (next_st_num (pb_st_num p)) n, u) \<and> sub_is_live u"
proof -
  let ?p = "entered p vs t"
  have ok: "publishes (sc_limits cfg) ?p vs"
    using assms(1-4) by (simp add: publishes_def sends_def entered_def)
  have z: "pb_sq_num ?p = 0" "pb_sent_in_state ?p = 0" and cfg: "pb_cfg ?p = pb_cfg p" by (simp_all add: entered_def)
  have f: "frames ! k = pub_frame (numbered ?p k)" if "k < Suc n" for k
  proof -
    have "in_state ?p now k ((retransmit ^^ k) (snd (goose_publish now vs t p)))"
      using in_state_iterate [OF assms(3) z, of k now] that assms(6) publish_ok [OF assms(1,3), of now] by simp
    then have "fst (goose_pub_poll_transmit ((retransmit ^^ k) (snd (goose_publish now vs t p)))) = Some (pub_frame (numbered ?p k))"
      by (simp add: in_state_def goose_pub_poll_transmit_def)
    then show ?thesis using that unfolding assms(7) by (simp del: upt_Suc)
  qed
  then have m: "map (\<lambda>k. (arrive k, frames ! k @ pad k)) [0..<Suc n] = map (\<lambda>k. (arrive k, pub_frame (numbered ?p k) @ pad k)) [0..<Suc n]"
    by simp
  have "ready cfg (pb_cfg ?p) (goose_sub_new cfg)" "sb_state (goose_sub_new cfg) = None"
    using assms(5) by (auto simp: ready_def goose_sub_new_def queue_new_def queue_ok_def subscribes_def cfg)
  from frames_tracked [OF ok _ this, of n arrive pad] obtain u where
    "feed_all (map (\<lambda>k. (arrive k, pub_frame (numbered ?p k) @ pad k)) [0..<Suc n]) (goose_sub_new cfg) =
      (NewState (next_st_num (pb_st_num p)) t vs False # retransmission_events (next_st_num (pb_st_num p)) n, u)" "tracking cfg ?p n (arrive n) u"
    using assms(5,6,8) by (auto simp: cfg entered_def)
  then show ?thesis unfolding m by (auto simp: tracking_def sub_is_live_def)
qed

text \<open>A witness: the state change and its first retransmission, at 10 ns and 5 ms.\<close>

definition sample_arrival :: "nat \<Rightarrow> instant" where
  "sample_arrival k = (if k = 0 then 10 else 5000000)"

lemma sample_subscribes: "subscribes (sub_config_new sample_key) (pb_cfg sample_publisher)"
  by (simp add: subscribes_def sub_config_new_def sample_key_def sample_publisher_def pub_config_new_def sample_header_def)

lemma sample_tal: "tal_after (pc_retransmission (pb_cfg sample_publisher)) 0 = 8"
proof -
  have "pc_retransmission (pb_cfg sample_publisher) = RETRANSMISSION_DEFAULT"
    by (simp add: sample_publisher_def pub_config_new_def)
  then show ?thesis by (simp add: word_unat_eq_iff unat_tal_after unat_interval_after curve_base_def RETRANSMISSION_DEFAULT_def)
qed

lemma sample_in_time:
  "\<forall>k < 1. sample_arrival (Suc k) < plus_millis (sample_arrival k) (ucast (tal_after (pc_retransmission (pb_cfg sample_publisher)) (of_nat k)))"
  by (simp add: sample_tal sample_arrival_def word_less_nat_alt unat_plus_millis)

theorem published_values_arrive_witness:
  "\<exists>frames u. feed_all (map (\<lambda>k. (sample_arrival k, frames ! k)) [0..<2]) (goose_sub_new (sub_config_new sample_key)) =
     ([NewState 2 utc_default sample_values False, Retransmission 2 1], u) \<and> sub_is_live u"
proof -
  have "sc_limits (sub_config_new sample_key) = default_limits" by (simp add: sub_config_new_def)
  then have v: "values_ok (sc_limits (sub_config_new sample_key)) sample_values" by (simp only: sample_values_ok)
  have l: "length sample_values < 2 ^ 32" by (simp add: sample_values_def)
  have s: "\<not> pb_simulation sample_publisher" "next_st_num (pb_st_num sample_publisher) = 2"
    by (simp_all add: sample_publisher_def next_st_num_def)
  define frames where "frames = map (\<lambda>k. the (fst (goose_pub_poll_transmit
    ((retransmit ^^ k) (snd (goose_publish 5 sample_values utc_default sample_publisher)))))) [0..<Suc 1]"
  have "\<exists>u. feed_all (map (\<lambda>k. (sample_arrival k, frames ! k @ [])) [0..<Suc 1]) (goose_sub_new (sub_config_new sample_key)) =
     (NewState 2 utc_default sample_values False # retransmission_events 2 1, u) \<and> sub_is_live u"
    using published_values_arrive [OF v l sample_entered_ok s(1) sample_subscribes _ frames_def sample_in_time, of "\<lambda>_. []"]
    unfolding s(2) by simp
  moreover have "retransmission_events 2 1 = [Retransmission 2 1]" "[0..<2] = [0..<Suc 1]"
    by (simp_all add: retransmission_events_def numeral_2_eq_2)
  ultimately show ?thesis unfolding append_Nil2 by (intro exI [of _ frames]) (simp only:)
qed

text \<open>A witness for the replay protection: following the first frame, the second is accepted.\<close>

lemma sample_publishes: "publishes (sc_limits (sub_config_new sample_key)) (entered sample_publisher sample_values utc_default) sample_values"
  using sample_entered_ok sample_values_ok
  by (simp add: publishes_def sub_config_new_def sends_def) (simp add: entered_def sample_publisher_def sample_values_def)

lemma sample_tracking:
  obtains u where "tracking (sub_config_new sample_key) (entered sample_publisher sample_values utc_default) 0 10 u"
proof -
  have "ready (sub_config_new sample_key) (pb_cfg (entered sample_publisher sample_values utc_default)) (goose_sub_new (sub_config_new sample_key))"
    by (simp add: ready_def goose_sub_new_def queue_new_def queue_ok_def sub_config_new_def)
  from first_frame [OF sample_publishes _ this, of 10 "[]"] that sample_subscribes show thesis
    by (auto simp: entered_def goose_sub_new_def)
qed

theorem accepted_frames_advance_witness:
  "\<exists>u f. sb_state u \<noteq> None \<and> accepted_numbers [(5000000, f)] u = [(2, 1)] \<and>
     successively advances ((2, 0) # accepted_numbers [(5000000, f)] u)"
proof -
  let ?p = "entered sample_publisher sample_values utc_default" and ?cfg = "sub_config_new sample_key"
  have cfg: "pb_cfg ?p = pb_cfg sample_publisher" "pb_st_num ?p = 2"
    by (simp_all add: entered_def) (simp add: sample_publisher_def next_st_num_def)
  obtain u where u: "tracking ?cfg ?p 0 10 u" by (rule sample_tracking)
  let ?f = "pub_frame (numbered ?p (Suc 0)) @ []"
  have due: "(5000000 :: instant) < plus_millis 10 (ucast (tal_after (pc_retransmission (pb_cfg ?p)) (of_nat 0)))"
    using sample_tal by (simp add: cfg word_less_nat_alt unat_plus_millis)
  obtain w where w: "sub_feed 5000000 ?f u = ([Retransmission 2 1], w)" "tracking ?cfg ?p 1 5000000 w"
    using next_frame [OF sample_publishes _ u due, of "[]"] sample_subscribes by (auto simp: cfg)
  have "sb_state (sub_on_frame 5000000 ?f u) = sb_state w"
    using drain_events_queue [of "sub_on_frame 5000000 ?f u"] w(1) by (simp add: sub_feed_def)
  then have acc: "accepted_numbers [(5000000, ?f)] u = [(2, 1)]"
    using u w(2) by (simp add: tracking_def numbers_def cfg Let_def)
  obtain a where a: "sb_state u = Some a" "numbers a = (2, 0)" "follows 5000000 u a"
    using u due by (auto simp: tracking_def numbers_def follows_def ready_def cfg sub_config_new_def)
  have "live_run [(5000000, ?f)] u" using a by simp
  from accepted_frames_advance [OF this a(1)] show ?thesis using acc a by (metis option.distinct(1))
qed

section \<open>What the curve promises the subscriber\<close>

text \<open>
  C33: the curve keeps a subscription alive. With a \<open>timeAllowedtoLive\<close> factor of two or more, a
  retransmission collected and delivered when it is due arrives before the frame before it has expired,
  as long as the clock and the configured maximum are short of saturating.
\<close>

theorem due_before_expiry:
  assumes "2 \<le> rt_tal_factor r" and "curve_limit r < 2 ^ 32 - 1" and "clock_ok (transmit_at r now k)"
  shows "transmit_at r now (Suc k) < plus_millis (transmit_at r now k) (ucast (tal_after r (of_nat k)))"
proof -
  let ?t = "transmit_at r now k" and ?i = "interval_after r (of_nat k)" and ?d = "tal_after r (of_nat k)"
  have up: "unat (ucast w :: u64) = unat w" for w :: u32 by (rule unat_ucast_up) simp
  have pos: "0 < unat ?i" and i: "unat ?i < 2 ^ 32 - 1"
    using interval_bounds [of r "of_nat k"] curve_base_pos [of r] assms(2) by linarith+
  have "2 \<le> unat (rt_tal_factor r)" using assms(1) by (simp add: word_le_nat_alt)
  then have "2 * unat ?i \<le> unat ?i * max 1 (unat (rt_tal_factor r))" by (simp add: mult.commute)
  then have d: "unat ?i < unat ?d" using pos i by (simp add: unat_tal_after)
  moreover have "unat ?d < 2 ^ 32" using unat_lt_exp [of ?d] by simp
  ultimately show ?thesis
    using assms(3) by (simp add: word_less_nat_alt unat_plus_millis up clock_ok_def)
qed

theorem due_before_expiry_witness:
  "transmit_at RETRANSMISSION_DEFAULT 7 1 < plus_millis 7 (ucast (tal_after RETRANSMISSION_DEFAULT 0))"
  using due_before_expiry [of RETRANSMISSION_DEFAULT 7 0]
  by (simp add: RETRANSMISSION_DEFAULT_def clock_ok_def curve_limit_def curve_base_def)

section \<open>Counting the states missed\<close>

lemma next_st_num_iterate:
  "unat l + n < 2 ^ 32 \<Longrightarrow> unat ((next_st_num ^^ n) l) = unat l + n"
proof (induction n)
  case (Suc n)
  then have u: "unat ((next_st_num ^^ n) l) = unat l + n" by simp
  then have "(next_st_num ^^ n) l \<noteq> 0xFFFFFFFF" using Suc.prems by (auto simp: word_unat_eq_iff)
  moreover have "unat ((next_st_num ^^ n) l + 1) = unat l + Suc n" using Suc.prems u by (subst unat_plus_le) simp_all
  ultimately show ?case by (simp only: funpow.simps o_apply) (simp add: next_st_num_def [of "(next_st_num ^^ n) l"])
qed simp

text \<open>
  When the publisher has moved \<open>n + 1\<close> states on from \<open>l\<close>, short of the top of the counter, \<open>missed_states\<close>
  is exactly \<open>n\<close>: the amount \<open>count_missed_states\<close> adds for a new state of a source that is still alive.
\<close>

theorem missed_states_counted:
  assumes "unat l + Suc n < 2 ^ 32"
  shows "unat (missed_states l ((next_st_num ^^ Suc n) l)) = n"
proof -
  let ?new = "(next_st_num ^^ Suc n) l"
  have new: "unat ?new = unat l + Suc n" by (rule next_st_num_iterate) (rule assms)
  then have "\<not> wrapped l ?new" by (auto simp: wrapped_def SEQ_WRAP_WINDOW_def word_less_nat_alt word_le_nat_alt)
  moreover have "unat (ucast w :: u64) = unat w" for w :: u32 by (rule unat_ucast_up) simp
  ultimately show ?thesis using new by (simp add: missed_states_def unat_sat_sub del: funpow.simps)
qed

theorem missed_states_counted_witness: "unat (missed_states 5 ((next_st_num ^^ Suc 3) 5)) = 3"
  by (rule missed_states_counted) simp

text \<open>
  On the way over the top of the counter only the states after the wrap are counted: of the four states
  between 4294967292 and 2 the subscriber reports one.
\<close>

lemma missed_states_undercounted_on_wrap:
  "next_st_num (next_st_num (next_st_num (next_st_num (next_st_num 0xFFFFFFFC)))) = 2 \<and> missed_states 0xFFFFFFFC 2 = 1"
  by (simp add: next_st_num_def missed_states_def wrapped_def SEQ_WRAP_WINDOW_def sat_sub_def)

end
