(* ===== verification/Ber_Fields.thy ===== *)
theory Ber_Fields
  imports Ber
begin

text \<open>
  Sequences of elements with optional members: readers for a field that must come next and for one
  that may, proved once for a present and an absent field, and the sequence as a list of tagged
  contents, in which a field of unchanged length can be rewritten in place.
\<close>

section \<open>Optional fields\<close>

definition opt_element :: "tag \<Rightarrow> ('a \<Rightarrow> bytes) \<Rightarrow> 'a option \<Rightarrow> bytes" where
  "opt_element t f x = (case x of Some y \<Rightarrow> element t (f y) | None \<Rightarrow> [])"

definition enc_opt :: "('a \<Rightarrow> enc) \<Rightarrow> 'a option \<Rightarrow> enc" where
  "enc_opt put x = (case x of Some y \<Rightarrow> put y | None \<Rightarrow> sreturn ())"

lemma opt_element_simps [simp]: "opt_element t f None = []" "opt_element t f (Some y) = element t (f y)"
  by (simp_all add: opt_element_def)

lemma emits_enc_opt:
  "(\<And>y. x = Some y \<Longrightarrow> emits (put y) (element t (f y))) \<Longrightarrow> emits (enc_opt put x) (opt_element t f x)"
  by (cases x) (auto simp: enc_opt_def intro: emits_return)

text \<open>\<open>not_next t bs\<close>: whatever \<open>bs\<close> starts with, it is not an element tagged \<open>t\<close>.\<close>

definition not_next :: "tag \<Rightarrow> bytes \<Rightarrow> bool" where
  "not_next t bs \<longleftrightarrow> (\<forall>pre base. peek_tag (cur_at pre bs base) \<noteq> Some t)"

lemma not_next_simps [simp]:
  "not_next t []"
  "fits c \<Longrightarrow> u \<noteq> t \<Longrightarrow> not_next t (element u c @ rest)"
  "fits c \<Longrightarrow> u \<noteq> t \<Longrightarrow> not_next t (element u c)"
  by (simp_all add: not_next_def)

lemma not_next_opt [simp]:
  "(\<And>y. x = Some y \<Longrightarrow> fits (f y)) \<Longrightarrow> u \<noteq> t \<Longrightarrow> not_next t rest \<Longrightarrow> not_next t (opt_element u f x @ rest)"
  "(\<And>y. x = Some y \<Longrightarrow> fits (f y)) \<Longrightarrow> u \<noteq> t \<Longrightarrow> not_next t (opt_element u f x)"
  by (cases x; simp)+

lemma next_if_tag_other [simp]: "not_next t bs \<Longrightarrow> next_if_tag t (cur_at pre bs base) = (Inr None, cur_at pre bs base)"
  by (simp add: not_next_def next_if_tag_def)

lemma opt_field_other [simp]: "not_next t bs \<Longrightarrow> opt_field t get (cur_at pre bs base) = (Inr None, cur_at pre bs base)"
  by (simp add: opt_field_def sbind_def)

lemma next_if_tag_opt:
  "(\<And>y. x = Some y \<Longrightarrow> fits (f y)) \<Longrightarrow> not_next t rest \<Longrightarrow>
    next_if_tag t (cur_at pre (opt_element t f x @ rest) base) =
      (Inr (map_option (\<lambda>y. mk_tlv t (f y) (base + length pre)) x), cur_at (pre @ opt_element t f x) rest base)"
  by (cases x) simp_all

lemma opt_field_opt:
  "(\<And>y. x = Some y \<Longrightarrow> fits (f y) \<and> get (mk_tlv t (f y) (base + length pre)) = Inr y) \<Longrightarrow> not_next t rest \<Longrightarrow>
    opt_field t get (cur_at pre (opt_element t f x @ rest) base) = (Inr x, cur_at (pre @ opt_element t f x) rest base)"
  by (cases x) (simp_all add: opt_field_def sbind_def)

lemma opt_field_map:
  "(\<And>y. x = Some y \<Longrightarrow> fits (f y) \<and> get (mk_tlv t (f y) (base + length pre)) = Inr (h y)) \<Longrightarrow> not_next t rest \<Longrightarrow>
    opt_field t get (cur_at pre (opt_element t f x @ rest) base) =
      (Inr (map_option h x), cur_at (pre @ opt_element t f x) rest base)"
  by (cases x) (simp_all add: opt_field_def sbind_def)

lemmas last_opt = next_if_tag_opt [where rest = "[]", simplified] opt_field_opt [where rest = "[]", simplified]
  opt_field_map [where rest = "[]", simplified]

text \<open>A writer followed by a reader, as the monad composes them.\<close>

lemma sbind_step: "m s = (Inr x, t) \<Longrightarrow> f x t = r \<Longrightarrow> sbind m f s = r"
  by (simp add: sbind_def)

section \<open>A sequence as a list of fields\<close>

type_synonym tagged = "(tag \<times> bytes) list"

definition element_head :: "tag \<Rightarrow> usize \<Rightarrow> bytes" where
  "element_head t n = tag_octets t @ length_octets n"

lemma element_split: "element t c = element_head t (length c) @ c"
  by (simp add: element_def element_head_def)

lemma value_offset_mk_tlv: "tlv_value_offset (mk_tlv t c off) = off + length (element_head t (length c))"
  by (simp add: mk_tlv_def element_head_def)

definition tagged_octets :: "tagged \<Rightarrow> bytes" where
  "tagged_octets fs = concat (map (\<lambda>(t, c). element t c) fs)"

definition opt_tagged :: "tag \<Rightarrow> ('a \<Rightarrow> bytes) \<Rightarrow> 'a option \<Rightarrow> tagged" where
  "opt_tagged t f x = (case x of Some y \<Rightarrow> [(t, f y)] | None \<Rightarrow> [])"

fun offset_of :: "tag \<Rightarrow> tagged \<Rightarrow> usize" where
  "offset_of t [] = 0"
| "offset_of t ((u, c) # fs) =
     (if u = t then length (element_head u (length c)) else length (element u c) + offset_of t fs)"

definition contents_of :: "tag \<Rightarrow> tagged \<Rightarrow> bytes option" where
  "contents_of t fs = map_of fs t"

fun set_contents :: "tag \<Rightarrow> bytes \<Rightarrow> tagged \<Rightarrow> tagged" where
  "set_contents t d [] = []"
| "set_contents t d ((u, c) # fs) = (if u = t then (u, d) # fs else (u, c) # set_contents t d fs)"

lemma tagged_octets_simps [simp]:
  "tagged_octets [] = []" "tagged_octets ((t, c) # fs) = element t c @ tagged_octets fs"
  "tagged_octets (fs @ gs) = tagged_octets fs @ tagged_octets gs"
  by (simp_all add: tagged_octets_def)

lemma tagged_octets_opt [simp]: "tagged_octets (opt_tagged t f x) = opt_element t f x"
  by (cases x) (simp_all add: opt_tagged_def)

lemma opt_tagged_simps [simp]:
  "opt_tagged t f None = []" "opt_tagged t f (Some y) = [(t, f y)]"
  by (simp_all add: opt_tagged_def)

lemma tags_opt [simp]: "fst ` set (opt_tagged t f x) = (if x = None then {} else {t})"
  by (cases x) simp_all

lemma offset_of_append:
  "offset_of t (fs @ gs) = (if t \<in> fst ` set fs then offset_of t fs else length (tagged_octets fs) + offset_of t gs)"
  by (induction t fs rule: offset_of.induct) auto

lemma offset_of_opt [simp]:
  "u \<noteq> t \<Longrightarrow> offset_of t (opt_tagged u f x @ gs) = length (opt_element u f x) + offset_of t gs"
  "u \<noteq> t \<Longrightarrow> offset_of t (opt_tagged u f x) = length (opt_element u f x)"
  by (cases x; simp)+

lemma set_contents_opt [simp]:
  "u \<noteq> t \<Longrightarrow> set_contents t d (opt_tagged u f x @ gs) = opt_tagged u f x @ set_contents t d gs"
  "u \<noteq> t \<Longrightarrow> set_contents t d (opt_tagged u f x) = opt_tagged u f x"
  by (cases x; simp)+

lemma contents_of_simps [simp]:
  "contents_of t [] = None" "contents_of t ((u, c) # fs) = (if u = t then Some c else contents_of t fs)"
  "u \<noteq> t \<Longrightarrow> contents_of t (opt_tagged u f x @ gs) = contents_of t gs"
  "u \<noteq> t \<Longrightarrow> contents_of t (opt_tagged u f x) = None"
  by (cases x; auto simp: contents_of_def)+

lemma set_contents_append:
  "set_contents t d (fs @ gs) = (if t \<in> fst ` set fs then set_contents t d fs @ gs else fs @ set_contents t d gs)"
  by (induction t d fs rule: set_contents.induct) auto

lemma set_contents_absent: "t \<notin> fst ` set fs \<Longrightarrow> set_contents t d fs = fs"
  by (induction t d fs rule: set_contents.induct) auto

lemma contents_of_append:
  "contents_of t (fs @ gs) = (case contents_of t fs of Some c \<Rightarrow> Some c | None \<Rightarrow> contents_of t gs)"
  by (simp add: contents_of_def map_add_def split: option.split)

text \<open>Replacing octets inside a longer buffer.\<close>

lemma put_slice_right: "put_slice (xs @ ys) (length xs + k) zs = xs @ put_slice ys k zs"
  by (simp add: put_slice_def)

lemma put_slice_left: "k + length zs \<le> length xs \<Longrightarrow> put_slice (xs @ ys) k zs = put_slice xs k zs @ ys"
  by (simp add: put_slice_def)

lemma slice_right: "slice (xs @ ys) (length xs + a) (length xs + b) = slice ys a b"
  by (simp add: slice_def)

lemma slice_left: "b \<le> length xs \<Longrightarrow> slice (xs @ ys) a b = slice xs a b"
  by (simp add: slice_def)

lemma offset_of_bound:
  "contents_of t fs = Some c \<Longrightarrow> offset_of t fs + length c \<le> length (tagged_octets fs)"
  by (induction t fs rule: offset_of.induct) (auto simp: contents_of_def element_split split: if_splits)

text \<open>A field rewritten at the same length, and a field read, at the offset the reader reports.\<close>

lemma patch_field:
  "contents_of t fs = Some c \<Longrightarrow> length d = length c \<Longrightarrow>
    put_slice (tagged_octets fs) (offset_of t fs) d = tagged_octets (set_contents t d fs)"
proof (induction t fs rule: offset_of.induct)
  case (2 t u c' fs)
  show ?case
  proof (cases "u = t")
    case True
    then have "c' = c" using 2(2) by (simp add: contents_of_def)
    then show ?thesis
      using True 2(3) put_slice_right [of "element_head t (length c)" "c @ tagged_octets fs" 0 d]
      by (simp add: element_split put_slice_def)
  next
    case False
    then have "contents_of t fs = Some c" using 2(2) by (simp add: contents_of_def)
    then show ?thesis using 2 False by (simp add: put_slice_right)
  qed
qed (simp add: contents_of_def)

lemma read_field:
  "contents_of t fs = Some c \<Longrightarrow> slice (tagged_octets fs) (offset_of t fs) (offset_of t fs + length c) = Some c"
proof (induction t fs rule: offset_of.induct)
  case (2 t u c' fs)
  show ?case
  proof (cases "u = t")
    case True
    then have "c' = c" using 2(2) by (simp add: contents_of_def)
    then show ?thesis
      using True slice_right [of "element_head t (length c)" "c @ tagged_octets fs" 0 "length c"]
      by (simp add: element_split slice_def)
  next
    case False
    then have "contents_of t fs = Some c" using 2(2) by (simp add: contents_of_def)
    then show ?thesis using 2 False by (simp add: slice_right add.assoc)
  qed
qed (simp add: contents_of_def)

lemma length_set_contents:
  "contents_of t fs = Some c \<Longrightarrow> length d = length c \<Longrightarrow>
    length (tagged_octets (set_contents t d fs)) = length (tagged_octets fs)"
  by (induction t d fs rule: set_contents.induct) (auto simp: contents_of_def element_def split: if_splits)

text \<open>Sequences of the same shape, the same tags and lengths, have their fields in the same places.\<close>

definition tagged_shape :: "tagged \<Rightarrow> (tag \<times> usize) list" where
  "tagged_shape fs = map (\<lambda>(t, c). (t, length c)) fs"

lemma tagged_shape_simps [simp]:
  "tagged_shape [] = []" "tagged_shape ((t, c) # fs) = (t, length c) # tagged_shape fs"
  "tagged_shape (fs @ gs) = tagged_shape fs @ tagged_shape gs"
  by (simp_all add: tagged_shape_def)

lemma tagged_shape_offsets:
  "tagged_shape fs = tagged_shape gs \<Longrightarrow> offset_of t fs = offset_of t gs \<and> length (tagged_octets fs) = length (tagged_octets gs)"
proof (induction fs arbitrary: gs)
  case (Cons f fs)
  obtain u c where f: "f = (u, c)" by (cases f)
  obtain d gs' where gs: "gs = (u, d) # gs'" "length d = length c" "tagged_shape gs' = tagged_shape fs"
    using Cons.prems by (cases gs) (auto simp: f)
  then show ?case using Cons.IH [of gs'] by (simp add: f element_def element_head_def)
qed (simp add: tagged_shape_def)

section \<open>Numbers at a fixed width\<close>

lemma lenient_to_be:
  "0 < w \<Longrightarrow> w \<le> 8 \<Longrightarrow> drop_bit (w * 8) v = 0 \<Longrightarrow> unsigned_lenient_u64 (mk_tlv t (to_be w v) off) = Inr v"
  using ber_field.get_mk_tlv [OF fixed_width_field] by blast

text \<open>A \<open>u32\<close> written in \<open>w\<close> octets, wide enough for it.\<close>

definition fits_width :: "nat \<Rightarrow> u64 \<Rightarrow> bool" where
  "fits_width w v \<longleftrightarrow> 0 < w \<and> w \<le> 8 \<and> drop_bit (w * 8) v = 0"

lemma fits_width_unat: "fits_width w v \<longleftrightarrow> 0 < w \<and> w \<le> 8 \<and> unat v < 2 ^ (w * 8)"
proof -
  have "drop_bit (w * 8) v = 0 \<longleftrightarrow> unat v div 2 ^ (w * 8) = 0"
    by (simp only: unat_drop_bit [symmetric] unsigned_eq_0_iff)
  then show ?thesis by (simp add: fits_width_def div_eq_0_iff)
qed

lemma lenient_u32_to_be:
  "fits_width w (ucast v) \<Longrightarrow> unsigned_lenient_u32 (mk_tlv t (to_be w (ucast (v :: u32) :: u64)) off) = Inr v"
  using lenient_to_be [of w "ucast v" t off] by (simp add: unsigned_lenient_u32_def fits_width_def narrow_ucast)

lemma lenient_narrow_to_be:
  assumes "LENGTH('a::len) \<le> 32" "fits_width w (ucast (v :: 'a word))"
  shows "unsigned_lenient_u32 (mk_tlv t (to_be w (ucast v :: u64)) off) = Inr (ucast v)"
proof -
  have "(ucast (ucast v :: u32) :: u64) = ucast v"
    using assms(1) by (intro bit_word_eqI) (auto simp: bit_simps dest: bit_imp_le_length)
  then show ?thesis using lenient_u32_to_be [of w "ucast v" t off] assms(2) by simp
qed

lemma ucast_lt_63: "LENGTH('a::len) \<le> 32 \<Longrightarrow> (ucast (v :: 'a word) :: u64) < 2 ^ 63"
proof -
  assume a: "LENGTH('a) \<le> 32"
  then have "(2::nat) ^ LENGTH('a) \<le> 2 ^ 32" by (intro power_increasing) auto
  then have "unat v < 2 ^ 32" using unat_lt_exp [of v] by linarith
  then have "unat v < 2 ^ 63" by simp
  moreover have "unat (ucast v :: u64) = unat v" using a by (intro unat_ucast_up) simp
  ultimately show ?thesis by (simp add: word_less_nat_alt)
qed

lemma fits_width_min:
  "1 \<le> m \<Longrightarrow> m \<le> 8 \<Longrightarrow> v < 2 ^ 63 \<Longrightarrow> fits_width (unsigned_width v m) v"
  using unsigned_width_ok [of m v] drop_bit_mono_zero [of "unsigned_width v m * 8 - 1" v "unsigned_width v m * 8"]
  by (simp add: fits_width_def)

lemma emits_fixed_min:
  "1 \<le> m \<Longrightarrow> m \<le> 8 \<Longrightarrow> v < 2 ^ 63 \<Longrightarrow>
    emits (enc_unsigned_fixed_min t v m) (element t (to_be (unsigned_width v m) v))"
  using ber_field.put_emits [OF fixed_min_field] by blast

end
