(* ===== verification/Sv_Apdu.thy ===== *)
theory Sv_Apdu
  imports Ber_Fields
begin

text \<open>
  The \<open>savPdu\<close> of sampled values (\<open>src/proto/sv/apdu.rs\<close>): \<open>smpSynch\<close>, the ASDU with the offsets of
  its patchable fields, the iterator over the ASDUs of a frame, and the encoder. The octets are stated
  for any width of the patchable fields, so that the round trip also covers a template whose fields a
  publisher has rewritten in place.
\<close>

section \<open>Synchronisation\<close>

datatype smp_synch = SynchNone | SynchLocal | SynchGlobal | LocalClock u8 | ReservedSynch u8

definition smp_synch_from_u8 :: "u8 \<Rightarrow> smp_synch" where
  "smp_synch_from_u8 v = (if v = 0 then SynchNone else if v = 1 then SynchLocal else if v = 2 then SynchGlobal
     else if 5 \<le> v \<and> v \<le> 254 then LocalClock v else ReservedSynch v)"

fun smp_synch_to_u8 :: "smp_synch \<Rightarrow> u8" where
  "smp_synch_to_u8 SynchNone = 0"
| "smp_synch_to_u8 SynchLocal = 1"
| "smp_synch_to_u8 SynchGlobal = 2"
| "smp_synch_to_u8 (LocalClock v) = v"
| "smp_synch_to_u8 (ReservedSynch v) = v"

definition is_synchronized :: "smp_synch \<Rightarrow> bool" where
  "is_synchronized s \<longleftrightarrow> s \<noteq> SynchNone"

definition synch_wf :: "smp_synch \<Rightarrow> bool" where
  "synch_wf s \<longleftrightarrow> smp_synch_from_u8 (smp_synch_to_u8 s) = s"

definition synch_octets :: "smp_synch \<Rightarrow> bytes" where
  "synch_octets s = [smp_synch_to_u8 s]"

lemma smp_synch_to_from [simp]: "smp_synch_to_u8 (smp_synch_from_u8 v) = v"
  by (simp add: smp_synch_from_u8_def)

lemma synch_wf_from [simp]: "synch_wf (smp_synch_from_u8 v)"
  by (simp add: synch_wf_def)

lemma synch_wf_simps [simp]: "synch_wf SynchNone" "synch_wf SynchLocal" "synch_wf SynchGlobal"
  by (simp_all add: synch_wf_def smp_synch_from_u8_def)

interpretation synch: octet_codec synch_octets "\<lambda>bs. smp_synch_from_u8 (hd bs)" synch_wf 1
  by unfold_locales (auto simp: synch_octets_def synch_wf_def length_Suc_conv)

section \<open>The view\<close>

definition TAG_SAV_PDU :: tag where
  "TAG_SAV_PDU = tag_application_constructed 0"

definition TAG_ASDU :: tag where
  "TAG_ASDU = tag_universal 16 True"

record sv_field =
  fld_at :: usize
  fld_len :: usize

record asdu_offsets =
  ao_smp_cnt :: sv_field
  ao_smp_synch :: "sv_field option"
  ao_refr_tm :: "usize option"
  ao_sample :: usize
  ao_gm_identity :: "usize option"

record asdu_view =
  av_sv_id :: string
  av_dat_set :: "string option"
  av_smp_cnt :: u16
  av_conf_rev :: u32
  av_refr_tm :: "utc_time option"
  av_smp_synch :: "smp_synch option"
  av_smp_rate :: "u16 option"
  av_sample :: bytes
  av_smp_mod :: "u8 option"
  av_gm_identity :: "bytes option"
  av_at :: asdu_offsets

text \<open>\<open>try_from\<close> with an error at the cursor, for a number and for an optional one.\<close>

definition narrowed :: "u32 \<Rightarrow> ('a::len word) rd" where
  "narrowed v c = (ok_or (Decode BadValue (cur_offset c)) (narrow v), c)"

definition narrowed_opt :: "u32 option \<Rightarrow> ('a::len word) option rd" where
  "narrowed_opt x = (case x of Some v \<Rightarrow> sbind (narrowed v) (\<lambda>n. sreturn (Some n)) | None \<Rightarrow> sreturn None)"

definition read_synch :: "tlv option \<Rightarrow> smp_synch option rd" where
  "read_synch x = (case x of
     Some t \<Rightarrow> sbind (slift (unsigned_lenient_u32 t)) (\<lambda>n. sbind (narrowed n) (\<lambda>v. sreturn (Some (smp_synch_from_u8 v))))
   | None \<Rightarrow> sreturn None)"

definition sv_field_of :: "tlv \<Rightarrow> sv_field" where
  "sv_field_of t = \<lparr> fld_at = tlv_value_offset t, fld_len = length (tlv_value t) \<rparr>"

definition asdu_fields :: "asdu_view rd" where
  "asdu_fields =
     sbind (field (tag_context 0) visible_string) (\<lambda>sv_id.
     sbind (opt_field (tag_context 1) visible_string) (\<lambda>dat_set.
     sbind (next_tag (tag_context 2)) (\<lambda>smp_cnt_tlv.
     sbind (slift (unsigned_lenient_u32 smp_cnt_tlv)) (\<lambda>n. sbind (narrowed n) (\<lambda>smp_cnt.
     sbind (field (tag_context 3) unsigned_lenient_u32) (\<lambda>conf_rev.
     sbind (next_if_tag (tag_context 4)) (\<lambda>refr_tm_tlv.
     sbind (slift (transpose_opt (map_option tlv_utc_time refr_tm_tlv))) (\<lambda>refr_tm.
     sbind (next_if_tag (tag_context 5)) (\<lambda>smp_synch_tlv.
     sbind (read_synch smp_synch_tlv) (\<lambda>smp_synch.
     sbind (opt_field (tag_context 6) unsigned_lenient_u32) (\<lambda>r. sbind (narrowed_opt r) (\<lambda>smp_rate.
     sbind (next_tag (tag_context 7)) (\<lambda>sample_tlv.
     sbind (opt_field (tag_context 8) unsigned_lenient_u32) (\<lambda>m. sbind (narrowed_opt m) (\<lambda>smp_mod.
     sbind (next_if_tag (tag_context 9)) (\<lambda>gm_tlv.
     sbind (\<lambda>c. (cur_finish c, c)) (\<lambda>_.
     sreturn \<lparr> av_sv_id = sv_id, av_dat_set = dat_set, av_smp_cnt = smp_cnt, av_conf_rev = conf_rev,
       av_refr_tm = refr_tm, av_smp_synch = smp_synch, av_smp_rate = smp_rate,
       av_sample = tlv_value sample_tlv, av_smp_mod = smp_mod, av_gm_identity = map_option tlv_value gm_tlv,
       av_at = \<lparr> ao_smp_cnt = sv_field_of smp_cnt_tlv, ao_smp_synch = map_option sv_field_of smp_synch_tlv,
         ao_refr_tm = map_option tlv_value_offset refr_tm_tlv, ao_sample = tlv_value_offset sample_tlv,
         ao_gm_identity = map_option tlv_value_offset gm_tlv \<rparr> \<rparr>)))))))))))))))))"

definition asdu_parse :: "tlv \<Rightarrow> asdu_view result" where
  "asdu_parse t = rbind (expect TAG_ASDU t) (\<lambda>t. fst (asdu_fields (children t)))"

record savpdu_view =
  sv_no_asdu :: u16
  sv_security :: "bytes option"
  sv_asdus :: tlv
  sv_raw :: bytes

text \<open>The iterator over the ASDUs: every item it yields, to the end.\<close>

function asdus_next :: "cursor \<Rightarrow> asdu_view result list" where
  "asdus_next c = (case cur_next c of
     (None, _) \<Rightarrow> []
   | (Some r, c') \<Rightarrow> rbind r asdu_parse # asdus_next c')"
  by pat_completeness auto
termination by (relation "measure cur_left") (auto dest: cur_next_left [OF sym])

declare asdus_next.simps [simp del]

definition savpdu_asdus :: "savpdu_view \<Rightarrow> asdu_view result list" where
  "savpdu_asdus v = asdus_next (children (sv_asdus v))"

text \<open>The loop that validates every ASDU and counts them, saturating.\<close>

fun count_asdus :: "asdu_view result list \<Rightarrow> u16 \<Rightarrow> u16 result" where
  "count_asdus [] n = Inr n"
| "count_asdus (a # as) n = rbind a (\<lambda>_. count_asdus as (sat_add n 1))"

definition sv_security_field :: "bytes option rd" where
  "sv_security_field = sbind (next_if_tag (tag_context_constructed 1)) (\<lambda>x. case x of
     Some t \<Rightarrow> sreturn (Some (tlv_value t))
   | None \<Rightarrow> sbind (next_if_tag (tag_context 1)) (\<lambda>x. sreturn (map_option tlv_value x)))"

definition savpdu_fields :: "limits \<Rightarrow> bytes \<Rightarrow> savpdu_view rd" where
  "savpdu_fields l raw =
     sbind (field (tag_context 0) unsigned_lenient_u32) (\<lambda>n.
     sbind (narrowed n) (\<lambda>no_asdu.
     if unat (no_asdu :: u16) > max_asdus l then sfail (LimitExceeded ''max_asdus'' (unat no_asdu))
     else sbind sv_security_field (\<lambda>security.
     sbind (next_tag (tag_context_constructed 2)) (\<lambda>asdus.
     sbind (\<lambda>c. (cur_finish c, c)) (\<lambda>_ c.
       let view = \<lparr> sv_no_asdu = no_asdu, sv_security = security, sv_asdus = asdus, sv_raw = raw \<rparr>
       in (rbind (count_asdus (savpdu_asdus view) 0) (\<lambda>n.
             if n \<noteq> no_asdu then Inl (Decode BadValue (cur_offset c)) else Inr view), c))))))"

definition savpdu_parse :: "bytes \<Rightarrow> limits \<Rightarrow> savpdu_view result" where
  "savpdu_parse apdu l =
     rbind (fst (next_tag TAG_SAV_PDU (cursor_new apdu))) (\<lambda>pdu.
       fst (savpdu_fields l (case slice apdu 0 (total_len pdu) of Some r \<Rightarrow> r | None \<Rightarrow> apdu) (children pdu)))"

section \<open>The encoder\<close>

record asdu =
  as_sv_id :: string
  as_dat_set :: "string option"
  as_smp_cnt :: u16
  as_conf_rev :: u32
  as_refr_tm :: "utc_time option"
  as_smp_synch :: "smp_synch option"
  as_smp_rate :: "u16 option"
  as_sample :: bytes
  as_smp_mod :: "u8 option"
  as_gm_identity :: "bytes option" \<comment> \<open>eight octets\<close>

definition smp_cnt_width :: "u16 \<Rightarrow> usize" where
  "smp_cnt_width max_smp_cnt = unsigned_width (ucast max_smp_cnt) 2"

definition asdu_encode :: "asdu \<Rightarrow> enc" where
  "asdu_encode a = constructed TAG_ASDU (
     sbind (enc_visible_string (tag_context 0) (as_sv_id a)) (\<lambda>_.
     sbind (enc_opt (enc_visible_string (tag_context 1)) (as_dat_set a)) (\<lambda>_.
     sbind (enc_unsigned_fixed_min (tag_context 2) (ucast (as_smp_cnt a)) 2) (\<lambda>_.
     sbind (enc_unsigned_fixed_min (tag_context 3) (ucast (as_conf_rev a)) 4) (\<lambda>_.
     sbind (enc_opt (enc_utc_time (tag_context 4)) (as_refr_tm a)) (\<lambda>_.
     sbind (enc_opt (\<lambda>s. enc_unsigned_fixed_min (tag_context 5) (ucast (smp_synch_to_u8 s)) 1) (as_smp_synch a)) (\<lambda>_.
     sbind (enc_opt (\<lambda>r. enc_unsigned_fixed_min (tag_context 6) (ucast r) 2) (as_smp_rate a)) (\<lambda>_.
     sbind (primitive (tag_context 7) (as_sample a)) (\<lambda>_.
     sbind (enc_opt (\<lambda>m. enc_unsigned_fixed_min (tag_context 8) (ucast m) 1) (as_smp_mod a)) (\<lambda>_.
     enc_opt (primitive (tag_context 9)) (as_gm_identity a)))))))))))"

record sav_pdu =
  sp_asdus :: "asdu list"

definition savpdu_encode :: "sav_pdu \<Rightarrow> bytes result" where
  "savpdu_encode p = (case constructed TAG_SAV_PDU (
       sbind (enc_unsigned_fixed_min (tag_context 0) (of_nat (length (sp_asdus p))) 1) (\<lambda>_.
       constructed (tag_context_constructed 2) (sfor asdu_encode (sp_asdus p)))) [] of
     (Inl e, _) \<Rightarrow> Inl e | (Inr _, e) \<Rightarrow> Inr e)"

section \<open>The octets of an ASDU\<close>

text \<open>\<open>wc\<close> and \<open>ws\<close> are the widths of \<open>smpCnt\<close> and \<open>smpSynch\<close>; the encoder picks the least.\<close>

definition fixed_octets :: "usize \<Rightarrow> u64 \<Rightarrow> bytes" where
  "fixed_octets m v = to_be (unsigned_width v m) v"

definition asdu_tagged :: "usize \<Rightarrow> usize \<Rightarrow> asdu \<Rightarrow> tagged" where
  "asdu_tagged wc ws a =
     [(tag_context 0, as_bytes (as_sv_id a))] @ opt_tagged (tag_context 1) as_bytes (as_dat_set a) @
     [(tag_context 2, to_be wc (ucast (as_smp_cnt a) :: u64)), (tag_context 3, fixed_octets 4 (ucast (as_conf_rev a)))] @
     opt_tagged (tag_context 4) utc_to_octets (as_refr_tm a) @
     opt_tagged (tag_context 5) (\<lambda>s. to_be ws (ucast (smp_synch_to_u8 s) :: u64)) (as_smp_synch a) @
     opt_tagged (tag_context 6) (\<lambda>r. fixed_octets 2 (ucast r)) (as_smp_rate a) @
     [(tag_context 7, as_sample a)] @
     opt_tagged (tag_context 8) (\<lambda>m. fixed_octets 1 (ucast m)) (as_smp_mod a) @
     opt_tagged (tag_context 9) (\<lambda>g. g) (as_gm_identity a)"

definition asdu_contents :: "usize \<Rightarrow> usize \<Rightarrow> asdu \<Rightarrow> bytes" where
  "asdu_contents wc ws a = tagged_octets (asdu_tagged wc ws a)"

definition asdu_ok :: "asdu \<Rightarrow> bool" where
  "asdu_ok a \<longleftrightarrow> ascii_str (as_sv_id a) \<and> length (as_sv_id a) < 4294967296 \<and>
     (\<forall>d. as_dat_set a = Some d \<longrightarrow> ascii_str d \<and> length d < 4294967296) \<and>
     (\<forall>t. as_refr_tm a = Some t \<longrightarrow> utc_wf t) \<and> (\<forall>s. as_smp_synch a = Some s \<longrightarrow> synch_wf s) \<and>
     fits (as_sample a) \<and> (\<forall>g. as_gm_identity a = Some g \<longrightarrow> length g = 8)"

definition widths_ok :: "usize \<Rightarrow> usize \<Rightarrow> asdu \<Rightarrow> bool" where
  "widths_ok wc ws a \<longleftrightarrow> fits_width wc (ucast (as_smp_cnt a)) \<and>
     (\<forall>s. as_smp_synch a = Some s \<longrightarrow> fits_width ws (ucast (smp_synch_to_u8 s)))"

definition asdu_at :: "usize \<Rightarrow> usize \<Rightarrow> usize \<Rightarrow> asdu \<Rightarrow> asdu_offsets" where
  "asdu_at base wc ws a = (let fs = asdu_tagged wc ws a; at = (\<lambda>n. base + offset_of (tag_context n) fs) in
     \<lparr> ao_smp_cnt = \<lparr> fld_at = at 2, fld_len = wc \<rparr>,
       ao_smp_synch = map_option (\<lambda>_. \<lparr> fld_at = at 5, fld_len = ws \<rparr>) (as_smp_synch a),
       ao_refr_tm = map_option (\<lambda>_. at 4) (as_refr_tm a), ao_sample = at 7,
       ao_gm_identity = map_option (\<lambda>_. at 9) (as_gm_identity a) \<rparr>)"

definition asdu_view_of :: "usize \<Rightarrow> usize \<Rightarrow> usize \<Rightarrow> asdu \<Rightarrow> asdu_view" where
  "asdu_view_of base wc ws a = \<lparr> av_sv_id = as_sv_id a, av_dat_set = as_dat_set a, av_smp_cnt = as_smp_cnt a,
     av_conf_rev = as_conf_rev a, av_refr_tm = as_refr_tm a, av_smp_synch = as_smp_synch a,
     av_smp_rate = as_smp_rate a, av_sample = as_sample a, av_smp_mod = as_smp_mod a,
     av_gm_identity = as_gm_identity a, av_at = asdu_at base wc ws a \<rparr>"

lemma fixed_octets_field:
  assumes "1 \<le> m" "m \<le> 8" "LENGTH('a::len) \<le> 32"
  shows "unsigned_lenient_u32 (mk_tlv t (fixed_octets m (ucast (v :: 'a word))) off) = Inr (ucast v)"
  using lenient_narrow_to_be [OF assms(3) fits_width_min [OF assms(1,2) ucast_lt_63 [OF assms(3)]], where t = t and off = off]
  by (simp add: fixed_octets_def)

lemma fits_fixed_octets: "1 \<le> m \<Longrightarrow> m \<le> 8 \<Longrightarrow> LENGTH('a::len) \<le> 32 \<Longrightarrow> fits (fixed_octets m (ucast (v :: 'a word)))"
  using unsigned_width_ok [of m "ucast v"] ucast_lt_63 [of v] by (simp add: fixed_octets_def)

lemma narrowed_ucast [simp]:
  "LENGTH('a) \<le> 32 \<Longrightarrow> narrowed (ucast (v :: 'a::len word)) c = (Inr v, c)"
  by (simp add: narrowed_def narrow_ucast)

lemma narrowed_opt_ucast [simp]:
  "LENGTH('a) \<le> 32 \<Longrightarrow> narrowed_opt (map_option ucast (x :: 'a::len word option)) c = (Inr x, c)"
  by (cases x) (simp_all add: narrowed_opt_def sbind_def)


lemma read_synch_simps [simp]:
  "read_synch None c = (Inr None, c)"
  "fits_width ws (ucast (smp_synch_to_u8 s)) \<Longrightarrow> synch_wf s \<Longrightarrow>
    read_synch (Some (mk_tlv t (to_be ws (ucast (smp_synch_to_u8 s) :: u64)) off)) c = (Inr (Some s), c)"
  by (simp_all add: read_synch_def sbind_def lenient_narrow_to_be synch_wf_def)

lemma asdu_fields_contents:
  assumes "asdu_ok a" "widths_ok wc ws a"
  shows "fst (asdu_fields (cur_at pre (asdu_contents wc ws a) base)) = Inr (asdu_view_of (base + length pre) wc ws a)"
proof -
  note ok = assms(1) [unfolded asdu_ok_def] and w = assms(2) [unfolded widths_ok_def]
  have fc: "fits (to_be wc (ucast (as_smp_cnt a) :: u64))" using w by (auto simp: fits_width_def)
  have fs: "as_smp_synch a = Some s \<Longrightarrow> fits (to_be ws (ucast (smp_synch_to_u8 s) :: u64))" for s
    using w by (auto simp: fits_width_def)
  have t: "as_refr_tm a = Some x \<Longrightarrow> fits (utc_to_octets x)" for x by simp
  have g: "as_gm_identity a = Some x \<Longrightarrow> fits x" for x using ok by simp
  show ?thesis
    using ok w fc fs
    by (cases "as_refr_tm a"; cases "as_smp_synch a"; cases "as_gm_identity a")
      (simp_all add: asdu_fields_def asdu_contents_def asdu_tagged_def sbind_def [abs_def] visible_field.get_mk_tlv
        opt_field_opt opt_field_map next_if_tag_opt last_opt opt_field_map [where rest = "[]", simplified] lenient_narrow_to_be fixed_octets_field fits_fixed_octets
        utc_field.get_mk_tlv asdu_view_of_def asdu_at_def
        sv_field_of_def value_offset_mk_tlv Let_def)
qed

section \<open>The octets of a frame\<close>

text \<open>The ASDUs of a frame, each with the widths its patchable fields were written at.\<close>

type_synonym sized_asdu = "usize \<times> usize \<times> asdu"

definition least_widths :: "asdu \<Rightarrow> sized_asdu" where
  "least_widths a = (smp_cnt_width (as_smp_cnt a),
     (case as_smp_synch a of Some s \<Rightarrow> unsigned_width (ucast (smp_synch_to_u8 s)) 1 | None \<Rightarrow> 1), a)"

fun sized_contents :: "sized_asdu \<Rightarrow> bytes" where
  "sized_contents (wc, ws, a) = asdu_contents wc ws a"

fun sized_ok :: "sized_asdu \<Rightarrow> bool" where
  "sized_ok (wc, ws, a) \<longleftrightarrow> asdu_ok a \<and> widths_ok wc ws a \<and> fits (asdu_contents wc ws a)"

definition asdus_octets :: "sized_asdu list \<Rightarrow> bytes" where
  "asdus_octets xs = concat (map (\<lambda>x. element TAG_ASDU (sized_contents x)) xs)"

fun asdu_views :: "usize \<Rightarrow> sized_asdu list \<Rightarrow> asdu_view list" where
  "asdu_views base [] = []"
| "asdu_views base ((wc, ws, a) # xs) =
     asdu_view_of (base + length (element_head TAG_ASDU (length (asdu_contents wc ws a)))) wc ws a #
     asdu_views (base + length (element TAG_ASDU (asdu_contents wc ws a))) xs"

definition savpdu_head :: "sized_asdu list \<Rightarrow> bytes" where
  "savpdu_head xs = element (tag_context 0) (fixed_octets 1 (of_nat (length xs))) @
     element_head (tag_context_constructed 2) (length (asdus_octets xs))"

definition savpdu_contents :: "sized_asdu list \<Rightarrow> bytes" where
  "savpdu_contents xs = savpdu_head xs @ asdus_octets xs"

definition savpdu_octets :: "sized_asdu list \<Rightarrow> bytes" where
  "savpdu_octets xs = element TAG_SAV_PDU (savpdu_contents xs)"

text \<open>Where the first ASDU starts.\<close>

definition asdus_base :: "sized_asdu list \<Rightarrow> usize" where
  "asdus_base xs = length (element_head TAG_SAV_PDU (length (savpdu_contents xs))) + length (savpdu_head xs)"

definition savpdu_ok :: "limits \<Rightarrow> sized_asdu list \<Rightarrow> bool" where
  "savpdu_ok l xs \<longleftrightarrow> list_all sized_ok xs \<and> length xs \<le> max_asdus l \<and> length xs < 2 ^ 16 \<and> fits (savpdu_contents xs)"

lemma asdus_octets_simps [simp]:
  "asdus_octets [] = []" "asdus_octets (x # xs) = element TAG_ASDU (sized_contents x) @ asdus_octets xs"
  "asdus_octets (xs @ ys) = asdus_octets xs @ asdus_octets ys"
  by (simp_all add: asdus_octets_def)

lemma length_asdu_views [simp]: "length (asdu_views base xs) = length xs"
  by (induction base xs rule: asdu_views.induct) simp_all

lemma asdu_parse_element:
  assumes "sized_ok (wc, ws, a)"
  shows "asdu_parse (mk_tlv TAG_ASDU (asdu_contents wc ws a) off) =
    Inr (asdu_view_of (off + length (element_head TAG_ASDU (length (asdu_contents wc ws a)))) wc ws a)"
  using asdu_fields_contents [of a wc ws "[]"] assms
  by (simp add: asdu_parse_def expect_def cur_at_start value_offset_mk_tlv)

lemma asdus_next_octets:
  "list_all sized_ok xs \<Longrightarrow> asdus_next (cur_at pre (asdus_octets xs) base) = map Inr (asdu_views (base + length pre) xs)"
proof (induction xs arbitrary: pre)
  case Nil
  then show ?case by (subst asdus_next.simps) simp
next
  case (Cons x xs)
  obtain wc ws a where x: "x = (wc, ws, a)" by (cases x)
  show ?case
    using Cons by (subst asdus_next.simps) (simp add: x asdu_parse_element add.assoc)
qed

lemma count_asdus_views:
  "unat n + length xs < 2 ^ 16 \<Longrightarrow> count_asdus (map Inr xs) n = Inr (n + of_nat (length xs))"
proof (induction xs arbitrary: n)
  case (Cons x xs)
  then have "sat_add n 1 = n + 1" "unat (n + 1) = unat n + 1"
    by (simp_all add: sat_add_def unat_plus_le)
  with Cons show ?case by (simp add: algebra_simps)
qed simp

lemma savpdu_parse_octets:
  assumes "savpdu_ok l xs"
  shows "\<exists>v. savpdu_parse (savpdu_octets xs @ rest) l = Inr v \<and> sv_no_asdu v = of_nat (length xs) \<and>
    sv_raw v = savpdu_octets xs \<and> sv_security v = None \<and>
    savpdu_asdus v = map Inr (asdu_views (asdus_base xs) xs)"
proof -
  note ok = assms [unfolded savpdu_ok_def]
  let ?o = "savpdu_octets xs" and ?c = "savpdu_contents xs"
  let ?n = "of_nat (length xs) :: u16"
  have un: "unat ?n = length xs" using ok by (simp add: unat_of_nat)
  have n: "ucast ?n = (of_nat (length xs) :: u64)"
    using ok by (simp add: word_unat_eq_iff unat_ucast_up un) (simp add: unat_of_nat)
  have c: "?c = element (tag_context 0) (fixed_octets 1 (ucast ?n)) @ element (tag_context_constructed 2) (asdus_octets xs)"
    by (simp add: savpdu_contents_def savpdu_head_def n element_split [of "tag_context_constructed 2"])
  have f: "fits (asdus_octets xs)" using ok c fits_element by (auto simp: element_def)
  let ?base = "tlv_value_offset (mk_tlv TAG_SAV_PDU ?c 0)"
  let ?t = "mk_tlv (tag_context_constructed 2) (asdus_octets xs) (?base + length (element (tag_context 0) (fixed_octets 1 (ucast ?n))))"
  let ?v = "\<lparr> sv_no_asdu = ?n, sv_security = None, sv_asdus = ?t, sv_raw = ?o \<rparr>"
  have "savpdu_asdus ?v = map Inr (asdu_views (asdus_base xs) xs)"
    using asdus_next_octets [of xs "[]"] ok
    by (simp add: savpdu_asdus_def cur_at_start asdus_base_def savpdu_head_def value_offset_mk_tlv n add.assoc)
  moreover have "fst (savpdu_fields l ?o (cur_at [] ?c ?base)) = Inr ?v"
    using ok f un count_asdus_views [of 0 "asdu_views (asdus_base xs) xs"] calculation
    by (simp add: savpdu_fields_def c sbind_def fixed_octets_field fits_fixed_octets sv_security_field_def not_less Let_def)
  moreover have "slice (?o @ rest) 0 (total_len (mk_tlv TAG_SAV_PDU ?c 0)) = Some ?o"
    by (simp add: total_len_mk_tlv slice_def savpdu_octets_def)
  ultimately show ?thesis
    using ok by (intro exI [of _ ?v]) (simp add: savpdu_parse_def cur_at_start savpdu_octets_def)
qed

lemma emits_asdu:
  assumes "sized_ok (least_widths a)"
  shows "emits (asdu_encode a) (element TAG_ASDU (sized_contents (least_widths a)))"
proof -
  obtain wc ws where w: "least_widths a = (wc, ws, a)" "wc = unsigned_width (ucast (as_smp_cnt a)) 2"
    "\<And>s. as_smp_synch a = Some s \<Longrightarrow> ws = unsigned_width (ucast (smp_synch_to_u8 s)) 1"
    by (simp add: least_widths_def smp_cnt_width_def split: option.splits)
  note ok = assms [unfolded w(1) sized_ok.simps asdu_ok_def]
  have "emits (enc_opt (\<lambda>s. enc_unsigned_fixed_min (tag_context 5) (ucast (smp_synch_to_u8 s)) 1) (as_smp_synch a))
      (opt_element (tag_context 5) (\<lambda>s. to_be ws (ucast (smp_synch_to_u8 s) :: u64)) (as_smp_synch a))"
    by (rule emits_enc_opt) (auto simp: w(3) intro!: emits_fixed_min ucast_lt_63)
  moreover have "emits (enc_opt (enc_utc_time (tag_context 4)) (as_refr_tm a)) (opt_element (tag_context 4) utc_to_octets (as_refr_tm a))"
    by (rule emits_enc_opt) (auto simp: enc_utc_time_def intro!: emits_primitive)
  moreover have "emits (enc_opt (\<lambda>r. enc_unsigned_fixed_min (tag_context 6) (ucast r) 2) (as_smp_rate a))
      (opt_element (tag_context 6) (\<lambda>r. fixed_octets 2 (ucast r)) (as_smp_rate a))"
    by (rule emits_enc_opt) (auto simp: fixed_octets_def intro!: emits_fixed_min ucast_lt_63)
  moreover have "emits (enc_opt (\<lambda>m. enc_unsigned_fixed_min (tag_context 8) (ucast m) 1) (as_smp_mod a))
      (opt_element (tag_context 8) (\<lambda>m. fixed_octets 1 (ucast m)) (as_smp_mod a))"
    by (rule emits_enc_opt) (auto simp: fixed_octets_def intro!: emits_fixed_min ucast_lt_63)
  moreover have "emits (enc_opt (primitive (tag_context 9)) (as_gm_identity a))
      (opt_element (tag_context 9) (\<lambda>g. g) (as_gm_identity a))"
    using ok by (intro emits_enc_opt emits_primitive) auto
  moreover have "emits (enc_opt (enc_visible_string (tag_context 1)) (as_dat_set a))
      (opt_element (tag_context 1) as_bytes (as_dat_set a))"
    using ok by (intro emits_enc_opt visible_field.put_emits) auto
  moreover have "emits (enc_unsigned_fixed_min (tag_context 2) (ucast (as_smp_cnt a)) 2)
      (element (tag_context 2) (to_be wc (ucast (as_smp_cnt a) :: u64)))"
    "emits (enc_unsigned_fixed_min (tag_context 3) (ucast (as_conf_rev a)) 4)
      (element (tag_context 3) (fixed_octets 4 (ucast (as_conf_rev a))))"
    by (auto simp: w(2) fixed_octets_def intro!: emits_fixed_min ucast_lt_63)
  ultimately show ?thesis
    using ok unfolding asdu_encode_def w(1) sized_contents.simps
    by (intro emits_constructed) (auto simp: asdu_contents_def asdu_tagged_def
        intro!: emits_bind visible_field.put_emits emits_primitive)
qed

lemma savpdu_encode_octets:
  assumes "savpdu_ok l (map least_widths (sp_asdus p))"
  shows "savpdu_encode p = Inr (savpdu_octets (map least_widths (sp_asdus p)))"
proof -
  let ?xs = "map least_widths (sp_asdus p)"
  note ok = assms [unfolded savpdu_ok_def]
  have c: "savpdu_contents ?xs = element (tag_context 0) (fixed_octets 1 (of_nat (length ?xs))) @
      element (tag_context_constructed 2) (asdus_octets ?xs)"
    by (simp add: savpdu_contents_def savpdu_head_def element_split [of "tag_context_constructed 2"])
  have "emits (sfor asdu_encode (sp_asdus p)) (asdus_octets ?xs)"
    unfolding asdus_octets_def map_map o_def using ok by (intro emits_for emits_asdu) (auto simp: list_all_iff)
  moreover have "fits (asdus_octets ?xs)" using ok c by (auto simp: element_def)
  ultimately have "emits (constructed (tag_context_constructed 2) (sfor asdu_encode (sp_asdus p)))
      (element (tag_context_constructed 2) (asdus_octets ?xs))"
    by (intro emits_constructed) simp_all
  moreover have "emits (enc_unsigned_fixed_min (tag_context 0) (of_nat (length (sp_asdus p))) 1)
      (element (tag_context 0) (fixed_octets 1 (of_nat (length ?xs))))"
    unfolding fixed_octets_def using ok
    by (simp, intro emits_fixed_min) (simp_all add: word_less_nat_alt unat_of_nat)
  ultimately have "emits (constructed TAG_SAV_PDU (sbind (enc_unsigned_fixed_min (tag_context 0) (of_nat (length (sp_asdus p))) 1)
      (\<lambda>_. constructed (tag_context_constructed 2) (sfor asdu_encode (sp_asdus p))))) (savpdu_octets ?xs)"
    unfolding savpdu_octets_def using ok by (intro emits_constructed) (simp_all add: c emits_bind)
  then show ?thesis by (simp add: savpdu_encode_def emitsD)
qed

section \<open>Round trip\<close>

definition asdu_of_view :: "asdu_view \<Rightarrow> asdu" where
  "asdu_of_view v = \<lparr> as_sv_id = av_sv_id v, as_dat_set = av_dat_set v, as_smp_cnt = av_smp_cnt v,
     as_conf_rev = av_conf_rev v, as_refr_tm = av_refr_tm v, as_smp_synch = av_smp_synch v,
     as_smp_rate = av_smp_rate v, as_sample = av_sample v, as_smp_mod = av_smp_mod v,
     as_gm_identity = av_gm_identity v \<rparr>"

text \<open>The reported offsets point at the octets of the fields they name.\<close>

definition number_at :: "bytes \<Rightarrow> sv_field \<Rightarrow> u64 option" where
  "number_at raw f = map_option from_be (slice raw (fld_at f) (fld_at f + fld_len f))"

definition octets_at :: "bytes \<Rightarrow> usize \<Rightarrow> bytes \<Rightarrow> bool" where
  "octets_at raw at bs \<longleftrightarrow> slice raw at (at + length bs) = Some bs"

definition offsets_true :: "bytes \<Rightarrow> asdu_view \<Rightarrow> bool" where
  "offsets_true raw v \<longleftrightarrow> number_at raw (ao_smp_cnt (av_at v)) = Some (ucast (av_smp_cnt v)) \<and>
     rel_option (\<lambda>f s. number_at raw f = Some (ucast (smp_synch_to_u8 s))) (ao_smp_synch (av_at v)) (av_smp_synch v) \<and>
     rel_option (\<lambda>at t. octets_at raw at (utc_to_octets t)) (ao_refr_tm (av_at v)) (av_refr_tm v) \<and>
     octets_at raw (ao_sample (av_at v)) (av_sample v) \<and>
     rel_option (octets_at raw) (ao_gm_identity (av_at v)) (av_gm_identity v)"

lemma asdu_of_view_of [simp]: "asdu_of_view (asdu_view_of base wc ws a) = a"
  by (simp add: asdu_of_view_def asdu_view_of_def)

lemma asdus_of_views [simp]: "map asdu_of_view (asdu_views base xs) = map (\<lambda>(_, _, a). a) xs"
  by (induction base xs rule: asdu_views.induct) simp_all

lemma read_field_in:
  assumes "contents_of t fs = Some c"
  shows "slice (pre @ tagged_octets fs @ post) (length pre + offset_of t fs) (length pre + offset_of t fs + length c) = Some c"
  using read_field [OF assms] offset_of_bound [OF assms] by (simp add: slice_right slice_left add.assoc)

lemma asdu_contents_of:
  "contents_of (tag_context 2) (asdu_tagged wc ws a) = Some (to_be wc (ucast (as_smp_cnt a) :: u64))"
  "contents_of (tag_context 4) (asdu_tagged wc ws a) = map_option utc_to_octets (as_refr_tm a)"
  "contents_of (tag_context 5) (asdu_tagged wc ws a) = map_option (\<lambda>s. to_be ws (ucast (smp_synch_to_u8 s) :: u64)) (as_smp_synch a)"
  "contents_of (tag_context 7) (asdu_tagged wc ws a) = Some (as_sample a)"
  "contents_of (tag_context 9) (asdu_tagged wc ws a) = as_gm_identity a"
  by (cases "as_refr_tm a"; cases "as_smp_synch a"; cases "as_gm_identity a"; simp add: asdu_tagged_def)+

lemma number_at_field:
  assumes "contents_of t fs = Some (to_be w v)" "fits_width w v"
  shows "number_at (pre @ tagged_octets fs @ post) \<lparr> fld_at = length pre + offset_of t fs, fld_len = w \<rparr> = Some v"
  using read_field_in [OF assms(1), of pre post] assms(2) by (simp add: number_at_def fits_width_def fixed_value)

lemma octets_at_field:
  "contents_of t fs = Some c \<Longrightarrow> octets_at (pre @ tagged_octets fs @ post) (length pre + offset_of t fs) c"
  by (simp add: octets_at_def read_field_in)

lemma offsets_true_asdu:
  assumes "widths_ok wc ws a"
  shows "offsets_true (pre @ asdu_contents wc ws a @ post) (asdu_view_of (length pre) wc ws a)"
  using assms by (auto simp: offsets_true_def asdu_view_of_def asdu_at_def asdu_contents_def widths_ok_def
      option_rel_Some1 option.rel_map option.rel_refl_strong Let_def asdu_contents_of
      intro!: number_at_field octets_at_field option.rel_refl_strong)

lemma offsets_true_views:
  "list_all sized_ok xs \<Longrightarrow> list_all (offsets_true (pre @ asdus_octets xs @ post)) (asdu_views (length pre) xs)"
proof (induction xs arbitrary: pre)
  case (Cons x xs)
  obtain wc ws a where x: "x = (wc, ws, a)" by (cases x)
  let ?h = "element_head TAG_ASDU (length (asdu_contents wc ws a))"
  have "widths_ok wc ws a" using Cons.prems by (simp add: x)
  then have "offsets_true (pre @ asdus_octets (x # xs) @ post) (asdu_view_of (length pre + length ?h) wc ws a)"
    using offsets_true_asdu [of wc ws a "pre @ ?h" "asdus_octets xs @ post"] by (simp add: x element_split)
  then show ?case
    using Cons.IH [of "pre @ element TAG_ASDU (sized_contents x)"] Cons.prems by (simp add: x)
qed simp

definition sav_pdu_ok :: "limits \<Rightarrow> sav_pdu \<Rightarrow> bool" where
  "sav_pdu_ok l p \<longleftrightarrow> list_all asdu_ok (sp_asdus p) \<and> length (sp_asdus p) \<le> max_asdus l \<and>
     length (sp_asdus p) < 2 ^ 16 \<and> fits (savpdu_contents (map least_widths (sp_asdus p)))"

lemma least_widths_ok: "least_widths a = (wc, ws, b) \<Longrightarrow> b = a \<and> widths_ok wc ws a"
  by (auto simp: least_widths_def widths_ok_def smp_cnt_width_def intro!: fits_width_min ucast_lt_63)

lemma fits_asdus: "fits (asdus_octets xs) \<Longrightarrow> x \<in> set xs \<Longrightarrow> fits (sized_contents x)"
  by (induction xs) (auto simp: element_def)

text \<open>Every field costs at most eleven octets beyond its contents.\<close>

definition opt_length :: "'a list option \<Rightarrow> nat" where
  "opt_length x = (case x of Some y \<Rightarrow> length y | None \<Rightarrow> 0)"

lemma opt_element_bound: "(\<And>y. x = Some y \<Longrightarrow> length (f y) \<le> n) \<Longrightarrow> length (opt_element t f x) \<le> n + 11"
  by (cases x) (simp_all add: element_bound)

lemma fixed_octets_bound: "1 \<le> m \<Longrightarrow> m \<le> 8 \<Longrightarrow> LENGTH('a::len) \<le> 32 \<Longrightarrow> length (fixed_octets m (ucast (v :: 'a word))) \<le> 8"
  using unsigned_width_ok [of m "ucast v"] ucast_lt_63 [of v] by (simp add: fixed_octets_def)

lemma opt_octets_bound: "length (opt_element t as_bytes d) \<le> opt_length d + 11" "length (opt_element t (\<lambda>g. g) g) \<le> opt_length g + 11"
  by (cases d; cases g; simp add: opt_length_def element_bound)+

lemma asdu_contents_bound:
  assumes w: "widths_ok wc ws a"
  shows "length (asdu_contents wc ws a) \<le> length (as_sv_id a) + opt_length (as_dat_set a) + length (as_sample a) +
     opt_length (as_gm_identity a) + 158"
proof -
  have "length (opt_element (tag_context 5) (\<lambda>s. to_be ws (ucast (smp_synch_to_u8 s) :: u64)) (as_smp_synch a)) \<le> 8 + 11"
    using w by (intro opt_element_bound) (auto simp: widths_ok_def fits_width_def)
  moreover have "wc \<le> 8" using w by (simp add: widths_ok_def fits_width_def)
  then have "length (element (tag_context 2) (to_be wc (ucast (as_smp_cnt a) :: u64))) \<le> 8 + 11"
    by (intro element_bound) simp
  moreover have "length (opt_element (tag_context 4) utc_to_octets (as_refr_tm a)) \<le> 8 + 11" by (rule opt_element_bound) simp
  moreover have "length (opt_element (tag_context 6) (\<lambda>r. fixed_octets 2 (ucast r)) (as_smp_rate a)) \<le> 8 + 11"
    "length (opt_element (tag_context 8) (\<lambda>m. fixed_octets 1 (ucast m)) (as_smp_mod a)) \<le> 8 + 11"
    by (intro opt_element_bound fixed_octets_bound; simp)+
  moreover have "length (element (tag_context 3) (fixed_octets 4 (ucast (as_conf_rev a)))) \<le> 8 + 11"
    by (intro element_bound fixed_octets_bound) simp_all
  ultimately show ?thesis
    using element_bound [of "as_bytes (as_sv_id a)" "length (as_sv_id a)" "tag_context 0"]
      element_bound [of "as_sample a" "length (as_sample a)" "tag_context 7"]
      opt_octets_bound(1) [of "tag_context 1" "as_dat_set a"] opt_octets_bound(2) [of "tag_context 9" "as_gm_identity a"]
    by (simp add: asdu_contents_def asdu_tagged_def)
qed

lemma savpdu_contents_bound: "length xs < 2 ^ 16 \<Longrightarrow> length (savpdu_contents xs) \<le> length (asdus_octets xs) + 30"
proof -
  assume "length xs < 2 ^ 16"
  then have "(of_nat (length xs) :: u64) = ucast (of_nat (length xs) :: u32)"
    by (simp add: word_unat_eq_iff unat_ucast_up unat_of_nat)
  then have "length (element (tag_context 0) (fixed_octets 1 (of_nat (length xs)))) \<le> 8 + 11"
    using fixed_octets_bound [where v = "of_nat (length xs) :: u32" and m = 1] by (intro element_bound) simp
  moreover have "length (element_head (tag_context_constructed 2) (length (asdus_octets xs))) \<le> 11"
    using length_length_octets [of "length (asdus_octets xs)"] length_tag_octets [of "tag_context_constructed 2"] by (simp add: element_head_def)
  ultimately show ?thesis
    by (simp add: savpdu_contents_def savpdu_head_def)
qed

lemma sav_pdu_ok_sized: "sav_pdu_ok l p \<Longrightarrow> savpdu_ok l (map least_widths (sp_asdus p))"
proof -
  assume ok: "sav_pdu_ok l p"
  have "fits (asdus_octets (map least_widths (sp_asdus p)))"
    using ok by (auto simp: sav_pdu_ok_def savpdu_contents_def)
  then have "fits (sized_contents (least_widths a))" if "a \<in> set (sp_asdus p)" for a
    using that by (intro fits_asdus) auto
  then have "sized_ok (least_widths a)" if "a \<in> set (sp_asdus p)" for a
    using ok that least_widths_ok [of a] by (cases "least_widths a") (fastforce simp: sav_pdu_ok_def list_all_iff)
  then show ?thesis using ok by (simp add: sav_pdu_ok_def savpdu_ok_def list_all_iff)
qed

text \<open>
  C34: a sampled-value PDU written by the encoder is read back ASDU for ASDU, whatever octets
  follow it in the frame, and the offsets the decoder reports for the patchable fields point at exactly
  the octets of those fields.
\<close>

theorem savpdu_roundtrip:
  assumes "sav_pdu_ok l p"
  shows "\<exists>v views. rbind (savpdu_encode p) (\<lambda>apdu. savpdu_parse (apdu @ padding) l) = Inr v \<and>
    unat (sv_no_asdu v) = length (sp_asdus p) \<and> savpdu_asdus v = map Inr views \<and>
    map asdu_of_view views = sp_asdus p \<and> list_all (offsets_true (sv_raw v)) views"
proof -
  let ?xs = "map least_widths (sp_asdus p)"
  note ok = sav_pdu_ok_sized [OF assms]
  obtain v where v: "savpdu_parse (savpdu_octets ?xs @ padding) l = Inr v" "sv_no_asdu v = of_nat (length ?xs)"
    "sv_raw v = savpdu_octets ?xs" "savpdu_asdus v = map Inr (asdu_views (asdus_base ?xs) ?xs)"
    using savpdu_parse_octets [OF ok] by blast
  have "savpdu_octets ?xs = (element_head TAG_SAV_PDU (length (savpdu_contents ?xs)) @ savpdu_head ?xs) @ asdus_octets ?xs @ []"
    by (simp add: savpdu_octets_def element_split savpdu_contents_def)
  then have "list_all (offsets_true (savpdu_octets ?xs)) (asdu_views (asdus_base ?xs) ?xs)"
    using offsets_true_views [of ?xs "element_head TAG_SAV_PDU (length (savpdu_contents ?xs)) @ savpdu_head ?xs" "[]"] ok
    by (simp add: asdus_base_def savpdu_ok_def)
  moreover have "map (\<lambda>(_, _, a). a) ?xs = sp_asdus p"
    by (simp add: map_idI least_widths_def comp_def)
  ultimately show ?thesis
    using v assms savpdu_encode_octets [OF ok] by (auto simp: sav_pdu_ok_def unat_of_nat)
qed

text \<open>A witness: two consecutive samples of a stream that carries every optional field.\<close>

definition sample_asdu :: "u16 \<Rightarrow> asdu" where
  "sample_asdu cnt = \<lparr> as_sv_id = ''MU01'', as_dat_set = Some ''ds'', as_smp_cnt = cnt, as_conf_rev = 1,
     as_refr_tm = Some utc_default, as_smp_synch = Some SynchGlobal, as_smp_rate = Some 4800,
     as_sample = [0, 0, 0x30, 0x39, 0, 0, 0, 0], as_smp_mod = Some 1, as_gm_identity = Some (replicate 8 7) \<rparr>"

definition sample_sav_pdu :: sav_pdu where
  "sample_sav_pdu = \<lparr> sp_asdus = [sample_asdu 4799, sample_asdu 0] \<rparr>"

lemma sample_sav_fits: "fits (savpdu_contents (map least_widths (sp_asdus sample_sav_pdu)))"
proof -
  have "length (sized_contents (least_widths (sample_asdu cnt))) \<le> 188" for cnt
    using asdu_contents_bound [of _ _ "sample_asdu cnt"] least_widths_ok [of "sample_asdu cnt"]
    by (cases "least_widths (sample_asdu cnt)") (fastforce simp: sample_asdu_def opt_length_def)
  then have "length (asdus_octets (map least_widths (sp_asdus sample_sav_pdu))) \<le> 398"
    using element_bound [of "sized_contents (least_widths (sample_asdu 4799))" 188 TAG_ASDU]
      element_bound [of "sized_contents (least_widths (sample_asdu 0))" 188 TAG_ASDU]
    by (simp add: sample_sav_pdu_def)
  then show ?thesis
    using savpdu_contents_bound [of "map least_widths (sp_asdus sample_sav_pdu)"] by (simp add: sample_sav_pdu_def)
qed

lemma sample_sav_pdu_ok: "sav_pdu_ok default_limits sample_sav_pdu"
  using sample_sav_fits
  by (simp add: sav_pdu_ok_def sample_sav_pdu_def sample_asdu_def asdu_ok_def default_limits_def utc_default_wf
      is_ascii_def as_bytes_def octet_def)

theorem savpdu_roundtrip_witness:
  "\<exists>v views. rbind (savpdu_encode sample_sav_pdu) (\<lambda>apdu. savpdu_parse (apdu @ [0, 0]) default_limits) = Inr v \<and>
    unat (sv_no_asdu v) = length (sp_asdus sample_sav_pdu) \<and> savpdu_asdus v = map Inr views \<and>
    map asdu_of_view views = sp_asdus sample_sav_pdu \<and> list_all (offsets_true (sv_raw v)) views"
  by (rule savpdu_roundtrip [OF sample_sav_pdu_ok])

end
