(* ===== verification/Float_Bits.thy ===== *)
theory Float_Bits
  imports Prelude
begin

text \<open>
  The two conversions Rust makes between IEEE 754 formats, on bit patterns: \<open>f64::from(f32)\<close>, which is
  exact, and \<open>as f32\<close>, which rounds to nearest, ties to even, and overflows to infinity. A NaN stays a
  NaN (its payload is not specified by the language; here it is made quiet).
\<close>

fun high_bit :: "nat \<Rightarrow> nat" where
  "high_bit n = (if n < 2 then 0 else Suc (high_bit (n div 2)))"

declare high_bit.simps [simp del]

definition f32_exp :: "u32 \<Rightarrow> nat" where "f32_exp x = unat x div 2 ^ 23 mod 2 ^ 8"
definition f32_frac :: "u32 \<Rightarrow> nat" where "f32_frac x = unat x mod 2 ^ 23"
definition f64_exp :: "u64 \<Rightarrow> nat" where "f64_exp x = unat x div 2 ^ 52 mod 2 ^ 11"
definition f64_frac :: "u64 \<Rightarrow> nat" where "f64_frac x = unat x mod 2 ^ 52"

definition widen_magnitude :: "nat \<Rightarrow> nat \<Rightarrow> nat" where
  "widen_magnitude e m =
     (if e = 255 then (if m = 0 then 2047 * 2 ^ 52 else 2047 * 2 ^ 52 + (2 ^ 51 OR m * 2 ^ 29))
      else if e = 0 then (if m = 0 then 0 else (high_bit m + 874) * 2 ^ 52 + (m - 2 ^ high_bit m) * 2 ^ (52 - high_bit m))
      else (e + 896) * 2 ^ 52 + m * 2 ^ 29)"

definition f64_of_f32 :: "u32 \<Rightarrow> u64" where
  "f64_of_f32 x = of_nat ((if bit x 31 then 1 else 0) * 2 ^ 63 + widen_magnitude (f32_exp x) (f32_frac x))"

definition round_even :: "nat \<Rightarrow> nat \<Rightarrow> nat" where
  "round_even n k = (let q = n div 2 ^ k; r = n mod 2 ^ k in if 2 ^ k < 2 * r \<or> (2 * r = 2 ^ k \<and> odd q) then q + 1 else q)"

definition narrow_magnitude :: "nat \<Rightarrow> nat \<Rightarrow> nat" where
  "narrow_magnitude e m =
     (if e = 2047 then (if m = 0 then 255 * 2 ^ 23 else 255 * 2 ^ 23 + (2 ^ 22 OR m div 2 ^ 29))
      else if e = 0 then 0
      else if e < 897 then round_even (2 ^ 52 + m) (926 - e)
      else min (255 * 2 ^ 23) ((e - 897) * 2 ^ 23 + round_even (2 ^ 52 + m) 29))"

definition f32_of_f64 :: "u64 \<Rightarrow> u32" where
  "f32_of_f64 x = of_nat ((if bit x 63 then 1 else 0) * 2 ^ 31 + narrow_magnitude (f64_exp x) (f64_frac x))"

definition f32_nan :: "u32 \<Rightarrow> bool" where
  "f32_nan x \<longleftrightarrow> f32_exp x = 255 \<and> f32_frac x \<noteq> 0"

lemma high_bit_bounds: "0 < n \<Longrightarrow> 2 ^ high_bit n \<le> n \<and> n < 2 * 2 ^ high_bit n"
proof (induction n rule: high_bit.induct)
  case (1 n)
  show ?case
  proof (cases "n < 2")
    case True
    then show ?thesis using 1(2) by (simp add: high_bit.simps)
  next
    case False
    then have "2 ^ high_bit (n div 2) \<le> n div 2 \<and> n div 2 < 2 * 2 ^ high_bit (n div 2)" using 1(1) by simp
    moreover have "high_bit n = Suc (high_bit (n div 2))" using False by (subst high_bit.simps) simp
    ultimately show ?thesis by simp linarith
  qed
qed

lemma round_even_exact: "round_even (n * 2 ^ k) k = n"
  by (simp add: round_even_def)

text \<open>The three fields of a bit pattern.\<close>

lemma bit_top: "bit (x :: 'a::len word) (LENGTH('a) - 1) \<longleftrightarrow> 2 ^ (LENGTH('a) - 1) \<le> unat x"
proof -
  have "(2::nat) ^ LENGTH('a) = 2 * 2 ^ (LENGTH('a) - 1)" by (simp flip: power_Suc)
  then have "unat x div 2 ^ (LENGTH('a) - 1) < 2" using unat_lt_exp [of x] by (simp add: less_mult_imp_div_less mult.commute)
  then have "odd (unat x div 2 ^ (LENGTH('a) - 1)) \<longleftrightarrow> 1 \<le> unat x div 2 ^ (LENGTH('a) - 1)" by (cases "unat x div 2 ^ (LENGTH('a) - 1)") auto
  moreover have "1 \<le> unat x div 2 ^ (LENGTH('a) - 1) \<longleftrightarrow> 2 ^ (LENGTH('a) - 1) \<le> unat x"
    by (simp add: Suc_le_eq div_greater_zero_iff)
  moreover have "bit x (LENGTH('a) - 1) \<longleftrightarrow> odd (unat x div 2 ^ (LENGTH('a) - 1))"
  proof -
    have "bit x (LENGTH('a) - 1) \<longleftrightarrow> bit (unat x) (LENGTH('a) - 1)" by (auto simp: bit_unsigned_iff)
    then show ?thesis by (simp add: bit_iff_odd)
  qed
  ultimately show ?thesis by blast
qed

lemma fields_of:
  assumes "s \<le> (1 :: nat)" "e < 2 ^ k" "m < 2 ^ n" "n + k + 1 = LENGTH('a::len)"
  shows "bit (of_nat (s * 2 ^ (n + k) + (e * 2 ^ n + m)) :: 'a word) (n + k) \<longleftrightarrow> s = 1"
    "unat (of_nat (s * 2 ^ (n + k) + (e * 2 ^ n + m)) :: 'a word) div 2 ^ n mod 2 ^ k = e"
    "unat (of_nat (s * 2 ^ (n + k) + (e * 2 ^ n + m)) :: 'a word) mod 2 ^ n = m"
proof -
  define v where "v = s * 2 ^ (n + k) + (e * 2 ^ n + m)"
  have "(e + 1) * 2 ^ n \<le> 2 ^ k * 2 ^ n" using assms(2) by (intro mult_right_mono) simp_all
  then have low: "e * 2 ^ n + m < 2 ^ (n + k)" using assms(3) by (simp add: power_add algebra_simps)
  have "s * 2 ^ (n + k) \<le> 1 * 2 ^ (n + k)" using assms(1) by (intro mult_right_mono) simp_all
  then have "v < 2 ^ (n + k) + 2 ^ (n + k)" using low unfolding v_def by linarith
  also have "\<dots> = 2 ^ LENGTH('a)" by (simp flip: assms(4))
  finally have u: "unat (of_nat v :: 'a word) = v" unfolding unat_of_nat by (rule mod_less)
  have v_top: "2 ^ (n + k) \<le> v \<longleftrightarrow> s = 1"
  proof -
    consider "s = 0" | "s = 1" using assms(1) by linarith
    then show ?thesis by cases (use low in \<open>simp_all add: v_def\<close>)
  qed
  have "LENGTH('a) - 1 = n + k" using assms(4) by simp
  then have "bit (of_nat v :: 'a word) (n + k) \<longleftrightarrow> 2 ^ (n + k) \<le> v"
    using bit_top [of "of_nat v :: 'a word"] u by simp
  then show "bit (of_nat (s * 2 ^ (n + k) + (e * 2 ^ n + m)) :: 'a word) (n + k) \<longleftrightarrow> s = 1"
    unfolding v_def [symmetric] using v_top by simp
  have "v = (s * 2 ^ k + e) * 2 ^ n + m" by (simp add: v_def power_add algebra_simps)
  then have "v div 2 ^ n mod 2 ^ k = e" "v mod 2 ^ n = m" using assms(2,3) by simp_all
  then show "unat (of_nat (s * 2 ^ (n + k) + (e * 2 ^ n + m)) :: 'a word) div 2 ^ n mod 2 ^ k = e"
    "unat (of_nat (s * 2 ^ (n + k) + (e * 2 ^ n + m)) :: 'a word) mod 2 ^ n = m"
    unfolding v_def [symmetric] u by simp_all
qed

lemma f32_split: "x = of_nat ((if bit (x :: u32) 31 then 1 else 0) * 2 ^ 31 + (f32_exp x * 2 ^ 23 + f32_frac x))"
proof -
  have "unat x < 2 * 2 ^ 31" using unat_lt_exp [of x] by simp
  moreover have "bit x 31 \<longleftrightarrow> 2 ^ 31 \<le> unat x" using bit_top [of x] by simp
  ultimately have "unat x = (if bit x 31 then 1 else 0) * 2 ^ 31 + unat x mod 2 ^ 31"
    by (auto simp: le_mod_geq)
  moreover have "unat x mod (2 ^ 23 * 2 ^ 8) = 2 ^ 23 * (unat x div 2 ^ 23 mod 2 ^ 8) + unat x mod 2 ^ 23"
    by (rule mod_mult2_eq)
  ultimately have "unat x = (if bit x 31 then 1 else 0) * 2 ^ 31 + (f32_exp x * 2 ^ 23 + f32_frac x)"
    by (simp add: f32_exp_def f32_frac_def mult.commute)
  moreover have "x = of_nat (unat x)" by simp
  ultimately show ?thesis by metis
qed

text \<open>Widening loses nothing: narrowing gives back every pattern that is not a NaN.\<close>

lemma widen_normal:
  assumes "0 < e" "e < 255" "m < 2 ^ 23"
  shows "narrow_magnitude (e + 896) (m * 2 ^ 29) = e * 2 ^ 23 + m"
proof -
  have "2 ^ 52 + m * 2 ^ 29 = (2 ^ 23 + m) * 2 ^ 29" by simp
  then have r: "round_even (2 ^ 52 + m * 2 ^ 29) 29 = 2 ^ 23 + m" using round_even_exact [of "2 ^ 23 + m" 29] by simp
  have "(e - 1) * 2 ^ 23 + (2 ^ 23 + m) = e * 2 ^ 23 + m" using assms(1) by (cases e) simp_all
  moreover have "e * 2 ^ 23 \<le> 254 * 2 ^ 23" using assms(2) by simp
  then have "e * 2 ^ 23 + m \<le> 255 * 2 ^ 23" using assms(3) by simp
  ultimately show ?thesis using assms(1,2) r by (simp add: narrow_magnitude_def)
qed

lemma widen_subnormal:
  assumes "0 < m" "m < 2 ^ 23"
  defines "k \<equiv> high_bit m"
  shows "k < 23" "(m - 2 ^ k) * 2 ^ (52 - k) < 2 ^ 52" "narrow_magnitude (k + 874) ((m - 2 ^ k) * 2 ^ (52 - k)) = m"
proof -
  have k: "2 ^ k \<le> m" "m < 2 * 2 ^ k" using high_bit_bounds [OF assms(1)] by (simp_all add: k_def)
  then have "(2::nat) ^ k < 2 ^ 23" using assms(2) by linarith
  then show k23: "k < 23" by (rule power_less_imp_less_exp [rotated]) simp
  have "(m - 2 ^ k) * 2 ^ (52 - k) < 2 ^ k * 2 ^ (52 - k)" using k by (intro mult_strict_right_mono) auto
  also have "\<dots> = 2 ^ 52" using k23 by (simp flip: power_add)
  finally show "(m - 2 ^ k) * 2 ^ (52 - k) < 2 ^ 52" .
  have "m * 2 ^ (52 - k) = (2 ^ k + (m - 2 ^ k)) * 2 ^ (52 - k)" using k by simp
  also have "\<dots> = 2 ^ (k + (52 - k)) + (m - 2 ^ k) * 2 ^ (52 - k)" by (simp only: add_mult_distrib power_add)
  finally have "2 ^ 52 + (m - 2 ^ k) * 2 ^ (52 - k) = m * 2 ^ (52 - k)" using k23 by simp
  then show "narrow_magnitude (k + 874) ((m - 2 ^ k) * 2 ^ (52 - k)) = m"
    using k23 round_even_exact [of m "52 - k"] by (simp add: narrow_magnitude_def)
qed

lemma widen_round:
  assumes "e < 2 ^ 8" "m < 2 ^ 23" "e = 255 \<Longrightarrow> m = 0"
  obtains e' m' where "widen_magnitude e m = e' * 2 ^ 52 + m'" "e' < 2 ^ 11" "m' < 2 ^ 52" "narrow_magnitude e' m' = e * 2 ^ 23 + m"
proof -
  consider "e = 255" "m = 0" | "e = 0" "m = 0" | "e = 0" "0 < m" | "0 < e" "e < 255" using assms by fastforce
  then show thesis
  proof cases
    case 1
    then show thesis using that [of 2047 0] by (simp add: widen_magnitude_def narrow_magnitude_def)
  next
    case 2
    then show thesis using that [of 0 0] by (simp add: widen_magnitude_def narrow_magnitude_def)
  next
    case 3
    show thesis
      using 3 widen_subnormal [OF 3(2) assms(2)] that [of "high_bit m + 874" "(m - 2 ^ high_bit m) * 2 ^ (52 - high_bit m)"]
      by (simp add: widen_magnitude_def)
  next
    case 4
    show thesis using 4 assms(2) widen_normal [OF 4 assms(2)] that [of "e + 896" "m * 2 ^ 29"] by (simp add: widen_magnitude_def)
  qed
qed

lemma f32_round: "\<not> f32_nan x \<Longrightarrow> f32_of_f64 (f64_of_f32 x) = x"
proof -
  assume "\<not> f32_nan x"
  then have "f32_exp x < 2 ^ 8" "f32_frac x < 2 ^ 23" "f32_exp x = 255 \<Longrightarrow> f32_frac x = 0"
    by (simp_all add: f32_nan_def f32_exp_def f32_frac_def)
  then obtain e m where w: "widen_magnitude (f32_exp x) (f32_frac x) = e * 2 ^ 52 + m" "e < 2 ^ 11" "m < 2 ^ 52"
    "narrow_magnitude e m = f32_exp x * 2 ^ 23 + f32_frac x" by (rule widen_round)
  note y = f64_of_f32_def [of x, unfolded w(1)]
  have "bit (f64_of_f32 x) 63 \<longleftrightarrow> bit x 31" "f64_exp (f64_of_f32 x) = e" "f64_frac (f64_of_f32 x) = m"
    using fields_of [of "if bit x 31 then 1 else 0" e 11 m 52, where 'a = 64] w(2,3)
    unfolding y f64_exp_def f64_frac_def by simp_all
  then show ?thesis using f32_split [of x] by (simp add: f32_of_f64_def w(4))
qed

end
