(* ===== verification/Sv_Layout.thy ===== *)
theory Sv_Layout
  imports Float_Bits Time Quality Errors
begin

text \<open>
  The layout of a sample block (\<open>src/proto/sv/layout.rs\<close>): channels at the widths of their types, read
  and written in place, and the fixed 9-2LE data set (\<open>PhsMeas1\<close> of \<open>src/proto/sv/mod.rs\<close>) with the
  modulus of \<open>smpCnt\<close>.
\<close>

section \<open>Channels\<close>

datatype channel_type = CtBoolean | CtInt u8 | CtUnsigned u8 | CtEnum | CtFloat32 | CtFloat64 | CtQuality | CtTimestamp

definition clamp_width :: "u8 \<Rightarrow> usize" where
  "clamp_width w = (if w = 0 then 1 else if w > 8 then 8 else unat w)"

fun ct_width :: "channel_type \<Rightarrow> usize" where
  "ct_width CtBoolean = 1"
| "ct_width (CtInt w) = clamp_width w"
| "ct_width (CtUnsigned w) = clamp_width w"
| "ct_width CtEnum = 4"
| "ct_width CtFloat32 = 4"
| "ct_width CtQuality = 4"
| "ct_width CtFloat64 = 8"
| "ct_width CtTimestamp = 8"

text \<open>A float is its \<open>f64\<close> bit pattern.\<close>

datatype channel_value = CvBoolean bool | CvInt i64 | CvUnsigned u64 | CvFloat u64 | CvQuality quality | CvTimestamp utc_time

definition cv_as_i64 :: "channel_value \<Rightarrow> i64 option" where
  "cv_as_i64 v = (case v of CvInt x \<Rightarrow> Some x | CvUnsigned x \<Rightarrow> if x \<le> 0x7FFFFFFFFFFFFFFF then Some x else None | _ \<Rightarrow> None)"

definition cv_as_f64 :: "channel_value \<Rightarrow> u64 option" where
  "cv_as_f64 v = (case v of CvFloat x \<Rightarrow> Some x | _ \<Rightarrow> None)"

definition cv_as_quality :: "channel_value \<Rightarrow> quality option" where
  "cv_as_quality v = (case v of CvQuality q \<Rightarrow> Some q | _ \<Rightarrow> None)"

record channel =
  ch_name :: string
  ch_kind :: channel_type
  ch_offset :: usize

record sample_layout =
  lay_channels :: "channel list"
  lay_len :: usize

fun layout_loop :: "(string \<times> channel_type) list \<Rightarrow> usize \<Rightarrow> channel list \<times> usize" where
  "layout_loop [] offset = ([], offset)"
| "layout_loop ((name, kind) # cs) offset =
     (case layout_loop cs (offset + ct_width kind) of (out, end_offset) \<Rightarrow>
        (\<lparr> ch_name = name, ch_kind = kind, ch_offset = offset \<rparr> # out, end_offset))"

definition layout_new :: "(string \<times> channel_type) list \<Rightarrow> sample_layout" where
  "layout_new cs = (case layout_loop cs 0 of (out, offset) \<Rightarrow> \<lparr> lay_channels = out, lay_len = offset \<rparr>)"

definition layout_fits :: "sample_layout \<Rightarrow> usize \<Rightarrow> bool" where
  "layout_fits l n \<longleftrightarrow> lay_len l = n"

definition layout_is_empty :: "sample_layout \<Rightarrow> bool" where
  "layout_is_empty l \<longleftrightarrow> lay_channels l = []"

section \<open>Reading\<close>

definition read_channel :: "channel_type \<Rightarrow> bytes \<Rightarrow> channel_value" where
  "read_channel kind bs = (let u = from_be bs :: u64 in case kind of
     CtBoolean \<Rightarrow> CvBoolean (u \<noteq> 0)
   | CtInt w \<Rightarrow> (let b = 64 - 8 * ct_width kind in CvInt (signed_drop_bit b (push_bit b u)))
   | CtEnum \<Rightarrow> CvInt (scast (ucast u :: i32))
   | CtUnsigned w \<Rightarrow> CvUnsigned u
   | CtFloat32 \<Rightarrow> CvFloat (f64_of_f32 (ucast u))
   | CtFloat64 \<Rightarrow> CvFloat u
   | CtQuality \<Rightarrow> CvQuality (q_from_bits_msb (ucast u))
   | CtTimestamp \<Rightarrow> CvTimestamp (utc_from_octets (to_be 8 u)))"

definition layout_value :: "sample_layout \<Rightarrow> bytes \<Rightarrow> usize \<Rightarrow> channel_value option" where
  "layout_value l sample i = (case get_at (lay_channels l) i of
     None \<Rightarrow> None
   | Some c \<Rightarrow> (case slice sample (ch_offset c) (ch_offset c + ct_width (ch_kind c)) of
       None \<Rightarrow> None
     | Some bs \<Rightarrow> Some (read_channel (ch_kind c) bs)))"

text \<open>\<open>map_while\<close>: the values up to the first channel the block does not hold.\<close>

fun decode_from :: "sample_layout \<Rightarrow> bytes \<Rightarrow> usize \<Rightarrow> channel list \<Rightarrow> (channel \<times> channel_value) list" where
  "decode_from l sample i [] = []"
| "decode_from l sample i (c # cs) = (case layout_value l sample i of
     None \<Rightarrow> [] | Some v \<Rightarrow> (c, v) # decode_from l sample (i + 1) cs)"

definition layout_decode :: "sample_layout \<Rightarrow> bytes \<Rightarrow> (channel \<times> channel_value) list" where
  "layout_decode l sample = decode_from l sample 0 (lay_channels l)"

section \<open>Writing\<close>

definition fits_signed :: "bytes \<Rightarrow> usize \<Rightarrow> bool" where
  "fits_signed bs width = (case get_at bs (8 - width) of
     Some first \<Rightarrow> (let negative = (case bs of [] \<Rightarrow> False | b # _ \<Rightarrow> b AND 0x80 \<noteq> 0) in (first AND 0x80 \<noteq> 0) = negative)
   | None \<Rightarrow> False)"

text \<open>The integer cases share one path: the low octets, if what is cut off repeats the sign.\<close>

definition is_signed :: "channel_type \<Rightarrow> bool" where
  "is_signed kind = (case kind of CtInt _ \<Rightarrow> True | CtEnum \<Rightarrow> True | _ \<Rightarrow> False)"

definition negative_int :: "channel_value \<Rightarrow> bool" where
  "negative_int v = (case v of CvInt x \<Rightarrow> sint x < 0 | _ \<Rightarrow> False)"

definition write_integer :: "channel \<Rightarrow> channel_value \<Rightarrow> u64 \<Rightarrow> (error, bytes, unit) st" where
  "write_integer c v x sample =
     (let width = ct_width (ch_kind c); bs = to_be 8 x;
          skip = take (8 - width) bs; kept = drop (8 - width) bs;
          sign_extension = (if negative_int v then 0xFF else 0)
      in if list_ex (\<lambda>b. b \<noteq> sign_extension) skip \<or> (is_signed (ch_kind c) \<and> \<not> fits_signed bs width)
         then (Inl (InvalidValue ''value does not fit the channel width''), sample)
         else (Inr (), put_slice sample (ch_offset c) kept))"

definition write_whole :: "channel \<Rightarrow> bytes \<Rightarrow> (error, bytes, unit) st" where
  "write_whole c bs sample = (Inr (), put_slice sample (ch_offset c) bs)"

definition layout_write :: "sample_layout \<Rightarrow> usize \<Rightarrow> channel_value \<Rightarrow> (error, bytes, unit) st" where
  "layout_write l i v sample = (case get_at (lay_channels l) i of
     None \<Rightarrow> (Inl (InvalidValue ''no such channel''), sample)
   | Some c \<Rightarrow> (case slice sample (ch_offset c) (ch_offset c + ct_width (ch_kind c)) of
       None \<Rightarrow> (Inl (InvalidValue ''sample block is shorter than the layout''), sample)
     | Some _ \<Rightarrow> (case (ch_kind c, v) of
         (CtBoolean, CvBoolean b) \<Rightarrow> write_integer c v (of_bool b) sample
       | (CtInt _, CvInt x) \<Rightarrow> write_integer c v x sample
       | (CtEnum, CvInt x) \<Rightarrow> write_integer c v x sample
       | (CtUnsigned _, CvUnsigned x) \<Rightarrow> write_integer c v x sample
       | (CtFloat32, CvFloat x) \<Rightarrow> write_whole c (to_be 4 (f32_of_f64 x)) sample
       | (CtFloat64, CvFloat x) \<Rightarrow> write_whole c (to_be 8 x) sample
       | (CtQuality, CvQuality q) \<Rightarrow> write_integer c v (ucast (q_to_bits_msb q)) sample
       | (CtTimestamp, CvTimestamp t) \<Rightarrow> write_whole c (utc_to_octets t) sample
       | _ \<Rightarrow> (Inl (InvalidValue ''value does not match the channel type''), sample))))"

section \<open>The 9-2LE data set\<close>

definition smp_cnt_wrap :: "u32 \<Rightarrow> u32" where
  "smp_cnt_wrap samples_per_second = (if samples_per_second = 0 then 1
     else if samples_per_second > 65536 then 65536 else samples_per_second)"

definition SAMPLE_LEN :: usize where "SAMPLE_LEN = 64"

text \<open>The arrays of four are lists; index \<open>i\<close> of the eight channels is the current or voltage the loop picks.\<close>

record phs_meas1 =
  pm_currents :: "i32 list"
  pm_current_quality :: "quality list"
  pm_voltages :: "i32 list"
  pm_voltage_quality :: "quality list"

definition phs_channel :: "bytes \<Rightarrow> nat \<Rightarrow> i32 \<times> quality" where
  "phs_channel sample i = (let at = i * 8 in
     (from_be (take 4 (drop at sample)), q_from_bits_msb (from_be (take 4 (drop (at + 4) sample)))))"

definition phs_decode :: "bytes \<Rightarrow> phs_meas1 option" where
  "phs_decode sample = (if length sample \<noteq> SAMPLE_LEN then None
     else let ch = map (phs_channel sample) [0..<8] in
       Some \<lparr> pm_currents = map fst (take 4 ch), pm_current_quality = map snd (take 4 ch),
              pm_voltages = map fst (drop 4 ch), pm_voltage_quality = map snd (drop 4 ch) \<rparr>)"

definition phs_encode :: "phs_meas1 \<Rightarrow> bytes" where
  "phs_encode p = concat (map (\<lambda>i.
     let (v, q) = (if i < 4 then (pm_currents p ! i, pm_current_quality p ! i)
                   else (pm_voltages p ! (i - 4), pm_voltage_quality p ! (i - 4)))
     in to_be 4 v @ to_be 4 (q_to_bits_msb q)) [0..<8])"

section \<open>What fits a channel\<close>

fun value_fits :: "channel_type \<Rightarrow> channel_value \<Rightarrow> bool" where
  "value_fits CtBoolean (CvBoolean _) = True"
| "value_fits (CtInt w) (CvInt x) = (- (2 ^ (8 * clamp_width w - 1)) \<le> sint x \<and> sint x < 2 ^ (8 * clamp_width w - 1))"
| "value_fits CtEnum (CvInt x) = (- (2 ^ 31) \<le> sint x \<and> sint x < 2 ^ 31)"
| "value_fits (CtUnsigned w) (CvUnsigned x) = (unat x < 2 ^ (8 * clamp_width w))"
| "value_fits CtFloat32 (CvFloat _) = True"
| "value_fits CtFloat64 (CvFloat _) = True"
| "value_fits CtQuality (CvQuality _) = True"
| "value_fits CtTimestamp (CvTimestamp _) = True"
| "value_fits _ _ = False"

text \<open>What the block keeps of a value: single precision, and the 24 bits of a fraction.\<close>

fun stored :: "channel_type \<Rightarrow> channel_value \<Rightarrow> channel_value" where
  "stored CtFloat32 (CvFloat x) = CvFloat (f64_of_f32 (f32_of_f64 x))"
| "stored CtTimestamp (CvTimestamp t) = CvTimestamp (utc.norm t)"
| "stored _ v = v"

lemma clamp_width_bounds: "0 < clamp_width w" "clamp_width w \<le> 8"
  by (auto simp: clamp_width_def word_less_nat_alt unat_gt_0 not_less)

lemma ct_width_bounds: "0 < ct_width k" "ct_width k \<le> 8"
  using clamp_width_bounds by (cases k; simp)+

definition sign_from :: "nat \<Rightarrow> u64 \<Rightarrow> bool" where
  "sign_from n x \<longleftrightarrow> (\<forall>k. n \<le> k \<longrightarrow> k < 64 \<longrightarrow> bit x k = bit x 63)"

lemma bit_to_be_nth: "i < 8 \<Longrightarrow> j < 8 \<Longrightarrow> bit (to_be 8 (x :: u64) ! i) j = bit x (8 * (7 - i) + j)"
  by (simp add: to_be_nth bit_simps)

lemma octet_const: "(b = (if s then 0xFF else 0 :: u8)) \<longleftrightarrow> (\<forall>j<8. bit b j = s)"
proof -
  have c: "j < 8 \<Longrightarrow> bit (if s then 0xFF else 0 :: u8) j = s" for j
  proof -
    have "(0xFF :: u8) = - 1" by simp
    then show "j < 8 \<Longrightarrow> bit (if s then 0xFF else 0 :: u8) j = s" by (simp only:) (auto simp: bit_simps)
  qed
  show ?thesis
  proof
    assume h: "\<forall>j<8. bit b j = s"
    show "b = (if s then 0xFF else 0)"
    proof (rule bit_word_eqI)
      fix n :: nat
      assume "n < LENGTH(8)"
      then have n: "n < 8" by simp
      then show "bit b n = bit (if s then 0xFF else 0 :: u8) n" using h by (simp only: c)
    qed
  next
    assume "b = (if s then 0xFF else 0)"
    then show "\<forall>j<8. bit b j = s" using c by blast
  qed
qed

lemma skipped_octets:
  assumes "0 < w" "w \<le> 8"
  shows "\<not> list_ex (\<lambda>b. b \<noteq> (if s then 0xFF else 0)) (take (8 - w) (to_be 8 (x :: u64))) \<longleftrightarrow>
    (\<forall>k. 8 * w \<le> k \<longrightarrow> k < 64 \<longrightarrow> bit x k = s)"
proof -
  have "(\<not> list_ex (\<lambda>b. b \<noteq> (if s then 0xFF else 0)) (take (8 - w) (to_be 8 x))) \<longleftrightarrow>
      (\<forall>i < 8 - w. to_be 8 x ! i = (if s then 0xFF else 0))"
    using assms(1) by (auto simp: list_ex_length simp del: to_be.simps)
  also have "\<dots> \<longleftrightarrow> (\<forall>i < 8 - w. \<forall>j < 8. bit x (8 * (7 - i) + j) = s)"
    by (simp only: octet_const) (simp add: bit_to_be_nth del: to_be.simps)
  also have "\<dots> \<longleftrightarrow> (\<forall>k. 8 * w \<le> k \<longrightarrow> k < 64 \<longrightarrow> bit x k = s)"
  proof (rule iffI; (intro allI impI)?)
    fix k
    assume h: "\<forall>i < 8 - w. \<forall>j < 8. bit x (8 * (7 - i) + j) = s" and k: "8 * w \<le> k" "k < 64"
    have d: "k div 8 \<le> 7" "w \<le> k div 8" using k by (simp_all add: less_eq_div_iff_mult_less_eq)
    then have "bit x (8 * (7 - (7 - k div 8)) + k mod 8) = s" by (intro h [rule_format]) simp_all
    then show "bit x k = s" using d(1) by simp
  next
    fix i j :: nat
    assume h: "\<forall>k. 8 * w \<le> k \<longrightarrow> k < 64 \<longrightarrow> bit x k = s" and "i < 8 - w" "j < 8"
    then show "bit x (8 * (7 - i) + j) = s" by (intro h [rule_format]) linarith+
  qed
  finally show ?thesis .
qed

lemma fits_signed_bits:
  assumes "0 < w" "w \<le> 8"
  shows "fits_signed (to_be 8 (x :: u64)) w \<longleftrightarrow> bit x (8 * w - 1) = bit x 63"
proof -
  have w: "8 * (7 - (8 - w)) + 7 = 8 * w - 1" using assms by linarith
  obtain b bs where bs: "to_be 8 x = b # bs" "length (b # bs) = 8"
    using length_to_be [of 8 x] by (cases "to_be 8 x") auto
  have "bit ((b # bs) ! (8 - w)) 7 = bit x (8 * w - 1)" using assms bit_to_be_nth [of "8 - w" 7 x] w bs by simp
  moreover have "bit b 7 = bit x 63" using bit_to_be_nth [of 0 7 x] bs by simp
  ultimately show ?thesis
    using assms bs by (simp add: fits_signed_def get_at_def octet_mask Let_def del: to_be.simps)
qed

lemma sign_from_range:
  assumes "0 < w" "w \<le> 8"
  shows "sign_from (8 * w - 1) x \<longleftrightarrow> - (2 ^ (8 * w - 1)) \<le> sint x \<and> sint x < 2 ^ (8 * w - 1)"
proof -
  have b: "bit (sint x) m = bit x (min 63 m)" for m
    by (cases m "63 :: nat" rule: linorder_cases) (auto simp: bit_sint_iff min_def dest: bit_imp_le_length)
  have "signed_take_bit (8 * w - 1) (sint x) = sint x \<longleftrightarrow> (\<forall>m. bit x (min 63 (min (8 * w - 1) m)) = bit x (min 63 m))"
    by (simp add: bit_eq_iff bit_signed_take_bit_iff b)
  also have "\<dots> \<longleftrightarrow> sign_from (8 * w - 1) x"
    unfolding sign_from_def
  proof (rule iffI; (intro allI impI)?)
    fix k assume h: "\<forall>m. bit x (min 63 (min (8 * w - 1) m)) = bit x (min 63 m)" and "8 * w - 1 \<le> k" "k < 64"
    then show "bit x k = bit x 63"
      using assms h [rule_format, of k] h [rule_format, of 63] by (cases "k = 63") (simp_all add: min_def)
  next
    fix m assume h: "\<forall>k\<ge>8 * w - 1. k < 64 \<longrightarrow> bit x k = bit x 63"
    show "bit x (min 63 (min (8 * w - 1) m)) = bit x (min 63 m)"
      using assms h [rule_format, of "8 * w - 1"] h [rule_format, of m] by (auto simp: min_def not_le)
  qed
  finally show ?thesis by (simp add: signed_take_bit_int_eq_self_iff)
qed

lemma signed_accepted:
  assumes "0 < w" "w \<le> 8"
  shows "\<not> list_ex (\<lambda>b. b \<noteq> (if sint x < 0 then 0xFF else 0)) (take (8 - w) (to_be 8 x)) \<and> fits_signed (to_be 8 x) w \<longleftrightarrow>
    - (2 ^ (8 * w - 1)) \<le> sint x \<and> sint (x :: u64) < 2 ^ (8 * w - 1)"
proof -
  have s: "sint x < 0 \<longleftrightarrow> bit x 63" using bit_last_iff [of x] by simp
  have "\<not> list_ex (\<lambda>b. b \<noteq> (if sint x < 0 then 0xFF else 0)) (take (8 - w) (to_be 8 x)) \<and> fits_signed (to_be 8 x) w \<longleftrightarrow>
      (\<forall>k. 8 * w \<le> k \<longrightarrow> k < 64 \<longrightarrow> bit x k = bit x 63) \<and> bit x (8 * w - 1) = bit x 63"
    by (simp only: s skipped_octets [OF assms] fits_signed_bits [OF assms])
  also have "\<dots> \<longleftrightarrow> sign_from (8 * w - 1) x"
    unfolding sign_from_def
  proof (rule iffI; (intro allI impI)?)
    fix k
    assume h: "(\<forall>k. 8 * w \<le> k \<longrightarrow> k < 64 \<longrightarrow> bit x k = bit x 63) \<and> bit x (8 * w - 1) = bit x 63"
      and k: "8 * w - 1 \<le> k" "k < 64"
    from k(1) consider "k = 8 * w - 1" | "8 * w \<le> k" by linarith
    then show "bit x k = bit x 63" using h k(2) by cases blast+
  next
    assume h: "\<forall>k. 8 * w - 1 \<le> k \<longrightarrow> k < 64 \<longrightarrow> bit x k = bit x 63"
    have "8 * w - 1 < 64" using assms by simp
    then have "bit x (8 * w - 1) = bit x 63" using h by blast
    moreover have "bit x k = bit x 63" if "8 * w \<le> k" "k < 64" for k
    proof -
      have "8 * w - 1 \<le> k" using that(1) by simp
      then show ?thesis using h that(2) by blast
    qed
    ultimately show "(\<forall>k. 8 * w \<le> k \<longrightarrow> k < 64 \<longrightarrow> bit x k = bit x 63) \<and> bit x (8 * w - 1) = bit x 63" by blast
  qed
  finally show ?thesis by (simp only: sign_from_range [OF assms])
qed

lemma unsigned_accepted:
  assumes "0 < w" "w \<le> 8"
  shows "\<not> list_ex (\<lambda>b. b \<noteq> 0) (take (8 - w) (to_be 8 (x :: u64))) \<longleftrightarrow> unat x < 2 ^ (8 * w)"
proof -
  have "unat x < 2 ^ (8 * w) \<longleftrightarrow> unat (drop_bit (8 * w) x) = 0" by (simp add: unat_drop_bit div_eq_0_iff)
  also have "\<dots> \<longleftrightarrow> drop_bit (8 * w) x = 0" by (rule unsigned_eq_0_iff)
  also have "\<dots> \<longleftrightarrow> (\<forall>k. \<not> bit x (8 * w + k))"
  proof
    assume "drop_bit (8 * w) x = 0"
    then have "\<not> bit (drop_bit (8 * w) x) k" for k by simp
    then show "\<forall>k. \<not> bit x (8 * w + k)" by (simp add: bit_drop_bit_eq)
  qed (auto intro: bit_word_eqI simp: bit_drop_bit_eq)
  also have "\<dots> \<longleftrightarrow> (\<forall>k. 8 * w \<le> k \<longrightarrow> k < 64 \<longrightarrow> bit x k = False)"
  proof (rule iffI; (intro allI impI)?)
    fix k assume "\<forall>k. \<not> bit x (8 * w + k)" "8 * w \<le> k"
    then show "bit x k = False" by (metis le_Suc_ex)
  next
    fix k assume "\<forall>k. 8 * w \<le> k \<longrightarrow> k < 64 \<longrightarrow> bit x k = False"
    then show "\<not> bit x (8 * w + k)" using bit_imp_le_length [of x "8 * w + k"] by auto
  qed
  finally show ?thesis using skipped_octets [OF assms, of False x] by simp
qed

section \<open>Writing and reading agree\<close>

lemma write_integer_cases:
  fixes c v x sample
  defines "w \<equiv> ct_width (ch_kind c)"
  assumes "negative_int v \<longleftrightarrow> is_signed (ch_kind c) \<and> sint x < 0"
  shows "write_integer c v x sample =
    (if (if is_signed (ch_kind c) then - (2 ^ (8 * w - 1)) \<le> sint x \<and> sint x < 2 ^ (8 * w - 1) else unat x < 2 ^ (8 * w))
     then (Inr (), put_slice sample (ch_offset c) (to_be w x))
     else (Inl (InvalidValue ''value does not fit the channel width''), sample))"
proof -
  have w: "0 < w" "w \<le> 8" by (simp_all add: w_def ct_width_bounds)
  show ?thesis
  proof (cases "is_signed (ch_kind c)")
    case True
    then have n: "negative_int v \<longleftrightarrow> sint x < 0" using assms(2) by simp
    have "(list_ex (\<lambda>b. b \<noteq> (if negative_int v then 0xFF else 0)) (take (8 - w) (to_be 8 x)) \<or> (True \<and> \<not> fits_signed (to_be 8 x) w)) \<longleftrightarrow>
        \<not> (- (2 ^ (8 * w - 1)) \<le> sint x \<and> sint x < 2 ^ (8 * w - 1))"
      using signed_accepted [OF w, of x] unfolding n by blast
    then show ?thesis
      by (simp only: write_integer_def Let_def True if_True drop_to_be [OF w(2)] flip: w_def) (simp only: if_not_P if_P not_not split: if_split, blast)
  next
    case False
    then have n: "\<not> negative_int v" using assms(2) by simp
    show ?thesis
      using unsigned_accepted [OF w, of x]
      by (auto simp: write_integer_def Let_def n False drop_to_be [OF w(2)] simp flip: w_def)
  qed
qed

lemma read_signed:
  assumes "0 < w" "w \<le> 8" "sign_from (8 * w - 1) x"
  shows "signed_drop_bit (64 - 8 * w) (push_bit (64 - 8 * w) (from_be (to_be w x) :: u64)) = x"
proof (rule bit_word_eqI)
  fix n :: nat
  assume "n < LENGTH(64)"
  then have n: "n < 64" by simp
  let ?b = "64 - 8 * w" and ?y = "push_bit (64 - 8 * w) (take_bit (8 * w) x)"
  have b: "64 - ?b = 8 * w" "?b \<le> 63" "63 - ?b = 8 * w - 1" "8 * w - 1 < 8 * w" using assms(1,2) by linarith+
  have y: "bit ?y m \<longleftrightarrow> ?b \<le> m \<and> m < 64 \<and> m - ?b < 8 * w \<and> bit x (m - ?b)" for m
    by (auto simp: bit_push_bit_iff bit_take_bit_iff dest: bit_imp_le_length)
  have s: "bit (signed_drop_bit ?b ?y) n = bit ?y (if 8 * w \<le> n then 63 else ?b + n)"
    using n by (simp only: bit_signed_drop_bit_iff len_num0 len_bit0 len_num1) (use b(1) in simp)
  show "bit (signed_drop_bit ?b (push_bit ?b (from_be (to_be w x) :: u64))) n = bit x n"
  proof (cases "8 * w \<le> n")
    case True
    have "8 * w - 1 \<le> n" "8 * w - 1 < 64" using True n assms(2) by linarith+
    then have "bit x n = bit x (8 * w - 1)" using assms(3) n unfolding sign_from_def by blast
    then show ?thesis using s True b y [of 63] by (simp only: from_be_to_be if_True) simp
  next
    case False
    then have "?b \<le> ?b + n" "?b + n < 64" "?b + n - ?b = n" "n < 8 * w" using assms(2) by linarith+
    then show ?thesis using s False y [of "?b + n"] by (simp only: from_be_to_be if_False) simp
  qed
qed

lemma read_enum:
  assumes "sign_from 31 x"
  shows "scast (ucast (from_be (to_be 4 x) :: u64) :: i32) = (x :: i64)"
proof (rule bit_word_eqI)
  fix n :: nat
  assume "n < LENGTH(64)"
  then have n: "n < 64" by simp
  have u: "m < 32 \<Longrightarrow> bit (ucast (take_bit 32 x) :: i32) m \<longleftrightarrow> bit x m" for m
    by (simp add: bit_simps)
  have m: "min 31 n < (32 :: nat)" using min.cobounded1 [of 31 n] by linarith
  have e: "from_be (to_be 4 x) = take_bit 32 x" by (simp only: from_be_to_be) simp
  have "bit (scast (ucast (take_bit 32 x) :: i32) :: i64) n \<longleftrightarrow> bit (ucast (take_bit 32 x) :: i32) (min 31 n)"
    using n by (simp add: bit_signed_iff)
  also have "\<dots> \<longleftrightarrow> bit x (min 31 n)" by (rule u [OF m])
  also have "\<dots> \<longleftrightarrow> bit x n"
  proof (cases "n \<le> 31")
    case False
    then show ?thesis
      using assms [unfolded sign_from_def, rule_format, of n] assms [unfolded sign_from_def, rule_format, of 31] n by simp
  qed simp
  finally show "bit (scast (ucast (from_be (to_be 4 x) :: u64) :: i32) :: i64) n = bit x n" unfolding e .
qed

lemma take_bit_fits: "unat (x :: 'a::len word) < 2 ^ n \<Longrightarrow> take_bit n x = x"
  by (simp add: word_unat_eq_iff unat_take_bit)

lemma read_whole: "(from_be (to_be n x) :: 'a::len word) = take_bit (8 * n) x"
  by (rule from_be_to_be)

text \<open>What \<open>write\<close> does once the slot is known, and what \<open>read\<close> makes of it.\<close>

fun slot_octets :: "channel_type \<Rightarrow> channel_value \<Rightarrow> bytes" where
  "slot_octets CtFloat32 (CvFloat x) = to_be 4 (f32_of_f64 x)"
| "slot_octets CtFloat64 (CvFloat x) = to_be 8 x"
| "slot_octets CtTimestamp (CvTimestamp t) = utc_to_octets t"
| "slot_octets kind (CvBoolean b) = to_be (ct_width kind) (of_bool b :: u64)"
| "slot_octets kind (CvQuality q) = to_be (ct_width kind) (ucast (q_to_bits_msb q) :: u64)"
| "slot_octets kind (CvInt x) = to_be (ct_width kind) x"
| "slot_octets kind (CvUnsigned x) = to_be (ct_width kind) x"
| "slot_octets kind _ = []"

lemma length_slot_octets: "value_fits kind v \<Longrightarrow> length (slot_octets kind v) = ct_width kind"
  by (cases "(kind, v)" rule: value_fits.cases) simp_all

lemma small_words: "unat (of_bool b :: u64) < 2 ^ 8" "unat (ucast (q :: u32) :: u64) < 2 ^ 32"
  using unat_lt_exp [of q] by (simp_all add: unat_ucast_up)

lemma ucast_be_acc:
  "LENGTH('b) \<le> LENGTH('a) \<Longrightarrow> ucast (be_acc (a :: 'a::len word) bs) = be_acc (ucast a :: 'b::len word) bs"
proof (induction bs arbitrary: a)
  case (Cons b bs)
  have "ucast (push_bit 8 a OR ucast b) = (push_bit 8 (ucast a) OR ucast b :: 'b word)"
    using Cons.prems by (intro bit_word_eqI) (auto simp: bit_simps dest: bit_imp_le_length)
  then show ?case using Cons by (simp add: be_acc_Cons)
qed simp

lemma ucast_from_be: "ucast (from_be bs :: u64) = (from_be bs :: u32)"
  by (subst ucast_be_acc) simp_all

lemma read_slot:
  assumes "value_fits kind v"
  shows "read_channel kind (slot_octets kind v) = stored kind v"
proof (cases "(kind, v)" rule: value_fits.cases)
  case (2 w x)
  then have "sign_from (8 * clamp_width w - 1) x" using assms sign_from_range [OF clamp_width_bounds] by simp
  then show ?thesis using 2 read_signed [OF clamp_width_bounds] by (simp add: read_channel_def Let_def)
next
  case (3 x)
  then have "sign_from 31 x" using assms sign_from_range [of 4 x] by simp
  then show ?thesis using 3 read_enum by (simp add: read_channel_def Let_def del: to_be.simps)
next
  case (4 w x)
  then show ?thesis using assms by (simp add: read_channel_def read_whole take_bit_fits)
next
  case (7 q)
  have "ucast (ucast (q_to_bits_msb q) :: u64) = q_to_bits_msb q" by (rule bit_word_eqI) (simp add: bit_simps)
  then show ?thesis
    using 7 small_words(2) [of "q_to_bits_msb q"]
    by (simp add: read_channel_def read_whole take_bit_fits q_from_to_bits del: to_be.simps)
next
  case (8 t)
  then show ?thesis by (simp add: read_channel_def utc.norm_def)
next
  case (5 x)
  have "(ucast (from_be (to_be 4 (f32_of_f64 x)) :: u64) :: u32) = f32_of_f64 x"
    by (subst ucast_be_acc) (simp_all add: read_whole del: to_be.simps)
  then show ?thesis using 5 by (simp add: read_channel_def Let_def del: to_be.simps)
qed (use assms small_words in \<open>simp_all add: read_channel_def read_whole take_bit_fits Let_def del: to_be.simps\<close>)

lemma write_slot:
  assumes "get_at (lay_channels l) i = Some c" "ch_offset c + ct_width (ch_kind c) \<le> length sample"
  shows "value_fits (ch_kind c) v \<Longrightarrow> layout_write l i v sample = (Inr (), put_slice sample (ch_offset c) (slot_octets (ch_kind c) v))"
    "\<not> value_fits (ch_kind c) v \<Longrightarrow> \<exists>e. layout_write l i v sample = (Inl e, sample)"
proof -
  have s: "\<exists>bs. slice sample (ch_offset c) (ch_offset c + ct_width (ch_kind c)) = Some bs" using assms(2) by (simp add: slice_def)
  note go = layout_write_def assms(1) write_whole_def write_integer_cases negative_int_def is_signed_def
  show "value_fits (ch_kind c) v \<Longrightarrow> layout_write l i v sample = (Inr (), put_slice sample (ch_offset c) (slot_octets (ch_kind c) v))"
    using s small_words by (cases "(ch_kind c, v)" rule: value_fits.cases) (auto simp: go)
  show "\<not> value_fits (ch_kind c) v \<Longrightarrow> \<exists>e. layout_write l i v sample = (Inl e, sample)"
    using s small_words by (cases "(ch_kind c, v)" rule: value_fits.cases) (auto simp: go)
qed

section \<open>Layouts\<close>

definition channel_start :: "(string \<times> channel_type) list \<Rightarrow> nat \<Rightarrow> usize" where
  "channel_start cs j = sum_list (map (ct_width \<circ> snd) (take j cs))"

lemma upt_0_Suc: "[0..<Suc n] = 0 # map Suc [0..<n]"
  by (simp add: map_Suc_upt upt_conv_Cons del: upt_Suc)

lemma layout_loop_channels:
  "fst (layout_loop cs at) = map (\<lambda>j. \<lparr> ch_name = fst (cs ! j), ch_kind = snd (cs ! j), ch_offset = at + channel_start cs j \<rparr>) [0..<length cs] \<and>
   snd (layout_loop cs at) = at + channel_start cs (length cs)"
proof (induction cs at rule: layout_loop.induct)
  case (2 name kind cs offset)
  have "[0..<length ((name, kind) # cs)] = 0 # map Suc [0..<length cs]" by (simp add: upt_0_Suc del: upt_Suc)
  then show ?case using 2 by (auto simp: channel_start_def add.assoc simp del: upt_Suc split: prod.split)
qed (simp add: channel_start_def)

lemma layout_new_simps:
  "lay_len (layout_new cs) = channel_start cs (length cs)"
  "j < length cs \<Longrightarrow> get_at (lay_channels (layout_new cs)) j =
     Some \<lparr> ch_name = fst (cs ! j), ch_kind = snd (cs ! j), ch_offset = channel_start cs j \<rparr>"
  "lay_channels (layout_new cs) = map (\<lambda>j. \<lparr> ch_name = fst (cs ! j), ch_kind = snd (cs ! j), ch_offset = channel_start cs j \<rparr>) [0..<length cs]"
  using layout_loop_channels [of cs 0] by (auto simp: layout_new_def get_at_def split: prod.splits)

lemma channel_start_Suc: "j < length cs \<Longrightarrow> channel_start cs (Suc j) = channel_start cs j + ct_width (snd (cs ! j))"
  by (simp add: channel_start_def take_Suc_conv_app_nth)

lemma channel_start_mono: "j \<le> k \<Longrightarrow> k \<le> length cs \<Longrightarrow> channel_start cs j \<le> channel_start cs k"
  by (induction k rule: dec_induct) (simp_all add: channel_start_Suc le_trans [OF _ le_add1])

lemma channel_end: "j < k \<Longrightarrow> k \<le> length cs \<Longrightarrow> channel_start cs j + ct_width (snd (cs ! j)) \<le> channel_start cs k"
  using channel_start_mono [of "Suc j" k cs] channel_start_Suc [of j cs] by simp

lemma layout_value_new:
  "j < length cs \<Longrightarrow> lay_len (layout_new cs) \<le> length sample \<Longrightarrow> layout_value (layout_new cs) sample j =
     Some (read_channel (snd (cs ! j)) (take (ct_width (snd (cs ! j))) (drop (channel_start cs j) sample)))"
  using channel_end [of j "length cs" cs] by (simp add: layout_value_def layout_new_simps(1,2) slice_def)

lemma decode_from_all:
  "\<forall>k < length chs. layout_value l sample (i + k) \<noteq> None \<Longrightarrow>
    map snd (decode_from l sample i chs) = map (\<lambda>k. the (layout_value l sample (i + k))) [0..<length chs]"
proof (induction chs arbitrary: i)
  case (Cons c chs)
  have "\<forall>k < length chs. layout_value l sample (Suc i + k) \<noteq> None"
  proof (intro allI impI)
    fix k assume "k < length chs"
    then show "layout_value l sample (Suc i + k) \<noteq> None" using Cons.prems [rule_format, of "Suc k"] by simp
  qed
  moreover have "layout_value l sample i \<noteq> None" using Cons.prems [rule_format, of 0] by simp
  moreover have "[0..<length (c # chs)] = 0 # map Suc [0..<length chs]" by (simp add: upt_0_Suc del: upt_Suc)
  ultimately show ?case using Cons.IH [of "Suc i"] by (auto simp: comp_def simp del: upt_Suc)
qed simp

lemma layout_decode_values:
  "lay_len (layout_new cs) \<le> length sample \<Longrightarrow> map snd (layout_decode (layout_new cs) sample) =
     map (\<lambda>j. read_channel (snd (cs ! j)) (take (ct_width (snd (cs ! j))) (drop (channel_start cs j) sample))) [0..<length cs]"
  unfolding layout_decode_def
  by (subst decode_from_all) (auto simp: layout_value_new layout_new_simps(3))

text \<open>
  C35: through a layout built from channel types, writing a value into a block either stores
  it so that reading the channel returns it (to single precision for a single-precision channel) and
  every other channel is unchanged, or, when the value does not fit the channel, refuses it and leaves
  the block as it was: a sample never wraps into a plausible value.
\<close>

theorem layout_write_read:
  assumes "i < length cs" and "lay_len (layout_new cs) \<le> length sample"
  shows "if value_fits (snd (cs ! i)) v
    then \<exists>block. layout_write (layout_new cs) i v sample = (Inr (), block) \<and> length block = length sample \<and>
      (\<forall>j < length cs. layout_value (layout_new cs) block j =
        (if j = i then Some (stored (snd (cs ! i)) v) else layout_value (layout_new cs) sample j))
    else \<exists>e. layout_write (layout_new cs) i v sample = (Inl e, sample)"
proof (cases "value_fits (snd (cs ! i)) v")
  case False
  then show ?thesis
    using write_slot(2) [OF layout_new_simps(2) [OF assms(1)], of sample v] channel_end [of i "length cs" cs] assms
    by (simp add: layout_new_simps(1))
next
  case True
  let ?k = "snd (cs ! i)" and ?at = "channel_start cs i"
  let ?block = "put_slice sample ?at (slot_octets ?k v)"
  have room: "?at + ct_width ?k \<le> length sample"
    using channel_end [of i "length cs" cs] assms by (simp add: layout_new_simps(1))
  have len: "length (slot_octets ?k v) = ct_width ?k" using True by (rule length_slot_octets)
  have w: "layout_write (layout_new cs) i v sample = (Inr (), ?block)"
    using write_slot(1) [OF layout_new_simps(2) [OF assms(1)], of sample v] True room by simp
  have "layout_value (layout_new cs) ?block j = (if j = i then Some (stored ?k v) else layout_value (layout_new cs) sample j)"
    if "j < length cs" for j
  proof (cases "j = i")
    case True
    then show ?thesis
      using slice_put_same [of ?at "slot_octets ?k v" sample] len room read_slot [OF \<open>value_fits ?k v\<close>] assms(1)
      by (simp add: layout_value_def layout_new_simps(2))
  next
    case False
    then have "channel_start cs j + ct_width (snd (cs ! j)) \<le> ?at \<or> ?at + length (slot_octets ?k v) \<le> channel_start cs j"
      using channel_end [of j i cs] channel_end [of i j cs] that assms(1) len by (cases "j < i") auto
    then show ?thesis
      using slice_put_other [of ?at "slot_octets ?k v" sample] len room False that
      by (simp add: layout_value_def layout_new_simps(2))
  qed
  then show ?thesis using w True room len by simp
qed

lemma stored_exact:
  "value_fits kind v \<Longrightarrow> (\<forall>x. v = CvFloat x \<longrightarrow> kind = CtFloat32 \<longrightarrow> (\<exists>y. \<not> f32_nan y \<and> x = f64_of_f32 y)) \<Longrightarrow>
    (\<forall>t. v = CvTimestamp t \<longrightarrow> utc_wf t) \<Longrightarrow> stored kind v = v"
  by (cases "(kind, v)" rule: value_fits.cases) (auto simp: f32_round utc.norm_wf)

text \<open>A witness: a negative sample in a three-octet channel between two others, and one that does not fit.\<close>

theorem layout_write_read_witness:
  "let cs = [(''b'', CtBoolean), (''i'', CtInt 3), (''u'', CtUnsigned 2)] in
   (\<exists>block. layout_write (layout_new cs) 1 (CvInt (- 5)) [1, 0, 0, 0, 1, 2] = (Inr (), block) \<and> length block = length [1 :: u8, 0, 0, 0, 1, 2] \<and>
      (\<forall>j < length cs. layout_value (layout_new cs) block j =
        (if j = 1 then Some (stored (snd (cs ! 1)) (CvInt (- 5))) else layout_value (layout_new cs) [1, 0, 0, 0, 1, 2] j))) \<and>
   (\<exists>e. layout_write (layout_new cs) 2 (CvUnsigned 65536) [1, 0, 0, 0, 1, 2] = (Inl e, [1, 0, 0, 0, 1, 2]))"
  using layout_write_read [of 1 "[(''b'', CtBoolean), (''i'', CtInt 3), (''u'', CtUnsigned 2)]" "[1, 0, 0, 0, 1, 2]" "CvInt (- 5)"]
    layout_write_read [of 2 "[(''b'', CtBoolean), (''i'', CtInt 3), (''u'', CtUnsigned 2)]" "[1, 0, 0, 0, 1, 2]" "CvUnsigned 65536"]
  by (simp add: layout_new_def clamp_width_def Let_def)

section \<open>The 9-2LE block is one layout\<close>

text \<open>The data set as an engineering file describes it: eight channels, each an \<open>INT32\<close> and a quality.\<close>

definition phs_meas1_layout :: sample_layout where
  "phs_meas1_layout = layout_new (concat (map (\<lambda>n. [(n @ ''.instMag.i'', CtInt 4), (n @ ''.q'', CtQuality)])
     [''Ia'', ''Ib'', ''Ic'', ''In'', ''Ua'', ''Ub'', ''Uc'', ''Un'']))"

definition phs_values :: "phs_meas1 \<Rightarrow> channel_value list" where
  "phs_values p = concat (map (\<lambda>(v, q). [CvInt (scast v), CvQuality q])
     (zip (pm_currents p @ pm_voltages p) (pm_current_quality p @ pm_voltage_quality p)))"

definition phs_wf :: "phs_meas1 \<Rightarrow> bool" where
  "phs_wf p \<longleftrightarrow> length (pm_currents p) = 4 \<and> length (pm_current_quality p) = 4 \<and>
     length (pm_voltages p) = 4 \<and> length (pm_voltage_quality p) = 4"

lemma read_int4: "read_channel (CtInt 4) bs = CvInt (scast (from_be bs :: i32))"
proof -
  let ?u = "from_be bs :: u64"
  have "signed_drop_bit 32 (push_bit 32 ?u) = scast (ucast ?u :: i32)"
  proof (rule bit_word_eqI)
    fix n :: nat
    assume "n < LENGTH(64)"
    then have n: "n < 64" by simp
    show "bit (signed_drop_bit 32 (push_bit 32 ?u)) n = bit (scast (ucast ?u :: i32) :: i64) n"
    proof (cases "32 \<le> n")
      case True
      then show ?thesis using n by (simp add: bit_signed_drop_bit_iff bit_push_bit_iff bit_signed_iff bit_ucast_iff)
    next
      case False
      then have m: "min 31 n = n" by simp
      from False show ?thesis using n
        by (simp add: bit_signed_drop_bit_iff bit_push_bit_iff bit_signed_iff bit_ucast_iff m)
    qed
  qed
  then show ?thesis using ucast_from_be [of bs]
    by (simp add: read_channel_def clamp_width_def Let_def)
qed

lemma read_quality: "read_channel CtQuality bs = CvQuality (q_from_bits_msb (from_be bs))"
  using ucast_from_be [of bs] by (simp add: read_channel_def Let_def)

definition phs_channels :: "bytes \<Rightarrow> (i32 \<times> quality) list" where
  "phs_channels sample = map (phs_channel sample) [0..<8]"

lemma phs_layout_decode:
  assumes "length sample = SAMPLE_LEN"
  shows "map snd (layout_decode phs_meas1_layout sample) = concat (map (\<lambda>(v, q). [CvInt (scast v), CvQuality q]) (phs_channels sample))"
proof -
  have n: "[0..<16] = [0, 1, 2, 3, 4, 5, 6, 7, 8, 9, 10, 11, 12, 13, 14, 15 :: nat]"
    "[0..<8] = [0, 1, 2, 3, 4, 5, 6, 7 :: nat]" by (simp_all add: upt_conv_Cons)
  show ?thesis
    using assms unfolding phs_meas1_layout_def
    by (subst layout_decode_values)
      (simp_all add: layout_new_simps(1) SAMPLE_LEN_def channel_start_def n phs_channels_def phs_channel_def read_int4 read_quality
        clamp_width_def Let_def)
qed

lemma phs_decode_channels:
  assumes "length sample = SAMPLE_LEN"
  obtains p where "phs_decode sample = Some p" "phs_wf p"
    "zip (pm_currents p @ pm_voltages p) (pm_current_quality p @ pm_voltage_quality p) = phs_channels sample"
proof (rule that)
  let ?p = "\<lparr> pm_currents = map fst (take 4 (phs_channels sample)), pm_current_quality = map snd (take 4 (phs_channels sample)),
              pm_voltages = map fst (drop 4 (phs_channels sample)), pm_voltage_quality = map snd (drop 4 (phs_channels sample)) \<rparr>"
  show "phs_decode sample = Some ?p" using assms by (simp add: phs_decode_def phs_channels_def Let_def)
  show "phs_wf ?p" by (simp add: phs_wf_def phs_channels_def)
  have "zip (map fst xs @ map fst ys) (map snd xs @ map snd ys) = xs @ ys" for xs ys :: "(i32 \<times> quality) list"
    by (simp add: zip_map_fst_snd flip: map_append)
  then show "zip (pm_currents ?p @ pm_voltages ?p) (pm_current_quality ?p @ pm_voltage_quality ?p) = phs_channels sample"
    by simp
qed

lemma concat_chunks:
  "\<forall>x \<in> set xs. length (f x) = n \<Longrightarrow> i < length xs \<Longrightarrow> take n (drop (i * n) (concat (map f xs))) = f (xs ! i)"
proof (induction xs arbitrary: i)
  case (Cons x xs)
  then show ?case by (cases i) (auto simp: add.commute [of n])
qed simp

definition phs_pair :: "phs_meas1 \<Rightarrow> nat \<Rightarrow> i32 \<times> quality" where
  "phs_pair p i = (if i < 4 then (pm_currents p ! i, pm_current_quality p ! i)
     else (pm_voltages p ! (i - 4), pm_voltage_quality p ! (i - 4)))"

definition pair_octets :: "i32 \<times> quality \<Rightarrow> bytes" where
  "pair_octets x = to_be 4 (fst x) @ to_be 4 (q_to_bits_msb (snd x))"

lemma phs_encode_pairs: "phs_encode p = concat (map pair_octets (map (phs_pair p) [0..<8]))"
  by (simp add: phs_encode_def phs_pair_def pair_octets_def Let_def case_prod_unfold comp_def del: to_be.simps)

lemma phs_channel_encode: "i < 8 \<Longrightarrow> phs_channel (phs_encode p) i = phs_pair p i"
proof -
  assume i: "i < 8"
  have len: "\<forall>x \<in> set (map (phs_pair p) [0..<8]). length (pair_octets x) = 8" by (simp add: pair_octets_def)
  have c: "take 8 (drop (i * 8) (phs_encode p)) = pair_octets (phs_pair p i)"
    using concat_chunks [OF len, of i] i by (simp add: phs_encode_pairs del: upt_Suc)
  have "take 4 (drop (i * 8) (phs_encode p)) = take 4 (take 8 (drop (i * 8) (phs_encode p)))"
    "take 4 (drop (i * 8 + 4) (phs_encode p)) = drop 4 (take 8 (drop (i * 8) (phs_encode p)))"
    by (simp_all add: drop_take add.commute)
  then show ?thesis
    by (simp add: phs_channel_def Let_def c pair_octets_def from_be_to_be q_from_to_bits del: to_be.simps)
qed

lemma length_phs_encode: "length (phs_encode p) = SAMPLE_LEN"
  by (simp add: phs_encode_pairs length_concat pair_octets_def SAMPLE_LEN_def comp_def map_replicate_const sum_list_replicate del: to_be.simps)

lemma phs_roundtrip:
  assumes "phs_wf p"
  shows "phs_decode (phs_encode p) = Some p"
proof -
  have four: "length xs = 4 \<Longrightarrow> [xs ! 0, xs ! 1, xs ! 2, xs ! 3] = xs" for xs :: "'x list"
    by (auto simp: length_Suc_conv numeral_eq_Suc)
  have ch: "map (phs_channel (phs_encode p)) [0..<8] = map (phs_pair p) [0..<8]"
    by (intro map_cong) (simp_all add: phs_channel_encode)
  have up: "[0..<8] = [0, 1, 2, 3, 4, 5, 6, 7 :: nat]" by (simp add: upt_conv_Cons)
  show ?thesis
    using assms unfolding phs_decode_def Let_def ch
    by (simp add: length_phs_encode up phs_pair_def phs_wf_def four [simplified])
qed

text \<open>
  The hand-written 9-2LE decoder and the generic layout built for its data set agree on
  every 64-octet block, channel by channel; and encoding eight channels and decoding them gives them back.
\<close>

theorem phs_decode_is_layout:
  "(length sample = SAMPLE_LEN \<longrightarrow>
     (\<exists>p. phs_decode sample = Some p \<and> phs_wf p \<and> map snd (layout_decode phs_meas1_layout sample) = phs_values p)) \<and>
   (phs_wf p \<longrightarrow> phs_decode (phs_encode p) = Some p)"
proof (intro conjI impI phs_roundtrip)
  assume l: "length sample = SAMPLE_LEN"
  then obtain p where "phs_decode sample = Some p" "phs_wf p"
    "zip (pm_currents p @ pm_voltages p) (pm_current_quality p @ pm_voltage_quality p) = phs_channels sample"
    by (rule phs_decode_channels)
  then show "\<exists>p. phs_decode sample = Some p \<and> phs_wf p \<and> map snd (layout_decode phs_meas1_layout sample) = phs_values p"
    using phs_layout_decode [OF l] by (auto simp: phs_values_def)
qed

text \<open>A witness: a block of zeros, and eight channels with distinct values.\<close>

theorem phs_decode_is_layout_witness:
  "(\<exists>p. phs_decode (replicate 64 0) = Some p \<and> phs_wf p \<and> map snd (layout_decode phs_meas1_layout (replicate 64 0)) = phs_values p) \<and>
   (let p = \<lparr> pm_currents = [1, - 2, 3, 0x80000000], pm_current_quality = replicate 4 Q_GOOD,
              pm_voltages = [5, 6, 7, 8], pm_voltage_quality = replicate 4 Q_GOOD \<rparr>
    in phs_decode (phs_encode p) = Some p)"
  using phs_decode_is_layout [of "replicate 64 0" "\<lparr> pm_currents = [1, - 2, 3, 0x80000000], pm_current_quality = replicate 4 Q_GOOD,
      pm_voltages = [5, 6, 7, 8], pm_voltage_quality = replicate 4 Q_GOOD \<rparr>"]
  by (simp add: SAMPLE_LEN_def phs_wf_def Let_def)

section \<open>The modulus of the sample count\<close>

lemma smp_cnt_wrap_bounds: "0 < unat (smp_cnt_wrap n)" "unat (smp_cnt_wrap n) \<le> 65536"
  by (auto simp: smp_cnt_wrap_def unat_gt_0 word_less_nat_alt not_less)

end
