(* ===== verification/Sv_Publisher.thy ===== *)
theory Sv_Publisher
  imports Sv_Apdu Sv_Layout Ethernet Machine
begin

text \<open>
  The sampled-value publisher (\<open>src/proto/sv/publisher.rs\<close>): stream profiles, the frame template and its
  patch points, the operations that rewrite fields in place, and the rebuild when \<open>smpSynch\<close> outgrows its
  field. \<open>sv_shows\<close> relates the octets of the template to the ASDUs they carry.
\<close>

section \<open>Profiles\<close>

datatype smp_mod = SamplesPerPeriod | SamplesPerSecond | SecondsPerSample

definition smp_mod_to_u8 :: "smp_mod \<Rightarrow> u8" where
  "smp_mod_to_u8 m = (case m of SamplesPerPeriod \<Rightarrow> 0 | SamplesPerSecond \<Rightarrow> 1 | SecondsPerSample \<Rightarrow> 2)"

definition smp_mod_from_u8 :: "u8 \<Rightarrow> smp_mod option" where
  "smp_mod_from_u8 v = (if v = 0 then Some SamplesPerPeriod else if v = 1 then Some SamplesPerSecond
     else if v = 2 then Some SecondsPerSample else None)"

definition smp_mod_parse :: "string \<Rightarrow> smp_mod option" where
  "smp_mod_parse s = (if s = ''SmpPerPeriod'' then Some SamplesPerPeriod else if s = ''SmpPerSec'' then Some SamplesPerSecond
     else if s = ''SecPerSmp'' then Some SecondsPerSample else None)"

record sv_profile =
  pf_samples_per_second :: u32
  pf_asdus_per_frame :: u8
  pf_smp_mod :: "smp_mod option"
  pf_smp_rate :: "u16 option"
  pf_sample_len :: usize

definition LE_80_50HZ :: sv_profile where
  "LE_80_50HZ = \<lparr> pf_samples_per_second = 4000, pf_asdus_per_frame = 1, pf_smp_mod = None, pf_smp_rate = None, pf_sample_len = SAMPLE_LEN \<rparr>"
definition LE_80_60HZ :: sv_profile where "LE_80_60HZ = LE_80_50HZ\<lparr> pf_samples_per_second := 4800 \<rparr>"
definition LE_256_50HZ :: sv_profile where "LE_256_50HZ = LE_80_50HZ\<lparr> pf_samples_per_second := 12800, pf_asdus_per_frame := 8 \<rparr>"
definition LE_256_60HZ :: sv_profile where "LE_256_60HZ = LE_256_50HZ\<lparr> pf_samples_per_second := 15360 \<rparr>"
definition F4800S2I4U4 :: sv_profile where
  "F4800S2I4U4 = \<lparr> pf_samples_per_second = 4800, pf_asdus_per_frame = 2, pf_smp_mod = Some SamplesPerSecond,
     pf_smp_rate = Some 4800, pf_sample_len = SAMPLE_LEN \<rparr>"
definition F14400S6I4U4 :: sv_profile where
  "F14400S6I4U4 = F4800S2I4U4\<lparr> pf_samples_per_second := 14400, pf_asdus_per_frame := 6, pf_smp_rate := Some 14400 \<rparr>"

definition frames_per_second :: "sv_profile \<Rightarrow> u32" where
  "frames_per_second f = (let n = (if pf_asdus_per_frame f = 0 then 1 else ucast (pf_asdus_per_frame f)) in pf_samples_per_second f div n)"

definition frame_interval_nanos :: "sv_profile \<Rightarrow> u64" where
  "frame_interval_nanos f = (let fps = frames_per_second f in if fps = 0 then 0 else 1000000000 div ucast fps)"

definition profile_wrap :: "sv_profile \<Rightarrow> u32" where
  "profile_wrap f = smp_cnt_wrap (pf_samples_per_second f)"

section \<open>Configuration and state\<close>

record sv_pub_config =
  vc_header :: frame_header
  vc_sv_id :: string
  vc_dat_set :: "string option"
  vc_conf_rev :: u32
  vc_profile :: sv_profile
  vc_simulation :: bool
  vc_refr_tm :: bool
  vc_gm_identity :: bool

definition sv_config_new :: "frame_header \<Rightarrow> string \<Rightarrow> sv_profile \<Rightarrow> sv_pub_config" where
  "sv_config_new header sv_id profile = \<lparr> vc_header = header, vc_sv_id = sv_id, vc_dat_set = None, vc_conf_rev = 1,
     vc_profile = profile, vc_simulation = False, vc_refr_tm = False, vc_gm_identity = False \<rparr>"

definition sv_with_conf_rev :: "u32 \<Rightarrow> sv_pub_config \<Rightarrow> sv_pub_config" where
  "sv_with_conf_rev conf_rev c = c\<lparr> vc_conf_rev := conf_rev \<rparr>"

definition sv_with_dat_set :: "string \<Rightarrow> sv_pub_config \<Rightarrow> sv_pub_config" where
  "sv_with_dat_set dat_set c = c\<lparr> vc_dat_set := Some dat_set \<rparr>"

definition sv_with_time_fields :: "bool \<Rightarrow> bool \<Rightarrow> sv_pub_config \<Rightarrow> sv_pub_config" where
  "sv_with_time_fields refr_tm gm_identity c = c\<lparr> vc_refr_tm := refr_tm, vc_gm_identity := gm_identity \<rparr>"

definition sv_with_simulation :: "bool \<Rightarrow> sv_pub_config \<Rightarrow> sv_pub_config" where
  "sv_with_simulation on c = c\<lparr> vc_simulation := on \<rparr>"

record sv_publisher =
  vp_cfg :: sv_pub_config
  vp_frame :: bytes
  vp_at :: "asdu_offsets list"
  vp_smp_cnt :: u16
  vp_smp_synch :: smp_synch
  vp_refr_tm :: "utc_time option"
  vp_gm_identity :: "bytes option"
  vp_pending :: bool
  vp_next_send :: "instant option"
  vp_dropped :: u64

definition sv_asdus_per_frame :: "sv_publisher \<Rightarrow> usize" where
  "sv_asdus_per_frame p = unat (pf_asdus_per_frame (vc_profile (vp_cfg p)))"

section \<open>Fields in place\<close>

definition read_unsigned :: "bytes \<Rightarrow> sv_field \<Rightarrow> u64" where
  "read_unsigned frame f = (case slice frame (fld_at f) (fld_at f + fld_len f) of None \<Rightarrow> 0 | Some bs \<Rightarrow> from_be bs)"

definition write_unsigned :: "sv_field \<Rightarrow> u64 \<Rightarrow> (error, bytes, unit) st" where
  "write_unsigned f value frame =
     (if fld_len f = 0 \<or> fld_len f > 8 then (Inl (InvalidValue ''template field has an impossible width''), frame)
      else if fld_at f + fld_len f \<le> length frame
        then (Inr (), put_slice frame (fld_at f) (drop (8 - fld_len f) (to_be 8 value)))
        else (Inl (InvalidValue ''template offset out of range''), frame))"

text \<open>\<open>get_mut(a..a + n)\<close> followed by \<open>copy_from_slice\<close>, where the source ignores a range it does not have.\<close>

definition copy_into :: "usize \<Rightarrow> bytes \<Rightarrow> bytes \<Rightarrow> bytes" where
  "copy_into at bs frame = (if at + length bs \<le> length frame then put_slice frame at bs else frame)"

definition max_smp_cnt :: "sv_pub_config \<Rightarrow> u16" where
  "max_smp_cnt cfg = (case narrow (sat_sub (profile_wrap (vc_profile cfg)) 1) of Some n \<Rightarrow> n | None \<Rightarrow> - 1)"

definition template_asdu :: "sv_pub_config \<Rightarrow> smp_synch \<Rightarrow> utc_time option \<Rightarrow> bytes option \<Rightarrow> asdu" where
  "template_asdu cfg synch refr gm = \<lparr> as_sv_id = vc_sv_id cfg, as_dat_set = vc_dat_set cfg, as_smp_cnt = max_smp_cnt cfg,
     as_conf_rev = vc_conf_rev cfg,
     as_refr_tm = (if vc_refr_tm cfg then Some (case refr of Some t \<Rightarrow> t | None \<Rightarrow> utc_default) else None),
     as_smp_synch = Some synch, as_smp_rate = pf_smp_rate (vc_profile cfg),
     as_sample = replicate (pf_sample_len (vc_profile cfg)) 0,
     as_smp_mod = map_option smp_mod_to_u8 (pf_smp_mod (vc_profile cfg)),
     as_gm_identity = (if vc_gm_identity cfg then Some (case gm of Some g \<Rightarrow> g | None \<Rightarrow> replicate 8 0) else None) \<rparr>"

definition sv_link :: "sv_pub_config \<Rightarrow> frame_header" where
  "sv_link cfg = (let link = vc_header cfg in
     link\<lparr> fh_reserved1 := (if vc_simulation cfg then fh_reserved1 link OR RESERVED1_SIMULATION
                             else fh_reserved1 link AND NOT RESERVED1_SIMULATION) \<rparr>)"

definition shift_field :: "usize \<Rightarrow> sv_field \<Rightarrow> sv_field" where
  "shift_field n f = \<lparr> fld_at = n + fld_at f, fld_len = fld_len f \<rparr>"

definition shift_offsets :: "usize \<Rightarrow> asdu_offsets \<Rightarrow> asdu_offsets" where
  "shift_offsets n a = \<lparr> ao_smp_cnt = shift_field n (ao_smp_cnt a), ao_smp_synch = map_option (shift_field n) (ao_smp_synch a),
     ao_refr_tm = map_option ((+) n) (ao_refr_tm a), ao_sample = n + ao_sample a,
     ao_gm_identity = map_option ((+) n) (ao_gm_identity a) \<rparr>"

fun collect_offsets :: "usize \<Rightarrow> asdu_view result list \<Rightarrow> asdu_offsets list result" where
  "collect_offsets apdu_at [] = Inr []"
| "collect_offsets apdu_at (a # as) = rbind a (\<lambda>v. rbind (collect_offsets apdu_at as) (\<lambda>out.
     Inr (shift_offsets apdu_at (av_at v) # out)))"

definition template_limits :: "sv_pub_config \<Rightarrow> limits" where
  "template_limits cfg = default_limits\<lparr> max_asdus := max (unat (pf_asdus_per_frame (vc_profile cfg))) 1 \<rparr>"

definition locate_fields :: "bytes \<Rightarrow> usize \<Rightarrow> sv_pub_config \<Rightarrow> asdu_offsets list result" where
  "locate_fields frame apdu_at cfg =
     rbind (ok_or (Encode ''frame shorter than its header'') (slice_from frame apdu_at)) (\<lambda>apdu.
     rbind (savpdu_parse apdu (template_limits cfg)) (\<lambda>pdu.
     rbind (collect_offsets apdu_at (savpdu_asdus pdu)) (\<lambda>out.
     if length out \<noteq> unat (pf_asdus_per_frame (vc_profile cfg))
     then Inl (Encode ''template does not hold the configured number of ASDUs'') else Inr out)))"

definition build_template :: "sv_pub_config \<Rightarrow> smp_synch \<Rightarrow> utc_time option \<Rightarrow> bytes option \<Rightarrow> (bytes \<times> asdu_offsets list) result" where
  "build_template cfg synch refr gm =
     rbind (savpdu_encode \<lparr> sp_asdus = replicate (unat (pf_asdus_per_frame (vc_profile cfg))) (template_asdu cfg synch refr gm) \<rparr>) (\<lambda>apdu.
     let link = sv_link cfg; frame = replicate (header_len link + length apdu) 0 in
     case header_write link apdu frame of
       (Inl e, _) \<Rightarrow> Inl e
     | (Inr _, frame) \<Rightarrow> rbind (locate_fields frame (header_len link) cfg) (\<lambda>at. Inr (frame, at)))"

section \<open>The publisher\<close>

text \<open>The loop over the ASDUs that puts the real counts into a fresh template.\<close>

fun write_counts :: "u32 \<Rightarrow> asdu_offsets list \<Rightarrow> u64 \<Rightarrow> bytes \<Rightarrow> bytes" where
  "write_counts wrap [] cnt frame = frame"
| "write_counts wrap (a # as) cnt frame =
     write_counts wrap as ((cnt + 1) mod ucast wrap) (snd (write_unsigned (ao_smp_cnt a) cnt frame))"

definition write_smp_cnt_fields :: "sv_publisher \<Rightarrow> sv_publisher" where
  "write_smp_cnt_fields p =
     p\<lparr> vp_frame := write_counts (profile_wrap (vc_profile (vp_cfg p))) (vp_at p) (ucast (vp_smp_cnt p)) (vp_frame p) \<rparr>"

definition sv_pub_new :: "sv_pub_config \<Rightarrow> sv_publisher result" where
  "sv_pub_new cfg =
     (if \<not> ascii_str (vc_sv_id cfg) \<or> (case vc_dat_set cfg of Some s \<Rightarrow> \<not> ascii_str s | None \<Rightarrow> False)
      then Inl (Encode ''svID and datSet must be ASCII (VisibleString)'')
      else if pf_asdus_per_frame (vc_profile cfg) = 0 then Inl (InvalidValue ''a frame must carry at least one ASDU'')
      else if pf_samples_per_second (vc_profile cfg) = 0 then Inl (InvalidValue ''samples_per_second must not be zero'')
      else rbind (build_template cfg SynchNone None None) (\<lambda>(frame, at). Inr (write_smp_cnt_fields
        \<lparr> vp_cfg = cfg, vp_frame = frame, vp_at = at, vp_smp_cnt = 0, vp_smp_synch = SynchNone, vp_refr_tm = None,
          vp_gm_identity = None, vp_pending = False, vp_next_send = Some 0, vp_dropped = 0 \<rparr>)))"

definition next_smp_cnt :: "u32 \<Rightarrow> u16 \<Rightarrow> u16" where
  "next_smp_cnt wrap cnt = ucast ((ucast cnt + 1) mod wrap)"

definition patch_asdu :: "usize \<Rightarrow> bytes \<Rightarrow> (error, sv_publisher, unit) st" where
  "patch_asdu i block p = (case get_at (vp_at p) i of
     None \<Rightarrow> (Inl (InvalidValue ''template is missing a patch point''), p)
   | Some a \<Rightarrow> (case write_unsigned (ao_smp_cnt a) (ucast (vp_smp_cnt p)) (vp_frame p) of
       (Inl e, _) \<Rightarrow> (Inl e, p)
     | (Inr _, frame) \<Rightarrow>
         if ao_sample a + length block \<le> length frame
         then (Inr (), p\<lparr> vp_frame := put_slice frame (ao_sample a) block,
                          vp_smp_cnt := next_smp_cnt (profile_wrap (vc_profile (vp_cfg p))) (vp_smp_cnt p) \<rparr>)
         else (Inl (InvalidValue ''template offset out of range''), p\<lparr> vp_frame := frame \<rparr>)))"

definition sv_queue :: "instant \<Rightarrow> sv_publisher \<Rightarrow> sv_publisher" where
  "sv_queue now p = p\<lparr> vp_dropped := (if vp_pending p then sat_add (vp_dropped p) 1 else vp_dropped p), vp_pending := True,
     vp_next_send := Some (plus_nanos now (frame_interval_nanos (vc_profile (vp_cfg p)))) \<rparr>"

definition sv_publish :: "instant \<Rightarrow> bytes list \<Rightarrow> (error, sv_publisher, unit) st" where
  "sv_publish now blocks p =
     (if length blocks \<noteq> sv_asdus_per_frame p then (Inl (InvalidValue ''one sample block per ASDU is required''), p)
      else if list_ex (\<lambda>b. length b \<noteq> pf_sample_len (vc_profile (vp_cfg p))) blocks
        then (Inl (InvalidValue ''sample block has the wrong length for this profile''), p)
      else sbind (sfor (\<lambda>(i, block). patch_asdu i block) (enumerate 0 blocks)) (\<lambda>_ p. (Inr (), sv_queue now p)) p)"

definition sv_publish_repeating :: "instant \<Rightarrow> bytes \<Rightarrow> (error, sv_publisher, unit) st" where
  "sv_publish_repeating now block p =
     (if length block \<noteq> pf_sample_len (vc_profile (vp_cfg p))
        then (Inl (InvalidValue ''sample block has the wrong length for this profile''), p)
      else sbind (sfor (\<lambda>i. patch_asdu i block) [0..<sv_asdus_per_frame p]) (\<lambda>_ p. (Inr (), sv_queue now p)) p)"

text \<open>What a rebuild holds of the old frame, and puts back into the new one.\<close>

definition held_fields :: "sv_publisher \<Rightarrow> (u64 \<times> bytes) list" where
  "held_fields p = map (\<lambda>a. (read_unsigned (vp_frame p) (ao_smp_cnt a),
     case slice (vp_frame p) (ao_sample a) (ao_sample a + pf_sample_len (vc_profile (vp_cfg p))) of Some bs \<Rightarrow> bs | None \<Rightarrow> [])) (vp_at p)"

fun restore_fields :: "usize \<Rightarrow> (u64 \<times> bytes) list \<Rightarrow> asdu_offsets list \<Rightarrow> bytes \<Rightarrow> bytes" where
  "restore_fields sample_len ((count, block) # held) (a # as) frame =
     (let frame = snd (write_unsigned (ao_smp_cnt a) count frame)
      in restore_fields sample_len held as (if length block \<noteq> sample_len then frame else copy_into (ao_sample a) block frame))"
| "restore_fields sample_len _ _ frame = frame"

definition rebuild :: "(error, sv_publisher, unit) st" where
  "rebuild p = (let held = held_fields p in
     case build_template (vp_cfg p) (vp_smp_synch p) (vp_refr_tm p) (vp_gm_identity p) of
       Inl e \<Rightarrow> (Inl e, p)
     | Inr (frame, at) \<Rightarrow>
         (Inr (), p\<lparr> vp_frame := restore_fields (pf_sample_len (vc_profile (vp_cfg p))) held at frame, vp_at := at \<rparr>))"

text \<open>One octet per ASDU, unless the field has to grow.\<close>

fun write_synch :: "u64 \<Rightarrow> asdu_offsets list \<Rightarrow> (error, bytes, unit) st" where
  "write_synch value [] frame = (Inr (), frame)"
| "write_synch value (a # as) frame = (case ao_smp_synch a of
     None \<Rightarrow> write_synch value as frame
   | Some f \<Rightarrow> sbind (write_unsigned f value) (\<lambda>_. write_synch value as) frame)"

definition set_smp_synch :: "smp_synch \<Rightarrow> (error, sv_publisher, unit) st" where
  "set_smp_synch synch p =
     (let p = p\<lparr> vp_smp_synch := synch \<rparr>; value = ucast (smp_synch_to_u8 synch) in
      if \<not> list_all (\<lambda>a. case ao_smp_synch a of None \<Rightarrow> True | Some f \<Rightarrow> fld_len f \<ge> unsigned_width value 1) (vp_at p)
      then rebuild p
      else case write_synch value (vp_at p) (vp_frame p) of (r, frame) \<Rightarrow> (r, p\<lparr> vp_frame := frame \<rparr>))"

definition refr_tm_of :: "sv_publisher \<Rightarrow> utc_time \<Rightarrow> nat \<Rightarrow> utc_time" where
  "refr_tm_of p t i =
     (let rate = (ucast (max (pf_samples_per_second (vc_profile (vp_cfg p))) 1) :: u64);
          base = push_bit 24 (ucast (ut_seconds t)) OR ucast (ut_fraction t AND 0x00FFFFFF);
          v = sat_add base (push_bit 24 (of_nat i) div rate);
          secs = (case narrow (drop_bit 24 v) of Some s \<Rightarrow> s | None \<Rightarrow> - 1)
      in \<lparr> ut_seconds = secs, ut_fraction = ucast (v AND 0x00FFFFFF), ut_quality = ut_quality t \<rparr>)"

fun write_refr_tm :: "(nat \<Rightarrow> utc_time) \<Rightarrow> nat \<Rightarrow> asdu_offsets list \<Rightarrow> bytes \<Rightarrow> bytes" where
  "write_refr_tm t i [] frame = frame"
| "write_refr_tm t i (a # as) frame = write_refr_tm t (i + 1) as (case ao_refr_tm a of
     None \<Rightarrow> frame | Some at \<Rightarrow> copy_into at (utc_to_octets (t i)) frame)"

definition set_refr_tm :: "utc_time \<Rightarrow> sv_publisher \<Rightarrow> sv_publisher" where
  "set_refr_tm t p = p\<lparr> vp_refr_tm := Some t, vp_frame := write_refr_tm (refr_tm_of p t) 0 (vp_at p) (vp_frame p) \<rparr>"

definition set_gm_identity :: "bytes \<Rightarrow> sv_publisher \<Rightarrow> sv_publisher" where
  "set_gm_identity gm p = p\<lparr> vp_gm_identity := Some gm,
     vp_frame := fold (\<lambda>a frame. case ao_gm_identity a of None \<Rightarrow> frame | Some at \<Rightarrow> copy_into at gm frame) (vp_at p) (vp_frame p) \<rparr>"

definition sv_next_timeout :: "sv_publisher \<Rightarrow> instant option" where
  "sv_next_timeout p = vp_next_send p"

definition sv_poll_transmit :: "sv_publisher \<Rightarrow> bytes option \<times> sv_publisher" where
  "sv_poll_transmit p = (if vp_pending p then (Some (vp_frame p), p\<lparr> vp_pending := False \<rparr>) else (None, p))"

definition set_smp_cnt :: "u16 \<Rightarrow> sv_publisher \<Rightarrow> sv_publisher" where
  "set_smp_cnt cnt p = p\<lparr> vp_smp_cnt := ucast (ucast cnt mod profile_wrap (vc_profile (vp_cfg p))) \<rparr>"

section \<open>Frames of one shape\<close>

text \<open>Two ASDUs whose fields have the same lengths, so that rewriting one into the other moves nothing.\<close>

definition same_shape :: "asdu \<Rightarrow> asdu \<Rightarrow> bool" where
  "same_shape a b \<longleftrightarrow> as_sv_id a = as_sv_id b \<and> as_dat_set a = as_dat_set b \<and> as_conf_rev a = as_conf_rev b \<and>
     as_smp_rate a = as_smp_rate b \<and> as_smp_mod a = as_smp_mod b \<and> length (as_sample a) = length (as_sample b) \<and>
     (as_refr_tm a = None \<longleftrightarrow> as_refr_tm b = None) \<and> (as_smp_synch a = None \<longleftrightarrow> as_smp_synch b = None) \<and>
     map_option length (as_gm_identity a) = map_option length (as_gm_identity b)"

lemma same_shape_refl [simp]: "same_shape a a"
  by (simp add: same_shape_def)

lemma same_shape_trans: "same_shape a b \<Longrightarrow> same_shape b c \<Longrightarrow> same_shape a c"
  by (simp add: same_shape_def)

lemma same_shape_sym: "same_shape a b \<Longrightarrow> same_shape b a"
  by (simp add: same_shape_def)

lemma same_shape_tagged: "same_shape a b \<Longrightarrow> tagged_shape (asdu_tagged wc ws a) = tagged_shape (asdu_tagged wc ws b)"
  by (cases "as_refr_tm a"; cases "as_refr_tm b"; cases "as_smp_synch a"; cases "as_smp_synch b";
      cases "as_gm_identity a"; cases "as_gm_identity b")
    (simp_all add: same_shape_def asdu_tagged_def)

lemma same_shape_length: "same_shape a b \<Longrightarrow> length (asdu_contents wc ws a) = length (asdu_contents wc ws b)"
  using tagged_shape_offsets [OF same_shape_tagged] by (simp add: asdu_contents_def)

lemma same_shape_at:
  assumes "same_shape a b"
  shows "asdu_at base wc ws a = asdu_at base wc ws b"
proof -
  have o: "offset_of t (asdu_tagged wc ws a) = offset_of t (asdu_tagged wc ws b)" for t
    using tagged_shape_offsets [OF same_shape_tagged [OF assms]] by blast
  show ?thesis
    using assms
    by (cases "as_refr_tm a"; cases "as_refr_tm b"; cases "as_smp_synch a"; cases "as_smp_synch b";
        cases "as_gm_identity a"; cases "as_gm_identity b")
      (simp_all add: asdu_at_def same_shape_def Let_def o)
qed

lemma same_shape_update: "same_shape a (as ! k) \<Longrightarrow> list_all2 same_shape as (as[k := a])"
  by (cases "k < length as") (auto simp: list_all2_conv_all_nth nth_list_update intro: same_shape_sym)

definition sized :: "usize \<Rightarrow> usize \<Rightarrow> asdu list \<Rightarrow> sized_asdu list" where
  "sized wc ws as = map (\<lambda>a. (wc, ws, a)) as"

definition sv_frame :: "frame_header \<Rightarrow> usize \<Rightarrow> usize \<Rightarrow> asdu list \<Rightarrow> bytes" where
  "sv_frame link wc ws as = header_octets link (length (savpdu_octets (sized wc ws as))) @ savpdu_octets (sized wc ws as)"

text \<open>Where the contents of the \<open>i\<close>-th ASDU start in the frame.\<close>

definition asdu_pos :: "frame_header \<Rightarrow> usize \<Rightarrow> usize \<Rightarrow> asdu list \<Rightarrow> nat \<Rightarrow> usize" where
  "asdu_pos link wc ws as i = header_len link + asdus_base (sized wc ws as) + length (asdus_octets (take i (sized wc ws as))) +
     length (element_head TAG_ASDU (length (asdu_contents wc ws (as ! i))))"

definition frame_offsets :: "frame_header \<Rightarrow> usize \<Rightarrow> usize \<Rightarrow> asdu list \<Rightarrow> asdu_offsets list" where
  "frame_offsets link wc ws as = map (\<lambda>i. asdu_at (asdu_pos link wc ws as i) wc ws (as ! i)) [0..<length as]"

lemma sized_simps [simp]:
  "length (sized wc ws as) = length as" "sized wc ws (as @ bs) = sized wc ws as @ sized wc ws bs"
  "sized wc ws (a # as) = (wc, ws, a) # sized wc ws as" "sized wc ws [] = []"
  by (simp_all add: sized_def)

lemma asdus_octets_same:
  "list_all2 same_shape as bs \<Longrightarrow> length (asdus_octets (sized wc ws as)) = length (asdus_octets (sized wc ws bs))"
  by (induction rule: list_all2_induct) (simp_all add: element_split same_shape_length)

lemma savpdu_head_same: "list_all2 same_shape as bs \<Longrightarrow> savpdu_head (sized wc ws as) = savpdu_head (sized wc ws bs)"
  by (simp add: savpdu_head_def asdus_octets_same list_all2_lengthD)

lemma savpdu_contents_same:
  "list_all2 same_shape as bs \<Longrightarrow> length (savpdu_contents (sized wc ws as)) = length (savpdu_contents (sized wc ws bs))"
  by (simp add: savpdu_contents_def asdus_octets_same savpdu_head_same)

lemma asdu_pos_same:
  assumes "list_all2 same_shape as bs" "i < length as"
  shows "asdu_pos link wc ws as i = asdu_pos link wc ws bs i"
proof -
  have t: "take i (sized wc ws xs) = sized wc ws (take i xs)" for xs by (simp add: sized_def take_map)
  have "same_shape (as ! i) (bs ! i)" "list_all2 same_shape (take i as) (take i bs)"
    using assms by (simp_all add: list_all2_nthD list_all2_takeI)
  then show ?thesis
    using assms by (simp add: asdu_pos_def asdus_base_def t asdus_octets_same savpdu_head_same savpdu_contents_same same_shape_length)
qed

lemma frame_offsets_same:
  assumes "list_all2 same_shape as bs"
  shows "frame_offsets link wc ws as = frame_offsets link wc ws bs"
  unfolding frame_offsets_def
  using assms by (intro map_cong) (auto simp: asdu_pos_same list_all2_lengthD intro!: same_shape_at list_all2_nthD2)

text \<open>The octets before and after an ASDU do not depend on what it carries, only on its shape.\<close>

definition frame_before :: "frame_header \<Rightarrow> usize \<Rightarrow> usize \<Rightarrow> asdu list \<Rightarrow> nat \<Rightarrow> bytes" where
  "frame_before link wc ws as i = header_octets link (length (savpdu_octets (sized wc ws as))) @
     element_head TAG_SAV_PDU (length (savpdu_contents (sized wc ws as))) @ savpdu_head (sized wc ws as) @
     asdus_octets (take i (sized wc ws as)) @ element_head TAG_ASDU (length (asdu_contents wc ws (as ! i)))"

definition frame_after :: "usize \<Rightarrow> usize \<Rightarrow> asdu list \<Rightarrow> nat \<Rightarrow> bytes" where
  "frame_after wc ws as i = asdus_octets (drop (Suc i) (sized wc ws as))"

lemma frame_split:
  assumes "i < length as"
  shows "sv_frame link wc ws as = frame_before link wc ws as i @ asdu_contents wc ws (as ! i) @ frame_after wc ws as i"
proof -
  have "sized wc ws as = take i (sized wc ws as) @ (wc, ws, as ! i) # drop (Suc i) (sized wc ws as)"
    using assms id_take_nth_drop [of i "sized wc ws as"] by (simp add: sized_def)
  then have "asdus_octets (sized wc ws as) = asdus_octets (take i (sized wc ws as)) @
      element TAG_ASDU (asdu_contents wc ws (as ! i)) @ asdus_octets (drop (Suc i) (sized wc ws as))"
    by (metis asdus_octets_simps(2,3) sized_contents.simps)
  then show ?thesis
    by (simp add: sv_frame_def frame_before_def frame_after_def savpdu_octets_def savpdu_contents_def element_split)
qed

lemma length_frame_before:
  "length (fh_dst link) = 6 \<Longrightarrow> length (fh_src link) = 6 \<Longrightarrow> length (frame_before link wc ws as i) = asdu_pos link wc ws as i"
  by (cases "fh_vlan link")
    (simp_all add: frame_before_def asdu_pos_def asdus_base_def header_octets_def vlan_octets_def header_len_def)

lemma frame_parts_same:
  assumes "same_shape a (as ! i)" "i < length as"
  shows "frame_before link wc ws (as[i := a]) i = frame_before link wc ws as i"
    "frame_after wc ws (as[i := a]) i = frame_after wc ws as i"
proof -
  have u: "list_all2 same_shape (as[i := a]) as"
    using assms by (auto simp: list_all2_conv_all_nth nth_list_update)
  have "length (savpdu_octets (sized wc ws (as[i := a]))) = length (savpdu_octets (sized wc ws as))"
    using savpdu_contents_same [OF u] by (simp add: savpdu_octets_def element_split)
  then show "frame_before link wc ws (as[i := a]) i = frame_before link wc ws as i"
    using assms savpdu_contents_same [OF u] savpdu_head_same [OF u] same_shape_length [OF assms(1)]
    by (simp add: frame_before_def sized_def map_update take_update_cancel)
  show "frame_after wc ws (as[i := a]) i = frame_after wc ws as i"
    by (simp add: frame_after_def sized_def map_update drop_update_cancel)
qed

text \<open>Rewriting one field of one ASDU in place.\<close>

lemma patch_frame:
  assumes i: "i < length as" and link: "length (fh_dst link) = 6" "length (fh_src link) = 6"
    and c: "contents_of t (asdu_tagged wc ws (as ! i)) = Some c" and d: "length d = length c"
    and a: "set_contents t d (asdu_tagged wc ws (as ! i)) = asdu_tagged wc ws a" "same_shape a (as ! i)"
  defines "pos \<equiv> asdu_pos link wc ws as i + offset_of t (asdu_tagged wc ws (as ! i))"
  shows "put_slice (sv_frame link wc ws as) pos d = sv_frame link wc ws (as[i := a])"
    "pos + length d \<le> length (sv_frame link wc ws as)"
proof -
  note b = offset_of_bound [OF c]
  have i': "i < length (as[i := a])" using i by simp
  show "pos + length d \<le> length (sv_frame link wc ws as)"
    using b d length_frame_before [OF link] by (simp add: frame_split [OF i] pos_def asdu_contents_def)
  have "put_slice (sv_frame link wc ws as) pos d =
      frame_before link wc ws as i @ put_slice (asdu_contents wc ws (as ! i)) (offset_of t (asdu_tagged wc ws (as ! i))) d @ frame_after wc ws as i"
    using b d by (simp add: frame_split [OF i] pos_def length_frame_before [OF link, symmetric] put_slice_right put_slice_left asdu_contents_def)
  also have "\<dots> = sv_frame link wc ws (as[i := a])"
    using i frame_parts_same [OF a(2) i] by (simp add: frame_split [OF i'] asdu_contents_def patch_field [OF c d] a(1))
  finally show "put_slice (sv_frame link wc ws as) pos d = sv_frame link wc ws (as[i := a])" .
qed

lemma read_frame:
  assumes i: "i < length as" and link: "length (fh_dst link) = 6" "length (fh_src link) = 6"
    and c: "contents_of t (asdu_tagged wc ws (as ! i)) = Some c"
  defines "pos \<equiv> asdu_pos link wc ws as i + offset_of t (asdu_tagged wc ws (as ! i))"
  shows "slice (sv_frame link wc ws as) pos (pos + length c) = Some c"
  using read_field_in [OF c, of "frame_before link wc ws as i" "frame_after wc ws as i"]
  by (simp add: frame_split [OF i] pos_def length_frame_before [OF link] asdu_contents_def)

section \<open>The template\<close>

text \<open>
  A configuration whose frames fit the sixteen-bit length of the link layer. The bound is generous: every
  field is counted with the longest identifier and length octets BER allows.
\<close>

definition sv_cfg_ok :: "sv_pub_config \<Rightarrow> bool" where
  "sv_cfg_ok cfg \<longleftrightarrow> header_wf (vc_header cfg) \<and> ascii_str (vc_sv_id cfg) \<and>
     (\<forall>s. vc_dat_set cfg = Some s \<longrightarrow> ascii_str s) \<and> pf_asdus_per_frame (vc_profile cfg) \<noteq> 0 \<and>
     pf_samples_per_second (vc_profile cfg) \<noteq> 0 \<and>
     unat (pf_asdus_per_frame (vc_profile cfg)) *
       (length (vc_sv_id cfg) + opt_length (vc_dat_set cfg) + pf_sample_len (vc_profile cfg) + 177) + 49 \<le> 0xFFFF"

definition cnt_width :: "sv_pub_config \<Rightarrow> usize" where
  "cnt_width cfg = smp_cnt_width (max_smp_cnt cfg)"

definition synch_width :: "smp_synch \<Rightarrow> usize" where
  "synch_width s = unsigned_width (ucast (smp_synch_to_u8 s)) 1"

definition asdu_fits :: "sv_pub_config \<Rightarrow> usize \<Rightarrow> asdu \<Rightarrow> bool" where
  "asdu_fits cfg ws a \<longleftrightarrow> asdu_ok a \<and> widths_ok (cnt_width cfg) ws a \<and> same_shape a (template_asdu cfg SynchNone None None)"

abbreviation cfg_asdus :: "sv_pub_config \<Rightarrow> nat" where
  "cfg_asdus cfg \<equiv> unat (pf_asdus_per_frame (vc_profile cfg))"

abbreviation cfg_wrap :: "sv_pub_config \<Rightarrow> nat" where
  "cfg_wrap cfg \<equiv> unat (profile_wrap (vc_profile cfg))"

lemma cfg_wrap_bounds: "0 < cfg_wrap cfg" "cfg_wrap cfg \<le> 65536"
  using smp_cnt_wrap_bounds by (simp_all add: profile_wrap_def)

lemma unat_max_smp_cnt: "unat (max_smp_cnt cfg) = cfg_wrap cfg - 1"
proof -
  have u: "unat (sat_sub (profile_wrap (vc_profile cfg)) 1) = cfg_wrap cfg - 1" by (simp add: unat_sat_sub)
  then have "unat (sat_sub (profile_wrap (vc_profile cfg)) 1) < 2 ^ 16" using cfg_wrap_bounds [of cfg] by simp
  then obtain n :: u16 where "narrow (sat_sub (profile_wrap (vc_profile cfg)) 1) = Some n" by (auto simp: narrow_def)
  then show ?thesis using unat_narrow u by (fastforce simp: max_smp_cnt_def)
qed

lemma cnt_width_fits: "unat c < cfg_wrap cfg \<Longrightarrow> fits_width (cnt_width cfg) (ucast (c :: u16))"
proof -
  assume c: "unat c < cfg_wrap cfg"
  have "fits_width (cnt_width cfg) (ucast (max_smp_cnt cfg))"
    unfolding cnt_width_def smp_cnt_width_def by (intro fits_width_min ucast_lt_63) simp_all
  moreover have "unat (ucast c :: u64) \<le> unat (ucast (max_smp_cnt cfg) :: u64)"
    using c by (simp add: unat_ucast_up unat_max_smp_cnt)
  ultimately show ?thesis using le_less_trans by (auto simp: fits_width_unat)
qed

lemma synch_width_fits: "fits_width (synch_width s) (ucast (smp_synch_to_u8 s))"
  unfolding synch_width_def by (intro fits_width_min ucast_lt_63) simp_all

lemma sv_link_wf: "header_wf (vc_header cfg) \<Longrightarrow> header_wf (sv_link cfg)"
  by (simp add: header_wf_def sv_link_def Let_def)

lemma sv_link_macs: "sv_cfg_ok cfg \<Longrightarrow> length (fh_dst (sv_link cfg)) = 6 \<and> length (fh_src (sv_link cfg)) = 6"
  using sv_link_wf [of cfg] by (simp add: sv_cfg_ok_def header_wf_def)

lemma asdus_fit:
  assumes "sv_cfg_ok cfg" "length as = cfg_asdus cfg" "list_all (asdu_fits cfg ws) as"
  shows "savpdu_ok (template_limits cfg) (sized (cnt_width cfg) ws as)"
    "length (savpdu_octets (sized (cnt_width cfg) ws as)) + 8 \<le> 0xFFFF"
proof -
  let ?xs = "sized (cnt_width cfg) ws as"
  let ?e = "length (vc_sv_id cfg) + opt_length (vc_dat_set cfg) + pf_sample_len (vc_profile cfg) + 177"
  have n: "cfg_asdus cfg < 2 ^ 8" using unat_lt_exp [of "pf_asdus_per_frame (vc_profile cfg)"] by simp
  have c: "length (asdu_contents (cnt_width cfg) ws a) \<le> ?e - 11" if "a \<in> set as" for a
  proof -
    have f: "asdu_ok a" "widths_ok (cnt_width cfg) ws a" "same_shape a (template_asdu cfg SynchNone None None)"
      using assms(3) that by (simp_all add: list_all_iff asdu_fits_def)
    then have "opt_length (as_gm_identity a) \<le> 8" by (auto simp: asdu_ok_def opt_length_def split: option.split)
    then show ?thesis
      using asdu_contents_bound [OF f(2)] f(3) by (simp add: same_shape_def template_asdu_def)
  qed
  have "length (asdus_octets (sized (cnt_width cfg) ws xs)) \<le> length xs * ?e" if "set xs \<subseteq> set as" for xs
    using that
  proof (induction xs)
    case (Cons a xs)
    then have "length (element TAG_ASDU (asdu_contents (cnt_width cfg) ws a)) \<le> ?e"
      using element_bound [of "asdu_contents (cnt_width cfg) ws a" "?e - 11" TAG_ASDU] c by auto
    then show ?case using Cons by simp
  qed simp
  then have o: "length (asdus_octets ?xs) \<le> cfg_asdus cfg * ?e" using assms(2) by fastforce
  have "length (savpdu_contents ?xs) \<le> length (asdus_octets ?xs) + 30"
    using savpdu_contents_bound [of ?xs] assms(2) n by simp
  with o have s: "length (savpdu_contents ?xs) + 19 \<le> 0xFFFF" using assms(1) by (simp add: sv_cfg_ok_def)
  then show "length (savpdu_octets ?xs) + 8 \<le> 0xFFFF"
    using element_bound [of "savpdu_contents ?xs" "length (savpdu_contents ?xs)" TAG_SAV_PDU] by (simp add: savpdu_octets_def)
  have "fits (asdus_octets ?xs)" using s by (simp add: savpdu_contents_def)
  then have "fits (asdu_contents (cnt_width cfg) ws a)" if "a \<in> set as" for a
    using fits_asdus [of ?xs "(cnt_width cfg, ws, a)"] that by (simp add: sized_def)
  then show "savpdu_ok (template_limits cfg) ?xs"
    using assms s n by (auto simp: savpdu_ok_def list_all_iff sized_def asdu_fits_def template_limits_def)
qed

lemma shift_asdu_at: "shift_offsets n (asdu_at b wc ws a) = asdu_at (n + b) wc ws a"
  by (simp add: shift_offsets_def shift_field_def asdu_at_def Let_def option.map_comp comp_def add.assoc)

lemma asdu_views_nth:
  "i < length as \<Longrightarrow> asdu_views base (sized wc ws as) ! i = asdu_view_of (base + length (asdus_octets (take i (sized wc ws as))) +
     length (element_head TAG_ASDU (length (asdu_contents wc ws (as ! i))))) wc ws (as ! i)"
proof (induction as arbitrary: base i)
  case (Cons a as)
  then show ?case by (cases i) (simp_all add: add.assoc)
qed simp

lemma frame_offsets_views:
  "map (\<lambda>v. shift_offsets (header_len link) (av_at v)) (asdu_views (asdus_base (sized wc ws as)) (sized wc ws as)) = frame_offsets link wc ws as"
  by (intro nth_equalityI)
    (simp_all add: frame_offsets_def asdu_views_nth asdu_view_of_def shift_asdu_at asdu_pos_def add.assoc)

lemma collect_offsets_views: "collect_offsets n (map Inr vs) = Inr (map (\<lambda>v. shift_offsets n (av_at v)) vs)"
  by (induction vs) simp_all

lemma locate_fields_frame:
  assumes "sv_cfg_ok cfg" "length as = cfg_asdus cfg" "list_all (asdu_fits cfg ws) as"
  shows "locate_fields (sv_frame (sv_link cfg) (cnt_width cfg) ws as) (header_len (sv_link cfg)) cfg =
    Inr (frame_offsets (sv_link cfg) (cnt_width cfg) ws as)"
proof -
  let ?xs = "sized (cnt_width cfg) ws as" and ?l = "sv_link cfg"
  obtain v where v: "savpdu_parse (savpdu_octets ?xs) (template_limits cfg) = Inr v"
    "savpdu_asdus v = map Inr (asdu_views (asdus_base ?xs) ?xs)"
    using savpdu_parse_octets [OF asdus_fit(1) [OF assms], of "[]"] by auto
  have "length (header_octets ?l n) = header_len ?l" for n
    using sv_link_macs [OF assms(1)] by (cases "fh_vlan ?l") (simp_all add: header_octets_def vlan_octets_def header_len_def)
  then have "slice_from (sv_frame ?l (cnt_width cfg) ws as) (header_len ?l) = Some (savpdu_octets ?xs)"
    by (simp add: slice_from_def sv_frame_def)
  then show ?thesis
    using v assms(2) by (simp add: locate_fields_def collect_offsets_views frame_offsets_views) (simp add: frame_offsets_def)
qed

lemma template_fits:
  assumes "sv_cfg_ok cfg" "synch_wf s" "\<forall>t. refr = Some t \<longrightarrow> utc_wf t" "\<forall>g. gm = Some g \<longrightarrow> length g = 8"
  shows "asdu_fits cfg (synch_width s) (template_asdu cfg s refr gm)"
proof -
  have l: "length (vc_sv_id cfg) < 4294967296" "opt_length (vc_dat_set cfg) < 4294967296" "pf_sample_len (vc_profile cfg) < 4294967296"
  proof -
    define e where "e = length (vc_sv_id cfg) + opt_length (vc_dat_set cfg) + pf_sample_len (vc_profile cfg) + 177"
    have "0 < cfg_asdus cfg" using assms(1) by (simp add: sv_cfg_ok_def unat_gt_0)
    then have "1 * e \<le> cfg_asdus cfg * e" by (intro mult_right_mono) simp_all
    moreover have "cfg_asdus cfg * e + 49 \<le> 0xFFFF" using assms(1) unfolding sv_cfg_ok_def e_def by blast
    ultimately have "e \<le> 65535" by linarith
    then show "length (vc_sv_id cfg) < 4294967296" "opt_length (vc_dat_set cfg) < 4294967296" "pf_sample_len (vc_profile cfg) < 4294967296"
      unfolding e_def by linarith+
  qed
  have "unat (max_smp_cnt cfg) < cfg_wrap cfg" using cfg_wrap_bounds(1) [of cfg] by (simp add: unat_max_smp_cnt)
  then show ?thesis
    using assms l synch_width_fits [of s] cnt_width_fits
    by (auto simp: asdu_fits_def asdu_ok_def widths_ok_def template_asdu_def same_shape_def sv_cfg_ok_def utc_default_wf
        opt_length_def split: option.splits)
qed

lemma build_template_ok:
  assumes "sv_cfg_ok cfg" "synch_wf s" "\<forall>t. refr = Some t \<longrightarrow> utc_wf t" "\<forall>g. gm = Some g \<longrightarrow> length g = 8"
  defines "as \<equiv> replicate (cfg_asdus cfg) (template_asdu cfg s refr gm)"
  shows "build_template cfg s refr gm =
    Inr (sv_frame (sv_link cfg) (cnt_width cfg) (synch_width s) as, frame_offsets (sv_link cfg) (cnt_width cfg) (synch_width s) as)"
proof -
  let ?xs = "sized (cnt_width cfg) (synch_width s) as"
  have f: "length as = cfg_asdus cfg" "list_all (asdu_fits cfg (synch_width s)) as"
    using template_fits [OF assms(1-4)] by (simp_all add: as_def list_all_iff)
  have "least_widths (template_asdu cfg s refr gm) = (cnt_width cfg, synch_width s, template_asdu cfg s refr gm)"
    by (simp add: least_widths_def cnt_width_def synch_width_def template_asdu_def)
  then have xs: "map least_widths as = ?xs" by (simp add: as_def sized_def)
  then have "savpdu_encode \<lparr> sp_asdus = as \<rparr> = Inr (savpdu_octets ?xs)"
    using savpdu_encode_octets [of "template_limits cfg" "\<lparr> sp_asdus = as \<rparr>"] asdus_fit(1) [OF assms(1) f] by simp
  moreover have "header_write (sv_link cfg) (savpdu_octets ?xs) (replicate (header_len (sv_link cfg) + length (savpdu_octets ?xs)) 0) =
      (Inr (header_len (sv_link cfg) + length (savpdu_octets ?xs)), sv_frame (sv_link cfg) (cnt_width cfg) (synch_width s) as)"
    using header_write_octets [of "sv_link cfg" "savpdu_octets ?xs" "replicate (header_len (sv_link cfg) + length (savpdu_octets ?xs)) 0"]
      sv_link_macs [OF assms(1)] asdus_fit(2) [OF assms(1) f] by (simp add: sv_frame_def)
  ultimately show ?thesis
    using locate_fields_frame [OF assms(1) f] by (simp add: build_template_def Let_def flip: as_def)
qed

section \<open>Patching one field\<close>

lemma asdu_updates:
  "set_contents (tag_context 2) (to_be wc (ucast c :: u64)) (asdu_tagged wc ws a) = asdu_tagged wc ws (a\<lparr> as_smp_cnt := c \<rparr>)"
  "set_contents (tag_context 7) block (asdu_tagged wc ws a) = asdu_tagged wc ws (a\<lparr> as_sample := block \<rparr>)"
  "as_smp_synch a = Some s' \<Longrightarrow> set_contents (tag_context 5) (to_be ws (ucast (smp_synch_to_u8 s) :: u64)) (asdu_tagged wc ws a) =
    asdu_tagged wc ws (a\<lparr> as_smp_synch := Some s \<rparr>)"
  "as_refr_tm a = Some t' \<Longrightarrow> set_contents (tag_context 4) (utc_to_octets t) (asdu_tagged wc ws a) =
    asdu_tagged wc ws (a\<lparr> as_refr_tm := Some t \<rparr>)"
  "as_gm_identity a = Some g' \<Longrightarrow> set_contents (tag_context 9) g (asdu_tagged wc ws a) = asdu_tagged wc ws (a\<lparr> as_gm_identity := Some g \<rparr>)"
  by (simp_all add: asdu_tagged_def)

lemma frame_offsets_nth: "i < length as \<Longrightarrow> frame_offsets link wc ws as ! i = asdu_at (asdu_pos link wc ws as i) wc ws (as ! i)"
  "length (frame_offsets link wc ws as) = length as"
  by (simp_all add: frame_offsets_def)

lemma write_unsigned_at:
  "0 < n \<Longrightarrow> n \<le> 8 \<Longrightarrow> at + n \<le> length frame \<Longrightarrow>
    write_unsigned \<lparr> fld_at = at, fld_len = n \<rparr> v frame = (Inr (), put_slice frame at (to_be n v))"
  by (simp add: write_unsigned_def drop_to_be)

text \<open>The five fields a publisher rewrites, in a frame that carries \<open>as\<close>.\<close>

lemma patch_smp_cnt:
  assumes "i < length as" "length (fh_dst link) = 6" "length (fh_src link) = 6" "0 < wc" "wc \<le> 8"
  shows "write_unsigned (ao_smp_cnt (frame_offsets link wc ws as ! i)) (ucast c) (sv_frame link wc ws as) =
    (Inr (), sv_frame link wc ws (as[i := (as ! i)\<lparr> as_smp_cnt := c \<rparr>]))"
proof -
  note p = patch_frame [OF assms(1-3) asdu_contents_of(1) _ asdu_updates(1) [of wc c]]
  have "same_shape ((as ! i)\<lparr> as_smp_cnt := c \<rparr>) (as ! i)" by (simp add: same_shape_def)
  then show ?thesis
    using p assms by (simp add: frame_offsets_nth asdu_at_def Let_def write_unsigned_at)
qed

lemma patch_sample:
  assumes "i < length as" "length (fh_dst link) = 6" "length (fh_src link) = 6" "length block = length (as_sample (as ! i))"
  shows "put_slice (sv_frame link wc ws as) (ao_sample (frame_offsets link wc ws as ! i)) block =
      sv_frame link wc ws (as[i := (as ! i)\<lparr> as_sample := block \<rparr>])"
    "ao_sample (frame_offsets link wc ws as ! i) + length block \<le> length (sv_frame link wc ws as)"
proof -
  note p = patch_frame [OF assms(1-3) asdu_contents_of(4) assms(4) asdu_updates(2)]
  have "same_shape ((as ! i)\<lparr> as_sample := block \<rparr>) (as ! i)" using assms(4) by (simp add: same_shape_def)
  then show "put_slice (sv_frame link wc ws as) (ao_sample (frame_offsets link wc ws as ! i)) block =
      sv_frame link wc ws (as[i := (as ! i)\<lparr> as_sample := block \<rparr>])"
    "ao_sample (frame_offsets link wc ws as ! i) + length block \<le> length (sv_frame link wc ws as)"
    using p assms by (simp_all add: frame_offsets_nth asdu_at_def Let_def)
qed

lemma patch_synch:
  assumes "i < length as" "length (fh_dst link) = 6" "length (fh_src link) = 6" "0 < ws" "ws \<le> 8" "as_smp_synch (as ! i) = Some s'"
  obtains f where "ao_smp_synch (frame_offsets link wc ws as ! i) = Some f" "fld_len f = ws"
    "write_unsigned f (ucast (smp_synch_to_u8 s)) (sv_frame link wc ws as) =
      (Inr (), sv_frame link wc ws (as[i := (as ! i)\<lparr> as_smp_synch := Some s \<rparr>]))"
proof -
  have c: "contents_of (tag_context 5) (asdu_tagged wc ws (as ! i)) = Some (to_be ws (ucast (smp_synch_to_u8 s') :: u64))"
    using assms(6) by (simp add: asdu_contents_of)
  note p = patch_frame [OF assms(1-3) c _ asdu_updates(3) [OF assms(6), of ws s]]
  have "same_shape ((as ! i)\<lparr> as_smp_synch := Some s \<rparr>) (as ! i)" using assms(6) by (simp add: same_shape_def)
  then show thesis
    using p assms that [of "\<lparr> fld_at = asdu_pos link wc ws as i + offset_of (tag_context 5) (asdu_tagged wc ws (as ! i)), fld_len = ws \<rparr>"]
    by (simp add: frame_offsets_nth asdu_at_def Let_def write_unsigned_at)
qed

lemma patch_refr_tm:
  assumes "i < length as" "length (fh_dst link) = 6" "length (fh_src link) = 6" "as_refr_tm (as ! i) = Some t'"
  obtains at where "ao_refr_tm (frame_offsets link wc ws as ! i) = Some at"
    "copy_into at (utc_to_octets t) (sv_frame link wc ws as) = sv_frame link wc ws (as[i := (as ! i)\<lparr> as_refr_tm := Some t \<rparr>])"
proof -
  have c: "contents_of (tag_context 4) (asdu_tagged wc ws (as ! i)) = Some (utc_to_octets t')"
    using assms(4) by (simp add: asdu_contents_of)
  note p = patch_frame [OF assms(1-3) c _ asdu_updates(4) [OF assms(4), of t]]
  have "same_shape ((as ! i)\<lparr> as_refr_tm := Some t \<rparr>) (as ! i)" using assms(4) by (simp add: same_shape_def)
  then show thesis using p assms that by (simp add: frame_offsets_nth asdu_at_def Let_def copy_into_def)
qed

lemma patch_gm:
  assumes "i < length as" "length (fh_dst link) = 6" "length (fh_src link) = 6" "as_gm_identity (as ! i) = Some g'" "length g = length g'"
  obtains at where "ao_gm_identity (frame_offsets link wc ws as ! i) = Some at"
    "copy_into at g (sv_frame link wc ws as) = sv_frame link wc ws (as[i := (as ! i)\<lparr> as_gm_identity := Some g \<rparr>])"
proof -
  have c: "contents_of (tag_context 9) (asdu_tagged wc ws (as ! i)) = Some g'"
    using assms(4) by (simp add: asdu_contents_of)
  note p = patch_frame [OF assms(1-3) c _ asdu_updates(5) [OF assms(4), of g]]
  have "same_shape ((as ! i)\<lparr> as_gm_identity := Some g \<rparr>) (as ! i)" using assms(4,5) by (simp add: same_shape_def)
  then show thesis using p assms that by (simp add: frame_offsets_nth asdu_at_def Let_def copy_into_def)
qed

section \<open>What a publisher carries\<close>

definition carries :: "sv_publisher \<Rightarrow> usize \<Rightarrow> asdu list \<Rightarrow> bool" where
  "carries p ws as \<longleftrightarrow> (let cfg = vp_cfg p; link = sv_link cfg; wc = cnt_width cfg in
     sv_cfg_ok cfg \<and> length as = cfg_asdus cfg \<and> list_all (asdu_fits cfg ws) as \<and>
     vp_frame p = sv_frame link wc ws as \<and> vp_at p = frame_offsets link wc ws as)"

lemma carriesD:
  assumes "carries p ws as"
  shows "sv_cfg_ok (vp_cfg p)" "length as = cfg_asdus (vp_cfg p)" "list_all (asdu_fits (vp_cfg p) ws) as"
    "vp_frame p = sv_frame (sv_link (vp_cfg p)) (cnt_width (vp_cfg p)) ws as"
    "vp_at p = frame_offsets (sv_link (vp_cfg p)) (cnt_width (vp_cfg p)) ws as"
    "length (fh_dst (sv_link (vp_cfg p))) = 6" "length (fh_src (sv_link (vp_cfg p))) = 6"
    "i < length as \<Longrightarrow> asdu_fits (vp_cfg p) ws (as ! i)"
    "0 < cnt_width (vp_cfg p)" "cnt_width (vp_cfg p) \<le> 8"
  using assms sv_link_macs [of "vp_cfg p"] cnt_width_fits [of 0 "vp_cfg p"] cfg_wrap_bounds(1) [of "vp_cfg p"]
  by (auto simp: carries_def Let_def list_all_length fits_width_def)

lemma asdu_fits_template:
  assumes "asdu_fits cfg ws a"
  shows "length (as_sample a) = pf_sample_len (vc_profile cfg)" "\<exists>s. as_smp_synch a = Some s \<and> fits_width ws (ucast (smp_synch_to_u8 s))"
    "vc_refr_tm cfg \<longleftrightarrow> (\<exists>t. as_refr_tm a = Some t)" "vc_gm_identity cfg \<longleftrightarrow> (\<exists>g. as_gm_identity a = Some g \<and> length g = 8)"
  using assms
  by (cases "vc_refr_tm cfg"; cases "vc_gm_identity cfg";
      auto simp: asdu_fits_def same_shape_def template_asdu_def asdu_ok_def widths_ok_def)+

text \<open>Replacing one ASDU by another of the configured shape.\<close>

lemma carries_update:
  assumes "carries p ws as" "i < length as" "asdu_fits (vp_cfg p) ws a"
    and "vp_cfg q = vp_cfg p" "vp_at q = vp_at p" "vp_frame q = sv_frame (sv_link (vp_cfg p)) (cnt_width (vp_cfg p)) ws (as[i := a])"
  shows "carries q ws (as[i := a])"
proof -
  have "same_shape a (as ! i)"
    using assms(3) carriesD(8) [OF assms(1,2)] same_shape_trans same_shape_sym unfolding asdu_fits_def by blast
  then have "list_all2 same_shape (as[i := a]) as" using assms(2) by (auto simp: list_all2_conv_all_nth nth_list_update)
  then have "frame_offsets link wc ws (as[i := a]) = frame_offsets link wc ws as" for link wc by (rule frame_offsets_same)
  then show ?thesis
    using carriesD [OF assms(1)] assms(2-6) by (auto simp: carries_def Let_def list_all_length nth_list_update)
qed

section \<open>Loops over the patch points\<close>

text \<open>Every loop of the publisher visits the patch points in order and rewrites one ASDU at each.\<close>

lemma update_take: "k < length as \<Longrightarrow> take (Suc k) (as[k := x]) = take k as @ [x]"
  by (simp add: take_Suc_conv_app_nth)

lemma patch_loop:
  assumes shape: "\<And>i. i < length as \<Longrightarrow> same_shape (g i (as ! i)) (as ! i)"
    and step: "\<And>bs i. length bs = length as \<Longrightarrow> i < length as \<Longrightarrow> bs ! i = as ! i \<Longrightarrow>
      f i (frame_offsets link wc ws bs ! i) (sv_frame link wc ws bs) = sv_frame link wc ws (bs[i := g i (as ! i)])"
    and k: "k \<le> length as" "list_all2 same_shape bs as" "drop k bs = drop k as"
  shows "fold (\<lambda>(i, a). f i a) (enumerate k (drop k (frame_offsets link wc ws as))) (sv_frame link wc ws bs) =
    sv_frame link wc ws (take k bs @ map (\<lambda>i. g i (as ! i)) [k..<length as])"
  using k
proof (induction "length as - k" arbitrary: k bs)
  case 0
  then show ?case by (simp add: frame_offsets_nth list_all2_lengthD)
next
  case (Suc n)
  then have lt: "k < length as" and len: "length bs = length as" by (simp_all add: list_all2_lengthD)
  then have d: "drop k (frame_offsets link wc ws as) = frame_offsets link wc ws as ! k # drop (Suc k) (frame_offsets link wc ws as)"
    by (intro Cons_nth_drop_Suc [symmetric]) (simp add: frame_offsets_nth)
  have b: "bs ! k = as ! k" using Suc.prems lt len by (metis nth_drop le_refl add_0_right)
  have o: "frame_offsets link wc ws as = frame_offsets link wc ws bs" by (rule frame_offsets_same [OF Suc.prems(2), symmetric])
  let ?bs = "bs[k := g k (as ! k)]"
  have "drop (Suc k) bs = drop (Suc k) as" using Suc.prems(3) by (metis add_Suc_right add.right_neutral plus_1_eq_Suc drop_drop)
  then have "drop (Suc k) ?bs = drop (Suc k) as" by (simp add: drop_update_cancel)
  moreover have "list_all2 same_shape ?bs as"
    using list_all2_update_cong [OF Suc.prems(2) shape [OF lt], of k] by simp
  ultimately have "fold (\<lambda>(i, a). f i a) (enumerate (Suc k) (drop (Suc k) (frame_offsets link wc ws as))) (sv_frame link wc ws ?bs) =
      sv_frame link wc ws (take (Suc k) ?bs @ map (\<lambda>i. g i (as ! i)) [Suc k..<length as])"
    using Suc.hyps(2) lt by (intro Suc.hyps(1)) simp_all
  moreover have "take (Suc k) ?bs = take k bs @ [g k (as ! k)]" using len lt by (simp add: update_take)
  moreover have "[k..<length as] = k # [Suc k..<length as]" using lt by (simp add: upt_conv_Cons)
  ultimately show ?case using step [OF len lt b, folded o] by (simp add: d)
qed

lemma patch_all:
  assumes "\<And>i. i < length as \<Longrightarrow> same_shape (g i (as ! i)) (as ! i)"
    and "\<And>bs i. length bs = length as \<Longrightarrow> i < length as \<Longrightarrow> bs ! i = as ! i \<Longrightarrow>
      f i (frame_offsets link wc ws bs ! i) (sv_frame link wc ws bs) = sv_frame link wc ws (bs[i := g i (as ! i)])"
  shows "fold (\<lambda>(i, a). f i a) (enumerate 0 (frame_offsets link wc ws as)) (sv_frame link wc ws as) =
    sv_frame link wc ws (map (\<lambda>i. g i (as ! i)) [0..<length as])"
proof -
  have a: "list_all2 same_shape as as" by (simp add: list_all2_same)
  have "fold (\<lambda>(i, a). f i a) (enumerate 0 (drop 0 (frame_offsets link wc ws as))) (sv_frame link wc ws as) =
      sv_frame link wc ws (take 0 as @ map (\<lambda>i. g i (as ! i)) [0..<length as])"
    by (rule patch_loop [OF _ _ _ a]) (rule assms | simp)+
  then show ?thesis by simp
qed

primrec count_from :: "u32 \<Rightarrow> u64 \<Rightarrow> nat \<Rightarrow> u64" where
  "count_from wrap c 0 = c"
| "count_from wrap c (Suc i) = count_from wrap ((c + 1) mod ucast wrap) i"

lemma write_counts_fold:
  "write_counts wrap at (count_from wrap c i) frame =
    fold (\<lambda>(i, a). \<lambda>frame. snd (write_unsigned (ao_smp_cnt a) (count_from wrap c i) frame)) (enumerate i at) frame"
proof (induction at arbitrary: i frame)
  case (Cons a at)
  have "(count_from wrap c i + 1) mod ucast wrap = count_from wrap c (Suc i)" for c
    by (induction i arbitrary: c) simp_all
  then show ?case using Cons [of "Suc i"] by simp
qed simp

lemma write_refr_tm_fold:
  "write_refr_tm t i at frame = fold (\<lambda>(i, a). \<lambda>frame. case ao_refr_tm a of
     None \<Rightarrow> frame | Some at \<Rightarrow> copy_into at (utc_to_octets (t i)) frame) (enumerate i at) frame"
  by (induction at arbitrary: i frame) simp_all

lemma fold_enumerate: "fold h at frame = fold (\<lambda>(i, a). h a) (enumerate i at) frame"
  by (induction at arbitrary: i frame) simp_all

lemma restore_fields_fold:
  "length held = length at \<Longrightarrow> restore_fields n held at frame =
    fold (\<lambda>(j, a). \<lambda>frame. let frame = snd (write_unsigned (ao_smp_cnt a) (fst (held ! (j - i))) frame)
       in if length (snd (held ! (j - i))) \<noteq> n then frame else copy_into (ao_sample a) (snd (held ! (j - i))) frame)
     (enumerate i at) frame"
proof (induction at arbitrary: held i frame)
  case (Cons a at)
  then obtain h held' where h: "held = h # held'" "length held' = length at" by (cases held) auto
  obtain c b where hb: "h = (c, b)" by (cases h)
  have e: "enumerate (Suc i) at = map (\<lambda>(j, a). (j, a)) (enumerate (Suc i) at)" by simp
  have "fold (\<lambda>(j, a). \<lambda>frame. let frame = snd (write_unsigned (ao_smp_cnt a) (fst (held ! (j - i))) frame)
       in if length (snd (held ! (j - i))) \<noteq> n then frame else copy_into (ao_sample a) (snd (held ! (j - i))) frame)
     (enumerate (Suc i) at) frame' =
    fold (\<lambda>(j, a). \<lambda>frame. let frame = snd (write_unsigned (ao_smp_cnt a) (fst (held' ! (j - Suc i))) frame)
       in if length (snd (held' ! (j - Suc i))) \<noteq> n then frame else copy_into (ao_sample a) (snd (held' ! (j - Suc i))) frame)
     (enumerate (Suc i) at) frame'" for frame'
    by (intro fold_cong refl) (auto simp: h(1) nth_Cons' in_set_enumerate_eq cong: if_cong)
  then show ?case using Cons.IH [OF h(2), where i = "Suc i"] by (simp add: h(1) hb Let_def)
qed simp

lemma write_synch_frame:
  assumes "length (fh_dst link) = 6" "length (fh_src link) = 6" "0 < ws" "ws \<le> 8"
    and "k \<le> length as" "\<forall>a \<in> set as. as_smp_synch a \<noteq> None"
  shows "write_synch (ucast (smp_synch_to_u8 s)) (drop k (frame_offsets link wc ws as)) (sv_frame link wc ws as) =
    (Inr (), sv_frame link wc ws (take k as @ map (\<lambda>a. a\<lparr> as_smp_synch := Some s \<rparr>) (drop k as)))"
  using assms(5,6)
proof (induction "length as - k" arbitrary: k as)
  case 0
  then show ?case by (simp add: frame_offsets_nth)
next
  case (Suc n)
  then have lt: "k < length as" by simp
  obtain s' where s': "as_smp_synch (as ! k) = Some s'" using Suc.prems lt by fastforce
  let ?as = "as[k := (as ! k)\<lparr> as_smp_synch := Some s \<rparr>]"
  have "list_all2 same_shape as ?as"
    by (rule same_shape_update) (simp add: same_shape_def s')
  then have o: "frame_offsets link wc ws ?as = frame_offsets link wc ws as" using frame_offsets_same by metis
  have d: "drop k (frame_offsets link wc ws as) = frame_offsets link wc ws as ! k # drop (Suc k) (frame_offsets link wc ws as)"
    using lt by (intro Cons_nth_drop_Suc [symmetric]) (simp add: frame_offsets_nth)
  obtain f where f: "ao_smp_synch (frame_offsets link wc ws as ! k) = Some f"
    "write_unsigned f (ucast (smp_synch_to_u8 s)) (sv_frame link wc ws as) = (Inr (), sv_frame link wc ws ?as)"
    by (rule patch_synch [OF lt assms(1-4) s', where s = s])
  have "\<forall>a \<in> set ?as. as_smp_synch a \<noteq> None" using Suc.prems(2) set_update_subset_insert by fastforce
  then have "write_synch (ucast (smp_synch_to_u8 s)) (drop (Suc k) (frame_offsets link wc ws ?as)) (sv_frame link wc ws ?as) =
    (Inr (), sv_frame link wc ws (take (Suc k) ?as @ map (\<lambda>a. a\<lparr> as_smp_synch := Some s \<rparr>) (drop (Suc k) ?as)))"
    using Suc.hyps(2) lt by (intro Suc.hyps(1)) simp_all
  moreover have "take (Suc k) ?as @ map (\<lambda>a. a\<lparr> as_smp_synch := Some s \<rparr>) (drop (Suc k) ?as) =
      take k as @ map (\<lambda>a. a\<lparr> as_smp_synch := Some s \<rparr>) (drop k as)"
    using lt by (simp add: update_take drop_update_cancel flip: Cons_nth_drop_Suc)
  ultimately show ?case by (simp add: d f sbind_def o)
qed

section \<open>The sample count\<close>

lemma unat_next_smp_cnt:
  assumes "unat c < unat wrap" "unat wrap \<le> 65536"
  shows "unat (next_smp_cnt wrap c) = (unat c + 1) mod unat wrap"
proof -
  have "unat (ucast c + 1 :: u32) = unat c + 1"
    using unat_lt_exp [of c] by (subst unat_plus_le) (simp_all add: unat_ucast_up)
  then have "unat ((ucast c + 1) mod wrap) = (unat c + 1) mod unat wrap" by (simp add: unat_mod)
  moreover have "(unat c + 1) mod unat wrap < 65536" using assms by (intro less_le_trans [OF mod_less_divisor]) simp_all
  ultimately show ?thesis by (simp add: next_smp_cnt_def unat_ucast_down)
qed

lemma unat_iterated_cnt:
  assumes "unat c < unat wrap" "unat wrap \<le> 65536"
  shows "unat ((next_smp_cnt wrap ^^ i) c) = (unat c + i) mod unat wrap"
proof (induction i)
  case (Suc i)
  have "unat ((next_smp_cnt wrap ^^ i) c) < unat wrap" using Suc assms by (simp add: mod_less_divisor)
  then show ?case using unat_next_smp_cnt [of "(next_smp_cnt wrap ^^ i) c" wrap] assms(2) Suc by (simp add: mod_Suc_eq)
qed (use assms in simp)

section \<open>Publishing\<close>

text \<open>The ASDUs of a frame after \<open>blocks\<close> have been written into it from the \<open>k\<close>-th on.\<close>

definition sampled :: "asdu \<Rightarrow> u16 \<Rightarrow> bytes \<Rightarrow> asdu" where
  "sampled a c block = a\<lparr> as_smp_cnt := c, as_sample := block \<rparr>"

lemma asdu_fits_cnt: "asdu_fits cfg ws a \<Longrightarrow> fits_width (cnt_width cfg) (ucast (as_smp_cnt a))"
  by (simp add: asdu_fits_def widths_ok_def)

lemma sampled_fits_width:
  assumes "asdu_fits cfg ws a" "fits_width (cnt_width cfg) (ucast c)" "length block = pf_sample_len (vc_profile cfg)"
  shows "asdu_fits cfg ws (sampled a c block)" "same_shape (sampled a c block) a"
proof -
  have t: "asdu_ok a" "widths_ok (cnt_width cfg) ws a" "same_shape a (template_asdu cfg SynchNone None None)"
    using assms(1) by (simp_all add: asdu_fits_def)
  have l: "length (as_sample a) = length block" using asdu_fits_template(1) [OF assms(1)] assms(3) by simp
  then show s: "same_shape (sampled a c block) a" by (simp add: sampled_def same_shape_def)
  have "asdu_ok (sampled a c block)" "widths_ok (cnt_width cfg) ws (sampled a c block)"
    using t(1,2) l assms(2) by (auto simp: asdu_ok_def widths_ok_def sampled_def)
  then show "asdu_fits cfg ws (sampled a c block)"
    using same_shape_trans [OF s t(3)] by (simp add: asdu_fits_def)
qed

lemma sampled_fits:
  assumes "asdu_fits cfg ws a" "unat c < cfg_wrap cfg" "length block = pf_sample_len (vc_profile cfg)"
  shows "asdu_fits cfg ws (sampled a c block)" "same_shape (sampled a c block) a"
  using sampled_fits_width [OF assms(1) cnt_width_fits [OF assms(2)] assms(3)] by simp_all

lemma patch_asdu_ok:
  assumes c: "carries p ws as" and i: "i < length as" and cnt: "unat (vp_smp_cnt p) < cfg_wrap (vp_cfg p)"
    and b: "length block = pf_sample_len (vc_profile (vp_cfg p))"
  obtains q where "patch_asdu i block p = (Inr (), q)" "carries q ws (as[i := sampled (as ! i) (vp_smp_cnt p) block])"
    "q = p\<lparr> vp_frame := vp_frame q, vp_smp_cnt := next_smp_cnt (profile_wrap (vc_profile (vp_cfg p))) (vp_smp_cnt p) \<rparr>"
proof -
  note d = carriesD [OF c]
  let ?l = "sv_link (vp_cfg p)" and ?wc = "cnt_width (vp_cfg p)" and ?a = "(as ! i)\<lparr> as_smp_cnt := vp_smp_cnt p \<rparr>"
  let ?bs = "as[i := ?a]"
  let ?q = "p\<lparr> vp_frame := sv_frame ?l ?wc ws (as[i := sampled (as ! i) (vp_smp_cnt p) block]),
    vp_smp_cnt := next_smp_cnt (profile_wrap (vc_profile (vp_cfg p))) (vp_smp_cnt p) \<rparr>"
  have o: "frame_offsets ?l ?wc ws ?bs = frame_offsets ?l ?wc ws as"
    by (rule frame_offsets_same [symmetric], rule same_shape_update) (simp add: same_shape_def)
  have g: "get_at (vp_at p) i = Some (frame_offsets ?l ?wc ws as ! i)" using i d(5) by (simp add: get_at_def frame_offsets_nth)
  have w: "write_unsigned (ao_smp_cnt (frame_offsets ?l ?wc ws as ! i)) (ucast (vp_smp_cnt p)) (vp_frame p) = (Inr (), sv_frame ?l ?wc ws ?bs)"
    using patch_smp_cnt [OF i d(6,7,9,10), of ws "vp_smp_cnt p"] d(4) by simp
  have len: "length block = length (as_sample (?bs ! i))"
    using i b asdu_fits_template(1) [OF d(8) [OF i]] by simp
  have i': "i < length ?bs" using i by simp
  have e: "?bs[i := (?bs ! i)\<lparr> as_sample := block \<rparr>] = as[i := sampled (as ! i) (vp_smp_cnt p) block]"
    using i by (simp add: sampled_def)
  note ps = patch_sample [OF i' d(6,7) len, of ?wc ws, unfolded o e]
  have "patch_asdu i block p = (Inr (), ?q)"
    unfolding patch_asdu_def g w option.case prod.case sum.case if_P [OF ps(2)] ps(1) ..
  moreover have "carries ?q ws (as[i := sampled (as ! i) (vp_smp_cnt p) block])"
    by (rule carries_update [OF c i sampled_fits(1) [OF d(8) [OF i] cnt b]]) simp_all
  ultimately show thesis using that [of ?q] by simp
qed

lemma patch_blocks:
  assumes "carries p ws as" "k + length blocks \<le> length as" "unat (vp_smp_cnt p) < cfg_wrap (vp_cfg p)"
    "\<forall>b \<in> set blocks. length b = pf_sample_len (vc_profile (vp_cfg p))"
  shows "\<exists>q. sfor (\<lambda>(i, block). patch_asdu i block) (enumerate k blocks) p = (Inr (), q) \<and>
    carries q ws (take k as @ map (\<lambda>j. sampled (as ! (k + j)) ((next_smp_cnt (profile_wrap (vc_profile (vp_cfg p))) ^^ j) (vp_smp_cnt p)) (blocks ! j))
      [0..<length blocks] @ drop (k + length blocks) as) \<and>
    q = p\<lparr> vp_frame := vp_frame q, vp_smp_cnt := (next_smp_cnt (profile_wrap (vc_profile (vp_cfg p))) ^^ length blocks) (vp_smp_cnt p) \<rparr>"
  using assms
proof (induction blocks arbitrary: k p as)
  case (Cons b blocks)
  let ?next = "next_smp_cnt (profile_wrap (vc_profile (vp_cfg p)))"
  have k: "k < length as" "length b = pf_sample_len (vc_profile (vp_cfg p))" using Cons.prems by auto
  obtain q where q: "patch_asdu k b p = (Inr (), q)" "carries q ws (as[k := sampled (as ! k) (vp_smp_cnt p) b])"
    "q = p\<lparr> vp_frame := vp_frame q, vp_smp_cnt := ?next (vp_smp_cnt p) \<rparr>"
    by (rule patch_asdu_ok [OF Cons.prems(1) k(1) Cons.prems(3) k(2)])
  let ?as = "as[k := sampled (as ! k) (vp_smp_cnt p) b]"
  have qs: "vp_cfg q = vp_cfg p" "vp_smp_cnt q = ?next (vp_smp_cnt p)" by (subst q(3), simp)+
  have "unat (?next (vp_smp_cnt p)) < cfg_wrap (vp_cfg p)"
    using unat_next_smp_cnt [OF Cons.prems(3) cfg_wrap_bounds(2)] cfg_wrap_bounds(1) [of "vp_cfg p"] by simp
  then obtain r where r: "sfor (\<lambda>(i, block). patch_asdu i block) (enumerate (Suc k) blocks) q = (Inr (), r)"
    "carries r ws (take (Suc k) ?as @ map (\<lambda>j. sampled (?as ! (Suc k + j)) ((?next ^^ j) (vp_smp_cnt q)) (blocks ! j))
      [0..<length blocks] @ drop (Suc k + length blocks) ?as)"
    "r = q\<lparr> vp_frame := vp_frame r, vp_smp_cnt := (?next ^^ length blocks) (vp_smp_cnt q) \<rparr>"
    using Cons.IH [OF q(2), of "Suc k"] Cons.prems(2,4) by (auto simp: qs)
  have "take (Suc k) ?as @ map (\<lambda>j. sampled (?as ! (Suc k + j)) ((?next ^^ j) (vp_smp_cnt q)) (blocks ! j)) [0..<length blocks] @
      drop (Suc k + length blocks) ?as =
    take k as @ map (\<lambda>j. sampled (as ! (k + j)) ((?next ^^ j) (vp_smp_cnt p)) ((b # blocks) ! j)) [0..<length (b # blocks)] @
      drop (k + length (b # blocks)) as"
    using k(1) Cons.prems(2) by (simp add: update_take upt_0_Suc qs funpow_swap1 drop_update_cancel comp_def del: upt_Suc)
  moreover have "r = p\<lparr> vp_frame := vp_frame r, vp_smp_cnt := (?next ^^ length (b # blocks)) (vp_smp_cnt p) \<rparr>"
    using r(3) q(3) by (cases p; cases q; cases r) (simp add: funpow_swap1)
  ultimately have "carries r ws (take k as @ map (\<lambda>j. sampled (as ! (k + j)) ((?next ^^ j) (vp_smp_cnt p)) ((b # blocks) ! j))
      [0..<length (b # blocks)] @ drop (k + length (b # blocks)) as)"
    "r = p\<lparr> vp_frame := vp_frame r, vp_smp_cnt := (?next ^^ length (b # blocks)) (vp_smp_cnt p) \<rparr>"
    using r(2) by metis+
  moreover have "sfor (\<lambda>(i, block). patch_asdu i block) (enumerate k (b # blocks)) p = (Inr (), r)"
    using q(1) r(1) by (simp add: sbind_def)
  ultimately show ?case by blast
qed simp

lemma publish_blocks:
  assumes "carries p ws as" "unat (vp_smp_cnt p) < cfg_wrap (vp_cfg p)"
    "length blocks = cfg_asdus (vp_cfg p)" "\<forall>b \<in> set blocks. length b = pf_sample_len (vc_profile (vp_cfg p))"
  defines "next \<equiv> next_smp_cnt (profile_wrap (vc_profile (vp_cfg p)))"
  obtains q where "sv_publish now blocks p = (Inr (), sv_queue now q)"
    "carries q ws (map (\<lambda>i. sampled (as ! i) ((next ^^ i) (vp_smp_cnt p)) (blocks ! i)) [0..<length as])"
    "q = p\<lparr> vp_frame := vp_frame q, vp_smp_cnt := (next ^^ length as) (vp_smp_cnt p) \<rparr>"
proof -
  have n: "length blocks = length as" using assms(3) carriesD(2) [OF assms(1)] by simp
  have l: "\<not> list_ex (\<lambda>b. length b \<noteq> pf_sample_len (vc_profile (vp_cfg p))) blocks" using assms(4) by (simp add: list_ex_iff)
  have "0 + length blocks \<le> length as" using n by simp
  from patch_blocks [OF assms(1) this assms(2,4)] obtain q where q:
    "sfor (\<lambda>(i, block). patch_asdu i block) (enumerate 0 blocks) p = (Inr (), q)"
    "carries q ws (take 0 as @ map (\<lambda>j. sampled (as ! (0 + j)) ((next ^^ j) (vp_smp_cnt p)) (blocks ! j)) [0..<length blocks] @ drop (0 + length blocks) as)"
    "q = p\<lparr> vp_frame := vp_frame q, vp_smp_cnt := (next ^^ length blocks) (vp_smp_cnt p) \<rparr>"
    unfolding next_def by blast
  have "sv_publish now blocks p = (Inr (), sv_queue now q)"
    using assms(3) l q(1) by (simp add: sv_publish_def sv_asdus_per_frame_def sbind_def)
  then show thesis using that q(2,3) n by simp
qed

text \<open>The single-block form writes the same block into every ASDU.\<close>

lemma publish_repeating_blocks:
  assumes "sv_asdus_per_frame p = n" "length block = pf_sample_len (vc_profile (vp_cfg p))"
  shows "sv_publish_repeating now block p = sv_publish now (replicate n block) p"
proof -
  have "sfor (\<lambda>(i, block). patch_asdu i block) (enumerate k (replicate m block)) = sfor (\<lambda>i. patch_asdu i block) [k..<k + m]" for k m
  proof (induction m arbitrary: k)
    case (Suc m)
    then show ?case by (simp add: upt_conv_Cons del: upt_Suc)
  qed simp
  from this [of 0 n] show ?thesis using assms by (simp add: sv_publish_def sv_publish_repeating_def list_ex_iff)
qed

lemma carries_queue [simp]: "carries (sv_queue now q) ws as = carries q ws as"
  by (simp add: carries_def sv_queue_def)

lemma sv_queue_fields [simp]:
  "vp_cfg (sv_queue now q) = vp_cfg q" "vp_frame (sv_queue now q) = vp_frame q" "vp_smp_cnt (sv_queue now q) = vp_smp_cnt q"
  "vp_smp_synch (sv_queue now q) = vp_smp_synch q" "vp_refr_tm (sv_queue now q) = vp_refr_tm q"
  "vp_gm_identity (sv_queue now q) = vp_gm_identity q" "vp_pending (sv_queue now q)"
  by (simp_all add: sv_queue_def)

section \<open>Fields of every ASDU\<close>

lemma refr_tm_frame:
  assumes "carries p ws as" "vc_refr_tm (vp_cfg p)"
  shows "vp_frame (set_refr_tm t p) = sv_frame (sv_link (vp_cfg p)) (cnt_width (vp_cfg p)) ws
    (map (\<lambda>i. (as ! i)\<lparr> as_refr_tm := Some (refr_tm_of p t i) \<rparr>) [0..<length as])"
proof -
  note d = carriesD [OF assms(1)]
  have s: "\<exists>t'. as_refr_tm (as ! i) = Some t'" if "i < length as" for i
    using asdu_fits_template(3) [OF d(8) [OF that]] assms(2) by simp
  have "vp_frame (set_refr_tm t p) = fold (\<lambda>(i, a). \<lambda>frame. case ao_refr_tm a of None \<Rightarrow> frame
      | Some at \<Rightarrow> copy_into at (utc_to_octets (refr_tm_of p t i)) frame) (enumerate 0 (vp_at p)) (vp_frame p)"
    by (simp add: set_refr_tm_def write_refr_tm_fold)
  also have "\<dots> = sv_frame (sv_link (vp_cfg p)) (cnt_width (vp_cfg p)) ws
      (map (\<lambda>i. (as ! i)\<lparr> as_refr_tm := Some (refr_tm_of p t i) \<rparr>) [0..<length as])"
    unfolding d(4,5)
  proof (rule patch_all)
    fix bs i
    assume b: "length bs = length as" "i < length as" "bs ! i = as ! i"
    then have i: "i < length bs" by simp
    obtain t' where t': "as_refr_tm (bs ! i) = Some t'" using s [OF b(2)] b(3) by auto
    show "(case ao_refr_tm (frame_offsets (sv_link (vp_cfg p)) (cnt_width (vp_cfg p)) ws bs ! i) of
        None \<Rightarrow> sv_frame (sv_link (vp_cfg p)) (cnt_width (vp_cfg p)) ws bs
      | Some at \<Rightarrow> copy_into at (utc_to_octets (refr_tm_of p t i)) (sv_frame (sv_link (vp_cfg p)) (cnt_width (vp_cfg p)) ws bs)) =
      sv_frame (sv_link (vp_cfg p)) (cnt_width (vp_cfg p)) ws (bs[i := (as ! i)\<lparr> as_refr_tm := Some (refr_tm_of p t i) \<rparr>])"
      by (rule patch_refr_tm [OF i d(6,7) t', where ws = ws and wc = "cnt_width (vp_cfg p)" and t = "refr_tm_of p t i"]) (simp add: b(3))
  qed (use s in \<open>auto simp: same_shape_def\<close>)
  finally show ?thesis .
qed

lemma gm_frame:
  assumes "carries p ws as" "vc_gm_identity (vp_cfg p)" "length gm = 8"
  shows "vp_frame (set_gm_identity gm p) = sv_frame (sv_link (vp_cfg p)) (cnt_width (vp_cfg p)) ws
    (map (\<lambda>i. (as ! i)\<lparr> as_gm_identity := Some gm \<rparr>) [0..<length as])"
proof -
  note d = carriesD [OF assms(1)]
  have s: "\<exists>g. as_gm_identity (as ! i) = Some g \<and> length g = 8" if "i < length as" for i
    using asdu_fits_template(4) [OF d(8) [OF that]] assms(2) by simp
  have "vp_frame (set_gm_identity gm p) = fold (\<lambda>(i, a). \<lambda>frame. case ao_gm_identity a of None \<Rightarrow> frame
      | Some at \<Rightarrow> copy_into at gm frame) (enumerate 0 (vp_at p)) (vp_frame p)"
    by (simp add: set_gm_identity_def) (rule fold_enumerate)
  also have "\<dots> = sv_frame (sv_link (vp_cfg p)) (cnt_width (vp_cfg p)) ws
      (map (\<lambda>i. (as ! i)\<lparr> as_gm_identity := Some gm \<rparr>) [0..<length as])"
    unfolding d(4,5)
  proof (rule patch_all)
    fix bs i
    assume b: "length bs = length as" "i < length as" "bs ! i = as ! i"
    then have i: "i < length bs" by simp
    obtain g where g: "as_gm_identity (bs ! i) = Some g" "length gm = length g" using s [OF b(2)] b(3) assms(3) by auto
    show "(case ao_gm_identity (frame_offsets (sv_link (vp_cfg p)) (cnt_width (vp_cfg p)) ws bs ! i) of
        None \<Rightarrow> sv_frame (sv_link (vp_cfg p)) (cnt_width (vp_cfg p)) ws bs
      | Some at \<Rightarrow> copy_into at gm (sv_frame (sv_link (vp_cfg p)) (cnt_width (vp_cfg p)) ws bs)) =
      sv_frame (sv_link (vp_cfg p)) (cnt_width (vp_cfg p)) ws (bs[i := (as ! i)\<lparr> as_gm_identity := Some gm \<rparr>])"
      by (rule patch_gm [OF i d(6,7) g, where ws = ws and wc = "cnt_width (vp_cfg p)"]) (simp add: b(3))
  qed (use s assms(3) in \<open>fastforce simp: same_shape_def\<close>)
  finally show ?thesis .
qed

text \<open>A configuration that leaves a field out has no patch point for it, so that setting it changes nothing.\<close>

lemma no_patch_points:
  assumes "carries p ws as"
  shows "\<not> vc_refr_tm (vp_cfg p) \<Longrightarrow> vp_frame (set_refr_tm t p) = vp_frame p"
    "\<not> vc_gm_identity (vp_cfg p) \<Longrightarrow> vp_frame (set_gm_identity gm p) = vp_frame p"
proof -
  note d = carriesD [OF assms]
  have r: "write_refr_tm f i at frame = frame" if "\<forall>a \<in> set at. ao_refr_tm a = None" for f i at frame
    using that by (induction at arbitrary: i) simp_all
  have g: "fold (\<lambda>a frame. case ao_gm_identity a of None \<Rightarrow> frame | Some at \<Rightarrow> copy_into at gm frame) at frame = frame"
    if "\<forall>a \<in> set at. ao_gm_identity a = None" for at frame
    using that by (induction at) simp_all
  show "vp_frame (set_refr_tm t p) = vp_frame p" if n: "\<not> vc_refr_tm (vp_cfg p)"
  proof -
    have "\<forall>a \<in> set (vp_at p). ao_refr_tm a = None"
      using asdu_fits_template(3) [OF d(8)] n by (auto simp: d(5) frame_offsets_def asdu_at_def Let_def)
    then show ?thesis by (simp add: set_refr_tm_def r)
  qed
  show "vp_frame (set_gm_identity gm p) = vp_frame p" if n: "\<not> vc_gm_identity (vp_cfg p)"
  proof -
    have "as_gm_identity (as ! i) = None" if "i < length as" for i
      using d(8) [OF that] n by (simp add: asdu_fits_def same_shape_def template_asdu_def)
    then have "\<forall>a \<in> set (vp_at p). ao_gm_identity a = None" by (auto simp: d(5) frame_offsets_def asdu_at_def Let_def)
    then show ?thesis by (simp add: set_gm_identity_def g)
  qed
qed

section \<open>The rebuild\<close>

lemma held_fields_frame:
  assumes "carries p ws as"
  shows "held_fields p = map (\<lambda>a. (ucast (as_smp_cnt a), as_sample a)) as"
proof -
  note d = carriesD [OF assms]
  let ?l = "sv_link (vp_cfg p)" and ?wc = "cnt_width (vp_cfg p)"
  have "held_fields p = map (\<lambda>i. (ucast (as_smp_cnt (as ! i)), as_sample (as ! i))) [0..<length as]"
  proof (rule nth_equalityI)
    fix i
    assume "i < length (held_fields p)"
    then have i: "i < length as" by (simp add: held_fields_def d(5) frame_offsets_nth)
    have w: "fits_width ?wc (ucast (as_smp_cnt (as ! i)))" using d(8) [OF i] by (simp add: asdu_fits_def widths_ok_def)
    have v: "from_be (to_be ?wc (ucast (as_smp_cnt (as ! i)) :: u64)) = (ucast (as_smp_cnt (as ! i)) :: u64)"
      using w unfolding fits_width_def by (simp add: fixed_value)
    have n: "length (as_sample (as ! i)) = pf_sample_len (vc_profile (vp_cfg p))" by (rule asdu_fits_template(1) [OF d(8) [OF i]])
    have "read_unsigned (vp_frame p) (ao_smp_cnt (frame_offsets ?l ?wc ws as ! i)) = ucast (as_smp_cnt (as ! i))"
      using read_frame [OF i d(6,7) asdu_contents_of(1), of ?wc ws] v
      by (simp add: read_unsigned_def frame_offsets_nth(1) [OF i] asdu_at_def Let_def d(4))
    moreover have "slice (vp_frame p) (ao_sample (frame_offsets ?l ?wc ws as ! i))
        (ao_sample (frame_offsets ?l ?wc ws as ! i) + pf_sample_len (vc_profile (vp_cfg p))) = Some (as_sample (as ! i))"
      using read_frame [OF i d(6,7) asdu_contents_of(4), of ?wc ws]
      by (simp add: frame_offsets_nth(1) [OF i] asdu_at_def Let_def d(4) n)
    ultimately show "held_fields p ! i = map (\<lambda>i. (ucast (as_smp_cnt (as ! i)), as_sample (as ! i))) [0..<length as] ! i"
      using i by (simp add: held_fields_def d(5) frame_offsets_nth)
  qed (simp add: held_fields_def d(5) frame_offsets_nth)
  also have "\<dots> = map (\<lambda>a. (ucast (as_smp_cnt a), as_sample a)) as" by (rule nth_equalityI) simp_all
  finally show ?thesis .
qed

text \<open>The settings a publisher keeps beside the frame.\<close>

definition settings_ok :: "sv_publisher \<Rightarrow> bool" where
  "settings_ok p \<longleftrightarrow> unat (vp_smp_cnt p) < cfg_wrap (vp_cfg p) \<and> synch_wf (vp_smp_synch p) \<and>
     (\<forall>t. vp_refr_tm p = Some t \<longrightarrow> utc_wf t) \<and> (\<forall>g. vp_gm_identity p = Some g \<longrightarrow> length g = 8)"

text \<open>What a rebuild makes of an ASDU: the template for the current settings, with the count and the sample it had.\<close>

definition rebuilt :: "sv_publisher \<Rightarrow> asdu \<Rightarrow> asdu" where
  "rebuilt p a = sampled (template_asdu (vp_cfg p) (vp_smp_synch p) (vp_refr_tm p) (vp_gm_identity p)) (as_smp_cnt a) (as_sample a)"

lemma rebuild_frame:
  assumes "carries p ws as" "settings_ok p"
  defines "ws' \<equiv> synch_width (vp_smp_synch p)"
  obtains q where "rebuild p = (Inr (), q)" "carries q ws' (map (rebuilt p) as)"
    "q = p\<lparr> vp_frame := vp_frame q, vp_at := vp_at q \<rparr>"
proof -
  note d = carriesD [OF assms(1)]
  let ?l = "sv_link (vp_cfg p)" and ?wc = "cnt_width (vp_cfg p)" and ?n = "pf_sample_len (vc_profile (vp_cfg p))"
  let ?t = "template_asdu (vp_cfg p) (vp_smp_synch p) (vp_refr_tm p) (vp_gm_identity p)"
  let ?ts = "replicate (length as) ?t" and ?held = "map (\<lambda>a. (ucast (as_smp_cnt a) :: u64, as_sample a)) as"
  let ?g = "\<lambda>i (_ :: asdu). rebuilt p (as ! i)"
  have s: "synch_wf (vp_smp_synch p)" "\<forall>t. vp_refr_tm p = Some t \<longrightarrow> utc_wf t" "\<forall>g. vp_gm_identity p = Some g \<longrightarrow> length g = 8"
    using assms(2) by (simp_all add: settings_ok_def)
  note t = template_fits [OF d(1) s]
  have len: "length (as_sample (as ! i)) = ?n" if "i < length as" for i
    by (rule asdu_fits_template(1) [OF d(8) [OF that]])
  have f: "asdu_fits (vp_cfg p) ws' (rebuilt p (as ! i))" "same_shape (rebuilt p (as ! i)) ?t" if "i < length as" for i
    using sampled_fits_width [OF t asdu_fits_cnt [OF d(8) [OF that]] len [OF that]] by (simp_all add: rebuilt_def ws'_def)
  have b: "build_template (vp_cfg p) (vp_smp_synch p) (vp_refr_tm p) (vp_gm_identity p) =
      Inr (sv_frame ?l ?wc ws' ?ts, frame_offsets ?l ?wc ws' ?ts)"
    using build_template_ok [OF d(1) s] d(2) by (simp add: ws'_def)
  have "restore_fields ?n ?held (frame_offsets ?l ?wc ws' ?ts) (sv_frame ?l ?wc ws' ?ts) =
      fold (\<lambda>(j, a). \<lambda>frame. let frame = snd (write_unsigned (ao_smp_cnt a) (fst (?held ! (j - 0))) frame)
       in if length (snd (?held ! (j - 0))) \<noteq> ?n then frame else copy_into (ao_sample a) (snd (?held ! (j - 0))) frame)
     (enumerate 0 (frame_offsets ?l ?wc ws' ?ts)) (sv_frame ?l ?wc ws' ?ts)"
    by (rule restore_fields_fold) (simp add: frame_offsets_nth)
  also have "\<dots> = sv_frame ?l ?wc ws' (map (\<lambda>i. ?g i (?ts ! i)) [0..<length ?ts])"
  proof (rule patch_all)
    fix bs i
    assume bs: "length bs = length ?ts" "i < length ?ts" "bs ! i = ?ts ! i"
    then have i: "i < length bs" "i < length as" and bi: "bs ! i = ?t" by simp_all
    let ?bs = "bs[i := (bs ! i)\<lparr> as_smp_cnt := as_smp_cnt (as ! i) \<rparr>]"
    have w: "snd (write_unsigned (ao_smp_cnt (frame_offsets ?l ?wc ws' bs ! i)) (ucast (as_smp_cnt (as ! i))) (sv_frame ?l ?wc ws' bs)) =
        sv_frame ?l ?wc ws' ?bs"
      by (simp add: patch_smp_cnt [OF i(1) d(6,7,9,10)])
    have i': "i < length ?bs" using i by simp
    have l: "length (as_sample (as ! i)) = length (as_sample (?bs ! i))" using i(1) len [OF i(2)] by (simp add: bi template_asdu_def)
    have o: "frame_offsets ?l ?wc ws' ?bs = frame_offsets ?l ?wc ws' bs"
      by (rule frame_offsets_same [symmetric], rule same_shape_update) (simp add: same_shape_def)
    have e: "?bs[i := (?bs ! i)\<lparr> as_sample := as_sample (as ! i) \<rparr>] = bs[i := rebuilt p (as ! i)]"
      using i by (simp add: bi rebuilt_def sampled_def)
    note ps = patch_sample [OF i' d(6,7) l, of ?wc ws', unfolded o e]
    show "(let frame = snd (write_unsigned (ao_smp_cnt (frame_offsets ?l ?wc ws' bs ! i)) (fst (?held ! (i - 0))) (sv_frame ?l ?wc ws' bs))
       in if length (snd (?held ! (i - 0))) \<noteq> ?n then frame
          else copy_into (ao_sample (frame_offsets ?l ?wc ws' bs ! i)) (snd (?held ! (i - 0))) frame) =
      sv_frame ?l ?wc ws' (bs[i := rebuilt p (as ! i)])"
      using ps len [OF i(2)] by (simp add: i(2) w copy_into_def)
  qed (use f(2) in simp)
  also have "map (\<lambda>i. ?g i (?ts ! i)) [0..<length ?ts] = map (rebuilt p) as" by (rule nth_equalityI) simp_all
  finally have r: "restore_fields ?n ?held (frame_offsets ?l ?wc ws' ?ts) (sv_frame ?l ?wc ws' ?ts) = sv_frame ?l ?wc ws' (map (rebuilt p) as)" .
  let ?q = "p\<lparr> vp_frame := sv_frame ?l ?wc ws' (map (rebuilt p) as), vp_at := frame_offsets ?l ?wc ws' ?ts \<rparr>"
  have o: "frame_offsets ?l ?wc ws' (map (rebuilt p) as) = frame_offsets ?l ?wc ws' ?ts"
    by (rule frame_offsets_same) (simp add: list_all2_conv_all_nth f(2))
  have "rebuild p = (Inr (), ?q)" by (simp add: rebuild_def held_fields_frame [OF assms(1)] b r)
  moreover have "carries ?q ws' (map (rebuilt p) as)"
    using d(1,2) f(1) by (simp add: carries_def Let_def o list_all_length)
  ultimately show thesis using that [of ?q] by simp
qed

text \<open>Setting \<open>smpSynch\<close> rewrites one octet per ASDU, or rebuilds the template when the field has to grow.\<close>

lemma set_smp_synch_frame:
  assumes c: "carries p ws as" and s: "settings_ok p" "synch_wf synch"
  defines "p' \<equiv> p\<lparr> vp_smp_synch := synch \<rparr>"
  obtains q ws' where "set_smp_synch synch p = (Inr (), q)"
    "carries q ws' (if synch_width synch \<le> ws then map (\<lambda>a. a\<lparr> as_smp_synch := Some synch \<rparr>) as else map (rebuilt p') as)"
    "q = p'\<lparr> vp_frame := vp_frame q, vp_at := vp_at q \<rparr>"
proof -
  note d = carriesD [OF c]
  let ?l = "sv_link (vp_cfg p)" and ?wc = "cnt_width (vp_cfg p)" and ?v = "ucast (smp_synch_to_u8 synch) :: u64"
  have c': "carries p' ws as" "settings_ok p'" using c s by (simp_all add: p'_def carries_def settings_ok_def)
  have sy: "\<exists>s'. as_smp_synch (as ! i) = Some s' \<and> fits_width ws (ucast (smp_synch_to_u8 s'))" if "i < length as" for i
    by (rule asdu_fits_template(2) [OF d(8) [OF that]])
  have n: "0 < length as" using d(1,2) by (simp add: sv_cfg_ok_def unat_gt_0)
  have ws: "0 < ws" "ws \<le> 8" using sy [OF n] by (auto simp: fits_width_def)
  have f: "\<exists>f. ao_smp_synch (vp_at p ! i) = Some f \<and> fld_len f = ws" if i: "i < length as" for i
  proof -
    obtain s' where "as_smp_synch (as ! i) = Some s'" using sy [OF i] by auto
    then show ?thesis by (simp add: d(5) frame_offsets_nth(1) [OF i] asdu_at_def Let_def)
  qed
  have la: "list_all (\<lambda>a. case ao_smp_synch a of None \<Rightarrow> True | Some f \<Rightarrow> fld_len f \<ge> m) (vp_at p) \<longleftrightarrow> m \<le> ws" for m
    using f n by (fastforce simp: list_all_length d(5) frame_offsets_nth(2))
  show thesis
  proof (cases "synch_width synch \<le> ws")
    case True
    let ?as = "map (\<lambda>a. a\<lparr> as_smp_synch := Some synch \<rparr>) as"
    let ?q = "p'\<lparr> vp_frame := sv_frame ?l ?wc ws ?as \<rparr>"
    have "\<forall>a \<in> set as. as_smp_synch a \<noteq> None" using sy by (fastforce simp: in_set_conv_nth)
    from write_synch_frame [OF d(6,7) ws le0 this, of synch ?wc]
    have "write_synch ?v (vp_at p) (vp_frame p) = (Inr (), sv_frame ?l ?wc ws ?as)" by (simp add: d(4,5))
    then have r: "set_smp_synch synch p = (Inr (), ?q)"
      using True la by (simp add: set_smp_synch_def Let_def synch_width_def p'_def)
    have w: "fits_width ws ?v" using synch_width_fits [of synch] True ws le_less_trans less_le_trans
      by (auto simp: fits_width_unat intro: less_le_trans [OF _ power_increasing])
    have sh: "same_shape ((as ! i)\<lparr> as_smp_synch := Some synch \<rparr>) (as ! i)" if "i < length as" for i
      using sy [OF that] by (auto simp: same_shape_def)
    have "asdu_fits (vp_cfg p) ws ((as ! i)\<lparr> as_smp_synch := Some synch \<rparr>)" if "i < length as" for i
      using d(8) [OF that] w s(2) same_shape_trans [OF sh [OF that]] by (auto simp: asdu_fits_def asdu_ok_def widths_ok_def)
    moreover have "frame_offsets ?l ?wc ws ?as = frame_offsets ?l ?wc ws as"
      by (rule frame_offsets_same) (simp add: list_all2_conv_all_nth sh)
    ultimately have "carries ?q ws ?as" using d(1,2,5) by (simp add: carries_def p'_def Let_def list_all_length)
    then show thesis using that [OF r, of ws] True by simp
  next
    case False
    obtain q where q: "rebuild p' = (Inr (), q)" "carries q (synch_width (vp_smp_synch p')) (map (rebuilt p') as)"
      "q = p'\<lparr> vp_frame := vp_frame q, vp_at := vp_at q \<rparr>" by (rule rebuild_frame [OF c'])
    have "set_smp_synch synch p = (Inr (), q)"
      using q(1) False la by (simp add: set_smp_synch_def Let_def synch_width_def p'_def)
    then show thesis using that q(2,3) False by auto
  qed
qed

section \<open>What a receiver reads\<close>

text \<open>The ASDUs of a received frame: the link layer, the PDU, every ASDU, with the decoder's own views.\<close>

fun all_ok :: "'a result list \<Rightarrow> 'a list result" where
  "all_ok [] = Inr []"
| "all_ok (x # xs) = rbind x (\<lambda>y. rbind (all_ok xs) (\<lambda>ys. Inr (y # ys)))"

definition received_asdus :: "limits \<Rightarrow> bytes \<Rightarrow> asdu list result" where
  "received_asdus l frame = rbind (frame_parse frame) (\<lambda>f. rbind (savpdu_parse (fr_apdu f) l) (\<lambda>pdu.
     rbind (all_ok (savpdu_asdus pdu)) (\<lambda>vs. Inr (map asdu_of_view vs))))"

lemma all_ok_Inr [simp]: "all_ok (map Inr xs) = Inr xs"
  by (induction xs) simp_all

lemma savpdu_ok_limits: "savpdu_ok l xs \<Longrightarrow> length xs \<le> max_asdus l' \<Longrightarrow> savpdu_ok l' xs"
  by (simp add: savpdu_ok_def)

lemma carries_parses:
  assumes "carries p ws as" "length as \<le> max_asdus l"
  defines "xs \<equiv> sized (cnt_width (vp_cfg p)) ws as"
  shows "frame_parse (vp_frame p @ pad) = Inr (frame_of (sv_link (vp_cfg p)) (savpdu_octets xs))"
    "\<exists>v. savpdu_parse (savpdu_octets xs) l = Inr v \<and> savpdu_asdus v = map Inr (asdu_views (asdus_base xs) xs)"
proof -
  note d = carriesD [OF assms(1)]
  note f = asdus_fit [OF d(1,2,3)]
  have "header_wf (sv_link (vp_cfg p))" using d(1) by (simp add: sv_cfg_ok_def sv_link_wf)
  from parse_header_octets [OF this, of "savpdu_octets xs" pad]
  show "frame_parse (vp_frame p @ pad) = Inr (frame_of (sv_link (vp_cfg p)) (savpdu_octets xs))"
    using f(2) d(4) by (simp add: xs_def sv_frame_def)
  show "\<exists>v. savpdu_parse (savpdu_octets xs) l = Inr v \<and> savpdu_asdus v = map Inr (asdu_views (asdus_base xs) xs)"
    using savpdu_parse_octets [OF savpdu_ok_limits [OF f(1)], of l "[]"] assms(2) by (auto simp: xs_def)
qed

lemma carries_received:
  assumes "carries p ws as" "length as \<le> max_asdus l"
  shows "received_asdus l (vp_frame p @ pad) = Inr as"
proof -
  have "map asdu_of_view (asdu_views base (sized wc ws as)) = as" for base wc by (simp add: sized_def comp_def)
  then show ?thesis
    using carries_parses [OF assms] by (auto simp: received_asdus_def frame_of_def)
qed

section \<open>The invariant\<close>

text \<open>
  A publisher is consistent when its frame carries as many ASDUs as configured, every one of the configured
  shape, with the current \<open>smpSynch\<close> and grandmaster and a count below the wrap.
\<close>

definition sv_shows :: "sv_publisher \<Rightarrow> usize \<Rightarrow> asdu list \<Rightarrow> bool" where
  "sv_shows p ws as \<longleftrightarrow> carries p ws as \<and> settings_ok p \<and>
     (\<forall>a \<in> set as. unat (as_smp_cnt a) < cfg_wrap (vp_cfg p) \<and> as_smp_synch a = Some (vp_smp_synch p) \<and>
       (vc_gm_identity (vp_cfg p) \<longrightarrow> as_gm_identity a = Some (case vp_gm_identity p of Some g \<Rightarrow> g | None \<Rightarrow> replicate 8 0)))"

definition sv_inv :: "sv_publisher \<Rightarrow> bool" where
  "sv_inv p \<longleftrightarrow> (\<exists>ws as. sv_shows p ws as)"

lemma next_cnt_u64:
  assumes "unat c < unat wrap" "unat wrap \<le> 65536"
  shows "(ucast (next_smp_cnt wrap c) :: u64) = (ucast c + 1) mod ucast wrap"
proof -
  have u: "unat (ucast wrap :: u64) = unat wrap" "unat (ucast c :: u64) = unat c" "unat (ucast (next_smp_cnt wrap c) :: u64) = unat (next_smp_cnt wrap c)"
    by (simp_all add: unat_ucast_up)
  have "unat (ucast c + 1 :: u64) = unat c + 1"
    using unat_lt_exp [of c] by (subst unat_plus_le) (simp_all add: u)
  then show ?thesis
    using unat_next_smp_cnt [OF assms] by (simp add: word_unat_eq_iff unat_mod u)
qed

lemma count_from_iterated:
  assumes "unat c < unat wrap" "unat wrap \<le> 65536"
  shows "count_from wrap (ucast c) i = ucast ((next_smp_cnt wrap ^^ i) c)"
  using assms(1)
proof (induction i arbitrary: c)
  case (Suc i)
  have "unat (next_smp_cnt wrap c) < unat wrap"
    using unat_next_smp_cnt [OF Suc.prems assms(2)] Suc.prems by (simp add: mod_less_divisor)
  then have "count_from wrap (ucast (next_smp_cnt wrap c)) i = ucast ((next_smp_cnt wrap ^^ i) (next_smp_cnt wrap c))" by (rule Suc.IH)
  then show ?case
    using next_cnt_u64 [OF Suc.prems assms(2)] by (simp add: funpow_swap1)
qed simp

text \<open>A fresh publisher: the counts of the template run from zero.\<close>

lemma sv_pub_new_shows:
  assumes "sv_cfg_ok cfg"
  obtains p where "sv_pub_new cfg = Inr p" "vp_cfg p = cfg" "vp_smp_cnt p = 0" "vp_smp_synch p = SynchNone" "\<not> vp_pending p"
    "vp_refr_tm p = None" "vp_gm_identity p = None"
    "sv_shows p (synch_width SynchNone) (map (\<lambda>i. (template_asdu cfg SynchNone None None)\<lparr>
       as_smp_cnt := (next_smp_cnt (profile_wrap (vc_profile cfg)) ^^ i) 0 \<rparr>) [0..<cfg_asdus cfg])"
proof -
  let ?t = "template_asdu cfg SynchNone None None" and ?w = "profile_wrap (vc_profile cfg)" and ?ws = "synch_width SynchNone"
  let ?l = "sv_link cfg" and ?wc = "cnt_width cfg" and ?ts = "replicate (cfg_asdus cfg) ?t"
  let ?g = "\<lambda>i (a :: asdu). a\<lparr> as_smp_cnt := (next_smp_cnt ?w ^^ i) 0 \<rparr>"
  let ?as = "map (\<lambda>i. ?t\<lparr> as_smp_cnt := (next_smp_cnt ?w ^^ i) 0 \<rparr>) [0..<cfg_asdus cfg]"
  let ?p = "\<lparr> vp_cfg = cfg, vp_frame = sv_frame ?l ?wc ?ws ?as, vp_at = frame_offsets ?l ?wc ?ws ?ts, vp_smp_cnt = 0,
     vp_smp_synch = SynchNone, vp_refr_tm = None, vp_gm_identity = None, vp_pending = False, vp_next_send = Some 0, vp_dropped = 0 \<rparr>"
  have macs: "length (fh_dst ?l) = 6" "length (fh_src ?l) = 6" using sv_link_macs [OF assms] by simp_all
  have wc: "0 < ?wc" "?wc \<le> 8" using cnt_width_fits [of 0 cfg] cfg_wrap_bounds(1) [of cfg] by (simp_all add: fits_width_def)
  have b: "build_template cfg SynchNone None None = Inr (sv_frame ?l ?wc ?ws ?ts, frame_offsets ?l ?wc ?ws ?ts)"
    using build_template_ok [OF assms, of SynchNone None None] by simp
  have cf: "count_from ?w 0 i = ucast ((next_smp_cnt ?w ^^ i) 0)" for i
    using count_from_iterated [of 0 ?w i] cfg_wrap_bounds [of cfg] by simp
  have cl: "unat ((next_smp_cnt ?w ^^ i) 0) < cfg_wrap cfg" for i
    using unat_iterated_cnt [of 0 ?w i] cfg_wrap_bounds [of cfg] by simp
  have "write_counts ?w (frame_offsets ?l ?wc ?ws ?ts) 0 (sv_frame ?l ?wc ?ws ?ts) =
      fold (\<lambda>(i, a). \<lambda>frame. snd (write_unsigned (ao_smp_cnt a) (count_from ?w 0 i) frame))
        (enumerate 0 (frame_offsets ?l ?wc ?ws ?ts)) (sv_frame ?l ?wc ?ws ?ts)"
    using write_counts_fold [of ?w _ 0 0] by simp
  also have "\<dots> = sv_frame ?l ?wc ?ws (map (\<lambda>i. ?g i (?ts ! i)) [0..<length ?ts])"
  proof (rule patch_all)
    fix bs i
    assume "length bs = length ?ts" "i < length ?ts" "bs ! i = ?ts ! i"
    then have i: "i < length bs" "bs ! i = ?ts ! i" by simp_all
    show "snd (write_unsigned (ao_smp_cnt (frame_offsets ?l ?wc ?ws bs ! i)) (count_from ?w 0 i) (sv_frame ?l ?wc ?ws bs)) =
      sv_frame ?l ?wc ?ws (bs[i := ?g i (?ts ! i)])"
      by (simp add: cf patch_smp_cnt [OF i(1) macs wc] flip: i(2))
  qed (simp add: same_shape_def)
  also have "map (\<lambda>i. ?g i (?ts ! i)) [0..<length ?ts] = ?as" by simp
  finally have w: "write_counts ?w (frame_offsets ?l ?wc ?ws ?ts) 0 (sv_frame ?l ?wc ?ws ?ts) = sv_frame ?l ?wc ?ws ?as" .
  have "sv_pub_new cfg = Inr ?p"
    using assms b w by (auto simp: sv_pub_new_def sv_cfg_ok_def write_smp_cnt_fields_def split: option.split)
  moreover have "sv_shows ?p ?ws ?as"
  proof -
    note t = template_fits [OF assms, of SynchNone None None, simplified]
    have f: "asdu_fits cfg ?ws (?t\<lparr> as_smp_cnt := (next_smp_cnt ?w ^^ i) 0 \<rparr>)" "same_shape (?t\<lparr> as_smp_cnt := (next_smp_cnt ?w ^^ i) 0 \<rparr>) ?t" for i
      using sampled_fits [OF t cl [of i], of "as_sample ?t"] by (simp_all add: sampled_def template_asdu_def)
    have "frame_offsets ?l ?wc ?ws ?as = frame_offsets ?l ?wc ?ws ?ts"
      by (rule frame_offsets_same) (simp add: list_all2_conv_all_nth f(2))
    then have "carries ?p ?ws ?as" using assms f(1) by (simp add: carries_def Let_def list_all_length)
    moreover have "settings_ok ?p" using cfg_wrap_bounds(1) [of cfg] by (simp add: settings_ok_def)
    ultimately show ?thesis using cl by (simp add: sv_shows_def template_asdu_def)
  qed
  ultimately show thesis using that [of ?p] by simp
qed

lemma sv_showsD:
  assumes "sv_shows p ws as"
  shows "carries p ws as" "settings_ok p" "unat (vp_smp_cnt p) < cfg_wrap (vp_cfg p)"
    "a \<in> set as \<Longrightarrow> unat (as_smp_cnt a) < cfg_wrap (vp_cfg p)" "a \<in> set as \<Longrightarrow> as_smp_synch a = Some (vp_smp_synch p)"
    "a \<in> set as \<Longrightarrow> vc_gm_identity (vp_cfg p) \<Longrightarrow>
      as_gm_identity a = Some (case vp_gm_identity p of Some g \<Rightarrow> g | None \<Rightarrow> replicate 8 0)"
  using assms by (auto simp: sv_shows_def settings_ok_def)

text \<open>Publishing: the blocks and the consecutive counts, everything else as it was.\<close>

lemma publish_shows:
  assumes s: "sv_shows p ws as" and b: "length blocks = cfg_asdus (vp_cfg p)"
    "\<forall>b \<in> set blocks. length b = pf_sample_len (vc_profile (vp_cfg p))"
  defines "next \<equiv> next_smp_cnt (profile_wrap (vc_profile (vp_cfg p)))"
  obtains q where "sv_publish now blocks p = (Inr (), q)"
    "sv_shows q ws (map (\<lambda>i. sampled (as ! i) ((next ^^ i) (vp_smp_cnt p)) (blocks ! i)) [0..<length as])"
    "q = sv_queue now (p\<lparr> vp_frame := vp_frame q, vp_smp_cnt := (next ^^ length as) (vp_smp_cnt p) \<rparr>)"
proof -
  note d = sv_showsD [OF s]
  obtain q where q: "sv_publish now blocks p = (Inr (), sv_queue now q)"
    "carries q ws (map (\<lambda>i. sampled (as ! i) ((next ^^ i) (vp_smp_cnt p)) (blocks ! i)) [0..<length as])"
    "q = p\<lparr> vp_frame := vp_frame q, vp_smp_cnt := (next ^^ length as) (vp_smp_cnt p) \<rparr>"
    using publish_blocks [OF d(1,3) b, of now] unfolding next_def by blast
  have cl: "unat ((next ^^ i) (vp_smp_cnt p)) < cfg_wrap (vp_cfg p)" for i
    unfolding next_def using unat_iterated_cnt [OF d(3) cfg_wrap_bounds(2), of i] cfg_wrap_bounds(1) [of "vp_cfg p"] by simp
  have qs: "vp_cfg q = vp_cfg p" "vp_smp_cnt q = (next ^^ length as) (vp_smp_cnt p)" "vp_smp_synch q = vp_smp_synch p"
    "vp_refr_tm q = vp_refr_tm p" "vp_gm_identity q = vp_gm_identity p"
    by (subst q(3), simp)+
  have "sv_shows (sv_queue now q) ws (map (\<lambda>i. sampled (as ! i) ((next ^^ i) (vp_smp_cnt p)) (blocks ! i)) [0..<length as])"
    unfolding sv_shows_def carries_queue settings_ok_def sv_queue_fields qs
    using q(2) d(2) cl d(4-6) nth_mem by (auto simp: settings_ok_def sampled_def)
  moreover have "sv_queue now q = sv_queue now (p\<lparr> vp_frame := vp_frame (sv_queue now q), vp_smp_cnt := (next ^^ length as) (vp_smp_cnt p) \<rparr>)"
    by (subst q(3)) (simp add: sv_queue_def)
  ultimately show thesis using that q(1) by blast
qed

lemma publish_refused:
  assumes "\<not> (length blocks = cfg_asdus (vp_cfg p) \<and> (\<forall>b \<in> set blocks. length b = pf_sample_len (vc_profile (vp_cfg p))))"
  shows "\<exists>e. sv_publish now blocks p = (Inl e, p)"
  using assms by (auto simp: sv_publish_def sv_asdus_per_frame_def list_ex_iff)

lemma publish_inv: "sv_inv p \<Longrightarrow> sv_inv (snd (sv_publish now blocks p)) \<and> vp_cfg (snd (sv_publish now blocks p)) = vp_cfg p"
proof (cases "length blocks = cfg_asdus (vp_cfg p) \<and> (\<forall>b \<in> set blocks. length b = pf_sample_len (vc_profile (vp_cfg p)))")
  case True
  assume "sv_inv p"
  then obtain ws as where s: "sv_shows p ws as" by (auto simp: sv_inv_def)
  obtain q where q: "sv_publish now blocks p = (Inr (), q)"
    "sv_shows q ws (map (\<lambda>i. sampled (as ! i) ((next_smp_cnt (profile_wrap (vc_profile (vp_cfg p))) ^^ i) (vp_smp_cnt p)) (blocks ! i)) [0..<length as])"
    "q = sv_queue now (p\<lparr> vp_frame := vp_frame q, vp_smp_cnt := (next_smp_cnt (profile_wrap (vc_profile (vp_cfg p))) ^^ length as) (vp_smp_cnt p) \<rparr>)"
    using publish_shows [OF s, of blocks now] True by blast
  have "vp_cfg q = vp_cfg p" by (subst q(3)) (simp add: sv_queue_def)
  then show ?thesis using q(1,2) by (auto simp: sv_inv_def)
next
  case False
  assume "sv_inv p"
  then show ?thesis using publish_refused [OF False, of now] by auto
qed

lemma repeating_inv:
  assumes "sv_inv p"
  shows "sv_inv (snd (sv_publish_repeating now block p)) \<and> vp_cfg (snd (sv_publish_repeating now block p)) = vp_cfg p"
proof (cases "length block = pf_sample_len (vc_profile (vp_cfg p))")
  case True
  then show ?thesis using publish_repeating_blocks [OF refl True] publish_inv [OF assms] by metis
qed (use assms in \<open>simp add: sv_publish_repeating_def\<close>)

text \<open>Setting \<open>smpSynch\<close>: counts and samples stay, on either path.\<close>

lemma set_synch_shows:
  assumes s: "sv_shows p ws as" and w: "synch_wf synch"
  obtains q ws' as' where "set_smp_synch synch p = (Inr (), q)" "sv_shows q ws' as'" "length as' = length as"
    "\<forall>i < length as. as_smp_cnt (as' ! i) = as_smp_cnt (as ! i) \<and> as_sample (as' ! i) = as_sample (as ! i)"
    "q = p\<lparr> vp_smp_synch := synch, vp_frame := vp_frame q, vp_at := vp_at q \<rparr>"
    "as' = (if synch_width synch \<le> ws then map (\<lambda>a. a\<lparr> as_smp_synch := Some synch \<rparr>) as
      else map (rebuilt (p\<lparr> vp_smp_synch := synch \<rparr>)) as)"
proof -
  note d = sv_showsD [OF s]
  let ?as = "if synch_width synch \<le> ws then map (\<lambda>a. a\<lparr> as_smp_synch := Some synch \<rparr>) as
      else map (rebuilt (p\<lparr> vp_smp_synch := synch \<rparr>)) as"
  obtain q ws' where q: "set_smp_synch synch p = (Inr (), q)" "carries q ws' ?as"
    "q = p\<lparr> vp_smp_synch := synch \<rparr>\<lparr> vp_frame := vp_frame q, vp_at := vp_at q \<rparr>"
    by (rule set_smp_synch_frame [OF d(1,2) w])
  have qs: "vp_cfg q = vp_cfg p" "vp_smp_cnt q = vp_smp_cnt p" "vp_smp_synch q = synch" "vp_refr_tm q = vp_refr_tm p"
    "vp_gm_identity q = vp_gm_identity p"
    by (subst q(3), simp)+
  have a: "unat (as_smp_cnt a) < cfg_wrap (vp_cfg p) \<and> as_smp_synch a = Some synch \<and> (vc_gm_identity (vp_cfg p) \<longrightarrow>
      as_gm_identity a = Some (case vp_gm_identity p of Some g \<Rightarrow> g | None \<Rightarrow> replicate 8 0))" if "a \<in> set ?as" for a
    using that d(4-6) by (auto simp: rebuilt_def sampled_def template_asdu_def split: if_splits)
  have sh: "sv_shows q ws' ?as" unfolding sv_shows_def qs settings_ok_def
    using q(2) d(2) w a by (simp add: settings_ok_def)
  have "q = p\<lparr> vp_smp_synch := synch, vp_frame := vp_frame q, vp_at := vp_at q \<rparr>" using q(3) by simp
  then show thesis using that [OF q(1) sh] by (simp add: rebuilt_def sampled_def)
qed

text \<open>Setting the refresh time: the configured ASDUs get the time of their own sample, nothing else moves.\<close>

lemma refr_tm_of_wf: "utc_wf t \<Longrightarrow> utc_wf (refr_tm_of p t i)"
proof -
  have "take_bit 24 (ucast (v AND 0x00FFFFFF) :: u32) = ucast (v AND 0x00FFFFFF)" for v :: u64
  proof -
    have m: "v AND 0x00FFFFFF = take_bit 24 v" by (simp add: take_bit_eq_mask mask_eq_exp_minus_1)
    show ?thesis unfolding m by (rule bit_word_eqI) (auto simp: bit_simps)
  qed
  then show "utc_wf t \<Longrightarrow> utc_wf (refr_tm_of p t i)" by (simp add: utc_wf_def refr_tm_of_def Let_def mask24)
qed

lemma set_refr_shows:
  assumes s: "sv_shows p ws as" and t: "utc_wf t"
  shows "sv_shows (set_refr_tm t p) ws (if vc_refr_tm (vp_cfg p)
    then map (\<lambda>i. (as ! i)\<lparr> as_refr_tm := Some (refr_tm_of p t i) \<rparr>) [0..<length as] else as)"
proof -
  note d = sv_showsD [OF s] and cd = carriesD [OF sv_showsD(1) [OF s]]
  have qs: "vp_cfg (set_refr_tm t p) = vp_cfg p" "vp_at (set_refr_tm t p) = vp_at p" "vp_smp_cnt (set_refr_tm t p) = vp_smp_cnt p"
    "vp_smp_synch (set_refr_tm t p) = vp_smp_synch p" "vp_gm_identity (set_refr_tm t p) = vp_gm_identity p"
    "vp_refr_tm (set_refr_tm t p) = Some t"
    by (simp_all add: set_refr_tm_def)
  show ?thesis
  proof (cases "vc_refr_tm (vp_cfg p)")
    case True
    let ?as = "map (\<lambda>i. (as ! i)\<lparr> as_refr_tm := Some (refr_tm_of p t i) \<rparr>) [0..<length as]"
    have sh: "same_shape ((as ! i)\<lparr> as_refr_tm := Some (refr_tm_of p t i) \<rparr>) (as ! i)" if "i < length as" for i
      using asdu_fits_template(3) [OF cd(8) [OF that]] True by (auto simp: same_shape_def)
    have "asdu_fits (vp_cfg p) ws ((as ! i)\<lparr> as_refr_tm := Some (refr_tm_of p t i) \<rparr>)" if "i < length as" for i
      using cd(8) [OF that] refr_tm_of_wf [OF t] same_shape_trans [OF sh [OF that]]
      by (auto simp: asdu_fits_def asdu_ok_def widths_ok_def)
    moreover have "frame_offsets link wc ws ?as = frame_offsets link wc ws as" for link wc
      by (rule frame_offsets_same) (simp add: list_all2_conv_all_nth sh)
    ultimately have "carries (set_refr_tm t p) ws ?as"
      using cd(1,2,5) refr_tm_frame [OF d(1) True] by (simp add: carries_def qs Let_def list_all_length)
    then show ?thesis
      using True d(2) t d(4-6) nth_mem by (auto simp: sv_shows_def settings_ok_def qs)
  next
    case False
    have "carries (set_refr_tm t p) ws as"
      using d(1) no_patch_points(1) [OF d(1) False] by (simp add: carries_def qs Let_def)
    then show ?thesis using False d(2) t d(4-6) by (auto simp: sv_shows_def settings_ok_def qs)
  qed
qed

lemma set_gm_shows:
  assumes s: "sv_shows p ws as" and g: "length gm = 8"
  shows "sv_shows (set_gm_identity gm p) ws (if vc_gm_identity (vp_cfg p)
    then map (\<lambda>i. (as ! i)\<lparr> as_gm_identity := Some gm \<rparr>) [0..<length as] else as)"
proof -
  note d = sv_showsD [OF s] and cd = carriesD [OF sv_showsD(1) [OF s]]
  have qs: "vp_cfg (set_gm_identity gm p) = vp_cfg p" "vp_at (set_gm_identity gm p) = vp_at p" "vp_smp_cnt (set_gm_identity gm p) = vp_smp_cnt p"
    "vp_smp_synch (set_gm_identity gm p) = vp_smp_synch p" "vp_gm_identity (set_gm_identity gm p) = Some gm"
    "vp_refr_tm (set_gm_identity gm p) = vp_refr_tm p"
    by (simp_all add: set_gm_identity_def)
  show ?thesis
  proof (cases "vc_gm_identity (vp_cfg p)")
    case True
    let ?as = "map (\<lambda>i. (as ! i)\<lparr> as_gm_identity := Some gm \<rparr>) [0..<length as]"
    have sh: "same_shape ((as ! i)\<lparr> as_gm_identity := Some gm \<rparr>) (as ! i)" if "i < length as" for i
      using asdu_fits_template(4) [OF cd(8) [OF that]] True g by (auto simp: same_shape_def)
    have "asdu_fits (vp_cfg p) ws ((as ! i)\<lparr> as_gm_identity := Some gm \<rparr>)" if "i < length as" for i
      using cd(8) [OF that] g same_shape_trans [OF sh [OF that]]
      by (auto simp: asdu_fits_def asdu_ok_def widths_ok_def)
    moreover have "frame_offsets link wc ws ?as = frame_offsets link wc ws as" for link wc
      by (rule frame_offsets_same) (simp add: list_all2_conv_all_nth sh)
    ultimately have "carries (set_gm_identity gm p) ws ?as"
      using cd(1,2,5) gm_frame [OF d(1) True g] by (simp add: carries_def qs Let_def list_all_length)
    then show ?thesis
      using True d(2) g d(4-5) nth_mem by (auto simp: sv_shows_def settings_ok_def qs)
  next
    case False
    have "carries (set_gm_identity gm p) ws as"
      using d(1) no_patch_points(2) [OF d(1) False] by (simp add: carries_def qs Let_def)
    then show ?thesis using False d(2) g d(4-5) by (auto simp: sv_shows_def settings_ok_def qs)
  qed
qed

lemma set_smp_cnt_lt: "unat (vp_smp_cnt (set_smp_cnt c p)) = unat c mod cfg_wrap (vp_cfg p)"
proof -
  have "unat c mod cfg_wrap (vp_cfg p) < 65536"
    using cfg_wrap_bounds [of "vp_cfg p"] mod_less_divisor [of "cfg_wrap (vp_cfg p)" "unat c"] by linarith
  moreover have "unat (ucast c :: u32) = unat c" by (simp add: unat_ucast_up)
  ultimately show ?thesis by (simp add: set_smp_cnt_def unat_ucast_down unat_mod)
qed

lemma set_smp_cnt_shows: "sv_shows p ws as \<Longrightarrow> sv_shows (set_smp_cnt c p) ws as"
  using set_smp_cnt_lt [of c p] cfg_wrap_bounds(1) [of "vp_cfg p"]
  by (auto simp: sv_shows_def settings_ok_def carries_def Let_def set_smp_cnt_def)

lemma poll_shows: "sv_shows p ws as \<Longrightarrow> sv_shows (snd (sv_poll_transmit p)) ws as"
  by (auto simp: sv_shows_def settings_ok_def carries_def Let_def sv_poll_transmit_def)

section \<open>Runs of a publisher\<close>

inductive sv_reach :: "sv_pub_config \<Rightarrow> sv_publisher \<Rightarrow> bool" for cfg where
  fresh: "sv_pub_new cfg = Inr p \<Longrightarrow> sv_reach cfg p"
| publish: "sv_reach cfg p \<Longrightarrow> sv_reach cfg (snd (sv_publish now blocks p))"
| repeating: "sv_reach cfg p \<Longrightarrow> sv_reach cfg (snd (sv_publish_repeating now block p))"
| synch: "sv_reach cfg p \<Longrightarrow> synch_wf s \<Longrightarrow> sv_reach cfg (snd (set_smp_synch s p))"
| refr: "sv_reach cfg p \<Longrightarrow> utc_wf t \<Longrightarrow> sv_reach cfg (set_refr_tm t p)"
| grandmaster: "sv_reach cfg p \<Longrightarrow> length gm = 8 \<Longrightarrow> sv_reach cfg (set_gm_identity gm p)"
| resync: "sv_reach cfg p \<Longrightarrow> sv_reach cfg (set_smp_cnt c p)"
| poll: "sv_reach cfg p \<Longrightarrow> sv_reach cfg (snd (sv_poll_transmit p))"

lemma sv_reach_inv: "sv_reach cfg p \<Longrightarrow> sv_cfg_ok cfg \<Longrightarrow> sv_inv p \<and> vp_cfg p = cfg"
proof (induction rule: sv_reach.induct)
  case (fresh p)
  obtain q where q: "sv_pub_new cfg = Inr q" "vp_cfg q = cfg"
    "sv_shows q (synch_width SynchNone) (map (\<lambda>i. (template_asdu cfg SynchNone None None)\<lparr>
       as_smp_cnt := (next_smp_cnt (profile_wrap (vc_profile cfg)) ^^ i) 0 \<rparr>) [0..<cfg_asdus cfg])"
    by (rule sv_pub_new_shows [OF fresh.prems])
  have "q = p" using q(1) fresh.hyps by simp
  then show ?case using q(2,3) unfolding sv_inv_def by blast
next
  case (publish p now blocks)
  then show ?case using publish_inv by simp
next
  case (repeating p now block)
  then show ?case using repeating_inv by simp
next
  case (synch p s)
  then obtain ws as where s: "sv_shows p ws as" "vp_cfg p = cfg" by (auto simp: sv_inv_def)
  obtain q ws' as' where q: "set_smp_synch s p = (Inr (), q)" "sv_shows q ws' as'"
    "q = p\<lparr> vp_smp_synch := s, vp_frame := vp_frame q, vp_at := vp_at q \<rparr>"
    by (rule set_synch_shows [OF s(1) synch.hyps(2)])
  have "vp_cfg q = cfg" using s(2) by (subst q(3)) simp
  then show ?case using q(1,2) by (auto simp: sv_inv_def)
next
  case (refr p t)
  moreover have "vp_cfg (set_refr_tm t p) = vp_cfg p" by (simp add: set_refr_tm_def)
  ultimately show ?case using set_refr_shows unfolding sv_inv_def by metis
next
  case (grandmaster p gm)
  moreover have "vp_cfg (set_gm_identity gm p) = vp_cfg p" by (simp add: set_gm_identity_def)
  ultimately show ?case using set_gm_shows unfolding sv_inv_def by metis
next
  case (resync p c)
  moreover have "vp_cfg (set_smp_cnt c p) = vp_cfg p" by (simp add: set_smp_cnt_def)
  ultimately show ?case using set_smp_cnt_shows unfolding sv_inv_def by metis
next
  case (poll p)
  moreover have "vp_cfg (snd (sv_poll_transmit p)) = vp_cfg p" by (simp add: sv_poll_transmit_def)
  ultimately show ?case using poll_shows unfolding sv_inv_def by metis
qed

section \<open>Properties\<close>

text \<open>A configuration for the witnesses: two ASDUs of eight octets each, with both time fields.\<close>

definition sample_sv_cfg :: sv_pub_config where
  "sample_sv_cfg = sv_with_time_fields True True (sv_config_new sample_header ''MU01''
     (F4800S2I4U4\<lparr> pf_sample_len := 8 \<rparr>))"

lemma sample_sv_cfg_ok: "sv_cfg_ok sample_sv_cfg"
  by (simp add: sv_cfg_ok_def sample_sv_cfg_def sv_with_time_fields_def sv_config_new_def F4800S2I4U4_def sample_header_def
      header_wf_def process_bus_def ethertypes is_ascii_def as_bytes_def octet_def opt_length_def)

lemma sample_sv_cfg_fields:
  "cfg_asdus sample_sv_cfg = 2" "pf_sample_len (vc_profile sample_sv_cfg) = 8" "cfg_wrap sample_sv_cfg = 4800"
  "vc_refr_tm sample_sv_cfg" "vc_gm_identity sample_sv_cfg" "pf_samples_per_second (vc_profile sample_sv_cfg) = 4800"
  by (simp_all add: sample_sv_cfg_def sv_with_time_fields_def sv_config_new_def F4800S2I4U4_def profile_wrap_def smp_cnt_wrap_def)

text \<open>
  C17: Whatever a publisher is asked to do, in whatever order, the frame it holds is one a receiver decodes: the
  configured number of ASDUs, each with the configured identity, revision and sample length, the current
  \<open>smpSynch\<close> and a count below the wrap; and the recorded patch points are the ones the decoder finds in it.
\<close>

theorem publisher_frame_valid:
  assumes "sv_reach cfg p" "sv_cfg_ok cfg" "cfg_asdus cfg \<le> max_asdus l"
  shows "locate_fields (vp_frame p) (header_len (sv_link cfg)) cfg = Inr (vp_at p) \<and>
    (\<exists>as. received_asdus l (vp_frame p @ pad) = Inr as \<and> length as = cfg_asdus cfg \<and>
      (\<forall>a \<in> set as. as_sv_id a = vc_sv_id cfg \<and> as_dat_set a = vc_dat_set cfg \<and> as_conf_rev a = vc_conf_rev cfg \<and>
        unat (as_smp_cnt a) < cfg_wrap cfg \<and> as_smp_synch a = Some (vp_smp_synch p) \<and>
        length (as_sample a) = pf_sample_len (vc_profile cfg)))"
proof (intro conjI)
  obtain ws as where s: "sv_shows p ws as" and cfg: "vp_cfg p = cfg" using sv_reach_inv [OF assms(1,2)] by (auto simp: sv_inv_def)
  note d = sv_showsD [OF s, unfolded cfg] and cd = carriesD [OF sv_showsD(1) [OF s], unfolded cfg]
  show "locate_fields (vp_frame p) (header_len (sv_link cfg)) cfg = Inr (vp_at p)"
    using locate_fields_frame [OF cd(1,2,3)] cd(4,5) by simp
  have "as_sv_id a = vc_sv_id cfg \<and> as_dat_set a = vc_dat_set cfg \<and> as_conf_rev a = vc_conf_rev cfg \<and>
      length (as_sample a) = pf_sample_len (vc_profile cfg)" if "a \<in> set as" for a
    using cd(3) that by (auto simp: list_all_iff asdu_fits_def same_shape_def template_asdu_def)
  then show "\<exists>as. received_asdus l (vp_frame p @ pad) = Inr as \<and> length as = cfg_asdus cfg \<and>
      (\<forall>a \<in> set as. as_sv_id a = vc_sv_id cfg \<and> as_dat_set a = vc_dat_set cfg \<and> as_conf_rev a = vc_conf_rev cfg \<and>
        unat (as_smp_cnt a) < cfg_wrap cfg \<and> as_smp_synch a = Some (vp_smp_synch p) \<and>
        length (as_sample a) = pf_sample_len (vc_profile cfg))"
    using carries_received [OF d(1), of l pad] assms(3) cd(2) d(4,5) by (intro exI [of _ as]) auto
qed

text \<open>A witness: a publisher that was switched to a clock identity too wide for its first template.\<close>

theorem publisher_frame_valid_witness:
  "\<exists>p as. sv_reach sample_sv_cfg p \<and> vp_smp_synch p = LocalClock 200 \<and>
    locate_fields (vp_frame p) (header_len (sv_link sample_sv_cfg)) sample_sv_cfg = Inr (vp_at p) \<and>
    received_asdus default_limits (vp_frame p @ [0]) = Inr as \<and> length as = 2"
proof -
  obtain p ws as where p: "sv_pub_new sample_sv_cfg = Inr p" "sv_shows p ws as"
    by (rule sv_pub_new_shows [OF sample_sv_cfg_ok])
  have w: "synch_wf (LocalClock 200)" by (simp add: synch_wf_def smp_synch_from_u8_def)
  obtain q where q: "set_smp_synch (LocalClock 200) p = (Inr (), q)"
    "q = p\<lparr> vp_smp_synch := LocalClock 200, vp_frame := vp_frame q, vp_at := vp_at q \<rparr>"
    by (rule set_synch_shows [OF p(2) w])
  have "vp_smp_synch q = LocalClock 200" by (subst q(2)) simp
  moreover have r: "sv_reach sample_sv_cfg q" using sv_reach.synch [OF sv_reach.fresh [OF p(1)] w] q(1) by simp
  moreover have "cfg_asdus sample_sv_cfg \<le> max_asdus default_limits" by (simp add: sample_sv_cfg_fields default_limits_def)
  ultimately show ?thesis
    using publisher_frame_valid [OF r sample_sv_cfg_ok, of default_limits "[0]"] by (auto simp: sample_sv_cfg_fields)
qed

text \<open>
  C18: Publishing a frame of blocks writes exactly those blocks, numbers them consecutively modulo the wrap from
  the publisher's own count, leaves the count at the sample after the last, makes the frame the next one to be
  transmitted and sets the next sending time one frame interval ahead; a wrong number or length of blocks is
  refused with the publisher unchanged.
\<close>

theorem publish_numbers_samples:
  assumes "sv_reach cfg p" "sv_cfg_ok cfg" "cfg_asdus cfg \<le> max_asdus l"
  shows "if length blocks = cfg_asdus cfg \<and> (\<forall>b \<in> set blocks. length b = pf_sample_len (vc_profile cfg))
    then \<exists>q as. sv_publish now blocks p = (Inr (), q) \<and> received_asdus l (vp_frame q @ pad) = Inr as \<and>
      map as_sample as = blocks \<and>
      map (unat \<circ> as_smp_cnt) as = map (\<lambda>i. (unat (vp_smp_cnt p) + i) mod cfg_wrap cfg) [0..<cfg_asdus cfg] \<and>
      unat (vp_smp_cnt q) = (unat (vp_smp_cnt p) + cfg_asdus cfg) mod cfg_wrap cfg \<and>
      fst (sv_poll_transmit q) = Some (vp_frame q) \<and>
      sv_next_timeout q = Some (plus_nanos now (frame_interval_nanos (vc_profile cfg)))
    else \<exists>e. sv_publish now blocks p = (Inl e, p)"
proof (cases "length blocks = cfg_asdus cfg \<and> (\<forall>b \<in> set blocks. length b = pf_sample_len (vc_profile cfg))")
  case True
  obtain ws as where s: "sv_shows p ws as" and cfg: "vp_cfg p = cfg" using sv_reach_inv [OF assms(1,2)] by (auto simp: sv_inv_def)
  note d = sv_showsD [OF s, unfolded cfg] and cd = carriesD [OF sv_showsD(1) [OF s], unfolded cfg]
  let ?next = "next_smp_cnt (profile_wrap (vc_profile cfg))"
  let ?as = "map (\<lambda>i. sampled (as ! i) ((?next ^^ i) (vp_smp_cnt p)) (blocks ! i)) [0..<length as]"
  obtain q where q: "sv_publish now blocks p = (Inr (), q)" "sv_shows q ws ?as"
    "q = sv_queue now (p\<lparr> vp_frame := vp_frame q, vp_smp_cnt := (?next ^^ length as) (vp_smp_cnt p) \<rparr>)"
    using publish_shows [OF s, unfolded cfg, of blocks now] True by blast
  have n: "length as = cfg_asdus cfg" "length blocks = length as" using cd(2) True by simp_all
  have i: "unat ((?next ^^ i) (vp_smp_cnt p)) = (unat (vp_smp_cnt p) + i) mod cfg_wrap cfg" for i
    by (rule unat_iterated_cnt [OF d(3) cfg_wrap_bounds(2)])
  have "received_asdus l (vp_frame q @ pad) = Inr ?as"
    using carries_received [OF sv_showsD(1) [OF q(2)], of l pad] assms(3) n by simp
  moreover have "map as_sample ?as = blocks" using n by (intro nth_equalityI) (simp_all add: sampled_def)
  moreover have "map (unat \<circ> as_smp_cnt) ?as = map (\<lambda>i. (unat (vp_smp_cnt p) + i) mod cfg_wrap cfg) [0..<cfg_asdus cfg]"
    using n i by (simp add: sampled_def)
  moreover have "vp_smp_cnt q = (?next ^^ cfg_asdus cfg) (vp_smp_cnt p)" by (subst q(3)) (simp add: n)
  moreover have "vp_next_send q = Some (plus_nanos now (frame_interval_nanos (vc_profile cfg)))"
    by (subst q(3)) (simp add: sv_queue_def cfg)
  moreover have "vp_pending q" by (subst q(3)) simp
  ultimately show ?thesis using True q(1) i by (auto simp: sv_poll_transmit_def sv_next_timeout_def)
next
  case False
  have "vp_cfg p = cfg" using sv_reach_inv [OF assms(1,2)] by simp
  then show ?thesis using publish_refused [of blocks p now] False by (simp add: False)
qed

theorem publish_numbers_samples_witness:
  "\<exists>p q as. sv_pub_new sample_sv_cfg = Inr p \<and> sv_publish 0 [replicate 8 1, replicate 8 2] p = (Inr (), q) \<and>
    received_asdus default_limits (vp_frame q @ []) = Inr as \<and> map as_sample as = [replicate 8 1, replicate 8 2] \<and>
    map (unat \<circ> as_smp_cnt) as = [0, 1]"
proof -
  obtain p where p: "sv_pub_new sample_sv_cfg = Inr p" "vp_smp_cnt p = 0" by (rule sv_pub_new_shows [OF sample_sv_cfg_ok])
  have "cfg_asdus sample_sv_cfg \<le> max_asdus default_limits" by (simp add: sample_sv_cfg_fields default_limits_def)
  from publish_numbers_samples [OF sv_reach.fresh [OF p(1)] sample_sv_cfg_ok this, of "[replicate 8 1, replicate 8 2]" 0 "[]"]
  show ?thesis using p(1) by (auto simp: sample_sv_cfg_fields p(2) upt_rec)
qed

text \<open>
  Changing \<open>smpSynch\<close> never fails, even when the new value needs a longer field and the frame is encoded
  anew: a frame that is waiting keeps its counts, its samples and its grandmaster, and every ASDU of it carries
  the new value.
\<close>

theorem synch_change_keeps_samples:
  assumes "sv_reach cfg p" "sv_cfg_ok cfg" "cfg_asdus cfg \<le> max_asdus l" "synch_wf synch"
  shows "\<exists>q as as'. received_asdus l (vp_frame p) = Inr as \<and> set_smp_synch synch p = (Inr (), q) \<and>
    received_asdus l (vp_frame q) = Inr as' \<and> (\<forall>a \<in> set as'. as_smp_synch a = Some synch) \<and>
    map as_smp_cnt as' = map as_smp_cnt as \<and> map as_sample as' = map as_sample as \<and>
    map as_gm_identity as' = map as_gm_identity as \<and> vp_smp_cnt q = vp_smp_cnt p \<and> vp_pending q = vp_pending p"
proof -
  obtain ws as where s: "sv_shows p ws as" and cfg: "vp_cfg p = cfg" using sv_reach_inv [OF assms(1,2)] by (auto simp: sv_inv_def)
  obtain q ws' as' where q: "set_smp_synch synch p = (Inr (), q)" "sv_shows q ws' as'" "length as' = length as"
    "\<forall>i < length as. as_smp_cnt (as' ! i) = as_smp_cnt (as ! i) \<and> as_sample (as' ! i) = as_sample (as ! i)"
    "q = p\<lparr> vp_smp_synch := synch, vp_frame := vp_frame q, vp_at := vp_at q \<rparr>"
    by (rule set_synch_shows [OF s assms(4)])
  have qs: "vp_smp_synch q = synch" "vp_smp_cnt q = vp_smp_cnt p" "vp_pending q = vp_pending p" "vp_cfg q = cfg"
    "vp_gm_identity q = vp_gm_identity p"
    by (subst q(5), simp add: cfg)+
  have n: "length as \<le> max_asdus l" "length as' \<le> max_asdus l"
    using carriesD(2) [OF sv_showsD(1) [OF s]] cfg q(3) assms(3) by simp_all
  have g: "as_gm_identity (as' ! i) = as_gm_identity (as ! i)" if "i < length as" for i
  proof (cases "vc_gm_identity cfg")
    case True
    then show ?thesis
      using sv_showsD(6) [OF s] sv_showsD(6) [OF q(2)] that q(3) by (simp add: cfg qs)
  next
    case False
    have "as_gm_identity (as ! i) = None" "as_gm_identity (as' ! i) = None"
      using carriesD(8) [OF sv_showsD(1) [OF s]] carriesD(8) [OF sv_showsD(1) [OF q(2)]] that q(3) False
      by (simp_all add: cfg qs asdu_fits_def same_shape_def template_asdu_def)
    then show ?thesis by simp
  qed
  have "received_asdus l (vp_frame p) = Inr as" "received_asdus l (vp_frame q) = Inr as'"
    using carries_received [OF sv_showsD(1) [OF s] n(1), of "[]"] carries_received [OF sv_showsD(1) [OF q(2)] n(2), of "[]"] by simp_all
  moreover have "\<forall>a \<in> set as'. as_smp_synch a = Some synch" using sv_showsD(5) [OF q(2)] qs(1) by simp
  moreover have "map as_smp_cnt as' = map as_smp_cnt as" "map as_sample as' = map as_sample as"
    "map as_gm_identity as' = map as_gm_identity as"
    using q(3,4) g by (simp_all add: list_eq_iff_nth_eq)
  ultimately show ?thesis using q(1) qs by blast
qed

theorem synch_change_keeps_samples_witness:
  "\<exists>p q as as'. sv_pub_new sample_sv_cfg = Inr p \<and> received_asdus default_limits (vp_frame p) = Inr as \<and>
    set_smp_synch (LocalClock 254) p = (Inr (), q) \<and> received_asdus default_limits (vp_frame q) = Inr as' \<and>
    map as_smp_cnt as' = map as_smp_cnt as \<and> (\<forall>a \<in> set as'. as_smp_synch a = Some (LocalClock 254))"
proof -
  obtain p where p: "sv_pub_new sample_sv_cfg = Inr p" by (rule sv_pub_new_shows [OF sample_sv_cfg_ok])
  have "cfg_asdus sample_sv_cfg \<le> max_asdus default_limits" by (simp add: sample_sv_cfg_fields default_limits_def)
  moreover have "synch_wf (LocalClock 254)" by (simp add: synch_wf_def smp_synch_from_u8_def)
  ultimately show ?thesis
    using synch_change_keeps_samples [OF sv_reach.fresh [OF p] sample_sv_cfg_ok, of default_limits "LocalClock 254"] p by blast
qed

text \<open>
  C36: The refresh times are not kept by that change. \<open>set_refr_tm\<close> gives every ASDU of a frame the time of its
  own sample; encoding the frame anew for a wider \<open>smpSynch\<close> gives all of them the time of the first.
\<close>

theorem synch_change_loses_refresh_times:
  assumes "sv_cfg_ok cfg" "vc_refr_tm cfg" "sv_pub_new cfg = Inr p" "cfg_asdus cfg \<le> max_asdus l"
    and "utc_wf t" "synch_wf synch" "synch_width SynchNone < synch_width synch"
  shows "\<exists>q as as'. received_asdus l (vp_frame (set_refr_tm t p)) = Inr as \<and>
    set_smp_synch synch (set_refr_tm t p) = (Inr (), q) \<and> received_asdus l (vp_frame q) = Inr as' \<and>
    map as_refr_tm as = map (\<lambda>i. Some (refr_tm_of p t i)) [0..<cfg_asdus cfg] \<and>
    map as_refr_tm as' = replicate (cfg_asdus cfg) (Some t)"
proof -
  let ?as = "map (\<lambda>i. (template_asdu cfg SynchNone None None)\<lparr>
       as_smp_cnt := (next_smp_cnt (profile_wrap (vc_profile cfg)) ^^ i) 0 \<rparr>) [0..<cfg_asdus cfg]"
  let ?bs = "map (\<lambda>i. (?as ! i)\<lparr> as_refr_tm := Some (refr_tm_of p t i) \<rparr>) [0..<length ?as]"
  obtain p' where "sv_pub_new cfg = Inr p'" "vp_cfg p' = cfg" "sv_shows p' (synch_width SynchNone) ?as"
    by (rule sv_pub_new_shows [OF assms(1)])
  then have p: "vp_cfg p = cfg" "sv_shows p (synch_width SynchNone) ?as" using assms(3) by simp_all
  have b: "sv_shows (set_refr_tm t p) (synch_width SynchNone) ?bs"
    using set_refr_shows [OF p(2) assms(5)] assms(2) by (simp add: p(1))
  obtain q ws' as' where q: "set_smp_synch synch (set_refr_tm t p) = (Inr (), q)" "sv_shows q ws' as'"
    "as' = (if synch_width synch \<le> synch_width SynchNone then map (\<lambda>a. a\<lparr> as_smp_synch := Some synch \<rparr>) ?bs
      else map (rebuilt ((set_refr_tm t p)\<lparr> vp_smp_synch := synch \<rparr>)) ?bs)"
    by (rule set_synch_shows [OF b assms(6)])
  have as': "as' = map (rebuilt ((set_refr_tm t p)\<lparr> vp_smp_synch := synch \<rparr>)) ?bs" using q(3) assms(7) by simp
  have c: "vp_cfg (set_refr_tm t p) = cfg" "vp_refr_tm (set_refr_tm t p) = Some t" by (simp_all add: set_refr_tm_def p(1))
  have "received_asdus l (vp_frame (set_refr_tm t p)) = Inr ?bs"
    using carries_received [OF sv_showsD(1) [OF b], of l "[]"] assms(4) by simp
  moreover have "received_asdus l (vp_frame q) = Inr as'"
    using carries_received [OF sv_showsD(1) [OF q(2)], of l "[]"] assms(4) by (simp add: as')
  moreover have "map as_refr_tm ?bs = map (\<lambda>i. Some (refr_tm_of p t i)) [0..<cfg_asdus cfg]" by simp
  moreover have "map as_refr_tm as' = replicate (cfg_asdus cfg) (Some t)"
    using assms(2) by (simp add: as' rebuilt_def sampled_def template_asdu_def c list_eq_iff_nth_eq)
  ultimately show ?thesis using q(1) by blast
qed

text \<open>A witness: the second ASDU of a frame at 4800 samples per second is 3495 units of \<open>2 ^ -24\<close> s after the first.\<close>

theorem synch_change_loses_refresh_times_witness:
  "\<exists>p q as as'. sv_pub_new sample_sv_cfg = Inr p \<and>
    received_asdus default_limits (vp_frame (set_refr_tm utc_default p)) = Inr as \<and>
    set_smp_synch (LocalClock 200) (set_refr_tm utc_default p) = (Inr (), q) \<and> received_asdus default_limits (vp_frame q) = Inr as' \<and>
    map as_refr_tm as = [Some utc_default, Some (utc_default\<lparr> ut_fraction := 3495 \<rparr>)] \<and>
    map as_refr_tm as' = [Some utc_default, Some utc_default]"
proof -
  obtain p where p: "sv_pub_new sample_sv_cfg = Inr p" "vp_cfg p = sample_sv_cfg" by (rule sv_pub_new_shows [OF sample_sv_cfg_ok])
  have l: "cfg_asdus sample_sv_cfg \<le> max_asdus default_limits" by (simp add: sample_sv_cfg_fields default_limits_def)
  have w: "synch_wf (LocalClock 200)" "synch_width SynchNone < synch_width (LocalClock 200)"
    by (simp_all add: synch_wf_def smp_synch_from_u8_def) code_simp
  have t: "refr_tm_of p utc_default 0 = utc_default" "refr_tm_of p utc_default (Suc 0) = utc_default\<lparr> ut_fraction := 3495 \<rparr>"
    by (simp_all add: refr_tm_of_def utc_default_def Let_def p(2) sample_sv_cfg_fields sat_add_def narrow_def)
  show ?thesis
    using synch_change_loses_refresh_times [OF sample_sv_cfg_ok sample_sv_cfg_fields(4) p(1) l utc_default_wf w] p(1)
    by (auto simp: sample_sv_cfg_fields t upt_rec numeral_2_eq_2)
qed

end
