(* ===== verification/Sv_Subscriber.thy ===== *)
theory Sv_Subscriber
  imports Sv_Publisher
begin

text \<open>
  The sampled-value subscriber (\<open>src/proto/sv/subscriber.rs\<close>): per-stream configuration and state, the
  simulation policy, acceptance of one ASDU, and the frame loop. The consumer closure is the list of the
  samples handed to it. Each operation on one stream returns the events it raises; \<open>on_stream\<close> puts the
  stream back and queues them.
\<close>

section \<open>Configuration and state\<close>

record sv_key =
  vk_dst :: mac_addr
  vk_appid :: u16
  vk_sv_id :: string

datatype sv_simulation_mode = SvSimOff | SvSimPreferred

record sv_stream_config =
  tc_key :: sv_key
  tc_samples_per_second :: u32
  tc_expected_conf_rev :: "u32 option"
  tc_stale_after_ms :: u32
  tc_simulation :: sv_simulation_mode
  tc_layout :: "sample_layout option"

definition sv_stream_config_new :: "sv_key \<Rightarrow> sv_stream_config" where
  "sv_stream_config_new key = \<lparr> tc_key = key, tc_samples_per_second = 4000, tc_expected_conf_rev = None,
     tc_stale_after_ms = 10, tc_simulation = SvSimOff, tc_layout = None \<rparr>"

definition tc_wrap :: "sv_stream_config \<Rightarrow> u32" where
  "tc_wrap c = smp_cnt_wrap (tc_samples_per_second c)"

record sv_stream_state =
  tt_last_smp_cnt :: "u16 option"
  tt_conf_rev :: "u32 option"
  tt_smp_synch :: "smp_synch option"
  tt_gm_identity :: "bytes option"
  tt_frames :: u64
  tt_asdus :: u64
  tt_gaps :: u64
  tt_samples_lost :: u64
  tt_conf_rev_dropped :: u64
  tt_simulation_dropped :: u64
  tt_layout_mismatches :: u64
  tt_simulation_active :: bool
  tt_stale :: bool

definition sv_stream_state_default :: sv_stream_state where
  "sv_stream_state_default = \<lparr> tt_last_smp_cnt = None, tt_conf_rev = None, tt_smp_synch = None, tt_gm_identity = None,
     tt_frames = 0, tt_asdus = 0, tt_gaps = 0, tt_samples_lost = 0, tt_conf_rev_dropped = 0, tt_simulation_dropped = 0,
     tt_layout_mismatches = 0, tt_simulation_active = False, tt_stale = False \<rparr>"

datatype sv_event =
    SvGap nat u16 u16 u32
  | SyncChanged nat "smp_synch option" "smp_synch option"
  | GrandmasterChanged nat "bytes option"
  | SvConfRevMismatch nat u32
  | SampleLengthMismatch nat usize usize
  | SvIgnoredSimulation nat
  | SvSimulationTakeover nat
  | Stale nat
  | Resumed nat
  | SvMalformed error

record sample =
  sm_stream :: nat
  sm_asdu :: asdu_view
  sm_simulation :: bool
  sm_layout :: "sample_layout option"

definition sample_channels :: "sample \<Rightarrow> (channel \<times> channel_value) list" where
  "sample_channels s = (case sm_layout s of None \<Rightarrow> [] | Some l \<Rightarrow> layout_decode l (av_sample (sm_asdu s)))"

definition sample_channel :: "sample \<Rightarrow> usize \<Rightarrow> channel_value option" where
  "sample_channel s i = Option.bind (sm_layout s) (\<lambda>l. layout_value l (av_sample (sm_asdu s)) i)"

record sv_stream =
  tr_cfg :: sv_stream_config
  tr_state :: sv_stream_state
  tr_deadline :: "instant option"
  tr_conf_rev_reported :: bool
  tr_simulation_reported :: bool
  tr_layout_reported :: bool

record sv_subscriber =
  vs_streams :: "sv_stream list"
  vs_limits :: limits
  vs_events :: "sv_event event_queue"
  vs_other_stream :: u64
  vs_malformed :: u64

definition sv_stream_new :: "sv_stream_config \<Rightarrow> sv_stream" where
  "sv_stream_new cfg = \<lparr> tr_cfg = cfg, tr_state = sv_stream_state_default, tr_deadline = None,
     tr_conf_rev_reported = False, tr_simulation_reported = False, tr_layout_reported = False \<rparr>"

definition sv_sub_new :: "sv_stream_config list \<Rightarrow> sv_subscriber" where
  "sv_sub_new streams = \<lparr> vs_streams = map sv_stream_new streams, vs_limits = default_limits, vs_events = queue_new 64,
     vs_other_stream = 0, vs_malformed = 0 \<rparr>"

definition sv_with_limits :: "limits \<Rightarrow> sv_subscriber \<Rightarrow> sv_subscriber" where
  "sv_with_limits l s = s\<lparr> vs_limits := l \<rparr>"

definition sv_with_event_capacity :: "usize \<Rightarrow> sv_subscriber \<Rightarrow> sv_subscriber" where
  "sv_with_event_capacity capacity s = s\<lparr> vs_events := queue_new capacity \<rparr>"

abbreviation upd_state :: "(sv_stream_state \<Rightarrow> sv_stream_state) \<Rightarrow> sv_stream \<Rightarrow> sv_stream" where
  "upd_state \<equiv> tr_state_update"

definition sv_reset_simulation :: "nat \<Rightarrow> sv_subscriber \<Rightarrow> sv_subscriber" where
  "sv_reset_simulation i s = (case get_at (vs_streams s) i of
     None \<Rightarrow> s
   | Some t \<Rightarrow> s\<lparr> vs_streams := (vs_streams s)[i := upd_state (\<lambda>x. x\<lparr> tt_simulation_active := False, tt_last_smp_cnt := None \<rparr>) t] \<rparr>)"

section \<open>One stream\<close>

text \<open>The simulation policy: whether to admit the ASDU, the events, and the stream.\<close>

definition sv_policy :: "nat \<Rightarrow> bool \<Rightarrow> sv_stream \<Rightarrow> bool \<times> sv_event list \<times> sv_stream" where
  "sv_policy i simulated t = (case (tc_simulation (tr_cfg t), simulated) of
     (SvSimOff, False) \<Rightarrow> (True, [], t\<lparr> tr_simulation_reported := False \<rparr>)
   | (SvSimOff, True) \<Rightarrow>
       (let t = upd_state (\<lambda>x. x\<lparr> tt_simulation_dropped := sat_add (tt_simulation_dropped x) 1 \<rparr>) t in
        if \<not> tr_simulation_reported t
        then (False, [SvIgnoredSimulation i], t\<lparr> tr_simulation_reported := True \<rparr>)
        else (False, [], t))
   | (SvSimPreferred, True) \<Rightarrow>
       if \<not> tt_simulation_active (tr_state t)
       then (True, [SvSimulationTakeover i], upd_state (\<lambda>x. x\<lparr> tt_simulation_active := True, tt_last_smp_cnt := None \<rparr>) t)
       else (True, [], t)
   | (SvSimPreferred, False) \<Rightarrow>
       if tt_simulation_active (tr_state t)
       then (False, [], upd_state (\<lambda>x. x\<lparr> tt_simulation_dropped := sat_add (tt_simulation_dropped x) 1 \<rparr>) t)
       else (True, [], t))"

text \<open>
  \<open>accept\<close>, in the order of the source: the configuration revision, the length of the block, the gap, what
  changed, and the bookkeeping. \<open>check_conf_rev\<close> and \<open>check_layout\<close> may refuse the ASDU.
\<close>

definition check_conf_rev :: "nat \<Rightarrow> asdu_view \<Rightarrow> sv_stream \<Rightarrow> bool \<times> sv_event list \<times> sv_stream" where
  "check_conf_rev i a t = (case tc_expected_conf_rev (tr_cfg t) of
     None \<Rightarrow> (True, [], t)
   | Some expected \<Rightarrow>
       if expected \<noteq> av_conf_rev a
       then (let t = upd_state (\<lambda>x. x\<lparr> tt_conf_rev_dropped := sat_add (tt_conf_rev_dropped x) 1 \<rparr>) t in
         if \<not> tr_conf_rev_reported t
         then (False, [SvConfRevMismatch i (av_conf_rev a)], t\<lparr> tr_conf_rev_reported := True \<rparr>)
         else (False, [], t))
       else (True, [], t\<lparr> tr_conf_rev_reported := False \<rparr>))"

definition check_layout :: "nat \<Rightarrow> asdu_view \<Rightarrow> sv_stream \<Rightarrow> bool \<times> sv_event list \<times> sv_stream" where
  "check_layout i a t = (case tc_layout (tr_cfg t) of
     None \<Rightarrow> (True, [], t)
   | Some l \<Rightarrow>
       if \<not> layout_fits l (length (av_sample a))
       then (let t = upd_state (\<lambda>x. x\<lparr> tt_layout_mismatches := sat_add (tt_layout_mismatches x) 1 \<rparr>) t in
         if \<not> tr_layout_reported t
         then (False, [SampleLengthMismatch i (lay_len l) (length (av_sample a))], t\<lparr> tr_layout_reported := True \<rparr>)
         else (False, [], t))
       else (True, [], t\<lparr> tr_layout_reported := False \<rparr>))"

definition expected_cnt :: "u32 \<Rightarrow> u16 \<Rightarrow> u16" where
  "expected_cnt wrap l = ucast ((ucast l + 1) mod wrap)"

definition lost_samples :: "u32 \<Rightarrow> u16 \<Rightarrow> u16 \<Rightarrow> u32" where
  "lost_samples wrap expected received = (ucast received + wrap - ucast expected) mod wrap"

definition count_gap :: "nat \<Rightarrow> asdu_view \<Rightarrow> sv_stream \<Rightarrow> sv_event list \<times> sv_stream" where
  "count_gap i a t = (case tt_last_smp_cnt (tr_state t) of
     None \<Rightarrow> ([], t)
   | Some l \<Rightarrow> (let wrap = tc_wrap (tr_cfg t); expected = expected_cnt wrap l in
       if av_smp_cnt a \<noteq> expected
       then (let lost = lost_samples wrap expected (av_smp_cnt a) in
         ([SvGap i expected (av_smp_cnt a) lost],
          upd_state (\<lambda>x. x\<lparr> tt_gaps := sat_add (tt_gaps x) 1, tt_samples_lost := sat_add (tt_samples_lost x) (ucast lost) \<rparr>) t))
       else ([], t)))"

definition track_synch :: "nat \<Rightarrow> asdu_view \<Rightarrow> sv_stream \<Rightarrow> sv_event list \<times> sv_stream" where
  "track_synch i a t = (let from = tt_smp_synch (tr_state t) in
     if from \<noteq> av_smp_synch a
     then ([SyncChanged i from (av_smp_synch a)], upd_state (\<lambda>x. x\<lparr> tt_smp_synch := av_smp_synch a \<rparr>) t)
     else ([], t))"

definition eight_octets :: "bytes option \<Rightarrow> bytes option" where
  "eight_octets x = Option.bind x (\<lambda>g. if length g = 8 then Some g else None)"

definition track_gm :: "nat \<Rightarrow> asdu_view \<Rightarrow> sv_stream \<Rightarrow> sv_event list \<times> sv_stream" where
  "track_gm i a t = (let gm = eight_octets (av_gm_identity a) in
     if gm \<noteq> tt_gm_identity (tr_state t)
     then ([GrandmasterChanged i gm], upd_state (\<lambda>x. x\<lparr> tt_gm_identity := gm \<rparr>) t)
     else ([], t))"

definition resume :: "nat \<Rightarrow> sv_stream \<Rightarrow> sv_event list \<times> sv_stream" where
  "resume i t = (if tt_stale (tr_state t)
     then ([Resumed i], upd_state (\<lambda>x. x\<lparr> tt_stale := False \<rparr>) t) else ([], t))"

definition record_asdu :: "instant \<Rightarrow> asdu_view \<Rightarrow> sv_stream \<Rightarrow> sv_stream" where
  "record_asdu now a t = (upd_state (\<lambda>x. x\<lparr> tt_last_smp_cnt := Some (av_smp_cnt a), tt_asdus := sat_add (tt_asdus x) 1 \<rparr>) t)\<lparr>
     tr_deadline := Some (plus_millis now (ucast (tc_stale_after_ms (tr_cfg t)))) \<rparr>"

definition sv_accept :: "nat \<Rightarrow> instant \<Rightarrow> asdu_view \<Rightarrow> sv_stream \<Rightarrow> bool \<times> sv_event list \<times> sv_stream" where
  "sv_accept i now a t =
     (case check_conf_rev i a t of
       (False, e0, t) \<Rightarrow> (False, e0, t)
     | (True, e0, t) \<Rightarrow> (case check_layout i a t of
         (False, e1, t) \<Rightarrow> (False, e0 @ e1, t)
       | (True, e1, t) \<Rightarrow>
         (case count_gap i a t of (e2, t) \<Rightarrow>
          (let t = upd_state (\<lambda>x. x\<lparr> tt_conf_rev := Some (av_conf_rev a) \<rparr>) t in
           case track_synch i a t of (e3, t) \<Rightarrow>
           (case track_gm i a t of (e4, t) \<Rightarrow>
           (case resume i t of (e5, t) \<Rightarrow>
            (True, e0 @ e1 @ e2 @ e3 @ e4 @ e5, record_asdu now a t)))))))"

section \<open>The subscriber\<close>

definition sv_push_all :: "sv_event list \<Rightarrow> sv_subscriber \<Rightarrow> sv_subscriber" where
  "sv_push_all es s = s\<lparr> vs_events := fold queue_push es (vs_events s) \<rparr>"

definition on_stream :: "nat \<Rightarrow> (sv_stream \<Rightarrow> bool \<times> sv_event list \<times> sv_stream) \<Rightarrow> sv_subscriber \<Rightarrow> bool \<times> sv_subscriber" where
  "on_stream i f s = (case get_at (vs_streams s) i of
     None \<Rightarrow> (False, s)
   | Some t \<Rightarrow> (case f t of (ok, es, t') \<Rightarrow> (ok, sv_push_all es (s\<lparr> vs_streams := (vs_streams s)[i := t'] \<rparr>))))"

definition sv_addressed :: "sv_subscriber \<Rightarrow> mac_addr \<Rightarrow> u16 \<Rightarrow> bool" where
  "sv_addressed s dst appid =
     list_ex (\<lambda>t. vk_dst (tc_key (tr_cfg t)) = dst \<and> vk_appid (tc_key (tr_cfg t)) = appid) (vs_streams s)"

definition sv_other :: "sv_subscriber \<Rightarrow> sv_subscriber" where
  "sv_other s = s\<lparr> vs_other_stream := sat_add (vs_other_stream s) 1 \<rparr>"

definition sv_on_malformed :: "error \<Rightarrow> sv_subscriber \<Rightarrow> sv_subscriber" where
  "sv_on_malformed e s = sv_push_all [SvMalformed e] (s\<lparr> vs_malformed := sat_add (vs_malformed s) 1 \<rparr>)"

text \<open>The streams whose deadline has passed, from index \<open>i\<close> on.\<close>

definition stale_due :: "instant \<Rightarrow> sv_stream \<Rightarrow> bool" where
  "stale_due now t \<longleftrightarrow> (case tr_deadline t of Some d \<Rightarrow> now \<ge> d | None \<Rightarrow> False) \<and> \<not> tt_stale (tr_state t)"

definition mark_stale :: "sv_stream \<Rightarrow> sv_stream" where
  "mark_stale t = (upd_state (\<lambda>x. x\<lparr> tt_stale := True \<rparr>) t)\<lparr> tr_deadline := None \<rparr>"

fun check_stale_from :: "instant \<Rightarrow> nat \<Rightarrow> sv_stream list \<Rightarrow> sv_stream list \<times> sv_event list" where
  "check_stale_from now i [] = ([], [])"
| "check_stale_from now i (t # ts) = (case check_stale_from now (i + 1) ts of (us, es) \<Rightarrow>
     if stale_due now t then (mark_stale t # us, Stale i # es) else (t # us, es))"

definition check_stale :: "instant \<Rightarrow> sv_subscriber \<Rightarrow> sv_subscriber" where
  "check_stale now s = (case check_stale_from now 0 (vs_streams s) of (ts, es) \<Rightarrow>
     sv_push_all es (s\<lparr> vs_streams := ts \<rparr>))"

definition sv_sub_on_timeout :: "instant \<Rightarrow> sv_subscriber \<Rightarrow> sv_subscriber" where
  "sv_sub_on_timeout now s = check_stale now s"

fun earliest :: "instant option list \<Rightarrow> instant option" where
  "earliest [] = None"
| "earliest (d # ds) = (case (d, earliest ds) of (Some a, Some b) \<Rightarrow> Some (min a b) | (None, e) \<Rightarrow> e | (d, None) \<Rightarrow> d)"

definition sv_sub_next_timeout :: "sv_subscriber \<Rightarrow> instant option" where
  "sv_sub_next_timeout s = earliest (map tr_deadline (vs_streams s))"

definition sv_sub_poll_event :: "sv_subscriber \<Rightarrow> sv_event option \<times> sv_subscriber" where
  "sv_sub_poll_event s = (case queue_pop (vs_events s) of (e, q) \<Rightarrow> (e, s\<lparr> vs_events := q \<rparr>))"

fun position :: "('a \<Rightarrow> bool) \<Rightarrow> 'a list \<Rightarrow> nat option" where
  "position P [] = None"
| "position P (x # xs) = (if P x then Some 0 else map_option Suc (position P xs))"

definition stream_of :: "frame \<Rightarrow> asdu_view \<Rightarrow> sv_subscriber \<Rightarrow> nat option" where
  "stream_of fr a s = position (\<lambda>t. vk_dst (tc_key (tr_cfg t)) = fr_dst fr \<and> vk_appid (tc_key (tr_cfg t)) = fr_appid fr \<and>
     vk_sv_id (tc_key (tr_cfg t)) = av_sv_id a) (vs_streams s)"

definition count_frame :: "nat \<Rightarrow> sv_subscriber \<Rightarrow> sv_subscriber" where
  "count_frame i s = (case get_at (vs_streams s) i of
     None \<Rightarrow> s
   | Some t \<Rightarrow> s\<lparr> vs_streams := (vs_streams s)[i := upd_state (\<lambda>x. x\<lparr> tt_frames := sat_add (tt_frames x) 1 \<rparr>) t] \<rparr>)"

definition sample_of :: "nat \<Rightarrow> asdu_view \<Rightarrow> bool \<Rightarrow> sv_subscriber \<Rightarrow> sample" where
  "sample_of i a simulated s = \<lparr> sm_stream = i, sm_asdu = a, sm_simulation = simulated,
     sm_layout = Option.bind (get_at (vs_streams s) i) (\<lambda>t. tc_layout (tr_cfg t)) \<rparr>"

text \<open>The loop over the ASDUs of a frame, with the \<open>matched\<close> and \<open>counted\<close> variables of the source.\<close>

fun asdu_loop :: "instant \<Rightarrow> frame \<Rightarrow> asdu_view result list \<Rightarrow> bool \<Rightarrow> nat option \<Rightarrow> sv_subscriber \<Rightarrow> sample list \<times> sv_subscriber" where
  "asdu_loop now fr [] matched counted s = ([], if matched then s else sv_other s)"
| "asdu_loop now fr (Inl e # as) matched counted s = ([], sv_on_malformed e s)"
| "asdu_loop now fr (Inr a # as) matched counted s = (case stream_of fr a s of
     None \<Rightarrow> asdu_loop now fr as matched counted s
   | Some i \<Rightarrow> (case on_stream i (sv_policy i (frame_simulation fr)) s of
       (False, s) \<Rightarrow> asdu_loop now fr as True counted s
     | (True, s) \<Rightarrow> (case on_stream i (sv_accept i now a) s of
         (False, s) \<Rightarrow> asdu_loop now fr as True counted s
       | (True, s) \<Rightarrow>
           (let s = (if counted \<noteq> Some i then count_frame i s else s);
                (samples, s') = asdu_loop now fr as True (Some i) s
            in (sample_of i a (frame_simulation fr) s # samples, s')))))"

definition sv_sub_on_frame :: "instant \<Rightarrow> bytes \<Rightarrow> sv_subscriber \<Rightarrow> sample list \<times> sv_subscriber" where
  "sv_sub_on_frame now frame s = (let s = check_stale now s in
     case frame_parse frame of
       Inl e \<Rightarrow> (case address_peek frame of
         Some a \<Rightarrow> if fa_ethertype a = ETHERTYPE_SV \<and> sv_addressed s (fa_dst a) (fa_appid a)
                   then ([], sv_on_malformed e s) else ([], sv_other s)
       | None \<Rightarrow> ([], sv_other s))
     | Inr fr \<Rightarrow>
         if fr_ethertype fr \<noteq> ETHERTYPE_SV \<or> \<not> sv_addressed s (fr_dst fr) (fr_appid fr) then ([], sv_other s)
         else (case savpdu_parse (fr_apdu fr) (vs_limits s) of
             Inl e \<Rightarrow> ([], sv_on_malformed e s)
           | Inr pdu \<Rightarrow> asdu_loop now fr (savpdu_asdus pdu) False None s))"

section \<open>The timer\<close>

lemma sv_push_all_simps [simp]:
  "vs_streams (sv_push_all es s) = vs_streams s" "vs_limits (sv_push_all es s) = vs_limits s"
  "vs_other_stream (sv_push_all es s) = vs_other_stream s" "vs_malformed (sv_push_all es s) = vs_malformed s"
  "vs_events (sv_push_all es s) = event_q.push_all es (vs_events s)"
  by (simp_all add: sv_push_all_def event_q.push_all_def)

text \<open>A stream with a deadline is not stale: the deadline is cleared when it passes.\<close>

definition deadline_live :: "sv_stream \<Rightarrow> bool" where
  "deadline_live t \<longleftrightarrow> (tr_deadline t \<noteq> None \<longrightarrow> \<not> tt_stale (tr_state t))"

lemma earliest_None: "earliest ds = None \<longleftrightarrow> set ds \<subseteq> {None}"
  by (induction ds) (auto split: option.splits)

lemma earliest_Some: "earliest ds = Some d \<longleftrightarrow> Some d \<in> set ds \<and> (\<forall>e. Some e \<in> set ds \<longrightarrow> d \<le> e)"
proof (induction ds arbitrary: d)
  case (Cons x ds)
  show ?case
  proof (cases x)
    case None
    then show ?thesis using Cons.IH by simp
  next
    case (Some a)
    show ?thesis
    proof (cases "earliest ds")
      case None
      then have "set ds \<subseteq> {None}" by (simp add: earliest_None)
      then have "Some e \<notin> set ds" for e by auto
      then show ?thesis using Some None by auto
    next
      fix b assume b: "earliest ds = Some b"
      then have h: "Some b \<in> set ds" "\<And>e. Some e \<in> set ds \<Longrightarrow> b \<le> e" using Cons.IH by blast+
      have "earliest (x # ds) = Some d \<longleftrightarrow> min a b = d" by (simp add: Some b)
      also have "\<dots> \<longleftrightarrow> (Some d \<in> set (x # ds) \<and> (\<forall>e. Some e \<in> set (x # ds) \<longrightarrow> d \<le> e))"
      proof
        assume "min a b = d"
        then show "Some d \<in> set (x # ds) \<and> (\<forall>e. Some e \<in> set (x # ds) \<longrightarrow> d \<le> e)"
          using h Some by (cases "a \<le> b") (auto simp: min_def intro: order_trans)
      next
        assume r: "Some d \<in> set (x # ds) \<and> (\<forall>e. Some e \<in> set (x # ds) \<longrightarrow> d \<le> e)"
        then have "d \<le> a" "d \<le> b" using Some h(1) by simp_all
        moreover have "d = a \<or> b \<le> d" using r Some h(2) by auto
        ultimately show "min a b = d" by (auto simp: min_def)
      qed
      finally show ?thesis .
    qed
  qed
qed simp

lemma check_stale_from_idle: "\<forall>t \<in> set ts. \<not> stale_due now t \<Longrightarrow> check_stale_from now i ts = (ts, [])"
  by (induction ts arbitrary: i) simp_all

lemma check_stale_from_streams: "fst (check_stale_from now i ts) = map (\<lambda>t. if stale_due now t then mark_stale t else t) ts"
  by (induction ts arbitrary: i) (simp_all add: split_beta)

lemma check_stale_streams: "vs_streams (check_stale now s) = map (\<lambda>t. if stale_due now t then mark_stale t else t) (vs_streams s)"
  using check_stale_from_streams [of now 0 "vs_streams s"] by (simp add: check_stale_def split_beta)

lemma check_stale_fields [simp]:
  "vs_limits (check_stale now s) = vs_limits s" "vs_other_stream (check_stale now s) = vs_other_stream s"
  "vs_malformed (check_stale now s) = vs_malformed s"
  by (simp_all add: check_stale_def split_beta)

lemma due_deadline: "stale_due now t \<Longrightarrow> \<exists>d. tr_deadline t = Some d \<and> d \<le> now"
  by (auto simp: stale_due_def split: option.splits)

interpretation sv_timer: timed_core sv_sub_on_timeout sv_sub_next_timeout "\<lambda>_ s. \<forall>t \<in> set (vs_streams s). deadline_live t"
proof
  fix s now
  assume e: "\<And>d. sv_sub_next_timeout s = Some d \<Longrightarrow> now < d"
  have "\<not> stale_due now t" if "t \<in> set (vs_streams s)" for t
  proof
    assume "stale_due now t"
    then obtain d where d: "tr_deadline t = Some d" "d \<le> now" using due_deadline by blast
    then have "Some d \<in> set (map tr_deadline (vs_streams s))" using that by force
    then obtain m where m: "sv_sub_next_timeout s = Some m" "m \<le> d"
      by (cases "sv_sub_next_timeout s") (auto simp: sv_sub_next_timeout_def earliest_None earliest_Some)
    show False using e [OF m(1)] m(2) d(2) by simp
  qed
  then show "sv_sub_on_timeout now s = s"
    by (simp add: sv_sub_on_timeout_def check_stale_def check_stale_from_idle sv_push_all_def)
next
  fix now s d
  assume ok: "\<forall>t \<in> set (vs_streams s). deadline_live t" and n: "sv_sub_next_timeout (sv_sub_on_timeout now s) = Some d"
  obtain t where t: "t \<in> set (vs_streams s)" "tr_deadline (if stale_due now t then mark_stale t else t) = Some d"
    using n by (auto simp: sv_sub_next_timeout_def earliest_Some sv_sub_on_timeout_def check_stale_streams)
  then have "\<not> stale_due now t" "tr_deadline t = Some d" by (auto simp: mark_stale_def split: if_splits)
  then show "now < d" using ok t(1) by (auto simp: stale_due_def deadline_live_def)
qed

section \<open>Gaps\<close>

lemma tc_wrap_bounds: "0 < unat (tc_wrap c)" "unat (tc_wrap c) \<le> 65536"
  using smp_cnt_wrap_bounds by (simp_all add: tc_wrap_def)

text \<open>How many counts modulo \<open>w\<close> are missing between the last one and \<open>c\<close>.\<close>

definition gap_of :: "nat \<Rightarrow> u16 option \<Rightarrow> u16 \<Rightarrow> nat" where
  "gap_of w l c = (case l of None \<Rightarrow> 0 | Some l \<Rightarrow> (unat c + w - (unat l + 1) mod w) mod w)"

fun gaps_of :: "nat \<Rightarrow> u16 option \<Rightarrow> u16 list \<Rightarrow> nat" where
  "gaps_of w l [] = 0"
| "gaps_of w l (c # cs) = gap_of w l c + gaps_of w (Some c) cs"

lemma mod_add_inject:
  fixes a i j w :: nat
  assumes "(a + i) mod w = (a + j) mod w" "i < w" "j < w"
  shows "i = j"
proof -
  have "i \<le> j \<Longrightarrow> (a + j) mod w = (a + i) mod w \<Longrightarrow> i < w \<Longrightarrow> j < w \<Longrightarrow> i = j" for i j
  proof -
    assume h: "i \<le> j" "(a + j) mod w = (a + i) mod w" "i < w" "j < w"
    then have "w dvd (a + j) - (a + i)" by (subst mod_eq_dvd_iff_nat [symmetric]) simp_all
    then show "i = j" using h(1,4) by (auto dest!: dvd_imp_le)
  qed
  then show ?thesis using assms by (metis nat_le_linear)
qed

lemma gap_of_char:
  assumes "0 < w" "unat c < w"
  shows "gap_of w (Some l) c < w" "(unat l + 1 + gap_of w (Some l) c) mod w = unat c"
    "k < w \<Longrightarrow> (unat l + 1 + k) mod w = unat c \<Longrightarrow> k = gap_of w (Some l) c"
proof -
  let ?e = "(unat l + 1) mod w"
  have e: "?e < w" using assms(1) by simp
  show "gap_of w (Some l) c < w" using assms(1) by (simp add: gap_of_def)
  show m: "(unat l + 1 + gap_of w (Some l) c) mod w = unat c"
  proof -
    have "(unat l + 1 + gap_of w (Some l) c) mod w = (?e + (unat c + w - ?e)) mod w"
      unfolding gap_of_def option.case by (metis mod_add_left_eq mod_add_right_eq)
    also have "?e + (unat c + w - ?e) = unat c + w" using e by simp
    finally show ?thesis using assms(2) by simp
  qed
  show "k < w \<Longrightarrow> (unat l + 1 + k) mod w = unat c \<Longrightarrow> k = gap_of w (Some l) c"
  proof -
    assume k: "k < w" "(unat l + 1 + k) mod w = unat c"
    have "(unat l + 1 + k) mod w = (unat l + 1 + gap_of w (Some l) c) mod w" using k(2) m by simp
    then show ?thesis using mod_add_inject k(1) \<open>gap_of w (Some l) c < w\<close> by blast
  qed
qed

lemma unat_expected_cnt: "unat w \<le> 65536 \<Longrightarrow> 0 < unat w \<Longrightarrow> unat (expected_cnt w l) = (unat l + 1) mod unat w"
proof -
  assume w: "unat w \<le> 65536" "0 < unat w"
  have "unat (ucast l + 1 :: u32) = unat l + 1"
    using unat_lt_exp [of l] by (subst unat_plus_le) (simp_all add: unat_ucast_up)
  then have "unat ((ucast l + 1) mod w) = (unat l + 1) mod unat w" by (simp add: unat_mod)
  moreover have "(unat l + 1) mod unat w < 65536" using w by (intro less_le_trans [OF mod_less_divisor]) simp_all
  ultimately show ?thesis by (simp add: expected_cnt_def unat_ucast_down)
qed

lemma unat_lost_samples:
  assumes "0 < unat w" "unat w \<le> 65536"
  shows "unat (lost_samples w (expected_cnt w l) c) = gap_of (unat w) (Some l) c"
proof -
  let ?e = "expected_cnt w l"
  have e: "unat ?e < unat w" using assms by (simp add: unat_expected_cnt)
  have a: "unat (ucast c + w :: u32) = unat c + unat w"
    using unat_lt_exp [of c] assms(2) by (subst unat_plus_le) (simp_all add: unat_ucast_up)
  have "unat (ucast c + w - ucast ?e :: u32) = unat c + unat w - unat ?e"
    using e by (subst unat_sub) (simp_all add: word_le_nat_alt a unat_ucast_up)
  then show ?thesis using assms by (simp add: lost_samples_def unat_mod gap_of_def unat_expected_cnt)
qed

lemma count_gap_state:
  assumes "unat (av_smp_cnt a) < unat (tc_wrap (tr_cfg t))"
  defines "g \<equiv> gap_of (unat (tc_wrap (tr_cfg t))) (tt_last_smp_cnt (tr_state t)) (av_smp_cnt a)"
  shows "count_gap i a t = (if g = 0 then ([], t)
    else ([SvGap i (expected_cnt (tc_wrap (tr_cfg t)) (the (tt_last_smp_cnt (tr_state t)))) (av_smp_cnt a) (of_nat g)],
      upd_state (\<lambda>x. x\<lparr> tt_gaps := sat_add (tt_gaps x) 1, tt_samples_lost := sat_add (tt_samples_lost x) (of_nat g) \<rparr>) t))"
proof (cases "tt_last_smp_cnt (tr_state t)")
  case None
  then show ?thesis by (simp add: count_gap_def g_def gap_of_def)
next
  case (Some l)
  let ?w = "tc_wrap (tr_cfg t)"
  note w = tc_wrap_bounds [of "tr_cfg t"]
  have u: "unat (lost_samples ?w (expected_cnt ?w l) (av_smp_cnt a)) = g" using unat_lost_samples [OF w] by (simp add: g_def Some)
  have of: "lost_samples ?w (expected_cnt ?w l) (av_smp_cnt a) = of_nat g" "ucast (lost_samples ?w (expected_cnt ?w l) (av_smp_cnt a)) = (of_nat g :: u64)"
    unfolding u [symmetric] by simp_all
  have "av_smp_cnt a = expected_cnt ?w l \<longleftrightarrow> g = 0"
  proof -
    have "av_smp_cnt a = expected_cnt ?w l \<longleftrightarrow> unat (av_smp_cnt a) = (unat l + 1) mod unat ?w"
      using w by (simp add: word_unat_eq_iff unat_expected_cnt)
    also have "\<dots> \<longleftrightarrow> g = 0"
      using gap_of_char(2) [OF w(1) assms(1), of l] gap_of_char(3) [OF w(1) assms(1), where l = l and k = 0] w(1)
      by (auto simp: g_def Some)
    finally show ?thesis .
  qed
  then show ?thesis using of by (simp add: count_gap_def Let_def Some)
qed

section \<open>Accepting one ASDU\<close>

text \<open>The top of a saturating counter.\<close>

abbreviation counter_max :: nat where
  "counter_max \<equiv> 2 ^ 64 - 1"

definition suits :: "sv_stream \<Rightarrow> asdu_view \<Rightarrow> bool" where
  "suits t a \<longleftrightarrow> (\<forall>r. tc_expected_conf_rev (tr_cfg t) = Some r \<longrightarrow> r = av_conf_rev a) \<and>
     (\<forall>l. tc_layout (tr_cfg t) = Some l \<longrightarrow> layout_fits l (length (av_sample a)))"

text \<open>The part of a stream that the numbering of samples rests on.\<close>

definition numbering :: "sv_stream \<Rightarrow> sv_stream_config \<times> u16 option \<times> u64 \<times> u64 \<times> bool" where
  "numbering t = (tr_cfg t, tt_last_smp_cnt (tr_state t), tt_samples_lost (tr_state t), tt_asdus (tr_state t), tt_simulation_active (tr_state t))"

lemma numbering_kept:
  "numbering (snd (track_synch i a t)) = numbering t" "numbering (snd (track_gm i a t)) = numbering t"
  "numbering (snd (resume i t)) = numbering t"
  by (simp_all add: track_synch_def track_gm_def resume_def Let_def numbering_def)

lemma accept_suits:
  assumes "suits t a" "unat (av_smp_cnt a) < unat (tc_wrap (tr_cfg t))"
  obtains es t' where "sv_accept i now a t = (True, es, t')" "tr_cfg t' = tr_cfg t"
    "tt_last_smp_cnt (tr_state t') = Some (av_smp_cnt a)"
    "unat (tt_samples_lost (tr_state t')) = min counter_max (unat (tt_samples_lost (tr_state t)) +
      gap_of (unat (tc_wrap (tr_cfg t))) (tt_last_smp_cnt (tr_state t)) (av_smp_cnt a))"
    "unat (tt_asdus (tr_state t')) = min counter_max (unat (tt_asdus (tr_state t)) + 1)"
    "tt_simulation_active (tr_state t') = tt_simulation_active (tr_state t)"
proof -
  let ?w = "unat (tc_wrap (tr_cfg t))"
  let ?g = "gap_of ?w (tt_last_smp_cnt (tr_state t)) (av_smp_cnt a)"
  obtain t1 where t1: "check_conf_rev i a t = (True, [], t1)" "numbering t1 = numbering t"
    using assms(1) by (cases "tc_expected_conf_rev (tr_cfg t)") (auto simp: check_conf_rev_def suits_def numbering_def)
  then have c1: "tr_cfg t1 = tr_cfg t" by (simp add: numbering_def)
  obtain t2 where t2: "check_layout i a t1 = (True, [], t2)" "numbering t2 = numbering t"
    using assms(1) t1(2) by (cases "tc_layout (tr_cfg t1)") (auto simp: check_layout_def suits_def c1 numbering_def)
  then have c2: "tr_cfg t2 = tr_cfg t" "tt_last_smp_cnt (tr_state t2) = tt_last_smp_cnt (tr_state t)"
    "tt_samples_lost (tr_state t2) = tt_samples_lost (tr_state t)" "tt_asdus (tr_state t2) = tt_asdus (tr_state t)"
    "tt_simulation_active (tr_state t2) = tt_simulation_active (tr_state t)" by (simp_all add: numbering_def)
  have g: "?g < 65536"
    using gap_of_char(1) [OF tc_wrap_bounds(1) assms(2)] tc_wrap_bounds(2) [of "tr_cfg t"]
    by (cases "tt_last_smp_cnt (tr_state t)") (auto simp: gap_of_def intro: less_le_trans)
  then have ug: "unat (of_nat ?g :: u64) = ?g" by (subst unat_of_nat) simp
  obtain e3 t3 where t3: "count_gap i a t2 = (e3, t3)" "tr_cfg t3 = tr_cfg t"
    "unat (tt_samples_lost (tr_state t3)) = min counter_max (unat (tt_samples_lost (tr_state t)) + ?g)"
    "tt_asdus (tr_state t3) = tt_asdus (tr_state t)" "tt_simulation_active (tr_state t3) = tt_simulation_active (tr_state t)"
    using count_gap_state [of a t2 i] assms(2) unat_le_max [of "tt_samples_lost (tr_state t)"]
    by (auto simp: c2 unat_sat_add ug min.commute split: if_splits)
  define t4 where "t4 = upd_state (\<lambda>x. x\<lparr> tt_conf_rev := Some (av_conf_rev a) \<rparr>) t3"
  obtain e5 t5 where t5: "track_synch i a t4 = (e5, t5)" "numbering t5 = numbering t4"
    using numbering_kept(1) [of i a t4] by (cases "track_synch i a t4") simp
  obtain e6 t6 where t6: "track_gm i a t5 = (e6, t6)" "numbering t6 = numbering t4"
    using numbering_kept(2) [of i a t5] t5(2) by (cases "track_gm i a t5") simp
  obtain e7 t7 where t7: "resume i t6 = (e7, t7)" "numbering t7 = numbering t4"
    using numbering_kept(3) [of i t6] t6(2) by (cases "resume i t6") simp
  have "sv_accept i now a t = (True, e3 @ e5 @ e6 @ e7, record_asdu now a t7)"
    by (simp add: sv_accept_def t1(1) t2(1) t3(1) t5(1) t6(1) t7(1) flip: t4_def)
  then show thesis
    using that t3(2-5) t7(2) by (simp add: record_asdu_def numbering_def t4_def unat_sat_add)
qed

section \<open>Accepting a frame\<close>

definition sim_admits :: "bool \<Rightarrow> sv_stream \<Rightarrow> bool" where
  "sim_admits sim t \<longleftrightarrow> (if sim then tc_simulation (tr_cfg t) = SvSimPreferred \<and>
       (tt_simulation_active (tr_state t) \<or> tt_last_smp_cnt (tr_state t) = None)
     else tc_simulation (tr_cfg t) = SvSimOff \<or> \<not> tt_simulation_active (tr_state t))"

lemma policy_admits:
  assumes "sim_admits sim t"
  obtains es t' where "sv_policy i sim t = (True, es, t')" "tr_cfg t' = tr_cfg t"
    "tt_last_smp_cnt (tr_state t') = tt_last_smp_cnt (tr_state t)" "tt_samples_lost (tr_state t') = tt_samples_lost (tr_state t)"
    "tt_asdus (tr_state t') = tt_asdus (tr_state t)" "tt_simulation_active (tr_state t') = (tt_simulation_active (tr_state t) \<or> sim)"
  using assms by (cases sim; cases "tc_simulation (tr_cfg t)"; cases "tt_simulation_active (tr_state t)")
    (auto simp: sim_admits_def sv_policy_def)

abbreviation configs :: "sv_subscriber \<Rightarrow> sv_stream_config list" where
  "configs s \<equiv> map tr_cfg (vs_streams s)"

lemma position_map: "position (\<lambda>x. P (f x)) xs = position P (map f xs)"
  by (induction xs) simp_all

lemma stream_of_configs: "configs s' = configs s \<Longrightarrow> stream_of fr a s' = stream_of fr a s"
  unfolding stream_of_def by (subst (1 2) position_map [of _ tr_cfg]) simp

text \<open>What feeding counts to stream \<open>i\<close> does to it.\<close>

definition advanced :: "nat \<Rightarrow> bool \<Rightarrow> u16 list \<Rightarrow> sv_subscriber \<Rightarrow> sv_subscriber \<Rightarrow> bool" where
  "advanced i sim cs s s' \<longleftrightarrow> (let t = vs_streams s ! i; t' = vs_streams s' ! i in
     configs s' = configs s \<and> vs_limits s' = vs_limits s \<and> vs_other_stream s' = vs_other_stream s \<and> vs_malformed s' = vs_malformed s \<and>
     tt_last_smp_cnt (tr_state t') = (if cs = [] then tt_last_smp_cnt (tr_state t) else Some (last cs)) \<and>
     unat (tt_samples_lost (tr_state t')) = min counter_max (unat (tt_samples_lost (tr_state t)) +
       gaps_of (unat (tc_wrap (tr_cfg t))) (tt_last_smp_cnt (tr_state t)) cs) \<and>
     unat (tt_asdus (tr_state t')) = min counter_max (unat (tt_asdus (tr_state t)) + length cs) \<and>
     tt_simulation_active (tr_state t') = (tt_simulation_active (tr_state t) \<or> sim \<and> cs \<noteq> []))"

lemma advanced_refl: "advanced i sim [] s s"
  using unat_le_max [of "tt_samples_lost (tr_state (vs_streams s ! i))"] unat_le_max [of "tt_asdus (tr_state (vs_streams s ! i))"]
  by (simp add: advanced_def Let_def)

lemma counter_chain: "min counter_max (min counter_max x + y) = min counter_max (x + y)"
  by linarith

lemma advancedD:
  assumes "advanced i sim cs s s'"
  shows "configs s' = configs s" "vs_limits s' = vs_limits s" "vs_other_stream s' = vs_other_stream s" "vs_malformed s' = vs_malformed s"
    "tt_last_smp_cnt (tr_state (vs_streams s' ! i)) = (if cs = [] then tt_last_smp_cnt (tr_state (vs_streams s ! i)) else Some (last cs))"
    "unat (tt_samples_lost (tr_state (vs_streams s' ! i))) = min counter_max (unat (tt_samples_lost (tr_state (vs_streams s ! i))) +
       gaps_of (unat (tc_wrap (tr_cfg (vs_streams s ! i)))) (tt_last_smp_cnt (tr_state (vs_streams s ! i))) cs)"
    "unat (tt_asdus (tr_state (vs_streams s' ! i))) = min counter_max (unat (tt_asdus (tr_state (vs_streams s ! i))) + length cs)"
    "tt_simulation_active (tr_state (vs_streams s' ! i)) = (tt_simulation_active (tr_state (vs_streams s ! i)) \<or> sim \<and> cs \<noteq> [])"
    "length (vs_streams s') = length (vs_streams s)"
  using assms unfolding advanced_def Let_def by (blast | metis length_map)+

lemma advanced_cfg: "advanced i sim cs s s' \<Longrightarrow> j < length (vs_streams s) \<Longrightarrow> tr_cfg (vs_streams s' ! j) = tr_cfg (vs_streams s ! j)"
  using advancedD(1,9) by (metis nth_map)

lemma gaps_of_append: "gaps_of w l (cs @ ds) = gaps_of w l cs + gaps_of w (if cs = [] then l else Some (last cs)) ds"
  by (induction cs arbitrary: l) simp_all

lemma advanced_trans:
  assumes "advanced i sim cs s s'" "advanced i sim ds s' s''" "i < length (vs_streams s)"
  shows "advanced i sim (cs @ ds) s s''"
proof -
  note c = advanced_cfg [OF assms(1,3)] and d = advancedD [OF assms(1)] and e = advancedD [OF assms(2)]
  have l: "tt_last_smp_cnt (tr_state (vs_streams s'' ! i)) =
      (if cs @ ds = [] then tt_last_smp_cnt (tr_state (vs_streams s ! i)) else Some (last (cs @ ds)))"
    unfolding e(5) d(5) by simp
  have g: "unat (tt_samples_lost (tr_state (vs_streams s'' ! i))) = min counter_max (unat (tt_samples_lost (tr_state (vs_streams s ! i))) +
       gaps_of (unat (tc_wrap (tr_cfg (vs_streams s ! i)))) (tt_last_smp_cnt (tr_state (vs_streams s ! i))) (cs @ ds))"
    unfolding e(6) d(5,6) c counter_chain gaps_of_append by (simp only: add.assoc)
  have n: "unat (tt_asdus (tr_state (vs_streams s'' ! i))) = min counter_max (unat (tt_asdus (tr_state (vs_streams s ! i))) + length (cs @ ds))"
    unfolding e(7) d(7) counter_chain by (simp add: add.assoc)
  have m: "tt_simulation_active (tr_state (vs_streams s'' ! i)) = (tt_simulation_active (tr_state (vs_streams s ! i)) \<or> sim \<and> cs @ ds \<noteq> [])"
    unfolding e(8) d(8) by auto
  show ?thesis unfolding advanced_def Let_def
    using l g n m d(1-4) e(1-4) by (intro conjI) simp_all
qed

lemma advanced_one:
  assumes "i < length (vs_streams s)" "vs_streams s' = (vs_streams s)[i := t']" "tr_cfg t' = tr_cfg (vs_streams s ! i)"
    "vs_limits s' = vs_limits s" "vs_other_stream s' = vs_other_stream s" "vs_malformed s' = vs_malformed s"
    "tt_last_smp_cnt (tr_state t') = Some c"
    "unat (tt_samples_lost (tr_state t')) = min counter_max (unat (tt_samples_lost (tr_state (vs_streams s ! i))) +
      gap_of (unat (tc_wrap (tr_cfg (vs_streams s ! i)))) (tt_last_smp_cnt (tr_state (vs_streams s ! i))) c)"
    "unat (tt_asdus (tr_state t')) = min counter_max (unat (tt_asdus (tr_state (vs_streams s ! i))) + 1)"
    "tt_simulation_active (tr_state t') = (tt_simulation_active (tr_state (vs_streams s ! i)) \<or> sim)"
  shows "advanced i sim [c] s s'"
proof -
  have "vs_streams s' ! i = t'" using assms(1,2) by simp
  moreover have "configs s' = configs s"
    using assms(1-3) by (simp only: map_update) (rule list_update_same_conv [THEN iffD2]; simp)
  ultimately show ?thesis unfolding advanced_def Let_def using assms(4-10) by simp
qed

lemma one_asdu:
  assumes i: "i < length (vs_streams s)" and t: "sim_admits sim (vs_streams s ! i)" "suits (vs_streams s ! i) a"
    "unat (av_smp_cnt a) < unat (tc_wrap (tr_cfg (vs_streams s ! i)))"
  obtains s1 s2 where "on_stream i (sv_policy i sim) s = (True, s1)" "on_stream i (sv_accept i now a) s1 = (True, s2)"
    "advanced i sim [av_smp_cnt a] s s2" "advanced i sim [av_smp_cnt a] s (count_frame i s2)"
proof -
  let ?t = "vs_streams s ! i"
  obtain e1 t1 where p: "sv_policy i sim ?t = (True, e1, t1)" "tr_cfg t1 = tr_cfg ?t"
    "tt_last_smp_cnt (tr_state t1) = tt_last_smp_cnt (tr_state ?t)" "tt_samples_lost (tr_state t1) = tt_samples_lost (tr_state ?t)"
    "tt_asdus (tr_state t1) = tt_asdus (tr_state ?t)" "tt_simulation_active (tr_state t1) = (tt_simulation_active (tr_state ?t) \<or> sim)"
    by (rule policy_admits [OF t(1)])
  have "suits t1 a" "unat (av_smp_cnt a) < unat (tc_wrap (tr_cfg t1))" using t(2,3) p(2) by (simp_all add: suits_def)
  then obtain e2 t2 where q: "sv_accept i now a t1 = (True, e2, t2)" "tr_cfg t2 = tr_cfg t1"
    "tt_last_smp_cnt (tr_state t2) = Some (av_smp_cnt a)"
    "unat (tt_samples_lost (tr_state t2)) = min counter_max (unat (tt_samples_lost (tr_state t1)) +
      gap_of (unat (tc_wrap (tr_cfg t1))) (tt_last_smp_cnt (tr_state t1)) (av_smp_cnt a))"
    "unat (tt_asdus (tr_state t2)) = min counter_max (unat (tt_asdus (tr_state t1)) + 1)"
    "tt_simulation_active (tr_state t2) = tt_simulation_active (tr_state t1)"
    by (rule accept_suits)
  define s1 where "s1 = sv_push_all e1 (s\<lparr> vs_streams := (vs_streams s)[i := t1] \<rparr>)"
  define s2 where "s2 = sv_push_all e2 (s1\<lparr> vs_streams := (vs_streams s1)[i := t2] \<rparr>)"
  have s1: "on_stream i (sv_policy i sim) s = (True, s1)" using i p(1) by (simp add: on_stream_def get_at_def s1_def)
  have g1: "get_at (vs_streams s1) i = Some t1" using i by (simp add: s1_def get_at_def)
  have s2: "on_stream i (sv_accept i now a) s1 = (True, s2)" unfolding on_stream_def g1 option.case q(1) prod.case s2_def ..
  have st: "vs_streams s2 = (vs_streams s)[i := t2]" "vs_limits s2 = vs_limits s" "vs_other_stream s2 = vs_other_stream s" "vs_malformed s2 = vs_malformed s"
    by (simp_all add: s2_def s1_def)
  have g2: "get_at (vs_streams s2) i = Some t2" using i by (simp add: st get_at_def)
  define t3 where "t3 = upd_state (\<lambda>x. x\<lparr> tt_frames := sat_add (tt_frames x) 1 \<rparr>) t2"
  have c: "count_frame i s2 = s2\<lparr> vs_streams := (vs_streams s2)[i := t3] \<rparr>" unfolding count_frame_def g2 option.case t3_def ..
  have st3: "vs_streams (count_frame i s2) = (vs_streams s)[i := t3]" "vs_limits (count_frame i s2) = vs_limits s"
    "vs_other_stream (count_frame i s2) = vs_other_stream s" "vs_malformed (count_frame i s2) = vs_malformed s"
    by (simp_all add: c st)
  have t3: "tr_cfg t3 = tr_cfg t2" "tt_last_smp_cnt (tr_state t3) = tt_last_smp_cnt (tr_state t2)"
    "tt_samples_lost (tr_state t3) = tt_samples_lost (tr_state t2)" "tt_asdus (tr_state t3) = tt_asdus (tr_state t2)"
    "tt_simulation_active (tr_state t3) = tt_simulation_active (tr_state t2)"
    by (simp_all add: t3_def)
  have "advanced i sim [av_smp_cnt a] s s2"
    by (rule advanced_one [OF i st(1) _ st(2,3,4)]) (simp_all only: q p)
  moreover have "advanced i sim [av_smp_cnt a] s (count_frame i s2)"
    by (rule advanced_one [OF i st3(1) _ st3(2,3,4)]) (simp_all only: t3 q p)
  ultimately show thesis using that [OF s1 s2] by blast
qed

lemma asdu_loop_stream:
  assumes "i < length (vs_streams s)" "\<forall>a \<in> set vs. stream_of fr a s = Some i" "sim_admits (frame_simulation fr) (vs_streams s ! i)"
    "\<forall>a \<in> set vs. suits (vs_streams s ! i) a" "\<forall>a \<in> set vs. unat (av_smp_cnt a) < unat (tc_wrap (tr_cfg (vs_streams s ! i)))"
    "matched \<or> vs \<noteq> []"
  shows "\<exists>samples s'. asdu_loop now fr (map Inr vs) matched counted s = (samples, s') \<and> map sm_asdu samples = vs \<and>
    (\<forall>x \<in> set samples. sm_stream x = i) \<and> advanced i (frame_simulation fr) (map av_smp_cnt vs) s s'"
  using assms
proof (induction vs arbitrary: s matched counted)
  case Nil
  then show ?case by (simp add: advanced_refl)
next
  case (Cons a vs)
  let ?sim = "frame_simulation fr" and ?t = "vs_streams s ! i"
  have "suits ?t a" "unat (av_smp_cnt a) < unat (tc_wrap (tr_cfg ?t))" using Cons.prems by simp_all
  then obtain s1 s2 where s: "on_stream i (sv_policy i ?sim) s = (True, s1)" "on_stream i (sv_accept i now a) s1 = (True, s2)"
    "advanced i ?sim [av_smp_cnt a] s s2" "advanced i ?sim [av_smp_cnt a] s (count_frame i s2)"
    by (rule one_asdu [OF Cons.prems(1,3)])
  let ?s3 = "if counted \<noteq> Some i then count_frame i s2 else s2"
  have adv: "advanced i ?sim [av_smp_cnt a] s ?s3" using s(3,4) by simp
  then have c: "configs ?s3 = configs s" unfolding advanced_def Let_def by blast
  then have l: "length (vs_streams ?s3) = length (vs_streams s)" "tr_cfg (vs_streams ?s3 ! i) = tr_cfg ?t"
    using Cons.prems(1) by (metis length_map, metis length_map nth_map)
  have "sim_admits ?sim (vs_streams ?s3 ! i)"
    using Cons.prems(3) adv l(2) by (auto simp: sim_admits_def advanced_def Let_def split: if_splits)
  moreover have "\<forall>a \<in> set vs. stream_of fr a ?s3 = Some i" using Cons.prems(2) stream_of_configs [OF c] by simp
  moreover have "\<forall>a \<in> set vs. suits (vs_streams ?s3 ! i) a" "\<forall>a \<in> set vs. unat (av_smp_cnt a) < unat (tc_wrap (tr_cfg (vs_streams ?s3 ! i)))"
    using Cons.prems(4,5) l(2) by (simp_all add: suits_def)
  ultimately obtain samples s' where r: "asdu_loop now fr (map Inr vs) True (Some i) ?s3 = (samples, s')" "map sm_asdu samples = vs"
    "\<forall>x \<in> set samples. sm_stream x = i" "advanced i ?sim (map av_smp_cnt vs) ?s3 s'"
    using Cons.IH [of ?s3 True "Some i"] Cons.prems(1) l(1) by auto
  have "asdu_loop now fr (map Inr (a # vs)) matched counted s = (sample_of i a ?sim ?s3 # samples, s')"
    using Cons.prems(2) s(1,2) r(1) by (simp add: Let_def)
  moreover have "advanced i ?sim (map av_smp_cnt (a # vs)) s s'" using advanced_trans [OF adv r(4) Cons.prems(1)] by simp
  ultimately show ?case using r(2,3) by (simp add: sample_of_def)
qed

section \<open>From the publisher to the consumer\<close>

text \<open>
  Stream \<open>i\<close> is the first that listens for a publisher configured by \<open>cfg\<close>, and agrees with it on the
  revision, the sample block, the wrap and the limits.
\<close>

definition listens :: "sv_pub_config \<Rightarrow> sv_stream_config \<Rightarrow> bool" where
  "listens cfg c \<longleftrightarrow> vk_dst (tc_key c) = fh_dst (vc_header cfg) \<and> vk_appid (tc_key c) = fh_appid (vc_header cfg) \<and>
     vk_sv_id (tc_key c) = vc_sv_id cfg"

definition subscribed :: "sv_pub_config \<Rightarrow> nat \<Rightarrow> sv_stream_config list \<Rightarrow> limits \<Rightarrow> bool" where
  "subscribed cfg i cs l \<longleftrightarrow> position (listens cfg) cs = Some i \<and> i < length cs \<and>
     fh_ethertype (vc_header cfg) = ETHERTYPE_SV \<and> cfg_asdus cfg \<le> max_asdus l \<and>
     (\<forall>r. tc_expected_conf_rev (cs ! i) = Some r \<longrightarrow> r = vc_conf_rev cfg) \<and>
     (\<forall>y. tc_layout (cs ! i) = Some y \<longrightarrow> lay_len y = pf_sample_len (vc_profile cfg)) \<and>
     tc_wrap (cs ! i) = profile_wrap (vc_profile cfg)"

lemma position_bound: "position P xs = Some i \<Longrightarrow> i < length xs \<and> P (xs ! i)"
  by (induction xs arbitrary: i) (auto split: if_splits)

lemma sv_link_fields:
  "fh_dst (sv_link cfg) = fh_dst (vc_header cfg)" "fh_appid (sv_link cfg) = fh_appid (vc_header cfg)"
  "fh_ethertype (sv_link cfg) = fh_ethertype (vc_header cfg)"
  by (simp_all add: sv_link_def Let_def)

lemma sv_link_simulation: "frame_simulation (frame_of (sv_link cfg) apdu) \<longleftrightarrow> vc_simulation cfg"
  using simulation_flag [of "vc_simulation cfg" "fh_reserved1 (vc_header cfg)"]
  by (simp add: frame_simulation_def frame_of_def sv_link_def Let_def)

lemma mark_stale_numbering: "numbering (mark_stale t) = numbering t"
  by (simp add: mark_stale_def numbering_def)

lemma check_stale_advanced: "i < length (vs_streams s) \<Longrightarrow> advanced i sim [] s (check_stale now s)"
proof -
  assume i: "i < length (vs_streams s)"
  let ?t = "vs_streams s ! i"
  have "numbering (vs_streams (check_stale now s) ! i) = numbering ?t"
    using i by (simp add: check_stale_streams mark_stale_numbering)
  moreover have "configs (check_stale now s) = configs s" by (simp add: check_stale_streams mark_stale_def)
  ultimately show ?thesis
    using unat_le_max [of "tt_samples_lost (tr_state ?t)"] unat_le_max [of "tt_asdus (tr_state ?t)"]
    by (simp add: advanced_def Let_def numbering_def)
qed

lemma published_frame_accepted:
  assumes c: "carries p ws as" "subscribed (vp_cfg p) i (configs s) (vs_limits s)" "sim_admits (vc_simulation (vp_cfg p)) (vs_streams s ! i)"
    and n: "\<forall>a \<in> set as. unat (as_smp_cnt a) < cfg_wrap (vp_cfg p)"
  obtains samples s' where "sv_sub_on_frame now (vp_frame p) s = (samples, s')" "map (asdu_of_view \<circ> sm_asdu) samples = as"
    "\<forall>x \<in> set samples. sm_stream x = i" "advanced i (vc_simulation (vp_cfg p)) (map as_smp_cnt as) s s'"
proof -
  let ?cfg = "vp_cfg p" and ?s = "check_stale now s"
  note cd = carriesD [OF c(1)] and u = c(2) [unfolded subscribed_def]
  have i: "i < length (vs_streams s)" using u by simp
  define xs where "xs = sized (cnt_width ?cfg) ws as"
  define fr where "fr = frame_of (sv_link ?cfg) (savpdu_octets xs)"
  let ?vs = "asdu_views (asdus_base xs) xs"
  have vs: "map asdu_of_view ?vs = as" by (simp add: xs_def sized_def comp_def)
  obtain v where v: "savpdu_parse (savpdu_octets xs) (vs_limits s) = Inr v" "savpdu_asdus v = map Inr ?vs"
    using carries_parses(2) [OF c(1), of "vs_limits s"] u cd(2) by (auto simp: xs_def)
  have f: "frame_parse (vp_frame p) = Inr fr" using carries_parses(1) [OF c(1), of "vs_limits s" "[]"] u cd(2) by (simp add: xs_def fr_def)
  have fr: "fr_ethertype fr = ETHERTYPE_SV" "fr_dst fr = fh_dst (vc_header ?cfg)" "fr_appid fr = fh_appid (vc_header ?cfg)"
    "fr_apdu fr = savpdu_octets xs" "frame_simulation fr = vc_simulation ?cfg"
    using u by (simp_all add: fr_def sv_link_simulation) (simp_all add: frame_of_def sv_link_fields)
  have a0: "advanced i (vc_simulation ?cfg) [] s ?s" by (rule check_stale_advanced [OF i])
  note d0 = advancedD [OF a0]
  have l: "listens ?cfg (configs s ! i)" using position_bound u by blast
  have ad: "sv_addressed ?s (fr_dst fr) (fr_appid fr)"
    using l i d0(1,9) advanced_cfg [OF a0 i] unfolding sv_addressed_def list_ex_length
    by (intro exI [of _ i]) (simp add: listens_def fr)
  have fits: "as_sv_id (asdu_of_view a) = vc_sv_id ?cfg" "as_conf_rev (asdu_of_view a) = vc_conf_rev ?cfg"
    "length (as_sample (asdu_of_view a)) = pf_sample_len (vc_profile ?cfg)" "unat (as_smp_cnt (asdu_of_view a)) < cfg_wrap ?cfg"
    if "a \<in> set ?vs" for a
  proof -
    have m: "asdu_of_view a \<in> set as" using that vs by (metis image_eqI list.set_map)
    then show "as_sv_id (asdu_of_view a) = vc_sv_id ?cfg" "as_conf_rev (asdu_of_view a) = vc_conf_rev ?cfg"
      "length (as_sample (asdu_of_view a)) = pf_sample_len (vc_profile ?cfg)"
      using cd(3) by (auto simp: list_all_iff asdu_fits_def same_shape_def template_asdu_def)
    show "unat (as_smp_cnt (asdu_of_view a)) < cfg_wrap ?cfg" using n m by blast
  qed
  have st: "stream_of fr a ?s = Some i" if "a \<in> set ?vs" for a
  proof -
    have "stream_of fr a ?s = position (listens ?cfg) (configs ?s)"
      unfolding stream_of_def fr listens_def fits(1) [OF that, unfolded asdu_of_view_def, simplified]
      by (subst position_map [symmetric]) simp
    then show ?thesis using u d0(1) by simp
  qed
  have su: "suits (vs_streams ?s ! i) a" if "a \<in> set ?vs" for a
    using fits(2,3) [OF that] u i advanced_cfg [OF a0 i] by (auto simp: suits_def layout_fits_def asdu_of_view_def)
  have cw: "unat (av_smp_cnt a) < unat (tc_wrap (tr_cfg (vs_streams ?s ! i)))" if "a \<in> set ?vs" for a
    using fits(4) [OF that] u i advanced_cfg [OF a0 i] by (simp add: asdu_of_view_def)
  have sa: "sim_admits (frame_simulation fr) (vs_streams ?s ! i)"
    using c(3) d0(5,8) advanced_cfg [OF a0 i] by (simp add: sim_admits_def fr)
  have "0 < length as" using cd(1,2) by (simp add: sv_cfg_ok_def unat_gt_0)
  moreover have "length ?vs = length as" using vs by (metis length_map)
  ultimately have ne: "?vs \<noteq> []" by (metis less_irrefl list.size(3))
  obtain samples s' where r: "asdu_loop now fr (map Inr ?vs) False None ?s = (samples, s')" "map sm_asdu samples = ?vs"
    "\<forall>x \<in> set samples. sm_stream x = i" "advanced i (frame_simulation fr) (map av_smp_cnt ?vs) ?s s'"
    using asdu_loop_stream [of i ?s ?vs fr False now None] i d0(9) st su cw sa ne by auto
  have "sv_sub_on_frame now (vp_frame p) s = (samples, s')"
    using f fr(1,4) ad v r(1) d0(2) by (simp add: sv_sub_on_frame_def Let_def)
  moreover have "map (asdu_of_view \<circ> sm_asdu) samples = as" using r(2) vs by (metis list.map_comp)
  moreover have "map av_smp_cnt ?vs = map as_smp_cnt as" using vs by (metis (no_types, lifting) asdu_of_view_def asdu.select_convs(3) list.map_comp comp_apply map_eq_conv)
  then have "advanced i (vc_simulation ?cfg) (map as_smp_cnt as) s s'"
    using advanced_trans [OF a0 r(4) [unfolded fr] i] by simp
  ultimately show thesis using that r(3) by blast
qed

text \<open>Publications, each delivered to the subscriber or lost on the way.\<close>

type_synonym publication = "instant \<times> bytes list \<times> bool"

fun sv_run :: "publication list \<Rightarrow> sv_publisher \<Rightarrow> sv_subscriber \<Rightarrow> sample list \<times> sv_publisher \<times> sv_subscriber" where
  "sv_run [] p s = ([], p, s)"
| "sv_run ((now, blocks, delivered) # rs) p s =
     (case sv_poll_transmit (snd (sv_publish now blocks p)) of
       (Some frame, p) \<Rightarrow>
         if delivered then (case sv_sub_on_frame now frame s of (xs, s) \<Rightarrow> (case sv_run rs p s of (ys, r) \<Rightarrow> (xs @ ys, r)))
         else sv_run rs p s
     | (None, p) \<Rightarrow> sv_run rs p s)"

definition delivered_blocks :: "publication list \<Rightarrow> bytes list" where
  "delivered_blocks rs = concat (map (\<lambda>(_, blocks, delivered). if delivered then blocks else []) rs)"

text \<open>The samples lost before a delivered frame, with \<open>m\<close> already lost; no burst may span a whole wrap.\<close>

fun lost_between :: "nat \<Rightarrow> nat \<Rightarrow> publication list \<Rightarrow> nat" where
  "lost_between n m [] = 0"
| "lost_between n m ((_, _, delivered) # rs) = (if delivered then m + lost_between n 0 rs else lost_between n (m + n) rs)"

fun short_bursts :: "nat \<Rightarrow> nat \<Rightarrow> nat \<Rightarrow> publication list \<Rightarrow> bool" where
  "short_bursts w n m [] = True"
| "short_bursts w n m ((_, _, delivered) # rs) = (if delivered then m < w \<and> short_bursts w n 0 rs else short_bursts w n (m + n) rs)"

lemma gap_consecutive:
  assumes "0 < unat wrap" "unat wrap \<le> 65536" "unat c < unat wrap"
  shows "gaps_of (unat wrap) l (map (\<lambda>i. (next_smp_cnt wrap ^^ i) c) [0..<Suc n]) = gap_of (unat wrap) l c"
  using assms(3)
proof (induction n arbitrary: l c)
  case (Suc n)
  let ?c = "next_smp_cnt wrap c"
  have n: "unat ?c = (unat c + 1) mod unat wrap" by (rule unat_next_smp_cnt [OF Suc.prems assms(2)])
  then have lt: "unat ?c < unat wrap" using assms(1) by simp
  have z: "gap_of (unat wrap) (Some c) ?c = 0" by (simp add: gap_of_def n)
  have "map (\<lambda>i. (next_smp_cnt wrap ^^ i) c) [0..<Suc (Suc n)] = c # map (\<lambda>i. (next_smp_cnt wrap ^^ i) ?c) [0..<Suc n]"
    by (simp add: upt_0_Suc funpow_swap1 comp_def del: upt_Suc)
  then show ?case using Suc.IH [OF lt, of "Some c"] z by (simp del: upt_Suc)
qed simp

lemma poll_frame: "vp_pending p \<Longrightarrow> sv_poll_transmit p = (Some (vp_frame p), snd (sv_poll_transmit p))"
  by (simp add: sv_poll_transmit_def)

lemma poll_fields [simp]: "vp_cfg (snd (sv_poll_transmit p)) = vp_cfg p" "vp_smp_cnt (snd (sv_poll_transmit p)) = vp_smp_cnt p"
  by (simp_all add: sv_poll_transmit_def)

lemma publish_step:
  assumes s: "sv_shows p ws as" and b: "length blocks = cfg_asdus (vp_cfg p)"
    "\<forall>b \<in> set blocks. length b = pf_sample_len (vc_profile (vp_cfg p))"
  defines "next \<equiv> next_smp_cnt (profile_wrap (vc_profile (vp_cfg p)))"
  obtains q r as' where "snd (sv_publish now blocks p) = q" "sv_poll_transmit q = (Some (vp_frame q), r)" "sv_shows q ws as'" "sv_shows r ws as'"
    "vp_cfg q = vp_cfg p" "vp_cfg r = vp_cfg p" "map as_sample as' = blocks"
    "map as_smp_cnt as' = map (\<lambda>i. (next ^^ i) (vp_smp_cnt p)) [0..<cfg_asdus (vp_cfg p)]"
    "unat (vp_smp_cnt r) = (unat (vp_smp_cnt p) + cfg_asdus (vp_cfg p)) mod cfg_wrap (vp_cfg p)"
proof -
  let ?as = "map (\<lambda>i. sampled (as ! i) ((next ^^ i) (vp_smp_cnt p)) (blocks ! i)) [0..<length as]"
  obtain q where q: "sv_publish now blocks p = (Inr (), q)" "sv_shows q ws ?as"
    "q = sv_queue now (p\<lparr> vp_frame := vp_frame q, vp_smp_cnt := (next ^^ length as) (vp_smp_cnt p) \<rparr>)"
    using publish_shows [OF s b, of now] unfolding next_def by blast
  have n: "length as = cfg_asdus (vp_cfg p)" by (rule carriesD(2) [OF sv_showsD(1) [OF s]])
  have f: "vp_cfg q = vp_cfg p" "vp_pending q" "vp_smp_cnt q = (next ^^ length as) (vp_smp_cnt p)" by (subst q(3), simp)+
  let ?r = "snd (sv_poll_transmit q)"
  have "map as_sample ?as = blocks" using b(1) n by (intro nth_equalityI) (simp_all add: sampled_def)
  moreover have "map as_smp_cnt ?as = map (\<lambda>i. (next ^^ i) (vp_smp_cnt p)) [0..<cfg_asdus (vp_cfg p)]" using n by (simp add: sampled_def)
  moreover have "unat (vp_smp_cnt ?r) = (unat (vp_smp_cnt p) + cfg_asdus (vp_cfg p)) mod cfg_wrap (vp_cfg p)"
    using unat_iterated_cnt [OF sv_showsD(3) [OF s] cfg_wrap_bounds(2)] f(3) n by (simp add: next_def)
  ultimately show thesis
    using that [OF _ poll_frame [OF f(2)] q(2) poll_shows [OF q(2)]] q(1) f(1) by simp
qed

text \<open>The count the subscriber waits for is the publisher's own, \<open>m\<close> samples after its last one.\<close>

definition behind :: "nat \<Rightarrow> sv_publisher \<Rightarrow> sv_stream \<Rightarrow> bool" where
  "behind m p t \<longleftrightarrow> (\<exists>l. tt_last_smp_cnt (tr_state t) = Some l \<and> (unat l + 1 + m) mod cfg_wrap (vp_cfg p) = unat (vp_smp_cnt p))"

lemma delivered_step:
  assumes s: "sv_shows p ws as" and b: "length blocks = cfg_asdus (vp_cfg p)"
    "\<forall>b \<in> set blocks. length b = pf_sample_len (vc_profile (vp_cfg p))"
    and u: "subscribed (vp_cfg p) i (configs s) (vs_limits s)" "sim_admits (vc_simulation (vp_cfg p)) (vs_streams s ! i)"
  obtains q r as' xs s' where "sv_poll_transmit (snd (sv_publish now blocks p)) = (Some (vp_frame (q :: sv_publisher)), r)"
    "sv_sub_on_frame now (vp_frame q) s = (xs, s')" "sv_shows r ws as'" "vp_cfg r = vp_cfg p"
    "map (av_sample \<circ> sm_asdu) xs = blocks" "\<forall>x \<in> set xs. sm_stream x = i" "behind 0 r (vs_streams s' ! i)"
    "subscribed (vp_cfg p) i (configs s') (vs_limits s')" "sim_admits (vc_simulation (vp_cfg p)) (vs_streams s' ! i)"
    "unat (tt_samples_lost (tr_state (vs_streams s' ! i))) = min counter_max (unat (tt_samples_lost (tr_state (vs_streams s ! i))) +
      gap_of (cfg_wrap (vp_cfg p)) (tt_last_smp_cnt (tr_state (vs_streams s ! i))) (vp_smp_cnt p))"
    "unat (tt_asdus (tr_state (vs_streams s' ! i))) = min counter_max (unat (tt_asdus (tr_state (vs_streams s ! i))) + cfg_asdus (vp_cfg p))"
    "vs_other_stream s' = vs_other_stream s" "vs_malformed s' = vs_malformed s"
proof -
  let ?cfg = "vp_cfg p" and ?next = "next_smp_cnt (profile_wrap (vc_profile (vp_cfg p)))"
  let ?cs = "map (\<lambda>i. (?next ^^ i) (vp_smp_cnt p)) [0..<cfg_asdus ?cfg]"
  obtain q r as' where q: "snd (sv_publish now blocks p) = q" "sv_poll_transmit q = (Some (vp_frame q), r)" "sv_shows q ws as'"
    "sv_shows r ws as'" "vp_cfg q = ?cfg" "vp_cfg r = ?cfg" "map as_sample as' = blocks" "map as_smp_cnt as' = ?cs"
    "unat (vp_smp_cnt r) = (unat (vp_smp_cnt p) + cfg_asdus ?cfg) mod cfg_wrap ?cfg"
    by (rule publish_step [OF s b, of now])
  have c: "\<forall>a \<in> set as'. unat (as_smp_cnt a) < cfg_wrap (vp_cfg q)" using sv_showsD(4) [OF q(3)] by blast
  obtain xs s' where x: "sv_sub_on_frame now (vp_frame q) s = (xs, s')" "map (asdu_of_view \<circ> sm_asdu) xs = as'"
    "\<forall>x \<in> set xs. sm_stream x = i" "advanced i (vc_simulation ?cfg) ?cs s s'"
    by (rule published_frame_accepted [OF sv_showsD(1) [OF q(3)], unfolded q(5), OF u c [unfolded q(5)], of now]) (simp only: q(8))
  note a = advancedD [OF x(4)]
  have i: "i < length (vs_streams s)" using u(1) by (simp add: subscribed_def)
  have w: "unat (tc_wrap (tr_cfg (vs_streams s ! i))) = cfg_wrap ?cfg" using u(1) i by (simp add: subscribed_def)
  have n: "0 < cfg_asdus ?cfg" using carriesD(1) [OF sv_showsD(1) [OF s]] by (simp add: sv_cfg_ok_def unat_gt_0)
  then obtain k where k: "cfg_asdus ?cfg = Suc k" using gr0_implies_Suc by blast
  note wb = cfg_wrap_bounds [of ?cfg] and lt = sv_showsD(3) [OF s]
  have "last ?cs = (?next ^^ k) (vp_smp_cnt p)" by (simp add: k)
  then have ul: "unat (last ?cs) = (unat (vp_smp_cnt p) + k) mod cfg_wrap ?cfg" using unat_iterated_cnt [OF lt wb(2)] by simp
  have "map (av_sample \<circ> sm_asdu) xs = map as_sample (map (asdu_of_view \<circ> sm_asdu) xs)" by (simp add: asdu_of_view_def)
  then have "map (av_sample \<circ> sm_asdu) xs = blocks" by (simp only: x(2) q(7))
  moreover have "behind 0 r (vs_streams s' ! i)"
  proof -
    have "(unat (last ?cs) + 1 + 0) mod cfg_wrap ?cfg = unat (vp_smp_cnt r)"
      unfolding ul q(9) by (simp add: k mod_Suc_eq)
    then show ?thesis unfolding behind_def a(5) q(6) using k by (intro exI [of _ "last ?cs"]) simp
  qed
  moreover have "subscribed ?cfg i (configs s') (vs_limits s')" using u(1) a(1,2) by simp
  moreover have "sim_admits (vc_simulation ?cfg) (vs_streams s' ! i)"
    using u(2) advanced_cfg [OF x(4) i] a(8) k by (auto simp: sim_admits_def split: if_splits)
  moreover have "gaps_of (cfg_wrap ?cfg) l ?cs = gap_of (cfg_wrap ?cfg) l (vp_smp_cnt p)" for l
    unfolding k by (rule gap_consecutive [OF wb lt])
  ultimately show thesis
    using that [of q r xs s' as'] x(1,3) q(1,2,4,6) a(3,4,6,7) w by simp
qed

lemma lost_step:
  assumes "behind m p t" "vp_cfg r = vp_cfg p" "unat (vp_smp_cnt r) = (unat (vp_smp_cnt p) + n) mod cfg_wrap (vp_cfg p)"
  shows "behind (m + n) r t"
proof -
  obtain l where l: "tt_last_smp_cnt (tr_state t) = Some l" "(unat l + 1 + m) mod cfg_wrap (vp_cfg p) = unat (vp_smp_cnt p)"
    using assms(1) by (auto simp: behind_def)
  have "(unat l + 1 + (m + n)) mod cfg_wrap (vp_cfg p) = ((unat l + 1 + m) mod cfg_wrap (vp_cfg p) + n) mod cfg_wrap (vp_cfg p)"
    by (simp add: mod_add_left_eq add.assoc)
  then show ?thesis using l assms(2,3) by (auto simp: behind_def)
qed

lemma behind_gap:
  assumes "behind m p t" "m < cfg_wrap (vp_cfg p)"
  shows "gap_of (cfg_wrap (vp_cfg p)) (tt_last_smp_cnt (tr_state t)) (vp_smp_cnt p) = m"
proof -
  obtain l where l: "tt_last_smp_cnt (tr_state t) = Some l" "(unat l + 1 + m) mod cfg_wrap (vp_cfg p) = unat (vp_smp_cnt p)"
    using assms(1) by (auto simp: behind_def)
  have w: "0 < cfg_wrap (vp_cfg p)" by (rule cfg_wrap_bounds)
  then have "unat (vp_smp_cnt p) < cfg_wrap (vp_cfg p)" by (simp flip: l(2))
  from gap_of_char(3) [OF w this assms(2) l(2)] show ?thesis by (simp add: l(1))
qed

definition published_well :: "sv_pub_config \<Rightarrow> publication list \<Rightarrow> bool" where
  "published_well cfg rs \<longleftrightarrow> (\<forall>(_, blocks, _) \<in> set rs. length blocks = cfg_asdus cfg \<and>
     (\<forall>b \<in> set blocks. length b = pf_sample_len (vc_profile cfg)))"

definition deliveries :: "publication list \<Rightarrow> nat" where
  "deliveries rs = length (filter (\<lambda>(_, _, delivered). delivered) rs)"

lemma published_well_Cons [simp]:
  "published_well cfg ((now, blocks, d) # rs) \<longleftrightarrow> length blocks = cfg_asdus cfg \<and>
     (\<forall>b \<in> set blocks. length b = pf_sample_len (vc_profile cfg)) \<and> published_well cfg rs"
  by (simp add: published_well_def)

text \<open>
  What a run must deliver: the blocks of the delivered frames in order, every other sample of the stream counted
  as lost, every delivered one counted as accepted, and no frame taken for foreign or malformed.
\<close>

definition accounted :: "nat \<Rightarrow> nat \<Rightarrow> nat \<Rightarrow> publication list \<Rightarrow> sv_subscriber \<Rightarrow> sample list \<times> sv_publisher \<times> sv_subscriber \<Rightarrow> bool" where
  "accounted i n m rs s r \<longleftrightarrow> (case r of (xs, _, s') \<Rightarrow>
    map (\<lambda>x. av_sample (sm_asdu x)) xs = delivered_blocks rs \<and> (\<forall>x \<in> set xs. sm_stream x = i) \<and>
    unat (tt_samples_lost (tr_state (vs_streams s' ! i))) = min counter_max (unat (tt_samples_lost (tr_state (vs_streams s ! i))) +
      lost_between n m rs) \<and>
    unat (tt_asdus (tr_state (vs_streams s' ! i))) = min counter_max (unat (tt_asdus (tr_state (vs_streams s ! i))) +
      deliveries rs * n) \<and>
    vs_other_stream s' = vs_other_stream s \<and> vs_malformed s' = vs_malformed s)"

lemma accounted_delivered:
  assumes "accounted i n 0 rs s' (zs, r, s'')" "map (\<lambda>x. av_sample (sm_asdu x)) ys = blocks" "\<forall>x \<in> set ys. sm_stream x = i"
    "unat (tt_samples_lost (tr_state (vs_streams s' ! i))) = min counter_max (unat (tt_samples_lost (tr_state (vs_streams s ! i))) + m)"
    "unat (tt_asdus (tr_state (vs_streams s' ! i))) = min counter_max (unat (tt_asdus (tr_state (vs_streams s ! i))) + n)"
    "vs_other_stream s' = vs_other_stream s" "vs_malformed s' = vs_malformed s"
  shows "accounted i n m ((now, blocks, True) # rs) s (ys @ zs, r, s'')"
proof -
  note h = assms(1) [unfolded accounted_def prod.case assms(4,5) counter_chain]
  show ?thesis
    unfolding accounted_def prod.case using h assms(2,3,6,7) by (auto simp: delivered_blocks_def deliveries_def add.assoc)
qed

lemma run_accounted:
  assumes "sv_shows p ws as" "vp_cfg p = cfg" "subscribed cfg i (configs s) (vs_limits s)"
    "sim_admits (vc_simulation cfg) (vs_streams s ! i)" "behind m p (vs_streams s ! i)"
    "published_well cfg rs" "short_bursts (cfg_wrap cfg) (cfg_asdus cfg) m rs"
  shows "accounted i (cfg_asdus cfg) m rs s (sv_run rs p s)"
  using assms
proof (induction rs arbitrary: p s as m)
  case Nil
  then show ?case
    using unat_le_max [of "tt_samples_lost (tr_state (vs_streams s ! i))"] unat_le_max [of "tt_asdus (tr_state (vs_streams s ! i))"]
    by (simp add: accounted_def delivered_blocks_def deliveries_def)
next
  case (Cons x rs)
  obtain now blocks d where x: "x = (now, blocks, d)" by (cases x)
  have b: "length blocks = cfg_asdus (vp_cfg p)" "\<forall>b \<in> set blocks. length b = pf_sample_len (vc_profile (vp_cfg p))"
    and rs: "published_well cfg rs" using Cons.prems(2,6) by (simp_all add: x)
  show ?case
  proof (cases d)
    case True
    have m: "m < cfg_wrap (vp_cfg p)" and sb: "short_bursts (cfg_wrap cfg) (cfg_asdus cfg) 0 rs"
      using Cons.prems(2,7) True by (simp_all add: x)
    obtain q r as' ys s' where q: "sv_poll_transmit (snd (sv_publish now blocks p)) = (Some (vp_frame (q :: sv_publisher)), r)"
      "sv_sub_on_frame now (vp_frame q) s = (ys, s')" "sv_shows r ws as'" "vp_cfg r = vp_cfg p"
      "map (av_sample \<circ> sm_asdu) ys = blocks" "\<forall>x \<in> set ys. sm_stream x = i" "behind 0 r (vs_streams s' ! i)"
      "subscribed (vp_cfg p) i (configs s') (vs_limits s')" "sim_admits (vc_simulation (vp_cfg p)) (vs_streams s' ! i)"
      "unat (tt_samples_lost (tr_state (vs_streams s' ! i))) = min counter_max (unat (tt_samples_lost (tr_state (vs_streams s ! i))) +
        gap_of (cfg_wrap (vp_cfg p)) (tt_last_smp_cnt (tr_state (vs_streams s ! i))) (vp_smp_cnt p))"
      "unat (tt_asdus (tr_state (vs_streams s' ! i))) = min counter_max (unat (tt_asdus (tr_state (vs_streams s ! i))) + cfg_asdus (vp_cfg p))"
      "vs_other_stream s' = vs_other_stream s" "vs_malformed s' = vs_malformed s"
      by (rule delivered_step [OF Cons.prems(1) b, of i s now]) (use Cons.prems(2-4) in simp_all)
    obtain zs r' s'' where z: "sv_run rs r s' = (zs, r', s'')" by (cases "sv_run rs r s'")
    have "accounted i (cfg_asdus cfg) 0 rs s' (zs, r', s'')"
      using Cons.IH [OF q(3) _ _ _ q(7) rs sb] q(4,8,9) Cons.prems(2) by (simp add: z)
    moreover have "unat (tt_samples_lost (tr_state (vs_streams s' ! i))) = min counter_max (unat (tt_samples_lost (tr_state (vs_streams s ! i))) + m)"
      using q(10) behind_gap [OF Cons.prems(5) m] by simp
    ultimately have "accounted i (cfg_asdus cfg) m ((now, blocks, True) # rs) s (ys @ zs, r', s'')"
      using accounted_delivered [OF _ _ q(6) _ _ q(12,13)] q(5,11) Cons.prems(2) by (simp add: comp_def)
    then show ?thesis by (simp add: x True q(1,2) z)
  next
    case False
    have sb: "short_bursts (cfg_wrap cfg) (cfg_asdus cfg) (m + cfg_asdus cfg) rs" using Cons.prems(7) False by (simp add: x)
    obtain q r as' where q: "snd (sv_publish now blocks p) = q" "sv_poll_transmit q = (Some (vp_frame q), r)" "sv_shows r ws as'"
      "vp_cfg r = vp_cfg p" "unat (vp_smp_cnt r) = (unat (vp_smp_cnt p) + cfg_asdus (vp_cfg p)) mod cfg_wrap (vp_cfg p)"
      by (rule publish_step [OF Cons.prems(1) b, of now])
    have "behind (m + cfg_asdus cfg) r (vs_streams s ! i)" using lost_step [OF Cons.prems(5) q(4,5)] Cons.prems(2) by simp
    from Cons.IH [OF q(3) _ Cons.prems(3,4) this rs sb] q(4) Cons.prems(2)
    have "accounted i (cfg_asdus cfg) (m + cfg_asdus cfg) rs s (sv_run rs r s)" by simp
    moreover have "sv_run (x # rs) p s = sv_run rs r s" by (simp add: x False q(1,2))
    ultimately show ?thesis by (simp add: accounted_def x False delivered_blocks_def deliveries_def)
  qed
qed

text \<open>
  C5: End to end: what a publisher publishes is delivered or counted as lost. From a stream that has not seen a
  sample, once the first frame has arrived, whichever of the following frames are lost: the consumer gets
  exactly the blocks of the frames that arrive, in order and from that stream; the lost-sample counter grows by
  exactly the samples of the frames that were lost before a frame that arrived; the accepted counter by the
  others; nothing is taken for foreign or malformed. A burst that spans a whole wrap cannot be told from none.
\<close>

theorem samples_delivered_or_counted:
  assumes "sv_reach cfg p" "sv_cfg_ok cfg" "subscribed cfg i (configs s) (vs_limits s)"
    "sim_admits (vc_simulation cfg) (vs_streams s ! i)" "tt_last_smp_cnt (tr_state (vs_streams s ! i)) = None"
    "published_well cfg ((now, blocks, True) # rs)" "short_bursts (cfg_wrap cfg) (cfg_asdus cfg) 0 rs"
  shows "accounted i (cfg_asdus cfg) 0 ((now, blocks, True) # rs) s (sv_run ((now, blocks, True) # rs) p s)"
proof -
  obtain ws as where s: "sv_shows p ws as" and cfg: "vp_cfg p = cfg" using sv_reach_inv [OF assms(1,2)] by (auto simp: sv_inv_def)
  have b: "length blocks = cfg_asdus (vp_cfg p)" "\<forall>b \<in> set blocks. length b = pf_sample_len (vc_profile (vp_cfg p))"
    and rs: "published_well cfg rs" using assms(6) by (simp_all add: cfg)
  obtain q r as' ys s' where q: "sv_poll_transmit (snd (sv_publish now blocks p)) = (Some (vp_frame (q :: sv_publisher)), r)"
    "sv_sub_on_frame now (vp_frame q) s = (ys, s')" "sv_shows r ws as'" "vp_cfg r = cfg"
    "map (av_sample \<circ> sm_asdu) ys = blocks" "\<forall>x \<in> set ys. sm_stream x = i" "behind 0 r (vs_streams s' ! i)"
    "subscribed cfg i (configs s') (vs_limits s')" "sim_admits (vc_simulation cfg) (vs_streams s' ! i)"
    "unat (tt_samples_lost (tr_state (vs_streams s' ! i))) = min counter_max (unat (tt_samples_lost (tr_state (vs_streams s ! i))) +
      gap_of (cfg_wrap cfg) (tt_last_smp_cnt (tr_state (vs_streams s ! i))) (vp_smp_cnt p))"
    "unat (tt_asdus (tr_state (vs_streams s' ! i))) = min counter_max (unat (tt_asdus (tr_state (vs_streams s ! i))) + cfg_asdus cfg)"
    "vs_other_stream s' = vs_other_stream s" "vs_malformed s' = vs_malformed s"
    by (rule delivered_step [OF s b, of i s now]) (use assms(3,4) in \<open>simp_all add: cfg\<close>)
  obtain zs r' s'' where z: "sv_run rs r s' = (zs, r', s'')" by (cases "sv_run rs r s'")
  have "accounted i (cfg_asdus cfg) 0 rs s' (zs, r', s'')"
    using run_accounted [OF q(3,4,8,9,7) rs assms(7)] by (simp add: z)
  then have "accounted i (cfg_asdus cfg) 0 ((now, blocks, True) # rs) s (ys @ zs, r', s'')"
    using q(5,10,11) by (intro accounted_delivered [OF _ _ q(6) _ _ q(12,13)]) (simp_all add: comp_def assms(5) gap_of_def)
  then show ?thesis by (simp add: q(1,2) z)
qed

text \<open>A witness: five frames of two samples, of which the second and third are lost.\<close>

definition sample_stream :: sv_stream_config where
  "sample_stream = (sv_stream_config_new \<lparr> vk_dst = fh_dst sample_header, vk_appid = fh_appid sample_header, vk_sv_id = ''MU01'' \<rparr>)\<lparr>
     tc_samples_per_second := 4800 \<rparr>"

definition sample_listened_cfg :: sv_pub_config where
  "sample_listened_cfg = sample_sv_cfg\<lparr> vc_header := sample_header\<lparr> fh_ethertype := ETHERTYPE_SV \<rparr> \<rparr>"

definition sample_publications :: "publication list" where
  "sample_publications = map (\<lambda>(k, d). (of_nat k, [replicate 8 (of_nat k), replicate 8 0xFF], d)) [(1, False), (2, False), (3, True), (4, True)]"

lemma sample_listened_cfg_ok: "sv_cfg_ok sample_listened_cfg"
  using sample_sv_cfg_ok by (simp add: sv_cfg_ok_def sample_listened_cfg_def header_wf_def process_bus_def sample_header_def)

lemma sample_listened_fields:
  "cfg_asdus sample_listened_cfg = 2" "pf_sample_len (vc_profile sample_listened_cfg) = 8" "cfg_wrap sample_listened_cfg = 4800"
  "\<not> vc_simulation sample_listened_cfg"
  using sample_sv_cfg_fields
  by (simp_all add: sample_listened_cfg_def sample_sv_cfg_def sv_with_time_fields_def sv_config_new_def)

lemma sample_subscribed: "subscribed sample_listened_cfg 0 [sample_stream] default_limits"
  using sample_listened_fields(1)
  by (simp add: subscribed_def listens_def sample_stream_def sv_stream_config_new_def sample_listened_cfg_def sample_sv_cfg_def
      sv_with_time_fields_def sv_config_new_def default_limits_def F4800S2I4U4_def tc_wrap_def profile_wrap_def)

theorem samples_delivered_or_counted_witness:
  "\<exists>p xs q s. sv_pub_new sample_listened_cfg = Inr p \<and>
    sv_run ((0, [replicate 8 0, replicate 8 9], True) # sample_publications) p (sv_sub_new [sample_stream]) = (xs, q, s) \<and>
    map (\<lambda>x. av_sample (sm_asdu x)) xs = [replicate 8 0, replicate 8 9, replicate 8 3, replicate 8 0xFF, replicate 8 4, replicate 8 0xFF] \<and>
    unat (tt_samples_lost (tr_state (vs_streams s ! 0))) = 4 \<and> unat (tt_asdus (tr_state (vs_streams s ! 0))) = 6"
proof -
  let ?rs = "(0, [replicate 8 0, replicate 8 9], True) # sample_publications" and ?s = "sv_sub_new [sample_stream]"
  obtain p where p: "sv_pub_new sample_listened_cfg = Inr p" by (rule sv_pub_new_shows [OF sample_listened_cfg_ok])
  have s: "configs ?s = [sample_stream]" "vs_limits ?s = default_limits" "vs_streams ?s ! 0 = sv_stream_new sample_stream"
    by (simp_all add: sv_sub_new_def sv_stream_new_def)
  have u: "subscribed sample_listened_cfg 0 (configs ?s) (vs_limits ?s)" using sample_subscribed by (simp add: s)
  have a: "sim_admits (vc_simulation sample_listened_cfg) (vs_streams ?s ! 0)" "tt_last_smp_cnt (tr_state (vs_streams ?s ! 0)) = None"
    by (simp_all add: s sample_listened_fields sim_admits_def sv_stream_new_def sv_stream_state_default_def)
  have w: "published_well sample_listened_cfg ?rs" "short_bursts (cfg_wrap sample_listened_cfg) (cfg_asdus sample_listened_cfg) 0 sample_publications"
    by (simp_all add: sample_publications_def sample_listened_fields published_well_def)
  have l: "lost_between 2 0 ?rs = 4" "deliveries ?rs = 3" by (simp_all add: sample_publications_def deliveries_def)
  obtain xs q t where r: "sv_run ?rs p ?s = (xs, q, t)" by (cases "sv_run ?rs p ?s")
  have d: "delivered_blocks ?rs = [replicate 8 0, replicate 8 9, replicate 8 3, replicate 8 0xFF, replicate 8 4, replicate 8 0xFF]"
    by (simp add: delivered_blocks_def sample_publications_def)
  have z: "unat (tt_samples_lost (tr_state (sv_stream_new sample_stream))) = 0" "unat (tt_asdus (tr_state (sv_stream_new sample_stream))) = 0"
    by (simp_all add: sv_stream_new_def sv_stream_state_default_def)
  note h = samples_delivered_or_counted [OF sv_reach.fresh [OF p] sample_listened_cfg_ok u a w,
      unfolded r accounted_def prod.case sample_listened_fields l s(3) z d]
  have n: "unat (tt_samples_lost (tr_state (vs_streams t ! 0))) = 4 \<and> unat (tt_asdus (tr_state (vs_streams t ! 0))) = 6"
    using h by simp
  show ?thesis
    by (intro exI [of _ p] exI [of _ xs] exI [of _ q] exI [of _ t] conjI n [THEN conjunct1] n [THEN conjunct2] p r h [THEN conjunct1])
qed

section \<open>What reaches the consumer\<close>

text \<open>
  Operations on a stream keep its configuration, keep simulation taken over once it is, and keep a deadline
  from outliving the stale mark.
\<close>

definition stream_kept :: "sv_stream \<Rightarrow> sv_stream \<Rightarrow> bool" where
  "stream_kept t t' \<longleftrightarrow> tr_cfg t' = tr_cfg t \<and> (tt_simulation_active (tr_state t) \<longrightarrow> tt_simulation_active (tr_state t')) \<and>
     (deadline_live t \<longrightarrow> deadline_live t')"

definition kept :: "sv_subscriber \<Rightarrow> sv_subscriber \<Rightarrow> bool" where
  "kept s s' \<longleftrightarrow> list_all2 stream_kept (vs_streams s) (vs_streams s')"

lemma stream_kept_refl [simp]: "stream_kept t t"
  by (simp add: stream_kept_def)

lemma kept_refl [simp]: "kept s s"
  by (simp add: kept_def list_all2_same)

lemma kept_trans: "kept s s' \<Longrightarrow> kept s' s'' \<Longrightarrow> kept s s''"
  unfolding kept_def by (rule list_all2_trans [of stream_kept stream_kept stream_kept]) (auto simp: stream_kept_def)

lemma keptD:
  assumes "kept s s'"
  shows "length (vs_streams s') = length (vs_streams s)" "configs s' = configs s"
    "j < length (vs_streams s) \<Longrightarrow> stream_kept (vs_streams s ! j) (vs_streams s' ! j)"
proof -
  show l: "length (vs_streams s') = length (vs_streams s)" using assms by (simp add: kept_def list_all2_lengthD)
  show n: "j < length (vs_streams s) \<Longrightarrow> stream_kept (vs_streams s ! j) (vs_streams s' ! j)" for j
    using assms by (simp add: kept_def list_all2_nthD)
  then show "configs s' = configs s" by (intro nth_equalityI) (simp_all add: l stream_kept_def)
qed

lemma kept_update:
  assumes "vs_streams s' = (vs_streams s)[i := t]" "stream_kept (vs_streams s ! i) t"
  shows "kept s s'"
proof -
  have "list_all2 stream_kept (vs_streams s) (vs_streams s)" by (simp add: list_all2_same)
  from list_all2_update_cong [OF this assms(2), of i] show ?thesis by (simp add: kept_def assms(1))
qed

lemma policy_kept:
  assumes "sv_policy i sim t = (ok, es, t')"
  shows "stream_kept t t'" "ok \<Longrightarrow> tc_simulation (tr_cfg t) = SvSimOff \<Longrightarrow> \<not> sim"
    "ok \<Longrightarrow> tc_simulation (tr_cfg t) = SvSimPreferred \<Longrightarrow> tt_simulation_active (tr_state t) \<Longrightarrow> sim"
  using assms
  by (auto simp: sv_policy_def stream_kept_def deadline_live_def Let_def split: sv_simulation_mode.splits bool.splits if_splits)

lemma conf_rev_kept: "check_conf_rev i a t = (ok, es, t') \<Longrightarrow> stream_kept t t' \<and>
    (ok \<longrightarrow> (\<forall>r. tc_expected_conf_rev (tr_cfg t) = Some r \<longrightarrow> r = av_conf_rev a))"
  by (auto simp: check_conf_rev_def stream_kept_def deadline_live_def Let_def split: option.splits if_splits)

lemma layout_kept: "check_layout i a t = (ok, es, t') \<Longrightarrow> stream_kept t t' \<and>
    (ok \<longrightarrow> (\<forall>l. tc_layout (tr_cfg t) = Some l \<longrightarrow> layout_fits l (length (av_sample a))))"
  by (auto simp: check_layout_def stream_kept_def deadline_live_def Let_def split: option.splits if_splits)

lemma steps_kept: "stream_kept t (snd (count_gap i a t))" "stream_kept t (snd (track_synch i a t))" "stream_kept t (snd (track_gm i a t))"
  "stream_kept t (record_asdu now a (snd (resume i t)))"
  "stream_kept t (upd_state (\<lambda>x. x\<lparr> tt_conf_rev := r \<rparr>) t)"
  "stream_kept t (upd_state (\<lambda>x. x\<lparr> tt_frames := sat_add (tt_frames x) 1 \<rparr>) t)"
  by (auto simp: count_gap_def track_synch_def track_gm_def resume_def record_asdu_def stream_kept_def deadline_live_def Let_def split: option.splits)

lemma stream_kept_trans: "stream_kept t u \<Longrightarrow> stream_kept u v \<Longrightarrow> stream_kept t v"
  by (simp add: stream_kept_def)

lemma accept_kept:
  assumes "sv_accept i now a t = (ok, es, t')"
  shows "stream_kept t t'" "ok \<Longrightarrow> suits t a"
proof -
  obtain k1 e1 t1 where c: "check_conf_rev i a t = (k1, e1, t1)" by (cases "check_conf_rev i a t")
  obtain k2 e2 t2 where l: "check_layout i a t1 = (k2, e2, t2)" by (cases "check_layout i a t1")
  note ck = conf_rev_kept [OF c] and lk = layout_kept [OF l]
  have cfg: "tr_cfg t1 = tr_cfg t" using ck by (simp add: stream_kept_def)
  show "ok \<Longrightarrow> suits t a"
    using assms ck lk c l by (cases k1; cases k2) (simp_all add: sv_accept_def suits_def cfg)
  define t3 where "t3 = snd (count_gap i a t2)"
  define t4 where "t4 = upd_state (\<lambda>x. x\<lparr> tt_conf_rev := Some (av_conf_rev a) \<rparr>) t3"
  define t5 where "t5 = snd (track_synch i a t4)"
  define t6 where "t6 = snd (track_gm i a t5)"
  define t7 where "t7 = snd (resume i t6)"
  have k: "stream_kept t2 (record_asdu now a t7)"
    unfolding t7_def t6_def t5_def t4_def t3_def
    by (rule stream_kept_trans [OF _ steps_kept(4)] stream_kept_trans [OF _ steps_kept(3)]
        stream_kept_trans [OF _ steps_kept(2)] stream_kept_trans [OF _ steps_kept(5)] steps_kept(1))+
  have "k1 \<Longrightarrow> k2 \<Longrightarrow> t' = record_asdu now a t7"
    using assms c l by (auto simp: sv_accept_def split_beta Let_def t7_def t6_def t5_def t4_def t3_def)
  moreover have "\<not> k1 \<Longrightarrow> t' = t1" "k1 \<Longrightarrow> \<not> k2 \<Longrightarrow> t' = t2" using assms c l by (simp_all add: sv_accept_def)
  ultimately show "stream_kept t t'" using ck lk k stream_kept_trans by metis
qed

lemma on_stream_kept:
  assumes "on_stream i f s = (ok, s')" "\<And>t es t'. f t = (ok, es, t') \<Longrightarrow> stream_kept t t'"
  shows "kept s s'"
proof (cases "i < length (vs_streams s)")
  case True
  obtain k es t' where f: "f (vs_streams s ! i) = (k, es, t')" by (cases "f (vs_streams s ! i)")
  have "k = ok" "vs_streams s' = (vs_streams s)[i := t']"
    using assms(1) True f by (auto simp: on_stream_def get_at_def)
  then show ?thesis using assms(2) f kept_update by blast
qed (use assms(1) in \<open>simp add: on_stream_def get_at_def\<close>)

lemma count_frame_kept: "kept s (count_frame i s)"
proof (cases "i < length (vs_streams s)")
  case True
  then have "vs_streams (count_frame i s) = (vs_streams s)[i := upd_state (\<lambda>x. x\<lparr> tt_frames := sat_add (tt_frames x) 1 \<rparr>) (vs_streams s ! i)]"
    by (simp add: count_frame_def get_at_def)
  then show ?thesis by (rule kept_update) (rule steps_kept(6))
qed (simp add: count_frame_def get_at_def)

text \<open>What is known of a sample the consumer gets from a frame.\<close>

definition admitted :: "frame \<Rightarrow> sv_subscriber \<Rightarrow> sample \<Rightarrow> bool" where
  "admitted fr s x \<longleftrightarrow> (let c = configs s ! sm_stream x; a = sm_asdu x in
     sm_stream x < length (vs_streams s) \<and> sm_simulation x = frame_simulation fr \<and>
     vk_dst (tc_key c) = fr_dst fr \<and> vk_appid (tc_key c) = fr_appid fr \<and> vk_sv_id (tc_key c) = av_sv_id a \<and>
     (\<forall>r. tc_expected_conf_rev c = Some r \<longrightarrow> av_conf_rev a = r) \<and>
     (\<forall>l. tc_layout c = Some l \<longrightarrow> length (av_sample a) = lay_len l) \<and> sm_layout x = tc_layout c \<and>
     (tc_simulation c = SvSimOff \<longrightarrow> \<not> sm_simulation x) \<and>
     (tc_simulation c = SvSimPreferred \<longrightarrow> tt_simulation_active (tr_state (vs_streams s ! sm_stream x)) \<longrightarrow> sm_simulation x))"

lemma admitted_kept:
  assumes k: "kept s s'" and a: "admitted fr s' x"
  shows "admitted fr s x"
proof -
  have "sm_stream x < length (vs_streams s)" using a keptD(1) [OF k] by (simp add: admitted_def Let_def)
  from keptD(3) [OF k this] show ?thesis
    using a keptD(1,2) [OF k] by (auto simp: admitted_def Let_def stream_kept_def)
qed

lemma asdu_loop_admitted:
  "asdu_loop now fr as matched counted s = (xs, s') \<Longrightarrow> x \<in> set xs \<Longrightarrow> admitted fr s x"
proof (induction as arbitrary: matched counted s xs)
  case (Cons y as)
  show ?case
  proof (cases y)
    case (Inl e)
    then show ?thesis using Cons.prems by simp
  next
    case y: (Inr a)
    show ?thesis
  proof (cases "stream_of fr a s")
    case None
    then show ?thesis using Cons y by auto
  next
    case (Some i)
    then have i: "i < length (vs_streams s)" and key: "vk_dst (tc_key (tr_cfg (vs_streams s ! i))) = fr_dst fr"
      "vk_appid (tc_key (tr_cfg (vs_streams s ! i))) = fr_appid fr" "vk_sv_id (tc_key (tr_cfg (vs_streams s ! i))) = av_sv_id a"
      using position_bound unfolding stream_of_def by blast+
    let ?sim = "frame_simulation fr"
    obtain k1 s1 where p: "on_stream i (sv_policy i ?sim) s = (k1, s1)" by (cases "on_stream i (sv_policy i ?sim) s")
    have ks1: "kept s s1" by (rule on_stream_kept [OF p]) (rule policy_kept(1))
    obtain k2 s2 where q: "on_stream i (sv_accept i now a) s1 = (k2, s2)" by (cases "on_stream i (sv_accept i now a) s1")
    have ks2: "kept s s2" by (rule kept_trans [OF ks1], rule on_stream_kept [OF q]) (rule accept_kept(1))
    define s3 where "s3 = (if counted \<noteq> Some i then count_frame i s2 else s2)"
    have ks3: "kept s s3" using ks2 kept_trans count_frame_kept by (auto simp: s3_def)
    show ?thesis
    proof (cases "k1 \<and> k2")
      case True
      obtain ys where ys: "asdu_loop now fr as True (Some i) s3 = (ys, s')" "xs = sample_of i a ?sim s3 # ys"
        using Cons.prems(1) Some p q True y by (auto simp: Let_def s3_def split: prod.splits if_splits)
      show ?thesis
      proof (cases "x \<in> set ys")
        case inys: True
        have "admitted fr s3 x" by (rule Cons.IH [OF ys(1) inys])
        then show ?thesis by (rule admitted_kept [OF ks3])
      next
        case False
        then have x: "x = sample_of i a ?sim s3" using Cons.prems(2) ys(2) by simp
        obtain e1 t1 where f1: "sv_policy i ?sim (vs_streams s ! i) = (True, e1, t1)" "vs_streams s1 ! i = t1"
          using p True i by (auto simp: on_stream_def get_at_def split: prod.splits)
        obtain e2 t2 where f2: "sv_accept i now a (vs_streams s1 ! i) = (True, e2, t2)"
          using q True i keptD(1) [OF ks1] by (auto simp: on_stream_def get_at_def split: prod.splits)
        have c1: "tr_cfg (vs_streams s1 ! i) = tr_cfg (vs_streams s ! i)" "tr_cfg (vs_streams s3 ! i) = tr_cfg (vs_streams s ! i)"
          using keptD(3) [OF ks1 i] keptD(3) [OF ks3 i] by (simp_all add: stream_kept_def)
        have "suits (vs_streams s1 ! i) a" using accept_kept(2) [OF f2] by simp
        then show ?thesis
          using i key policy_kept(2,3) [OF f1(1)] keptD(1) [OF ks3]
          by (auto simp: admitted_def Let_def x sample_of_def suits_def layout_fits_def c1 get_at_def)
      qed
    next
      case False
      then consider "\<not> k1" "asdu_loop now fr as True counted s1 = (xs, s')" | "k1" "\<not> k2" "asdu_loop now fr as True counted s2 = (xs, s')"
        using Cons.prems(1) Some p q y by (cases k1; cases k2) auto
      then show ?thesis
      proof cases
        case 1
        have "admitted fr s1 x" by (rule Cons.IH [OF 1(2) Cons.prems(2)])
        then show ?thesis by (rule admitted_kept [OF ks1])
      next
        case 2
        have "admitted fr s2 x" by (rule Cons.IH [OF 2(3) Cons.prems(2)])
        then show ?thesis by (rule admitted_kept [OF ks2])
      qed
    qed
  qed
  qed
qed simp

lemma check_stale_kept: "kept s (check_stale now s)"
  by (simp add: kept_def check_stale_streams list_all2_conv_all_nth mark_stale_def stream_kept_def deadline_live_def)

text \<open>The timer contract holds of every reachable subscriber.\<close>

lemma asdu_loop_kept: "kept s (snd (asdu_loop now fr as matched counted s))"
proof (induction now fr as matched counted s rule: asdu_loop.induct)
  case (3 now fr a as matched counted s)
  show ?case
  proof (cases "stream_of fr a s")
    case None
    then show ?thesis using 3 by simp
  next
    case (Some i)
    obtain k1 s1 where p: "on_stream i (sv_policy i (frame_simulation fr)) s = (k1, s1)" by (cases "on_stream i (sv_policy i (frame_simulation fr)) s")
    have ks1: "kept s s1" by (rule on_stream_kept [OF p]) (rule policy_kept(1))
    obtain k2 s2 where q: "on_stream i (sv_accept i now a) s1 = (k2, s2)" by (cases "on_stream i (sv_accept i now a) s1")
    have ks2: "kept s s2" by (rule kept_trans [OF ks1], rule on_stream_kept [OF q]) (rule accept_kept(1))
    then have ks3: "kept s (count_frame i s2)" by (rule kept_trans) (rule count_frame_kept)
    note ih = "3.IH"(2-4) [OF Some p [symmetric]]
    show ?thesis
    proof (cases k1)
      case False
      then show ?thesis using ih(3) Some p kept_trans [OF ks1] by simp
    next
      case k1: True
      show ?thesis
      proof (cases k2)
        case False
        then show ?thesis using ih(2) [OF _ q [symmetric]] Some p q k1 False kept_trans [OF ks2] by simp
      next
        case True
        then show ?thesis
          using ih(1) [OF _ q [symmetric] _ refl] Some p q k1 True kept_trans [OF ks2] kept_trans [OF ks3]
          by (auto simp: Let_def split_beta)
      qed
    qed
  qed
qed (simp_all add: kept_def list_all2_same sv_other_def sv_on_malformed_def)

lemma on_frame_kept: "kept s (snd (sv_sub_on_frame now frame s))"
proof -
  have o: "kept s s' \<Longrightarrow> kept s (sv_other s')" "kept s s' \<Longrightarrow> kept s (sv_on_malformed e s')" for s' e
    by (simp_all add: kept_def sv_other_def sv_on_malformed_def)
  show ?thesis
    using check_stale_kept [of s now] kept_trans [OF check_stale_kept asdu_loop_kept]
    by (auto simp: sv_sub_on_frame_def Let_def o split: sum.split option.split)
qed

inductive sv_sub_reach :: "sv_stream_config list \<Rightarrow> sv_subscriber \<Rightarrow> bool" for cs where
  start: "sv_sub_reach cs (sv_with_event_capacity capacity (sv_with_limits l (sv_sub_new cs)))"
| frame: "sv_sub_reach cs s \<Longrightarrow> sv_sub_reach cs (snd (sv_sub_on_frame now frame s))"
| tick: "sv_sub_reach cs s \<Longrightarrow> sv_sub_reach cs (sv_sub_on_timeout now s)"
| poll: "sv_sub_reach cs s \<Longrightarrow> sv_sub_reach cs (snd (sv_sub_poll_event s))"
| reset: "sv_sub_reach cs s \<Longrightarrow> sv_sub_reach cs (sv_reset_simulation i s)"

lemma kept_live:
  assumes "kept s s'" "\<forall>t \<in> set (vs_streams s). deadline_live t"
  shows "\<forall>t \<in> set (vs_streams s'). deadline_live t"
proof
  fix t assume "t \<in> set (vs_streams s')"
  then obtain j where j: "j < length (vs_streams s')" "t = vs_streams s' ! j" by (auto simp: in_set_conv_nth)
  then have "j < length (vs_streams s)" using keptD(1) [OF assms(1)] by simp
  then have "stream_kept (vs_streams s ! j) t" "deadline_live (vs_streams s ! j)" using keptD(3) [OF assms(1)] assms(2) j(2) by simp_all
  then show "deadline_live t" by (simp add: stream_kept_def)
qed

lemma reachable_deadlines: "sv_sub_reach cs s \<Longrightarrow> \<forall>t \<in> set (vs_streams s). deadline_live t"
proof (induction rule: sv_sub_reach.induct)
  case (start capacity l)
  then show ?case
    by (simp add: sv_with_event_capacity_def sv_with_limits_def sv_sub_new_def sv_stream_new_def deadline_live_def sv_stream_state_default_def)
next
  case (frame s now frame)
  then show ?case using kept_live [OF on_frame_kept] by blast
next
  case (tick s now)
  then show ?case using kept_live [OF check_stale_kept] by (simp add: sv_sub_on_timeout_def)
next
  case (poll s)
  then show ?case by (simp add: sv_sub_poll_event_def split_beta)
next
  case (reset s i)
  then show ?case
    by (auto simp: sv_reset_simulation_def get_at_def deadline_live_def dest!: set_update_subset_insert [THEN subsetD])
qed

lemma timeout_settles: "sv_sub_reach cs s \<Longrightarrow> sv_sub_next_timeout (sv_sub_on_timeout now s) = Some d \<Longrightarrow> now < d"
  using sv_timer.tick_settles [OF reachable_deadlines] .

text \<open>
  C19: Nothing else reaches the consumer. Every sample a frame hands over comes from a frame that decodes, for a
  stream that is addressed by it and has the sample's own identity, with the expected revision and a block of the
  described length, under that stream's layout; a simulated sample never under the policy that ignores
  simulation, and no real one once a simulated stream has taken over.
\<close>

theorem only_admitted_samples:
  assumes "sv_sub_on_frame now frame s = (xs, s')" "x \<in> set xs"
  shows "\<exists>fr. frame_parse frame = Inr fr \<and> fr_ethertype fr = ETHERTYPE_SV \<and> admitted fr s x"
proof -
  obtain fr pdu where fr: "frame_parse frame = Inr fr" "fr_ethertype fr = ETHERTYPE_SV"
    "asdu_loop now fr (savpdu_asdus pdu) False None (check_stale now s) = (xs, s')"
    using assms by (auto simp: sv_sub_on_frame_def Let_def split: sum.splits option.splits if_splits)
  show ?thesis using admitted_kept [OF check_stale_kept asdu_loop_admitted [OF fr(3) assms(2)]] fr(1,2) by blast
qed

text \<open>A witness: the first frame of the run above.\<close>

theorem only_admitted_samples_witness:
  "\<exists>p xs s x fr. sv_sub_on_frame 0 (vp_frame (p :: sv_publisher)) (sv_sub_new [sample_stream]) = (xs, s) \<and> x \<in> set xs \<and>
    frame_parse (vp_frame p) = Inr fr \<and> admitted fr (sv_sub_new [sample_stream]) x"
proof -
  let ?s = "sv_sub_new [sample_stream]"
  obtain p ws as where p: "vp_cfg p = sample_listened_cfg" "sv_shows p ws as"
    by (rule sv_pub_new_shows [OF sample_listened_cfg_ok])
  have s: "configs ?s = [sample_stream]" "vs_limits ?s = default_limits" "vs_streams ?s ! 0 = sv_stream_new sample_stream"
    by (simp_all add: sv_sub_new_def sv_stream_new_def)
  have u: "subscribed (vp_cfg p) 0 (configs ?s) (vs_limits ?s)" using sample_subscribed by (simp add: s p(1))
  have a: "sim_admits (vc_simulation (vp_cfg p)) (vs_streams ?s ! 0)"
    by (simp add: s p(1) sample_listened_fields sim_admits_def sv_stream_new_def sv_stream_state_default_def)
  have c: "\<forall>a \<in> set as. unat (as_smp_cnt a) < cfg_wrap (vp_cfg p)" using sv_showsD(4) [OF p(2)] by blast
  obtain xs s' where x: "sv_sub_on_frame 0 (vp_frame p) ?s = (xs, s')" "map (asdu_of_view \<circ> sm_asdu) xs = as"
    by (rule published_frame_accepted [OF sv_showsD(1) [OF p(2)] u a c])
  have "length as = 2" using carriesD(2) [OF sv_showsD(1) [OF p(2)]] by (simp add: p(1) sample_listened_fields)
  then obtain y where y: "y \<in> set xs" using x(2) by (cases xs) auto
  from only_admitted_samples [OF x(1) y] show ?thesis using x(1) y by blast
qed

end
