(* ===== verification/Strings.thy ===== *)
theory Strings
  imports Prelude
begin

text \<open>
  The \<open>str\<close> operations of the Rust standard library that object references and MMS item names are
  taken apart and put together with: \<open>split_once\<close>, \<open>rsplit_once\<close>, \<open>split\<close>, \<open>strip_prefix\<close>,
  \<open>strip_suffix\<close>, \<open>parse::<u32>()\<close> and decimal formatting, with the laws that relate them to
  concatenation.
\<close>

named_theorems str_simps \<open>splitting what was concatenated\<close>

section \<open>Splitting\<close>

fun split_once :: "char \<Rightarrow> string \<Rightarrow> (string \<times> string) option" where
  "split_once c [] = None"
| "split_once c (x # xs) = (if x = c then Some ([], xs)
     else map_option (\<lambda>(a, b). (x # a, b)) (split_once c xs))"

definition rsplit_once :: "char \<Rightarrow> string \<Rightarrow> (string \<times> string) option" where
  "rsplit_once c s = map_option (\<lambda>(a, b). (rev b, rev a)) (split_once c (rev s))"

text \<open>\<open>s.split(p)\<close>: the parts between the separators, of which there is always at least one.\<close>

fun split_on :: "(char \<Rightarrow> bool) \<Rightarrow> string \<Rightarrow> string list" where
  "split_on p [] = [[]]"
| "split_on p (x # xs) = (if p x then [] # split_on p xs
     else (x # hd (split_on p xs)) # tl (split_on p xs))"

definition strip_prefix :: "string \<Rightarrow> string \<Rightarrow> string option" where
  "strip_prefix p s = (if take (length p) s = p then Some (drop (length p) s) else None)"

definition strip_suffix :: "string \<Rightarrow> string \<Rightarrow> string option" where
  "strip_suffix p s = map_option rev (strip_prefix (rev p) (rev s))"

lemma split_once_append [str_simps]: "c \<notin> set a \<Longrightarrow> split_once c (a @ c # b) = Some (a, b)"
  by (induction a) auto

lemma split_once_None_iff: "split_once c s = None \<longleftrightarrow> c \<notin> set s"
  by (induction s) auto

lemma split_once_Some_iff: "split_once c s = Some (a, b) \<longleftrightarrow> s = a @ c # b \<and> c \<notin> set a"
proof
  show "split_once c s = Some (a, b) \<Longrightarrow> s = a @ c # b \<and> c \<notin> set a"
    by (induction s arbitrary: a) (auto split: if_splits)
qed (auto simp: split_once_append)

lemma rsplit_once_append [str_simps]: "c \<notin> set b \<Longrightarrow> rsplit_once c (a @ c # b) = Some (a, b)"
  by (simp add: rsplit_once_def split_once_append)

lemma rsplit_once_Some_iff: "rsplit_once c s = Some (a, b) \<longleftrightarrow> s = a @ c # b \<and> c \<notin> set b"
proof
  assume "rsplit_once c s = Some (a, b)"
  then have "rev s = rev b @ c # rev a \<and> c \<notin> set b"
    by (auto simp: rsplit_once_def split_once_Some_iff)
  then have "s = rev (rev b @ c # rev a) \<and> c \<notin> set b" by (metis rev_rev_ident)
  then show "s = a @ c # b \<and> c \<notin> set b" by simp
qed (simp add: rsplit_once_append)

lemma rsplit_once_None_iff: "rsplit_once c s = None \<longleftrightarrow> c \<notin> set s"
  by (simp add: rsplit_once_def split_once_None_iff)

lemma split_on_ne [simp]: "split_on p s \<noteq> []"
  by (cases s) auto

lemma split_on_none [str_simps]: "\<forall>x \<in> set s. \<not> p x \<Longrightarrow> split_on p s = [s]"
  by (induction s) auto

lemma split_on_append [str_simps]: "\<forall>x \<in> set a. \<not> p x \<Longrightarrow> p c \<Longrightarrow> split_on p (a @ c # b) = a # split_on p b"
  by (induction a) auto

lemma split_on_parts: "a \<in> set (split_on p s) \<Longrightarrow> x \<in> set a \<Longrightarrow> x \<in> set s \<and> \<not> p x"
proof (induction s arbitrary: a)
  case (Cons y s)
  obtain q qs where q: "split_on p s = q # qs" by (cases "split_on p s") auto
  have "x \<in> set q \<Longrightarrow> x \<in> set s \<and> \<not> p x" using Cons.IH [of q] q by simp
  moreover have "a \<in> set qs \<Longrightarrow> x \<in> set s \<and> \<not> p x" using Cons.IH [of a] q Cons.prems by simp
  moreover have "a = [] \<or> a = q \<or> a \<in> set qs \<or> a = y # q \<and> \<not> p y"
    using Cons.prems(1) q by (auto split: if_splits)
  ultimately show ?case using Cons.prems by auto
qed simp

text \<open>Joining parts with a separator and splitting on it again.\<close>

fun join :: "string \<Rightarrow> string list \<Rightarrow> string" where
  "join c [] = []"
| "join c [a] = a"
| "join c (a # b # xs) = a @ c @ join c (b # xs)"

lemma split_on_join:
  "p c \<Longrightarrow> xs \<noteq> [] \<Longrightarrow> \<forall>a \<in> set xs. \<forall>x \<in> set a. \<not> p x \<Longrightarrow> split_on p (join [c] xs) = xs"
  by (induction "[c]" xs rule: join.induct) (auto simp: str_simps)

lemma join_snoc: "xs \<noteq> [] \<Longrightarrow> join c (xs @ [a]) = join c xs @ c @ a"
  by (induction c xs rule: join.induct) auto

lemma join_split_on: "join [c] (split_on (\<lambda>x. x = c) s) = s"
proof (induction s)
  case (Cons y s)
  obtain q qs where q: "split_on (\<lambda>x. x = c) s = q # qs" by (cases "split_on (\<lambda>x. x = c) s") auto
  show ?case using Cons q by (cases qs) auto
qed simp

lemma strip_prefix_append [str_simps]: "strip_prefix p (p @ s) = Some s"
  by (simp add: strip_prefix_def)

lemma strip_prefix_Some_iff: "strip_prefix p s = Some r \<longleftrightarrow> s = p @ r"
  by (auto simp: strip_prefix_def split: if_splits) (metis append_take_drop_id)

lemma strip_suffix_append [str_simps]: "strip_suffix p (s @ p) = Some s"
  by (simp add: strip_suffix_def strip_prefix_def)

lemma strip_suffix_Some_iff: "strip_suffix p s = Some r \<longleftrightarrow> s = r @ p"
  by (auto simp: strip_suffix_def strip_prefix_Some_iff rev_swap)

section \<open>Decimal numbers\<close>

definition is_digit :: "char \<Rightarrow> bool" where
  "is_digit c \<longleftrightarrow> 48 \<le> (of_char c :: nat) \<and> (of_char c :: nat) \<le> 57"

definition digit_of :: "nat \<Rightarrow> char" where
  "digit_of n = char_of (48 + n)"

definition digits_value :: "nat \<Rightarrow> string \<Rightarrow> nat" where
  "digits_value a s = foldl (\<lambda>acc c. acc * 10 + (of_char c - 48)) a s"

definition parse_digits :: "string \<Rightarrow> nat option" where
  "parse_digits s = (if s \<noteq> [] \<and> list_all is_digit s then Some (digits_value 0 s) else None)"

text \<open>\<open>parse::<u32>()\<close> takes a leading \<open>+\<close>, at least one digit, and a value that fits.\<close>

definition parse_unsigned :: "nat \<Rightarrow> string \<Rightarrow> nat option" where
  "parse_unsigned bound s =
     Option.bind (parse_digits (case s of c # r \<Rightarrow> if c = CHR ''+'' then r else s | [] \<Rightarrow> s))
       (\<lambda>n. if n < bound then Some n else None)"

definition parse_u32 :: "string \<Rightarrow> u32 option" where
  "parse_u32 s = map_option of_nat (parse_unsigned (2 ^ 32) s)"

definition parse_u64 :: "string \<Rightarrow> u64 option" where
  "parse_u64 s = map_option of_nat (parse_unsigned (2 ^ 64) s)"

text \<open>\<open>parse::<i64>()\<close> also takes a leading \<open>-\<close>.\<close>

definition parse_i64 :: "string \<Rightarrow> i64 option" where
  "parse_i64 s = (case s of
     CHR ''-'' # r \<Rightarrow> Option.bind (parse_digits r) (\<lambda>n. if n \<le> 2 ^ 63 then Some (- of_nat n) else None)
   | _ \<Rightarrow> map_option of_nat (parse_unsigned (2 ^ 63) s))"

fun show_nat :: "nat \<Rightarrow> string" where
  "show_nat n = (if n < 10 then [digit_of n] else show_nat (n div 10) @ [digit_of (n mod 10)])"

declare show_nat.simps [simp del]

definition show_u32 :: "u32 \<Rightarrow> string" where
  "show_u32 w = show_nat (unat w)"

text \<open>\<open>{n:02}\<close>: at least two digits.\<close>

definition show_02 :: "nat \<Rightarrow> string" where
  "show_02 n = (if n < 10 then CHR ''0'' # show_nat n else show_nat n)"

lemma digit_of: "n < 10 \<Longrightarrow> is_digit (digit_of n) \<and> of_char (digit_of n) - 48 = n"
  by (simp add: is_digit_def digit_of_def)

lemma show_nat_digits: "list_all is_digit (show_nat n) \<and> show_nat n \<noteq> [] \<and> digits_value 0 (show_nat n) = n"
proof (induction n rule: show_nat.induct)
  case (1 n)
  then show ?case
    using digit_of [of n] digit_of [of "n mod 10"]
    by (subst (1 2 3) show_nat.simps) (auto simp: digits_value_def)
qed

lemma parse_show_nat: "parse_digits (show_nat n) = Some n"
  using show_nat_digits [of n] by (simp add: parse_digits_def)

lemma digit_not: "is_digit c \<Longrightarrow> c \<noteq> CHR ''+'' \<and> c \<noteq> CHR ''-'' \<and> c \<noteq> CHR '')'' \<and> c \<noteq> CHR ''('' \<and>
    c \<noteq> CHR ''$'' \<and> c \<noteq> CHR ''.'' \<and> c \<noteq> CHR ''/''"
  by (auto simp: is_digit_def)

lemma show_nat_plain:
  "c \<in> set (show_nat n) \<Longrightarrow> c \<noteq> CHR ''+'' \<and> c \<noteq> CHR ''-'' \<and> c \<noteq> CHR '')'' \<and> c \<noteq> CHR ''('' \<and>
    c \<noteq> CHR ''$'' \<and> c \<noteq> CHR ''.'' \<and> c \<noteq> CHR ''/''"
  using show_nat_digits [of n] digit_not by (auto simp: list_all_iff)

lemma parse_unsigned_show: "n < bound \<Longrightarrow> parse_unsigned bound (show_nat n) = Some n"
proof -
  assume n: "n < bound"
  obtain c r where c: "show_nat n = c # r" using show_nat_digits [of n] by (cases "show_nat n") auto
  then have "c \<noteq> CHR ''+''" using show_nat_plain [of c n] by simp
  then show ?thesis using n c parse_show_nat [of n] by (simp add: parse_unsigned_def)
qed

lemma parse_show_u32 [simp]: "parse_u32 (show_u32 w) = Some w"
  using unat_lt_exp [of w] by (simp add: parse_u32_def show_u32_def parse_unsigned_show)

end
