(* ===== verification/Reference.thy ===== *)
theory Reference
  imports Strings Errors Flags
begin

text \<open>
  Object references (\<open>src/common/reference.rs\<close>): functional constraints, the selection of a part of a
  variable, and references in the dotted form \<open>LD/LN.DO.DA\<close> and the MMS form \<open>LD/LN$FC$DO$DA\<close>. A
  reference borrows its text, so the path below the logical node stays the text it was parsed from
  and the components are read out of it.
\<close>

section \<open>Functional constraints\<close>

datatype fc = Fc_ST | Fc_MX | Fc_SP | Fc_SV | Fc_CF | Fc_DC | Fc_SG | Fc_SE | Fc_SR | Fc_OR | Fc_BL
  | Fc_EX | Fc_CO | Fc_US | Fc_MS | Fc_RP | Fc_BR | Fc_LG | Fc_GO | Fc_GS | Fc_XX

definition fc_parse :: "string \<Rightarrow> fc option" where
  "fc_parse s = map_of
     [(''ST'', Fc_ST), (''MX'', Fc_MX), (''SP'', Fc_SP), (''SV'', Fc_SV), (''CF'', Fc_CF),
      (''DC'', Fc_DC), (''SG'', Fc_SG), (''SE'', Fc_SE), (''SR'', Fc_SR), (''OR'', Fc_OR),
      (''BL'', Fc_BL), (''EX'', Fc_EX), (''CO'', Fc_CO), (''US'', Fc_US), (''MS'', Fc_MS),
      (''RP'', Fc_RP), (''BR'', Fc_BR), (''LG'', Fc_LG), (''GO'', Fc_GO), (''GS'', Fc_GS),
      (''XX'', Fc_XX)] s"

definition is_client_writable :: "fc \<Rightarrow> bool" where
  "is_client_writable f = (case f of
     Fc_SP \<Rightarrow> True | Fc_SV \<Rightarrow> True | Fc_CF \<Rightarrow> True | Fc_DC \<Rightarrow> True | Fc_SE \<Rightarrow> True | Fc_BL \<Rightarrow> True
   | Fc_RP \<Rightarrow> True | Fc_BR \<Rightarrow> True | Fc_LG \<Rightarrow> True | Fc_GO \<Rightarrow> True | Fc_GS \<Rightarrow> True | Fc_MS \<Rightarrow> True
   | Fc_US \<Rightarrow> True
   | Fc_ST \<Rightarrow> False | Fc_MX \<Rightarrow> False | Fc_SG \<Rightarrow> False | Fc_SR \<Rightarrow> False | Fc_OR \<Rightarrow> False | Fc_EX \<Rightarrow> False
   | Fc_CO \<Rightarrow> False | Fc_XX \<Rightarrow> False)"

definition fc_as_str :: "fc \<Rightarrow> string" where
  "fc_as_str f = (case f of
     Fc_ST \<Rightarrow> ''ST'' | Fc_MX \<Rightarrow> ''MX'' | Fc_SP \<Rightarrow> ''SP'' | Fc_SV \<Rightarrow> ''SV'' | Fc_CF \<Rightarrow> ''CF''
   | Fc_DC \<Rightarrow> ''DC'' | Fc_SG \<Rightarrow> ''SG'' | Fc_SE \<Rightarrow> ''SE'' | Fc_SR \<Rightarrow> ''SR'' | Fc_OR \<Rightarrow> ''OR''
   | Fc_BL \<Rightarrow> ''BL'' | Fc_EX \<Rightarrow> ''EX'' | Fc_CO \<Rightarrow> ''CO'' | Fc_US \<Rightarrow> ''US'' | Fc_MS \<Rightarrow> ''MS''
   | Fc_RP \<Rightarrow> ''RP'' | Fc_BR \<Rightarrow> ''BR'' | Fc_LG \<Rightarrow> ''LG'' | Fc_GO \<Rightarrow> ''GO'' | Fc_GS \<Rightarrow> ''GS''
   | Fc_XX \<Rightarrow> ''XX'')"

lemma fc_round [simp]: "fc_parse (fc_as_str f) = Some f"
  by (cases f) (simp_all add: fc_parse_def fc_as_str_def)

lemma fc_as_str_inj: "fc_as_str f = fc_as_str g \<longleftrightarrow> f = g"
  by (metis fc_round option.inject)

section \<open>Array indices\<close>

definition is_name_byte :: "char \<Rightarrow> bool" where
  "is_name_byte c \<longleftrightarrow> (let b = of_char c :: nat in
     48 \<le> b \<and> b \<le> 57 \<or> 65 \<le> b \<and> b \<le> 90 \<or> 97 \<le> b \<and> b \<le> 122) \<or> c = CHR ''_''"

definition split_index :: "string \<Rightarrow> string \<times> u32 option" where
  "split_index part = (case split_once (CHR ''('') part of
     None \<Rightarrow> (part, None)
   | Some (name, rest) \<Rightarrow> (case Option.bind (strip_suffix '')'' rest) parse_u32 of
       Some index \<Rightarrow> (name, Some index)
     | None \<Rightarrow> (part, None)))"

definition with_index :: "string \<Rightarrow> u32 \<Rightarrow> string" where
  "with_index name i = name @ ''('' @ show_u32 i @ '')''"

lemma split_index_with: "CHR ''('' \<notin> set name \<Longrightarrow> split_index (with_index name i) = (name, Some i)"
proof -
  assume "CHR ''('' \<notin> set name"
  then have "split_once (CHR ''('') (with_index name i) = Some (name, show_u32 i @ '')'')"
    by (simp add: with_index_def split_once_append)
  moreover have "strip_suffix '')'' (show_u32 i @ '')'') = Some (show_u32 i)" by (rule strip_suffix_append)
  ultimately show ?thesis by (simp add: split_index_def)
qed

lemma split_index_plain: "CHR ''('' \<notin> set name \<Longrightarrow> split_index name = (name, None)"
  by (simp add: split_index_def split_once_None_iff [THEN iffD2])

section \<open>Selections\<close>

datatype selector = Component string | Index u32 | IndexRange u32 u32 | AllElements

definition selector_show :: "selector \<Rightarrow> string" where
  "selector_show s = (case s of
     Component name \<Rightarrow> ''.'' @ name
   | Index i \<Rightarrow> ''('' @ show_u32 i @ '')''
   | IndexRange low count \<Rightarrow> ''('' @ show_u32 low @ ''..'' @ show_u32 (sat_sub (sat_add low count) 1) @ '')''
   | AllElements \<Rightarrow> ''(*)'')"

section \<open>References\<close>

record object_reference =
  or_ld :: string
  or_ln :: string
  or_fc :: "fc option"
  or_path :: string

definition is_sep :: "char \<Rightarrow> bool" where
  "is_sep c \<longleftrightarrow> c = CHR ''.'' \<or> c = CHR ''$''"

fun check_parts :: "string list \<Rightarrow> unit result" where
  "check_parts [] = Inr ()"
| "check_parts (part # rest) = (let (name, index) = split_index part in
     if name = [] \<or> \<not> list_all is_name_byte name then Inl (InvalidReference ''data object / attribute name'')
     else if index = None \<and> length name \<noteq> length part then Inl (InvalidReference ''array index'')
     else check_parts rest)"

definition ref_split :: "string \<Rightarrow> (string \<times> fc option \<times> string) result" where
  "ref_split rest = (case split_once (CHR ''$'') rest of
       Some (ln, tail) \<Rightarrow> (let (fc_str, path) = (case split_once (CHR ''$'') tail of
            Some p \<Rightarrow> p | None \<Rightarrow> (tail, [])) in
          rbind (ok_or (InvalidReference ''functional constraint'') (fc_parse fc_str)) (\<lambda>fc.
            Inr (ln, Some fc, path)))
     | None \<Rightarrow> (case split_once (CHR ''.'') rest of
          Some (ln, path) \<Rightarrow> Inr (ln, None, path)
        | None \<Rightarrow> Inr (rest, None, [])))"

definition ref_parse :: "string \<Rightarrow> object_reference result" where
  "ref_parse s =
     rbind (ok_or (InvalidReference ''missing `/` between LD and LN'') (split_once (CHR ''/'') s)) (\<lambda>(ld, rest).
     if ld = [] \<or> \<not> list_all is_name_byte ld then Inl (InvalidReference ''logical device name'') else
     rbind (ref_split rest) (\<lambda>(ln, fc, path).
     if ln = [] \<or> \<not> list_all is_name_byte ln then Inl (InvalidReference ''logical node name'') else
     rbind (if path = [] then Inr () else check_parts (split_on is_sep path)) (\<lambda>_.
     Inr \<lparr>or_ld = ld, or_ln = ln, or_fc = fc, or_path = path\<rparr>)))"

definition raw_parts :: "object_reference \<Rightarrow> string list" where
  "raw_parts r = filter (\<lambda>s. s \<noteq> []) (split_on is_sep (or_path r))"

definition ref_parts :: "object_reference \<Rightarrow> (string \<times> u32 option) list" where
  "ref_parts r = map split_index (raw_parts r)"

fun named_upto :: "(string \<times> u32 option) list \<Rightarrow> usize" where
  "named_upto [] = 0"
| "named_upto ((_, index) # ps) = (if index \<noteq> None then 1 else Suc (named_upto ps))"

definition named_len :: "object_reference \<Rightarrow> usize" where
  "named_len r = named_upto (ref_parts r)"

definition ref_path :: "object_reference \<Rightarrow> string list" where
  "ref_path r = take (named_len r) (map fst (ref_parts r))"

definition ref_selection :: "object_reference \<Rightarrow> selector list" where
  "ref_selection r = concat (map (\<lambda>(n, name, index).
      (if n + 1 > named_len r then [Component name] else []) @
      (case index of Some i \<Rightarrow> [Index i] | None \<Rightarrow> [])) (enumerate 0 (ref_parts r)))"

definition data_object :: "object_reference \<Rightarrow> string option" where
  "data_object r = (case ref_path r of [] \<Rightarrow> None | p # _ \<Rightarrow> Some p)"

definition ref_len :: "object_reference \<Rightarrow> usize" where
  "ref_len r = length (or_ld r) + 1 + length (or_ln r) +
     (if or_path r = [] then 0 else 1 + length (or_path r))"

definition ref_fits :: "object_reference \<Rightarrow> edition \<Rightarrow> bool" where
  "ref_fits r e \<longleftrightarrow> ref_len r \<le> max_object_reference_len e"

definition to_mms_under :: "object_reference \<Rightarrow> fc \<Rightarrow> string \<times> string" where
  "to_mms_under r fc =
     (or_ld r, fold (\<lambda>part item. item @ ''$'' @ part) (ref_path r) (or_ln r @ ''$'' @ fc_as_str fc))"

definition to_mms :: "object_reference \<Rightarrow> fc \<Rightarrow> string \<times> string" where
  "to_mms r fc = to_mms_under r (case or_fc r of Some f \<Rightarrow> f | None \<Rightarrow> fc)"

definition ref_show :: "object_reference \<Rightarrow> string" where
  "ref_show r = or_ld r @ ''/'' @ or_ln r @
     (case or_fc r of
        Some fc \<Rightarrow> ''$'' @ fc_as_str fc @ concat (map (\<lambda>p. ''$'' @ p) (raw_parts r))
      | None \<Rightarrow> concat (map (\<lambda>p. ''.'' @ p) (raw_parts r)))"

section \<open>Printing and parsing\<close>

lemma name_byte_not: "is_name_byte c \<Longrightarrow> c \<noteq> CHR ''/'' \<and> c \<noteq> CHR ''$'' \<and> c \<noteq> CHR ''.'' \<and> c \<noteq> CHR ''(''"
  by (auto simp: is_name_byte_def)

lemma concat_sep: "concat (map ((@) [c]) ps) = (if ps = [] then [] else c # join [c] ps)"
  by (induction ps rule: induct_list012) auto

lemma check_parts_ne: "check_parts ps = Inr () \<Longrightarrow> p \<in> set ps \<Longrightarrow> p \<noteq> []"
proof (induction ps)
  case (Cons q ps)
  have "split_index [] = ([], None)" by (simp add: split_index_def)
  then show ?case using Cons by (auto split: prod.splits if_splits)
qed simp

lemma raw_parts_checked:
  assumes "or_path r = [] \<or> check_parts (split_on is_sep (or_path r)) = Inr ()"
  shows "raw_parts r = (if or_path r = [] then [] else split_on is_sep (or_path r))"
  using assms check_parts_ne [of "split_on is_sep (or_path r)"]
  by (auto simp: raw_parts_def filter_id_conv)

text \<open>A reference that parsed, with the pieces it was taken apart into.\<close>

definition ref_wf :: "object_reference \<Rightarrow> bool" where
  "ref_wf r \<longleftrightarrow> or_ld r \<noteq> [] \<and> list_all is_name_byte (or_ld r) \<and> or_ln r \<noteq> [] \<and> list_all is_name_byte (or_ln r) \<and>
     (or_path r = [] \<or> check_parts (split_on is_sep (or_path r)) = Inr ())"

lemma ref_parse_wf: "ref_parse s = Inr r \<Longrightarrow> ref_wf r"
proof (erule ok_allD [rotated])
  show "ok_all ref_wf (ref_parse s)"
    unfolding ref_parse_def
    by (intro ok_all_intros) (auto simp: ref_wf_def split: prod.splits intro!: ok_all_intros)
qed

definition canonical :: "object_reference \<Rightarrow> object_reference" where
  "canonical r = r\<lparr>or_path := join (if or_fc r = None then ''.'' else ''$'') (raw_parts r)\<rparr>"

lemma raw_parts_no_sep: "p \<in> set (raw_parts r) \<Longrightarrow> x \<in> set p \<Longrightarrow> \<not> is_sep x"
  using split_on_parts by (auto simp: raw_parts_def)

lemma split_canonical: "raw_parts r \<noteq> [] \<Longrightarrow> split_on is_sep (or_path (canonical r)) = raw_parts r"
proof -
  assume ne: "raw_parts r \<noteq> []"
  have "\<forall>a \<in> set (raw_parts r). \<forall>x \<in> set a. \<not> is_sep x" using raw_parts_no_sep by blast
  then have "split_on is_sep (join [c] (raw_parts r)) = raw_parts r" if "is_sep c" for c
    using that ne by (intro split_on_join)
  then show ?thesis by (simp add: canonical_def is_sep_def)
qed

lemma raw_parts_canonical: "raw_parts (canonical r) = raw_parts r"
proof (cases "raw_parts r = []")
  case False
  have "filter (\<lambda>s. s \<noteq> []) (raw_parts r) = raw_parts r" by (simp add: raw_parts_def)
  then show ?thesis using split_canonical [OF False] by (simp add: raw_parts_def [of "canonical r"])
qed (simp add: canonical_def raw_parts_def)

lemma ref_wfD:
  assumes "ref_wf r"
  shows "CHR ''/'' \<notin> set (or_ld r)" "CHR ''$'' \<notin> set (or_ln r)" "CHR ''.'' \<notin> set (or_ln r)"
    "or_ld r \<noteq> []" "or_ln r \<noteq> []" "list_all is_name_byte (or_ld r)" "list_all is_name_byte (or_ln r)"
    "or_path r = [] \<or> check_parts (split_on is_sep (or_path r)) = Inr ()"
  using assms name_byte_not by (auto simp: ref_wf_def list_all_iff)

lemma canonical_sel [simp]: "or_ld (canonical r) = or_ld r" "or_ln (canonical r) = or_ln r" "or_fc (canonical r) = or_fc r"
  by (simp_all add: canonical_def)

lemma canonical_checked:
  assumes "ref_wf r"
  shows "or_path (canonical r) = [] \<or> check_parts (split_on is_sep (or_path (canonical r))) = Inr ()"
proof (cases "or_path (canonical r) = []")
  case False
  have ne: "raw_parts r \<noteq> []" using False by (auto simp: canonical_def)
  then have p: "or_path r \<noteq> []" by (auto simp: raw_parts_def)
  have "raw_parts r = split_on is_sep (or_path r)"
    using raw_parts_checked [OF ref_wfD(8) [OF assms]] p by simp
  then have "check_parts (raw_parts r) = Inr ()" using ref_wfD(8) [OF assms] p by simp
  then show ?thesis by (simp add: split_canonical [OF ne])
qed simp

text \<open>What is printed after the logical node, and how it splits.\<close>

definition ref_tail :: "object_reference \<Rightarrow> string" where
  "ref_tail r = or_ln r @ (case or_fc r of
     Some fc \<Rightarrow> CHR ''$'' # fc_as_str fc @ (if raw_parts r = [] then [] else CHR ''$'' # join ''$'' (raw_parts r))
   | None \<Rightarrow> (if raw_parts r = [] then [] else CHR ''.'' # join ''.'' (raw_parts r)))"

lemma ref_show_tail: "ref_show r = or_ld r @ CHR ''/'' # ref_tail r"
  using concat_sep [of "CHR ''.''" "raw_parts r"] concat_sep [of "CHR ''$''" "raw_parts r"]
  by (cases "or_fc r") (simp_all add: ref_show_def ref_tail_def)

lemma set_join: "x \<in> set (join c ps) \<Longrightarrow> x \<in> set c \<or> (\<exists>p \<in> set ps. x \<in> set p)"
  by (induction c ps rule: join.induct) auto

lemma ref_split_tail:
  assumes "ref_wf r"
  shows "ref_split (ref_tail r) = Inr (or_ln r, or_fc r, or_path (canonical r))"
proof (cases "or_fc r")
  case None
  let ?tail = "if raw_parts r = [] then [] else CHR ''.'' # join ''.'' (raw_parts r)"
  have "CHR ''$'' \<notin> set (join ''.'' (raw_parts r))"
    using set_join [of "CHR ''$''" "''.''" "raw_parts r"] raw_parts_no_sep [of _ r "CHR ''$''"]
    by (auto simp: is_sep_def)
  then have a: "split_once (CHR ''$'') (or_ln r @ ?tail) = None"
    using ref_wfD(2) [OF assms] by (simp add: split_once_None_iff)
  have "split_once (CHR ''.'') (or_ln r @ ?tail) =
      (if raw_parts r = [] then None else Some (or_ln r, join ''.'' (raw_parts r)))"
    using ref_wfD(3) [OF assms] by (simp add: split_once_None_iff split_once_append)
  then show ?thesis using a None by (simp add: ref_split_def ref_tail_def canonical_def)
next
  case (Some fc)
  let ?tail = "fc_as_str fc @ (if raw_parts r = [] then [] else CHR ''$'' # join ''$'' (raw_parts r))"
  have f: "CHR ''$'' \<notin> set (fc_as_str fc)" by (cases fc) (simp_all add: fc_as_str_def)
  have a: "split_once (CHR ''$'') (or_ln r @ CHR ''$'' # ?tail) = Some (or_ln r, ?tail)"
    by (rule split_once_append) (rule ref_wfD(2) [OF assms])
  have "split_once (CHR ''$'') ?tail =
      (if raw_parts r = [] then None else Some (fc_as_str fc, join ''$'' (raw_parts r)))"
    using f by (simp add: split_once_None_iff split_once_append)
  then show ?thesis using a Some by (simp add: ref_split_def ref_tail_def canonical_def)
qed

lemma ref_parse_show:
  assumes "ref_wf r"
  shows "ref_parse (ref_show r) = Inr (canonical r)"
proof -
  have "split_once (CHR ''/'') (ref_show r) = Some (or_ld r, ref_tail r)"
    unfolding ref_show_tail by (rule split_once_append) (rule ref_wfD(1) [OF assms])
  then show ?thesis
    using ref_split_tail [OF assms] ref_wfD [OF assms] canonical_checked [OF assms]
    by (auto simp: ref_parse_def)
qed

lemma ref_roundtrip:
  assumes "ref_parse s = Inr r"
  shows "ref_parse (ref_show r) = Inr (canonical r) \<and> ref_show (canonical r) = ref_show r \<and>
     ref_parts (canonical r) = ref_parts r"
proof -
  have "ref_tail (canonical r) = ref_tail r"
    by (cases "or_fc r") (simp_all add: ref_tail_def raw_parts_canonical)
  then have "ref_show (canonical r) = ref_show r" by (simp add: ref_show_tail)
  then show ?thesis
    using ref_parse_show [OF ref_parse_wf [OF assms]] by (simp add: ref_parts_def raw_parts_canonical)
qed

end
