(* ===== verification/Model.thy ===== *)
theory Model
  imports Reference Ethernet
begin

text \<open>
  The IED model descriptor (\<open>src/model/mod.rs\<close>): what an SCL file says about an IED, as the loader hands
  it to the server, the publishers and the subscribers, and the lookups the rest of the crate makes in
  it. Data attributes and data objects nest, so they are datatypes; everything else is a record with the
  fields of its \<open>struct\<close>.
\<close>

section \<open>Basic types\<close>

datatype btype = B_Boolean | B_Int8 | B_Int16 | B_Int24 | B_Int32 | B_Int64 | B_Int8U | B_Int16U | B_Int24U
  | B_Int32U | B_Float32 | B_Float64 | B_Enum | B_Dbpos | B_Tcmd | B_Quality | B_Timestamp | B_VisString32
  | B_VisString64 | B_VisString65 | B_VisString129 | B_VisString255 | B_Octet64 | B_Unicode255 | B_Struct
  | B_EntryTime | B_Check | B_ObjRef | B_Currency | B_PhyComAddr | B_EntryID | B_TrgOps | B_OptFlds
  | B_SvOptFlds | B_LogOptFlds | B_Octet6 | B_Octet16 | B_Other string

definition btype_parse :: "string \<Rightarrow> btype" where
  "btype_parse s = (case map_of
     [(''BOOLEAN'', B_Boolean), (''INT8'', B_Int8), (''INT16'', B_Int16), (''INT24'', B_Int24),
      (''INT32'', B_Int32), (''INT64'', B_Int64), (''INT8U'', B_Int8U), (''INT16U'', B_Int16U),
      (''INT24U'', B_Int24U), (''INT32U'', B_Int32U), (''FLOAT32'', B_Float32), (''FLOAT64'', B_Float64),
      (''Enum'', B_Enum), (''Dbpos'', B_Dbpos), (''Tcmd'', B_Tcmd), (''Quality'', B_Quality),
      (''Timestamp'', B_Timestamp), (''VisString32'', B_VisString32), (''VisString64'', B_VisString64),
      (''VisString65'', B_VisString65), (''VisString129'', B_VisString129),
      (''VisString255'', B_VisString255), (''Octet64'', B_Octet64), (''Unicode255'', B_Unicode255),
      (''Struct'', B_Struct), (''EntryTime'', B_EntryTime), (''Check'', B_Check), (''ObjRef'', B_ObjRef),
      (''Currency'', B_Currency), (''PhyComAddr'', B_PhyComAddr), (''EntryID'', B_EntryID),
      (''TrgOps'', B_TrgOps), (''OptFlds'', B_OptFlds), (''SvOptFlds'', B_SvOptFlds),
      (''LogOptFlds'', B_LogOptFlds), (''Octet6'', B_Octet6), (''Octet16'', B_Octet16)] s of
     Some b \<Rightarrow> b | None \<Rightarrow> B_Other s)"

definition sv_width :: "btype \<Rightarrow> usize option" where
  "sv_width b = (case b of
     B_Boolean \<Rightarrow> Some 1 | B_Int8 \<Rightarrow> Some 1 | B_Int8U \<Rightarrow> Some 1
   | B_Int16 \<Rightarrow> Some 2 | B_Int16U \<Rightarrow> Some 2
   | B_Int24 \<Rightarrow> Some 3 | B_Int24U \<Rightarrow> Some 3
   | B_Int32 \<Rightarrow> Some 4 | B_Int32U \<Rightarrow> Some 4 | B_Float32 \<Rightarrow> Some 4 | B_Quality \<Rightarrow> Some 4 | B_Enum \<Rightarrow> Some 4
   | B_Int64 \<Rightarrow> Some 8 | B_Float64 \<Rightarrow> Some 8 | B_Timestamp \<Rightarrow> Some 8
   | _ \<Rightarrow> None)"

section \<open>Data objects\<close>

datatype data_attribute = DataAttribute (da_name: string) (da_fc: fc) (da_btype: btype)
  (da_type_id: "string option") (da_children: "data_attribute list") (da_value: "string option")
  (da_group_values: "(u32 \<times> string) list") (da_count: "u32 option")

datatype data_obj = DataObject (dob_name: string) (dob_cdc: string) (dob_type_id: string)
  (dob_attributes: "data_attribute list") (dob_subs: "data_obj list") (dob_count: "u32 option")

record fcda =
  fm_ld_inst :: string
  fm_prefix :: string
  fm_ln_class :: string
  fm_ln_inst :: string
  fm_do_name :: string
  fm_da_name :: "string option"
  fm_fc :: fc
  fm_ix :: "u32 option"

definition fm_ln_name :: "fcda \<Rightarrow> string" where
  "fm_ln_name m = fm_prefix m @ fm_ln_class m @ fm_ln_inst m"

definition fm_signal :: "fcda \<Rightarrow> string" where
  "fm_signal m = (if fm_ld_inst m \<noteq> [] then fm_ld_inst m @ ''/'' else []) @ fm_ln_name m @ ''.'' @ fm_do_name m @
     (case fm_da_name m of Some da \<Rightarrow> ''.'' @ da | None \<Rightarrow> [])"

abbreviation dots :: "string \<Rightarrow> string list" where
  "dots s \<equiv> split_on (\<lambda>c. c = CHR ''.'') s"

definition fm_mms_reference :: "fcda \<Rightarrow> string \<Rightarrow> string" where
  "fm_mms_reference m ld = ld @ ''/'' @ fm_ln_name m @ ''$'' @ fc_as_str (fm_fc m) @
     concat (map (\<lambda>part. ''$'' @ part) (dots (fm_do_name m))) @
     (case fm_da_name m of Some da \<Rightarrow> concat (map (\<lambda>part. ''$'' @ part) (dots da)) | None \<Rightarrow> [])"

record model_data_set =
  mds_name :: string
  mds_members :: "fcda list"

section \<open>Control blocks\<close>

record gse_address =
  ga_mac :: mac_addr
  ga_appid :: u16
  ga_vlan_id :: u16
  ga_vlan_priority :: u8
  ga_min_time_ms :: "u32 option"
  ga_max_time_ms :: "u32 option"

record gse_control =
  gcb_name :: string
  gcb_dat_set :: "string option"
  gcb_conf_rev :: u32
  gcb_go_id :: "string option"
  gcb_fixed_offs :: bool
  gcb_address :: "gse_address option"

record smv_address =
  sad_mac :: mac_addr
  sad_appid :: u16
  sad_vlan_id :: u16
  sad_vlan_priority :: u8

record smv_control =
  scb_name :: string
  scb_smv_id :: string
  scb_dat_set :: "string option"
  scb_conf_rev :: u32
  scb_smp_rate :: u32
  scb_nof_asdu :: u32
  scb_smp_mod :: string
  scb_multicast :: bool
  scb_address :: "smv_address option"

definition scb_samples_per_second :: "smv_control \<Rightarrow> u32 \<Rightarrow> u32 option" where
  "scb_samples_per_second cb nominal_hz =
     (if scb_smp_mod cb = ''SmpPerSec'' then (if scb_smp_rate cb \<noteq> 0 then Some (scb_smp_rate cb) else None)
      else if scb_smp_mod cb = ''SecPerSmp'' then (if scb_smp_rate cb = 1 then Some 1 else None)
      else Option.bind (checked_mul (scb_smp_rate cb) nominal_hz) (\<lambda>n. if n \<noteq> 0 then Some n else None))"

record report_control =
  rcb_name :: string
  rcb_dat_set :: "string option"
  rcb_conf_rev :: u32
  rcb_buffered :: bool
  rcb_rpt_id :: "string option"
  rcb_buf_time_ms :: u32
  rcb_intg_pd_ms :: u32
  rcb_max_instances :: u32
  rcb_indexed :: bool
  rcb_trg_ops :: trg_ops
  rcb_opt_flds :: opt_flds

definition rcb_instance_names :: "report_control \<Rightarrow> string list" where
  "rcb_instance_names r = (if \<not> rcb_indexed r then [rcb_name r]
     else map (\<lambda>n. rcb_name r @ show_02 n) [1..<Suc (max (unat (rcb_max_instances r)) 1)])"

definition rcb_fc :: "report_control \<Rightarrow> fc" where
  "rcb_fc r = (if rcb_buffered r then Fc_BR else Fc_RP)"

record log_control =
  lcb_name :: string
  lcb_dat_set :: "string option"
  lcb_log_name :: string
  lcb_log_ld_inst :: "string option"
  lcb_log_ena :: bool
  lcb_reason_code :: bool
  lcb_buf_time_ms :: u32
  lcb_intg_pd_ms :: u32
  lcb_trg_ops :: trg_ops

record model_log =
  log_name :: string

record setting_control =
  sgc_num_of_sgs :: u32
  sgc_act_sg :: u32
  sgc_resv_tms :: "u16 option"

section \<open>Inputs\<close>

datatype service_kind = SkGoose | SkSmv | SkReport | SkPoll

definition service_kind_parse :: "string \<Rightarrow> service_kind option" where
  "service_kind_parse s = map_of [(''GOOSE'', SkGoose), (''SMV'', SkSmv), (''Report'', SkReport), (''Poll'', SkPoll)] s"

record ext_ref =
  er_ied_name :: "string option"
  er_ld_inst :: "string option"
  er_prefix :: string
  er_ln_class :: "string option"
  er_ln_inst :: string
  er_do_name :: "string option"
  er_da_name :: "string option"
  er_service_type :: "service_kind option"
  er_src_ld_inst :: "string option"
  er_src_prefix :: string
  er_src_ln_class :: "string option"
  er_src_ln_inst :: string
  er_src_cb_name :: "string option"
  er_int_addr :: "string option"

definition source_ld_inst :: "ext_ref \<Rightarrow> string option" where
  "source_ld_inst x = (case er_src_ld_inst x of Some i \<Rightarrow> Some i | None \<Rightarrow> er_ld_inst x)"

definition source_ln_name :: "ext_ref \<Rightarrow> string" where
  "source_ln_name x = (case er_src_ln_class x of
     None \<Rightarrow> ''LLN0''
   | Some class \<Rightarrow> if class = ''LLN0'' then ''LLN0'' else er_src_prefix x @ class @ er_src_ln_inst x)"

section \<open>The IED\<close>

record logical_node =
  lnd_name :: string
  lnd_class :: string
  lnd_type :: string
  lnd_data_objects :: "data_obj list"
  lnd_data_sets :: "model_data_set list"
  lnd_gse_controls :: "gse_control list"
  lnd_smv_controls :: "smv_control list"
  lnd_report_controls :: "report_control list"
  lnd_log_controls :: "log_control list"
  lnd_logs :: "model_log list"
  lnd_setting_control :: "setting_control option"
  lnd_inputs :: "ext_ref list"

record osi_address =
  osa_ip :: "string option"
  osa_t_sel :: "bytes option"
  osa_s_sel :: "bytes option"
  osa_p_sel :: "bytes option"
  osa_ap_title :: "u32 list option"
  osa_ae_qualifier :: "i64 option"

definition osi_address_default :: osi_address where
  "osi_address_default = \<lparr>osa_ip = None, osa_t_sel = None, osa_s_sel = None, osa_p_sel = None,
     osa_ap_title = None, osa_ae_qualifier = None\<rparr>"

definition osa_is_empty :: "osi_address \<Rightarrow> bool" where
  "osa_is_empty a \<longleftrightarrow> a = osi_address_default"

record access_point =
  acp_name :: string
  acp_address :: "osi_address option"

record enum_type =
  ent_id :: string
  ent_values :: "(i64 \<times> string) list"

definition ent_ord :: "enum_type \<Rightarrow> string \<Rightarrow> i64 option" where
  "ent_ord e symbol = map_option fst (find (\<lambda>(_, s). s = symbol) (ent_values e))"

definition ent_symbol :: "enum_type \<Rightarrow> i64 \<Rightarrow> string option" where
  "ent_symbol e ord = map_option snd (find (\<lambda>(o', _). o' = ord) (ent_values e))"

record logical_device =
  ldv_inst :: string
  ldv_name :: string
  ldv_nodes :: "logical_node list"

record ied_model =
  imo_name :: string
  imo_scl_version :: string
  imo_access_points :: "access_point list"
  imo_devices :: "logical_device list"
  imo_enum_types :: "enum_type list"

definition enum_type_of :: "ied_model \<Rightarrow> string \<Rightarrow> enum_type option" where
  "enum_type_of m i = find (\<lambda>e. ent_id e = i) (imo_enum_types m)"

definition enum_ord :: "ied_model \<Rightarrow> string option \<Rightarrow> string \<Rightarrow> i64 option" where
  "enum_ord m type_id symbol = (case parse_i64 symbol of
     Some n \<Rightarrow> Some n
   | None \<Rightarrow> Option.bind type_id (\<lambda>i. Option.bind (enum_type_of m i) (\<lambda>e. ent_ord e symbol)))"

definition osi_address_of :: "ied_model \<Rightarrow> string option \<Rightarrow> osi_address option" where
  "osi_address_of m name = Option.bind
     (case name of Some n \<Rightarrow> find (\<lambda>a. acp_name a = n) (imo_access_points m)
      | None \<Rightarrow> (case imo_access_points m of [only] \<Rightarrow> Some only | _ \<Rightarrow> None)) acp_address"

definition device_named :: "ied_model \<Rightarrow> string \<Rightarrow> logical_device option" where
  "device_named m name = find (\<lambda>ld. ldv_name ld = name) (imo_devices m)"

definition device_by_inst :: "ied_model \<Rightarrow> string \<Rightarrow> logical_device option" where
  "device_by_inst m inst = find (\<lambda>ld. ldv_inst ld = inst) (imo_devices m)"

definition node_named :: "logical_device \<Rightarrow> string \<Rightarrow> logical_node option" where
  "node_named ld name = find (\<lambda>n. lnd_name n = name) (ldv_nodes ld)"

definition node_of_ref :: "ied_model \<Rightarrow> object_reference \<Rightarrow> (logical_device \<times> logical_node) option" where
  "node_of_ref m r = Option.bind (device_named m (or_ld r)) (\<lambda>ld.
     Option.bind (node_named ld (or_ln r)) (\<lambda>n. Some (ld, n)))"

definition find_gse_control :: "ied_model \<Rightarrow> string \<Rightarrow> (logical_device \<times> logical_node \<times> gse_control) result" where
  "find_gse_control m reference =
     rbind (ref_parse reference) (\<lambda>r.
     rbind (ok_or (NotFound ''logical node'') (node_of_ref m r)) (\<lambda>(ld, n).
     rbind (ok_or (InvalidReference ''control block name'') (data_object r)) (\<lambda>name.
     rbind (ok_or (NotFound ''GSEControl'') (find (\<lambda>g. gcb_name g = name) (lnd_gse_controls n))) (\<lambda>g.
     Inr (ld, n, g)))))"

definition find_smv_control :: "ied_model \<Rightarrow> string \<Rightarrow> (logical_device \<times> logical_node \<times> smv_control) result" where
  "find_smv_control m reference =
     rbind (ref_parse reference) (\<lambda>r.
     rbind (ok_or (NotFound ''logical node'') (node_of_ref m r)) (\<lambda>(ld, n).
     rbind (ok_or (InvalidReference ''control block name'') (data_object r)) (\<lambda>name.
     rbind (ok_or (NotFound ''SampledValueControl'') (find (\<lambda>g. scb_name g = name) (lnd_smv_controls n))) (\<lambda>g.
     Inr (ld, n, g)))))"

definition find_data_set :: "logical_node \<Rightarrow> string \<Rightarrow> model_data_set option" where
  "find_data_set n name = find (\<lambda>d. mds_name d = name) (lnd_data_sets n)"

section \<open>Attributes\<close>

text \<open>The walk below a data object: sub data objects as long as the names are ones, then attributes.\<close>

fun attribute_walk :: "data_obj \<Rightarrow> data_attribute option \<Rightarrow> string list \<Rightarrow> data_attribute option option" where
  "attribute_walk dobj da [] = Some da"
| "attribute_walk dobj (Some a) (part # ps) =
     (case find (\<lambda>c. da_name c = part) (da_children a) of None \<Rightarrow> None | Some c \<Rightarrow> attribute_walk dobj (Some c) ps)"
| "attribute_walk dobj None (part # ps) = (case find (\<lambda>s. dob_name s = part) (dob_subs dobj) of
       Some sdo \<Rightarrow> attribute_walk sdo None ps
     | None \<Rightarrow> (case find (\<lambda>a. da_name a = part) (dob_attributes dobj) of
           None \<Rightarrow> None | Some a \<Rightarrow> attribute_walk dobj (Some a) ps))"

definition attribute_at :: "ied_model \<Rightarrow> object_reference \<Rightarrow> data_attribute option" where
  "attribute_at m r = Option.bind (node_of_ref m r) (\<lambda>(_, n).
     case ref_path r of [] \<Rightarrow> None
     | do_name # parts \<Rightarrow> Option.bind (find (\<lambda>d. dob_name d = do_name) (lnd_data_objects n)) (\<lambda>dobj.
         Option.bind (attribute_walk dobj None parts) (\<lambda>da.
           case (da, or_fc r) of
             (Some a, Some fc) \<Rightarrow> if da_fc a \<noteq> fc then None else Some a
           | (found, _) \<Rightarrow> found)))"

section \<open>Data-set members\<close>

record fcda_step =
  stp_reference :: string
  stp_name :: string
  stp_index :: "u32 option"
  stp_count :: "u32 option"

datatype fcda_node = FObject data_obj | FAttribute data_attribute

definition fcda_next :: "logical_node \<Rightarrow> fcda_node option \<Rightarrow> string \<Rightarrow> fcda_node option" where
  "fcda_next n here name = (case here of
     None \<Rightarrow> map_option FObject (find (\<lambda>d. dob_name d = name) (lnd_data_objects n))
   | Some (FObject o') \<Rightarrow> (case find (\<lambda>s. dob_name s = name) (dob_subs o') of
         Some s \<Rightarrow> Some (FObject s)
       | None \<Rightarrow> map_option FAttribute (find (\<lambda>a. da_name a = name) (dob_attributes o')))
   | Some (FAttribute a) \<Rightarrow> map_option FAttribute (find (\<lambda>c. da_name c = name) (da_children a)))"

definition fnode_count :: "fcda_node \<Rightarrow> u32 option" where
  "fnode_count x = (case x of FObject o' \<Rightarrow> dob_count o' | FAttribute a \<Rightarrow> da_count a)"

fun fcda_steps :: "logical_node \<Rightarrow> fcda_node option \<Rightarrow> string \<Rightarrow> string list \<Rightarrow> string + fcda_step list" where
  "fcda_steps n here prefix [] = Inr []"
| "fcda_steps n here prefix (part # ps) = (let (name, index) = split_index part in
     (case fcda_next n here name of
        None \<Rightarrow> Inl (''`'' @ name @ ''` is not declared here'')
      | Some nxt \<Rightarrow> (let reference = prefix @ ''$'' @ name in
          rbind (fcda_steps n (Some nxt)
              (case index of Some i \<Rightarrow> with_index reference i | None \<Rightarrow> reference) ps) (\<lambda>rest.
          Inr (\<lparr>stp_reference = reference, stp_name = name, stp_index = index, stp_count = fnode_count nxt\<rparr> # rest)))))"

definition fcda_walk :: "ied_model \<Rightarrow> string \<Rightarrow> fcda \<Rightarrow> string + fcda_step list" where
  "fcda_walk m ld_name fm =
     rbind (ok_or (''no logical device `'' @ fm_ld_inst fm @ ''`'')
        (case device_by_inst m (fm_ld_inst fm) of Some ld \<Rightarrow> Some ld | None \<Rightarrow> device_named m ld_name)) (\<lambda>ld.
     rbind (ok_or (''no logical node `'' @ fm_ln_name fm @ ''`'') (node_named ld (fm_ln_name fm))) (\<lambda>n.
     fcda_steps n None (ldv_name ld @ ''/'' @ lnd_name n @ ''$'' @ fc_as_str (fm_fc fm))
       (filter (\<lambda>p. p \<noteq> []) (dots (fm_do_name fm) @ dots (case fm_da_name fm of Some d \<Rightarrow> d | None \<Rightarrow> [])))))"

definition place_index :: "ied_model \<Rightarrow> string \<Rightarrow> fcda \<Rightarrow> string \<Rightarrow> u32 \<Rightarrow> string option" where
  "place_index m ld_name fm base ix = (case fcda_walk m ld_name fm of
     Inl _ \<Rightarrow> None
   | Inr walk \<Rightarrow> Option.bind (find (\<lambda>s. stp_count s \<noteq> None) walk) (\<lambda>step.
       map_option (\<lambda>rest. with_index (stp_reference step) ix @ rest) (strip_prefix (stp_reference step) base)))"

definition fcda_reference :: "ied_model \<Rightarrow> string \<Rightarrow> fcda \<Rightarrow> string" where
  "fcda_reference m ld_name fm =
     (let resolved = (case device_by_inst m (fm_ld_inst fm) of Some ld \<Rightarrow> ldv_name ld | None \<Rightarrow> ld_name);
          base = fm_mms_reference fm resolved
      in (case fm_ix fm of
            Some ix \<Rightarrow> if CHR ''('' \<notin> set base
              then (case place_index m ld_name fm base ix of Some r \<Rightarrow> r | None \<Rightarrow> base) else base
          | None \<Rightarrow> base))"

fun step_bounds :: "fcda_step list \<Rightarrow> string + unit" where
  "step_bounds [] = Inr ()"
| "step_bounds (s # ss) = (case (stp_index s, stp_count s) of
     (Some i, Some n) \<Rightarrow> if n \<le> i then Inl (''index '' @ show_u32 i @ '' is past the end of `'' @ stp_name s @
        ''`, which has '' @ show_u32 n @ '' elements'') else step_bounds ss
   | (Some i, None) \<Rightarrow> Inl (''`'' @ stp_name s @ ''` is not an array, so `('' @ show_u32 i @ '')` selects nothing'')
   | _ \<Rightarrow> step_bounds ss)"

definition fcda_resolves :: "ied_model \<Rightarrow> string \<Rightarrow> fcda \<Rightarrow> string + unit" where
  "fcda_resolves m ld_name fm =
     rbind (fcda_walk m ld_name fm) (\<lambda>walk.
     rbind (step_bounds walk) (\<lambda>_.
     case fm_ix fm of
       Some ix \<Rightarrow> if \<not> list_ex (\<lambda>s. stp_index s \<noteq> None) walk then
         (case find (\<lambda>s. stp_count s \<noteq> None) walk of
            Some s \<Rightarrow> (case stp_count s of
               Some n \<Rightarrow> if n \<le> ix then Inl (''ix='' @ show_u32 ix @ '' is past the end of `'' @ stp_name s @
                 ''`, which has '' @ show_u32 n @ '' elements'') else Inr ()
             | None \<Rightarrow> Inr ())
          | None \<Rightarrow> Inl (''ix='' @ show_u32 ix @ '' but nothing on this path is an array''))
        else Inr ()
     | None \<Rightarrow> Inr ()))"

definition named :: "string \<Rightarrow> string" where
  "named part = fst (split_index part)"

fun sub_object_walk :: "data_obj \<Rightarrow> string list \<Rightarrow> data_obj option" where
  "sub_object_walk dobj [] = Some dobj"
| "sub_object_walk dobj (part # ps) =
     Option.bind (find (\<lambda>s. dob_name s = named part) (dob_subs dobj)) (\<lambda>s. sub_object_walk s ps)"

fun sub_attribute_walk :: "data_attribute \<Rightarrow> string list \<Rightarrow> data_attribute option" where
  "sub_attribute_walk a [] = Some a"
| "sub_attribute_walk a (part # ps) =
     Option.bind (find (\<lambda>c. da_name c = named part) (da_children a)) (\<lambda>c. sub_attribute_walk c ps)"

definition fcda_attribute :: "ied_model \<Rightarrow> string \<Rightarrow> fcda \<Rightarrow> data_attribute option" where
  "fcda_attribute m ld_name fm =
     Option.bind (fm_da_name fm) (\<lambda>da.
     Option.bind (case device_by_inst m (fm_ld_inst fm) of Some ld \<Rightarrow> Some ld | None \<Rightarrow> device_named m ld_name) (\<lambda>ld.
     Option.bind (node_named ld (fm_ln_name fm)) (\<lambda>n.
     Option.bind (find (\<lambda>d. dob_name d = named (hd (dots (fm_do_name fm)))) (lnd_data_objects n)) (\<lambda>d0.
     Option.bind (sub_object_walk d0 (tl (dots (fm_do_name fm)))) (\<lambda>dobj.
     Option.bind (find (\<lambda>a. da_name a = named (hd (dots da))) (dob_attributes dobj)) (\<lambda>a0.
     sub_attribute_walk a0 (tl (dots da))))))))"

section \<open>Subscription supervision\<close>

record supervision =
  spv_node :: string
  spv_ln_class :: string
  spv_control_block :: "string option"

definition spv_is_goose :: "supervision \<Rightarrow> bool" where
  "spv_is_goose s \<longleftrightarrow> spv_ln_class s = ''LGOS''"

definition supervision_of :: "ied_model \<Rightarrow> supervision list" where
  "supervision_of m = concat (map (\<lambda>ld. concat (map (\<lambda>n.
     (let setting = (if lnd_class n = ''LGOS'' then Some ''GoCBRef''
                     else if lnd_class n = ''LSVS'' then Some ''SvCBRef'' else None)
      in case setting of None \<Rightarrow> []
         | Some s \<Rightarrow> (let cb = Option.bind (find (\<lambda>o'. dob_name o' = s) (lnd_data_objects n)) (\<lambda>o'.
               case List.map_filter (\<lambda>a. Option.bind (find (\<lambda>d. da_name d = a) (dob_attributes o')) da_value)
                      [''setSrcRef'', ''setSrcCB''] of [] \<Rightarrow> None | v # _ \<Rightarrow> Some v)
             in [\<lparr>spv_node = ldv_name ld @ ''/'' @ lnd_name n, spv_ln_class = lnd_class n,
                  spv_control_block = Option.bind cb (\<lambda>v. if v \<noteq> [] then Some v else None)\<rparr>])))
     (ldv_nodes ld))) (imo_devices m))"

definition ext_refs :: "ied_model \<Rightarrow> (logical_device \<times> logical_node \<times> ext_ref) list" where
  "ext_refs m = concat (map (\<lambda>ld. concat (map (\<lambda>n. map (\<lambda>x. (ld, n, x)) (lnd_inputs n)) (ldv_nodes ld))) (imo_devices m))"

section \<open>Properties\<close>

text \<open>The instance names of an indexed report control block are pairwise different.\<close>

lemma show_nat_inj: "show_nat m = show_nat n \<longleftrightarrow> m = n"
  by (metis option.inject parse_show_nat)

lemma show_02_value: "parse_digits (show_02 n) = Some n"
  using show_nat_digits [of n]
  by (auto simp: show_02_def parse_digits_def is_digit_def digits_value_def)

lemma show_02_inj: "show_02 m = show_02 n \<longleftrightarrow> m = n"
  by (metis option.inject show_02_value)

lemma instance_names_distinct: "distinct (rcb_instance_names r)"
  by (auto simp: rcb_instance_names_def distinct_map inj_on_def show_02_inj simp del: upt_Suc)

text \<open>A member that resolves and carries an index is inside the array it indexes.\<close>

lemma step_bounds_ok: "step_bounds ss = Inr () \<Longrightarrow> s \<in> set ss \<Longrightarrow> stp_index s = Some i \<Longrightarrow> \<exists>n. stp_count s = Some n \<and> i < n"
  by (induction ss) (auto split: option.splits if_splits simp: not_le)

lemma fcda_resolves_inside:
  assumes "fcda_resolves m ld fm = Inr ()" "fcda_walk m ld fm = Inr walk" "s \<in> set walk" "stp_index s = Some i"
  shows "\<exists>n. stp_count s = Some n \<and> i < n"
  using assms by (auto simp: fcda_resolves_def rbind_Inr_iff intro: step_bounds_ok)

lemma fcda_steps_last:
  assumes "fcda_steps n here prefix ps = Inr walk"
  shows "length walk = length ps \<and> map stp_name walk = map named ps"
  using assms
proof (induction ps arbitrary: here prefix walk)
  case (Cons p ps)
  then show ?case
    by (auto simp: rbind_Inr_iff named_def Let_def split: prod.splits option.splits dest!: Cons.IH)
qed simp

end
