(* ===== verification/Typespec.thy ===== *)
theory Typespec
  imports Data Ber_Fields
begin

text \<open>
  MMS object names (\<open>src/proto/mms/mod.rs\<close>) and type specifications (\<open>src/proto/mms/typespec.rs\<close>): what
  \<open>GetVariableAccessAttributes\<close> answers with. The decoder recurses into array elements and structure
  components with a depth limit; the encoder and the decoder agree on everything the limits admit.
\<close>

section \<open>Object names\<close>

datatype object_name = VmdSpecific string | DomainSpecific string string | AaSpecific string

definition TAG_IDENTIFIER :: tag where
  "TAG_IDENTIFIER = tag_universal 26 False"

definition object_name_parse :: "tlv \<Rightarrow> object_name result" where
  "object_name_parse t = (let n = tag_number (tlv_tag t) in
     if tag_class (tlv_tag t) \<noteq> Context then Inl (Decode UnexpectedTag (tlv_offset t))
     else if n = 0 then rbind (visible_string t) (\<lambda>s. Inr (VmdSpecific s))
     else if n = 1 then fst (sbind (field TAG_IDENTIFIER visible_string) (\<lambda>domain.
            sbind (field TAG_IDENTIFIER visible_string) (\<lambda>item. sreturn (DomainSpecific domain item))) (children t))
     else if n = 2 then rbind (visible_string t) (\<lambda>s. Inr (AaSpecific s))
     else Inl (Decode UnexpectedTag (tlv_offset t)))"

definition object_name_write :: "object_name \<Rightarrow> enc" where
  "object_name_write x = (case x of
     VmdSpecific s \<Rightarrow> enc_visible_string (tag_context 0) s
   | DomainSpecific domain item \<Rightarrow> constructed (tag_context_constructed 1)
       (sbind (enc_visible_string TAG_IDENTIFIER domain) (\<lambda>_. enc_visible_string TAG_IDENTIFIER item))
   | AaSpecific s \<Rightarrow> enc_visible_string (tag_context 2) s)"

fun object_name_tag :: "object_name \<Rightarrow> tag" where
  "object_name_tag (VmdSpecific _) = tag_context 0"
| "object_name_tag (DomainSpecific _ _) = tag_context_constructed 1"
| "object_name_tag (AaSpecific _) = tag_context 2"

fun object_name_contents :: "object_name \<Rightarrow> bytes" where
  "object_name_contents (VmdSpecific s) = as_bytes s"
| "object_name_contents (DomainSpecific d i) = element TAG_IDENTIFIER (as_bytes d) @ element TAG_IDENTIFIER (as_bytes i)"
| "object_name_contents (AaSpecific s) = as_bytes s"

abbreviation object_name_octets :: "object_name \<Rightarrow> bytes" where
  "object_name_octets x \<equiv> element (object_name_tag x) (object_name_contents x)"

fun object_name_ok :: "object_name \<Rightarrow> bool" where
  "object_name_ok (VmdSpecific s) \<longleftrightarrow> ascii_str s \<and> fits (as_bytes s)"
| "object_name_ok (DomainSpecific d i) \<longleftrightarrow> ascii_str d \<and> ascii_str i \<and> fits (object_name_contents (DomainSpecific d i))"
| "object_name_ok (AaSpecific s) \<longleftrightarrow> ascii_str s \<and> fits (as_bytes s)"

lemma object_name_fits: "object_name_ok x \<Longrightarrow> fits (object_name_contents x)"
  by (cases x) auto

lemma identifiers_fit:
  "fits (element TAG_IDENTIFIER (as_bytes d) @ element TAG_IDENTIFIER (as_bytes i)) \<Longrightarrow>
    length d < 4294967296 \<and> length i < 4294967296"
  by (auto simp: element_def)

lemma emits_object_name:
  assumes "object_name_ok x"
  shows "emits (object_name_write x) (object_name_octets x)"
proof (cases x)
  case (DomainSpecific d i)
  have ok: "ascii_str d" "ascii_str i" "fits (object_name_contents x)" "length d < 4294967296 \<and> length i < 4294967296"
    using assms DomainSpecific identifiers_fit by auto
  have "emits (sbind (enc_visible_string TAG_IDENTIFIER d) (\<lambda>_. enc_visible_string TAG_IDENTIFIER i)) (object_name_contents x)"
    using ok by (auto simp: DomainSpecific intro!: emits_bind visible_field.put_emits)
  then show ?thesis using ok(3) by (simp add: object_name_write_def DomainSpecific emits_constructed)
qed (use assms in \<open>auto simp: object_name_write_def intro!: visible_field.put_emits\<close>)

lemma object_name_parse_contents:
  assumes "object_name_ok x" "tlv_tag t = object_name_tag x" "tlv_value t = object_name_contents x"
  shows "object_name_parse t = Inr x"
proof (cases x)
  case (VmdSpecific s)
  then have "visible_string t = Inr s" using assms by (intro visible_field.get_contents) auto
  then show ?thesis using assms VmdSpecific by (simp add: object_name_parse_def tag_defs)
next
  case (AaSpecific s)
  then have "visible_string t = Inr s" using assms by (intro visible_field.get_contents) auto
  then show ?thesis using assms AaSpecific by (simp add: object_name_parse_def tag_defs)
next
  case (DomainSpecific d i)
  have ok: "ascii_str d" "ascii_str i" "length d < 4294967296 \<and> length i < 4294967296"
    using assms DomainSpecific identifiers_fit by auto
  then show ?thesis
    using assms DomainSpecific
    by (simp add: object_name_parse_def tag_defs cur_at_start sbind_def visible_field.get_mk_tlv
        field_element [where rest = "[]", simplified])
qed

section \<open>Type specifications\<close>

datatype type_spec =
    TsNamed "string option" string
  | TsArray bool u32 type_spec
  | TsStructure bool "(string option \<times> type_spec) list"
  | TsBoolean
  | TsBitString i32
  | TsInteger u8
  | TsUnsigned u8
  | TsFloatingPoint u8 u8
  | TsOctetString i32
  | TsVisibleString i32
  | TsGeneralizedTime
  | TsBinaryTime bool
  | TsBcd u8
  | TsMmsString i32
  | TsUtcTime
  | TsOther u32

type_synonym ts_component = "string option \<times> type_spec"

definition GENERALIZED_TIME :: u32 where "GENERALIZED_TIME = 11"
definition BCD :: u32 where "BCD = 13"

definition TAG_INTEGER :: tag where "TAG_INTEGER = tag_universal 2 False"
definition TAG_SEQUENCE :: tag where "TAG_SEQUENCE = tag_universal 16 True"

definition ts_width :: "tlv \<Rightarrow> u8 result" where
  "ts_width t = rbind (unsigned_lenient_u32 t) (\<lambda>v. ok_or (bad_value t) (narrow v))"

definition next_width :: "u32 \<Rightarrow> tlv rd" where
  "next_width n = sbind next_required (\<lambda>t.
     if tlv_tag t = TAG_INTEGER \<or> tlv_tag t = tag_context n then sreturn t
     else sfail (Decode UnexpectedTag (tlv_offset t)))"

text \<open>The element inside an explicit tag, and the fields that precede the nested types.\<close>

definition inner_element :: "tag \<Rightarrow> tlv rd" where
  "inner_element t = sbind (next_tag t) (\<lambda>x. slift (fst (next_required (children x))))"

definition ts_packed :: "bool rd" where
  "ts_packed = sbind (opt_field (tag_context 0) boolean) (\<lambda>p. sreturn (default_to False p))"

definition ts_array_parts :: "tlv \<Rightarrow> (bool \<times> u32 \<times> tlv) result" where
  "ts_array_parts t = fst (sbind ts_packed (\<lambda>packed.
     sbind (field (tag_context 1) unsigned_lenient_u32) (\<lambda>elements.
     sbind (inner_element (tag_context_constructed 2)) (\<lambda>i. sreturn (packed, elements, i)))) (children t))"

definition ts_structure_parts :: "tlv \<Rightarrow> (bool \<times> tlv) result" where
  "ts_structure_parts t = fst (sbind ts_packed (\<lambda>packed.
     sbind (next_tag (tag_context_constructed 1)) (\<lambda>list. sreturn (packed, list))) (children t))"

definition ts_component_fields :: "(string option \<times> tlv) rd" where
  "ts_component_fields = sbind (opt_field (tag_context 0) visible_string) (\<lambda>name.
       sbind (inner_element (tag_context_constructed 1)) (\<lambda>i. sreturn (name, i)))"

definition ts_component_parts :: "tlv \<Rightarrow> (string option \<times> tlv) result" where
  "ts_component_parts item = rbind (expect TAG_SEQUENCE item) (\<lambda>item. fst (ts_component_fields (children item)))"

definition ts_named :: "tlv \<Rightarrow> type_spec result" where
  "ts_named t = rbind (fst (next_required (children t))) (\<lambda>x. rbind (object_name_parse x) (\<lambda>name. Inr (case name of
     DomainSpecific domain item \<Rightarrow> TsNamed (Some domain) item
   | VmdSpecific n \<Rightarrow> TsNamed None n
   | AaSpecific n \<Rightarrow> TsNamed None n)))"

definition ts_floating :: "tlv \<Rightarrow> type_spec result" where
  "ts_floating t = fst (sbind (next_width 0) (\<lambda>f. sbind (slift (ts_width f)) (\<lambda>format_width.
     sbind (next_width 1) (\<lambda>x. sbind (slift (ts_width x)) (\<lambda>exponent_width.
     sreturn (TsFloatingPoint format_width exponent_width))))) (children t))"

text \<open>Every choice that nests no further type.\<close>

definition ts_leaf :: "tlv \<Rightarrow> type_spec result" where
  "ts_leaf t = (let n = tag_number (tlv_tag t) in
     if n = 0 then ts_named t
     else if n = BOOLEAN then Inr TsBoolean
     else if n = BIT_STRING then rbind (integer_i32 t) (\<lambda>v. Inr (TsBitString v))
     else if n = INTEGER then rbind (ts_width t) (\<lambda>w. Inr (TsInteger w))
     else if n = UNSIGNED then rbind (ts_width t) (\<lambda>w. Inr (TsUnsigned w))
     else if n = FLOATING_POINT then ts_floating t
     else if n = OCTET_STRING then rbind (integer_i32 t) (\<lambda>v. Inr (TsOctetString v))
     else if n = VISIBLE_STRING then rbind (integer_i32 t) (\<lambda>v. Inr (TsVisibleString v))
     else if n = GENERALIZED_TIME then Inr TsGeneralizedTime
     else if n = BINARY_TIME then rbind (boolean t) (\<lambda>b. Inr (TsBinaryTime b))
     else if n = BCD then rbind (ts_width t) (\<lambda>w. Inr (TsBcd w))
     else if n = MMS_STRING then rbind (integer_i32 t) (\<lambda>v. Inr (TsMmsString v))
     else if n = UTC_TIME then Inr TsUtcTime
     else Inr (TsOther n))"

section \<open>Progress of the nested readers\<close>

lemma field_InrD: "field t get c = (Inr x, c') \<Longrightarrow> cur_left c' \<le> cur_left c"
  by (auto simp: field_def next_tag_def sbind_def slift_def cur_left_def split: prod.splits sum.splits
      dest!: next_required_InrD)

lemma next_if_tag_InrD: "next_if_tag t c = (Inr x, c') \<Longrightarrow> cur_left c' \<le> cur_left c"
  by (auto simp: next_if_tag_def sbind_def sreturn_def cur_left_def split: prod.splits sum.splits if_splits
      dest!: next_required_InrD)

lemma opt_field_InrD: "opt_field t get c = (Inr x, c') \<Longrightarrow> cur_left c' \<le> cur_left c"
  by (auto simp: opt_field_def sbind_def slift_def split: prod.splits sum.splits dest: next_if_tag_InrD)

lemma next_tag_InrD: "next_tag t c = (Inr x, c') \<Longrightarrow> length (tlv_value x) < cur_left c"
  by (auto simp: next_tag_def sbind_def slift_def expect_def cur_left_def split: prod.splits sum.splits if_splits
      dest!: next_required_InrD)

lemma cur_left_children [simp]: "cur_left (children t) = length (tlv_value t)"
  by (simp add: cur_left_def children_def)

lemma next_required_children: "fst (next_required (children t)) = Inr i \<Longrightarrow> length (tlv_value i) < length (tlv_value t)"
  using next_required_InrD [of "children t" i "snd (next_required (children t))"]
  by (cases "next_required (children t)") (auto simp: children_def)

lemma inner_element_InrD: "inner_element t c = (Inr i, c') \<Longrightarrow> length (tlv_value i) < cur_left c"
  by (auto simp: inner_element_def sbind_def slift_def split: prod.splits sum.splits
      dest!: next_tag_InrD next_required_children)

lemma ts_array_parts_less: "ts_array_parts t = Inr (p, n, i) \<Longrightarrow> length (tlv_value i) < length (tlv_value t)"
  by (auto simp: ts_array_parts_def ts_packed_def sbind_def sreturn_def split: prod.splits sum.splits
      dest!: opt_field_InrD field_InrD inner_element_InrD)

lemma ts_structure_parts_less: "ts_structure_parts t = Inr (p, l) \<Longrightarrow> length (tlv_value l) < length (tlv_value t)"
  by (auto simp: ts_structure_parts_def ts_packed_def sbind_def sreturn_def split: prod.splits sum.splits
      dest!: opt_field_InrD next_tag_InrD)

lemma ts_component_parts_less: "ts_component_parts t = Inr (n, i) \<Longrightarrow> length (tlv_value i) < length (tlv_value t)"
proof -
  assume "ts_component_parts t = Inr (n, i)"
  then have "fst (ts_component_fields (children t)) = Inr (n, i)"
    by (simp add: ts_component_parts_def expect_def split: if_splits)
  then show ?thesis
    by (auto simp: ts_component_fields_def sbind_def sreturn_def split: prod.splits sum.splits
        dest!: opt_field_InrD inner_element_InrD)
qed

section \<open>The decoder\<close>

function (sequential) ts_parse_depth :: "limits \<Rightarrow> tlv \<Rightarrow> usize \<Rightarrow> type_spec result"
  and ts_components :: "limits \<Rightarrow> usize \<Rightarrow> cursor \<Rightarrow> ts_component list \<Rightarrow> ts_component list result"
where
  "ts_parse_depth l t depth =
     (if depth > max_depth l then Inl (LimitExceeded ''max_depth'' depth)
      else if tag_class (tlv_tag t) \<noteq> Context then Inl (Decode UnexpectedTag (tlv_offset t))
      else if tag_number (tlv_tag t) = ARRAY then
        rbind (ts_array_parts t) (\<lambda>(packed, elements, i).
        rbind (ts_parse_depth l i (depth + 1)) (\<lambda>element_type. Inr (TsArray packed elements element_type)))
      else if tag_number (tlv_tag t) = STRUCTURE then
        rbind (ts_structure_parts t) (\<lambda>(packed, list).
        rbind (ts_components l (depth + 1) (children list) []) (\<lambda>components. Inr (TsStructure packed components)))
      else ts_leaf t)"
| "ts_components l depth c out =
     (case cur_next c of
        (None, _) \<Rightarrow> Inr out
      | (Some r, c') \<Rightarrow>
          if length out \<ge> max_dataset_members l
          then Inl (LimitExceeded ''max_dataset_members'' (length out + 1))
          else rbind r (\<lambda>item. rbind (ts_component_parts item) (\<lambda>(name, i).
                 rbind (ts_parse_depth l i depth) (\<lambda>type_spec.
                 ts_components l depth c' (out @ [(name, type_spec)])))))"
  by pat_completeness auto

lemma ts_components_measure:
  assumes "(Some r, c') = cur_next c"
  shows "cur_left c' < cur_left c"
    "r = Inr item \<Longrightarrow> ts_component_parts item = Inr (n, i) \<Longrightarrow> Suc (length (tlv_value i)) < cur_left c"
proof -
  show "cur_left c' < cur_left c" using assms [symmetric] by (rule cur_next_left)
  show "Suc (length (tlv_value i)) < cur_left c" if "r = Inr item" "ts_component_parts item = Inr (n, i)"
    using ts_component_parts_less [OF that(2)] cur_next_InrD [of c item c'] cur_next_SomeD [of c r c'] that(1) assms
    by (auto simp: cur_left_def)
qed

termination ts_parse_depth
  by (relation "measure (\<lambda>x. case x of Inl (_, t, _) \<Rightarrow> 2 * length (tlv_value t) + 2 | Inr (_, _, c, _) \<Rightarrow> 2 * cur_left c + 1)")
    (auto dest: ts_components_measure ts_array_parts_less ts_structure_parts_less)

declare ts_parse_depth.simps [simp del] ts_components.simps [simp del]

definition ts_parse :: "tlv \<Rightarrow> limits \<Rightarrow> type_spec result" where
  "ts_parse t l = ts_parse_depth l t 0"

section \<open>The encoder\<close>

definition i64_of :: "i32 \<Rightarrow> i64" where
  "i64_of n = scast n"

definition enc_packed :: "bool \<Rightarrow> enc" where
  "enc_packed packed = (if packed then enc_boolean (tag_context 0) True else sreturn ())"

fun ts_write :: "type_spec \<Rightarrow> enc" and ts_write_components :: "ts_component list \<Rightarrow> enc" where
  "ts_write (TsNamed domain item) = constructed (tag_context_constructed 0)
     (case domain of Some d \<Rightarrow> object_name_write (DomainSpecific d item) | None \<Rightarrow> object_name_write (VmdSpecific item))"
| "ts_write (TsArray packed elements element_type) = constructed (tag_context_constructed 1)
     (sbind (enc_packed packed) (\<lambda>_. sbind (enc_unsigned (tag_context 1) (ucast elements)) (\<lambda>_.
      constructed (tag_context_constructed 2) (ts_write element_type))))"
| "ts_write (TsStructure packed components) = constructed (tag_context_constructed 2)
     (sbind (enc_packed packed) (\<lambda>_. constructed (tag_context_constructed 1) (ts_write_components components)))"
| "ts_write TsBoolean = primitive (tag_context BOOLEAN) []"
| "ts_write (TsBitString n) = enc_integer (tag_context BIT_STRING) (i64_of n)"
| "ts_write (TsInteger w) = enc_unsigned (tag_context INTEGER) (ucast w)"
| "ts_write (TsUnsigned w) = enc_unsigned (tag_context UNSIGNED) (ucast w)"
| "ts_write (TsFloatingPoint f x) = constructed (tag_context_constructed FLOATING_POINT)
     (sbind (enc_unsigned TAG_INTEGER (ucast f)) (\<lambda>_. enc_unsigned TAG_INTEGER (ucast x)))"
| "ts_write (TsOctetString n) = enc_integer (tag_context OCTET_STRING) (i64_of n)"
| "ts_write (TsVisibleString n) = enc_integer (tag_context VISIBLE_STRING) (i64_of n)"
| "ts_write TsGeneralizedTime = primitive (tag_context GENERALIZED_TIME) []"
| "ts_write (TsBinaryTime dated) = enc_boolean (tag_context BINARY_TIME) dated"
| "ts_write (TsBcd n) = enc_unsigned (tag_context BCD) (ucast n)"
| "ts_write (TsMmsString n) = enc_integer (tag_context MMS_STRING) (i64_of n)"
| "ts_write TsUtcTime = primitive (tag_context UTC_TIME) []"
| "ts_write (TsOther n) = primitive (tag_context n) []"
| "ts_write_components [] = sreturn ()"
| "ts_write_components ((name, ty) # cs) = sbind (constructed TAG_SEQUENCE
     (sbind (enc_opt (enc_visible_string (tag_context 0)) name) (\<lambda>_.
      constructed (tag_context_constructed 1) (ts_write ty)))) (\<lambda>_. ts_write_components cs)"

section \<open>Reading a structure's components\<close>

definition ts_component :: "type_spec \<Rightarrow> string \<Rightarrow> type_spec option" where
  "ts_component t name = (case t of
     TsStructure _ components \<Rightarrow> map_option snd (find (\<lambda>c. fst c = Some name) components)
   | _ \<Rightarrow> None)"

definition ts_component_names :: "type_spec \<Rightarrow> string list" where
  "ts_component_names t = (case t of
     TsStructure _ components \<Rightarrow> List.map_filter fst components
   | _ \<Rightarrow> [])"

section \<open>What the encoder writes\<close>

fun ts_tag :: "type_spec \<Rightarrow> tag" where
  "ts_tag (TsNamed _ _) = tag_context_constructed 0"
| "ts_tag (TsArray _ _ _) = tag_context_constructed 1"
| "ts_tag (TsStructure _ _) = tag_context_constructed 2"
| "ts_tag TsBoolean = tag_context BOOLEAN"
| "ts_tag (TsBitString _) = tag_context BIT_STRING"
| "ts_tag (TsInteger _) = tag_context INTEGER"
| "ts_tag (TsUnsigned _) = tag_context UNSIGNED"
| "ts_tag (TsFloatingPoint _ _) = tag_context_constructed FLOATING_POINT"
| "ts_tag (TsOctetString _) = tag_context OCTET_STRING"
| "ts_tag (TsVisibleString _) = tag_context VISIBLE_STRING"
| "ts_tag TsGeneralizedTime = tag_context GENERALIZED_TIME"
| "ts_tag (TsBinaryTime _) = tag_context BINARY_TIME"
| "ts_tag (TsBcd _) = tag_context BCD"
| "ts_tag (TsMmsString _) = tag_context MMS_STRING"
| "ts_tag TsUtcTime = tag_context UTC_TIME"
| "ts_tag (TsOther n) = tag_context n"

definition ts_name :: "string option \<Rightarrow> string \<Rightarrow> object_name" where
  "ts_name domain item = (case domain of Some d \<Rightarrow> DomainSpecific d item | None \<Rightarrow> VmdSpecific item)"

definition packed_octets :: "bool \<Rightarrow> bytes" where
  "packed_octets p = (if p then element (tag_context 0) (bool_octets True) else [])"

abbreviation component_octets :: "string option \<Rightarrow> bytes \<Rightarrow> bytes" where
  "component_octets name ty \<equiv> opt_element (tag_context 0) as_bytes name @ element (tag_context_constructed 1) ty"

fun ts_contents :: "type_spec \<Rightarrow> bytes" and ts_components_octets :: "ts_component list \<Rightarrow> bytes" where
  "ts_contents (TsNamed domain item) = object_name_octets (ts_name domain item)"
| "ts_contents (TsArray p n e) = packed_octets p @ element (tag_context 1) (unsigned_octets (ucast n)) @
     element (tag_context_constructed 2) (element (ts_tag e) (ts_contents e))"
| "ts_contents (TsStructure p cs) = packed_octets p @ element (tag_context_constructed 1) (ts_components_octets cs)"
| "ts_contents (TsFloatingPoint f x) =
     element TAG_INTEGER (unsigned_octets (ucast f)) @ element TAG_INTEGER (unsigned_octets (ucast x))"
| "ts_contents (TsBitString n) = integer_octets (i64_of n)"
| "ts_contents (TsInteger w) = unsigned_octets (ucast w)"
| "ts_contents (TsUnsigned w) = unsigned_octets (ucast w)"
| "ts_contents (TsOctetString n) = integer_octets (i64_of n)"
| "ts_contents (TsVisibleString n) = integer_octets (i64_of n)"
| "ts_contents (TsBinaryTime b) = bool_octets b"
| "ts_contents (TsBcd w) = unsigned_octets (ucast w)"
| "ts_contents (TsMmsString n) = integer_octets (i64_of n)"
| "ts_contents _ = []"
| "ts_components_octets [] = []"
| "ts_components_octets ((name, ty) # cs) =
     element TAG_SEQUENCE (component_octets name (element (ts_tag ty) (ts_contents ty))) @ ts_components_octets cs"

abbreviation ts_octets :: "type_spec \<Rightarrow> bytes" where
  "ts_octets t \<equiv> element (ts_tag t) (ts_contents t)"

text \<open>The types the limits admit; a raw choice is not one of the modelled ones.\<close>

definition ts_known :: "u32 \<Rightarrow> bool" where
  "ts_known n \<longleftrightarrow> n \<in> {0, ARRAY, STRUCTURE, BOOLEAN, BIT_STRING, INTEGER, UNSIGNED, FLOATING_POINT,
     OCTET_STRING, VISIBLE_STRING, GENERALIZED_TIME, BINARY_TIME, BCD, MMS_STRING, UTC_TIME}"

fun ts_ok :: "limits \<Rightarrow> usize \<Rightarrow> type_spec \<Rightarrow> bool" where
  "ts_ok l d (TsNamed domain item) \<longleftrightarrow> d \<le> max_depth l \<and> object_name_ok (ts_name domain item) \<and>
     fits (ts_contents (TsNamed domain item))"
| "ts_ok l d (TsArray p n e) \<longleftrightarrow> d \<le> max_depth l \<and> fits (ts_contents (TsArray p n e)) \<and> ts_ok l (Suc d) e"
| "ts_ok l d (TsStructure p cs) \<longleftrightarrow> d \<le> max_depth l \<and> fits (ts_contents (TsStructure p cs)) \<and>
     length cs \<le> max_dataset_members l \<and>
     (\<forall>(name, ty) \<in> set cs. ts_ok l (Suc d) ty \<and> (\<forall>n. name = Some n \<longrightarrow> ascii_str n))"
| "ts_ok l d (TsOther n) \<longleftrightarrow> d \<le> max_depth l \<and> \<not> ts_known n"
| "ts_ok l d _ \<longleftrightarrow> d \<le> max_depth l"

section \<open>The widths and lengths\<close>

lemma sint_i64_of: "sint (i64_of n) = sint n"
  by (simp add: i64_of_def sint_up_scast is_up)

interpretation i32_field: ber_field "\<lambda>t n. enc_integer t (i64_of n)" integer_i32 "\<lambda>n. integer_octets (i64_of n)" "\<lambda>_. True"
proof (unfold_locales, goal_cases)
  case (3 v x)
  have "integer_i64 x = Inr (i64_of v)" by (rule integer_field.get_contents) (simp_all add: 3)
  moreover have "- (2 ^ 31) \<le> sint v \<and> sint v < 2 ^ 31"
    using sint_ge [of v] sint_lt [of v] by simp
  moreover have "(ucast (i64_of v) :: i32) = v"
    by (rule bit_word_eqI) (simp add: i64_of_def bit_simps)
  ultimately show ?case by (simp add: integer_i32_def sint_i64_of)
qed (auto intro: integer_field.fits_contents integer_field.put_emits)

interpretation width_field: ber_field "\<lambda>t w. enc_unsigned t (ucast w)" ts_width "\<lambda>w. unsigned_octets (ucast w)" "\<lambda>_ :: u8. True"
proof (unfold_locales, goal_cases)
  case (3 v x)
  have e: "(ucast (ucast v :: u32) :: u64) = ucast v" by (rule bit_word_eqI) (auto simp: bit_simps dest: bit_imp_le_length)
  have "unsigned_lenient_u32 x = Inr (ucast v)"
    by (rule lenient_u32_field.get_contents) (simp_all add: 3 e)
  then show ?case using narrow_ucast [of v, where 'a = 32] by (simp add: ts_width_def)
qed (auto intro: unsigned_field.fits_contents unsigned_field.put_emits)

section \<open>Emission\<close>

lemma fits_packed [simp]: "fits (packed_octets p)"
  using element_bound [of "bool_octets True" 1 "tag_context 0"] by (simp add: packed_octets_def)

lemma emits_packed: "emits (enc_packed p) (packed_octets p)"
  by (auto simp: enc_packed_def packed_octets_def intro: boolean_field.put_emits emits_return)

lemma fits_floating: "fits (ts_contents (TsFloatingPoint f x))"
  using element_bound [OF unsigned_octets_length(2), of TAG_INTEGER "ucast f"]
    element_bound [OF unsigned_octets_length(2), of TAG_INTEGER "ucast x"] by simp

lemma ts_ok_fits: "ts_ok l d t \<Longrightarrow> fits (ts_contents t)"
  using fits_floating i32_field.fits_contents width_field.fits_contents boolean_field.fits_contents
  by (cases t) auto

lemma ts_name_cases: "(case domain of Some d \<Rightarrow> object_name_write (DomainSpecific d item)
    | None \<Rightarrow> object_name_write (VmdSpecific item)) = object_name_write (ts_name domain item)"
  by (cases domain) (simp_all add: ts_name_def)

lemma fits_inner: "fits (element t c) \<Longrightarrow> fits c"
  by (simp add: element_def)

lemma component_fits:
  assumes "fits (component_octets name ty)"
  shows "fits ty" "name = Some n \<Longrightarrow> length n < 4294967296"
proof -
  have "fits (element (tag_context_constructed 1) ty)" using assms by simp
  then show "fits ty" by (rule fits_inner)
  assume "name = Some n"
  then have "fits (element (tag_context 0) (as_bytes n))" using assms by simp
  then have "fits (as_bytes n)" by (rule fits_inner)
  then show "length n < 4294967296" by simp
qed

lemma components_fit:
  "fits (ts_components_octets ((name, ty) # cs)) \<Longrightarrow>
     fits (component_octets name (ts_octets ty)) \<and> fits (ts_components_octets cs)"
proof -
  assume "fits (ts_components_octets ((name, ty) # cs))"
  then have "fits (element TAG_SEQUENCE (component_octets name (ts_octets ty)))" "fits (ts_components_octets cs)" by simp_all
  then show ?thesis using fits_inner by blast
qed

lemma emits_ts:
  "ts_ok l d t \<Longrightarrow> emits (ts_write t) (ts_octets t)"
  "(\<And>name ty. (name, ty) \<in> set cs \<Longrightarrow> ts_ok l d ty \<and> (\<forall>n. name = Some n \<longrightarrow> ascii_str n)) \<Longrightarrow>
     fits (ts_components_octets cs) \<Longrightarrow> emits (ts_write_components cs) (ts_components_octets cs)"
proof (induction t and cs arbitrary: d and d rule: ts_write_ts_write_components.induct)
  case (1 domain item)
  then show ?case
    by (simp add: ts_name_cases emits_constructed emits_object_name)
next
  case (2 packed elements element_type)
  have f: "fits (ts_contents (TsArray packed elements element_type))" using 2(2) by simp
  then have "fits (element (tag_context_constructed 2) (ts_octets element_type))" by simp
  then have "fits (ts_octets element_type)" by (rule fits_inner)
  then have "emits (sbind (enc_packed packed) (\<lambda>_. sbind (enc_unsigned (tag_context 1) (ucast elements)) (\<lambda>_.
      constructed (tag_context_constructed 2) (ts_write element_type)))) (ts_contents (TsArray packed elements element_type))"
    using 2 by (auto intro!: emits_bind emits_packed unsigned_field.put_emits emits_constructed)
  then show ?case using f by (simp add: emits_constructed)
next
  case (3 packed components)
  have f: "fits (ts_contents (TsStructure packed components))" using 3(2) by simp
  then have "fits (element (tag_context_constructed 1) (ts_components_octets components))" by simp
  then have g: "fits (ts_components_octets components)" by (rule fits_inner)
  have c: "emits (ts_write_components components) (ts_components_octets components)"
    by (rule 3(1) [of "Suc d", OF _ g]) (use 3(2) in fastforce)
  have "emits (sbind (enc_packed packed) (\<lambda>_. constructed (tag_context_constructed 1) (ts_write_components components)))
      (ts_contents (TsStructure packed components))"
    using c g by (auto intro!: emits_bind emits_packed emits_constructed)
  then show ?case using f by (simp add: emits_constructed)
next
  case (8 f x)
  have "emits (sbind (enc_unsigned TAG_INTEGER (ucast f)) (\<lambda>_. enc_unsigned TAG_INTEGER (ucast x))) (ts_contents (TsFloatingPoint f x))"
    by (auto intro!: emits_bind unsigned_field.put_emits)
  then show ?case using fits_floating [of f x] by (simp add: emits_constructed)
next
  case (18 name ty cs)
  have f: "fits (component_octets name (ts_octets ty))" "fits (ts_components_octets cs)"
    using components_fit 18(4) by blast+
  have n: "emits (enc_opt (enc_visible_string (tag_context 0)) name) (opt_element (tag_context 0) as_bytes name)"
    using 18(3) [of name ty] component_fits(2) [OF f(1)] by (auto intro!: emits_enc_opt visible_field.put_emits)
  have "ts_ok l d ty" using 18(3) [of name ty] by simp
  then have t: "emits (ts_write ty) (ts_octets ty)" by (rule 18(1))
  have "emits (sbind (enc_opt (enc_visible_string (tag_context 0)) name) (\<lambda>_.
      constructed (tag_context_constructed 1) (ts_write ty))) (component_octets name (ts_octets ty))"
    using n t component_fits(1) [OF f(1)] by (intro emits_bind emits_constructed) auto
  moreover have "emits (ts_write_components cs) (ts_components_octets cs)"
    by (rule 18(2) [of d, OF _ f(2)]) (rule 18(3), simp)
  ultimately show ?case using f(1) by (simp add: emits_bind emits_constructed)
qed (auto intro!: emits_return emits_primitive i32_field.put_emits width_field.put_emits boolean_field.put_emits)

section \<open>The decoder reads it back\<close>

lemma ts_packed_read:
  assumes "not_next (tag_context 0) rest"
  shows "ts_packed (cur_at pre (packed_octets p @ rest) base) = (Inr p, cur_at (pre @ packed_octets p) rest base)"
proof (cases p)
  case True
  then show ?thesis
    by (simp add: ts_packed_def packed_octets_def sbind_def boolean_field.get_mk_tlv default_to_def)
next
  case False
  then show ?thesis using assms by (simp add: ts_packed_def packed_octets_def sbind_def default_to_def)
qed

lemma inner_element_read:
  assumes "fits (element u c)"
  shows "\<exists>i. tlv_tag i = u \<and> tlv_value i = c \<and>
    inner_element t (cur_at pre (element t (element u c)) base) = (Inr i, cur_at (pre @ element t (element u c)) [] base)"
  using assms fits_inner [OF assms] next_tag_element [of "element u c" t pre "[]" base]
    next_required_element [of c "[]" u "[]"]
  by (simp add: inner_element_def sbind_def cur_at_start)

definition ts_reads :: "limits \<Rightarrow> usize \<Rightarrow> type_spec \<Rightarrow> bool" where
  "ts_reads l d ty \<longleftrightarrow> fits (ts_contents ty) \<and>
     (\<forall>t. tlv_tag t = ts_tag ty \<longrightarrow> tlv_value t = ts_contents ty \<longrightarrow> ts_parse_depth l t d = Inr ty)"

lemma component_read:
  assumes "fits (component_octets name (ts_octets ty))" "\<forall>n. name = Some n \<longrightarrow> ascii_str n"
    and "tlv_tag t = TAG_SEQUENCE" "tlv_value t = component_octets name (ts_octets ty)"
  shows "\<exists>i. tlv_tag i = ts_tag ty \<and> tlv_value i = ts_contents ty \<and> ts_component_parts t = Inr (name, i)"
proof -
  note f = component_fits [OF assms(1)]
  let ?rest = "element (tag_context_constructed 1) (ts_octets ty)"
  obtain i where i: "tlv_tag i = ts_tag ty" "tlv_value i = ts_contents ty"
    "inner_element (tag_context_constructed 1) (cur_at ([] @ opt_element (tag_context 0) as_bytes name) ?rest (tlv_value_offset t))
      = (Inr i, cur_at ([] @ opt_element (tag_context 0) as_bytes name @ ?rest) [] (tlv_value_offset t))"
    using inner_element_read [OF f(1), of "tag_context_constructed 1" "opt_element (tag_context 0) as_bytes name" "tlv_value_offset t"]
    by auto
  have "not_next (tag_context 0) ?rest" using f(1) by (simp add: tag_defs)
  then have "opt_field (tag_context 0) visible_string (cur_at [] (component_octets name (ts_octets ty)) (tlv_value_offset t)) =
      (Inr name, cur_at ([] @ opt_element (tag_context 0) as_bytes name) ?rest (tlv_value_offset t))"
    using f(2) assms(2) by (intro opt_field_opt) (auto simp: visible_field.get_mk_tlv)
  then have "fst (ts_component_fields (children t)) = Inr (name, i)"
    using i(3) by (simp add: ts_component_fields_def cur_at_start assms(4) sbind_def)
  then show ?thesis using i assms(3) by (auto simp: ts_component_parts_def expect_def)
qed

lemma components_read:
  "(\<And>name ty. (name, ty) \<in> set cs \<Longrightarrow> ts_reads l d ty \<and> (\<forall>n. name = Some n \<longrightarrow> ascii_str n)) \<Longrightarrow>
    fits (ts_components_octets cs) \<Longrightarrow> length out + length cs \<le> max_dataset_members l \<Longrightarrow>
    ts_components l d (cur_at pre (ts_components_octets cs) base) out = Inr (out @ cs)"
proof (induction cs arbitrary: pre out)
  case Nil
  then show ?case by (subst ts_components.simps) simp
next
  case (Cons c cs)
  obtain name ty where c: "c = (name, ty)" by (cases c)
  let ?b = "component_octets name (ts_octets ty)"
  have f: "fits ?b" "fits (ts_components_octets cs)" using components_fit Cons.prems(2) unfolding c by blast+
  have r: "ts_reads l d ty" "\<forall>n. name = Some n \<longrightarrow> ascii_str n" using Cons.prems(1) c by auto
  obtain i where i: "tlv_tag i = ts_tag ty" "tlv_value i = ts_contents ty"
    "ts_component_parts (mk_tlv TAG_SEQUENCE ?b (base + length pre)) = Inr (name, i)"
    using component_read [OF f(1) r(2), of "mk_tlv TAG_SEQUENCE ?b (base + length pre)"] by auto
  have p: "ts_parse_depth l i d = Inr ty" using r(1) i by (simp add: ts_reads_def)
  have "ts_components l d (cur_at (pre @ element TAG_SEQUENCE ?b) (ts_components_octets cs) base) (out @ [(name, ty)]) =
      Inr ((out @ [(name, ty)]) @ cs)"
    using Cons.prems f(2) by (intro Cons.IH) auto
  then show ?case
    using cur_next_element [OF f(1), of pre TAG_SEQUENCE "ts_components_octets cs" base] i(3) p Cons.prems(3)
    by (subst ts_components.simps) (simp add: c)
qed

lemma ts_leaf_read:
  assumes "tlv_tag t = ts_tag ty" "tlv_value t = ts_contents ty" "ts_ok l d ty"
    and "\<And>p n e. ty \<noteq> TsArray p n e" "\<And>p cs. ty \<noteq> TsStructure p cs"
  shows "ts_leaf t = Inr ty"
proof (cases ty)
  case (TsNamed domain item)
  let ?x = "ts_name domain item"
  have ok: "object_name_ok ?x" using assms(3) TsNamed by simp
  have "fst (next_required (children t)) = Inr (mk_tlv (object_name_tag ?x) (object_name_contents ?x) (tlv_value_offset t))"
    using next_required_element [OF object_name_fits [OF ok], of "[]" "object_name_tag ?x" "[]"] assms(2) TsNamed
    by (simp add: cur_at_start)
  moreover have "object_name_parse (mk_tlv (object_name_tag ?x) (object_name_contents ?x) (tlv_value_offset t)) = Inr ?x"
    by (rule object_name_parse_contents [OF ok]) simp_all
  ultimately have "ts_named t = Inr ty"
    by (cases domain) (simp_all add: ts_named_def TsNamed ts_name_def)
  then show ?thesis using assms(1) TsNamed by (simp add: ts_leaf_def tag_defs)
next
  case (TsFloatingPoint f x)
  let ?f = "unsigned_octets (ucast f)" and ?x = "unsigned_octets (ucast x)"
  have "fits ?f" "fits ?x" using width_field.fits_contents by auto
  then have "ts_floating t = Inr ty"
    using assms(2) TsFloatingPoint next_required_element [of ?x "element TAG_INTEGER ?f" TAG_INTEGER "[]"]
    by (simp add: ts_floating_def next_width_def cur_at_start sbind_def width_field.get_mk_tlv)
  then show ?thesis using assms(1) TsFloatingPoint by (simp add: ts_leaf_def tag_defs data_tags)
next
  case (TsOther n)
  then have "\<not> ts_known n" using assms(3) by simp
  then show ?thesis using assms(1) TsOther
    by (simp add: ts_leaf_def tag_defs ts_known_def data_tags GENERALIZED_TIME_def BCD_def)
qed (use assms in \<open>auto simp: ts_leaf_def tag_defs data_tags GENERALIZED_TIME_def BCD_def
      i32_field.get_contents width_field.get_contents boolean_field.get_contents\<close>)

lemma ts_reads_leaf:
  assumes "ts_ok l d ty" "\<And>p n e. ty \<noteq> TsArray p n e" "\<And>p cs. ty \<noteq> TsStructure p cs"
  shows "ts_reads l d ty"
proof -
  have "d \<le> max_depth l" using assms by (cases ty) auto
  moreover have "tag_class (ts_tag ty) = Context" by (cases ty) (simp_all add: tag_defs)
  moreover have "tag_number (ts_tag ty) \<noteq> ARRAY \<and> tag_number (ts_tag ty) \<noteq> STRUCTURE"
    using assms by (cases ty) (auto simp: tag_defs data_tags GENERALIZED_TIME_def BCD_def ts_known_def)
  ultimately show ?thesis
    using ts_ok_fits [OF assms(1)] ts_leaf_read [OF _ _ assms]
    by (simp add: ts_reads_def ts_parse_depth.simps)
qed

lemma ts_reads_ok:
  "ts_ok l d ty \<Longrightarrow> ts_reads l d ty"
  "(\<And>name ty. (name, ty) \<in> set (cs :: ts_component list) \<Longrightarrow> ts_ok l d ty) \<Longrightarrow>
     (\<And>name ty. (name, ty) \<in> set cs \<Longrightarrow> ts_reads l d ty)"
proof (induction ty and cs arbitrary: d and d rule: ts_write_ts_write_components.induct)
  case (2 packed elements e)
  have ok: "d \<le> max_depth l" "fits (ts_contents (TsArray packed elements e))" "ts_ok l (Suc d) e" using 2(2) by auto
  have e: "ts_reads l (Suc d) e" using 2(1) ok(3) .
  have fe: "fits (ts_octets e)" using ok(2) fits_inner [of "tag_context_constructed 2" "ts_octets e"] by simp
  have "ts_array_parts t = Inr (packed, elements, i) \<Longrightarrow> tlv_tag i = ts_tag e \<Longrightarrow> tlv_value i = ts_contents e \<Longrightarrow>
      tlv_tag t = ts_tag (TsArray packed elements e) \<Longrightarrow> ts_parse_depth l t d = Inr (TsArray packed elements e)" for t i
    using e ok(1) by (simp add: ts_parse_depth.simps [of l t] tag_defs data_tags ts_reads_def)
  moreover have "\<exists>i. tlv_tag i = ts_tag e \<and> tlv_value i = ts_contents e \<and> ts_array_parts t = Inr (packed, elements, i)"
    if v: "tlv_value t = ts_contents (TsArray packed elements e)" for t
  proof -
    let ?n = "element (tag_context 1) (unsigned_octets (ucast elements))"
    let ?e = "element (tag_context_constructed 2) (ts_octets e)"
    let ?p = "packed_octets packed"
    have fn: "fits (unsigned_octets (ucast elements))" using lenient_u32_field.fits_contents by simp
    have "not_next (tag_context 0) (?n @ ?e)" using fn by (simp add: tag_defs)
    note p = ts_packed_read [OF this, of "[]" packed "tlv_value_offset t"]
    obtain i where i: "tlv_tag i = ts_tag e" "tlv_value i = ts_contents e"
      "inner_element (tag_context_constructed 2) (cur_at (?p @ ?n) ?e (tlv_value_offset t)) =
         (Inr i, cur_at ((?p @ ?n) @ ?e) [] (tlv_value_offset t))"
      using inner_element_read [OF fe] by blast
    then show ?thesis
      using v p fn by (auto simp: ts_array_parts_def cur_at_start sbind_def lenient_u32_field.get_mk_tlv)
  qed
  ultimately have "ts_parse_depth l t d = Inr (TsArray packed elements e)"
    if "tlv_tag t = ts_tag (TsArray packed elements e)" "tlv_value t = ts_contents (TsArray packed elements e)" for t
    using that by blast
  then show ?case using ok(2) unfolding ts_reads_def by blast
next
  case (3 packed cs)
  have ok: "d \<le> max_depth l" "fits (ts_contents (TsStructure packed cs))" "length cs \<le> max_dataset_members l"
    "\<And>name ty. (name, ty) \<in> set cs \<Longrightarrow> ts_ok l (Suc d) ty \<and> (\<forall>n. name = Some n \<longrightarrow> ascii_str n)"
    using 3(2) by auto
  have fc: "fits (ts_components_octets cs)"
    using ok(2) fits_inner [of "tag_context_constructed 1" "ts_components_octets cs"] by simp
  have "ts_reads l (Suc d) ty \<and> (\<forall>n. name = Some n \<longrightarrow> ascii_str n)" if "(name, ty) \<in> set cs" for name ty
    using 3(1) [of "Suc d" name ty] ok(4) that by blast
  then have c: "ts_components l (Suc d) (cur_at [] (ts_components_octets cs) base) [] = Inr cs" for base
    using components_read [of cs l "Suc d" "[]" "[]" base] fc ok(3) by simp
  have "ts_structure_parts t = Inr (packed, mk_tlv (tag_context_constructed 1) (ts_components_octets cs)
      (tlv_value_offset t + length (packed_octets packed)))" if "tlv_value t = ts_contents (TsStructure packed cs)" for t
  proof -
    have "not_next (tag_context 0) (element (tag_context_constructed 1) (ts_components_octets cs))"
      using fc by (simp add: tag_defs)
    then show ?thesis
      using ts_packed_read [of "element (tag_context_constructed 1) (ts_components_octets cs)" "[]" packed "tlv_value_offset t"]
        next_tag_element [OF fc, of "tag_context_constructed 1" "packed_octets packed" "[]"] that
      by (simp add: ts_structure_parts_def cur_at_start sbind_def)
  qed
  then show ?case
    using c ok(1,2) by (simp add: ts_reads_def ts_parse_depth.simps tag_defs data_tags cur_at_start)
next
  case (18 n0 t0 cs)
  then show ?case by (metis list.set_intros prod.inject set_ConsD)
qed (auto intro: ts_reads_leaf)

lemma ts_roundtrip:
  assumes "ts_ok l 0 ty"
  shows "ts_write ty e = (Inr (), e @ ts_octets ty) \<and> ts_parse (mk_tlv (ts_tag ty) (ts_contents ty) off) l = Inr ty"
  using emitsD [OF emits_ts(1) [OF assms]] ts_reads_ok(1) [OF assms]
  by (simp add: ts_reads_def ts_parse_def)

section \<open>What the decoder guarantees\<close>

fun ts_wf :: "limits \<Rightarrow> usize \<Rightarrow> type_spec \<Rightarrow> bool" where
  "ts_wf l d (TsArray p n e) \<longleftrightarrow> d \<le> max_depth l \<and> ts_wf l (Suc d) e"
| "ts_wf l d (TsStructure p cs) \<longleftrightarrow> d \<le> max_depth l \<and> length cs \<le> max_dataset_members l \<and>
     (\<forall>(name, ty) \<in> set cs. ts_wf l (Suc d) ty)"
| "ts_wf l d _ \<longleftrightarrow> d \<le> max_depth l"

lemma ts_leaf_wf: "ts_leaf t = Inr ty \<Longrightarrow> d \<le> max_depth l \<Longrightarrow> ts_wf l d ty"
proof (erule ok_allD [rotated])
  assume "d \<le> max_depth l"
  then show "ok_all (ts_wf l d) (ts_leaf t)"
    unfolding ts_leaf_def Let_def ts_named_def ts_floating_def
    by (intro ok_all_intros)
      (auto simp: sbind_def sreturn_def slift_def ok_all_def split: object_name.split prod.splits sum.splits)
qed

lemma ts_parse_wf:
  "ok_all (ts_wf l d) (ts_parse_depth l t d)"
  "length out \<le> max_dataset_members l \<Longrightarrow> (\<forall>(name, ty) \<in> set out. ts_wf l d ty) \<Longrightarrow>
    ok_all (\<lambda>cs. length cs \<le> max_dataset_members l \<and> (\<forall>(name, ty) \<in> set cs. ts_wf l d ty)) (ts_components l d c out)"
proof (induction l t d and l d c out rule: ts_parse_depth_ts_components.induct)
  case (1 l t depth)
  have a: "ok_all (ts_wf l depth) (rbind (ts_array_parts t) (\<lambda>(packed, elements, i).
        rbind (ts_parse_depth l i (depth + 1)) (\<lambda>element_type. Inr (TsArray packed elements element_type))))"
    if "\<not> depth > max_depth l" "\<not> tag_class (tlv_tag t) \<noteq> Context" "tag_number (tlv_tag t) = ARRAY"
    using that 1(1) [OF that] by (auto intro!: ok_all_bind dest: ok_allD)
  have s: "ok_all (ts_wf l depth) (rbind (ts_structure_parts t) (\<lambda>(packed, list).
        rbind (ts_components l (depth + 1) (children list) []) (\<lambda>components. Inr (TsStructure packed components))))"
    if "\<not> depth > max_depth l" "\<not> tag_class (tlv_tag t) \<noteq> Context" "tag_number (tlv_tag t) \<noteq> ARRAY"
      "tag_number (tlv_tag t) = STRUCTURE"
    using that 1(2) [OF that] by (auto intro!: ok_all_bind dest: ok_allD)
  have "ok_all (ts_wf l depth) (ts_leaf t)" if "\<not> depth > max_depth l"
    using that ts_leaf_wf [of t _ depth l] by (simp add: ok_all_def split: sum.split)
  then show ?case
    by (subst ts_parse_depth.simps) (intro ok_all_if a s, simp_all)
next
  case (2 l depth c out)
  show ?case
  proof (cases "cur_next c")
    case (Pair r c')
    show ?thesis
    proof (cases r)
      case None
      then show ?thesis using 2 Pair by (subst ts_components.simps) simp
    next
      case (Some r')
      have "ok_all (\<lambda>cs. length cs \<le> max_dataset_members l \<and> (\<forall>(name, ty) \<in> set cs. ts_wf l depth ty))
          (ts_components l depth c' (out @ [(name, ty)]))"
        if "\<not> length out \<ge> max_dataset_members l" "r' = Inr item" "ts_component_parts item = Inr (name, i)"
          "ts_parse_depth l i depth = Inr ty" for item name i ty
      proof -
        have "ts_wf l depth ty"
          using 2(1) [OF Pair [symmetric] Some that(1,2,3) refl] that(4) by (auto dest: ok_allD)
        then show ?thesis
          using 2(2) [OF Pair [symmetric] Some that(1,2,3) refl that(4)] 2(3,4) that(1) by simp
      qed
      then show ?thesis
        by (subst ts_components.simps) (auto simp: Pair Some not_le intro!: ok_all_bind split: prod.splits)
    qed
  qed
qed

lemma ts_parse_within_limits: "ts_parse t l = Inr ty \<Longrightarrow> ts_wf l 0 ty"
  using ts_parse_wf(1) [of l 0 t] by (auto simp: ts_parse_def dest: ok_allD)

end
