(* ===== verification/Server_Tree.thy ===== *)
theory Server_Tree
  imports Model Typespec "HOL-Library.List_Lexorder" "HOL-Library.Char_ord"
begin

text \<open>
  The MMS variable tree of a logical device (\<open>src/server/tree.rs\<close>): the levels of an item name
  (\<open>LN$FC$DO$DA\<close>) as a tree of variables, built once from the model; name resolution with array
  indices; the flattened, sorted name list; and the type specification of every node.
\<close>

section \<open>Variables\<close>

datatype var_kind = VStructure | VArray u32 | VLeaf btype

datatype variable = Variable (var_name: string) (var_kind: var_kind) (var_fc: "fc option") (var_children: "variable list")

definition var_structure :: "string \<Rightarrow> fc option \<Rightarrow> variable list \<Rightarrow> variable" where
  "var_structure name fc kids = Variable name VStructure fc kids"

definition var_leaf :: "string \<Rightarrow> fc option \<Rightarrow> btype \<Rightarrow> variable" where
  "var_leaf name fc b = Variable name (VLeaf b) fc []"

definition var_array :: "string \<Rightarrow> fc option \<Rightarrow> u32 \<Rightarrow> variable \<Rightarrow> variable" where
  "var_array name fc count e = Variable name (VArray count) fc [e]"

definition is_structure :: "variable \<Rightarrow> bool" where
  "is_structure v \<longleftrightarrow> var_kind v = VStructure"

definition array_len :: "variable \<Rightarrow> u32 option" where
  "array_len v = (case var_kind v of VArray n \<Rightarrow> Some n | VStructure \<Rightarrow> None | VLeaf _ \<Rightarrow> None)"

definition var_element :: "variable \<Rightarrow> variable option" where
  "var_element v = (if array_len v \<noteq> None then (case var_children v of c # _ \<Rightarrow> Some c | [] \<Rightarrow> None) else None)"

definition var_child :: "variable \<Rightarrow> string \<Rightarrow> variable option" where
  "var_child v name = (if array_len v \<noteq> None then None else find (\<lambda>c. var_name c = name) (var_children v))"

definition var_at :: "variable \<Rightarrow> u32 \<Rightarrow> variable option" where
  "var_at v index = Option.bind (array_len v) (\<lambda>n. if index < n then var_element v else None)"

fun var_resolve :: "variable \<Rightarrow> string list \<Rightarrow> variable option" where
  "var_resolve node [] = Some node"
| "var_resolve node (part # path) = (let (name, index) = split_index part in
     Option.bind (var_child node name) (\<lambda>c.
     Option.bind (case index of Some i \<Rightarrow> var_at c i | None \<Rightarrow> Some c) (\<lambda>n. var_resolve n path)))"

section \<open>Types\<close>

definition type_of_btype :: "btype \<Rightarrow> type_spec" where
  "type_of_btype b = (case b of
     B_Boolean \<Rightarrow> TsBoolean
   | B_Int8 \<Rightarrow> TsInteger 8 | B_Enum \<Rightarrow> TsInteger 8 | B_Int16 \<Rightarrow> TsInteger 16 | B_Int24 \<Rightarrow> TsInteger 24
   | B_Int32 \<Rightarrow> TsInteger 32 | B_Int64 \<Rightarrow> TsInteger 64
   | B_Int8U \<Rightarrow> TsUnsigned 8 | B_Int16U \<Rightarrow> TsUnsigned 16 | B_Int24U \<Rightarrow> TsUnsigned 24 | B_Int32U \<Rightarrow> TsUnsigned 32
   | B_Float32 \<Rightarrow> TsFloatingPoint 32 8 | B_Float64 \<Rightarrow> TsFloatingPoint 64 11
   | B_Dbpos \<Rightarrow> TsBitString 2 | B_Tcmd \<Rightarrow> TsBitString 2
   | B_PhyComAddr \<Rightarrow> TsStructure False [] | B_Struct \<Rightarrow> TsStructure False [] | B_Other _ \<Rightarrow> TsStructure False []
   | B_Quality \<Rightarrow> TsBitString (- 13) | B_Check \<Rightarrow> TsBitString (- 2)
   | B_TrgOps \<Rightarrow> TsBitString (- 6) | B_OptFlds \<Rightarrow> TsBitString (- 10)
   | B_Timestamp \<Rightarrow> TsUtcTime | B_EntryTime \<Rightarrow> TsBinaryTime True
   | B_VisString32 \<Rightarrow> TsVisibleString (- 32) | B_VisString64 \<Rightarrow> TsVisibleString (- 64)
   | B_VisString65 \<Rightarrow> TsVisibleString (- 65)
   | B_VisString129 \<Rightarrow> TsVisibleString (- 129) | B_ObjRef \<Rightarrow> TsVisibleString (- 129)
   | B_VisString255 \<Rightarrow> TsVisibleString (- 255) | B_Currency \<Rightarrow> TsVisibleString (- 3)
   | B_Octet64 \<Rightarrow> TsOctetString (- 64) | B_EntryID \<Rightarrow> TsOctetString (- 8)
   | B_Octet6 \<Rightarrow> TsOctetString 6 | B_Octet16 \<Rightarrow> TsOctetString 16
   | B_SvOptFlds \<Rightarrow> TsBitString (- 8) | B_LogOptFlds \<Rightarrow> TsBitString (- 8)
   | B_Unicode255 \<Rightarrow> TsMmsString (- 255))"

fun var_type_spec :: "variable \<Rightarrow> type_spec" where
  "var_type_spec (Variable name kind fc kids) = (case kind of
     VStructure \<Rightarrow> TsStructure False (map (\<lambda>c. (Some (var_name c), var_type_spec c)) kids)
   | VArray n \<Rightarrow> TsArray False n (case map var_type_spec kids of t # _ \<Rightarrow> t | [] \<Rightarrow> TsStructure False [])
   | VLeaf b \<Rightarrow> type_of_btype b)"

section \<open>Domains\<close>

record domain =
  dmn_name :: string
  dmn_nodes :: "variable list"

abbreviation SEP :: char where
  "SEP \<equiv> CHR ''$''"

abbreviation item_parts :: "string \<Rightarrow> string list" where
  "item_parts item \<equiv> split_on (\<lambda>c. c = SEP) item"

definition dmn_node :: "domain \<Rightarrow> string \<Rightarrow> variable option" where
  "dmn_node d name = find (\<lambda>n. var_name n = name) (dmn_nodes d)"

definition dmn_resolve :: "domain \<Rightarrow> string \<Rightarrow> variable option" where
  "dmn_resolve d item = (case item_parts item of [] \<Rightarrow> None
     | p # ps \<Rightarrow> Option.bind (dmn_node d p) (\<lambda>node. var_resolve node ps))"

fun push_names :: "string \<Rightarrow> variable \<Rightarrow> string list" where
  "push_names prefix (Variable name kind fc kids) = prefix #
     (case kind of VArray _ \<Rightarrow> []
      | _ \<Rightarrow> concat (map (\<lambda>c. push_names (prefix @ SEP # var_name c) c) kids))"

definition dmn_variable_names :: "domain \<Rightarrow> string list" where
  "dmn_variable_names d = sort (concat (map (\<lambda>n. push_names (var_name n) n) (dmn_nodes d)))"

section \<open>Building the tree\<close>

fun collect_fcs :: "data_obj \<Rightarrow> fc list \<Rightarrow> fc list" where
  "collect_fcs (DataObject name cdc ty attributes subs count) out =
     fold (\<lambda>s out. collect_fcs s out) subs
       (fold (\<lambda>a out. if da_fc a \<notin> set out then out @ [da_fc a] else out) attributes out)"

definition functional_constraints :: "logical_node \<Rightarrow> fc list" where
  "functional_constraints n =
     (let out = fold collect_fcs (lnd_data_objects n) [];
          out = (if Fc_SG \<in> set out \<or> Fc_SE \<in> set out
                 then fold (\<lambda>f out. if f \<notin> set out then out @ [f] else out) [Fc_SG, Fc_SE] out else out)
      in sort_key fc_as_str out)"

definition belongs_under :: "fc \<Rightarrow> fc \<Rightarrow> bool" where
  "belongs_under declared f \<longleftrightarrow>
     (declared = Fc_SG \<or> declared = Fc_SE) \<and> (f = Fc_SG \<or> f = Fc_SE) \<or> declared = f"

definition phy_com_addr :: "string \<Rightarrow> fc option \<Rightarrow> variable" where
  "phy_com_addr name fc = var_structure name fc
     [var_leaf ''Addr'' fc B_Octet6, var_leaf ''PRIORITY'' fc B_Int8U, var_leaf ''VID'' fc B_Int16U,
      var_leaf ''APPID'' fc B_Int16U]"

fun attribute_variable :: "fc \<Rightarrow> data_attribute \<Rightarrow> variable" where
  "attribute_variable f (DataAttribute name afc b ty kids val groups count) =
     (let e = (if kids = [] then
                 (if b = B_PhyComAddr then phy_com_addr name (Some f) else var_leaf name (Some f) b)
               else var_structure name (Some f) (map (attribute_variable f) kids))
      in case count of Some n \<Rightarrow> var_array name (Some f) n e | None \<Rightarrow> e)"

fun object_under :: "fc \<Rightarrow> data_obj \<Rightarrow> variable option" and objects_under :: "fc \<Rightarrow> data_obj list \<Rightarrow> variable list" where
  "object_under f (DataObject name cdc ty attributes subs count) =
     (let kids = map (attribute_variable f) (filter (\<lambda>a. belongs_under (da_fc a) f) attributes) @ objects_under f subs
      in if kids = [] then None
         else let e = var_structure name (Some f) kids
              in Some (case count of Some n \<Rightarrow> var_array name (Some f) n e | None \<Rightarrow> e))"
| "objects_under f [] = []"
| "objects_under f (s # ss) = (case object_under f s of Some v \<Rightarrow> [v] | None \<Rightarrow> []) @ objects_under f ss"

fun add_under :: "fc \<Rightarrow> variable \<Rightarrow> (fc \<times> variable list) list \<Rightarrow> (fc \<times> variable list) list" where
  "add_under f v [] = [(f, [v])]"
| "add_under f v ((g, vs) # rest) = (if g = f then (g, vs @ [v]) # rest else (g, vs) # add_under f v rest)"

definition node_of :: "logical_node \<Rightarrow> (fc \<times> variable) list \<Rightarrow> variable" where
  "node_of n extra =
     (let by_fc = List.map_filter (\<lambda>f. let cs = objects_under f (lnd_data_objects n)
                    in if cs = [] then None else Some (f, cs)) (functional_constraints n);
          by_fc = fold (\<lambda>(f, v). add_under f v) extra by_fc;
          by_fc = sort_key (\<lambda>p. fc_as_str (fst p)) by_fc
      in var_structure (lnd_name n) None (map (\<lambda>(f, cs). var_structure (fc_as_str f) (Some f) cs) by_fc))"

definition domain_of :: "logical_device \<Rightarrow> (logical_node \<Rightarrow> (fc \<times> variable) list) \<Rightarrow> domain" where
  "domain_of ld extra = \<lparr>dmn_name = ldv_name ld, dmn_nodes = map (\<lambda>n. node_of n (extra n)) (ldv_nodes ld)\<rparr>"

section \<open>Item names\<close>

fun item_with :: "string \<Rightarrow> selector list \<Rightarrow> string option" where
  "item_with item [] = Some item"
| "item_with item (Component name # sel) = item_with (item @ SEP # name) sel"
| "item_with item (Index i # sel) = item_with (item @ ''('' @ show_u32 i @ '')'') sel"
| "item_with item (IndexRange low count # sel) = None"
| "item_with item (AllElements # sel) = None"

definition split_item :: "string \<Rightarrow> string \<times> fc option \<times> string list" where
  "split_item item = (let parts = item_parts item; rest = tl parts;
     f = (case rest of [] \<Rightarrow> None | p # _ \<Rightarrow> fc_parse p)
     in if f \<noteq> None then (hd parts, f, tl rest) else (hd parts, None, rest))"

section \<open>The shape of the tree\<close>

text \<open>
  Below a functional constraint every node carries it, a leaf has no children, and an array has
  exactly one, its element prototype.
\<close>

fun var_under :: "fc \<Rightarrow> variable \<Rightarrow> bool" where
  "var_under f (Variable name kind fc kids) \<longleftrightarrow> fc = Some f \<and> list_all (var_under f) kids \<and>
     (case kind of VLeaf _ \<Rightarrow> kids = [] | VArray _ \<Rightarrow> length kids = 1 | VStructure \<Rightarrow> True)"

definition node_shape :: "variable \<Rightarrow> bool" where
  "node_shape v \<longleftrightarrow> var_fc v = None \<and> var_kind v = VStructure \<and>
     (\<forall>c \<in> set (var_children v). \<exists>f. var_name c = fc_as_str f \<and> var_kind c = VStructure \<and> var_under f c)"

definition domain_shape :: "domain \<Rightarrow> bool" where
  "domain_shape d \<longleftrightarrow> (\<forall>n \<in> set (dmn_nodes d). node_shape n)"

lemma var_under_simps [simp]:
  "var_under f (var_leaf name (Some f) b)"
  "var_under f (var_structure name (Some f) cs) \<longleftrightarrow> list_all (var_under f) cs"
  "var_under f (var_array name (Some f) n e) \<longleftrightarrow> var_under f e"
  "var_under f (phy_com_addr name (Some f))"
  by (simp_all add: var_leaf_def var_structure_def var_array_def phy_com_addr_def)

lemma var_under_fc: "var_under f v \<Longrightarrow> var_fc v = Some f"
  by (cases v) simp

lemma attribute_variable_under: "var_under f (attribute_variable f a)"
  by (induction f a rule: attribute_variable.induct) (auto simp: Let_def list_all_iff split: option.split)

lemma object_under_under:
  "object_under f d = Some v \<Longrightarrow> var_under f v"
  "list_all (var_under f) (objects_under f ds)"
proof (induction f d and f ds arbitrary: v and rule: object_under_objects_under.induct)
  case (1 f name cdc ty attributes subs count)
  then show ?case
    by (auto simp: Let_def list_all_iff attribute_variable_under split: if_splits option.splits)
qed (auto split: option.splits)

definition by_fc_shape :: "(fc \<times> variable list) list \<Rightarrow> bool" where
  "by_fc_shape xs \<longleftrightarrow> (\<forall>(f, vs) \<in> set xs. list_all (var_under f) vs)"

lemma add_under_shape: "by_fc_shape xs \<Longrightarrow> var_under f v \<Longrightarrow> by_fc_shape (add_under f v xs)"
  by (induction f v xs rule: add_under.induct) (auto simp: by_fc_shape_def)

lemma fold_add_under_shape:
  "by_fc_shape xs \<Longrightarrow> (\<forall>(f, v) \<in> set extra. var_under f v) \<Longrightarrow> by_fc_shape (fold (\<lambda>(f, v). add_under f v) extra xs)"
  by (induction extra arbitrary: xs) (auto intro: add_under_shape)

lemma node_of_shape:
  assumes "\<forall>(f, v) \<in> set extra. var_under f v"
  shows "node_shape (node_of n extra)"
proof -
  let ?start = "List.map_filter (\<lambda>f. let cs = objects_under f (lnd_data_objects n)
                    in if cs = [] then None else Some (f, cs)) (functional_constraints n)"
  have "by_fc_shape ?start"
    using object_under_under(2) by (auto simp: by_fc_shape_def List.map_filter_def Let_def split: if_splits)
  then have "by_fc_shape (fold (\<lambda>(f, v). add_under f v) extra ?start)"
    using assms by (rule fold_add_under_shape)
  then show ?thesis
    by (fastforce simp: node_shape_def node_of_def Let_def by_fc_shape_def var_structure_def)
qed

lemma domain_of_shape:
  assumes "\<And>n. \<forall>(f, v) \<in> set (extra n). var_under f v"
  shows "domain_shape (domain_of ld extra)"
  using node_of_shape [OF assms] by (simp add: domain_shape_def domain_of_def)

section \<open>Resolution\<close>

lemma var_child_in: "var_child v name = Some c \<Longrightarrow> c \<in> set (var_children v) \<and> var_name c = name \<and> array_len v = None"
  by (auto simp: var_child_def find_Some_iff split: if_splits)

lemma var_at_in: "var_at v i = Some e \<Longrightarrow> \<exists>n. var_kind v = VArray n \<and> i < n \<and> e \<in> set (var_children v)"
  by (auto simp: var_at_def var_element_def array_len_def split: bind_splits var_kind.splits if_splits list.splits)

lemma var_under_children: "var_under f v \<Longrightarrow> c \<in> set (var_children v) \<Longrightarrow> var_under f c"
  by (cases v) (simp add: list_all_iff)

lemma var_resolve_under: "var_resolve v path = Some w \<Longrightarrow> var_under f v \<Longrightarrow> var_under f w"
proof (induction path arbitrary: v)
  case (Cons part path)
  obtain name index where si: "split_index part = (name, index)" by (cases "split_index part")
  then obtain c n where c: "var_child v name = Some c" and
    n: "(case index of Some i \<Rightarrow> var_at c i | None \<Rightarrow> Some c) = Some n" and r: "var_resolve n path = Some w"
    using Cons.prems(1) by (auto split: bind_splits)
  have "var_under f c" using var_child_in [OF c] Cons.prems(2) var_under_children by blast
  then have "var_under f n" using n var_at_in var_under_children by (cases index) fastforce+
  then show ?case using Cons.IH r by blast
qed simp

text \<open>An item name with a functional constraint resolves only to a node that carries it.\<close>

lemma split_index_fc: "split_index (fc_as_str f) = (fc_as_str f, None)"
  by (rule split_index_plain) (cases f; simp add: fc_as_str_def)

lemma resolve_node_under:
  assumes "node_shape v" "var_resolve v (p # ps) = Some w"
  shows "\<exists>f. fc_parse p = Some f \<and> var_under f w"
proof -
  obtain name index where si: "split_index p = (name, index)" by (cases "split_index p")
  then obtain c where c: "var_child v name = Some c" and
    r: "Option.bind (case index of Some i \<Rightarrow> var_at c i | None \<Rightarrow> Some c) (\<lambda>n. var_resolve n ps) = Some w"
    using assms(2) by (auto split: bind_splits)
  obtain f where f: "var_name c = fc_as_str f" "var_kind c = VStructure" "var_under f c"
    using var_child_in [OF c] assms(1) by (auto simp: node_shape_def)
  have "index = None"
    using r f(2) by (auto simp: var_at_def array_len_def split: option.splits)
  then have w: "var_resolve c ps = Some w" using r by simp
  have "p = name"
    using si \<open>index = None\<close> by (auto simp: split_index_def split: option.splits)
  then have "fc_parse p = Some f" using f(1) var_child_in [OF c] by simp
  then show ?thesis using var_resolve_under [OF w f(3)] by blast
qed

lemma dmn_resolve_fc:
  assumes "domain_shape d" "dmn_resolve d item = Some w"
  shows "var_fc w = fst (snd (split_item item))"
proof -
  obtain p ps where p: "item_parts item = p # ps" by (cases "item_parts item") auto
  obtain v where v: "dmn_node d p = Some v" "var_resolve v ps = Some w"
    using assms(2) p by (auto simp: dmn_resolve_def split: bind_splits)
  have n: "node_shape v" using v(1) assms(1) by (auto simp: dmn_node_def domain_shape_def find_Some_iff)
  show ?thesis
  proof (cases ps)
    case Nil
    then show ?thesis using v(2) n p by (simp add: split_item_def Let_def node_shape_def)
  next
    case (Cons q qs)
    then obtain f where "fc_parse q = Some f" "var_under f w" using resolve_node_under n v(2) by blast
    then show ?thesis using p Cons by (simp add: split_item_def Let_def var_under_fc)
  qed
qed

section \<open>Names\<close>

text \<open>An item name as the node it starts at and the path below it.\<close>

definition path_item :: "string \<Rightarrow> string list \<Rightarrow> string" where
  "path_item prefix path = prefix @ concat (map (\<lambda>p. SEP # p) path)"

lemma path_item_simps [simp]:
  "path_item prefix [] = prefix"
  "path_item prefix (p # ps) = path_item (prefix @ SEP # p) ps"
  by (simp_all add: path_item_def)

lemma path_item_append: "path_item (path_item prefix ps) qs = path_item prefix (ps @ qs)"
  by (simp add: path_item_def)

lemma item_parts_path:
  "SEP \<notin> set prefix \<Longrightarrow> \<forall>p \<in> set path. SEP \<notin> set p \<Longrightarrow> item_parts (path_item prefix path) = prefix # path"
proof (induction path arbitrary: prefix)
  case Nil
  then show ?case by (auto intro: split_on_none)
next
  case (Cons p ps)
  have "path_item prefix (p # ps) = prefix @ SEP # path_item p ps" by (simp add: path_item_def)
  moreover have "item_parts (prefix @ SEP # path_item p ps) = prefix # item_parts (path_item p ps)"
    using Cons.prems(1) by (intro split_on_append) auto
  ultimately show ?case using Cons.IH [of p] Cons.prems(2) by simp
qed

lemma join_path: "join [SEP] (p # ps) = path_item p ps"
  by (induction ps arbitrary: p) (simp_all add: path_item_def)

lemma path_item_parts: "item_parts s = p # ps \<Longrightarrow> path_item p ps = s"
  using join_split_on [of SEP s] join_path [of p ps] by simp

lemma parts_no_sep: "item_parts s = p # ps \<Longrightarrow> q \<in> set (p # ps) \<Longrightarrow> SEP \<notin> set q"
  using split_on_parts [of q "\<lambda>c. c = SEP" s SEP] by auto

lemma parts_subset: "item_parts s = p # ps \<Longrightarrow> q \<in> set (p # ps) \<Longrightarrow> set q \<subseteq> set s"
  using split_on_parts [of q "\<lambda>c. c = SEP" s] by auto

text \<open>
  The names the model promises: a component name holds neither the separator nor a parenthesis,
  and the components of a structure have different names.
\<close>

definition plain_name :: "string \<Rightarrow> bool" where
  "plain_name s \<longleftrightarrow> SEP \<notin> set s \<and> CHR ''('' \<notin> set s"

fun var_named :: "variable \<Rightarrow> bool" where
  "var_named (Variable name kind fc cs) \<longleftrightarrow> plain_name name \<and> distinct (map var_name cs) \<and> list_all var_named cs"

definition domain_named :: "domain \<Rightarrow> bool" where
  "domain_named d \<longleftrightarrow> distinct (map var_name (dmn_nodes d)) \<and> list_all var_named (dmn_nodes d)"

lemma find_distinct:
  "distinct (map f xs) \<Longrightarrow> x \<in> set xs \<Longrightarrow> find (\<lambda>y. f y = f x) xs = Some x"
  by (induction xs) auto

lemma var_namedD:
  "var_named v \<Longrightarrow> plain_name (var_name v) \<and> distinct (map var_name (var_children v)) \<and> (\<forall>c \<in> set (var_children v). var_named c)"
  by (cases v) (simp add: list_all_iff)

lemma resolve_step:
  assumes "var_named v" "c \<in> set (var_children v)" "array_len v = None"
  shows "var_resolve v (var_name c # path) = var_resolve c path"
proof -
  have "find (\<lambda>y. var_name y = var_name c) (var_children v) = Some c"
    using assms var_namedD by (intro find_distinct) auto
  moreover have "split_index (var_name c) = (var_name c, None)"
    using assms var_namedD by (intro split_index_plain) (auto simp: plain_name_def)
  ultimately show ?thesis using assms(3) by (simp add: var_child_def)
qed

lemma push_names_path:
  "var_named v \<Longrightarrow> s \<in> set (push_names prefix v) \<Longrightarrow>
    \<exists>path. s = path_item prefix path \<and> (\<forall>p \<in> set path. plain_name p) \<and> var_resolve v path \<noteq> None"
proof (induction prefix v rule: push_names.induct)
  case (1 prefix name kind fc cs)
  let ?v = "Variable name kind fc cs"
  show ?case
  proof (cases "s = prefix")
    case True
    then show ?thesis by (intro exI [of _ "[]"]) simp
  next
    case False
    then have k: "array_len ?v = None" "\<And>n. kind \<noteq> VArray n"
      using "1.prems"(2) by (auto simp: array_len_def split: var_kind.splits)
    then obtain c where c: "c \<in> set cs" "s \<in> set (push_names (prefix @ SEP # var_name c) c)"
      using "1.prems"(2) False by (auto split: var_kind.splits)
    have n: "var_named c" using "1.prems"(1) c(1) by (simp add: list_all_iff)
    then obtain path where p: "s = path_item (prefix @ SEP # var_name c) path" "\<forall>p \<in> set path. plain_name p"
      "var_resolve c path \<noteq> None"
      using "1.IH" c k(2) by (cases kind) blast+
    then show ?thesis
      using resolve_step [OF "1.prems"(1), of c path] c(1) k(1) var_namedD [OF n]
      by (intro exI [of _ "var_name c # path"]) simp
  qed
qed

lemma prefix_pushed: "prefix \<in> set (push_names prefix v)"
  by (cases v) simp

lemma resolved_pushed:
  "var_resolve v path = Some w \<Longrightarrow> \<forall>p \<in> set path. CHR ''('' \<notin> set p \<Longrightarrow> path_item prefix path \<in> set (push_names prefix v)"
proof (induction path arbitrary: v prefix)
  case Nil
  then show ?case by (simp add: prefix_pushed)
next
  case (Cons p ps)
  have "split_index p = (p, None)" using Cons.prems(2) by (intro split_index_plain) simp
  then obtain c where c: "var_child v p = Some c" "var_resolve c ps = Some w"
    using Cons.prems(1) by (auto split: bind_splits)
  then have m: "path_item (prefix @ SEP # p) ps \<in> set (push_names (prefix @ SEP # var_name c) c)"
    using Cons.IH [OF c(2), of "prefix @ SEP # p"] Cons.prems(2) var_child_in [OF c(1)] by simp
  show ?case
    using m var_child_in [OF c(1)] by (cases v) (auto simp: array_len_def split: var_kind.splits)
qed

lemma names_are_resolvable:
  assumes "domain_named d"
  shows "item \<in> set (dmn_variable_names d) \<longleftrightarrow> CHR ''('' \<notin> set item \<and> dmn_resolve d item \<noteq> None"
proof
  assume "item \<in> set (dmn_variable_names d)"
  then obtain n where n: "n \<in> set (dmn_nodes d)" "item \<in> set (push_names (var_name n) n)"
    by (auto simp: dmn_variable_names_def)
  have nn: "var_named n" using n(1) assms by (simp add: domain_named_def list_all_iff)
  then obtain path where p: "item = path_item (var_name n) path" "\<forall>p \<in> set path. plain_name p" "var_resolve n path \<noteq> None"
    using push_names_path n(2) by blast
  have "item_parts item = var_name n # path"
    using p var_namedD [OF nn] by (simp add: item_parts_path plain_name_def)
  moreover have "dmn_node d (var_name n) = Some n"
    using find_distinct [of var_name "dmn_nodes d" n] n(1) assms by (simp add: dmn_node_def domain_named_def)
  moreover have "CHR ''('' \<notin> set item"
    using p(1,2) var_namedD [OF nn] by (auto simp: path_item_def plain_name_def)
  ultimately show "CHR ''('' \<notin> set item \<and> dmn_resolve d item \<noteq> None"
    using p(3) by (simp add: dmn_resolve_def)
next
  assume a: "CHR ''('' \<notin> set item \<and> dmn_resolve d item \<noteq> None"
  obtain p ps where p: "item_parts item = p # ps" by (cases "item_parts item") auto
  then obtain n w where n: "dmn_node d p = Some n" "var_resolve n ps = Some w"
    using a by (auto simp: dmn_resolve_def split: bind_splits)
  have "\<forall>q \<in> set ps. CHR ''('' \<notin> set q" using parts_subset [OF p] a by auto
  then have "path_item p ps \<in> set (push_names p n)" using resolved_pushed n(2) by blast
  moreover have "n \<in> set (dmn_nodes d)" "var_name n = p"
    using n(1) by (auto simp: dmn_node_def find_Some_iff)
  ultimately show "item \<in> set (dmn_variable_names d)"
    using path_item_parts [OF p] by (auto simp: dmn_variable_names_def)
qed

lemma names_sorted: "sorted (dmn_variable_names d)"
  by (simp add: dmn_variable_names_def)

end
