(* ===== verification/Float_Parse.thy ===== *)
theory Float_Parse
  imports Strings Float_Bits
begin

text \<open>
  \<open>str::parse::<f32>()\<close> and \<open>parse::<f64>()\<close>: a decimal number rounded to the nearest value of the
  format, ties to even, on bit patterns. The engineered values of an SCL file reach the server through
  it (\<open>parse_engineered_typed\<close> of \<open>src/server/ied.rs\<close>).
\<close>

definition take_sign :: "string \<Rightarrow> bool \<times> string" where
  "take_sign s = (case s of
     [] \<Rightarrow> (False, s)
   | c # r \<Rightarrow> if c = CHR ''+'' then (False, r) else if c = CHR ''-'' then (True, r) else (False, s))"

text \<open>The digits and the power of ten of a \<open>Number\<close>.\<close>

definition parse_exponent :: "string \<Rightarrow> int option" where
  "parse_exponent s = (case s of
     [] \<Rightarrow> Some 0
   | c # r \<Rightarrow> if c = CHR ''e'' \<or> c = CHR ''E'' then
       (let (neg, d) = take_sign r in map_option (\<lambda>n. if neg then - int n else int n) (parse_digits d))
     else None)"

definition parse_number :: "string \<Rightarrow> (nat \<times> int) option" where
  "parse_number s =
     (let ints = takeWhile is_digit s; r = dropWhile is_digit s;
          (frac, r) = (case r of
             c # t \<Rightarrow> if c = CHR ''.'' then (takeWhile is_digit t, dropWhile is_digit t) else ([], r)
           | [] \<Rightarrow> ([], r))
      in if ints @ frac = [] then None
         else map_option (\<lambda>e. (digits_value 0 (ints @ frac), e - int (length frac))) (parse_exponent r))"

text \<open>The magnitude nearest to \<open>num / den\<close> with \<open>mb\<close> mantissa bits and least exponent \<open>emin\<close>.\<close>

definition floor_exponent :: "nat \<Rightarrow> nat \<Rightarrow> int" where
  "floor_exponent num den = (let h = int (high_bit num) - int (high_bit den)
     in if den * 2 ^ nat h \<le> num * 2 ^ nat (- h) then h else h - 1)"

definition nearest_magnitude :: "nat \<Rightarrow> int \<Rightarrow> nat \<Rightarrow> nat \<Rightarrow> nat \<Rightarrow> nat" where
  "nearest_magnitude mb emin huge num den =
     (if num = 0 then 0
      else let e = max (floor_exponent num den) emin; shift = e - int mb;
               n = num * 2 ^ nat (- shift); d = den * 2 ^ nat shift;
               q = n div d; r = n mod d;
               q = (if d < 2 * r \<or> (2 * r = d \<and> odd q) then q + 1 else q)
           in min huge (nat (e - emin) * 2 ^ mb + q))"

definition lower_char :: "char \<Rightarrow> char" where
  "lower_char c = (let b = of_char c :: nat in if 65 \<le> b \<and> b \<le> 90 then char_of (b + 32) else c)"

definition parse_magnitude :: "nat \<Rightarrow> int \<Rightarrow> nat \<Rightarrow> string \<Rightarrow> nat option" where
  "parse_magnitude mb emin huge s =
     (let l = map lower_char s in
      if l = ''inf'' \<or> l = ''infinity'' then Some huge
      else if l = ''nan'' then Some (huge + 2 ^ (mb - 1))
      else map_option (\<lambda>(m, e). nearest_magnitude mb emin huge (m * 10 ^ nat e) (10 ^ nat (- e))) (parse_number s))"

definition parse_f32 :: "string \<Rightarrow> u32 option" where
  "parse_f32 s = (let (neg, r) = take_sign s in
     map_option (\<lambda>m. of_nat ((if neg then 2 ^ 31 else 0) + m)) (parse_magnitude 23 (- 126) (255 * 2 ^ 23) r))"

definition parse_f64 :: "string \<Rightarrow> u64 option" where
  "parse_f64 s = (let (neg, r) = take_sign s in
     map_option (\<lambda>m. of_nat ((if neg then 2 ^ 63 else 0) + m)) (parse_magnitude 52 (- 1022) (2047 * 2 ^ 52) r))"

section \<open>The rounding is within half a unit\<close>

lemma nearest_half_unit:
  fixes n d :: nat
  assumes "0 < d"
  defines "q \<equiv> (if d < 2 * (n mod d) \<or> (2 * (n mod d) = d \<and> odd (n div d)) then n div d + 1 else n div d)"
  shows "2 * n \<le> 2 * q * d + d \<and> 2 * q * d \<le> 2 * n + d"
proof -
  have e: "n = n div d * d + n mod d" by simp
  have m: "n mod d < d" using assms by simp
  show ?thesis
  proof (cases "d < 2 * (n mod d) \<or> (2 * (n mod d) = d \<and> odd (n div d))")
    case True
    then have "q * d = n div d * d + d" "d \<le> 2 * (n mod d)" by (auto simp: q_def)
    then show ?thesis using e m by linarith
  next
    case False
    then have "q * d = n div d * d" "2 * (n mod d) \<le> d" by (auto simp: q_def)
    then show ?thesis using e m by linarith
  qed
qed

lemma floor_exponent_le:
  assumes "0 < num" "0 < den"
  shows "den * 2 ^ nat (floor_exponent num den) \<le> num * 2 ^ nat (- floor_exponent num den)"
proof -
  let ?h = "int (high_bit num) - int (high_bit den)"
  have b: "2 ^ high_bit num \<le> num" "den < 2 * 2 ^ high_bit den"
    using high_bit_bounds assms by auto
  show ?thesis
  proof (cases "den * 2 ^ nat ?h \<le> num * 2 ^ nat (- ?h)")
    case True
    then show ?thesis by (simp add: floor_exponent_def Let_def)
  next
    case False
    then have f: "floor_exponent num den = ?h - 1" by (simp add: floor_exponent_def Let_def)
    show ?thesis
    proof (cases "high_bit den < high_bit num")
      case True
      then obtain j where j: "high_bit num = high_bit den + Suc j" using less_imp_Suc_add by auto
      have "den * 2 ^ j \<le> 2 * 2 ^ high_bit den * 2 ^ j" using b(2) by simp
      also have "\<dots> = 2 ^ high_bit num" by (simp add: j power_add)
      finally show ?thesis using b(1) by (simp add: f j nat_add_distrib)
    next
      case False
      then obtain j where j: "high_bit den = high_bit num + j" using le_Suc_ex not_less by blast
      have "den \<le> 2 * 2 ^ high_bit den" using b(2) by simp
      also have "\<dots> = 2 ^ high_bit num * 2 ^ Suc j" by (simp add: j power_add)
      also have "\<dots> \<le> num * 2 ^ Suc j" using b(1) by simp
      finally show ?thesis by (simp add: f j nat_add_distrib)
    qed
  qed
qed

end
