(* ===== verification/Server_Ied.thy ===== *)
theory Server_Ied
  imports Server_Tree Float_Parse "HOL-Library.AList"
begin

text \<open>
  The served IED (\<open>src/server/ied.rs\<close>): the tree of every logical device, the values behind its leaves
  keyed by full reference, data sets, control blocks, and the set of references written since the last
  commit. A \<open>BTreeMap\<close> that is only looked up is a map; one whose keys are listed is an association list.
\<close>

section \<open>State\<close>

datatype block_kind = BkUnbuffered | BkBuffered | BkLog | BkSettingGroup | BkGoose | BkSampledValue

record block =
  blk_reference :: string
  blk_domain :: string
  blk_node :: string
  blk_name :: string
  blk_kind :: block_kind
  blk_data_set :: "string option"

record data_set_member =
  dsm_reference :: string
  dsm_leaves :: "string list"

record served_data_set =
  sds_reference :: string
  sds_members :: "data_set_member list"
  sds_deletable :: bool

definition sds_references :: "served_data_set \<Rightarrow> string list" where
  "sds_references d = map dsm_reference (sds_members d)"

definition sds_len :: "served_data_set \<Rightarrow> usize" where
  "sds_len d = length (sds_members d)"

definition sds_is_empty :: "served_data_set \<Rightarrow> bool" where
  "sds_is_empty d \<longleftrightarrow> sds_members d = []"

record ied =
  ied_model :: ied_model
  ied_domains :: "domain list"
  ied_values :: "string \<rightharpoonup> data_value"
  ied_data_sets :: "(string \<times> served_data_set) list"
  ied_blocks :: "block list"
  ied_dirty :: "(string \<times> trg_ops) list"
  ied_edition :: edition

type_synonym access = "i64 + unit"

definition DATA_ACCESS_NON_EXISTENT :: i64 where "DATA_ACCESS_NON_EXISTENT = 10"
definition DATA_ACCESS_TYPE_INCONSISTENT :: i64 where "DATA_ACCESS_TYPE_INCONSISTENT = 7"
definition DATA_ACCESS_DENIED :: i64 where "DATA_ACCESS_DENIED = 3"
definition DATA_ACCESS_VALUE_INVALID :: i64 where "DATA_ACCESS_VALUE_INVALID = 11"
definition DATA_ACCESS_UNSUPPORTED :: i64 where "DATA_ACCESS_UNSUPPORTED = 9"

lemmas data_access_codes = DATA_ACCESS_NON_EXISTENT_def DATA_ACCESS_TYPE_INCONSISTENT_def DATA_ACCESS_DENIED_def
  DATA_ACCESS_VALUE_INVALID_def DATA_ACCESS_UNSUPPORTED_def

section \<open>Walks over the tree\<close>

text \<open>The full reference of an item in a domain; the item of a component and of an array element.\<close>

definition reference :: "string \<Rightarrow> string \<Rightarrow> string" where
  "reference domain item = domain @ ''/'' @ item"

abbreviation sub_item :: "string \<Rightarrow> string \<Rightarrow> string" where
  "sub_item item name \<equiv> item @ SEP # name"

abbreviation indices :: "u32 \<Rightarrow> u32 list" where
  "indices n \<equiv> map of_nat [0..<unat n]"

fun collect_leaves :: "string \<Rightarrow> string \<Rightarrow> variable \<Rightarrow> string list" where
  "collect_leaves domain item (Variable name kind fc cs) = (case kind of
     VLeaf _ \<Rightarrow> [reference domain item]
   | VStructure \<Rightarrow> concat (map (\<lambda>c. collect_leaves domain (sub_item item (var_name c)) c) cs)
   | VArray n \<Rightarrow> (case cs of [] \<Rightarrow> []
       | e # _ \<Rightarrow> concat (map (\<lambda>i. collect_leaves domain (with_index item i) e) (indices n))))"

fun read_node :: "(string \<rightharpoonup> data_value) \<Rightarrow> string \<Rightarrow> string \<Rightarrow> variable \<Rightarrow> data_value option" where
  "read_node vals domain item (Variable name kind fc cs) = (case kind of
     VLeaf _ \<Rightarrow> vals (reference domain item)
   | VStructure \<Rightarrow> map_option Structure
       (those (map (\<lambda>c. read_node vals domain (sub_item item (var_name c)) c) cs))
   | VArray n \<Rightarrow> (case cs of [] \<Rightarrow> None
       | e # _ \<Rightarrow> map_option Array (those (map (\<lambda>i. read_node vals domain (with_index item i) e) (indices n)))))"

section \<open>Lookups\<close>

definition ied_domain_names :: "ied \<Rightarrow> string list" where
  "ied_domain_names s = map dmn_name (ied_domains s)"

definition ied_domain :: "ied \<Rightarrow> string \<Rightarrow> domain option" where
  "ied_domain s name = find (\<lambda>d. dmn_name d = name) (ied_domains s)"

definition ied_block :: "ied \<Rightarrow> string \<Rightarrow> block option" where
  "ied_block s r = find (\<lambda>b. blk_reference b = r) (ied_blocks s)"

definition data_set_names :: "ied \<Rightarrow> string \<Rightarrow> string list" where
  "data_set_names s domain = sort (List.map_filter (\<lambda>k. strip_prefix (domain @ ''/'') k) (map fst (ied_data_sets s)))"

definition log_names :: "ied \<Rightarrow> string \<Rightarrow> string list" where
  "log_names s domain = sort (case device_named (ied_model s) domain of None \<Rightarrow> []
     | Some ld \<Rightarrow> concat (map (\<lambda>n. map (\<lambda>l. lnd_name n @ ''$'' @
          (if log_name l = [] then ''General'' else log_name l)) (lnd_logs n)) (ldv_nodes ld)))"

definition created_data_sets :: "ied \<Rightarrow> usize" where
  "created_data_sets s = length (filter (\<lambda>(_, d). sds_deletable d) (ied_data_sets s))"

definition ied_data_set :: "ied \<Rightarrow> string \<Rightarrow> served_data_set option" where
  "ied_data_set s r = map_of (ied_data_sets s) r"

definition ied_value :: "ied \<Rightarrow> string \<Rightarrow> data_value option" where
  "ied_value s r = ied_values s r"

definition ied_read :: "ied \<Rightarrow> string \<Rightarrow> string \<Rightarrow> data_value option" where
  "ied_read s domain item = Option.bind (ied_domain s domain) (\<lambda>d.
     Option.bind (dmn_resolve d item) (\<lambda>node. read_node (ied_values s) domain item node))"

definition read_reference :: "ied \<Rightarrow> string \<Rightarrow> data_value option" where
  "read_reference s r = Option.bind (split_once (CHR ''/'') r) (\<lambda>(domain, item). ied_read s domain item)"

definition node_at :: "ied \<Rightarrow> string \<Rightarrow> variable option" where
  "node_at s r = Option.bind (split_once (CHR ''/'') r) (\<lambda>(domain, item).
     Option.bind (ied_domain s domain) (\<lambda>d. dmn_resolve d item))"

definition leaves_of :: "ied \<Rightarrow> string \<Rightarrow> string list" where
  "leaves_of s r = (case split_once (CHR ''/'') r of None \<Rightarrow> []
     | Some (domain, item) \<Rightarrow> (case Option.bind (ied_domain s domain) (\<lambda>d. dmn_resolve d item) of
         None \<Rightarrow> [] | Some node \<Rightarrow> collect_leaves domain item node))"

section \<open>Data sets\<close>

definition create_data_set :: "string \<Rightarrow> string list \<Rightarrow> ied \<Rightarrow> unit result \<times> ied" where
  "create_data_set r members s =
     (if ied_data_set s r \<noteq> None then (Inl (InvalidValue ''a data set of that name already exists''), s)
      else (Inr (), s\<lparr>ied_data_sets := AList.update r
         \<lparr>sds_reference = r, sds_members = map (\<lambda>m. \<lparr>dsm_reference = m, dsm_leaves = leaves_of s m\<rparr>) members,
          sds_deletable = True\<rparr> (ied_data_sets s)\<rparr>))"

definition delete_data_set :: "string \<Rightarrow> ied \<Rightarrow> (bool \<times> bool) \<times> ied" where
  "delete_data_set r s = (case ied_data_set s r of
     None \<Rightarrow> ((False, False), s)
   | Some ds \<Rightarrow> if \<not> sds_deletable ds then ((True, False), s)
       else ((True, True), s\<lparr>ied_data_sets := AList.delete r (ied_data_sets s)\<rparr>))"

section \<open>Writes\<close>

definition is_boolean where "is_boolean v = (case v of Boolean _ \<Rightarrow> True | _ \<Rightarrow> False)"
definition is_number where "is_number v = (case v of Integer _ \<Rightarrow> True | Unsigned _ \<Rightarrow> True | _ \<Rightarrow> False)"
definition is_float where "is_float v = (case v of Float32 _ \<Rightarrow> True | Float64 _ \<Rightarrow> True | _ \<Rightarrow> False)"
definition is_bit_string where "is_bit_string v = (case v of BitString _ _ \<Rightarrow> True | _ \<Rightarrow> False)"
definition is_utc_time where "is_utc_time v = (case v of UtcTime _ \<Rightarrow> True | _ \<Rightarrow> False)"
definition is_binary_time where "is_binary_time v = (case v of BinaryTime _ \<Rightarrow> True | _ \<Rightarrow> False)"
definition is_octet_string where "is_octet_string v = (case v of OctetString _ \<Rightarrow> True | _ \<Rightarrow> False)"
definition is_text where "is_text v = (case v of VisibleString _ \<Rightarrow> True | MmsString _ \<Rightarrow> True | _ \<Rightarrow> False)"
definition is_struct where "is_struct v = (case v of Structure _ \<Rightarrow> True | _ \<Rightarrow> False)"

lemmas value_shapes = is_boolean_def is_number_def is_float_def is_bit_string_def is_utc_time_def
  is_binary_time_def is_octet_string_def is_text_def is_struct_def

definition accepts :: "btype \<Rightarrow> data_value \<Rightarrow> bool" where
  "accepts b v = (case b of
     B_Boolean \<Rightarrow> is_boolean v
   | B_Int8 \<Rightarrow> is_number v | B_Int16 \<Rightarrow> is_number v | B_Int24 \<Rightarrow> is_number v | B_Int32 \<Rightarrow> is_number v
   | B_Int64 \<Rightarrow> is_number v | B_Enum \<Rightarrow> is_number v
   | B_Int8U \<Rightarrow> is_number v | B_Int16U \<Rightarrow> is_number v | B_Int24U \<Rightarrow> is_number v | B_Int32U \<Rightarrow> is_number v
   | B_Float32 \<Rightarrow> is_float v | B_Float64 \<Rightarrow> is_float v
   | B_Quality \<Rightarrow> is_bit_string v | B_Dbpos \<Rightarrow> is_bit_string v | B_Tcmd \<Rightarrow> is_bit_string v
   | B_Check \<Rightarrow> is_bit_string v | B_TrgOps \<Rightarrow> is_bit_string v | B_OptFlds \<Rightarrow> is_bit_string v
   | B_SvOptFlds \<Rightarrow> is_bit_string v | B_LogOptFlds \<Rightarrow> is_bit_string v
   | B_Timestamp \<Rightarrow> is_utc_time v
   | B_EntryTime \<Rightarrow> is_binary_time v
   | B_Octet64 \<Rightarrow> is_octet_string v | B_EntryID \<Rightarrow> is_octet_string v | B_PhyComAddr \<Rightarrow> is_octet_string v
   | B_Octet6 \<Rightarrow> is_octet_string v | B_Octet16 \<Rightarrow> is_octet_string v
   | B_Unicode255 \<Rightarrow> is_text v
   | B_Struct \<Rightarrow> is_struct v | B_Other _ \<Rightarrow> is_struct v
   | B_VisString32 \<Rightarrow> is_text v | B_VisString64 \<Rightarrow> is_text v | B_VisString65 \<Rightarrow> is_text v
   | B_VisString129 \<Rightarrow> is_text v | B_VisString255 \<Rightarrow> is_text v | B_ObjRef \<Rightarrow> is_text v
   | B_Currency \<Rightarrow> is_text v)"

text \<open>
  Equality of values as the code derives it: a float is compared as a number, so a NaN differs from
  itself and the two zeros are equal.
\<close>

definition f32_eq :: "u32 \<Rightarrow> u32 \<Rightarrow> bool" where
  "f32_eq x y \<longleftrightarrow> \<not> f32_nan x \<and> \<not> f32_nan y \<and> (x = y \<or> (x OR y) AND 0x7FFFFFFF = 0)"

definition f64_nan :: "u64 \<Rightarrow> bool" where
  "f64_nan x \<longleftrightarrow> f64_exp x = 2047 \<and> f64_frac x \<noteq> 0"

definition f64_eq :: "u64 \<Rightarrow> u64 \<Rightarrow> bool" where
  "f64_eq x y \<longleftrightarrow> \<not> f64_nan x \<and> \<not> f64_nan y \<and> (x = y \<or> (x OR y) AND 0x7FFFFFFFFFFFFFFF = 0)"

fun value_eq :: "data_value \<Rightarrow> data_value \<Rightarrow> bool" where
  "value_eq v w = (case v of
     Array xs \<Rightarrow> (case w of Array ys \<Rightarrow> list_all2 value_eq xs ys | _ \<Rightarrow> False)
   | Structure xs \<Rightarrow> (case w of Structure ys \<Rightarrow> list_all2 value_eq xs ys | _ \<Rightarrow> False)
   | Float32 x \<Rightarrow> (case w of Float32 y \<Rightarrow> f32_eq x y | _ \<Rightarrow> False)
   | Float64 x \<Rightarrow> (case w of Float64 y \<Rightarrow> f64_eq x y | _ \<Rightarrow> False)
   | _ \<Rightarrow> v = w)"

declare value_eq.simps [simp del]

text \<open>The union of two trigger sets, octet by octet as \<open>zip\<close> pairs them.\<close>

fun or_octets :: "bytes \<Rightarrow> bytes \<Rightarrow> bytes" where
  "or_octets (l # ls) (r # rs) = (l OR r) # or_octets ls rs"
| "or_octets ls _ = ls"

definition or_bits :: "trg_ops \<Rightarrow> trg_ops \<Rightarrow> bytes" where
  "or_bits a b = or_octets (snd (trg_ops_to_bit_string a)) (snd (trg_ops_to_bit_string b))"

definition TRG_NONE :: trg_ops where "TRG_NONE = 0"

definition mark_dirty :: "string \<Rightarrow> trg_ops \<Rightarrow> (string \<times> trg_ops) list \<Rightarrow> (string \<times> trg_ops) list" where
  "mark_dirty r trigger dirty =
     (let entry = (case map_of dirty r of Some t \<Rightarrow> t | None \<Rightarrow> TRG_NONE)
      in AList.update r (trg_ops_from_bit_string (or_bits entry trigger)) dirty)"

text \<open>The leaf a write is to, or the \<open>DataAccessError\<close> that refuses it.\<close>

definition writable_leaf :: "ied \<Rightarrow> string \<Rightarrow> data_value \<Rightarrow> i64 + btype" where
  "writable_leaf s r v = (case node_at s r of
     None \<Rightarrow> Inl DATA_ACCESS_NON_EXISTENT
   | Some node \<Rightarrow> (case var_kind node of
       VLeaf b \<Rightarrow> if accepts b v then Inr b else Inl DATA_ACCESS_TYPE_INCONSISTENT
     | _ \<Rightarrow> Inl DATA_ACCESS_TYPE_INCONSISTENT))"

definition write_leaf :: "string \<Rightarrow> data_value \<Rightarrow> ied \<Rightarrow> access \<times> ied" where
  "write_leaf r v s = (case writable_leaf s r v of
     Inl e \<Rightarrow> (Inl e, s)
   | Inr b \<Rightarrow>
       (let changed = (case ied_values s r of Some w \<Rightarrow> \<not> value_eq w v | None \<Rightarrow> True); quality = (b = B_Quality);
            s = s\<lparr>ied_values := (ied_values s)(r \<mapsto> v)\<rparr>;
            trigger = (if changed then (if quality then with_quality_change TRG_NONE True else with_data_change TRG_NONE True)
                       else with_data_update TRG_NONE True)
        in (Inr (), s\<lparr>ied_dirty := mark_dirty r trigger (ied_dirty s)\<rparr>)))"

definition set_internal :: "string \<Rightarrow> data_value \<Rightarrow> ied \<Rightarrow> access \<times> ied" where
  "set_internal r v s = (case writable_leaf s r v of
     Inl e \<Rightarrow> (Inl e, s)
   | Inr _ \<Rightarrow> (Inr (), s\<lparr>ied_values := (ied_values s)(r \<mapsto> v)\<rparr>))"

definition take_dirty :: "ied \<Rightarrow> (string \<times> trg_ops) list \<times> ied" where
  "take_dirty s = (ied_dirty s, s\<lparr>ied_dirty := []\<rparr>)"

definition is_dirty :: "ied \<Rightarrow> bool" where
  "is_dirty s \<longleftrightarrow> ied_dirty s \<noteq> []"

definition writable_block_attribute :: "block_kind \<Rightarrow> string \<Rightarrow> bool" where
  "writable_block_attribute k a = (case k of
     BkUnbuffered \<Rightarrow> a \<in> set [''RptID'', ''RptEna'', ''Resv'', ''ResvTms'', ''DatSet'', ''OptFlds'', ''BufTm'',
        ''TrgOps'', ''IntgPd'', ''GI'', ''PurgeBuf'', ''EntryID'']
   | BkBuffered \<Rightarrow> a \<in> set [''RptID'', ''RptEna'', ''Resv'', ''ResvTms'', ''DatSet'', ''OptFlds'', ''BufTm'',
        ''TrgOps'', ''IntgPd'', ''GI'', ''PurgeBuf'', ''EntryID'']
   | BkLog \<Rightarrow> a \<in> set [''LogEna'', ''DatSet'', ''TrgOps'', ''IntgPd'']
   | BkSettingGroup \<Rightarrow> a \<in> set [''ActSG'', ''EditSG'', ''CnfEdit'', ''ResvTms'']
   | BkGoose \<Rightarrow> a = ''GoEna''
   | BkSampledValue \<Rightarrow> a = ''SvEna'')"

definition client_write_allowed :: "ied \<Rightarrow> string \<Rightarrow> access" where
  "client_write_allowed s r =
     (let node_rule = (case node_at s r of
            Some node \<Rightarrow> (case var_fc node of
               Some f \<Rightarrow> if is_client_writable f then Inr () else Inl DATA_ACCESS_DENIED
             | None \<Rightarrow> Inl DATA_ACCESS_DENIED)
          | None \<Rightarrow> Inl DATA_ACCESS_NON_EXISTENT)
      in case rsplit_once SEP r of
           Some (blk, attribute) \<Rightarrow> (case ied_block s blk of
               Some b \<Rightarrow> if writable_block_attribute (blk_kind b) attribute then Inr () else Inl DATA_ACCESS_DENIED
             | None \<Rightarrow> node_rule)
         | None \<Rightarrow> node_rule)"

section \<open>Engineered values\<close>

definition attribute_type_id :: "ied_model \<Rightarrow> string \<Rightarrow> string option" where
  "attribute_type_id m r = (case ref_parse r of Inl _ \<Rightarrow> None
     | Inr parsed \<Rightarrow> Option.bind (attribute_at m parsed) da_type_id)"

definition parse_engineered_typed :: "ied_model \<Rightarrow> btype \<Rightarrow> string option \<Rightarrow> string \<Rightarrow> data_value option" where
  "parse_engineered_typed m b type_id text = (case b of
     B_Enum \<Rightarrow> map_option Integer (enum_ord m type_id text)
   | B_Boolean \<Rightarrow> Some (Boolean (text = ''true'' \<or> text = ''1''))
   | B_Int8 \<Rightarrow> map_option Integer (parse_i64 text) | B_Int16 \<Rightarrow> map_option Integer (parse_i64 text)
   | B_Int24 \<Rightarrow> map_option Integer (parse_i64 text) | B_Int32 \<Rightarrow> map_option Integer (parse_i64 text)
   | B_Int64 \<Rightarrow> map_option Integer (parse_i64 text)
   | B_Int8U \<Rightarrow> map_option Unsigned (parse_u64 text) | B_Int16U \<Rightarrow> map_option Unsigned (parse_u64 text)
   | B_Int24U \<Rightarrow> map_option Unsigned (parse_u64 text) | B_Int32U \<Rightarrow> map_option Unsigned (parse_u64 text)
   | B_Float32 \<Rightarrow> map_option Float32 (parse_f32 text)
   | B_Float64 \<Rightarrow> map_option Float64 (parse_f64 text)
   | B_VisString32 \<Rightarrow> Some (VisibleString text) | B_VisString64 \<Rightarrow> Some (VisibleString text)
   | B_VisString65 \<Rightarrow> Some (VisibleString text) | B_VisString129 \<Rightarrow> Some (VisibleString text)
   | B_VisString255 \<Rightarrow> Some (VisibleString text) | B_ObjRef \<Rightarrow> Some (VisibleString text)
   | B_Currency \<Rightarrow> Some (VisibleString text)
   | B_Unicode255 \<Rightarrow> Some (MmsString text)
   | _ \<Rightarrow> None)"

definition parse_text :: "ied \<Rightarrow> string \<Rightarrow> string \<Rightarrow> data_value option" where
  "parse_text s r text = Option.bind (node_at s r) (\<lambda>node. case var_kind node of
     VLeaf b \<Rightarrow> parse_engineered_typed (ied_model s) b (attribute_type_id (ied_model s) r) text
   | _ \<Rightarrow> None)"

definition enum_ordinal :: "ied \<Rightarrow> string \<Rightarrow> string \<Rightarrow> i64 option" where
  "enum_ordinal s r name = Option.bind (attribute_type_id (ied_model s) r) (\<lambda>i.
     Option.bind (enum_type_of (ied_model s) i) (\<lambda>e. ent_ord e name))"

definition default_value :: "btype \<Rightarrow> data_value" where
  "default_value b = (case b of
     B_Boolean \<Rightarrow> Boolean False
   | B_Int8 \<Rightarrow> Integer 0 | B_Int16 \<Rightarrow> Integer 0 | B_Int24 \<Rightarrow> Integer 0 | B_Int32 \<Rightarrow> Integer 0
   | B_Int64 \<Rightarrow> Integer 0 | B_Enum \<Rightarrow> Integer 0
   | B_Int8U \<Rightarrow> Unsigned 0 | B_Int16U \<Rightarrow> Unsigned 0 | B_Int24U \<Rightarrow> Unsigned 0 | B_Int32U \<Rightarrow> Unsigned 0
   | B_Float32 \<Rightarrow> Float32 0 | B_Float64 \<Rightarrow> Float64 0
   | B_Quality \<Rightarrow> value_of_quality Q_GOOD
   | B_Dbpos \<Rightarrow> BitString 6 [0] | B_Tcmd \<Rightarrow> BitString 6 [0] | B_Check \<Rightarrow> BitString 6 [0]
   | B_TrgOps \<Rightarrow> trg_ops_to_value TRG_NONE
   | B_OptFlds \<Rightarrow> opt_flds_to_value 0
   | B_SvOptFlds \<Rightarrow> BitString 0 [0] | B_LogOptFlds \<Rightarrow> BitString 0 [0]
   | B_Timestamp \<Rightarrow> UtcTime utc_default
   | B_EntryTime \<Rightarrow> BinaryTime (et_to_octets \<lparr>millis_of_day = 0, days_since_1984 = 0\<rparr>)
   | B_Octet64 \<Rightarrow> OctetString [] | B_EntryID \<Rightarrow> OctetString [] | B_PhyComAddr \<Rightarrow> OctetString []
   | B_Octet6 \<Rightarrow> OctetString (replicate 6 0)
   | B_Octet16 \<Rightarrow> OctetString (replicate 16 0)
   | B_Unicode255 \<Rightarrow> MmsString []
   | B_Struct \<Rightarrow> Structure [] | B_Other _ \<Rightarrow> Structure []
   | _ \<Rightarrow> VisibleString [])"

fun seed_node :: "string \<Rightarrow> string \<Rightarrow> variable \<Rightarrow> (string \<times> data_value) list" where
  "seed_node domain item (Variable name kind fc cs) = (case kind of
     VLeaf b \<Rightarrow> [(reference domain item, default_value b)]
   | VStructure \<Rightarrow> concat (map (\<lambda>c. seed_node domain (sub_item item (var_name c)) c) cs)
   | VArray n \<Rightarrow> (case cs of [] \<Rightarrow> []
       | e # _ \<Rightarrow> concat (map (\<lambda>i. seed_node domain (with_index item i) e) (indices n))))"

definition parse_engineered :: "ied_model \<Rightarrow> data_attribute \<Rightarrow> string \<Rightarrow> data_value option" where
  "parse_engineered m a text = parse_engineered_typed m (da_btype a) (da_type_id a) text"

fun engineered_walk :: "ied_model \<Rightarrow> string \<Rightarrow> data_attribute \<Rightarrow> (string \<times> data_value) list" where
  "engineered_walk m prefix (DataAttribute name f b ty kids val groups count) =
     (let a = DataAttribute name f b ty kids val groups count; path = sub_item prefix name
      in (case val of None \<Rightarrow> [] | Some text \<Rightarrow>
            (case parse_engineered m a text of None \<Rightarrow> [] | Some v \<Rightarrow> [(path, v)])) @
         concat (map (engineered_walk m path) kids))"

fun engineered_of :: "ied_model \<Rightarrow> string \<Rightarrow> string \<Rightarrow> string \<Rightarrow> data_obj \<Rightarrow> (string \<times> data_value) list" where
  "engineered_of m ld n do_path (DataObject name cdc ty attributes subs count) =
     concat (map (\<lambda>a. engineered_walk m (ld @ ''/'' @ n @ ''$'' @ fc_as_str (da_fc a) @ ''$'' @ do_path) a) attributes) @
     concat (map (\<lambda>s. engineered_of m ld n (sub_item do_path (dob_name s)) s) subs)"

definition engineered_values :: "ied_model \<Rightarrow> (string \<times> data_value) list" where
  "engineered_values m = concat (map (\<lambda>ld. concat (map (\<lambda>n. concat (map (\<lambda>o'.
     engineered_of m (ldv_name ld) (lnd_name n) (dob_name o') o') (lnd_data_objects n))) (ldv_nodes ld))) (imo_devices m))"

definition insert_all :: "(string \<times> data_value) list \<Rightarrow> (string \<rightharpoonup> data_value) \<Rightarrow> (string \<rightharpoonup> data_value)" where
  "insert_all kvs m = fold (\<lambda>(k, v) m. m(k \<mapsto> v)) kvs m"

definition seed_values :: "ied \<Rightarrow> ied" where
  "seed_values s = (let seeded = concat (map (\<lambda>d. concat (map (\<lambda>n. seed_node (dmn_name d) (var_name n) n) (dmn_nodes d)))
                          (ied_domains s))
     in s\<lparr>ied_values := insert_all (engineered_values (ied_model s)) (insert_all seeded (ied_values s))\<rparr>)"

definition seed_data_sets :: "ied \<Rightarrow> ied" where
  "seed_data_sets s = (let sets = concat (map (\<lambda>ld. concat (map (\<lambda>n. map (\<lambda>ds.
         (ldv_name ld @ ''/'' @ lnd_name n @ ''$'' @ mds_name ds, ldv_name ld, ds)) (lnd_data_sets n)) (ldv_nodes ld)))
         (imo_devices (ied_model s)))
     in s\<lparr>ied_data_sets := fold (\<lambda>(r, ld_name, ds) acc. AList.update r
          \<lparr>sds_reference = r, sds_members = map (\<lambda>m. let r = fcda_reference (ied_model s) ld_name m
             in \<lparr>dsm_reference = r, dsm_leaves = leaves_of s r\<rparr>) (mds_members ds), sds_deletable = False\<rparr> acc)
          sets (ied_data_sets s)\<rparr>)"

section \<open>Control blocks\<close>

text \<open>The components of every kind of block, in the order a client reads them.\<close>

definition rcb_components :: "bool \<Rightarrow> edition \<Rightarrow> (string \<times> btype) list" where
  "rcb_components buffered e =
     [(''RptID'', B_VisString129), (''RptEna'', B_Boolean)] @
     (if \<not> buffered then [(''Resv'', B_Boolean)] else []) @
     [(''DatSet'', B_VisString129), (''ConfRev'', B_Int32U), (''OptFlds'', B_OptFlds), (''BufTm'', B_Int32U),
      (''SqNum'', if buffered then B_Int16U else B_Int8U), (''TrgOps'', B_TrgOps), (''IntgPd'', B_Int32U),
      (''GI'', B_Boolean)] @
     (if buffered then [(''PurgeBuf'', B_Boolean), (''EntryID'', B_EntryID), (''TimeOfEntry'', B_EntryTime)] @
        (if has_rcb_reservation e then [(''ResvTms'', B_Int16)] else []) else []) @
     (if has_rcb_reservation e then [(''Owner'', B_Octet64)] else [])"

definition lcb_components :: "(string \<times> btype) list" where
  "lcb_components = [(''LogEna'', B_Boolean), (''LogRef'', B_VisString129), (''DatSet'', B_VisString129),
     (''OldEntrTm'', B_EntryTime), (''NewEntrTm'', B_EntryTime), (''OldEnt'', B_EntryID), (''NewEnt'', B_EntryID),
     (''TrgOps'', B_TrgOps), (''IntgPd'', B_Int32U)]"

definition sgcb_components :: "(string \<times> btype) list" where
  "sgcb_components = [(''NumOfSG'', B_Int8U), (''ActSG'', B_Int8U), (''EditSG'', B_Int8U), (''CnfEdit'', B_Boolean),
     (''LActTm'', B_EntryTime), (''ResvTms'', B_Int16U)]"

definition gocb_components :: "fc \<Rightarrow> variable list" where
  "gocb_components f = [var_leaf ''GoEna'' (Some f) B_Boolean, var_leaf ''GoID'' (Some f) B_VisString129,
     var_leaf ''DatSet'' (Some f) B_VisString129, var_leaf ''ConfRev'' (Some f) B_Int32U,
     var_leaf ''NdsCom'' (Some f) B_Boolean, phy_com_addr ''DstAddress'' (Some f),
     var_leaf ''MinTime'' (Some f) B_Int32U, var_leaf ''MaxTime'' (Some f) B_Int32U,
     var_leaf ''FixedOffs'' (Some f) B_Boolean]"

definition svcb_fc :: "bool \<Rightarrow> fc" where
  "svcb_fc multicast = (if multicast then Fc_MS else Fc_US)"

definition svcb_components :: "bool \<Rightarrow> variable list" where
  "svcb_components multicast = (let f = Some (svcb_fc multicast) in
     [var_leaf ''SvEna'' f B_Boolean, var_leaf (if multicast then ''MsvID'' else ''UsvID'') f B_VisString129,
      var_leaf ''DatSet'' f B_VisString129, var_leaf ''ConfRev'' f B_Int32U, var_leaf ''SmpRate'' f B_Int32U,
      var_leaf ''OptFlds'' f B_SvOptFlds, var_leaf ''SmpMod'' f B_Enum, phy_com_addr ''DstAddress'' f] @
     (if multicast then [var_leaf ''noASDU'' f B_Int32U] else []))"

definition block_leaves :: "fc \<Rightarrow> (string \<times> btype) list \<Rightarrow> variable list" where
  "block_leaves f components = map (\<lambda>(n, b). var_leaf n (Some f) b) components"

text \<open>The blocks of one logical node, and the variable of each under its functional constraint.\<close>

definition control_blocks :: "string \<Rightarrow> edition \<Rightarrow> logical_node \<Rightarrow> (block \<times> fc \<times> variable) list" where
  "control_blocks ld_name e n =
     (let add = (\<lambda>f name kind kids data_set.
            (\<lparr>blk_reference = ld_name @ ''/'' @ lnd_name n @ ''$'' @ fc_as_str f @ ''$'' @ name, blk_domain = ld_name,
              blk_node = lnd_name n, blk_name = name, blk_kind = kind, blk_data_set = data_set\<rparr>,
             f, Variable name VStructure (Some f) kids));
          set_of = map_option (\<lambda>d. ld_name @ ''/'' @ lnd_name n @ ''$'' @ d)
      in concat (map (\<lambda>r. map (\<lambda>name. add (rcb_fc r) name (if rcb_buffered r then BkBuffered else BkUnbuffered)
            (block_leaves (rcb_fc r) (rcb_components (rcb_buffered r) e)) (set_of (rcb_dat_set r)))
            (rcb_instance_names r)) (lnd_report_controls n)) @
         map (\<lambda>l. add Fc_LG (lcb_name l) BkLog (block_leaves Fc_LG lcb_components) (set_of (lcb_dat_set l))) (lnd_log_controls n) @
         map (\<lambda>g. add Fc_GO (gcb_name g) BkGoose (gocb_components Fc_GO) (set_of (gcb_dat_set g))) (lnd_gse_controls n) @
         map (\<lambda>c. add (svcb_fc (scb_multicast c)) (scb_name c) BkSampledValue (svcb_components (scb_multicast c))
            (set_of (scb_dat_set c))) (lnd_smv_controls n) @
         (if lnd_setting_control n \<noteq> None
          then [add Fc_SP ''SGCB'' BkSettingGroup (block_leaves Fc_SP sgcb_components) None] else []))"

abbreviation entry_time_zero :: data_value where
  "entry_time_zero \<equiv> BinaryTime (et_to_octets \<lparr>millis_of_day = 0, days_since_1984 = 0\<rparr>)"

definition opt_string :: "string option \<Rightarrow> string" where
  "opt_string x = (case x of Some s \<Rightarrow> s | None \<Rightarrow> [])"

definition rcb_defaults :: "report_control \<Rightarrow> string \<Rightarrow> string option \<Rightarrow> edition \<Rightarrow> (string \<times> data_value) list" where
  "rcb_defaults r base data_set e =
     [(''RptID'', VisibleString (case rcb_rpt_id r of Some i \<Rightarrow> i | None \<Rightarrow> base)),
      (''RptEna'', Boolean False),
      (''DatSet'', VisibleString (opt_string data_set)),
      (''ConfRev'', Unsigned (ucast (rcb_conf_rev r))),
      (''OptFlds'', opt_flds_to_value (if rcb_buffered r then rcb_opt_flds r
         else with_entry_id (with_buffer_overflow (rcb_opt_flds r) False) False)),
      (''BufTm'', Unsigned (ucast (rcb_buf_time_ms r))),
      (''SqNum'', Unsigned 0),
      (''TrgOps'', trg_ops_to_value (rcb_trg_ops r)),
      (''IntgPd'', Unsigned (ucast (rcb_intg_pd_ms r))),
      (''GI'', Boolean False)] @
     (if has_rcb_reservation e then [(''Owner'', OctetString [])] else []) @
     (if rcb_buffered r then
        [(''PurgeBuf'', Boolean False), (''EntryID'', OctetString []), (''TimeOfEntry'', entry_time_zero)] @
        (if has_rcb_reservation e then [(''ResvTms'', Integer 0)] else [])
      else [(''Resv'', Boolean False)])"

definition gocb_defaults :: "gse_control \<Rightarrow> string \<Rightarrow> string \<Rightarrow> string \<Rightarrow> (string \<times> data_value) list" where
  "gocb_defaults g base ld n =
     [(''GoEna'', Boolean False),
      (''GoID'', VisibleString (case gcb_go_id g of Some i \<Rightarrow> i | None \<Rightarrow> base)),
      (''DatSet'', VisibleString (case gcb_dat_set g of Some d \<Rightarrow> ld @ ''/'' @ n @ ''$'' @ d | None \<Rightarrow> [])),
      (''ConfRev'', Unsigned (ucast (gcb_conf_rev g))),
      (''NdsCom'', Boolean False),
      (''FixedOffs'', Boolean (gcb_fixed_offs g))] @
     (case gcb_address g of None \<Rightarrow> []
      | Some a \<Rightarrow>
         [(''DstAddress$Addr'', OctetString (ga_mac a)),
          (''DstAddress$PRIORITY'', Unsigned (ucast (ga_vlan_priority a))),
          (''DstAddress$VID'', Unsigned (ucast (ga_vlan_id a))),
          (''DstAddress$APPID'', Unsigned (ucast (ga_appid a))),
          (''MinTime'', Unsigned (ucast (default_to 0 (ga_min_time_ms a)))),
          (''MaxTime'', Unsigned (ucast (default_to 0 (ga_max_time_ms a))))])"

definition svcb_defaults :: "smv_control \<Rightarrow> string \<Rightarrow> string \<Rightarrow> (string \<times> data_value) list" where
  "svcb_defaults c ld n =
     (let smp_mod = (if scb_smp_mod c = ''SmpPerSec'' then 1 else if scb_smp_mod c = ''SecPerSmp'' then 2 else 0) in
     [(''SvEna'', Boolean False),
      (if scb_multicast c then ''MsvID'' else ''UsvID'', VisibleString (scb_smv_id c)),
      (''DatSet'', VisibleString (case scb_dat_set c of Some d \<Rightarrow> ld @ ''/'' @ n @ ''$'' @ d | None \<Rightarrow> [])),
      (''ConfRev'', Unsigned (ucast (scb_conf_rev c))),
      (''SmpRate'', Unsigned (ucast (scb_smp_rate c))),
      (''SmpMod'', Integer smp_mod)] @
     (if scb_multicast c then [(''noASDU'', Unsigned (ucast (scb_nof_asdu c)))] else []) @
     (case scb_address c of None \<Rightarrow> []
      | Some a \<Rightarrow>
         [(''DstAddress$Addr'', OctetString (sad_mac a)),
          (''DstAddress$PRIORITY'', Unsigned (ucast (sad_vlan_priority a))),
          (''DstAddress$VID'', Unsigned (ucast (sad_vlan_id a))),
          (''DstAddress$APPID'', Unsigned (ucast (sad_appid a)))]))"

definition lcb_defaults :: "log_control \<Rightarrow> string \<Rightarrow> string \<Rightarrow> string \<Rightarrow> (string \<times> data_value) list" where
  "lcb_defaults l log ld n =
     [(''LogEna'', Boolean (lcb_log_ena l)),
      (''LogRef'', VisibleString log),
      (''DatSet'', VisibleString (case lcb_dat_set l of Some d \<Rightarrow> ld @ ''/'' @ n @ ''$'' @ d | None \<Rightarrow> [])),
      (''OldEntrTm'', entry_time_zero), (''NewEntrTm'', entry_time_zero),
      (''OldEnt'', OctetString []), (''NewEnt'', OctetString []),
      (''TrgOps'', trg_ops_to_value (lcb_trg_ops l)),
      (''IntgPd'', Unsigned (ucast (lcb_intg_pd_ms l)))]"

definition sgcb_defaults :: "setting_control \<Rightarrow> (string \<times> data_value) list" where
  "sgcb_defaults g =
     [(''NumOfSG'', Unsigned (ucast (sgc_num_of_sgs g))),
      (''ActSG'', Unsigned (ucast (sgc_act_sg g))),
      (''EditSG'', Unsigned 0), (''CnfEdit'', Boolean False), (''LActTm'', entry_time_zero),
      (''ResvTms'', Unsigned (ucast (default_to 0 (sgc_resv_tms g))))]"

definition block_writes :: "string \<Rightarrow> (string \<times> data_value) list \<Rightarrow> (string \<times> data_value) list" where
  "block_writes base attributes = map (\<lambda>(a, v). (base @ ''$'' @ a, v)) attributes"

definition node_block_writes :: "edition \<Rightarrow> logical_device \<Rightarrow> logical_node \<Rightarrow> (string \<times> data_value) list" where
  "node_block_writes e ld n = (let l = ldv_name ld; m = lnd_name n; at = l @ ''/'' @ m @ ''$'' in
     concat (map (\<lambda>r. concat (map (\<lambda>name. let base = at @ fc_as_str (rcb_fc r) @ ''$'' @ name
        in block_writes base (rcb_defaults r base (map_option (\<lambda>d. at @ d) (rcb_dat_set r)) e)) (rcb_instance_names r)))
        (lnd_report_controls n)) @
     concat (map (\<lambda>c. block_writes (at @ ''LG$'' @ lcb_name c) (lcb_defaults c
        ((case lcb_log_ld_inst c of Some i \<Rightarrow> i | None \<Rightarrow> l) @ ''/'' @ m @ ''$'' @ lcb_log_name c) l m)) (lnd_log_controls n)) @
     (case lnd_setting_control n of None \<Rightarrow> [] | Some g \<Rightarrow> block_writes (at @ ''SP$SGCB'') (sgcb_defaults g)) @
     concat (map (\<lambda>g. block_writes (at @ ''GO$'' @ gcb_name g) (gocb_defaults g (at @ ''GO$'' @ gcb_name g) l m))
        (lnd_gse_controls n)) @
     concat (map (\<lambda>c. block_writes (at @ fc_as_str (svcb_fc (scb_multicast c)) @ ''$'' @ scb_name c) (svcb_defaults c l m))
        (lnd_smv_controls n)))"

definition seed_blocks :: "ied \<Rightarrow> ied" where
  "seed_blocks s = s\<lparr>ied_values := insert_all (concat (map (\<lambda>ld. concat (map (node_block_writes (ied_edition s) ld) (ldv_nodes ld)))
       (imo_devices (ied_model s)))) (ied_values s), ied_dirty := []\<rparr>"

definition ied_with_edition :: "ied_model \<Rightarrow> edition \<Rightarrow> ied" where
  "ied_with_edition m e =
     (let cb = (\<lambda>ld n. control_blocks (ldv_name ld) e n);
          s = \<lparr>ied_model = m,
                ied_domains = map (\<lambda>ld. domain_of ld (\<lambda>n. map snd (cb ld n))) (imo_devices m),
                ied_values = Map.empty, ied_data_sets = [],
                ied_blocks = concat (map (\<lambda>ld. concat (map (\<lambda>n. map fst (cb ld n)) (ldv_nodes ld))) (imo_devices m)),
                ied_dirty = [], ied_edition = e\<rparr>
      in seed_blocks (seed_data_sets (seed_values s)))"


section \<open>Typed leaves\<close>

text \<open>The leaves of a subtree with their basic types, and the leaf a full reference is to.\<close>

fun typed_leaves :: "string \<Rightarrow> string \<Rightarrow> variable \<Rightarrow> (string \<times> btype) list" where
  "typed_leaves domain item (Variable name kind fc cs) = (case kind of
     VLeaf b \<Rightarrow> [(reference domain item, b)]
   | VStructure \<Rightarrow> concat (map (\<lambda>c. typed_leaves domain (sub_item item (var_name c)) c) cs)
   | VArray n \<Rightarrow> (case cs of [] \<Rightarrow> []
       | e # _ \<Rightarrow> concat (map (\<lambda>i. typed_leaves domain (with_index item i) e) (indices n))))"

lemma collect_typed_leaves: "collect_leaves domain item v = map fst (typed_leaves domain item v)"
  by (induction domain item v rule: typed_leaves.induct)
    (auto simp: map_concat o_def intro!: arg_cong [of _ _ concat] split: var_kind.splits list.splits)

lemma seed_typed_leaves: "seed_node domain item v = map (\<lambda>(r, b). (r, default_value b)) (typed_leaves domain item v)"
  by (induction domain item v rule: typed_leaves.induct)
    (auto simp: map_concat o_def intro!: arg_cong [of _ _ concat] split: var_kind.splits list.splits)

text \<open>A leaf has no children; an array has one, its element, which is not an array itself.\<close>

fun var_shaped :: "variable \<Rightarrow> bool" where
  "var_shaped (Variable name kind fc cs) \<longleftrightarrow> list_all var_shaped cs \<and>
     (case kind of VLeaf _ \<Rightarrow> cs = [] | VStructure \<Rightarrow> True
      | VArray _ \<Rightarrow> length cs = 1 \<and> list_all (\<lambda>e. array_len e = None) cs)"

text \<open>An index is canonical when it is spelt the way the tree spells it.\<close>

definition canonical_part :: "string \<Rightarrow> bool" where
  "canonical_part p \<longleftrightarrow> (case split_index p of (name, Some i) \<Rightarrow> p = with_index name i | (name, None) \<Rightarrow> True)"

definition canonical_item :: "string \<Rightarrow> bool" where
  "canonical_item item \<longleftrightarrow> list_all canonical_part (item_parts item)"

fun conforms :: "variable \<Rightarrow> data_value \<Rightarrow> bool" where
  "conforms (Variable name kind fc cs) v \<longleftrightarrow> (case kind of
     VLeaf b \<Rightarrow> accepts b v
   | VStructure \<Rightarrow> (\<exists>vs. v = Structure vs \<and> list_all2 conforms cs vs)
   | VArray n \<Rightarrow> (\<exists>vs. v = Array vs \<and> length vs = unat n \<and> list_all (\<lambda>c. list_all (conforms c) vs) cs))"

definition with_suffix :: "string \<Rightarrow> u32 option \<Rightarrow> string" where
  "with_suffix item idx = (case idx of None \<Rightarrow> item | Some i \<Rightarrow> with_index item i)"

definition var_step :: "variable \<Rightarrow> u32 option \<Rightarrow> variable option" where
  "var_step v idx = (case idx of None \<Rightarrow> Some v | Some i \<Rightarrow> var_at v i)"

lemma with_suffix_sub: "with_suffix (sub_item item name) idx = item @ SEP # with_suffix name idx"
  by (cases idx) (simp_all add: with_suffix_def with_index_def)

lemma with_suffix_plain: "plain_name name \<Longrightarrow> SEP \<notin> set (with_suffix name idx)"
  by (cases idx) (auto simp: with_suffix_def with_index_def plain_name_def show_u32_def dest: digit_not show_nat_plain)

lemma split_with_suffix: "plain_name name \<Longrightarrow> split_index (with_suffix name idx) = (name, idx)"
  by (cases idx) (simp_all add: with_suffix_def plain_name_def split_index_with split_index_plain)

lemma resolve_suffix:
  assumes "var_named v" "c \<in> set (var_children v)" "array_len v = None" "var_step c idx = Some w"
  shows "var_resolve v (with_suffix (var_name c) idx # path) = var_resolve w path"
proof -
  have "find (\<lambda>y. var_name y = var_name c) (var_children v) = Some c"
    using assms var_namedD by (intro find_distinct) auto
  moreover have "split_index (with_suffix (var_name c) idx) = (var_name c, idx)"
    using assms var_namedD by (intro split_with_suffix) auto
  ultimately show ?thesis using assms(3,4) by (simp add: var_child_def var_step_def split: option.splits)
qed

lemma index_in: "i \<in> set (indices n) \<longleftrightarrow> i < n"
proof
  assume "i \<in> set (indices n)"
  then obtain k where k: "k < unat n" "i = of_nat k" by auto
  then have "unat i = k" using unat_lt_exp [of n] by (simp add: unat_of_nat)
  then show "i < n" using k(1) by (simp add: word_less_nat_alt)
qed (auto simp: word_less_nat_alt intro!: image_eqI [of _ _ "unat i"])

lemma typed_leaf_path:
  "var_named v \<Longrightarrow> var_shaped v \<Longrightarrow> (r, b) \<in> set (typed_leaves domain item v) \<Longrightarrow>
    \<exists>idx path w l. r = reference domain (path_item (with_suffix item idx) path) \<and> (\<forall>p \<in> set path. SEP \<notin> set p) \<and>
      (idx = None \<longrightarrow> array_len v = None) \<and> var_step v idx = Some w \<and> var_resolve w path = Some l \<and> var_kind l = VLeaf b"
proof (induction domain item v rule: typed_leaves.induct)
  case (1 domain item name kind fc cs)
  let ?v = "Variable name kind fc cs"
  show ?case
  proof (cases kind)
    case (VLeaf b')
    then show ?thesis using "1.prems"(3)
      by (intro exI [of _ None] exI [of _ "[]"] exI [of _ ?v]) (simp add: with_suffix_def var_step_def array_len_def)
  next
    case VStructure
    then obtain c where c: "c \<in> set cs" "(r, b) \<in> set (typed_leaves domain (sub_item item (var_name c)) c)"
      using "1.prems"(3) by auto
    have n: "var_named c" "var_shaped c" using "1.prems"(1,2) c(1) by (simp_all add: list_all_iff)
    obtain idx path w l where p: "r = reference domain (path_item (with_suffix (sub_item item (var_name c)) idx) path)"
      "\<forall>p \<in> set path. SEP \<notin> set p" "var_step c idx = Some w" "var_resolve w path = Some l" "var_kind l = VLeaf b"
      using "1.IH"(1) [OF VStructure c(1) n c(2)] by blast
    have "var_resolve ?v (with_suffix (var_name c) idx # path) = Some l"
      using resolve_suffix [OF "1.prems"(1) _ _ p(3)] c(1) VStructure p(4) by (simp add: array_len_def)
    moreover have "SEP \<notin> set (with_suffix (var_name c) idx)"
      using with_suffix_plain var_namedD [OF n(1)] by blast
    ultimately show ?thesis using p(1,2,5) VStructure
      by (intro exI [of _ None] exI [of _ "with_suffix (var_name c) idx # path"] exI [of _ ?v] exI [of _ l])
        (simp add: with_suffix_sub var_step_def array_len_def with_suffix_def [of item None])
  next
    case (VArray n)
    then obtain e where e: "cs = [e]" "array_len e = None"
      using "1.prems"(2) by (cases cs) auto
    then obtain i where i: "i \<in> set (indices n)" "(r, b) \<in> set (typed_leaves domain (with_index item i) e)"
      using "1.prems"(3) VArray by auto
    have ne: "var_named e" "var_shaped e" using "1.prems"(1,2) e by simp_all
    obtain idx path w l where p: "r = reference domain (path_item (with_suffix (with_index item i) idx) path)"
      "\<forall>p \<in> set path. SEP \<notin> set p" "var_step e idx = Some w" "var_resolve w path = Some l" "var_kind l = VLeaf b"
      using "1.IH"(2) [OF VArray e(1) i(1) ne i(2)] by blast
    have "idx = None" using p(3) e(2) by (cases idx) (auto simp: var_step_def var_at_def)
    moreover have "i < n" using i(1) index_in by blast
    ultimately show ?thesis using p e VArray
      by (intro exI [of _ "Some i"] exI [of _ path] exI [of _ w] exI [of _ l])
        (simp add: with_suffix_def var_step_def var_at_def var_element_def array_len_def)
  qed
qed

lemma resolved_leaves:
  "var_resolve v path = Some w \<Longrightarrow> list_all canonical_part path \<Longrightarrow> var_shaped v \<Longrightarrow>
    set (typed_leaves domain (path_item item path) w) \<subseteq> set (typed_leaves domain item v) \<and> var_shaped w"
proof (induction path arbitrary: v item)
  case (Cons part path)
  obtain name idx where si: "split_index part = (name, idx)" by (cases "split_index part")
  then obtain c n where c: "var_child v name = Some c" and n: "var_step c idx = Some n" and r: "var_resolve n path = Some w"
    using Cons.prems(1) by (auto simp: var_step_def split: bind_splits)
  have part: "part = with_suffix name idx"
    using si Cons.prems(2) by (cases idx) (auto simp: canonical_part_def with_suffix_def split_index_def split: option.splits)
  have cs: "c \<in> set (var_children v)" "var_name c = name" "array_len v = None"
    using var_child_in [OF c] by auto
  have sc: "var_shaped c" using cs(1) Cons.prems(3) by (cases v) (simp add: list_all_iff)
  have sub: "set (typed_leaves domain (sub_item item name) c) \<subseteq> set (typed_leaves domain item v)"
    using cs Cons.prems(3) by (cases v) (auto simp: array_len_def split: var_kind.splits)
  have step: "set (typed_leaves domain (with_suffix (sub_item item name) idx) n) \<subseteq> set (typed_leaves domain (sub_item item name) c) \<and>
      var_shaped n"
  proof (cases idx)
    case None
    then show ?thesis using n sc by (simp add: var_step_def with_suffix_def)
  next
    case (Some i)
    then obtain k e where e: "var_kind c = VArray k" "i < k" "var_children c = [e]" "n = e"
      using n sc by (cases c) (auto simp: var_step_def var_at_def var_element_def array_len_def
        split: bind_splits var_kind.splits if_splits list.splits)
    have "i \<in> set (indices k)" using e(2) index_in by blast
    then have "set (typed_leaves domain (with_index (sub_item item name) i) e) \<subseteq> set (typed_leaves domain (sub_item item name) c)"
      using e(1,3) by (cases c) auto
    then show ?thesis using e sc Some by (cases c) (simp add: with_suffix_def)
  qed
  show ?case
    using Cons.IH [OF r, of "with_suffix (sub_item item name) idx"] Cons.prems(2) step sub part
    by (auto simp: with_suffix_sub)
qed simp


section \<open>The invariant of the values\<close>

text \<open>
  Names are unambiguous, and every leaf of the tree has a value its basic type accepts. Both are
  what \<open>with_edition\<close> builds and what no operation takes away.
\<close>

definition ied_named :: "ied \<Rightarrow> bool" where
  "ied_named s \<longleftrightarrow> distinct (ied_domain_names s) \<and> list_all (\<lambda>d. CHR ''/'' \<notin> set (dmn_name d) \<and> domain_named d \<and>
     list_all (\<lambda>n. var_shaped n \<and> array_len n = None) (dmn_nodes d)) (ied_domains s)"

definition ied_leaves :: "ied \<Rightarrow> (string \<times> btype) list" where
  "ied_leaves s = concat (map (\<lambda>d. concat (map (\<lambda>n. typed_leaves (dmn_name d) (var_name n) n) (dmn_nodes d))) (ied_domains s))"

definition ied_valued :: "ied \<Rightarrow> bool" where
  "ied_valued s \<longleftrightarrow> list_all (\<lambda>(r, b). case ied_values s r of Some v \<Rightarrow> accepts b v | None \<Rightarrow> False) (ied_leaves s)"

definition ied_typed :: "ied \<Rightarrow> bool" where
  "ied_typed s \<longleftrightarrow> ied_named s \<and> ied_valued s"

lemma ied_domain_at: "ied_named s \<Longrightarrow> d \<in> set (ied_domains s) \<Longrightarrow> ied_domain s (dmn_name d) = Some d"
  using find_distinct [of dmn_name "ied_domains s" d] by (simp add: ied_domain_def ied_named_def ied_domain_names_def)

lemma node_at_reference:
  "ied_named s \<Longrightarrow> d \<in> set (ied_domains s) \<Longrightarrow> node_at s (reference (dmn_name d) item) = dmn_resolve d item"
  using ied_domain_at [of s d] by (simp add: node_at_def reference_def ied_named_def list_all_iff split_once_append)

lemma leaf_resolves:
  assumes "ied_named s" "(r, b) \<in> set (ied_leaves s)"
  shows "\<exists>l. node_at s r = Some l \<and> var_kind l = VLeaf b"
proof -
  obtain d n where d: "d \<in> set (ied_domains s)" "n \<in> set (dmn_nodes d)" "(r, b) \<in> set (typed_leaves (dmn_name d) (var_name n) n)"
    using assms(2) by (auto simp: ied_leaves_def)
  have n: "var_named n" "var_shaped n" "array_len n = None" "distinct (map var_name (dmn_nodes d))"
    using assms(1) d(1,2) by (auto simp: ied_named_def domain_named_def list_all_iff)
  obtain idx path w l where p: "r = reference (dmn_name d) (path_item (with_suffix (var_name n) idx) path)"
    "\<forall>p \<in> set path. SEP \<notin> set p" "var_step n idx = Some w" "var_resolve w path = Some l" "var_kind l = VLeaf b"
    using typed_leaf_path [OF n(1,2) d(3)] by blast
  have "idx = None" using p(3) n(3) by (cases idx) (auto simp: var_step_def var_at_def)
  then have w: "w = n" "with_suffix (var_name n) idx = var_name n" using p(3) by (simp_all add: var_step_def with_suffix_def)
  have "item_parts (path_item (var_name n) path) = var_name n # path"
    using p(2) var_namedD [OF n(1)] by (intro item_parts_path) (auto simp: plain_name_def)
  moreover have "dmn_node d (var_name n) = Some n"
    using find_distinct [OF n(4) d(2)] by (simp add: dmn_node_def)
  ultimately have "dmn_resolve d (path_item (var_name n) path) = Some l"
    using p(4) w(1) by (simp add: dmn_resolve_def)
  then show ?thesis using p(1,5) w(2) node_at_reference [OF assms(1) d(1)] by simp
qed

lemma conforming_read:
  "var_shaped v \<Longrightarrow> \<forall>(r, b) \<in> set (typed_leaves domain item v). \<exists>w. vals r = Some w \<and> accepts b w \<Longrightarrow>
    \<exists>w. read_node vals domain item v = Some w \<and> conforms v w"
proof (induction vals domain item v rule: read_node.induct)
  case (1 vals domain item name kind fc cs)
  show ?case
  proof (cases kind)
    case (VLeaf b)
    then show ?thesis using "1.prems"(2) by auto
  next
    case VStructure
    have "\<exists>w. read_node vals domain (sub_item item (var_name c)) c = Some w \<and> conforms c w" if c: "c \<in> set cs" for c
      using "1.prems" c VStructure by (intro "1.IH"(1)) (auto simp: list_all_iff)
    then obtain f where f: "\<And>c. c \<in> set cs \<Longrightarrow> read_node vals domain (sub_item item (var_name c)) c = Some (f c) \<and> conforms c (f c)"
      by metis
    have "those (map (\<lambda>c. read_node vals domain (sub_item item (var_name c)) c) cs) = Some (map f cs)"
      using f by (induction cs) auto
    then show ?thesis using VStructure f by (auto simp: list_all2_map2 intro: list.rel_refl_strong)
  next
    case (VArray n)
    then obtain e where e: "cs = [e]" using "1.prems"(1) by (cases cs) auto
    have "\<exists>w. read_node vals domain (with_index item i) e = Some w \<and> conforms e w" if i: "i \<in> set (indices n)" for i
      using "1.prems" i VArray e by (intro "1.IH"(2) [OF VArray e]) (auto simp: list_all_iff)
    then obtain f where f: "\<And>i. i \<in> set (indices n) \<Longrightarrow> read_node vals domain (with_index item i) e = Some (f i) \<and> conforms e (f i)"
      by metis
    have "those (map (\<lambda>i. read_node vals domain (with_index item i) e) is) = Some (map f is)" if "set is \<subseteq> set (indices n)" for "is"
      using that f by (induction "is") auto
    then have "those (map (\<lambda>i. read_node vals domain (with_index item i) e) (indices n)) = Some (map f (indices n))"
      by blast
    then show ?thesis using VArray e f by (auto simp: list_all_iff)
  qed
qed

lemma typed_read:
  assumes s: "ied_typed s" and d: "ied_domain s domain = Some d" and r: "dmn_resolve d item = Some node"
    and c: "canonical_item item"
  shows "\<exists>v. ied_read s domain item = Some v \<and> conforms node v"
proof -
  have dm: "d \<in> set (ied_domains s)" "dmn_name d = domain" using d by (auto simp: ied_domain_def find_Some_iff)
  obtain p ps where p: "item_parts item = p # ps" by (cases "item_parts item") auto
  obtain n where n: "dmn_node d p = Some n" "var_resolve n ps = Some node"
    using r p by (auto simp: dmn_resolve_def split: bind_splits)
  have nm: "n \<in> set (dmn_nodes d)" "var_name n = p" using n(1) by (auto simp: dmn_node_def find_Some_iff)
  have sh: "var_shaped n" using s dm nm by (auto simp: ied_typed_def ied_named_def list_all_iff)
  have sub: "set (typed_leaves domain item node) \<subseteq> set (typed_leaves domain p n) \<and> var_shaped node"
    using resolved_leaves [OF n(2) _ sh, of domain p] c p path_item_parts [OF p] by (simp add: canonical_item_def)
  moreover have "set (typed_leaves domain p n) \<subseteq> set (ied_leaves s)"
    using dm nm by (auto simp: ied_leaves_def)
  ultimately have "\<forall>(r, b) \<in> set (typed_leaves domain item node). \<exists>w. ied_values s r = Some w \<and> accepts b w"
    using s by (fastforce simp: ied_typed_def ied_valued_def list_all_iff split: option.splits)
  then show ?thesis using conforming_read sub r d by (fastforce simp: ied_read_def)
qed


section \<open>Operations\<close>

lemma ied_leaves_irrelevant [simp]:
  "ied_leaves (s\<lparr>ied_values := m\<rparr>) = ied_leaves s" "ied_leaves (s\<lparr>ied_dirty := q\<rparr>) = ied_leaves s"
  "ied_leaves (s\<lparr>ied_data_sets := ds\<rparr>) = ied_leaves s"
  "ied_named (s\<lparr>ied_values := m\<rparr>) = ied_named s" "ied_named (s\<lparr>ied_dirty := q\<rparr>) = ied_named s"
  "ied_named (s\<lparr>ied_data_sets := ds\<rparr>) = ied_named s"
  by (simp_all add: ied_leaves_def ied_named_def ied_domain_names_def)

lemma ied_typed_irrelevant [simp]:
  "ied_typed (s\<lparr>ied_dirty := q\<rparr>) = ied_typed s" "ied_typed (s\<lparr>ied_data_sets := ds\<rparr>) = ied_typed s"
  by (simp_all add: ied_typed_def ied_valued_def)

lemma typed_update:
  assumes "ied_typed s" "writable_leaf s r v = Inr b"
  shows "ied_typed (s\<lparr>ied_values := (ied_values s)(r \<mapsto> v)\<rparr>)"
proof -
  obtain l where l: "node_at s r = Some l" "var_kind l = VLeaf b" "accepts b v"
    using assms(2) by (auto simp: writable_leaf_def split: option.splits var_kind.splits if_splits)
  have "accepts b' v" if "(r, b') \<in> set (ied_leaves s)" for b'
    using leaf_resolves [OF _ that] assms(1) l by (auto simp: ied_typed_def)
  then show ?thesis using assms(1) by (auto simp: ied_typed_def ied_valued_def list_all_iff)
qed

text \<open>What the engine and the application do with a served IED.\<close>

datatype ied_op = OpWrite string data_value | OpInternal string data_value | OpCreate string "string list"
  | OpDelete string | OpTakeDirty

definition ied_step :: "ied_op \<Rightarrow> ied \<Rightarrow> ied" where
  "ied_step x s = (case x of OpWrite r v \<Rightarrow> snd (write_leaf r v s) | OpInternal r v \<Rightarrow> snd (set_internal r v s)
     | OpCreate r ms \<Rightarrow> snd (create_data_set r ms s) | OpDelete r \<Rightarrow> snd (delete_data_set r s)
     | OpTakeDirty \<Rightarrow> snd (take_dirty s))"

lemma ied_step_typed: "ied_typed s \<Longrightarrow> ied_typed (ied_step x s)"
  by (cases x) (auto simp: ied_step_def write_leaf_def set_internal_def create_data_set_def delete_data_set_def take_dirty_def
    Let_def typed_update split: sum.splits option.splits)

lemma ied_steps_typed: "ied_typed s \<Longrightarrow> ied_typed (fold ied_step xs s)"
  by (induction xs arbitrary: s) (auto simp: ied_step_typed)

lemma ied_step_domains [simp]: "ied_domains (ied_step x s) = ied_domains s"
  by (cases x) (auto simp: ied_step_def write_leaf_def set_internal_def create_data_set_def delete_data_set_def take_dirty_def
    Let_def split: sum.splits option.splits)

lemma ied_steps_domain: "ied_domain (fold ied_step xs s) n = ied_domain s n"
proof -
  have "ied_domains (fold ied_step xs s) = ied_domains s" by (induction xs arbitrary: s) auto
  then show ?thesis by (simp add: ied_domain_def)
qed

text \<open>The default of every basic type is a value of that type, so the seeded tree is typed.\<close>

lemma default_accepted: "accepts b (default_value b)"
  by (cases b) (simp_all add: accepts_def default_value_def value_shapes value_of_quality_def trg_ops_to_value_def
    opt_flds_to_value_def split: prod.splits)

lemma engineered_accepted: "parse_engineered_typed m b i text = Some v \<Longrightarrow> accepts b v"
  by (cases b) (auto simp: accepts_def parse_engineered_typed_def value_shapes)

text \<open>
  C4: reading is total and type-sound. From a typed served IED, whatever sequence of writes, engine
  updates and data-set operations follows, every item a client can name (with its indices spelt the way
  the server spells them) reads as a value, and that value has the shape of the variable it names: a
  structure with its components in model order, an array with all its elements, a leaf of its basic type.
\<close>

theorem reads_are_typed:
  assumes "ied_typed s" "ied_domain s domain = Some d" "dmn_resolve d item = Some node" "canonical_item item"
  shows "\<exists>v. ied_read (fold ied_step ops s) domain item = Some v \<and> conforms node v"
  using typed_read [OF ied_steps_typed [OF assms(1)] _ assms(3,4)] assms(2) by (simp add: ied_steps_domain)


text \<open>A breaker position with its quality under \<open>ST\<close>, a harmonic array under \<open>MX\<close>, one unbuffered report block.\<close>

definition example_report :: report_control where
  "example_report = \<lparr>rcb_name = ''u'', rcb_dat_set = None, rcb_conf_rev = 1, rcb_buffered = False, rcb_rpt_id = None,
          rcb_buf_time_ms = 0, rcb_intg_pd_ms = 0, rcb_max_instances = 1, rcb_indexed = True, rcb_trg_ops = 0, rcb_opt_flds = 0\<rparr>"

definition example_model :: ied_model where
  "example_model = \<lparr>imo_name = ''IED1'', imo_scl_version = [], imo_access_points = [],
     imo_devices = [\<lparr>ldv_inst = ''L'', ldv_name = ''IED1L'', ldv_nodes = [
       \<lparr>lnd_name = ''CSWI1'', lnd_class = ''CSWI'', lnd_type = [],
        lnd_data_objects = [
          DataObject ''Pos'' ''DPC'' [] [DataAttribute ''stVal'' Fc_ST B_Dbpos None [] None [] None,
             DataAttribute ''q'' Fc_ST B_Quality None [] None [] None] [] None,
          DataObject ''Har'' ''HST'' [] [DataAttribute ''ev'' Fc_MX B_Int32 None [] None [] (Some 2)] [] None],
        lnd_data_sets = [], lnd_gse_controls = [], lnd_smv_controls = [],
        lnd_report_controls = [example_report],
        lnd_log_controls = [], lnd_logs = [], lnd_setting_control = None, lnd_inputs = []\<rparr>]\<rparr>],
     imo_enum_types = []\<rparr>"



lemma insert_all_map_of: "insert_all kvs m = m ++ map_of (rev kvs)"
  by (induction kvs arbitrary: m) (auto simp: insert_all_def map_add_assoc [symmetric] fun_upd_def map_add_def
    split: option.splits intro!: ext)

definition model_domains :: "ied_model \<Rightarrow> edition \<Rightarrow> domain list" where
  "model_domains m e = map (\<lambda>ld. domain_of ld (\<lambda>n. map snd (control_blocks (ldv_name ld) e n))) (imo_devices m)"

definition model_values :: "ied_model \<Rightarrow> edition \<Rightarrow> (string \<times> data_value) list" where
  "model_values m e = concat (map (\<lambda>d. concat (map (\<lambda>n. seed_node (dmn_name d) (var_name n) n) (dmn_nodes d))) (model_domains m e)) @
     engineered_values m @ concat (map (\<lambda>ld. concat (map (node_block_writes e ld) (ldv_nodes ld))) (imo_devices m))"

lemma with_edition_domains: "ied_domains (ied_with_edition m e) = model_domains m e"
  by (simp add: ied_with_edition_def seed_blocks_def seed_data_sets_def seed_values_def Let_def model_domains_def)

lemma with_edition_values: "ied_values (ied_with_edition m e) = map_of (rev (model_values m e))"
  by (simp add: ied_with_edition_def seed_blocks_def seed_data_sets_def seed_values_def Let_def model_domains_def
    model_values_def insert_all_map_of)

definition model_typed :: "ied_model \<Rightarrow> edition \<Rightarrow> bool" where
  "model_typed m e \<longleftrightarrow> (let ds = model_domains m e; kvs = rev (model_values m e) in
     distinct (map dmn_name ds) \<and> list_all (\<lambda>d. CHR ''/'' \<notin> set (dmn_name d) \<and> domain_named d \<and>
       list_all (\<lambda>n. var_shaped n \<and> array_len n = None) (dmn_nodes d)) ds \<and>
     list_all (\<lambda>d. list_all (\<lambda>n. list_all (\<lambda>(r, b). case map_of kvs r of Some v \<Rightarrow> accepts b v | None \<Rightarrow> False)
       (typed_leaves (dmn_name d) (var_name n) n)) (dmn_nodes d)) ds)"

lemma model_typed: "model_typed m e \<Longrightarrow> ied_typed (ied_with_edition m e)"
  by (auto simp: ied_typed_def ied_named_def ied_valued_def ied_leaves_def ied_domain_names_def with_edition_domains
    with_edition_values model_typed_def Let_def list_all_iff)


lemma example_blocks:
  "concat (map (\<lambda>ld. concat (map (node_block_writes Ed2 ld) (ldv_nodes ld))) (imo_devices example_model)) =
   block_writes ''IED1L/CSWI1$RP$u01'' (rcb_defaults example_report ''IED1L/CSWI1$RP$u01'' None Ed2)"
proof -
  have "rcb_instance_names example_report = [''u01'']" by code_simp
  moreover have "fc_as_str (rcb_fc example_report) = ''RP''" "rcb_dat_set example_report = None" by code_simp+
  ultimately show ?thesis by (simp add: node_block_writes_def example_model_def Let_def)
qed

definition example_values :: "(string \<times> data_value) list" where
  "example_values = concat (map (\<lambda>d. concat (map (\<lambda>n. seed_node (dmn_name d) (var_name n) n) (dmn_nodes d))) (model_domains example_model Ed2)) @
     block_writes ''IED1L/CSWI1$RP$u01'' (rcb_defaults example_report ''IED1L/CSWI1$RP$u01'' None Ed2)"

lemma example_values: "model_values example_model Ed2 = example_values"
proof -
  have "engineered_values example_model = []" by code_simp
  then show ?thesis by (simp add: model_values_def example_values_def example_blocks)
qed

lemma example_typed: "ied_typed (ied_with_edition example_model Ed2)"
  by (rule model_typed, unfold model_typed_def Let_def example_values) code_simp


lemma example_domain: "ied_domain (ied_with_edition example_model Ed2) ''IED1L'' = Some (hd (model_domains example_model Ed2))"
  by (simp add: ied_domain_def with_edition_domains, simp add: model_domains_def example_model_def domain_of_def)

lemma example_resolves: "dmn_resolve (hd (model_domains example_model Ed2)) ''CSWI1$MX$Har'' =
    Some (var_structure ''Har'' (Some Fc_MX) [var_array ''ev'' (Some Fc_MX) 2 (var_leaf ''ev'' (Some Fc_MX) B_Int32)])"
  by code_simp

theorem reads_are_typed_witness:
  "\<exists>v. ied_read (fold ied_step [OpWrite ''IED1L/CSWI1$MX$Har$ev(1)'' (Integer 7), OpWrite ''IED1L/CSWI1$MX$Har$ev(0)'' (Boolean True)]
      (ied_with_edition example_model Ed2)) ''IED1L'' ''CSWI1$MX$Har'' = Some v \<and>
    conforms (var_structure ''Har'' (Some Fc_MX) [var_array ''ev'' (Some Fc_MX) 2 (var_leaf ''ev'' (Some Fc_MX) B_Int32)]) v"
proof (rule reads_are_typed [OF example_typed example_domain example_resolves])
  show "canonical_item ''CSWI1$MX$Har''" by code_simp
qed

end
