(* ===== verification/Server_Log.thy ===== *)
theory Server_Log
  imports Server_Ied
begin

text \<open>
  Logs, server side (\<open>src/server/log.rs\<close>): the store an entry goes to, behind the contract of the
  \<open>LogStore\<close> trait; the bounded ring in memory that implements it; and the engine over every log
  control block, which decides what is written and keeps \<open>OldEnt\<close> and \<open>NewEnt\<close>.
\<close>

section \<open>Entries and stores\<close>

definition DEFAULT_LOG_CAPACITY :: usize where "DEFAULT_LOG_CAPACITY = 1024"

record entry =
  ent_number :: u64
  ent_occurred :: entry_time
  ent_vals :: "(string \<times> data_value) list"
  ent_reason :: "reason_code option"

record new_entry =
  new_occurred :: entry_time
  new_vals :: "(string \<times> data_value) list"
  new_reason :: "reason_code option"

record log_bounds =
  lbd_oldest :: "u64 \<times> entry_time"
  lbd_newest :: "u64 \<times> entry_time"

text \<open>The order \<open>EntryTime\<close> derives: field by field, in the order the struct declares them.\<close>

definition et_less :: "entry_time \<Rightarrow> entry_time \<Rightarrow> bool" where
  "et_less a b \<longleftrightarrow> millis_of_day a < millis_of_day b \<or> millis_of_day a = millis_of_day b \<and> days_since_1984 a < days_since_1984 b"

definition et_le :: "entry_time \<Rightarrow> entry_time \<Rightarrow> bool" where
  "et_le a b \<longleftrightarrow> et_less a b \<or> a = b"

record journal =
  jrn_entries :: "entry list"
  jrn_next_id :: u64

record memory_log =
  mlg_logs :: "string \<rightharpoonup> journal"
  mlg_capacity :: usize

definition memory_log_new :: "usize \<Rightarrow> memory_log" where
  "memory_log_new capacity = \<lparr>mlg_logs = Map.empty, mlg_capacity = max capacity 1\<rparr>"

definition for_logs :: "string list \<Rightarrow> usize \<Rightarrow> memory_log" where
  "for_logs references capacity = (let store = memory_log_new capacity in
     store\<lparr>mlg_logs := fold (\<lambda>r m. m(r \<mapsto> \<lparr>jrn_entries = [], jrn_next_id = 1\<rparr>)) references (mlg_logs store)\<rparr>)"

definition page :: "entry list \<Rightarrow> usize \<Rightarrow> entry list \<times> bool" where
  "page matching limit = (let limit = max limit 1; more = limit < length matching in (take limit matching, more))"

definition entry_of :: "u64 \<Rightarrow> new_entry \<Rightarrow> entry" where
  "entry_of i e = \<lparr>ent_number = i, ent_occurred = new_occurred e, ent_vals = new_vals e, ent_reason = new_reason e\<rparr>"

definition ml_append :: "string \<Rightarrow> new_entry \<Rightarrow> memory_log \<Rightarrow> log_bounds option \<times> memory_log" where
  "ml_append log e s = (case mlg_logs s log of None \<Rightarrow> (None, s)
   | Some j \<Rightarrow>
      (let entry_id = jrn_next_id j;
           pushed = jrn_entries j @ [entry_of entry_id e];
           kept = (if mlg_capacity s < length pushed then tl pushed else pushed);
           oldest = (case kept of [] \<Rightarrow> (entry_id, new_occurred e) | f # _ \<Rightarrow> (ent_number f, ent_occurred f))
       in (Some \<lparr>lbd_oldest = oldest, lbd_newest = (entry_id, new_occurred e)\<rparr>,
           s\<lparr>mlg_logs := (mlg_logs s)(log \<mapsto> \<lparr>jrn_entries = kept, jrn_next_id = entry_id + 1\<rparr>)\<rparr>)))"

definition in_range :: "entry_time option \<Rightarrow> entry_time option \<Rightarrow> entry \<Rightarrow> bool" where
  "in_range start stop e \<longleftrightarrow> (case start of None \<Rightarrow> True | Some f \<Rightarrow> et_le f (ent_occurred e)) \<and>
     (case stop of None \<Rightarrow> True | Some t \<Rightarrow> et_le (ent_occurred e) t)"

definition ml_by_time :: "memory_log \<Rightarrow> string \<Rightarrow> entry_time option \<Rightarrow> entry_time option \<Rightarrow> usize \<Rightarrow> entry list \<times> bool" where
  "ml_by_time s log start stop limit = (case mlg_logs s log of None \<Rightarrow> ([], False)
   | Some j \<Rightarrow> page (filter (in_range start stop) (jrn_entries j)) limit)"

fun position :: "('a \<Rightarrow> bool) \<Rightarrow> 'a list \<Rightarrow> nat option" where
  "position p [] = None"
| "position p (x # xs) = (if p x then Some 0 else map_option Suc (position p xs))"

definition ml_after_entry :: "memory_log \<Rightarrow> string \<Rightarrow> u64 \<Rightarrow> entry_time \<Rightarrow> usize \<Rightarrow> entry list \<times> bool" where
  "ml_after_entry s log entry_id at limit = (case mlg_logs s log of None \<Rightarrow> ([], False)
   | Some j \<Rightarrow> page (case position (\<lambda>e. ent_number e = entry_id) (jrn_entries j) of
         Some i \<Rightarrow> drop (i + 1) (jrn_entries j)
       | None \<Rightarrow> filter (\<lambda>e. et_less at (ent_occurred e)) (jrn_entries j)) limit)"

definition ml_len :: "memory_log \<Rightarrow> string \<Rightarrow> usize" where
  "ml_len s log = (case mlg_logs s log of None \<Rightarrow> 0 | Some j \<Rightarrow> length (jrn_entries j))"

definition ml_purge :: "string \<Rightarrow> memory_log \<Rightarrow> memory_log" where
  "ml_purge log s = (case mlg_logs s log of None \<Rightarrow> s
   | Some j \<Rightarrow> s\<lparr>mlg_logs := (mlg_logs s)(log \<mapsto> j\<lparr>jrn_entries := []\<rparr>)\<rparr>)"

section \<open>The engine\<close>

text \<open>
  The engine over a store of any kind \<open>'s\<close>: the \<open>Box<dyn LogStore>\<close> of the code. Its operations take the
  store's operation they call.
\<close>

record log_control_of =
  lco_block :: string
  lco_log :: string
  lco_reason_code :: bool

record 's logs =
  lgs_declared :: "string list"
  lgs_controls :: "log_control_of list"
  lgs_store :: 's

definition bool_of :: "data_value \<Rightarrow> bool option" where
  "bool_of v = (case v of Boolean b \<Rightarrow> Some b | _ \<Rightarrow> None)"

definition string_of :: "data_value \<Rightarrow> string option" where
  "string_of v = (case v of VisibleString s \<Rightarrow> if s = [] then None else Some s
     | MmsString s \<Rightarrow> if s = [] then None else Some s | _ \<Rightarrow> None)"

definition block_attribute :: "ied \<Rightarrow> string \<Rightarrow> string \<Rightarrow> data_value option" where
  "block_attribute s blk a = ied_value s (blk @ ''$'' @ a)"

definition records_reason :: "ied_model \<Rightarrow> block \<Rightarrow> bool" where
  "records_reason m b = (case Option.bind (find (\<lambda>ld. ldv_name ld = blk_domain b) (imo_devices m)) (\<lambda>ld.
       Option.bind (find (\<lambda>n. lnd_name n = blk_node b) (ldv_nodes ld)) (\<lambda>n.
       find (\<lambda>l. lcb_name l = blk_name b) (lnd_log_controls n))) of
     Some l \<Rightarrow> lcb_reason_code l | None \<Rightarrow> False)"

definition logs_new :: "ied \<Rightarrow> memory_log logs" where
  "logs_new s =
     (let declared = concat (map (\<lambda>d. map (\<lambda>n. d @ ''/'' @ n) (log_names s d)) (ied_domain_names s));
          controls = List.map_filter (\<lambda>b. if blk_kind b = BkLog
             then map_option (\<lambda>log. \<lparr>lco_block = blk_reference b, lco_log = log, lco_reason_code = records_reason (ied_model s) b\<rparr>)
               (Option.bind (block_attribute s (blk_reference b) ''LogRef'') string_of)
             else None) (ied_blocks s)
      in \<lparr>lgs_declared = declared, lgs_controls = controls, lgs_store = for_logs declared DEFAULT_LOG_CAPACITY\<rparr>)"

definition logs_has :: "'s logs \<Rightarrow> string \<Rightarrow> bool" where
  "logs_has l r \<longleftrightarrow> list_ex (\<lambda>d. d = r) (lgs_declared l)"

definition REASON_NONE :: reason_code where "REASON_NONE = 0"

definition reason_for :: "trg_ops \<Rightarrow> trg_ops \<Rightarrow> reason_code" where
  "reason_for trigger ops =
     (let r = REASON_NONE;
          r = (if trg_data_change trigger \<and> trg_data_change ops then with_data_change r True else r);
          r = (if trg_quality_change trigger \<and> trg_quality_change ops then with_quality_change r True else r)
      in if trg_data_update trigger \<and> trg_data_update ops then with_data_update r True else r)"

definition or_reason :: "reason_code \<Rightarrow> reason_code \<Rightarrow> reason_code" where
  "or_reason a b = trg_ops_from_bit_string (or_octets (snd (trg_ops_to_bit_string a)) (snd (trg_ops_to_bit_string b)))"

text \<open>What one member of a data set has to say: the reasons its leaves were written for.\<close>

definition member_reason :: "(string \<times> trg_ops) list \<Rightarrow> trg_ops \<Rightarrow> data_set_member \<Rightarrow> reason_code" where
  "member_reason dirty ops m = fold (\<lambda>leaf hit. case map_of dirty leaf of
     Some trigger \<Rightarrow> or_reason hit (reason_for trigger ops) | None \<Rightarrow> hit) (dsm_leaves m) REASON_NONE"

definition entry_contents :: "ied \<Rightarrow> (string \<times> trg_ops) list \<Rightarrow> trg_ops \<Rightarrow> data_set_member list
    \<Rightarrow> (string \<times> data_value) list \<times> reason_code" where
  "entry_contents s dirty ops members = fold (\<lambda>m (vals, reason).
     let hit = member_reason dirty ops m
     in if hit \<noteq> REASON_NONE
        then (case read_reference s (dsm_reference m) of
                Some v \<Rightarrow> (vals @ [(dsm_reference m, v)], or_reason reason hit)
              | None \<Rightarrow> (vals, or_reason reason hit))
        else (vals, reason)) members ([], REASON_NONE)"

definition publish_bounds :: "log_bounds \<Rightarrow> string \<Rightarrow> ied \<Rightarrow> ied" where
  "publish_bounds b blk s =
     (let s = snd (set_internal (blk @ ''$OldEnt'') (OctetString (to_be 8 (fst (lbd_oldest b)))) s);
          s = snd (set_internal (blk @ ''$OldEntrTm'') (BinaryTime (et_to_octets (snd (lbd_oldest b)))) s);
          s = snd (set_internal (blk @ ''$NewEnt'') (OctetString (to_be 8 (fst (lbd_newest b)))) s)
      in snd (set_internal (blk @ ''$NewEntrTm'') (BinaryTime (et_to_octets (snd (lbd_newest b)))) s))"

definition logs_append :: "(string \<Rightarrow> new_entry \<Rightarrow> 's \<Rightarrow> log_bounds option \<times> 's) \<Rightarrow> string \<Rightarrow> new_entry
    \<Rightarrow> 's logs \<times> ied \<Rightarrow> 's logs \<times> ied" where
  "logs_append put log e st = (case st of (l, s) \<Rightarrow> (case put log e (lgs_store l) of
     (None, store) \<Rightarrow> (l\<lparr>lgs_store := store\<rparr>, s)
   | (Some b, store) \<Rightarrow> (l\<lparr>lgs_store := store\<rparr>,
       fold (\<lambda>c s. if lco_log c \<noteq> log then s else publish_bounds b (lco_block c) s) (lgs_controls l) s)))"

definition commit_control :: "(string \<Rightarrow> new_entry \<Rightarrow> 's \<Rightarrow> log_bounds option \<times> 's) \<Rightarrow> (string \<times> trg_ops) list \<Rightarrow> entry_time
    \<Rightarrow> log_control_of \<Rightarrow> 's logs \<times> ied \<Rightarrow> 's logs \<times> ied" where
  "commit_control put dirty wall c st = (let s = snd st in
     if (case Option.bind (block_attribute s (lco_block c) ''LogEna'') bool_of of Some on \<Rightarrow> \<not> on | None \<Rightarrow> True) then st
     else (case Option.bind (block_attribute s (lco_block c) ''DatSet'') string_of of None \<Rightarrow> st
     | Some data_set \<Rightarrow> (case ied_data_set s data_set of None \<Rightarrow> st
     | Some ds \<Rightarrow>
         (let ops = (case Option.bind (block_attribute s (lco_block c) ''TrgOps'') trg_ops_from_value of
                       Some t \<Rightarrow> t | None \<Rightarrow> TRG_NONE);
              (vals, reason) = entry_contents s dirty ops (sds_members ds)
          in if vals = [] then st
             else logs_append put (lco_log c)
               \<lparr>new_occurred = wall, new_vals = vals, new_reason = (if lco_reason_code c then Some reason else None)\<rparr> st))))"

definition logs_commit :: "(string \<Rightarrow> new_entry \<Rightarrow> 's \<Rightarrow> log_bounds option \<times> 's) \<Rightarrow> (string \<times> trg_ops) list \<Rightarrow> entry_time
    \<Rightarrow> 's logs \<times> ied \<Rightarrow> 's logs \<times> ied" where
  "logs_commit put dirty wall st = fold (commit_control put dirty wall) (lgs_controls (fst st)) st"

definition logs_len :: "('s \<Rightarrow> string \<Rightarrow> usize) \<Rightarrow> 's logs \<Rightarrow> string \<Rightarrow> usize" where
  "logs_len len l r = len (lgs_store l) r"

definition logs_by_time :: "('s \<Rightarrow> string \<Rightarrow> entry_time option \<Rightarrow> entry_time option \<Rightarrow> usize \<Rightarrow> entry list \<times> bool) \<Rightarrow> 's logs \<Rightarrow> string
    \<Rightarrow> entry_time option \<Rightarrow> entry_time option \<Rightarrow> usize \<Rightarrow> entry list \<times> bool" where
  "logs_by_time by_time l r start stop limit =
     (if \<not> logs_has l r then ([], False) else by_time (lgs_store l) r start stop limit)"

definition logs_after_entry :: "('s \<Rightarrow> string \<Rightarrow> u64 \<Rightarrow> entry_time \<Rightarrow> usize \<Rightarrow> entry list \<times> bool) \<Rightarrow> 's logs \<Rightarrow> string
    \<Rightarrow> u64 \<Rightarrow> entry_time \<Rightarrow> usize \<Rightarrow> entry list \<times> bool" where
  "logs_after_entry after_entry l r entry_id at limit =
     (if \<not> logs_has l r then ([], False) else after_entry (lgs_store l) r entry_id at limit)"


section \<open>The contract of a store\<close>

text \<open>
  What the engine and its clients rely on: a store reports the first and last entry it holds, the two
  queries page through what is held, and a log is only touched by its own operations.
\<close>

definition entry_key :: "entry \<Rightarrow> u64 \<times> entry_time" where
  "entry_key e = (ent_number e, ent_occurred e)"

definition bounds_of :: "entry list \<Rightarrow> log_bounds" where
  "bounds_of es = \<lparr>lbd_oldest = entry_key (hd es), lbd_newest = entry_key (List.last es)\<rparr>"

locale log_store =
  fixes put :: "string \<Rightarrow> new_entry \<Rightarrow> 's \<Rightarrow> log_bounds option \<times> 's"
    and by_time :: "'s \<Rightarrow> string \<Rightarrow> entry_time option \<Rightarrow> entry_time option \<Rightarrow> usize \<Rightarrow> entry list \<times> bool"
    and after_entry :: "'s \<Rightarrow> string \<Rightarrow> u64 \<Rightarrow> entry_time \<Rightarrow> usize \<Rightarrow> entry list \<times> bool"
    and contents :: "'s \<Rightarrow> string \<Rightarrow> entry list option"
    and ok :: "'s \<Rightarrow> bool"
  assumes put_held: "ok s \<Longrightarrow> contents s log = Some es \<Longrightarrow> \<exists>es' s' e'. put log e s = (Some (bounds_of es'), s') \<and>
        contents s' log = Some es' \<and> es' \<noteq> [] \<and> List.last es' = e' \<and> ent_vals e' = new_vals e \<and> ent_occurred e' = new_occurred e"
    and put_absent: "contents s log = None \<Longrightarrow> put log e s = (None, s)"
    and put_other: "put log e s = (b, s') \<Longrightarrow> log' \<noteq> log \<Longrightarrow> contents s' log' = contents s log'"
    and put_ok: "ok s \<Longrightarrow> put log e s = (b, s') \<Longrightarrow> ok s'"
    and by_time_held: "contents s log = Some es \<Longrightarrow> by_time s log start stop limit = page (filter (in_range start stop) es) limit"
    and after_held: "contents s log = Some es \<Longrightarrow> position (\<lambda>e. ent_number e = i) es = Some k \<Longrightarrow>
        after_entry s log i at limit = page (drop (k + 1) es) limit"
begin

text \<open>An append is either recorded with its bounds or leaves the engine and the model alone.\<close>

lemma logs_append_absent: "contents (lgs_store l) log = None \<Longrightarrow> logs_append put log e (l, s) = (l, s)"
  by (simp add: logs_append_def put_absent)

lemma logs_append_held:
  assumes "ok (lgs_store l)" "contents (lgs_store l) log = Some es" "logs_append put log e (l, s) = (l', s')"
  shows "\<exists>es'. contents (lgs_store l') log = Some es' \<and> es' \<noteq> [] \<and> ent_vals (List.last es') = new_vals e \<and>
    s' = fold (\<lambda>c s. if lco_log c \<noteq> log then s else publish_bounds (bounds_of es') (lco_block c) s) (lgs_controls l) s"
proof -
  obtain es' st' where p: "put log e (lgs_store l) = (Some (bounds_of es'), st')" "contents st' log = Some es'" "es' \<noteq> []"
    "ent_vals (List.last es') = new_vals e"
    using put_held [OF assms(1,2)] by metis
  then show ?thesis using assms(3) by (auto simp: logs_append_def)
qed

end

section \<open>The ring in memory\<close>

definition keep_newest :: "nat \<Rightarrow> 'a list \<Rightarrow> 'a list" where
  "keep_newest n xs = drop (length xs - n) xs"

lemma keep_newest_snoc:
  "0 < n \<Longrightarrow> keep_newest n (xs @ [x]) =
    (let ys = keep_newest n xs @ [x] in if n < length ys then tl ys else ys)"
proof (cases "n \<le> length xs")
  case True
  assume n: "0 < n"
  have "drop (Suc (length xs - n)) xs = tl (drop (length xs - n) xs)" by (simp add: drop_Suc tl_drop)
  moreover have "drop (length xs - n) xs \<noteq> []" using n True by (simp; arith)
  ultimately show ?thesis using n True by (simp add: keep_newest_def Let_def Suc_diff_le)
qed (simp add: keep_newest_def Let_def)

definition ml_contents :: "memory_log \<Rightarrow> string \<Rightarrow> entry list option" where
  "ml_contents s r = map_option jrn_entries (mlg_logs s r)"

definition ml_ok :: "memory_log \<Rightarrow> bool" where
  "ml_ok s \<longleftrightarrow> 0 < mlg_capacity s"

interpretation ml: log_store ml_append ml_by_time ml_after_entry ml_contents ml_ok
proof (unfold_locales, goal_cases)
  case (1 s log es e)
  then obtain j where j: "mlg_logs s log = Some j" "es = jrn_entries j" by (auto simp: ml_contents_def)
  let ?x = "entry_of (jrn_next_id j) e"
  let ?k = "if mlg_capacity s < length (es @ [?x]) then tl (es @ [?x]) else es @ [?x]"
  have k: "?k \<noteq> []" "List.last ?k = ?x"
    using 1 by (cases es; auto simp: ml_ok_def)+
  then show ?case
    by (intro exI [of _ ?k]) (cases ?k; auto simp: ml_append_def Let_def j ml_contents_def bounds_of_def entry_key_def entry_of_def)
next
  case 2
  then show ?case by (simp add: ml_append_def ml_contents_def)
next
  case 3
  then show ?case by (auto simp: ml_append_def ml_contents_def Let_def split: option.splits)
next
  case 4
  then show ?case by (auto simp: ml_append_def ml_ok_def Let_def split: option.splits)
next
  case 5
  then show ?case by (auto simp: ml_by_time_def ml_contents_def)
next
  case 6
  then show ?case by (auto simp: ml_after_entry_def ml_contents_def)
qed

text \<open>The abstract log: every entry since the last purge, numbered by how many came before it.\<close>

datatype log_op = LogAppend string new_entry | LogPurge string

definition ml_step :: "log_op \<Rightarrow> memory_log \<Rightarrow> memory_log" where
  "ml_step x s = (case x of LogAppend r e \<Rightarrow> snd (ml_append r e s) | LogPurge r \<Rightarrow> ml_purge r s)"

definition history_step :: "string \<Rightarrow> log_op \<Rightarrow> entry list \<times> nat \<Rightarrow> entry list \<times> nat" where
  "history_step r x h = (case h of (es, n) \<Rightarrow> (case x of
     LogAppend r' e \<Rightarrow> if r' = r then (es @ [entry_of (of_nat (n + 1)) e], n + 1) else (es, n)
   | LogPurge r' \<Rightarrow> if r' = r then ([], n) else (es, n)))"

definition log_history :: "string \<Rightarrow> log_op list \<Rightarrow> entry list \<times> nat" where
  "log_history r ops = fold (history_step r) ops ([], 0)"

definition ring_of :: "nat \<Rightarrow> entry list \<times> nat \<Rightarrow> journal" where
  "ring_of c h = \<lparr>jrn_entries = keep_newest c (fst h), jrn_next_id = of_nat (snd h + 1)\<rparr>"

lemma ml_step_refines:
  assumes "mlg_capacity s = c" "0 < c" "mlg_logs s r = Some (ring_of c h)"
  shows "mlg_logs (ml_step x s) r = Some (ring_of c (history_step r x h)) \<and> mlg_capacity (ml_step x s) = c"
proof -
  obtain es n where h: "h = (es, n)" by (cases h)
  show ?thesis
  proof (cases x)
    case (LogAppend r' e)
    then show ?thesis
      using assms keep_newest_snoc [OF assms(2), of es "entry_of (1 + of_nat n) e"]
      by (auto simp: ml_step_def ml_append_def ring_of_def history_step_def h Let_def ac_simps split: option.split)
  next
    case (LogPurge r')
    then show ?thesis using assms by (auto simp: ml_step_def ml_purge_def ring_of_def history_step_def h keep_newest_def split: option.split)
  qed
qed

lemma ml_step_absent: "mlg_logs s r = None \<Longrightarrow> mlg_logs (ml_step x s) r = None"
  by (cases x) (auto simp: ml_step_def ml_append_def ml_purge_def Let_def split: option.splits)

lemma for_logs_fold:
  "fold (\<lambda>r m. m(r \<mapsto> j)) rs m r = (if r \<in> set rs then Some j else m r)"
  by (induction rs arbitrary: m) auto

lemma for_logs_start:
  "mlg_logs (for_logs refs c) r = (if r \<in> set refs then Some (ring_of (max c 1) ([], 0)) else None)"
  "mlg_capacity (for_logs refs c) = max c 1"
  by (simp_all add: for_logs_def memory_log_new_def Let_def for_logs_fold ring_of_def keep_newest_def)

lemma ml_steps_refine:
  assumes "mlg_capacity s = c" "0 < c" "mlg_logs s r = Some (ring_of c h)"
  shows "mlg_logs (fold ml_step ops s) r = Some (ring_of c (fold (history_step r) ops h)) \<and> mlg_capacity (fold ml_step ops s) = c"
  using assms
proof (induction ops arbitrary: s h)
  case (Cons x ops)
  then show ?case using ml_step_refines [OF Cons.prems, of x] by simp
qed simp

lemma ml_steps_absent: "mlg_logs s r = None \<Longrightarrow> mlg_logs (fold ml_step ops s) r = None"
  by (induction ops arbitrary: s) (auto simp: ml_step_absent)

lemma history_numbers:
  "snd (log_history r ops) \<le> length ops \<and> length (fst (log_history r ops)) \<le> snd (log_history r ops) \<and>
   map ent_number (fst (log_history r ops)) =
     map of_nat [snd (log_history r ops) - length (fst (log_history r ops)) + 1..<snd (log_history r ops) + 1]"
proof (induction ops rule: rev_induct)
  case (snoc x ops)
  obtain es n where h: "log_history r ops = (es, n)" by (cases "log_history r ops")
  then have "log_history r (ops @ [x]) = history_step r x (es, n)" by (simp add: log_history_def)
  then show ?case using snoc h
    by (cases x) (auto simp: history_step_def entry_of_def upt_Suc_append split: if_splits)
qed (simp add: log_history_def)

lemma increasing_numbers: "b < 2 ^ 64 \<Longrightarrow> sorted_wrt (<) (map (of_nat :: nat \<Rightarrow> u64) [a..<b + 1])"
  by (auto simp: sorted_wrt_iff_nth_less word_less_nat_alt unat_of_nat of_nat_add [symmetric] simp del: upt_Suc of_nat_add)

lemma sorted_wrt_dropped: "sorted_wrt R xs \<Longrightarrow> sorted_wrt R (drop n xs)"
  by (metis append_take_drop_id sorted_wrt_append)

lemma history_increasing:
  assumes "length ops < 2 ^ 64"
  shows "sorted_wrt (<) (map ent_number (fst (log_history r ops)))"
  using history_numbers [of r ops] increasing_numbers [of "snd (log_history r ops)"] assms
  by (simp del: upt_Suc)

text \<open>
  C15: the memory store refines the unbounded log. After any appends and purges, a log the model declares
  holds exactly the newest \<open>capacity\<close> entries of its full history (at least one), numbered from 1 by
  the count of all appends, purged or dropped ones included, so their EntryIDs increase strictly (for
  fewer than \<open>2 ^ 64\<close> operations); the bounds the next append reports are those of the entries then held;
  and a log the model does not declare never appears.
\<close>

theorem memory_log_refines:
  assumes "length ops < 2 ^ 64"
  shows "let s = fold ml_step ops (for_logs refs c); h = log_history r ops in
    (r \<notin> set refs \<longrightarrow> ml_contents s r = None \<and> fst (ml_append r e s) = None) \<and>
    (r \<in> set refs \<longrightarrow> ml_contents s r = Some (keep_newest (max c 1) (fst h)) \<and>
      sorted_wrt (<) (map ent_number (keep_newest (max c 1) (fst h))) \<and>
      fst (ml_append r e s) = Some (bounds_of (keep_newest (max c 1) (fst (history_step r (LogAppend r e) h)))))"
proof -
  let ?s = "fold ml_step ops (for_logs refs c)" and ?h = "log_history r ops" and ?c = "max c 1"
  have "ml_contents ?s r = None \<and> fst (ml_append r e ?s) = None" if "r \<notin> set refs"
    using ml_steps_absent [of "for_logs refs c" r ops] that ml.put_absent [of ?s r e]
    by (simp add: for_logs_start ml_contents_def)
  moreover have "ml_contents ?s r = Some (keep_newest ?c (fst ?h)) \<and>
      fst (ml_append r e ?s) = Some (bounds_of (keep_newest ?c (fst (history_step r (LogAppend r e) ?h))))" if "r \<in> set refs"
  proof -
    have s: "mlg_logs ?s r = Some (ring_of ?c ?h)" "mlg_capacity ?s = ?c"
      using ml_steps_refine [of "for_logs refs c" ?c r "([], 0)" ops] that
      by (simp_all add: for_logs_start log_history_def)
    have c: "ml_contents ?s r = Some (keep_newest ?c (fst ?h))" using s(1) by (simp add: ml_contents_def ring_of_def)
    obtain es' s' where p: "ml_append r e ?s = (Some (bounds_of es'), s')" "ml_contents s' r = Some es'"
      using ml.put_held [OF _ c, of e] s(2) by (auto simp: ml_ok_def less_max_iff_disj)
    have "ml_contents s' r = Some (keep_newest ?c (fst (history_step r (LogAppend r e) ?h)))"
      using ml_step_refines [OF s(2) _ s(1), of "LogAppend r e"] p(1) by (simp add: less_max_iff_disj ml_step_def ml_contents_def ring_of_def)
    then show ?thesis using p c by simp
  qed
  moreover have "sorted_wrt (<) (map ent_number (keep_newest ?c (fst ?h)))"
    using history_increasing [OF assms, of r] sorted_wrt_dropped by (simp add: keep_newest_def drop_map [symmetric])
  ultimately show ?thesis by (simp add: Let_def)
qed

definition sample_entry :: "u32 \<Rightarrow> new_entry" where
  "sample_entry ms = \<lparr>new_occurred = \<lparr>millis_of_day = ms, days_since_1984 = 1\<rparr>, new_vals = [], new_reason = None\<rparr>"

theorem memory_log_refines_witness:
  "let s = fold ml_step [LogAppend ''L'' (sample_entry 1), LogAppend ''L'' (sample_entry 2), LogAppend ''L'' (sample_entry 3)]
       (for_logs [''L''] 2)
   in map_option (map ent_number) (ml_contents s ''L'') = Some [2, 3]"
proof -
  let ?ops = "[LogAppend ''L'' (sample_entry 1), LogAppend ''L'' (sample_entry 2), LogAppend ''L'' (sample_entry 3)]"
  have "ml_contents (fold ml_step ?ops (for_logs [''L''] 2)) ''L'' = Some (keep_newest (max 2 1) (fst (log_history ''L'' ?ops)))"
    using memory_log_refines [of ?ops "[''L'']" 2 "''L''" "sample_entry 4"] by (simp add: Let_def)
  then show ?thesis
    by (simp add: Let_def log_history_def history_step_def keep_newest_def entry_of_def)
qed

section \<open>Queries by time\<close>

lemma page_subset: "set (fst (page es n)) \<subseteq> set es"
  by (auto simp: page_def Let_def dest: in_set_takeD)

text \<open>
  C27: \<open>QueryLogByTime\<close> leaves out entries that lie in the range. Times are compared by time of day
  before the day, so an entry of a later day made at an earlier time of day than the start is after the
  start, and before the largest time a client can name, and is still in no answer, whatever the limit.
\<close>

theorem by_time_misses_later_days:
  assumes "ml_contents s r = Some es" "e \<in> set es"
    and "days_since_1984 start < days_since_1984 (ent_occurred e)" "millis_of_day (ent_occurred e) < millis_of_day start"
    and "millis_of_day start < 86400000"
  shows "et_to_unix_millis start < et_to_unix_millis (ent_occurred e) \<and>
    et_to_unix_millis (ent_occurred e) \<le> et_to_unix_millis ENTRY_TIME_MAX \<and>
    e \<notin> set (fst (ml_by_time s r (Some start) (Some ENTRY_TIME_MAX) limit))"
proof (intro conjI)
  let ?d = "unat (days_since_1984 start)" and ?d' = "unat (days_since_1984 (ent_occurred e))"
  have d: "Suc ?d \<le> ?d'" "?d' < 2 ^ 16" using assms(3) unat_lt_exp [of "days_since_1984 (ent_occurred e)"]
    by (simp_all add: word_less_nat_alt)
  have m: "unat (millis_of_day start) < 86400000" "unat (millis_of_day (ent_occurred e)) < 86400000"
    using assms(4,5) by (simp_all add: word_less_nat_alt)
  have "(?d + 5113) * 86400000 + 86400000 \<le> (?d' + 5113) * 86400000"
    using mult_le_mono1 [of "?d + 5113 + 1" "?d' + 5113" 86400000] d(1) by simp
  then show "et_to_unix_millis start < et_to_unix_millis (ent_occurred e)"
    using m(1) by (simp add: word_less_nat_alt unat_et_to_unix_millis)
  show "et_to_unix_millis (ent_occurred e) \<le> et_to_unix_millis ENTRY_TIME_MAX"
    using d(2) m(2) by (simp add: word_le_nat_alt unat_et_to_unix_millis ENTRY_TIME_MAX_def)
  show "e \<notin> set (fst (ml_by_time s r (Some start) (Some ENTRY_TIME_MAX) limit))"
    using assms(1,4) page_subset by (force simp: ml.by_time_held in_range_def et_le_def et_less_def)
qed

text \<open>A start at eleven in the evening and an entry one hour past the next midnight.\<close>

theorem by_time_misses_later_days_witness:
  "let start = \<lparr>millis_of_day = 82800000, days_since_1984 = 15000\<rparr>;
       e = entry_of 1 \<lparr>new_occurred = \<lparr>millis_of_day = 3600000, days_since_1984 = 15001\<rparr>, new_vals = [], new_reason = None\<rparr>;
       s = \<lparr>mlg_logs = [''L'' \<mapsto> \<lparr>jrn_entries = [e], jrn_next_id = 2\<rparr>], mlg_capacity = 8\<rparr>
   in et_to_unix_millis start < et_to_unix_millis (ent_occurred e) \<and>
      e \<notin> set (fst (ml_by_time s ''L'' (Some start) (Some ENTRY_TIME_MAX) 8))"
proof -
  let ?start = "\<lparr>millis_of_day = 82800000, days_since_1984 = 15000\<rparr> :: entry_time"
  let ?e = "entry_of 1 \<lparr>new_occurred = \<lparr>millis_of_day = 3600000, days_since_1984 = 15001\<rparr>, new_vals = [], new_reason = None\<rparr>"
  let ?s = "\<lparr>mlg_logs = [''L'' \<mapsto> \<lparr>jrn_entries = [?e], jrn_next_id = 2\<rparr>], mlg_capacity = 8\<rparr> :: memory_log"
  have "ml_contents ?s ''L'' = Some [?e]" by (simp add: ml_contents_def)
  from by_time_misses_later_days [OF this, of ?e ?start 8] show ?thesis by (simp add: Let_def entry_of_def)
qed

end
