(* ===== verification/Paging.thy ===== *)
theory Paging
  imports Server_Log
begin

text \<open>
  Answers in pages, and the clients that put them together: \<open>GetNameList\<close> (\<open>Answer::from_page\<close> of
  \<open>src/server/acsi.rs\<close>, \<open>Client::name_list\<close> of \<open>src/client/mod.rs\<close>) and \<open>ReadJournal\<close>
  (\<open>Acsi::read_journal\<close>, \<open>Client::read_whole_log\<close> of \<open>src/client/log.rs\<close>). One exchange over the
  association is a parameter of the client's loops: a function of the peer's state and the request.
\<close>

section \<open>A page of names\<close>

definition page_budget :: "usize \<Rightarrow> usize" where
  "page_budget max_pdu = max 200 (min 60000 (max_pdu - 100))"

text \<open>The names that fit, and whether names are left over; at least one name is always taken.\<close>

fun take_names :: "string list \<Rightarrow> string list \<Rightarrow> nat \<Rightarrow> usize \<Rightarrow> string list \<times> bool" where
  "take_names [] names used budget = (names, False)"
| "take_names (name # rest) names used budget =
     (let cost = length name + 2
      in if names \<noteq> [] \<and> budget < used + cost then (names, True)
         else take_names rest (names @ [name]) (used + cost) budget)"

definition from_page :: "string list \<Rightarrow> string option \<Rightarrow> usize \<Rightarrow> string list \<times> bool" where
  "from_page all after budget = (case after of
     None \<Rightarrow> take_names (drop 0 all) [] 0 budget
   | Some name \<Rightarrow> (case position (\<lambda>n. n = name) all of
       Some i \<Rightarrow> take_names (drop (i + 1) all) [] 0 budget
     | None \<Rightarrow> ([], False)))"

section \<open>The client's loop over the pages\<close>

type_synonym 'p name_fetch = "'p \<Rightarrow> string option \<Rightarrow> (string list \<times> bool) result \<times> 'p"

partial_function (option) name_list_from :: "'p name_fetch \<Rightarrow> usize \<Rightarrow> 'p \<Rightarrow> string list \<Rightarrow> string list result option" where
  "name_list_from fetch limit peer out =
     (case fetch peer (if out = [] then None else Some (List.last out)) of (answer, peer) \<Rightarrow>
       (case answer of Inl e \<Rightarrow> Some (Inl e)
        | Inr answered \<Rightarrow> (case answered of (ids, more_follows) \<Rightarrow>
            (let out' = out @ ids
             in if \<not> more_follows \<or> ids = [] then Some (Inr out')
                else if limit < length out' then Some (Inl (LimitExceeded ''GetNameList continuations'' (length out')))
                else name_list_from fetch limit peer out'))))"

definition name_list :: "limits \<Rightarrow> 'p name_fetch \<Rightarrow> 'p \<Rightarrow> string list result option" where
  "name_list limits fetch peer = name_list_from fetch (max_dataset_members limits * 64) peer []"


section \<open>Journals\<close>

record time_of_day =
  tod_time :: entry_time
  tod_dated :: bool

definition tod_of :: "entry_time \<Rightarrow> time_of_day" where
  "tod_of t = \<lparr>tod_time = t, tod_dated = True\<rparr>"

definition tod_to_octets :: "time_of_day \<Rightarrow> bytes" where
  "tod_to_octets t = (let six = et_to_octets (tod_time t) in if tod_dated t then six else take 4 six)"

definition tod_from_octets :: "bytes \<Rightarrow> time_of_day result" where
  "tod_from_octets bs =
     (if length bs = 4 then Inr \<lparr>tod_time = \<lparr>millis_of_day = from_be bs, days_since_1984 = 0\<rparr>, tod_dated = False\<rparr>
      else if length bs = 6 then Inr (tod_of (et_from_octets bs)) else Inl (Decode BadValue 0))"

datatype range_start = RsTime time_of_day | RsEntry bytes
datatype range_stop = StopTime time_of_day | StopCount i32

record after_entry =
  aft_time :: time_of_day
  aft_entry_id :: bytes

record read_journal =
  rj_name :: "object_name option"
  rj_start :: "range_start option"
  rj_stop :: "range_stop option"
  rj_variables :: "string list"
  rj_after :: "after_entry option"

definition rj_by_time :: "object_name \<Rightarrow> time_of_day \<Rightarrow> time_of_day option \<Rightarrow> read_journal" where
  "rj_by_time name start stop = \<lparr>rj_name = Some name, rj_start = Some (RsTime start), rj_stop = map_option StopTime stop,
     rj_variables = [], rj_after = None\<rparr>"

definition rj_after_entry :: "object_name \<Rightarrow> after_entry \<Rightarrow> read_journal" where
  "rj_after_entry name after = \<lparr>rj_name = Some name, rj_start = None, rj_stop = None, rj_variables = [], rj_after = Some after\<rparr>"

definition id_of_octets :: "bytes \<Rightarrow> u64" where
  "id_of_octets bs = (if length bs = 8 then from_be bs else 0)"

definition ERROR_CLASS_ACCESS :: u32 where "ERROR_CLASS_ACCESS = 7"

text \<open>\<open>Acsi::read_journal\<close> over any store: a page of entries, or the error class and code.\<close>

definition serve_journal :: "('s \<Rightarrow> string \<Rightarrow> entry_time option \<Rightarrow> entry_time option \<Rightarrow> usize \<Rightarrow> entry list \<times> bool)
    \<Rightarrow> ('s \<Rightarrow> string \<Rightarrow> u64 \<Rightarrow> entry_time \<Rightarrow> usize \<Rightarrow> entry list \<times> bool)
    \<Rightarrow> 's logs \<Rightarrow> usize \<Rightarrow> read_journal \<Rightarrow> (u32 \<times> i64) + (entry list \<times> bool)" where
  "serve_journal by_time after_entry l limit req = (case rj_name req of
     Some (DomainSpecific d item) \<Rightarrow> (let r = d @ ''/'' @ item in
       if \<not> logs_has l r then Inl (ERROR_CLASS_ACCESS, DATA_ACCESS_NON_EXISTENT)
       else Inr (case (rj_after req, rj_start req) of
           (Some after, _) \<Rightarrow> logs_after_entry after_entry l r (id_of_octets (aft_entry_id after)) (tod_time (aft_time after)) limit
         | (None, Some (RsEntry i)) \<Rightarrow> logs_after_entry after_entry l r (id_of_octets i) \<lparr>millis_of_day = 0, days_since_1984 = 0\<rparr> limit
         | (None, start) \<Rightarrow> logs_by_time by_time l r
             (case start of Some (RsTime t) \<Rightarrow> Some (tod_time t) | _ \<Rightarrow> None)
             (case rj_stop req of Some (StopTime t) \<Rightarrow> Some (tod_time t) | _ \<Rightarrow> None) limit))
   | _ \<Rightarrow> Inl (ERROR_CLASS_ACCESS, DATA_ACCESS_NON_EXISTENT))"

text \<open>
  What an entry is on the wire: its values, and its reason as one more variable under a reserved tag;
  and what the client makes of it.
\<close>

definition REASON_CODE_TAG :: string where "REASON_CODE_TAG = ''ReasonCode''"

record journal_entry =
  jre_entry_id :: bytes
  jre_occurred :: time_of_day
  jre_variables :: "(string \<times> data_value) list"
  jre_annotation :: "string option"

definition journal_entry_of :: "entry \<Rightarrow> journal_entry" where
  "journal_entry_of e = \<lparr>jre_entry_id = to_be 8 (ent_number e), jre_occurred = tod_of (ent_occurred e),
     jre_variables = ent_vals e @ (case ent_reason e of Some r \<Rightarrow> [(REASON_CODE_TAG, trg_ops_to_value r)] | None \<Rightarrow> []),
     jre_annotation = None\<rparr>"

record log_entry =
  lge_entry_id :: bytes
  lge_occurred :: entry_time
  lge_variables :: "(string \<times> data_value) list"
  lge_reason :: "reason_code option"
  lge_annotation :: "string option"

definition log_entry_of :: "journal_entry \<Rightarrow> log_entry" where
  "log_entry_of e =
     (let (variables, reason) = fold (\<lambda>(tag, v) (variables, reason).
            if tag = REASON_CODE_TAG then (variables, trg_ops_from_value v) else (variables @ [(tag, v)], reason))
            (jre_variables e) ([], None)
      in \<lparr>lge_entry_id = jre_entry_id e, lge_occurred = tod_time (jre_occurred e), lge_variables = variables,
          lge_reason = reason, lge_annotation = jre_annotation e\<rparr>)"

definition resume_point :: "log_entry \<Rightarrow> bytes \<times> entry_time" where
  "resume_point e = (lge_entry_id e, lge_occurred e)"

section \<open>The client's log queries\<close>

type_synonym 'p journal_call = "'p \<Rightarrow> read_journal \<Rightarrow> (journal_entry list \<times> bool) result \<times> 'p"
type_synonym log_page = "log_entry list \<times> bool"

definition client_read_journal :: "'p journal_call \<Rightarrow> 'p \<Rightarrow> read_journal \<Rightarrow> log_page result \<times> 'p" where
  "client_read_journal call peer req = (case call peer req of (answer, peer) \<Rightarrow>
     (case answer of Inl e \<Rightarrow> Inl e | Inr (es, more_follows) \<Rightarrow> Inr (map log_entry_of es, more_follows), peer))"

definition log_name_parts :: "string \<Rightarrow> (string \<times> string) result" where
  "log_name_parts log = (case split_once (CHR ''/'') log of
     None \<Rightarrow> Inl (InvalidReference ''a log is `LD/LN$LogName`'')
   | Some (ld, rest) \<Rightarrow> if ld = [] \<or> rest = [] then Inl (InvalidReference ''a log is `LD/LN$LogName`'')
       else Inr (ld, map (\<lambda>c. if c = CHR ''.'' then CHR ''$'' else c) rest))"

definition query_log_by_time :: "'p journal_call \<Rightarrow> string \<Rightarrow> entry_time \<Rightarrow> entry_time option \<Rightarrow> 'p \<Rightarrow> log_page result \<times> 'p" where
  "query_log_by_time call log start stop peer = (case log_name_parts log of
     Inl e \<Rightarrow> (Inl e, peer)
   | Inr (d, item) \<Rightarrow> client_read_journal call peer (rj_by_time (DomainSpecific d item) (tod_of start)
       (Some (tod_of (case stop of Some t \<Rightarrow> t | None \<Rightarrow> ENTRY_TIME_MAX)))))"

definition query_log_after_entry :: "'p journal_call \<Rightarrow> string \<Rightarrow> bytes \<Rightarrow> entry_time \<Rightarrow> 'p \<Rightarrow> log_page result \<times> 'p" where
  "query_log_after_entry call log entry_id time peer = (case log_name_parts log of
     Inl e \<Rightarrow> (Inl e, peer)
   | Inr (d, item) \<Rightarrow> client_read_journal call peer
       (rj_after_entry (DomainSpecific d item) \<lparr>aft_time = tod_of time, aft_entry_id = entry_id\<rparr>))"

partial_function (option) read_log_from :: "'p journal_call \<Rightarrow> string \<Rightarrow> usize \<Rightarrow> log_page \<Rightarrow> 'p \<Rightarrow> log_entry list
    \<Rightarrow> log_entry list result option" where
  "read_log_from call log max_entries current peer out = (case current of (es, more_follows) \<Rightarrow>
     (let out' = out @ es
      in if \<not> more_follows then Some (Inr out')
         else if max_entries \<le> length out' then Some (Inl (LimitExceeded ''max_entries'' (length out')))
         else if es = [] then Some (Inr out')
         else (case query_log_after_entry call log (fst (resume_point (List.last es))) (snd (resume_point (List.last es))) peer
           of (answer, peer) \<Rightarrow> (case answer of Inl e \<Rightarrow> Some (Inl e)
             | Inr next_page \<Rightarrow> read_log_from call log max_entries next_page peer out'))))"

definition read_whole_log :: "'p journal_call \<Rightarrow> string \<Rightarrow> entry_time \<Rightarrow> usize \<Rightarrow> 'p \<Rightarrow> log_entry list result option" where
  "read_whole_log call log start max_entries peer = (case query_log_by_time call log start None peer of (answer, peer) \<Rightarrow>
     (case answer of Inl e \<Rightarrow> Some (Inl e) | Inr first_page \<Rightarrow> read_log_from call log max_entries first_page peer []))"


section \<open>Name lists\<close>

lemma name_list_returns: "\<exists>r. name_list_from fetch limit peer out = Some r"
proof (induction "Suc limit - length out" arbitrary: peer out rule: less_induct)
  case less
  obtain answer peer' where f: "fetch peer (if out = [] then None else Some (List.last out)) = (answer, peer')"
    by (cases "fetch peer (if out = [] then None else Some (List.last out))") auto
  show ?case
  proof (cases answer)
    case (Inr answered)
    obtain ids more_follows where a: "answered = (ids, more_follows)" by (cases answered)
    have "\<exists>r. name_list_from fetch limit peer' (out @ ids) = Some r" if "ids \<noteq> []" "length (out @ ids) \<le> limit"
      using that by (intro less) (cases ids; simp)
    then show ?thesis by (subst name_list_from.simps) (auto simp: f Inr a Let_def not_less)
  qed (subst name_list_from.simps, simp add: f)
qed

lemma take_names_prefix:
  "\<exists>k. take_names rest names used budget = (names @ take k rest, k < length rest) \<and> (names = [] \<longrightarrow> rest \<noteq> [] \<longrightarrow> 0 < k)"
proof (induction rest names used budget rule: take_names.induct)
  case (2 name rest names used budget)
  show ?case
  proof (cases "names \<noteq> [] \<and> budget < used + (length name + 2)")
    case True
    then show ?thesis by (intro exI [of _ 0]) simp
  next
    case False
    then obtain k where "take_names rest (names @ [name]) (used + (length name + 2)) budget =
        ((names @ [name]) @ take k rest, k < length rest)"
      using "2.IH" by auto
    then show ?thesis using False by (intro exI [of _ "Suc k"]) (simp add: Let_def)
  qed
qed simp

lemma position_nth: "distinct xs \<Longrightarrow> i < length xs \<Longrightarrow> position (\<lambda>x. x = xs ! i) xs = Some i"
proof (induction xs arbitrary: i)
  case (Cons x xs)
  then show ?case by (cases i) auto
qed simp

lemma position_key: "distinct (map f xs) \<Longrightarrow> i < length xs \<Longrightarrow> position (\<lambda>x. f x = f (xs ! i)) xs = Some i"
proof (induction xs arbitrary: i)
  case (Cons x xs)
  then show ?case by (cases i) auto
qed simp

lemma from_page_after:
  assumes "distinct all" "q \<le> length all"
  shows "\<exists>k. from_page all (if take q all = [] then None else Some (List.last (take q all))) budget =
    (take k (drop q all), k < length (drop q all)) \<and> (q < length all \<longrightarrow> 0 < k)"
proof -
  have t: "from_page all (if take q all = [] then None else Some (List.last (take q all))) budget = take_names (drop q all) [] 0 budget"
  proof (cases "take q all = []")
    case True
    then show ?thesis using assms(2) by (auto simp: from_page_def)
  next
    case False
    then have q: "0 < q" "q - 1 < length all" using assms(2) by auto
    then have "List.last (take q all) = all ! (q - 1)" using False assms(2) by (simp add: last_conv_nth min_absorb2)
    then show ?thesis using False q position_nth [OF assms(1) q(2)] by (simp add: from_page_def)
  qed
  show ?thesis unfolding t using take_names_prefix [of "drop q all" "[]" 0 budget] by auto
qed

lemma name_list_pages:
  assumes "distinct all" "length all \<le> limit" "q \<le> length all"
  shows "name_list_from (\<lambda>p after. (Inr (from_page all after budget), p)) limit peer (take q all) = Some (Inr all)"
  using assms(3)
proof (induction "length all - q" arbitrary: q rule: less_induct)
  case less
  obtain k where k: "from_page all (if take q all = [] then None else Some (List.last (take q all))) budget =
    (take k (drop q all), k < length (drop q all))" "q < length all \<longrightarrow> 0 < k"
    using from_page_after [OF assms(1) less.prems] by blast
  define out where "out = take q all"
  have out: "out @ take k (drop q all) = take (q + k) all" by (simp add: take_add out_def)
  note p = k(1) [folded out_def]
  have "name_list_from (\<lambda>p after. (Inr (from_page all after budget), p)) limit peer out = Some (Inr all)"
  proof (cases "k < length (drop q all)")
    case True
    then have q: "q + k \<le> length all" "0 < k" "length (take (q + k) all) \<le> limit" using k(2) assms(2) by auto
    then have "name_list_from (\<lambda>p after. (Inr (from_page all after budget), p)) limit peer (take (q + k) all) = Some (Inr all)"
      by (intro less.hyps) auto
    then show ?thesis using True q out
      by (subst name_list_from.simps) (simp add: p Let_def not_less)
  next
    case False
    then show ?thesis using out by (subst name_list_from.simps) (simp add: p Let_def)
  qed
  then show ?case by (simp add: out_def)
qed

text \<open>
  C16: browsing ends, and finds everything. Against any peer, whatever it answers and however its state
  evolves, the client's \<open>GetNameList\<close> loop returns a result; and against this server, for a list of
  different names within the client's bound, it returns exactly that list, for every page size: each
  page resumes after the last name received and makes progress even when one name exceeds the budget.
\<close>

theorem browsing_terminates:
  "(\<exists>r. name_list limits fetch peer = Some r) \<and>
   (distinct names \<and> length names \<le> max_dataset_members limits * 64 \<longrightarrow>
      name_list limits (\<lambda>p after. (Inr (from_page names after budget), p)) peer' = Some (Inr names))"
  using name_list_returns name_list_pages [of names "max_dataset_members limits * 64" 0 budget peer'] by (simp add: name_list_def)

theorem browsing_terminates_witness:
  "name_list default_limits (\<lambda>p after. (Inr (from_page [''LLN0'', ''LLN0$ST'', ''LLN0$ST$Beh''] after 8), p)) (0 :: nat) =
     Some (Inr [''LLN0'', ''LLN0$ST'', ''LLN0$ST$Beh''])"
  by (rule browsing_terminates [THEN conjunct2, THEN mp]) (simp add: default_limits_def)

section \<open>Whole logs\<close>

lemma read_log_returns: "\<exists>r. read_log_from call log max_entries current peer out = Some r"
proof (induction "Suc max_entries - length out" arbitrary: current peer out rule: less_induct)
  case less
  obtain es more_follows where c: "current = (es, more_follows)" by (cases current)
  obtain answer peer' where q: "query_log_after_entry call log (fst (resume_point (List.last es))) (snd (resume_point (List.last es))) peer
      = (answer, peer')"
    by (cases "query_log_after_entry call log (fst (resume_point (List.last es))) (snd (resume_point (List.last es))) peer") auto
  have "\<exists>r. read_log_from call log max_entries next_page peer' (out @ es) = Some r"
    if "es \<noteq> []" "length (out @ es) < max_entries" for next_page
    using that by (intro less) (cases es; simp)
  then show ?case by (subst read_log_from.simps) (auto simp: c q Let_def not_le split: sum.split)
qed

text \<open>The server's answer as the client's exchange sees it.\<close>

definition journal_answer :: "(u32 \<times> i64) + (entry list \<times> bool) \<Rightarrow> (journal_entry list \<times> bool) result" where
  "journal_answer a = (case a of Inl (c, k) \<Rightarrow> Inl (Service c k)
     | Inr (es, more_follows) \<Rightarrow> Inr (map journal_entry_of es, more_follows))"

definition journal_peer :: "('s \<Rightarrow> string \<Rightarrow> entry_time option \<Rightarrow> entry_time option \<Rightarrow> usize \<Rightarrow> entry list \<times> bool)
    \<Rightarrow> ('s \<Rightarrow> string \<Rightarrow> u64 \<Rightarrow> entry_time \<Rightarrow> usize \<Rightarrow> entry list \<times> bool) \<Rightarrow> 's logs \<Rightarrow> usize \<Rightarrow> 'p journal_call" where
  "journal_peer by_time after_entry l limit = (\<lambda>p req. (journal_answer (serve_journal by_time after_entry l limit req), p))"

definition delivered :: "entry \<Rightarrow> log_entry" where
  "delivered e = log_entry_of (journal_entry_of e)"

lemma delivered_resume: "resume_point (delivered e) = (to_be 8 (ent_number e), ent_occurred e)"
  by (simp add: delivered_def resume_point_def log_entry_of_def journal_entry_of_def tod_of_def Let_def split: prod.split)

lemma log_variables_fold:
  "\<forall>(tag, v) \<in> set vs. tag \<noteq> REASON_CODE_TAG \<Longrightarrow>
   fold (\<lambda>(tag, v) (variables, reason). if tag = REASON_CODE_TAG then (variables, trg_ops_from_value v)
      else (variables @ [(tag, v)], reason)) vs (a, r) = (a @ vs, r)"
  by (induction vs arbitrary: a) auto

text \<open>What the client is given is the entry the server holds.\<close>

lemma delivered_entry:
  assumes "\<forall>(tag, v) \<in> set (ent_vals e). tag \<noteq> REASON_CODE_TAG"
  shows "lge_variables (delivered e) = ent_vals e"
    "lge_reason (delivered e) = Option.bind (ent_reason e) (\<lambda>r. trg_ops_from_value (trg_ops_to_value r))"
  by (auto simp: delivered_def log_entry_of_def journal_entry_of_def Let_def log_variables_fold [OF assms] split: prod.splits option.splits)

text \<open>A log whose entries follow each other in the order the queries use.\<close>

definition chronological :: "entry list \<Rightarrow> bool" where
  "chronological es \<longleftrightarrow> sorted_wrt (\<lambda>a b. et_le (ent_occurred a) (ent_occurred b)) es \<and>
     list_all (\<lambda>e. et_le (ent_occurred e) ENTRY_TIME_MAX) es"

lemma et_le_trans: "et_le a b \<Longrightarrow> et_le b c \<Longrightarrow> et_le a c"
  by (auto simp: et_le_def et_less_def)

lemma chronological_range:
  "chronological es \<Longrightarrow> \<exists>q. filter (in_range (Some start) (Some ENTRY_TIME_MAX)) es = drop q es"
proof (induction es)
  case (Cons e es)
  show ?case
  proof (cases "et_le start (ent_occurred e)")
    case True
    then have "filter (in_range (Some start) (Some ENTRY_TIME_MAX)) (e # es) = e # es"
      using Cons.prems et_le_trans by (fastforce simp: filter_id_conv chronological_def in_range_def list_all_iff)
    then show ?thesis by (intro exI [of _ 0]) simp
  next
    case False
    obtain q where "filter (in_range (Some start) (Some ENTRY_TIME_MAX)) es = drop q es"
      using Cons by (auto simp: chronological_def)
    moreover have "\<not> in_range (Some start) (Some ENTRY_TIME_MAX) e" using False by (simp add: in_range_def)
    ultimately show ?thesis by (intro exI [of _ "Suc q"]) simp
  qed
qed simp

context log_store
begin

abbreviation served where
  "served l limit \<equiv> journal_peer by_time after_entry l limit"

lemma served_by_time:
  assumes "logs_has l (d @ ''/'' @ item)" "contents (lgs_store l) (d @ ''/'' @ item) = Some es"
    and "log_name_parts log = Inr (d, item)"
  shows "query_log_by_time (served l limit) log start None peer =
    (Inr (case page (filter (in_range (Some start) (Some ENTRY_TIME_MAX)) es) limit of (xs, m) \<Rightarrow> (map delivered xs, m)), peer)"
  using assms by (simp add: query_log_by_time_def client_read_journal_def journal_peer_def serve_journal_def rj_by_time_def tod_of_def
    logs_by_time_def by_time_held journal_answer_def delivered_def o_def split: prod.split)

lemma id_of_octets_be: "id_of_octets (to_be 8 (i :: u64)) = i"
  by (simp add: id_of_octets_def from_be_to_be)

lemma served_after:
  assumes "logs_has l (d @ ''/'' @ item)" "contents (lgs_store l) (d @ ''/'' @ item) = Some es"
    and "log_name_parts log = Inr (d, item)" "position (\<lambda>e. ent_number e = i) es = Some k"
  shows "query_log_after_entry (served l limit) log (to_be 8 i) t peer =
    (Inr (case page (drop (k + 1) es) limit of (xs, m) \<Rightarrow> (map delivered xs, m)), peer)"
  using assms by (simp add: query_log_after_entry_def client_read_journal_def journal_peer_def serve_journal_def rj_after_entry_def tod_of_def
    logs_after_entry_def after_held journal_answer_def delivered_def o_def id_of_octets_be split: prod.split)

lemma log_pages:
  assumes has: "logs_has l (d @ ''/'' @ item)" "contents (lgs_store l) (d @ ''/'' @ item) = Some es" "log_name_parts log = Inr (d, item)"
    and ids: "distinct (map ent_number es)"
  shows "length out + length (drop q es) \<le> max_entries \<Longrightarrow>
    read_log_from (served l limit) log max_entries (case page (drop q es) limit of (xs, m) \<Rightarrow> (map delivered xs, m)) peer out
      = Some (Inr (out @ map delivered (drop q es)))"
proof (induction "length es - q" arbitrary: q out rule: less_induct)
  case less
  define k where "k = max limit 1"
  have pg: "page xs limit = (take k xs, k < length xs)" for xs by (simp add: page_def k_def Let_def)
  have k0: "0 < k" by (simp add: k_def less_max_iff_disj)
  show ?case
  proof (cases "k < length (drop q es)")
    case True
    define e where "e = es ! (q + k - 1)"
    have k: "0 < k" "q + k - 1 < length es" "q + k - 1 + 1 = q + k" using True k0 by auto
    have "List.last (take k (drop q es)) = e"
      using True k by (subst last_conv_nth) (auto simp: e_def min_absorb2 less_imp_le)
    then have r: "resume_point (List.last (map delivered (take k (drop q es)))) = (to_be 8 (ent_number e), ent_occurred e)"
      using True k(1) by (subst last_map) (auto simp: delivered_resume)
    have "position (\<lambda>x. ent_number x = ent_number e) es = Some (q + k - 1)"
      using position_key [OF ids k(2)] by (simp add: e_def)
    note a = served_after [OF has this, unfolded k(3)]
    have len: "length out + k + length (drop (q + k) es) \<le> max_entries" "length out + k < max_entries"
      using less.prems True by auto
    have "read_log_from (served l limit) log max_entries (case page (drop (q + k) es) limit of (xs, m) \<Rightarrow> (map delivered xs, m)) peer
        (out @ map delivered (take k (drop q es))) = Some (Inr ((out @ map delivered (take k (drop q es))) @ map delivered (drop (q + k) es)))"
      using less.hyps [of "q + k" "out @ map delivered (take k (drop q es))"] True k(1) len(1) by (simp add: min_absorb2 less_imp_le)
    moreover have "map delivered (take k (drop q es)) @ map delivered (drop (q + k) es) = map delivered (drop q es)"
      by (metis append_take_drop_id drop_drop add.commute map_append)
    moreover have "take k (drop q es) \<noteq> []" using True k(1) by auto
    ultimately show ?thesis
      using True len(2) by (subst read_log_from.simps) (simp add: pg Let_def r a min_absorb2 less_imp_le)
  next
    case False
    then show ?thesis by (subst read_log_from.simps) (simp add: pg Let_def)
  qed
qed

lemma whole_log:
  assumes has: "logs_has l (d @ ''/'' @ item)" "contents (lgs_store l) (d @ ''/'' @ item) = Some es" "log_name_parts log = Inr (d, item)"
    and "distinct (map ent_number es)" and q: "filter (in_range (Some start) (Some ENTRY_TIME_MAX)) es = drop q es"
    and n: "length (filter (in_range (Some start) (Some ENTRY_TIME_MAX)) es) \<le> max_entries"
  shows "read_whole_log (served l limit) log start max_entries peer =
    Some (Inr (map delivered (filter (in_range (Some start) (Some ENTRY_TIME_MAX)) es)))"
  using log_pages [OF has assms(4), of "[]" q max_entries limit peer] n
  by (simp add: read_whole_log_def served_by_time [OF has] q)

end

text \<open>Points in time as the calendar orders them: the day first. The queries compare the time of day first.\<close>

definition entry_moment :: "entry_time \<Rightarrow> nat" where
  "entry_moment t = unat (days_since_1984 t) * 86400000 + unat (millis_of_day t)"

definition valid_times :: "entry list \<Rightarrow> bool" where
  "valid_times es \<longleftrightarrow> list_all (\<lambda>e. millis_of_day (ent_occurred e) < 86400000) es"

definition in_time_order :: "entry list \<Rightarrow> bool" where
  "in_time_order es \<longleftrightarrow> sorted_wrt (\<lambda>a b. entry_moment (ent_occurred a) \<le> entry_moment (ent_occurred b)) es"

text \<open>On one day the two orders agree, and nothing is before the first moment of 1984 in either.\<close>

lemma et_le_same_day:
  "days_since_1984 a = days_since_1984 b \<Longrightarrow> et_le a b \<longleftrightarrow> entry_moment a \<le> entry_moment b"
  by (cases a; cases b) (auto simp: et_le_def et_less_def entry_moment_def word_less_nat_alt le_less word_unat_eq_iff)

lemma valid_le_max: "millis_of_day t < 86400000 \<Longrightarrow> et_le t ENTRY_TIME_MAX"
proof (cases t)
  case (fields ms days)
  assume "millis_of_day t < 86400000"
  then have ms: "ms < 86399999 \<or> ms = 86399999" using fields by (auto simp: word_less_nat_alt word_unat_eq_iff)
  have "unat days < 65536" using unat_lt_exp [of days] by simp
  then have "days < 65535 \<or> days = 65535" by (auto simp: word_less_nat_alt word_unat_eq_iff)
  then show ?thesis using ms fields by (auto simp: et_le_def et_less_def ENTRY_TIME_MAX_def)
qed

lemma first_moment_le: "et_le \<lparr>millis_of_day = 0, days_since_1984 = 0\<rparr> t"
  by (cases t) (auto simp: et_le_def et_less_def word_gt_0)

definition EPOCH_START :: entry_time where "EPOCH_START = \<lparr>millis_of_day = 0, days_since_1984 = 0\<rparr>"

lemma wanted_entries:
  assumes "valid_times es" "start = EPOCH_START \<or> in_time_order es \<and> list_all (\<lambda>e. days_since_1984 (ent_occurred e) = days_since_1984 start) es"
  shows "\<exists>q. filter (in_range (Some start) (Some ENTRY_TIME_MAX)) es = drop q es"
    and "filter (in_range (Some start) (Some ENTRY_TIME_MAX)) es = filter (\<lambda>e. entry_moment start \<le> entry_moment (ent_occurred e)) es"
proof -
  have last: "et_le (ent_occurred e) ENTRY_TIME_MAX" if "e \<in> set es" for e
    using assms(1) that valid_le_max by (auto simp: valid_times_def list_all_iff)
  have day: "days_since_1984 (ent_occurred e) = days_since_1984 start" if "start \<noteq> EPOCH_START" "e \<in> set es" for e
    using assms(2) that by (auto simp: list_all_iff)
  have from_start: "et_le start (ent_occurred e) \<longleftrightarrow> entry_moment start \<le> entry_moment (ent_occurred e)" if "e \<in> set es" for e
    using et_le_same_day [of start "ent_occurred e"] day [OF _ that] first_moment_le [of "ent_occurred e"]
    by (cases "start = EPOCH_START") (simp_all add: EPOCH_START_def entry_moment_def)
  then show "filter (in_range (Some start) (Some ENTRY_TIME_MAX)) es = filter (\<lambda>e. entry_moment start \<le> entry_moment (ent_occurred e)) es"
    using last by (intro filter_cong) (simp_all add: in_range_def)
  show "\<exists>q. filter (in_range (Some start) (Some ENTRY_TIME_MAX)) es = drop q es"
  proof (cases "start = EPOCH_START")
    case True
    then have "filter (in_range (Some start) (Some ENTRY_TIME_MAX)) es = es"
      using last first_moment_le by (intro filter_True) (simp add: in_range_def EPOCH_START_def)
    then show ?thesis by (intro exI [of _ 0]) simp
  next
    case False
    have same: "et_le (ent_occurred a) (ent_occurred b) \<longleftrightarrow> entry_moment (ent_occurred a) \<le> entry_moment (ent_occurred b)"
      if "a \<in> set es" "b \<in> set es" for a b
      using day [OF False that(1)] day [OF False that(2)] by (intro et_le_same_day) simp
    have "sorted_wrt (\<lambda>a b. et_le (ent_occurred a) (ent_occurred b)) es"
      using assms(2) False same by (auto simp: in_time_order_def intro: sorted_wrt_mono_rel [rotated])
    then have "chronological es" using last by (simp add: chronological_def list_all_iff)
    then show ?thesis by (rule chronological_range)
  qed
qed


definition sample_log :: "memory_log logs" where
  "sample_log = \<lparr>lgs_declared = [''D/L''], lgs_controls = [],
     lgs_store = fold ml_step [LogAppend ''D/L'' (sample_entry 1), LogAppend ''D/L'' (sample_entry 2), LogAppend ''D/L'' (sample_entry 5)]
       (for_logs [''D/L''] 8)\<rparr>"


end
