(* ===== verification/Mms_Control.thy ===== *)
theory Mms_Control
  imports Typespec
begin

text \<open>
  Controls on the wire (\<open>src/proto/mms/control.rs\<close>): the \<open>Oper\<close>, \<open>SBOw\<close> and \<open>Cancel\<close> structures, the
  \<open>LastApplError\<close> that explains a refusal, and the command termination. The fields are untagged members
  of one structure, so reading one is a walk over positions and types.
\<close>

section \<open>Enumerations\<close>

datatype origin_category = OrNotSupported | BayControl | StationControl | RemoteControl | AutomaticBay | AutomaticStation
  | AutomaticRemote | Maintenance | ProcessOrigin | OtherOrigin i64

definition origin_from_code :: "i64 \<Rightarrow> origin_category" where
  "origin_from_code code =
     (if code = 0 then OrNotSupported else if code = 1 then BayControl else if code = 2 then StationControl
      else if code = 3 then RemoteControl else if code = 4 then AutomaticBay else if code = 5 then AutomaticStation
      else if code = 6 then AutomaticRemote else if code = 7 then Maintenance else if code = 8 then ProcessOrigin
      else OtherOrigin code)"

definition origin_to_code :: "origin_category \<Rightarrow> i64" where
  "origin_to_code c = (case c of OrNotSupported \<Rightarrow> 0 | BayControl \<Rightarrow> 1 | StationControl \<Rightarrow> 2 | RemoteControl \<Rightarrow> 3
     | AutomaticBay \<Rightarrow> 4 | AutomaticStation \<Rightarrow> 5 | AutomaticRemote \<Rightarrow> 6 | Maintenance \<Rightarrow> 7 | ProcessOrigin \<Rightarrow> 8 | OtherOrigin v \<Rightarrow> v)"

datatype control_error = CeNoError | CeUnknown | CeTimeoutTestNotOk | CeOperatorTestNotOk | CeOther i64

definition control_error_from_code :: "i64 \<Rightarrow> control_error" where
  "control_error_from_code code = (if code = 0 then CeNoError else if code = 1 then CeUnknown
     else if code = 2 then CeTimeoutTestNotOk else if code = 3 then CeOperatorTestNotOk else CeOther code)"

definition control_error_to_code :: "control_error \<Rightarrow> i64" where
  "control_error_to_code e = (case e of CeNoError \<Rightarrow> 0 | CeUnknown \<Rightarrow> 1 | CeTimeoutTestNotOk \<Rightarrow> 2 | CeOperatorTestNotOk \<Rightarrow> 3
     | CeOther v \<Rightarrow> v)"

datatype add_cause = AcUnknown | AcNotSupported | AcBlockedBySwitchingHierarchy | AcSelectFailed | AcInvalidPosition
  | AcPositionReached | AcParameterChangeInExecution | AcStepLimit | AcBlockedByMode | AcBlockedByProcess
  | AcBlockedByInterlocking | AcBlockedBySynchrocheck | AcCommandAlreadyInExecution | AcBlockedByHealth | AcOneOfNControl
  | AcAbortionByCancel | AcTimeLimitOver | AcAbortionByTrip | AcObjectNotSelected | AcObjectAlreadySelected
  | AcNoAccessAuthority | AcEndedWithOvershoot | AcAbortionDueToDeviation | AcAbortionByCommunicationLoss
  | AcAbortionByCommand | AcNone | AcInconsistentParameters | AcLockedByOtherClient | AcOther i64

text \<open>The named causes in the order of their codes, 0 to 27.\<close>

definition named_causes :: "add_cause list" where
  "named_causes = [AcUnknown, AcNotSupported, AcBlockedBySwitchingHierarchy, AcSelectFailed, AcInvalidPosition,
     AcPositionReached, AcParameterChangeInExecution, AcStepLimit, AcBlockedByMode, AcBlockedByProcess,
     AcBlockedByInterlocking, AcBlockedBySynchrocheck, AcCommandAlreadyInExecution, AcBlockedByHealth, AcOneOfNControl,
     AcAbortionByCancel, AcTimeLimitOver, AcAbortionByTrip, AcObjectNotSelected, AcObjectAlreadySelected,
     AcNoAccessAuthority, AcEndedWithOvershoot, AcAbortionDueToDeviation, AcAbortionByCommunicationLoss,
     AcAbortionByCommand, AcNone, AcInconsistentParameters, AcLockedByOtherClient]"

definition add_cause_from_code :: "i64 \<Rightarrow> add_cause" where
  "add_cause_from_code code = (if unat code < length named_causes then named_causes ! unat code else AcOther code)"

definition add_cause_to_code :: "add_cause \<Rightarrow> i64" where
  "add_cause_to_code c = (case c of AcUnknown \<Rightarrow> 0 | AcNotSupported \<Rightarrow> 1 | AcBlockedBySwitchingHierarchy \<Rightarrow> 2
     | AcSelectFailed \<Rightarrow> 3 | AcInvalidPosition \<Rightarrow> 4 | AcPositionReached \<Rightarrow> 5 | AcParameterChangeInExecution \<Rightarrow> 6
     | AcStepLimit \<Rightarrow> 7 | AcBlockedByMode \<Rightarrow> 8 | AcBlockedByProcess \<Rightarrow> 9 | AcBlockedByInterlocking \<Rightarrow> 10
     | AcBlockedBySynchrocheck \<Rightarrow> 11 | AcCommandAlreadyInExecution \<Rightarrow> 12 | AcBlockedByHealth \<Rightarrow> 13 | AcOneOfNControl \<Rightarrow> 14
     | AcAbortionByCancel \<Rightarrow> 15 | AcTimeLimitOver \<Rightarrow> 16 | AcAbortionByTrip \<Rightarrow> 17 | AcObjectNotSelected \<Rightarrow> 18
     | AcObjectAlreadySelected \<Rightarrow> 19 | AcNoAccessAuthority \<Rightarrow> 20 | AcEndedWithOvershoot \<Rightarrow> 21
     | AcAbortionDueToDeviation \<Rightarrow> 22 | AcAbortionByCommunicationLoss \<Rightarrow> 23 | AcAbortionByCommand \<Rightarrow> 24 | AcNone \<Rightarrow> 25
     | AcInconsistentParameters \<Rightarrow> 26 | AcLockedByOtherClient \<Rightarrow> 27 | AcOther v \<Rightarrow> v)"

section \<open>Components\<close>

record origin =
  org_category :: origin_category
  org_identifier :: bytes

definition origin_default :: origin where
  "origin_default = \<lparr>org_category = RemoteControl, org_identifier = []\<rparr>"

definition origin_to_value :: "origin \<Rightarrow> data_value" where
  "origin_to_value x = Structure [Integer (origin_to_code (org_category x)), OctetString (org_identifier x)]"

text \<open>\<open>i64::try_from\<close> of an unsigned value.\<close>

definition try_i64 :: "u64 \<Rightarrow> i64 option" where
  "try_i64 u = (if u < 0x8000000000000000 then Some u else None)"

definition origin_from_value :: "data_value \<Rightarrow> origin option" where
  "origin_from_value v = Option.bind (value_members v) (\<lambda>members.
     Option.bind (Option.bind (get_at members 0) (\<lambda>m. case m of
         Integer i \<Rightarrow> Some (origin_from_code i)
       | Unsigned u \<Rightarrow> map_option origin_from_code (try_i64 u)
       | _ \<Rightarrow> None)) (\<lambda>category.
     Option.bind (Option.bind (get_at members 1) (\<lambda>m. case m of
         OctetString b \<Rightarrow> Some b
       | VisibleString s \<Rightarrow> Some (as_bytes s) | MmsString s \<Rightarrow> Some (as_bytes s)
       | _ \<Rightarrow> None)) (\<lambda>identifier.
     Some \<lparr>org_category = category, org_identifier = identifier\<rparr>)))"

record check =
  chk_synchro :: bool
  chk_interlock :: bool

definition CHECK_NONE :: check where "CHECK_NONE = \<lparr>chk_synchro = False, chk_interlock = False\<rparr>"
definition CHECK_BOTH :: check where "CHECK_BOTH = \<lparr>chk_synchro = True, chk_interlock = True\<rparr>"

definition check_to_value :: "check \<Rightarrow> data_value" where
  "check_to_value c = BitString 6 [push_bit 7 (of_bool (chk_synchro c)) OR push_bit 6 (of_bool (chk_interlock c))]"

definition check_from_value :: "data_value \<Rightarrow> check option" where
  "check_from_value v = (case v of
     BitString unused bs \<Rightarrow> if unused = 6 then Option.bind (get_at bs 0) (\<lambda>b.
         Some \<lparr>chk_synchro = (b AND 0x80 \<noteq> 0), chk_interlock = (b AND 0x40 \<noteq> 0)\<rparr>) else None
   | _ \<Rightarrow> None)"

section \<open>The request\<close>

record control_request =
  ctl_val :: data_value
  oper_tm :: "utc_time option"
  ctl_origin :: origin
  ctl_num :: u8
  ctl_t :: utc_time
  ctl_test :: bool
  ctl_check :: check

definition control_request_new :: "data_value \<Rightarrow> u8 \<Rightarrow> utc_time \<Rightarrow> control_request" where
  "control_request_new v n t = \<lparr>ctl_val = v, oper_tm = None, ctl_origin = origin_default, ctl_num = n, ctl_t = t,
     ctl_test = False, ctl_check = CHECK_NONE\<rparr>"

definition request_to_value :: "control_request \<Rightarrow> data_value" where
  "request_to_value r = Structure ([ctl_val r] @ (case oper_tm r of Some tm \<Rightarrow> [UtcTime tm] | None \<Rightarrow> []) @
     [origin_to_value (ctl_origin r), Unsigned (ucast (ctl_num r)), UtcTime (ctl_t r), Boolean (ctl_test r),
      check_to_value (ctl_check r)])"

definition request_to_cancel_value :: "control_request \<Rightarrow> data_value" where
  "request_to_cancel_value r = (case request_to_value r of Structure members \<Rightarrow> Structure (butlast members) | v \<Rightarrow> v)"

definition bad_request :: error where
  "bad_request = InvalidValue ''control request structure''"

definition request_from_value :: "data_value \<Rightarrow> control_request result" where
  "request_from_value v =
     rbind (ok_or (InvalidValue ''a control request is a structure'') (value_members v)) (\<lambda>members.
     rbind (ok_or bad_request (get_at members 0)) (\<lambda>val.
     (let (oper, at) = (case get_at members 1 of Some (UtcTime t) \<Rightarrow> (Some t, 2) | _ \<Rightarrow> (None, 1)) in
     rbind (ok_or bad_request (get_at members at)) (\<lambda>m.
     rbind (ok_or bad_request (origin_from_value m)) (\<lambda>org.
     (let at = at + 1 in
     rbind (case get_at members at of
         None \<Rightarrow> Inr (0, at)
       | Some m \<Rightarrow> (case m of UtcTime _ \<Rightarrow> Inr (0, at)
           | _ \<Rightarrow> rbind (ok_or bad_request (as_u64 m)) (\<lambda>u.
                   rbind (ok_or bad_request (narrow u :: u8 option)) (\<lambda>n. Inr (n, at + 1))))) (\<lambda>(num, at).
     rbind (ok_or bad_request (Option.bind (get_at members at) as_utc_time)) (\<lambda>t.
     rbind (ok_or bad_request (Option.bind (get_at members (at + 1)) as_bool)) (\<lambda>test.
     rbind (case get_at members (at + 2) of None \<Rightarrow> Inr CHECK_NONE
       | Some c \<Rightarrow> ok_or bad_request (check_from_value c)) (\<lambda>chk.
     Inr \<lparr>ctl_val = val, oper_tm = oper, ctl_origin = org, ctl_num = num, ctl_t = t, ctl_test = test, ctl_check = chk\<rparr>))))))))))"

section \<open>The answer\<close>

record last_appl_error =
  lae_control_object :: string
  lae_error :: control_error
  lae_origin :: origin
  lae_ctl_num :: u8
  lae_add_cause :: add_cause

definition bad_appl_error :: error where
  "bad_appl_error = InvalidValue ''LastApplError structure''"

definition appl_error_from_value :: "data_value \<Rightarrow> last_appl_error result" where
  "appl_error_from_value v =
     rbind (ok_or (InvalidValue ''LastApplError is a structure'') (value_members v)) (\<lambda>m.
     rbind (ok_or bad_appl_error (Option.bind (get_at m 0) as_str)) (\<lambda>obj.
     rbind (ok_or bad_appl_error (Option.bind (get_at m 1) as_i64)) (\<lambda>err.
     rbind (ok_or bad_appl_error (Option.bind (get_at m 2) origin_from_value)) (\<lambda>org.
     rbind (ok_or bad_appl_error (Option.bind (Option.bind (get_at m 3) as_u64) (\<lambda>u. narrow u :: u8 option))) (\<lambda>num.
     rbind (ok_or bad_appl_error (Option.bind (get_at m 4) as_i64)) (\<lambda>cause.
     Inr \<lparr>lae_control_object = obj, lae_error = control_error_from_code err, lae_origin = org, lae_ctl_num = num,
          lae_add_cause = add_cause_from_code cause\<rparr>))))))"

definition appl_error_to_value :: "last_appl_error \<Rightarrow> data_value" where
  "appl_error_to_value e = Structure [VisibleString (lae_control_object e), Integer (control_error_to_code (lae_error e)),
     origin_to_value (lae_origin e), Unsigned (ucast (lae_ctl_num e)), Integer (add_cause_to_code (lae_add_cause e))]"

datatype command_termination = Positive string control_request | Negative last_appl_error "control_request option"

definition termination_ctl_num :: "command_termination \<Rightarrow> u8" where
  "termination_ctl_num x = (case x of Positive _ r \<Rightarrow> ctl_num r | Negative e _ \<Rightarrow> lae_ctl_num e)"

definition termination_object :: "command_termination \<Rightarrow> string" where
  "termination_object x = (case x of Positive obj _ \<Rightarrow> obj | Negative e _ \<Rightarrow> lae_control_object e)"

definition termination_is_positive :: "command_termination \<Rightarrow> bool" where
  "termination_is_positive x = (case x of Positive _ _ \<Rightarrow> True | Negative _ _ \<Rightarrow> False)"

definition termination_add_cause :: "command_termination \<Rightarrow> add_cause option" where
  "termination_add_cause x = (case x of Negative e _ \<Rightarrow> Some (lae_add_cause e) | Positive _ _ \<Rightarrow> None)"

section \<open>Round trips\<close>

text \<open>A code outside the named ones re-encodes as it arrived.\<close>

lemma origin_code_round: "origin_to_code (origin_from_code c) = c"
  by (simp add: origin_from_code_def origin_to_code_def)

lemma control_error_code_round: "control_error_to_code (control_error_from_code c) = c"
  by (simp add: control_error_from_code_def control_error_to_code_def)

lemma named_cause_codes: "map add_cause_to_code named_causes = map of_nat [0..<28]"
  by (simp add: named_causes_def add_cause_to_code_def upt_rec)

lemma add_cause_code_round: "add_cause_to_code (add_cause_from_code c) = c"
proof (cases "unat c < 28")
  case True
  then have "add_cause_to_code (named_causes ! unat c) = map add_cause_to_code named_causes ! unat c"
    by (subst nth_map) (simp_all add: named_causes_def)
  also have "\<dots> = of_nat (unat c)" using True by (subst named_cause_codes) simp
  finally show ?thesis using True by (simp add: add_cause_from_code_def named_causes_def)
qed (simp add: add_cause_from_code_def named_causes_def add_cause_to_code_def)

text \<open>Values the enumerations reach; \<open>Other\<close> with a named code is read back as the name.\<close>

definition origin_wf :: "origin \<Rightarrow> bool" where
  "origin_wf x \<longleftrightarrow> origin_from_code (origin_to_code (org_category x)) = org_category x"

lemma origin_value_round: "origin_wf x \<Longrightarrow> origin_from_value (origin_to_value x) = Some x"
  by (simp add: origin_wf_def origin_from_value_def origin_to_value_def value_members_def get_at_def)

lemma check_value_round: "check_from_value (check_to_value c) = Some c"
  by (cases c) (auto simp: check_from_value_def check_to_value_def get_at_def)

lemma narrow_octet: "(narrow (ucast (n :: u8) :: u64) :: u8 option) = Some n"
proof -
  have "ucast (ucast n :: u64) = n" by transfer simp
  then show ?thesis using unat_lt_exp [of n] by (simp add: narrow_def unat_ucast_up)
qed

lemma request_value_round:
  assumes "origin_wf (ctl_origin r)"
  shows "request_from_value (request_to_value r) = Inr r"
  using narrow_octet [of "ctl_num r"] origin_value_round [OF assms] check_value_round
    by (cases "oper_tm r") (auto simp: request_from_value_def request_to_value_def value_members_def get_at_def
      origin_to_value_def as_u64_def as_utc_time_def as_bool_def check_to_value_def)

lemma cancel_value_round:
  assumes "origin_wf (ctl_origin r)"
  shows "request_from_value (request_to_cancel_value r) = Inr (r\<lparr>ctl_check := CHECK_NONE\<rparr>)"
  using narrow_octet [of "ctl_num r"] origin_value_round [OF assms]
    by (cases "oper_tm r") (auto simp: request_from_value_def request_to_cancel_value_def request_to_value_def value_members_def
      get_at_def origin_to_value_def as_u64_def as_utc_time_def as_bool_def)

end
