(* ===== verification/Server_Control.thy ===== *)
theory Server_Control
  imports Server_Ied Mms_Control Machine
begin

text \<open>
  Controls, server side (\<open>src/server/control.rs\<close>): the four control models of IEC 61850-7-2 as one state
  machine over selections, time-activated commands and the terminations still to be sent. The
  application's hook is a parameter: a function of the event it is asked about.
\<close>

section \<open>State\<close>

definition DEFAULT_SBO_TIMEOUT_MS :: u64 where "DEFAULT_SBO_TIMEOUT_MS = 30000"

type_synonym assoc_id = u64

record now =
  now_mono :: instant
  now_wall :: utc_time

datatype stage = StSelect | StOperate | StCancel

record control_event =
  cev_object :: string
  cev_stage :: stage
  cev_request :: control_request
  cev_model :: control_model

type_synonym control_hook = "control_event \<Rightarrow> add_cause + unit"

record selection =
  sel_assoc :: assoc_id
  sel_value :: "data_value option"
  sel_ctl_num :: u8
  sel_expires :: instant

record termination_pdu =
  trm_assoc :: assoc_id
  trm_pdu :: bytes

record timed =
  tmd_assoc :: assoc_id
  tmd_object :: string
  tmd_request :: control_request
  tmd_model :: control_model
  tmd_due :: instant

record controls =
  cts_selections :: "(string \<times> selection) list"
  cts_timed :: "timed list"
  cts_hook :: "control_hook option"
  cts_sbo_timeout_ms :: u64
  cts_pending :: "termination_pdu list"
  cts_last_cause :: "add_cause option"

definition controls_new :: controls where
  "controls_new = \<lparr>cts_selections = [], cts_timed = [], cts_hook = None, cts_sbo_timeout_ms = DEFAULT_SBO_TIMEOUT_MS,
     cts_pending = [], cts_last_cause = None\<rparr>"

definition take_last_cause :: "controls \<Rightarrow> add_cause option \<times> controls" where
  "take_last_cause c = (cts_last_cause c, c\<lparr>cts_last_cause := None\<rparr>)"

definition take_pending :: "controls \<Rightarrow> termination_pdu list \<times> controls" where
  "take_pending c = (cts_pending c, c\<lparr>cts_pending := []\<rparr>)"

section \<open>Command terminations\<close>

text \<open>Each value encoded on its own and read back as the element the report carries.\<close>

definition encoded_values :: "data_value list \<Rightarrow> bytes list" where
  "encoded_values vs = List.map_filter (\<lambda>v. case encode_all [v] of Inl _ \<Rightarrow> None | Inr bs \<Rightarrow> Some bs) vs"

definition result_elements :: "bytes list \<Rightarrow> tlv list option" where
  "result_elements bss = those (map (\<lambda>bs. case next_required (cursor_new bs) of (Inl _, _) \<Rightarrow> None | (Inr t, _) \<Rightarrow> Some t) bss)"

definition write_information_report :: "object_name list \<Rightarrow> tlv list \<Rightarrow> enc" where
  "write_information_report names results =
     constructed (tag_context_constructed 3) (constructed (tag_context_constructed 0)
       (sbind (constructed (tag_context_constructed 0) (sfor (\<lambda>n. constructed (tag_universal 16 True)
            (constructed (tag_context_constructed 0) (object_name_write n))) names)) (\<lambda>_.
        constructed (tag_context_constructed 0) (sfor (\<lambda>t. primitive (tlv_tag t) (tlv_value t)) results))))"

definition report_of :: "object_name list \<Rightarrow> data_value list \<Rightarrow> bytes" where
  "report_of names vs = (let encoded = encoded_values vs in
     if length encoded \<noteq> length vs then []
     else case result_elements encoded of None \<Rightarrow> []
       | Some results \<Rightarrow> (case write_information_report names results [] of (Inl _, _) \<Rightarrow> [] | (Inr _, e) \<Rightarrow> e))"

definition domain_item :: "string \<Rightarrow> string \<times> string" where
  "domain_item obj = (case split_once (CHR ''/'') obj of Some p \<Rightarrow> p | None \<Rightarrow> ([], obj))"

definition positive :: "string \<Rightarrow> control_request \<Rightarrow> bytes" where
  "positive obj request = (let (domain, item) = domain_item obj
     in report_of [DomainSpecific domain (item @ ''$Oper'')] [request_to_value request])"

definition negative :: "string \<Rightarrow> control_request \<Rightarrow> last_appl_error \<Rightarrow> bytes" where
  "negative obj request err = (let (domain, item) = domain_item obj
     in report_of [VmdSpecific ''LastApplError'', DomainSpecific domain (item @ ''$Oper'')]
          [appl_error_to_value err, request_to_value request])"

section \<open>The model behind a control object\<close>

datatype behaviour = BhOn | BhBlocked | BhTest | BhTestBlocked | BhOff

definition behaviour_from_code :: "i64 \<Rightarrow> behaviour" where
  "behaviour_from_code code = (if code = 2 then BhBlocked else if code = 3 then BhTest
     else if code = 4 then BhTestBlocked else if code = 5 then BhOff else BhOn)"

definition accepts_commands :: "behaviour \<Rightarrow> bool" where
  "accepts_commands b \<longleftrightarrow> b = BhOn \<or> b = BhTest"

definition is_test_behaviour :: "behaviour \<Rightarrow> bool" where
  "is_test_behaviour b \<longleftrightarrow> b = BhTest \<or> b = BhTestBlocked"

definition code_of_value :: "data_value \<Rightarrow> i64 option" where
  "code_of_value v = (case v of Integer i \<Rightarrow> Some i | Unsigned u \<Rightarrow> try_i64 u | _ \<Rightarrow> None)"

fun first_code :: "ied \<Rightarrow> string \<Rightarrow> string list \<Rightarrow> i64 option" where
  "first_code s base [] = None"
| "first_code s base (name # names) =
     (case Option.bind (ied_value s (base @ name @ ''$stVal'')) code_of_value of
        Some code \<Rightarrow> Some code | None \<Rightarrow> first_code s base names)"

definition behaviour_of :: "ied \<Rightarrow> string \<Rightarrow> behaviour" where
  "behaviour_of s obj = (case split_once (CHR ''/'') obj of None \<Rightarrow> BhOn
     | Some (domain, item) \<Rightarrow> (case split_once (CHR ''$'') item of None \<Rightarrow> BhOn
       | Some (ln, _) \<Rightarrow> (case first_code s (domain @ ''/'' @ ln @ ''$ST$'') [''Beh'', ''Mod''] of
           Some code \<Rightarrow> behaviour_from_code code | None \<Rightarrow> BhOn)))"

definition mode_refusal :: "behaviour \<Rightarrow> bool \<Rightarrow> add_cause option" where
  "mode_refusal b test = (if \<not> accepts_commands b then Some AcBlockedByMode
     else if test \<noteq> is_test_behaviour b then Some AcBlockedByMode else None)"

definition control_path :: "string \<Rightarrow> (string \<times> string \<times> string) option" where
  "control_path obj = Option.bind (split_once (CHR ''/'') obj) (\<lambda>(domain, item).
     Option.bind (split_once (CHR ''$'') item) (\<lambda>(ln, rest).
     Option.bind (strip_prefix ''CO$'' rest) (\<lambda>path. Some (domain, ln, path))))"

definition model_of :: "ied \<Rightarrow> string \<Rightarrow> control_model option" where
  "model_of s obj = Option.bind (control_path obj) (\<lambda>(domain, ln, path).
     Option.bind (ied_value s (domain @ ''/'' @ ln @ ''$CF$'' @ path @ ''$ctlModel'')) (\<lambda>v.
     Option.bind (code_of_value v) control_model_from_code))"

definition apply_control :: "string \<Rightarrow> control_request \<Rightarrow> utc_time \<Rightarrow> ied \<Rightarrow> ied" where
  "apply_control obj request wall s = (case control_path obj of None \<Rightarrow> s
     | Some (domain, ln, path) \<Rightarrow>
        (let s = snd (write_leaf (domain @ ''/'' @ ln @ ''$ST$'' @ path @ ''$stVal'') (ctl_val request) s)
         in snd (write_leaf (domain @ ''/'' @ ln @ ''$ST$'' @ path @ ''$t'') (UtcTime wall) s)))"

section \<open>Operations\<close>

definition held_by_other :: "controls \<Rightarrow> string \<Rightarrow> assoc_id \<Rightarrow> instant \<Rightarrow> bool" where
  "held_by_other c obj assoc t = (case map_of (cts_selections c) obj of None \<Rightarrow> False
     | Some s \<Rightarrow> sel_assoc s \<noteq> assoc \<and> t < sel_expires s)"

definition ask :: "controls \<Rightarrow> string \<Rightarrow> stage \<Rightarrow> control_request \<Rightarrow> control_model \<Rightarrow> add_cause + unit" where
  "ask c obj st request m = (case cts_hook c of
     Some hook \<Rightarrow> hook \<lparr>cev_object = obj, cev_stage = st, cev_request = request, cev_model = m\<rparr> | None \<Rightarrow> Inr ())"

definition appl_error_of :: "string \<Rightarrow> control_request \<Rightarrow> add_cause \<Rightarrow> last_appl_error" where
  "appl_error_of obj request cause = \<lparr>lae_control_object = obj @ ''$Oper'', lae_error = CeUnknown,
     lae_origin = ctl_origin request, lae_ctl_num = ctl_num request, lae_add_cause = cause\<rparr>"

definition push_pending :: "assoc_id \<Rightarrow> bytes \<Rightarrow> controls \<Rightarrow> controls" where
  "push_pending assoc pdu c = c\<lparr>cts_pending := cts_pending c @ [\<lparr>trm_assoc = assoc, trm_pdu = pdu\<rparr>]\<rparr>"

definition refuse :: "assoc_id \<Rightarrow> string \<Rightarrow> control_request \<Rightarrow> control_model \<Rightarrow> stage \<Rightarrow> add_cause \<Rightarrow> controls \<Rightarrow> access \<times> controls" where
  "refuse assoc obj request m st cause c =
     (let c = push_pending assoc (negative obj request (appl_error_of obj request cause)) (c\<lparr>cts_last_cause := Some cause\<rparr>)
      in if enhanced_security m \<and> st = StOperate then (Inr (), c) else (Inl DATA_ACCESS_DENIED, c))"

definition controls_closed :: "assoc_id \<Rightarrow> controls \<Rightarrow> controls" where
  "controls_closed assoc c = c\<lparr>cts_selections := filter (\<lambda>(_, s). sel_assoc s \<noteq> assoc) (cts_selections c),
     cts_timed := filter (\<lambda>t. tmd_assoc t \<noteq> assoc) (cts_timed c)\<rparr>"

text \<open>One due command: the behaviour and the hook are asked again, then it is applied or refused.\<close>

definition run_timed :: "timed \<Rightarrow> controls \<times> ied \<Rightarrow> controls \<times> ied" where
  "run_timed t st = (case st of (c, s) \<Rightarrow>
     (let obj = tmd_object t; request = tmd_request t;
          refusal = (case mode_refusal (behaviour_of s obj) (ctl_test request) of
             Some cause \<Rightarrow> Inl cause | None \<Rightarrow> ask c obj StOperate request (tmd_model t))
      in case refusal of
           Inl cause \<Rightarrow> (push_pending (tmd_assoc t) (negative obj request (appl_error_of obj request cause)) c, s)
         | Inr _ \<Rightarrow>
            (let s = apply_control obj request (ctl_t request) s
             in if enhanced_security (tmd_model t) then (push_pending (tmd_assoc t) (positive obj request) c, s) else (c, s))))"

definition controls_on_timeout :: "instant \<Rightarrow> controls \<times> ied \<Rightarrow> controls \<times> ied" where
  "controls_on_timeout t st = (case st of (c, s) \<Rightarrow>
     (let c = c\<lparr>cts_selections := filter (\<lambda>(_, x). t < sel_expires x) (cts_selections c)\<rparr>
      in if list_all (\<lambda>x. t < tmd_due x) (cts_timed c) then (c, s)
         else (let due = filter (\<lambda>x. tmd_due x \<le> t) (cts_timed c);
                   waiting = filter (\<lambda>x. \<not> tmd_due x \<le> t) (cts_timed c)
               in fold run_timed due (c\<lparr>cts_timed := waiting\<rparr>, s))))"

definition min_instant :: "instant list \<Rightarrow> instant option" where
  "min_instant xs = (case xs of [] \<Rightarrow> None | x # xs \<Rightarrow> Some (fold min xs x))"

definition controls_next_timeout :: "controls \<Rightarrow> instant option" where
  "controls_next_timeout c = min_instant (map (\<lambda>(_, s). sel_expires s) (cts_selections c) @ map tmd_due (cts_timed c))"

definition split_control :: "string \<Rightarrow> (string \<times> string) option" where
  "split_control r = Option.bind (rsplit_once (CHR ''$'') r) (\<lambda>(obj, attribute).
     if attribute = ''Oper'' \<or> attribute = ''SBOw'' \<or> attribute = ''SBO'' \<or> attribute = ''Cancel'' then Some (obj, attribute) else None)"

definition control_select :: "assoc_id \<Rightarrow> ied \<Rightarrow> string \<Rightarrow> now \<Rightarrow> controls \<Rightarrow> data_value \<times> controls" where
  "control_select assoc s obj t c =
     (if model_of s obj \<noteq> Some SboNormal then (VisibleString [], c)
      else if held_by_other c obj assoc (now_mono t) then (VisibleString [], c)
      else if mode_refusal (behaviour_of s obj) False \<noteq> None then (VisibleString [], c)
      else (case ask c obj StSelect (control_request_new (Boolean False) 0 (now_wall t)) SboNormal of
          Inl _ \<Rightarrow> (VisibleString [], c)
        | Inr _ \<Rightarrow> (VisibleString obj, c\<lparr>cts_selections := AList.update obj
            \<lparr>sel_assoc = assoc, sel_value = None, sel_ctl_num = 0,
             sel_expires = plus_millis (now_mono t) (cts_sbo_timeout_ms c)\<rparr> (cts_selections c)\<rparr>)))"

text \<open>Why a selection does not cover an \<open>Oper\<close>, when it does not.\<close>

definition selection_refusal :: "controls \<Rightarrow> assoc_id \<Rightarrow> string \<Rightarrow> control_request \<Rightarrow> add_cause option" where
  "selection_refusal c assoc obj request = (case map_of (cts_selections c) obj of
     None \<Rightarrow> Some AcObjectNotSelected
   | Some s \<Rightarrow>
       if sel_assoc s \<noteq> assoc then Some AcObjectNotSelected
       else if (case sel_value s of Some v \<Rightarrow> \<not> value_eq v (ctl_val request) | None \<Rightarrow> False) then Some AcInconsistentParameters
       else if sel_ctl_num s \<noteq> 0 \<and> sel_ctl_num s \<noteq> ctl_num request then Some AcInconsistentParameters
       else None)"

text \<open>How long an \<open>operTm\<close> still is ahead, in nanoseconds.\<close>

definition oper_wait :: "control_request \<Rightarrow> now \<Rightarrow> u64 option" where
  "oper_wait request t = Option.bind (oper_tm request) (\<lambda>at.
     Option.bind (checked_sub (utc_to_unix_nanos at) (utc_to_unix_nanos (now_wall t))) (\<lambda>w. if 0 < w then Some w else None))"

definition operate :: "assoc_id \<Rightarrow> string \<Rightarrow> control_request \<Rightarrow> control_model \<Rightarrow> now \<Rightarrow> controls \<times> ied \<Rightarrow> access \<times> controls \<times> ied" where
  "operate assoc obj request m t st = (case st of (c, s) \<Rightarrow>
     (let refused = (\<lambda>cause. case refuse assoc obj request m StOperate cause c of (r, c) \<Rightarrow> (r, c, s)) in
      if m = StatusOnly then refused AcNotSupported
      else case (if needs_select m then selection_refusal c assoc obj request else None) of
        Some cause \<Rightarrow> refused cause
      | None \<Rightarrow> (case ask c obj StOperate request m of
          Inl cause \<Rightarrow> refused cause
        | Inr _ \<Rightarrow>
           (let c = c\<lparr>cts_selections := AList.delete obj (cts_selections c)\<rparr>
            in case oper_wait request t of
               Some wait \<Rightarrow> (Inr (), c\<lparr>cts_timed := filter (\<lambda>x. \<not> (tmd_object x = obj \<and> tmd_assoc x = assoc)) (cts_timed c) @
                  [\<lparr>tmd_assoc = assoc, tmd_object = obj, tmd_request = request\<lparr>ctl_t := now_wall t\<rparr>, tmd_model = m,
                    tmd_due = plus_nanos (now_mono t) wait\<rparr>]\<rparr>, s)
             | None \<Rightarrow>
                (let s = apply_control obj request (now_wall t) s
                 in (Inr (), if enhanced_security m then push_pending assoc (positive obj request) c else c, s))))))"

definition write_sbow :: "assoc_id \<Rightarrow> string \<Rightarrow> control_request \<Rightarrow> control_model \<Rightarrow> now \<Rightarrow> controls \<Rightarrow> access \<times> controls" where
  "write_sbow assoc obj request m t c =
     (if m \<noteq> SboEnhanced then refuse assoc obj request m StSelect AcNotSupported c
      else if held_by_other c obj assoc (now_mono t) then refuse assoc obj request m StSelect AcObjectAlreadySelected c
      else (case ask c obj StSelect request m of
          Inl cause \<Rightarrow> refuse assoc obj request m StSelect cause c
        | Inr _ \<Rightarrow> (Inr (), c\<lparr>cts_selections := AList.update obj
            \<lparr>sel_assoc = assoc, sel_value = Some (ctl_val request), sel_ctl_num = ctl_num request,
             sel_expires = plus_millis (now_mono t) (cts_sbo_timeout_ms c)\<rparr> (cts_selections c)\<rparr>)))"

definition write_cancel :: "assoc_id \<Rightarrow> string \<Rightarrow> control_request \<Rightarrow> control_model \<Rightarrow> controls \<Rightarrow> access \<times> controls" where
  "write_cancel assoc obj request m c =
     (case ask c obj StCancel request m of
        Inl cause \<Rightarrow> refuse assoc obj request m StCancel cause c
      | Inr _ \<Rightarrow>
         (let had_timed = list_ex (\<lambda>x. tmd_object x = obj \<and> tmd_assoc x = assoc) (cts_timed c);
              c = c\<lparr>cts_timed := filter (\<lambda>x. \<not> (tmd_object x = obj \<and> tmd_assoc x = assoc)) (cts_timed c)\<rparr>;
              own = (case map_of (cts_selections c) obj of Some s \<Rightarrow> sel_assoc s = assoc | None \<Rightarrow> False)
          in if own then (Inr (), c\<lparr>cts_selections := AList.delete obj (cts_selections c)\<rparr>)
             else if had_timed then (Inr (), c)
             else refuse assoc obj request m StCancel AcObjectNotSelected c))"

definition control_write :: "assoc_id \<Rightarrow> string \<Rightarrow> string \<Rightarrow> data_value \<Rightarrow> now \<Rightarrow> controls \<times> ied \<Rightarrow> access \<times> controls \<times> ied" where
  "control_write assoc obj attribute v t st =
     (case model_of (snd st) obj of None \<Rightarrow> (Inl DATA_ACCESS_DENIED, st)
      | Some m \<Rightarrow> (case request_from_value v of Inl _ \<Rightarrow> (Inl DATA_ACCESS_VALUE_INVALID, st)
        | Inr request \<Rightarrow> (case controls_on_timeout (now_mono t) st of (c, s) \<Rightarrow>
           (let mode = (if attribute \<noteq> ''Cancel'' then mode_refusal (behaviour_of s obj) (ctl_test request) else None);
                without = (\<lambda>(r, c). (r, c, s))
            in case mode of
                 Some cause \<Rightarrow> without (refuse assoc obj request m (if attribute = ''Oper'' then StOperate else StSelect) cause c)
               | None \<Rightarrow>
                   if attribute = ''SBOw'' then without (write_sbow assoc obj request m t c)
                   else if attribute = ''Cancel'' then without (write_cancel assoc obj request m c)
                   else if attribute = ''Oper'' then operate assoc obj request m t (c, s)
                   else (Inl DATA_ACCESS_DENIED, c, s)))))"


section \<open>Time\<close>

lemma push_pending_keeps [simp]:
  "cts_selections (push_pending a b c) = cts_selections c" "cts_timed (push_pending a b c) = cts_timed c"
  "cts_hook (push_pending a b c) = cts_hook c" "cts_sbo_timeout_ms (push_pending a b c) = cts_sbo_timeout_ms c"
  by (simp_all add: push_pending_def)

lemma refuse_keeps:
  "refuse assoc obj request m st cause c = (r, c') \<Longrightarrow> cts_selections c' = cts_selections c \<and> cts_timed c' = cts_timed c \<and>
    cts_hook c' = cts_hook c \<and> cts_sbo_timeout_ms c' = cts_sbo_timeout_ms c"
  by (auto simp: refuse_def Let_def split: if_splits)

lemma run_timed_keeps [simp]:
  "cts_selections (fst (run_timed x st)) = cts_selections (fst st)" "cts_timed (fst (run_timed x st)) = cts_timed (fst st)"
  "cts_hook (fst (run_timed x st)) = cts_hook (fst st)" "cts_sbo_timeout_ms (fst (run_timed x st)) = cts_sbo_timeout_ms (fst st)"
  by (auto simp: run_timed_def Let_def split: prod.split sum.split option.split)

lemma run_all_keeps [simp]:
  "cts_selections (fst (fold run_timed xs st)) = cts_selections (fst st)" "cts_timed (fst (fold run_timed xs st)) = cts_timed (fst st)"
  "cts_hook (fst (fold run_timed xs st)) = cts_hook (fst st)"
  "cts_sbo_timeout_ms (fst (fold run_timed xs st)) = cts_sbo_timeout_ms (fst st)"
  by (induction xs arbitrary: st) simp_all

lemma on_timeout_selections [simp]:
  "cts_selections (fst (controls_on_timeout t st)) = filter (\<lambda>(_, x). t < sel_expires x) (cts_selections (fst st))"
  by (cases st) (simp add: controls_on_timeout_def Let_def)

lemma on_timeout_timed [simp]:
  "cts_timed (fst (controls_on_timeout t st)) = filter (\<lambda>x. t < tmd_due x) (cts_timed (fst st))"
proof (cases st)
  case (Pair c s)
  have "list_all (\<lambda>x. t < tmd_due x) (cts_timed c) \<Longrightarrow> filter (\<lambda>x. t < tmd_due x) (cts_timed c) = cts_timed c"
    by (simp add: filter_id_conv list_all_iff)
  then show ?thesis using Pair by (simp add: controls_on_timeout_def Let_def not_le)
qed

lemma on_timeout_settings [simp]:
  "cts_hook (fst (controls_on_timeout t st)) = cts_hook (fst st)"
  "cts_sbo_timeout_ms (fst (controls_on_timeout t st)) = cts_sbo_timeout_ms (fst st)"
  by (cases st; simp add: controls_on_timeout_def Let_def)+

lemma fold_min: "fold min xs x = Min (set (x # xs))" for x :: instant
proof (induction xs arbitrary: x)
  case (Cons y ys)
  have "fold min (y # ys) x = Min (insert (min y x) (set ys))" using Cons [of "min y x"] by simp
  also have "\<dots> = Min (insert x (insert y (set ys)))"
    by (cases "ys = []") (simp_all add: min.commute min.assoc min.left_commute)
  finally show ?case by simp
qed simp

lemma min_instant_le: "min_instant xs = Some d \<Longrightarrow> x \<in> set xs \<Longrightarrow> d \<le> x"
  by (cases xs) (auto simp: min_instant_def fold_min)

lemma min_instant_in: "min_instant xs = Some d \<Longrightarrow> d \<in> set xs"
proof (cases xs)
  case (Cons y ys)
  assume "min_instant xs = Some d"
  then have "d = Min (set xs)" using Cons by (simp add: min_instant_def fold_min)
  then show ?thesis using Min_in [of "set xs"] Cons by simp
qed (simp add: min_instant_def)

lemma min_instant_None: "min_instant xs = None \<longleftrightarrow> xs = []"
  by (cases xs) (simp_all add: min_instant_def)

interpretation control_timer: timed_core controls_on_timeout "\<lambda>st. controls_next_timeout (fst st)" "\<lambda>_ _. True"
proof (unfold_locales, goal_cases)
  case (1 st t)
  obtain c s where st: "st = (c, s)" by (cases st)
  have "t < x" if "x \<in> set (map (\<lambda>(_, s). sel_expires s) (cts_selections c) @ map tmd_due (cts_timed c))" for x
  proof (cases "controls_next_timeout c")
    case None
    then show ?thesis using that by (simp add: controls_next_timeout_def min_instant_None)
  next
    case (Some d)
    then have "d \<le> x" using that min_instant_le unfolding controls_next_timeout_def by blast
    moreover have "t < d" using 1 [of d] Some st by simp
    ultimately show ?thesis by simp
  qed
  then have "filter (\<lambda>(_, x). t < sel_expires x) (cts_selections c) = cts_selections c"
    "list_all (\<lambda>x. t < tmd_due x) (cts_timed c)"
    by (auto simp: filter_id_conv list_all_iff)
  then show ?case by (simp add: st controls_on_timeout_def Let_def)
next
  case (2 t st d)
  then show ?case by (auto simp: controls_next_timeout_def dest!: min_instant_in)
qed

section \<open>Selections\<close>

text \<open>
  Every run of the control layer, with the selections it granted: a client is told so by the answer to a
  read of \<open>SBO\<close> and by the success of a write of \<open>SBOw\<close>. Between two operations the model may change in
  any way, and the application may replace its hook and its timeout.
\<close>

definition granted_read :: "assoc_id \<Rightarrow> string \<Rightarrow> now \<Rightarrow> controls \<Rightarrow> data_value \<Rightarrow> (string \<times> selection) list" where
  "granted_read assoc obj t c answer = (if answer = VisibleString [] then []
     else [(obj, \<lparr>sel_assoc = assoc, sel_value = None, sel_ctl_num = 0,
        sel_expires = plus_millis (now_mono t) (cts_sbo_timeout_ms c)\<rparr>)])"

definition granted_write :: "assoc_id \<Rightarrow> string \<Rightarrow> string \<Rightarrow> data_value \<Rightarrow> now \<Rightarrow> controls \<Rightarrow> access \<Rightarrow> (string \<times> selection) list" where
  "granted_write assoc obj attribute v t c r = (case request_from_value v of Inl _ \<Rightarrow> []
   | Inr request \<Rightarrow> if attribute = ''SBOw'' \<and> r = Inr ()
       then [(obj, \<lparr>sel_assoc = assoc, sel_value = Some (ctl_val request), sel_ctl_num = ctl_num request,
          sel_expires = plus_millis (now_mono t) (cts_sbo_timeout_ms c)\<rparr>)] else [])"

inductive control_run :: "(string \<times> selection) list \<Rightarrow> controls \<Rightarrow> ied \<Rightarrow> bool" where
  start: "cts_selections c = [] \<Longrightarrow> control_run [] c s"
| select: "control_run g c s \<Longrightarrow> control_select assoc s obj t c = (answer, c') \<Longrightarrow>
    control_run (granted_read assoc obj t c answer @ g) c' s"
| written: "control_run g c s \<Longrightarrow> control_write assoc obj attribute v t (c, s) = (r, c', s') \<Longrightarrow>
    control_run (granted_write assoc obj attribute v t c r @ g) c' s'"
| timeout: "control_run g c s \<Longrightarrow> controls_on_timeout t (c, s) = (c', s') \<Longrightarrow> control_run g c' s'"
| closed: "control_run g c s \<Longrightarrow> control_run g (controls_closed assoc c) s"
| sent: "control_run g c s \<Longrightarrow> control_run g (snd (take_pending c)) s"
| tracked: "control_run g c s \<Longrightarrow> control_run g (snd (take_last_cause c)) s"
| hook: "control_run g c s \<Longrightarrow> control_run g (c\<lparr>cts_hook := h\<rparr>) s"
| setting: "control_run g c s \<Longrightarrow> control_run g (c\<lparr>cts_sbo_timeout_ms := ms\<rparr>) s"
| process: "control_run g c s \<Longrightarrow> control_run g c s'"

lemma set_update: "set (AList.update k v al) \<subseteq> insert (k, v) (set al)"
  by (induction al) auto

lemma set_delete: "set (AList.delete k al) \<subseteq> set al"
  by (auto simp: AList.delete_eq)

lemma select_selections:
  assumes "control_select assoc s obj t c = (answer, c')"
  shows "set (cts_selections c') \<subseteq> set (granted_read assoc obj t c answer) \<union> set (cts_selections c)"
proof -
  have "obj \<noteq> []" if "model_of s obj = Some SboNormal"
    using that by (auto simp: model_of_def control_path_def split_once_None_iff [THEN iffD2])
  then show ?thesis
    using assms set_update [of obj _ "cts_selections c"]
    by (fastforce simp: control_select_def granted_read_def split: if_splits sum.splits)
qed

lemma operate_selections:
  "operate assoc obj request m t (c, s) = (r, c', s') \<Longrightarrow> set (cts_selections c') \<subseteq> set (cts_selections c)"
  using set_delete [of obj "cts_selections c"]
  by (auto simp: operate_def Let_def split: if_splits option.splits sum.splits prod.splits dest!: refuse_keeps)

lemma cancel_selections:
  "write_cancel assoc obj request m c = (r, c') \<Longrightarrow> set (cts_selections c') \<subseteq> set (cts_selections c)"
  using set_delete [of obj "cts_selections c"]
  by (auto simp: write_cancel_def Let_def split: if_splits option.splits sum.splits dest!: refuse_keeps)

lemma refuse_select_fails: "fst (refuse assoc obj request m StSelect cause c) \<noteq> Inr ()"
  by (simp add: refuse_def Let_def)

lemma sbow_selections:
  "write_sbow assoc obj request m t c = (r, c') \<Longrightarrow> r = Inr () \<and> set (cts_selections c') \<subseteq>
      insert (obj, \<lparr>sel_assoc = assoc, sel_value = Some (ctl_val request), sel_ctl_num = ctl_num request,
             sel_expires = plus_millis (now_mono t) (cts_sbo_timeout_ms c)\<rparr>) (set (cts_selections c)) \<or>
    cts_selections c' = cts_selections c"
  by (auto simp: write_sbow_def split: if_splits sum.splits dest!: refuse_keeps set_mp [OF set_update])

lemma write_selections:
  assumes "control_write assoc obj attribute v t (c, s) = (r, c', s')"
  shows "set (cts_selections c') \<subseteq> set (granted_write assoc obj attribute v t c r) \<union> set (cts_selections c)"
proof (cases "model_of s obj")
  case None
  then show ?thesis using assms by (simp add: control_write_def)
next
  case (Some m)
  show ?thesis
  proof (cases "request_from_value v")
    case (Inl e)
    then show ?thesis using assms Some by (simp add: control_write_def)
  next
    case (Inr request)
    obtain c1 s1 where t: "controls_on_timeout (now_mono t) (c, s) = (c1, s1)" by (cases "controls_on_timeout (now_mono t) (c, s)") auto
    have sub: "set (cts_selections c1) \<subseteq> set (cts_selections c)" "cts_sbo_timeout_ms c1 = cts_sbo_timeout_ms c"
      using on_timeout_selections [of "now_mono t" "(c, s)"] on_timeout_settings [of "now_mono t" "(c, s)"] t by auto
    show ?thesis
      using assms Some Inr sub
      by (fastforce simp: control_write_def t Let_def granted_write_def split: option.splits if_splits prod.splits
        dest!: sbow_selections cancel_selections operate_selections refuse_keeps)
  qed
qed

lemma run_selections_granted: "control_run g c s \<Longrightarrow> set (cts_selections c) \<subseteq> set g"
proof (induction rule: control_run.induct)
  case (select g c s assoc obj t answer c')
  then show ?case using select_selections [OF select.hyps(2)] by auto
next
  case (written g c s assoc obj attribute v t r c' s')
  then show ?case using write_selections [OF written.hyps(2)] by auto
next
  case (timeout g c s t c' s')
  then show ?case using on_timeout_selections [of t "(c, s)"] by auto
qed (auto simp: controls_closed_def take_pending_def take_last_cause_def)


text \<open>What an \<open>Oper\<close> that reached the process, or armed a command, went through.\<close>

lemma operate_executed:
  assumes "operate assoc obj request m t (c, s) = (r, c', s')" "s' \<noteq> s \<or> cts_timed c' \<noteq> cts_timed c"
  shows "r = Inr () \<and> m \<noteq> StatusOnly \<and> ask c obj StOperate request m = Inr () \<and>
    (needs_select m \<longrightarrow> selection_refusal c assoc obj request = None) \<and> map_of (cts_selections c') obj = None"
  using assms by (auto simp: operate_def Let_def delete_conv' split: if_splits option.splits sum.splits prod.splits dest!: refuse_keeps)

lemma covering_selection:
  "selection_refusal c assoc obj request = None \<longleftrightarrow> (\<exists>sel. map_of (cts_selections c) obj = Some sel \<and> sel_assoc sel = assoc \<and>
    (\<forall>w. sel_value sel = Some w \<longrightarrow> value_eq w (ctl_val request)) \<and> (sel_ctl_num sel = 0 \<or> sel_ctl_num sel = ctl_num request))"
  by (auto simp: selection_refusal_def split: option.splits)

text \<open>
  C3: nothing moves without a selection. In every run of the control layer, when an \<open>Oper\<close> on a
  select-before-operate object reaches the process or arms a time-activated command, that very association
  was granted a selection of the object that has not expired; the value operated is the value selected,
  where the selection named one, and the command number agrees; the node's behaviour allows the command
  and the application agreed; and the selection is used up, so it covers one command.
\<close>

theorem operate_needs_selection:
  assumes "control_run g c s" "model_of s obj = Some m" "needs_select m"
    and request: "request_from_value v = Inr request"
    and "control_write assoc obj ''Oper'' v t (c, s) = (r, c', s')" "controls_on_timeout (now_mono t) (c, s) = (c1, s1)"
    and "s' \<noteq> s1 \<or> cts_timed c' \<noteq> cts_timed c1"
  shows "\<exists>sel. (obj, sel) \<in> set g \<and> sel_assoc sel = assoc \<and>
    now_mono t < sel_expires sel \<and> (\<forall>w. sel_value sel = Some w \<longrightarrow> value_eq w (ctl_val request)) \<and>
    (sel_ctl_num sel = 0 \<or> sel_ctl_num sel = ctl_num request) \<and>
    mode_refusal (behaviour_of s1 obj) (ctl_test request) = None \<and> ask c1 obj StOperate request m = Inr () \<and>
    map_of (cts_selections c') obj = None"
proof -
  have op: "mode_refusal (behaviour_of s1 obj) (ctl_test request) = None" "operate assoc obj request m t (c1, s1) = (r, c', s')"
    using assms(2,5-7) by (auto simp: control_write_def Let_def request split: option.splits prod.splits dest!: refuse_keeps)
  note ex = operate_executed [OF op(2) assms(7)]
  then obtain sel where sel: "map_of (cts_selections c1) obj = Some sel" "sel_assoc sel = assoc"
    "\<forall>w. sel_value sel = Some w \<longrightarrow> value_eq w (ctl_val request)" "sel_ctl_num sel = 0 \<or> sel_ctl_num sel = ctl_num request"
    using assms(3) by (auto simp: covering_selection)
  have "(obj, sel) \<in> set (cts_selections c1)" using sel(1) by (rule map_of_SomeD)
  then have "(obj, sel) \<in> set (cts_selections c)" "now_mono t < sel_expires sel"
    using on_timeout_selections [of "now_mono t" "(c, s)"] assms(6) by auto
  then show ?thesis using run_selections_granted [OF assms(1)] sel(2-4) op(1) ex by blast
qed


text \<open>A switch with normal-security select-before-operate, selected and then closed by association 7.\<close>

definition sample_ied :: ied where
  "sample_ied = \<lparr>ied_model = \<lparr>imo_name = [], imo_scl_version = [], imo_access_points = [], imo_devices = [], imo_enum_types = []\<rparr>,
     ied_domains = [\<lparr>dmn_name = ''D'', dmn_nodes = [var_structure ''X'' None [var_structure ''ST'' (Some Fc_ST)
       [var_structure ''P'' (Some Fc_ST) [var_leaf ''stVal'' (Some Fc_ST) B_Boolean]]]]\<rparr>],
     ied_values = map_of [(''D/X$CF$P$ctlModel'', Integer 2), (''D/X$ST$P$stVal'', Boolean False)],
     ied_data_sets = [], ied_blocks = [], ied_dirty = [], ied_edition = Ed2\<rparr>"

definition sample_now :: "u64 \<Rightarrow> now" where
  "sample_now t = \<lparr>now_mono = t, now_wall = utc_default\<rparr>"

definition sample_request :: control_request where
  "sample_request = control_request_new (Boolean True) 1 utc_default"

definition selected :: controls where
  "selected = snd (control_select 7 sample_ied ''D/X$CO$P'' (sample_now 0) controls_new)"

definition operated :: "access \<times> controls \<times> ied" where
  "operated = control_write 7 ''D/X$CO$P'' ''Oper'' (request_to_value sample_request) (sample_now 5) (selected, sample_ied)"

lemma sample_model: "model_of sample_ied ''D/X$CO$P'' = Some SboNormal"
  by code_simp

lemma sample_behaviour: "behaviour_of sample_ied ''D/X$CO$P'' = BhOn"
  by code_simp

lemma sample_leaves: "node_at sample_ied ''D/X$ST$P$stVal'' = Some (var_leaf ''stVal'' (Some Fc_ST) B_Boolean)"
    "node_at sample_ied ''D/X$ST$P$t'' = None" "control_path ''D/X$CO$P'' = Some (''D'', ''X'', ''P'')"
  by code_simp+

lemma node_at_values [simp]: "node_at (s\<lparr>ied_values := m, ied_dirty := q\<rparr>) r = node_at s r"
  by (simp add: node_at_def ied_domain_def)

lemma sample_applied: "ied_values (apply_control ''D/X$CO$P'' sample_request utc_default sample_ied) ''D/X$ST$P$stVal'' = Some (Boolean True)"
  by (simp add: apply_control_def sample_leaves write_leaf_def writable_leaf_def var_leaf_def accepts_def is_boolean_def Let_def
    sample_request_def control_request_new_def)

lemma sample_select: "control_select 7 sample_ied ''D/X$CO$P'' (sample_now 0) controls_new = (VisibleString ''D/X$CO$P'',
    controls_new\<lparr>cts_selections := [(''D/X$CO$P'', \<lparr>sel_assoc = 7, sel_value = None, sel_ctl_num = 0, sel_expires = 30000000000\<rparr>)]\<rparr>)"
proof -
  have "plus_millis 0 30000 = 30000000000" by (simp add: word_unat_eq_iff unat_plus_millis)
  then show ?thesis
    by (simp add: control_select_def sample_model sample_behaviour held_by_other_def controls_new_def mode_refusal_def
      accepts_commands_def is_test_behaviour_def ask_def sample_now_def DEFAULT_SBO_TIMEOUT_MS_def)
qed

lemmas sample_selected = selected_def [unfolded sample_select snd_conv]

lemma sample_run: "control_run (granted_read 7 ''D/X$CO$P'' (sample_now 0) controls_new (VisibleString ''D/X$CO$P'') @ []) selected sample_ied"
proof (rule control_run.select)
  show "control_run [] controls_new sample_ied" by (rule control_run.start) (simp add: controls_new_def)
  show "control_select 7 sample_ied ''D/X$CO$P'' (sample_now 0) controls_new = (VisibleString ''D/X$CO$P'', selected)"
    using sample_select by (simp add: selected_def)
qed

lemma sample_parsed: "request_from_value (request_to_value sample_request) = Inr sample_request"
  by (rule request_value_round) (simp add: sample_request_def control_request_new_def origin_wf_def origin_default_def
      origin_to_code_def origin_from_code_def)

lemma sample_waits: "controls_on_timeout (now_mono (sample_now 5)) (selected, sample_ied) = (selected, sample_ied)"
  by (simp add: controls_on_timeout_def sample_now_def sample_selected controls_new_def)

lemma sample_moves: "snd (snd operated) = apply_control ''D/X$CO$P'' sample_request utc_default sample_ied"
proof -
  have "selection_refusal selected 7 ''D/X$CO$P'' sample_request = None"
    by (simp add: selection_refusal_def sample_selected)
  moreover have "ask selected ''D/X$CO$P'' StOperate sample_request SboNormal = Inr ()"
    by (simp add: ask_def sample_selected controls_new_def)
  moreover have "ctl_test sample_request = False" "oper_tm sample_request = None"
    by (simp_all add: sample_request_def control_request_new_def)
  ultimately show ?thesis
    using sample_waits
    by (simp add: operated_def control_write_def sample_model sample_parsed sample_behaviour mode_refusal_def accepts_commands_def
      is_test_behaviour_def operate_def Let_def needs_select_def oper_wait_def sample_now_def)
qed

theorem operate_needs_selection_witness:
  "\<exists>sel. (''D/X$CO$P'', sel) \<in> set (granted_read 7 ''D/X$CO$P'' (sample_now 0) controls_new (VisibleString ''D/X$CO$P'')) \<and>
     sel_assoc sel = 7 \<and> 5 < sel_expires sel \<and> map_of (cts_selections (fst (snd operated))) ''D/X$CO$P'' = None"
proof -
  have w: "control_write 7 ''D/X$CO$P'' ''Oper'' (request_to_value sample_request) (sample_now 5) (selected, sample_ied) =
      (fst operated, fst (snd operated), snd (snd operated))"
    by (simp add: operated_def)
  have "ied_values sample_ied ''D/X$ST$P$stVal'' = Some (Boolean False)" by code_simp
  then have "snd (snd operated) \<noteq> sample_ied" using sample_moves sample_applied by auto
  then show ?thesis
    using operate_needs_selection [OF sample_run sample_model _ sample_parsed w sample_waits]
    by (auto simp: needs_select_def sample_now_def)
qed

end
