(* ===== verification/Mms_Access.thy ===== *)
theory Mms_Access
  imports Typespec Reference
begin

text \<open>
  What a service names and what it answers with (\<open>src/proto/mms/alternate.rs\<close> and the variable lists and
  access results of \<open>src/proto/mms/mod.rs\<close>): the selection of a part of a variable, lists of variables, the
  scope of a name list, access results and service errors. A PDU keeps what it does not decode as the
  element it was; the types take that element as a parameter, so that two PDUs can be compared up to the
  position their elements were read at.
\<close>

section \<open>Lists of elements\<close>

text \<open>The loop over the children of an element, with the bound it checks before each one.\<close>

function read_items :: "(string \<times> usize) option \<Rightarrow> (tlv \<Rightarrow> 'v result) \<Rightarrow> cursor \<Rightarrow> 'v list \<Rightarrow> 'v list result" where
  "read_items bound get c out = (case cur_next c of
     (None, _) \<Rightarrow> Inr out
   | (Some r, c') \<Rightarrow>
       if (case bound of Some (_, n) \<Rightarrow> n \<le> length out | None \<Rightarrow> False)
       then Inl (LimitExceeded (case bound of Some (w, _) \<Rightarrow> w | None \<Rightarrow> []) (length out + 1))
       else rbind r (\<lambda>t. rbind (get t) (\<lambda>v. read_items bound get c' (out @ [v]))))"
  by pat_completeness auto
termination read_items
  by (relation "measure (\<lambda>(_, _, c, _). cur_left c)") (auto dest: cur_next_left [OF sym])

declare read_items.simps [simp del]

abbreviation datasets :: "limits \<Rightarrow> (string \<times> usize) option" where
  "datasets l \<equiv> Some (''max_dataset_members'', max_dataset_members l)"

abbreviation list_items :: "limits \<Rightarrow> (string \<times> usize) option" where
  "list_items l \<equiv> Some (''max_list_items'', max_list_items l)"

definition within :: "(string \<times> usize) option \<Rightarrow> nat \<Rightarrow> bool" where
  "within bound n \<longleftrightarrow> (case bound of Some (_, m) \<Rightarrow> n \<le> m | None \<Rightarrow> True)"

lemma read_items_elements:
  assumes "\<And>v off. v \<in> set vs \<Longrightarrow> fits (contents v) \<and> (\<exists>v'. get (mk_tlv (tag_of v) (contents v) off) = Inr v' \<and> R v v')"
    and "within bound (length out + length vs)"
  shows "\<exists>vs'. read_items bound get (cur_at pre (concat (map (\<lambda>v. element (tag_of v) (contents v)) vs)) base) out = Inr (out @ vs') \<and>
    list_all2 R vs vs'"
  using assms
proof (induction vs arbitrary: pre out)
  case Nil
  then show ?case by (simp add: read_items.simps)
next
  case (Cons v vs)
  let ?t = "mk_tlv (tag_of v) (contents v) (base + length pre)"
  obtain v' where v: "fits (contents v)" "get ?t = Inr v'" "R v v'" using Cons.prems(1) [of v "base + length pre"] by auto
  obtain vs' where "read_items bound get (cur_at (pre @ element (tag_of v) (contents v)) (concat (map (\<lambda>v. element (tag_of v) (contents v)) vs)) base)
      (out @ [v']) = Inr ((out @ [v']) @ vs')" "list_all2 R vs vs'"
    using Cons.IH [of "out @ [v']" "pre @ element (tag_of v) (contents v)"] Cons.prems by auto
  moreover have "\<not> (case bound of Some (_, n) \<Rightarrow> n \<le> length out | None \<Rightarrow> False)"
    using Cons.prems(2) by (auto simp: within_def split: option.splits)
  ultimately show ?case using v by (subst read_items.simps) (auto split: option.splits)
qed

section \<open>Alternate access\<close>

definition MAX_DEPTH :: usize where "MAX_DEPTH = 16"

definition last_tag :: "selector \<Rightarrow> u32" where
  "last_tag s = (case s of Component _ \<Rightarrow> 1 | Index _ \<Rightarrow> 2 | IndexRange _ _ \<Rightarrow> 3 | AllElements \<Rightarrow> 4)"

definition inner_tag :: "selector \<Rightarrow> u32" where
  "inner_tag s = last_tag s - 1"

type_synonym access_path = "selector list"

definition path_selector :: "tlv \<Rightarrow> u32 \<Rightarrow> selector result" where
  "path_selector t as_last =
     (if tag_class (tlv_tag t) \<noteq> Context then Inl (Decode UnexpectedTag (tlv_offset t))
      else if as_last = 1 then rbind (visible_string t) (\<lambda>s. Inr (Component s))
      else if as_last = 2 then rbind (unsigned_lenient_u32 t) (\<lambda>i. Inr (Index i))
      else if as_last = 3 then fst (sbind (field (tag_context 0) unsigned_lenient_u32) (\<lambda>low.
             sbind (field (tag_context 1) unsigned_lenient_u32) (\<lambda>count. sreturn (IndexRange low count))) (children t))
      else if as_last = 4 then Inr AllElements
      else Inl (Decode UnexpectedTag (tlv_offset t)))"

function path_parse_into :: "tlv \<Rightarrow> usize \<Rightarrow> access_path result" where
  "path_parse_into t depth =
     (if MAX_DEPTH \<le> depth then Inl (LimitExceeded ''alternate_access_depth'' (depth + 1))
      else (case next_required (children t) of (Inl e, _) \<Rightarrow> Inl e
      | (Inr first, c) \<Rightarrow>
          if \<not> cur_is_empty c then Inl (Decode BadValue (tlv_offset first))
          else if tlv_tag first = tag_context_constructed 0 then
            (case next_required (children first) of (Inl e, _) \<Rightarrow> Inl e
             | (Inr selection, inner) \<Rightarrow>
                 rbind (path_selector selection (tag_number (tlv_tag selection) + 1)) (\<lambda>s.
                 (case next_tag TAG_SEQUENCE inner of (Inl e, _) \<Rightarrow> Inl e
                  | (Inr rest, inner) \<Rightarrow> rbind (cur_finish inner) (\<lambda>_.
                      rbind (path_parse_into rest (depth + 1)) (\<lambda>steps. Inr (s # steps))))))
          else rbind (path_selector first (tag_number (tlv_tag first))) (\<lambda>s. Inr [s])))"
  by pat_completeness auto
termination path_parse_into by (relation "measure (\<lambda>(_, d). MAX_DEPTH - d)") auto

declare path_parse_into.simps [simp del]

definition path_parse :: "tlv \<Rightarrow> access_path result" where
  "path_parse t = path_parse_into t 0"

definition write_selector :: "selector \<Rightarrow> u32 \<Rightarrow> enc" where
  "write_selector s t = (case s of
     Component name \<Rightarrow> enc_visible_string (tag_context t) name
   | Index i \<Rightarrow> enc_unsigned (tag_context t) (ucast i)
   | IndexRange low count \<Rightarrow> constructed (tag_context_constructed t)
       (sbind (enc_unsigned (tag_context 0) (ucast low)) (\<lambda>_. enc_unsigned (tag_context 1) (ucast count)))
   | AllElements \<Rightarrow> primitive (tag_context t) [])"

fun write_steps :: "access_path \<Rightarrow> enc" where
  "write_steps [] = sreturn ()"
| "write_steps [s] = write_selector s (last_tag s)"
| "write_steps (s # rest) = constructed (tag_context_constructed 0)
     (sbind (write_selector s (inner_tag s)) (\<lambda>_. constructed TAG_SEQUENCE (write_steps rest)))"

definition path_write :: "access_path \<Rightarrow> enc" where
  "path_write p = (if p = [] then sreturn () else constructed (tag_context_constructed 5) (write_steps p))"

definition next_alternate :: "access_path option rd" where
  "next_alternate = opt_field (tag_context_constructed 5) path_parse"

text \<open>What a path is written as.\<close>

fun selector_contents :: "selector \<Rightarrow> bytes" where
  "selector_contents (Component name) = as_bytes name"
| "selector_contents (Index i) = unsigned_octets (ucast i)"
| "selector_contents (IndexRange low count) =
     element (tag_context 0) (unsigned_octets (ucast low)) @ element (tag_context 1) (unsigned_octets (ucast count))"
| "selector_contents AllElements = []"

fun selector_tag :: "selector \<Rightarrow> u32 \<Rightarrow> tag" where
  "selector_tag (IndexRange _ _) n = tag_context_constructed n"
| "selector_tag _ n = tag_context n"

fun selector_ok :: "selector \<Rightarrow> bool" where
  "selector_ok (Component name) \<longleftrightarrow> ascii_str name \<and> fits (as_bytes name)"
| "selector_ok _ \<longleftrightarrow> True"

fun steps_contents :: "access_path \<Rightarrow> bytes" where
  "steps_contents [] = []"
| "steps_contents [s] = element (selector_tag s (last_tag s)) (selector_contents s)"
| "steps_contents (s # rest) = element (tag_context_constructed 0)
     (element (selector_tag s (inner_tag s)) (selector_contents s) @ element TAG_SEQUENCE (steps_contents rest))"

definition path_ok :: "access_path \<Rightarrow> bool" where
  "path_ok p \<longleftrightarrow> p \<noteq> [] \<and> length p \<le> MAX_DEPTH \<and> list_all selector_ok p \<and> fits (steps_contents p)"

lemma number_element_short: "length (element t (unsigned_octets v)) \<le> 20"
  using element_bound [of "unsigned_octets v" 9 t] by simp

lemma selector_fits: "selector_ok s \<Longrightarrow> fits (selector_contents s)"
proof (cases s)
  case (IndexRange low count)
  show ?thesis
    using number_element_short [of "tag_context 0" "ucast low"] number_element_short [of "tag_context 1" "ucast count"]
    unfolding IndexRange selector_contents.simps length_append by linarith
qed simp_all

lemma emits_selector:
  assumes "selector_ok s"
  shows "emits (write_selector s n) (element (selector_tag s n) (selector_contents s))"
proof (cases s)
  case (IndexRange low count)
  have "emits (sbind (enc_unsigned (tag_context 0) (ucast low)) (\<lambda>_. enc_unsigned (tag_context 1) (ucast count))) (selector_contents s)"
    unfolding IndexRange selector_contents.simps by (intro emits_bind unsigned_field.put_emits TrueI)
  then show ?thesis using selector_fits [OF assms] by (simp add: write_selector_def IndexRange emits_constructed)
qed (use assms in \<open>auto simp: write_selector_def intro!: visible_field.put_emits unsigned_field.put_emits octets_field.put_emits\<close>)

lemma path_selector_read:
  assumes "selector_ok s" "tlv_tag t = selector_tag s n" "tlv_value t = selector_contents s"
  shows "path_selector t (last_tag s) = Inr s"
proof (cases s)
  case (IndexRange low count)
  then show ?thesis
    using assms by (simp add: path_selector_def last_tag_def tag_defs cur_at_start sbind_def lenient_u32_field.get_mk_tlv
        field_element [where rest = "[]", simplified])
qed (use assms in \<open>auto simp: path_selector_def last_tag_def tag_defs visible_field.get_contents lenient_u32_field.get_contents\<close>)


lemma selector_tag_facts [simp]:
  "tag_class (selector_tag s n) = Context" "tag_number (selector_tag s n) = n" "selector_tag s n = tag_context_constructed 0 \<longleftrightarrow>
    n = 0 \<and> (\<exists>low count. s = IndexRange low count)"
  by (cases s; auto simp: tag_defs)+

lemma last_tag_pos [simp]: "last_tag s \<noteq> 0" "inner_tag s + 1 = last_tag s"
  by (cases s; simp add: last_tag_def inner_tag_def)+

lemma steps_contents_Cons: "steps_contents (s # rest) = (if rest = [] then element (selector_tag s (last_tag s)) (selector_contents s)
    else element (tag_context_constructed 0)
      (element (selector_tag s (inner_tag s)) (selector_contents s) @ element TAG_SEQUENCE (steps_contents rest)))"
  by (cases rest) auto

lemma write_steps_Cons: "write_steps (s # rest) = (if rest = [] then write_selector s (last_tag s)
    else constructed (tag_context_constructed 0)
      (sbind (write_selector s (inner_tag s)) (\<lambda>_. constructed TAG_SEQUENCE (write_steps rest))))"
  by (cases rest) auto

lemma steps_fit:
  assumes "fits (steps_contents (s # rest))" "rest \<noteq> []"
  shows "fits (element (selector_tag s (inner_tag s)) (selector_contents s) @ element TAG_SEQUENCE (steps_contents rest))"
    "fits (steps_contents rest)"
proof -
  show "fits (element (selector_tag s (inner_tag s)) (selector_contents s) @ element TAG_SEQUENCE (steps_contents rest))"
    using assms fits_element by (simp only: steps_contents_Cons if_False)
  then have "fits (element TAG_SEQUENCE (steps_contents rest))" by simp
  then show "fits (steps_contents rest)" by (rule fits_element)
qed

lemma emits_steps: "list_all selector_ok p \<Longrightarrow> fits (steps_contents p) \<Longrightarrow> emits (write_steps p) (steps_contents p)"
proof (induction p)
  case (Cons s rest)
  show ?case
  proof (cases "rest = []")
    case False
    note f = steps_fit [OF Cons.prems(2) False]
    have "emits (constructed TAG_SEQUENCE (write_steps rest)) (element TAG_SEQUENCE (steps_contents rest))"
      using Cons.IH Cons.prems(1) f by (intro emits_constructed) auto
    then show ?thesis
      using Cons.prems(1) f(1) False by (auto simp: write_steps_Cons steps_contents_Cons intro!: emits_constructed emits_bind emits_selector)
  qed (use Cons.prems in \<open>simp add: emits_selector\<close>)
qed (simp add: emits_return)

lemma path_read:
  assumes "p \<noteq> []" "list_all selector_ok p" "fits (steps_contents p)" "d + length p \<le> MAX_DEPTH" "tlv_value t = steps_contents p"
  shows "path_parse_into t d = Inr p"
  using assms
proof (induction p arbitrary: t d)
  case (Cons s rest)
  have s: "selector_ok s" "fits (selector_contents s)" using Cons.prems(2) by (auto intro: selector_fits)
  have d: "\<not> MAX_DEPTH \<le> d" using Cons.prems(4) by simp
  show ?case
  proof (cases "rest = []")
    case True
    have "selector_tag s (last_tag s) \<noteq> tag_context_constructed 0" by simp
    then show ?thesis
      using Cons.prems(5) True s d
      by (subst path_parse_into.simps) (simp add: cur_at_start path_selector_read [OF s(1)])
  next
    case False
    note f = steps_fit [OF Cons.prems(3) False]
    let ?off = "tlv_value_offset t"
    let ?inner = "element (selector_tag s (inner_tag s)) (selector_contents s) @ element TAG_SEQUENCE (steps_contents rest)"
    have "path_parse_into u (d + 1) = Inr rest" if "tlv_value u = steps_contents rest" for u
      using that Cons.IH [of "d + 1" u] Cons.prems f False by auto
    moreover have "path_selector (mk_tlv (selector_tag s (inner_tag s)) (selector_contents s) off) (last_tag s) = Inr s" for off
      by (rule path_selector_read [OF s(1)]) simp_all
    ultimately show ?thesis
      using Cons.prems(5) False s d f
      by (subst path_parse_into.simps) (simp add: cur_at_start steps_contents_Cons)
  qed
qed simp

lemma path_roundtrip: "path_ok p \<Longrightarrow> emits (path_write p) (element (tag_context_constructed 5) (steps_contents p))"
  "path_ok p \<Longrightarrow> tlv_value t = steps_contents p \<Longrightarrow> path_parse t = Inr p"
  by (auto simp: path_ok_def path_write_def path_parse_def intro!: emits_constructed emits_steps path_read)

section \<open>Scopes and errors\<close>

type_synonym raw = "tag \<times> bytes"

definition raw_of :: "tlv \<Rightarrow> raw" where
  "raw_of t = (tlv_tag t, tlv_value t)"

definition raw_write :: "raw \<Rightarrow> enc" where
  "raw_write r = primitive (fst r) (snd r)"

datatype 't object_scope = ScopeVmd | ScopeDomain string | ScopeAa | ScopeOther 't

definition object_scope_parse :: "tlv \<Rightarrow> tlv object_scope result" where
  "object_scope_parse t = (let n = tag_number (tlv_tag t) in
     if tag_class (tlv_tag t) \<noteq> Context then Inl (Decode UnexpectedTag (tlv_offset t))
     else if n = 0 then Inr ScopeVmd
     else if n = 1 then rbind (visible_string t) (\<lambda>d. Inr (ScopeDomain d))
     else if n = 2 then Inr ScopeAa
     else Inr (ScopeOther t))"

definition object_scope_write :: "raw object_scope \<Rightarrow> enc" where
  "object_scope_write s = (case s of
     ScopeVmd \<Rightarrow> primitive (tag_context 0) []
   | ScopeDomain d \<Rightarrow> enc_visible_string (tag_context 1) d
   | ScopeAa \<Rightarrow> primitive (tag_context 2) []
   | ScopeOther t \<Rightarrow> raw_write t)"

fun object_scope_tag :: "raw object_scope \<Rightarrow> tag" where
  "object_scope_tag ScopeVmd = tag_context 0"
| "object_scope_tag (ScopeDomain _) = tag_context 1"
| "object_scope_tag ScopeAa = tag_context 2"
| "object_scope_tag (ScopeOther t) = fst t"

fun object_scope_contents :: "raw object_scope \<Rightarrow> bytes" where
  "object_scope_contents (ScopeDomain d) = as_bytes d"
| "object_scope_contents (ScopeOther t) = snd t"
| "object_scope_contents _ = []"

fun object_scope_ok :: "raw object_scope \<Rightarrow> bool" where
  "object_scope_ok (ScopeDomain d) \<longleftrightarrow> ascii_str d \<and> fits (as_bytes d)"
| "object_scope_ok (ScopeOther t) \<longleftrightarrow> tag_class (fst t) = Context \<and> tag_number (fst t) > 2 \<and> fits (snd t)"
| "object_scope_ok _ \<longleftrightarrow> True"

lemma raw_of_mk [simp]: "raw_of (mk_tlv t c off) = (t, c)"
  by (simp add: raw_of_def)

record service_error =
  sve_class :: u32
  sve_code :: i64
  sve_additional :: "i64 option"

definition service_error_default :: service_error where
  "service_error_default = \<lparr>sve_class = 0, sve_code = 0, sve_additional = None\<rparr>"

definition service_error_encode :: "tag \<Rightarrow> u32 \<Rightarrow> i64 \<Rightarrow> bytes result" where
  "service_error_encode t cls code =
     (case constructed t (constructed (tag_context_constructed 0) (enc_integer (tag_context cls) code)) [] of
        (Inl e, _) \<Rightarrow> Inl e | (Inr _, bs) \<Rightarrow> Inr bs)"

definition service_error_field :: "tlv \<Rightarrow> service_error \<Rightarrow> service_error result" where
  "service_error_field f out =
     (if tag_class (tlv_tag f) = Context \<and> tag_number (tlv_tag f) = 0 then
        (case next_required (children f) of (Inl e, _) \<Rightarrow> Inl e
         | (Inr inner, _) \<Rightarrow> Inr (out\<lparr>sve_class := tag_number (tlv_tag inner),
             sve_code := (case integer_i64 inner of Inl _ \<Rightarrow> 0 | Inr v \<Rightarrow> v)\<rparr>))
      else if tag_class (tlv_tag f) = Context \<and> tag_number (tlv_tag f) = 1 then
        rbind (integer_i64 f) (\<lambda>v. Inr (out\<lparr>sve_additional := Some v\<rparr>))
      else Inr out)"

function service_error_fields :: "cursor \<Rightarrow> service_error \<Rightarrow> service_error result" where
  "service_error_fields c out = (case cur_next c of
     (None, _) \<Rightarrow> Inr out
   | (Some r, c') \<Rightarrow> rbind r (\<lambda>f. rbind (service_error_field f out) (service_error_fields c')))"
  by pat_completeness auto
termination service_error_fields
  by (relation "measure (\<lambda>(c, _). cur_left c)") (auto dest: cur_next_left [OF sym])

declare service_error_fields.simps [simp del]

definition service_error_parse :: "tlv \<Rightarrow> service_error result" where
  "service_error_parse t = service_error_fields (children t) service_error_default"

text \<open>The error this end encodes is the error its peer decodes.\<close>

lemma service_error_round:
  "\<exists>c. service_error_encode t cls code = Inr (element t c) \<and>
    service_error_parse (mk_tlv t c off) = Inr \<lparr>sve_class = cls, sve_code = code, sve_additional = None\<rparr>"
proof -
  let ?i = "element (tag_context cls) (integer_octets code)"
  let ?c = "element (tag_context_constructed 0) ?i"
  have i: "length ?i \<le> 19" using element_bound [of "integer_octets code" 8 "tag_context cls"] by simp
  then have c: "fits ?i" "fits ?c" using element_bound [of ?i 19 "tag_context_constructed 0"] by simp_all
  have "emits (constructed t (constructed (tag_context_constructed 0) (enc_integer (tag_context cls) code))) (element t ?c)"
    using c by (intro emits_constructed integer_field.put_emits) auto
  then have "service_error_encode t cls code = Inr (element t ?c)" by (simp add: service_error_encode_def emitsD)
  moreover have "service_error_parse (mk_tlv t ?c off) = Inr \<lparr>sve_class = cls, sve_code = code, sve_additional = None\<rparr>"
    using c by (simp add: service_error_parse_def cur_at_start service_error_fields.simps [of "cur_at [] x y" for x y]
        service_error_fields.simps [of "cur_at x [] y" for x y] service_error_field_def tag_defs service_error_default_def
        integer_field.get_mk_tlv)
  ultimately show ?thesis by blast
qed

section \<open>Variables and results\<close>

datatype 't variable_specification = VsName object_name | VsElement object_name access_path | VsOther 't
datatype 't variable_access = ListOfVariable "'t variable_specification list" | VariableListName object_name
datatype 't access_result = AccessFailure i64 | AccessSuccess 't
datatype write_result = WriteFailure i64 | WriteSuccess

definition vs_name :: "'t variable_specification \<Rightarrow> object_name option" where
  "vs_name v = (case v of VsName n \<Rightarrow> Some n | VsElement n _ \<Rightarrow> Some n | VsOther _ \<Rightarrow> None)"

definition vs_access :: "'t variable_specification \<Rightarrow> access_path option" where
  "vs_access v = (case v of VsElement _ a \<Rightarrow> Some a | _ \<Rightarrow> None)"

definition vs_of :: "object_name \<Rightarrow> access_path \<Rightarrow> 't variable_specification" where
  "vs_of n a = (if a = [] then VsName n else VsElement n a)"

definition parse_variable :: "tlv \<Rightarrow> tlv variable_specification result" where
  "parse_variable item = rbind (expect TAG_SEQUENCE item) (\<lambda>item.
     (case next_required (children item) of (Inl e, _) \<Rightarrow> Inl e
      | (Inr spec, c) \<Rightarrow>
          if tlv_tag spec = tag_context_constructed 0 then
            rbind (rbind (fst (next_required (children spec))) object_name_parse) (\<lambda>name.
            rbind (fst (next_alternate c)) (\<lambda>a. Inr (case a of Some p \<Rightarrow> VsElement name p | None \<Rightarrow> VsName name)))
          else Inr (VsOther spec)))"

definition parse_variable_list :: "tlv \<Rightarrow> limits \<Rightarrow> tlv variable_specification list result" where
  "parse_variable_list t l = read_items (datasets l) parse_variable (children t) []"

definition write_variable :: "raw variable_specification \<Rightarrow> enc" where
  "write_variable v = constructed TAG_SEQUENCE (case v of
     VsName n \<Rightarrow> constructed (tag_context_constructed 0) (object_name_write n)
   | VsElement n a \<Rightarrow> sbind (constructed (tag_context_constructed 0) (object_name_write n)) (\<lambda>_. path_write a)
   | VsOther t \<Rightarrow> raw_write t)"

definition write_variable_list :: "raw variable_specification list \<Rightarrow> tag \<Rightarrow> enc" where
  "write_variable_list items t = constructed t (sfor write_variable items)"

definition variable_access_parse :: "tlv \<Rightarrow> tlv variable_access result" where
  "variable_access_parse t =
     (if tag_class (tlv_tag t) = Context \<and> tag_number (tlv_tag t) = 0
      then rbind (parse_variable_list t default_limits) (\<lambda>items. Inr (ListOfVariable items))
      else if tag_class (tlv_tag t) = Context \<and> tag_number (tlv_tag t) = 1
      then rbind (rbind (fst (next_required (children t))) object_name_parse) (\<lambda>n. Inr (VariableListName n))
      else Inl (Decode UnexpectedTag (tlv_offset t)))"

definition variable_access_write :: "raw variable_access \<Rightarrow> enc" where
  "variable_access_write a = (case a of
     ListOfVariable items \<Rightarrow> write_variable_list items (tag_context_constructed 0)
   | VariableListName n \<Rightarrow> constructed (tag_context_constructed 1) (object_name_write n))"

definition access_result_parse :: "tlv \<Rightarrow> tlv access_result result" where
  "access_result_parse t =
     (if tlv_tag t = tag_context 0 then rbind (integer_i64 t) (\<lambda>c. Inr (AccessFailure c))
      else rbind (from_tlv t) (\<lambda>_. Inr (AccessSuccess t)))"

definition parse_access_results :: "tlv \<Rightarrow> limits \<Rightarrow> tlv access_result list result" where
  "parse_access_results t l = read_items (datasets l) access_result_parse (children t) []"

definition write_access_result :: "raw access_result \<Rightarrow> enc" where
  "write_access_result r = (case r of AccessFailure c \<Rightarrow> enc_integer (tag_context 0) c | AccessSuccess t \<Rightarrow> raw_write t)"

definition write_access_results :: "raw access_result list \<Rightarrow> tag \<Rightarrow> enc" where
  "write_access_results rs t = constructed t (sfor write_access_result rs)"

definition access_value :: "tlv access_result \<Rightarrow> data_view option" where
  "access_value r = (case r of AccessSuccess t \<Rightarrow> (case from_tlv t of Inl _ \<Rightarrow> None | Inr v \<Rightarrow> Some v) | AccessFailure _ \<Rightarrow> None)"

end
