(* ===== verification/Report.thy ===== *)
theory Report
  imports Mms_Access
begin

text \<open>
  IEC 61850 reports (\<open>src/proto/mms/report.rs\<close>): the values a report is carried by, in the order its
  option fields decide, and the assembler that joins the segments of a long report. The facts: a
  well-formed report is read back from its values, whatever reads is well-formed, the inclusion bit string
  names the members it was built from, and the assembler's memory is bounded.
\<close>

section \<open>Reports\<close>

record report_entry =
  rpe_index :: usize
  rpe_reference :: "string option"
  rpe_value :: data_value
  rpe_reason :: "reason_code option"

record report =
  rpt_id :: string
  rpt_opt_flds :: opt_flds
  rpt_seq_num :: "u32 option"
  rpt_time_of_entry :: "entry_time option"
  rpt_data_set :: "string option"
  rpt_buf_ovfl :: "bool option"
  rpt_entry_id :: "bytes option"
  rpt_conf_rev :: "u32 option"
  rpt_sub_seq_num :: "u32 option"
  rpt_more_segments_follow :: bool
  rpt_inclusion :: "u8 \<times> bytes"
  rpt_entries :: "report_entry list"

section \<open>The inclusion bit string\<close>

definition inclusion_len :: "u8 \<Rightarrow> bytes \<Rightarrow> usize" where
  "inclusion_len unused bs = length bs * 8 - unat unused"

definition included_indices :: "u8 \<Rightarrow> bytes \<Rightarrow> usize list" where
  "included_indices unused bs = filter (\<lambda>i. case get_at bs (i div 8) of
     Some b \<Rightarrow> drop_bit (7 - i mod 8) b AND 1 = 1 | None \<Rightarrow> False) [0..<inclusion_len unused bs]"

definition inclusion_for :: "usize \<Rightarrow> usize list \<Rightarrow> u8 \<times> bytes" where
  "inclusion_for members included =
     (let octets = (members + 7) div 8;
          bs = fold (\<lambda>i bs. case get_at bs (i div 8) of
                 Some b \<Rightarrow> bs[i div 8 := b OR push_bit (7 - i mod 8) 1] | None \<Rightarrow> bs)
               (filter (\<lambda>i. i < members) included) (replicate octets 0)
      in (of_nat (octets * 8 - members), bs))"

definition data_set_len :: "report \<Rightarrow> usize" where
  "data_set_len r = inclusion_len (fst (rpt_inclusion r)) (snd (rpt_inclusion r))"

definition is_partial :: "report \<Rightarrow> bool" where
  "is_partial r = rpt_more_segments_follow r"

section \<open>Reading the values\<close>

definition report_unsigned :: "string \<Rightarrow> data_value \<Rightarrow> u32 result" where
  "report_unsigned what v = (case v of
     Unsigned n \<Rightarrow> ok_or (InvalidValue what) (narrow n)
   | Integer i \<Rightarrow> if 0 \<le> sint i then ok_or (InvalidValue what) (narrow i) else Inl (InvalidValue what)
   | _ \<Rightarrow> Inl (InvalidValue what))"

definition report_entry_time :: "data_value \<Rightarrow> entry_time result" where
  "report_entry_time v = (case v of
     BinaryTime b \<Rightarrow> if length b = 6 then Inr (et_from_octets b) else Inl (InvalidValue ''TimeOfEntry is not six octets'')
   | UtcTime t \<Rightarrow> Inr (et_from_unix_millis (utc_to_unix_nanos t div 1000000))
   | _ \<Rightarrow> Inl (InvalidValue ''TimeOfEntry is not a binary time''))"

definition report_octets :: "data_value \<Rightarrow> bytes result" where
  "report_octets v = (case v of OctetString b \<Rightarrow> Inr b | _ \<Rightarrow> Inl (InvalidValue ''EntryID is not an octet string''))"

definition report_inclusion :: "data_value \<Rightarrow> (u8 \<times> bytes) result" where
  "report_inclusion v = (case v of BitString unused bs \<Rightarrow> Inr (unused, bs)
     | _ \<Rightarrow> Inl (InvalidValue ''the inclusion field is not a bit string''))"

text \<open>The next value, read by \<open>f\<close>; an optional one; and a run of \<open>n\<close> of them.\<close>

definition next_field :: "string \<Rightarrow> (data_value \<Rightarrow> 'a result) \<Rightarrow> data_value list \<Rightarrow> ('a \<times> data_value list) result" where
  "next_field what f vs = (case vs of [] \<Rightarrow> Inl (NotFound what) | v # rest \<Rightarrow> rbind (f v) (\<lambda>x. Inr (x, rest)))"

definition field_if :: "bool \<Rightarrow> string \<Rightarrow> (data_value \<Rightarrow> 'a result) \<Rightarrow> data_value list \<Rightarrow> ('a option \<times> data_value list) result" where
  "field_if flag what f vs = (if flag then rbind (next_field what f vs) (\<lambda>(x, rest). Inr (Some x, rest)) else Inr (None, vs))"

fun field_run :: "string \<Rightarrow> (data_value \<Rightarrow> 'a result) \<Rightarrow> nat \<Rightarrow> data_value list \<Rightarrow> ('a list \<times> data_value list) result" where
  "field_run what f 0 vs = Inr ([], vs)"
| "field_run what f (Suc n) vs = rbind (next_field what f vs) (\<lambda>(x, rest).
     rbind (field_run what f n rest) (\<lambda>(xs, rest). Inr (x # xs, rest)))"

definition field_run_if :: "bool \<Rightarrow> string \<Rightarrow> (data_value \<Rightarrow> 'a result) \<Rightarrow> nat \<Rightarrow> data_value list \<Rightarrow> ('a list \<times> data_value list) result" where
  "field_run_if flag what f n vs = (if flag then field_run what f n vs else Inr ([], vs))"

fun report_entries :: "nat \<Rightarrow> usize list \<Rightarrow> string list \<Rightarrow> data_value list \<Rightarrow> reason_code list \<Rightarrow> report_entry list result" where
  "report_entries n [] references vals reasons = Inr []"
| "report_entries n (i # rest) references vals reasons =
     rbind (ok_or (NotFound ''a value for an included member'') (get_at vals n)) (\<lambda>v.
     rbind (report_entries (Suc n) rest references vals reasons) (\<lambda>es.
     Inr (\<lparr>rpe_index = i, rpe_reference = get_at references n, rpe_value = v, rpe_reason = get_at reasons n\<rparr> # es)))"

definition report_from_values :: "data_value list \<Rightarrow> report result" where
  "report_from_values values =
     rbind (next_field ''RptID'' (\<lambda>v. ok_or (InvalidValue ''RptID is not a string'') (as_str v)) values) (\<lambda>(i, vs).
     rbind (next_field ''OptFlds'' (\<lambda>v. ok_or (InvalidValue ''OptFlds is not a bit string'') (opt_flds_from_value v)) vs) (\<lambda>(o', vs).
     rbind (field_if (opt_sequence_number o') ''SqNum'' (report_unsigned ''SqNum'') vs) (\<lambda>(seq, vs).
     rbind (field_if (opt_report_time_stamp o') ''TimeOfEntry'' report_entry_time vs) (\<lambda>(time, vs).
     rbind (field_if (opt_data_set_name o') ''DatSet'' (\<lambda>v. ok_or (InvalidValue ''DatSet is not a string'') (as_str v)) vs) (\<lambda>(ds, vs).
     rbind (field_if (opt_buffer_overflow o') ''BufOvfl'' (\<lambda>v. ok_or (InvalidValue ''BufOvfl is not a boolean'') (as_bool v)) vs) (\<lambda>(ovfl, vs).
     rbind (field_if (opt_entry_id o') ''EntryID'' report_octets vs) (\<lambda>(eid, vs).
     rbind (field_if (opt_conf_revision o') ''ConfRev'' (report_unsigned ''ConfRev'') vs) (\<lambda>(rev, vs).
     rbind (field_if (opt_segmentation o') ''SubSeqNum'' (report_unsigned ''SubSeqNum'') vs) (\<lambda>(sub, vs).
     rbind (field_if (opt_segmentation o') ''MoreSegmentsFollow''
       (\<lambda>v. ok_or (InvalidValue ''MoreSegmentsFollow is not a boolean'') (as_bool v)) vs) (\<lambda>(more', vs).
     rbind (next_field ''Inclusion'' report_inclusion vs) (\<lambda>((unused, bs), vs).
     (let indices = included_indices unused bs; n = length indices in
     rbind (field_run_if (opt_data_reference o') ''data-reference''
       (\<lambda>v. ok_or (InvalidValue ''a data reference is not a string'') (as_str v)) n vs) (\<lambda>(references, vs).
     rbind (field_run ''value'' Inr n vs) (\<lambda>(vals, vs).
     rbind (field_run_if (opt_reason_for_inclusion o') ''ReasonCode''
       (\<lambda>v. ok_or (InvalidValue ''a reason code is not a bit string'') (trg_ops_from_value v)) n vs) (\<lambda>(reasons, vs).
     if vs \<noteq> [] then Inl (Decode TrailingBytes (length values - length vs))
     else rbind (report_entries 0 indices references vals reasons) (\<lambda>entries.
     Inr \<lparr>rpt_id = i, rpt_opt_flds = o', rpt_seq_num = seq, rpt_time_of_entry = time, rpt_data_set = ds, rpt_buf_ovfl = ovfl,
       rpt_entry_id = eid, rpt_conf_rev = rev, rpt_sub_seq_num = sub,
       rpt_more_segments_follow = (case more' of Some b \<Rightarrow> b | None \<Rightarrow> False),
       rpt_inclusion = (unused, bs), rpt_entries = entries\<rparr>))))))))))))))))"

text \<open>The \<open>AccessResult\<close>s of the information report that carries it.\<close>

fun access_values :: "tlv access_result list \<Rightarrow> limits \<Rightarrow> data_value list result" where
  "access_values [] l = Inr []"
| "access_values (AccessSuccess t # rest) l = rbind (from_tlv t) (\<lambda>v. rbind (to_owned l v) (\<lambda>x.
     rbind (access_values rest l) (\<lambda>xs. Inr (x # xs))))"
| "access_values (AccessFailure code # rest) l = Inl (DataAccess code)"

definition report_parse :: "tlv access_result list \<Rightarrow> limits \<Rightarrow> report result" where
  "report_parse results l = rbind (access_values results l) report_from_values"

section \<open>Writing the values\<close>

definition push_if :: "bool \<Rightarrow> string \<Rightarrow> data_value option \<Rightarrow> data_value list result" where
  "push_if flag what v = (if flag then (case v of Some x \<Rightarrow> Inr [x] | None \<Rightarrow> Inl (InvalidValue what)) else Inr [])"

fun push_each :: "string \<Rightarrow> data_value option list \<Rightarrow> data_value list result" where
  "push_each what [] = Inr []"
| "push_each what (v # vs) = rbind (ok_or (InvalidValue what) v) (\<lambda>x. rbind (push_each what vs) (\<lambda>xs. Inr (x # xs)))"

definition report_to_values :: "report \<Rightarrow> data_value list result" where
  "report_to_values r = (let o' = rpt_opt_flds r in
     rbind (push_if (opt_sequence_number o') ''OptFlds promises SqNum but the report has none''
       (map_option (\<lambda>n. Unsigned (ucast n)) (rpt_seq_num r))) (\<lambda>seq.
     rbind (push_if (opt_report_time_stamp o') ''OptFlds promises TimeOfEntry but the report has none''
       (map_option (\<lambda>t. BinaryTime (et_to_octets t)) (rpt_time_of_entry r))) (\<lambda>time.
     rbind (push_if (opt_data_set_name o') ''OptFlds promises DatSet but the report has none''
       (map_option VisibleString (rpt_data_set r))) (\<lambda>ds.
     rbind (push_if (opt_buffer_overflow o') ''OptFlds promises BufOvfl but the report has none''
       (map_option Boolean (rpt_buf_ovfl r))) (\<lambda>ovfl.
     rbind (push_if (opt_entry_id o') ''OptFlds promises EntryID but the report has none''
       (map_option OctetString (rpt_entry_id r))) (\<lambda>eid.
     rbind (push_if (opt_conf_revision o') ''OptFlds promises ConfRev but the report has none''
       (map_option (\<lambda>n. Unsigned (ucast n)) (rpt_conf_rev r))) (\<lambda>rev.
     rbind (push_if (opt_segmentation o') ''OptFlds promises SubSeqNum but the report has none''
       (map_option (\<lambda>n. Unsigned (ucast n)) (rpt_sub_seq_num r))) (\<lambda>sub.
     (let more' = (if opt_segmentation o' then [Boolean (rpt_more_segments_follow r)] else []);
          inclusion = BitString (fst (rpt_inclusion r)) (snd (rpt_inclusion r)) in
     if length (included_indices (fst (rpt_inclusion r)) (snd (rpt_inclusion r))) \<noteq> length (rpt_entries r)
     then Inl (InvalidValue ''the inclusion bit string does not match the number of entries'')
     else
     rbind (if opt_data_reference o' then push_each ''OptFlds promises data references but an entry has none''
       (map (map_option VisibleString \<circ> rpe_reference) (rpt_entries r)) else Inr []) (\<lambda>references.
     rbind (if opt_reason_for_inclusion o' then push_each ''OptFlds promises reason codes but an entry has none''
       (map (map_option trg_ops_to_value \<circ> rpe_reason) (rpt_entries r)) else Inr []) (\<lambda>reasons.
     Inr ([VisibleString (rpt_id r), opt_flds_to_value o'] @ seq @ time @ ds @ ovfl @ eid @ rev @ sub @ more' @ [inclusion] @
       references @ map rpe_value (rpt_entries r) @ reasons))))))))))))"

section \<open>The round trip\<close>

text \<open>A report whose option fields say which of its fields are there, and no more.\<close>

definition present :: "bool \<Rightarrow> 'a option \<Rightarrow> bool" where
  "present flag x \<longleftrightarrow> (flag \<longleftrightarrow> x \<noteq> None)"

definition report_wf :: "report \<Rightarrow> bool" where
  "report_wf r \<longleftrightarrow> (let o' = rpt_opt_flds r in
     (\<forall>k. bit o' k \<longrightarrow> k < 10) \<and>
     present (opt_sequence_number o') (rpt_seq_num r) \<and> present (opt_report_time_stamp o') (rpt_time_of_entry r) \<and>
     present (opt_data_set_name o') (rpt_data_set r) \<and> present (opt_buffer_overflow o') (rpt_buf_ovfl r) \<and>
     present (opt_entry_id o') (rpt_entry_id r) \<and> present (opt_conf_revision o') (rpt_conf_rev r) \<and>
     present (opt_segmentation o') (rpt_sub_seq_num r) \<and> (rpt_more_segments_follow r \<longrightarrow> opt_segmentation o') \<and>
     included_indices (fst (rpt_inclusion r)) (snd (rpt_inclusion r)) = map rpe_index (rpt_entries r) \<and>
     (\<forall>e \<in> set (rpt_entries r). present (opt_data_reference o') (rpe_reference e) \<and>
        present (opt_reason_for_inclusion o') (rpe_reason e) \<and> (\<forall>c k. rpe_reason e = Some c \<longrightarrow> bit c k \<longrightarrow> k < 6)))"

definition as_list :: "'a option \<Rightarrow> 'a list" where
  "as_list x = (case x of None \<Rightarrow> [] | Some y \<Rightarrow> [y])"

lemma push_if_present: "present flag y \<Longrightarrow> push_if flag what (map_option g y) = Inr (as_list (map_option g y))"
  by (cases y) (auto simp: present_def push_if_def as_list_def)

lemma field_if_present:
  "present flag y \<Longrightarrow> (\<And>x. y = Some x \<Longrightarrow> f (g x) = Inr x) \<Longrightarrow>
    field_if flag what f (as_list (map_option g y) @ rest) = Inr (y, rest)"
  by (cases y) (auto simp: present_def field_if_def next_field_def as_list_def)

lemma field_run_map:
  "(\<And>x. x \<in> set xs \<Longrightarrow> f (g x) = Inr x) \<Longrightarrow> field_run what f (length xs) (map g xs @ rest) = Inr (xs, rest)"
  by (induction xs) (auto simp: next_field_def)

lemma push_each_some: "push_each what (map Some vs) = Inr vs"
  by (induction vs) auto

lemma next_field_cons: "f v = Inr x \<Longrightarrow> next_field what f (v # rest) = Inr (x, rest)"
  by (simp add: next_field_def)

lemma report_entries_read:
  assumes "length references = (if has_ref then n + length es else 0)" "length vals = n + length es"
    "length reasons = (if has_reason then n + length es else 0)"
    and "drop n vals = map rpe_value es"
    and "has_ref \<Longrightarrow> map Some (drop n references) = map rpe_reference es"
    and "has_reason \<Longrightarrow> map Some (drop n reasons) = map rpe_reason es"
    and "\<forall>e \<in> set es. present has_ref (rpe_reference e) \<and> present has_reason (rpe_reason e)"
  shows "report_entries n (map rpe_index es) references vals reasons = Inr es"
  using assms
proof (induction es arbitrary: n)
  case (Cons e es)
  have v: "get_at vals n = Some (rpe_value e)" "drop (Suc n) vals = map rpe_value es"
    using Cons.prems(2,4) by (simp_all add: get_at_def flip: Cons_nth_drop_Suc)
  have r: "get_at references n = rpe_reference e" "has_ref \<Longrightarrow> map Some (drop (Suc n) references) = map rpe_reference es"
    using Cons.prems(1,5,7) by (auto simp: get_at_def present_def simp flip: Cons_nth_drop_Suc split: if_splits)
  have c: "get_at reasons n = rpe_reason e" "has_reason \<Longrightarrow> map Some (drop (Suc n) reasons) = map rpe_reason es"
    using Cons.prems(3,6,7) by (auto simp: get_at_def present_def simp flip: Cons_nth_drop_Suc split: if_splits)
  have "report_entries (Suc n) (map rpe_index es) references vals reasons = Inr es"
    by (rule Cons.IH) (use Cons.prems v r c in auto)
  then show ?case using v(1) r(1) c(1) by simp
qed simp

lemma opt_flds_value_round: "(\<forall>k. bit v k \<longrightarrow> k < 10) \<Longrightarrow> opt_flds_from_value (opt_flds_to_value v) = Some v"
  using opt_bit_string_round [of 10 v]
  by (simp add: opt_flds_from_value_def opt_flds_to_value_def opt_flds_to_bit_string_def opt_flds_from_bit_string_def
      OPT_FLDS_BITS_def split: prod.split) (metis snd_conv)

lemma ucast_u8_u16: "ucast (ucast (v :: u8) :: u16) = v"
  by (rule bit_word_eqI) (simp add: bit_simps)

lemma trg_ops_value_round:
  assumes "\<forall>k. bit v k \<longrightarrow> k < 6"
  shows "trg_ops_from_value (trg_ops_to_value v) = Some v"
proof -
  have "\<forall>k. bit (ucast v :: u16) k \<longrightarrow> k < 6" using assms by (auto simp: bit_simps)
  then have "opt_from_bit_string 6 (snd (opt_to_bit_string 6 (ucast v))) = (ucast v :: u16)"
    by (intro opt_bit_string_round) auto
  then show ?thesis
    by (simp add: trg_ops_from_value_def trg_ops_to_value_def trg_ops_to_bit_string_def trg_ops_from_bit_string_def
        TRG_OPS_BITS_def split: prod.split) (metis (no_types, lifting) snd_conv ucast_u8_u16)
qed

lemma report_unsigned_round: "report_unsigned what (Unsigned (ucast (n :: u32))) = Inr n"
  by (simp add: report_unsigned_def narrow_ucast)

lemma report_entry_time_round: "report_entry_time (BinaryTime (et_to_octets t)) = Inr t"
  by (simp add: report_entry_time_def et.dec_enc)

text \<open>What a well-formed report is written as.\<close>

definition report_values :: "report \<Rightarrow> data_value list" where
  "report_values r = [VisibleString (rpt_id r), opt_flds_to_value (rpt_opt_flds r)] @
     as_list (map_option (\<lambda>n. Unsigned (ucast n)) (rpt_seq_num r)) @
     as_list (map_option (\<lambda>t. BinaryTime (et_to_octets t)) (rpt_time_of_entry r)) @
     as_list (map_option VisibleString (rpt_data_set r)) @
     as_list (map_option Boolean (rpt_buf_ovfl r)) @
     as_list (map_option OctetString (rpt_entry_id r)) @
     as_list (map_option (\<lambda>n. Unsigned (ucast n)) (rpt_conf_rev r)) @
     as_list (map_option (\<lambda>n. Unsigned (ucast n)) (rpt_sub_seq_num r)) @
     as_list (map_option Boolean (if opt_segmentation (rpt_opt_flds r) then Some (rpt_more_segments_follow r) else None)) @
     [BitString (fst (rpt_inclusion r)) (snd (rpt_inclusion r))] @
     map VisibleString (List.map_filter rpe_reference (rpt_entries r)) @
     map rpe_value (rpt_entries r) @
     map trg_ops_to_value (List.map_filter rpe_reason (rpt_entries r))"

lemma map_filter_present:
  assumes "\<forall>e \<in> set es. present flag (f e)"
  shows "flag \<Longrightarrow> map Some (List.map_filter f es) = map f es" "\<not> flag \<Longrightarrow> List.map_filter f es = []"
    "length (List.map_filter f es) = (if flag then length es else 0)"
  using assms by (induction es) (auto simp: present_def List.map_filter_def)

lemma push_each_present:
  assumes "\<forall>e \<in> set es. present flag (f e)"
  shows "(if flag then push_each what (map (map_option g \<circ> f) es) else Inr []) = Inr (map g (List.map_filter f es))"
proof (cases flag)
  case True
  have "map (map_option g \<circ> f) es = map (map_option g) (map Some (List.map_filter f es))"
    by (simp add: map_filter_present(1) [OF assms True])
  then show ?thesis using True push_each_some [of what "map g (List.map_filter f es)"] by (simp add: o_def)
next
  case False
  then show ?thesis by (simp add: map_filter_present(2) [OF assms])
qed

lemma more_present: "(if flag then [Boolean m] else []) = as_list (map_option Boolean (if flag then Some m else None))"
  by (simp add: as_list_def)

lemma report_wf_written:
  assumes "report_wf r"
  shows "report_to_values r = Inr (report_values r)"
proof -
  let ?o = "rpt_opt_flds r"
  note wf = assms [unfolded report_wf_def Let_def]
  have p: "present (opt_sequence_number ?o) (rpt_seq_num r)" "present (opt_report_time_stamp ?o) (rpt_time_of_entry r)"
    "present (opt_data_set_name ?o) (rpt_data_set r)" "present (opt_buffer_overflow ?o) (rpt_buf_ovfl r)"
    "present (opt_entry_id ?o) (rpt_entry_id r)" "present (opt_conf_revision ?o) (rpt_conf_rev r)"
    "present (opt_segmentation ?o) (rpt_sub_seq_num r)"
    "\<forall>e \<in> set (rpt_entries r). present (opt_data_reference ?o) (rpe_reference e)"
    "\<forall>e \<in> set (rpt_entries r). present (opt_reason_for_inclusion ?o) (rpe_reason e)"
    "included_indices (fst (rpt_inclusion r)) (snd (rpt_inclusion r)) = map rpe_index (rpt_entries r)"
    using wf by blast+
  show ?thesis
    by (simp only: report_to_values_def Let_def push_if_present [OF p(1)] push_if_present [OF p(2)] push_if_present [OF p(3)]
        push_if_present [OF p(4)] push_if_present [OF p(5)] push_if_present [OF p(6)] push_if_present [OF p(7)]
        push_each_present [OF p(8)] push_each_present [OF p(9)] more_present rbind.simps p(10) length_map if_False
        report_values_def simp_thms)
qed

lemma report_wf_read:
  assumes "report_wf r"
  shows "report_from_values (report_values r) = Inr r"
proof -
  let ?o = "rpt_opt_flds r" and ?es = "rpt_entries r"
  let ?refs = "List.map_filter rpe_reference ?es" and ?reasons = "List.map_filter rpe_reason ?es"
  note wf = assms [unfolded report_wf_def Let_def]
  have p: "present (opt_sequence_number ?o) (rpt_seq_num r)" "present (opt_report_time_stamp ?o) (rpt_time_of_entry r)"
    "present (opt_data_set_name ?o) (rpt_data_set r)" "present (opt_buffer_overflow ?o) (rpt_buf_ovfl r)"
    "present (opt_entry_id ?o) (rpt_entry_id r)" "present (opt_conf_revision ?o) (rpt_conf_rev r)"
    "present (opt_segmentation ?o) (rpt_sub_seq_num r)"
    "present (opt_segmentation ?o) (if opt_segmentation ?o then Some (rpt_more_segments_follow r) else None)"
    using wf by (blast | simp add: present_def)+
  have o_round: "opt_flds_from_value (opt_flds_to_value ?o) = Some ?o" by (rule opt_flds_value_round) (use wf in blast)
  have refs: "\<forall>e \<in> set ?es. present (opt_data_reference ?o) (rpe_reference e)"
    and reasons: "\<forall>e \<in> set ?es. present (opt_reason_for_inclusion ?o) (rpe_reason e)"
    and idx: "included_indices (fst (rpt_inclusion r)) (snd (rpt_inclusion r)) = map rpe_index ?es"
    and codes: "\<forall>e \<in> set ?es. \<forall>c k. rpe_reason e = Some c \<longrightarrow> bit c k \<longrightarrow> k < 6"
    using wf by blast+
  have more_follow: "(case if opt_segmentation ?o then Some (rpt_more_segments_follow r) else None of Some b \<Rightarrow> b | None \<Rightarrow> False)
      = rpt_more_segments_follow r" using wf by auto
  have run_refs: "field_run_if (opt_data_reference ?o) w (\<lambda>v. ok_or e (as_str v)) (length ?es) (map VisibleString ?refs @ rest) =
      Inr (?refs, rest)" for w e rest
    using map_filter_present(2,3) [OF refs] field_run_map [of ?refs "\<lambda>v. ok_or e (as_str v)" VisibleString w rest]
    by (auto simp: field_run_if_def as_str_def split: if_splits)
  have run_vals: "field_run w Inr (length ?es) (map rpe_value ?es @ rest) = Inr (map rpe_value ?es, rest)" for w rest
    using field_run_map [of "map rpe_value ?es" Inr id w rest] by simp
  have c: "x \<in> set ?reasons \<Longrightarrow> trg_ops_from_value (trg_ops_to_value x) = Some x" for x
    using codes by (intro trg_ops_value_round) (auto simp: List.map_filter_def)
  have run_reasons: "field_run_if (opt_reason_for_inclusion ?o) w (\<lambda>v. ok_or e (trg_ops_from_value v)) (length ?es)
      (map trg_ops_to_value ?reasons) = Inr (?reasons, [])" for w e
    using map_filter_present(2,3) [OF reasons] field_run_map [of ?reasons "\<lambda>v. ok_or e (trg_ops_from_value v)" trg_ops_to_value w "[]"] c
    by (auto simp: field_run_if_def split: if_splits)
  have "report_entries 0 (map rpe_index ?es) ?refs (map rpe_value ?es) ?reasons = Inr ?es"
    by (rule report_entries_read [where has_ref = "opt_data_reference ?o" and has_reason = "opt_reason_for_inclusion ?o"])
      (use refs reasons in \<open>simp_all add: map_filter_present(1,3) [OF refs] map_filter_present(1,3) [OF reasons]\<close>)
  moreover have "next_field w (\<lambda>v. ok_or e (as_str v)) (VisibleString x # rest) = Inr (x, rest)" for w e x rest
    by (simp add: next_field_def as_str_def)
  moreover have "as_str (VisibleString x) = Some x" "as_bool (Boolean b) = Some b" "report_octets (OctetString o') = Inr o'" for x b o'
    by (simp_all add: as_str_def as_bool_def report_octets_def)
  moreover obtain unused bs where u: "rpt_inclusion r = (unused, bs)" by fastforce
  moreover from this have idx': "included_indices unused bs = map rpe_index ?es" using idx by simp
  moreover have "next_field w (\<lambda>v. ok_or e (opt_flds_from_value v)) (opt_flds_to_value ?o # rest) = Inr (?o, rest)" for w e rest
    by (simp add: next_field_def o_round)
  moreover have "next_field w report_inclusion (BitString u b # rest) = Inr ((u, b), rest)" for w u b rest
    by (simp add: next_field_def report_inclusion_def)
  ultimately show ?thesis
    by (simp add: report_from_values_def report_values_def field_if_present p report_unsigned_round report_entry_time_round
        idx' run_refs run_vals run_reasons more_follow Let_def)
qed

text \<open>Whatever values read as a report, the report is well-formed.\<close>

lemma field_if_InrD: "field_if flag what f vs = Inr (y, rest) \<Longrightarrow> present flag y"
  by (auto simp: field_if_def present_def rbind_Inr_iff split: if_splits)

lemma field_run_length: "field_run what f n vs = Inr (xs, rest) \<Longrightarrow> length xs = n \<and> set xs \<subseteq> {x. \<exists>v. f v = Inr x}"
proof (induction n arbitrary: vs xs)
  case (Suc n)
  then show ?case
    by (fastforce simp: rbind_Inr_iff next_field_def split: list.splits)
qed simp

lemma field_run_if_InrD:
  "field_run_if flag what f n vs = Inr (xs, rest) \<Longrightarrow>
    length xs = (if flag then n else 0) \<and> set xs \<subseteq> {x. \<exists>v. f v = Inr x}"
  using field_run_length [of what f n vs xs rest] by (auto simp: field_run_if_def split: if_splits)

lemma report_entries_InrD:
  assumes "report_entries n is references vals reasons = Inr es"
    "length references = (if has_ref then n + length is else 0)" "length reasons = (if has_reason then n + length is else 0)"
  shows "map rpe_index es = is \<and> (\<forall>e \<in> set es. present has_ref (rpe_reference e) \<and> present has_reason (rpe_reason e) \<and>
    (\<forall>c. rpe_reason e = Some c \<longrightarrow> c \<in> set reasons))"
  using assms
proof (induction "is" arbitrary: n es)
  case (Cons i "is")
  then show ?case
    by (fastforce simp: rbind_Inr_iff get_at_def present_def split: if_splits)
qed simp

lemma opt_flds_from_value_bits: "opt_flds_from_value v = Some c \<Longrightarrow> bit c k \<Longrightarrow> k < 10"
  by (auto simp: opt_flds_from_value_def opt_flds_from_bit_string_def OPT_FLDS_BITS_def bit_from_bit_string split: data_value.splits)

lemma trg_ops_from_value_bits: "trg_ops_from_value v = Some c \<Longrightarrow> bit c k \<Longrightarrow> k < 6"
  by (auto simp: trg_ops_from_value_def trg_ops_from_bit_string_def TRG_OPS_BITS_def bit_simps bit_from_bit_string
      split: data_value.splits)

lemma ok_all_bind_pair:
  "(\<And>x y. m = Inr (x, y) \<Longrightarrow> ok_all P (f x y)) \<Longrightarrow> ok_all P (rbind m (\<lambda>(x, y). f x y))"
  by (cases m) auto

lemma report_read_wf:
  assumes "report_from_values vs = Inr r"
  shows "report_wf r"
proof -
  have "ok_all report_wf (report_from_values vs)"
    unfolding report_from_values_def Let_def
  proof (intro ok_all_bind_pair ok_all_if ok_all_simps(1), goal_cases)
    case (1 i v1 o' v2 seq v3 time v4 ds v5 ovfl v6 eid v7 rev v8 sub v9 more' v10 inclusion v11)
    obtain unused bs where u: "inclusion = (unused, bs)" by fastforce
    have "\<forall>k. bit o' k \<longrightarrow> k < 10"
      using 1(2) by (auto simp: next_field_def rbind_Inr_iff ok_or_Inr_iff dest: opt_flds_from_value_bits split: list.splits)
    note header = this 1(3-10) [THEN field_if_InrD]
    show ?case unfolding u prod.case
    proof (intro ok_all_bind_pair ok_all_if ok_all_bind ok_all_simps(1), goal_cases)
      case (1 references v12 vals v13 reasons v14 es)
      note run = 1(1,3) [THEN field_run_if_InrD]
      have es: "map rpe_index es = included_indices unused bs"
        "\<forall>e \<in> set es. present (opt_data_reference o') (rpe_reference e) \<and> present (opt_reason_for_inclusion o') (rpe_reason e)"
        "\<forall>e \<in> set es. \<forall>c. rpe_reason e = Some c \<longrightarrow> c \<in> set reasons"
        using report_entries_InrD [OF 1(5), of "opt_data_reference o'" "opt_reason_for_inclusion o'"] run by auto
      have "\<forall>e \<in> set es. \<forall>c k. rpe_reason e = Some c \<longrightarrow> bit c k \<longrightarrow> k < 6"
        using es(3) run(2) by (fastforce simp: ok_or_Inr_iff dest: trg_ops_from_value_bits)
      then show ?case
        using header es(1,2) by (simp add: report_wf_def Let_def) (auto simp: present_def split: option.splits)
    qed
  qed
  then show ?thesis using assms by simp
qed

text \<open>
  Reading and writing are inverse on the well-formed reports, and only those are read. What a sender wrote
  in another way than this one writes it (a signed counter, an MMS string, a UTC entry time) is read
  leniently and written in the standard's form.
\<close>

lemma report_roundtrip:
  "report_wf r \<longleftrightarrow> (\<exists>vs. report_to_values r = Inr vs \<and> report_from_values vs = Inr r)"
  "report_from_values vs = Inr r \<Longrightarrow> \<exists>ws. report_to_values r = Inr ws \<and> report_from_values ws = Inr r"
  using report_wf_written report_wf_read report_read_wf by blast+

section \<open>The members an inclusion bit string names\<close>

definition member_bit :: "bytes \<Rightarrow> usize \<Rightarrow> bool" where
  "member_bit bs i \<longleftrightarrow> i div 8 < length bs \<and> bit (bs ! (i div 8)) (7 - i mod 8)"

lemma included_indices_iff: "included_indices unused bs = filter (member_bit bs) [0..<inclusion_len unused bs]"
proof -
  have "drop_bit n x AND 1 = 1 \<longleftrightarrow> bit x n" for x :: u8 and n
    by (simp add: and_one_eq bit_iff_odd_drop_bit odd_iff_mod_2_eq_one)
  then show ?thesis unfolding included_indices_def by (intro filter_cong) (auto simp: member_bit_def get_at_def)
qed

lemma set_member_bit:
  assumes "k < 8 * length bs" "i < 8 * length bs"
  shows "member_bit (bs[i div 8 := bs ! (i div 8) OR push_bit (7 - i mod 8) 1]) k \<longleftrightarrow> k = i \<or> member_bit bs k"
proof -
  have d: "k div 8 < length bs" "i div 8 < length bs" using assms by auto
  have "bit (push_bit (7 - i mod 8) (1 :: u8)) (7 - k mod 8) \<longleftrightarrow> k mod 8 = i mod 8"
  proof -
    have "7 - k mod 8 = 7 - i mod 8 \<longleftrightarrow> k mod 8 = i mod 8"
      using mod_less_divisor [of 8 k] mod_less_divisor [of 8 i] by linarith
    moreover have "7 - i mod 8 < 8" by linarith
    ultimately show ?thesis by (simp add: push_bit_eq_mult bit_one_at)
  qed
  moreover have "k = i \<longleftrightarrow> k div 8 = i div 8 \<and> k mod 8 = i mod 8" by (metis div_mult_mod_eq)
  ultimately show ?thesis using d by (auto simp: member_bit_def bit_or_iff nth_list_update)
qed

lemma inclusion_fold:
  fixes bs :: bytes
  assumes "\<forall>i \<in> set is. i < 8 * length bs"
  defines "r \<equiv> fold (\<lambda>i bs. case get_at bs (i div 8) of
      Some b \<Rightarrow> bs[i div 8 := b OR push_bit (7 - i mod 8) 1] | None \<Rightarrow> bs) is bs"
  shows "length r = length bs \<and> (\<forall>k < 8 * length bs. member_bit r k \<longleftrightarrow> k \<in> set is \<or> member_bit bs k)"
  using assms(1) unfolding r_def
proof (induction "is" arbitrary: bs)
  case (Cons i "is")
  have i: "i < 8 * length bs" "i div 8 < length bs" using Cons.prems by auto
  let ?b = "bs[i div 8 := bs ! (i div 8) OR push_bit (7 - i mod 8) 1]"
  have "\<forall>k < 8 * length bs. member_bit ?b k \<longleftrightarrow> k = i \<or> member_bit bs k" using set_member_bit i(1) by blast
  then show ?case using Cons.IH [of ?b] Cons.prems i by (auto simp: get_at_def)
qed simp

lemma inclusion_for_length:
  "length (snd (inclusion_for n is)) = (n + 7) div 8" "inclusion_len (fst (inclusion_for n is)) (snd (inclusion_for n is)) = n"
proof -
  have n: "n \<le> (n + 7) div 8 * 8" "(n + 7) div 8 * 8 - n < 8" by presburger+
  have len: "length (snd (inclusion_for n is)) = (n + 7) div 8"
    using inclusion_fold [of "filter (\<lambda>i. i < n) is" "replicate ((n + 7) div 8) 0"] n(1) by (auto simp: inclusion_for_def Let_def)
  then show "length (snd (inclusion_for n is)) = (n + 7) div 8" .
  have "unat (of_nat d :: u8) = d" if "d < 8" for d using that by (simp add: unat_of_nat take_bit_nat_eq_self)
  from this [OF n(2)] show "inclusion_len (fst (inclusion_for n is)) (snd (inclusion_for n is)) = n"
    using len n(1) by (simp add: inclusion_len_def inclusion_for_def Let_def)
qed

lemma inclusion_for_member: "member_bit (snd (inclusion_for n is)) k \<longleftrightarrow> k < n \<and> k \<in> set is"
proof -
  define m where "m = (n + 7) div 8"
  define bs where "bs = snd (inclusion_for n is)"
  have n: "n \<le> 8 * m" unfolding m_def by presburger
  have z: "\<not> member_bit (replicate m 0) k" by (simp add: member_bit_def)
  have "\<forall>i \<in> set (filter (\<lambda>i. i < n) is). i < 8 * length (replicate m (0 :: u8))" using n by auto
  note fold = inclusion_fold [OF this, unfolded length_replicate]
  have bs: "bs = fold (\<lambda>i bs. case get_at bs (i div 8) of
      Some b \<Rightarrow> bs[i div 8 := b OR push_bit (7 - i mod 8) 1] | None \<Rightarrow> bs) (filter (\<lambda>i. i < n) is) (replicate m 0)"
    by (simp add: bs_def inclusion_for_def Let_def m_def)
  have len: "length bs = m" and mem: "k < 8 * m \<Longrightarrow> member_bit bs k \<longleftrightarrow> k < n \<and> k \<in> set is"
    using fold z by (simp_all add: bs conj_commute)
  have "member_bit bs k \<Longrightarrow> k < 8 * m"
    using len by (simp add: member_bit_def div_less_iff_less_mult mult.commute)
  then show ?thesis using mem n unfolding bs_def by (meson less_le_trans)
qed

lemma inclusion_for_included: "included_indices (fst (inclusion_for n is)) (snd (inclusion_for n is)) = filter (\<lambda>k. k \<in> set is) [0..<n]"
  unfolding included_indices_iff inclusion_for_length by (intro filter_cong) (auto simp: inclusion_for_member)

lemma filter_sorted_set: "sorted_wrt (<) (is :: nat list) \<Longrightarrow> \<forall>i \<in> set is. i < n \<Longrightarrow> filter (\<lambda>k. k \<in> set is) [0..<n] = is"
  by (rule strict_sorted_equal) (auto intro: sorted_wrt_filter)

lemma inclusion_for_sorted:
  "sorted_wrt (<) is \<Longrightarrow> \<forall>i \<in> set is. i < n \<Longrightarrow> included_indices (fst (inclusion_for n is)) (snd (inclusion_for n is)) = is"
  by (simp add: inclusion_for_included filter_sorted_set)

section \<open>Joining segments\<close>

record assembler_stats =
  ast_reassembled :: u64
  ast_out_of_order :: u64
  ast_evicted :: u64
  ast_oversized :: u64

record pending_report =
  prt_key :: "string \<times> u32 option"
  prt_next_sub_seq :: u32
  prt_report :: report

record assembler =
  asm_partial :: "pending_report list"
  asm_capacity :: usize
  asm_max_entries :: usize
  asm_stats :: assembler_stats

definition with_max_entries :: "usize \<Rightarrow> usize \<Rightarrow> assembler" where
  "with_max_entries capacity max_entries = \<lparr>asm_partial = [], asm_capacity = max capacity 1, asm_max_entries = max max_entries 1,
     asm_stats = \<lparr>ast_reassembled = 0, ast_out_of_order = 0, ast_evicted = 0, ast_oversized = 0\<rparr>\<rparr>"

definition assembler_new :: "usize \<Rightarrow> assembler" where
  "assembler_new capacity = with_max_entries capacity (max_dataset_members default_limits)"

definition assembler_pending :: "assembler \<Rightarrow> usize" where
  "assembler_pending a = length (asm_partial a)"

definition assembler_clear :: "assembler \<Rightarrow> assembler" where
  "assembler_clear a = a\<lparr>asm_partial := []\<rparr>"

text \<open>\<open>Vec::swap_remove\<close>: the last element takes the place of the one removed.\<close>

definition swap_remove :: "nat \<Rightarrow> 'a list \<Rightarrow> 'a list" where
  "swap_remove i xs = butlast (xs[i := last xs])"

fun or_prefix :: "bytes \<Rightarrow> bytes \<Rightarrow> bytes" where
  "or_prefix (a # as) (b # bs) = (a OR b) # or_prefix as bs"
| "or_prefix as bs = as"

definition merge_segment :: "report \<Rightarrow> report \<Rightarrow> report" where
  "merge_segment whole segment =
     (let (unused, bs) = rpt_inclusion whole; (unused', bs') = rpt_inclusion segment;
          ored = or_prefix bs bs';
          inclusion = (if length bs' > length ored then (unused', ored @ drop (length ored) bs') else (unused, ored))
      in whole\<lparr>rpt_inclusion := inclusion,
           rpt_entries := sort_key rpe_index (rpt_entries whole @ rpt_entries segment),
           rpt_sub_seq_num := rpt_sub_seq_num segment,
           rpt_buf_ovfl := (if rpt_buf_ovfl segment = Some True then Some True else rpt_buf_ovfl whole)\<rparr>)"

definition assembler_start :: "string \<times> u32 option \<Rightarrow> report \<Rightarrow> u32 \<Rightarrow> bool \<Rightarrow> assembler \<Rightarrow> report option \<times> assembler" where
  "assembler_start key r sub more' a =
     (if \<not> more' then (Some r, a)
      else if sub \<noteq> 0 then (None, a\<lparr>asm_stats := (asm_stats a)\<lparr>ast_out_of_order := sat_add (ast_out_of_order (asm_stats a)) 1\<rparr>\<rparr>)
      else if length (rpt_entries r) > asm_max_entries a
      then (None, a\<lparr>asm_stats := (asm_stats a)\<lparr>ast_oversized := sat_add (ast_oversized (asm_stats a)) 1\<rparr>\<rparr>)
      else
        (let a = (if length (asm_partial a) \<ge> asm_capacity a
                  then a\<lparr>asm_partial := tl (asm_partial a),
                         asm_stats := (asm_stats a)\<lparr>ast_evicted := sat_add (ast_evicted (asm_stats a)) 1\<rparr>\<rparr>
                  else a)
         in (None, a\<lparr>asm_partial := asm_partial a @ [\<lparr>prt_key = key, prt_next_sub_seq = sat_add sub 1, prt_report = r\<rparr>]\<rparr>)))"

fun find_pending :: "string \<times> u32 option \<Rightarrow> pending_report list \<Rightarrow> nat option" where
  "find_pending key [] = None"
| "find_pending key (p # ps) = (if prt_key p = key then Some 0 else map_option Suc (find_pending key ps))"

definition assembler_push :: "report \<Rightarrow> assembler \<Rightarrow> report option \<times> assembler" where
  "assembler_push r a =
     (if \<not> opt_segmentation (rpt_opt_flds r) then (Some r, a)
      else
        (let key = (rpt_id r, rpt_seq_num r);
             sub = (case rpt_sub_seq_num r of Some n \<Rightarrow> n | None \<Rightarrow> 0);
             more' = rpt_more_segments_follow r
         in case find_pending key (asm_partial a) of
              None \<Rightarrow> assembler_start key r sub more' a
            | Some i \<Rightarrow>
                (let p = asm_partial a ! i in
                 if sub \<noteq> prt_next_sub_seq p
                 then assembler_start key r sub more'
                        (a\<lparr>asm_partial := swap_remove i (asm_partial a),
                           asm_stats := (asm_stats a)\<lparr>ast_out_of_order := sat_add (ast_out_of_order (asm_stats a)) 1\<rparr>\<rparr>)
                 else if length (rpt_entries (prt_report p)) + length (rpt_entries r) > asm_max_entries a
                 then (None, a\<lparr>asm_partial := swap_remove i (asm_partial a),
                         asm_stats := (asm_stats a)\<lparr>ast_oversized := sat_add (ast_oversized (asm_stats a)) 1\<rparr>\<rparr>)
                 else
                   (let merged = merge_segment (prt_report p) r in
                    if more' then (None, a\<lparr>asm_partial := (asm_partial a)[i := p\<lparr>prt_next_sub_seq := sat_add sub 1, prt_report := merged\<rparr>]\<rparr>)
                    else (Some (merged\<lparr>rpt_more_segments_follow := False\<rparr>),
                          a\<lparr>asm_partial := swap_remove i (asm_partial a),
                            asm_stats := (asm_stats a)\<lparr>ast_reassembled := sat_add (ast_reassembled (asm_stats a)) 1\<rparr>\<rparr>)))))"

lemma length_or_prefix [simp]: "length (or_prefix as bs) = length as"
  by (induction as bs rule: or_prefix.induct) auto

lemma or_prefix_nth: "i < length as \<Longrightarrow> or_prefix as bs ! i = (if i < length bs then as ! i OR bs ! i else as ! i)"
  by (induction as bs arbitrary: i rule: or_prefix.induct) (auto simp: nth_Cons split: nat.splits)

lemma member_bit_or_prefix: "length as = length bs \<Longrightarrow> member_bit (or_prefix as bs) k \<longleftrightarrow> member_bit as k \<or> member_bit bs k"
  by (auto simp: member_bit_def or_prefix_nth bit_or_iff)

lemma bytes_eq_member_bit:
  assumes "length as = length bs" "\<And>k. k < 8 * length as \<Longrightarrow> member_bit as k \<longleftrightarrow> member_bit bs k"
  shows "as = bs"
proof (rule nth_equalityI)
  fix i assume i: "i < length as"
  show "as ! i = bs ! i"
  proof (rule bit_word_eqI)
    fix j assume j: "j < LENGTH(8)"
    define m where "m = 7 - j"
    have "m < 8" "7 - m = j" using j by (simp_all add: m_def)
    then have "8 * i + m < 8 * length as" "(8 * i + m) div 8 = i" "7 - (8 * i + m) mod 8 = j" using i by auto
    then show "bit (as ! i) j = bit (bs ! i) j"
      using assms(2) [of "8 * i + m"] assms(1) i by (simp add: member_bit_def)
  qed
qed (use assms in simp)

lemma inclusion_for_or: "or_prefix (snd (inclusion_for n is)) (snd (inclusion_for n js)) = snd (inclusion_for n (is @ js))"
proof (rule bytes_eq_member_bit)
  fix k assume "k < 8 * length (or_prefix (snd (inclusion_for n is)) (snd (inclusion_for n js)))"
  have "member_bit (or_prefix (snd (inclusion_for n is)) (snd (inclusion_for n js))) k \<longleftrightarrow>
      member_bit (snd (inclusion_for n is)) k \<or> member_bit (snd (inclusion_for n js)) k"
    by (rule member_bit_or_prefix) (simp add: inclusion_for_length)
  then show "member_bit (or_prefix (snd (inclusion_for n is)) (snd (inclusion_for n js))) k \<longleftrightarrow> member_bit (snd (inclusion_for n (is @ js))) k"
    by (auto simp: inclusion_for_member)
qed (simp add: inclusion_for_length)

lemma inclusion_for_fst: "fst (inclusion_for n is) = fst (inclusion_for n js)"
  by (simp add: inclusion_for_def Let_def)

text \<open>Joining two segments of one report whose members follow each other.\<close>

lemma merge_consecutive:
  assumes "rpt_inclusion w = inclusion_for n (map rpe_index (rpt_entries w))" "rpt_inclusion s = inclusion_for n (map rpe_index (rpt_entries s))"
    and "sorted (map rpe_index (rpt_entries w @ rpt_entries s))" "rpt_buf_ovfl s = rpt_buf_ovfl w"
  shows "merge_segment w s = w\<lparr>rpt_inclusion := inclusion_for n (map rpe_index (rpt_entries w @ rpt_entries s)),
    rpt_entries := rpt_entries w @ rpt_entries s, rpt_sub_seq_num := rpt_sub_seq_num s\<rparr>"
proof -
  let ?i = "map rpe_index (rpt_entries w)" and ?j = "map rpe_index (rpt_entries s)"
  have "sort_key rpe_index (rpt_entries w @ rpt_entries s) = rpt_entries w @ rpt_entries s"
    by (rule sort_key_id_if_sorted) (use assms(3) in simp)
  moreover have "(fst (inclusion_for n ?i), snd (inclusion_for n (?i @ ?j))) = inclusion_for n (?i @ ?j)"
    by (simp add: inclusion_for_fst [of n ?i "?i @ ?j"])
  moreover have "w\<lparr>rpt_inclusion := x, rpt_entries := y, rpt_sub_seq_num := z, rpt_buf_ovfl := rpt_buf_ovfl w\<rparr> =
      w\<lparr>rpt_inclusion := x, rpt_entries := y, rpt_sub_seq_num := z\<rparr>" for x y z by simp
  ultimately show ?thesis
    using inclusion_for_or [of n ?i ?j] assms(4)
    by (simp add: merge_segment_def assms(1,2) split_beta Let_def inclusion_for_length)
qed

subsection \<open>Bounded memory\<close>

definition asm_ok :: "assembler \<Rightarrow> bool" where
  "asm_ok a \<longleftrightarrow> 1 \<le> asm_capacity a \<and> length (asm_partial a) \<le> asm_capacity a \<and> distinct (map prt_key (asm_partial a)) \<and>
     (\<forall>p \<in> set (asm_partial a). length (rpt_entries (prt_report p)) \<le> asm_max_entries a)"

lemma asm_ok_new: "asm_ok (with_max_entries c m)"
  by (simp add: asm_ok_def with_max_entries_def)

lemma find_pending_SomeD: "find_pending key ps = Some i \<Longrightarrow> i < length ps \<and> prt_key (ps ! i) = key"
  by (induction ps arbitrary: i) (auto split: if_splits)

lemma find_pending_None: "find_pending key ps = None \<longleftrightarrow> key \<notin> prt_key ` set ps"
  by (induction ps) auto

lemma find_pending_append: "key \<notin> prt_key ` set ps \<Longrightarrow> find_pending key (ps @ qs) = map_option ((+) (length ps)) (find_pending key qs)"
  by (induction ps) (cases "find_pending key qs"; auto)+


lemma swap_remove_at: "swap_remove (length as) (as @ x # bs) = as @ (if bs = [] then [] else last bs # butlast bs)"
  by (auto simp: swap_remove_def butlast_append)

lemma rotate_last_facts:
  "length (if b = [] then [] else last b # butlast b) = length b" "set (if b = [] then [] else last b # butlast b) = set b"
  "distinct (map f b) \<longleftrightarrow> distinct (map f (if b = [] then [] else last b # butlast b))"
  by (induction b rule: rev_induct) auto

lemma swap_remove_facts:
  assumes "i < length xs"
  shows "length (swap_remove i xs) = length xs - 1" "set (swap_remove i xs) \<subseteq> set xs"
    "distinct (map f xs) \<Longrightarrow> distinct (map f (swap_remove i xs)) \<and> f (xs ! i) \<notin> f ` set (swap_remove i xs)"
proof -
  let ?a = "take i xs" and ?b = "drop (Suc i) xs"
  let ?c = "if ?b = [] then [] else last ?b # butlast ?b"
  have xs: "xs = ?a @ xs ! i # ?b" using assms by (simp add: id_take_nth_drop)
  have r: "swap_remove i xs = ?a @ ?c"
    using swap_remove_at [of ?a "xs ! i" ?b] assms by (simp flip: xs)
  note c = rotate_last_facts(1,2) [where b = ?b] rotate_last_facts(3) [where b = ?b and f = f]
  show "length (swap_remove i xs) = length xs - 1" using c(1) assms by (simp add: r del: length_0_conv)
  show "set (swap_remove i xs) \<subseteq> set xs" unfolding r set_append c(2) by (auto dest: in_set_takeD in_set_dropD)
  assume "distinct (map f xs)"
  then have d: "distinct (map f (?a @ xs ! i # ?b))" by (simp only: xs [symmetric])
  then show "distinct (map f (swap_remove i xs)) \<and> f (xs ! i) \<notin> f ` set (swap_remove i xs)"
    unfolding r using c(2,3) by (simp only: map_append distinct_append list.map distinct.simps set_append set_map image_Un list.set) blast
qed

lemma length_merge_entries [simp]: "length (rpt_entries (merge_segment w s)) = length (rpt_entries w) + length (rpt_entries s)"
  by (simp add: merge_segment_def Let_def split_beta)

lemma in_tlD: "x \<in> set (tl xs) \<Longrightarrow> x \<in> set xs"
  by (cases xs) auto

lemma start_asm_ok:
  assumes "asm_ok a" "key \<notin> prt_key ` set (asm_partial a)" "assembler_start key r sub more' a = (out, a')"
  shows "asm_ok a' \<and> asm_capacity a' = asm_capacity a \<and> asm_max_entries a' = asm_max_entries a"
proof -
  have "length (tl (asm_partial a)) < asm_capacity a" "distinct (map prt_key (tl (asm_partial a)))"
    using assms(1) by (cases "asm_partial a"; auto simp: asm_ok_def)+
  then show ?thesis
    using assms by (auto simp: assembler_start_def asm_ok_def Let_def not_le image_iff split: if_splits dest!: in_tlD)
qed

lemma push_asm_ok:
  assumes "asm_ok a" "assembler_push r a = (out, a')"
  shows "asm_ok a' \<and> asm_capacity a' = asm_capacity a \<and> asm_max_entries a' = asm_max_entries a"
proof (cases "opt_segmentation (rpt_opt_flds r)")
  case seg: True
  let ?key = "(rpt_id r, rpt_seq_num r)" and ?ps = "asm_partial a"
  show ?thesis
  proof (cases "find_pending ?key ?ps")
    case None
    then show ?thesis
      using assms(2) seg start_asm_ok [OF assms(1)] None [unfolded find_pending_None] by (simp add: assembler_push_def Let_def)
  next
    case (Some i)
    note i = find_pending_SomeD [OF Some]
    have d: "distinct (map prt_key ?ps)" "length ?ps \<le> asm_capacity a" using assms(1) by (simp_all add: asm_ok_def)
    note sr = swap_remove_facts(1,2) [OF conjunct1 [OF i]] swap_remove_facts(3) [OF conjunct1 [OF i] d(1)]
    have gone: "asm_ok (a\<lparr>asm_partial := swap_remove i ?ps, asm_stats := st\<rparr>)"
      "?key \<notin> prt_key ` set (swap_remove i ?ps)" for st
      using sr i assms(1) by (auto simp: asm_ok_def)
    have upd: "asm_ok (a\<lparr>asm_partial := ?ps[i := (?ps ! i)\<lparr>prt_next_sub_seq := n, prt_report := w\<rparr>]\<rparr>)"
      if "length (rpt_entries w) \<le> asm_max_entries a" for n w
    proof -
      have "map prt_key (?ps[i := (?ps ! i)\<lparr>prt_next_sub_seq := n, prt_report := w\<rparr>]) = map prt_key ?ps"
        using i by (simp add: map_update list_update_same_conv)
      then show ?thesis using assms(1) i that by (auto simp: asm_ok_def dest!: subsetD [OF set_update_subset_insert])
    qed
    show ?thesis
      using assms(2) seg gone upd start_asm_ok [OF gone(1)]
      by (auto simp: assembler_push_def Let_def Some not_less split: if_splits)
  qed
qed (use assms in \<open>auto simp: assembler_push_def\<close>)

definition assembler_step :: "report \<Rightarrow> report list \<times> assembler \<Rightarrow> report list \<times> assembler" where
  "assembler_step r s = (case assembler_push r (snd s) of
     (None, a) \<Rightarrow> (fst s, a) | (Some w, a) \<Rightarrow> (fst s @ [w], a))"

definition assembler_run :: "report list \<Rightarrow> assembler \<Rightarrow> report list \<times> assembler" where
  "assembler_run rs a = fold assembler_step rs ([], a)"

lemma assembler_run_ok: "asm_ok a \<Longrightarrow> asm_ok (snd (fold assembler_step rs (out, a))) \<and>
    asm_capacity (snd (fold assembler_step rs (out, a))) = asm_capacity a \<and>
    asm_max_entries (snd (fold assembler_step rs (out, a))) = asm_max_entries a"
proof (induction rs arbitrary: out a)
  case (Cons r rs)
  obtain o' a' where p: "assembler_push r a = (o', a')" by fastforce
  note ok = push_asm_ok [OF Cons.prems p]
  then show ?case using Cons.IH [of a'] by (cases o') (auto simp: assembler_step_def p)
qed simp

text \<open>A last segment that does not continue a run is handed over as if it were a whole report.\<close>

lemma last_segment_passes:
  assumes "\<not> rpt_more_segments_follow r" "\<And>p. p \<in> set (asm_partial a) \<Longrightarrow> prt_key p \<noteq> (rpt_id r, rpt_seq_num r)"
  shows "assembler_push r a = (Some r, a)"
proof -
  have "find_pending (rpt_id r, rpt_seq_num r) (asm_partial a) = None" unfolding find_pending_None using assms(2) by (metis imageE)
  then show ?thesis using assms(1) by (simp add: assembler_push_def assembler_start_def Let_def)
qed

text \<open>
  C26: whatever segments a server sends, and in whatever order, the assembler holds at most as many reports as it was
  made for, one per RptID and SqNum, and none of them with more entries than its limit.
\<close>

theorem assembler_memory_bounded:
  "let a = snd (assembler_run rs (with_max_entries c m)) in
     assembler_pending a \<le> max c 1 \<and> distinct (map prt_key (asm_partial a)) \<and>
     list_all (\<lambda>p. length (rpt_entries (prt_report p)) \<le> max m 1) (asm_partial a)"
proof -
  let ?b = "snd (fold assembler_step rs ([], with_max_entries c m))"
  have cap: "asm_capacity (with_max_entries c m) = max c 1" "asm_max_entries (with_max_entries c m) = max m 1"
    by (simp_all add: with_max_entries_def)
  have ok: "asm_ok ?b" and b: "asm_capacity ?b = max c 1" "asm_max_entries ?b = max m 1"
    using assembler_run_ok [OF asm_ok_new [of c m], of rs "[]"] unfolding cap by blast+
  have "length (asm_partial ?b) \<le> max c 1" "distinct (map prt_key (asm_partial ?b))"
    and "\<forall>p \<in> set (asm_partial ?b). length (rpt_entries (prt_report p)) \<le> max m 1"
    using ok unfolding asm_ok_def b by blast+
  then show ?thesis unfolding assembler_run_def assembler_pending_def list_all_iff Let_def by blast
qed

end
