(* ===== verification/Mms_Services.thy ===== *)
theory Mms_Services
  imports Mms_Access Paging
begin

text \<open>
  The service parameters with a syntax of their own: the association parameters (\<open>Initiate\<close>) and the
  journal query of \<open>src/proto/mms/mod.rs\<close>, journal entries (\<open>src/proto/mms/journal.rs\<close>), file names and
  directories (\<open>src/proto/mms/file.rs\<close>) and rejects (\<open>src/proto/mms/reject.rs\<close>). For each, what it is
  written as and that it is read back.
\<close>

section \<open>Readers over the children of an element\<close>

definition on_children :: "'a rd \<Rightarrow> tlv \<Rightarrow> 'a result" where
  "on_children m t = fst (m (children t))"

definition first_child :: "tlv \<Rightarrow> tlv result" where
  "first_child = on_children next_required"

lemma on_children_mk [simp]: "on_children m (mk_tlv t c off) = fst (m (cur_at [] c (tlv_value_offset (mk_tlv t c off))))"
  by (simp add: on_children_def cur_at_start)

lemma first_child_mk [simp]:
  "fits c \<Longrightarrow> first_child (mk_tlv t (element u c @ rest) off) = Inr (mk_tlv u c (tlv_value_offset (mk_tlv t (element u c @ rest) off)))"
  "fits c \<Longrightarrow> first_child (mk_tlv t (element u c) off) = Inr (mk_tlv u c (tlv_value_offset (mk_tlv t (element u c) off)))"
  by (simp_all add: first_child_def)

lemma object_name_read [simp]:
  "object_name_ok x \<Longrightarrow> object_name_parse (mk_tlv (object_name_tag x) (object_name_contents x) off) = Inr x"
  by (rule object_name_parse_contents) simp_all

lemma visible_fits [simp]: "fits (as_bytes s) \<longleftrightarrow> length s < 4294967296"
  by simp

abbreviation text_ok :: "string \<Rightarrow> bool" where
  "text_ok s \<equiv> ascii_str s \<and> length s < 4294967296"

definition bits_ok :: "u8 \<times> bytes \<Rightarrow> bool" where
  "bits_ok b \<longleftrightarrow> fst b \<le> 7 \<and> (snd b \<noteq> [] \<or> fst b = 0) \<and> Suc (length (snd b)) < 4294967296"

definition bits_octets :: "u8 \<times> bytes \<Rightarrow> bytes" where
  "bits_octets b = fst b # snd b"

definition enc_bits :: "tag \<Rightarrow> u8 \<times> bytes \<Rightarrow> enc" where
  "enc_bits t b = enc_bit_string t (fst b) (snd b)"

lemma bits_field: "bits_ok b \<Longrightarrow> emits (enc_bits t b) (element t (bits_octets b))"
  "bits_ok b \<Longrightarrow> fits (bits_octets b)" "bits_ok b \<Longrightarrow> bit_string (mk_tlv t (bits_octets b) off) = Inr b"
  using bit_string_field.put_emits [of b t] bit_string_field.fits_contents [of b] bit_string_field.get_mk_tlv [of b t off]
  by (simp_all add: enc_bits_def bits_ok_def bits_octets_def split_beta)

lemma emits_element: "emits f body \<Longrightarrow> fits body \<Longrightarrow> emits (constructed t f) (element t body)"
  by (rule emits_constructed) simp_all

lemma fits_parts: "fits (xs @ ys) \<Longrightarrow> fits xs" "fits (xs @ ys) \<Longrightarrow> fits ys"
  by simp_all

lemma fits_append: "fits (xs @ ys) \<Longrightarrow> fits xs \<and> fits ys"
  by simp

lemma fits_opt: "fits (opt_element t f x) \<Longrightarrow> x = Some y \<Longrightarrow> fits (f y)"
  by (auto dest: fits_element)

lemmas fits_dest = fits_parts fits_element

lemmas last_field [simp] = field_element [where rest = "[]", simplified] opt_field_element(1) [where rest = "[]", simplified]

lemmas field_reads = integer_field.get_mk_tlv unsigned_field.get_mk_tlv lenient_u32_field.get_mk_tlv boolean_field.get_mk_tlv
  visible_field.get_mk_tlv i32_field.get_mk_tlv bits_field(3) opt_field_opt next_if_tag_opt last_opt

section \<open>Association parameters\<close>

record initiate =
  ini_local_detail :: "i64 option"
  ini_calling :: i64
  ini_called :: i64
  ini_nesting :: "i64 option"
  ini_version :: i64
  ini_parameter_cbb :: "u8 \<times> bytes"
  ini_services :: "u8 \<times> bytes"

definition initiate_request :: "i64 \<Rightarrow> i64 \<Rightarrow> u8 \<times> bytes \<Rightarrow> u8 \<times> bytes \<Rightarrow> initiate" where
  "initiate_request max_pdu outstanding parameter_cbb services_supported =
     \<lparr>ini_local_detail = Some max_pdu, ini_calling = outstanding, ini_called = outstanding, ini_nesting = Some 5,
      ini_version = 1, ini_parameter_cbb = parameter_cbb, ini_services = services_supported\<rparr>"

definition initiate_parse :: "tlv \<Rightarrow> initiate result" where
  "initiate_parse = on_children
     (sbind (opt_field (tag_context 0) integer_i64) (\<lambda>local_detail.
      sbind (field (tag_context 1) integer_i64) (\<lambda>calling.
      sbind (field (tag_context 2) integer_i64) (\<lambda>called.
      sbind (opt_field (tag_context 3) integer_i64) (\<lambda>nesting.
      sbind (next_tag (tag_context_constructed 4)) (\<lambda>detail.
      slift (on_children
        (sbind (field (tag_context 0) integer_i64) (\<lambda>version.
         sbind (field (tag_context 1) bit_string) (\<lambda>parameter_cbb.
         sbind (field (tag_context 2) bit_string) (\<lambda>services.
         sreturn \<lparr>ini_local_detail = local_detail, ini_calling = calling, ini_called = called, ini_nesting = nesting,
           ini_version = version, ini_parameter_cbb = parameter_cbb, ini_services = services\<rparr>)))) detail)))))))"

definition initiate_write :: "initiate \<Rightarrow> tag \<Rightarrow> enc" where
  "initiate_write i t = constructed t
     (sbind (enc_opt (enc_integer (tag_context 0)) (ini_local_detail i)) (\<lambda>_.
      sbind (enc_integer (tag_context 1) (ini_calling i)) (\<lambda>_.
      sbind (enc_integer (tag_context 2) (ini_called i)) (\<lambda>_.
      sbind (enc_opt (enc_integer (tag_context 3)) (ini_nesting i)) (\<lambda>_.
      constructed (tag_context_constructed 4)
        (sbind (enc_integer (tag_context 0) (ini_version i)) (\<lambda>_.
         sbind (enc_bits (tag_context 1) (ini_parameter_cbb i)) (\<lambda>_.
         enc_bits (tag_context 2) (ini_services i)))))))))"

definition initiate_detail :: "initiate \<Rightarrow> bytes" where
  "initiate_detail i = element (tag_context 0) (integer_octets (ini_version i)) @
     element (tag_context 1) (bits_octets (ini_parameter_cbb i)) @ element (tag_context 2) (bits_octets (ini_services i))"

definition initiate_contents :: "initiate \<Rightarrow> bytes" where
  "initiate_contents i = opt_element (tag_context 0) integer_octets (ini_local_detail i) @
     element (tag_context 1) (integer_octets (ini_calling i)) @ element (tag_context 2) (integer_octets (ini_called i)) @
     opt_element (tag_context 3) integer_octets (ini_nesting i) @ element (tag_context_constructed 4) (initiate_detail i)"

definition initiate_ok :: "initiate \<Rightarrow> bool" where
  "initiate_ok i \<longleftrightarrow> bits_ok (ini_parameter_cbb i) \<and> bits_ok (ini_services i) \<and> fits (initiate_contents i)"

lemma initiate_fits: "initiate_ok i \<Longrightarrow> fits (initiate_detail i)"
  unfolding initiate_ok_def initiate_contents_def by (blast dest: fits_dest)

lemma initiate_emits:
  assumes "initiate_ok i"
  shows "emits (initiate_write i t) (element t (initiate_contents i))"
proof -
  have b: "bits_ok (ini_parameter_cbb i)" "bits_ok (ini_services i)" "fits (initiate_contents i)"
    using assms by (auto simp: initiate_ok_def)
  show ?thesis
    unfolding initiate_write_def
    by (rule emits_element [OF _ b(3)], unfold initiate_contents_def,
        intro emits_bind emits_enc_opt emits_element integer_field.put_emits initiate_fits [OF assms] TrueI)
      (unfold initiate_detail_def, intro emits_bind integer_field.put_emits bits_field(1) b TrueI)
qed

lemma initiate_read: "initiate_ok i \<Longrightarrow> initiate_parse (mk_tlv t (initiate_contents i) off) = Inr i"
  using initiate_fits [of i]
  by (simp add: initiate_parse_def initiate_contents_def initiate_ok_def sbind_def slift_def field_reads)
    (simp add: initiate_detail_def field_reads bits_field(2) sbind_def sreturn_def)


section \<open>Lists of read elements\<close>

lemma read_items_map:
  assumes "\<And>x off. x \<in> set xs \<Longrightarrow> fits (g x) \<and> get (mk_tlv (tg x) (g x) off) = Inr (h x)" "within bound (length out + length xs)"
  shows "read_items bound get (cur_at pre (concat (map (\<lambda>x. element (tg x) (g x)) xs)) base) out = Inr (out @ map h xs)"
proof -
  have "list_all2 (\<lambda>x y. y = h x) xs ys \<Longrightarrow> ys = map h xs" for ys
    by (auto simp: list_all2_conv_all_nth intro: nth_equalityI)
  then show ?thesis
    using read_items_elements [of xs g get tg "\<lambda>x y. y = h x" bound out pre base] assms by (smt (verit))
qed

lemma read_items_onto:
  assumes "\<And>x off. x \<in> set xs \<Longrightarrow> fits (g x) \<and> (\<exists>y. get (mk_tlv (tg x) (g x) off) = Inr y \<and> f y = x)"
    "within bound (length out + length xs)"
  shows "\<exists>ys. read_items bound get (cur_at pre (concat (map (\<lambda>x. element (tg x) (g x)) xs)) base) out = Inr (out @ ys) \<and> map f ys = xs"
proof -
  have "list_all2 (\<lambda>x y. f y = x) xs ys \<Longrightarrow> map f ys = xs" for ys
    by (auto simp: list_all2_conv_all_nth intro: nth_equalityI)
  then show ?thesis
    using read_items_elements [of xs g get tg "\<lambda>x y. f y = x" bound out pre base] assms by (smt (verit))
qed

lemma within_None [simp]: "within None n"
  by (simp add: within_def)

lemma fits_items: "fits (concat (map (\<lambda>x. element (tg x) (g x)) xs)) \<Longrightarrow> x \<in> set xs \<Longrightarrow> fits (g x)"
proof (induction xs)
  case (Cons y ys)
  then show ?case using fits_element [of "tg y" "g y"] by auto
qed simp

definition some_list :: "'a list \<Rightarrow> 'a list option" where
  "some_list xs = (if xs = [] then None else Some xs)"

lemma some_list_simps [simp]: "some_list xs = Some ys \<longleftrightarrow> xs = ys \<and> ys \<noteq> []" "default_to [] (some_list xs) = xs"
  by (auto simp: some_list_def default_to_def)

section \<open>Journal queries\<close>

definition TAG_VISIBLE_STRING :: tag where
  "TAG_VISIBLE_STRING = tag_universal 26 False"

definition range_start_parse :: "tlv \<Rightarrow> range_start result" where
  "range_start_parse inner =
     (if tag_number (tlv_tag inner) = 0 then rbind (tod_from_octets (tlv_value inner)) (\<lambda>t. Inr (RsTime t))
      else if tag_number (tlv_tag inner) = 1 then Inr (RsEntry (tlv_value inner))
      else Inl (Decode UnexpectedTag (tlv_offset inner)))"

definition range_stop_parse :: "tlv \<Rightarrow> range_stop result" where
  "range_stop_parse inner =
     (if tag_number (tlv_tag inner) = 0 then rbind (tod_from_octets (tlv_value inner)) (\<lambda>t. Inr (StopTime t))
      else if tag_number (tlv_tag inner) = 1 then rbind (integer_i32 inner) (\<lambda>n. Inr (StopCount n))
      else Inl (Decode UnexpectedTag (tlv_offset inner)))"

definition after_entry_parse :: "tlv \<Rightarrow> after_entry result" where
  "after_entry_parse = on_children
     (sbind (field (tag_context 0) (\<lambda>t. tod_from_octets (tlv_value t))) (\<lambda>time.
      sbind (field (tag_context 1) (\<lambda>t. Inr (tlv_value t))) (\<lambda>entry_id.
      sreturn \<lparr>aft_time = time, aft_entry_id = entry_id\<rparr>)))"

definition rj_parse :: "tlv \<Rightarrow> read_journal result" where
  "rj_parse = on_children
     (sbind (opt_field (tag_context_constructed 0) (\<lambda>n. rbind (first_child n) object_name_parse)) (\<lambda>name.
      sbind (opt_field (tag_context_constructed 1) (\<lambda>r. rbind (first_child r) range_start_parse)) (\<lambda>start.
      sbind (opt_field (tag_context_constructed 2) (\<lambda>r. rbind (first_child r) range_stop_parse)) (\<lambda>stop.
      sbind (opt_field (tag_context_constructed 4) (\<lambda>l. read_items None visible_string (children l) [])) (\<lambda>variables.
      sbind (opt_field (tag_context_constructed 5) after_entry_parse) (\<lambda>after.
      sreturn \<lparr>rj_name = name, rj_start = start, rj_stop = stop, rj_variables = default_to [] variables, rj_after = after\<rparr>))))))"

definition range_start_write :: "range_start \<Rightarrow> enc" where
  "range_start_write s = constructed (tag_context_constructed 1) (case s of
     RsTime t \<Rightarrow> primitive (tag_context 0) (tod_to_octets t) | RsEntry i \<Rightarrow> primitive (tag_context 1) i)"

definition range_stop_write :: "range_stop \<Rightarrow> enc" where
  "range_stop_write s = constructed (tag_context_constructed 2) (case s of
     StopTime t \<Rightarrow> primitive (tag_context 0) (tod_to_octets t) | StopCount n \<Rightarrow> enc_integer (tag_context 1) (i64_of n))"

definition SERVICE_READ_JOURNAL :: u32 where "SERVICE_READ_JOURNAL = 65"

definition rj_write :: "read_journal \<Rightarrow> enc" where
  "rj_write r = constructed (tag_context_constructed SERVICE_READ_JOURNAL)
     (sbind (enc_opt (\<lambda>n. constructed (tag_context_constructed 0) (object_name_write n)) (rj_name r)) (\<lambda>_.
      sbind (enc_opt range_start_write (rj_start r)) (\<lambda>_.
      sbind (enc_opt range_stop_write (rj_stop r)) (\<lambda>_.
      sbind (enc_opt (\<lambda>vs. constructed (tag_context_constructed 4) (sfor (enc_visible_string TAG_VISIBLE_STRING) vs))
        (some_list (rj_variables r))) (\<lambda>_.
      enc_opt (\<lambda>a. constructed (tag_context_constructed 5)
        (sbind (primitive (tag_context 0) (tod_to_octets (aft_time a))) (\<lambda>_. primitive (tag_context 1) (aft_entry_id a))))
        (rj_after r))))))"

text \<open>What they are written as.\<close>

fun range_start_contents :: "range_start \<Rightarrow> bytes" where
  "range_start_contents (RsTime t) = element (tag_context 0) (tod_to_octets t)"
| "range_start_contents (RsEntry i) = element (tag_context 1) i"

fun range_stop_contents :: "range_stop \<Rightarrow> bytes" where
  "range_stop_contents (StopTime t) = element (tag_context 0) (tod_to_octets t)"
| "range_stop_contents (StopCount n) = element (tag_context 1) (integer_octets (i64_of n))"

definition after_contents :: "after_entry \<Rightarrow> bytes" where
  "after_contents a = element (tag_context 0) (tod_to_octets (aft_time a)) @ element (tag_context 1) (aft_entry_id a)"

definition strings_contents :: "tag \<Rightarrow> string list \<Rightarrow> bytes" where
  "strings_contents t vs = concat (map (\<lambda>v. element t (as_bytes v)) vs)"

definition rj_contents :: "read_journal \<Rightarrow> bytes" where
  "rj_contents r = opt_element (tag_context_constructed 0) object_name_octets (rj_name r) @
     opt_element (tag_context_constructed 1) range_start_contents (rj_start r) @
     opt_element (tag_context_constructed 2) range_stop_contents (rj_stop r) @
     opt_element (tag_context_constructed 4) (strings_contents TAG_VISIBLE_STRING) (some_list (rj_variables r)) @
     opt_element (tag_context_constructed 5) after_contents (rj_after r)"

definition tod_ok :: "time_of_day \<Rightarrow> bool" where
  "tod_ok t \<longleftrightarrow> tod_dated t \<or> days_since_1984 (tod_time t) = 0"

definition rj_ok :: "read_journal \<Rightarrow> bool" where
  "rj_ok r \<longleftrightarrow> pred_option object_name_ok (rj_name r) \<and>
     (\<forall>t. rj_start r = Some (RsTime t) \<longrightarrow> tod_ok t) \<and> (\<forall>t. rj_stop r = Some (StopTime t) \<longrightarrow> tod_ok t) \<and>
     list_all ascii_str (rj_variables r) \<and> pred_option (\<lambda>a. tod_ok (aft_time a)) (rj_after r) \<and> fits (rj_contents r)"

lemma tod_octets: "tod_ok t \<Longrightarrow> tod_from_octets (tod_to_octets t) = Inr t" "length (tod_to_octets t) \<le> 6"
proof -
  have "take 4 (et_to_octets e) = to_be 4 (millis_of_day e)" for e
    by (simp add: et_to_octets_def Let_def to_be_def numeral_eq_Suc)
  then show "tod_ok t \<Longrightarrow> tod_from_octets (tod_to_octets t) = Inr t"
    by (cases t, cases "tod_time t")
      (auto simp: tod_ok_def tod_from_octets_def tod_to_octets_def tod_of_def et.dec_enc et.length_enc from_be_to_be Let_def split: if_splits)
  show "length (tod_to_octets t) \<le> 6"
    by (simp add: tod_to_octets_def et_to_octets_def Let_def)
qed

lemma tod_fits [simp]: "fits (tod_to_octets t)"
  using tod_octets(2) [of t] by simp

lemma strings_read:
  assumes "list_all ascii_str vs" "fits (strings_contents t vs)" "within bound (length vs)"
  shows "read_items bound visible_string (cur_at pre (strings_contents t vs) base) [] = Inr vs"
    "emits (sfor (enc_visible_string t) vs) (strings_contents t vs)"
proof -
  have ok: "text_ok v" if "v \<in> set vs" for v
    using assms(1) fits_items [OF assms(2) [unfolded strings_contents_def] that] that by (auto simp: list_all_iff)
  show "read_items bound visible_string (cur_at pre (strings_contents t vs) base) [] = Inr vs"
    using read_items_map [of vs as_bytes visible_string "\<lambda>_. t" "\<lambda>v. v" bound "[]" pre base] ok assms(3)
    by (simp add: strings_contents_def visible_field.get_mk_tlv)
  show "emits (sfor (enc_visible_string t) vs) (strings_contents t vs)"
    unfolding strings_contents_def by (rule emits_for) (use ok in \<open>auto intro: visible_field.put_emits\<close>)
qed

lemma rj_parts:
  assumes "rj_ok r"
  shows "rj_name r = Some n \<Longrightarrow> object_name_ok n" "rj_start r = Some s \<Longrightarrow> fits (range_start_contents s)"
    "rj_stop r = Some e \<Longrightarrow> fits (range_stop_contents e)" "fits (strings_contents TAG_VISIBLE_STRING (rj_variables r))"
    "rj_after r = Some a \<Longrightarrow> fits (after_contents a)" "rj_name r = Some n \<Longrightarrow> fits (object_name_octets n)"
proof -
  have f: "fits (rj_contents r)" using assms by (simp add: rj_ok_def)
  show "rj_name r = Some n \<Longrightarrow> object_name_ok n" using assms by (simp add: rj_ok_def)
  show "rj_start r = Some s \<Longrightarrow> fits (range_start_contents s)" "rj_stop r = Some e \<Longrightarrow> fits (range_stop_contents e)"
    "rj_after r = Some a \<Longrightarrow> fits (after_contents a)" "rj_name r = Some n \<Longrightarrow> fits (object_name_octets n)"
    using f unfolding rj_contents_def by (auto simp only: dest!: fits_append dest: fits_opt)
  show "fits (strings_contents TAG_VISIBLE_STRING (rj_variables r))"
    using f unfolding rj_contents_def
    by (cases "rj_variables r = []")
      (simp add: strings_contents_def, auto simp only: some_list_def if_False dest!: fits_append dest: fits_opt)
qed

lemma rj_emits:
  assumes "rj_ok r"
  shows "emits (rj_write r) (element (tag_context_constructed SERVICE_READ_JOURNAL) (rj_contents r))"
proof -
  note p = rj_parts [OF assms]
  have f: "fits (rj_contents r)" using assms by (simp add: rj_ok_def)
  have s: "emits (range_start_write s) (element (tag_context_constructed 1) (range_start_contents s))" if "rj_start r = Some s" for s
    using p(2) [OF that] unfolding range_start_write_def
    by (intro emits_element) (cases s; auto intro: octets_field.put_emits fits_element)+
  have e: "emits (range_stop_write s) (element (tag_context_constructed 2) (range_stop_contents s))" if "rj_stop r = Some s" for s
    using p(3) [OF that] unfolding range_stop_write_def
    by (intro emits_element) (cases s; auto intro: octets_field.put_emits integer_field.put_emits)+
  have v: "emits (constructed (tag_context_constructed 4) (sfor (enc_visible_string TAG_VISIBLE_STRING) vs))
      (element (tag_context_constructed 4) (strings_contents TAG_VISIBLE_STRING vs))" if "some_list (rj_variables r) = Some vs" for vs
    using strings_read(2) [of vs TAG_VISIBLE_STRING None] p(4) assms that by (intro emits_element) (auto simp: rj_ok_def)
  have a: "emits (constructed (tag_context_constructed 5)
        (sbind (primitive (tag_context 0) (tod_to_octets (aft_time a))) (\<lambda>_. primitive (tag_context 1) (aft_entry_id a))))
      (element (tag_context_constructed 5) (after_contents a))" if "rj_after r = Some a" for a
  proof (rule emits_element)
    show f: "fits (after_contents a)" by (rule p(5) [OF that])
    then have "fits (aft_entry_id a)" unfolding after_contents_def by (auto simp only: dest!: fits_append dest: fits_element)
    then show "emits (sbind (primitive (tag_context 0) (tod_to_octets (aft_time a))) (\<lambda>_. primitive (tag_context 1) (aft_entry_id a)))
        (after_contents a)" unfolding after_contents_def by (intro emits_bind octets_field.put_emits tod_fits)
  qed
  have n: "emits (constructed (tag_context_constructed 0) (object_name_write n)) (element (tag_context_constructed 0) (object_name_octets n))"
    if "rj_name r = Some n" for n
    using p(1,6) that by (intro emits_element emits_object_name) auto
  show ?thesis unfolding rj_write_def
    by (rule emits_element [OF _ f], unfold rj_contents_def, intro emits_bind emits_enc_opt s e v a n)
qed

lemma rj_read: "rj_ok r \<Longrightarrow> rj_parse (mk_tlv t (rj_contents r) off) = Inr r"
proof -
  assume ok: "rj_ok r"
  note p = rj_parts [OF ok]
  have n: "rbind (first_child (mk_tlv u (object_name_octets n) o')) object_name_parse = Inr n" if "rj_name r = Some n" for n u o'
    using p(1) [OF that] object_name_fits by simp
  have s: "rbind (first_child (mk_tlv u (range_start_contents s) o')) range_start_parse = Inr s" if "rj_start r = Some s" for s u o'
    using p(2) [OF that] ok that by (cases s) (auto simp: range_start_parse_def tod_octets(1) rj_ok_def tag_defs dest: fits_element)
  have e: "rbind (first_child (mk_tlv u (range_stop_contents s) o')) range_stop_parse = Inr s" if "rj_stop r = Some s" for s u o'
    using p(3) [OF that] ok that
    by (cases s) (auto simp: range_stop_parse_def tod_octets(1) rj_ok_def tag_context_def i32_field.get_contents dest: fits_element)
  have v: "read_items None visible_string (children (mk_tlv u (strings_contents TAG_VISIBLE_STRING (rj_variables r)) o')) [] = Inr (rj_variables r)" for u o'
    using strings_read(1) [of "rj_variables r" TAG_VISIBLE_STRING None] p(4) ok by (simp add: rj_ok_def cur_at_start)
  have a: "after_entry_parse (mk_tlv u (after_contents a) o') = Inr a" if "rj_after r = Some a" for a u o'
  proof -
    have "fits (aft_entry_id a)" using p(5) [OF that] unfolding after_contents_def by (auto simp only: dest!: fits_append dest: fits_element)
    then show ?thesis using ok that by (simp add: after_entry_parse_def after_contents_def sbind_def sreturn_def rj_ok_def tod_octets(1))
  qed
  have sv: "fits (strings_contents TAG_VISIBLE_STRING vs)"
    "read_items None visible_string (children (mk_tlv u (strings_contents TAG_VISIBLE_STRING vs) o')) [] = Inr vs"
    if "some_list (rj_variables r) = Some vs" for vs u o' using p(4) v that by auto
  show ?thesis
    using p by (simp add: rj_parse_def rj_contents_def sbind_def sreturn_def opt_field_opt last_opt n s e v a sv del: first_child_mk some_list_simps(1))
qed

section \<open>Rejects\<close>

datatype reject_reason =
  RrConfirmedRequest i64 | RrConfirmedResponse i64 | RrConfirmedError i64 | RrUnconfirmed i64 | RrPduError i64
| RrCancelRequest i64 | RrCancelResponse i64 | RrCancelError i64 | RrConcludeRequest i64 | RrConcludeResponse i64
| RrConcludeError i64 | RrOther u32 i64

definition reject_parts :: "reject_reason \<Rightarrow> u32 \<times> i64" where
  "reject_parts r = (case r of
     RrConfirmedRequest c \<Rightarrow> (1, c) | RrConfirmedResponse c \<Rightarrow> (2, c) | RrConfirmedError c \<Rightarrow> (3, c) | RrUnconfirmed c \<Rightarrow> (4, c)
   | RrPduError c \<Rightarrow> (5, c) | RrCancelRequest c \<Rightarrow> (6, c) | RrCancelResponse c \<Rightarrow> (7, c) | RrCancelError c \<Rightarrow> (8, c)
   | RrConcludeRequest c \<Rightarrow> (9, c) | RrConcludeResponse c \<Rightarrow> (10, c) | RrConcludeError c \<Rightarrow> (11, c) | RrOther t c \<Rightarrow> (t, c))"

definition reject_from_parts :: "u32 \<Rightarrow> i64 \<Rightarrow> reject_reason" where
  "reject_from_parts t c =
     (if t = 1 then RrConfirmedRequest c else if t = 2 then RrConfirmedResponse c else if t = 3 then RrConfirmedError c
      else if t = 4 then RrUnconfirmed c else if t = 5 then RrPduError c else if t = 6 then RrCancelRequest c
      else if t = 7 then RrCancelResponse c else if t = 8 then RrCancelError c else if t = 9 then RrConcludeRequest c
      else if t = 10 then RrConcludeResponse c else if t = 11 then RrConcludeError c else RrOther t c)"

record reject_pdu =
  rej_invoke :: "i64 option"
  rej_reason :: reject_reason

definition reject_confirmed_request :: "i64 \<Rightarrow> i64 \<Rightarrow> reject_pdu" where
  "reject_confirmed_request invoke_id code = \<lparr>rej_invoke = Some invoke_id, rej_reason = RrConfirmedRequest code\<rparr>"

definition reject_pdu_error :: "i64 \<Rightarrow> reject_pdu" where
  "reject_pdu_error code = \<lparr>rej_invoke = None, rej_reason = RrPduError code\<rparr>"

text \<open>\<open>(0..=i64::from(u32::MAX)).contains(&v)\<close>.\<close>

definition in_u32 :: "i64 \<Rightarrow> bool" where
  "in_u32 v \<longleftrightarrow> 0 \<le> sint v \<and> sint v < 2 ^ 32"

definition invoke_id_of :: "tlv \<Rightarrow> i64 result" where
  "invoke_id_of t = rbind (integer_i64 t) (\<lambda>v. if in_u32 v then Inr v else Inl (Decode BadValue (tlv_value_offset t)))"

definition reject_parse :: "tlv \<Rightarrow> reject_pdu result" where
  "reject_parse = on_children
     (sbind (opt_field (tag_context 0) invoke_id_of) (\<lambda>original.
      sbind next_required (\<lambda>reason.
      if tag_class (tlv_tag reason) \<noteq> Context \<or> tag_constructed (tlv_tag reason) \<or> tag_number (tlv_tag reason) = 0
      then sfail (Decode UnexpectedTag (tlv_offset reason))
      else (\<lambda>c. (rbind (cur_finish c) (\<lambda>_. rbind (integer_i64 reason) (\<lambda>code.
        Inr \<lparr>rej_invoke = original, rej_reason = reject_from_parts (tag_number (tlv_tag reason)) code\<rparr>)), c)))))"

definition enc_u32_of :: "string \<Rightarrow> tag \<Rightarrow> i64 \<Rightarrow> enc" where
  "enc_u32_of what t v = (if in_u32 v then enc_unsigned t v else sfail (Encode what))"

definition reject_write :: "reject_pdu \<Rightarrow> enc" where
  "reject_write r = (let (t, code) = reject_parts (rej_reason r) in
     constructed (tag_context_constructed 4)
       (sbind (enc_opt (enc_u32_of ''originalInvokeID is Unsigned32'' (tag_context 0)) (rej_invoke r)) (\<lambda>_.
        enc_integer (tag_context t) code)))"

definition reject_to_error_parts :: "reject_pdu \<Rightarrow> i64 option \<times> u32 \<times> i64" where
  "reject_to_error_parts r = (rej_invoke r, reject_parts (rej_reason r))"

definition reject_contents :: "reject_pdu \<Rightarrow> bytes" where
  "reject_contents r = opt_element (tag_context 0) unsigned_octets (rej_invoke r) @
     element (tag_context (fst (reject_parts (rej_reason r)))) (integer_octets (snd (reject_parts (rej_reason r))))"

definition reject_ok :: "reject_pdu \<Rightarrow> bool" where
  "reject_ok r \<longleftrightarrow> pred_option in_u32 (rej_invoke r) \<and> fst (reject_parts (rej_reason r)) \<noteq> 0 \<and>
     (\<forall>t c. rej_reason r = RrOther t c \<longrightarrow> 11 < t)"

lemma reject_reason_round:
  "(\<forall>t c. r = RrOther t c \<longrightarrow> t = 0 \<or> 11 < t) \<Longrightarrow> reject_from_parts (fst (reject_parts r)) (snd (reject_parts r)) = r"
  by (cases r) (auto simp: reject_parts_def reject_from_parts_def)

lemma bit_top_octet: "bit (0x80 :: u8) n \<longleftrightarrow> n = 7"
proof -
  have "(0x80 :: u8) = 2 ^ 7" by simp
  then show ?thesis by (simp only: bit_one_at) simp
qed

text \<open>An unsigned number below \<open>2^63\<close> is the signed number of the same contents octets.\<close>

lemma unsigned_as_integer:
  assumes "0 \<le> sint v" "tlv_value t = unsigned_octets v"
  shows "integer_i64 t = Inr v"
proof (cases v rule: unsigned_octets_cases)
  case high
  have "hd (to_be 8 v) = ucast (drop_bit 56 v)" by (simp add: numeral_eq_Suc)
  moreover have "\<not> bit v 63" using assms(1) bit_last_iff [of v] by simp
  ultimately have "\<not> bit (hd (to_be 8 v)) 7" by (simp add: bit_simps)
  then have "hd (to_be 8 v) AND 0x80 = 0" by (intro bit_word_eqI) (metis bit_0_eq bit_and_iff bit_top_octet bot_apply bot_bool_def)
  then show ?thesis using high(2) by simp
next
  case (low r)
  then have "hd (drop r (to_be 8 v)) AND 0x80 = 0" "drop r (to_be 8 v) \<noteq> []" by (simp_all add: hd_drop_conv_nth)
  then show ?thesis using low assms(2) by (simp add: integer_i64_def Let_def)
qed

lemma in_u32_read: "in_u32 v \<Longrightarrow> invoke_id_of (mk_tlv t (unsigned_octets v) off) = Inr v"
  "in_u32 v \<Longrightarrow> invoke_id_of (mk_tlv t (integer_octets v) off) = Inr v"
  using unsigned_as_integer [of v "mk_tlv t (unsigned_octets v) off"]
  by (simp_all add: invoke_id_of_def in_u32_def integer_field.get_mk_tlv)

lemma reject_fits: "fits (reject_contents r)"
proof -
  have i: "length (element t (integer_octets c)) \<le> 19" for t c using element_bound [of "integer_octets c" 8 t] by simp
  have "length (element (tag_context 0) (unsigned_octets v)) \<le> 20" for v by (rule number_element_short)
  then have "length (opt_element (tag_context 0) unsigned_octets (rej_invoke r)) \<le> 20" by (cases "rej_invoke r") simp_all
  then show ?thesis using i [of "tag_context (fst (reject_parts (rej_reason r)))" "snd (reject_parts (rej_reason r))"]
    by (simp add: reject_contents_def del: length_element_pos)
qed

lemma reject_emits: "reject_ok r \<Longrightarrow> emits (reject_write r) (element (tag_context_constructed 4) (reject_contents r))"
  using reject_fits [of r]
  by (auto simp: reject_write_def reject_ok_def reject_contents_def split_beta Let_def enc_u32_of_def
      intro!: emits_element emits_bind emits_enc_opt unsigned_field.put_emits integer_field.put_emits)

lemma reject_read:
  assumes "reject_ok r"
  shows "reject_parse (mk_tlv t (reject_contents r) off) = Inr r"
proof -
  let ?p = "reject_parts (rej_reason r)"
  have ok: "\<And>y. rej_invoke r = Some y \<Longrightarrow> in_u32 y" "fst ?p \<noteq> 0" using assms by (auto simp: reject_ok_def)
  have "reject_from_parts (fst ?p) (snd ?p) = rej_reason r"
    using assms by (intro reject_reason_round) (auto simp: reject_ok_def)
  moreover have "tag_class (tag_context n) = Context" "\<not> tag_constructed (tag_context n)" "tag_number (tag_context n) = n" for n
    by (simp_all add: tag_defs)
  ultimately show ?thesis
    using ok by (simp add: reject_parse_def reject_contents_def sbind_def opt_field_opt in_u32_read integer_field.get_mk_tlv)
qed

section \<open>Files\<close>

text \<open>A file name is kept as the encoded contents of its components.\<close>

type_synonym file_name = bytes

definition TAG_GRAPHIC_STRING :: tag where
  "TAG_GRAPHIC_STRING = tag_universal 25 False"

function file_name_loop :: "limits \<Rightarrow> cursor \<Rightarrow> usize \<Rightarrow> unit result" where
  "file_name_loop l c n = (case cur_next c of
     (None, _) \<Rightarrow> Inr ()
   | (Some r, c') \<Rightarrow> rbind r (\<lambda>part.
       if length (tlv_value part) > max_primitive_len l then Inl (LimitExceeded ''max_primitive_len'' (length (tlv_value part)))
       else rbind (visible_string part) (\<lambda>_.
       if n + 1 > 32 then Inl (LimitExceeded ''file name components'' (n + 1)) else file_name_loop l c' (n + 1))))"
  by pat_completeness auto
termination file_name_loop
  by (relation "measure (\<lambda>(_, c, _). cur_left c)") (auto dest: cur_next_left [OF sym])

declare file_name_loop.simps [simp del]

definition file_name_parse :: "tlv \<Rightarrow> limits \<Rightarrow> file_name result" where
  "file_name_parse t l = rbind (file_name_loop l (children t) 0) (\<lambda>_. Inr (tlv_value t))"

definition file_name_from_components :: "string list \<Rightarrow> file_name result" where
  "file_name_from_components parts = (case sfor (enc_visible_string TAG_GRAPHIC_STRING) parts [] of
     (Inl e, _) \<Rightarrow> Inl e | (Inr _, bs) \<Rightarrow> Inr bs)"

definition file_name_from_path :: "string \<Rightarrow> file_name result" where
  "file_name_from_path path = (case enc_visible_string TAG_GRAPHIC_STRING path [] of (Inl e, _) \<Rightarrow> Inl e | (Inr _, bs) \<Rightarrow> Inr bs)"

function components_from :: "cursor \<Rightarrow> string list" where
  "components_from c = (case cur_next c of
     (Some (Inr t), c') \<Rightarrow> (case visible_string t of Inr s \<Rightarrow> s # components_from c' | Inl _ \<Rightarrow> [])
   | _ \<Rightarrow> [])"
  by pat_completeness auto
termination components_from
  by (relation "measure cur_left") (auto dest: cur_next_left [OF sym])

declare components_from.simps [simp del]

definition file_components :: "file_name \<Rightarrow> string list" where
  "file_components name = components_from (cursor_new name)"

fun join_with :: "string \<Rightarrow> string list \<Rightarrow> string" where
  "join_with sep [] = []"
| "join_with sep [x] = x"
| "join_with sep (x # xs) = x @ sep @ join_with sep xs"

definition file_display :: "file_name \<Rightarrow> string" where
  "file_display name = join_with ''/'' (file_components name)"

record file_attributes =
  fat_size :: u32
  fat_modified :: "string option"

record directory_entry =
  dir_name :: file_name
  dir_attributes :: file_attributes

definition file_attributes_parse :: "tlv \<Rightarrow> file_attributes result" where
  "file_attributes_parse = on_children
     (sbind (field (tag_context 0) unsigned_lenient_u32) (\<lambda>size.
      sbind (opt_field (tag_context 1) visible_string) (\<lambda>modified.
      sreturn \<lparr>fat_size = size, fat_modified = modified\<rparr>)))"

definition file_attributes_write :: "file_attributes \<Rightarrow> tag \<Rightarrow> enc" where
  "file_attributes_write a t = constructed t
     (sbind (enc_unsigned (tag_context 0) (ucast (fat_size a))) (\<lambda>_.
      enc_opt (enc_visible_string (tag_context 1)) (fat_modified a)))"

definition directory_entries :: "tlv \<Rightarrow> cursor" where
  "directory_entries lst = (case cur_next (children lst) of
     (Some (Inr first), _) \<Rightarrow>
       if tlv_tag first \<noteq> TAG_SEQUENCE then children lst
       else (case cur_next (children first) of
          (Some (Inr inner), _) \<Rightarrow> if tlv_tag inner = TAG_SEQUENCE then children first else children lst
        | (Some (Inl _), _) \<Rightarrow> children lst
        | (None, _) \<Rightarrow> children first)
   | _ \<Rightarrow> children lst)"

definition directory_entry_parse :: "limits \<Rightarrow> tlv \<Rightarrow> directory_entry result" where
  "directory_entry_parse l t = rbind (expect TAG_SEQUENCE t) (on_children
     (sbind (field (tag_context_constructed 0) (\<lambda>t. file_name_parse t l)) (\<lambda>name.
      sbind (field (tag_context_constructed 1) file_attributes_parse) (\<lambda>attributes.
      sreturn \<lparr>dir_name = name, dir_attributes = attributes\<rparr>))))"

definition directory_entry_write :: "directory_entry \<Rightarrow> enc" where
  "directory_entry_write d = constructed TAG_SEQUENCE
     (sbind (constructed (tag_context_constructed 0) (enc_raw (dir_name d))) (\<lambda>_.
      file_attributes_write (dir_attributes d) (tag_context_constructed 1)))"

definition attributes_contents :: "file_attributes \<Rightarrow> bytes" where
  "attributes_contents a = element (tag_context 0) (unsigned_octets (ucast (fat_size a))) @
     opt_element (tag_context 1) as_bytes (fat_modified a)"

definition attributes_ok :: "file_attributes \<Rightarrow> bool" where
  "attributes_ok a \<longleftrightarrow> pred_option ascii_str (fat_modified a) \<and> fits (attributes_contents a)"

text \<open>A name a peer may send: at most 32 components, each short enough, each text, under whatever tags.\<close>

definition name_of_parts :: "(tag \<times> string) list \<Rightarrow> file_name" where
  "name_of_parts parts = concat (map (\<lambda>(t, s). element t (as_bytes s)) parts)"

definition parts_ok :: "limits \<Rightarrow> (tag \<times> string) list \<Rightarrow> bool" where
  "parts_ok l parts \<longleftrightarrow> length parts \<le> 32 \<and> (\<forall>(t, s) \<in> set parts. ascii_str s \<and> length s \<le> max_primitive_len l)"

definition file_name_ok :: "limits \<Rightarrow> file_name \<Rightarrow> bool" where
  "file_name_ok l name \<longleftrightarrow> fits name \<and> (\<exists>parts. parts_ok l parts \<and> name = name_of_parts parts)"

lemma file_name_loop_parts:
  assumes "\<forall>(t, s) \<in> set parts. text_ok s \<and> length s \<le> max_primitive_len l" "n + length parts \<le> 32"
  shows "file_name_loop l (cur_at pre (name_of_parts parts) base) n = Inr ()"
  using assms
proof (induction parts arbitrary: pre n)
  case (Cons p parts)
  obtain t s where p: "p = (t, s)" by fastforce
  have s: "text_ok s" "length s \<le> max_primitive_len l" using Cons.prems(1) p by auto
  then show ?case
    using Cons.IH [of "Suc n" "pre @ element t (as_bytes s)"] Cons.prems
    by (subst file_name_loop.simps) (simp add: p name_of_parts_def visible_field.get_mk_tlv)
qed (simp add: file_name_loop.simps name_of_parts_def)

lemma name_of_parts_fits: "fits (name_of_parts parts) \<Longrightarrow> (t, s) \<in> set parts \<Longrightarrow> fits (as_bytes s)"
proof (induction parts)
  case (Cons p parts)
  then show ?case using fits_element [of t "as_bytes s"] by (auto simp: name_of_parts_def)
qed simp

lemma file_name_read: "file_name_ok l name \<Longrightarrow> file_name_parse (mk_tlv t name off) l = Inr name"
proof -
  assume "file_name_ok l name"
  then obtain parts where p: "fits name" "parts_ok l parts" "name = name_of_parts parts" by (auto simp: file_name_ok_def)
  have "\<forall>(t, s) \<in> set parts. text_ok s \<and> length s \<le> max_primitive_len l"
    using p name_of_parts_fits [of parts] by (auto simp: parts_ok_def)
  then have "file_name_loop l (cur_at [] (name_of_parts parts) base) 0 = Inr ()" for base
    using p(2) by (intro file_name_loop_parts) (auto simp: parts_ok_def)
  then show ?thesis by (simp add: file_name_parse_def cur_at_start p(3))
qed

text \<open>The name built from a path or from components is those components again.\<close>

lemma components_of_parts: "\<forall>(t, s) \<in> set parts. text_ok s \<Longrightarrow>
    components_from (cur_at pre (name_of_parts parts) base) = map snd parts"
proof (induction parts arbitrary: pre)
  case (Cons p parts)
  obtain t s where p: "p = (t, s)" by fastforce
  have "text_ok s" using Cons.prems p by auto
  then show ?case
    using Cons.IH [of "pre @ element t (as_bytes s)"] Cons.prems
    by (subst components_from.simps) (simp add: p name_of_parts_def visible_field.get_mk_tlv)
qed (simp add: components_from.simps name_of_parts_def)

lemma file_components_round:
  assumes "\<forall>s \<in> set parts. text_ok s"
  shows "\<exists>name. file_name_from_components parts = Inr name \<and> file_components name = parts \<and> file_display name = join_with ''/'' parts"
proof -
  let ?ps = "map (\<lambda>s. (TAG_GRAPHIC_STRING, s)) parts"
  have "emits (sfor (enc_visible_string TAG_GRAPHIC_STRING) parts) (concat (map (\<lambda>s. element TAG_GRAPHIC_STRING (as_bytes s)) parts))"
    using assms by (intro emits_for visible_field.put_emits) auto
  then have n: "file_name_from_components parts = Inr (name_of_parts ?ps)"
    by (simp add: file_name_from_components_def emitsD name_of_parts_def o_def)
  have "components_from (cur_at [] (name_of_parts ?ps) 0) = parts"
    using assms by (subst components_of_parts) (auto simp: o_def)
  then show ?thesis using n by (simp add: file_components_def file_display_def cur_at_start)
qed

lemma attributes_text: "attributes_ok a \<Longrightarrow> fat_modified a = Some m \<Longrightarrow> text_ok m"
  using fits_opt [of "tag_context 1" as_bytes "fat_modified a" m]
  by (auto simp: attributes_ok_def attributes_contents_def)

lemma attributes_emits: "attributes_ok a \<Longrightarrow> emits (file_attributes_write a t) (element t (attributes_contents a))"
  using attributes_text [of a] unfolding file_attributes_write_def
  by (intro emits_element) (auto simp: attributes_ok_def attributes_contents_def
      intro!: emits_bind emits_enc_opt unsigned_field.put_emits visible_field.put_emits)

lemma attributes_read: "attributes_ok a \<Longrightarrow> file_attributes_parse (mk_tlv t (attributes_contents a) off) = Inr a"
  using attributes_text [of a]
  by (simp add: file_attributes_parse_def attributes_contents_def sbind_def sreturn_def lenient_u32_field.get_mk_tlv
      last_opt visible_field.get_mk_tlv)

definition directory_contents :: "directory_entry \<Rightarrow> bytes" where
  "directory_contents d = element (tag_context_constructed 0) (dir_name d) @
     element (tag_context_constructed 1) (attributes_contents (dir_attributes d))"

definition directory_ok :: "limits \<Rightarrow> directory_entry \<Rightarrow> bool" where
  "directory_ok l d \<longleftrightarrow> file_name_ok l (dir_name d) \<and> attributes_ok (dir_attributes d) \<and> fits (directory_contents d)"

lemma directory_emits: "directory_ok l d \<Longrightarrow> emits (directory_entry_write d) (element TAG_SEQUENCE (directory_contents d))"
  unfolding directory_entry_write_def
  by (intro emits_element) (auto simp: directory_ok_def directory_contents_def file_name_ok_def
      intro!: emits_bind emits_element emits_enc_raw attributes_emits)

lemma directory_read: "directory_ok l d \<Longrightarrow> directory_entry_parse l (mk_tlv TAG_SEQUENCE (directory_contents d) off) = Inr d"
  by (simp add: directory_entry_parse_def expect_def directory_ok_def directory_contents_def file_name_ok_def sbind_def sreturn_def
      file_name_read [unfolded file_name_ok_def] attributes_read attributes_ok_def)

text \<open>Both taggings of a directory list are told apart.\<close>

definition directory_list :: "directory_entry list \<Rightarrow> bytes" where
  "directory_list ds = concat (map (\<lambda>d. element TAG_SEQUENCE (directory_contents d)) ds)"

lemma directory_wrapped:
  assumes "fits (element TAG_SEQUENCE (directory_list ds))"
  shows "directory_entries (mk_tlv t (element TAG_SEQUENCE (directory_list ds)) off) =
    cur_at [] (directory_list ds) (tlv_value_offset (mk_tlv TAG_SEQUENCE (directory_list ds) (tlv_value_offset (mk_tlv t (element TAG_SEQUENCE (directory_list ds)) off))))"
proof -
  have f: "fits (directory_list ds)" using assms by (rule fits_element)
  then have "fits (directory_contents d)" if "d \<in> set ds" for d
    using fits_items [of "\<lambda>_. TAG_SEQUENCE" directory_contents ds d] that by (simp add: directory_list_def)
  then show ?thesis using f
    by (cases ds) (auto simp: directory_entries_def cur_at_start directory_list_def)
qed

lemma directory_unwrapped:
  assumes "fits (directory_list (d # ds))" "fits (dir_name d)"
  shows "directory_entries (mk_tlv t (directory_list (d # ds)) off) =
    cur_at [] (directory_list (d # ds)) (tlv_value_offset (mk_tlv t (directory_list (d # ds)) off))"
proof -
  have "fits (directory_contents d)"
    using assms(1) fits_items [of "\<lambda>_. TAG_SEQUENCE" directory_contents "d # ds" d] by (simp add: directory_list_def)
  then show ?thesis using assms(2)
    by (simp add: directory_entries_def cur_at_start directory_list_def) (simp add: directory_contents_def TAG_SEQUENCE_def cur_at_start)
qed

section \<open>Journal entries\<close>

datatype 't journal_item = JournalItem (jit_entry_id: bytes) (jit_occurred: time_of_day) (jit_variables: "(string \<times> 't) list")
  (jit_annotation: "string option") (jit_origin: "'t option")

definition journal_item_new :: "bytes \<Rightarrow> time_of_day \<Rightarrow> (string \<times> 't) list \<Rightarrow> 't journal_item" where
  "journal_item_new i occurred variables = JournalItem i occurred variables None None"

definition journal_annotated :: "bytes \<Rightarrow> time_of_day \<Rightarrow> string \<Rightarrow> 't journal_item" where
  "journal_annotated i occurred annotation = JournalItem i occurred [] (Some annotation) None"

definition journal_variable_parse :: "tlv \<Rightarrow> (string \<times> tlv) result" where
  "journal_variable_parse t = rbind (expect TAG_SEQUENCE t) (on_children
     (sbind (field (tag_context 0) visible_string) (\<lambda>tag.
      sbind (field (tag_context_constructed 1) first_child) (\<lambda>v.
      slift (rbind (from_tlv v) (\<lambda>_. Inr (tag, v)))))))"

definition entry_form_parse :: "limits \<Rightarrow> tlv \<Rightarrow> ((string \<times> tlv) list \<times> string option) result" where
  "entry_form_parse l form =
     (if tlv_tag form = tag_context_constructed 2 then on_children
        (sbind (next_if_tag (tag_context_constructed 0)) (\<lambda>_.
         sbind (opt_field (tag_context_constructed 1) (\<lambda>lst. read_items (datasets l) journal_variable_parse (children lst) [])) (\<lambda>vs.
         sreturn (default_to [] vs, None)))) form
      else if tlv_tag form = tag_context 3 then rbind (visible_string form) (\<lambda>a. Inr ([], Some a))
      else Inl (Decode UnexpectedTag (tlv_offset form)))"

definition entry_content_parse :: "limits \<Rightarrow> tlv \<Rightarrow> (time_of_day \<times> (string \<times> tlv) list \<times> string option) result" where
  "entry_content_parse l = on_children
     (sbind (field (tag_context 0) (\<lambda>t. tod_from_octets (tlv_value t))) (\<lambda>occurred.
      sbind (next_if_tag (tag_context_constructed 1)) (\<lambda>_.
      sbind next_required (\<lambda>form.
      slift (rbind (entry_form_parse l form) (\<lambda>f. Inr (occurred, f)))))))"

definition journal_item_parse :: "limits \<Rightarrow> tlv \<Rightarrow> tlv journal_item result" where
  "journal_item_parse l t = rbind (expect TAG_SEQUENCE t) (on_children
     (sbind (field (tag_context 0) (\<lambda>t. if length (tlv_value t) > max_primitive_len l
         then Inl (LimitExceeded ''max_primitive_len'' (length (tlv_value t))) else Inr (tlv_value t))) (\<lambda>entry_id.
      sbind (next_if_tag (tag_context_constructed 1)) (\<lambda>origin.
      sbind (field (tag_context_constructed 2) (entry_content_parse l)) (\<lambda>(occurred, variables, annotation).
      sreturn (JournalItem entry_id occurred variables annotation origin))))))"

definition journal_variable_write :: "string \<times> raw \<Rightarrow> enc" where
  "journal_variable_write v = constructed TAG_SEQUENCE
     (sbind (enc_visible_string (tag_context 0) (fst v)) (\<lambda>_. constructed (tag_context_constructed 1) (raw_write (snd v))))"

definition journal_item_write :: "raw journal_item \<Rightarrow> enc" where
  "journal_item_write e = constructed TAG_SEQUENCE
     (sbind (primitive (tag_context 0) (jit_entry_id e)) (\<lambda>_.
      sbind (case jit_origin e of Some r \<Rightarrow> raw_write r
             | None \<Rightarrow> constructed (tag_context_constructed 1) (constructed TAG_SEQUENCE (sreturn ()))) (\<lambda>_.
      constructed (tag_context_constructed 2)
        (sbind (primitive (tag_context 0) (tod_to_octets (jit_occurred e))) (\<lambda>_.
         case jit_annotation e of Some a \<Rightarrow> enc_visible_string (tag_context 3) a
         | None \<Rightarrow> constructed (tag_context_constructed 2)
             (constructed (tag_context_constructed 1) (sfor journal_variable_write (jit_variables e))))))))"

text \<open>A data element, and the entry as it is read: the originator is always there.\<close>

definition raw_octets :: "raw \<Rightarrow> bytes" where
  "raw_octets r = element (fst r) (snd r)"

definition is_data :: "raw \<Rightarrow> bool" where
  "is_data r \<longleftrightarrow> is_ok (from_tlv (mk_tlv (fst r) (snd r) 0))"

definition data_ok :: "raw \<Rightarrow> bool" where
  "data_ok r \<longleftrightarrow> is_data r \<and> fits (snd r)"

definition no_origin :: raw where
  "no_origin = (tag_context_constructed 1, element TAG_SEQUENCE [])"

definition named_origin :: "raw journal_item \<Rightarrow> raw journal_item" where
  "named_origin e = JournalItem (jit_entry_id e) (jit_occurred e) (jit_variables e) (jit_annotation e)
     (Some (default_to no_origin (jit_origin e)))"

definition variable_contents :: "string \<times> raw \<Rightarrow> bytes" where
  "variable_contents v = element (tag_context 0) (as_bytes (fst v)) @ element (tag_context_constructed 1) (raw_octets (snd v))"

definition variables_contents :: "(string \<times> raw) list \<Rightarrow> bytes" where
  "variables_contents vs = concat (map (\<lambda>v. element TAG_SEQUENCE (variable_contents v)) vs)"

definition form_octets :: "raw journal_item \<Rightarrow> bytes" where
  "form_octets e = (case jit_annotation e of Some a \<Rightarrow> element (tag_context 3) (as_bytes a)
     | None \<Rightarrow> element (tag_context_constructed 2) (element (tag_context_constructed 1) (variables_contents (jit_variables e))))"

definition journal_contents :: "raw journal_item \<Rightarrow> bytes" where
  "journal_contents e = element (tag_context 0) (jit_entry_id e) @ raw_octets (default_to no_origin (jit_origin e)) @
     element (tag_context_constructed 2) (element (tag_context 0) (tod_to_octets (jit_occurred e)) @ form_octets e)"

definition journal_ok :: "limits \<Rightarrow> raw journal_item \<Rightarrow> bool" where
  "journal_ok l e \<longleftrightarrow> length (jit_entry_id e) \<le> max_primitive_len l \<and> tod_ok (jit_occurred e) \<and>
     pred_option (\<lambda>r. fst r = tag_context_constructed 1) (jit_origin e) \<and>
     pred_option (\<lambda>a. ascii_str a \<and> jit_variables e = []) (jit_annotation e) \<and>
     length (jit_variables e) \<le> max_dataset_members l \<and>
     (\<forall>v \<in> set (jit_variables e). ascii_str (fst v) \<and> is_data (snd v)) \<and> fits (journal_contents e)"

lemma is_ok_rbind: "(\<And>x. is_ok (f x)) \<Longrightarrow> is_ok (rbind m f) \<longleftrightarrow> is_ok m"
  by (cases m) auto

lemma is_ok_accessors:
  "is_ok (boolean t) \<longleftrightarrow> length (tlv_value t) = 1"
  "is_ok (bit_string t) \<longleftrightarrow> (case tlv_value t of [] \<Rightarrow> False | u # rest \<Rightarrow> u \<le> 7 \<and> (rest \<noteq> [] \<or> u = 0))"
  "is_ok (integer_i64 t) \<longleftrightarrow> tlv_value t \<noteq> [] \<and> length (tlv_value t) \<le> 8"
  "is_ok (unsigned_lenient_u64 t) \<longleftrightarrow> (length (tlv_value t) = 9 \<and> hd (tlv_value t) = 0) \<or> (tlv_value t \<noteq> [] \<and> length (tlv_value t) \<le> 8)"
  "is_ok (visible_string t) \<longleftrightarrow> is_ascii (tlv_value t) \<and> from_utf8 (tlv_value t) \<noteq> None"
  "is_ok (utf8_string t) \<longleftrightarrow> from_utf8 (tlv_value t) \<noteq> None"
  "is_ok (tlv_utc_time t) \<longleftrightarrow> length (tlv_value t) = 8"
  "is_ok (floating_point t) \<longleftrightarrow> (case tlv_value t of [] \<Rightarrow> False
     | w # rest \<Rightarrow> (w = 8 \<and> length rest = 4) \<or> (w = 11 \<and> length rest = 8))"
  by (auto simp: boolean_def bit_string_def integer_i64_def unsigned_lenient_u64_def visible_string_def utf8_string_def
      tlv_utc_time_def floating_point_def Let_def length_Suc_conv ok_or_def split: list.splits option.splits)

lemma is_ok_if: "is_ok (if b then x else y) \<longleftrightarrow> (if b then is_ok x else is_ok y)"
  by simp

lemma from_tlv_anywhere: "is_data r \<Longrightarrow> is_ok (from_tlv (mk_tlv (fst r) (snd r) off))"
  unfolding is_data_def from_tlv_def Let_def mk_tlv_simps is_ok_if
  by (simp only: is_ok_rbind is_ok_accessors is_ok_simps mk_tlv_simps split_beta)

lemma raw_emits: "fits (snd r) \<Longrightarrow> emits (raw_write r) (raw_octets r)"
  by (simp add: raw_write_def raw_octets_def octets_field.put_emits)

lemma fits_raw: "fits (raw_octets r) \<Longrightarrow> fits (snd r)"
  unfolding raw_octets_def by (rule fits_element)

lemma journal_parts:
  assumes "journal_ok l e"
  shows "fits (jit_entry_id e)" "fits (raw_octets (default_to no_origin (jit_origin e)))"
    "fits (element (tag_context 0) (tod_to_octets (jit_occurred e)) @ form_octets e)" "fits (form_octets e)"
    "jit_annotation e = Some a \<Longrightarrow> text_ok a \<and> jit_variables e = []"
    "fits (variables_contents (jit_variables e))" "jit_annotation e = None \<Longrightarrow> fits (element (tag_context_constructed 1) (variables_contents (jit_variables e)))"
proof -
  have f: "fits (journal_contents e)" using assms by (simp add: journal_ok_def)
  then show "fits (jit_entry_id e)" "fits (raw_octets (default_to no_origin (jit_origin e)))"
    "fits (element (tag_context 0) (tod_to_octets (jit_occurred e)) @ form_octets e)"
    unfolding journal_contents_def by (auto simp only: dest!: fits_append dest: fits_element)
  then show o: "fits (form_octets e)" by simp
  show v: "jit_annotation e = None \<Longrightarrow> fits (element (tag_context_constructed 1) (variables_contents (jit_variables e)))"
    using o by (auto simp only: form_octets_def option.case dest: fits_element)
  show a: "jit_annotation e = Some a \<Longrightarrow> text_ok a \<and> jit_variables e = []" for a
    using o assms fits_element [of "tag_context 3" "as_bytes a"] by (simp add: form_octets_def journal_ok_def)
  show "fits (variables_contents (jit_variables e))"
    using v a by (cases "jit_annotation e") (auto simp: variables_contents_def dest: fits_element)
qed

lemma variable_parts:
  assumes "fits (variables_contents vs)" "v \<in> set vs"
  shows "fits (variable_contents v)" "fits (as_bytes (fst v))" "fits (raw_octets (snd v))" "fits (snd (snd v))"
proof -
  show f: "fits (variable_contents v)"
    using fits_items [of "\<lambda>_. TAG_SEQUENCE" variable_contents vs v] assms by (simp add: variables_contents_def)
  then show "fits (as_bytes (fst v))" "fits (raw_octets (snd v))" "fits (snd (snd v))"
    unfolding variable_contents_def by (auto simp only: dest!: fits_append dest: fits_element fits_raw)
qed

lemma variable_read:
  assumes "fits (variables_contents vs)" "v \<in> set vs" "ascii_str (fst v)" "is_data (snd v)"
  shows "\<exists>y. journal_variable_parse (mk_tlv TAG_SEQUENCE (variable_contents v) off) = Inr y \<and> map_prod id raw_of y = v"
proof -
  note f = variable_parts [OF assms(1,2)]
  have "\<exists>x. from_tlv (mk_tlv (fst (snd v)) (snd (snd v)) o') = Inr x" for o'
    using from_tlv_anywhere [OF assms(4), of o'] by (auto simp: is_ok_def split: sum.splits)
  then obtain x where x: "\<And>o'. from_tlv (mk_tlv (fst (snd v)) (snd (snd v)) o') = Inr (x o')" by metis
  have t: "text_ok (fst v)" using f(2) assms(3) by simp
  show ?thesis
    using f(3,4) by (simp add: journal_variable_parse_def expect_def variable_contents_def sbind_def slift_def x
        visible_field.get_mk_tlv [OF t] raw_octets_def t)
qed

lemma journal_emits:
  assumes "journal_ok l e"
  shows "emits (journal_item_write e) (element TAG_SEQUENCE (journal_contents e))"
proof -
  note p = journal_parts [OF assms]
  have v: "emits (sfor journal_variable_write (jit_variables e)) (variables_contents (jit_variables e))"
    unfolding variables_contents_def
  proof (rule emits_for)
    fix v assume v: "v \<in> set (jit_variables e)"
    note f = variable_parts [OF p(6) v]
    have "text_ok (fst v)" using f(2) v assms by (simp add: journal_ok_def)
    then show "emits (journal_variable_write v) (element TAG_SEQUENCE (variable_contents v))"
      using f unfolding journal_variable_write_def variable_contents_def
      by (intro emits_element emits_bind visible_field.put_emits raw_emits) auto
  qed
  have "emits (case jit_annotation e of Some a \<Rightarrow> enc_visible_string (tag_context 3) a
       | None \<Rightarrow> constructed (tag_context_constructed 2) (constructed (tag_context_constructed 1) (sfor journal_variable_write (jit_variables e))))
     (form_octets e)"
    using p(5-7) v by (cases "jit_annotation e") (auto simp: form_octets_def intro!: emits_element visible_field.put_emits)
  moreover have "emits (case jit_origin e of Some r \<Rightarrow> raw_write r
       | None \<Rightarrow> constructed (tag_context_constructed 1) (constructed TAG_SEQUENCE (sreturn ())))
     (raw_octets (default_to no_origin (jit_origin e)))"
    using fits_raw [OF p(2)]
    by (cases "jit_origin e") (auto simp: default_to_def no_origin_def raw_octets_def raw_write_def
        intro!: emits_element emits_return octets_field.put_emits)
  ultimately show ?thesis
    using assms unfolding journal_item_write_def
    by (intro emits_element) (auto simp: journal_contents_def journal_ok_def p(3) simp del: length_append
        intro!: emits_bind emits_element octets_field.put_emits p)
qed

lemma journal_read:
  assumes "journal_ok l e"
  shows "\<exists>q. journal_item_parse l (mk_tlv TAG_SEQUENCE (journal_contents e) off) = Inr q \<and> map_journal_item raw_of q = named_origin e"
proof -
  note p = journal_parts [OF assms]
  let ?o = "default_to no_origin (jit_origin e)" and ?vs = "jit_variables e"
  have tag: "fst ?o = tag_context_constructed 1"
    using assms by (cases "jit_origin e") (auto simp: journal_ok_def default_to_def no_origin_def)
  have vs: "\<exists>ys. read_items (datasets l) journal_variable_parse (cur_at pre (variables_contents ?vs) base) [] = Inr ys \<and>
      map (map_prod id raw_of) ys = ?vs" for pre base
    using read_items_onto [of ?vs variable_contents journal_variable_parse "\<lambda>_. TAG_SEQUENCE" "map_prod id raw_of" "datasets l" "[]" pre base]
      variable_read [OF p(6)] variable_parts(1) [OF p(6)] assms
    by (auto simp: variables_contents_def journal_ok_def within_def)
  have form: "\<exists>ys. entry_form_parse l (mk_tlv (fst f) (snd f) o') = Inr (ys, jit_annotation e) \<and> map (map_prod id raw_of) ys = ?vs"
    if "form_octets e = raw_octets f" "f = (case jit_annotation e of Some a \<Rightarrow> (tag_context 3, as_bytes a)
      | None \<Rightarrow> (tag_context_constructed 2, element (tag_context_constructed 1) (variables_contents ?vs)))" for f o'
  proof (cases "jit_annotation e")
    case None
    obtain ys where ys: "read_items (datasets l) journal_variable_parse (children (mk_tlv (tag_context_constructed 1) (variables_contents ?vs)
        (tlv_value_offset (mk_tlv (tag_context_constructed 2) (element (tag_context_constructed 1) (variables_contents ?vs)) o')))) [] = Inr ys"
      "map (map_prod id raw_of) ys = ?vs" using vs by (simp add: cur_at_start) metis
    then show ?thesis
      using that None p(6) by (simp add: entry_form_parse_def sbind_def sreturn_def default_to_def)
  next
    case (Some a)
    then show ?thesis using that p(5) by (simp add: entry_form_parse_def visible_field.get_mk_tlv)
  qed
  define f where "f = (case jit_annotation e of Some a \<Rightarrow> (tag_context 3, as_bytes a)
      | None \<Rightarrow> (tag_context_constructed 2, element (tag_context_constructed 1) (variables_contents ?vs)))"
  have fo: "form_octets e = raw_octets f" by (simp add: f_def form_octets_def raw_octets_def split: option.splits)
  have ff: "fits (snd f)" using p(4) fo fits_raw by simp
  have ft: "fst f \<noteq> tag_context_constructed 1" by (simp add: f_def split: option.splits)
  obtain ys where ys: "\<And>o'. entry_form_parse l (mk_tlv (fst f) (snd f) o') = Inr (ys o', jit_annotation e)"
    "\<And>o'. map (map_prod id raw_of) (ys o') = ?vs" using form [OF fo f_def] by metis
  have content: "entry_content_parse l (mk_tlv u (element (tag_context 0) (tod_to_octets (jit_occurred e)) @ form_octets e) o'') =
      Inr (jit_occurred e, ys (tlv_value_offset (mk_tlv u (element (tag_context 0) (tod_to_octets (jit_occurred e)) @ form_octets e) o'') +
        length (element (tag_context 0) (tod_to_octets (jit_occurred e)))), jit_annotation e)" for u o''
    using assms ff ft by (simp add: entry_content_parse_def sbind_def slift_def tod_octets(1) journal_ok_def fo raw_octets_def ys)
  have "fits (snd ?o)" "length (jit_entry_id e) \<le> max_primitive_len l" using fits_raw p(2) assms by (auto simp: journal_ok_def)
  moreover have "raw_octets ?o = element (tag_context_constructed 1) (snd ?o)" by (simp add: raw_octets_def tag)
  ultimately show ?thesis
    using p(1,3) by (simp add: journal_item_parse_def expect_def journal_contents_def sbind_def sreturn_def content not_less del: length_append)
      (simp add: named_origin_def ys prod_eq_iff tag)
qed

end
