(* ===== verification/Mms_Lists.thy ===== *)
theory Mms_Lists
  imports Mms_Services
begin

text \<open>
  What a service names and what it answers with, as octets: the variables, lists of variables, access
  results and scopes of \<open>src/proto/mms/mod.rs\<close> are read back from what they are written as, up to the
  position the elements they keep whole were read at.
\<close>

section \<open>Reading up to positions\<close>

definition reads_as :: "('q \<Rightarrow> 'r) \<Rightarrow> (tlv \<Rightarrow> 'q result) \<Rightarrow> tag \<Rightarrow> bytes \<Rightarrow> 'r \<Rightarrow> bool" where
  "reads_as f get t c x \<longleftrightarrow> (\<forall>off. \<exists>q. get (mk_tlv t c off) = Inr q \<and> f q = x)"

lemma reads_asD: "reads_as f get t c x \<Longrightarrow> \<exists>q. get (mk_tlv t c off) = Inr q \<and> f q = x"
  by (simp add: reads_as_def)

lemma reads_as_obtain:
  assumes "reads_as f get t c x"
  obtains q where "\<And>off. get (mk_tlv t c off) = Inr (q off)" "\<And>off. f (q off) = x"
  using assms unfolding reads_as_def by metis

lemma reads_as_id: "(\<And>off. get (mk_tlv t c off) = Inr x) \<Longrightarrow> reads_as (\<lambda>q. q) get t c x"
  by (simp add: reads_as_def)

text \<open>The octets of a list of elements, and the list read back.\<close>

definition items_octets :: "('x \<Rightarrow> tag) \<Rightarrow> ('x \<Rightarrow> bytes) \<Rightarrow> 'x list \<Rightarrow> bytes" where
  "items_octets tg g xs = concat (map (\<lambda>x. element (tg x) (g x)) xs)"

lemma items_fit: "fits (items_octets tg g xs) \<Longrightarrow> x \<in> set xs \<Longrightarrow> fits (g x)"
  unfolding items_octets_def by (rule fits_items)

lemma items_read:
  assumes "fits (items_octets tg g xs)" "\<And>x. x \<in> set xs \<Longrightarrow> reads_as f get (tg x) (g x) x" "within bound (length xs)"
  shows "\<exists>ys. read_items bound get (cur_at pre (items_octets tg g xs) base) [] = Inr ys \<and> map f ys = xs"
  using read_items_onto [of xs g get tg f bound "[]" pre base] items_fit [OF assms(1)] assms(2,3)
  unfolding items_octets_def reads_as_def by simp

lemma items_emit:
  "fits (items_octets tg g xs) \<Longrightarrow> (\<And>x. x \<in> set xs \<Longrightarrow> fits (g x) \<Longrightarrow> emits (put x) (element (tg x) (g x))) \<Longrightarrow>
    emits (sfor put xs) (items_octets tg g xs)"
  using items_fit [of tg g xs] unfolding items_octets_def by (intro emits_for) auto

section \<open>Variables\<close>

fun vs_contents :: "raw variable_specification \<Rightarrow> bytes" where
  "vs_contents (VsName n) = element (tag_context_constructed 0) (object_name_octets n)"
| "vs_contents (VsElement n a) =
     element (tag_context_constructed 0) (object_name_octets n) @ element (tag_context_constructed 5) (steps_contents a)"
| "vs_contents (VsOther r) = raw_octets r"

fun vs_ok :: "raw variable_specification \<Rightarrow> bool" where
  "vs_ok (VsName n) \<longleftrightarrow> object_name_ok n"
| "vs_ok (VsElement n a) \<longleftrightarrow> object_name_ok n \<and> path_ok a"
| "vs_ok (VsOther r) \<longleftrightarrow> fst r \<noteq> tag_context_constructed 0"

lemma vs_read:
  assumes "vs_ok v" "fits (vs_contents v)"
  shows "reads_as (map_variable_specification raw_of) parse_variable TAG_SEQUENCE (vs_contents v) v"
proof (cases v)
  case (VsName n)
  have "fits (object_name_octets n)" using assms(2) unfolding VsName vs_contents.simps by (rule fits_element)
  then show ?thesis
    using assms object_name_fits [of n] VsName
    by (simp add: reads_as_def parse_variable_def expect_def cur_at_start next_alternate_def)
next
  case (VsElement n a)
  have "fits (object_name_octets n)" "fits (steps_contents a)"
    using assms(2) unfolding VsElement vs_contents.simps by (auto simp only: dest!: fits_append dest: fits_element)
  moreover have "path_parse (mk_tlv t (steps_contents a) o') = Inr a" for t o'
    using assms(1) VsElement by (intro path_roundtrip(2)) simp_all
  ultimately show ?thesis
    using assms object_name_fits [of n] VsElement
    by (simp add: reads_as_def parse_variable_def expect_def cur_at_start next_alternate_def)
next
  case (VsOther r)
  have "fits (snd r)" using assms(2) VsOther fits_raw by simp
  then show ?thesis
    using assms VsOther by (simp add: reads_as_def parse_variable_def expect_def cur_at_start raw_octets_def)
qed

lemma vs_emits:
  assumes "vs_ok v" "fits (vs_contents v)"
  shows "emits (write_variable v) (element TAG_SEQUENCE (vs_contents v))"
  unfolding write_variable_def
proof (rule emits_element [OF _ assms(2)], cases v)
  case (VsName n)
  have "fits (object_name_octets n)" using assms(2) unfolding VsName vs_contents.simps by (rule fits_element)
  then show "emits (case v of VsName n \<Rightarrow> constructed (tag_context_constructed 0) (object_name_write n)
      | VsElement n a \<Rightarrow> sbind (constructed (tag_context_constructed 0) (object_name_write n)) (\<lambda>_. path_write a)
      | VsOther t \<Rightarrow> raw_write t) (vs_contents v)"
    using assms VsName by (auto intro: emits_element emits_object_name)
next
  case (VsElement n a)
  have "fits (object_name_octets n)"
    using assms(2) unfolding VsElement vs_contents.simps by (auto simp only: dest!: fits_append dest: fits_element)
  then show "emits (case v of VsName n \<Rightarrow> constructed (tag_context_constructed 0) (object_name_write n)
      | VsElement n a \<Rightarrow> sbind (constructed (tag_context_constructed 0) (object_name_write n)) (\<lambda>_. path_write a)
      | VsOther t \<Rightarrow> raw_write t) (vs_contents v)"
    using assms VsElement by (auto intro!: emits_bind emits_element emits_object_name path_roundtrip(1))
next
  case (VsOther r)
  then show "emits (case v of VsName n \<Rightarrow> constructed (tag_context_constructed 0) (object_name_write n)
      | VsElement n a \<Rightarrow> sbind (constructed (tag_context_constructed 0) (object_name_write n)) (\<lambda>_. path_write a)
      | VsOther t \<Rightarrow> raw_write t) (vs_contents v)"
    using assms fits_raw [of r] by (auto intro: raw_emits)
qed

abbreviation vs_list_octets :: "raw variable_specification list \<Rightarrow> bytes" where
  "vs_list_octets \<equiv> items_octets (\<lambda>_. TAG_SEQUENCE) vs_contents"

definition vs_list_ok :: "limits \<Rightarrow> raw variable_specification list \<Rightarrow> bool" where
  "vs_list_ok l vs \<longleftrightarrow> list_all vs_ok vs \<and> length vs \<le> max_dataset_members l \<and> fits (vs_list_octets vs)"

lemma vs_list_read: "vs_list_ok l vs \<Longrightarrow>
    reads_as (map (map_variable_specification raw_of)) (\<lambda>t. parse_variable_list t l) t (vs_list_octets vs) vs"
  unfolding reads_as_def parse_variable_list_def vs_list_ok_def cur_at_start mk_tlv_simps
  by (intro allI items_read vs_read) (auto simp: within_def list_all_iff dest: items_fit)

lemma vs_list_emits: "vs_list_ok l vs \<Longrightarrow> emits (write_variable_list vs t) (element t (vs_list_octets vs))"
  unfolding write_variable_list_def vs_list_ok_def
  by (intro emits_element items_emit vs_emits) (auto simp: list_all_iff)

fun va_tag :: "raw variable_access \<Rightarrow> tag" where
  "va_tag (ListOfVariable _) = tag_context_constructed 0"
| "va_tag (VariableListName _) = tag_context_constructed 1"

fun va_contents :: "raw variable_access \<Rightarrow> bytes" where
  "va_contents (ListOfVariable items) = vs_list_octets items"
| "va_contents (VariableListName n) = object_name_octets n"

fun va_ok :: "raw variable_access \<Rightarrow> bool" where
  "va_ok (ListOfVariable items) \<longleftrightarrow> vs_list_ok default_limits items"
| "va_ok (VariableListName n) \<longleftrightarrow> object_name_ok n \<and> fits (object_name_octets n)"

lemma va_fits: "va_ok a \<Longrightarrow> fits (va_contents a)"
  by (cases a) (auto simp: vs_list_ok_def)

lemma va_emits: "va_ok a \<Longrightarrow> emits (variable_access_write a) (element (va_tag a) (va_contents a))"
  by (cases a) (auto simp: variable_access_write_def intro: vs_list_emits emits_element emits_object_name)

lemma va_read: "va_ok a \<Longrightarrow> reads_as (map_variable_access raw_of) variable_access_parse (va_tag a) (va_contents a) a"
proof (cases a)
  case (ListOfVariable items)
  assume "va_ok a"
  then obtain q where "\<And>off. parse_variable_list (mk_tlv (tag_context_constructed 0) (vs_list_octets items) off) default_limits = Inr (q off)"
    "\<And>off. map (map_variable_specification raw_of) (q off) = items"
    using reads_as_obtain [OF vs_list_read [of default_limits items "tag_context_constructed 0"]] ListOfVariable by auto
  then show ?thesis by (simp add: ListOfVariable reads_as_def variable_access_parse_def tag_context_constructed_def)
next
  case (VariableListName n)
  assume "va_ok a"
  then show ?thesis
    using VariableListName object_name_fits [of n]
    by (simp add: reads_as_def variable_access_parse_def tag_context_constructed_def cur_at_start)
qed

section \<open>Results\<close>

fun ar_tag :: "raw access_result \<Rightarrow> tag" where
  "ar_tag (AccessFailure _) = tag_context 0"
| "ar_tag (AccessSuccess r) = fst r"

fun ar_contents :: "raw access_result \<Rightarrow> bytes" where
  "ar_contents (AccessFailure c) = integer_octets c"
| "ar_contents (AccessSuccess r) = snd r"

fun ar_ok :: "raw access_result \<Rightarrow> bool" where
  "ar_ok (AccessFailure c) \<longleftrightarrow> True"
| "ar_ok (AccessSuccess r) \<longleftrightarrow> is_data r \<and> fst r \<noteq> tag_context 0"

abbreviation ar_list_octets :: "raw access_result list \<Rightarrow> bytes" where
  "ar_list_octets \<equiv> items_octets ar_tag ar_contents"

definition ar_list_ok :: "limits \<Rightarrow> raw access_result list \<Rightarrow> bool" where
  "ar_list_ok l rs \<longleftrightarrow> list_all ar_ok rs \<and> length rs \<le> max_dataset_members l \<and> fits (ar_list_octets rs)"

lemma is_data_read: "is_data r \<Longrightarrow> \<exists>v. from_tlv (mk_tlv (fst r) (snd r) off) = Inr v"
  using from_tlv_anywhere [of r off] by (auto simp: is_ok_def split: sum.splits)

lemma ar_read: "ar_ok r \<Longrightarrow> reads_as (map_access_result raw_of) access_result_parse (ar_tag r) (ar_contents r) r"
proof (cases r)
  case (AccessSuccess d)
  assume "ar_ok r"
  then have "is_data d" "fst d \<noteq> tag_context 0" by (simp_all add: AccessSuccess)
  then show ?thesis
    using is_data_read [of d] unfolding AccessSuccess reads_as_def access_result_parse_def by (metis access_result.map(2) ar_contents.simps(2)
        ar_tag.simps(2) mk_tlv_simps(1) prod.collapse raw_of_mk rbind.simps(2))
qed (simp add: reads_as_def access_result_parse_def integer_field.get_mk_tlv)

lemma ar_emits: "ar_ok r \<Longrightarrow> fits (ar_contents r) \<Longrightarrow> emits (write_access_result r) (element (ar_tag r) (ar_contents r))"
  by (cases r) (auto simp: write_access_result_def raw_write_def intro: octets_field.put_emits integer_field.put_emits)

lemma ar_list_read: "ar_list_ok l rs \<Longrightarrow>
    reads_as (map (map_access_result raw_of)) (\<lambda>t. parse_access_results t l) t (ar_list_octets rs) rs"
  unfolding reads_as_def parse_access_results_def ar_list_ok_def cur_at_start mk_tlv_simps
  by (intro allI items_read ar_read) (auto simp: within_def list_all_iff)

lemma ar_list_emits: "ar_list_ok l rs \<Longrightarrow> emits (write_access_results rs t) (element t (ar_list_octets rs))"
  unfolding write_access_results_def ar_list_ok_def
  by (intro emits_element items_emit ar_emits) (auto simp: list_all_iff)

section \<open>Scopes\<close>

lemma scope_fits: "object_scope_ok s \<Longrightarrow> fits (object_scope_contents s)"
  by (cases s) auto

lemma scope_emits: "object_scope_ok s \<Longrightarrow> emits (object_scope_write s) (element (object_scope_tag s) (object_scope_contents s))"
  by (cases s) (auto simp: object_scope_write_def raw_write_def intro: octets_field.put_emits visible_field.put_emits)

lemma scope_read: "object_scope_ok s \<Longrightarrow>
    reads_as (map_object_scope raw_of) object_scope_parse (object_scope_tag s) (object_scope_contents s) s"
  by (cases s) (auto simp: reads_as_def object_scope_parse_def Let_def tag_context_def visible_field.get_contents)

section \<open>Names\<close>

lemma name_read: "object_name_ok n \<Longrightarrow> reads_as (\<lambda>q. q) object_name_parse (object_name_tag n) (object_name_contents n) n"
  by (rule reads_as_id) simp

lemma names_read:
  assumes "fits (items_octets object_name_tag object_name_contents ns)" "list_all object_name_ok ns" "within bound (length ns)"
  shows "read_items bound object_name_parse (cur_at pre (items_octets object_name_tag object_name_contents ns) base) [] = Inr ns"
  using items_read [OF assms(1), of "\<lambda>q. q" object_name_parse bound pre base] name_read assms(2,3) by (auto simp: list_all_iff)

lemma names_emit:
  "fits (items_octets object_name_tag object_name_contents ns) \<Longrightarrow> list_all object_name_ok ns \<Longrightarrow>
    emits (sfor object_name_write ns) (items_octets object_name_tag object_name_contents ns)"
  by (rule items_emit) (auto simp: list_all_iff intro: emits_object_name)

end
