(* ===== verification/Mms_Requests.thy ===== *)
theory Mms_Requests
  imports Mms_Lists
begin

text \<open>
  Confirmed service requests (\<open>ConfirmedRequest\<close> of \<open>src/proto/mms/mod.rs\<close>): one constructor, one branch of
  the decoder and one branch of the encoder per service, and that the decoder reads what the encoder
  wrote for every request the limits admit.
\<close>

section \<open>Services\<close>

definition SERVICE_STATUS :: u32 where "SERVICE_STATUS = 0"
definition SERVICE_GET_VARIABLE_ACCESS_ATTRIBUTES :: u32 where "SERVICE_GET_VARIABLE_ACCESS_ATTRIBUTES = 6"
definition SERVICE_GET_CAPABILITY_LIST :: u32 where "SERVICE_GET_CAPABILITY_LIST = 71"
definition SERVICE_DEFINE_NVL :: u32 where "SERVICE_DEFINE_NVL = 11"
definition SERVICE_DELETE_NVL :: u32 where "SERVICE_DELETE_NVL = 13"
definition SERVICE_FILE_OPEN :: u32 where "SERVICE_FILE_OPEN = 72"
definition SERVICE_FILE_READ :: u32 where "SERVICE_FILE_READ = 73"
definition SERVICE_FILE_CLOSE :: u32 where "SERVICE_FILE_CLOSE = 74"
definition SERVICE_FILE_DELETE :: u32 where "SERVICE_FILE_DELETE = 76"
definition SERVICE_FILE_DIRECTORY :: u32 where "SERVICE_FILE_DIRECTORY = 77"

lemmas service_numbers = SERVICE_STATUS_def SERVICE_GET_VARIABLE_ACCESS_ATTRIBUTES_def SERVICE_GET_CAPABILITY_LIST_def
  SERVICE_DEFINE_NVL_def SERVICE_DELETE_NVL_def SERVICE_READ_JOURNAL_def SERVICE_FILE_OPEN_def SERVICE_FILE_READ_def
  SERVICE_FILE_CLOSE_def SERVICE_FILE_DELETE_def SERVICE_FILE_DIRECTORY_def

definition DELETE_SPECIFIC :: i64 where "DELETE_SPECIFIC = 0"

datatype 't confirmed_request =
  RqStatus bool
| RqGetCapabilityList "string option"
| RqGetNameList i64 "'t object_scope" "string option"
| RqIdentify
| RqRead bool "'t variable_access"
| RqWrite "'t variable_access" "'t list"
| RqGetNvlAttributes object_name
| RqGetVariableAttributes object_name
| RqDefineNvl object_name "'t variable_specification list"
| RqDeleteNvl i64 "object_name list" "string option"
| RqReadJournal read_journal
| RqFileOpen file_name u32
| RqFileRead i32
| RqFileClose i32
| RqFileDelete file_name
| RqFileDirectory "file_name option" "file_name option"
| RqOther 't

section \<open>Decoding\<close>

definition data_element :: "tlv \<Rightarrow> tlv result" where
  "data_element v = rbind (from_tlv v) (\<lambda>_. Inr v)"

definition get_name_list_parse :: "tlv \<Rightarrow> tlv confirmed_request result" where
  "get_name_list_parse = on_children
     (sbind (field (tag_context_constructed 0) (\<lambda>t. rbind (first_child t) integer_i64)) (\<lambda>object_class.
      sbind (field (tag_context_constructed 1) (\<lambda>t. rbind (first_child t) object_scope_parse)) (\<lambda>scope.
      sbind (opt_field (tag_context 2) visible_string) (\<lambda>continue_after.
      sreturn (RqGetNameList object_class scope continue_after)))))"

definition read_parse :: "tlv \<Rightarrow> tlv confirmed_request result" where
  "read_parse = on_children
     (sbind (opt_field (tag_context 0) boolean) (\<lambda>with_result.
      sbind (field (tag_context_constructed 1) (\<lambda>t. rbind (first_child t) variable_access_parse)) (\<lambda>access.
      sreturn (RqRead (default_to False with_result) access))))"

definition write_parse :: "limits \<Rightarrow> tlv \<Rightarrow> tlv confirmed_request result" where
  "write_parse l = on_children
     (sbind next_required (\<lambda>a. sbind (slift (variable_access_parse a)) (\<lambda>access.
      sbind (field (tag_context_constructed 0) (\<lambda>lst. read_items (datasets l) data_element (children lst) [])) (\<lambda>vals.
      sreturn (RqWrite access vals)))))"

definition define_nvl_parse :: "limits \<Rightarrow> tlv \<Rightarrow> tlv confirmed_request result" where
  "define_nvl_parse l = on_children
     (sbind next_required (\<lambda>n. sbind (slift (object_name_parse n)) (\<lambda>name.
      sbind (field (tag_context_constructed 0) (\<lambda>t. parse_variable_list t l)) (\<lambda>variables.
      sreturn (RqDefineNvl name variables)))))"

definition delete_nvl_parse :: "limits \<Rightarrow> tlv \<Rightarrow> tlv confirmed_request result" where
  "delete_nvl_parse l = on_children
     (sbind (opt_field (tag_context 0) integer_i64) (\<lambda>scope.
      sbind (opt_field (tag_context_constructed 1) (\<lambda>lst. read_items (list_items l) object_name_parse (children lst) [])) (\<lambda>names.
      sbind (opt_field (tag_context 2) visible_string) (\<lambda>domain.
      sreturn (RqDeleteNvl (default_to DELETE_SPECIFIC scope) (default_to [] names) domain)))))"

definition file_open_parse :: "limits \<Rightarrow> tlv \<Rightarrow> tlv confirmed_request result" where
  "file_open_parse l = on_children
     (sbind (field (tag_context_constructed 0) (\<lambda>t. file_name_parse t l)) (\<lambda>name.
      sbind (field (tag_context 1) unsigned_lenient_u32) (\<lambda>start_at.
      sreturn (RqFileOpen name start_at))))"

definition file_directory_parse :: "limits \<Rightarrow> tlv \<Rightarrow> tlv confirmed_request result" where
  "file_directory_parse l = on_children
     (sbind (opt_field (tag_context_constructed 0) (\<lambda>t. file_name_parse t l)) (\<lambda>specification.
      sbind (opt_field (tag_context_constructed 1) (\<lambda>t. file_name_parse t l)) (\<lambda>continue_after.
      sreturn (RqFileDirectory specification continue_after))))"

definition request_parse :: "limits \<Rightarrow> tlv \<Rightarrow> tlv confirmed_request result" where
  "request_parse l t = (let n = tag_number (tlv_tag t) in
     if tag_class (tlv_tag t) \<noteq> Context then Inl (Decode UnexpectedTag (tlv_offset t))
     else if n = 1 then get_name_list_parse t
     else if n = SERVICE_STATUS then rbind (boolean t) (\<lambda>b. Inr (RqStatus b))
     else if n = 2 then Inr RqIdentify
     else if n = SERVICE_GET_CAPABILITY_LIST then
       rbind (on_children (opt_field TAG_VISIBLE_STRING visible_string) t) (\<lambda>s. Inr (RqGetCapabilityList s))
     else if n = 4 then read_parse t
     else if n = 5 then write_parse l t
     else if n = 12 then rbind (rbind (first_child t) object_name_parse) (\<lambda>x. Inr (RqGetNvlAttributes x))
     else if n = SERVICE_GET_VARIABLE_ACCESS_ATTRIBUTES then
       rbind (on_children (field (tag_context_constructed 0) (\<lambda>name. rbind (first_child name) object_name_parse)) t)
         (\<lambda>x. Inr (RqGetVariableAttributes x))
     else if n = SERVICE_DEFINE_NVL then define_nvl_parse l t
     else if n = SERVICE_DELETE_NVL then delete_nvl_parse l t
     else if n = SERVICE_READ_JOURNAL then rbind (rj_parse t) (\<lambda>r. Inr (RqReadJournal r))
     else if n = SERVICE_FILE_OPEN then file_open_parse l t
     else if n = SERVICE_FILE_READ then rbind (integer_i32 t) (\<lambda>i. Inr (RqFileRead i))
     else if n = SERVICE_FILE_CLOSE then rbind (integer_i32 t) (\<lambda>i. Inr (RqFileClose i))
     else if n = SERVICE_FILE_DELETE then rbind (file_name_parse t l) (\<lambda>f. Inr (RqFileDelete f))
     else if n = SERVICE_FILE_DIRECTORY then file_directory_parse l t
     else Inr (RqOther t))"

section \<open>Encoding\<close>

definition enc_if :: "bool \<Rightarrow> enc \<Rightarrow> enc" where
  "enc_if b m = (if b then m else sreturn ())"

definition request_write :: "raw confirmed_request \<Rightarrow> enc" where
  "request_write r = (case r of
     RqGetNameList object_class scope continue_after \<Rightarrow> constructed (tag_context_constructed 1)
       (sbind (constructed (tag_context_constructed 0) (enc_integer (tag_context 0) object_class)) (\<lambda>_.
        sbind (constructed (tag_context_constructed 1) (object_scope_write scope)) (\<lambda>_.
        enc_opt (enc_visible_string (tag_context 2)) continue_after)))
   | RqStatus extended \<Rightarrow> enc_boolean (tag_context SERVICE_STATUS) extended
   | RqGetCapabilityList continue_after \<Rightarrow> constructed (tag_context_constructed SERVICE_GET_CAPABILITY_LIST)
       (enc_opt (enc_visible_string TAG_VISIBLE_STRING) continue_after)
   | RqIdentify \<Rightarrow> primitive (tag_context 2) []
   | RqRead with_result access \<Rightarrow> constructed (tag_context_constructed 4)
       (sbind (enc_if with_result (enc_boolean (tag_context 0) True)) (\<lambda>_.
        constructed (tag_context_constructed 1) (variable_access_write access)))
   | RqWrite access vals \<Rightarrow> constructed (tag_context_constructed 5)
       (sbind (variable_access_write access) (\<lambda>_. constructed (tag_context_constructed 0) (sfor raw_write vals)))
   | RqGetNvlAttributes name \<Rightarrow> constructed (tag_context_constructed 12) (object_name_write name)
   | RqGetVariableAttributes name \<Rightarrow> constructed (tag_context_constructed SERVICE_GET_VARIABLE_ACCESS_ATTRIBUTES)
       (constructed (tag_context_constructed 0) (object_name_write name))
   | RqDefineNvl name variables \<Rightarrow> constructed (tag_context_constructed SERVICE_DEFINE_NVL)
       (sbind (object_name_write name) (\<lambda>_. write_variable_list variables (tag_context_constructed 0)))
   | RqDeleteNvl scope names domain \<Rightarrow> constructed (tag_context_constructed SERVICE_DELETE_NVL)
       (sbind (enc_if (scope \<noteq> DELETE_SPECIFIC) (enc_integer (tag_context 0) scope)) (\<lambda>_.
        sbind (enc_if (names \<noteq> []) (constructed (tag_context_constructed 1) (sfor object_name_write names))) (\<lambda>_.
        enc_opt (enc_visible_string (tag_context 2)) domain)))
   | RqReadJournal j \<Rightarrow> rj_write j
   | RqFileOpen name start_at \<Rightarrow> constructed (tag_context_constructed SERVICE_FILE_OPEN)
       (sbind (constructed (tag_context_constructed 0) (enc_raw name)) (\<lambda>_. enc_unsigned (tag_context 1) (ucast start_at)))
   | RqFileRead i \<Rightarrow> enc_integer (tag_context SERVICE_FILE_READ) (i64_of i)
   | RqFileClose i \<Rightarrow> enc_integer (tag_context SERVICE_FILE_CLOSE) (i64_of i)
   | RqFileDelete name \<Rightarrow> constructed (tag_context_constructed SERVICE_FILE_DELETE) (enc_raw name)
   | RqFileDirectory specification continue_after \<Rightarrow> constructed (tag_context_constructed SERVICE_FILE_DIRECTORY)
       (sbind (enc_opt (\<lambda>n. constructed (tag_context_constructed 0) (enc_raw n)) specification) (\<lambda>_.
        enc_opt (\<lambda>n. constructed (tag_context_constructed 1) (enc_raw n)) continue_after))
   | RqOther t \<Rightarrow> raw_write t)"

section \<open>The round trip\<close>

definition opt_if :: "bool \<Rightarrow> 'a \<Rightarrow> 'a option" where
  "opt_if b x = (if b then Some x else None)"

fun request_tag :: "raw confirmed_request \<Rightarrow> tag" where
  "request_tag (RqStatus _) = tag_context SERVICE_STATUS"
| "request_tag (RqGetCapabilityList _) = tag_context_constructed SERVICE_GET_CAPABILITY_LIST"
| "request_tag (RqGetNameList _ _ _) = tag_context_constructed 1"
| "request_tag RqIdentify = tag_context 2"
| "request_tag (RqRead _ _) = tag_context_constructed 4"
| "request_tag (RqWrite _ _) = tag_context_constructed 5"
| "request_tag (RqGetNvlAttributes _) = tag_context_constructed 12"
| "request_tag (RqGetVariableAttributes _) = tag_context_constructed SERVICE_GET_VARIABLE_ACCESS_ATTRIBUTES"
| "request_tag (RqDefineNvl _ _) = tag_context_constructed SERVICE_DEFINE_NVL"
| "request_tag (RqDeleteNvl _ _ _) = tag_context_constructed SERVICE_DELETE_NVL"
| "request_tag (RqReadJournal _) = tag_context_constructed SERVICE_READ_JOURNAL"
| "request_tag (RqFileOpen _ _) = tag_context_constructed SERVICE_FILE_OPEN"
| "request_tag (RqFileRead _) = tag_context SERVICE_FILE_READ"
| "request_tag (RqFileClose _) = tag_context SERVICE_FILE_CLOSE"
| "request_tag (RqFileDelete _) = tag_context_constructed SERVICE_FILE_DELETE"
| "request_tag (RqFileDirectory _ _) = tag_context_constructed SERVICE_FILE_DIRECTORY"
| "request_tag (RqOther r) = fst r"

fun request_contents :: "raw confirmed_request \<Rightarrow> bytes" where
  "request_contents (RqStatus b) = bool_octets b"
| "request_contents (RqGetCapabilityList a) = opt_element TAG_VISIBLE_STRING as_bytes a"
| "request_contents (RqGetNameList c s a) = element (tag_context_constructed 0) (element (tag_context 0) (integer_octets c)) @
     element (tag_context_constructed 1) (element (object_scope_tag s) (object_scope_contents s)) @ opt_element (tag_context 2) as_bytes a"
| "request_contents RqIdentify = []"
| "request_contents (RqRead w a) = opt_element (tag_context 0) bool_octets (opt_if w True) @
     element (tag_context_constructed 1) (element (va_tag a) (va_contents a))"
| "request_contents (RqWrite a vs) = element (va_tag a) (va_contents a) @ element (tag_context_constructed 0) (items_octets fst snd vs)"
| "request_contents (RqGetNvlAttributes n) = object_name_octets n"
| "request_contents (RqGetVariableAttributes n) = element (tag_context_constructed 0) (object_name_octets n)"
| "request_contents (RqDefineNvl n vs) = object_name_octets n @ element (tag_context_constructed 0) (vs_list_octets vs)"
| "request_contents (RqDeleteNvl s ns d) = opt_element (tag_context 0) integer_octets (opt_if (s \<noteq> DELETE_SPECIFIC) s) @
     opt_element (tag_context_constructed 1) (items_octets object_name_tag object_name_contents) (some_list ns) @ opt_element (tag_context 2) as_bytes d"
| "request_contents (RqReadJournal j) = rj_contents j"
| "request_contents (RqFileOpen n p) = element (tag_context_constructed 0) n @ element (tag_context 1) (unsigned_octets (ucast p))"
| "request_contents (RqFileRead i) = integer_octets (i64_of i)"
| "request_contents (RqFileClose i) = integer_octets (i64_of i)"
| "request_contents (RqFileDelete n) = n"
| "request_contents (RqFileDirectory s a) = opt_element (tag_context_constructed 0) (\<lambda>n. n) s @ opt_element (tag_context_constructed 1) (\<lambda>n. n) a"
| "request_contents (RqOther r) = snd r"

text \<open>What the decoder accepts of each service, apart from the size of the whole.\<close>

fun request_parts_ok :: "limits \<Rightarrow> raw confirmed_request \<Rightarrow> bool" where
  "request_parts_ok l (RqGetCapabilityList a) \<longleftrightarrow> pred_option ascii_str a"
| "request_parts_ok l (RqGetNameList c s a) \<longleftrightarrow> object_scope_ok s \<and> pred_option ascii_str a"
| "request_parts_ok l (RqRead w a) \<longleftrightarrow> va_ok a"
| "request_parts_ok l (RqWrite a vs) \<longleftrightarrow> va_ok a \<and> list_all is_data vs \<and> length vs \<le> max_dataset_members l"
| "request_parts_ok l (RqGetNvlAttributes n) \<longleftrightarrow> object_name_ok n"
| "request_parts_ok l (RqGetVariableAttributes n) \<longleftrightarrow> object_name_ok n"
| "request_parts_ok l (RqDefineNvl n vs) \<longleftrightarrow> object_name_ok n \<and> vs_list_ok l vs"
| "request_parts_ok l (RqDeleteNvl s ns d) \<longleftrightarrow> list_all object_name_ok ns \<and> length ns \<le> max_list_items l \<and> pred_option ascii_str d"
| "request_parts_ok l (RqReadJournal j) \<longleftrightarrow> rj_ok j"
| "request_parts_ok l (RqFileOpen n p) \<longleftrightarrow> file_name_ok l n"
| "request_parts_ok l (RqFileDelete n) \<longleftrightarrow> file_name_ok l n"
| "request_parts_ok l (RqFileDirectory s a) \<longleftrightarrow> pred_option (file_name_ok l) s \<and> pred_option (file_name_ok l) a"
| "request_parts_ok l (RqOther r) \<longleftrightarrow> tag_class (fst r) = Context \<and>
     tag_number (fst r) \<notin> {0, 1, 2, 4, 5, 6, 11, 12, 13, 65, 71, 72, 73, 74, 76, 77}"
| "request_parts_ok l _ \<longleftrightarrow> True"

definition request_ok :: "limits \<Rightarrow> raw confirmed_request \<Rightarrow> bool" where
  "request_ok l r \<longleftrightarrow> request_parts_ok l r \<and> fits (request_contents r)"

lemma emits_enc_if: "(b \<Longrightarrow> emits m (element t (f x))) \<Longrightarrow> emits (enc_if b m) (opt_element t f (opt_if b x))"
  by (cases b) (auto simp: enc_if_def opt_if_def intro: emits_return)

lemma opt_if_simps [simp]: "opt_if b x = Some y \<longleftrightarrow> b \<and> x = y" "opt_if b x = None \<longleftrightarrow> \<not> b"
  by (auto simp: opt_if_def)

lemma some_list_if: "some_list xs = opt_if (xs \<noteq> []) xs"
  by (simp add: some_list_def opt_if_def)

lemma opt_text: "pred_option ascii_str a \<Longrightarrow> fits (opt_element t as_bytes a) \<Longrightarrow> a = Some s \<Longrightarrow> text_ok s"
  using fits_opt [of t as_bytes a s] by simp

lemma emits_raws: "fits (items_octets fst snd vs) \<Longrightarrow> emits (sfor raw_write vs) (items_octets fst snd vs)"
  by (rule items_emit) (auto simp: raw_write_def intro: octets_field.put_emits)

lemma emits_opt_text: "pred_option ascii_str a \<Longrightarrow> fits (opt_element t as_bytes a) \<Longrightarrow>
    emits (enc_opt (enc_visible_string t) a) (opt_element t as_bytes a)"
  using opt_text by (intro emits_enc_opt visible_field.put_emits) blast

lemma emits_name_contents: "fits n \<Longrightarrow> emits (constructed t (enc_raw n)) (element t n)"
  by (intro emits_element emits_enc_raw)

lemma request_emits:
  assumes "request_ok l r"
  shows "emits (request_write r) (element (request_tag r) (request_contents r))"
proof -
  have f: "fits (request_contents r)" and p: "request_parts_ok l r" using assms by (simp_all add: request_ok_def)
  note emit = emits_bind emits_element emits_object_name integer_field.put_emits boolean_field.put_emits octets_field.put_emits
    unsigned_field.put_emits vs_list_emits va_emits scope_emits emits_enc_if emits_enc_opt emits_name_contents names_emit emits_raws
    emits_opt_text rj_emits raw_emits
  show ?thesis
  proof (cases r)
    case (RqGetNameList c sc a)
    have "fits (object_scope_contents sc)" "fits (opt_element (tag_context 2) as_bytes a)"
      "fits (element (object_scope_tag sc) (object_scope_contents sc))"
      using f p unfolding RqGetNameList request_contents.simps by (auto simp only: dest!: fits_append dest: fits_element)
    moreover have "fits (element (tag_context 0) (integer_octets c))" using element_bound [of "integer_octets c" 8 "tag_context 0"] by simp
    ultimately show ?thesis
      using f p unfolding RqGetNameList request_write_def confirmed_request.case request_tag.simps request_contents.simps request_parts_ok.simps
      by (intro emit TrueI) auto
  next
    case (RqRead w a)
    have "fits (element (va_tag a) (va_contents a))"
      using f unfolding RqRead request_contents.simps by (auto simp only: dest!: fits_append dest: fits_element)
    then show ?thesis
      using f p unfolding RqRead request_write_def confirmed_request.case request_tag.simps request_contents.simps request_parts_ok.simps
      by (intro emit TrueI) auto
  next
    case (RqWrite a vs)
    have "fits (items_octets fst snd vs)"
      using f unfolding RqWrite request_contents.simps by (auto simp only: dest!: fits_append dest: fits_element)
    then show ?thesis
      using f p unfolding RqWrite request_write_def confirmed_request.case request_tag.simps request_contents.simps request_parts_ok.simps
      by (intro emit TrueI) auto
  next
    case (RqDeleteNvl sc ns d)
    have "fits (opt_element (tag_context 2) as_bytes d)" "ns \<noteq> [] \<Longrightarrow> fits (items_octets object_name_tag object_name_contents ns)"
      using f unfolding RqDeleteNvl request_contents.simps some_list_if
      by (auto simp only: dest!: fits_append dest: fits_opt [where x = "opt_if _ _"] simp: opt_if_simps)
    then show ?thesis
      using f p unfolding RqDeleteNvl request_write_def confirmed_request.case request_tag.simps request_contents.simps request_parts_ok.simps
        some_list_if by (intro emit TrueI) auto
  next
    case (RqFileDirectory s a)
    have "fits n" if "s = Some n \<or> a = Some n" for n
      using f that unfolding RqFileDirectory request_contents.simps by (auto simp only: dest!: fits_append dest: fits_opt)
    then show ?thesis
      using f unfolding RqFileDirectory request_write_def confirmed_request.case request_tag.simps request_contents.simps
      by (intro emit TrueI) auto
  next
    case (RqGetVariableAttributes n)
    have "fits (object_name_octets n)" using f unfolding RqGetVariableAttributes request_contents.simps by (rule fits_element)
    then show ?thesis
      using f p unfolding RqGetVariableAttributes request_write_def confirmed_request.case request_tag.simps request_contents.simps
        request_parts_ok.simps by (intro emit TrueI) auto
  next
    case (RqGetCapabilityList a)
    then show ?thesis
      using f p unfolding RqGetCapabilityList request_write_def confirmed_request.case request_tag.simps request_contents.simps
        request_parts_ok.simps by (intro emits_element emits_opt_text)
  next
    case (RqFileOpen n pos)
    then show ?thesis
      using f p unfolding RqFileOpen request_write_def confirmed_request.case request_tag.simps request_contents.simps
      by (intro emit TrueI) (auto simp: file_name_ok_def)
  next
    case (RqOther x)
    then show ?thesis using f raw_emits [of x] by (simp add: request_write_def raw_octets_def)
  qed (use f p in \<open>auto simp: request_write_def intro!: emit\<close>)
qed

lemma data_element_read: "is_data r \<Longrightarrow> reads_as raw_of data_element (fst r) (snd r) r"
proof (unfold reads_as_def, intro allI)
  fix off
  assume "is_data r"
  then obtain v where "from_tlv (mk_tlv (fst r) (snd r) off) = Inr v" using is_data_read by blast
  then show "\<exists>q. data_element (mk_tlv (fst r) (snd r) off) = Inr q \<and> raw_of q = r" by (simp add: data_element_def)
qed

lemma raws_read:
  assumes "fits (items_octets fst snd vs)" "list_all is_data vs" "length vs \<le> max_dataset_members l"
  shows "\<exists>ys. read_items (datasets l) data_element (cur_at pre (items_octets fst snd vs) base) [] = Inr ys \<and> map raw_of ys = vs"
  using assms by (intro items_read data_element_read) (auto simp: within_def list_all_iff)

lemma service_tags [simp]:
  "tag_class (tag_context n) = Context" "tag_number (tag_context n) = n"
  "tag_class (tag_context_constructed n) = Context" "tag_number (tag_context_constructed n) = n"
  by (simp_all add: tag_defs)

lemma va_read_obtain:
  assumes "va_ok a"
  obtains q where "\<And>off. variable_access_parse (mk_tlv (va_tag a) (va_contents a) off) = Inr (q off)"
    "\<And>off. map_variable_access raw_of (q off) = a"
  using reads_as_obtain [OF va_read [OF assms]] by blast

lemma request_read:
  assumes "request_ok l r"
  shows "reads_as (map_confirmed_request raw_of) (request_parse l) (request_tag r) (request_contents r) r"
proof -
  have f: "fits (request_contents r)" and p: "request_parts_ok l r" using assms by (simp_all add: request_ok_def)
  note read = on_children_mk sbind_def sreturn_def slift_def cur_at_start integer_field.get_mk_tlv boolean_field.get_mk_tlv
    i32_field.get_mk_tlv lenient_u32_field.get_mk_tlv visible_field.get_mk_tlv default_to_def
  show ?thesis
  proof (cases r)
    case (RqGetNameList c sc a)
    obtain q where q: "\<And>off. object_scope_parse (mk_tlv (object_scope_tag sc) (object_scope_contents sc) off) = Inr (q off)"
      "\<And>off. map_object_scope raw_of (q off) = sc"
      using reads_as_obtain [OF scope_read [of sc]] p RqGetNameList by auto
    have "fits (element (object_scope_tag sc) (object_scope_contents sc))" "fits (object_scope_contents sc)"
      "fits (element (tag_context 0) (integer_octets c))" "fits (opt_element (tag_context 2) as_bytes a)"
      using f unfolding RqGetNameList request_contents.simps by (auto simp only: dest!: fits_append dest: fits_element)
    moreover from this(4) have "a = Some s \<Longrightarrow> text_ok s" for s using p RqGetNameList opt_text [of a "tag_context 2" s] by simp
    ultimately show ?thesis
      by (simp add: RqGetNameList reads_as_def request_parse_def Let_def service_numbers get_name_list_parse_def read q last_opt)
  next
    case (RqRead w a)
    obtain q where q: "\<And>off. variable_access_parse (mk_tlv (va_tag a) (va_contents a) off) = Inr (q off)"
      "\<And>off. map_variable_access raw_of (q off) = a" using va_read_obtain [of a] p RqRead by auto
    have "fits (element (va_tag a) (va_contents a))" "fits (va_contents a)"
      using f unfolding RqRead request_contents.simps by (auto simp only: dest!: fits_append dest: fits_element)
    then show ?thesis
      by (cases w) (simp_all add: RqRead reads_as_def request_parse_def Let_def service_numbers read_parse_def read q opt_if_def)
  next
    case (RqWrite a vs)
    obtain q where q: "\<And>off. variable_access_parse (mk_tlv (va_tag a) (va_contents a) off) = Inr (q off)"
      "\<And>off. map_variable_access raw_of (q off) = a" using va_read_obtain [of a] p RqWrite by auto
    have g: "fits (items_octets fst snd vs)" "fits (va_contents a)"
      using f unfolding RqWrite request_contents.simps by (auto simp only: dest!: fits_append dest: fits_element)
    obtain ys where ys: "\<And>base. read_items (datasets l) data_element (cur_at [] (items_octets fst snd vs) base) [] = Inr (ys base)"
      "\<And>base. map raw_of (ys base) = vs" using raws_read [of vs l "[]"] g(1) p unfolding RqWrite by (simp del: split_paired_All) metis
    show ?thesis
      using g by (simp add: RqWrite reads_as_def request_parse_def Let_def service_numbers write_parse_def read q ys)
  next
    case (RqDefineNvl n vs)
    obtain q where q: "\<And>off. parse_variable_list (mk_tlv (tag_context_constructed 0) (vs_list_octets vs) off) l = Inr (q off)"
      "\<And>off. map (map_variable_specification raw_of) (q off) = vs"
      using reads_as_obtain [OF vs_list_read [of l vs "tag_context_constructed 0"]] p RqDefineNvl by auto
    have "fits (vs_list_octets vs)" "fits (object_name_contents n)"
      using f unfolding RqDefineNvl request_contents.simps by (auto simp only: dest!: fits_append dest: fits_element)
    then show ?thesis
      using p by (simp add: RqDefineNvl reads_as_def request_parse_def Let_def service_numbers define_nvl_parse_def read q)
  next
    case (RqDeleteNvl sc ns d)
    have g: "fits (opt_element (tag_context 2) as_bytes d)"
      "\<And>xs. some_list ns = Some xs \<Longrightarrow> fits (items_octets object_name_tag object_name_contents xs)"
      using f unfolding RqDeleteNvl request_contents.simps by (auto simp only: dest!: fits_append dest: fits_opt)
    have d: "d = Some s \<Longrightarrow> text_ok s" for s using p RqDeleteNvl opt_text [of d "tag_context 2" s] g(1) by simp
    have n: "read_items (list_items l) object_name_parse (children (mk_tlv u (items_octets object_name_tag object_name_contents xs) o')) [] = Inr xs"
      if "some_list ns = Some xs" for xs u o'
      using names_read [OF g(2) [OF that], of "list_items l"] p that RqDeleteNvl by (simp add: cur_at_start within_def)
    have sc: "default_to DELETE_SPECIFIC (opt_if (sc \<noteq> DELETE_SPECIFIC) sc) = sc" by (simp add: default_to_def opt_if_def)
    show ?thesis
      using d g(2) n sc by (simp add: RqDeleteNvl reads_as_def request_parse_def Let_def service_numbers delete_nvl_parse_def
          on_children_mk sbind_def sreturn_def last_opt opt_field_opt integer_field.get_mk_tlv visible_field.get_mk_tlv
          del: some_list_simps(1))
  next
    case (RqFileOpen n pos)
    then have n: "\<And>t off. file_name_parse (mk_tlv t n off) l = Inr n" "fits n" using p by (auto simp: file_name_read file_name_ok_def)
    then show ?thesis
      by (simp add: RqFileOpen reads_as_def request_parse_def Let_def service_numbers file_open_parse_def read)
  next
    case (RqFileDelete n)
    then show ?thesis using p by (simp add: reads_as_def request_parse_def Let_def service_numbers file_name_read)
  next
    case (RqFileDirectory s a)
    have n: "file_name_parse (mk_tlv t n off) l = Inr n \<and> fits n" if "s = Some n \<or> a = Some n" for n t off
      using p that RqFileDirectory by (auto simp: file_name_read file_name_ok_def)
    then show ?thesis
      by (simp add: RqFileDirectory reads_as_def request_parse_def Let_def service_numbers file_directory_parse_def
          on_children_mk sbind_def sreturn_def last_opt opt_field_opt)
  next
    case (RqGetVariableAttributes n)
    have "fits (object_name_octets n)" "fits (object_name_contents n)"
      using f unfolding RqGetVariableAttributes request_contents.simps by (auto simp only: dest: fits_element)
    then show ?thesis
      using p by (simp add: RqGetVariableAttributes reads_as_def request_parse_def Let_def service_numbers read)
  next
    case (RqGetNvlAttributes n)
    have "fits (object_name_contents n)" using f unfolding RqGetNvlAttributes request_contents.simps by (rule fits_element)
    then show ?thesis
      using p by (simp add: RqGetNvlAttributes reads_as_def request_parse_def Let_def service_numbers read)
  next
    case (RqGetCapabilityList a)
    then have "a = Some s \<Longrightarrow> text_ok s" for s using p f opt_text [of a TAG_VISIBLE_STRING s] by simp
    then show ?thesis
      by (simp add: RqGetCapabilityList reads_as_def request_parse_def Let_def service_numbers last_opt visible_field.get_mk_tlv)
  next
    case (RqReadJournal j)
    then show ?thesis using p by (simp add: reads_as_def request_parse_def Let_def service_numbers rj_read)
  next
    case (RqOther x)
    then show ?thesis using p by (simp add: reads_as_def request_parse_def Let_def service_numbers)
  qed (simp_all add: reads_as_def request_parse_def Let_def service_numbers read)
qed

end
