(* ===== verification/Mms_Responses.thy ===== *)
theory Mms_Responses
  imports Mms_Requests
begin

text \<open>
  Confirmed service responses (\<open>ConfirmedResponse\<close> of \<open>src/proto/mms/mod.rs\<close>): decoder, encoder and the
  round trip, as for the requests. A journal entry that names no originator is read back naming the empty
  one, which is what the encoder writes for it.
\<close>

datatype 't confirmed_response =
  RpStatus i64 i64 "(u8 \<times> bytes) option"
| RpGetCapabilityList "string list" bool
| RpGetNameList "string list" bool
| RpIdentify string string string
| RpRead "'t variable_access option" "'t access_result list"
| RpWrite "write_result list"
| RpGetNvlAttributes bool "'t variable_specification list"
| RpGetVariableAttributes bool type_spec
| RpDefineNvl
| RpDeleteNvl u32 u32
| RpReadJournal "'t journal_item list" bool
| RpFileOpen i32 file_attributes
| RpFileRead bytes bool
| RpFileClose
| RpFileDelete
| RpFileDirectory "directory_entry list" bool
| RpOther 't

section \<open>Decoding\<close>

definition tagged_string :: "tag \<Rightarrow> tlv \<Rightarrow> string result" where
  "tagged_string u t = rbind (expect u t) visible_string"

definition status_parse :: "tlv \<Rightarrow> tlv confirmed_response result" where
  "status_parse = on_children
     (sbind (field (tag_context 0) integer_i64) (\<lambda>logical.
      sbind (field (tag_context 1) integer_i64) (\<lambda>physical.
      sbind (opt_field (tag_context 2) bit_string) (\<lambda>local_detail.
      sreturn (RpStatus logical physical local_detail)))))"

definition string_list_parse :: "limits \<Rightarrow> tag \<Rightarrow> tlv \<Rightarrow> (string list \<times> bool) result" where
  "string_list_parse l u = on_children
     (sbind (field (tag_context_constructed 0) (\<lambda>lst. read_items (list_items l) (tagged_string u) (children lst) [])) (\<lambda>xs.
      sbind (opt_field (tag_context 1) boolean) (\<lambda>more_follows.
      sreturn (xs, default_to True more_follows))))"

definition identify_parse :: "tlv \<Rightarrow> tlv confirmed_response result" where
  "identify_parse = on_children
     (sbind (field (tag_context 0) visible_string) (\<lambda>vendor.
      sbind (field (tag_context 1) visible_string) (\<lambda>model.
      sbind (field (tag_context 2) visible_string) (\<lambda>revision.
      sreturn (RpIdentify vendor model revision)))))"

definition read_response_parse :: "limits \<Rightarrow> tlv \<Rightarrow> tlv confirmed_response result" where
  "read_response_parse l = on_children
     (sbind (opt_field (tag_context_constructed 0) (\<lambda>a. rbind (first_child a) variable_access_parse)) (\<lambda>access.
      sbind (field (tag_context_constructed 1) (\<lambda>t. parse_access_results t l)) (\<lambda>results.
      sreturn (RpRead access results))))"

definition write_result_parse :: "tlv \<Rightarrow> write_result result" where
  "write_result_parse r = (if tag_number (tlv_tag r) = 0 then rbind (integer_i64 r) (\<lambda>c. Inr (WriteFailure c)) else Inr WriteSuccess)"

definition nvl_attributes_parse :: "limits \<Rightarrow> tlv \<Rightarrow> tlv confirmed_response result" where
  "nvl_attributes_parse l = on_children
     (sbind (opt_field (tag_context 0) boolean) (\<lambda>deletable.
      sbind (field (tag_context_constructed 1) (\<lambda>t. parse_variable_list t l)) (\<lambda>variables.
      sreturn (RpGetNvlAttributes (default_to False deletable) variables))))"

definition variable_attributes_parse :: "limits \<Rightarrow> tlv \<Rightarrow> tlv confirmed_response result" where
  "variable_attributes_parse l = on_children
     (sbind (opt_field (tag_context 0) boolean) (\<lambda>deletable.
      sbind (next_if_tag (tag_context_constructed 1)) (\<lambda>_.
      sbind (field (tag_context_constructed 2) (\<lambda>t. rbind (first_child t) (\<lambda>x. ts_parse x l))) (\<lambda>type_spec.
      sreturn (RpGetVariableAttributes (default_to False deletable) type_spec)))))"

definition delete_response_parse :: "tlv \<Rightarrow> tlv confirmed_response result" where
  "delete_response_parse = on_children
     (sbind (field (tag_context 0) unsigned_lenient_u32) (\<lambda>matched.
      sbind (field (tag_context 1) unsigned_lenient_u32) (\<lambda>deleted.
      sreturn (RpDeleteNvl matched deleted))))"

definition journal_response_parse :: "limits \<Rightarrow> tlv \<Rightarrow> tlv confirmed_response result" where
  "journal_response_parse l = on_children
     (sbind (field (tag_context_constructed 0) (\<lambda>lst. read_items (list_items l) (journal_item_parse l) (children lst) [])) (\<lambda>entries.
      sbind (opt_field (tag_context 1) boolean) (\<lambda>more_follows.
      sreturn (RpReadJournal entries (default_to False more_follows)))))"

definition open_response_parse :: "tlv \<Rightarrow> tlv confirmed_response result" where
  "open_response_parse = on_children
     (sbind (field (tag_context 0) integer_i32) (\<lambda>frsm_id.
      sbind (field (tag_context_constructed 1) file_attributes_parse) (\<lambda>attributes.
      sreturn (RpFileOpen frsm_id attributes))))"

definition file_read_parse :: "limits \<Rightarrow> tlv \<Rightarrow> tlv confirmed_response result" where
  "file_read_parse l = on_children
     (sbind (field (tag_context 0) (\<lambda>t. if length (tlv_value t) > max_primitive_len l
         then Inl (LimitExceeded ''max_primitive_len'' (length (tlv_value t))) else Inr (tlv_value t))) (\<lambda>d.
      sbind (opt_field (tag_context 1) boolean) (\<lambda>more_follows.
      sreturn (RpFileRead d (default_to True more_follows)))))"

definition directory_response_parse :: "limits \<Rightarrow> tlv \<Rightarrow> tlv confirmed_response result" where
  "directory_response_parse l = on_children
     (sbind (field (tag_context_constructed 0) (\<lambda>lst. read_items (list_items l) (directory_entry_parse l) (directory_entries lst) [])) (\<lambda>entries.
      sbind (opt_field (tag_context 1) boolean) (\<lambda>more_follows.
      sreturn (RpFileDirectory entries (default_to False more_follows)))))"

definition response_parse :: "limits \<Rightarrow> tlv \<Rightarrow> tlv confirmed_response result" where
  "response_parse l t = (let n = tag_number (tlv_tag t) in
     if tag_class (tlv_tag t) \<noteq> Context then Inl (Decode UnexpectedTag (tlv_offset t))
     else if n = SERVICE_STATUS then status_parse t
     else if n = SERVICE_GET_CAPABILITY_LIST then
       rbind (string_list_parse l TAG_VISIBLE_STRING t) (\<lambda>(xs, m). Inr (RpGetCapabilityList xs m))
     else if n = 1 then rbind (string_list_parse l TAG_IDENTIFIER t) (\<lambda>(xs, m). Inr (RpGetNameList xs m))
     else if n = 2 then identify_parse t
     else if n = 4 then read_response_parse l t
     else if n = 5 then rbind (read_items None write_result_parse (children t) []) (\<lambda>rs. Inr (RpWrite rs))
     else if n = 12 then nvl_attributes_parse l t
     else if n = SERVICE_GET_VARIABLE_ACCESS_ATTRIBUTES then variable_attributes_parse l t
     else if n = SERVICE_DEFINE_NVL then Inr RpDefineNvl
     else if n = SERVICE_DELETE_NVL then delete_response_parse t
     else if n = SERVICE_READ_JOURNAL then journal_response_parse l t
     else if n = SERVICE_FILE_OPEN then open_response_parse t
     else if n = SERVICE_FILE_READ then file_read_parse l t
     else if n = SERVICE_FILE_CLOSE then Inr RpFileClose
     else if n = SERVICE_FILE_DELETE then Inr RpFileDelete
     else if n = SERVICE_FILE_DIRECTORY then directory_response_parse l t
     else Inr (RpOther t))"

section \<open>Encoding\<close>

definition string_list_write :: "tag \<Rightarrow> string list \<Rightarrow> bool \<Rightarrow> enc" where
  "string_list_write u xs more_follows =
     sbind (constructed (tag_context_constructed 0) (sfor (enc_visible_string u) xs)) (\<lambda>_.
     enc_if (\<not> more_follows) (enc_boolean (tag_context 1) False))"

definition write_result_write :: "write_result \<Rightarrow> enc" where
  "write_result_write r = (case r of WriteFailure code \<Rightarrow> enc_integer (tag_context 0) code | WriteSuccess \<Rightarrow> primitive (tag_context 1) [])"

definition response_write :: "raw confirmed_response \<Rightarrow> enc" where
  "response_write r = (case r of
     RpGetNameList xs m \<Rightarrow> constructed (tag_context_constructed 1) (string_list_write TAG_IDENTIFIER xs m)
   | RpStatus logical physical local_detail \<Rightarrow> constructed (tag_context_constructed SERVICE_STATUS)
       (sbind (enc_integer (tag_context 0) logical) (\<lambda>_. sbind (enc_integer (tag_context 1) physical) (\<lambda>_.
        enc_opt (enc_bits (tag_context 2)) local_detail)))
   | RpGetCapabilityList xs m \<Rightarrow> constructed (tag_context_constructed SERVICE_GET_CAPABILITY_LIST) (string_list_write TAG_VISIBLE_STRING xs m)
   | RpIdentify vendor model revision \<Rightarrow> constructed (tag_context_constructed 2)
       (sbind (enc_visible_string (tag_context 0) vendor) (\<lambda>_. sbind (enc_visible_string (tag_context 1) model) (\<lambda>_.
        enc_visible_string (tag_context 2) revision)))
   | RpRead access results \<Rightarrow> constructed (tag_context_constructed 4)
       (sbind (enc_opt (\<lambda>a. constructed (tag_context_constructed 0) (variable_access_write a)) access) (\<lambda>_.
        write_access_results results (tag_context_constructed 1)))
   | RpWrite rs \<Rightarrow> constructed (tag_context_constructed 5) (sfor write_result_write rs)
   | RpGetNvlAttributes deletable variables \<Rightarrow> constructed (tag_context_constructed 12)
       (sbind (enc_boolean (tag_context 0) deletable) (\<lambda>_. write_variable_list variables (tag_context_constructed 1)))
   | RpGetVariableAttributes deletable type_spec \<Rightarrow> constructed (tag_context_constructed SERVICE_GET_VARIABLE_ACCESS_ATTRIBUTES)
       (sbind (enc_boolean (tag_context 0) deletable) (\<lambda>_. constructed (tag_context_constructed 2) (ts_write type_spec)))
   | RpDefineNvl \<Rightarrow> primitive (tag_context SERVICE_DEFINE_NVL) []
   | RpDeleteNvl matched deleted \<Rightarrow> constructed (tag_context_constructed SERVICE_DELETE_NVL)
       (sbind (enc_unsigned (tag_context 0) (ucast matched)) (\<lambda>_. enc_unsigned (tag_context 1) (ucast deleted)))
   | RpReadJournal entries m \<Rightarrow> constructed (tag_context_constructed SERVICE_READ_JOURNAL)
       (sbind (constructed (tag_context_constructed 0) (sfor journal_item_write entries)) (\<lambda>_. enc_if m (enc_boolean (tag_context 1) True)))
   | RpFileOpen frsm_id attributes \<Rightarrow> constructed (tag_context_constructed SERVICE_FILE_OPEN)
       (sbind (enc_integer (tag_context 0) (i64_of frsm_id)) (\<lambda>_. file_attributes_write attributes (tag_context_constructed 1)))
   | RpFileRead d m \<Rightarrow> constructed (tag_context_constructed SERVICE_FILE_READ)
       (sbind (primitive (tag_context 0) d) (\<lambda>_. enc_if (\<not> m) (enc_boolean (tag_context 1) False)))
   | RpFileClose \<Rightarrow> primitive (tag_context SERVICE_FILE_CLOSE) []
   | RpFileDelete \<Rightarrow> primitive (tag_context SERVICE_FILE_DELETE) []
   | RpFileDirectory entries m \<Rightarrow> constructed (tag_context_constructed SERVICE_FILE_DIRECTORY)
       (sbind (constructed (tag_context_constructed 0) (constructed TAG_SEQUENCE (sfor directory_entry_write entries))) (\<lambda>_.
        enc_if m (enc_boolean (tag_context 1) True)))
   | RpOther t \<Rightarrow> raw_write t)"

section \<open>The round trip\<close>

fun response_tag :: "raw confirmed_response \<Rightarrow> tag" where
  "response_tag (RpStatus _ _ _) = tag_context_constructed SERVICE_STATUS"
| "response_tag (RpGetCapabilityList _ _) = tag_context_constructed SERVICE_GET_CAPABILITY_LIST"
| "response_tag (RpGetNameList _ _) = tag_context_constructed 1"
| "response_tag (RpIdentify _ _ _) = tag_context_constructed 2"
| "response_tag (RpRead _ _) = tag_context_constructed 4"
| "response_tag (RpWrite _) = tag_context_constructed 5"
| "response_tag (RpGetNvlAttributes _ _) = tag_context_constructed 12"
| "response_tag (RpGetVariableAttributes _ _) = tag_context_constructed SERVICE_GET_VARIABLE_ACCESS_ATTRIBUTES"
| "response_tag RpDefineNvl = tag_context SERVICE_DEFINE_NVL"
| "response_tag (RpDeleteNvl _ _) = tag_context_constructed SERVICE_DELETE_NVL"
| "response_tag (RpReadJournal _ _) = tag_context_constructed SERVICE_READ_JOURNAL"
| "response_tag (RpFileOpen _ _) = tag_context_constructed SERVICE_FILE_OPEN"
| "response_tag (RpFileRead _ _) = tag_context_constructed SERVICE_FILE_READ"
| "response_tag RpFileClose = tag_context SERVICE_FILE_CLOSE"
| "response_tag RpFileDelete = tag_context SERVICE_FILE_DELETE"
| "response_tag (RpFileDirectory _ _) = tag_context_constructed SERVICE_FILE_DIRECTORY"
| "response_tag (RpOther r) = fst r"

abbreviation strings_octets :: "tag \<Rightarrow> string list \<Rightarrow> bytes" where
  "strings_octets u \<equiv> items_octets (\<lambda>_. u) as_bytes"

fun wr_tag :: "write_result \<Rightarrow> tag" where
  "wr_tag (WriteFailure _) = tag_context 0"
| "wr_tag WriteSuccess = tag_context 1"

fun wr_contents :: "write_result \<Rightarrow> bytes" where
  "wr_contents (WriteFailure c) = integer_octets c"
| "wr_contents WriteSuccess = []"

abbreviation journal_octets :: "raw journal_item list \<Rightarrow> bytes" where
  "journal_octets \<equiv> items_octets (\<lambda>_. TAG_SEQUENCE) journal_contents"

abbreviation flag_octets :: "bool \<Rightarrow> bool \<Rightarrow> bytes" where
  "flag_octets b v \<equiv> opt_element (tag_context 1) bool_octets (opt_if b v)"

fun response_contents :: "raw confirmed_response \<Rightarrow> bytes" where
  "response_contents (RpStatus lg ph d) = element (tag_context 0) (integer_octets lg) @ element (tag_context 1) (integer_octets ph) @
     opt_element (tag_context 2) bits_octets d"
| "response_contents (RpGetCapabilityList xs m) = element (tag_context_constructed 0) (strings_octets TAG_VISIBLE_STRING xs) @ flag_octets (\<not> m) False"
| "response_contents (RpGetNameList xs m) = element (tag_context_constructed 0) (strings_octets TAG_IDENTIFIER xs) @ flag_octets (\<not> m) False"
| "response_contents (RpIdentify a b c) = element (tag_context 0) (as_bytes a) @ element (tag_context 1) (as_bytes b) @ element (tag_context 2) (as_bytes c)"
| "response_contents (RpRead a rs) = opt_element (tag_context_constructed 0) (\<lambda>a. element (va_tag a) (va_contents a)) a @
     element (tag_context_constructed 1) (ar_list_octets rs)"
| "response_contents (RpWrite rs) = items_octets wr_tag wr_contents rs"
| "response_contents (RpGetNvlAttributes d vs) = element (tag_context 0) (bool_octets d) @ element (tag_context_constructed 1) (vs_list_octets vs)"
| "response_contents (RpGetVariableAttributes d ty) = element (tag_context 0) (bool_octets d) @ element (tag_context_constructed 2) (ts_octets ty)"
| "response_contents RpDefineNvl = []"
| "response_contents (RpDeleteNvl m d) = element (tag_context 0) (unsigned_octets (ucast m)) @ element (tag_context 1) (unsigned_octets (ucast d))"
| "response_contents (RpReadJournal es m) = element (tag_context_constructed 0) (journal_octets es) @ flag_octets m True"
| "response_contents (RpFileOpen i a) = element (tag_context 0) (integer_octets (i64_of i)) @ element (tag_context_constructed 1) (attributes_contents a)"
| "response_contents (RpFileRead d m) = element (tag_context 0) d @ flag_octets (\<not> m) False"
| "response_contents RpFileClose = []"
| "response_contents RpFileDelete = []"
| "response_contents (RpFileDirectory ds m) = element (tag_context_constructed 0) (element TAG_SEQUENCE (directory_list ds)) @ flag_octets m True"
| "response_contents (RpOther r) = snd r"

fun response_parts_ok :: "limits \<Rightarrow> raw confirmed_response \<Rightarrow> bool" where
  "response_parts_ok l (RpStatus lg ph d) \<longleftrightarrow> pred_option bits_ok d"
| "response_parts_ok l (RpGetCapabilityList xs m) \<longleftrightarrow> list_all ascii_str xs \<and> length xs \<le> max_list_items l"
| "response_parts_ok l (RpGetNameList xs m) \<longleftrightarrow> list_all ascii_str xs \<and> length xs \<le> max_list_items l"
| "response_parts_ok l (RpIdentify a b c) \<longleftrightarrow> ascii_str a \<and> ascii_str b \<and> ascii_str c"
| "response_parts_ok l (RpRead a rs) \<longleftrightarrow> pred_option va_ok a \<and> ar_list_ok l rs"
| "response_parts_ok l (RpGetNvlAttributes d vs) \<longleftrightarrow> vs_list_ok l vs"
| "response_parts_ok l (RpGetVariableAttributes d ty) \<longleftrightarrow> ts_ok l 0 ty"
| "response_parts_ok l (RpReadJournal es m) \<longleftrightarrow> list_all (journal_ok l) es \<and> length es \<le> max_list_items l"
| "response_parts_ok l (RpFileOpen i a) \<longleftrightarrow> attributes_ok a"
| "response_parts_ok l (RpFileRead d m) \<longleftrightarrow> length d \<le> max_primitive_len l"
| "response_parts_ok l (RpFileDirectory ds m) \<longleftrightarrow> list_all (directory_ok l) ds \<and> length ds \<le> max_list_items l"
| "response_parts_ok l (RpOther r) \<longleftrightarrow> tag_class (fst r) = Context \<and>
     tag_number (fst r) \<notin> {0, 1, 2, 4, 5, 6, 11, 12, 13, 65, 71, 72, 73, 74, 76, 77}"
| "response_parts_ok l _ \<longleftrightarrow> True"

definition response_ok :: "limits \<Rightarrow> raw confirmed_response \<Rightarrow> bool" where
  "response_ok l r \<longleftrightarrow> response_parts_ok l r \<and> fits (response_contents r)"

fun response_read_as :: "raw confirmed_response \<Rightarrow> raw confirmed_response" where
  "response_read_as (RpReadJournal es m) = RpReadJournal (map named_origin es) m"
| "response_read_as r = r"

lemma strings_list_read:
  assumes "list_all ascii_str xs" "fits (strings_octets u xs)" "within bound (length xs)"
  shows "read_items bound (tagged_string u) (cur_at pre (strings_octets u xs) base) [] = Inr xs"
proof -
  have "reads_as (\<lambda>q. q) (tagged_string u) u (as_bytes x) x" if "x \<in> set xs" for x
    using items_fit [OF assms(2) that] assms(1) that
    by (intro reads_as_id) (simp add: tagged_string_def expect_def visible_field.get_mk_tlv list_all_iff)
  then show ?thesis using items_read [OF assms(2), of "\<lambda>q. q" "tagged_string u" bound pre base] assms(3) by auto
qed

lemma strings_list_emits: "list_all ascii_str xs \<Longrightarrow> fits (strings_octets u xs) \<Longrightarrow>
    emits (sfor (enc_visible_string u) xs) (strings_octets u xs)"
  by (rule items_emit) (auto simp: list_all_iff intro: visible_field.put_emits)

lemma wr_read: "reads_as (\<lambda>q. q) write_result_parse (wr_tag r) (wr_contents r) r"
  by (cases r) (simp_all add: reads_as_def write_result_parse_def integer_field.get_mk_tlv)

lemma wr_emits: "emits (write_result_write r) (element (wr_tag r) (wr_contents r))"
  by (cases r) (auto simp: write_result_write_def intro: integer_field.put_emits octets_field.put_emits)

lemma string_list_emits:
  assumes "list_all ascii_str xs" "fits (strings_octets u xs)"
  shows "emits (string_list_write u xs m) (element (tag_context_constructed 0) (strings_octets u xs) @ flag_octets (\<not> m) False)"
  unfolding string_list_write_def
  by (intro emits_bind emits_element strings_list_emits assms emits_enc_if boolean_field.put_emits TrueI)

lemma string_list_read:
  assumes "list_all ascii_str xs" "fits (strings_octets u xs)" "length xs \<le> max_list_items l"
  shows "string_list_parse l u (mk_tlv t (element (tag_context_constructed 0) (strings_octets u xs) @ flag_octets (\<not> m) False) off) = Inr (xs, m)"
proof -
  have w: "within (list_items l) (length xs)" using assms(3) by (simp add: within_def)
  show ?thesis
    using assms(2) by (cases m) (simp_all add: string_list_parse_def sbind_def sreturn_def cur_at_start opt_if_def default_to_def
        boolean_field.get_mk_tlv strings_list_read [OF assms(1,2) w])
qed

lemma response_emits:
  assumes "response_ok l r"
  shows "emits (response_write r) (element (response_tag r) (response_contents r))"
proof -
  have f: "fits (response_contents r)" and p: "response_parts_ok l r" using assms by (simp_all add: response_ok_def)
  note emit = emits_bind emits_element integer_field.put_emits boolean_field.put_emits octets_field.put_emits
    unsigned_field.put_emits visible_field.put_emits vs_list_emits ar_list_emits va_emits emits_enc_if emits_enc_opt bits_field(1)
    attributes_emits raw_emits
  show ?thesis
  proof (cases r)
    case (RpGetNameList xs m)
    have "fits (strings_octets TAG_IDENTIFIER xs)"
      using f unfolding RpGetNameList response_contents.simps by (auto simp only: dest!: fits_append dest: fits_element)
    then show ?thesis
      using f p unfolding RpGetNameList response_write_def confirmed_response.case response_tag.simps response_contents.simps response_parts_ok.simps
      by (intro emits_element string_list_emits) auto
  next
    case (RpGetCapabilityList xs m)
    have "fits (strings_octets TAG_VISIBLE_STRING xs)"
      using f unfolding RpGetCapabilityList response_contents.simps by (auto simp only: dest!: fits_append dest: fits_element)
    then show ?thesis
      using f p unfolding RpGetCapabilityList response_write_def confirmed_response.case response_tag.simps response_contents.simps
        response_parts_ok.simps by (intro emits_element string_list_emits) auto
  next
    case (RpIdentify a b c)
    have "fits (as_bytes a)" "fits (as_bytes b)" "fits (as_bytes c)"
      using f unfolding RpIdentify response_contents.simps by (auto simp only: dest!: fits_append dest: fits_element)
    then show ?thesis
      using f p unfolding RpIdentify response_write_def confirmed_response.case response_tag.simps response_contents.simps response_parts_ok.simps
      by (intro emit) auto
  next
    case (RpRead a rs)
    have "fits (element (va_tag x) (va_contents x))" if "a = Some x" for x
      using f that unfolding RpRead response_contents.simps by (auto simp only: dest!: fits_append dest: fits_opt)
    then show ?thesis
      using f p unfolding RpRead response_write_def confirmed_response.case response_tag.simps response_contents.simps response_parts_ok.simps
      by (intro emit) auto
  next
    case (RpWrite rs)
    then show ?thesis using f by (auto simp: response_write_def intro!: emits_element items_emit wr_emits)
  next
    case (RpGetVariableAttributes d ty)
    have "fits (ts_octets ty)"
      using f unfolding RpGetVariableAttributes response_contents.simps by (auto simp only: dest!: fits_append dest: fits_element)
    then show ?thesis
      using f p emits_ts(1) [of l 0 ty] unfolding RpGetVariableAttributes response_write_def confirmed_response.case response_tag.simps
        response_contents.simps response_parts_ok.simps by (intro emit TrueI) auto
  next
    case (RpReadJournal es m)
    have "fits (journal_octets es)"
      using f unfolding RpReadJournal response_contents.simps by (auto simp only: dest!: fits_append dest: fits_element)
    moreover from this have "emits (sfor journal_item_write es) (journal_octets es)"
      using p unfolding RpReadJournal by (intro items_emit journal_emits) (auto simp: list_all_iff)
    ultimately show ?thesis
      using f unfolding RpReadJournal response_write_def confirmed_response.case response_tag.simps response_contents.simps
      by (intro emit TrueI) auto
  next
    case (RpFileDirectory ds m)
    have g: "fits (element TAG_SEQUENCE (directory_list ds))" "fits (directory_list ds)"
      using f unfolding RpFileDirectory response_contents.simps by (auto simp only: dest!: fits_append dest: fits_element)
    have "emits (sfor directory_entry_write ds) (directory_list ds)"
      unfolding directory_list_def using p by (intro emits_for directory_emits) (auto simp: RpFileDirectory list_all_iff)
    then show ?thesis
      using f g unfolding RpFileDirectory response_write_def confirmed_response.case response_tag.simps response_contents.simps
      by (intro emit TrueI) auto
  next
    case (RpFileRead d m)
    have "fits d" using f unfolding RpFileRead response_contents.simps by (auto simp only: dest!: fits_append dest: fits_element)
    then show ?thesis
      using f unfolding RpFileRead response_write_def confirmed_response.case response_tag.simps response_contents.simps
      by (intro emit TrueI) auto
  next
    case (RpStatus lg ph d)
    then show ?thesis
      using f p unfolding RpStatus response_write_def confirmed_response.case response_tag.simps response_contents.simps
      by (intro emit TrueI) auto
  next
    case (RpOther x)
    then show ?thesis using f raw_emits [of x] by (simp add: response_write_def raw_octets_def)
  qed (use f p in \<open>auto simp: response_write_def intro!: emit\<close>)
qed

lemma response_read:
  assumes "response_ok l r"
  shows "reads_as (map_confirmed_response raw_of) (response_parse l) (response_tag r) (response_contents r) (response_read_as r)"
proof -
  have f: "fits (response_contents r)" and p: "response_parts_ok l r" using assms by (simp_all add: response_ok_def)
  note read = on_children_mk sbind_def sreturn_def slift_def cur_at_start integer_field.get_mk_tlv boolean_field.get_mk_tlv
    i32_field.get_mk_tlv lenient_u32_field.get_mk_tlv visible_field.get_mk_tlv default_to_def
  note start = reads_as_def response_parse_def Let_def service_numbers
  show ?thesis
  proof (cases r)
    case (RpGetNameList xs m)
    have "fits (strings_octets TAG_IDENTIFIER xs)"
      using f unfolding RpGetNameList response_contents.simps by (auto simp only: dest!: fits_append dest: fits_element)
    then show ?thesis using p by (simp add: RpGetNameList start string_list_read)
  next
    case (RpGetCapabilityList xs m)
    have "fits (strings_octets TAG_VISIBLE_STRING xs)"
      using f unfolding RpGetCapabilityList response_contents.simps by (auto simp only: dest!: fits_append dest: fits_element)
    then show ?thesis using p by (simp add: RpGetCapabilityList start string_list_read)
  next
    case (RpIdentify a b c)
    have "text_ok a" "text_ok b" "text_ok c"
      using f p unfolding RpIdentify response_contents.simps by (auto simp only: response_parts_ok.simps visible_fits dest!: fits_append dest: fits_element)
    then show ?thesis by (simp add: RpIdentify start identify_parse_def read)
  next
    case (RpStatus lg ph d)
    then show ?thesis using p by (cases d) (simp_all add: start status_parse_def read bits_field)
  next
    case (RpRead a rs)
    obtain q where q: "\<And>off. parse_access_results (mk_tlv (tag_context_constructed 1) (ar_list_octets rs) off) l = Inr (q off)"
      "\<And>off. map (map_access_result raw_of) (q off) = rs"
      using reads_as_obtain [OF ar_list_read [of l rs "tag_context_constructed 1"]] p RpRead by auto
    have g: "fits (ar_list_octets rs)" using f unfolding RpRead response_contents.simps by (auto simp only: dest!: fits_append dest: fits_element)
    show ?thesis
    proof (cases a)
      case None
      then show ?thesis using g by (simp add: RpRead start read_response_parse_def read q)
    next
      case (Some x)
      obtain v where v: "\<And>off. variable_access_parse (mk_tlv (va_tag x) (va_contents x) off) = Inr (v off)"
        "\<And>off. map_variable_access raw_of (v off) = x" using va_read_obtain [of x] p RpRead Some by auto
      have "fits (element (va_tag x) (va_contents x))" "fits (va_contents x)"
        using f unfolding RpRead Some response_contents.simps opt_element_simps by (auto simp only: dest!: fits_append dest: fits_element)
      then show ?thesis using g by (simp add: RpRead Some start read_response_parse_def read q v)
    qed
  next
    case (RpWrite rs)
    have "read_items None write_result_parse (cur_at [] (items_octets wr_tag wr_contents rs) base) [] = Inr rs" for base
      using items_read [of wr_tag wr_contents rs "\<lambda>q. q" write_result_parse None "[]" base] f wr_read RpWrite by auto
    then show ?thesis by (simp add: RpWrite start cur_at_start)
  next
    case (RpGetNvlAttributes d vs)
    obtain q where q: "\<And>off. parse_variable_list (mk_tlv (tag_context_constructed 1) (vs_list_octets vs) off) l = Inr (q off)"
      "\<And>off. map (map_variable_specification raw_of) (q off) = vs"
      using reads_as_obtain [OF vs_list_read [of l vs "tag_context_constructed 1"]] p RpGetNvlAttributes by auto
    have "fits (vs_list_octets vs)"
      using f unfolding RpGetNvlAttributes response_contents.simps by (auto simp only: dest!: fits_append dest: fits_element)
    then show ?thesis by (simp add: RpGetNvlAttributes start nvl_attributes_parse_def read q)
  next
    case (RpGetVariableAttributes d ty)
    have "fits (ts_octets ty)" "fits (ts_contents ty)"
      using f unfolding RpGetVariableAttributes response_contents.simps by (auto simp only: dest!: fits_append dest: fits_element)
    then show ?thesis
      using p ts_roundtrip [of l ty] by (simp add: RpGetVariableAttributes start variable_attributes_parse_def read)
  next
    case (RpReadJournal es m)
    have g: "fits (journal_octets es)"
      using f unfolding RpReadJournal response_contents.simps by (auto simp only: dest!: fits_append dest: fits_element)
    have "\<exists>ys. read_items (list_items l) (journal_item_parse l) (cur_at [] (journal_octets es) base) [] = Inr ys \<and>
        map (map_journal_item raw_of) ys = map named_origin es" for base
    proof -
      have "\<exists>ys. read_items (list_items l) (journal_item_parse l)
          (cur_at [] (concat (map (\<lambda>e. element TAG_SEQUENCE (journal_contents e)) es)) base) [] = Inr ([] @ ys) \<and>
          list_all2 (\<lambda>e y. map_journal_item raw_of y = named_origin e) es ys"
        by (rule read_items_elements) (use g p RpReadJournal items_fit [OF g] in \<open>auto simp: list_all_iff within_def intro: journal_read\<close>)
      then show ?thesis
        unfolding items_octets_def by (auto simp: list_all2_conv_all_nth intro!: nth_equalityI)
    qed
    then obtain ys where "\<And>base. read_items (list_items l) (journal_item_parse l) (cur_at [] (journal_octets es) base) [] = Inr (ys base)"
      "\<And>base. map (map_journal_item raw_of) (ys base) = map named_origin es" by metis
    then show ?thesis
      using g by (cases m) (simp_all add: RpReadJournal start journal_response_parse_def read opt_if_def)
  next
    case (RpFileOpen i a)
    have "fits (attributes_contents a)"
      using f unfolding RpFileOpen response_contents.simps by (auto simp only: dest!: fits_append dest: fits_element)
    then show ?thesis using p by (simp add: RpFileOpen start open_response_parse_def read attributes_read)
  next
    case (RpFileRead d m)
    have "fits d" using f unfolding RpFileRead response_contents.simps by (auto simp only: dest!: fits_append dest: fits_element)
    then show ?thesis
      using p by (cases m) (simp_all add: RpFileRead start file_read_parse_def read opt_if_def not_less)
  next
    case (RpFileDirectory ds m)
    have g: "fits (element TAG_SEQUENCE (directory_list ds))" "fits (directory_list ds)"
      using f unfolding RpFileDirectory response_contents.simps by (auto simp only: dest!: fits_append dest: fits_element)
    have "read_items (list_items l) (directory_entry_parse l) (cur_at [] (directory_list ds) base) [] = Inr ds" for base
      using read_items_map [of ds directory_contents "directory_entry_parse l" "\<lambda>_. TAG_SEQUENCE" "\<lambda>d. d" "list_items l" "[]" "[]" base]
        p directory_read by (auto simp: RpFileDirectory directory_list_def list_all_iff directory_ok_def within_def)
    then show ?thesis
      using g by (cases m) (simp_all add: RpFileDirectory start directory_response_parse_def read opt_if_def directory_wrapped)
  next
    case (RpDeleteNvl m d)
    then show ?thesis by (simp add: start delete_response_parse_def read)
  next
    case (RpOther x)
    then show ?thesis using p by (simp add: start)
  qed (simp_all add: start)
qed

end
