(* ===== verification/Mms_Pdu.thy ===== *)
theory Mms_Pdu
  imports Mms_Responses
begin

text \<open>
  MMS PDUs (\<open>Mms\<close> of \<open>src/proto/mms/mod.rs\<close>): the choice of PDU types around the services, the invoke
  identifier that is read without decoding the service, and the round trip of the whole codec.
\<close>

datatype 't unconfirmed = InformationReport "'t variable_access" "'t access_result list" | UnconfirmedOther 't

datatype 't mms =
  MmsConfirmedRequest i64 "'t confirmed_request"
| MmsConfirmedResponse i64 "'t confirmed_response"
| MmsConfirmedError i64 "u32 option" 't
| MmsUnconfirmed "'t unconfirmed"
| MmsReject reject_pdu
| MmsCancelRequest i64
| MmsCancelResponse i64
| MmsCancelError i64 't
| MmsInitiateRequest initiate
| MmsInitiateResponse initiate
| MmsInitiateError 't
| MmsConcludeRequest
| MmsConcludeResponse
| MmsConcludeError 't
| MmsOther 't

section \<open>Decoding\<close>

definition confirmed_request_parse :: "limits \<Rightarrow> tlv \<Rightarrow> tlv mms result" where
  "confirmed_request_parse l = on_children
     (sbind (field TAG_INTEGER invoke_id_of) (\<lambda>invoke_id.
      sbind next_required (\<lambda>n.
      sbind (if tlv_tag n = TAG_SEQUENCE then next_required else sreturn n) (\<lambda>service.
      slift (rbind (request_parse l service) (\<lambda>s. Inr (MmsConfirmedRequest invoke_id s)))))))"

definition confirmed_response_parse :: "limits \<Rightarrow> tlv \<Rightarrow> tlv mms result" where
  "confirmed_response_parse l = on_children
     (sbind (field TAG_INTEGER invoke_id_of) (\<lambda>invoke_id.
      sbind next_required (\<lambda>service.
      slift (rbind (response_parse l service) (\<lambda>s. Inr (MmsConfirmedResponse invoke_id s))))))"

definition confirmed_error_parse :: "tlv \<Rightarrow> tlv mms result" where
  "confirmed_error_parse = on_children
     (sbind (field (tag_context 0) invoke_id_of) (\<lambda>invoke_id.
      sbind (opt_field (tag_context 1) unsigned_lenient_u32) (\<lambda>modifier_position.
      sbind next_required (\<lambda>error.
      sreturn (MmsConfirmedError invoke_id modifier_position error)))))"

definition information_report_parse :: "limits \<Rightarrow> tlv \<Rightarrow> tlv unconfirmed result" where
  "information_report_parse l = on_children
     (sbind next_required (\<lambda>a. sbind (slift (variable_access_parse a)) (\<lambda>access.
      sbind (field (tag_context_constructed 0) (\<lambda>t. parse_access_results t l)) (\<lambda>results.
      sreturn (InformationReport access results)))))"

definition unconfirmed_parse :: "limits \<Rightarrow> tlv \<Rightarrow> tlv mms result" where
  "unconfirmed_parse l t = rbind (first_child t) (\<lambda>service.
     if tlv_tag service = tag_context_constructed 0
     then rbind (information_report_parse l service) (\<lambda>u. Inr (MmsUnconfirmed u))
     else Inr (MmsUnconfirmed (UnconfirmedOther service)))"

definition cancel_error_parse :: "tlv \<Rightarrow> tlv mms result" where
  "cancel_error_parse = on_children
     (sbind (field (tag_context 0) invoke_id_of) (\<lambda>invoke_id.
      sbind next_required (\<lambda>error. sreturn (MmsCancelError invoke_id error))))"

definition mms_parse :: "limits \<Rightarrow> bytes \<Rightarrow> tlv mms result" where
  "mms_parse l buf = rbind (fst (next_required (cursor_new buf))) (\<lambda>top. let n = tag_number (tlv_tag top) in
     if tag_class (tlv_tag top) \<noteq> Context then Inl (Decode UnexpectedTag (tlv_offset top))
     else if n = 0 then confirmed_request_parse l top
     else if n = 1 then confirmed_response_parse l top
     else if n = 2 then confirmed_error_parse top
     else if n = 3 then unconfirmed_parse l top
     else if n = 4 then rbind (reject_parse top) (\<lambda>r. Inr (MmsReject r))
     else if n = 5 then rbind (invoke_id_of top) (\<lambda>i. Inr (MmsCancelRequest i))
     else if n = 6 then rbind (invoke_id_of top) (\<lambda>i. Inr (MmsCancelResponse i))
     else if n = 7 then cancel_error_parse top
     else if n = 8 then rbind (initiate_parse top) (\<lambda>i. Inr (MmsInitiateRequest i))
     else if n = 9 then rbind (initiate_parse top) (\<lambda>i. Inr (MmsInitiateResponse i))
     else if n = 10 then Inr (MmsInitiateError top)
     else if n = 11 then Inr MmsConcludeRequest
     else if n = 12 then Inr MmsConcludeResponse
     else if n = 13 then Inr (MmsConcludeError top)
     else Inr (MmsOther top))"

text \<open>The invoke identifier of a confirmed PDU, whatever its service is.\<close>

definition ok_of :: "'a result \<Rightarrow> 'a option" where
  "ok_of r = (case r of Inl _ \<Rightarrow> None | Inr x \<Rightarrow> Some x)"

definition peek_invoke_id :: "bytes \<Rightarrow> i64 option" where
  "peek_invoke_id buf = Option.bind (ok_of (fst (next_required (cursor_new buf)))) (\<lambda>top.
     if tag_class (tlv_tag top) \<noteq> Context \<or> tag_number (tlv_tag top) \<notin> {0, 1, 2, 5} then None
     else (case fst (cur_next (children top)) of
       Some (Inr first) \<Rightarrow> if tlv_tag first \<noteq> TAG_INTEGER \<and> tlv_tag first \<noteq> tag_context 0 then None else ok_of (integer_i64 first)
     | _ \<Rightarrow> None))"

definition mms_invoke_id :: "'t mms \<Rightarrow> i64 option" where
  "mms_invoke_id p = (case p of
     MmsConfirmedRequest i _ \<Rightarrow> Some i | MmsConfirmedResponse i _ \<Rightarrow> Some i | MmsConfirmedError i _ _ \<Rightarrow> Some i
   | MmsCancelRequest i \<Rightarrow> Some i | MmsCancelResponse i \<Rightarrow> Some i | MmsCancelError i _ \<Rightarrow> Some i
   | MmsReject r \<Rightarrow> rej_invoke r | _ \<Rightarrow> None)"

section \<open>Encoding\<close>

definition enc_cancelled :: "tag \<Rightarrow> i64 \<Rightarrow> enc" where
  "enc_cancelled t i = enc_unsigned t (if 0 \<le> sint i then i else 0)"

definition unconfirmed_write :: "raw unconfirmed \<Rightarrow> enc" where
  "unconfirmed_write u = (case u of
     InformationReport access results \<Rightarrow> constructed (tag_context_constructed 0)
       (sbind (variable_access_write access) (\<lambda>_. write_access_results results (tag_context_constructed 0)))
   | UnconfirmedOther t \<Rightarrow> raw_write t)"

definition mms_write :: "raw mms \<Rightarrow> enc" where
  "mms_write p = (case p of
     MmsConfirmedRequest i s \<Rightarrow> constructed (tag_context_constructed 0) (sbind (enc_integer TAG_INTEGER i) (\<lambda>_. request_write s))
   | MmsConfirmedResponse i s \<Rightarrow> constructed (tag_context_constructed 1) (sbind (enc_integer TAG_INTEGER i) (\<lambda>_. response_write s))
   | MmsConfirmedError i m e \<Rightarrow> constructed (tag_context_constructed 2) (sbind (enc_integer (tag_context 0) i) (\<lambda>_.
       sbind (enc_opt (\<lambda>p. enc_unsigned (tag_context 1) (ucast p)) m) (\<lambda>_. raw_write e)))
   | MmsUnconfirmed u \<Rightarrow> constructed (tag_context_constructed 3) (unconfirmed_write u)
   | MmsCancelRequest i \<Rightarrow> enc_cancelled (tag_context 5) i
   | MmsCancelResponse i \<Rightarrow> enc_cancelled (tag_context 6) i
   | MmsCancelError i e \<Rightarrow> constructed (tag_context_constructed 7) (sbind (enc_cancelled (tag_context 0) i) (\<lambda>_. raw_write e))
   | MmsInitiateRequest i \<Rightarrow> initiate_write i (tag_context_constructed 8)
   | MmsInitiateResponse i \<Rightarrow> initiate_write i (tag_context_constructed 9)
   | MmsConcludeRequest \<Rightarrow> primitive (tag_context 11) []
   | MmsConcludeResponse \<Rightarrow> primitive (tag_context 12) []
   | MmsReject r \<Rightarrow> reject_write r
   | MmsInitiateError t \<Rightarrow> raw_write t | MmsConcludeError t \<Rightarrow> raw_write t | MmsOther t \<Rightarrow> raw_write t)"

definition mms_to_vec :: "raw mms \<Rightarrow> bytes result" where
  "mms_to_vec p = (case mms_write p [] of (Inl e, _) \<Rightarrow> Inl e | (Inr _, bs) \<Rightarrow> Inr bs)"

section \<open>The round trip\<close>

fun unconfirmed_octets :: "raw unconfirmed \<Rightarrow> bytes" where
  "unconfirmed_octets (InformationReport a rs) = element (tag_context_constructed 0)
     (element (va_tag a) (va_contents a) @ element (tag_context_constructed 0) (ar_list_octets rs))"
| "unconfirmed_octets (UnconfirmedOther r) = raw_octets r"

fun mms_tag :: "raw mms \<Rightarrow> tag" where
  "mms_tag (MmsConfirmedRequest _ _) = tag_context_constructed 0"
| "mms_tag (MmsConfirmedResponse _ _) = tag_context_constructed 1"
| "mms_tag (MmsConfirmedError _ _ _) = tag_context_constructed 2"
| "mms_tag (MmsUnconfirmed _) = tag_context_constructed 3"
| "mms_tag (MmsReject _) = tag_context_constructed 4"
| "mms_tag (MmsCancelRequest _) = tag_context 5"
| "mms_tag (MmsCancelResponse _) = tag_context 6"
| "mms_tag (MmsCancelError _ _) = tag_context_constructed 7"
| "mms_tag (MmsInitiateRequest _) = tag_context_constructed 8"
| "mms_tag (MmsInitiateResponse _) = tag_context_constructed 9"
| "mms_tag (MmsInitiateError r) = fst r"
| "mms_tag MmsConcludeRequest = tag_context 11"
| "mms_tag MmsConcludeResponse = tag_context 12"
| "mms_tag (MmsConcludeError r) = fst r"
| "mms_tag (MmsOther r) = fst r"

fun mms_contents :: "raw mms \<Rightarrow> bytes" where
  "mms_contents (MmsConfirmedRequest i s) = element TAG_INTEGER (integer_octets i) @ element (request_tag s) (request_contents s)"
| "mms_contents (MmsConfirmedResponse i s) = element TAG_INTEGER (integer_octets i) @ element (response_tag s) (response_contents s)"
| "mms_contents (MmsConfirmedError i m e) = element (tag_context 0) (integer_octets i) @
     opt_element (tag_context 1) (\<lambda>p. unsigned_octets (ucast p)) m @ raw_octets e"
| "mms_contents (MmsUnconfirmed u) = unconfirmed_octets u"
| "mms_contents (MmsReject r) = reject_contents r"
| "mms_contents (MmsCancelRequest i) = unsigned_octets i"
| "mms_contents (MmsCancelResponse i) = unsigned_octets i"
| "mms_contents (MmsCancelError i e) = element (tag_context 0) (unsigned_octets i) @ raw_octets e"
| "mms_contents (MmsInitiateRequest i) = initiate_contents i"
| "mms_contents (MmsInitiateResponse i) = initiate_contents i"
| "mms_contents (MmsInitiateError r) = snd r"
| "mms_contents MmsConcludeRequest = []"
| "mms_contents MmsConcludeResponse = []"
| "mms_contents (MmsConcludeError r) = snd r"
| "mms_contents (MmsOther r) = snd r"

fun mms_parts_ok :: "limits \<Rightarrow> raw mms \<Rightarrow> bool" where
  "mms_parts_ok l (MmsConfirmedRequest i s) \<longleftrightarrow> in_u32 i \<and> request_ok l s"
| "mms_parts_ok l (MmsConfirmedResponse i s) \<longleftrightarrow> in_u32 i \<and> response_ok l s"
| "mms_parts_ok l (MmsConfirmedError i m e) \<longleftrightarrow> in_u32 i \<and> (m = None \<longrightarrow> fst e \<noteq> tag_context 1)"
| "mms_parts_ok l (MmsUnconfirmed (InformationReport a rs)) \<longleftrightarrow> va_ok a \<and> ar_list_ok l rs"
| "mms_parts_ok l (MmsUnconfirmed (UnconfirmedOther r)) \<longleftrightarrow> fst r \<noteq> tag_context_constructed 0"
| "mms_parts_ok l (MmsReject r) \<longleftrightarrow> reject_ok r"
| "mms_parts_ok l (MmsCancelRequest i) \<longleftrightarrow> in_u32 i"
| "mms_parts_ok l (MmsCancelResponse i) \<longleftrightarrow> in_u32 i"
| "mms_parts_ok l (MmsCancelError i e) \<longleftrightarrow> in_u32 i"
| "mms_parts_ok l (MmsInitiateRequest i) \<longleftrightarrow> initiate_ok i"
| "mms_parts_ok l (MmsInitiateResponse i) \<longleftrightarrow> initiate_ok i"
| "mms_parts_ok l (MmsInitiateError r) \<longleftrightarrow> tag_class (fst r) = Context \<and> tag_number (fst r) = 10"
| "mms_parts_ok l MmsConcludeRequest \<longleftrightarrow> True"
| "mms_parts_ok l MmsConcludeResponse \<longleftrightarrow> True"
| "mms_parts_ok l (MmsConcludeError r) \<longleftrightarrow> tag_class (fst r) = Context \<and> tag_number (fst r) = 13"
| "mms_parts_ok l (MmsOther r) \<longleftrightarrow> tag_class (fst r) = Context \<and> 13 < tag_number (fst r)"

definition mms_ok :: "limits \<Rightarrow> raw mms \<Rightarrow> bool" where
  "mms_ok l p \<longleftrightarrow> mms_parts_ok l p \<and> fits (mms_contents p)"

fun mms_read_as :: "raw mms \<Rightarrow> raw mms" where
  "mms_read_as (MmsConfirmedResponse i s) = MmsConfirmedResponse i (response_read_as s)"
| "mms_read_as p = p"

lemma request_tag_class: "request_ok l s \<Longrightarrow> tag_class (request_tag s) = Context"
  by (cases s) (simp_all add: request_ok_def)

lemma mms_tag_class: "mms_ok l p \<Longrightarrow> tag_class (mms_tag p) = Context"
  by (cases p) (simp_all add: mms_ok_def)

lemma emits_cancelled: "in_u32 i \<Longrightarrow> emits (enc_cancelled t i) (element t (unsigned_octets i))"
  by (simp add: enc_cancelled_def in_u32_def unsigned_field.put_emits)

lemma mms_emits:
  assumes "mms_ok l p"
  shows "emits (mms_write p) (element (mms_tag p) (mms_contents p))"
proof -
  have f: "fits (mms_contents p)" and ok: "mms_parts_ok l p" using assms by (simp_all add: mms_ok_def)
  note emit = emits_bind emits_element integer_field.put_emits octets_field.put_emits unsigned_field.put_emits
    request_emits response_emits va_emits ar_list_emits emits_cancelled reject_emits initiate_emits raw_emits emits_enc_opt
  show ?thesis
  proof (cases p)
    case (MmsUnconfirmed u)
    have "emits (unconfirmed_write u) (unconfirmed_octets u)"
    proof (cases u)
      case (InformationReport a rs)
      have "fits (element (va_tag a) (va_contents a) @ element (tag_context_constructed 0) (ar_list_octets rs))"
        using f unfolding MmsUnconfirmed InformationReport mms_contents.simps unconfirmed_octets.simps by (rule fits_element)
      then show ?thesis
        using ok unfolding MmsUnconfirmed InformationReport unconfirmed_write_def unconfirmed.case unconfirmed_octets.simps mms_parts_ok.simps
        by (intro emit) auto
    next
      case (UnconfirmedOther r)
      then show ?thesis using f fits_raw [of r] by (auto simp: MmsUnconfirmed unconfirmed_write_def intro: raw_emits)
    qed
    then show ?thesis using f by (auto simp: MmsUnconfirmed mms_write_def intro!: emits_element)
  next
    case (MmsConfirmedError i m e)
    have "fits (snd e)" using f unfolding MmsConfirmedError mms_contents.simps by (auto simp only: dest!: fits_append dest: fits_raw)
    then show ?thesis
      using f unfolding MmsConfirmedError mms_write_def mms.case mms_tag.simps mms_contents.simps by (intro emit TrueI) auto
  next
    case (MmsCancelError i e)
    have "fits (snd e)" using f unfolding MmsCancelError mms_contents.simps by (auto simp only: dest!: fits_append dest: fits_raw)
    then show ?thesis
      using f ok unfolding MmsCancelError mms_write_def mms.case mms_tag.simps mms_contents.simps by (intro emit TrueI) auto
  qed (use f ok in \<open>auto simp: mms_write_def raw_write_def intro!: emit\<close>)
qed

lemma mms_read:
  assumes "mms_ok l p"
  shows "\<exists>q. mms_parse l (element (mms_tag p) (mms_contents p) @ rest) = Inr q \<and> map_mms raw_of q = mms_read_as p"
proof -
  have f: "fits (mms_contents p)" and ok: "mms_parts_ok l p" using assms by (simp_all add: mms_ok_def)
  note start = mms_parse_def cur_at_start Let_def
  note read = on_children_mk sbind_def sreturn_def slift_def in_u32_read
  show ?thesis
  proof (cases p)
    case (MmsConfirmedRequest i s)
    obtain q where q: "\<And>off. request_parse l (mk_tlv (request_tag s) (request_contents s) off) = Inr (q off)"
      "\<And>off. map_confirmed_request raw_of (q off) = s"
      using reads_as_obtain [OF request_read [of l s]] ok MmsConfirmedRequest by auto
    have "request_tag s \<noteq> TAG_SEQUENCE" "fits (request_contents s)"
      using request_tag_class [of l s] ok by (auto simp: MmsConfirmedRequest TAG_SEQUENCE_def tag_universal_def request_ok_def)
    then show ?thesis using f ok by (simp add: MmsConfirmedRequest start confirmed_request_parse_def read q)
  next
    case (MmsConfirmedResponse i s)
    obtain q where q: "\<And>off. response_parse l (mk_tlv (response_tag s) (response_contents s) off) = Inr (q off)"
      "\<And>off. map_confirmed_response raw_of (q off) = response_read_as s"
      using reads_as_obtain [OF response_read [of l s]] ok MmsConfirmedResponse by auto
    have "fits (response_contents s)" using ok by (simp add: MmsConfirmedResponse response_ok_def)
    then show ?thesis using f ok by (simp add: MmsConfirmedResponse start confirmed_response_parse_def read q)
  next
    case (MmsConfirmedError i m e)
    have "fits (snd e)" using f unfolding MmsConfirmedError mms_contents.simps by (auto simp only: dest!: fits_append dest: fits_raw)
    then show ?thesis
      using f ok by (cases m) (simp_all add: MmsConfirmedError start confirmed_error_parse_def read raw_octets_def lenient_u32_field.get_mk_tlv)
  next
    case (MmsUnconfirmed u)
    show ?thesis
    proof (cases u)
      case (InformationReport a rs)
      obtain q where q: "\<And>off. variable_access_parse (mk_tlv (va_tag a) (va_contents a) off) = Inr (q off)"
        "\<And>off. map_variable_access raw_of (q off) = a" using va_read_obtain [of a] ok MmsUnconfirmed InformationReport by auto
      obtain v where v: "\<And>off. parse_access_results (mk_tlv (tag_context_constructed 0) (ar_list_octets rs) off) l = Inr (v off)"
        "\<And>off. map (map_access_result raw_of) (v off) = rs"
        using reads_as_obtain [OF ar_list_read [of l rs "tag_context_constructed 0"]] ok MmsUnconfirmed InformationReport by auto
      have g: "fits (element (va_tag a) (va_contents a) @ element (tag_context_constructed 0) (ar_list_octets rs))"
        using f unfolding MmsUnconfirmed InformationReport mms_contents.simps unconfirmed_octets.simps by (rule fits_element)
      then have "fits (va_contents a)" "fits (ar_list_octets rs)" by (auto simp only: dest!: fits_append dest: fits_element)
      then show ?thesis
        using f g by (simp add: MmsUnconfirmed InformationReport start unconfirmed_parse_def information_report_parse_def read q v)
    next
      case (UnconfirmedOther r)
      have "fits (snd r)" using f fits_raw [of r] by (simp add: MmsUnconfirmed UnconfirmedOther)
      then show ?thesis using f ok by (simp add: MmsUnconfirmed UnconfirmedOther start unconfirmed_parse_def raw_octets_def)
    qed
  next
    case (MmsCancelError i e)
    have "fits (snd e)" using f unfolding MmsCancelError mms_contents.simps by (auto simp only: dest!: fits_append dest: fits_raw)
    then show ?thesis using f ok by (simp add: MmsCancelError start cancel_error_parse_def read raw_octets_def)
  next
    case (MmsOther r)
    then have "tag_number (fst r) \<notin> {0, 1, 2, 3, 4, 5, 6, 7, 8, 9, 10, 11, 12, 13}" using ok by auto
    then show ?thesis using f ok by (simp add: MmsOther start)
  qed (use f ok in \<open>simp_all add: start reject_read initiate_read read\<close>)
qed

lemma mms_round:
  assumes "mms_ok l p"
  shows "\<exists>bs. mms_to_vec p = Inr bs \<and> (\<forall>rest. \<exists>q. mms_parse l (bs @ rest) = Inr q \<and> map_mms raw_of q = mms_read_as p)"
  using emitsD [OF mms_emits [OF assms], of "[]"] mms_read [OF assms] by (simp add: mms_to_vec_def)

section \<open>The invoke identifier\<close>

lemma sbind_fst_InrD: "fst (sbind m f c) = Inr r \<Longrightarrow> \<exists>x c'. m c = (Inr x, c') \<and> fst (f x c') = Inr r"
  by (auto simp: sbind_def split: prod.splits sum.splits)

lemma field_first:
  "fst (sbind (field t get) f c) = Inr r \<Longrightarrow>
    \<exists>y x. fst (cur_next c) = Some (Inr y) \<and> tlv_tag y = t \<and> get y = Inr x \<and> fst (f x (snd (cur_next c))) = Inr r"
  by (auto simp: sbind_def field_def next_tag_def next_required_def expect_def slift_def split: prod.splits sum.splits option.splits if_splits)

lemma invoke_id_of_integer: "invoke_id_of t = Inr i \<Longrightarrow> integer_i64 t = Inr i"
  by (auto simp: invoke_id_of_def rbind_Inr_iff split: if_splits)

text \<open>Whatever reads as a confirmed PDU is attributed to the request it names; and so is one whose service does not read.\<close>

lemma peek_confirmed:
  assumes "mms_parse l buf = Inr p" "(\<exists>i s. p = MmsConfirmedRequest i s) \<or> (\<exists>i s. p = MmsConfirmedResponse i s) \<or> (\<exists>i m e. p = MmsConfirmedError i m e)"
  shows "peek_invoke_id buf = mms_invoke_id p"
proof -
  obtain top where top: "fst (next_required (cursor_new buf)) = Inr top" "tag_class (tlv_tag top) = Context"
    "(tag_number (tlv_tag top) = 0 \<and> confirmed_request_parse l top = Inr p) \<or> (tag_number (tlv_tag top) = 1 \<and> confirmed_response_parse l top = Inr p)
      \<or> (tag_number (tlv_tag top) = 2 \<and> confirmed_error_parse top = Inr p)"
    using assms by (auto simp: mms_parse_def rbind_Inr_iff Let_def unconfirmed_parse_def cancel_error_parse_def on_children_def sbind_def
        sreturn_def split: if_splits prod.splits sum.splits)
  have "\<exists>first i. fst (cur_next (children top)) = Some (Inr first) \<and> (tlv_tag first = TAG_INTEGER \<or> tlv_tag first = tag_context 0) \<and>
      integer_i64 first = Inr i \<and> mms_invoke_id p = Some i"
    using top(3)
  proof (elim disjE conjE)
    assume "confirmed_request_parse l top = Inr p"
    from field_first [OF this [unfolded confirmed_request_parse_def on_children_def]] show ?thesis
      by (auto simp: sreturn_def slift_def rbind_Inr_iff mms_invoke_id_def dest!: sbind_fst_InrD invoke_id_of_integer)
  next
    assume "confirmed_response_parse l top = Inr p"
    from field_first [OF this [unfolded confirmed_response_parse_def on_children_def]] show ?thesis
      by (auto simp: sreturn_def slift_def rbind_Inr_iff mms_invoke_id_def dest!: sbind_fst_InrD invoke_id_of_integer)
  next
    assume "confirmed_error_parse top = Inr p"
    from field_first [OF this [unfolded confirmed_error_parse_def on_children_def]] show ?thesis
      by (auto simp: sreturn_def slift_def rbind_Inr_iff mms_invoke_id_def dest!: sbind_fst_InrD invoke_id_of_integer)
  qed
  then show ?thesis using top by (auto simp: peek_invoke_id_def ok_of_def)
qed

lemma peek_any_service:
  assumes "n \<in> {0, 1, 2}" "t \<in> {TAG_INTEGER, tag_context 0}" "fits (element t (integer_octets i) @ service)"
  shows "peek_invoke_id (element (tag_context_constructed n) (element t (integer_octets i) @ service) @ rest) = Some i"
  using assms by (auto simp: peek_invoke_id_def cur_at_start ok_of_def integer_field.get_mk_tlv)

text \<open>The rejection of a withdrawal carries the identifier in the same place and is not looked at.\<close>

lemma peek_cancel_error: "fits c \<Longrightarrow> peek_invoke_id (element (tag_context_constructed 7) c @ rest) = None"
  by (simp add: peek_invoke_id_def cur_at_start ok_of_def)

section \<open>Every PDU is read as it was written\<close>

text \<open>
  C9: an MMS PDU is read as it was written. Every request, response, error, report, reject, cancel and initiate
  whose parts are in the ranges of their types and the counts in the decoder's limits is written, and the octets, whatever
  follows them, parse to the same PDU, elements compared by tag and contents. The one field the decoder puts
  a value into is the originating application of a journal entry written without one.
\<close>

theorem mms_pdu_roundtrip:
  assumes "mms_ok l p"
  shows "\<exists>bs. mms_to_vec p = Inr bs \<and> (\<forall>rest. \<exists>q. mms_parse l (bs @ rest) = Inr q \<and> map_mms raw_of q = mms_read_as p)"
  by (rule mms_round [OF assms])

lemma short_write_ok:
  assumes "r = (tag_context 3, [255 :: u8])" "n = VmdSpecific ''abc''"
  shows "mms_ok default_limits (MmsConfirmedRequest 7 (RqWrite (VariableListName n) [r]))"
proof -
  have "ascii_str ''abc''" by code_simp
  then have n: "object_name_ok n" by (simp add: assms(2))
  have "is_data (tag_context 3, [255 :: u8])" by code_simp
  then have r: "is_data r" by (simp add: assms(1))
  have b: "length (object_name_octets n) \<le> 14"
    using element_bound [of "as_bytes ''abc''" 3 "tag_context 0"] by (simp add: assms(2))
  have a: "length (element (tag_context_constructed 1) (object_name_octets n)) \<le> 25"
    using length_element_le [of "tag_context_constructed 1" "object_name_octets n"] b by linarith
  have w: "length (items_octets fst snd [r]) \<le> 12"
    using length_element_le [of "tag_context 3" "[255 :: u8]"] by (simp add: assms(1) items_octets_def)
  have c: "length (request_contents (RqWrite (VariableListName n) [r])) \<le> 48"
    using a w length_element_le [of "tag_context_constructed 0" "items_octets fst snd [r]"]
    by (simp del: object_name_tag.simps object_name_contents.simps)
  have i: "length (element TAG_INTEGER (integer_octets 7)) \<le> 19"
    using length_element_le [of TAG_INTEGER "integer_octets 7"] integer_octets_length(2) [of 7] by linarith
  have "length (mms_contents (MmsConfirmedRequest 7 (RqWrite (VariableListName n) [r]))) \<le> 100"
    using i c length_element_le [of "request_tag (RqWrite (VariableListName n) [r])" "request_contents (RqWrite (VariableListName n) [r])"]
    by (simp del: object_name_tag.simps object_name_contents.simps request_contents.simps request_tag.simps)
  then show ?thesis
    using n r b c by (simp add: mms_ok_def request_ok_def default_limits_def in_u32_def
      del: object_name_ok.simps object_name_tag.simps object_name_contents.simps request_contents.simps mms_contents.simps)
qed

theorem mms_pdu_roundtrip_witness:
  "\<exists>bs. mms_to_vec (MmsConfirmedRequest 7 (RqWrite (VariableListName (VmdSpecific ''abc'')) [(tag_context 3, [255 :: u8])])) = Inr bs \<and>
     (\<exists>q. mms_parse default_limits bs = Inr q \<and>
       map_mms raw_of q = MmsConfirmedRequest 7 (RqWrite (VariableListName (VmdSpecific ''abc'')) [(tag_context 3, [255])]))"
  using mms_pdu_roundtrip [OF short_write_ok [OF refl refl]] by (metis append_Nil2 mms_read_as.simps(2))

end
