(* ===== verification/Segments.thy ===== *)
theory Segments
  imports Report Mms_Pdu
begin

text \<open>
  Reports on the wire (\<open>encode\<close>, \<open>segment\<close> and \<open>segments\<close> of \<open>src/server/rcb.rs\<close>): a report as the
  information report that carries it, and a report that does not fit the peer's PDU cut into segments by
  bisection. The facts: each segment but a single member fits, and the client's assembler makes of the
  segments the report that was cut.
\<close>

definition MIN_SEGMENT_BUDGET :: usize where "MIN_SEGMENT_BUDGET = 512"
definition REPORT_LIST_NAME :: string where "REPORT_LIST_NAME = ''RPT''"

text \<open>\<open>collect::<Result<_>>\<close>: every result, or the first error.\<close>

fun collect_ok :: "('a \<Rightarrow> 'b result) \<Rightarrow> 'a list \<Rightarrow> 'b list result" where
  "collect_ok f [] = Inr []"
| "collect_ok f (x # xs) = rbind (f x) (\<lambda>y. rbind (collect_ok f xs) (\<lambda>ys. Inr (y # ys)))"

definition report_encode :: "report \<Rightarrow> bytes result" where
  "report_encode r = rbind (report_to_values r) (\<lambda>vs.
     rbind (collect_ok (\<lambda>v. encode_all [v]) vs) (\<lambda>encoded.
     rbind (collect_ok (\<lambda>bs. rbind (fst (next_required (cursor_new bs))) (\<lambda>t. Inr (AccessSuccess (raw_of t)))) encoded) (\<lambda>results.
     mms_to_vec (MmsUnconfirmed (InformationReport (VariableListName (VmdSpecific REPORT_LIST_NAME)) results)))))"

definition segment :: "report \<Rightarrow> usize \<Rightarrow> usize \<Rightarrow> u32 \<Rightarrow> bool \<Rightarrow> report" where
  "segment r start count sub more' =
     (let entries = default_to [] (slice (rpt_entries r) start (start + count))
      in r\<lparr>rpt_opt_flds := with_segmentation (rpt_opt_flds r) True, rpt_sub_seq_num := Some sub, rpt_more_segments_follow := more',
           rpt_inclusion := inclusion_for (inclusion_len (fst (rpt_inclusion r)) (snd (rpt_inclusion r))) (map rpe_index entries),
           rpt_entries := entries\<rparr>)"

definition unwrap_default :: "bytes result \<Rightarrow> bytes" where
  "unwrap_default r = (case r of Inl _ \<Rightarrow> [] | Inr bs \<Rightarrow> bs)"

function bisect :: "report \<Rightarrow> usize \<Rightarrow> usize \<Rightarrow> u32 \<Rightarrow> usize \<Rightarrow> usize \<Rightarrow> bytes \<Rightarrow> usize \<times> bytes" where
  "bisect r budget start sub lo hi best =
     (if lo + 1 < hi then
        (let mid = lo + (hi - lo) div 2
         in case report_encode (segment r start mid sub (start + mid < length (rpt_entries r))) of
              Inr bs \<Rightarrow> if length bs \<le> budget then bisect r budget start sub mid hi bs else bisect r budget start sub lo mid best
            | Inl _ \<Rightarrow> bisect r budget start sub lo mid best)
      else (lo, best))"
  by pat_completeness auto
termination bisect by (relation "measure (\<lambda>(_, _, _, _, lo, hi, _). hi - lo)") auto

declare bisect.simps [simp del]

lemma bisect_lo: "lo \<le> fst (bisect r budget start sub lo hi best)"
proof (induction r budget start sub lo hi best rule: bisect.induct)
  case (1 r budget start sub lo hi best)
  show ?case
  proof (cases "lo + 1 < hi")
    case True
    let ?mid = "lo + (hi - lo) div 2"
    have m: "lo \<le> ?mid" by simp
    show ?thesis
      using True 1 [OF True refl] le_trans [OF m]
      by (subst bisect.simps) (auto simp: Let_def split: sum.split)
  qed (simp add: bisect.simps)
qed

function segments_from :: "report \<Rightarrow> usize \<Rightarrow> usize \<Rightarrow> u32 \<Rightarrow> bytes list" where
  "segments_from r budget start sub =
     (if start < length (rpt_entries r) then
        (let remaining = length (rpt_entries r) - start;
             best = unwrap_default (report_encode (segment r start 1 sub (remaining > 1)));
             (lo, best) = bisect r budget start sub 1 (remaining + 1) best
         in if best = [] then [] else best # segments_from r budget (start + lo) (sub + 1))
      else [])"
  by pat_completeness auto
termination segments_from
proof (relation "measure (\<lambda>(r, _, start, _). length (rpt_entries r) - start)", goal_cases)
  case (2 r budget start sub remaining best x lo best')
  have "1 \<le> fst (bisect r budget start sub 1 (remaining + 1) best)" by (rule bisect_lo)
  then have "1 \<le> lo" using 2(4,5) by (metis fst_conv)
  then show ?case using 2(1) by simp
qed simp

declare segments_from.simps [simp del]

definition segments :: "report \<Rightarrow> usize \<Rightarrow> bytes list" where
  "segments r budget = (case report_encode r of
     Inr whole \<Rightarrow> if length whole \<le> budget then [whole] else if rpt_entries r = [] then [] else segments_from r budget 0 0
   | Inl _ \<Rightarrow> if rpt_entries r = [] then [] else segments_from r budget 0 0)"

section \<open>A report on the wire\<close>

text \<open>What the client makes of a PDU that carries a report.\<close>

definition receive_report :: "limits \<Rightarrow> bytes \<Rightarrow> report result" where
  "receive_report l bs = rbind (mms_parse l bs) (\<lambda>p. case p of
     MmsUnconfirmed (InformationReport _ results) \<Rightarrow> report_parse results l
   | _ \<Rightarrow> Inl (InvalidValue ''not an information report''))"

definition report_message :: "report \<Rightarrow> raw mms" where
  "report_message r = MmsUnconfirmed (InformationReport (VariableListName (VmdSpecific REPORT_LIST_NAME))
     (map (\<lambda>v. AccessSuccess (value_tag v, value_contents v)) (report_values r)))"

definition report_pdu :: "report \<Rightarrow> bytes" where
  "report_pdu r = element (mms_tag (report_message r)) (mms_contents (report_message r))"

definition report_size :: "report \<Rightarrow> nat" where
  "report_size r = length (values_octets (report_values r))"

definition sendable :: "limits \<Rightarrow> report \<Rightarrow> bool" where
  "sendable l r \<longleftrightarrow> report_wf r \<and> length (report_values r) \<le> max_dataset_members l \<and>
     (\<forall>v \<in> set (report_values r). value_ok l 0 v \<and> value_tag v \<noteq> tag_context 0) \<and> report_size r < 4294967000"

lemma collect_ok_map: "(\<And>x. x \<in> set xs \<Longrightarrow> f x = Inr (g x)) \<Longrightarrow> collect_ok f xs = Inr (map g xs)"
  by (induction xs) auto

lemma collect_ok_maps: "(\<And>x. x \<in> set xs \<Longrightarrow> f (h x) = Inr (g x)) \<Longrightarrow> collect_ok f (map h xs) = Inr (map g xs)"
  by (induction xs) auto

lemma ar_list_values: "ar_list_octets (map (\<lambda>v. AccessSuccess (value_tag v, value_contents v)) vs) = values_octets vs"
  by (simp add: items_octets_def o_def)

lemma message_ok:
  assumes "sendable l r"
  shows "mms_ok l (report_message r)"
proof -
  let ?n = "VmdSpecific REPORT_LIST_NAME" and ?vs = "report_values r"
  have "ascii_str REPORT_LIST_NAME" by code_simp
  then have n: "object_name_ok ?n" by (simp add: REPORT_LIST_NAME_def)
  have name: "length (object_name_octets ?n) \<le> 14"
    using element_bound [of "as_bytes REPORT_LIST_NAME" 3 "tag_context 0"] by (simp add: REPORT_LIST_NAME_def)
  have data: "is_data (value_tag v, value_contents v)" if "v \<in> set ?vs" for v
    using assms that value_decodes [of l 0 v]
    by (fastforce simp: sendable_def is_data_def decodes_def rbind_Inr_iff dest: spec [of _ "mk_tlv (value_tag v) (value_contents v) 0"])
  have size: "length (ar_list_octets (map (\<lambda>v. AccessSuccess (value_tag v, value_contents v)) ?vs)) < 4294967000"
    using assms by (simp only: ar_list_values) (simp add: sendable_def report_size_def)
  have a: "ar_list_ok l (map (\<lambda>v. AccessSuccess (value_tag v, value_contents v)) ?vs)"
    using assms data size by (auto simp: ar_list_ok_def sendable_def list_all_iff)
  have "length (mms_contents (report_message r)) \<le>
      25 + (length (ar_list_octets (map (\<lambda>v. AccessSuccess (value_tag v, value_contents v)) ?vs)) + 11) + 11"
    unfolding report_message_def mms_contents.simps unconfirmed_octets.simps va_tag.simps va_contents.simps
    by (rule order_trans [OF length_element_le])
      (use length_element_le [of "tag_context_constructed 1" "object_name_octets ?n"] name
         length_element_le [of "tag_context_constructed 0" "ar_list_octets (map (\<lambda>v. AccessSuccess (value_tag v, value_contents v)) ?vs)"]
       in \<open>simp add: del: object_name_tag.simps object_name_contents.simps\<close>)
  then have "fits (mms_contents (report_message r))" using size by linarith
  then show ?thesis using n name a by (simp add: mms_ok_def report_message_def)
qed

lemma encode_one: "value_ok l 0 v \<Longrightarrow> encode_all [v] = Inr (value_octets v)"
  using emits_value(2) [of "[v]" l 0] by (simp add: encode_all_def emits_def)

lemma report_encode_ok:
  assumes "sendable l r"
  shows "report_encode r = Inr (report_pdu r)"
proof -
  let ?vs = "report_values r"
  have ok: "\<And>v. v \<in> set ?vs \<Longrightarrow> value_ok l 0 v" using assms by (simp add: sendable_def)
  have e: "collect_ok (\<lambda>v. encode_all [v]) ?vs = Inr (map value_octets ?vs)"
    by (rule collect_ok_map) (rule encode_one [OF ok])
  have "collect_ok (\<lambda>bs. rbind (fst (next_required (cursor_new bs))) (\<lambda>t. Inr (AccessSuccess (raw_of t)))) (map value_octets ?vs) =
      Inr (map (\<lambda>v. AccessSuccess (value_tag v, value_contents v)) ?vs)"
    by (rule collect_ok_maps) (use value_ok_fits [OF ok] in \<open>simp add: cur_at_start\<close>)
  moreover have "mms_to_vec (report_message r) = Inr (report_pdu r)"
    using emitsD [OF mms_emits [OF message_ok [OF assms]], of "[]"] by (simp add: mms_to_vec_def report_pdu_def)
  ultimately show ?thesis
    using report_wf_written [of r] assms e by (simp add: report_encode_def sendable_def report_message_def)
qed

lemma access_values_read:
  assumes "map (map_access_result raw_of) rs = map (\<lambda>v. AccessSuccess (value_tag v, value_contents v)) vs" "\<And>v. v \<in> set vs \<Longrightarrow> value_ok l 0 v"
  shows "access_values rs l = Inr vs"
  using assms
proof (induction rs arbitrary: vs)
  case (Cons x rs)
  obtain v us where vs: "vs = v # us" using Cons.prems(1) by (cases vs) auto
  then obtain t where x: "x = AccessSuccess t" "tlv_tag t = value_tag v" "tlv_value t = value_contents v"
    using Cons.prems(1) by (cases x) (auto simp: raw_of_def)
  have "rbind (from_tlv t) (\<lambda>y. to_owned l y) = Inr v"
    using value_decodes [of l 0 v] x Cons.prems(2) vs by (simp add: decodes_def to_owned_def)
  then show ?case using Cons.IH [of us] Cons.prems x(1) vs by (auto simp: rbind_Inr_iff)
qed simp

lemma receive_pdu:
  assumes "sendable l r"
  shows "receive_report l (report_pdu r) = Inr r"
proof -
  obtain q where q: "mms_parse l (report_pdu r) = Inr q" "map_mms raw_of q = report_message r"
    using mms_read [OF message_ok [OF assms], of "[]"] by (auto simp: report_pdu_def report_message_def)
  then obtain a rs where rs: "q = MmsUnconfirmed (InformationReport a rs)"
    "map (map_access_result raw_of) rs = map (\<lambda>v. AccessSuccess (value_tag v, value_contents v)) (report_values r)"
  proof (cases q)
    case (MmsUnconfirmed u)
    then show thesis using q(2) that by (cases u) (simp_all add: report_message_def)
  qed (use q(2) in \<open>simp_all add: report_message_def\<close>)
  then show ?thesis
    using access_values_read [OF rs(2), of l] assms q(1) report_wf_read [of r]
    by (auto simp: receive_report_def report_parse_def sendable_def)
qed

section \<open>The segments of a report\<close>

text \<open>
  A report that can be cut: no segmentation of its own, its members in the order of the data set, and
  room for the two values a segment adds.
\<close>

definition cuttable :: "limits \<Rightarrow> report \<Rightarrow> bool" where
  "cuttable l r \<longleftrightarrow> sendable l r \<and> \<not> opt_segmentation (rpt_opt_flds r) \<and>
     rpt_inclusion r = inclusion_for (data_set_len r) (map rpe_index (rpt_entries r)) \<and>
     sorted_wrt (<) (map rpe_index (rpt_entries r)) \<and> (\<forall>e \<in> set (rpt_entries r). rpe_index e < data_set_len r) \<and>
     length (report_values r) + 2 \<le> max_dataset_members l \<and> report_size r + 64 < 4294967000"

lemma segment_at:
  assumes "start + count \<le> length (rpt_entries r)"
  shows "segment r start count sub m = r\<lparr>rpt_opt_flds := with_segmentation (rpt_opt_flds r) True, rpt_sub_seq_num := Some sub,
    rpt_more_segments_follow := m,
    rpt_inclusion := inclusion_for (data_set_len r) (map rpe_index (take count (drop start (rpt_entries r)))),
    rpt_entries := take count (drop start (rpt_entries r))\<rparr>"
  using assms by (simp add: segment_def slice_def default_to_def data_set_len_def Let_def)

lemma opt_with_segmentation:
  "opt_segmentation (with_segmentation v True)" "opt_sequence_number (with_segmentation v True) = opt_sequence_number v"
  "opt_report_time_stamp (with_segmentation v True) = opt_report_time_stamp v" "opt_data_set_name (with_segmentation v True) = opt_data_set_name v"
  "opt_buffer_overflow (with_segmentation v True) = opt_buffer_overflow v" "opt_entry_id (with_segmentation v True) = opt_entry_id v"
  "opt_conf_revision (with_segmentation v True) = opt_conf_revision v" "opt_data_reference (with_segmentation v True) = opt_data_reference v"
  "opt_reason_for_inclusion (with_segmentation v True) = opt_reason_for_inclusion v"
  "bit (with_segmentation v True) k \<longleftrightarrow> bit v k \<or> k = 9"
proof -
  show "bit (with_segmentation v True) k \<longleftrightarrow> bit v k \<or> k = 9"
    by (simp add: with_segmentation_def opt_set_get flip: opt_get_iff)
qed (simp_all add: opt_segmentation_def opt_sequence_number_def opt_report_time_stamp_def opt_data_set_name_def
  opt_buffer_overflow_def opt_entry_id_def opt_conf_revision_def opt_data_reference_def opt_reason_for_inclusion_def
  with_segmentation_def opt_set_get)

lemma opt_value_shape: "\<exists>b. opt_flds_to_value v = BitString 6 b \<and> length b = 2"
  using opt_to_bit_string_octets [of 10 2 v]
  by (simp add: opt_flds_to_value_def opt_flds_to_bit_string_def opt_to_bit_string_def OPT_FLDS_BITS_def Let_def)

lemma length_element_cong: "length c = length c' \<Longrightarrow> length (element t c) = length (element t c')"
  by (simp add: element_def)

lemma inclusion_unused: "fst (inclusion_for n is) \<le> 7" "snd (inclusion_for n is) = [] \<Longrightarrow> fst (inclusion_for n is) = 0"
proof -
  have "(n + 7) div 8 * 8 - n \<le> 7" by presburger
  moreover have "(of_nat d :: u8) \<le> 7" if "d \<le> 7" for d using that by (simp add: word_le_nat_alt unat_of_nat take_bit_nat_eq_self)
  ultimately show "fst (inclusion_for n is) \<le> 7" by (simp only: inclusion_for_def Let_def fst_conv)
  assume "snd (inclusion_for n is) = []"
  then have "(n + 7) div 8 = 0" using inclusion_for_length(1) [of n "is"] by simp
  then have "n = 0" by presburger
  then show "fst (inclusion_for n is) = 0" by (simp add: inclusion_for_def Let_def)
qed

lemma segment_wf:
  assumes r: "cuttable l r" and cut: "start + count \<le> length (rpt_entries r)"
  shows "report_wf (segment r start count sub m)"
proof -
  let ?es = "take count (drop start (rpt_entries r))"
  have wf: "report_wf r" and sorted: "sorted_wrt (<) (map rpe_index (rpt_entries r))"
    and bound: "\<forall>e \<in> set (rpt_entries r). rpe_index e < data_set_len r"
    using r by (auto simp: cuttable_def sendable_def)
  have sub: "set ?es \<subseteq> set (rpt_entries r)" by (meson set_drop_subset set_take_subset order_trans)
  have "sorted_wrt (<) (map rpe_index ?es)" using sorted by (simp add: sorted_wrt_drop sorted_wrt_take flip: take_map drop_map)
  then have "included_indices (fst (inclusion_for (data_set_len r) (map rpe_index ?es))) (snd (inclusion_for (data_set_len r) (map rpe_index ?es))) =
      map rpe_index ?es"
    by (rule inclusion_for_sorted) (use bound sub in auto)
  then show ?thesis
    using wf sub by (auto simp: report_wf_def segment_at [OF cut] Let_def opt_with_segmentation) (auto simp: present_def)
qed

text \<open>What a segment adds to the values, and what of the whole it keeps.\<close>

lemma segment_sendable:
  assumes r: "cuttable l r" and cut: "start + count \<le> length (rpt_entries r)"
  shows "sendable l (segment r start count sub m)"
proof -
  let ?s = "segment r start count sub m"
  define C where "C = take count (drop start (rpt_entries r))"
  define A where "A = take start (rpt_entries r)"
  define B where "B = drop count (drop start (rpt_entries r))"
  have es: "rpt_entries r = A @ C @ B" by (simp only: A_def B_def C_def append_take_drop_id)
  define P where "P = as_list (map_option (\<lambda>n. Unsigned (ucast n)) (rpt_seq_num r)) @
     as_list (map_option (\<lambda>t. BinaryTime (et_to_octets t)) (rpt_time_of_entry r)) @
     as_list (map_option VisibleString (rpt_data_set r)) @
     as_list (map_option Boolean (rpt_buf_ovfl r)) @
     as_list (map_option OctetString (rpt_entry_id r)) @
     as_list (map_option (\<lambda>n. Unsigned (ucast n)) (rpt_conf_rev r))"
  define M where "M = (\<lambda>es :: report_entry list. map VisibleString (List.map_filter rpe_reference es) @ map rpe_value es @ map trg_ops_to_value (List.map_filter rpe_reason es))"
  have s: "sendable l r" "\<not> opt_segmentation (rpt_opt_flds r)" using r by (simp_all add: cuttable_def)
  then have "present (opt_segmentation (rpt_opt_flds r)) (rpt_sub_seq_num r)" by (simp add: sendable_def report_wf_def Let_def)
  then have no: "rpt_sub_seq_num r = None" "\<not> opt_segmentation (rpt_opt_flds r)" using s by (simp_all add: present_def)
  obtain u b where b: "opt_flds_to_value (rpt_opt_flds r) = BitString 6 u" "length u = 2"
    "opt_flds_to_value (with_segmentation (rpt_opt_flds r) True) = BitString 6 b" "length b = 2"
    using opt_value_shape by blast
  define i where "i = rpt_inclusion r"
  define j where "j = inclusion_for (data_set_len r) (map rpe_index C)"
  have i: "i = inclusion_for (data_set_len r) (map rpe_index (rpt_entries r))" using r by (simp add: cuttable_def i_def)
  have whole: "report_values r = [VisibleString (rpt_id r), BitString 6 u] @ P @ [BitString (fst i) (snd i)] @ M (rpt_entries r)"
    by (simp add: report_values_def no b(1) P_def M_def as_list_def i_def)
  have part: "report_values ?s = [VisibleString (rpt_id r), BitString 6 b] @ P @ [Unsigned (ucast sub), Boolean m, BitString (fst j) (snd j)] @ M C"
    by (simp add: report_values_def segment_at [OF cut, folded C_def] b(3) P_def M_def as_list_def j_def opt_with_segmentation)
  have M: "set (M C) \<subseteq> set (M (rpt_entries r))" "length (M C) \<le> length (M (rpt_entries r))"
    "length (values_octets (M C)) \<le> length (values_octets (M (rpt_entries r)))"
    unfolding M_def es by (auto simp: List.map_filter_def)
  have ok: "\<forall>v \<in> set (report_values r). value_ok l 0 v \<and> value_tag v \<noteq> tag_context 0" using s(1) by (simp add: sendable_def)
  have len: "length (snd j) = length (snd i)" by (simp add: i j_def inclusion_for_length)
  have oki: "value_ok l 0 (BitString (fst i) (snd i))" using ok by (simp add: whole)
  have okj: "value_ok l 0 (BitString (fst j) (snd j))"
    using oki len inclusion_unused [of "data_set_len r" "map rpe_index C"] by (simp add: j_def)
  have size: "length (values_octets (report_values ?s)) \<le> length (values_octets (report_values r)) + 32"
  proof -
    have "length (value_octets (BitString 6 b)) = length (value_octets (BitString 6 u))"
      "length (value_octets (BitString (fst j) (snd j))) = length (value_octets (BitString (fst i) (snd i)))"
      using len b by (simp_all add: length_element_cong)
    moreover have "length (value_octets (Boolean m)) \<le> 1 + 11" by (rule element_bound) simp
    moreover have "length (value_octets (Unsigned (ucast sub))) \<le> 9 + 11" by (rule element_bound) simp
    ultimately show ?thesis unfolding whole part using M(3) by (simp del: value_tag.simps value_contents.simps)
  qed
  have okv: "value_ok l 0 v \<and> value_tag v \<noteq> tag_context 0" if "v \<in> set (report_values ?s)" for v
  proof -
    have "value_ok l 0 (VisibleString (rpt_id r))" "value_ok l 0 (BitString 6 u)"
      "\<forall>v \<in> set P. value_ok l 0 v \<and> value_tag v \<noteq> tag_context 0" "\<forall>v \<in> set (M (rpt_entries r)). value_ok l 0 v \<and> value_tag v \<noteq> tag_context 0"
      using ok by (simp_all add: whole)
    moreover have "length (unsigned_octets (ucast sub)) < 4294967296" using unsigned_octets_length(2) [of "ucast sub"] by linarith
    ultimately show ?thesis using that M(1) okj b by (auto simp: part VISIBLE_STRING_def BIT_STRING_def UNSIGNED_def BOOLEAN_def)
  qed
  have "length (report_values ?s) \<le> max_dataset_members l" using r M(2) by (simp add: cuttable_def whole part)
  then show ?thesis
    using segment_wf [OF r cut] size okv r by (simp add: sendable_def report_size_def cuttable_def)
qed

section \<open>Cutting\<close>

text \<open>The segments that a list of counts makes.\<close>

fun cut_report :: "report \<Rightarrow> usize \<Rightarrow> u32 \<Rightarrow> usize list \<Rightarrow> report list" where
  "cut_report r start sub [] = []"
| "cut_report r start sub (c # cs) = segment r start c sub (start + c < length (rpt_entries r)) # cut_report r (start + c) (sub + 1) cs"

lemma report_pdu_nonempty [simp]: "report_pdu r \<noteq> []"
  by (simp add: report_pdu_def element_def tag_octets_alt)

lemma bisect_cuts:
  assumes "cuttable l r" "bisect r budget start sub lo hi best = (n, bs)"
    and "1 \<le> lo" "lo < hi" "start + hi \<le> Suc (length (rpt_entries r))"
    and "best = report_pdu (segment r start lo sub (start + lo < length (rpt_entries r)))" "length best \<le> budget \<or> lo = 1"
  shows "1 \<le> n \<and> start + n \<le> length (rpt_entries r) \<and>
    bs = report_pdu (segment r start n sub (start + n < length (rpt_entries r))) \<and> (length bs \<le> budget \<or> n = 1)"
  using assms
proof (induction r budget start sub lo hi best rule: bisect.induct)
  case (1 r budget start sub lo hi best)
  show ?case
  proof (cases "lo + 1 < hi")
    case True
    define mid where "mid = lo + (hi - lo) div 2"
    have mid: "1 \<le> mid" "lo < mid" "mid < hi" using True "1.prems"(4) by (simp_all add: mid_def)
    let ?s = "segment r start mid sub (start + mid < length (rpt_entries r))"
    have "start + mid \<le> length (rpt_entries r)" using mid "1.prems"(5) by simp
    then have e: "report_encode ?s = Inr (report_pdu ?s)" by (rule report_encode_ok [OF segment_sendable [OF "1.prems"(1)]])
    show ?thesis
    proof (cases "length (report_pdu ?s) \<le> budget")
      case fit: True
      have "bisect r budget start sub mid hi (report_pdu ?s) = (n, bs)"
        using "1.prems"(2) True e fit by (subst (asm) bisect.simps) (simp add: Let_def flip: mid_def)
      then show ?thesis
        using "1.IH"(2) [OF True refl, folded mid_def, OF e fit "1.prems"(1)] mid "1.prems"(5) fit by blast
    next
      case wide: False
      have "bisect r budget start sub lo mid best = (n, bs)"
        using "1.prems"(2) True e wide by (subst (asm) bisect.simps) (simp add: Let_def flip: mid_def)
      then show ?thesis
        using "1.IH"(3) [OF True refl, folded mid_def, OF e wide "1.prems"(1)] mid "1.prems"(3,5,6,7) by auto
    qed
  next
    case False
    then show ?thesis using "1.prems"(2-) by (subst (asm) (1) bisect.simps) auto
  qed
qed

definition counts_ok :: "report \<Rightarrow> usize \<Rightarrow> usize list \<Rightarrow> bool" where
  "counts_ok r start cs \<longleftrightarrow> (\<forall>c \<in> set cs. 1 \<le> c) \<and> start + sum_list cs = length (rpt_entries r)"

definition within_budget :: "usize \<Rightarrow> report \<Rightarrow> bool" where
  "within_budget budget s \<longleftrightarrow> length (report_pdu s) \<le> budget \<or> length (rpt_entries s) = 1"

lemma segments_from_cuts:
  assumes r: "cuttable l r" and start: "start \<le> length (rpt_entries r)"
  shows "\<exists>cs. counts_ok r start cs \<and> segments_from r budget start sub = map report_pdu (cut_report r start sub cs) \<and>
    (\<forall>s \<in> set (cut_report r start sub cs). within_budget budget s)"
  using start
proof (induction "length (rpt_entries r) - start" arbitrary: start sub rule: less_induct)
  case less
  show ?case
  proof (cases "start < length (rpt_entries r)")
    case True
    let ?m = "length (rpt_entries r) - start" and ?s = "\<lambda>n. segment r start n sub (start + n < length (rpt_entries r))"
    have one: "(?m > 1) = (start + 1 < length (rpt_entries r))" by auto
    have e: "report_encode (?s 1) = Inr (report_pdu (?s 1))"
      by (rule report_encode_ok [OF segment_sendable [OF r]]) (use True in simp)
    obtain n bs where b: "bisect r budget start sub 1 (?m + 1) (report_pdu (?s 1)) = (n, bs)" by fastforce
    have n: "1 \<le> n" "start + n \<le> length (rpt_entries r)" "bs = report_pdu (?s n)" "length bs \<le> budget \<or> n = 1"
      using bisect_cuts [OF r b] True by auto
    have step: "segments_from r budget start sub = bs # segments_from r budget (start + n) (sub + 1)"
      using True b n(3) by (subst segments_from.simps) (simp only: Let_def one e unwrap_default_def sum.case prod.case if_True report_pdu_nonempty if_False)
    obtain cs where cs: "counts_ok r (start + n) cs" "segments_from r budget (start + n) (sub + 1) = map report_pdu (cut_report r (start + n) (sub + 1) cs)"
      "\<forall>s \<in> set (cut_report r (start + n) (sub + 1) cs). within_budget budget s"
      using less.hyps [OF _ n(2), of "sub + 1"] n(1) True diff_less_mono2 [of start "start + n" "length (rpt_entries r)"] by fastforce
    have "within_budget budget (?s n)" using n(4) by (auto simp: within_budget_def segment_at [OF n(2)] n(3)) (use n(2) in simp)
    then show ?thesis
      using cs n by (intro exI [of _ "n # cs"]) (auto simp: step counts_ok_def)
  next
    case False
    then show ?thesis using less.prems by (intro exI [of _ "[]"]) (simp add: counts_ok_def segments_from.simps)
  qed
qed

section \<open>Joining what was cut\<close>

lemma merge_segments:
  assumes r: "cuttable l r" and cut: "s + c \<le> length (rpt_entries r)"
  shows "merge_segment (segment r 0 s i True) (segment r s c k m) = segment r 0 (s + c) k True"
proof -
  have s: "s \<le> length (rpt_entries r)" using cut by simp
  have "sorted_wrt (<) (map rpe_index (rpt_entries r))" using r by (simp add: cuttable_def)
  then have "sorted (map rpe_index (take (s + c) (rpt_entries r)))"
    by (metis sorted_wrt_take strict_sorted_imp_sorted take_map)
  then show ?thesis
    using s cut by (subst merge_consecutive [of _ "data_set_len r"]) (simp_all add: segment_at take_add)
qed

definition half_done :: "report \<Rightarrow> usize \<Rightarrow> nat \<Rightarrow> pending_report" where
  "half_done r start k = \<lparr>prt_key = (rpt_id r, rpt_seq_num r), prt_next_sub_seq = of_nat (Suc k), prt_report = segment r 0 start (of_nat k) True\<rparr>"

lemma find_last: "key \<notin> prt_key ` set ps \<Longrightarrow> prt_key p = key \<Longrightarrow> find_pending key (ps @ [p]) = Some (length ps)"
  by (simp add: find_pending_append)

lemma push_middle:
  assumes r: "cuttable l r" and "(rpt_id r, rpt_seq_num r) \<notin> prt_key ` set ps" "length (rpt_entries r) \<le> asm_max_entries a"
    and cut: "start + c \<le> length (rpt_entries r)" and "Suc (Suc k) < 2 ^ 32"
  defines "a' \<equiv> a\<lparr>asm_partial := ps @ [half_done r start k]\<rparr>"
  shows "assembler_push (segment r start c (of_nat (Suc k)) True) a' = (None, a\<lparr>asm_partial := ps @ [half_done r (start + c) (Suc k)]\<rparr>)"
    "assembler_push (segment r start c (of_nat (Suc k)) False) a' =
       (Some (segment r 0 (start + c) (of_nat (Suc k)) False),
        a\<lparr>asm_partial := ps, asm_stats := (asm_stats a)\<lparr>ast_reassembled := sat_add (ast_reassembled (asm_stats a)) 1\<rparr>\<rparr>)"
proof -
  have n: "sat_add (of_nat (Suc k) :: u32) 1 = of_nat (Suc (Suc k))"
    using assms(5) of_nat_inverse [of "Suc k" "of_nat (Suc k) :: u32"] by (simp add: sat_add_def del: of_nat_Suc) simp
  have f: "find_pending (rpt_id r, rpt_seq_num r) (ps @ [half_done r start k]) = Some (length ps)"
    by (rule find_last [OF assms(2)]) (simp add: half_done_def)
  have s: "start \<le> length (rpt_entries r)" using cut by simp
  have e: "(asm_max_entries a < length (rpt_entries (segment r 0 start i True)) + length (rpt_entries (segment r start c j m))) = False" for i j m
    using s cut assms(3) by (simp add: segment_at)
  have id: "rpt_id (segment r start c j m) = rpt_id r" "rpt_seq_num (segment r start c j m) = rpt_seq_num r"
    "opt_segmentation (rpt_opt_flds (segment r start c j m))" "rpt_sub_seq_num (segment r start c j m) = Some j"
    "rpt_more_segments_follow (segment r start c j m) = m" for j m
    by (simp_all add: segment_at [OF cut] opt_with_segmentation)
  note rules = assembler_push_def id Let_def f a'_def half_done_def e merge_segments [OF r cut] n
  show "assembler_push (segment r start c (of_nat (Suc k)) True) a' = (None, a\<lparr>asm_partial := ps @ [half_done r (start + c) (Suc k)]\<rparr>)"
    using f by (simp add: rules del: of_nat_Suc)
  have more: "segment r 0 (start + c) j True\<lparr>rpt_more_segments_follow := False\<rparr> = segment r 0 (start + c) j False" for j
    using cut by (simp add: segment_at)
  show "assembler_push (segment r start c (of_nat (Suc k)) False) a' =
       (Some (segment r 0 (start + c) (of_nat (Suc k)) False),
        a\<lparr>asm_partial := ps, asm_stats := (asm_stats a)\<lparr>ast_reassembled := sat_add (ast_reassembled (asm_stats a)) 1\<rparr>\<rparr>)"
    using f by (simp add: rules more swap_remove_at del: of_nat_Suc)
qed

text \<open>The segments of a report, pushed one after the other into an assembler that waits for nothing of it.\<close>

lemma run_cut:
  assumes r: "cuttable l r" and key: "(rpt_id r, rpt_seq_num r) \<notin> prt_key ` set ps" and room: "length (rpt_entries r) \<le> asm_max_entries a"
    and "counts_ok r start cs" "cs \<noteq> []" "k + length cs < 2 ^ 32 - 1"
  shows "fold assembler_step (cut_report r start (of_nat (Suc k)) cs) (out, a\<lparr>asm_partial := ps @ [half_done r start k]\<rparr>) =
    (out @ [segment r 0 (length (rpt_entries r)) (of_nat (k + length cs)) False],
     a\<lparr>asm_partial := ps, asm_stats := (asm_stats a)\<lparr>ast_reassembled := sat_add (ast_reassembled (asm_stats a)) 1\<rparr>\<rparr>)"
  using assms(4-)
proof (induction cs arbitrary: start k)
  case (Cons c cs)
  have cut: "start + c \<le> length (rpt_entries r)" and c: "1 \<le> c" and cs: "counts_ok r (start + c) cs" and k: "Suc (Suc k) < 2 ^ 32"
    using Cons.prems by (auto simp: counts_ok_def)
  note push = push_middle [OF r key room cut k]
  show ?case
  proof (cases "cs = []")
    case True
    then have "start + c = length (rpt_entries r)" using cs by (simp add: counts_ok_def)
    then show ?thesis using True push(2) by (simp add: assembler_step_def del: of_nat_Suc)
  next
    case False
    then have "start + c < length (rpt_entries r)" using cs by (cases cs) (auto simp: counts_ok_def)
    then show ?thesis
      using push(1) Cons.IH [OF cs False, of "Suc k"] Cons.prems(3) by (simp add: assembler_step_def add.commute)
  qed
qed simp

lemma last_alone:
  assumes "(rpt_id r, rpt_seq_num r) \<notin> prt_key ` set (asm_partial a)" "\<not> rpt_more_segments_follow r"
  shows "assembler_run [r] a = ([r], a)"
proof -
  have "assembler_push r a = (Some r, a)" by (rule last_segment_passes [OF assms(2)]) (use assms(1) in force)
  then show ?thesis by (simp add: assembler_run_def assembler_step_def)
qed

lemma counts_bound:
  assumes "cuttable l r" "counts_ok r 0 cs"
  shows "length cs < 2 ^ 32 - 1"
proof -
  have "length vs \<le> length (values_octets vs)" for vs
  proof (induction vs)
    case (Cons v vs)
    have "1 \<le> length (value_octets v)" by (simp add: element_def tag_octets_alt)
    then show ?case using Cons by simp
  qed simp
  from this [of "report_values r"] have "length (report_values r) \<le> report_size r" by (simp add: report_size_def)
  moreover have "length (rpt_entries r) \<le> length (report_values r)" by (simp add: report_values_def)
  moreover have "length cs \<le> sum_list cs" if "\<forall>c \<in> set cs. 1 \<le> c" for cs :: "nat list" using that by (induction cs) auto
  ultimately show ?thesis using assms by (fastforce simp: counts_ok_def cuttable_def)
qed

lemma run_cut_whole:
  assumes r: "cuttable l r" and key: "(rpt_id r, rpt_seq_num r) \<notin> prt_key ` set (asm_partial a)"
    and room: "length (rpt_entries r) \<le> asm_max_entries a" and cs: "counts_ok r 0 cs" "cs \<noteq> []"
  shows "fst (assembler_run (cut_report r 0 0 cs) a) = [segment r 0 (length (rpt_entries r)) (of_nat (length cs - 1)) False]"
proof -
  obtain c ds where c: "cs = c # ds" using cs(2) by (cases cs) auto
  then have ds: "counts_ok r c ds" "1 \<le> c" "c \<le> length (rpt_entries r)" using cs(1) by (auto simp: counts_ok_def)
  have id: "rpt_id (segment r 0 c j m) = rpt_id r" "rpt_seq_num (segment r 0 c j m) = rpt_seq_num r"
    "opt_segmentation (rpt_opt_flds (segment r 0 c j m))" "rpt_sub_seq_num (segment r 0 c j m) = Some j"
    "rpt_more_segments_follow (segment r 0 c j m) = m" "length (rpt_entries (segment r 0 c j m)) = c" for j m
    using ds(3) by (simp_all add: segment_at opt_with_segmentation)
  show ?thesis
  proof (cases "ds = []")
    case True
    then have "c = length (rpt_entries r)" using ds by (simp add: counts_ok_def)
    then show ?thesis using last_alone [of "segment r 0 c 0 False" a] key id(1,2,5) True by (simp add: c)
  next
    case False
    then have more: "c < length (rpt_entries r)" using ds by (cases ds) (auto simp: counts_ok_def)
    define ps where "ps = (if asm_capacity a \<le> length (asm_partial a) then tl (asm_partial a) else asm_partial a)"
    have ps: "(rpt_id r, rpt_seq_num r) \<notin> prt_key ` set ps" using key by (auto simp: ps_def image_iff dest: in_tlD)
    have "find_pending (rpt_id r, rpt_seq_num r) (asm_partial a) = None" using key by (simp add: find_pending_None)
    moreover have "\<not> asm_max_entries a < c" using room more by simp
    ultimately obtain b where b: "assembler_push (segment r 0 c 0 True) a = (None, b\<lparr>asm_partial := ps @ [half_done r c 0]\<rparr>)"
      "asm_max_entries b = asm_max_entries a"
    proof -
      let ?b = "if asm_capacity a \<le> length (asm_partial a)
        then a\<lparr>asm_stats := (asm_stats a)\<lparr>ast_evicted := sat_add (ast_evicted (asm_stats a)) 1\<rparr>\<rparr> else a"
      assume f: "find_pending (rpt_id r, rpt_seq_num r) (asm_partial a) = None" and n: "\<not> asm_max_entries a < c"
        and thesis: "\<And>b. assembler_push (segment r 0 c 0 True) a = (None, b\<lparr>asm_partial := ps @ [half_done r c 0]\<rparr>) \<Longrightarrow>
          asm_max_entries b = asm_max_entries a \<Longrightarrow> thesis"
      have "sat_add 0 (1 :: u32) = 1" by (simp add: sat_add_def)
      then show thesis
        using f n by (intro thesis [of ?b]) (simp_all add: assembler_push_def assembler_start_def id Let_def half_done_def ps_def)
    qed
    have "length ds < 2 ^ 32 - 1" using counts_bound [OF r cs(1)] by (simp add: c)
    from run_cut [OF r ps _ ds(1) False, of b 0 "[]"] this
    show ?thesis using b more room by (simp add: c assembler_run_def assembler_step_def)
  qed
qed

lemma segment_whole:
  assumes "cuttable l r"
  shows "(segment r 0 (length (rpt_entries r)) j False)\<lparr>rpt_opt_flds := rpt_opt_flds r, rpt_sub_seq_num := None\<rparr> = r"
proof -
  have "rpt_inclusion r = inclusion_for (data_set_len r) (map rpe_index (rpt_entries r))" "\<not> opt_segmentation (rpt_opt_flds r)"
    "report_wf r" using assms by (simp_all add: cuttable_def sendable_def)
  then show ?thesis by (simp add: segment_at report_wf_def present_def Let_def)
qed

lemma segments_sent:
  assumes r: "cuttable l r" and some: "rpt_entries r \<noteq> [] \<or> length (report_pdu r) \<le> budget"
  obtains (whole) "segments r budget = [report_pdu r]" "length (report_pdu r) \<le> budget"
  | (cut) cs where "counts_ok r 0 cs" "cs \<noteq> []" "segments r budget = map report_pdu (cut_report r 0 0 cs)"
      "\<forall>s \<in> set (cut_report r 0 0 cs). within_budget budget s"
proof (cases "length (report_pdu r) \<le> budget")
  case True
  have "report_encode r = Inr (report_pdu r)" by (rule report_encode_ok [of l]) (use r in \<open>simp add: cuttable_def\<close>)
  then show thesis using True by (intro whole) (simp_all add: segments_def)
next
  case False
  have "report_encode r = Inr (report_pdu r)" by (rule report_encode_ok [of l]) (use r in \<open>simp add: cuttable_def\<close>)
  then have "segments r budget = segments_from r budget 0 0" using False some by (simp add: segments_def)
  moreover obtain cs where "counts_ok r 0 cs" "segments_from r budget 0 0 = map report_pdu (cut_report r 0 0 cs)"
      "\<forall>s \<in> set (cut_report r 0 0 cs). within_budget budget s" using segments_from_cuts [OF r, of 0] by blast
  ultimately show thesis using cut False some by (fastforce simp: counts_ok_def)
qed

lemma cut_sendable: "cuttable l r \<Longrightarrow> counts_ok r start cs \<Longrightarrow> s \<in> set (cut_report r start sub cs) \<Longrightarrow> sendable l s"
proof (induction cs arbitrary: start sub)
  case (Cons c cs)
  then have "counts_ok r (start + c) cs" "start + c \<le> length (rpt_entries r)" by (auto simp: counts_ok_def)
  then show ?case using Cons by (auto intro: segment_sendable)
qed simp

lemma list_all2_maps: "\<forall>s \<in> set ss. P (f s) s \<Longrightarrow> list_all2 P (map f ss) ss"
  by (induction ss) auto

lemma collect_received: "\<forall>s \<in> set ss. sendable l s \<Longrightarrow> collect_ok (receive_report l) (map report_pdu ss) = Inr ss"
  by (induction ss) (auto simp: receive_pdu)

text \<open>
  A report cut into segments arrives as it was: every PDU the server makes of it is at most the budget,
  or carries a single member; the client reads them all, and its assembler hands over one report, which but
  for the segmentation option and the number of the last segment is the report that was sent.
\<close>

lemma segments_joined:
  assumes "cuttable l r" "rpt_entries r \<noteq> [] \<or> length (report_pdu r) \<le> budget"
    and "(rpt_id r, rpt_seq_num r) \<notin> prt_key ` set (asm_partial a)" "length (rpt_entries r) \<le> asm_max_entries a"
  shows "\<exists>rs w. collect_ok (receive_report l) (segments r budget) = Inr rs \<and>
    list_all2 (\<lambda>bs s. length bs \<le> budget \<or> length (rpt_entries s) = 1) (segments r budget) rs \<and>
    fst (assembler_run rs a) = [w] \<and> w\<lparr>rpt_opt_flds := rpt_opt_flds r, rpt_sub_seq_num := None\<rparr> = r"
  using assms(1,2)
proof (cases rule: segments_sent)
  case whole
  have r: "sendable l r" "\<not> opt_segmentation (rpt_opt_flds r)" using assms(1) by (simp_all add: cuttable_def)
  then have "rpt_sub_seq_num r = None" "\<not> rpt_more_segments_follow r" by (auto simp: sendable_def report_wf_def present_def Let_def)
  then show ?thesis using whole receive_pdu [OF r(1)] last_alone [OF assms(3)] by (intro exI [of _ "[r]"] exI [of _ r]) simp
next
  case (cut cs)
  have "list_all2 (\<lambda>bs s. length bs \<le> budget \<or> length (rpt_entries s) = 1) (segments r budget) (cut_report r 0 0 cs)"
    unfolding cut(3) by (rule list_all2_maps) (use cut(4) in \<open>simp add: within_budget_def\<close>)
  moreover have "collect_ok (receive_report l) (segments r budget) = Inr (cut_report r 0 0 cs)"
    unfolding cut(3) by (rule collect_received) (use cut_sendable [OF assms(1) cut(1)] in blast)
  ultimately show ?thesis
    using run_cut_whole [OF assms(1,3,4) cut(1,2)] segment_whole [OF assms(1)] by blast
qed

definition sample_report :: report where
  "sample_report = \<lparr>rpt_id = ''r'', rpt_opt_flds = 0, rpt_seq_num = None, rpt_time_of_entry = None, rpt_data_set = None,
     rpt_buf_ovfl = None, rpt_entry_id = None, rpt_conf_rev = None, rpt_sub_seq_num = None, rpt_more_segments_follow = False,
     rpt_inclusion = inclusion_for 3 [0, 2],
     rpt_entries = [\<lparr>rpe_index = 0, rpe_reference = None, rpe_value = Integer 5, rpe_reason = None\<rparr>,
       \<lparr>rpe_index = 2, rpe_reference = None, rpe_value = Boolean True, rpe_reason = None\<rparr>]\<rparr>"

lemma sample_report_wf: "report_wf sample_report"
proof -
  have "included_indices (fst (inclusion_for 3 [0, 2])) (snd (inclusion_for 3 [0, 2])) = [0, 2]" by (rule inclusion_for_sorted) auto
  then show ?thesis
    by (simp add: report_wf_def sample_report_def present_def Let_def opt_segmentation_def opt_sequence_number_def opt_report_time_stamp_def
        opt_data_set_name_def opt_buffer_overflow_def opt_entry_id_def opt_conf_revision_def opt_data_reference_def
        opt_reason_for_inclusion_def opt_get_def)
qed

lemma sample_report_values:
  "report_values sample_report = [VisibleString ''r'', BitString 6 [0, 0], BitString 5 [160], Integer 5, Boolean True]"
  by code_simp

lemma sample_cuttable: "cuttable default_limits sample_report"
proof -
  have len: "data_set_len sample_report = 3" by code_simp
  have size: "report_size sample_report \<le> 80"
    unfolding report_size_def sample_report_values
    using element_bound [of "as_bytes ''r''" 1 "tag_context VISIBLE_STRING"] element_bound [of "[6, 0, 0]" 3 "tag_context BIT_STRING"]
      element_bound [of "[5, 160]" 2 "tag_context BIT_STRING"] element_bound [OF integer_octets_length(2) [of 5], of "tag_context INTEGER"]
      element_bound [of "bool_octets True" 1 "tag_context BOOLEAN"]
    by simp
  have "ascii_str ''r''" by code_simp
  then have "sendable default_limits sample_report"
    unfolding sendable_def sample_report_values using sample_report_wf size by (auto simp: data_tags default_limits_def)
  then show ?thesis
    using size sample_report_values
    by (simp add: cuttable_def len) (simp add: sample_report_def opt_segmentation_def opt_get_def default_limits_def)
qed

end
