(* ===== verification/Server_Rcb.thy ===== *)
theory Server_Rcb
  imports Server_Control Segments
begin

text \<open>
  The report engine (\<open>src/server/rcb.rs\<close>): what a report control block does when the model changes, when
  a client writes it, when time passes and when an association ends. The engine and the served IED are
  passed through every operation; what it sends is returned with the association it is for. A map keyed by
  member is an association list, read by key; the blocks are in key order, the order they are visited in.
\<close>

section \<open>State\<close>

definition DEFAULT_BUFFER :: usize where "DEFAULT_BUFFER = 64"
definition DEFAULT_MAX_PDU :: usize where "DEFAULT_MAX_PDU = 65000"

record reservation =
  rsv_assoc :: assoc_id
  rsv_linger_secs :: "u32 option"
  rsv_until :: "instant option"

record buffered_entry =
  bfd_entry_id :: u64
  bfd_at :: entry_time
  bfd_reasons :: "(string \<times> reason_code) list"
  bfd_values :: "(string \<times> data_value) list"

record rcb_state =
  rcs_buffered :: bool
  rcs_owner :: "assoc_id option"
  rcs_reserved :: "reservation option"
  rcs_pending :: "(string \<times> reason_code) list"
  rcs_due :: "instant option"
  rcs_integrity_due :: "instant option"
  rcs_buffer :: "buffered_entry list"
  rcs_next_entry :: u64
  rcs_overflowed :: bool
  rcs_seq :: u32

record report_engine =
  eng_blocks :: "(string \<times> rcb_state) list"
  eng_buffer_len :: usize
  eng_pdu :: "assoc_id \<rightharpoonup> usize"
  eng_default_pdu :: usize
  eng_released :: "string list"

record outgoing =
  out_assoc :: assoc_id
  out_pdu :: bytes

definition rcb_new :: "block \<Rightarrow> rcb_state" where
  "rcb_new b = \<lparr>rcs_buffered = (blk_kind b = BkBuffered), rcs_owner = None, rcs_reserved = None, rcs_pending = [], rcs_due = None,
     rcs_integrity_due = None, rcs_buffer = [], rcs_next_entry = 1, rcs_overflowed = False, rcs_seq = 0\<rparr>"

definition engine_new :: "ied \<Rightarrow> report_engine" where
  "engine_new s = \<lparr>eng_blocks = sort_key fst (fold (\<lambda>b m. AList.update (blk_reference b) (rcb_new b) m)
       (filter (\<lambda>b. blk_kind b = BkUnbuffered \<or> blk_kind b = BkBuffered) (ied_blocks s)) []),
     eng_buffer_len = DEFAULT_BUFFER, eng_pdu = Map.empty, eng_default_pdu = DEFAULT_MAX_PDU, eng_released = []\<rparr>"

abbreviation eng_block :: "report_engine \<Rightarrow> string \<Rightarrow> rcb_state option" where
  "eng_block e \<equiv> map_of (eng_blocks e)"

abbreviation eng_put :: "string \<Rightarrow> rcb_state \<Rightarrow> report_engine \<Rightarrow> report_engine" where
  "eng_put k r e \<equiv> e\<lparr>eng_blocks := AList.update k r (eng_blocks e)\<rparr>"

definition set_max_pdu :: "assoc_id \<Rightarrow> usize \<Rightarrow> report_engine \<Rightarrow> report_engine" where
  "set_max_pdu assoc max_pdu e = e\<lparr>eng_pdu := (eng_pdu e)(assoc \<mapsto> max_pdu)\<rparr>"

definition set_default_max_pdu :: "usize \<Rightarrow> report_engine \<Rightarrow> report_engine" where
  "set_default_max_pdu max_pdu e = e\<lparr>eng_default_pdu := max max_pdu MIN_SEGMENT_BUDGET\<rparr>"

definition pdu_budget :: "report_engine \<Rightarrow> assoc_id \<Rightarrow> usize" where
  "pdu_budget e assoc = max (case eng_pdu e assoc of Some n \<Rightarrow> n | None \<Rightarrow> eng_default_pdu e) MIN_SEGMENT_BUDGET"

definition take_released :: "report_engine \<Rightarrow> string list \<times> report_engine" where
  "take_released e = (eng_released e, e\<lparr>eng_released := []\<rparr>)"

definition engine_has :: "report_engine \<Rightarrow> string \<Rightarrow> bool" where
  "engine_has e r \<longleftrightarrow> eng_block e r \<noteq> None"

definition engine_owner :: "report_engine \<Rightarrow> string \<Rightarrow> assoc_id option" where
  "engine_owner e r = Option.bind (eng_block e r) rcs_owner"

definition rcb_holder :: "rcb_state \<Rightarrow> assoc_id option" where
  "rcb_holder r = (case rcs_owner r of Some o' \<Rightarrow> Some o' | None \<Rightarrow> map_option rsv_assoc (rcs_reserved r))"

definition engine_holder :: "report_engine \<Rightarrow> string \<Rightarrow> assoc_id option" where
  "engine_holder e r = Option.bind (eng_block e r) rcb_holder"

definition held_by :: "report_engine \<Rightarrow> assoc_id \<Rightarrow> string list" where
  "held_by e assoc = map fst (filter (\<lambda>(_, r). rcs_owner r = Some assoc \<or>
     (case rcs_reserved r of Some s \<Rightarrow> rsv_assoc s = assoc | None \<Rightarrow> False)) (eng_blocks e))"

section \<open>Attributes\<close>

definition try_u32 :: "u64 \<Rightarrow> u32 option" where
  "try_u32 n = (if n < 0x100000000 then Some (ucast n) else None)"

definition unsigned_of :: "data_value \<Rightarrow> u32 option" where
  "unsigned_of v = (case v of Unsigned n \<Rightarrow> try_u32 n | Integer n \<Rightarrow> try_u32 n | _ \<Rightarrow> None)"

definition integer_of :: "data_value \<Rightarrow> i64 option" where
  "integer_of v = (case v of Integer n \<Rightarrow> Some n | Unsigned n \<Rightarrow> try_i64 n | _ \<Rightarrow> None)"

definition merge_reason :: "reason_code \<Rightarrow> reason_code \<Rightarrow> reason_code" where
  "merge_reason a b = trg_ops_from_bit_string (or_octets (snd (trg_ops_to_bit_string a)) (snd (trg_ops_to_bit_string b)))"

definition min_of :: "instant option \<Rightarrow> instant option \<Rightarrow> instant option" where
  "min_of a b = (case (a, b) of (Some x, Some y) \<Rightarrow> Some (min x y) | (Some x, None) \<Rightarrow> Some x | (None, y) \<Rightarrow> y)"

definition integrity_period :: "ied \<Rightarrow> string \<Rightarrow> u32 option" where
  "integrity_period s blk =
     (let ops = (case Option.bind (block_attribute s blk ''TrgOps'') trg_ops_from_value of Some t \<Rightarrow> t | None \<Rightarrow> TRG_NONE)
      in if \<not> trg_integrity ops then None
         else (case Option.bind (block_attribute s blk ''IntgPd'') unsigned_of of
            Some p \<Rightarrow> if p > 0 then Some p else None | None \<Rightarrow> None))"

text \<open>An attribute the server sets, when the block has it.\<close>

definition set_existing :: "string \<Rightarrow> string \<times> data_value \<Rightarrow> ied \<Rightarrow> ied" where
  "set_existing blk av s = (case block_attribute s blk (fst av) of
     Some _ \<Rightarrow> snd (set_internal (blk @ ''$'' @ fst av) (snd av) s) | None \<Rightarrow> s)"

definition release_reservation :: "string \<Rightarrow> ied \<Rightarrow> ied" where
  "release_reservation blk s = fold (set_existing blk) [(''Resv'', Boolean False), (''ResvTms'', Integer 0), (''Owner'', OctetString [])] s"

section \<open>A client writes\<close>

definition other_owner :: "rcb_state \<Rightarrow> assoc_id \<Rightarrow> bool" where
  "other_owner r assoc \<longleftrightarrow> (case rcs_owner r of Some o' \<Rightarrow> o' \<noteq> assoc | None \<Rightarrow> False)"

definition other_reserved :: "rcb_state \<Rightarrow> assoc_id \<Rightarrow> bool" where
  "other_reserved r assoc \<longleftrightarrow> (case rcs_reserved r of Some s \<Rightarrow> rsv_assoc s \<noteq> assoc | None \<Rightarrow> False)"

definition requested_linger :: "string \<Rightarrow> data_value \<Rightarrow> u32 option option" where
  "requested_linger attribute v =
     (if attribute = ''Resv'' then (if default_to False (bool_of v) then Some None else None)
      else (let n = default_to 0 (integer_of v) in
            if 0 <s n then Some (Some (case try_u32 n of Some m \<Rightarrow> m | None \<Rightarrow> - 1)) else None))"

definition write_rpt_ena :: "assoc_id \<Rightarrow> string \<Rightarrow> data_value \<Rightarrow> instant \<Rightarrow> rcb_state \<Rightarrow> report_engine \<times> ied \<Rightarrow> access \<times> report_engine \<times> ied" where
  "write_rpt_ena assoc blk v now r st = (case st of (e, s) \<Rightarrow>
     if default_to False (bool_of v) then
       (if other_owner r assoc \<or> other_reserved r assoc then (Inl DATA_ACCESS_DENIED, st)
        else (Inr (), eng_put blk (r\<lparr>rcs_owner := Some assoc, rcs_pending := [], rcs_due := None, rcs_seq := 0,
                 rcs_integrity_due := map_option (\<lambda>ms. plus_millis now (ucast ms)) (integrity_period s blk)\<rparr>) e,
              snd (set_internal (blk @ ''$SqNum'') (Unsigned 0) s)))
     else
       (if other_owner r assoc then (Inl DATA_ACCESS_DENIED, st)
        else (Inr (), eng_put blk (r\<lparr>rcs_owner := None, rcs_integrity_due := None, rcs_pending := [], rcs_due := None\<rparr>) e, s)))"

definition write_resv :: "assoc_id \<Rightarrow> string \<Rightarrow> string \<Rightarrow> data_value \<Rightarrow> rcb_state \<Rightarrow> report_engine \<Rightarrow> access \<times> report_engine" where
  "write_resv assoc blk attribute v r e = (case requested_linger attribute v of
     Some linger \<Rightarrow>
       if other_reserved r assoc \<or> other_owner r assoc then (Inl DATA_ACCESS_DENIED, e)
       else (Inr (), eng_put blk (r\<lparr>rcs_reserved := Some \<lparr>rsv_assoc = assoc, rsv_linger_secs = linger, rsv_until = None\<rparr>\<rparr>) e)
   | None \<Rightarrow>
       if (case rcs_reserved r of Some x \<Rightarrow> rsv_assoc x = assoc | None \<Rightarrow> False)
       then (Inr (), eng_put blk (r\<lparr>rcs_reserved := None\<rparr>) e) else (Inr (), e))"

definition write_dat_set :: "string \<Rightarrow> data_value \<Rightarrow> ied \<Rightarrow> access \<times> ied" where
  "write_dat_set blk v s = (case string_of v of
     None \<Rightarrow> (Inl DATA_ACCESS_VALUE_INVALID, s)
   | Some name \<Rightarrow>
       if ied_data_set s name = None then (Inl DATA_ACCESS_VALUE_INVALID, s)
       else if Option.bind (block_attribute s blk ''DatSet'') string_of \<noteq> Some name
       then (let conf_rev = default_to 0 (Option.bind (block_attribute s blk ''ConfRev'') unsigned_of)
             in (Inr (), snd (set_internal (blk @ ''$ConfRev'') (Unsigned (ucast (conf_rev + 1))) s)))
       else (Inr (), s))"

definition engine_on_write :: "assoc_id \<Rightarrow> string \<Rightarrow> string \<Rightarrow> data_value \<Rightarrow> instant \<Rightarrow> report_engine \<times> ied \<Rightarrow> access \<times> report_engine \<times> ied" where
  "engine_on_write assoc blk attribute v now st = (case st of (e, s) \<Rightarrow>
     (let enabled = default_to False (Option.bind (block_attribute s blk ''RptEna'') bool_of) in
      case eng_block e blk of
        None \<Rightarrow> (Inr (), st)
      | Some r \<Rightarrow>
         if attribute = ''RptEna'' then write_rpt_ena assoc blk v now r st
         else if attribute = ''GI'' \<or> attribute = ''PurgeBuf'' then
           (if rcs_owner r \<noteq> Some assoc then (Inl DATA_ACCESS_DENIED, st) else (Inr (), st))
         else if attribute = ''Resv'' \<or> attribute = ''ResvTms'' then
           (case write_resv assoc blk attribute v r e of (a, e) \<Rightarrow> (a, e, s))
         else if enabled \<or> other_owner r assoc \<or> other_reserved r assoc then (Inl DATA_ACCESS_DENIED, st)
         else if attribute = ''DatSet'' then (case write_dat_set blk v s of (a, s) \<Rightarrow> (a, e, s))
         else (Inr (), st)))"

section \<open>An association ends, a reservation lapses\<close>

definition close_block :: "assoc_id \<Rightarrow> instant \<Rightarrow> string \<Rightarrow> report_engine \<times> ied \<Rightarrow> report_engine \<times> ied" where
  "close_block assoc now blk st = (case st of (e, s) \<Rightarrow> (case eng_block e blk of
     None \<Rightarrow> st
   | Some r \<Rightarrow>
      (let (r, s, e) = (if rcs_owner r = Some assoc
             then (r\<lparr>rcs_owner := None, rcs_due := None, rcs_pending := [],
                     rcs_buffer := (if rcs_buffered r then rcs_buffer r else [])\<rparr>,
                   fold (set_existing blk) [(''RptEna'', Boolean False), (''GI'', Boolean False), (''PurgeBuf'', Boolean False),
                     (''Resv'', Boolean False)] s,
                   e\<lparr>eng_released := eng_released e @ [blk]\<rparr>)
             else (r, s, e))
       in case rcs_reserved r of
            Some x \<Rightarrow>
              if rsv_assoc x \<noteq> assoc then (eng_put blk r e, s)
              else (case rsv_linger_secs x of
                 Some secs \<Rightarrow> (eng_put blk (r\<lparr>rcs_reserved := Some \<lparr>rsv_assoc = assoc, rsv_linger_secs = Some secs,
                     rsv_until = Some (plus_millis now (ucast secs * 1000))\<rparr>\<rparr>) e, s)
               | None \<Rightarrow> (eng_put blk (r\<lparr>rcs_reserved := None\<rparr>) e, release_reservation blk s))
          | None \<Rightarrow> (eng_put blk r e, s))))"

definition engine_closed :: "assoc_id \<Rightarrow> instant \<Rightarrow> report_engine \<times> ied \<Rightarrow> report_engine \<times> ied" where
  "engine_closed assoc now st = (let e = (fst st)\<lparr>eng_pdu := (eng_pdu (fst st))(assoc := None)\<rparr>
     in fold (close_block assoc now) (map fst (eng_blocks e)) (e, snd st))"

definition expire_block :: "instant \<Rightarrow> string \<Rightarrow> report_engine \<times> ied \<Rightarrow> report_engine \<times> ied" where
  "expire_block now blk st = (case st of (e, s) \<Rightarrow> (case eng_block e blk of
     None \<Rightarrow> st
   | Some r \<Rightarrow> (case Option.bind (rcs_reserved r) rsv_until of
       Some u \<Rightarrow> if u \<le> now
         then ((eng_put blk (r\<lparr>rcs_reserved := None\<rparr>) e)\<lparr>eng_released := eng_released e @ [blk]\<rparr>, release_reservation blk s)
         else st
     | None \<Rightarrow> st)))"

definition expire_reservations :: "instant \<Rightarrow> report_engine \<times> ied \<Rightarrow> report_engine \<times> ied" where
  "expire_reservations now st = fold (expire_block now) (map fst (eng_blocks (fst st))) st"

section \<open>Building a report\<close>

datatype report_trigger = TrgChange | TrgIntegrity | TrgGeneralInterrogation

record report_header =
  hdr_seq_num :: u32
  hdr_entry_time :: entry_time
  hdr_data_set :: string
  hdr_conf_rev :: u32
  hdr_entry_id :: u64
  hdr_buffered :: bool
  hdr_overflowed :: bool

definition assembled_flds :: "opt_flds \<Rightarrow> report_header \<Rightarrow> opt_flds" where
  "assembled_flds o' h = with_segmentation (if hdr_buffered h then o' else with_entry_id (with_buffer_overflow o' False) False) False"

definition included_members :: "string list \<Rightarrow> (string \<times> reason_code) list \<Rightarrow> (string \<times> data_value) list \<Rightarrow> usize list" where
  "included_members members reasons vals =
     map fst (filter (\<lambda>(_, m). map_of reasons m \<noteq> None \<and> map_of vals m \<noteq> None) (enumerate 0 members))"

definition then_some :: "bool \<Rightarrow> 'a \<Rightarrow> 'a option" where
  "then_some flag x = (if flag then Some x else None)"

definition assembled_entry :: "opt_flds \<Rightarrow> string list \<Rightarrow> (string \<times> reason_code) list \<Rightarrow> (string \<times> data_value) list \<Rightarrow> usize \<Rightarrow> report_entry option" where
  "assembled_entry o' members reasons vals i = Option.bind (get_at members i) (\<lambda>member. map_option (\<lambda>v.
     \<lparr>rpe_index = i, rpe_reference = then_some (opt_data_reference o') member, rpe_value = v,
      rpe_reason = then_some (opt_reason_for_inclusion o') (default_to REASON_NONE (map_of reasons member))\<rparr>) (map_of vals member))"

definition assemble :: "string \<Rightarrow> opt_flds \<Rightarrow> string list \<Rightarrow> (string \<times> reason_code) list \<Rightarrow> (string \<times> data_value) list \<Rightarrow> report_header \<Rightarrow> report" where
  "assemble rptid opt members reasons vals h =
     (let o' = assembled_flds opt h;
          included = included_members members reasons vals;
          entries = List.map_filter (assembled_entry o' members reasons vals) included
      in \<lparr>rpt_id = rptid, rpt_opt_flds = o', rpt_seq_num = then_some (opt_sequence_number o') (hdr_seq_num h),
          rpt_time_of_entry = then_some (opt_report_time_stamp o') (hdr_entry_time h),
          rpt_data_set = then_some (opt_data_set_name o') (hdr_data_set h),
          rpt_buf_ovfl = then_some (opt_buffer_overflow o') (hdr_overflowed h),
          rpt_entry_id = then_some (opt_entry_id o') (to_be 8 (hdr_entry_id h)),
          rpt_conf_rev = then_some (opt_conf_revision o') (hdr_conf_rev h),
          rpt_sub_seq_num = None, rpt_more_segments_follow = False,
          rpt_inclusion = inclusion_for (length members) included, rpt_entries = entries\<rparr>)"

text \<open>What the block's attributes say of its reports.\<close>

definition block_opt_flds :: "ied \<Rightarrow> string \<Rightarrow> opt_flds" where
  "block_opt_flds s blk = default_to 0 (Option.bind (block_attribute s blk ''OptFlds'') opt_flds_from_value)"

definition block_rpt_id :: "ied \<Rightarrow> string \<Rightarrow> string" where
  "block_rpt_id s blk = default_to blk (Option.bind (block_attribute s blk ''RptID'') string_of)"

definition block_conf_rev :: "ied \<Rightarrow> string \<Rightarrow> u32" where
  "block_conf_rev s blk = default_to 0 (Option.bind (block_attribute s blk ''ConfRev'') unsigned_of)"

definition block_data_set :: "ied \<Rightarrow> string \<Rightarrow> (string \<times> served_data_set) option" where
  "block_data_set s blk = Option.bind (Option.bind (block_attribute s blk ''DatSet'') string_of)
     (\<lambda>name. map_option (\<lambda>ds. (name, ds)) (ied_data_set s name))"

definition publish_entry :: "string \<Rightarrow> u64 \<Rightarrow> entry_time \<Rightarrow> ied \<Rightarrow> ied" where
  "publish_entry blk entry_id at s =
     (let s = snd (set_internal (blk @ ''$EntryID'') (OctetString (to_be 8 entry_id)) s)
      in snd (set_internal (blk @ ''$TimeOfEntry'') (BinaryTime (et_to_octets at)) s))"

definition send_report :: "report_engine \<Rightarrow> assoc_id \<Rightarrow> report \<Rightarrow> outgoing list" where
  "send_report e assoc r = map (\<lambda>pdu. \<lparr>out_assoc = assoc, out_pdu = pdu\<rparr>) (segments r (pdu_budget e assoc))"

definition all_members :: "string list \<Rightarrow> reason_code \<Rightarrow> (string \<times> reason_code) list" where
  "all_members members c = fold (\<lambda>m acc. AList.update m c acc) members []"

definition keep_entry :: "usize \<Rightarrow> buffered_entry \<Rightarrow> rcb_state \<Rightarrow> rcb_state" where
  "keep_entry limit b r =
     (let r = (if length (rcs_buffer r) \<ge> limit then r\<lparr>rcs_buffer := tl (rcs_buffer r), rcs_overflowed := True\<rparr> else r)
      in r\<lparr>rcs_buffer := rcs_buffer r @ [b]\<rparr>)"

definition next_seq :: "bool \<Rightarrow> u32 \<Rightarrow> u32" where
  "next_seq buffered n = (if buffered then (n + 1) mod 0x10000 else (n + 1) mod 0x100)"

text \<open>A member with no value is not reported: the values of those that have one, and their reasons.\<close>

definition entry_values :: "ied \<Rightarrow> (string \<times> reason_code) list \<Rightarrow> (string \<times> data_value) list" where
  "entry_values s reasons = List.map_filter (\<lambda>(m, _). map_option (\<lambda>v. (m, v)) (read_reference s m)) reasons"

definition with_values :: "(string \<times> data_value) list \<Rightarrow> (string \<times> reason_code) list \<Rightarrow> (string \<times> reason_code) list" where
  "with_values vals reasons = filter (\<lambda>(m, _). map_of vals m \<noteq> None) reasons"

definition number_entry :: "usize \<Rightarrow> report_trigger \<Rightarrow> entry_time \<Rightarrow> (string \<times> reason_code) list \<Rightarrow> (string \<times> data_value) list \<Rightarrow> rcb_state \<Rightarrow> rcb_state" where
  "number_entry limit trigger wall reasons vals r =
     (let entry_id = rcs_next_entry r; r = r\<lparr>rcs_next_entry := entry_id + 1\<rparr>
      in if rcs_buffered r \<and> trigger \<noteq> TrgGeneralInterrogation
         then keep_entry limit \<lparr>bfd_entry_id = entry_id, bfd_at = wall, bfd_reasons = reasons, bfd_values = vals\<rparr> r else r)"

definition count_sent :: "rcb_state \<Rightarrow> rcb_state" where
  "count_sent r = r\<lparr>rcs_overflowed := False, rcs_seq := next_seq (rcs_buffered r) (rcs_seq r)\<rparr>"

text \<open>\<open>build\<close>, once the members and their reasons are known: the block's state is \<open>r\<close>.\<close>

definition build_entry :: "string \<Rightarrow> report_trigger \<Rightarrow> entry_time \<Rightarrow> string \<Rightarrow> string list
    \<Rightarrow> (string \<times> reason_code) list \<Rightarrow> rcb_state \<Rightarrow> report_engine \<times> ied \<Rightarrow> outgoing list \<times> report_engine \<times> ied" where
  "build_entry blk trigger wall data_set members reasons r st = (case st of (e, s) \<Rightarrow>
     (let opt = block_opt_flds s blk; rptid = block_rpt_id s blk; conf_rev = block_conf_rev s blk;
          vals = entry_values s reasons; reasons = with_values vals reasons
      in if reasons = [] then ([], eng_put blk r e, s)
         else
          (let r' = number_entry (eng_buffer_len e) trigger wall reasons vals r in
           case rcs_owner r' of
             None \<Rightarrow> ([], eng_put blk r' e, s)
           | Some assoc \<Rightarrow>
              (let s = snd (set_internal (blk @ ''$SqNum'') (Unsigned (ucast (rcs_seq r'))) s);
                   s = (if rcs_buffered r' then publish_entry blk (rcs_next_entry r) wall s else s);
                   e = eng_put blk (count_sent r') e
               in (send_report e assoc (assemble rptid opt members reasons vals
                     \<lparr>hdr_seq_num = rcs_seq r', hdr_entry_time = wall, hdr_data_set = data_set, hdr_conf_rev = conf_rev,
                      hdr_entry_id = rcs_next_entry r, hdr_buffered = rcs_buffered r', hdr_overflowed = rcs_overflowed r'\<rparr>), e, s)))))"

definition build :: "string \<Rightarrow> report_trigger \<Rightarrow> entry_time \<Rightarrow> report_engine \<times> ied \<Rightarrow> outgoing list \<times> report_engine \<times> ied" where
  "build blk trigger wall st = (case block_data_set (snd st) blk of
     None \<Rightarrow> ([], st)
   | Some (data_set, ds) \<Rightarrow> (case eng_block (fst st) blk of
       None \<Rightarrow> ([], st)
     | Some r \<Rightarrow>
        (let members = sds_references ds;
             (reasons, r) = (case trigger of
                TrgGeneralInterrogation \<Rightarrow> (all_members members (with_general_interrogation REASON_NONE True), r)
              | TrgIntegrity \<Rightarrow> (all_members members (with_integrity REASON_NONE True), r)
              | TrgChange \<Rightarrow> (rcs_pending r, r\<lparr>rcs_due := None, rcs_pending := []\<rparr>))
         in build_entry blk trigger wall data_set members reasons r st)))"

section \<open>The model changed, or time passed\<close>

definition add_hit :: "string \<times> reason_code \<Rightarrow> (string \<times> reason_code) list \<Rightarrow> (string \<times> reason_code) list" where
  "add_hit h p = AList.update (fst h) (merge_reason (default_to REASON_NONE (map_of p (fst h))) (snd h)) p"

definition member_hit :: "(string \<times> trg_ops) list \<Rightarrow> trg_ops \<Rightarrow> data_set_member \<Rightarrow> reason_code" where
  "member_hit dirty ops m = fold (\<lambda>leaf reason. case map_of dirty leaf of
     Some trigger \<Rightarrow> merge_reason reason (reason_for trigger ops) | None \<Rightarrow> reason) (dsm_leaves m) REASON_NONE"

definition block_hits :: "ied \<Rightarrow> string \<Rightarrow> (string \<times> trg_ops) list \<Rightarrow> served_data_set \<Rightarrow> (string \<times> reason_code) list" where
  "block_hits s blk dirty ds =
     (let ops = default_to TRG_NONE (Option.bind (block_attribute s blk ''TrgOps'') trg_ops_from_value)
      in filter (\<lambda>(_, c). c \<noteq> REASON_NONE) (map (\<lambda>m. (dsm_reference m, member_hit dirty ops m)) (sds_members ds)))"

definition gather :: "ied \<Rightarrow> (string \<times> trg_ops) list \<Rightarrow> instant \<Rightarrow> string \<Rightarrow> report_engine \<Rightarrow> report_engine" where
  "gather s dirty now blk e = (case eng_block e blk of
     None \<Rightarrow> e
   | Some r \<Rightarrow>
      if rcs_owner r = None \<and> \<not> rcs_buffered r then e
      else (case block_data_set s blk of
        None \<Rightarrow> e
      | Some (_, ds) \<Rightarrow>
         (let buf_tm = default_to 0 (Option.bind (block_attribute s blk ''BufTm'') unsigned_of);
              hits = block_hits s blk dirty ds
          in if hits = [] then e
             else eng_put blk (r\<lparr>rcs_pending := fold add_hit hits (rcs_pending r),
                    rcs_due := (case rcs_due r of None \<Rightarrow> Some (plus_millis now (ucast buf_tm)) | Some d \<Rightarrow> Some d)\<rparr>) e)))"

definition flag_set :: "ied \<Rightarrow> string \<Rightarrow> string \<Rightarrow> bool" where
  "flag_set s blk a \<longleftrightarrow> Option.bind (block_attribute s blk a) bool_of = Some True"

definition clear_flag :: "string \<Rightarrow> string \<Rightarrow> ied \<Rightarrow> ied" where
  "clear_flag blk a s = snd (set_internal (blk @ ''$'' @ a) (Boolean False) s)"

definition elapsed :: "instant option \<Rightarrow> instant \<Rightarrow> bool" where
  "elapsed d now \<longleftrightarrow> (case d of Some t \<Rightarrow> t \<le> now | None \<Rightarrow> False)"

definition append_built :: "outgoing list \<Rightarrow> outgoing list \<times> report_engine \<times> ied \<Rightarrow> outgoing list \<times> report_engine \<times> ied" where
  "append_built out b = (out @ fst b, snd b)"

definition emit_interrogation :: "entry_time \<Rightarrow> string \<Rightarrow> outgoing list \<times> report_engine \<times> ied \<Rightarrow> outgoing list \<times> report_engine \<times> ied" where
  "emit_interrogation wall blk st = (case st of (out, e, s) \<Rightarrow>
     if engine_owner e blk \<noteq> None \<and> flag_set s blk ''GI''
     then append_built out (build blk TrgGeneralInterrogation wall (e, clear_flag blk ''GI'' s)) else st)"

definition purge_buffer :: "string \<Rightarrow> report_engine \<times> ied \<Rightarrow> report_engine \<times> ied" where
  "purge_buffer blk st = (case st of (e, s) \<Rightarrow>
     if flag_set s blk ''PurgeBuf''
     then ((case eng_block e blk of Some r \<Rightarrow> eng_put blk (r\<lparr>rcs_buffer := [], rcs_overflowed := False\<rparr>) e | None \<Rightarrow> e),
           clear_flag blk ''PurgeBuf'' s)
     else st)"

definition emit_integrity :: "entry_time \<Rightarrow> instant \<Rightarrow> string \<Rightarrow> rcb_state \<Rightarrow> outgoing list \<times> report_engine \<times> ied
    \<Rightarrow> outgoing list \<times> report_engine \<times> ied" where
  "emit_integrity wall now blk r st = (case st of (out, e, s) \<Rightarrow>
     if elapsed (rcs_integrity_due r) now
     then append_built out (build blk TrgIntegrity wall
       (eng_put blk (r\<lparr>rcs_integrity_due := map_option (\<lambda>ms. plus_millis now (ucast ms)) (integrity_period s blk)\<rparr>) e, s))
     else st)"

definition emit_block :: "entry_time \<Rightarrow> instant \<Rightarrow> string \<Rightarrow> outgoing list \<times> report_engine \<times> ied \<Rightarrow> outgoing list \<times> report_engine \<times> ied" where
  "emit_block wall now blk st = (case emit_interrogation wall blk st of (out, e, s) \<Rightarrow>
     (case purge_buffer blk (e, s) of (e, s) \<Rightarrow>
     (case eng_block e blk of
        None \<Rightarrow> (out, e, s)
      | Some r \<Rightarrow> (case emit_integrity wall now blk r (out, e, s) of (out, e, s) \<Rightarrow>
          if elapsed (rcs_due r) now then append_built out (build blk TrgChange wall (e, s)) else (out, e, s)))))"

definition emit_due :: "entry_time \<Rightarrow> instant \<Rightarrow> report_engine \<times> ied \<Rightarrow> outgoing list \<times> report_engine \<times> ied" where
  "emit_due wall now st = fold (emit_block wall now) (map fst (eng_blocks (fst st))) ([], st)"

definition engine_commit :: "(string \<times> trg_ops) list \<Rightarrow> entry_time \<Rightarrow> instant \<Rightarrow> report_engine \<times> ied \<Rightarrow> outgoing list \<times> report_engine \<times> ied" where
  "engine_commit dirty wall now st = (case st of (e, s) \<Rightarrow>
     emit_due wall now (fold (gather s dirty now) (map fst (eng_blocks e)) e, s))"

definition engine_on_timeout :: "entry_time \<Rightarrow> instant \<Rightarrow> report_engine \<times> ied \<Rightarrow> outgoing list \<times> report_engine \<times> ied" where
  "engine_on_timeout wall now st = emit_due wall now (expire_reservations now st)"

definition block_timeout :: "rcb_state \<Rightarrow> instant option" where
  "block_timeout r = min_of (min_of (rcs_due r) (rcs_integrity_due r)) (Option.bind (rcs_reserved r) rsv_until)"

definition engine_next_timeout :: "report_engine \<Rightarrow> instant option" where
  "engine_next_timeout e = min_instant (List.map_filter (\<lambda>(_, r). block_timeout r) (eng_blocks e))"

section \<open>Replaying the buffer\<close>

definition engine_buffered :: "report_engine \<Rightarrow> string \<Rightarrow> usize" where
  "engine_buffered e blk = (case eng_block e blk of Some r \<Rightarrow> length (rcs_buffer r) | None \<Rightarrow> 0)"

definition replay :: "string \<Rightarrow> assoc_id \<Rightarrow> buffered_entry \<Rightarrow> bool \<Rightarrow> u32 \<Rightarrow> usize \<Rightarrow> ied \<Rightarrow> outgoing list \<times> ied" where
  "replay blk assoc b overflowed sq budget s = (case block_data_set s blk of
     None \<Rightarrow> ([], s)
   | Some (data_set, ds) \<Rightarrow>
      (let opt = block_opt_flds s blk; rptid = block_rpt_id s blk; conf_rev = block_conf_rev s blk;
           s = snd (set_internal (blk @ ''$SqNum'') (Unsigned (ucast sq)) s);
           s = publish_entry blk (bfd_entry_id b) (bfd_at b) s;
           r = assemble rptid opt (sds_references ds) (bfd_reasons b) (bfd_values b)
             \<lparr>hdr_seq_num = sq, hdr_entry_time = bfd_at b, hdr_data_set = data_set, hdr_conf_rev = conf_rev,
              hdr_entry_id = bfd_entry_id b, hdr_buffered = True, hdr_overflowed = overflowed\<rparr>
       in (map (\<lambda>pdu. \<lparr>out_assoc = assoc, out_pdu = pdu\<rparr>) (segments r budget), s)))"

definition buffer_resume :: "buffered_entry list \<Rightarrow> u64 option \<Rightarrow> nat \<times> bool" where
  "buffer_resume buffer after = (case after of
     Some n \<Rightarrow> (case position (\<lambda>b. bfd_entry_id b = n) buffer of Some i \<Rightarrow> (i + 1, False) | None \<Rightarrow> (0, True))
   | None \<Rightarrow> (0, False))"

definition drain_entry :: "string \<Rightarrow> assoc_id \<Rightarrow> bool \<Rightarrow> usize \<Rightarrow> nat \<times> buffered_entry
    \<Rightarrow> outgoing list \<times> report_engine \<times> ied \<Rightarrow> outgoing list \<times> report_engine \<times> ied" where
  "drain_entry blk assoc overflowed budget nb st = (case st of (out, e, s) \<Rightarrow> (case eng_block e blk of
     None \<Rightarrow> (out, e, s)
   | Some r \<Rightarrow>
      (let sq = rcs_seq r; e = eng_put blk (r\<lparr>rcs_seq := (sq + 1) mod 0x10000\<rparr>) e
       in case replay blk assoc (snd nb) (fst nb = 0 \<and> overflowed) sq budget s of (o', s) \<Rightarrow> (out @ o', e, s))))"

definition drain_buffer :: "string \<Rightarrow> u64 option \<Rightarrow> report_engine \<times> ied \<Rightarrow> outgoing list \<times> report_engine \<times> ied" where
  "drain_buffer blk after st = (case st of (e, s) \<Rightarrow> (case eng_block e blk of
     None \<Rightarrow> ([], st)
   | Some r \<Rightarrow> (case rcs_owner r of
       None \<Rightarrow> ([], st)
     | Some assoc \<Rightarrow>
        (let (start, lost) = buffer_resume (rcs_buffer r) after;
             waiting = drop (min start (length (rcs_buffer r))) (rcs_buffer r);
             overflowed = rcs_overflowed r \<or> lost;
             e = eng_put blk (r\<lparr>rcs_overflowed := False\<rparr>) e
         in fold (drain_entry blk assoc overflowed (pdu_budget e assoc)) (enumerate 0 waiting) ([], e, s)))))"

section \<open>The state machine of one block\<close>

text \<open>What an operation of the engine can do to a block, one change at a time; \<open>limit\<close> is the buffer's bound.\<close>

inductive rcb_step :: "usize \<Rightarrow> rcb_state \<Rightarrow> rcb_state \<Rightarrow> bool" for limit where
  enable: "\<not> other_owner r a \<Longrightarrow> \<not> other_reserved r a \<Longrightarrow>
    rcb_step limit r (r\<lparr>rcs_owner := Some a, rcs_pending := [], rcs_due := None, rcs_seq := 0, rcs_integrity_due := t\<rparr>)"
| disable: "\<not> other_owner r a \<Longrightarrow>
    rcb_step limit r (r\<lparr>rcs_owner := None, rcs_integrity_due := None, rcs_pending := [], rcs_due := None\<rparr>)"
| reserve: "\<not> other_reserved r a \<Longrightarrow> \<not> other_owner r a \<Longrightarrow>
    rcb_step limit r (r\<lparr>rcs_reserved := Some \<lparr>rsv_assoc = a, rsv_linger_secs = l, rsv_until = None\<rparr>\<rparr>)"
| release: "rcb_step limit r (r\<lparr>rcs_reserved := None\<rparr>)"
| abandon: "rcs_owner r = Some a \<Longrightarrow> rcb_step limit r (r\<lparr>rcs_owner := None, rcs_due := None, rcs_pending := [],
    rcs_buffer := (if rcs_buffered r then rcs_buffer r else [])\<rparr>)"
| linger: "rcs_reserved r = Some x \<Longrightarrow>
    rcb_step limit r (r\<lparr>rcs_reserved := Some \<lparr>rsv_assoc = rsv_assoc x, rsv_linger_secs = l, rsv_until = u\<rparr>\<rparr>)"
| gathered: "hits \<noteq> [] \<Longrightarrow> rcb_step limit r (r\<lparr>rcs_pending := fold add_hit hits (rcs_pending r), rcs_due := Some d\<rparr>)"
| taken: "rcb_step limit r (r\<lparr>rcs_due := None, rcs_pending := []\<rparr>)"
| numbered: "rcb_step limit r (r\<lparr>rcs_next_entry := rcs_next_entry r + 1\<rparr>)"
| kept: "rcs_buffered r \<Longrightarrow> bfd_entry_id b = rcs_next_entry r \<Longrightarrow>
    rcb_step limit r (keep_entry limit b (r\<lparr>rcs_next_entry := rcs_next_entry r + 1\<rparr>))"
| sent: "rcb_step limit r (r\<lparr>rcs_overflowed := False, rcs_seq := next_seq (rcs_buffered r) (rcs_seq r)\<rparr>)"
| purged: "rcb_step limit r (r\<lparr>rcs_buffer := [], rcs_overflowed := False\<rparr>)"
| armed: "rcb_step limit r (r\<lparr>rcs_integrity_due := t\<rparr>)"
| drained: "rcb_step limit r (r\<lparr>rcs_overflowed := False\<rparr>)"
| replayed: "rcs_buffered r \<Longrightarrow> rcb_step limit r (r\<lparr>rcs_seq := (rcs_seq r + 1) mod 0x10000\<rparr>)"

definition block_reach :: "usize \<Rightarrow> string \<times> rcb_state \<Rightarrow> string \<times> rcb_state \<Rightarrow> bool" where
  "block_reach limit x y \<longleftrightarrow> fst x = fst y \<and> (rcb_step limit)\<^sup>*\<^sup>* (snd x) (snd y)"

definition engine_reach :: "report_engine \<Rightarrow> report_engine \<Rightarrow> bool" where
  "engine_reach e e' \<longleftrightarrow> eng_buffer_len e' = eng_buffer_len e \<and> list_all2 (block_reach (eng_buffer_len e)) (eng_blocks e) (eng_blocks e')"

lemma block_reach_refl [simp]: "block_reach limit x x"
  by (simp add: block_reach_def)

lemma engine_reach_refl [simp, intro]: "engine_reach e e"
  by (simp add: engine_reach_def list_all2_refl)

lemma engine_reach_trans [trans]: "engine_reach e f \<Longrightarrow> engine_reach f g \<Longrightarrow> engine_reach e g"
proof (unfold engine_reach_def, elim conjE, intro conjI)
  assume "list_all2 (block_reach (eng_buffer_len e)) (eng_blocks e) (eng_blocks f)" "eng_buffer_len f = eng_buffer_len e"
    "list_all2 (block_reach (eng_buffer_len f)) (eng_blocks f) (eng_blocks g)"
  moreover have "block_reach l x y \<Longrightarrow> block_reach l y z \<Longrightarrow> block_reach l x z" for l x y z
    by (auto simp: block_reach_def)
  ultimately show "list_all2 (block_reach (eng_buffer_len e)) (eng_blocks e) (eng_blocks g)"
    using list_all2_trans [of "block_reach (eng_buffer_len e)" "block_reach (eng_buffer_len e)" "block_reach (eng_buffer_len e)"] by metis
qed simp

lemma engine_reach_keys: "engine_reach e e' \<Longrightarrow> map fst (eng_blocks e') = map fst (eng_blocks e)"
proof (unfold engine_reach_def, elim conjE)
  assume "list_all2 (block_reach (eng_buffer_len e)) (eng_blocks e) (eng_blocks e')"
  then show "map fst (eng_blocks e') = map fst (eng_blocks e)"
    by (induction rule: list_all2_induct) (auto simp: block_reach_def)
qed

lemma update_reach: "map_of al k = Some r \<Longrightarrow> (rcb_step limit)\<^sup>*\<^sup>* r r' \<Longrightarrow> list_all2 (block_reach limit) al (AList.update k r' al)"
  by (induction al) (auto simp: block_reach_def list_all2_refl split: if_splits)

lemma put_reach:
  assumes "eng_block e k = Some r" "(rcb_step (eng_buffer_len e))\<^sup>*\<^sup>* r r'"
  shows "engine_reach e (eng_put k r' e)" "engine_reach e ((eng_put k r' e)\<lparr>eng_released := rel\<rparr>)"
    "engine_reach e (e\<lparr>eng_released := rel, eng_blocks := AList.update k r' (eng_blocks e)\<rparr>)"
  using update_reach [OF assms] by (simp_all add: engine_reach_def)

lemma put_step:
  assumes "eng_block e k = Some r" "rcb_step (eng_buffer_len e) r r'"
  shows "engine_reach e (eng_put k r' e)" "engine_reach e ((eng_put k r' e)\<lparr>eng_released := rel\<rparr>)"
  using put_reach [OF assms(1), of r'] assms(2) by auto

lemma fold_reach: "(\<And>x st. engine_reach (g st) (g (f x st))) \<Longrightarrow> engine_reach (g st) (g (fold f xs st))"
  by (induction xs arbitrary: st) (auto intro: engine_reach_trans)

lemma write_reach: "engine_reach e (fst (snd (engine_on_write assoc blk a v now (e, s))))"
proof (cases "eng_block e blk")
  case (Some r)
  note steps = put_step [OF Some rcb_step.enable] put_step [OF Some rcb_step.disable] put_step [OF Some rcb_step.reserve] put_step [OF Some rcb_step.release]
  have "engine_reach e (fst (snd (write_rpt_ena assoc blk v now r (e, s))))"
    using steps(1) [of assoc] steps(3) [of assoc] by (auto simp: write_rpt_ena_def)
  moreover have "engine_reach e (snd (write_resv assoc blk a v r e))"
    using steps(5) [of assoc] steps(7) by (auto simp: write_resv_def split: option.split)
  ultimately show ?thesis by (auto simp: engine_on_write_def Some split: prod.split)
qed (simp add: engine_on_write_def)

lemma close_block_reach: "engine_reach (fst st) (fst (close_block assoc now blk st))"
proof -
  obtain e s where st: "st = (e, s)" by fastforce
  show ?thesis
  proof (cases "eng_block e blk")
    case (Some r)
    define r' where "r' = (if rcs_owner r = Some assoc then r\<lparr>rcs_owner := None, rcs_due := None, rcs_pending := [],
                     rcs_buffer := (if rcs_buffered r then rcs_buffer r else [])\<rparr> else r)"
    have r': "(rcb_step (eng_buffer_len e))\<^sup>*\<^sup>* r r'"
    proof (cases "rcs_owner r = Some assoc")
      case True
      show ?thesis unfolding r'_def if_P [OF True] by (rule r_into_rtranclp [of "rcb_step (eng_buffer_len e)", OF rcb_step.abandon [OF True]])
    qed (simp add: r'_def)
    have "(rcb_step (eng_buffer_len e))\<^sup>*\<^sup>* r (r'\<lparr>rcs_reserved := None\<rparr>)"
      using r' rcb_step.release by (rule rtranclp.rtrancl_into_rtrancl)
    moreover have "(rcb_step (eng_buffer_len e))\<^sup>*\<^sup>* r (r'\<lparr>rcs_reserved := Some \<lparr>rsv_assoc = rsv_assoc x, rsv_linger_secs = l, rsv_until = u\<rparr>\<rparr>)"
      if "rcs_reserved r' = Some x" for x l u using r' rcb_step.linger [OF that] by (rule rtranclp.rtrancl_into_rtrancl)
    ultimately show ?thesis
      using r' unfolding st close_block_def prod.case Some option.case Let_def
      by (cases "rcs_owner r = Some assoc")
        (auto simp: r'_def split: option.split intro!: put_reach [OF Some])
  qed (simp add: st close_block_def)
qed

lemma closed_reach: "engine_reach (fst st) (fst (engine_closed assoc now st))"
proof -
  have "engine_reach ((fst st)\<lparr>eng_pdu := p\<rparr>) (fst (fold (close_block assoc now) bs ((fst st)\<lparr>eng_pdu := p\<rparr>, snd st)))" for p bs
    using fold_reach [of fst "close_block assoc now", OF close_block_reach] by (metis fst_conv)
  then show ?thesis by (simp add: engine_closed_def Let_def engine_reach_def)
qed

lemma expire_reach: "engine_reach (fst st) (fst (expire_reservations now st))"
proof -
  have "engine_reach (fst st) (fst (expire_block now blk st))" for blk st
  proof -
    obtain e s where st: "st = (e, s)" by fastforce
    show ?thesis using put_step [OF _ rcb_step.release] by (auto simp: st expire_block_def split: option.split)
  qed
  then show ?thesis unfolding expire_reservations_def by (rule fold_reach)
qed

lemma gather_reach: "engine_reach e (gather s dirty now blk e)"
  using put_step(1) [OF _ rcb_step.gathered] by (auto simp: gather_def Let_def split: option.split)

lemma number_entry_step: "rcb_step limit r (number_entry limit trigger wall reasons vals r)"
  using rcb_step.numbered [of limit r]
  by (auto simp: number_entry_def Let_def intro: rcb_step.kept)

lemma build_entry_reach:
  assumes b: "eng_block e blk = Some r0" and r: "(rcb_step (eng_buffer_len e))\<^sup>*\<^sup>* r0 r"
  shows "engine_reach e (fst (snd (build_entry blk trigger wall data_set members reasons r (e, s))))"
proof -
  have 1: "(rcb_step (eng_buffer_len e))\<^sup>*\<^sup>* r0 (number_entry (eng_buffer_len e) trigger wall c v r)" for c v
    using r number_entry_step by (rule rtranclp.rtrancl_into_rtrancl)
  have 2: "(rcb_step (eng_buffer_len e))\<^sup>*\<^sup>* r0 (count_sent (number_entry (eng_buffer_len e) trigger wall c v r))" for c v
    unfolding count_sent_def using 1 rcb_step.sent by (rule rtranclp.rtrancl_into_rtrancl)
  show ?thesis
    using put_reach(1) [OF b r] put_reach(1) [OF b 1] put_reach(1) [OF b 2]
    by (simp add: build_entry_def Let_def split: option.split)
qed

lemma build_reach: "engine_reach e (fst (snd (build blk trigger wall (e, s))))"
proof -
  have "(rcb_step (eng_buffer_len e))\<^sup>*\<^sup>* r (r\<lparr>rcs_due := None, rcs_pending := []\<rparr>)" for r by (rule r_into_rtranclp) (rule rcb_step.taken)
  then show ?thesis
    by (cases trigger) (auto simp: build_def Let_def split: option.split intro!: build_entry_reach)
qed

lemma built_reach: "engine_reach (fst st) (fst (snd (append_built out (build blk trigger wall st))))"
  using build_reach [of "fst st" blk trigger wall "snd st"] by (simp add: append_built_def)

lemma interrogation_reach: "engine_reach (fst (snd st)) (fst (snd (emit_interrogation wall blk st)))"
  using built_reach by (auto simp: emit_interrogation_def split: prod.split)

lemma purge_reach: "engine_reach (fst st) (fst (purge_buffer blk st))"
  using put_step(1) [OF _ rcb_step.purged] by (auto simp: purge_buffer_def split: option.split prod.split)

lemma integrity_reach: "eng_block (fst (snd st)) blk = Some r \<Longrightarrow> engine_reach (fst (snd st)) (fst (snd (emit_integrity wall now blk r st)))"
  using engine_reach_trans [OF put_step(1) [OF _ rcb_step.armed] built_reach [of "(_, _)", unfolded fst_conv]]
  by (auto simp: emit_integrity_def split: prod.split)

lemma emit_reach: "engine_reach (fst (snd st)) (fst (snd (emit_block wall now blk st)))"
proof -
  obtain out e s where 1: "emit_interrogation wall blk st = (out, e, s)" by (metis prod_cases3)
  obtain e' s' where 2: "purge_buffer blk (e, s) = (e', s')" by fastforce
  have e': "engine_reach (fst (snd st)) e'"
    using engine_reach_trans [OF interrogation_reach [of st wall blk]] purge_reach [of "(e, s)" blk] by (simp add: 1 2)
  show ?thesis
  proof (cases "eng_block e' blk")
    case (Some r)
    obtain o3 e3 s3 where 3: "emit_integrity wall now blk r (out, e', s') = (o3, e3, s3)" by (metis prod_cases3)
    have "engine_reach (fst (snd st)) e3"
      using engine_reach_trans [OF e' integrity_reach [of "(out, e', s')" blk r wall now, unfolded fst_conv snd_conv, OF Some]] by (simp add: 3)
    then show ?thesis
      using engine_reach_trans built_reach [of "(e3, s3)" o3 blk TrgChange wall] by (auto simp: emit_block_def 1 2 3 Some)
  qed (simp add: emit_block_def 1 2 e')
qed

lemma emit_due_reach: "engine_reach (fst st) (fst (snd (emit_due wall now st)))"
  unfolding emit_due_def using fold_reach [of "\<lambda>st. fst (snd st)" "emit_block wall now" "([], st)", OF emit_reach] by simp

lemma commit_reach: "engine_reach (fst st) (fst (snd (engine_commit dirty wall now st)))"
proof -
  obtain e s where st: "st = (e, s)" by fastforce
  have "engine_reach e (fold (gather s dirty now) bs e)" for bs
    using fold_reach [of "\<lambda>e. e" "gather s dirty now", OF gather_reach] by simp
  then show ?thesis
    unfolding st engine_commit_def prod.case fst_conv by (rule engine_reach_trans) (rule emit_due_reach [of "(_, s)", unfolded fst_conv])
qed

lemma timeout_reach: "engine_reach (fst st) (fst (snd (engine_on_timeout wall now st)))"
  unfolding engine_on_timeout_def using expire_reach emit_due_reach by (rule engine_reach_trans)

section \<open>The invariant of a block\<close>

text \<open>
  An unbuffered block keeps nothing and a buffer is bounded; a gathering window is open exactly while
  changes are pending; a reservation is the owner's; the sequence number fits the kind of block; and the
  entries kept have increasing numbers, all below the next one (as naturals, of which the code keeps the
  lowest sixty-four bits).
\<close>

definition numbered_ok :: "rcb_state \<Rightarrow> bool" where
  "numbered_ok r \<longleftrightarrow> (\<exists>ns n. map bfd_entry_id (rcs_buffer r) = map of_nat ns \<and> rcs_next_entry r = of_nat n \<and>
     sorted_wrt (<) ns \<and> (\<forall>i \<in> set ns. i < n))"

definition reasons_ok :: "(string \<times> reason_code) list \<Rightarrow> bool" where
  "reasons_ok p \<longleftrightarrow> (\<forall>(m, c) \<in> set p. \<forall>k. bit c k \<longrightarrow> k < 6)"

definition rcb_ok :: "usize \<Rightarrow> rcb_state \<Rightarrow> bool" where
  "rcb_ok limit r \<longleftrightarrow> (\<not> rcs_buffered r \<longrightarrow> rcs_buffer r = []) \<and> length (rcs_buffer r) \<le> limit \<and>
     (rcs_pending r = [] \<longleftrightarrow> rcs_due r = None) \<and> reasons_ok (rcs_pending r) \<and>
     (\<forall>o' x. rcs_owner r = Some o' \<longrightarrow> rcs_reserved r = Some x \<longrightarrow> rsv_assoc x = o') \<and>
     rcs_seq r < (if rcs_buffered r then 0x10000 else 0x100) \<and> numbered_ok r"

lemma trg_bits: "bit (trg_ops_from_bit_string bs) k \<Longrightarrow> k < 6"
  using trg_ops_from_value_bits [of "BitString 2 bs" "trg_ops_from_bit_string bs" k] by (simp add: trg_ops_from_value_def)

lemma reasons_ok_update: "reasons_ok p \<Longrightarrow> \<forall>k. bit c k \<longrightarrow> k < 6 \<Longrightarrow> reasons_ok (AList.update m c p)"
  using set_update [of m c p] by (fastforce simp: reasons_ok_def)

lemma reasons_ok_hits: "reasons_ok p \<Longrightarrow> reasons_ok (fold add_hit hits p)"
proof (induction hits arbitrary: p)
  case (Cons h hits)
  have "reasons_ok (add_hit h p)"
    unfolding add_hit_def by (rule reasons_ok_update [OF Cons.prems]) (simp add: merge_reason_def trg_bits)
  then show ?case using Cons.IH by simp
qed simp

lemma reasons_ok_Nil [simp]: "reasons_ok []"
  by (simp add: reasons_ok_def)

lemma fold_add_hit: "fold add_hit hits p = [] \<longleftrightarrow> hits = [] \<and> p = []"
proof -
  have one: "add_hit h p \<noteq> []" for h p by (simp add: add_hit_def)
  have "fold add_hit hs p \<noteq> []" if "p \<noteq> []" for hs p
    using that by (induction hs arbitrary: p) (simp_all add: one)
  then show ?thesis using one by (cases hits) simp_all
qed

lemma seq_bound: "(n :: u32) mod 0x10000 < 0x10000" "n mod 0x100 < 0x100"
  by (simp_all add: word_less_nat_alt unat_mod)

lemma numbered_next: "numbered_ok r \<Longrightarrow> numbered_ok (r\<lparr>rcs_next_entry := rcs_next_entry r + 1\<rparr>)"
proof -
  assume "numbered_ok r"
  then obtain ns n where "map bfd_entry_id (rcs_buffer r) = map of_nat ns" "rcs_next_entry r = of_nat n" "sorted_wrt (<) ns" "\<forall>i \<in> set ns. i < n"
    by (auto simp: numbered_ok_def)
  then show ?thesis by (auto simp: numbered_ok_def intro!: exI [of _ ns] exI [of _ "Suc n"])
qed

lemma numbered_keep:
  assumes "numbered_ok r" "bfd_entry_id b = rcs_next_entry r"
  shows "numbered_ok (keep_entry limit b (r\<lparr>rcs_next_entry := rcs_next_entry r + 1\<rparr>))"
proof -
  obtain ns n where ns: "map bfd_entry_id (rcs_buffer r) = map of_nat ns" "rcs_next_entry r = of_nat n" "sorted_wrt (<) ns" "\<forall>i \<in> set ns. i < n"
    using assms(1) by (auto simp: numbered_ok_def)
  have "map bfd_entry_id (tl (rcs_buffer r)) = map of_nat (tl ns)" using ns(1) by (metis map_tl)
  moreover have "sorted_wrt (<) (tl ns)" "\<forall>i \<in> set (tl ns). i < n" using ns(3,4) by (cases ns; auto)+
  ultimately show ?thesis
    using ns assms(2) unfolding numbered_ok_def
    by (intro exI [of _ "(if limit \<le> length (rcs_buffer r) then tl ns else ns) @ [n]"] exI [of _ "Suc n"])
      (auto simp: keep_entry_def Let_def sorted_wrt_append)
qed

lemma step_kind: "rcb_step limit r r' \<Longrightarrow> rcs_buffered r' = rcs_buffered r"
  by (induction rule: rcb_step.induct) (simp_all add: keep_entry_def Let_def)

lemma step_ok: "rcb_step limit r r' \<Longrightarrow> 1 \<le> limit \<Longrightarrow> rcb_ok limit r \<Longrightarrow> rcb_ok limit r'"
proof (induction rule: rcb_step.induct)
  case (enable r a t)
  then show ?case by (auto simp: rcb_ok_def numbered_ok_def other_reserved_def)
next
  case (reserve r a l)
  then show ?case by (auto simp: rcb_ok_def numbered_ok_def other_owner_def)
next
  case (gathered hits r d)
  then show ?case by (auto simp: rcb_ok_def numbered_ok_def fold_add_hit reasons_ok_hits)
next
  case (numbered r)
  then show ?case by (simp add: rcb_ok_def numbered_next)
next
  case (kept r b)
  then show ?case using numbered_keep [of r b limit] by (auto simp: rcb_ok_def keep_entry_def Let_def)
next
  case (sent r)
  then show ?case by (auto simp: rcb_ok_def numbered_ok_def next_seq_def seq_bound)
next
  case (replayed r)
  then show ?case by (auto simp: rcb_ok_def numbered_ok_def seq_bound)
qed (auto simp: rcb_ok_def numbered_ok_def)

lemma steps_ok: "(rcb_step limit)\<^sup>*\<^sup>* r r' \<Longrightarrow> 1 \<le> limit \<Longrightarrow> rcb_ok limit r \<Longrightarrow> rcb_ok limit r'"
  by (induction rule: rtranclp_induct) (auto intro: step_ok)

definition engine_ok :: "report_engine \<Rightarrow> bool" where
  "engine_ok e \<longleftrightarrow> 1 \<le> eng_buffer_len e \<and> (\<forall>(_, r) \<in> set (eng_blocks e). rcb_ok (eng_buffer_len e) r)"

lemma reach_ok: "engine_reach e e' \<Longrightarrow> engine_ok e \<Longrightarrow> engine_ok e'"
proof (unfold engine_reach_def engine_ok_def, elim conjE, intro conjI ballI)
  fix x assume a: "list_all2 (block_reach (eng_buffer_len e)) (eng_blocks e) (eng_blocks e')" "eng_buffer_len e' = eng_buffer_len e"
    "1 \<le> eng_buffer_len e" "\<forall>(_, r) \<in> set (eng_blocks e). rcb_ok (eng_buffer_len e) r" "x \<in> set (eng_blocks e')"
  then obtain y where "y \<in> set (eng_blocks e)" "block_reach (eng_buffer_len e) y x" by (metis in_set_conv_nth list_all2_conv_all_nth)
  then show "case x of (_, r) \<Rightarrow> rcb_ok (eng_buffer_len e') r"
    using a(2,3,4) steps_ok by (fastforce simp: block_reach_def)
qed simp

lemma block_ok: "engine_ok e \<Longrightarrow> eng_block e blk = Some r \<Longrightarrow> rcb_ok (eng_buffer_len e) r"
  by (auto simp: engine_ok_def dest: map_of_SomeD)

lemma drain_reach:
  assumes "engine_ok (fst st)"
  shows "engine_reach (fst st) (fst (snd (drain_buffer blk after st)))"
proof -
  obtain e s where st: "st = (e, s)" by fastforce
  have entry: "(\<exists>r. eng_block e1 blk = Some r \<and> rcs_buffered r) \<Longrightarrow> engine_reach e1 (fst (snd (drain_entry blk a o' b nb (out, e1, s1)))) \<and>
      (\<exists>r. eng_block (fst (snd (drain_entry blk a o' b nb (out, e1, s1)))) blk = Some r \<and> rcs_buffered r)" for e1 s1 a o' b nb out
    using put_step(1) [OF _ rcb_step.replayed] by (auto simp: drain_entry_def Let_def update_conv split: prod.split)
  have all: "(\<exists>r. eng_block (fst (snd st)) blk = Some r \<and> rcs_buffered r) \<Longrightarrow> engine_reach (fst (snd st)) (fst (snd (fold (drain_entry blk a o' b) xs st)))" for st a o' b xs
  proof (induction xs arbitrary: st)
    case (Cons x xs)
    obtain out e1 s1 where s1: "st = (out, e1, s1)" by (cases st)
    show ?case using entry [of e1 a o' b x out s1] Cons.IH [of "drain_entry blk a o' b x st"] Cons.prems s1 by (auto intro: engine_reach_trans)
  qed simp
  show ?thesis
  proof (cases "eng_block e blk")
    case (Some r)
    show ?thesis
    proof (cases "rcs_owner r")
      case (Some a)
      define e1 where "e1 = eng_put blk (r\<lparr>rcs_overflowed := False\<rparr>) e"
      have e1: "engine_reach e e1" unfolding e1_def by (rule put_step(1) [OF \<open>eng_block e blk = Some r\<close> rcb_step.drained])
      obtain i lost where i: "buffer_resume (rcs_buffer r) after = (i, lost)" by fastforce
      let ?f = "fold (drain_entry blk a (rcs_overflowed r \<or> lost) (pdu_budget e1 a)) (enumerate 0 (drop (min i (length (rcs_buffer r))) (rcs_buffer r))) ([], e1, s)"
      have "engine_reach e1 (fst (snd ?f))"
      proof (cases "rcs_buffered r")
        case True
        show ?thesis by (rule all [of "([], e1, s)", unfolded fst_conv snd_conv]) (simp add: e1_def True update_conv)
      next
        case False
        then show ?thesis using block_ok [of e blk r] assms \<open>eng_block e blk = Some r\<close> by (simp add: st rcb_ok_def)
      qed
      then show ?thesis using e1 engine_reach_trans \<open>eng_block e blk = Some r\<close> Some by (auto simp: st drain_buffer_def i simp flip: e1_def)
    qed (simp add: st drain_buffer_def Some)
  qed (simp add: st drain_buffer_def)
qed

text \<open>Everything that can happen to the engine and its model.\<close>

datatype engine_op = EoWrite assoc_id string string data_value instant | EoClosed assoc_id instant
  | EoCommit "(string \<times> trg_ops) list" entry_time instant | EoTimeout entry_time instant | EoDrain string "u64 option"
  | EoModel ied_op | EoMaxPdu assoc_id usize

fun engine_step :: "engine_op \<Rightarrow> report_engine \<times> ied \<Rightarrow> outgoing list \<times> report_engine \<times> ied" where
  "engine_step (EoWrite assoc blk a v now) st = ([], snd (engine_on_write assoc blk a v now st))"
| "engine_step (EoClosed assoc now) st = ([], engine_closed assoc now st)"
| "engine_step (EoCommit dirty wall now) st = engine_commit dirty wall now st"
| "engine_step (EoTimeout wall now) st = engine_on_timeout wall now st"
| "engine_step (EoDrain blk after) st = drain_buffer blk after st"
| "engine_step (EoModel x) st = ([], fst st, ied_step x (snd st))"
| "engine_step (EoMaxPdu assoc n) st = ([], set_max_pdu assoc n (fst st), snd st)"

lemma step_reach: "engine_ok (fst st) \<Longrightarrow> engine_reach (fst st) (fst (snd (engine_step x st)))"
  using write_reach [of "fst st" _ _ _ _ _ "snd st"] closed_reach [of st] commit_reach [of st] timeout_reach [of st] drain_reach [of st]
  by (cases x) (auto simp: set_max_pdu_def engine_reach_def list_all2_refl)

definition engine_run :: "engine_op list \<Rightarrow> report_engine \<times> ied \<Rightarrow> report_engine \<times> ied" where
  "engine_run xs st = fold (\<lambda>x st. snd (engine_step x st)) xs st"

lemma run_ok: "engine_ok (fst st) \<Longrightarrow> engine_ok (fst (engine_run xs st))"
  unfolding engine_run_def
proof (induction xs arbitrary: st)
  case (Cons x xs)
  then show ?case using Cons.IH [OF reach_ok [OF step_reach [OF Cons.prems, of x] Cons.prems]] by simp
qed simp

lemma new_rcb_ok: "rcb_ok limit (rcb_new b)"
  by (auto simp: rcb_ok_def rcb_new_def numbered_ok_def intro: exI [of _ 1])

lemma fold_update_set: "x \<in> set (fold (\<lambda>b m. AList.update (k b) (v b) m) bs al) \<Longrightarrow> x \<in> set al \<or> (\<exists>b \<in> set bs. snd x = v b)"
proof (induction bs arbitrary: al)
  case (Cons b bs)
  then show ?case using set_update [of "k b" "v b" al] by fastforce
qed simp

lemma new_ok: "engine_ok (engine_new s)"
  by (auto simp: engine_ok_def engine_new_def DEFAULT_BUFFER_def new_rcb_ok dest!: fold_update_set)


end
