(* ===== verification/Rcb_Safety.thy ===== *)
theory Rcb_Safety
  imports Server_Rcb
begin

text \<open>
  What the report engine promises its clients: who may write a block and who gets its reports, what a report
  carries and that it arrives, where a replay resumes, and what is left of a block when its client is gone.
\<close>

section \<open>Ownership\<close>

lemma put_owner: "eng_block e k = Some r \<Longrightarrow> rcs_owner r' = rcs_owner r \<Longrightarrow> engine_owner (eng_put k r' e) = engine_owner e"
  by (rule ext) (simp add: engine_owner_def update_conv)

definition sent_to :: "report_engine \<Rightarrow> outgoing list \<Rightarrow> bool" where
  "sent_to e out \<longleftrightarrow> (\<forall>x \<in> set out. \<exists>blk. engine_owner e blk = Some (out_assoc x))"

definition keeps_owners :: "report_engine \<Rightarrow> outgoing list \<times> report_engine \<times> ied \<Rightarrow> bool" where
  "keeps_owners e st \<longleftrightarrow> engine_owner (fst (snd st)) = engine_owner e \<and> sent_to e (fst st)"

lemma number_entry_owner [simp]: "rcs_owner (number_entry limit trigger wall reasons vals r) = rcs_owner r"
  by (simp add: number_entry_def keep_entry_def Let_def)

lemma keeps_none [simp]: "keeps_owners e ([], e, s)"
  by (simp add: keeps_owners_def sent_to_def)

lemma build_entry_owner:
  "eng_block e blk = Some r0 \<Longrightarrow> rcs_owner r = rcs_owner r0 \<Longrightarrow> keeps_owners e (build_entry blk trigger wall data_set members reasons r (e, s))"
  by (auto simp: keeps_owners_def build_entry_def Let_def put_owner count_sent_def sent_to_def send_report_def engine_owner_def [of e]
      split: option.split intro!: exI [of _ blk])

lemma build_owner: "keeps_owners (fst st) (build blk trigger wall st)"
proof -
  obtain e s where st: "st = (e, s)" by fastforce
  show ?thesis
    by (cases trigger) (auto simp: st build_def Let_def split: option.split intro!: build_entry_owner)
qed

lemma built_owner:
  assumes "engine_owner e' = engine_owner e" "sent_to e out"
  shows "keeps_owners e (append_built out (build blk trigger wall (e', s)))"
  using assms build_owner [of "(e', s)" blk trigger wall] by (auto simp: keeps_owners_def append_built_def sent_to_def)

lemma emit_owner:
  assumes "engine_owner (fst (snd st)) = engine_owner e" "sent_to e (fst st)"
  shows "keeps_owners e (emit_block wall now blk st)"
proof -
  obtain o0 e0 s0 where st: "st = (o0, e0, s0)" by (metis prod_cases3)
  obtain o1 e1 s1 where 1: "emit_interrogation wall blk st = (o1, e1, s1)" by (metis prod_cases3)
  have k1: "engine_owner e1 = engine_owner e" "sent_to e o1"
    using 1 assms built_owner [of e0 e o0 blk TrgGeneralInterrogation wall "clear_flag blk ''GI'' s0"]
    by (auto simp: st emit_interrogation_def keeps_owners_def split: if_splits)
  obtain e2 s2 where 2: "purge_buffer blk (e1, s1) = (e2, s2)" by fastforce
  have k2: "engine_owner e2 = engine_owner e"
    using 2 k1(1) put_owner by (auto simp: purge_buffer_def split: if_splits option.splits)
  show ?thesis
  proof (cases "eng_block e2 blk")
    case (Some r)
    obtain o3 e3 s3 where 3: "emit_integrity wall now blk r (o1, e2, s2) = (o3, e3, s3)" by (metis prod_cases3)
    have "engine_owner (eng_put blk (r\<lparr>rcs_integrity_due := t\<rparr>) e2) = engine_owner e" for t using put_owner [OF Some] k2 by simp
    then have "keeps_owners e (emit_integrity wall now blk r (o1, e2, s2))"
      using built_owner k1 k2 by (auto simp: emit_integrity_def keeps_owners_def)
    then have "engine_owner e3 = engine_owner e" "sent_to e o3" by (simp_all add: 3 keeps_owners_def)
    then show ?thesis using built_owner [of e3 e o3 blk TrgChange wall s3] by (auto simp: emit_block_def 1 2 3 Some keeps_owners_def)
  qed (simp add: emit_block_def 1 2 keeps_owners_def k1 k2)
qed

lemma emit_due_owner: "keeps_owners (fst st) (emit_due wall now st)"
proof -
  have "keeps_owners e (fold (emit_block wall now) bs st)" if "engine_owner (fst (snd st)) = engine_owner e" "sent_to e (fst st)" for bs st e
    using that
  proof (induction bs arbitrary: st)
    case (Cons b bs)
    then show ?case using emit_owner [OF Cons.prems, of wall now b] by (simp add: keeps_owners_def)
  qed (simp add: keeps_owners_def)
  from this [of "([], st)" "fst st"] show ?thesis by (simp add: emit_due_def sent_to_def)
qed

lemma gather_owner: "engine_owner (gather s dirty now blk e) = engine_owner e"
  using put_owner [of e blk] by (auto simp: gather_def Let_def split: option.split)

lemma gathers_owner: "engine_owner (fold (gather s dirty now) bs e) = engine_owner e"
  by (induction bs arbitrary: e) (simp_all add: gather_owner)

lemma engine_owner_released [simp]: "engine_owner (e\<lparr>eng_released := x\<rparr>) = engine_owner e"
  by (rule ext) (simp add: engine_owner_def)

lemma expire_owner: "engine_owner (fst (expire_block now blk st)) = engine_owner (fst st)"
  using put_owner by (auto simp: expire_block_def split: option.split prod.split)

lemma expires_owner: "engine_owner (fst (expire_reservations now st)) = engine_owner (fst st)"
proof -
  have "engine_owner (fst (fold (expire_block now) bs st)) = engine_owner (fst st)" for bs
    by (induction bs arbitrary: st) (simp_all add: expire_owner)
  then show ?thesis by (simp add: expire_reservations_def)
qed


text \<open>
  C10: a block held by a client cannot be taken from it: whatever another client writes to it leaves its
  owner and its reservation as they are, and is refused, but for giving up a reservation it does not have
  and switching off a block that is not on.
\<close>

theorem held_block_guarded:
  assumes "engine_ok e" "eng_block e blk = Some r" "rcb_holder r = Some a" "b \<noteq> a"
    and "engine_on_write b blk attribute v now (e, s) = (res, e', s')"
  shows "map_option (\<lambda>r. (rcs_owner r, rcs_reserved r)) (eng_block e' blk) = Some (rcs_owner r, rcs_reserved r) \<and>
    (res = Inl DATA_ACCESS_DENIED \<and> e' = e \<and> s' = s \<or>
     attribute \<in> {''Resv'', ''ResvTms''} \<and> requested_linger attribute v = None \<or>
     attribute = ''RptEna'' \<and> bool_of v \<noteq> Some True \<and> rcs_owner r = None)"
proof -
  have ok: "rcb_ok (eng_buffer_len e) r" using block_ok assms(1,2) by blast
  have other: "other_owner r b \<or> other_reserved r b \<and> rcs_owner r = None" "rcs_owner r \<noteq> Some b"
    "\<And>x. rcs_reserved r = Some x \<Longrightarrow> rsv_assoc x \<noteq> b"
    using assms(3,4) ok by (auto simp: rcb_holder_def other_owner_def other_reserved_def rcb_ok_def split: option.splits)
  consider (ena) "attribute = ''RptEna''" | (cmd) "attribute = ''GI'' \<or> attribute = ''PurgeBuf''"
    | (resv) "attribute = ''Resv'' \<or> attribute = ''ResvTms''"
    | (setting) "attribute \<noteq> ''RptEna''" "\<not> (attribute = ''GI'' \<or> attribute = ''PurgeBuf'')" "\<not> (attribute = ''Resv'' \<or> attribute = ''ResvTms'')"
    by blast
  then show ?thesis
  proof cases
    case ena
    then have w: "write_rpt_ena b blk v now r (e, s) = (res, e', s')" using assms(2,5) by (simp add: engine_on_write_def)
    show ?thesis
    proof (cases "bool_of v = Some True")
      case True
      then have "res = Inl DATA_ACCESS_DENIED" "e' = e" "s' = s" using w other(1) by (auto simp: write_rpt_ena_def default_to_def)
      then show ?thesis using assms(2) by simp
    next
      case False
      then have off: "\<not> default_to False (bool_of v)" by (auto simp: default_to_def split: option.split)
      show ?thesis
      proof (cases "other_owner r b")
        case True
        then have "res = Inl DATA_ACCESS_DENIED" "e' = e" "s' = s" using w off by (auto simp: write_rpt_ena_def)
        then show ?thesis using assms(2) by simp
      next
        case own: False
        then have "rcs_owner r = None" using other(1) by simp
        moreover have "eng_block e' blk = Some (r\<lparr>rcs_owner := None, rcs_integrity_due := None, rcs_pending := [], rcs_due := None\<rparr>)"
          using w off own by (auto simp: write_rpt_ena_def update_conv)
        ultimately show ?thesis using ena False by simp
      qed
    qed
  next
    case cmd
    then have "(res, e', s') = (Inl DATA_ACCESS_DENIED, e, s)"
      unfolding assms(5) [symmetric] by (elim disjE) (simp_all add: engine_on_write_def assms(2) other(2))
    then show ?thesis using assms(2) by simp
  next
    case resv
    have w: "(case write_resv b blk attribute v r e of (a, e) \<Rightarrow> (a, e, s)) = (res, e', s')"
      using resv unfolding assms(5) [symmetric] by (elim disjE) (simp_all add: engine_on_write_def assms(2))
    show ?thesis
    proof (cases "requested_linger attribute v")
      case None
      then have "e' = e" using w other(3) by (simp add: write_resv_def split: option.splits)
      then show ?thesis using resv None assms(2) by simp
    next
      case (Some l)
      then have "(res, e', s') = (Inl DATA_ACCESS_DENIED, e, s)" using w other(1) by (auto simp: write_resv_def)
      then show ?thesis using assms(2) by simp
    qed
  next
    case setting
    have "(x \<or> other_owner r b \<or> other_reserved r b) = True" for x using other(1) by blast
    with setting have "(res, e', s') = (Inl DATA_ACCESS_DENIED, e, s)"
      unfolding assms(5) [symmetric] engine_on_write_def by (simp only: prod.case assms(2) option.case Let_def if_False if_True)
    then show ?thesis using assms(2) by simp
  qed
qed

section \<open>What a report carries\<close>

lemma assembled_flds_bits: "\<forall>k. bit o' k \<longrightarrow> k < 10 \<Longrightarrow> bit (assembled_flds o' h) k \<Longrightarrow> k < 9"
proof -
  assume o': "\<forall>k. bit o' k \<longrightarrow> k < 10" and k: "bit (assembled_flds o' h) k"
  have "bit (assembled_flds o' h) k \<longleftrightarrow> k \<noteq> 9 \<and> bit o' k \<and> (hdr_buffered h \<or> k \<noteq> 6 \<and> k \<noteq> 7)"
    by (auto simp: assembled_flds_def with_segmentation_def with_entry_id_def with_buffer_overflow_def opt_set_get simp flip: opt_get_iff)
  then have "k < 10" "k \<noteq> 9" using o' k by simp_all
  then show "k < 9" by simp
qed

lemma included_sorted: "sorted_wrt (<) (included_members members reasons vals)" "\<forall>i \<in> set (included_members members reasons vals). i < length members"
proof -
  have "sorted_wrt (<) (map fst (enumerate 0 members))" by simp
  then show "sorted_wrt (<) (included_members members reasons vals)"
    unfolding included_members_def sorted_wrt_map by (rule sorted_wrt_filter)
qed (auto simp: included_members_def in_set_enumerate_eq)

lemma included_in: "i \<in> set (included_members members reasons vals) \<longleftrightarrow>
    i < length members \<and> map_of reasons (members ! i) \<noteq> None \<and> map_of vals (members ! i) \<noteq> None"
proof -
  have "i \<in> set (included_members members reasons vals) \<longleftrightarrow> (\<exists>m. (i, m) \<in> set (enumerate 0 members) \<and> map_of reasons m \<noteq> None \<and> map_of vals m \<noteq> None)"
    by (force simp: included_members_def)
  then show ?thesis by (auto simp: in_set_enumerate_eq)
qed

text \<open>The entries of an assembled report: one for each included member, in order.\<close>

definition entry_at :: "opt_flds \<Rightarrow> string list \<Rightarrow> (string \<times> reason_code) list \<Rightarrow> (string \<times> data_value) list \<Rightarrow> usize \<Rightarrow> report_entry" where
  "entry_at o' members reasons vals i = \<lparr>rpe_index = i, rpe_reference = then_some (opt_data_reference o') (members ! i),
     rpe_value = the (map_of vals (members ! i)),
     rpe_reason = then_some (opt_reason_for_inclusion o') (the (map_of reasons (members ! i)))\<rparr>"

lemma assembled_entries:
  "List.map_filter (assembled_entry o' members reasons vals) (included_members members reasons vals) =
    map (entry_at o' members reasons vals) (included_members members reasons vals)"
proof -
  have "List.map_filter (assembled_entry o' members reasons vals) is = map (entry_at o' members reasons vals) is"
    if "\<forall>i \<in> set is. i \<in> set (included_members members reasons vals)" for "is"
    using that
    by (induction "is") (auto simp: included_in List.map_filter_simps assembled_entry_def entry_at_def get_at_def default_to_def)
  then show ?thesis by simp
qed

lemma present_then_some [simp]: "present flag (then_some flag' x) \<longleftrightarrow> flag = flag'"
  by (auto simp: present_def then_some_def)

lemma present_None [simp]: "present flag None \<longleftrightarrow> \<not> flag"
  by (simp add: present_def)

lemma no_segmentation [simp]: "\<not> opt_segmentation (assembled_flds o' h)"
  by (simp add: assembled_flds_def opt_segmentation_def with_segmentation_def opt_set_get)

lemma assemble_wf:
  assumes "\<forall>k. bit opt k \<longrightarrow> k < 10" "\<And>m c k. map_of reasons m = Some c \<Longrightarrow> bit c k \<Longrightarrow> k < 6"
  shows "report_wf (assemble rptid opt members reasons vals h)"
proof -
  let ?o = "assembled_flds opt h" and ?is = "included_members members reasons vals"
  have "\<forall>k. bit ?o k \<longrightarrow> k < 10" using assembled_flds_bits [OF assms(1)] by fastforce
  moreover have "included_indices (fst (inclusion_for (length members) ?is)) (snd (inclusion_for (length members) ?is)) = ?is"
    by (rule inclusion_for_sorted) (rule included_sorted)+
  moreover have "k < 6" if "i \<in> set ?is" "bit (the (map_of reasons (members ! i))) k" for i k
    using assms(2) [of "members ! i" _ k] that by (auto simp: included_in)
  ultimately show ?thesis
    by (auto simp: assemble_def Let_def report_wf_def assembled_entries o_def entry_at_def then_some_def present_def split: if_splits)
qed

text \<open>
  What is asked of the values of a report to be sent: each can be encoded, none has the tag that marks a
  failure, and together they and the two that a segment adds fit the limits.
\<close>

definition carriable :: "limits \<Rightarrow> report \<Rightarrow> bool" where
  "carriable l r \<longleftrightarrow> length (report_values r) + 2 \<le> max_dataset_members l \<and> report_size r + 64 < 4294967000 \<and>
     (\<forall>v \<in> set (report_values r). value_ok l 0 v \<and> value_tag v \<noteq> tag_context 0)"

lemma assemble_cuttable:
  assumes "\<forall>k. bit opt k \<longrightarrow> k < 10" "\<And>m c k. map_of reasons m = Some c \<Longrightarrow> bit c k \<Longrightarrow> k < 6"
    and "carriable l (assemble rptid opt members reasons vals h)"
  shows "cuttable l (assemble rptid opt members reasons vals h)"
proof -
  let ?r = "assemble rptid opt members reasons vals h" and ?is = "included_members members reasons vals"
  have r: "rpt_inclusion ?r = inclusion_for (length members) ?is" "map rpe_index (rpt_entries ?r) = ?is" "\<not> opt_segmentation (rpt_opt_flds ?r)"
    by (simp_all add: assemble_def Let_def assembled_entries o_def entry_at_def)
  then have "data_set_len ?r = length members" by (simp add: data_set_len_def inclusion_for_length)
  moreover have "\<forall>e \<in> set (rpt_entries ?r). rpe_index e < length members" using included_sorted(2) [of members reasons vals] by (simp flip: r(2))
  ultimately show ?thesis
    using assemble_wf [OF assms(1,2)] assms(3) r included_sorted(1) by (auto simp: cuttable_def sendable_def carriable_def)
qed

lemma map_of_reasons: "reasons_ok p \<Longrightarrow> map_of p m = Some c \<Longrightarrow> bit c k \<Longrightarrow> k < 6"
  by (auto simp: reasons_ok_def dest!: map_of_SomeD)

lemma reasons_ok_all: "\<forall>k. bit c k \<longrightarrow> k < 6 \<Longrightarrow> reasons_ok (all_members ms c)"
proof -
  assume c: "\<forall>k. bit c k \<longrightarrow> k < 6"
  have "reasons_ok p \<Longrightarrow> reasons_ok (fold (\<lambda>m acc. AList.update m c acc) ms p)" for p
    by (induction ms arbitrary: p) (simp_all add: reasons_ok_update [OF _ c])
  then show ?thesis by (simp add: all_members_def)
qed

lemma reasons_ok_with: "reasons_ok p \<Longrightarrow> reasons_ok (with_values vals p)"
  by (auto simp: reasons_ok_def with_values_def)

lemma trigger_bits: "\<forall>k. bit (with_integrity REASON_NONE True) k \<longrightarrow> k < 6" "\<forall>k. bit (with_general_interrogation REASON_NONE True) k \<longrightarrow> k < 6"
  by (auto simp: with_integrity_def with_general_interrogation_def opt_set_get REASON_NONE_def simp flip: opt_get_iff split: if_splits) (simp_all add: opt_get_iff)

lemma block_opt_bits: "\<forall>k. bit (block_opt_flds s blk) k \<longrightarrow> k < 10"
  using opt_flds_from_value_bits by (auto simp: block_opt_flds_def default_to_def bind_eq_Some_conv split: option.splits)

text \<open>The report \<open>build\<close> assembles: the members the trigger names, those of them that have a value.\<close>

definition due_reasons :: "report_trigger \<Rightarrow> string list \<Rightarrow> rcb_state \<Rightarrow> (string \<times> reason_code) list" where
  "due_reasons trigger members r = (case trigger of
     TrgGeneralInterrogation \<Rightarrow> all_members members (with_general_interrogation REASON_NONE True)
   | TrgIntegrity \<Rightarrow> all_members members (with_integrity REASON_NONE True)
   | TrgChange \<Rightarrow> rcs_pending r)"

definition built_report :: "usize \<Rightarrow> ied \<Rightarrow> string \<Rightarrow> report_trigger \<Rightarrow> entry_time \<Rightarrow> string \<Rightarrow> served_data_set \<Rightarrow> rcb_state \<Rightarrow> report" where
  "built_report limit s blk trigger wall name ds r =
     (let members = sds_references ds; reasons = due_reasons trigger members r;
          vals = entry_values s reasons; reasons = with_values vals reasons
      in assemble (block_rpt_id s blk) (block_opt_flds s blk) members reasons vals
           \<lparr>hdr_seq_num = rcs_seq r, hdr_entry_time = wall, hdr_data_set = name, hdr_conf_rev = block_conf_rev s blk,
            hdr_entry_id = rcs_next_entry r, hdr_buffered = rcs_buffered r,
            hdr_overflowed = rcs_overflowed (number_entry limit trigger wall reasons vals r)\<rparr>)"

lemma number_entry_keeps [simp]:
  "rcs_seq (number_entry limit trigger wall c v r) = rcs_seq r" "rcs_buffered (number_entry limit trigger wall c v r) = rcs_buffered r"
  by (simp_all add: number_entry_def keep_entry_def Let_def)

lemma no_reasons_no_entries: "reasons = [] \<Longrightarrow> rpt_entries (assemble rptid opt members reasons vals h) = []"
  by (simp add: assemble_def Let_def included_members_def List.map_filter_simps)

lemma build_entry_sends:
  assumes "rcs_owner r = Some assoc" "with_values (entry_values s reasons) reasons \<noteq> []"
  shows "\<exists>e'. fst (build_entry blk trigger wall name members reasons r (e, s)) =
      send_report e' assoc (assemble (block_rpt_id s blk) (block_opt_flds s blk) members (with_values (entry_values s reasons) reasons) (entry_values s reasons)
         \<lparr>hdr_seq_num = rcs_seq r, hdr_entry_time = wall, hdr_data_set = name, hdr_conf_rev = block_conf_rev s blk,
          hdr_entry_id = rcs_next_entry r, hdr_buffered = rcs_buffered r,
          hdr_overflowed = rcs_overflowed (number_entry (eng_buffer_len e) trigger wall (with_values (entry_values s reasons) reasons) (entry_values s reasons) r)\<rparr>) \<and>
      pdu_budget e' assoc = pdu_budget e assoc"
  using assms by (auto simp: build_entry_def Let_def pdu_budget_def intro!: exI split: option.split)

lemma number_entry_taken:
  "rcs_overflowed (number_entry limit trigger wall c v (r\<lparr>rcs_due := None, rcs_pending := []\<rparr>)) = rcs_overflowed (number_entry limit trigger wall c v r)"
  by (simp add: number_entry_def keep_entry_def Let_def)

lemma build_sends:
  assumes "eng_block e blk = Some r" "rcs_owner r = Some assoc" "block_data_set s blk = Some (name, ds)"
    and "rpt_entries (built_report (eng_buffer_len e) s blk trigger wall name ds r) \<noteq> []"
  shows "\<exists>e'. fst (build blk trigger wall (e, s)) = send_report e' assoc (built_report (eng_buffer_len e) s blk trigger wall name ds r) \<and>
    pdu_budget e' assoc = pdu_budget e assoc"
proof -
  have "with_values (entry_values s (due_reasons trigger (sds_references ds) r)) (due_reasons trigger (sds_references ds) r) \<noteq> []"
    using assms(4) no_reasons_no_entries by (auto simp: built_report_def Let_def)
  then show ?thesis
    using build_entry_sends [of r assoc s] build_entry_sends [of "r\<lparr>rcs_due := None, rcs_pending := []\<rparr>" assoc s] assms(1-3)
    by (cases trigger) (simp_all add: build_def built_report_def due_reasons_def Let_def number_entry_taken)
qed


section \<open>Attributes the engine leaves alone\<close>

lemma path_name: "k @ ''$'' @ a = k' @ ''$'' @ b \<Longrightarrow> CHR ''$'' \<notin> set a \<Longrightarrow> CHR ''$'' \<notin> set b \<Longrightarrow> a = b"
proof -
  assume e: "k @ ''$'' @ a = k' @ ''$'' @ b" and d: "CHR ''$'' \<notin> set a" "CHR ''$'' \<notin> set b"
  have t: "takeWhile (\<lambda>c. c \<noteq> CHR ''$'') (rev (k @ ''$'' @ a)) = rev a" if "CHR ''$'' \<notin> set a" for k a
    using that by (simp add: takeWhile_append2 takeWhile_append)
  show ?thesis using t [OF d(1), of k] t [OF d(2), of k'] by (simp only: e) simp
qed

lemma set_internal_data_sets [simp]: "ied_data_sets (snd (set_internal r v s)) = ied_data_sets s" "ied_domains (snd (set_internal r v s)) = ied_domains s"
  by (simp_all add: set_internal_def split: sum.split)

lemma attribute_frame:
  "a \<noteq> b \<Longrightarrow> CHR ''$'' \<notin> set a \<Longrightarrow> CHR ''$'' \<notin> set b \<Longrightarrow> block_attribute (snd (set_internal (k @ ''$'' @ a) v s)) blk b = block_attribute s blk b"
  using path_name [of blk b k a] by (auto simp: block_attribute_def set_internal_def ied_value_def split: sum.split)

text \<open>The settings a report is built from, which no operation of the engine but a client's write to them changes.\<close>

definition same_settings :: "ied \<Rightarrow> ied \<Rightarrow> bool" where
  "same_settings s s' \<longleftrightarrow> ied_data_sets s' = ied_data_sets s \<and> (\<forall>blk. \<forall>a \<in> {''DatSet'', ''OptFlds'', ''RptID'', ''ConfRev'', ''TrgOps'', ''BufTm'', ''IntgPd''}.
     block_attribute s' blk a = block_attribute s blk a)"

lemma same_refl [simp]: "same_settings s s"
  by (simp add: same_settings_def)

lemma same_trans: "same_settings s t \<Longrightarrow> same_settings t u \<Longrightarrow> same_settings s u"
  by (simp add: same_settings_def)

definition engine_attributes :: "string list" where
  "engine_attributes = [''SqNum'', ''EntryID'', ''TimeOfEntry'', ''GI'', ''PurgeBuf'', ''RptEna'', ''Resv'', ''ResvTms'', ''Owner'']"

lemma same_set: "a \<in> set engine_attributes \<Longrightarrow> same_settings s (snd (set_internal (k @ ''$'' @ a) v s))"
  unfolding same_settings_def
proof (intro conjI allI ballI)
  fix blk b
  assume a: "a \<in> set engine_attributes" and b: "b \<in> {''DatSet'', ''OptFlds'', ''RptID'', ''ConfRev'', ''TrgOps'', ''BufTm'', ''IntgPd''}"
  have "CHR ''$'' \<notin> set a" "CHR ''$'' \<notin> set b" "a \<noteq> b"
    using a b by (auto simp: engine_attributes_def)
  then show "block_attribute (snd (set_internal (k @ ''$'' @ a) v s)) blk b = block_attribute s blk b" by (intro attribute_frame)
qed simp

lemma same_data_set: "same_settings s s' \<Longrightarrow> block_data_set s' blk = block_data_set s blk"
  by (simp add: same_settings_def block_data_set_def ied_data_set_def)

lemma same_attributes:
  "same_settings s s' \<Longrightarrow> block_opt_flds s' blk = block_opt_flds s blk" "same_settings s s' \<Longrightarrow> block_rpt_id s' blk = block_rpt_id s blk"
  "same_settings s s' \<Longrightarrow> block_conf_rev s' blk = block_conf_rev s blk" "same_settings s s' \<Longrightarrow> integrity_period s' blk = integrity_period s blk"
  by (simp_all add: same_settings_def block_opt_flds_def block_rpt_id_def block_conf_rev_def integrity_period_def)

lemma same_SqNum [simp]: "same_settings s (snd (set_internal (k @ ''$SqNum'') v s))"
  using same_set [of "''SqNum''" s k v] by (simp add: engine_attributes_def)

lemma same_publish [simp]: "same_settings s (publish_entry blk n t s)"
  unfolding publish_entry_def Let_def
  using same_trans [OF same_set [of "''EntryID''" s blk] same_set [of "''TimeOfEntry''" _ blk]] by (simp add: engine_attributes_def)

lemma same_clear: "same_settings s (clear_flag blk ''GI'' s)" "same_settings s (clear_flag blk ''PurgeBuf'' s)"
  unfolding clear_flag_def by (rule same_set, simp add: engine_attributes_def)+

lemma same_release: "same_settings s (release_reservation blk s)"
proof -
  have one: "fst av \<in> set engine_attributes \<Longrightarrow> same_settings s (set_existing blk av s)" for av s
    using same_set by (auto simp: set_existing_def split: option.split)
  have all: "\<forall>av \<in> set avs. fst av \<in> set engine_attributes \<Longrightarrow> same_settings s (fold (set_existing blk) avs s)" for avs s
    by (induction avs arbitrary: s) (auto intro: one same_trans)
  show ?thesis unfolding release_reservation_def by (rule all) (simp add: engine_attributes_def)
qed

lemma same_build: "same_settings s (snd (snd (build blk trigger wall (e, s))))"
proof -
  have "same_settings s (snd (snd (build_entry blk trigger wall data_set members reasons r (e, s))))" for data_set members reasons r e s
    using same_trans [OF same_SqNum same_publish] by (auto simp: build_entry_def Let_def split: option.split)
  then show ?thesis by (cases trigger) (auto simp: build_def Let_def split: option.split prod.split)
qed

lemma same_emit: "same_settings (snd (snd st)) (snd (snd (emit_block wall now blk st)))"
proof -
  obtain o0 e0 s0 where st: "st = (o0, e0, s0)" by (metis prod_cases3)
  obtain o1 e1 s1 where 1: "emit_interrogation wall blk st = (o1, e1, s1)" by (metis prod_cases3)
  have s1: "same_settings s0 s1"
    using 1 same_trans [OF same_clear(1) [of s0 blk] same_build [of "clear_flag blk ''GI'' s0" blk TrgGeneralInterrogation wall e0]]
    by (auto simp: st emit_interrogation_def append_built_def split: if_splits)
  obtain e2 s2 where 2: "purge_buffer blk (e1, s1) = (e2, s2)" by fastforce
  have s2: "same_settings s1 s2" using 2 same_clear(2) [of s1 blk] by (auto simp: purge_buffer_def split: if_splits)
  show ?thesis
  proof (cases "eng_block e2 blk")
    case (Some r)
    obtain o3 e3 s3 where 3: "emit_integrity wall now blk r (o1, e2, s2) = (o3, e3, s3)" by (metis prod_cases3)
    have "same_settings s2 (snd (snd (emit_integrity wall now blk r (o1, e2, s2))))"
      using same_build [of s2 blk TrgIntegrity wall] by (simp add: emit_integrity_def append_built_def)
    then have "same_settings s0 s3" using s1 s2 same_trans by (auto simp: 3)
    then have "same_settings s0 (snd (snd (emit_block wall now blk st)))"
      using same_trans [OF _ same_build [of s3 blk TrgChange wall e3]] by (auto simp: emit_block_def 1 2 3 Some append_built_def)
    then show ?thesis by (simp add: st)
  next
    case None
    then have "snd (snd (emit_block wall now blk st)) = s2" by (simp add: emit_block_def 1 2)
    then show ?thesis using same_trans [OF s1 s2] by (simp add: st)
  qed
qed

lemma same_expire: "same_settings (snd st) (snd (expire_block now blk st))"
  by (auto simp: expire_block_def same_release split: option.split prod.split)

section \<open>Where a replay resumes\<close>

text \<open>The report of one entry that was kept, with the number it is given when it is replayed.\<close>

definition kept_report :: "ied \<Rightarrow> string \<Rightarrow> string \<times> served_data_set \<Rightarrow> bool \<Rightarrow> u32 \<Rightarrow> buffered_entry \<Rightarrow> report" where
  "kept_report s blk ds overflowed sq b = assemble (block_rpt_id s blk) (block_opt_flds s blk) (sds_references (snd ds)) (bfd_reasons b) (bfd_values b)
     \<lparr>hdr_seq_num = sq, hdr_entry_time = bfd_at b, hdr_data_set = fst ds, hdr_conf_rev = block_conf_rev s blk,
      hdr_entry_id = bfd_entry_id b, hdr_buffered = True, hdr_overflowed = overflowed\<rparr>"

lemma replay_sends:
  assumes "block_data_set s blk = Some ds"
  shows "fst (replay blk assoc b overflowed sq budget s) =
      map (\<lambda>pdu. \<lparr>out_assoc = assoc, out_pdu = pdu\<rparr>) (segments (kept_report s blk ds overflowed sq b) budget)"
    "same_settings s (snd (replay blk assoc b overflowed sq budget s))"
  using same_trans [OF same_SqNum same_publish] assms
  by (cases ds; simp add: replay_def Let_def kept_report_def)+

lemma seq_after: "((of_nat (n mod 65536) :: u32) + 1) mod 0x10000 = of_nat (Suc n mod 65536)"
proof -
  have "unat (of_nat (m mod 65536) :: u32) = m mod 65536" for m
    using of_nat_inverse [of "m mod 65536" "of_nat (m mod 65536) :: u32"] by (simp add: order.strict_trans [OF mod_less_divisor])
  moreover from this [of n] have "unat ((of_nat (n mod 65536) :: u32) + 1) = n mod 65536 + 1"
    using mod_less_divisor [of 65536 n] by (subst unat_add_lem [THEN iffD1]) simp_all
  ultimately have "unat (((of_nat (n mod 65536) :: u32) + 1) mod 0x10000) = unat (of_nat (Suc n mod 65536) :: u32)"
    by (simp add: unat_mod mod_Suc_eq)
  then show ?thesis by (simp add: word_unat_eq_iff)
qed

definition replayed :: "ied \<Rightarrow> string \<Rightarrow> string \<times> served_data_set \<Rightarrow> assoc_id \<Rightarrow> usize \<Rightarrow> bool \<Rightarrow> nat \<Rightarrow> nat \<times> buffered_entry \<Rightarrow> outgoing list" where
  "replayed s blk ds assoc budget overflowed base kb = map (\<lambda>pdu. \<lparr>out_assoc = assoc, out_pdu = pdu\<rparr>)
     (segments (kept_report s blk ds (fst kb = 0 \<and> overflowed) (of_nat ((base + fst kb) mod 65536)) (snd kb)) budget)"

lemma kept_same: "same_settings s s' \<Longrightarrow> kept_report s' blk ds o' n b = kept_report s blk ds o' n b"
  by (simp add: kept_report_def same_attributes)

lemma drain_fold:
  assumes "block_data_set s blk = Some ds" "same_settings s s'" "eng_block e blk = Some r" "rcs_seq r = of_nat ((base + i) mod 65536)"
  shows "fst (fold (drain_entry blk assoc o' budget) (enumerate i bs) (out, e, s')) =
    out @ concat (map (replayed s blk ds assoc budget o' base) (enumerate i bs))"
  using assms(2-)
proof (induction bs arbitrary: i out e s' r)
  case (Cons b bs)
  let ?e = "eng_put blk (r\<lparr>rcs_seq := of_nat ((base + Suc i) mod 65536)\<rparr>) e"
  obtain o1 s1 where 1: "replay blk assoc b (i = 0 \<and> o') (rcs_seq r) budget s' = (o1, s1)" by fastforce
  have ds: "block_data_set s' blk = Some ds" using Cons.prems(1) assms(1) by (simp add: same_data_set)
  have o1: "o1 = replayed s blk ds assoc budget o' base (i, b)" and s1: "same_settings s s1"
    using replay_sends [OF ds, of assoc b "i = 0 \<and> o'" "rcs_seq r" budget] 1 same_trans [OF Cons.prems(1)]
    by (simp_all add: replayed_def kept_same [OF Cons.prems(1)] Cons.prems(3))
  have "(rcs_seq r + 1) mod 0x10000 = of_nat ((base + Suc i) mod 65536)" using seq_after [of "base + i"] by (simp add: Cons.prems(3))
  then have "drain_entry blk assoc o' budget (i, b) (out, e, s') = (out @ o1, ?e, s1)"
    using Cons.prems(2) 1 by (simp add: drain_entry_def Let_def)
  moreover have "eng_block ?e blk = Some (r\<lparr>rcs_seq := of_nat ((base + Suc i) mod 65536)\<rparr>)" by (simp add: update_conv)
  ultimately show ?case using Cons.IH [of s1 ?e _ "Suc i" "out @ o1", OF s1] o1 by simp
qed simp


section \<open>What a client that is gone leaves behind\<close>

lemma close_other: "k \<noteq> blk \<Longrightarrow> eng_block (fst (close_block a now k st)) blk = eng_block (fst st) blk"
  by (cases st) (auto simp: close_block_def update_conv Let_def split: option.split)

lemma close_fold:
  assumes step: "\<And>st. P (eng_block (fst st) blk) \<Longrightarrow> P (eng_block (fst (close_block a now blk st)) blk)" and P: "P (eng_block e blk)"
  shows "P (eng_block (fst (engine_closed a now (e, s))) blk)"
proof -
  have "P (eng_block (fst st) blk) \<Longrightarrow> P (eng_block (fst (fold (close_block a now) ks st)) blk)" for ks st
  proof (induction ks arbitrary: st)
    case (Cons k ks)
    have "P (eng_block (fst (close_block a now k st)) blk)"
      using Cons.prems step close_other [of k blk a now st] by (cases "k = blk") simp_all
    then show ?case using Cons.IH by simp
  qed simp
  then show ?thesis using P by (simp add: engine_closed_def Let_def)
qed

text \<open>
  C37: a reservation that is to outlive its association outlives it for nobody. After the association
  that reserved a block with \<open>ResvTms\<close> has ended, every other association that enables the block is refused:
  the same client coming back is another association, and the reservation names the one that is gone.
\<close>

theorem reservation_outlives_client:
  assumes "eng_block e blk = Some r" "rcs_reserved r = Some x" "rsv_assoc x = a" "rsv_linger_secs x = Some secs" "b \<noteq> a"
  shows "fst (engine_on_write b blk ''RptEna'' (Boolean True) t (engine_closed a now (e, s))) = Inl DATA_ACCESS_DENIED"
proof -
  let ?P = "\<lambda>b. \<exists>r x. b = Some r \<and> rcs_reserved r = Some x \<and> rsv_assoc x = a \<and> rsv_linger_secs x = Some secs"
  have "?P (eng_block (fst (engine_closed a now (e, s))) blk)"
  proof (rule close_fold)
    fix st :: "report_engine \<times> ied"
    assume "?P (eng_block (fst st) blk)"
    then show "?P (eng_block (fst (close_block a now blk st)) blk)"
      by (cases st) (auto simp: close_block_def update_conv Let_def)
  qed (use assms in blast)
  then obtain r' where r': "eng_block (fst (engine_closed a now (e, s))) blk = Some r'" "other_reserved r' b"
    using assms(5) by (auto simp: other_reserved_def)
  show ?thesis
    using r' by (cases "engine_closed a now (e, s)") (simp add: engine_on_write_def write_rpt_ena_def default_to_def bool_of_def)
qed

text \<open>
  Nor does the end of an association stop the integrity scans of a block it had enabled, as switching the
  block off does.
\<close>

lemma closed_keeps_scanning:
  assumes "eng_block e blk = Some r" "rcs_integrity_due r = Some d"
  shows "\<exists>r'. eng_block (fst (engine_closed a now (e, s))) blk = Some r' \<and> rcs_integrity_due r' = Some d"
proof -
  let ?P = "\<lambda>b. \<exists>r. b = Some r \<and> rcs_integrity_due r = Some d"
  have "?P (eng_block (fst (engine_closed a now (e, s))) blk)"
  proof (rule close_fold)
    fix st :: "report_engine \<times> ied"
    assume "?P (eng_block (fst st) blk)"
    then show "?P (eng_block (fst (close_block a now blk st)) blk)"
      by (cases st) (auto simp: close_block_def update_conv Let_def split: option.split)
  qed (use assms in blast)
  then show ?thesis .
qed

section \<open>A gathering window whose data set is gone\<close>

definition waiting :: "string \<Rightarrow> instant \<Rightarrow> report_engine \<Rightarrow> bool" where
  "waiting blk d e \<longleftrightarrow> (\<exists>r. eng_block e blk = Some r \<and> rcs_due r = Some d)"

lemma build_other: "k \<noteq> blk \<Longrightarrow> eng_block (fst (snd (build k trigger wall (e, s)))) blk = eng_block e blk"
  by (cases trigger) (auto simp: build_def build_entry_def update_conv Let_def split: option.split)

lemma build_without: "block_data_set s blk = None \<Longrightarrow> build blk trigger wall (e, s) = ([], e, s)"
  by (simp add: build_def)

lemma build_waiting: "block_data_set s blk = None \<Longrightarrow> waiting blk d e \<Longrightarrow> waiting blk d (fst (snd (build k trigger wall (e, s))))"
  by (cases "k = blk") (simp_all add: build_without waiting_def build_other)

lemma put_waiting: "waiting blk d e \<Longrightarrow> eng_block e k = Some r \<Longrightarrow> rcs_due r' = rcs_due r \<Longrightarrow> waiting blk d (eng_put k r' e)"
  by (auto simp: waiting_def update_conv)

lemma same_none: "same_settings s s' \<Longrightarrow> block_data_set s blk = None \<Longrightarrow> block_data_set s' blk = None"
  by (simp add: same_data_set)

lemma emit_waiting:
  assumes "waiting blk d (fst (snd st))" "block_data_set (snd (snd st)) blk = None"
  shows "waiting blk d (fst (snd (emit_block wall now k st))) \<and> block_data_set (snd (snd (emit_block wall now k st))) blk = None"
proof
  show "block_data_set (snd (snd (emit_block wall now k st))) blk = None" by (rule same_none [OF same_emit assms(2)])
  obtain o0 e0 s0 where st: "st = (o0, e0, s0)" by (metis prod_cases3)
  obtain o1 e1 s1 where 1: "emit_interrogation wall k st = (o1, e1, s1)" by (metis prod_cases3)
  have s0: "block_data_set (clear_flag k ''GI'' s0) blk = None" using same_none [OF same_clear(1)] assms(2) by (simp add: st)
  then have w1: "waiting blk d e1" "block_data_set s1 blk = None"
    using 1 assms build_waiting [OF s0, of d e0 k TrgGeneralInterrogation wall] same_none [OF same_build s0, of k TrgGeneralInterrogation wall e0]
    by (auto simp: st emit_interrogation_def append_built_def split: if_splits)
  obtain e2 s2 where 2: "purge_buffer k (e1, s1) = (e2, s2)" by fastforce
  have w2: "waiting blk d e2" "block_data_set s2 blk = None"
    using 2 w1 put_waiting [OF w1(1)] same_none [OF same_clear(2) w1(2)] by (auto simp: purge_buffer_def split: if_splits option.splits)
  show "waiting blk d (fst (snd (emit_block wall now k st)))"
  proof (cases "eng_block e2 k")
    case (Some r)
    obtain o3 e3 s3 where 3: "emit_integrity wall now k r (o1, e2, s2) = (o3, e3, s3)" by (metis prod_cases3)
    have put: "waiting blk d (eng_put k (r\<lparr>rcs_integrity_due := t\<rparr>) e2)" for t by (rule put_waiting [OF w2(1) Some]) simp
    have "waiting blk d (fst (snd (emit_integrity wall now k r (o1, e2, s2)))) \<and>
        block_data_set (snd (snd (emit_integrity wall now k r (o1, e2, s2)))) blk = None"
      using build_waiting [OF w2(2) put] same_none [OF same_build w2(2)] w2 by (simp add: emit_integrity_def append_built_def)
    then have "waiting blk d e3" "block_data_set s3 blk = None" by (simp_all add: 3)
    then show ?thesis using build_waiting [of s3 blk d e3 k TrgChange wall] by (simp add: emit_block_def 1 2 3 Some append_built_def)
  qed (simp add: emit_block_def 1 2 w2)
qed

lemma expire_waiting:
  assumes "waiting blk d (fst st)" "block_data_set (snd st) blk = None"
  shows "waiting blk d (fst (expire_reservations now st)) \<and> block_data_set (snd (expire_reservations now st)) blk = None"
proof -
  have one: "waiting blk d (fst (expire_block now k st))" if "waiting blk d (fst st)" for k st
    using that put_waiting by (auto simp: expire_block_def waiting_def update_conv split: option.split prod.split)
  have "waiting blk d (fst st) \<Longrightarrow> block_data_set (snd st) blk = None \<Longrightarrow>
      waiting blk d (fst (fold (expire_block now) ks st)) \<and> block_data_set (snd (fold (expire_block now) ks st)) blk = None" for ks st
  proof (induction ks arbitrary: st)
    case (Cons k ks)
    then show ?case using one [of st k] same_none [OF same_expire [of st now k]] by simp
  qed simp
  then show ?thesis using assms by (simp add: expire_reservations_def)
qed

lemma emit_due_waiting:
  assumes "waiting blk d (fst st)" "block_data_set (snd st) blk = None"
  shows "waiting blk d (fst (snd (emit_due wall now st)))"
proof -
  have "waiting blk d (fst (snd st)) \<Longrightarrow> block_data_set (snd (snd st)) blk = None \<Longrightarrow> waiting blk d (fst (snd (fold (emit_block wall now) ks st)))" for ks st
  proof (induction ks arbitrary: st)
    case (Cons k ks)
    then show ?case using emit_waiting [OF Cons.prems, of wall now k] by simp
  qed simp
  then show ?thesis using assms by (simp add: emit_due_def)
qed

lemma min_of_le: "\<exists>u. min_of (Some d) x = Some u \<and> u \<le> d"
  by (cases x) (simp_all add: min_of_def)

lemma map_filter_in: "x \<in> set xs \<Longrightarrow> f x = Some u \<Longrightarrow> u \<in> set (List.map_filter f xs)"
  by (induction xs) (auto simp: List.map_filter_simps split: option.split)

lemma waiting_deadline: "waiting blk d e \<Longrightarrow> \<exists>t. engine_next_timeout e = Some t \<and> t \<le> d"
proof -
  assume "waiting blk d e"
  then obtain r where r: "(blk, r) \<in> set (eng_blocks e)" "rcs_due r = Some d" by (auto simp: waiting_def dest: map_of_SomeD)
  obtain u1 where u1: "min_of (Some d) (rcs_integrity_due r) = Some u1" "u1 \<le> d" using min_of_le by blast
  obtain u where "min_of (Some u1) (Option.bind (rcs_reserved r) rsv_until) = Some u" "u \<le> u1" using min_of_le by blast
  then have u: "block_timeout r = Some u" "u \<le> d" using u1 r(2) by (simp_all add: block_timeout_def)
  have "u \<in> set (List.map_filter (\<lambda>(_, r). block_timeout r) (eng_blocks e))"
    using r(1) u(1) map_filter_in [of "(blk, r)" "eng_blocks e" "\<lambda>(_, r). block_timeout r" u] by simp
  moreover from this obtain t where "engine_next_timeout e = Some t"
    using min_instant_None [of "List.map_filter (\<lambda>(_, r). block_timeout r) (eng_blocks e)"] by (auto simp: engine_next_timeout_def)
  ultimately show ?thesis using u(2) min_instant_le by (fastforce simp: engine_next_timeout_def)
qed

text \<open>
  C38: a timer that never goes off. Once the data set of a block whose gathering window is open has been
  deleted, the engine asks to be called at a time that has passed, and calling it, at any time, however often, changes
  nothing: the window stays open and the next deadline is no later.
\<close>

theorem gone_data_set_stalls_timer:
  assumes "eng_block e blk = Some r" "rcs_due r = Some d" "block_data_set s blk = None"
  shows "\<exists>t. engine_next_timeout (fst (fold (\<lambda>(wall, now) st. snd (engine_on_timeout wall now st)) ticks (e, s))) = Some t \<and> t \<le> d"
proof -
  let ?tick = "\<lambda>(wall, now) st. snd (engine_on_timeout wall now st)"
  have all: "waiting blk d (fst st) \<Longrightarrow> block_data_set (snd st) blk = None \<Longrightarrow> waiting blk d (fst (fold ?tick ticks st))" for st
  proof (induction ticks arbitrary: st)
    case (Cons x ticks)
    obtain wall now where x: "x = (wall, now)" by fastforce
    note w = expire_waiting [OF Cons.prems, of now]
    have "waiting blk d (fst (snd (engine_on_timeout wall now st)))"
      unfolding engine_on_timeout_def by (rule emit_due_waiting) (use w in simp_all)
    moreover have "block_data_set (snd (snd (engine_on_timeout wall now st))) blk = None"
    proof -
      have "block_data_set (snd (snd st)) blk = None \<Longrightarrow> block_data_set (snd (snd (fold (emit_block wall now) ks st))) blk = None" for ks st
      proof (induction ks arbitrary: st)
        case (Cons k ks)
        then show ?case using same_none [OF same_emit Cons.prems, of wall now k] by simp
      qed simp
      then show ?thesis using w by (simp add: engine_on_timeout_def emit_due_def)
    qed
    ultimately show ?case using Cons.IH [of "snd (engine_on_timeout wall now st)"] by (simp add: x)
  qed simp
  have "waiting blk d (fst (fold ?tick ticks (e, s)))" by (rule all) (use assms in \<open>simp_all add: waiting_def\<close>)
  then show ?thesis by (rule waiting_deadline)
qed

section \<open>A system with one block\<close>

text \<open>An unbuffered block over one status, enabled by association 7.\<close>

definition rcb_sample_ied :: ied where
  "rcb_sample_ied = sample_ied\<lparr>ied_values := map_of [(''D/X$ST$P$stVal'', Boolean False), (''D/X$RP$b$DatSet'', VisibleString ''D/X$s'')],
     ied_data_sets := [(''D/X$s'', \<lparr>sds_reference = ''D/X$s'', sds_members = [\<lparr>dsm_reference = ''D/X$ST$P$stVal'', dsm_leaves = [''D/X$ST$P$stVal'']\<rparr>],
       sds_deletable = True\<rparr>)]\<rparr>"

definition rcb_sample :: rcb_state where
  "rcb_sample = \<lparr>rcs_buffered = False, rcs_owner = Some 7, rcs_reserved = None, rcs_pending = [], rcs_due = None,
     rcs_integrity_due = None, rcs_buffer = [], rcs_next_entry = 1, rcs_overflowed = False, rcs_seq = 0\<rparr>"

definition rcb_sample_engine :: "rcb_state \<Rightarrow> report_engine" where
  "rcb_sample_engine r = \<lparr>eng_blocks = [(''D/X$RP$b'', r)], eng_buffer_len = 64, eng_pdu = Map.empty, eng_default_pdu = 65000, eng_released = []\<rparr>"

lemma sample_engine_ok: "rcb_ok 64 r \<Longrightarrow> engine_ok (rcb_sample_engine r)"
  by (simp add: engine_ok_def rcb_sample_engine_def)

lemma sample_rcb_ok: "rcb_ok 64 rcb_sample"
  by (auto simp: rcb_ok_def rcb_sample_def numbered_ok_def intro: exI [of _ 1])

lemma sample_block_data_set: "block_data_set rcb_sample_ied ''D/X$RP$b'' = Some (''D/X$s'',
    \<lparr>sds_reference = ''D/X$s'', sds_members = [\<lparr>dsm_reference = ''D/X$ST$P$stVal'', dsm_leaves = [''D/X$ST$P$stVal'']\<rparr>], sds_deletable = True\<rparr>)"
  by (simp add: block_data_set_def block_attribute_def ied_value_def rcb_sample_ied_def string_of_def ied_data_set_def)

lemma sample_member: "read_reference rcb_sample_ied ''D/X$ST$P$stVal'' = Some (Boolean False)"
  by code_simp

theorem held_block_guarded_witness:
  "fst (engine_on_write 8 ''D/X$RP$b'' ''RptEna'' (Boolean True) 5 (rcb_sample_engine rcb_sample, rcb_sample_ied)) = Inl DATA_ACCESS_DENIED"
proof -
  obtain res e' s' where w: "engine_on_write 8 ''D/X$RP$b'' ''RptEna'' (Boolean True) 5 (rcb_sample_engine rcb_sample, rcb_sample_ied) = (res, e', s')"
    by (metis prod_cases3)
  have "eng_block (rcb_sample_engine rcb_sample) ''D/X$RP$b'' = Some rcb_sample" by (simp add: rcb_sample_engine_def)
  from held_block_guarded [OF sample_engine_ok [OF sample_rcb_ok] this _ _ w, of 7]
  have "rcb_holder rcb_sample = Some 7 \<Longrightarrow> res = Inl DATA_ACCESS_DENIED" by (auto simp: bool_of_def)
  then have "res = Inl DATA_ACCESS_DENIED" by (simp add: rcb_holder_def rcb_sample_def)
  then show ?thesis unfolding w by simp
qed

theorem reservation_outlives_client_witness:
  "fst (engine_on_write 8 ''D/X$RP$b'' ''RptEna'' (Boolean True) 9 (engine_closed 7 5
     (rcb_sample_engine (rcb_sample\<lparr>rcs_reserved := Some \<lparr>rsv_assoc = 7, rsv_linger_secs = Some 60, rsv_until = None\<rparr>\<rparr>), rcb_sample_ied))) =
     Inl DATA_ACCESS_DENIED"
  by (rule reservation_outlives_client [of _ _ "rcb_sample\<lparr>rcs_reserved := Some \<lparr>rsv_assoc = 7, rsv_linger_secs = Some 60, rsv_until = None\<rparr>\<rparr>"
      "\<lparr>rsv_assoc = 7, rsv_linger_secs = Some 60, rsv_until = None\<rparr>" 7 60 8])
    (simp_all add: rcb_sample_engine_def)

theorem gone_data_set_stalls_timer_witness:
  "\<exists>t. engine_next_timeout (fst (fold (\<lambda>(wall, now) st. snd (engine_on_timeout wall now st)) [(ENTRY_TIME_MAX, 100), (ENTRY_TIME_MAX, 200)]
     (rcb_sample_engine (rcb_sample\<lparr>rcs_due := Some 50\<rparr>), rcb_sample_ied\<lparr>ied_data_sets := []\<rparr>))) = Some t \<and> t \<le> 50"
  by (rule gone_data_set_stalls_timer [of _ "''D/X$RP$b''" "rcb_sample\<lparr>rcs_due := Some 50\<rparr>"])
    (simp_all add: rcb_sample_engine_def block_data_set_def ied_data_set_def)

lemma sample_report_built:
  "built_report 64 rcb_sample_ied ''D/X$RP$b'' TrgGeneralInterrogation wall ''D/X$s''
     \<lparr>sds_reference = ''D/X$s'', sds_members = [\<lparr>dsm_reference = ''D/X$ST$P$stVal'', dsm_leaves = [''D/X$ST$P$stVal'']\<rparr>], sds_deletable = True\<rparr> rcb_sample =
   \<lparr>rpt_id = ''D/X$RP$b'', rpt_opt_flds = 0, rpt_seq_num = None, rpt_time_of_entry = None, rpt_data_set = None, rpt_buf_ovfl = None,
     rpt_entry_id = None, rpt_conf_rev = None, rpt_sub_seq_num = None, rpt_more_segments_follow = False, rpt_inclusion = (7, [128]),
     rpt_entries = [\<lparr>rpe_index = 0, rpe_reference = None, rpe_value = Boolean False, rpe_reason = None\<rparr>]\<rparr>"
  by code_simp

lemma sample_carriable:
  "carriable default_limits (built_report 64 rcb_sample_ied ''D/X$RP$b'' TrgGeneralInterrogation wall ''D/X$s''
     \<lparr>sds_reference = ''D/X$s'', sds_members = [\<lparr>dsm_reference = ''D/X$ST$P$stVal'', dsm_leaves = [''D/X$ST$P$stVal'']\<rparr>], sds_deletable = True\<rparr> rcb_sample)"
  (is "carriable _ ?r")
proof -
  have vs: "report_values ?r = [VisibleString ''D/X$RP$b'', BitString 6 [0, 0], BitString 7 [128], Boolean False]"
    unfolding sample_report_built by code_simp
  have "report_size ?r \<le> 80"
    unfolding report_size_def vs
    using element_bound [of "as_bytes ''D/X$RP$b''" 8 "tag_context VISIBLE_STRING"] element_bound [of "[6, 0, 0]" 3 "tag_context BIT_STRING"]
      element_bound [of "[7, 128]" 2 "tag_context BIT_STRING"] element_bound [of "bool_octets False" 1 "tag_context BOOLEAN"]
    by simp
  moreover have "ascii_str ''D/X$RP$b''" by code_simp
  ultimately show ?thesis unfolding carriable_def vs by (auto simp: data_tags default_limits_def)
qed

lemma sample_owner: "rcs_owner rcb_sample = Some 7" "max_dataset_members default_limits = 512"
  by (simp_all add: rcb_sample_def default_limits_def)


definition rcb_kept :: rcb_state where
  "rcb_kept = rcb_sample\<lparr>rcs_buffered := True, rcs_next_entry := 3,
     rcs_buffer := map (\<lambda>n. \<lparr>bfd_entry_id = n, bfd_at = ENTRY_TIME_MAX, bfd_reasons = [], bfd_values = []\<rparr>) [1, 2]\<rparr>"

lemma kept_ok: "rcb_ok 64 rcb_kept"
proof -
  have "numbered_ok rcb_kept" unfolding numbered_ok_def by (intro exI [of _ "[1, 2]"] exI [of _ 3]) (simp add: rcb_kept_def)
  then show ?thesis by (simp add: rcb_ok_def) (simp add: rcb_kept_def rcb_sample_def)
qed




end
