(* ===== verification/Server_Sg.thy ===== *)
theory Server_Sg
  imports Server_Rcb
begin

text \<open>
  Setting groups, server side (\<open>src/server/sg.rs\<close>): one value of a setting per group, the group in force
  under \<open>SG\<close>, the edit copy under \<open>SE\<close>, and the control block that activates a group, reserves one for
  editing and confirms the edit.
\<close>

section \<open>State\<close>

record setting_groups =
  sgg_block :: string
  sgg_domain :: string
  sgg_count :: u32
  sgg_values :: "u32 \<rightharpoonup> (string \<times> data_value) list"
  sgg_editor :: "assoc_id option"
  sgg_editor_until :: "instant option"

text \<open>\<open>str::replacen\<close> with one replacement.\<close>

fun replace_first :: "string \<Rightarrow> string \<Rightarrow> string \<Rightarrow> string" where
  "replace_first p q s = (case strip_prefix p s of
     Some rest \<Rightarrow> q @ rest
   | None \<Rightarrow> (case s of [] \<Rightarrow> [] | c # cs \<Rightarrow> c # replace_first p q cs))"

declare replace_first.simps [simp del]

definition edit_reference :: "string \<Rightarrow> string" where
  "edit_reference sg = replace_first ''$SG$'' ''$SE$'' sg"

text \<open>One setting: its reference under \<open>SG\<close>, the texts engineered per group, and the value the model has.\<close>

type_synonym setting = "string \<times> (u32 \<times> string) list \<times> data_value option"

fun setting_attribute :: "ied \<Rightarrow> string \<Rightarrow> data_attribute \<Rightarrow> setting list" where
  "setting_attribute s prefix (DataAttribute name f b ty kids v groups n) =
     (let path = prefix @ ''$'' @ name
      in (if f = Fc_SG \<or> f = Fc_SE then [(path, groups, ied_value s path)] else []) @
         concat (map (setting_attribute s path) kids))"

fun setting_walk :: "ied \<Rightarrow> string \<Rightarrow> string \<Rightarrow> string \<Rightarrow> data_obj \<Rightarrow> setting list" where
  "setting_walk s domain ln do_path (DataObject name cdc ty attributes subs n) =
     concat (map (\<lambda>a. if da_fc a = Fc_SG then setting_attribute s (domain @ ''/'' @ ln @ ''$SG$'' @ do_path) a else []) attributes) @
     concat (map (\<lambda>x. setting_walk s domain ln (do_path @ ''$'' @ dob_name x) x) subs)"

definition settings_of :: "ied \<Rightarrow> string \<Rightarrow> setting list" where
  "settings_of s domain = (case find (\<lambda>ld. ldv_name ld = domain) (imo_devices (ied_model s)) of
     None \<Rightarrow> []
   | Some ld \<Rightarrow> concat (map (\<lambda>ln. concat (map (\<lambda>obj. setting_walk s domain (lnd_name ln) (dob_name obj) obj) (lnd_data_objects ln))) (ldv_nodes ld)))"

definition setting_value :: "ied \<Rightarrow> u32 \<Rightarrow> setting \<Rightarrow> data_value option" where
  "setting_value s grp st = (case st of (r, per_group, fallback) \<Rightarrow>
     (case Option.bind (find (\<lambda>(g, _). g = grp) per_group) (\<lambda>(_, t). parse_text s r t) of
        Some v \<Rightarrow> Some v | None \<Rightarrow> fallback))"

definition group_values :: "ied \<Rightarrow> string \<Rightarrow> u32 \<Rightarrow> (string \<times> data_value) list" where
  "group_values s domain grp = fold (\<lambda>st m. case setting_value s grp st of
     Some v \<Rightarrow> AList.update (fst st) v m | None \<Rightarrow> m) (settings_of s domain) []"

definition groups_of :: "ied \<Rightarrow> block \<Rightarrow> setting_groups" where
  "groups_of s b =
     (let count = max (default_to 1 (Option.bind (ied_value s (blk_reference b @ ''$NumOfSG'')) unsigned_of)) 1
      in \<lparr>sgg_block = blk_reference b, sgg_domain = blk_domain b, sgg_count = count,
          sgg_values = (\<lambda>g. if 1 \<le> g \<and> g \<le> count then Some (group_values s (blk_domain b) g) else None),
          sgg_editor = None, sgg_editor_until = None\<rparr>)"

definition groups_new :: "ied \<Rightarrow> setting_groups list" where
  "groups_new s = map (groups_of s) (filter (\<lambda>b. blk_kind b = BkSettingGroup) (ied_blocks s))"

definition sg_device :: "setting_groups list \<Rightarrow> string \<Rightarrow> setting_groups option" where
  "sg_device gs domain = find (\<lambda>g. sgg_domain g = domain) gs"

text \<open>\<open>device_mut\<close>: the device that is found is the one that is changed.\<close>

fun sg_put :: "string \<Rightarrow> setting_groups \<Rightarrow> setting_groups list \<Rightarrow> setting_groups list" where
  "sg_put domain g' [] = []"
| "sg_put domain g' (g # gs) = (if sgg_domain g = domain then g' # gs else g # sg_put domain g' gs)"

definition sg_is_block :: "setting_groups list \<Rightarrow> string \<Rightarrow> (string \<times> string) option" where
  "sg_is_block gs r = Option.bind (rsplit_once (CHR ''$'') r) (\<lambda>(blk, attribute).
     map_option (\<lambda>_. (blk, attribute)) (find (\<lambda>g. sgg_block g = blk) gs))"

section \<open>Putting a group into force\<close>

definition write_leaves :: "(string \<times> data_value) list \<Rightarrow> ied \<Rightarrow> ied" where
  "write_leaves vals s = fold (\<lambda>(r, v) s. snd (write_leaf r v s)) vals s"

definition apply_group :: "setting_groups list \<Rightarrow> string \<Rightarrow> u32 \<Rightarrow> ied \<Rightarrow> ied" where
  "apply_group gs domain grp s = (case sg_device gs domain of
     None \<Rightarrow> s
   | Some g \<Rightarrow> (case sgg_values g grp of
       None \<Rightarrow> s
     | Some vals \<Rightarrow> snd (write_leaf (sgg_block g @ ''$ActSG'') (Unsigned (ucast grp)) (write_leaves vals s))))"

definition activate_initial :: "setting_groups list \<Rightarrow> ied \<Rightarrow> ied" where
  "activate_initial gs s =
     (let plan = map (\<lambda>g. (sgg_domain g, default_to 1 (Option.bind (ied_value s (sgg_block g @ ''$ActSG'')) unsigned_of))) gs
      in fold (\<lambda>(domain, grp) s. apply_group gs domain grp s) plan s)"

section \<open>Writes to the control block\<close>

definition sg_expire :: "instant \<Rightarrow> setting_groups list \<Rightarrow> setting_groups list" where
  "sg_expire now gs = map (\<lambda>g. if elapsed (sgg_editor_until g) now then g\<lparr>sgg_editor := None, sgg_editor_until := None\<rparr> else g) gs"

definition edited_by_other :: "setting_groups \<Rightarrow> assoc_id \<Rightarrow> bool" where
  "edited_by_other g assoc \<longleftrightarrow> (case sgg_editor g of Some e \<Rightarrow> e \<noteq> assoc | None \<Rightarrow> False)"

definition hold_deadline :: "u32 \<Rightarrow> instant \<Rightarrow> instant option" where
  "hold_deadline seconds now = (if seconds > 0 then Some (plus_millis now (ucast seconds * 1000)) else None)"

definition reservation_deadline :: "ied \<Rightarrow> string \<Rightarrow> instant \<Rightarrow> instant option" where
  "reservation_deadline s blk now = hold_deadline (default_to 0 (Option.bind (ied_value s (blk @ ''$ResvTms'')) unsigned_of)) now"

definition fill_edit_copy :: "(string \<times> data_value) list \<Rightarrow> ied \<Rightarrow> ied" where
  "fill_edit_copy vals s = fold (\<lambda>(r, v) s. snd (set_internal (edit_reference r) v s)) vals s"

definition edit_copy :: "ied \<Rightarrow> string list \<Rightarrow> (string \<times> data_value) list" where
  "edit_copy s references = List.map_filter (\<lambda>r. map_option (\<lambda>v. (r, v)) (ied_value s (edit_reference r))) references"

definition write_act_sg :: "string \<Rightarrow> string \<Rightarrow> data_value \<Rightarrow> now \<Rightarrow> setting_groups list \<times> ied \<Rightarrow> access \<times> setting_groups list \<times> ied" where
  "write_act_sg domain blk v at st = (case st of (gs, s) \<Rightarrow> (case unsigned_of v of
     None \<Rightarrow> (Inl DATA_ACCESS_VALUE_INVALID, st)
   | Some grp \<Rightarrow>
       if \<not> (case sg_device gs domain of Some g \<Rightarrow> 1 \<le> grp \<and> grp \<le> sgg_count g | None \<Rightarrow> False)
       then (Inl DATA_ACCESS_VALUE_INVALID, st)
       else (Inr (), gs, snd (set_internal (blk @ ''$LActTm'') (BinaryTime (utc_to_octets (now_wall at)))
              (apply_group gs domain grp s)))))"

definition write_edit_sg :: "assoc_id \<Rightarrow> string \<Rightarrow> string \<Rightarrow> data_value \<Rightarrow> now \<Rightarrow> setting_groups list \<times> ied \<Rightarrow> access \<times> setting_groups list \<times> ied" where
  "write_edit_sg assoc domain blk v at st = (case st of (gs, s) \<Rightarrow> (case unsigned_of v of
     None \<Rightarrow> (Inl DATA_ACCESS_VALUE_INVALID, st)
   | Some grp \<Rightarrow> (case sg_device gs domain of
       None \<Rightarrow> (Inr (), st)
     | Some g \<Rightarrow>
        if grp = 0 then
          (if edited_by_other g assoc then (Inl DATA_ACCESS_DENIED, st)
           else (Inr (), sg_put domain (g\<lparr>sgg_editor := None, sgg_editor_until := None\<rparr>) gs, s))
        else if grp > sgg_count g then (Inl DATA_ACCESS_VALUE_INVALID, st)
        else if edited_by_other g assoc then (Inl DATA_ACCESS_DENIED, st)
        else (Inr (), sg_put domain (g\<lparr>sgg_editor := Some assoc, sgg_editor_until := reservation_deadline s blk (now_mono at)\<rparr>) gs,
              fill_edit_copy (default_to [] (sgg_values g grp)) s))))"

definition write_cnf_edit :: "assoc_id \<Rightarrow> string \<Rightarrow> string \<Rightarrow> data_value \<Rightarrow> setting_groups list \<times> ied \<Rightarrow> access \<times> setting_groups list \<times> ied" where
  "write_cnf_edit assoc domain blk v st = (case st of (gs, s) \<Rightarrow>
     if \<not> default_to False (bool_of v) then (Inr (), st)
     else (case sg_device gs domain of
       None \<Rightarrow> (Inr (), st)
     | Some g \<Rightarrow>
        if edited_by_other g assoc then (Inl DATA_ACCESS_DENIED, st)
        else
          (let grp = default_to 0 (Option.bind (ied_value s (blk @ ''$EditSG'')) unsigned_of) in
           if grp = 0 \<or> grp > sgg_count g then (Inl DATA_ACCESS_DENIED, st)
           else
             (let held = default_to [] (sgg_values g grp);
                  edited = edit_copy s (map fst held);
                  gs = sg_put domain (g\<lparr>sgg_values := (case sgg_values g grp of
                         Some slot \<Rightarrow> (sgg_values g)(grp \<mapsto> fold (\<lambda>(r, v) m. AList.update r v m) edited slot)
                       | None \<Rightarrow> sgg_values g)\<rparr>) gs;
                  active = default_to 1 (Option.bind (ied_value s (blk @ ''$ActSG'')) unsigned_of)
              in (Inr (), gs, if active = grp then apply_group gs domain grp s else s)))))"

definition write_sg_resv :: "assoc_id \<Rightarrow> string \<Rightarrow> data_value \<Rightarrow> now \<Rightarrow> setting_groups list \<Rightarrow> access \<times> setting_groups list" where
  "write_sg_resv assoc domain v at gs = (case unsigned_of v of
     None \<Rightarrow> (Inl DATA_ACCESS_VALUE_INVALID, gs)
   | Some seconds \<Rightarrow> (case sg_device gs domain of
       None \<Rightarrow> (Inr (), gs)
     | Some g \<Rightarrow>
        if edited_by_other g assoc then (Inl DATA_ACCESS_DENIED, gs)
        else if sgg_editor g = Some assoc
        then (Inr (), sg_put domain (g\<lparr>sgg_editor_until := hold_deadline seconds (now_mono at)\<rparr>) gs)
        else (Inr (), gs)))"

definition on_block_write :: "assoc_id \<Rightarrow> string \<Rightarrow> string \<Rightarrow> data_value \<Rightarrow> now \<Rightarrow> setting_groups list \<times> ied \<Rightarrow> access \<times> setting_groups list \<times> ied" where
  "on_block_write assoc blk attribute v at st = (case st of (gs, s) \<Rightarrow> (case find (\<lambda>g. sgg_block g = blk) gs of
     None \<Rightarrow> (Inr (), st)
   | Some found \<Rightarrow>
      (let domain = sgg_domain found; gs = sg_expire (now_mono at) gs in
       if attribute = ''ActSG'' then write_act_sg domain blk v at (gs, s)
       else if attribute = ''EditSG'' then write_edit_sg assoc domain blk v at (gs, s)
       else if attribute = ''CnfEdit'' then write_cnf_edit assoc domain blk v (gs, s)
       else if attribute = ''ResvTms'' then (case write_sg_resv assoc domain v at gs of (a, gs) \<Rightarrow> (a, gs, s))
       else (Inl DATA_ACCESS_DENIED, gs, s))))"

definition after_block_write :: "setting_groups list \<Rightarrow> string \<Rightarrow> string \<Rightarrow> ied \<Rightarrow> ied" where
  "after_block_write gs blk attribute s =
     (if attribute = ''CnfEdit'' \<and> list_ex (\<lambda>g. sgg_block g = blk) gs then snd (set_internal (blk @ ''$CnfEdit'') (Boolean False) s) else s)"

section \<open>The edit copy\<close>

definition selected_group :: "ied \<Rightarrow> setting_groups \<Rightarrow> u32" where
  "selected_group s g = default_to 0 (Option.bind (ied_value s (sgg_block g @ ''$EditSG'')) unsigned_of)"

definition on_edit_read :: "setting_groups list \<Rightarrow> assoc_id \<Rightarrow> ied \<Rightarrow> string \<Rightarrow> access" where
  "on_edit_read gs assoc s r = (case split_once (CHR ''/'') r of
     None \<Rightarrow> Inl DATA_ACCESS_DENIED
   | Some (domain, _) \<Rightarrow> (case sg_device gs domain of
       None \<Rightarrow> Inl DATA_ACCESS_DENIED
     | Some g \<Rightarrow> if selected_group s g = 0 then Inl DATA_ACCESS_DENIED else Inr ()))"

definition on_edit_write :: "setting_groups list \<Rightarrow> assoc_id \<Rightarrow> ied \<Rightarrow> string \<Rightarrow> access" where
  "on_edit_write gs assoc s r = (case split_once (CHR ''/'') r of
     None \<Rightarrow> Inl DATA_ACCESS_DENIED
   | Some (domain, _) \<Rightarrow> (case sg_device gs domain of
       None \<Rightarrow> Inl DATA_ACCESS_DENIED
     | Some g \<Rightarrow> if selected_group s g = 0 then Inl DATA_ACCESS_DENIED
         else if edited_by_other g assoc then Inl DATA_ACCESS_DENIED else Inr ()))"

definition on_active_write :: access where "on_active_write = Inl DATA_ACCESS_DENIED"

section \<open>Associations and time\<close>

definition groups_closed :: "assoc_id \<Rightarrow> setting_groups list \<Rightarrow> setting_groups list" where
  "groups_closed assoc gs = map (\<lambda>g. if sgg_editor g = Some assoc then g\<lparr>sgg_editor := None, sgg_editor_until := None\<rparr> else g) gs"

definition groups_on_timeout :: "instant \<Rightarrow> setting_groups list \<times> ied \<Rightarrow> setting_groups list \<times> ied" where
  "groups_on_timeout now st = (case st of (gs, s) \<Rightarrow>
     (let lapsed = map sgg_block (filter (\<lambda>g. sgg_editor g \<noteq> None \<and> elapsed (sgg_editor_until g) now) gs)
      in (sg_expire now gs, fold (\<lambda>blk s. snd (set_internal (blk @ ''$EditSG'') (Unsigned 0) s)) lapsed s)))"

definition groups_next_timeout :: "setting_groups list \<Rightarrow> instant option" where
  "groups_next_timeout gs = min_instant (List.map_filter sgg_editor_until (filter (\<lambda>g. sgg_editor g \<noteq> None) gs))"

text \<open>What \<open>read_sgcb\<close> of the client makes of \<open>LActTm\<close> (\<open>src/client/sg.rs\<close>).\<close>

definition last_activation :: "data_value \<Rightarrow> entry_time option" where
  "last_activation v = (case v of
     BinaryTime b \<Rightarrow> if length b = 6 then Some (et_from_octets b) else None
   | UtcTime t \<Rightarrow> Some (et_from_unix_millis (utc_to_unix_nanos t div 1000000))
   | _ \<Rightarrow> None)"

section \<open>Devices\<close>

lemma device_domain: "sg_device gs d = Some g \<Longrightarrow> sgg_domain g = d"
  by (auto simp: sg_device_def find_Some_iff)

lemma device_put:
  "sgg_domain g' = d \<Longrightarrow> sg_device (sg_put d g' gs) d' = (if d' = d \<and> sg_device gs d \<noteq> None then Some g' else sg_device gs d')"
  by (induction gs) (auto simp: sg_device_def)

lemma device_map: "(\<And>g. sgg_domain (f g) = sgg_domain g) \<Longrightarrow> sg_device (map f gs) d = map_option f (sg_device gs d)"
  by (induction gs) (auto simp: sg_device_def)

lemma device_expire: "sg_device (sg_expire now gs) d =
    map_option (\<lambda>g. if elapsed (sgg_editor_until g) now then g\<lparr>sgg_editor := None, sgg_editor_until := None\<rparr> else g) (sg_device gs d)"
  unfolding sg_expire_def by (rule device_map) simp

lemma device_closed: "sg_device (groups_closed a gs) d =
    map_option (\<lambda>g. if sgg_editor g = Some a then g\<lparr>sgg_editor := None, sgg_editor_until := None\<rparr> else g) (sg_device gs d)"
  unfolding groups_closed_def by (rule device_map) simp

text \<open>A control block is that of the first device of its domain, and names no other.\<close>

definition devices_ok :: "setting_groups list \<Rightarrow> bool" where
  "devices_ok gs \<longleftrightarrow> distinct (map sgg_block gs) \<and> distinct (map sgg_domain gs)"

lemma found_device: "devices_ok gs \<Longrightarrow> sg_device gs d = Some g \<Longrightarrow> find (\<lambda>x. sgg_block x = sgg_block g) gs = Some g"
proof (induction gs)
  case (Cons x gs)
  show ?case
  proof (cases "sgg_domain x = d")
    case False
    then have g: "sg_device gs d = Some g" "devices_ok gs" using Cons.prems by (simp_all add: sg_device_def devices_ok_def)
    then have "g \<in> set gs" by (auto simp: sg_device_def find_Some_iff)
    then have "sgg_block x \<noteq> sgg_block g" using Cons.prems(1) by (auto simp: devices_ok_def)
    then show ?thesis using Cons.IH g by simp
  qed (use Cons.prems in \<open>simp add: sg_device_def\<close>)
qed (simp add: sg_device_def)

section \<open>One editor\<close>

text \<open>
  C14: a setting group is edited by one client. While the hold of an association on a device has not run
  out, no other association selects or releases a group, confirms an edit, changes how long the hold lasts,
  or writes a setting of the edit copy; the values of every group, the hold and the model stay as they are.
\<close>

theorem edit_is_exclusive:
  assumes "devices_ok gs" "sg_device gs d = Some g" "sgg_editor g = Some a" "b \<noteq> a" "\<not> elapsed (sgg_editor_until g) (now_mono at)"
    and "attribute \<in> {''EditSG'', ''CnfEdit'', ''ResvTms''}" "on_block_write b (sgg_block g) attribute v at (gs, s) = (res, gs', s')"
  shows "(res = Inr () \<longrightarrow> attribute = ''CnfEdit'' \<and> bool_of v \<noteq> Some True) \<and> sg_device gs' d = Some g \<and> s' = s \<and>
    (\<forall>item. CHR ''/'' \<notin> set d \<longrightarrow> on_edit_write gs b s (d @ ''/'' @ item) = Inl DATA_ACCESS_DENIED)"
proof -
  have e: "sg_device (sg_expire (now_mono at) gs) d = Some g" using assms(2,5) by (simp add: device_expire)
  have o: "edited_by_other g b" using assms(3,4) by (simp add: edited_by_other_def)
  have w: "on_edit_write gs b s (d @ ''/'' @ item) = Inl DATA_ACCESS_DENIED" if "CHR ''/'' \<notin> set d" for item
    using that assms(2) o by (simp add: on_edit_write_def split_once_append)
  have f: "on_block_write b (sgg_block g) attribute v at (gs, s) =
      (if attribute = ''EditSG'' then write_edit_sg b d (sgg_block g) v at (sg_expire (now_mono at) gs, s)
       else if attribute = ''CnfEdit'' then write_cnf_edit b d (sgg_block g) v (sg_expire (now_mono at) gs, s)
       else (case write_sg_resv b d v at (sg_expire (now_mono at) gs) of (x, y) \<Rightarrow> (x, y, s)))"
    using assms(6) found_device [OF assms(1,2)] device_domain [OF assms(2)] by (auto simp: on_block_write_def)
  show ?thesis
    using assms(7) w e o unfolding f
    by (cases "unsigned_of v") (auto simp: write_edit_sg_def write_cnf_edit_def write_sg_resv_def default_to_def split: if_splits option.splits)
qed

section \<open>Confirming an edit\<close>

lemma map_of_fold_update: "map_of (fold (\<lambda>(r, v) m. AList.update r v m) kvs m) = map_of m ++ map_of (rev kvs)"
proof (induction kvs arbitrary: m)
  case (Cons kv kvs)
  obtain k v where kv: "kv = (k, v)" by fastforce
  show ?case by (rule ext) (simp add: kv Cons.IH update_conv map_add_def split: option.split)
qed simp

lemma map_of_edit_copy: "map_of (rev (edit_copy s rs)) r = (if r \<in> set rs then ied_value s (edit_reference r) else None)"
proof -
  have "map_of (rev (edit_copy s rs)) = map_of (edit_copy s (rev rs))" by (simp add: edit_copy_def List.map_filter_def rev_map rev_filter)
  moreover have "map_of (edit_copy s xs) r = (if r \<in> set xs then ied_value s (edit_reference r) else None)" for xs
    by (induction xs) (auto simp: edit_copy_def List.map_filter_simps split: option.split)
  ultimately show ?thesis by simp
qed

text \<open>The group an edit is confirmed into: every setting it has, with the value of the edit copy.\<close>

definition confirmed :: "ied \<Rightarrow> (string \<times> data_value) list \<Rightarrow> string \<rightharpoonup> data_value" where
  "confirmed s held = (\<lambda>r. case map_of held r of
     None \<Rightarrow> None | Some v \<Rightarrow> (case ied_value s (edit_reference r) of Some w \<Rightarrow> Some w | None \<Rightarrow> Some v))"

lemma confirmed_slot: "map_of (fold (\<lambda>(r, v) m. AList.update r v m) (edit_copy s (map fst held)) held) = confirmed s held"
proof (rule ext)
  fix r
  show "map_of (fold (\<lambda>(r, v) m. AList.update r v m) (edit_copy s (map fst held)) held) r = confirmed s held r"
  proof (cases "map_of held r")
    case None
    then have "r \<notin> fst ` set held" by (simp add: map_of_eq_None_iff)
    then show ?thesis using None by (simp add: map_of_fold_update map_add_def map_of_edit_copy confirmed_def)
  next
    case (Some v)
    then have "r \<in> fst ` set held" by (force dest: map_of_SomeD)
    then show ?thesis using Some by (simp add: map_of_fold_update map_add_def map_of_edit_copy confirmed_def split: option.split)
  qed
qed

lemma confirm_step:
  assumes "sg_device gs d = Some g" "\<not> edited_by_other g b" "bool_of v = Some True"
    and "selected_group s g = n" "1 \<le> n" "n \<le> sgg_count g" "sgg_values g n = Some held"
  shows "\<exists>gs' s' g'. write_cnf_edit b d (sgg_block g) v (gs, s) = (Inr (), gs', s') \<and> sg_device gs' d = Some g' \<and>
    map_option map_of (sgg_values g' n) = Some (confirmed s held) \<and> (\<forall>m. m \<noteq> n \<longrightarrow> sgg_values g' m = sgg_values g m) \<and>
    s' = (if default_to 1 (Option.bind (ied_value s (sgg_block g @ ''$ActSG'')) unsigned_of) = n then apply_group gs' d n s else s)"
proof -
  have "n \<noteq> 0" "\<not> sgg_count g < n" using assms(5,6) by (auto simp: not_less)
  then show ?thesis
    using assms device_domain [OF assms(1)] confirmed_slot [of s held]
    by (simp add: write_cnf_edit_def selected_group_def Let_def device_put default_to_def [of False] default_to_def [of "[]"])
qed

text \<open>
  C13: confirming applies the whole edit. When a client confirms the group that is selected, the group
  takes for every setting it has the value of the edit copy, where there is one, and nothing else: no setting
  appears or disappears and every other group stays. If the group is in force it is applied, as confirmed.
\<close>

theorem confirm_applies_edit:
  assumes "devices_ok gs" "sg_device gs d = Some g" "\<not> edited_by_other g b" "\<not> elapsed (sgg_editor_until g) (now_mono at)"
    and "bool_of v = Some True" "selected_group s g = n" "1 \<le> n" "n \<le> sgg_count g" "sgg_values g n = Some held"
  shows "\<exists>gs' s' g'. on_block_write b (sgg_block g) ''CnfEdit'' v at (gs, s) = (Inr (), gs', s') \<and> sg_device gs' d = Some g' \<and>
    map_option map_of (sgg_values g' n) = Some (confirmed s held) \<and> (\<forall>m. m \<noteq> n \<longrightarrow> sgg_values g' m = sgg_values g m) \<and>
    s' = (if default_to 1 (Option.bind (ied_value s (sgg_block g @ ''$ActSG'')) unsigned_of) = n then apply_group gs' d n s else s)"
proof -
  have "sg_device (sg_expire (now_mono at) gs) d = Some g" using assms(2,4) by (simp add: device_expire)
  from confirm_step [OF this assms(3,5-9)] show ?thesis
    using found_device [OF assms(1,2)] device_domain [OF assms(2)] by (simp add: on_block_write_def)
qed

text \<open>
  C39: half an edit can be put into a group by a client that never selected it. When the association that
  was editing ends, its hold goes but the group stays selected and the edit copy keeps what it wrote; from
  then on any other association that confirms is answered with success, and the group takes that copy.
\<close>

theorem orphaned_edit_confirmed:
  assumes "devices_ok gs" "sg_device gs d = Some g" "sgg_editor g = Some a" "b \<noteq> a"
    and "selected_group s g = n" "1 \<le> n" "n \<le> sgg_count g" "sgg_values g n = Some held"
  shows "\<exists>gs' s' g'. on_block_write b (sgg_block g) ''CnfEdit'' (Boolean True) at (groups_closed a gs, s) = (Inr (), gs', s') \<and>
    sg_device gs' d = Some g' \<and> map_option map_of (sgg_values g' n) = Some (confirmed s held)"
proof -
  let ?g = "g\<lparr>sgg_editor := None, sgg_editor_until := None\<rparr>"
  have d: "sg_device (groups_closed a gs) d = Some ?g" using assms(2,3) by (simp add: device_closed)
  have "map sgg_block (groups_closed a gs) = map sgg_block gs" "map sgg_domain (groups_closed a gs) = map sgg_domain gs"
    by (simp_all add: groups_closed_def)
  then have ok: "devices_ok (groups_closed a gs)" using assms(1) by (simp add: devices_ok_def)
  have e: "sg_device (sg_expire (now_mono at) (groups_closed a gs)) d = Some ?g" using d by (simp add: device_expire elapsed_def)
  have "\<not> edited_by_other ?g b" "selected_group s ?g = n" "n \<le> sgg_count ?g" "sgg_values ?g n = Some held" "bool_of (Boolean True) = Some True"
    using assms by (simp_all add: edited_by_other_def selected_group_def bool_of_def)
  from confirm_step [OF e this(1,5,2) assms(6) this(3,4)] show ?thesis
    using found_device [OF ok d] device_domain [OF d] by (auto simp: on_block_write_def)
qed

section \<open>Activating a group\<close>

lemma node_at_write [simp]: "node_at (snd (write_leaf r v s)) = node_at s" "node_at (snd (set_internal r v s)) = node_at s"
  by (rule ext; simp add: node_at_def ied_domain_def write_leaf_def set_internal_def Let_def split: sum.split)+

lemma writable_leaf_write [simp]: "writable_leaf (snd (write_leaf r v s)) = writable_leaf s" "writable_leaf (snd (set_internal r v s)) = writable_leaf s"
  by (intro ext, simp add: writable_leaf_def)+

lemma write_leaf_value: "ied_value (snd (write_leaf r v s)) r' = (if r' = r \<and> (\<exists>b. writable_leaf s r v = Inr b) then Some v else ied_value s r')"
  by (auto simp: write_leaf_def ied_value_def Let_def split: sum.split)

lemma set_internal_value: "ied_value (snd (set_internal r v s)) r' = (if r' = r \<and> (\<exists>b. writable_leaf s r v = Inr b) then Some v else ied_value s r')"
  by (auto simp: set_internal_def ied_value_def split: sum.split)

lemma write_leaves_writable [simp]: "writable_leaf (write_leaves vals s) = writable_leaf s"
  unfolding write_leaves_def by (induction vals arbitrary: s) auto

lemma write_leaves_value:
  "distinct (map fst vals) \<Longrightarrow> ied_value (write_leaves vals s) r =
    (case map_of vals r of Some v \<Rightarrow> if \<exists>b. writable_leaf s r v = Inr b then Some v else ied_value s r | None \<Rightarrow> ied_value s r)"
proof (induction vals arbitrary: s)
  case (Cons kv vals)
  obtain k v where kv: "kv = (k, v)" by fastforce
  then have "ied_value (write_leaves (kv # vals) s) r = ied_value (write_leaves vals (snd (write_leaf k v s))) r"
    by (simp add: write_leaves_def)
  moreover have "map_of vals k = None" using Cons.prems kv by (simp add: map_of_eq_None_iff)
  ultimately show ?case using Cons kv by (auto simp: write_leaf_value split: option.split)
qed (simp add: write_leaves_def)

text \<open>
  C25: an accepted \<open>SelectActiveSG\<close> puts exactly the group into force. Every setting of the group whose leaf
  takes its value reads as the group's value, \<open>ActSG\<close> reads as the group, and no other attribute but the time
  of activation changes.
\<close>

theorem activation_in_force:
  assumes "devices_ok gs" "sg_device gs d = Some g" "\<not> elapsed (sgg_editor_until g) (now_mono at)"
    and "unsigned_of v = Some n" "1 \<le> n" "n \<le> sgg_count g" "sgg_values g n = Some vals" "distinct (map fst vals)"
    and "r \<noteq> sgg_block g @ ''$LActTm''" "r \<noteq> sgg_block g @ ''$ActSG''"
  shows "\<exists>gs' s'. on_block_write b (sgg_block g) ''ActSG'' v at (gs, s) = (Inr (), gs', s') \<and>
    ied_value s' r = (case map_of vals r of Some w \<Rightarrow> if \<exists>t. writable_leaf s r w = Inr t then Some w else ied_value s r | None \<Rightarrow> ied_value s r) \<and>
    ((\<exists>t. writable_leaf s (sgg_block g @ ''$ActSG'') (Unsigned (ucast n)) = Inr t) \<longrightarrow>
      ied_value s' (sgg_block g @ ''$ActSG'') = Some (Unsigned (ucast n)))"
proof -
  have e: "sg_device (sg_expire (now_mono at) gs) d = Some g" using assms(2,3) by (simp add: device_expire)
  show ?thesis
    using assms(4-10) e found_device [OF assms(1,2)] device_domain [OF assms(2)]
    by (simp add: on_block_write_def write_act_sg_def apply_group_def set_internal_value write_leaf_value write_leaves_value Let_def)
qed

text \<open>
  C40: the time of an activation cannot be read. An accepted \<open>SelectActiveSG\<close> stores into \<open>LActTm\<close> the eight
  octets of a \<open>UtcTime\<close> as a binary time, of which the client takes only six octets: whatever the clock says,
  it reads that the active group was never changed.
\<close>

theorem activation_time_unreadable:
  assumes "devices_ok gs" "sg_device gs d = Some g" "\<not> elapsed (sgg_editor_until g) (now_mono at)"
    and "unsigned_of v = Some n" "1 \<le> n" "n \<le> sgg_count g" "\<And>x. \<exists>t. writable_leaf s (sgg_block g @ ''$LActTm'') (BinaryTime x) = Inr t"
  shows "\<exists>gs' s' w. on_block_write b (sgg_block g) ''ActSG'' v at (gs, s) = (Inr (), gs', s') \<and>
    ied_value s' (sgg_block g @ ''$LActTm'') = Some w \<and> last_activation w = None"
proof -
  have e: "sg_device (sg_expire (now_mono at) gs) d = Some g" using assms(2,3) by (simp add: device_expire)
  have "writable_leaf (apply_group gs' d n s) = writable_leaf s" for gs'
    by (simp add: apply_group_def split: option.split)
  then show ?thesis
    using assms(4-7) e found_device [OF assms(1,2)] device_domain [OF assms(2)]
    by (simp add: on_block_write_def write_act_sg_def set_internal_value last_activation_def Let_def)
qed

section \<open>A device with two groups\<close>

definition sg_sample_ied :: ied where
  "sg_sample_ied = \<lparr>ied_model = \<lparr>imo_name = [], imo_scl_version = [], imo_access_points = [], imo_devices = [], imo_enum_types = []\<rparr>,
     ied_domains = [\<lparr>dmn_name = ''D'', dmn_nodes = [
       var_structure ''L'' None [var_structure ''SP'' (Some Fc_SP) [var_structure ''S'' (Some Fc_SP)
         [var_leaf ''ActSG'' (Some Fc_SP) B_Int8U, var_leaf ''LActTm'' (Some Fc_SP) B_EntryTime]]],
       var_structure ''P'' None [var_structure ''SG'' (Some Fc_SG) [var_leaf ''x'' (Some Fc_SG) B_Int32],
         var_structure ''SE'' (Some Fc_SE) [var_leaf ''x'' (Some Fc_SE) B_Int32]]]\<rparr>],
     ied_values = map_of [(''D/L$SP$S$ActSG'', Unsigned 1), (''D/L$SP$S$EditSG'', Unsigned 2), (''D/P$SG$x'', Integer 10), (''D/P$SE$x'', Integer 99)],
     ied_data_sets = [], ied_blocks = [], ied_dirty = [], ied_edition = Ed2\<rparr>"

definition sg_sample :: "assoc_id option \<Rightarrow> setting_groups" where
  "sg_sample editor = \<lparr>sgg_block = ''D/L$SP$S'', sgg_domain = ''D'', sgg_count = 2,
     sgg_values = map_of [(1, [(''D/P$SG$x'', Integer 10)]), (2, [(''D/P$SG$x'', Integer 20)])], sgg_editor = editor, sgg_editor_until = None\<rparr>"

lemma sg_sample_facts:
  "devices_ok [sg_sample e]" "sg_device [sg_sample e] ''D'' = Some (sg_sample e)" "sgg_block (sg_sample e) = ''D/L$SP$S''"
  "\<not> elapsed (sgg_editor_until (sg_sample e)) t" "sgg_editor (sg_sample e) = e" "sgg_count (sg_sample e) = 2"
  "sgg_values (sg_sample e) 2 = Some [(''D/P$SG$x'', Integer 20)]" "selected_group sg_sample_ied (sg_sample e) = 2"
  by (simp_all add: devices_ok_def sg_sample_def sg_device_def elapsed_def selected_group_def sg_sample_ied_def ied_value_def default_to_def
      unsigned_of_def try_u32_def)

lemma sg_sample_edit: "confirmed sg_sample_ied [(''D/P$SG$x'', Integer 20)] = [''D/P$SG$x'' \<mapsto> Integer 99]"
proof -
  have "edit_reference ''D/P$SG$x'' = ''D/P$SE$x''" by code_simp
  then show ?thesis by (intro ext) (simp add: confirmed_def sg_sample_ied_def ied_value_def)
qed

lemma sg_sample_leaves: "node_at sg_sample_ied ''D/L$SP$S$LActTm'' = Some (var_leaf ''LActTm'' (Some Fc_SP) B_EntryTime)"
  "node_at sg_sample_ied ''D/P$SG$x'' = Some (var_leaf ''x'' (Some Fc_SG) B_Int32)"
  by code_simp+

theorem edit_is_exclusive_witness:
  "fst (on_block_write 8 ''D/L$SP$S'' ''CnfEdit'' (Boolean True) (sample_now 5) ([sg_sample (Some 7)], sg_sample_ied)) \<noteq> Inr ()"
proof -
  obtain res gs' s' where w: "on_block_write 8 ''D/L$SP$S'' ''CnfEdit'' (Boolean True) (sample_now 5) ([sg_sample (Some 7)], sg_sample_ied) = (res, gs', s')"
    by (metis prod_cases3)
  have "res \<noteq> Inr ()"
    using edit_is_exclusive [OF sg_sample_facts(1,2) [where e = "Some 7"] sg_sample_facts(5) [where e = "Some 7"] _ sg_sample_facts(4) [where e = "Some 7"], where b = 8 and at = "sample_now 5"
        and attribute = "''CnfEdit''" and v = "Boolean True" and s = sg_sample_ied and res = res and gs' = gs' and s' = s'] w
    by (auto simp: sg_sample_facts(3) bool_of_def)
  then show ?thesis by (simp add: w)
qed

theorem confirm_applies_edit_witness:
  "\<exists>gs' s' g'. on_block_write 7 ''D/L$SP$S'' ''CnfEdit'' (Boolean True) (sample_now 5) ([sg_sample (Some 7)], sg_sample_ied) = (Inr (), gs', s') \<and>
    sg_device gs' ''D'' = Some g' \<and> map_option map_of (sgg_values g' 2) = Some [''D/P$SG$x'' \<mapsto> Integer 99]"
  using confirm_applies_edit [OF sg_sample_facts(1,2) [where e = "Some 7"] _ sg_sample_facts(4) [where e = "Some 7"] _ sg_sample_facts(8) [where e = "Some 7"] _ _ sg_sample_facts(7) [where e = "Some 7"], where b = 7 and at = "sample_now 5" and v = "Boolean True"]
  by (fastforce simp: sg_sample_facts edited_by_other_def bool_of_def sg_sample_edit)

theorem orphaned_edit_confirmed_witness:
  "\<exists>gs' s' g'. on_block_write 8 ''D/L$SP$S'' ''CnfEdit'' (Boolean True) (sample_now 5) (groups_closed 7 [sg_sample (Some 7)], sg_sample_ied) = (Inr (), gs', s') \<and>
    sg_device gs' ''D'' = Some g' \<and> map_option map_of (sgg_values g' 2) = Some [''D/P$SG$x'' \<mapsto> Integer 99]"
  using orphaned_edit_confirmed [OF sg_sample_facts(1,2) [where e = "Some 7"] sg_sample_facts(5) [where e = "Some 7"] _ sg_sample_facts(8) [where e = "Some 7"] _ _ sg_sample_facts(7) [where e = "Some 7"], where b = 8 and at = "sample_now 5"]
  by (simp add: sg_sample_facts sg_sample_edit)

theorem activation_in_force_witness:
  "\<exists>gs' s'. on_block_write 7 ''D/L$SP$S'' ''ActSG'' (Unsigned 2) (sample_now 5) ([sg_sample None], sg_sample_ied) = (Inr (), gs', s') \<and>
    ied_value s' ''D/P$SG$x'' = Some (Integer 20)"
proof -
  have "unsigned_of (Unsigned 2) = Some 2" by (simp add: unsigned_of_def try_u32_def)
  from activation_in_force [OF sg_sample_facts(1,2,4) [where e = None] this _ _ sg_sample_facts(7) [where e = None], where r = "''D/P$SG$x''" and at = "sample_now 5" and b = 7 and s = sg_sample_ied]
  show ?thesis
    by (auto simp: sg_sample_facts writable_leaf_def sg_sample_leaves var_leaf_def accepts_def value_shapes)
qed

theorem activation_time_unreadable_witness:
  "\<exists>gs' s' w. on_block_write 7 ''D/L$SP$S'' ''ActSG'' (Unsigned 2) (sample_now 5) ([sg_sample None], sg_sample_ied) = (Inr (), gs', s') \<and>
    ied_value s' ''D/L$SP$S$LActTm'' = Some w \<and> last_activation w = None"
proof -
  have "unsigned_of (Unsigned 2) = Some 2" by (simp add: unsigned_of_def try_u32_def)
  from activation_time_unreadable [OF sg_sample_facts(1,2,4) [where e = None] this, where s = sg_sample_ied and at = "sample_now 5" and b = 7]
  show ?thesis
    by (simp add: sg_sample_facts writable_leaf_def sg_sample_leaves var_leaf_def accepts_def value_shapes)
qed

end
