(* ===== verification/Spec2Isabelle.thy ===== *)
theory Spec2Isabelle
  imports Machine Time Quality Flags Data Ethernet Tpkt Cotp Oid Session Goose_Subscriber Sv_Subscriber
    Paging Server_Control Report Mms_Pdu Segments Rcb_Safety Server_Sg
begin

text \<open>
  A verification development for iec61850-rs, an IEC 61850 stack in Rust. Paths are under \<open>src/\<close>.

  \<^bold>\<open>The program.\<close> Three protocol stacks share one set of common types (\<open>common/\<close>), one BER codec (\<open>ber/\<close>) and
  the MMS data values (\<open>proto/data.rs\<close>). GOOSE and sampled values put APDUs straight into Ethernet frames; MMS
  runs over TPKT, COTP, session, presentation and ACSE. Every protocol core is sans-IO: a state that operations
  and received octets advance, with the time handed in; the drivers around it (sockets, the command line) hold
  no protocol state. Above the MMS PDUs a server answers from an IED model: variables and data sets, controls,
  reports, setting groups and logs are one state machine each, called by the ACSI layer with the association a
  request came on; a client puts answers that come in pages together.

  \<^bold>\<open>The theories,\<close> in the order they build on each other. Each maps the file it names, one definition per
  function, one datatype or record per enum or struct, under the source's names (a method is prefixed with its
  type where the name alone is taken: \<open>queue_push\<close> for \<open>EventQueue::push\<close>).
    \<^item> \<open>Prelude\<close>: words, octet strings, slices, the result and state monads; \<open>Errors\<close>: \<open>common/error.rs\<close> and the decode
      limits; \<open>Codec\<close>: the contract of a fixed-width octet codec; \<open>Float_Bits\<close>, \<open>Float_Parse\<close>, \<open>Strings\<close>: what the
      source uses of the standard library (float conversions and literals, \<open>str\<close> operations).
    \<^item> \<open>Machine\<close> (\<open>common/machine.rs\<close>): instants, the event queue, the timer contract of a sans-IO core; \<open>Time\<close>,
      \<open>Quality\<close>, \<open>Flags\<close>: the packed common types; \<open>Reference\<close>: object references and functional constraints.
    \<^item> \<open>Ber_Writer\<close>, \<open>Ber_Reader\<close>, \<open>Ber\<close>, \<open>Ber_Fields\<close> (\<open>ber/\<close>): the encoder over a sink, the cursor, that the one
      reads the other, and sequences with optional members. \<open>Data\<close> (\<open>proto/data.rs\<close>): MMS data with its limits.
    \<^item> \<open>Ethernet\<close>, \<open>Goose_Apdu\<close>, \<open>Goose_Publisher\<close>, \<open>Goose_Subscriber\<close> (\<open>proto/ethernet.rs\<close>, \<open>proto/goose/\<close>): GOOSE
      from values to events. \<open>Sv_Layout\<close>, \<open>Sv_Apdu\<close>, \<open>Sv_Publisher\<close>, \<open>Sv_Subscriber\<close> (\<open>proto/sv/\<close>): sampled values
      from samples to events.
    \<^item> \<open>Tpkt\<close>, \<open>Cotp\<close>, \<open>Oid\<close>, \<open>Session\<close> (\<open>proto/osi/\<close>): the connection-oriented layers.
    \<^item> \<open>Typespec\<close>, \<open>Mms_Access\<close>, \<open>Mms_Services\<close>, \<open>Mms_Lists\<close>, \<open>Mms_Requests\<close>, \<open>Mms_Responses\<close>, \<open>Mms_Pdu\<close>
      (\<open>proto/mms/mod.rs\<close>, \<open>typespec.rs\<close>, \<open>alternate.rs\<close>, \<open>file.rs\<close>, \<open>reject.rs\<close>, \<open>journal.rs\<close>): object names, type
      specifications, the confirmed services, and the PDUs around them; \<open>Mms_Control\<close> (\<open>control.rs\<close>): the control
      structures; \<open>Report\<close> (\<open>report.rs\<close>): reports as values and the client's assembler of segments.
    \<^item> \<open>Model\<close> (\<open>model/mod.rs\<close>), \<open>Server_Tree\<close>, \<open>Server_Ied\<close> (\<open>server/tree.rs\<close>, \<open>ied.rs\<close>): the descriptor, the tree of
      variables a logical device serves, and the served IED with its values and data sets.
    \<^item> \<open>Server_Control\<close>, \<open>Server_Log\<close>, \<open>Server_Rcb\<close>, \<open>Server_Sg\<close> (\<open>server/control.rs\<close>, \<open>log.rs\<close>, \<open>rcb.rs\<close>, \<open>sg.rs\<close>): the
      engines, whole handlers with every guard; \<open>Segments\<close>: a report cut into PDUs of a budget; \<open>Rcb_Safety\<close>: what
      the report engine promises its clients.
    \<^item> \<open>Paging\<close> (\<open>server/acsi.rs\<close>, \<open>client/mod.rs\<close>, \<open>client/log.rs\<close>): name lists and journals in pages, and the
      client loops that collect them.

  \<^bold>\<open>What is shown.\<close>
    \<^item> Round trips: every encoder that succeeds is read back to the value it was given, within the decode limits,
      from a single INTEGER up to whole GOOSE, sampled-value and MMS PDUs; decoders stay within their limits on
      arbitrary octets; the TPKT reader does not depend on how its input is cut.
    \<^item> State machines: an invariant kept by every operation (publishers, subscribers, the queue, the served IED,
      the log store, report control blocks), and behaviour over arbitrary runs: retransmission schedule, replay
      protection, frame and sample accounting, selection before operation, ownership of report control blocks,
      exclusive editing of setting groups.
    \<^item> End to end: what a publisher sends a subscriber delivers; a report the server builds, segmented to any
      budget it fits, is what the client assembles; a resumed report client gets exactly the later entries; the
      log and name-list loops of the client return what the server holds.
    \<^item> Refinement: the ring of the memory log against the unbounded history of appends; the field layout against
      the fixed sample block.
    \<^item> Where the code does not do what it documents, a theorem pins what it does (\<open>QueryLogByTime\<close> across days, a
      reservation that outlives its client, a deleted data set, an orphaned edit, the activation time, a failed
      publish, refresh times after a rebuild), and the exact guarantee that remains is stated beside it.

  \<^bold>\<open>Interfaces.\<close> Locales state what one component relies on in another, and each is interpreted on the model:
  \<open>octet_codec\<close> (time and quality codecs, \<open>smpSynch\<close>), \<open>ber_field\<close> (every primitive field), \<open>bounded_queue\<close> (the event
  queue), \<open>timed_core\<close> (a core is idle before the time it names: publisher, subscribers, controls), \<open>log_store\<close>
  (the store the log service and its client need: the memory log), \<open>stream_framing\<close> (TPKT).

  \<^bold>\<open>Loops.\<close> A loop is structural recursion or a \<open>function\<close> with its measure: octets left in a cursor, groups of a
  tag, the interval of a bisection, members of a report not yet sent. The client loops that page against a peer
  are \<open>partial_function (option)\<close>, since a peer might answer for ever, and are proved to return against every
  peer. No fuel is used.

  \<^bold>\<open>Parameters.\<close> Code that is not the crate's is an argument: the peer of a client loop (any function from request
  and peer state), the control hook of the application, and in the PDUs the element an unknown choice keeps.

  \<^bold>\<open>Conventions.\<close> Octets are 8-bit words, an integer of the source has its width, \<open>usize\<close> is a natural number, a
  string is the list of its UTF-8 octets as characters, a float is its bit pattern. A \<open>Result\<close> is a sum with the
  error on the left; an operation on a mutable receiver returns the receiver it leaves, on errors too. Buffer
  capacities, allocation and the Display texts are not modelled.

  \<^bold>\<open>Not modelled.\<close> The presentation and ACSE layers and the association state machine above them; the dispatch of
  \<open>server/acsi.rs\<close> beyond paging and journals, tracking, supervision and files; the client's calls other than the
  paging loops (blocking calls over a socket); \<open>server/net.rs\<close>, the pcap reader and the command line (I/O); the SCL
  reader (an XML reader over a third-party tokenizer) and its rules.
\<close>

end
